(* ===== verification/Prelude.thy ===== *)
theory Prelude
  imports Complex_Main "HOL-Library.Word" "HOL-Library.Monad_Syntax" "HOL-Library.AList"
begin

text \<open>
  Shared vocabulary of the development: the C integer types as machine words, checked loads and
  stores on arrays, the counting loop \<open>for (i = a; i < b; i++)\<close> and the rules the component
  proofs use for them.

  A model function returns an \<open>option\<close> where the C code could touch memory out of bounds:
  \<open>None\<close> is the fault, so a theorem that the result is a \<open>Some\<close> is a memory-safety theorem.
\<close>

unbundle bit_operations_syntax

section \<open>C integer types\<close>

type_synonym u8 = "8 word"
type_synonym u16 = "16 word"
type_synonym u32 = "32 word"
type_synonym u64 = "64 word"
type_synonym s32 = "32 word"
type_synonym s64 = "64 word"

named_theorems bounds_simps \<open>lengths and index bounds of the model's arrays\<close>
named_theorems frame_simps \<open>parts of a state an operation leaves alone\<close>
named_theorems option_elims \<open>inversion of successful option computations\<close>

section \<open>Signed readings of words\<close>

lemma sint_less_2p: "sint (w :: 'a::len word) < 2 ^ (LENGTH('a) - 1)"
  using sint_lt [of w] by simp

lemma sint_ge_m2p: "- (2 ^ (LENGTH('a) - 1)) \<le> sint (w :: 'a::len word)"
  using sint_ge [of w] by simp

lemma sint_s32_less: "sint (w :: 32 word) < 2147483648"
  using sint_less_2p [of w] by simp

lemma sint_s32_ge: "- 2147483648 \<le> sint (w :: 32 word)"
  using sint_ge_m2p [of w] by simp

lemma sint_s64_less: "sint (w :: 64 word) < 9223372036854775808"
  using sint_less_2p [of w] by simp

lemma sint_s64_ge: "- 9223372036854775808 \<le> sint (w :: 64 word)"
  using sint_ge_m2p [of w] by simp

lemma sint_of_int_s32:
  "- 2147483648 \<le> i \<Longrightarrow> i < 2147483648 \<Longrightarrow> sint (word_of_int i :: 32 word) = i"
  by (simp add: signed_of_int signed_take_bit_int_eq_self)

lemma sint_of_int_s64:
  "- 9223372036854775808 \<le> i \<Longrightarrow> i < 9223372036854775808 \<Longrightarrow> sint (word_of_int i :: 64 word) = i"
  by (simp add: signed_of_int signed_take_bit_int_eq_self)

lemma uint_nonneg_s64:
  assumes "0 \<le> sint (s :: 64 word)"
  shows "uint s = sint s"
proof -
  have "uint s = uint (word_of_int (sint s) :: 64 word)" by simp
  also have "\<dots> = sint s mod 2 ^ 64" by (simp only: uint_word_of_int) simp
  also have "\<dots> = sint s" using assms sint_s64_less [of s] by simp
  finally show ?thesis .
qed

lemma uint_diff_s64:
  assumes "sint b \<le> sint (a :: 64 word)"
  shows "uint (a - b) = sint a - sint b"
proof -
  have "uint (a - b) = uint (word_of_int (sint a - sint b) :: 64 word)" by simp
  also have "\<dots> = (sint a - sint b) mod 2 ^ 64" by (simp only: uint_word_of_int) simp
  also have "\<dots> = sint a - sint b"
    using assms sint_s64_less [of a] sint_s64_ge [of b] by simp
  finally show ?thesis .
qed

text \<open>
  Truncating an arithmetic right shift of a 64-bit sum to 32 bits keeps bits 16 to 47 only, so the
  result does not depend on whether the 64-bit sum wrapped around.
\<close>

lemma shift_trunc_of_int:
  "(ucast (signed_drop_bit 16 (word_of_int d :: 64 word)) :: 32 word) = word_of_int (d div 65536)"
proof -
  have "d div 65536 = drop_bit 16 d"
    by (simp add: drop_bit_eq_div)
  then show ?thesis
    by (auto intro!: bit_word_eqI simp: bit_simps)
qed

section \<open>Checked array access\<close>

definition ld :: "'a list \<Rightarrow> nat \<Rightarrow> 'a option" where
  "ld xs i = (if i < length xs then Some (xs ! i) else None)"

definition st :: "'a list \<Rightarrow> nat \<Rightarrow> 'a \<Rightarrow> 'a list option" where
  "st xs i v = (if i < length xs then Some (xs[i := v]) else None)"

lemma ld_Some [simp]: "i < length xs \<Longrightarrow> ld xs i = Some (xs ! i)"
  by (simp add: ld_def)

lemma ld_eq_None [simp]: "ld xs i = None \<longleftrightarrow> length xs \<le> i"
  by (auto simp: ld_def)

lemma st_Some [simp]: "i < length xs \<Longrightarrow> st xs i v = Some (xs[i := v])"
  by (simp add: st_def)

lemma st_eq_None [simp]: "st xs i v = None \<longleftrightarrow> length xs \<le> i"
  by (auto simp: st_def)

lemma ld_eq_SomeD [option_elims]: "ld xs i = Some v \<Longrightarrow> i < length xs \<and> v = xs ! i"
  by (auto simp: ld_def split: if_splits)

lemma st_eq_SomeD [option_elims]: "st xs i v = Some ys \<Longrightarrow> i < length xs \<and> ys = xs[i := v]"
  by (auto simp: st_def split: if_splits)

section \<open>Counting loops\<close>

text \<open>\<open>for_upto a b body s\<close> is \<open>for (i = a; i < b; i++) body\<close> over the state \<open>s\<close>.\<close>

function for_upto :: "nat \<Rightarrow> nat \<Rightarrow> (nat \<Rightarrow> 's \<Rightarrow> 's option) \<Rightarrow> 's \<Rightarrow> 's option" where
  "for_upto a b body s =
     (if a < b then (case body a s of None \<Rightarrow> None | Some s' \<Rightarrow> for_upto (Suc a) b body s')
      else Some s)"
  by pat_completeness auto
termination
  by (relation "measure (\<lambda>(a, b, body, s). b - a)") auto

declare for_upto.simps [simp del]

lemma for_upto_done [simp]: "b \<le> a \<Longrightarrow> for_upto a b body s = Some s"
  by (simp add: for_upto.simps)

lemma for_upto_step:
  "a < b \<Longrightarrow> for_upto a b body s =
     (case body a s of None \<Rightarrow> None | Some s' \<Rightarrow> for_upto (Suc a) b body s')"
  by (subst for_upto.simps) simp

text \<open>
  The Hoare rule of the loop, for total correctness: a body that succeeds under the invariant and
  re-establishes it at the next index makes the loop succeed with the invariant at the bound.
\<close>

lemma for_upto_rule:
  assumes "a \<le> b" and "I a s"
    and step: "\<And>i s. a \<le> i \<Longrightarrow> i < b \<Longrightarrow> I i s \<Longrightarrow> \<exists>s'. body i s = Some s' \<and> I (Suc i) s'"
  shows "\<exists>s'. for_upto a b body s = Some s' \<and> I b s'"
  using assms
proof (induction a b body s rule: for_upto.induct)
  case (1 a b body s)
  show ?case
  proof (cases "a < b")
    case True
    then obtain s' where s': "body a s = Some s'" "I (Suc a) s'"
      using 1(3,4) by blast
    have "\<exists>t. for_upto (Suc a) b body s' = Some t \<and> I b t"
      by (rule "1.IH") (use True s' 1(4) in auto)
    with True s' show ?thesis by (simp add: for_upto_step)
  next
    case False
    with 1(2,3) show ?thesis by auto
  qed
qed

text \<open>A loop whose body never fails is a fold over the indices.\<close>

lemma for_upto_fold: "for_upto a b (\<lambda>i s. Some (f i s)) s = Some (fold f [a..<b] s)"
proof (induction "b - a" arbitrary: a s)
  case 0
  then show ?case by simp
next
  case (Suc n)
  then have "a < b" "n = b - Suc a" by auto
  with Suc.hyps(1) [of "Suc a" "f a s"] show ?case
    by (simp add: for_upto_step upt_conv_Cons)
qed

section \<open>Running minima and maxima\<close>

lemma less_min: "(a :: 'a::linorder) < b \<Longrightarrow> min a b = a" "\<not> a < b \<Longrightarrow> min a b = b"
  by (auto simp: min_def)

lemma greater_max: "(a :: 'a::linorder) > b \<Longrightarrow> max a b = a" "\<not> a > b \<Longrightarrow> max a b = b"
  by (auto simp: max_def)

end
