(* ===== verification/Bpf_Maps.thy ===== *)
theory Bpf_Maps
  imports Prelude
begin

text \<open>
  The BPF runtime as the programs use it: maps of type \<open>BPF_MAP_TYPE_HASH\<close> and
  \<open>BPF_MAP_TYPE_ARRAY\<close>, program arrays, and the helpers \<open>bpf_map_lookup_elem\<close>,
  \<open>bpf_map_update_elem\<close>. Their behaviour is the documented one
  (\<open>src/libbpf/include/uapi/linux/bpf.h\<close>, descriptions of the commands and helpers): an update
  of a full hash map with a new key is refused with \<open>E2BIG\<close>, the flags \<open>BPF_NOEXIST\<close> and
  \<open>BPF_EXIST\<close> guard the key's presence, every element of an array exists.

  A successful lookup returns a pointer into the map; the program writes through it.
  \<open>hash_store\<close> is that write: the value of a present key is replaced in place.
\<close>

section \<open>Error codes and update flags\<close>

definition EINVAL :: int where "EINVAL = 22"
definition ENOENT :: int where "ENOENT = 2"
definition E2BIG :: int where "E2BIG = 7"
definition ENOMEM :: int where "ENOMEM = 12"
definition EEXIST :: int where "EEXIST = 17"

definition BPF_ANY :: u64 where "BPF_ANY = 0"
definition BPF_NOEXIST :: u64 where "BPF_NOEXIST = 1"
definition BPF_EXIST :: u64 where "BPF_EXIST = 2"

lemmas errno_defs = EINVAL_def ENOENT_def E2BIG_def EEXIST_def ENOMEM_def
lemmas flag_defs = BPF_ANY_def BPF_NOEXIST_def BPF_EXIST_def

section \<open>Hash maps\<close>

record ('k, 'v) bpf_hash =
  entries :: "('k \<times> 'v) list"
  max_entries :: nat

definition hash_lookup :: "('k, 'v) bpf_hash \<Rightarrow> 'k \<Rightarrow> 'v option" where
  "hash_lookup m k = map_of (entries m) k"

definition hash_update :: "('k, 'v) bpf_hash \<Rightarrow> 'k \<Rightarrow> 'v \<Rightarrow> u64 \<Rightarrow> ('k, 'v) bpf_hash \<times> int" where
  "hash_update m k v flags =
     (if flags > BPF_EXIST then (m, - EINVAL)
      else case hash_lookup m k of
        Some _ \<Rightarrow>
          if flags = BPF_NOEXIST then (m, - EEXIST)
          else (m\<lparr>entries := AList.update k v (entries m)\<rparr>, 0)
      | None \<Rightarrow>
          if flags = BPF_EXIST then (m, - ENOENT)
          else if length (entries m) \<ge> max_entries m then (m, - E2BIG)
          else (m\<lparr>entries := AList.update k v (entries m)\<rparr>, 0))"

definition hash_store :: "('k, 'v) bpf_hash \<Rightarrow> 'k \<Rightarrow> 'v \<Rightarrow> ('k, 'v) bpf_hash" where
  "hash_store m k v =
     (case hash_lookup m k of
        Some _ \<Rightarrow> m\<lparr>entries := AList.update k v (entries m)\<rparr>
      | None \<Rightarrow> m)"

definition hash_wf :: "('k, 'v) bpf_hash \<Rightarrow> bool" where
  "hash_wf m \<longleftrightarrow> distinct (map fst (entries m)) \<and> length (entries m) \<le> max_entries m"

section \<open>Arrays\<close>

text \<open>The helpers read the \<open>int32_t\<close> key of an array as a \<open>u32\<close> index.\<close>

definition array_lookup :: "'v list \<Rightarrow> s32 \<Rightarrow> 'v option" where
  "array_lookup a k = (if unat k < length a then Some (a ! unat k) else None)"

definition array_update :: "'v list \<Rightarrow> s32 \<Rightarrow> 'v \<Rightarrow> u64 \<Rightarrow> 'v list \<times> int" where
  "array_update a k v flags =
     (if flags > BPF_EXIST then (a, - EINVAL)
      else if unat k \<ge> length a then (a, - E2BIG)
      else if flags = BPF_NOEXIST then (a, - EEXIST)
      else (a[unat k := v], 0))"

definition array_store :: "'v list \<Rightarrow> s32 \<Rightarrow> 'v \<Rightarrow> 'v list" where
  "array_store a k v = (if unat k < length a then a[unat k := v] else a)"

section \<open>The interface both map types provide\<close>

text \<open>
  What the programs rely on: a successful update makes the key readable with the new value and
  touches no other key, a refused one changes nothing, and a write through a looked-up pointer
  changes that key's value only.
\<close>

locale elem_map =
  fixes lookup :: "'m \<Rightarrow> 'k \<Rightarrow> 'v option"
    and update :: "'m \<Rightarrow> 'k \<Rightarrow> 'v \<Rightarrow> u64 \<Rightarrow> 'm \<times> int"
    and store :: "'m \<Rightarrow> 'k \<Rightarrow> 'v \<Rightarrow> 'm"
    and wf :: "'m \<Rightarrow> bool"
  assumes update_ok: "update m k v fl = (m', 0) \<Longrightarrow> lookup m' = (lookup m)(k \<mapsto> v)"
    and update_refused: "update m k v fl = (m', e) \<Longrightarrow> e \<noteq> 0 \<Longrightarrow> m' = m"
    and update_any: "lookup m k = Some u \<Longrightarrow> snd (update m k v BPF_ANY) = 0"
    and update_wf: "wf m \<Longrightarrow> update m k v fl = (m', e) \<Longrightarrow> wf m'"
    and store_present: "lookup m k = Some u \<Longrightarrow> lookup (store m k v) = (lookup m)(k \<mapsto> v)"
    and store_absent: "lookup m k = None \<Longrightarrow> store m k v = m"
    and store_wf: "wf m \<Longrightarrow> wf (store m k v)"
begin

lemma update_lookup_same:
  assumes "update m k v fl = (m', e)" "e = 0"
  shows "lookup m' k = Some v"
  using assms update_ok by fastforce

lemma update_frame:
  assumes "update m k v fl = (m', e)" "k' \<noteq> k"
  shows "lookup m' k' = lookup m k'"
  using assms update_ok [of m k v fl m'] update_refused [of m k v fl m' e]
  by (cases "e = 0") auto

lemma update_keeps_keys:
  assumes "update m k v fl = (m', e)"
  shows "dom (lookup m) \<subseteq> dom (lookup m')"
  using assms update_ok [of m k v fl m'] update_refused [of m k v fl m' e]
  by (cases "e = 0") auto

lemma store_frame: "k' \<noteq> k \<Longrightarrow> lookup (store m k v) k' = lookup m k'"
  by (cases "lookup m k") (auto simp: store_present store_absent)

lemma store_same: "lookup m k = Some u \<Longrightarrow> lookup (store m k v) k = Some v"
  by (simp add: store_present)

lemma store_keys: "dom (lookup (store m k v)) = dom (lookup m)"
  by (cases "lookup m k") (auto simp: store_present store_absent)

lemma store_store:
  "lookup m k = Some u \<Longrightarrow> lookup (store (store m k v) k w) = lookup (store m k w)"
  by (simp add: store_present)

end

subsection \<open>The hash map provides it\<close>

lemma hash_lookup_update [simp]:
  "hash_lookup (m\<lparr>entries := AList.update k v (entries m)\<rparr>) = (hash_lookup m)(k \<mapsto> v)"
  by (simp add: hash_lookup_def update_conv' fun_eq_iff)

lemma length_update_present:
  "map_of al k = Some u \<Longrightarrow> length (AList.update k v al) = length al"
  by (induction al) auto

lemma length_update_absent:
  "map_of al k = None \<Longrightarrow> length (AList.update k v al) = Suc (length al)"
  by (induction al) (auto split: if_splits)

lemma hash_update_wf:
  "hash_wf m \<Longrightarrow> hash_update m k v fl = (m', e) \<Longrightarrow> hash_wf m'"
  by (auto simp: hash_update_def hash_wf_def hash_lookup_def distinct_update
      length_update_present length_update_absent split: if_splits option.splits)

lemma hash_store_wf: "hash_wf m \<Longrightarrow> hash_wf (hash_store m k v)"
  by (auto simp: hash_store_def hash_wf_def hash_lookup_def distinct_update
      length_update_present split: option.splits)

lemma hash_store_max [frame_simps]: "max_entries (hash_store m k v) = max_entries m"
  by (simp add: hash_store_def split: option.splits)

lemma hash_update_max [frame_simps]: "max_entries (fst (hash_update m k v fl)) = max_entries m"
  by (simp add: hash_update_def split: option.splits)

interpretation hash: elem_map hash_lookup hash_update hash_store hash_wf
proof unfold_locales
  fix m m' :: "('k, 'v) bpf_hash" and k v u fl e
  show "hash_update m k v fl = (m', 0) \<Longrightarrow> hash_lookup m' = (hash_lookup m)(k \<mapsto> v)"
    by (auto simp: hash_update_def errno_defs split: if_splits option.splits)
  show "hash_update m k v fl = (m', e) \<Longrightarrow> e \<noteq> 0 \<Longrightarrow> m' = m"
    by (auto simp: hash_update_def split: if_splits option.splits)
  show "hash_lookup m k = Some u \<Longrightarrow> snd (hash_update m k v BPF_ANY) = 0"
    by (simp add: hash_update_def flag_defs)
  show "hash_wf m \<Longrightarrow> hash_update m k v fl = (m', e) \<Longrightarrow> hash_wf m'"
    by (rule hash_update_wf)
  show "hash_lookup m k = Some u \<Longrightarrow> hash_lookup (hash_store m k v) = (hash_lookup m)(k \<mapsto> v)"
    by (simp add: hash_store_def)
  show "hash_lookup m k = None \<Longrightarrow> hash_store m k v = m"
    by (simp add: hash_store_def)
  show "hash_wf m \<Longrightarrow> hash_wf (hash_store m k v)"
    by (rule hash_store_wf)
qed

text \<open>\<open>BPF_NOEXIST\<close> on an absent key inserts unless the map is full.\<close>

lemma hash_insert_new:
  "hash_lookup m k = None \<Longrightarrow> length (entries m) < max_entries m \<Longrightarrow>
     hash_update m k v BPF_NOEXIST = (m\<lparr>entries := AList.update k v (entries m)\<rparr>, 0)"
  by (simp add: hash_update_def flag_defs)

lemma hash_insert_full:
  "hash_lookup m k = None \<Longrightarrow> max_entries m \<le> length (entries m) \<Longrightarrow>
     hash_update m k v BPF_NOEXIST = (m, - E2BIG)"
  by (simp add: hash_update_def flag_defs)

subsection \<open>The array provides it\<close>

interpretation arr: elem_map array_lookup array_update array_store "\<lambda>a. length a = n"
proof unfold_locales
  fix a a' :: "'v list" and k v u fl e
  show "array_update a k v fl = (a', 0) \<Longrightarrow> array_lookup a' = (array_lookup a)(k \<mapsto> v)"
    by (auto simp: array_update_def array_lookup_def fun_eq_iff nth_list_update errno_defs
        dest: word_unat_eq_iff [THEN iffD2] split: if_splits)
  show "array_update a k v fl = (a', e) \<Longrightarrow> e \<noteq> 0 \<Longrightarrow> a' = a"
    by (auto simp: array_update_def split: if_splits)
  show "array_lookup a k = Some u \<Longrightarrow> snd (array_update a k v BPF_ANY) = 0"
    by (simp add: array_update_def array_lookup_def flag_defs split: if_splits)
  show "length a = n \<Longrightarrow> array_update a k v fl = (a', e) \<Longrightarrow> length a' = n"
    by (auto simp: array_update_def split: if_splits)
  show "array_lookup a k = Some u \<Longrightarrow> array_lookup (array_store a k v) = (array_lookup a)(k \<mapsto> v)"
    by (auto simp: array_store_def array_lookup_def fun_eq_iff nth_list_update
        dest: word_unat_eq_iff [THEN iffD2] split: if_splits)
  show "array_lookup a k = None \<Longrightarrow> array_store a k v = a"
    by (simp add: array_store_def array_lookup_def split: if_splits)
  show "length a = n \<Longrightarrow> length (array_store a k v) = n"
    by (simp add: array_store_def)
qed

section \<open>Program arrays\<close>

text \<open>A \<open>BPF_MAP_TYPE_PROG_ARRAY\<close> slot is empty or holds a program.\<close>

definition prog_lookup :: "'p option list \<Rightarrow> nat \<Rightarrow> 'p option" where
  "prog_lookup a i = (if i < length a then a ! i else None)"

end
