(* ===== verification/Bytes.thy ===== *)
theory Bytes
  imports Prelude
begin

text \<open>
  Integers in memory on a little-endian host: the bytes of a word, words assembled from bytes, byte
  reversal, and loads and stores of 32-bit words in a byte buffer.
\<close>

section \<open>Words and their bytes\<close>

text \<open>The compiler's \<open>__builtin_bswap16\<close> and \<open>__builtin_bswap32\<close> reverse the bytes.\<close>

definition byte_at :: "'a::len word \<Rightarrow> nat \<Rightarrow> u8" where
  "byte_at w i = ucast (drop_bit (8 * i) w)"

definition le16 :: "u8 \<Rightarrow> u8 \<Rightarrow> u16" where
  "le16 b0 b1 = ucast b0 OR push_bit 8 (ucast b1)"

definition le32 :: "u8 \<Rightarrow> u8 \<Rightarrow> u8 \<Rightarrow> u8 \<Rightarrow> u32" where
  "le32 b0 b1 b2 b3 =
     ucast b0 OR push_bit 8 (ucast b1) OR push_bit 16 (ucast b2) OR push_bit 24 (ucast b3)"

definition bswap16 :: "u16 \<Rightarrow> u16" where
  "bswap16 w = le16 (byte_at w 1) (byte_at w 0)"

definition bswap32 :: "u32 \<Rightarrow> u32" where
  "bswap32 w = le32 (byte_at w 3) (byte_at w 2) (byte_at w 1) (byte_at w 0)"

lemmas byte_order_defs = bswap16_def bswap32_def le16_def le32_def byte_at_def

lemma bit_le16:
  "bit (le16 b0 b1) i \<longleftrightarrow> (if i < 8 then bit b0 i else i < 16 \<and> bit b1 (i - 8))"
  by (auto simp: le16_def bit_simps dest: bit_imp_le_length)

lemma bit_le32:
  "bit (le32 b0 b1 b2 b3) i \<longleftrightarrow>
     (if i < 8 then bit b0 i else if i < 16 then bit b1 (i - 8)
      else if i < 24 then bit b2 (i - 16) else i < 32 \<and> bit b3 (i - 24))"
  by (auto simp: le32_def bit_simps dest: bit_imp_le_length)

lemma bit_byte_at: "bit (byte_at w j) i \<longleftrightarrow> i < 8 \<and> bit w (8 * j + i)"
  by (auto simp: byte_at_def bit_simps dest: bit_imp_le_length)

lemma byte_at_le16: "byte_at (le16 b0 b1) 0 = b0" "byte_at (le16 b0 b1) 1 = b1"
  by (auto intro!: bit_word_eqI simp: bit_byte_at bit_le16)

lemma byte_at_le32:
  "byte_at (le32 b0 b1 b2 b3) 0 = b0" "byte_at (le32 b0 b1 b2 b3) 1 = b1"
  "byte_at (le32 b0 b1 b2 b3) 2 = b2" "byte_at (le32 b0 b1 b2 b3) 3 = b3"
  by (auto intro!: bit_word_eqI simp: bit_byte_at bit_le32)

lemma bswap16_le16: "bswap16 (le16 b0 b1) = le16 b1 b0"
  by (simp only: bswap16_def byte_at_le16)

lemma bswap32_le32: "bswap32 (le32 b0 b1 b2 b3) = le32 b3 b2 b1 b0"
  by (simp only: bswap32_def byte_at_le32)

lemma le32_byte_at: "le32 (byte_at w 0) (byte_at w 1) (byte_at w 2) (byte_at w 3) = w"
proof (rule bit_word_eqI)
  fix i assume "i < LENGTH(32)"
  then have "i < 32" by simp
  then show "bit (le32 (byte_at w 0) (byte_at w 1) (byte_at w 2) (byte_at w 3)) i \<longleftrightarrow> bit w i"
    by (auto simp: bit_le32 bit_byte_at dest: bit_imp_le_length)
qed

lemma le16_byte_at: "le16 (byte_at w 0) (byte_at w 1) = w"
proof (rule bit_word_eqI)
  fix i assume "i < LENGTH(16)"
  then have "i < 16" by simp
  then show "bit (le16 (byte_at w 0) (byte_at w 1)) i \<longleftrightarrow> bit w i"
    by (auto simp: bit_le16 bit_byte_at dest: bit_imp_le_length)
qed

lemma bswap32_bswap32 [simp]: "bswap32 (bswap32 w) = w"
  by (simp add: bswap32_def byte_at_le32 [unfolded One_nat_def] byte_at_le32 le32_byte_at [unfolded One_nat_def])

lemma bswap16_bswap16 [simp]: "bswap16 (bswap16 w) = w"
  by (simp add: bswap16_def byte_at_le16 [unfolded One_nat_def] le16_byte_at [unfolded One_nat_def])

section \<open>Loads and stores\<close>

definition get16 :: "u8 list \<Rightarrow> nat \<Rightarrow> u16" where
  "get16 d off = le16 (d ! off) (d ! (off + 1))"

definition get32 :: "u8 list \<Rightarrow> nat \<Rightarrow> u32" where
  "get32 d off = le32 (d ! off) (d ! (off + 1)) (d ! (off + 2)) (d ! (off + 3))"

definition bytes32 :: "u32 \<Rightarrow> u8 list" where
  "bytes32 w = [byte_at w 0, byte_at w 1, byte_at w 2, byte_at w 3]"

definition bytes16 :: "u16 \<Rightarrow> u8 list" where
  "bytes16 w = [byte_at w 0, byte_at w 1]"

definition put :: "u8 list \<Rightarrow> nat \<Rightarrow> u8 list \<Rightarrow> u8 list" where
  "put d off bs = take off d @ bs @ drop (off + length bs) d"

definition put32 :: "u8 list \<Rightarrow> nat \<Rightarrow> u32 \<Rightarrow> u8 list" where
  "put32 d off w = put d off (bytes32 w)"

text \<open>\<open>words_at d off n\<close> are the \<open>n\<close> words from offset \<open>off\<close>.\<close>

definition words_at :: "u8 list \<Rightarrow> nat \<Rightarrow> nat \<Rightarrow> u32 list" where
  "words_at d off n = map (\<lambda>i. get32 d (off + 4 * i)) [0..<n]"

lemma length_bytes32 [simp]: "length (bytes32 w) = 4"
  by (simp add: bytes32_def)

lemma length_put [simp]: "off + length bs \<le> length d \<Longrightarrow> length (put d off bs) = length d"
  by (simp add: put_def)

lemma length_put32 [simp]: "off + 4 \<le> length d \<Longrightarrow> length (put32 d off w) = length d"
  by (simp add: put32_def)

lemma length_words_at [simp]: "length (words_at d off n) = n"
  by (simp add: words_at_def)

lemma nth_words_at [simp]: "i < n \<Longrightarrow> words_at d off n ! i = get32 d (off + 4 * i)"
  by (simp add: words_at_def)

lemma nth_put:
  assumes "off + length bs \<le> length d" "i < length d"
  shows "put d off bs ! i =
    (if i < off then d ! i else if i < off + length bs then bs ! (i - off) else d ! i)"
  using assms by (auto simp: put_def nth_append min_def)

lemma get32_put32:
  assumes "off + 4 \<le> length d" shows "get32 (put32 d off w) off = w"
proof -
  have "put32 d off w ! (off + i) = byte_at w i" if "i < 4" for i
    using assms that unfolding put32_def by (subst nth_put) (auto simp: bytes32_def nth_Cons' numeral_eq_Suc less_Suc_eq)
  from this [of 0] this [of 1] this [of 2] this [of 3] show ?thesis
    unfolding get32_def by (simp only: Nat.add_0_right) (simp add: le32_byte_at [unfolded One_nat_def])
qed

lemma get32_put_other:
  assumes "off + length bs \<le> length d" "p + 4 \<le> off \<or> off + length bs \<le> p" "p + 4 \<le> length d"
  shows "get32 (put d off bs) p = get32 d p"
  using assms by (auto simp: get32_def nth_put)

lemma get32_put32_other:
  assumes "off + 4 \<le> length d" "p + 4 \<le> off \<or> off + 4 \<le> p" "p + 4 \<le> length d"
  shows "get32 (put32 d off w) p = get32 d p"
  using assms get32_put_other [of off "bytes32 w" d p] by (simp add: put32_def)

lemma get32_cong:
  assumes "take n d = take n d'" "p + 4 \<le> n"
  shows "get32 d p = get32 d' p"
proof -
  have "d ! i = d' ! i" if "i < n" for i
    using assms(1) that by (metis nth_take)
  with assms(2) show ?thesis by (simp add: get32_def)
qed

end
