(* ===== verification/Packet.thy ===== *)
theory Packet
  imports Bytes
begin

text \<open>
  Packets, the header layouts of \<open>ethhdr\<close>, \<open>iphdr\<close> and \<open>tcphdr\<close>, the byte-order macros of
  \<open>bpf_endian.h\<close>, and \<open>flow_tuple\<close> of \<open>src/src/xdp.bpf.c\<close>.

  An \<open>xdp_md\<close> is the packet's bytes; a pointer into the packet is an offset from \<open>data\<close>, and
  \<open>data_end\<close> is the number of bytes. A load outside the packet is \<open>None\<close>. The programs are built
  for a little-endian target (the Makefile builds against the x86-64 headers).
\<close>

section \<open>Byte order\<close>

definition bpf_mvb16 :: "u16 \<Rightarrow> nat \<Rightarrow> nat \<Rightarrow> 32 word" where
  "bpf_mvb16 x n m = push_bit (m * 8) (drop_bit (16 - 8) (push_bit (16 - (n + 1) * 8) (ucast x :: 32 word)))"

definition bpf_swab16 :: "u16 \<Rightarrow> u16" where
  "bpf_swab16 x = ucast (bpf_mvb16 x 0 1 OR bpf_mvb16 x 1 0)"

definition bpf_mvb32 :: "u32 \<Rightarrow> nat \<Rightarrow> nat \<Rightarrow> u32" where
  "bpf_mvb32 x n m = push_bit (m * 8) (drop_bit (32 - 8) (push_bit (32 - (n + 1) * 8) x))"

definition bpf_swab32 :: "u32 \<Rightarrow> u32" where
  "bpf_swab32 x = bpf_mvb32 x 0 3 OR bpf_mvb32 x 1 2 OR bpf_mvb32 x 2 1 OR bpf_mvb32 x 3 0"

text \<open>
  \<open>bpf_htons\<close> of a constant is the shift macro, of a variable the builtin; the two agree.
\<close>

definition bpf_htons_const :: "u16 \<Rightarrow> u16" where
  "bpf_htons_const x = bpf_swab16 x"

definition bpf_ntohs :: "u16 \<Rightarrow> u16" where
  "bpf_ntohs x = bswap16 x"

definition bpf_ntohl :: "u32 \<Rightarrow> u32" where
  "bpf_ntohl x = bswap32 x"

lemmas swab_defs = bpf_swab16_def bpf_swab32_def bpf_mvb16_def bpf_mvb32_def

lemma bswap16_swab: "bpf_swab16 x = bswap16 x"
proof (rule bit_word_eqI)
  fix i assume "i < LENGTH(16)"
  then have "i < 16" by simp
  then show "bit (bpf_swab16 x) i \<longleftrightarrow> bit (bswap16 x) i"
    by (auto simp: swab_defs bswap16_def bit_le16 bit_byte_at bit_simps dest: bit_imp_le_length)
qed

lemma bswap32_swab: "bpf_swab32 x = bswap32 x"
proof (rule bit_word_eqI)
  fix i assume "i < LENGTH(32)"
  then have "i < 32" by simp
  then show "bit (bpf_swab32 x) i \<longleftrightarrow> bit (bswap32 x) i"
    by (auto simp: swab_defs bswap32_def bit_le32 bit_byte_at bit_simps dest: bit_imp_le_length)
qed

section \<open>Packet memory\<close>

record xdp_md =
  bytes :: "u8 list"

abbreviation data_end :: "xdp_md \<Rightarrow> nat" where
  "data_end ctx \<equiv> length (bytes ctx)"

definition ld8 :: "xdp_md \<Rightarrow> nat \<Rightarrow> u8 option" where
  "ld8 ctx p = ld (bytes ctx) p"

definition ld16 :: "xdp_md \<Rightarrow> nat \<Rightarrow> u16 option" where
  "ld16 ctx p = do { b0 \<leftarrow> ld8 ctx p; b1 \<leftarrow> ld8 ctx (p + 1); Some (le16 b0 b1) }"

definition ld32 :: "xdp_md \<Rightarrow> nat \<Rightarrow> u32 option" where
  "ld32 ctx p = do {
     b0 \<leftarrow> ld8 ctx p; b1 \<leftarrow> ld8 ctx (p + 1); b2 \<leftarrow> ld8 ctx (p + 2); b3 \<leftarrow> ld8 ctx (p + 3);
     Some (le32 b0 b1 b2 b3) }"

lemma ld8_Some: "p < data_end ctx \<Longrightarrow> ld8 ctx p = Some (bytes ctx ! p)"
  by (simp add: ld8_def)

lemma ld16_Some:
  "p + 1 < data_end ctx \<Longrightarrow> ld16 ctx p = Some (le16 (bytes ctx ! p) (bytes ctx ! (p + 1)))"
  by (simp add: ld16_def ld8_Some)

lemma ld32_Some:
  "p + 3 < data_end ctx \<Longrightarrow> ld32 ctx p =
     Some (le32 (bytes ctx ! p) (bytes ctx ! (p + 1)) (bytes ctx ! (p + 2)) (bytes ctx ! (p + 3)))"
  by (simp add: ld32_def ld8_Some)

lemmas load_simps = ld8_Some ld16_Some ld32_Some

section \<open>Headers\<close>

text \<open>Sizes and member offsets of the header structs; bit-fields start at the low bit.\<close>

definition sizeof_ethhdr :: nat where "sizeof_ethhdr = 14"
definition sizeof_iphdr :: nat where "sizeof_iphdr = 20"
definition sizeof_tcphdr :: nat where "sizeof_tcphdr = 20"

lemmas sizeof_defs = sizeof_ethhdr_def sizeof_iphdr_def sizeof_tcphdr_def

definition eth_h_proto :: "xdp_md \<Rightarrow> nat \<Rightarrow> u16 option" where
  "eth_h_proto ctx eth = ld16 ctx (eth + 12)"

definition ip_ihl :: "xdp_md \<Rightarrow> nat \<Rightarrow> u8 option" where
  "ip_ihl ctx ip = do { b \<leftarrow> ld8 ctx ip; Some (b AND 15) }"

definition ip_tot_len :: "xdp_md \<Rightarrow> nat \<Rightarrow> u16 option" where
  "ip_tot_len ctx ip = ld16 ctx (ip + 2)"

definition ip_protocol :: "xdp_md \<Rightarrow> nat \<Rightarrow> u8 option" where
  "ip_protocol ctx ip = ld8 ctx (ip + 9)"

definition ip_saddr :: "xdp_md \<Rightarrow> nat \<Rightarrow> u32 option" where
  "ip_saddr ctx ip = ld32 ctx (ip + 12)"

definition ip_daddr :: "xdp_md \<Rightarrow> nat \<Rightarrow> u32 option" where
  "ip_daddr ctx ip = ld32 ctx (ip + 16)"

definition tcp_source :: "xdp_md \<Rightarrow> nat \<Rightarrow> u16 option" where
  "tcp_source ctx tcp = ld16 ctx tcp"

definition tcp_dest :: "xdp_md \<Rightarrow> nat \<Rightarrow> u16 option" where
  "tcp_dest ctx tcp = ld16 ctx (tcp + 2)"

definition tcp_doff :: "xdp_md \<Rightarrow> nat \<Rightarrow> u8 option" where
  "tcp_doff ctx tcp = do { b \<leftarrow> ld8 ctx (tcp + 12); Some (drop_bit 4 b) }"

definition tcp_fin :: "xdp_md \<Rightarrow> nat \<Rightarrow> bool option" where
  "tcp_fin ctx tcp = do { b \<leftarrow> ld8 ctx (tcp + 13); Some (bit b 0) }"

definition tcp_rst :: "xdp_md \<Rightarrow> nat \<Rightarrow> bool option" where
  "tcp_rst ctx tcp = do { b \<leftarrow> ld8 ctx (tcp + 13); Some (bit b 2) }"

lemmas header_defs = eth_h_proto_def ip_ihl_def ip_tot_len_def ip_protocol_def ip_saddr_def
  ip_daddr_def tcp_source_def tcp_dest_def tcp_doff_def tcp_fin_def tcp_rst_def

section \<open>The flow key\<close>

record flow =
  saddr :: s32
  sport :: s32
  daddr :: s32
  dport :: s32

definition zero_flow :: flow where
  "zero_flow = \<lparr>saddr = 0, sport = 0, daddr = 0, dport = 0\<rparr>"

definition ETH_P_IP :: u16 where "ETH_P_IP = 0x0800"
definition IPPROTO_TCP :: u8 where "IPPROTO_TCP = 6"

definition flow_tuple :: "xdp_md \<Rightarrow> flow \<Rightarrow> (int \<times> flow) option" where
  "flow_tuple ctx f =
     (let eth = 0; ip = 0 + sizeof_ethhdr; tcp = 0 + sizeof_ethhdr + sizeof_iphdr in
      if eth + sizeof_ethhdr > data_end ctx then Some (-1, f)
      else do {
        h_proto \<leftarrow> eth_h_proto ctx eth;
        if h_proto \<noteq> bpf_htons_const ETH_P_IP then Some (-1, f)
        else if ip + sizeof_iphdr > data_end ctx then Some (-1, f)
        else do {
          protocol \<leftarrow> ip_protocol ctx ip;
          if protocol \<noteq> IPPROTO_TCP then Some (-1, f)
          else if tcp + sizeof_tcphdr > data_end ctx then Some (-1, f)
          else do {
            sa \<leftarrow> ip_saddr ctx ip;
            da \<leftarrow> ip_daddr ctx ip;
            sp \<leftarrow> tcp_source ctx tcp;
            dp \<leftarrow> tcp_dest ctx tcp;
            Some (0, f\<lparr>saddr := sa, daddr := da, sport := ucast sp, dport := ucast dp\<rparr>)
          }
        }
      })"

section \<open>What \<open>flow_tuple\<close> accepts and extracts\<close>

text \<open>An Ethernet frame with the EtherType of IPv4, protocol TCP and 20 bytes of each header.\<close>

definition tcp4_frame :: "xdp_md \<Rightarrow> bool" where
  "tcp4_frame ctx \<longleftrightarrow>
     54 \<le> data_end ctx \<and> bytes ctx ! 12 = 0x08 \<and> bytes ctx ! 13 = 0x00 \<and> bytes ctx ! 23 = 6"

definition frame_flow :: "xdp_md \<Rightarrow> flow" where
  "frame_flow ctx =
     (let b = (\<lambda>i. bytes ctx ! i) in
      \<lparr>saddr = le32 (b 26) (b 27) (b 28) (b 29), sport = ucast (le16 (b 34) (b 35)),
       daddr = le32 (b 30) (b 31) (b 32) (b 33), dport = ucast (le16 (b 36) (b 37))\<rparr>)"

lemma le16_eq_iff: "le16 a b = le16 c d \<longleftrightarrow> a = c \<and> b = d"
  by (metis byte_at_le16)

lemma htons_eth_p_ip: "bpf_htons_const ETH_P_IP = le16 0x08 0x00"
  by (simp add: bpf_htons_const_def ETH_P_IP_def swab_defs le16_def push_bit_eq_mult drop_bit_eq_div)

lemma flow_tuple_eq:
  "flow_tuple ctx f = Some (if tcp4_frame ctx then (0, frame_flow ctx) else (-1, f))"
proof (cases "14 \<le> data_end ctx \<and> bytes ctx ! 12 = 0x08 \<and> bytes ctx ! 13 = 0x00 \<and> 34 \<le> data_end ctx")
  case eth: True
  then have h: "eth_h_proto ctx 0 = Some (bpf_htons_const ETH_P_IP)"
      "ip_protocol ctx 14 = Some (bytes ctx ! 23)"
    by (simp_all add: eth_h_proto_def ip_protocol_def load_simps htons_eth_p_ip)
  show ?thesis
  proof (cases "bytes ctx ! 23 = 6 \<and> 54 \<le> data_end ctx")
    case True
    then have "ip_saddr ctx 14 = Some (saddr (frame_flow ctx))"
        "ip_daddr ctx 14 = Some (daddr (frame_flow ctx))"
        "tcp_source ctx 34 = Some (le16 (bytes ctx ! 34) (bytes ctx ! 35))"
        "tcp_dest ctx 34 = Some (le16 (bytes ctx ! 36) (bytes ctx ! 37))"
      by (simp_all add: header_defs load_simps frame_flow_def Let_def)
    with True eth h show ?thesis
      by (simp add: flow_tuple_def Let_def sizeof_defs tcp4_frame_def IPPROTO_TCP_def frame_flow_def)
  next
    case False
    with eth h show ?thesis
      by (auto simp: flow_tuple_def Let_def sizeof_defs tcp4_frame_def IPPROTO_TCP_def)
  qed
next
  case False
  show ?thesis
  proof (cases "14 \<le> data_end ctx")
    case True
    then have "eth_h_proto ctx 0 = Some (le16 (bytes ctx ! 12) (bytes ctx ! 13))"
      by (simp add: eth_h_proto_def load_simps)
    with True False show ?thesis
      by (auto simp: flow_tuple_def Let_def sizeof_defs tcp4_frame_def htons_eth_p_ip le16_eq_iff)
  next
    case short: False
    then show ?thesis by (simp add: flow_tuple_def Let_def sizeof_defs tcp4_frame_def)
  qed
qed

end
