(* ===== verification/Kernel.thy ===== *)
theory Kernel
  imports Bpf_Maps Packet
begin

text \<open>
  The data the XDP programs share: \<open>struct flow_attribute\<close> and \<open>flow_map\<close> (\<open>src/src/common.h\<close>),
  \<open>struct Net\<close>, \<open>nn_parameters\<close> and \<open>nn_idx\<close> (\<open>src/src/params.bpf.h\<close>), the program array \<open>progs\<close>
  (\<open>src/src/xdp.bpf.c\<close>), and the environment they read and write: the clock behind
  \<open>bpf_ktime_get_ns\<close> and the trace log behind \<open>bpf_printk\<close>.
\<close>

section \<open>Per-flow state\<close>

record flow_attribute =
  num_packet :: s64
  min_packet_length :: s64
  max_packet_length :: s64
  max_duration :: s64
  dst_port :: s64
  header_length :: s64
  last_packet_time :: s64
  status :: s64
  total_feature_extraction_time :: u64
  detection_start_time :: u64
  nn_idx :: s32
  hidden1 :: "s32 list"
  hidden2 :: "s32 list"

text \<open>\<open>struct flow_attribute attr = {}\<close>: all members zero.\<close>

definition zero_attribute :: flow_attribute where
  "zero_attribute =
     \<lparr>num_packet = 0, min_packet_length = 0, max_packet_length = 0, max_duration = 0,
      dst_port = 0, header_length = 0, last_packet_time = 0, status = 0,
      total_feature_extraction_time = 0, detection_start_time = 0, nn_idx = 0,
      hidden1 = replicate 32 0, hidden2 = replicate 32 0\<rparr>"

definition attribute_wf :: "flow_attribute \<Rightarrow> bool" where
  "attribute_wf a \<longleftrightarrow> length (hidden1 a) = 32 \<and> length (hidden2 a) = 32"

definition MAX_PACKET_REACORD :: nat where "MAX_PACKET_REACORD = 8192"

section \<open>Network parameters\<close>

record Net =
  layer_0_weight :: "s32 list"
  layer_1_weight :: "s32 list"
  layer_2_weight :: "s32 list"
  mean :: "s64 list"
  scale :: "s64 list"

definition net_wf :: "Net \<Rightarrow> bool" where
  "net_wf net \<longleftrightarrow>
     length (layer_0_weight net) = 192 \<and> length (layer_1_weight net) = 1024 \<and>
     length (layer_2_weight net) = 64 \<and> length (mean net) = 6 \<and> length (scale net) = 6"

text \<open>The kernel creates array maps zero-filled.\<close>

definition zero_net :: Net where
  "zero_net = \<lparr>layer_0_weight = replicate 192 0, layer_1_weight = replicate 1024 0,
     layer_2_weight = replicate 64 0, mean = replicate 6 0, scale = replicate 6 0\<rparr>"

section \<open>Programs, maps, environment\<close>

datatype xdp_program =
    Xdp_prog
  | Xdp_preprocessing
  | Xdp_input_linear
  | Xdp_input_relu
  | Xdp_hidden_linear
  | Xdp_hidden_relu
  | Xdp_output_linear

text \<open>One line of the trace log: the three arguments of the \<open>bpf_printk\<close> in \<open>xdp_output_linear\<close>.\<close>

record verdict =
  avg_extraction_time :: u64
  detection_time :: u64
  label :: int

record kernel =
  flow_map :: "(flow, flow_attribute) bpf_hash"
  nn_parameters :: "Net list"
  nn_idx_map :: "s32 list"
  progs :: "xdp_program option list"
  ktime :: "nat \<Rightarrow> u64"
  ticks :: nat
  log :: "verdict list"

definition bpf_ktime_get_ns :: "kernel \<Rightarrow> u64 \<times> kernel" where
  "bpf_ktime_get_ns k = (ktime k (ticks k), k\<lparr>ticks := Suc (ticks k)\<rparr>)"

section \<open>Well-formedness of the shared data\<close>

definition flows_wf :: "(flow, flow_attribute) bpf_hash \<Rightarrow> bool" where
  "flows_wf m \<longleftrightarrow> hash_wf m \<and> max_entries m = MAX_PACKET_REACORD \<and>
     list_all (\<lambda>(f, a). attribute_wf a) (entries m)"

definition kernel_wf :: "kernel \<Rightarrow> bool" where
  "kernel_wf k \<longleftrightarrow> flows_wf (flow_map k) \<and>
     length (nn_parameters k) = 2 \<and> list_all net_wf (nn_parameters k) \<and>
     length (nn_idx_map k) = 1 \<and> length (progs k) = 1024"

text \<open>The maps as the kernel creates them, before any program is put into \<open>progs\<close>.\<close>

definition fresh_kernel :: "(nat \<Rightarrow> u64) \<Rightarrow> kernel" where
  "fresh_kernel clk =
     \<lparr>flow_map = \<lparr>entries = [], max_entries = MAX_PACKET_REACORD\<rparr>,
      nn_parameters = [zero_net, zero_net], nn_idx_map = [0],
      progs = replicate 1024 None, ktime = clk, ticks = 0, log = []\<rparr>"

lemma zero_attribute_wf [simp]: "attribute_wf zero_attribute"
  by (simp add: attribute_wf_def zero_attribute_def)

lemma zero_net_wf [simp]: "net_wf zero_net"
  by (simp add: net_wf_def zero_net_def)

lemma fresh_kernel_wf: "kernel_wf (fresh_kernel clk)"
  by (simp add: kernel_wf_def fresh_kernel_def flows_wf_def hash_wf_def)

lemma flows_wf_lookup:
  "flows_wf m \<Longrightarrow> hash_lookup m f = Some a \<Longrightarrow> attribute_wf a"
  by (auto simp: flows_wf_def hash_lookup_def list_all_iff dest!: map_of_SomeD)

lemma set_update_subset: "set (AList.update k v al) \<subseteq> insert (k, v) (set al)"
  by (induction al) auto

lemma list_all_update:
  "list_all P al \<Longrightarrow> P (k, v) \<Longrightarrow> list_all P (AList.update k v al)"
  using set_update_subset [of k v al] by (auto simp: list_all_iff)

lemma flows_wf_update:
  assumes "flows_wf m" "attribute_wf a"
  shows "flows_wf (fst (hash_update m f a fl))"
proof -
  obtain m' e where m': "hash_update m f a fl = (m', e)" by (cases "hash_update m f a fl") auto
  have "hash_wf m'" "max_entries m' = MAX_PACKET_REACORD"
    using assms(1) m' hash_update_wf [OF _ m'] hash_update_max [of m f a fl]
    by (auto simp: flows_wf_def)
  moreover have "list_all (\<lambda>(f, a). attribute_wf a) (entries m')"
    using assms m'
    by (auto simp: flows_wf_def hash_update_def intro!: list_all_update split: if_splits option.splits)
  ultimately show ?thesis by (simp add: m' flows_wf_def)
qed

lemma flows_wf_store:
  assumes "flows_wf m" "attribute_wf a"
  shows "flows_wf (hash_store m f a)"
  using assms
  by (auto simp: flows_wf_def hash_store_wf frame_simps)
    (auto simp: hash_store_def intro!: list_all_update split: option.splits)

lemma kernel_wf_flow_map:
  "kernel_wf k \<Longrightarrow> flows_wf m \<Longrightarrow> kernel_wf (k\<lparr>flow_map := m\<rparr>)"
  by (simp add: kernel_wf_def)

lemma kernel_wf_ticks [simp]: "kernel_wf (k\<lparr>ticks := t\<rparr>) = kernel_wf k"
  by (simp add: kernel_wf_def)

lemma kernel_wf_log [simp]: "kernel_wf (k\<lparr>log := l\<rparr>) = kernel_wf k"
  by (simp add: kernel_wf_def)

lemma kernel_wf_lookup:
  "kernel_wf k \<Longrightarrow> hash_lookup (flow_map k) f = Some a \<Longrightarrow> attribute_wf a"
  by (auto simp: kernel_wf_def intro: flows_wf_lookup)

lemma kernel_wf_net:
  "kernel_wf k \<Longrightarrow> array_lookup (nn_parameters k) i = Some net \<Longrightarrow> net_wf net"
  by (auto simp: kernel_wf_def array_lookup_def list_all_length split: if_splits)

end
