(* ===== verification/Features.thy ===== *)
theory Features
  imports Kernel
begin

text \<open>
  Feature extraction, \<open>src/src/handler.bpf.h\<close>: \<open>init_flow_attribute\<close> and
  \<open>update_flow_attribute\<close>. The writes through \<open>attr_ptr\<close> are collected in one record and stored
  once; nothing reads the entry in between. Comparisons of a \<open>u64\<close> with an \<open>s64\<close> member are
  unsigned, as C's conversions make them.
\<close>

definition init_flow_attribute :: "flow_attribute \<Rightarrow> flow_attribute" where
  "init_flow_attribute attr = attr\<lparr>
     num_packet := 0,
     min_packet_length := 0x3fffffffffffffff,
     max_duration := 0,
     max_packet_length := 0,
     dst_port := 0,
     header_length := 0,
     last_packet_time := 0,
     status := 0\<rparr>"

text \<open>What the packet at hand contributes: its length, its arrival time and its data offset.\<close>

definition count_packet :: "u64 \<Rightarrow> u64 \<Rightarrow> u8 \<Rightarrow> flow_attribute \<Rightarrow> flow_attribute" where
  "count_packet packet_length packet_time doff a =
     (let a = a\<lparr>num_packet := num_packet a + 1\<rparr>;
          a = (if packet_length < min_packet_length a
               then a\<lparr>min_packet_length := packet_length\<rparr> else a);
          a = (if packet_length > max_packet_length a
               then a\<lparr>max_packet_length := packet_length\<rparr> else a);
          duration = packet_time - last_packet_time a;
          a = (if duration > max_duration a then a\<lparr>max_duration := duration\<rparr> else a);
          a = a\<lparr>last_packet_time := packet_time\<rparr>
      in a\<lparr>header_length := header_length a + scast ((ucast doff :: 32 word) * 4)\<rparr>)"

definition record_packet ::
  "flow \<Rightarrow> xdp_md \<Rightarrow> nat \<Rightarrow> u64 \<Rightarrow> u64 \<Rightarrow> u64 \<Rightarrow> flow_attribute \<Rightarrow> kernel \<Rightarrow> kernel option" where
  "record_packet f ctx tcp packet_length packet_time extraction_start_time attr k = do {
     doff \<leftarrow> tcp_doff ctx tcp;
     let a = count_packet packet_length packet_time doff attr;
     let (now, k) = bpf_ktime_get_ns k;
     let a = a\<lparr>total_feature_extraction_time :=
                 total_feature_extraction_time a + (now - extraction_start_time)\<rparr>;
     fin \<leftarrow> tcp_fin ctx tcp;
     rst \<leftarrow> tcp_rst ctx tcp;
     let (a, k) = (if fin \<or> rst
                   then let (now, k) = bpf_ktime_get_ns k in (a\<lparr>detection_start_time := now\<rparr>, k)
                   else (a, k));
     Some (k\<lparr>flow_map := hash_store (flow_map k) f a\<rparr>)
   }"

definition update_flow_attribute :: "flow \<Rightarrow> xdp_md \<Rightarrow> nat \<Rightarrow> u64 \<Rightarrow> kernel \<Rightarrow> kernel option" where
  "update_flow_attribute f ctx tcp packet_length k =
     (let (packet_time, k) = bpf_ktime_get_ns k;
          (extraction_start_time, k) = bpf_ktime_get_ns k in
      case hash_lookup (flow_map k) f of
        Some attr \<Rightarrow> record_packet f ctx tcp packet_length packet_time extraction_start_time attr k
      | None \<Rightarrow> do {
          dest \<leftarrow> tcp_dest ctx tcp;
          let attr = init_flow_attribute zero_attribute;
          let attr = attr\<lparr>last_packet_time := packet_time, dst_port := ucast (bpf_ntohs dest)\<rparr>;
          let k = k\<lparr>flow_map := fst (hash_update (flow_map k) f attr BPF_NOEXIST)\<rparr>;
          case hash_lookup (flow_map k) f of
            None \<Rightarrow> Some k
          | Some attr \<Rightarrow>
              record_packet f ctx tcp packet_length packet_time extraction_start_time attr k
        })"

section \<open>The specification: features of a packet sequence\<close>

text \<open>
  The six features and the time of the last packet, as functions of the observed packets.
  Times and lengths are compared as unsigned 64-bit numbers.
\<close>

record obs =
  o_len :: u64
  o_time :: u64
  o_doff :: u8
  o_port :: u16

definition first_attribute :: "obs \<Rightarrow> flow_attribute" where
  "first_attribute ob =
     (init_flow_attribute zero_attribute)
       \<lparr>last_packet_time := o_time ob, dst_port := ucast (bpf_ntohs (o_port ob))\<rparr>"

definition observe :: "obs \<Rightarrow> flow_attribute \<Rightarrow> flow_attribute" where
  "observe ob = count_packet (o_len ob) (o_time ob) (o_doff ob)"

fun gaps :: "u64 \<Rightarrow> obs list \<Rightarrow> u64 list" where
  "gaps t [] = []"
| "gaps t (ob # obs) = (o_time ob - t) # gaps (o_time ob) obs"

lemma count_packet_eq:
  "count_packet l t d a = a\<lparr>
     num_packet := num_packet a + 1,
     min_packet_length := min l (min_packet_length a),
     max_packet_length := max l (max_packet_length a),
     max_duration := max (t - last_packet_time a) (max_duration a),
     last_packet_time := t,
     header_length := header_length a + scast ((ucast d :: 32 word) * 4)\<rparr>"
  by (cases "l < min_packet_length a"; cases "l > max_packet_length a";
      cases "t - last_packet_time a > max_duration a")
    (simp_all add: count_packet_def Let_def less_min greater_max)

lemma count_packet_simps [simp]:
  "num_packet (count_packet l t d a) = num_packet a + 1"
  "min_packet_length (count_packet l t d a) = min l (min_packet_length a)"
  "max_packet_length (count_packet l t d a) = max l (max_packet_length a)"
  "max_duration (count_packet l t d a) = max (t - last_packet_time a) (max_duration a)"
  "dst_port (count_packet l t d a) = dst_port a"
  "header_length (count_packet l t d a) = header_length a + scast ((ucast d :: 32 word) * 4)"
  "last_packet_time (count_packet l t d a) = t"
  "status (count_packet l t d a) = status a"
  "total_feature_extraction_time (count_packet l t d a) = total_feature_extraction_time a"
  "detection_start_time (count_packet l t d a) = detection_start_time a"
  "nn_idx (count_packet l t d a) = nn_idx a"
  "hidden1 (count_packet l t d a) = hidden1 a"
  "hidden2 (count_packet l t d a) = hidden2 a"
  by (simp_all add: count_packet_eq)

lemma count_packet_wf [simp]: "attribute_wf (count_packet l t d a) = attribute_wf a"
  by (simp add: attribute_wf_def)

lemma scast_doff: "(scast ((ucast (d :: u8) :: 32 word) * 4) :: 64 word) = of_nat (unat d * 4)"
proof -
  have b: "uint d < 256" "0 \<le> uint d" using uint_lt2p [of d] by simp_all
  have "((ucast d :: 32 word) * 4) = word_of_int (uint d * 4)"
    by simp
  moreover have "sint (word_of_int (uint d * 4) :: 32 word) = uint d * 4"
    by (rule sint_of_int_s32) (use b in linarith)+
  ultimately have "(scast ((ucast d :: 32 word) * 4) :: 64 word) = word_of_int (uint d * 4)"
    by (simp only: scast_eq)
  then show ?thesis by (simp add: of_nat_unat)
qed


text \<open>The members a sequence of packets leaves, in closed form.\<close>

lemma fold_min: "fold (\<lambda>x. min (f x)) xs (m :: 'a::linorder) = Min (insert m (f ` set xs))"
proof (induction xs arbitrary: m)
  case (Cons x xs)
  have "Min (insert (min (f x) m) (f ` set xs)) = Min (insert m (insert (f x) (f ` set xs)))"
    by (simp add: Min_insert2 min.assoc min.left_commute)
      (cases "xs = []"; simp add: min.assoc min.left_commute min.commute)
  with Cons show ?case by simp
qed simp

lemma fold_max: "fold (\<lambda>x. max (f x)) xs (m :: 'a::linorder) = Max (insert m (f ` set xs))"
proof (induction xs arbitrary: m)
  case (Cons x xs)
  have "Max (insert (max (f x) m) (f ` set xs)) = Max (insert m (insert (f x) (f ` set xs)))"
    by (cases "xs = []") (simp_all add: max.assoc max.left_commute max.commute)
  with Cons show ?case by simp
qed simp

lemma observe_num: "num_packet (fold observe obs a) = num_packet a + of_nat (length obs)"
  by (induction obs arbitrary: a) (simp_all add: observe_def)

lemma observe_min:
  "min_packet_length (fold observe obs a) = Min (insert (min_packet_length a) (o_len ` set obs))"
proof -
  have "min_packet_length (fold observe obs a) = fold (\<lambda>ob. min (o_len ob)) obs (min_packet_length a)"
    by (induction obs arbitrary: a) (simp_all add: observe_def)
  then show ?thesis by (simp only: fold_min)
qed

lemma observe_max:
  "max_packet_length (fold observe obs a) = Max (insert (max_packet_length a) (o_len ` set obs))"
proof -
  have "max_packet_length (fold observe obs a) = fold (\<lambda>ob. max (o_len ob)) obs (max_packet_length a)"
    by (induction obs arbitrary: a) (simp_all add: observe_def)
  then show ?thesis by (simp only: fold_max)
qed

lemma observe_duration:
  "max_duration (fold observe obs a) = Max (insert (max_duration a) (set (gaps (last_packet_time a) obs)))"
proof -
  have "max_duration (fold observe obs a) = fold max (gaps (last_packet_time a) obs) (max_duration a)"
    by (induction obs arbitrary: a) (simp_all add: observe_def)
  then show ?thesis using fold_max [of "\<lambda>x. x" "gaps (last_packet_time a) obs" "max_duration a"] by simp
qed

lemma observe_port: "dst_port (fold observe obs a) = dst_port a"
  by (induction obs arbitrary: a) (simp_all add: observe_def)

lemma observe_header:
  "header_length (fold observe obs a) = header_length a + of_nat (\<Sum>ob\<leftarrow>obs. unat (o_doff ob) * 4)"
  by (induction obs arbitrary: a) (simp_all add: observe_def scast_doff add.assoc)

lemma observe_last:
  "last_packet_time (fold observe obs a) = (if obs = [] then last_packet_time a else o_time (last obs))"
  by (induction obs arbitrary: a) (simp_all add: observe_def)

lemmas observe_fold_simps = observe_num observe_min observe_max observe_duration observe_port
  observe_header observe_last

lemma first_attribute_simps [simp]:
  "num_packet (first_attribute ob) = 0"
  "min_packet_length (first_attribute ob) = 0x3fffffffffffffff"
  "max_packet_length (first_attribute ob) = 0"
  "max_duration (first_attribute ob) = 0"
  "dst_port (first_attribute ob) = ucast (bpf_ntohs (o_port ob))"
  "header_length (first_attribute ob) = 0"
  "last_packet_time (first_attribute ob) = o_time ob"
  by (simp_all add: first_attribute_def init_flow_attribute_def)

section \<open>One call of \<open>update_flow_attribute\<close>\<close>

text \<open>The members feature extraction owns, compared against the specification.\<close>

definition same_features :: "flow_attribute \<Rightarrow> flow_attribute \<Rightarrow> bool" where
  "same_features a b \<longleftrightarrow>
     num_packet a = num_packet b \<and> min_packet_length a = min_packet_length b \<and>
     max_packet_length a = max_packet_length b \<and> max_duration a = max_duration b \<and>
     dst_port a = dst_port b \<and> header_length a = header_length b \<and>
     last_packet_time a = last_packet_time b"

lemma same_features_refl [simp]: "same_features a a"
  by (simp add: same_features_def)

lemma same_features_trans: "same_features a b \<Longrightarrow> same_features b c \<Longrightarrow> same_features a c"
  by (simp add: same_features_def)

lemma same_features_observe: "same_features a b \<Longrightarrow> same_features (observe ob a) (observe ob b)"
  by (simp add: same_features_def observe_def)

definition packet_obs :: "kernel \<Rightarrow> xdp_md \<Rightarrow> u64 \<Rightarrow> obs" where
  "packet_obs k ctx len =
     \<lparr>o_len = len, o_time = ktime k (ticks k), o_doff = drop_bit 4 (bytes ctx ! 46),
      o_port = le16 (bytes ctx ! 36) (bytes ctx ! 37)\<rparr>"

definition ends_flow :: "xdp_md \<Rightarrow> bool" where
  "ends_flow ctx \<longleftrightarrow> bit (bytes ctx ! 47) 0 \<or> bit (bytes ctx ! 47) 2"

lemma tcp_flag_simps:
  assumes "54 \<le> data_end ctx"
  shows "tcp_doff ctx 34 = Some (drop_bit 4 (bytes ctx ! 46))"
    "tcp_fin ctx 34 = Some (bit (bytes ctx ! 47) 0)"
    "tcp_rst ctx 34 = Some (bit (bytes ctx ! 47) 2)"
    "tcp_dest ctx 34 = Some (le16 (bytes ctx ! 36) (bytes ctx ! 37))"
  using assms by (simp_all add: header_defs load_simps)

text \<open>
  What \<open>record_packet\<close> does: it never fails on a frame with a TCP header, and it replaces the
  flow's entry by one with the features of the observation, touching only the entry and the clock.
\<close>

definition stamped :: "kernel \<Rightarrow> xdp_md \<Rightarrow> u64 \<Rightarrow> u64 \<Rightarrow> flow_attribute \<Rightarrow> flow_attribute" where
  "stamped k ctx packet_length start a =
     (let a = a\<lparr>total_feature_extraction_time :=
                  total_feature_extraction_time a + (ktime k (ticks k) - start)\<rparr>
      in if ends_flow ctx then a\<lparr>detection_start_time := ktime k (Suc (ticks k))\<rparr> else a)"

lemma stamped_simps [simp]:
  "same_features (stamped k ctx l s a) a"
  "nn_idx (stamped k ctx l s a) = nn_idx a"
  "hidden1 (stamped k ctx l s a) = hidden1 a"
  "hidden2 (stamped k ctx l s a) = hidden2 a"
  by (simp_all add: stamped_def Let_def same_features_def)

lemma stamped_wf [simp]: "attribute_wf (stamped k ctx l s a) = attribute_wf a"
  by (simp add: attribute_wf_def)

lemma record_packet_eq:
  assumes "54 \<le> data_end ctx"
  shows "record_packet f ctx 34 len time start a k =
     Some (k\<lparr>ticks := (if ends_flow ctx then Suc (Suc (ticks k)) else Suc (ticks k)),
             flow_map := hash_store (flow_map k) f
               (stamped k ctx len start (count_packet len time (drop_bit 4 (bytes ctx ! 46)) a))\<rparr>)"
  using assms
  by (simp add: record_packet_def tcp_flag_simps bpf_ktime_get_ns_def ends_flow_def stamped_def Let_def)


text \<open>
  The entry the observation is added to: the flow's own, a fresh one if the table has room, none
  if the table is full.
\<close>

definition base_entry :: "kernel \<Rightarrow> flow \<Rightarrow> obs \<Rightarrow> flow_attribute option" where
  "base_entry k f ob =
     (case hash_lookup (flow_map k) f of
        Some a \<Rightarrow> Some a
      | None \<Rightarrow> if length (entries (flow_map k)) < max_entries (flow_map k)
                then Some (first_attribute ob) else None)"

definition updated_flows ::
  "kernel \<Rightarrow> xdp_md \<Rightarrow> flow \<Rightarrow> u64 \<Rightarrow> flow \<Rightarrow> flow_attribute option" where
  "updated_flows k ctx f len =
     (let ob = packet_obs k ctx len; k2 = k\<lparr>ticks := Suc (Suc (ticks k))\<rparr> in
      case base_entry k f ob of
        None \<Rightarrow> hash_lookup (flow_map k)
      | Some a \<Rightarrow> (hash_lookup (flow_map k))
          (f \<mapsto> stamped k2 ctx len (ktime k (Suc (ticks k))) (observe ob a)))"

lemma update_flow_attribute_spec:
  assumes "54 \<le> data_end ctx"
  shows "\<exists>m t. update_flow_attribute f ctx 34 len k = Some (k\<lparr>flow_map := m, ticks := t\<rparr>) \<and>
     hash_lookup m = updated_flows k ctx f len \<and> (flows_wf (flow_map k) \<longrightarrow> flows_wf m)"
proof -
  define ob where "ob = packet_obs k ctx len"
  define k2 where "k2 = k\<lparr>ticks := Suc (Suc (ticks k))\<rparr>"
  define upd where "upd a = stamped k2 ctx len (ktime k (Suc (ticks k))) (observe ob a)" for a
  have rec: "record_packet f ctx 34 len (ktime k (ticks k)) (ktime k (Suc (ticks k))) a (k2\<lparr>flow_map := m\<rparr>)
      = Some (k\<lparr>flow_map := hash_store m f (upd a),
           ticks := if ends_flow ctx then Suc (Suc (ticks k2)) else Suc (ticks k2)\<rparr>)" for a m
    by (simp add: record_packet_eq assms upd_def observe_def ob_def packet_obs_def k2_def stamped_def)
  show ?thesis
  proof (cases "hash_lookup (flow_map k) f")
    case (Some a)
    have "update_flow_attribute f ctx 34 len k =
        record_packet f ctx 34 len (ktime k (ticks k)) (ktime k (Suc (ticks k))) a (k2\<lparr>flow_map := flow_map k\<rparr>)"
      by (simp add: update_flow_attribute_def bpf_ktime_get_ns_def Let_def Some k2_def)
    moreover have "hash_lookup (hash_store (flow_map k) f (upd a)) = updated_flows k ctx f len"
      using Some by (simp add: hash.store_present updated_flows_def base_entry_def Let_def upd_def k2_def ob_def)
    moreover have "flows_wf (flow_map k) \<longrightarrow> flows_wf (hash_store (flow_map k) f (upd a))"
      using Some by (auto intro!: flows_wf_store dest: flows_wf_lookup simp: upd_def observe_def)
    ultimately show ?thesis unfolding rec by blast
  next
    case None
    have dest: "tcp_dest ctx 34 = Some (o_port ob)"
      by (simp add: tcp_flag_simps assms ob_def packet_obs_def)
    have first: "(init_flow_attribute zero_attribute)\<lparr>last_packet_time := ktime k (ticks k),
        dst_port := ucast (bpf_ntohs (o_port ob))\<rparr> = first_attribute ob"
      by (simp add: first_attribute_def ob_def packet_obs_def)
    have wf1: "attribute_wf (first_attribute ob)"
      by (simp add: first_attribute_def init_flow_attribute_def attribute_wf_def zero_attribute_def)
    obtain m e where m: "hash_update (flow_map k) f (first_attribute ob) BPF_NOEXIST = (m, e)"
      by (cases "hash_update (flow_map k) f (first_attribute ob) BPF_NOEXIST") auto
    have run: "update_flow_attribute f ctx 34 len k =
        (case hash_lookup m f of None \<Rightarrow> Some (k2\<lparr>flow_map := m\<rparr>)
         | Some a \<Rightarrow> record_packet f ctx 34 len (ktime k (ticks k)) (ktime k (Suc (ticks k))) a
             (k2\<lparr>flow_map := m\<rparr>))"
      by (simp add: update_flow_attribute_def bpf_ktime_get_ns_def Let_def None dest first m k2_def
          cong: option.case_cong)
    have wf: "flows_wf (flow_map k) \<longrightarrow> flows_wf m"
      using flows_wf_update [OF _ wf1, of "flow_map k" f BPF_NOEXIST] by (simp add: m)
    show ?thesis
    proof (cases "length (entries (flow_map k)) < max_entries (flow_map k)")
      case True
      then have mk: "hash_lookup m = (hash_lookup (flow_map k))(f \<mapsto> first_attribute ob)"
        using hash_insert_new [OF None True, of "first_attribute ob"] m hash.update_ok by fastforce
      have "hash_lookup (hash_store m f (upd (first_attribute ob))) = updated_flows k ctx f len"
        using None True
        by (simp add: mk hash.store_present updated_flows_def base_entry_def Let_def upd_def k2_def ob_def)
      moreover have "flows_wf (flow_map k) \<longrightarrow> flows_wf (hash_store m f (upd (first_attribute ob)))"
        using wf wf1 by (auto intro!: flows_wf_store simp: upd_def observe_def)
      ultimately show ?thesis unfolding run mk by (simp add: rec) blast
    next
      case False
      then have "m = flow_map k"
        using hash_insert_full [OF None, of "first_attribute ob"] m by simp
      with False None show ?thesis
        by (auto simp: run updated_flows_def base_entry_def Let_def k2_def wf)
          (metis (no_types) kernel.surjective kernel.update_convs(1))
    qed
  qed
qed

end
