(* ===== verification/Mlp.thy ===== *)
theory Mlp
  imports Prelude
begin

text \<open>
  The fixed-point kernels of \<open>src/src/mlp.bpf.h\<close>: \<open>linear_layer\<close>, \<open>relu\<close> and \<open>standard_scaler\<close>.
  Values are Q16.16 fixed-point numbers in \<open>int32_t\<close>; sums are accumulated in \<open>int64_t\<close>.
  Every array access is checked, so a \<open>None\<close> is an access outside an array.
  The 64-bit operations are those of the BPF instruction set: they wrap around, and an unsigned
  division by zero gives zero (as \<open>div\<close> on words does).
\<close>

section \<open>The kernels\<close>

definition linear_acc :: "s32 list \<Rightarrow> s32 list \<Rightarrow> nat \<Rightarrow> nat \<Rightarrow> s64 option" where
  "linear_acc W x N i =
     for_upto 0 N
       (\<lambda>j sum. do {
          w \<leftarrow> ld W (i * N + j);
          v \<leftarrow> ld x j;
          Some (sum + scast w * scast v)
        }) 0"

definition linear_layer :: "s32 list \<Rightarrow> s32 list \<Rightarrow> s32 list \<Rightarrow> nat \<Rightarrow> nat \<Rightarrow> s32 list option" where
  "linear_layer W x y M N =
     for_upto 0 M
       (\<lambda>i y. do {
          sum \<leftarrow> linear_acc W x N i;
          st y i (ucast (signed_drop_bit 16 sum))
        }) y"

definition c_max :: "s32 \<Rightarrow> s32 \<Rightarrow> s32" where
  "c_max a b = (if sint a > sint b then a else b)"

definition relu :: "s32 list \<Rightarrow> nat \<Rightarrow> s32 list option" where
  "relu tensor size' =
     for_upto 0 size'
       (\<lambda>i t. do {
          v \<leftarrow> ld t i;
          st t i (c_max v 0)
        }) tensor"

definition scale_one :: "s64 \<Rightarrow> s64 \<Rightarrow> s64 \<Rightarrow> s32" where
  "scale_one x mean scale =
     (if sint mean > sint x
      then - ucast (((mean - x) * 65536) div scale)
      else ucast (((x - mean) * 65536) div scale))"

definition standard_scaler ::
  "s64 list \<Rightarrow> s32 list \<Rightarrow> s64 list \<Rightarrow> s64 list \<Rightarrow> nat \<Rightarrow> s32 list option" where
  "standard_scaler x y mean scale N =
     for_upto 0 N
       (\<lambda>i y. do {
          m \<leftarrow> ld mean i;
          v \<leftarrow> ld x i;
          s \<leftarrow> ld scale i;
          st y i (scale_one v m s)
        }) y"

section \<open>Loops that fill an array index by index\<close>

text \<open>
  All three kernels are loops that write entry \<open>i\<close> in iteration \<open>i\<close> from data the loop does not
  change. \<open>fill n g y\<close> is what such a loop leaves: the first \<open>n\<close> entries computed by \<open>g\<close>, the
  others as they were.
\<close>

definition fill :: "nat \<Rightarrow> (nat \<Rightarrow> 'a) \<Rightarrow> 'a list \<Rightarrow> 'a list" where
  "fill n g y = map g [0..<n] @ drop n y"

lemma length_fill [bounds_simps]: "n \<le> length y \<Longrightarrow> length (fill n g y) = length y"
  by (simp add: fill_def)

lemma fill_nth: "i < length y \<Longrightarrow> n \<le> length y \<Longrightarrow> fill n g y ! i = (if i < n then g i else y ! i)"
  by (simp add: fill_def nth_append)

lemma fill_0 [simp]: "fill 0 g y = y"
  by (simp add: fill_def)

lemma fill_Suc: "n < length y \<Longrightarrow> (fill n g y)[n := g n] = fill (Suc n) g y"
  by (intro nth_equalityI) (auto simp: bounds_simps fill_nth nth_list_update less_Suc_eq)

lemma fill_take: "n \<le> length y \<Longrightarrow> take n (fill n g y) = map g [0..<n]"
  by (simp add: fill_def)

lemma for_upto_fill:
  assumes "n \<le> length y"
    and body: "\<And>i t. i < n \<Longrightarrow> length t = length y \<Longrightarrow> (\<And>k. i \<le> k \<Longrightarrow> k < length y \<Longrightarrow> t ! k = y ! k)
       \<Longrightarrow> body i t = Some (t[i := g i])"
  shows "for_upto 0 n body y = Some (fill n g y)"
proof -
  have "\<exists>t. for_upto 0 n body y = Some t \<and> t = fill n g y"
  proof (rule for_upto_rule [where I = "\<lambda>i t. t = fill i g y"])
    fix i t
    assume i: "i < n" and t: "t = fill i g y"
    have "body i t = Some (t[i := g i])"
      by (rule body) (use i t assms(1) in \<open>auto simp: bounds_simps fill_nth\<close>)
    with i t assms(1) show "\<exists>t'. body i t = Some t' \<and> t' = fill (Suc i) g y"
      by (simp add: fill_Suc)
  qed auto
  then show ?thesis by blast
qed

section \<open>The linear layer\<close>

text \<open>The exact dot product of row \<open>i\<close> of \<open>W\<close> with \<open>x\<close>, over the integers.\<close>

definition dot :: "s32 list \<Rightarrow> s32 list \<Rightarrow> nat \<Rightarrow> nat \<Rightarrow> int" where
  "dot W x N i = (\<Sum>j<N. sint (W ! (i * N + j)) * sint (x ! j))"

lemma row_index_bound:
  assumes "i < M" and "j < (N :: nat)"
  shows "i * N + j < M * N"
proof -
  have "i * N + j < i * N + N" using assms(2) by simp
  also have "\<dots> \<le> M * N" using assms(1) by (metis Suc_leI add.commute mult_Suc mult_le_mono1)
  finally show ?thesis .
qed

lemma linear_acc_eq:
  assumes "M * N \<le> length W" "N \<le> length x" "i < M"
  shows "linear_acc W x N i = Some (word_of_int (dot W x N i))"
proof -
  have "\<exists>s. linear_acc W x N i = Some s \<and>
      s = word_of_int (\<Sum>j<N. sint (W ! (i * N + j)) * sint (x ! j))"
    unfolding linear_acc_def
  proof (rule for_upto_rule [where I = "\<lambda>j s. s = word_of_int (\<Sum>j<j. sint (W ! (i * N + j)) * sint (x ! j))"])
    fix j and s :: s64
    assume j: "j < N" and s: "s = word_of_int (\<Sum>j<j. sint (W ! (i * N + j)) * sint (x ! j))"
    have "i * N + j < length W"
      using row_index_bound [OF assms(3) j] assms(1) by simp
    moreover have "j < length x" using j assms(2) by simp
    ultimately show "\<exists>s'. (do { w \<leftarrow> ld W (i * N + j); v \<leftarrow> ld x j; Some (s + scast w * scast v) })
        = Some s' \<and> s' = word_of_int (\<Sum>j<Suc j. sint (W ! (i * N + j)) * sint (x ! j))"
      by (simp add: s)
  qed auto
  then show ?thesis by (simp add: dot_def)
qed

text \<open>
  The layer without any bound on the values: entry \<open>i\<close> is the exact dot product, shifted right by
  16 with rounding towards minus infinity, modulo \<open>2 ^ 32\<close>.
\<close>

lemma linear_layer_eq:
  assumes "M * N \<le> length W" "N \<le> length x" "M \<le> length y"
  shows "linear_layer W x y M N = Some (fill M (\<lambda>i. word_of_int (dot W x N i div 65536)) y)"
  unfolding linear_layer_def
  by (rule for_upto_fill)
    (use assms in \<open>auto simp: linear_acc_eq shift_trunc_of_int\<close>)

lemma dot_bound:
  assumes "\<And>j. j < N \<Longrightarrow> \<bar>sint (x ! j)\<bar> \<le> B"
    and "(\<Sum>j<N. \<bar>sint (W ! (i * N + j))\<bar>) \<le> S" and "0 \<le> B"
  shows "\<bar>dot W x N i\<bar> \<le> S * B"
proof -
  have "\<bar>dot W x N i\<bar> \<le> (\<Sum>j<N. \<bar>sint (W ! (i * N + j)) * sint (x ! j)\<bar>)"
    by (simp add: dot_def sum_abs)
  also have "\<dots> \<le> (\<Sum>j<N. \<bar>sint (W ! (i * N + j))\<bar> * B)"
    by (rule sum_mono) (auto simp: abs_mult intro!: mult_left_mono assms(1))
  also have "\<dots> = (\<Sum>j<N. \<bar>sint (W ! (i * N + j))\<bar>) * B"
    by (simp add: sum_distrib_right)
  also have "\<dots> \<le> S * B"
    by (rule mult_right_mono [OF assms(2,3)])
  finally show ?thesis .
qed

section \<open>ReLU and the scaler\<close>

lemma relu_eq:
  "n \<le> length t \<Longrightarrow> relu t n = Some (fill n (\<lambda>i. c_max (t ! i) 0) t)"
  unfolding relu_def by (rule for_upto_fill) auto

lemma sint_c_max: "sint (c_max a b) = max (sint a) (sint b)"
  by (simp add: c_max_def)

lemma standard_scaler_eq:
  assumes "N \<le> length x" "N \<le> length y" "N \<le> length mean" "N \<le> length scale"
  shows "standard_scaler x y mean scale N =
     Some (fill N (\<lambda>i. scale_one (x ! i) (mean ! i) (scale ! i)) y)"
  unfolding standard_scaler_def
  by (rule for_upto_fill) (use assms in auto)

text \<open>C's division, which truncates towards zero.\<close>

definition c_div :: "int \<Rightarrow> int \<Rightarrow> int" where
  "c_div n d = (\<bar>n\<bar> div \<bar>d\<bar>) * sgn n * sgn d"

lemma scale_magnitude:
  fixes a b s :: s64
  assumes "sint b \<le> sint a" "sint a - sint b < 2 ^ 47" "0 < sint s"
    and q: "(sint a - sint b) * 65536 div sint s < 2 ^ 31"
  shows "sint (ucast (((a - b) * 65536) div s) :: s32) = (sint a - sint b) * 65536 div sint s"
proof -
  let ?d = "sint a - sint b"
  have ua: "uint (a - b) = ?d"
    by (rule uint_diff_s64) (rule assms(1))
  have "uint ((a - b) * 65536) = ?d * 65536"
    using assms(1,2) by (simp only: uint_word_ariths(3) ua) simp
  moreover have "uint s = sint s"
    by (rule uint_nonneg_s64) (use assms(3) in simp)
  ultimately have ud: "uint (((a - b) * 65536) div s) = ?d * 65536 div sint s"
    by (simp add: uint_div)
  have nn: "0 \<le> ?d * 65536 div sint s"
    using assms(1,3) by (simp add: pos_imp_zdiv_nonneg_iff)
  have "(ucast (((a - b) * 65536) div s) :: s32) = word_of_int (?d * 65536 div sint s)"
    by (simp only: ucast_eq ud)
  with nn q show ?thesis by (simp add: sint_of_int_s32)
qed

text \<open>
  The scaler standardises exactly, truncating towards zero, whenever the scale is positive, the
  distance to the mean is below \<open>2 ^ 47\<close> and the result fits.
\<close>

lemma scale_one_exact:
  assumes "0 < sint s" "\<bar>sint x - sint m\<bar> < 2 ^ 47"
    and "\<bar>sint x - sint m\<bar> * 65536 div sint s < 2 ^ 31"
  shows "sint (scale_one x m s) = c_div ((sint x - sint m) * 65536) (sint s)"
proof (cases "sint m > sint x")
  case True
  let ?q = "(sint m - sint x) * 65536 div sint s"
  have q: "sint (ucast (((m - x) * 65536) div s) :: s32) = ?q"
    by (rule scale_magnitude) (use True assms in auto)
  have "0 \<le> ?q" using True assms(1) by (simp add: pos_imp_zdiv_nonneg_iff)
  moreover have "?q < 2 ^ 31" using True assms(3) by simp
  ultimately have "sint (- (ucast (((m - x) * 65536) div s) :: s32)) = - ?q"
    using q by (simp add: sint_word_ariths signed_take_bit_int_eq_self)
  with True assms(1) show ?thesis by (simp add: scale_one_def c_div_def sgn_if)
next
  case False
  have "sint (ucast (((x - m) * 65536) div s) :: s32) = (sint x - sint m) * 65536 div sint s"
    by (rule scale_magnitude) (use False assms in auto)
  with False assms(1) show ?thesis
    by (auto simp: scale_one_def c_div_def sgn_if)
qed

end
