(* ===== verification/Xdp.thy ===== *)
theory Xdp
  imports Features Mlp
begin

text \<open>
  The seven XDP programs of \<open>src/src/xdp.bpf.c\<close> and the tail calls between them.

  A program body is a function from the kernel state and the packet to \<open>None\<close> (an access outside
  the packet or an array) or the new state and how it ended: \<open>Ret a\<close>, or \<open>Tail i a\<close>, a
  \<open>bpf_tail_call(ctx, &progs, i)\<close> followed by \<open>return a\<close>, which runs only when the call fails.
  \<open>run\<close> executes a program and its tail calls; a call fails when the slot is empty or the
  runtime's limit on consecutive tail calls is used up.
\<close>

datatype xdp_action = XDP_ABORTED | XDP_DROP | XDP_PASS | XDP_TX | XDP_REDIRECT

datatype prog_end = Ret xdp_action | Tail nat xdp_action

section \<open>The programs\<close>

definition xdp_prog :: "xdp_md \<Rightarrow> kernel \<Rightarrow> (kernel \<times> prog_end) option" where
  "xdp_prog ctx k = do {
     (r, f) \<leftarrow> flow_tuple ctx zero_flow;
     if r < 0 then Some (k, Ret XDP_PASS)
     else if bpf_ntohl (saddr f) = 555819337 then
       (let ip = sizeof_ethhdr; tcp = sizeof_ethhdr + sizeof_iphdr in
        if ip + sizeof_iphdr > data_end ctx then Some (k, Ret XDP_PASS)
        else if tcp + sizeof_tcphdr > data_end ctx then Some (k, Ret XDP_PASS)
        else do {
          tot_len \<leftarrow> ip_tot_len ctx ip;
          ihl \<leftarrow> ip_ihl ctx ip;
          let packet_length = scast ((ucast (bpf_ntohs tot_len) :: 32 word) - ucast ihl * 4);
          k \<leftarrow> update_flow_attribute f ctx tcp packet_length k;
          fin \<leftarrow> tcp_fin ctx tcp;
          rst \<leftarrow> tcp_rst ctx tcp;
          if fin \<or> rst then
            (case (array_lookup (nn_idx_map k) 0, hash_lookup (flow_map k) f) of
               (Some idx, Some attr) \<Rightarrow>
                 Some (k\<lparr>flow_map := hash_store (flow_map k) f (attr\<lparr>nn_idx := idx\<rparr>)\<rparr>,
                       Tail 0 XDP_PASS)
             | _ \<Rightarrow> Some (k, Ret XDP_PASS))
          else Some (k, Ret XDP_PASS)
        })
     else Some (k, Ret XDP_PASS)
   }"

definition feature_vector :: "flow_attribute \<Rightarrow> s64 list" where
  "feature_vector a =
     [max_packet_length a, max_duration a, min_packet_length a, dst_port a, header_length a,
      num_packet a]"

definition xdp_preprocessing :: "xdp_md \<Rightarrow> kernel \<Rightarrow> (kernel \<times> prog_end) option" where
  "xdp_preprocessing ctx k = do {
     (r, f) \<leftarrow> flow_tuple ctx zero_flow;
     if r < 0 then Some (k, Ret XDP_PASS)
     else case hash_lookup (flow_map k) f of
       None \<Rightarrow> Some (k, Ret XDP_PASS)
     | Some attr \<Rightarrow>
         (case array_lookup (nn_parameters k) (nn_idx attr) of
            None \<Rightarrow> Some (k, Ret XDP_PASS)
          | Some net \<Rightarrow> do {
              h \<leftarrow> standard_scaler (feature_vector attr) (hidden2 attr) (mean net) (scale net) 6;
              Some (k\<lparr>flow_map := hash_store (flow_map k) f (attr\<lparr>hidden2 := h\<rparr>)\<rparr>,
                    Tail 1 XDP_PASS)
            })
   }"

definition xdp_input_linear :: "xdp_md \<Rightarrow> kernel \<Rightarrow> (kernel \<times> prog_end) option" where
  "xdp_input_linear ctx k = do {
     (r, f) \<leftarrow> flow_tuple ctx zero_flow;
     if r < 0 then Some (k, Ret XDP_PASS)
     else case hash_lookup (flow_map k) f of
       None \<Rightarrow> Some (k, Ret XDP_PASS)
     | Some attr \<Rightarrow>
         (case array_lookup (nn_parameters k) (nn_idx attr) of
            None \<Rightarrow> Some (k, Ret XDP_PASS)
          | Some net \<Rightarrow> do {
              h \<leftarrow> linear_layer (layer_0_weight net) (hidden2 attr) (hidden1 attr) 32 6;
              Some (k\<lparr>flow_map := hash_store (flow_map k) f (attr\<lparr>hidden1 := h\<rparr>)\<rparr>,
                    Tail 2 XDP_PASS)
            })
   }"

definition xdp_input_relu :: "xdp_md \<Rightarrow> kernel \<Rightarrow> (kernel \<times> prog_end) option" where
  "xdp_input_relu ctx k = do {
     (r, f) \<leftarrow> flow_tuple ctx zero_flow;
     if r < 0 then Some (k, Ret XDP_PASS)
     else case hash_lookup (flow_map k) f of
       None \<Rightarrow> Some (k, Ret XDP_PASS)
     | Some attr \<Rightarrow> do {
         h \<leftarrow> relu (hidden1 attr) 32;
         Some (k\<lparr>flow_map := hash_store (flow_map k) f (attr\<lparr>hidden1 := h\<rparr>)\<rparr>, Tail 3 XDP_PASS)
       }
   }"

definition xdp_hidden_linear :: "xdp_md \<Rightarrow> kernel \<Rightarrow> (kernel \<times> prog_end) option" where
  "xdp_hidden_linear ctx k = do {
     (r, f) \<leftarrow> flow_tuple ctx zero_flow;
     if r < 0 then Some (k, Ret XDP_PASS)
     else case hash_lookup (flow_map k) f of
       None \<Rightarrow> Some (k, Ret XDP_PASS)
     | Some attr \<Rightarrow>
         (case array_lookup (nn_parameters k) (nn_idx attr) of
            None \<Rightarrow> Some (k, Ret XDP_PASS)
          | Some net \<Rightarrow> do {
              h \<leftarrow> linear_layer (layer_1_weight net) (hidden1 attr) (hidden2 attr) 32 32;
              Some (k\<lparr>flow_map := hash_store (flow_map k) f (attr\<lparr>hidden2 := h\<rparr>)\<rparr>,
                    Tail 4 XDP_PASS)
            })
   }"

definition xdp_hidden_relu :: "xdp_md \<Rightarrow> kernel \<Rightarrow> (kernel \<times> prog_end) option" where
  "xdp_hidden_relu ctx k = do {
     (r, f) \<leftarrow> flow_tuple ctx zero_flow;
     if r < 0 then Some (k, Ret XDP_PASS)
     else case hash_lookup (flow_map k) f of
       None \<Rightarrow> Some (k, Ret XDP_PASS)
     | Some attr \<Rightarrow> do {
         h \<leftarrow> relu (hidden2 attr) 32;
         Some (k\<lparr>flow_map := hash_store (flow_map k) f (attr\<lparr>hidden2 := h\<rparr>)\<rparr>, Tail 5 XDP_PASS)
       }
   }"

definition xdp_output_linear :: "xdp_md \<Rightarrow> kernel \<Rightarrow> (kernel \<times> prog_end) option" where
  "xdp_output_linear ctx k = do {
     (r, f) \<leftarrow> flow_tuple ctx zero_flow;
     if r < 0 then Some (k, Ret XDP_PASS)
     else case hash_lookup (flow_map k) f of
       None \<Rightarrow> Some (k, Ret XDP_PASS)
     | Some attr \<Rightarrow>
         (case array_lookup (nn_parameters k) (nn_idx attr) of
            None \<Rightarrow> Some (k, Ret XDP_PASS)
          | Some net \<Rightarrow> do {
              h \<leftarrow> linear_layer (layer_2_weight net) (hidden2 attr) (hidden1 attr) 2 32;
              let attr = attr\<lparr>hidden1 := h\<rparr>;
              let k = k\<lparr>flow_map := hash_store (flow_map k) f attr\<rparr>;
              let (now, k) = bpf_ktime_get_ns k;
              h0 \<leftarrow> ld (hidden1 attr) 0;
              h1 \<leftarrow> ld (hidden1 attr) 1;
              let v = \<lparr>avg_extraction_time = total_feature_extraction_time attr div num_packet attr,
                       detection_time = now - detection_start_time attr,
                       label = (if sint h0 > sint h1 then 0 else 1)\<rparr>;
              Some (k\<lparr>log := log k @ [v]\<rparr>, Ret XDP_PASS)
            })
   }"

fun exec_program :: "xdp_program \<Rightarrow> xdp_md \<Rightarrow> kernel \<Rightarrow> (kernel \<times> prog_end) option" where
  "exec_program Xdp_prog = xdp_prog"
| "exec_program Xdp_preprocessing = xdp_preprocessing"
| "exec_program Xdp_input_linear = xdp_input_linear"
| "exec_program Xdp_input_relu = xdp_input_relu"
| "exec_program Xdp_hidden_linear = xdp_hidden_linear"
| "exec_program Xdp_hidden_relu = xdp_hidden_relu"
| "exec_program Xdp_output_linear = xdp_output_linear"

section \<open>Tail calls\<close>

definition MAX_TAIL_CALL_CNT :: nat where "MAX_TAIL_CALL_CNT = 33"

fun run :: "nat \<Rightarrow> xdp_program \<Rightarrow> xdp_md \<Rightarrow> kernel \<Rightarrow> (kernel \<times> xdp_action) option" where
  "run n p ctx k =
     (case exec_program p ctx k of
        None \<Rightarrow> None
      | Some (k', Ret a) \<Rightarrow> Some (k', a)
      | Some (k', Tail i a) \<Rightarrow>
          (case n of
             0 \<Rightarrow> Some (k', a)
           | Suc m \<Rightarrow>
               (case prog_lookup (progs k') i of
                  None \<Rightarrow> Some (k', a)
                | Some q \<Rightarrow> run m q ctx k')))"

declare run.simps [simp del]

definition handle_packet :: "xdp_md \<Rightarrow> kernel \<Rightarrow> (kernel \<times> xdp_action) option" where
  "handle_packet ctx k = run MAX_TAIL_CALL_CNT Xdp_prog ctx k"

section \<open>The reference network\<close>

text \<open>
  The network as functions from vectors to vectors, without scratch buffers, maps or tail calls.
\<close>

definition scaled :: "Net \<Rightarrow> s64 list \<Rightarrow> s32 list" where
  "scaled net xs = map (\<lambda>i. scale_one (xs ! i) (mean net ! i) (scale net ! i)) [0..<6]"

definition layer :: "s32 list \<Rightarrow> nat \<Rightarrow> nat \<Rightarrow> s32 list \<Rightarrow> s32 list" where
  "layer W M N x = map (\<lambda>i. word_of_int (dot W x N i div 65536)) [0..<M]"

definition rectify :: "s32 list \<Rightarrow> s32 list" where
  "rectify x = map (\<lambda>v. c_max v 0) x"

definition logits :: "Net \<Rightarrow> s64 list \<Rightarrow> s32 list" where
  "logits net xs =
     layer (layer_2_weight net) 2 32
       (rectify (layer (layer_1_weight net) 32 32
          (rectify (layer (layer_0_weight net) 32 6 (scaled net xs)))))"

definition classify :: "Net \<Rightarrow> s64 list \<Rightarrow> int" where
  "classify net xs = (if sint (logits net xs ! 0) > sint (logits net xs ! 1) then 0 else 1)"

lemma length_layer [simp]: "length (layer W M N x) = M"
  by (simp add: layer_def)

lemma length_rectify [simp]: "length (rectify x) = length x"
  by (simp add: rectify_def)

lemma length_scaled [simp]: "length (scaled net xs) = 6"
  by (simp add: scaled_def)

lemma length_feature_vector [simp]: "length (feature_vector a) = 6"
  by (simp add: feature_vector_def)

lemma dot_cong:
  "(\<And>j. j < N \<Longrightarrow> x ! j = y ! j) \<Longrightarrow> dot W x N i = dot W y N i"
  by (simp add: dot_def)

lemma dot_take:
  assumes "N \<le> length x" shows "dot W (take N x) N i = dot W x N i"
  by (rule dot_cong) simp

lemma layer_take: "N \<le> length x \<Longrightarrow> layer W M N (take N x) = layer W M N x"
  by (simp add: layer_def dot_take)

lemma linear_layer_layer:
  assumes "M * N \<le> length W" "N \<le> length x" "M \<le> length y"
  shows "linear_layer W x y M N = Some (layer W M N x @ drop M y)"
  using assms by (simp add: linear_layer_eq fill_def layer_def)

lemma relu_rectify:
  assumes "length t = n" shows "relu t n = Some (rectify t)"
proof -
  have "fill n (\<lambda>i. c_max (t ! i) 0) t = rectify t"
    using assms by (intro nth_equalityI) (simp_all add: fill_nth bounds_simps rectify_def)
  then show ?thesis using assms by (simp add: relu_eq)
qed

lemma standard_scaler_scaled:
  assumes "length xs = 6" "6 \<le> length y" "net_wf net"
  shows "standard_scaler xs y (mean net) (scale net) 6 = Some (scaled net xs @ drop 6 y)"
  using assms by (simp add: standard_scaler_eq net_wf_def fill_def scaled_def)

text \<open>The zero-filled network: every quotient is 0, so the logits are equal and the label is 1.\<close>

lemma layer_zeros:
  assumes "M * N \<le> n" shows "layer (replicate n 0) M N x = replicate M 0"
proof (rule nth_equalityI)
  fix i assume "i < length (layer (replicate n 0) M N x)"
  then have i: "i < M" by simp
  have "dot (replicate n 0) x N i = 0"
    unfolding dot_def
  proof (rule sum.neutral, rule ballI)
    fix j assume "j \<in> {..<N}"
    then have "i * N + j < n" using row_index_bound [OF i, of j N] assms by simp
    then show "sint (replicate n (0 :: s32) ! (i * N + j)) * sint (x ! j) = 0" by simp
  qed
  with i show "layer (replicate n 0) M N x ! i = replicate M 0 ! i" by (simp add: layer_def)
qed simp

lemma classify_zero_net [simp]: "classify zero_net xs = 1"
  by (simp add: classify_def logits_def zero_net_def layer_zeros)

end
