(* ===== verification/Pipeline.thy ===== *)
theory Pipeline
  imports Xdp
begin

text \<open>
  The inference pipeline: each program on a tracked flow, their composition through the tail calls,
  and the refinement of the whole chain to the reference network of \<open>Xdp\<close>.
\<close>

section \<open>Replacing one flow's entry\<close>

definition with_entry :: "kernel \<Rightarrow> flow \<Rightarrow> flow_attribute \<Rightarrow> kernel" where
  "with_entry k f a = k\<lparr>flow_map := hash_store (flow_map k) f a\<rparr>"

lemma hash_store_store:
  "hash_lookup m f = Some u \<Longrightarrow> hash_store (hash_store m f a) f b = hash_store m f b"
  by (simp add: hash_store_def update_last)

lemma with_entry_simps [simp]:
  "nn_parameters (with_entry k f a) = nn_parameters k"
  "nn_idx_map (with_entry k f a) = nn_idx_map k"
  "progs (with_entry k f a) = progs k"
  "ktime (with_entry k f a) = ktime k"
  "ticks (with_entry k f a) = ticks k"
  "log (with_entry k f a) = log k"
  "flow_map (with_entry k f a) = hash_store (flow_map k) f a"
  by (simp_all add: with_entry_def)

lemma with_entry_same:
  "hash_lookup (flow_map k) f = Some u \<Longrightarrow> hash_lookup (hash_store (flow_map k) f a) f = Some a"
  by (rule hash.store_same)

lemma with_entry_absorb:
  assumes "hash_lookup (flow_map k) f = Some u"
  shows "(with_entry k f a)\<lparr>flow_map := hash_store (hash_store (flow_map k) f a) f b\<rparr> = with_entry k f b"
  using assms by (simp add: with_entry_def hash_store_store)

lemma with_entry_self: "hash_lookup (flow_map k) f = Some a \<Longrightarrow> with_entry k f a = k"
proof -
  assume a: "hash_lookup (flow_map k) f = Some a"
  have "map_of al f = Some a \<Longrightarrow> AList.update f a al = al" for al :: "(flow \<times> flow_attribute) list"
    by (induction al) auto
  with a show ?thesis by (simp add: with_entry_def hash_store_def hash_lookup_def)
qed

lemma with_entry_wf:
  "kernel_wf k \<Longrightarrow> attribute_wf a \<Longrightarrow> kernel_wf (with_entry k f a)"
  by (auto simp: with_entry_def kernel_wf_def intro: flows_wf_store)

section \<open>The stages on a tracked flow\<close>

text \<open>
  A frame of flow \<open>f\<close>, an entry for \<open>f\<close> in the table, and a network in the slot the entry names.
\<close>

definition detecting :: "xdp_md \<Rightarrow> kernel \<Rightarrow> flow \<Rightarrow> s32 \<Rightarrow> Net \<Rightarrow> bool" where
  "detecting ctx k f i net \<longleftrightarrow>
     tcp4_frame ctx \<and> frame_flow ctx = f \<and> (\<exists>u. hash_lookup (flow_map k) f = Some u) \<and>
     array_lookup (nn_parameters k) i = Some net \<and> net_wf net"

lemma detecting_flow_tuple: "detecting ctx k f i net \<Longrightarrow> flow_tuple ctx f0 = Some (0, f)"
  by (simp add: detecting_def flow_tuple_eq)

lemma stage_preprocessing:
  assumes "detecting ctx k f (nn_idx a) net" "length (hidden2 a) = 32"
  shows "xdp_preprocessing ctx (with_entry k f a) =
     Some (with_entry k f (a\<lparr>hidden2 := scaled net (feature_vector a) @ drop 6 (hidden2 a)\<rparr>),
           Tail 1 XDP_PASS)"
  using assms
  by (auto simp: xdp_preprocessing_def flow_tuple_eq with_entry_same with_entry_absorb
      standard_scaler_scaled detecting_def)

lemma stage_input_linear:
  assumes "detecting ctx k f (nn_idx a) net" "length (hidden1 a) = 32" "length (hidden2 a) = 32"
  shows "xdp_input_linear ctx (with_entry k f a) =
     Some (with_entry k f (a\<lparr>hidden1 := layer (layer_0_weight net) 32 6 (take 6 (hidden2 a))\<rparr>),
           Tail 2 XDP_PASS)"
  using assms
  by (auto simp: xdp_input_linear_def flow_tuple_eq with_entry_same with_entry_absorb
      linear_layer_layer layer_take detecting_def net_wf_def)

lemma stage_input_relu:
  assumes "detecting ctx k f i net" "length (hidden1 a) = 32"
  shows "xdp_input_relu ctx (with_entry k f a) =
     Some (with_entry k f (a\<lparr>hidden1 := rectify (hidden1 a)\<rparr>), Tail 3 XDP_PASS)"
  using assms
  by (auto simp: xdp_input_relu_def flow_tuple_eq with_entry_same with_entry_absorb
      relu_rectify detecting_def)

lemma stage_hidden_linear:
  assumes "detecting ctx k f (nn_idx a) net" "length (hidden1 a) = 32" "length (hidden2 a) = 32"
  shows "xdp_hidden_linear ctx (with_entry k f a) =
     Some (with_entry k f (a\<lparr>hidden2 := layer (layer_1_weight net) 32 32 (hidden1 a)\<rparr>),
           Tail 4 XDP_PASS)"
  using assms
  by (auto simp: xdp_hidden_linear_def flow_tuple_eq with_entry_same with_entry_absorb
      linear_layer_layer detecting_def net_wf_def)

lemma stage_hidden_relu:
  assumes "detecting ctx k f i net" "length (hidden2 a) = 32"
  shows "xdp_hidden_relu ctx (with_entry k f a) =
     Some (with_entry k f (a\<lparr>hidden2 := rectify (hidden2 a)\<rparr>), Tail 5 XDP_PASS)"
  using assms
  by (auto simp: xdp_hidden_relu_def flow_tuple_eq with_entry_same with_entry_absorb
      relu_rectify detecting_def)

text \<open>The verdict the last stage prints.\<close>

definition verdict_of :: "kernel \<Rightarrow> flow_attribute \<Rightarrow> int \<Rightarrow> verdict" where
  "verdict_of k a l =
     \<lparr>avg_extraction_time = total_feature_extraction_time a div num_packet a,
      detection_time = ktime k (ticks k) - detection_start_time a,
      label = l\<rparr>"

lemma stage_output_linear:
  assumes "detecting ctx k f (nn_idx a) net" "length (hidden1 a) = 32" "length (hidden2 a) = 32"
    and "out = layer (layer_2_weight net) 2 32 (hidden2 a)"
    and "k' = with_entry k f (a\<lparr>hidden1 := out @ drop 2 (hidden1 a)\<rparr>)"
  shows "xdp_output_linear ctx (with_entry k f a) =
     Some (k'\<lparr>ticks := Suc (ticks k),
              log := log k @ [verdict_of k a (if sint (out ! 0) > sint (out ! 1) then 0 else 1)]\<rparr>,
           Ret XDP_PASS)"
proof -
  have len: "length out = 2" using assms(4) by simp
  from assms(1) obtain u where u: "hash_lookup (flow_map k) f = Some u"
    by (auto simp: detecting_def)
  have lin: "linear_layer (layer_2_weight net) (hidden2 a) (hidden1 a) 2 32 =
      Some (out @ drop 2 (hidden1 a))"
    using assms by (auto simp: detecting_def net_wf_def linear_layer_layer)
  have "array_lookup (nn_parameters k) (nn_idx a) = Some net"
    using assms(1) by (simp add: detecting_def)
  then show ?thesis
    using lin len assms(2) u
    by (simp add: xdp_output_linear_def detecting_flow_tuple [OF assms(1)] with_entry_same [OF u]
        bpf_ktime_get_ns_def verdict_of_def nth_append assms(5) with_entry_def hash_store_store Let_def)
qed

section \<open>The chain of tail calls\<close>

text \<open>The program array as \<open>main\<close> of \<open>src/src/xdp.c\<close> fills it.\<close>

definition stages :: "xdp_program list" where
  "stages = [Xdp_preprocessing, Xdp_input_linear, Xdp_input_relu, Xdp_hidden_linear,
     Xdp_hidden_relu, Xdp_output_linear]"

definition progs_loaded :: "kernel \<Rightarrow> bool" where
  "progs_loaded k \<longleftrightarrow> (\<forall>i<6. prog_lookup (progs k) i = Some (stages ! i))"

lemma progs_loaded_lookup:
  assumes "progs_loaded k"
  shows "prog_lookup (progs k) 0 = Some Xdp_preprocessing"
    "prog_lookup (progs k) (Suc 0) = Some Xdp_input_linear"
    "prog_lookup (progs k) 2 = Some Xdp_input_relu"
    "prog_lookup (progs k) 3 = Some Xdp_hidden_linear"
    "prog_lookup (progs k) 4 = Some Xdp_hidden_relu"
    "prog_lookup (progs k) 5 = Some Xdp_output_linear"
  using assms unfolding progs_loaded_def
  by (force simp: stages_def dest: spec)+

lemma run_tail:
  assumes "exec_program p ctx k = Some (k', Tail i a)" "prog_lookup (progs k') i = Some q"
  shows "run (Suc n) p ctx k = run n q ctx k'"
  using assms by (simp add: run.simps [of "Suc n"])

lemma run_tail_missing:
  assumes "exec_program p ctx k = Some (k', Tail i a)" "prog_lookup (progs k') i = None"
  shows "run n p ctx k = Some (k', a)"
  using assms by (simp add: run.simps [of n] split: nat.split)

lemma run_ret:
  assumes "exec_program p ctx k = Some (k', Ret a)"
  shows "run n p ctx k = Some (k', a)"
  using assms by (simp add: run.simps [of n])

text \<open>The entry the chain leaves: the output layer over what the hidden layers computed.\<close>

definition inferred :: "Net \<Rightarrow> flow_attribute \<Rightarrow> flow_attribute" where
  "inferred net a =
     (let r0 = rectify (layer (layer_0_weight net) 32 6 (scaled net (feature_vector a)));
          r1 = rectify (layer (layer_1_weight net) 32 32 r0)
      in a\<lparr>hidden1 := layer (layer_2_weight net) 2 32 r1 @ drop 2 r0, hidden2 := r1\<rparr>)"

lemma inferred_simps [simp]:
  "nn_idx (inferred net a) = nn_idx a"
  "same_features (inferred net a) a"
  "total_feature_extraction_time (inferred net a) = total_feature_extraction_time a"
  "detection_start_time (inferred net a) = detection_start_time a"
  by (simp_all add: inferred_def Let_def same_features_def)

lemma inferred_wf: "attribute_wf (inferred net a)"
  by (simp add: inferred_def Let_def attribute_wf_def)

lemma run_pipeline:
  assumes det: "detecting ctx k f (nn_idx a) net" and wf: "attribute_wf a"
    and progs: "progs_loaded k" and n: "5 \<le> n"
  shows "run n Xdp_preprocessing ctx (with_entry k f a) =
     Some ((with_entry k f (inferred net a))\<lparr>ticks := Suc (ticks k),
             log := log k @ [verdict_of k a (classify net (feature_vector a))]\<rparr>, XDP_PASS)"
proof -
  obtain m where m: "n = Suc (Suc (Suc (Suc (Suc m))))"
    using n that [of "n - 5"] by simp
  note lookup = progs_loaded_lookup [OF progs]
  define s where "s = scaled net (feature_vector a)"
  define r0 where "r0 = rectify (layer (layer_0_weight net) 32 6 s)"
  define r1 where "r1 = rectify (layer (layer_1_weight net) 32 32 r0)"
  have h: "length (hidden1 a) = 32" "length (hidden2 a) = 32" "length r0 = 32" "length r1 = 32"
      "length s = 6"
    using wf by (simp_all add: attribute_wf_def r0_def r1_def s_def)
  define a1 where "a1 = a\<lparr>hidden2 := s @ drop 6 (hidden2 a)\<rparr>"
  define a2 where "a2 = a1\<lparr>hidden1 := layer (layer_0_weight net) 32 6 s\<rparr>"
  define a3 where "a3 = a2\<lparr>hidden1 := r0\<rparr>"
  define a4 where "a4 = a3\<lparr>hidden2 := layer (layer_1_weight net) 32 32 r0\<rparr>"
  define a5 where "a5 = a4\<lparr>hidden2 := r1\<rparr>"
  have "run n Xdp_preprocessing ctx (with_entry k f a) = run (n - 1) Xdp_input_linear ctx (with_entry k f a1)"
    using stage_preprocessing [OF det h(2)] m
    by (simp add: a1_def s_def run_tail [where i = "Suc 0"] lookup)
  also have "\<dots> = run (n - 2) Xdp_input_relu ctx (with_entry k f a2)"
    using stage_input_linear [of ctx k f a1 net] det h m
    by (simp add: a1_def a2_def run_tail [where i = 2] lookup)
  also have "\<dots> = run (n - 3) Xdp_hidden_linear ctx (with_entry k f a3)"
    using stage_input_relu [OF det, of a2] m
    by (simp add: a2_def a3_def r0_def run_tail [where i = 3] lookup)
  also have "\<dots> = run (n - 4) Xdp_hidden_relu ctx (with_entry k f a4)"
    using stage_hidden_linear [of ctx k f a3 net] det h m
    by (simp add: a1_def a2_def a3_def a4_def run_tail [where i = 4] lookup)
  also have "\<dots> = run (n - 5) Xdp_output_linear ctx (with_entry k f a5)"
    using stage_hidden_relu [OF det, of a4] m
    by (simp add: a4_def a5_def r1_def run_tail [where i = 5] lookup)
  also have "\<dots> = Some ((with_entry k f (inferred net a))\<lparr>ticks := Suc (ticks k),
             log := log k @ [verdict_of k a (classify net (feature_vector a))]\<rparr>, XDP_PASS)"
  proof -
    have "a5\<lparr>hidden1 := layer (layer_2_weight net) 2 32 r1 @ drop 2 r0\<rparr> = inferred net a"
      by (simp add: a1_def a2_def a3_def a4_def a5_def inferred_def Let_def r0_def r1_def s_def)
    moreover have "verdict_of k a5 l = verdict_of k a l" for l
      by (simp add: verdict_of_def a1_def a2_def a3_def a4_def a5_def)
    moreover have "logits net (feature_vector a) = layer (layer_2_weight net) 2 32 r1"
      by (simp add: logits_def r0_def r1_def s_def)
    ultimately show ?thesis
      using stage_output_linear [of ctx k f a5 net "layer (layer_2_weight net) 2 32 r1"] det h
      by (simp add: a1_def a2_def a3_def a4_def a5_def run_ret classify_def)
  qed
  finally show ?thesis .
qed

end
