(* ===== verification/Detection.thy ===== *)
theory Detection
  imports Pipeline
begin

text \<open>
  What one packet does to the whole system, and what a trace of packets does: memory safety and the
  verdict \<open>XDP_PASS\<close> for every packet, the table entry and the log line of a monitored packet, and
  the refinement of the per-flow table to offline feature extraction.
\<close>

section \<open>Monitored packets\<close>

text \<open>The host whose flows are watched is 33.33.33.73, in network order as in the header.\<close>

definition monitored :: "xdp_md \<Rightarrow> bool" where
  "monitored ctx \<longleftrightarrow> tcp4_frame ctx \<and> bpf_ntohl (saddr (frame_flow ctx)) = 555819337"

definition packet_len :: "xdp_md \<Rightarrow> u64" where
  "packet_len ctx =
     scast ((ucast (le16 (bytes ctx ! 17) (bytes ctx ! 16)) :: 32 word)
            - ucast (bytes ctx ! 14 AND 15) * 4)"

lemma monitored_frame: "monitored ctx \<Longrightarrow> tcp4_frame ctx"
  by (simp add: monitored_def)

lemma tcp4_frame_len: "tcp4_frame ctx \<Longrightarrow> 54 \<le> data_end ctx"
  by (simp add: tcp4_frame_def)

lemma xdp_prog_unmonitored: "\<not> monitored ctx \<Longrightarrow> xdp_prog ctx k = Some (k, Ret XDP_PASS)"
  by (auto simp: xdp_prog_def flow_tuple_eq monitored_def)

text \<open>What \<open>xdp_prog\<close> does after the entry is updated.\<close>

definition start_detection :: "xdp_md \<Rightarrow> kernel \<Rightarrow> kernel \<times> prog_end" where
  "start_detection ctx k =
     (if ends_flow ctx then
        (case (array_lookup (nn_idx_map k) 0, hash_lookup (flow_map k) (frame_flow ctx)) of
           (Some idx, Some attr) \<Rightarrow> (with_entry k (frame_flow ctx) (attr\<lparr>nn_idx := idx\<rparr>), Tail 0 XDP_PASS)
         | _ \<Rightarrow> (k, Ret XDP_PASS))
      else (k, Ret XDP_PASS))"

lemma xdp_prog_monitored:
  assumes "monitored ctx"
  shows "xdp_prog ctx k =
     map_option (start_detection ctx) (update_flow_attribute (frame_flow ctx) ctx 34 (packet_len ctx) k)"
proof -
  have len: "54 \<le> data_end ctx" using assms by (simp add: monitored_def tcp4_frame_def)
  then have "ip_tot_len ctx 14 = Some (le16 (bytes ctx ! 16) (bytes ctx ! 17))"
      "ip_ihl ctx 14 = Some (bytes ctx ! 14 AND 15)"
    by (simp_all add: header_defs load_simps)
  with assms len show ?thesis
    by (cases "update_flow_attribute (frame_flow ctx) ctx 34 (packet_len ctx) k")
      (auto simp: xdp_prog_def flow_tuple_eq monitored_def sizeof_defs bpf_ntohs_def bswap16_le16
        packet_len_def tcp_flag_simps ends_flow_def start_detection_def with_entry_def Let_def
        split: option.split)
qed

section \<open>Every program is safe and passes the packet\<close>

definition passes :: "prog_end \<Rightarrow> bool" where
  "passes e \<longleftrightarrow> e = Ret XDP_PASS \<or> (\<exists>i. e = Tail i XDP_PASS)"

lemma passes_simps [simp]: "passes (Ret XDP_PASS)" "passes (Tail i XDP_PASS)"
  by (simp_all add: passes_def)

lemma start_detection_wf:
  assumes "kernel_wf k"
  shows "kernel_wf (fst (start_detection ctx k)) \<and> passes (snd (start_detection ctx k))"
  using assms kernel_wf_lookup [OF assms, of "frame_flow ctx"]
  by (auto simp: start_detection_def attribute_wf_def intro!: with_entry_wf split: option.split)

text \<open>
  The table after an update, in a form the rest of the development uses: only the entry of the
  packet's flow and the clock change.
\<close>

lemma update_flow_attribute_monitored:
  assumes "monitored ctx"
  obtains m t where
    "update_flow_attribute (frame_flow ctx) ctx 34 (packet_len ctx) k =
       Some (k\<lparr>flow_map := m, ticks := t\<rparr>)"
    "hash_lookup m = updated_flows k ctx (frame_flow ctx) (packet_len ctx)"
    "flows_wf (flow_map k) \<longrightarrow> flows_wf m"
  using update_flow_attribute_spec [OF tcp4_frame_len [OF monitored_frame [OF assms]]] by blast

lemma xdp_prog_safe:
  assumes "kernel_wf k"
  shows "\<exists>k' e. xdp_prog ctx k = Some (k', e) \<and> kernel_wf k' \<and> passes e"
proof (cases "monitored ctx")
  case True
  obtain m t where u: "update_flow_attribute (frame_flow ctx) ctx 34 (packet_len ctx) k =
       Some (k\<lparr>flow_map := m, ticks := t\<rparr>)" and "flows_wf (flow_map k) \<longrightarrow> flows_wf m"
    using update_flow_attribute_monitored [OF True] by blast
  with assms have "kernel_wf (k\<lparr>flow_map := m, ticks := t\<rparr>)"
    by (simp add: kernel_wf_def)
  then have "kernel_wf (fst (start_detection ctx (k\<lparr>flow_map := m, ticks := t\<rparr>))) \<and>
      passes (snd (start_detection ctx (k\<lparr>flow_map := m, ticks := t\<rparr>)))"
    by (rule start_detection_wf)
  then show ?thesis
    by (cases "start_detection ctx (k\<lparr>flow_map := m, ticks := t\<rparr>)")
      (simp add: xdp_prog_monitored True u)
qed (simp add: xdp_prog_unmonitored assms)

lemma stage_safe_net:
  assumes "kernel_wf k" "hash_lookup (flow_map k) f = Some a"
    and "array_lookup (nn_parameters k) i = Some net"
  shows "attribute_wf a" "net_wf net"
  using assms kernel_wf_lookup kernel_wf_net by blast+

lemma kernel_wf_store:
  "kernel_wf k \<Longrightarrow> attribute_wf a \<Longrightarrow> kernel_wf (k\<lparr>flow_map := hash_store (flow_map k) f a\<rparr>)"
  by (fold with_entry_def) (rule with_entry_wf)

lemma stages_safe:
  assumes "kernel_wf k"
  shows "\<exists>k' e. exec_program p ctx k = Some (k', e) \<and> kernel_wf k' \<and> passes e"
proof (cases p)
  case Xdp_prog
  then show ?thesis using xdp_prog_safe [OF assms] by simp
next
  case Xdp_preprocessing
  then show ?thesis using assms kernel_wf_lookup [OF assms] kernel_wf_net [OF assms]
    by (auto simp: xdp_preprocessing_def flow_tuple_eq standard_scaler_scaled attribute_wf_def
        intro!: kernel_wf_store split: option.split)
next
  case Xdp_input_linear
  then show ?thesis using assms kernel_wf_lookup [OF assms] kernel_wf_net [OF assms]
    by (auto simp: xdp_input_linear_def flow_tuple_eq linear_layer_layer attribute_wf_def net_wf_def
        intro!: kernel_wf_store split: option.split)
next
  case Xdp_input_relu
  then show ?thesis using assms kernel_wf_lookup [OF assms]
    by (auto simp: xdp_input_relu_def flow_tuple_eq relu_rectify attribute_wf_def
        intro!: kernel_wf_store split: option.split)
next
  case Xdp_hidden_linear
  then show ?thesis using assms kernel_wf_lookup [OF assms] kernel_wf_net [OF assms]
    by (auto simp: xdp_hidden_linear_def flow_tuple_eq linear_layer_layer attribute_wf_def net_wf_def
        intro!: kernel_wf_store split: option.split)
next
  case Xdp_hidden_relu
  then show ?thesis using assms kernel_wf_lookup [OF assms]
    by (auto simp: xdp_hidden_relu_def flow_tuple_eq relu_rectify attribute_wf_def
        intro!: kernel_wf_store split: option.split)
next
  case Xdp_output_linear
  then show ?thesis using assms kernel_wf_lookup [OF assms] kernel_wf_net [OF assms]
    by (auto simp: xdp_output_linear_def flow_tuple_eq linear_layer_layer attribute_wf_def net_wf_def
        bpf_ktime_get_ns_def Let_def intro!: kernel_wf_store split: option.split)
qed

lemma run_safe:
  "kernel_wf k \<Longrightarrow> \<exists>k'. run n p ctx k = Some (k', XDP_PASS) \<and> kernel_wf k'"
proof (induction n arbitrary: p k)
  case (0 p k)
  then obtain k' e where e: "exec_program p ctx k = Some (k', e)" "kernel_wf k'" "passes e"
    using stages_safe by blast
  then show ?case by (auto simp: passes_def run.simps [of 0])
next
  case (Suc n p k)
  then obtain k' e where e: "exec_program p ctx k = Some (k', e)" "kernel_wf k'" "passes e"
    using stages_safe by blast
  from e(3) consider "e = Ret XDP_PASS" | i where "e = Tail i XDP_PASS" by (auto simp: passes_def)
  then show ?case
  proof cases
    case 1
    with e show ?thesis by (simp add: run.simps [of "Suc n"])
  next
    case 2
    with e Suc.IH [OF e(2)] show ?thesis
      by (cases "prog_lookup (progs k') i") (simp_all add: run.simps [of "Suc n"])
  qed
qed


section \<open>The table after a packet\<close>

text \<open>The programs touch no entry but that of the packet's own flow.\<close>

lemma stages_frame:
  assumes "exec_program p ctx k = Some (k', e)" "p \<noteq> Xdp_prog"
  shows "nn_parameters k' = nn_parameters k \<and> nn_idx_map k' = nn_idx_map k \<and> progs k' = progs k \<and>
     ktime k' = ktime k \<and>
     (\<forall>f. f \<noteq> frame_flow ctx \<longrightarrow> hash_lookup (flow_map k') f = hash_lookup (flow_map k) f)"
  using assms
  by (cases p)
    (auto simp: xdp_preprocessing_def xdp_input_linear_def xdp_input_relu_def xdp_hidden_linear_def
      xdp_hidden_relu_def xdp_output_linear_def flow_tuple_eq bpf_ktime_get_ns_def Let_def
      hash.store_frame bind_eq_Some_conv split: if_splits option.splits)

lemma xdp_prog_frame:
  assumes "xdp_prog ctx k = Some (k', e)"
  shows "nn_parameters k' = nn_parameters k \<and> nn_idx_map k' = nn_idx_map k \<and> progs k' = progs k \<and>
     ktime k' = ktime k \<and>
     (\<forall>f. f \<noteq> frame_flow ctx \<longrightarrow> hash_lookup (flow_map k') f = hash_lookup (flow_map k) f)"
proof (cases "monitored ctx")
  case True
  obtain m t where u: "update_flow_attribute (frame_flow ctx) ctx 34 (packet_len ctx) k =
       Some (k\<lparr>flow_map := m, ticks := t\<rparr>)"
    and m: "hash_lookup m = updated_flows k ctx (frame_flow ctx) (packet_len ctx)"
    using update_flow_attribute_monitored [OF True] by blast
  have "hash_lookup m f = hash_lookup (flow_map k) f" if "f \<noteq> frame_flow ctx" for f
    using that by (simp add: m updated_flows_def Let_def split: option.split)
  with assms show ?thesis
    by (auto simp: xdp_prog_monitored True u start_detection_def hash.store_frame
        split: if_splits option.splits)
qed (use assms in \<open>simp add: xdp_prog_unmonitored\<close>)

lemma exec_program_frame:
  assumes "exec_program p ctx k = Some (k', e)"
  shows "nn_parameters k' = nn_parameters k \<and> nn_idx_map k' = nn_idx_map k \<and> progs k' = progs k \<and>
     ktime k' = ktime k \<and>
     (\<forall>f. f \<noteq> frame_flow ctx \<longrightarrow> hash_lookup (flow_map k') f = hash_lookup (flow_map k) f)"
  using assms xdp_prog_frame stages_frame by (cases "p = Xdp_prog") auto

lemma run_frame:
  assumes "run n p ctx k = Some (k', act)"
  shows "nn_parameters k' = nn_parameters k \<and> nn_idx_map k' = nn_idx_map k \<and> progs k' = progs k \<and>
     ktime k' = ktime k \<and>
     (\<forall>f. f \<noteq> frame_flow ctx \<longrightarrow> hash_lookup (flow_map k') f = hash_lookup (flow_map k) f)"
  using assms
proof (induction n arbitrary: p k)
  case (0 p k)
  then show ?case
    by (auto simp: run.simps [of 0] dest: exec_program_frame split: option.splits prog_end.splits)
next
  case (Suc n p k)
  from Suc.prems obtain k1 e where e: "exec_program p ctx k = Some (k1, e)"
    by (auto simp: run.simps [of "Suc n"] split: option.splits)
  note f1 = exec_program_frame [OF e]
  show ?case
  proof (cases e)
    case (Ret a)
    with Suc.prems e f1 show ?thesis by (simp add: run.simps [of "Suc n"])
  next
    case (Tail i a)
    show ?thesis
    proof (cases "prog_lookup (progs k1) i")
      case None
      with Suc.prems e f1 Tail show ?thesis by (simp add: run.simps [of "Suc n"])
    next
      case (Some q)
      with Suc.prems e Tail have "run n q ctx k1 = Some (k', act)"
        by (simp add: run.simps [of "Suc n"])
      from Suc.IH [OF this] f1 show ?thesis by simp
    qed
  qed
qed


section \<open>Refinement to offline feature extraction\<close>

text \<open>
  The abstract table maps a flow to its features only; the scratch vectors, the time stamps of the
  detection and the network index are forgotten.
\<close>

definition features_of :: "flow_attribute \<Rightarrow> flow_attribute" where
  "features_of a = zero_attribute\<lparr>
     num_packet := num_packet a, min_packet_length := min_packet_length a,
     max_packet_length := max_packet_length a, max_duration := max_duration a,
     dst_port := dst_port a, header_length := header_length a,
     last_packet_time := last_packet_time a\<rparr>"

lemma features_of_eq_iff: "features_of a = features_of b \<longleftrightarrow> same_features a b"
  by (auto simp: features_of_def same_features_def zero_attribute_def)

lemma features_of_observe: "features_of (observe ob a) = observe ob (features_of a)"
  by (simp add: features_of_def observe_def count_packet_eq)

lemma features_of_simps [simp]:
  "features_of (a\<lparr>hidden1 := h\<rparr>) = features_of a" "features_of (a\<lparr>hidden2 := h\<rparr>) = features_of a"
  "features_of (a\<lparr>nn_idx := i\<rparr>) = features_of a"
  "features_of (stamped k ctx l s a) = features_of a"
  "feature_vector (features_of a) = feature_vector a"
  by (simp_all add: features_of_def stamped_def Let_def feature_vector_def)

definition table :: "kernel \<Rightarrow> flow \<Rightarrow> flow_attribute option" where
  "table k = map_option features_of \<circ> hash_lookup (flow_map k)"

text \<open>The specification of one observation: count it, unless the flow is new and the table full.\<close>

definition record_obs ::
  "flow \<Rightarrow> obs \<Rightarrow> (flow \<Rightarrow> flow_attribute option) \<Rightarrow> (flow \<Rightarrow> flow_attribute option)" where
  "record_obs f ob T =
     (case T f of
        Some a \<Rightarrow> T(f \<mapsto> observe ob a)
      | None \<Rightarrow> if card (dom T) < MAX_PACKET_REACORD
                then T(f \<mapsto> observe ob (features_of (first_attribute ob))) else T)"

lemma table_store:
  "hash_lookup (flow_map k) f = Some a \<Longrightarrow> features_of b = features_of a \<Longrightarrow>
     table (k\<lparr>flow_map := hash_store (flow_map k) f b\<rparr>) = table k"
  by (auto simp: table_def hash.store_present fun_eq_iff)

lemma table_simps [simp]: "table (k\<lparr>ticks := t\<rparr>) = table k" "table (k\<lparr>log := l\<rparr>) = table k"
  by (simp_all add: table_def)

lemma card_dom_entries:
  assumes "hash_wf m" shows "card (dom (hash_lookup m)) = length (entries m)"
proof -
  have "dom (hash_lookup m) = set (map fst (entries m))"
    by (simp add: hash_lookup_def [abs_def] dom_map_of_conv_image_fst)
  with assms show ?thesis by (simp add: hash_wf_def distinct_card del: set_map)
qed

lemma dom_table: "dom (table k) = dom (hash_lookup (flow_map k))"
  by (auto simp: table_def)

lemma stages_table:
  assumes "exec_program p ctx k = Some (k', e)" "p \<noteq> Xdp_prog"
  shows "table k' = table k"
  using assms
  by (cases p)
    (auto simp: xdp_preprocessing_def xdp_input_linear_def xdp_input_relu_def xdp_hidden_linear_def
      xdp_hidden_relu_def xdp_output_linear_def flow_tuple_eq bpf_ktime_get_ns_def Let_def
      table_store bind_eq_Some_conv split: if_splits option.splits)

lemma updated_flows_table:
  assumes "kernel_wf k"
  shows "map_option features_of \<circ> updated_flows k ctx f len =
     record_obs f (packet_obs k ctx len) (table k)"
proof -
  have "max_entries (flow_map k) = MAX_PACKET_REACORD"
      "card (dom (table k)) = length (entries (flow_map k))"
    using assms card_dom_entries [of "flow_map k"] by (simp_all add: kernel_wf_def flows_wf_def dom_table)
  then show ?thesis
    by (auto simp: record_obs_def updated_flows_def Let_def base_entry_def table_def fun_eq_iff
        features_of_observe split: option.split)
qed

text \<open>The abstract effect of a packet.\<close>

definition spec_packet ::
  "kernel \<Rightarrow> xdp_md \<Rightarrow> (flow \<Rightarrow> flow_attribute option) \<Rightarrow> (flow \<Rightarrow> flow_attribute option)" where
  "spec_packet k ctx T =
     (if monitored ctx then record_obs (frame_flow ctx) (packet_obs k ctx (packet_len ctx)) T else T)"

lemma xdp_prog_table:
  assumes "kernel_wf k" "xdp_prog ctx k = Some (k', e)"
  shows "table k' = spec_packet k ctx (table k)"
proof (cases "monitored ctx")
  case True
  obtain m t where u: "update_flow_attribute (frame_flow ctx) ctx 34 (packet_len ctx) k =
       Some (k\<lparr>flow_map := m, ticks := t\<rparr>)"
    and m: "hash_lookup m = updated_flows k ctx (frame_flow ctx) (packet_len ctx)"
    using update_flow_attribute_monitored [OF True] by blast
  have "table (k\<lparr>flow_map := m, ticks := t\<rparr>) = spec_packet k ctx (table k)"
    using updated_flows_table [OF assms(1)] True by (simp add: table_def m spec_packet_def)
  moreover have "table (fst (start_detection ctx K)) = table K" for K
    by (auto simp: start_detection_def with_entry_def table_store split: option.split)
  moreover have "k' = fst (start_detection ctx (k\<lparr>flow_map := m, ticks := t\<rparr>))"
    using assms(2) by (auto simp: xdp_prog_monitored True u)
  ultimately show ?thesis by simp
qed (use assms in \<open>simp add: xdp_prog_unmonitored spec_packet_def\<close>)

lemma run_table:
  assumes "run n p ctx k = Some (k', act)" "p \<noteq> Xdp_prog" "Some Xdp_prog \<notin> set (progs k)"
  shows "table k' = table k"
  using assms
proof (induction n arbitrary: p k)
  case (0 p k)
  then show ?case
    by (auto simp: run.simps [of 0] dest: stages_table split: option.splits prog_end.splits)
next
  case (Suc n p k)
  from Suc.prems obtain k1 e where e: "exec_program p ctx k = Some (k1, e)"
    by (auto simp: run.simps [of "Suc n"] split: option.splits)
  note t1 = stages_table [OF e Suc.prems(2)]
  have progs: "progs k1 = progs k" using exec_program_frame [OF e] by simp
  show ?case
  proof (cases "\<exists>i a q. e = Tail i a \<and> prog_lookup (progs k1) i = Some q")
    case True
    then obtain i a q where q: "e = Tail i a" "prog_lookup (progs k1) i = Some q" by blast
    with Suc.prems e have "run n q ctx k1 = Some (k', act)" by (simp add: run.simps [of "Suc n"])
    moreover have "q \<noteq> Xdp_prog"
      using q(2) Suc.prems(3) progs by (auto simp: prog_lookup_def in_set_conv_nth split: if_splits)
    ultimately have "table k' = table k1" using Suc.IH Suc.prems(3) progs by simp
    with t1 show ?thesis by simp
  next
    case False
    with Suc.prems(1) e t1 show ?thesis
      by (auto simp: run.simps [of "Suc n"] split: prog_end.splits option.splits)
  qed
qed

text \<open>
  \<open>xdp_prog\<close> itself is attached to the interface and never put into the program array, so no tail
  call counts a packet twice.
\<close>

lemma handle_packet_unfold:
  "handle_packet ctx k =
     (case xdp_prog ctx k of
        None \<Rightarrow> None
      | Some (k', Ret a) \<Rightarrow> Some (k', a)
      | Some (k', Tail i a) \<Rightarrow>
          (case prog_lookup (progs k') i of
             None \<Rightarrow> Some (k', a)
           | Some q \<Rightarrow> run 32 q ctx k'))"
proof -
  have "handle_packet ctx k = run (Suc 32) Xdp_prog ctx k"
    by (simp add: handle_packet_def MAX_TAIL_CALL_CNT_def)
  then show ?thesis by (simp only: run.simps [of "Suc 32"] nat.case exec_program.simps)
qed

lemma handle_packet_table:
  assumes "kernel_wf k" "Some Xdp_prog \<notin> set (progs k)" "handle_packet ctx k = Some (k', act)"
  shows "table k' = spec_packet k ctx (table k)"
proof -
  from assms(3) obtain k1 e where e: "xdp_prog ctx k = Some (k1, e)"
    by (auto simp: handle_packet_unfold split: option.splits)
  note t1 = xdp_prog_table [OF assms(1) e]
  have progs: "progs k1 = progs k" using xdp_prog_frame [OF e] by simp
  show ?thesis
  proof (cases "\<exists>i a q. e = Tail i a \<and> prog_lookup (progs k1) i = Some q")
    case True
    then obtain i a q where q: "e = Tail i a" "prog_lookup (progs k1) i = Some q" by blast
    have "run 32 q ctx k1 = Some (k', act)"
      using assms(3) e q by (simp add: handle_packet_unfold)
    moreover have "q \<noteq> Xdp_prog"
      using q(2) assms(2) progs by (auto simp: prog_lookup_def in_set_conv_nth split: if_splits)
    ultimately have "table k' = table k1" using run_table assms(2) progs by simp
    with t1 show ?thesis by simp
  next
    case False
    with assms(3) e t1 show ?thesis
      by (auto simp: handle_packet_unfold split: prog_end.splits option.splits)
  qed
qed


section \<open>A whole detection\<close>

text \<open>
  The last packet of a monitored flow: its features are counted, the network in the active slot is
  run over them, one verdict is printed.
\<close>

lemma same_features_vector: "same_features a b \<Longrightarrow> feature_vector a = feature_vector b"
  by (simp add: same_features_def feature_vector_def)

lemma xdp_prog_detects:
  assumes mon: "monitored ctx" and ends: "ends_flow ctx" and wf: "kernel_wf k"
    and base: "base_entry k (frame_flow ctx) (packet_obs k ctx (packet_len ctx)) = Some a0"
    and idx: "array_lookup (nn_idx_map k) 0 = Some i"
  obtains k1 a where
    "xdp_prog ctx k = Some (k1, Tail 0 XDP_PASS)"
    "hash_lookup (flow_map k1) = (hash_lookup (flow_map k))(frame_flow ctx \<mapsto> a)"
    "attribute_wf a" "same_features a (observe (packet_obs k ctx (packet_len ctx)) a0)" "nn_idx a = i"
    "nn_parameters k1 = nn_parameters k" "progs k1 = progs k" "log k1 = log k"
proof -
  define f where "f = frame_flow ctx"
  define ob where "ob = packet_obs k ctx (packet_len ctx)"
  obtain m t where u: "update_flow_attribute f ctx 34 (packet_len ctx) k = Some (k\<lparr>flow_map := m, ticks := t\<rparr>)"
    and m: "hash_lookup m = updated_flows k ctx f (packet_len ctx)"
    and mwf: "flows_wf (flow_map k) \<longrightarrow> flows_wf m"
    using update_flow_attribute_monitored [OF mon] unfolding f_def by blast
  define a1 where "a1 = stamped (k\<lparr>ticks := Suc (Suc (ticks k))\<rparr>) ctx (packet_len ctx)
      (ktime k (Suc (ticks k))) (observe ob a0)"
  have mf: "hash_lookup m = (hash_lookup (flow_map k))(f \<mapsto> a1)"
    using base by (simp add: m updated_flows_def Let_def f_def a1_def ob_def)
  define k1 where "k1 = k\<lparr>flow_map := m, ticks := t\<rparr>"
  have k1: "hash_lookup (flow_map k1) f = Some a1" by (simp add: k1_def mf)
  have wf1: "kernel_wf k1" using wf mwf by (simp add: k1_def kernel_wf_def)
  have "start_detection ctx k1 = (with_entry k1 f (a1\<lparr>nn_idx := i\<rparr>), Tail 0 XDP_PASS)"
    using idx k1 ends by (simp add: start_detection_def f_def) (simp add: k1_def)
  then have prog: "xdp_prog ctx k = Some (with_entry k1 f (a1\<lparr>nn_idx := i\<rparr>), Tail 0 XDP_PASS)"
    using u by (simp add: xdp_prog_monitored mon f_def k1_def)
  show thesis
  proof (rule that [OF prog])
    show "hash_lookup (flow_map (with_entry k1 f (a1\<lparr>nn_idx := i\<rparr>))) =
        (hash_lookup (flow_map k))(frame_flow ctx \<mapsto> a1\<lparr>nn_idx := i\<rparr>)"
      using k1 by (simp add: hash.store_present f_def [symmetric]) (simp add: k1_def mf)
    show "attribute_wf (a1\<lparr>nn_idx := i\<rparr>)"
      using kernel_wf_lookup [OF wf1 k1] by (simp add: attribute_wf_def)
    show "same_features (a1\<lparr>nn_idx := i\<rparr>) (observe (packet_obs k ctx (packet_len ctx)) a0)"
      by (simp add: same_features_def a1_def stamped_def Let_def ob_def)
  qed (simp_all add: k1_def)
qed

lemma handle_packet_detects:
  assumes mon: "monitored ctx" and ends: "ends_flow ctx" and wf: "kernel_wf k" and progs: "progs_loaded k"
    and base: "base_entry k (frame_flow ctx) (packet_obs k ctx (packet_len ctx)) = Some a0"
    and idx: "array_lookup (nn_idx_map k) 0 = Some i"
    and net: "array_lookup (nn_parameters k) i = Some net"
  obtains k' v b where
    "handle_packet ctx k = Some (k', XDP_PASS)"
    "log k' = log k @ [v]"
    "label v = classify net (feature_vector (observe (packet_obs k ctx (packet_len ctx)) a0))"
    "hash_lookup (flow_map k') = (hash_lookup (flow_map k)) (frame_flow ctx \<mapsto> b)"
    "same_features b (observe (packet_obs k ctx (packet_len ctx)) a0)"
    "nn_idx b = i"
proof -
  define f where "f = frame_flow ctx"
  obtain k1 a where prog: "xdp_prog ctx k = Some (k1, Tail 0 XDP_PASS)"
    and look: "hash_lookup (flow_map k1) = (hash_lookup (flow_map k))(frame_flow ctx \<mapsto> a)"
    and a: "attribute_wf a" "same_features a (observe (packet_obs k ctx (packet_len ctx)) a0)" "nn_idx a = i"
    and k1: "nn_parameters k1 = nn_parameters k" "progs k1 = progs k" "log k1 = log k"
    using xdp_prog_detects [OF mon ends wf base idx] by blast
  have lf: "hash_lookup (flow_map k1) f = Some a" by (simp add: look f_def)
  have det: "detecting ctx k1 f (nn_idx a) net"
    using mon net k1 a(3) kernel_wf_net [OF wf net] lf by (simp add: detecting_def monitored_def f_def)
  have progs1: "progs_loaded k1" using progs by (simp add: progs_loaded_def k1)
  define v where "v = verdict_of k1 a (classify net (feature_vector a))"
  define k' where "k' = (with_entry k1 f (inferred net a))\<lparr>ticks := Suc (ticks k1), log := log k1 @ [v]\<rparr>"
  have run: "run 32 Xdp_preprocessing ctx k1 = Some (k', XDP_PASS)"
    using run_pipeline [OF det a(1) progs1, of 32] by (simp add: k'_def v_def with_entry_self [OF lf])
  show thesis
  proof (rule that)
    show "handle_packet ctx k = Some (k', XDP_PASS)"
      by (simp add: handle_packet_unfold prog progs_loaded_lookup [OF progs] k1 run)
    show "log k' = log k @ [v]" by (simp add: k'_def k1)
    show "label v = classify net (feature_vector (observe (packet_obs k ctx (packet_len ctx)) a0))"
      by (simp add: v_def verdict_of_def same_features_vector [OF a(2)])
    show "hash_lookup (flow_map k') = (hash_lookup (flow_map k))(frame_flow ctx \<mapsto> inferred net a)"
      using lf by (simp add: k'_def hash.store_present f_def [symmetric]) (simp add: look f_def)
    show "same_features (inferred net a) (observe (packet_obs k ctx (packet_len ctx)) a0)"
      by (rule same_features_trans [OF _ a(2)]) simp
    show "nn_idx (inferred net a) = i" by (simp add: a(3))
  qed
qed

section \<open>Traces\<close>

fun run_trace :: "xdp_md list \<Rightarrow> kernel \<Rightarrow> kernel option" where
  "run_trace [] k = Some k"
| "run_trace (c # cs) k =
     (case handle_packet c k of None \<Rightarrow> None | Some (k', _) \<Rightarrow> run_trace cs k')"

text \<open>The observations a trace produces, with the times the clock gives along the run.\<close>

fun trace_obs :: "xdp_md list \<Rightarrow> kernel \<Rightarrow> (flow \<times> obs) list" where
  "trace_obs [] k = []"
| "trace_obs (c # cs) k =
     (if monitored c then [(frame_flow c, packet_obs k c (packet_len c))] else []) @
     (case handle_packet c k of None \<Rightarrow> [] | Some (k', _) \<Rightarrow> trace_obs cs k')"

lemma handle_packet_safe:
  assumes "kernel_wf k"
  obtains k' where "handle_packet ctx k = Some (k', XDP_PASS)" "kernel_wf k'" "progs k' = progs k"
proof -
  obtain k' where k': "handle_packet ctx k = Some (k', XDP_PASS)" "kernel_wf k'"
    using run_safe [OF assms] unfolding handle_packet_def by blast
  then have "progs k' = progs k"
    using run_frame unfolding handle_packet_def by blast
  with k' show thesis by (rule that)
qed

lemma run_trace_table:
  assumes "kernel_wf k" "Some Xdp_prog \<notin> set (progs k)"
  obtains k' where "run_trace cs k = Some k'" "kernel_wf k'"
    "table k' = fold (\<lambda>(f, ob). record_obs f ob) (trace_obs cs k) (table k)"
  using assms
proof (induction cs arbitrary: k thesis)
  case Nil
  then show ?case by simp
next
  case (Cons c cs)
  obtain k1 where k1: "handle_packet c k = Some (k1, XDP_PASS)" "kernel_wf k1" "progs k1 = progs k"
    using handle_packet_safe [OF Cons.prems(2)] by blast
  obtain k' where k': "run_trace cs k1 = Some k'" "kernel_wf k'"
      "table k' = fold (\<lambda>(f, ob). record_obs f ob) (trace_obs cs k1) (table k1)"
    using Cons.IH [OF _ k1(2)] Cons.prems(3) k1(3) by metis
  have "table k1 = spec_packet k c (table k)"
    using handle_packet_table [OF Cons.prems(2,3) k1(1)] .
  with k' k1 show ?case
    by (cases "monitored c"; intro Cons.prems(1)) (simp_all add: spec_packet_def)
qed

text \<open>The observations of one flow, in order.\<close>

definition obs_of :: "flow \<Rightarrow> (flow \<times> obs) list \<Rightarrow> obs list" where
  "obs_of f xs = map snd (filter (\<lambda>(g, _). g = f) xs)"

definition offline_features :: "obs list \<Rightarrow> flow_attribute option" where
  "offline_features obs =
     (case obs of [] \<Rightarrow> None
      | ob # _ \<Rightarrow> Some (fold observe obs (features_of (first_attribute ob))))"

lemma dom_record_obs: "dom (record_obs f ob T) \<subseteq> insert f (dom T)"
  by (auto simp: record_obs_def split: option.splits if_splits)

lemma offline_snoc:
  "offline_features (obs @ [ob]) =
     (case offline_features obs of
        None \<Rightarrow> Some (observe ob (features_of (first_attribute ob)))
      | Some a \<Rightarrow> Some (observe ob a))"
  by (cases obs) (simp_all add: offline_features_def)

lemma record_obs_apply:
  "record_obs f ob T g =
     (if g \<noteq> f then T g
      else case T f of
        Some a \<Rightarrow> Some (observe ob a)
      | None \<Rightarrow> if card (dom T) < MAX_PACKET_REACORD
                then Some (observe ob (features_of (first_attribute ob))) else None)"
  by (auto simp: record_obs_def split: option.split)

lemma fold_record_obs:
  assumes "card (fst ` set xs) \<le> MAX_PACKET_REACORD"
  shows "fold (\<lambda>(f, ob). record_obs f ob) xs Map.empty f = offline_features (obs_of f xs)"
  using assms
proof (induction xs arbitrary: f rule: rev_induct)
  case Nil
  then show ?case by (simp add: obs_of_def offline_features_def)
next
  case (snoc x xs)
  obtain g ob where x: "x = (g, ob)" by (cases x) auto
  define T0 where "T0 = fold (\<lambda>(f, ob). record_obs f ob) xs Map.empty"
  have sub: "card (fst ` set xs) \<le> card (fst ` set (xs @ [x]))"
    by (rule card_mono) auto
  with snoc have T: "T0 h = offline_features (obs_of h xs)" for h by (simp add: T0_def)
  have domT: "dom T0 = fst ` set xs"
  proof -
    have "h \<in> dom T0 \<longleftrightarrow> h \<in> fst ` set xs" for h
    proof -
      have "h \<in> dom T0 \<longleftrightarrow> offline_features (obs_of h xs) \<noteq> None"
        by (simp only: dom_def T mem_Collect_eq)
      also have "\<dots> \<longleftrightarrow> obs_of h xs \<noteq> []"
        by (simp add: offline_features_def split: list.split)
      also have "\<dots> \<longleftrightarrow> h \<in> fst ` set xs"
        by (force simp: obs_of_def filter_empty_conv)
      finally show ?thesis .
    qed
    then show ?thesis by blast
  qed
  have room: "card (dom T0) < MAX_PACKET_REACORD" if "T0 g = None"
  proof -
    have "g \<notin> fst ` set xs" using that domT by blast
    then have "card (fst ` set (xs @ [x])) = Suc (card (fst ` set xs))" by (simp add: x)
    with snoc.prems domT show ?thesis by simp
  qed
  have "obs_of f (xs @ [x]) = (if g = f then obs_of f xs @ [ob] else obs_of f xs)"
    by (simp add: obs_of_def x)
  moreover have "record_obs g ob T0 f = offline_features (if g = f then obs_of f xs @ [ob] else obs_of f xs)"
    using room by (auto simp: record_obs_apply offline_snoc T split: option.split)
  moreover have "fold (\<lambda>(f, ob). record_obs f ob) (xs @ [x]) Map.empty = record_obs g ob T0"
    by (simp add: x T0_def)
  ultimately show ?case by simp
qed

section \<open>Traces split at any packet\<close>

lemma run_trace_append:
  "run_trace (cs @ ds) k = (case run_trace cs k of None \<Rightarrow> None | Some k' \<Rightarrow> run_trace ds k')"
  by (induction cs arbitrary: k) (auto split: option.split)

lemma trace_obs_append:
  "run_trace cs k = Some k' \<Longrightarrow> trace_obs (cs @ ds) k = trace_obs cs k @ trace_obs ds k'"
  by (induction cs arbitrary: k) (auto split: option.splits)

lemma run_trace_frame:
  assumes "run_trace cs k = Some k'"
  shows "nn_parameters k' = nn_parameters k \<and> nn_idx_map k' = nn_idx_map k \<and> progs k' = progs k \<and>
     ktime k' = ktime k"
  using assms
proof (induction cs arbitrary: k)
  case (Cons c cs)
  from Cons.prems obtain k1 a where "handle_packet c k = Some (k1, a)" "run_trace cs k1 = Some k'"
    by (auto split: option.splits)
  with Cons.IH [of k1] run_frame [of _ _ c k k1 a] show ?case unfolding handle_packet_def by simp
qed simp

lemma trace_table:
  assumes "kernel_wf k0" "Some Xdp_prog \<notin> set (progs k0)" "entries (flow_map k0) = []"
    and "run_trace cs k0 = Some k" "card (fst ` set (trace_obs cs k0)) \<le> MAX_PACKET_REACORD"
  shows "table k f = offline_features (obs_of f (trace_obs cs k0))"
proof -
  have "table k0 = Map.empty"
    using assms(3) by (simp add: table_def fun_eq_iff hash_lookup_def)
  then have "table k = fold (\<lambda>(f, ob). record_obs f ob) (trace_obs cs k0) Map.empty"
    using run_trace_table [OF assms(1,2), of cs] assms(4) by (metis option.inject)
  then show ?thesis by (simp add: fold_record_obs [OF assms(5)])
qed

lemma offline_closed_form:
  assumes "offline_features (ob # obs) = Some a"
  shows "num_packet a = of_nat (length (ob # obs))"
    "min_packet_length a = Min (insert 0x3fffffffffffffff (o_len ` set (ob # obs)))"
    "max_packet_length a = Max (o_len ` set (ob # obs))"
    "max_duration a = Max (insert 0 (set (gaps (o_time ob) obs)))"
    "dst_port a = ucast (bpf_ntohs (o_port ob))"
    "header_length a = of_nat (\<Sum>x\<leftarrow>ob # obs. unat (o_doff x) * 4)"
    "last_packet_time a = o_time (last (ob # obs))"
proof -
  have a: "a = fold observe (ob # obs) (features_of (first_attribute ob))"
    using assms by (simp add: offline_features_def)
  have f: "num_packet (features_of (first_attribute ob)) = 0"
    "min_packet_length (features_of (first_attribute ob)) = 0x3fffffffffffffff"
    "max_packet_length (features_of (first_attribute ob)) = 0"
    "max_duration (features_of (first_attribute ob)) = 0"
    "dst_port (features_of (first_attribute ob)) = ucast (bpf_ntohs (o_port ob))"
    "header_length (features_of (first_attribute ob)) = 0"
    "last_packet_time (features_of (first_attribute ob)) = o_time ob"
    by (simp_all add: features_of_def)
  show "num_packet a = of_nat (length (ob # obs))"
    "dst_port a = ucast (bpf_ntohs (o_port ob))"
    "header_length a = of_nat (\<Sum>x\<leftarrow>ob # obs. unat (o_doff x) * 4)"
    "last_packet_time a = o_time (last (ob # obs))"
    "min_packet_length a = Min (insert 0x3fffffffffffffff (o_len ` set (ob # obs)))"
    unfolding a observe_fold_simps f by simp_all
  have "max_packet_length a = Max (insert 0 (o_len ` set (ob # obs)))"
    unfolding a observe_fold_simps f by simp
  then show "max_packet_length a = Max (o_len ` set (ob # obs))"
    by (subst (asm) Max_insert) simp_all
  have "max_duration a = Max (insert 0 (set (gaps (o_time ob) (ob # obs))))"
    unfolding a observe_fold_simps f by simp
  then show "max_duration a = Max (insert 0 (set (gaps (o_time ob) obs)))" by simp
qed

text \<open>A new flow finds no place in a full table: the packet passes and leaves no trace.\<close>

lemma handle_packet_full:
  assumes "monitored ctx" "max_entries (flow_map k) \<le> length (entries (flow_map k))"
    and "hash_lookup (flow_map k) (frame_flow ctx) = None"
  shows "\<exists>k'. handle_packet ctx k = Some (k', XDP_PASS) \<and> log k' = log k \<and>
     hash_lookup (flow_map k') = hash_lookup (flow_map k)"
proof -
  obtain m t where u: "update_flow_attribute (frame_flow ctx) ctx 34 (packet_len ctx) k =
       Some (k\<lparr>flow_map := m, ticks := t\<rparr>)"
    and m: "hash_lookup m = updated_flows k ctx (frame_flow ctx) (packet_len ctx)"
    using update_flow_attribute_monitored [OF assms(1)] by blast
  have "hash_lookup m = hash_lookup (flow_map k)"
    using assms(2,3) by (simp add: m updated_flows_def base_entry_def Let_def)
  then show ?thesis
    using assms(3)
    by (auto simp: handle_packet_unfold xdp_prog_monitored [OF assms(1)] u start_detection_def
        split: option.split)
qed

end
