(* ===== verification/Hot_Updating.thy ===== *)
theory Hot_Updating
  imports Mlp_Params
begin

text \<open>
  \<open>src/src/hot_updating.c\<close>: the user program that loads a new network into the slot that is not in
  use and then switches the active index. The two maps have two slots and one slot; a system call
  may fail for reasons outside the program (a missing pin, permissions), so the outcome of each
  call is an input: \<open>0\<close> for success, the error otherwise. The program prints every error and
  checks none.
\<close>

text \<open>C's remainder: the sign follows the dividend.\<close>

definition c_mod :: "int \<Rightarrow> int \<Rightarrow> int" where
  "c_mod a b = sgn a * (\<bar>a\<bar> mod \<bar>b\<bar>)"

record hot_env =
  lookup_err :: int
  params_err :: int
  idx_err :: int

text \<open>\<open>bpf_map_lookup_elem(nn_idx_fd, &zero_idx, &nn_idx)\<close> with \<open>nn_idx\<close> initialised to 0.\<close>

definition read_idx :: "hot_env \<Rightarrow> kernel \<Rightarrow> s32" where
  "read_idx env k =
     (if lookup_err env \<noteq> 0 then 0
      else case array_lookup (nn_idx_map k) 0 of None \<Rightarrow> 0 | Some i \<Rightarrow> i)"

definition next_idx :: "s32 \<Rightarrow> s32" where
  "next_idx i = word_of_int (c_mod (sint (i + 1)) 2)"

definition write_params :: "hot_env \<Rightarrow> s32 \<Rightarrow> Net \<Rightarrow> kernel \<Rightarrow> kernel" where
  "write_params env i net k =
     (if params_err env \<noteq> 0 then k
      else k\<lparr>nn_parameters := fst (array_update (nn_parameters k) i net BPF_ANY)\<rparr>)"

definition write_idx :: "hot_env \<Rightarrow> s32 \<Rightarrow> kernel \<Rightarrow> kernel" where
  "write_idx env i k =
     (if idx_err env \<noteq> 0 then k
      else k\<lparr>nn_idx_map := fst (array_update (nn_idx_map k) 0 i BPF_ANY)\<rparr>)"

text \<open>The exit status is the 0 a \<open>main\<close> without \<open>return\<close> gives.\<close>

definition hot_update :: "hot_env \<Rightarrow> kernel \<Rightarrow> kernel \<times> int" where
  "hot_update env k =
     (let nn_idx = read_idx env k;
          new_nn_idx = next_idx nn_idx;
          k = write_params env new_nn_idx shipped_net k;
          k = write_idx env new_nn_idx k
      in (k, 0))"

section \<open>The steps\<close>

lemma next_idx_values [simp]: "next_idx 0 = 1" "next_idx 1 = 0"
  by (simp_all add: next_idx_def c_mod_def)

lemma next_idx_neq: "i = 0 \<or> i = 1 \<Longrightarrow> next_idx i \<noteq> i"
  by auto

lemma write_params_simps [simp]:
  "nn_idx_map (write_params env i net k) = nn_idx_map k"
  "flow_map (write_params env i net k) = flow_map k"
  "progs (write_params env i net k) = progs k"
  "log (write_params env i net k) = log k"
  "ktime (write_params env i net k) = ktime k"
  by (simp_all add: write_params_def)

lemma write_idx_simps [simp]:
  "nn_parameters (write_idx env i k) = nn_parameters k"
  "flow_map (write_idx env i k) = flow_map k"
  "progs (write_idx env i k) = progs k"
  "log (write_idx env i k) = log k"
  "ktime (write_idx env i k) = ktime k"
  by (simp_all add: write_idx_def)

lemma write_params_other:
  "i \<noteq> j \<Longrightarrow> array_lookup (nn_parameters (write_params env i net k)) j = array_lookup (nn_parameters k) j"
  by (cases "array_update (nn_parameters k) i net BPF_ANY")
    (auto simp: write_params_def dest: arr.update_frame)

lemma write_params_same:
  assumes "params_err env = 0" "array_lookup (nn_parameters k) i = Some u"
  shows "array_lookup (nn_parameters (write_params env i net k)) i = Some net"
  using assms arr.update_any [OF assms(2), of net]
  by (cases "array_update (nn_parameters k) i net BPF_ANY")
    (auto simp: write_params_def dest: arr.update_lookup_same)

lemma write_idx_lookup:
  assumes "idx_err env = 0" "array_lookup (nn_idx_map k) 0 = Some u"
  shows "array_lookup (nn_idx_map (write_idx env i k)) 0 = Some i"
  using assms arr.update_any [OF assms(2), of i]
  by (cases "array_update (nn_idx_map k) 0 i BPF_ANY")
    (auto simp: write_idx_def dest: arr.update_lookup_same)

lemma write_params_wf: "kernel_wf k \<Longrightarrow> net_wf net \<Longrightarrow> kernel_wf (write_params env i net k)"
  by (auto simp: kernel_wf_def write_params_def array_update_def list_all_length nth_list_update)

lemma write_idx_wf: "kernel_wf k \<Longrightarrow> kernel_wf (write_idx env i k)"
  by (auto simp: kernel_wf_def write_idx_def array_update_def)

lemma hot_update_wf: "kernel_wf k \<Longrightarrow> kernel_wf (fst (hot_update env k))"
  by (simp add: hot_update_def Let_def write_params_wf write_idx_wf)

text \<open>The active index is one of the two slots of \<open>nn_parameters\<close>.\<close>

definition idx_ok :: "kernel \<Rightarrow> bool" where
  "idx_ok k \<longleftrightarrow> array_lookup (nn_idx_map k) 0 \<in> {Some 0, Some 1}"

lemma idx_ok_slot:
  assumes "kernel_wf k" "idx_ok k"
  obtains i net where "array_lookup (nn_idx_map k) 0 = Some i" "i = 0 \<or> i = 1"
    "array_lookup (nn_parameters k) i = Some net" "net_wf net"
proof -
  obtain i where i: "array_lookup (nn_idx_map k) 0 = Some i" "i = 0 \<or> i = 1"
    using assms(2) by (auto simp: idx_ok_def)
  then have "array_lookup (nn_parameters k) i = Some (nn_parameters k ! unat i)"
    using assms(1) by (auto simp: kernel_wf_def array_lookup_def)
  moreover from this assms(1) have "net_wf (nn_parameters k ! unat i)" by (rule kernel_wf_net [rotated])
  ultimately show thesis using that i by blast
qed

lemma hot_update_idx_ok:
  assumes "kernel_wf k" "idx_ok k" shows "idx_ok (fst (hot_update env k))"
proof -
  obtain i where i: "array_lookup (nn_idx_map k) 0 = Some i" "i = 0 \<or> i = 1"
    using assms(2) by (auto simp: idx_ok_def)
  have n: "next_idx (read_idx env k) = 0 \<or> next_idx (read_idx env k) = 1"
    using i by (auto simp: read_idx_def)
  show ?thesis
  proof (cases "idx_err env = 0")
    case True
    with i(1) n show ?thesis
      using write_idx_lookup [of env "write_params env (next_idx (read_idx env k)) shipped_net k"]
      by (auto simp: hot_update_def Let_def idx_ok_def)
  next
    case False
    with i show ?thesis by (auto simp: hot_update_def Let_def idx_ok_def write_idx_def)
  qed
qed

end
