(* ===== verification/System.thy ===== *)
theory System
  imports Detection Hot_Updating
begin

text \<open>
  The running system as a step relation: CPUs that receive packets and run the chain of tail-called
  programs, interleaved with \<open>hot_updating\<close> (\<open>src/src/hot_updating.c\<close>) replacing the network.

  One step is one BPF program on one CPU, or one of the three system calls of the updater. A CPU
  takes a packet only while no other CPU runs the chain for the same flow (the driver steers a flow
  to one receive queue). One updater runs at a time; its lookup of the index succeeds, its two
  updates may fail. \<open>any_step\<close> drops the condition on the flows and the one on the lookup. The double buffer makes the granularity harmless: no step writes
  a slot a detection reads, as \<open>slot_kept\<close> shows.
\<close>

section \<open>States and steps\<close>

record task =
  pkt :: xdp_md
  prog :: xdp_program
  budget :: nat

text \<open>Between the three system calls the updater knows the slot it is going to activate.\<close>

datatype phase = Waiting | Chosen s32 | Written s32

record sys =
  kern :: kernel
  cpu :: "nat \<Rightarrow> task option"
  updater :: phase
  started :: nat
  finished :: nat

text \<open>What follows the program a CPU has just executed, as in \<open>run\<close>.\<close>

definition next_task :: "xdp_md \<Rightarrow> nat \<Rightarrow> kernel \<Rightarrow> prog_end \<Rightarrow> task option" where
  "next_task ctx n k e =
     (case e of
        Ret _ \<Rightarrow> None
      | Tail i _ \<Rightarrow>
          (case n of
             0 \<Rightarrow> None
           | Suc m \<Rightarrow> map_option (\<lambda>q. \<lparr>pkt = ctx, prog = q, budget = m\<rparr>) (prog_lookup (progs k) i)))"

inductive sys_step :: "sys \<Rightarrow> sys \<Rightarrow> bool" where
  Receive:
    "cpu s c = None \<Longrightarrow>
     (\<forall>c' t. cpu s c' = Some t \<longrightarrow> frame_flow (pkt t) \<noteq> frame_flow ctx) \<Longrightarrow>
     exec_program Xdp_prog ctx (kern s) = Some (k', e) \<Longrightarrow>
     sys_step s (s\<lparr>kern := k', cpu := (cpu s)(c := next_task ctx MAX_TAIL_CALL_CNT k' e)\<rparr>)"
| Continue:
    "cpu s c = Some t \<Longrightarrow>
     exec_program (prog t) (pkt t) (kern s) = Some (k', e) \<Longrightarrow>
     sys_step s (s\<lparr>kern := k', cpu := (cpu s)(c := next_task (pkt t) (budget t) k' e)\<rparr>)"
| Read_idx:
    "updater s = Waiting \<Longrightarrow> lookup_err env = 0 \<Longrightarrow>
     sys_step s (s\<lparr>updater := Chosen (next_idx (read_idx env (kern s))), started := Suc (started s)\<rparr>)"
| Write_params:
    "updater s = Chosen i \<Longrightarrow> net_wf net \<Longrightarrow>
     sys_step s (s\<lparr>kern := write_params env i net (kern s), updater := Written i\<rparr>)"
| Write_idx:
    "updater s = Written i \<Longrightarrow>
     sys_step s (s\<lparr>kern := write_idx env i (kern s), updater := Waiting, finished := Suc (finished s)\<rparr>)"

inductive_cases sys_stepE: "sys_step s s'"

abbreviation sys_steps :: "sys \<Rightarrow> sys \<Rightarrow> bool" where
  "sys_steps \<equiv> sys_step\<^sup>*\<^sup>*"

text \<open>
  \<open>sys_step\<close> is the protocol as it is meant: one CPU per flow, and an updater that reads the index
  it then switches. \<open>any_step\<close> is what the code allows: a CPU receives whatever arrives, also a
  packet of a flow another CPU is working on, and the updater goes on after a lookup that fails.
  Its label tells who moves.
\<close>

datatype actor = Cpu nat | Updater

inductive any_step :: "actor \<Rightarrow> sys \<Rightarrow> sys \<Rightarrow> bool" where
  Any_receive:
    "cpu s c = None \<Longrightarrow>
     exec_program Xdp_prog ctx (kern s) = Some (k', e) \<Longrightarrow>
     any_step (Cpu c) s (s\<lparr>kern := k', cpu := (cpu s)(c := next_task ctx MAX_TAIL_CALL_CNT k' e)\<rparr>)"
| Any_continue:
    "cpu s c = Some t \<Longrightarrow>
     exec_program (prog t) (pkt t) (kern s) = Some (k', e) \<Longrightarrow>
     any_step (Cpu c) s (s\<lparr>kern := k', cpu := (cpu s)(c := next_task (pkt t) (budget t) k' e)\<rparr>)"
| Any_read_idx:
    "updater s = Waiting \<Longrightarrow>
     any_step Updater s
       (s\<lparr>updater := Chosen (next_idx (read_idx env (kern s))), started := Suc (started s)\<rparr>)"
| Any_write_params:
    "updater s = Chosen i \<Longrightarrow> net_wf net \<Longrightarrow>
     any_step Updater s (s\<lparr>kern := write_params env i net (kern s), updater := Written i\<rparr>)"
| Any_write_idx:
    "updater s = Written i \<Longrightarrow>
     any_step Updater s
       (s\<lparr>kern := write_idx env i (kern s), updater := Waiting, finished := Suc (finished s)\<rparr>)"

inductive_cases cpu_stepE: "any_step (Cpu c) s s'"

abbreviation any_steps :: "sys \<Rightarrow> sys \<Rightarrow> bool" where
  "any_steps \<equiv> (\<lambda>s s'. \<exists>a. any_step a s s')\<^sup>*\<^sup>*"

lemma any_step_steps: "any_step a s t \<Longrightarrow> any_steps t u \<Longrightarrow> any_steps s u"
  by (rule converse_rtranclp_into_rtranclp) blast+

lemma sys_step_any: "sys_step s s' \<Longrightarrow> \<exists>a. any_step a s s'"
proof (induction rule: sys_step.induct)
  case (Receive s c ctx k' e)
  then show ?case by (intro exI) (rule Any_receive)
next
  case (Continue s c t k' e)
  then show ?case by (intro exI) (rule Any_continue)
next
  case (Read_idx s env)
  then show ?case by (intro exI) (rule Any_read_idx)
next
  case (Write_params s i net env)
  then show ?case by (intro exI) (rule Any_write_params)
next
  case (Write_idx s i env)
  then show ?case by (intro exI) (rule Any_write_idx)
qed

lemma sys_steps_any: "sys_steps s s' \<Longrightarrow> any_steps s s'"
  by (induction rule: rtranclp_induct) (auto dest: sys_step_any intro: rtranclp.rtrancl_into_rtrancl)

section \<open>The invariant\<close>

text \<open>
  The active index names one of the two slots, and an update in progress has chosen the other one.
  A running chain never starts over with \<open>xdp_prog\<close>, and two CPUs never run the same flow.
\<close>

definition active_idx :: "sys \<Rightarrow> s32 option" where
  "active_idx s = array_lookup (nn_idx_map (kern s)) 0"

definition other_slot :: "sys \<Rightarrow> s32 \<Rightarrow> bool" where
  "other_slot s j \<longleftrightarrow> (\<exists>i. active_idx s = Some i \<and> j = next_idx i)"

definition updater_ok :: "sys \<Rightarrow> bool" where
  "updater_ok s \<longleftrightarrow>
     (case updater s of
        Waiting \<Rightarrow> started s = finished s
      | Chosen j \<Rightarrow> started s = Suc (finished s) \<and> other_slot s j
      | Written j \<Rightarrow> started s = Suc (finished s) \<and> other_slot s j)"

definition flows_apart :: "sys \<Rightarrow> bool" where
  "flows_apart s \<longleftrightarrow>
     (\<forall>c c' t t'. cpu s c = Some t \<longrightarrow> cpu s c' = Some t' \<longrightarrow>
        frame_flow (pkt t) = frame_flow (pkt t') \<longrightarrow> c = c')"

definition sys_ok :: "sys \<Rightarrow> bool" where
  "sys_ok s \<longleftrightarrow>
     kernel_wf (kern s) \<and> idx_ok (kern s) \<and> Some Xdp_prog \<notin> set (progs (kern s)) \<and>
     (\<forall>c t. cpu s c = Some t \<longrightarrow> prog t \<noteq> Xdp_prog) \<and> flows_apart s \<and> updater_ok s"

lemma next_task_flow:
  "next_task ctx n k e = Some t \<Longrightarrow> pkt t = ctx \<and> Some (prog t) \<in> set (progs k)"
  by (auto simp: next_task_def prog_lookup_def split: prog_end.splits nat.splits if_splits
      intro!: nth_mem) (metis nth_mem)

lemma flows_apart_step:
  assumes "flows_apart s" "\<And>t. t' = Some t \<Longrightarrow> frame_flow (pkt t) = f"
    and "\<And>d t. d \<noteq> c \<Longrightarrow> cpu s d = Some t \<Longrightarrow> frame_flow (pkt t) \<noteq> f"
  shows "flows_apart (s\<lparr>kern := k, cpu := (cpu s)(c := t')\<rparr>)"
  using assms unfolding flows_apart_def by (auto split: if_splits) metis+

text \<open>A BPF program leaves the index and the program array alone.\<close>

lemma exec_program_ok:
  assumes "exec_program p ctx k = Some (k', e)" "kernel_wf k"
  shows "kernel_wf k'" "nn_idx_map k' = nn_idx_map k" "progs k' = progs k"
    "nn_parameters k' = nn_parameters k"
    "f \<noteq> frame_flow ctx \<Longrightarrow> hash_lookup (flow_map k') f = hash_lookup (flow_map k) f"
  using assms(1) exec_program_frame [OF assms(1)] stages_safe [OF assms(2), of p ctx] by auto

lemma updater_ok_kern:
  "nn_idx_map k' = nn_idx_map (kern s) \<Longrightarrow>
     updater_ok (s\<lparr>kern := k', cpu := f\<rparr>) = updater_ok s"
  by (simp add: updater_ok_def other_slot_def active_idx_def split: phase.split)

lemma write_idx_ok:
  assumes "idx_ok k" "i = 0 \<or> i = 1" shows "idx_ok (write_idx env i k)"
proof -
  obtain j where j: "array_lookup (nn_idx_map k) 0 = Some j" "j = 0 \<or> j = 1"
    using assms(1) by (auto simp: idx_ok_def)
  show ?thesis
  proof (cases "idx_err env = 0")
    case True
    with write_idx_lookup [OF True j(1), of i] assms(2) show ?thesis by (auto simp: idx_ok_def)
  qed (use j in \<open>auto simp: idx_ok_def write_idx_def\<close>)
qed

lemma sys_step_ok:
  assumes "sys_step s s'" "sys_ok s" shows "sys_ok s'"
  using assms(1)
proof cases
  case (Receive c ctx k' e)
  note ok = exec_program_ok [OF Receive(4)]
  have wf: "kernel_wf (kern s)" using assms(2) by (simp add: sys_ok_def)
  have "flows_apart s'" unfolding Receive(1)
    by (rule flows_apart_step [where f = "frame_flow ctx"])
      (use assms(2) Receive(2,3) next_task_flow in \<open>auto simp: sys_ok_def\<close>)
  moreover have "prog t \<noteq> Xdp_prog" if "cpu s' d = Some t" for d t
    using that assms(2) Receive(1) ok(3) [OF wf] next_task_flow [of ctx MAX_TAIL_CALL_CNT k' e t]
    by (auto simp: sys_ok_def split: if_splits)
  ultimately show ?thesis
    using assms(2) ok [OF wf] by (auto simp: sys_ok_def Receive(1) updater_ok_kern idx_ok_def)
next
  case (Continue c t k' e)
  note ok = exec_program_ok [OF Continue(3)]
  have wf: "kernel_wf (kern s)" using assms(2) by (simp add: sys_ok_def)
  have "flows_apart s'" unfolding Continue(1)
    by (rule flows_apart_step [where f = "frame_flow (pkt t)"])
      (use assms(2) Continue(2) next_task_flow in \<open>auto simp: sys_ok_def flows_apart_def\<close>)
  moreover have "prog u \<noteq> Xdp_prog" if "cpu s' d = Some u" for d u
    using that assms(2) Continue(1) ok(3) [OF wf] next_task_flow [of "pkt t" "budget t" k' e u]
    by (auto simp: sys_ok_def split: if_splits)
  ultimately show ?thesis
    using assms(2) ok [OF wf] by (auto simp: sys_ok_def Continue(1) updater_ok_kern idx_ok_def)
next
  case (Read_idx env)
  with assms(2) show ?thesis
    by (auto simp: sys_ok_def flows_apart_def updater_ok_def other_slot_def active_idx_def idx_ok_def
        read_idx_def)
next
  case (Write_params i net env)
  with assms(2) show ?thesis
    by (auto simp: sys_ok_def flows_apart_def updater_ok_def other_slot_def active_idx_def idx_ok_def
        write_params_wf)
next
  case (Write_idx i env)
  from assms(2) Write_idx(2) obtain j where
    j: "array_lookup (nn_idx_map (kern s)) 0 = Some j" "j = 0 \<or> j = 1" "i = next_idx j"
    by (auto simp: sys_ok_def updater_ok_def other_slot_def active_idx_def idx_ok_def)
  have "idx_ok (write_idx env i (kern s))"
    using write_idx_ok [of "kern s" i env] j assms(2) by (auto simp: sys_ok_def)
  with assms(2) Write_idx show ?thesis
    by (auto simp: sys_ok_def flows_apart_def updater_ok_def write_idx_wf)
qed

lemma sys_steps_ok: "sys_steps s s' \<Longrightarrow> sys_ok s \<Longrightarrow> sys_ok s'"
  by (induction rule: rtranclp_induct) (auto intro: sys_step_ok)

text \<open>What remains without the two restrictions of the protocol.\<close>

definition slot_known :: "phase \<Rightarrow> bool" where
  "slot_known u \<longleftrightarrow> (\<forall>j. u = Chosen j \<or> u = Written j \<longrightarrow> j = 0 \<or> j = 1)"

definition any_ok :: "sys \<Rightarrow> bool" where
  "any_ok s \<longleftrightarrow>
     kernel_wf (kern s) \<and> idx_ok (kern s) \<and> Some Xdp_prog \<notin> set (progs (kern s)) \<and>
     (\<forall>c t. cpu s c = Some t \<longrightarrow> prog t \<noteq> Xdp_prog) \<and> slot_known (updater s) \<and>
     started s = finished s + (if updater s = Waiting then 0 else 1)"

lemma any_ok_cpu:
  assumes "any_ok s" "exec_program p ctx (kern s) = Some (k', e)"
  shows "any_ok (s\<lparr>kern := k', cpu := (cpu s)(c := next_task ctx n k' e)\<rparr>)"
  using assms(1) exec_program_ok [OF assms(2)] next_task_flow [of ctx n k' e]
  by (auto simp: any_ok_def idx_ok_def)

lemma any_step_ok:
  assumes "any_step a s s'" "any_ok s" shows "any_ok s'"
  using assms(1)
proof cases
  case (Any_receive c ctx k' e)
  show ?thesis unfolding Any_receive(2) by (rule any_ok_cpu [OF assms(2) Any_receive(4)])
next
  case (Any_continue c t k' e)
  show ?thesis unfolding Any_continue(2) by (rule any_ok_cpu [OF assms(2) Any_continue(4)])
next
  case (Any_read_idx env)
  moreover have "read_idx env (kern s) = 0 \<or> read_idx env (kern s) = 1"
    using assms(2) by (auto simp: any_ok_def idx_ok_def read_idx_def)
  ultimately show ?thesis using assms(2) by (auto simp: any_ok_def slot_known_def)
next
  case (Any_write_params i net env)
  with assms(2) show ?thesis by (auto simp: any_ok_def slot_known_def idx_ok_def write_params_wf)
next
  case (Any_write_idx i env)
  with assms(2) write_idx_ok [of "kern s" i env] show ?thesis
    by (auto simp: any_ok_def slot_known_def write_idx_wf)
qed

lemma any_step_progs: "any_step a s s' \<Longrightarrow> progs (kern s') = progs (kern s)"
  by (induction rule: any_step.induct) (auto dest: exec_program_frame xdp_prog_frame simp: write_params_def write_idx_def)

lemma any_steps_progs: "any_steps s s' \<Longrightarrow> progs (kern s') = progs (kern s)"
  by (induction rule: rtranclp_induct) (auto dest: any_step_progs)

lemma any_steps_ok: "any_steps s s' \<Longrightarrow> any_ok s \<Longrightarrow> any_ok s'"
  by (induction rule: rtranclp_induct) (auto intro: any_step_ok)

section \<open>The slot a detection has latched is not written\<close>

text \<open>
  Relative to a state in which \<open>m\<close> updates are finished and slot \<open>i\<close> is active: until a second
  update starts, the parameters in slot \<open>i\<close> are the ones that were there.
\<close>

definition slot_kept :: "nat \<Rightarrow> s32 \<Rightarrow> Net option \<Rightarrow> sys \<Rightarrow> bool" where
  "slot_kept m i net s \<longleftrightarrow>
     Suc m < started s \<or>
     array_lookup (nn_parameters (kern s)) i = net \<and>
     (finished s = m \<and> active_idx s = Some i \<or> finished s = Suc m \<and> updater s = Waiting)"

lemma slot_kept_step:
  assumes "sys_step s s'" "sys_ok s" "slot_kept m i net s"
  shows "slot_kept m i net s'"
  using assms(1)
proof cases
  case (Receive c ctx k' e)
  with assms(2,3) exec_program_ok [OF Receive(4)] show ?thesis
    by (auto simp: slot_kept_def active_idx_def sys_ok_def)
next
  case (Continue c t k' e)
  with assms(2,3) exec_program_ok [OF Continue(3)] show ?thesis
    by (auto simp: slot_kept_def active_idx_def sys_ok_def)
next
  case (Read_idx env)
  with assms(2,3) show ?thesis
    by (auto simp: slot_kept_def active_idx_def sys_ok_def updater_ok_def)
next
  case (Write_params j net' env)
  have "i \<noteq> j" if "active_idx s = Some i"
    using that assms(2) Write_params(2)
    by (auto simp: sys_ok_def updater_ok_def other_slot_def idx_ok_def active_idx_def)
  with assms(3) Write_params show ?thesis
    by (auto simp: slot_kept_def active_idx_def write_params_other)
next
  case (Write_idx j env)
  with assms(3) show ?thesis by (auto simp: slot_kept_def)
qed

lemma slot_kept_steps:
  assumes "sys_steps s s'" "sys_ok s" "slot_kept m i net s" shows "slot_kept m i net s'"
  using assms
proof (induction rule: rtranclp_induct)
  case (step t u)
  then show ?case using slot_kept_step sys_steps_ok by blast
qed

section \<open>A detection among the other steps\<close>

text \<open>What each program does to the entry of its flow, on the reference network's terms.\<close>

fun stage_fun :: "Net \<Rightarrow> xdp_program \<Rightarrow> flow_attribute \<Rightarrow> flow_attribute" where
  "stage_fun net Xdp_prog a = a"
| "stage_fun net Xdp_preprocessing a = a\<lparr>hidden2 := scaled net (feature_vector a) @ drop 6 (hidden2 a)\<rparr>"
| "stage_fun net Xdp_input_linear a = a\<lparr>hidden1 := layer (layer_0_weight net) 32 6 (take 6 (hidden2 a))\<rparr>"
| "stage_fun net Xdp_input_relu a = a\<lparr>hidden1 := rectify (hidden1 a)\<rparr>"
| "stage_fun net Xdp_hidden_linear a = a\<lparr>hidden2 := layer (layer_1_weight net) 32 32 (hidden1 a)\<rparr>"
| "stage_fun net Xdp_hidden_relu a = a\<lparr>hidden2 := rectify (hidden2 a)\<rparr>"
| "stage_fun net Xdp_output_linear a =
     a\<lparr>hidden1 := layer (layer_2_weight net) 2 32 (hidden2 a) @ drop 2 (hidden1 a)\<rparr>"

definition entry_at :: "Net \<Rightarrow> flow_attribute \<Rightarrow> nat \<Rightarrow> flow_attribute" where
  "entry_at net a n = fold (stage_fun net) (take n stages) a"

lemma length_stages [simp]: "length stages = 6"
  by (simp add: stages_def)

lemma entry_at_0 [simp]: "entry_at net a 0 = a"
  by (simp add: entry_at_def)

lemma entry_at_Suc: "n < 6 \<Longrightarrow> entry_at net a (Suc n) = stage_fun net (stages ! n) (entry_at net a n)"
  by (simp add: entry_at_def take_Suc_conv_app_nth)

lemma stage_fun_simps [simp]:
  "nn_idx (stage_fun net p a) = nn_idx a"
  "feature_vector (stage_fun net p a) = feature_vector a"
  by (cases p; simp add: feature_vector_def)+

lemma stage_fun_wf [simp]: "attribute_wf a \<Longrightarrow> attribute_wf (stage_fun net p a)"
  by (cases p) (simp_all add: attribute_wf_def)

lemma entry_at_simps [simp]:
  "nn_idx (entry_at net a n) = nn_idx a" "attribute_wf a \<Longrightarrow> attribute_wf (entry_at net a n)"
proof -
  have "nn_idx (fold (stage_fun net) ps a) = nn_idx a"
      "attribute_wf a \<Longrightarrow> attribute_wf (fold (stage_fun net) ps a)" for ps
    by (induction ps arbitrary: a) simp_all
  then show "nn_idx (entry_at net a n) = nn_idx a" "attribute_wf a \<Longrightarrow> attribute_wf (entry_at net a n)"
    by (simp_all add: entry_at_def)
qed

lemma stage_cases: "n < 5 \<Longrightarrow> n = 0 \<or> n = Suc 0 \<or> n = 2 \<or> n = 3 \<or> n = (4 :: nat)"
  by linarith

lemma stage_exec:
  assumes "detecting ctx k f (nn_idx a) net" "hash_lookup (flow_map k) f = Some a" "attribute_wf a" "n < 5"
  shows "exec_program (stages ! n) ctx k =
     Some (with_entry k f (stage_fun net (stages ! n) a), Tail (Suc n) XDP_PASS)"
proof -
  have k: "with_entry k f a = k" by (rule with_entry_self [OF assms(2)])
  have len: "length (hidden1 a) = 32" "length (hidden2 a) = 32"
    using assms(3) by (simp_all add: attribute_wf_def)
  show ?thesis
    using stage_cases [OF assms(4)]
      stage_preprocessing [OF assms(1) len(2)] stage_input_linear [OF assms(1) len]
      stage_input_relu [OF assms(1) len(1)] stage_hidden_linear [OF assms(1) len]
      stage_hidden_relu [OF assms(1) len(2)]
    by (auto simp: stages_def k)
qed

lemma stage_exec_last:
  assumes "detecting ctx k f (nn_idx a) net" "hash_lookup (flow_map k) f = Some a" "attribute_wf a"
    and out: "out = layer (layer_2_weight net) 2 32 (hidden2 a)"
  shows "\<exists>k' v. exec_program Xdp_output_linear ctx k = Some (k', Ret XDP_PASS) \<and> log k' = log k @ [v] \<and>
     label v = (if sint (out ! 0) > sint (out ! 1) then 0 else 1)"
proof -
  have k: "with_entry k f a = k" by (rule with_entry_self [OF assms(2)])
  have len: "length (hidden1 a) = 32" "length (hidden2 a) = 32"
    using assms(3) by (simp_all add: attribute_wf_def)
  show ?thesis
    using stage_output_linear [OF assms(1) len out refl]
    by (simp add: k verdict_of_def)
qed

lemma entry_at_5:
  "attribute_wf a \<Longrightarrow>
     layer (layer_2_weight net) 2 32 (hidden2 (entry_at net a 5)) = logits net (feature_vector a)"
  by (simp add: entry_at_def stages_def attribute_wf_def logits_def layer_take)

text \<open>
  The detection CPU \<open>c\<close> runs for the flow of \<open>ctx\<close>, started with the entry \<open>a\<close>: the program that is
  next, with the entry as the programs before it have left it.
\<close>

definition in_flight :: "nat \<Rightarrow> xdp_md \<Rightarrow> Net \<Rightarrow> flow_attribute \<Rightarrow> nat \<Rightarrow> sys \<Rightarrow> bool" where
  "in_flight c ctx net a n s \<longleftrightarrow>
     n < 6 \<and> cpu s c = Some \<lparr>pkt = ctx, prog = stages ! n, budget = 32 - n\<rparr> \<and>
     hash_lookup (flow_map (kern s)) (frame_flow ctx) = Some (entry_at net a n)"

definition printed :: "int \<Rightarrow> nat \<Rightarrow> sys \<Rightarrow> bool" where
  "printed l n s \<longleftrightarrow> (\<exists>v\<in>set (drop n (log (kern s))). label v = l) \<and> n \<le> length (log (kern s))"

lemma printed_append:
  "printed l n s \<Longrightarrow> log (kern s') = log (kern s) @ vs \<Longrightarrow> printed l n s'"
  by (auto simp: printed_def)

lemma stages_log:
  assumes "exec_program p ctx k = Some (k', e)" "p \<noteq> Xdp_prog"
  shows "log k' = log k \<or> (\<exists>v. log k' = log k @ [v])"
  using assms
  by (cases p)
    (auto simp: xdp_preprocessing_def xdp_input_linear_def xdp_input_relu_def xdp_hidden_linear_def
      xdp_hidden_relu_def xdp_output_linear_def flow_tuple_eq bpf_ktime_get_ns_def Let_def
      bind_eq_Some_conv split: if_splits option.splits)

lemma xdp_prog_log:
  assumes "xdp_prog ctx k = Some (k', e)" shows "log k' = log k"
proof (cases "monitored ctx")
  case mon: True
  obtain m t where "update_flow_attribute (frame_flow ctx) ctx 34 (packet_len ctx) k =
      Some (k\<lparr>flow_map := m, ticks := t\<rparr>)"
    using update_flow_attribute_monitored [OF mon] by blast
  with assms mon show ?thesis
    by (auto simp: xdp_prog_monitored start_detection_def split: if_splits option.splits)
qed (use assms in \<open>simp add: xdp_prog_unmonitored\<close>)

lemma exec_program_log:
  assumes "exec_program p ctx k = Some (k', e)" shows "\<exists>vs. log k' = log k @ vs"
  using assms stages_log [OF assms] xdp_prog_log by (cases "p = Xdp_prog") fastforce+

lemma sys_step_log: "sys_step s s' \<Longrightarrow> \<exists>vs. log (kern s') = log (kern s) @ vs"
  by (erule sys_stepE) (auto dest: exec_program_log xdp_prog_log)

text \<open>The step of CPU \<open>c\<close> itself.\<close>

lemma in_flight_own_step:
  assumes fl: "in_flight c ctx net a n s" and frame: "tcp4_frame ctx" and wf: "attribute_wf a" "net_wf net"
    and net: "array_lookup (nn_parameters (kern s)) (nn_idx a) = Some net"
    and progs: "progs_loaded (kern s)"
  obtains k' e where
    "exec_program (stages ! n) ctx (kern s) = Some (k', e)"
    "n < 5 \<Longrightarrow> in_flight c ctx net a (Suc n)
       (s\<lparr>kern := k', cpu := (cpu s)(c := next_task ctx (32 - n) k' e)\<rparr>)"
    "n < 5 \<Longrightarrow> log k' = log (kern s)"
    "n = 5 \<Longrightarrow> e = Ret XDP_PASS \<and> (\<exists>v. log k' = log (kern s) @ [v] \<and>
       label v = classify net (feature_vector a))"
proof -
  let ?f = "frame_flow ctx" and ?a = "entry_at net a n"
  have n: "n < 6" and look: "hash_lookup (flow_map (kern s)) ?f = Some ?a"
    using fl by (simp_all add: in_flight_def)
  have det: "detecting ctx (kern s) ?f (nn_idx ?a) net"
    using look frame net wf(2) by (simp add: detecting_def)
  have awf: "attribute_wf ?a" using wf(1) by simp
  show thesis
  proof (cases "n < 5")
    case True
    note ex = stage_exec [OF det look awf True]
    have "progs_loaded (with_entry (kern s) ?f b)" for b using progs by (simp add: progs_loaded_def)
    then have "prog_lookup (progs (with_entry (kern s) ?f b)) (Suc n) = Some (stages ! Suc n)" for b
      using True by (simp add: progs_loaded_def)
    then have "next_task ctx (32 - n) (with_entry (kern s) ?f b) (Tail (Suc n) XDP_PASS) =
        Some \<lparr>pkt = ctx, prog = stages ! Suc n, budget = 32 - Suc n\<rparr>" for b
      using True by (simp add: next_task_def split: nat.split) linarith
    then show thesis
      using that [OF ex] True look by (simp add: in_flight_def entry_at_Suc hash.store_same)
  next
    case False
    with n have n5: "n = 5" by simp
    obtain k' v where "exec_program Xdp_output_linear ctx (kern s) = Some (k', Ret XDP_PASS)"
        "log k' = log (kern s) @ [v]" "label v = classify net (feature_vector a)"
      using stage_exec_last [OF det look awf refl] wf(1) n5 by (auto simp: entry_at_5 classify_def)
    then show thesis using that [of k' "Ret XDP_PASS"] n5 by (simp add: stages_def)
  qed
qed

text \<open>The steps of the others do not disturb it.\<close>

lemma in_flight_step:
  assumes "sys_step s s'" and ok: "sys_ok s" and fl: "in_flight c ctx net a n s" and frame: "tcp4_frame ctx"
    and wf: "attribute_wf a" "net_wf net"
    and net: "array_lookup (nn_parameters (kern s)) (nn_idx a) = Some net"
    and progs: "progs_loaded (kern s)"
  shows "in_flight c ctx net a n s' \<or> in_flight c ctx net a (Suc n) s' \<or>
     printed (classify net (feature_vector a)) (length (log (kern s))) s'"
  using assms(1)
proof cases
  case (Receive d ctx' k' e)
  with fl have "c \<noteq> d" by (auto simp: in_flight_def)
  moreover have "frame_flow ctx \<noteq> frame_flow ctx'"
    using fl Receive(3) by (force simp: in_flight_def)
  ultimately show ?thesis
    using fl exec_program_frame [OF Receive(4)] by (auto simp: in_flight_def Receive(1))
next
  case (Continue d t k' e)
  show ?thesis
  proof (cases "d = c")
    case True
    with fl Continue have t: "t = \<lparr>pkt = ctx, prog = stages ! n, budget = 32 - n\<rparr>"
      by (simp add: in_flight_def)
    obtain k1 e1 where own: "exec_program (stages ! n) ctx (kern s) = Some (k1, e1)"
      "n < 5 \<Longrightarrow> in_flight c ctx net a (Suc n)
         (s\<lparr>kern := k1, cpu := (cpu s)(c := next_task ctx (32 - n) k1 e1)\<rparr>)"
      "n = 5 \<Longrightarrow> e1 = Ret XDP_PASS \<and> (\<exists>v. log k1 = log (kern s) @ [v] \<and>
         label v = classify net (feature_vector a))"
      using in_flight_own_step [OF fl frame wf net progs] by metis
    with Continue(3) t have e: "k' = k1" "e = e1" by simp_all
    from fl have "n < 5 \<or> n = 5" by (auto simp: in_flight_def)
    then show ?thesis
    proof
      assume "n < 5"
      with own(2) show ?thesis by (simp add: Continue(1) True t e)
    next
      assume "n = 5"
      with own(3) show ?thesis by (auto simp: Continue(1) e printed_def)
    qed
  next
    case False
    with ok fl Continue(2) have "frame_flow ctx \<noteq> frame_flow (pkt t)"
      by (force simp: sys_ok_def flows_apart_def in_flight_def)
    with False fl exec_program_frame [OF Continue(3)] show ?thesis
      by (auto simp: in_flight_def Continue(1))
  qed
qed (use fl in \<open>simp_all add: in_flight_def\<close>)

lemma started_mono: "sys_step s s' \<Longrightarrow> started s \<le> started s'"
  by (erule sys_stepE) simp_all

lemma progs_step: "sys_step s s' \<Longrightarrow> progs (kern s') = progs (kern s)"
  by (erule sys_stepE) (auto dest: exec_program_frame xdp_prog_frame)

lemma progs_steps: "sys_steps s s' \<Longrightarrow> progs (kern s') = progs (kern s)"
  by (induction rule: rtranclp_induct) (simp_all add: progs_step)

lemma detection_steps:
  assumes "sys_steps s s'" "started s' \<le> Suc (finished s)" and ok: "sys_ok s"
    and start: "in_flight c ctx net a 0 s" and frame: "tcp4_frame ctx"
    and wf: "attribute_wf a" "net_wf net" and idx: "active_idx s = Some (nn_idx a)"
    and net: "array_lookup (nn_parameters (kern s)) (nn_idx a) = Some net"
    and progs: "progs_loaded (kern s)"
  shows "(\<exists>n. in_flight c ctx net a n s') \<or>
     printed (classify net (feature_vector a)) (length (log (kern s))) s'"
    and "length (log (kern s)) \<le> length (log (kern s'))"
proof -
  have kept0: "slot_kept (finished s) (nn_idx a) (Some net) s"
    using idx net by (simp add: slot_kept_def)
  have "((\<exists>n. in_flight c ctx net a n s') \<or>
      printed (classify net (feature_vector a)) (length (log (kern s))) s') \<and>
      length (log (kern s)) \<le> length (log (kern s'))"
    using assms(1,2)
  proof (induction rule: rtranclp_induct)
    case base
    then show ?case using start by blast
  next
    case (step t u)
    have le: "started t \<le> Suc (finished s)" using started_mono [OF step.hyps(2)] step.prems by simp
    note IH = step.IH [OF le]
    have "slot_kept (finished s) (nn_idx a) (Some net) t"
      by (rule slot_kept_steps [OF step.hyps(1) ok kept0])
    with le have net': "array_lookup (nn_parameters (kern t)) (nn_idx a) = Some net"
      by (simp add: slot_kept_def)
    have progs': "progs_loaded (kern t)"
      using progs by (simp add: progs_loaded_def progs_steps [OF step.hyps(1)])
    obtain vs where vs: "log (kern u) = log (kern t) @ vs" using sys_step_log [OF step.hyps(2)] by blast
    from IH consider n where "in_flight c ctx net a n t"
      | "printed (classify net (feature_vector a)) (length (log (kern s))) t" by blast
    then show ?case
    proof cases
      case 1
      from in_flight_step [OF step.hyps(2) sys_steps_ok [OF step.hyps(1) ok] 1 frame wf net' progs']
      show ?thesis
      proof (elim disjE)
        assume p: "printed (classify net (feature_vector a)) (length (log (kern t))) u"
        have "set (drop (length (log (kern t))) (log (kern u))) \<subseteq> set (drop (length (log (kern s))) (log (kern u)))"
          using IH by (simp add: set_drop_subset_set_drop)
        with p IH vs show ?thesis by (auto simp: printed_def)
      qed (use IH vs in auto)
    next
      case 2
      with vs IH show ?thesis using printed_append [OF 2 vs] by auto
    qed
  qed
  then show "(\<exists>n. in_flight c ctx net a n s') \<or>
      printed (classify net (feature_vector a)) (length (log (kern s))) s'"
    "length (log (kern s)) \<le> length (log (kern s'))" by blast+
qed

text \<open>It needs no help: the steps of the CPU itself are determined and finish it.\<close>

lemma cpu_step_frame:
  assumes "any_step (Cpu c) s s'"
  shows "nn_parameters (kern s') = nn_parameters (kern s)" "progs (kern s') = progs (kern s)"
    "updater s' = updater s" "d \<noteq> c \<Longrightarrow> cpu s' d = cpu s d"
  using assms by (auto elim!: cpu_stepE dest: exec_program_frame xdp_prog_frame)

lemma in_flight_cpu_step:
  assumes fl: "in_flight c ctx net a n s" and frame: "tcp4_frame ctx" and wf: "attribute_wf a" "net_wf net"
    and net: "array_lookup (nn_parameters (kern s)) (nn_idx a) = Some net" and progs: "progs_loaded (kern s)"
  shows "\<exists>s'. any_step (Cpu c) s s'"
    and "any_step (Cpu c) s s' \<Longrightarrow> n < 5 \<Longrightarrow> in_flight c ctx net a (Suc n) s' \<and> log (kern s') = log (kern s)"
    and "any_step (Cpu c) s s' \<Longrightarrow> n = 5 \<Longrightarrow> cpu s' c = None \<and>
       (\<exists>v. log (kern s') = log (kern s) @ [v] \<and> label v = classify net (feature_vector a))"
proof -
  have t: "cpu s c = Some \<lparr>pkt = ctx, prog = stages ! n, budget = 32 - n\<rparr>"
    using fl by (simp add: in_flight_def)
  obtain k1 e1 where own: "exec_program (stages ! n) ctx (kern s) = Some (k1, e1)"
    "n < 5 \<Longrightarrow> in_flight c ctx net a (Suc n)
       (s\<lparr>kern := k1, cpu := (cpu s)(c := next_task ctx (32 - n) k1 e1)\<rparr>)"
    "n < 5 \<Longrightarrow> log k1 = log (kern s)"
    "n = 5 \<Longrightarrow> e1 = Ret XDP_PASS \<and> (\<exists>v. log k1 = log (kern s) @ [v] \<and>
       label v = classify net (feature_vector a))"
    by (rule in_flight_own_step [OF assms]) blast
  let ?s = "s\<lparr>kern := k1, cpu := (cpu s)(c := next_task ctx (32 - n) k1 e1)\<rparr>"
  have "any_step (Cpu c) s ?s" using Any_continue [OF t, of k1 e1] own(1) by simp
  then show "\<exists>s'. any_step (Cpu c) s s'" ..
  have det: "s' = ?s" if "any_step (Cpu c) s s'" using that t own(1) by (auto elim!: cpu_stepE)
  show "in_flight c ctx net a (Suc n) s' \<and> log (kern s') = log (kern s)"
    if "any_step (Cpu c) s s'" "n < 5"
    using det [OF that(1)] own(2,3) that(2) by simp
  show "cpu s' c = None \<and> (\<exists>v. log (kern s') = log (kern s) @ [v] \<and>
      label v = classify net (feature_vector a))" if "any_step (Cpu c) s s'" "n = 5"
    using det [OF that(1)] own(4) that(2) by (auto simp: next_task_def)
qed

lemma in_flight_finishes:
  assumes "in_flight c ctx net a n s" and frame: "tcp4_frame ctx" and wf: "attribute_wf a" "net_wf net"
    and "array_lookup (nn_parameters (kern s)) (nn_idx a) = Some net" "progs_loaded (kern s)"
  shows "(\<exists>s'. (any_step (Cpu c) ^^ (6 - n)) s s') \<and>
     (\<forall>s'. (any_step (Cpu c) ^^ (6 - n)) s s' \<longrightarrow>
        cpu s' c = None \<and> updater s' = updater s \<and> (\<forall>d. d \<noteq> c \<longrightarrow> cpu s' d = cpu s d) \<and>
        (\<exists>v. log (kern s') = log (kern s) @ [v] \<and> label v = classify net (feature_vector a)))"
  using assms(1,5,6)
proof (induction "5 - n" arbitrary: n s)
  case 0
  then have n5: "n = 5" by (simp add: in_flight_def)
  show ?case
    using in_flight_cpu_step [OF 0(2) frame wf 0(3,4)] cpu_step_frame [of c s] n5 by auto
next
  case (Suc d)
  then have n: "n < 5" and eq: "6 - n = Suc (6 - Suc n)" by simp_all
  note step = in_flight_cpu_step [OF Suc(3) frame wf Suc(4,5)]
  have IH: "(\<exists>s'. (any_step (Cpu c) ^^ (6 - Suc n)) t s') \<and>
     (\<forall>s'. (any_step (Cpu c) ^^ (6 - Suc n)) t s' \<longrightarrow>
        cpu s' c = None \<and> updater s' = updater t \<and> (\<forall>d. d \<noteq> c \<longrightarrow> cpu s' d = cpu t d) \<and>
        (\<exists>v. log (kern s') = log (kern t) @ [v] \<and> label v = classify net (feature_vector a)))"
    if "any_step (Cpu c) s t" for t
    by (rule Suc.hyps(1))
      (use Suc step(2) [OF that n] cpu_step_frame [OF that] in \<open>simp_all add: progs_loaded_def\<close>)
  obtain t where t: "any_step (Cpu c) s t" using step(1) by blast
  show ?case
  proof (intro conjI allI impI)
    show "\<exists>s'. (any_step (Cpu c) ^^ (6 - n)) s s'"
      unfolding eq using IH [OF t] t by (meson relpowp_Suc_I2)
  next
    fix s' assume "(any_step (Cpu c) ^^ (6 - n)) s s'"
    then obtain u where u: "any_step (Cpu c) s u" "(any_step (Cpu c) ^^ (6 - Suc n)) u s'"
      unfolding eq by (meson relpowp_Suc_E2)
    show "cpu s' c = None" "updater s' = updater s"
      "\<exists>v. log (kern s') = log (kern s) @ [v] \<and> label v = classify net (feature_vector a)"
      using IH [OF u(1)] u(2) step(2) [OF u(1) n] cpu_step_frame [OF u(1)] by auto
    show "cpu s' d = cpu s d" if "d \<noteq> c" for d
      using IH [OF u(1)] u(2) cpu_step_frame(4) [OF u(1) that] that by simp
  qed
qed

text \<open>A packet that ends a monitored flow starts one.\<close>

lemma receive_starts:
  assumes mon: "monitored ctx" and ends: "ends_flow ctx" and wf: "kernel_wf (kern s)"
    and progs: "progs_loaded (kern s)" and idle: "cpu s c = None"
    and base: "base_entry (kern s) (frame_flow ctx) (packet_obs (kern s) ctx (packet_len ctx)) = Some a0"
    and idx: "active_idx s = Some i"
  obtains s1 a where
    "any_step (Cpu c) s s1"
    "\<forall>c' t. cpu s c' = Some t \<longrightarrow> frame_flow (pkt t) \<noteq> frame_flow ctx \<Longrightarrow> sys_step s s1"
    "in_flight c ctx net a 0 s1" "attribute_wf a" "nn_idx a = i" "active_idx s1 = Some i"
    "feature_vector a = feature_vector (observe (packet_obs (kern s) ctx (packet_len ctx)) a0)"
    "nn_parameters (kern s1) = nn_parameters (kern s)" "progs (kern s1) = progs (kern s)"
    "log (kern s1) = log (kern s)" "finished s1 = finished s"
proof -
  obtain k1 a where prog: "xdp_prog ctx (kern s) = Some (k1, Tail 0 XDP_PASS)"
    and look: "hash_lookup (flow_map k1) = (hash_lookup (flow_map (kern s)))(frame_flow ctx \<mapsto> a)"
    and a: "attribute_wf a" "same_features a (observe (packet_obs (kern s) ctx (packet_len ctx)) a0)" "nn_idx a = i"
    and k1: "nn_parameters k1 = nn_parameters (kern s)" "progs k1 = progs (kern s)" "log k1 = log (kern s)"
    using xdp_prog_detects [OF mon ends wf base idx [unfolded active_idx_def]] by blast
  let ?s1 = "s\<lparr>kern := k1, cpu := (cpu s)(c := next_task ctx MAX_TAIL_CALL_CNT k1 (Tail 0 XDP_PASS))\<rparr>"
  have "any_step (Cpu c) s ?s1"
    by (rule Any_receive [OF idle]) (simp add: prog)
  moreover have "sys_step s ?s1"
    if "\<forall>c' t. cpu s c' = Some t \<longrightarrow> frame_flow (pkt t) \<noteq> frame_flow ctx"
    by (rule Receive [OF idle that]) (simp add: prog)
  moreover have "in_flight c ctx net a 0 ?s1"
    using progs_loaded_lookup(1) [OF progs] look
    by (simp add: in_flight_def next_task_def MAX_TAIL_CALL_CNT_def k1 stages_def)
  moreover have "active_idx ?s1 = Some i"
    using idx xdp_prog_frame [OF prog] by (simp add: active_idx_def)
  ultimately show thesis
    using that [of ?s1 a] a same_features_vector [OF a(2)] k1 by simp
qed

end
