(* ===== verification/Loader.thy ===== *)
theory Loader
  imports Pipeline Hot_Updating
begin

text \<open>
  \<open>src/src/xdp.c\<close>: the user program that opens and loads the BPF object, fills the program array,
  selects network 1, attaches \<open>xdp_prog\<close> and waits for SIGINT. The answers of libbpf and of the
  kernel are inputs (\<open>xdp_env\<close>); the order of the calls, the early returns and the clean-up are
  the code's.
\<close>

section \<open>The table of programs\<close>

record bpf_progs_desc =
  prog_name :: string
  map_prog_idx :: nat

definition progs_desc :: "bpf_progs_desc list" where
  "progs_desc =
     [\<lparr>prog_name = ''xdp_preprocessing'', map_prog_idx = 0\<rparr>,
      \<lparr>prog_name = ''xdp_input_linear'', map_prog_idx = 1\<rparr>,
      \<lparr>prog_name = ''xdp_input_relu'', map_prog_idx = 2\<rparr>,
      \<lparr>prog_name = ''xdp_hidden_linear'', map_prog_idx = 3\<rparr>,
      \<lparr>prog_name = ''xdp_hidden_relu'', map_prog_idx = 4\<rparr>,
      \<lparr>prog_name = ''xdp_output_linear'', map_prog_idx = 5\<rparr>]"

section \<open>The environment and the process state\<close>

text \<open>
  \<open>find_program\<close> is \<open>bpf_object__find_program_by_name\<close>, \<open>program_fd\<close> is \<open>bpf_program__fd\<close> and
  \<open>fd_program\<close> the program the kernel finds behind a descriptor; \<open>progs_err i\<close> and \<open>sel_err\<close> are
  the results of the map updates, \<open>attach_ok\<close> tells whether \<open>bpf_program__attach_xdp\<close> returned a
  link, and \<open>exiting n\<close> is the flag the signal handler sets, as the \<open>n\<close>-th test of the loop sees it.
\<close>

record xdp_env =
  open_ok :: bool
  load_err :: int
  find_program :: "string \<Rightarrow> xdp_program option"
  program_fd :: "xdp_program \<Rightarrow> int"
  fd_program :: "int \<Rightarrow> xdp_program option"
  progs_err :: "nat \<Rightarrow> int"
  sel_err :: int
  attach_ok :: bool
  exiting :: "nat \<Rightarrow> bool"

text \<open>
  What the process has acquired: the loaded object, the pinned maps, the link of the attachment. The
  kernel takes the link away when the process is gone, which is after the states described here.
\<close>

record proc =
  kstate :: kernel
  skel_open :: bool
  pinned :: bool
  attached :: bool

section \<open>The main program\<close>

text \<open>The first loop: every program must be found; \<open>None\<close> is the early return.\<close>

fun find_all :: "xdp_env \<Rightarrow> bpf_progs_desc list \<Rightarrow> (nat \<times> xdp_program) list option" where
  "find_all env [] = Some []"
| "find_all env (d # ds) =
     (case find_program env (prog_name d) of
        None \<Rightarrow> None
      | Some p \<Rightarrow> map_option ((#) (map_prog_idx d, p)) (find_all env ds))"

text \<open>
  The second loop puts each program's descriptor into the program array. The test
  \<open>map_prog_idx < 0\<close> on an unsigned variable is never true and has no branch here. The result is
  the state the loop leaves and whether it finished.
\<close>

definition prog_array_update :: "xdp_env \<Rightarrow> nat \<Rightarrow> int \<Rightarrow> kernel \<Rightarrow> kernel \<times> int" where
  "prog_array_update env i fd k =
     (if progs_err env i \<noteq> 0 then (k, progs_err env i)
      else (k\<lparr>progs := (progs k)[i := fd_program env fd]\<rparr>, 0))"

fun fill_progs :: "xdp_env \<Rightarrow> (nat \<times> xdp_program) list \<Rightarrow> kernel \<Rightarrow> kernel \<times> bool" where
  "fill_progs env [] k = (k, True)"
| "fill_progs env ((i, p) # ps) k =
     (let prog_fd = program_fd env p in
      if prog_fd < 0 then (k, False)
      else case prog_array_update env i prog_fd k of
        (k', err) \<Rightarrow> if err \<noteq> 0 then (k', False) else fill_progs env ps k')"

definition select_net :: "xdp_env \<Rightarrow> kernel \<Rightarrow> kernel \<times> int" where
  "select_net env k =
     (if sel_err env \<noteq> 0 then (k, sel_err env)
      else (k\<lparr>nn_idx_map := fst (array_update (nn_idx_map k) 0 1 BPF_ANY)\<rparr>, 0))"

text \<open>\<open>while (!exiting) sleep(60)\<close>: it returns when some test sees the flag set.\<close>

partial_function (option) wait_loop :: "(nat \<Rightarrow> bool) \<Rightarrow> nat \<Rightarrow> nat option" where
  "wait_loop ex n = (if ex n then Some n else wait_loop ex (Suc n))"

text \<open>
  The clean-up removes the two pins and destroys the skeleton. The link that attaches \<open>xdp_prog\<close> is a
  local variable of \<open>main\<close> and not destroyed: the program stays attached as long as the process lives.
\<close>

definition cleanup :: "proc \<Rightarrow> int \<Rightarrow> proc \<times> int" where
  "cleanup s err =
     (s\<lparr>pinned := False, skel_open := False\<rparr>, if err < 0 then - err else 0)"

text \<open>
  Loading creates the maps and pins \<open>nn_parameters\<close> and \<open>nn_idx\<close>; \<open>k0\<close> is the kernel state it
  gives. The result is the process state at exit and the exit status; \<open>None\<close> is a process that
  never ends.
\<close>

definition xdp_main :: "xdp_env \<Rightarrow> kernel \<Rightarrow> (proc \<times> int) option" where
  "xdp_main env k0 =
     (let s = \<lparr>kstate = k0, skel_open = False, pinned = False, attached = False\<rparr> in
      if \<not> open_ok env then Some (s, 1)
      else let s = s\<lparr>skel_open := True\<rparr> in
      if load_err env \<noteq> 0 then Some (cleanup s (load_err env))
      else let s = s\<lparr>pinned := True\<rparr> in
      case find_all env progs_desc of
        None \<Rightarrow> Some (s, 1)
      | Some ps \<Rightarrow>
          (case fill_progs env ps (kstate s) of (k, filled) \<Rightarrow>
             let s = s\<lparr>kstate := k\<rparr> in
             if \<not> filled then Some (s, 1)
             else case select_net env (kstate s) of (k, err) \<Rightarrow>
               let s = s\<lparr>kstate := k\<rparr> in
               if err \<noteq> 0 then Some (s, 1)
               else if \<not> attach_ok env then Some (s, 1)
               else let s = s\<lparr>attached := True\<rparr> in
               case wait_loop (exiting env) 0 of
                 None \<Rightarrow> None
               | Some _ \<Rightarrow> Some (cleanup s err)))"

section \<open>The loops\<close>

lemma wait_loop_returns:
  assumes "ex m" "n \<le> m" shows "\<exists>r. wait_loop ex n = Some r"
  using assms
proof (induction "m - n" arbitrary: n)
  case 0
  then show ?case by (simp add: wait_loop.simps)
next
  case (Suc d)
  show ?case
  proof (cases "ex n")
    case True
    then show ?thesis by (simp add: wait_loop.simps)
  next
    case False
    with Suc show ?thesis by (subst wait_loop.simps) simp
  qed
qed

lemma wait_loop_exits:
  assumes "wait_loop ex n = Some r" shows "ex r"
proof (rule wait_loop.raw_induct [where P = "\<lambda>ex n r. ex r", OF _ assms])
  fix f :: "(nat \<Rightarrow> bool) \<Rightarrow> nat \<Rightarrow> nat option" and ex n r
  assume IH: "\<And>ex n r. f ex n = Some r \<Longrightarrow> ex r"
    and eq: "(if ex n then Some n else f ex (Suc n)) = Some r"
  show "ex r"
  proof (cases "ex n")
    case False
    with eq have "f ex (Suc n) = Some r" by simp
    then show ?thesis by (rule IH)
  qed (use eq in simp)
qed

text \<open>Every program of the table is found by its name and has a usable descriptor.\<close>

definition env_complete :: "xdp_env \<Rightarrow> bool" where
  "env_complete env \<longleftrightarrow>
     open_ok env \<and> load_err env = 0 \<and>
     map (find_program env) (map prog_name progs_desc) = map Some stages \<and>
     list_all (\<lambda>p. 0 \<le> program_fd env p \<and> fd_program env (program_fd env p) = Some p) stages \<and>
     (\<forall>i<6. progs_err env i = 0) \<and> sel_err env = 0 \<and> attach_ok env"

lemma find_all_complete:
  assumes "env_complete env"
  shows "find_all env progs_desc = Some (zip [0..<6] stages)"
  using assms by (simp add: env_complete_def progs_desc_def stages_def upt_rec)

lemma fill_progs_complete:
  assumes "env_complete env" "length (progs k) = 1024"
  shows "fill_progs env (zip [0..<6] stages) k =
     (k\<lparr>progs := map Some stages @ drop 6 (progs k)\<rparr>, True)"
proof -
  have "6 \<le> length (progs k)" using assms(2) by simp
  then obtain a b c d e f rest where p: "progs k = a # b # c # d # e # f # rest"
    by (auto simp: numeral_eq_Suc Suc_le_length_iff)
  show ?thesis
    using assms(1) by (simp add: env_complete_def stages_def upt_rec prog_array_update_def p Let_def)
qed

lemma xdp_main_run:
  assumes "env_complete env" "length (progs k0) = 1024" "exiting env n"
  shows "xdp_main env k0 =
     Some (\<lparr>kstate = k0\<lparr>progs := map Some stages @ drop 6 (progs k0),
             nn_idx_map := fst (array_update (nn_idx_map k0) 0 1 BPF_ANY)\<rparr>,
            skel_open = False, pinned = False, attached = True\<rparr>, 0)"
proof -
  obtain r where r: "wait_loop (exiting env) 0 = Some r"
    using wait_loop_returns [of "exiting env" n 0] assms(3) by auto
  have e: "open_ok env" "load_err env = 0" "sel_err env = 0" "attach_ok env"
    using assms(1) by (simp_all add: env_complete_def)
  show ?thesis
    using e r fill_progs_complete [OF assms(1,2)]
    by (simp add: xdp_main_def find_all_complete [OF assms(1)] select_net_def cleanup_def Let_def)
qed

section \<open>Partial failures\<close>

text \<open>
  For the program in line \<open>i\<close> of the table: whether it is found, whether it can be put into its slot,
  and what the slot then holds.
\<close>

definition prog_named :: "xdp_env \<Rightarrow> nat \<Rightarrow> xdp_program option" where
  "prog_named env i = find_program env (prog_name (progs_desc ! i))"

definition prog_usable :: "xdp_env \<Rightarrow> nat \<Rightarrow> bool" where
  "prog_usable env i \<longleftrightarrow>
     (\<exists>p. prog_named env i = Some p \<and> 0 \<le> program_fd env p) \<and> progs_err env i = 0"

definition prog_behind :: "xdp_env \<Rightarrow> nat \<Rightarrow> xdp_program option" where
  "prog_behind env i = fd_program env (program_fd env (the (prog_named env i)))"

text \<open>Every call up to the attachment succeeds.\<close>

definition calls_succeed :: "xdp_env \<Rightarrow> bool" where
  "calls_succeed env \<longleftrightarrow>
     open_ok env \<and> load_err env = 0 \<and> (\<forall>i<6. prog_usable env i) \<and> sel_err env = 0 \<and> attach_ok env"

lemma nat_less_6: "i < 6 \<Longrightarrow> i = 0 \<or> i = 1 \<or> i = 2 \<or> i = 3 \<or> i = 4 \<or> i = (5 :: nat)"
  by linarith

lemma find_all_eq:
  "find_all env ds =
     (if \<forall>d\<in>set ds. find_program env (prog_name d) \<noteq> None
      then Some (map (\<lambda>d. (map_prog_idx d, the (find_program env (prog_name d)))) ds) else None)"
  by (induction ds) (auto split: option.splits)

lemma progs_desc_nth: "progs_desc = map ((!) progs_desc) [0..<6]"
  by (simp add: progs_desc_def upt_rec)

lemma map_prog_idx_nth: "i < 6 \<Longrightarrow> map_prog_idx (progs_desc ! i) = i"
  by (simp add: progs_desc_def nth_Cons split: nat.split)

lemma find_all_progs_desc:
  "find_all env progs_desc =
     (if \<forall>i<6. prog_named env i \<noteq> None
      then Some (map (\<lambda>i. (i, the (prog_named env i))) [0..<6]) else None)"
proof -
  have "set progs_desc = (!) progs_desc ` {0..<6}" by (subst progs_desc_nth) simp
  moreover have "map (\<lambda>d. (map_prog_idx d, the (find_program env (prog_name d)))) progs_desc =
      map (\<lambda>i. (i, the (prog_named env i))) [0..<6]"
    by (subst progs_desc_nth) (simp add: prog_named_def map_prog_idx_nth)
  ultimately show ?thesis by (simp add: find_all_eq prog_named_def)
qed

text \<open>The second loop stops at the first program that cannot be put into its slot.\<close>

lemma fill_progs_prefix:
  assumes "j + l \<le> length (progs k)" "\<forall>i<j + l. prog_named env i \<noteq> None"
  shows "\<exists>m\<le>l. (\<forall>i<m. prog_usable env (j + i)) \<and> (m < l \<longrightarrow> \<not> prog_usable env (j + m)) \<and>
     fill_progs env (map (\<lambda>i. (i, the (prog_named env i))) [j..<j + l]) k =
       (k\<lparr>progs := take j (progs k) @ map (prog_behind env) [j..<j + m] @ drop (j + m) (progs k)\<rparr>, m = l)"
  using assms
proof (induction l arbitrary: j k)
  case 0
  then show ?case by simp
next
  case (Suc l)
  let ?p = "the (prog_named env j)"
  have eq: "[j..<j + Suc l] = j # [Suc j..<Suc j + l]" by (simp add: upt_rec)
  have p: "prog_named env j = Some ?p" using Suc.prems(2) by auto
  show ?case
  proof (cases "prog_usable env j")
    case False
    then have "fill_progs env (map (\<lambda>i. (i, the (prog_named env i))) [j..<j + Suc l]) k = (k, False)"
      unfolding eq using p by (auto simp: prog_usable_def prog_array_update_def Let_def)
    then show ?thesis using False by (intro exI [of _ 0]) simp
  next
    case True
    let ?k = "k\<lparr>progs := (progs k)[j := prog_behind env j]\<rparr>"
    have "fill_progs env (map (\<lambda>i. (i, the (prog_named env i))) [j..<j + Suc l]) k =
        fill_progs env (map (\<lambda>i. (i, the (prog_named env i))) [Suc j..<Suc j + l]) ?k"
      unfolding eq using True p
      by (auto simp: prog_usable_def prog_array_update_def prog_behind_def simp del: upt_Suc)
    moreover obtain m where m: "m \<le> l" "\<forall>i<m. prog_usable env (Suc j + i)"
      "m < l \<longrightarrow> \<not> prog_usable env (Suc j + m)"
      "fill_progs env (map (\<lambda>i. (i, the (prog_named env i))) [Suc j..<Suc j + l]) ?k =
       (?k\<lparr>progs := take (Suc j) (progs ?k) @ map (prog_behind env) [Suc j..<Suc j + m] @
          drop (Suc j + m) (progs ?k)\<rparr>, m = l)"
      using Suc.IH [of "Suc j" ?k] Suc.prems by auto
    moreover have "take (Suc j) (progs ?k) @ map (prog_behind env) [Suc j..<Suc j + m] @
          drop (Suc j + m) (progs ?k) =
        take j (progs k) @ map (prog_behind env) [j..<j + Suc m] @ drop (j + Suc m) (progs k)"
      using Suc.prems(1) by (simp add: take_Suc_conv_app_nth upt_rec [of j "Suc (j + m)"] del: upt_Suc)
    moreover have "\<forall>i<Suc m. prog_usable env (j + i)"
      using m(2) True by (auto simp: less_Suc_eq_0_disj)
    ultimately show ?thesis by (intro exI [of _ "Suc m"]) simp
  qed
qed

lemma fill_progs_table:
  assumes "length (progs k) = 1024" "\<forall>i<6. prog_named env i \<noteq> None"
  obtains m where "m \<le> 6" "\<forall>i<m. prog_usable env i" "m < 6 \<longrightarrow> \<not> prog_usable env m"
    "fill_progs env (map (\<lambda>i. (i, the (prog_named env i))) [0..<6]) k =
       (k\<lparr>progs := map (prog_behind env) [0..<m] @ drop m (progs k)\<rparr>, m = 6)"
  using fill_progs_prefix [of 0 6 k env] assms by auto

end
