(* ===== verification/Accuracy.thy ===== *)
theory Accuracy
  imports Mlp_Params
begin

text \<open>
  The fixed-point network against the network over the real numbers: within the range the words can
  hold, each layer adds at most one unit in the last place and amplifies the error by the sum of
  its weights, so the shipped network's logits are within 152 units of the exact ones.
\<close>

section \<open>The network over the reals\<close>

text \<open>A weight or an activation \<open>v\<close> stands for the real number \<open>sint v / 65536\<close>.\<close>

definition real_weight :: "s32 \<Rightarrow> real" where
  "real_weight w = real_of_int (sint w) / 65536"

definition real_scaled :: "Net \<Rightarrow> s64 list \<Rightarrow> real list" where
  "real_scaled net xs =
     map (\<lambda>i. (real_of_int (sint (xs ! i)) - real_of_int (sint (mean net ! i)))
              / real_of_int (sint (scale net ! i))) [0..<6]"

definition real_layer :: "s32 list \<Rightarrow> nat \<Rightarrow> nat \<Rightarrow> real list \<Rightarrow> real list" where
  "real_layer W M N x = map (\<lambda>i. \<Sum>j<N. real_weight (W ! (i * N + j)) * x ! j) [0..<M]"

definition real_rectify :: "real list \<Rightarrow> real list" where
  "real_rectify x = map (max 0) x"

definition real_logits :: "Net \<Rightarrow> s64 list \<Rightarrow> real list" where
  "real_logits net xs =
     real_layer (layer_2_weight net) 2 32
       (real_rectify (real_layer (layer_1_weight net) 32 32
          (real_rectify (real_layer (layer_0_weight net) 32 6 (real_scaled net xs)))))"

section \<open>Approximation\<close>

text \<open>
  \<open>approx n e B v x\<close>: the first \<open>n\<close> entries of \<open>v\<close> are within \<open>e\<close> units of the reals \<open>x\<close>, and at
  most \<open>B\<close> in magnitude.
\<close>

definition approx :: "nat \<Rightarrow> real \<Rightarrow> int \<Rightarrow> s32 list \<Rightarrow> real list \<Rightarrow> bool" where
  "approx n e B v x \<longleftrightarrow>
     length v = n \<and> length x = n \<and>
     (\<forall>i<n. \<bar>65536 * x ! i - real_of_int (sint (v ! i))\<bar> \<le> e \<and> \<bar>sint (v ! i)\<bar> \<le> B)"

lemma approx_nth:
  "approx n e B v x \<Longrightarrow> i < n \<Longrightarrow> \<bar>65536 * x ! i - real_of_int (sint (v ! i))\<bar> \<le> e"
  "approx n e B v x \<Longrightarrow> i < n \<Longrightarrow> \<bar>sint (v ! i)\<bar> \<le> B"
  by (simp_all add: approx_def)

lemma div_floor_bounds:
  "real_of_int d / 65536 - 1 < real_of_int (d div 65536)" "real_of_int (d div 65536) \<le> real_of_int d / 65536"
  by (linarith | simp add: field_simps)+

lemma abs_div_bound:
  fixes d :: int
  assumes "\<bar>d\<bar> \<le> C" shows "\<bar>d div 65536\<bar> \<le> C div 65536 + 1"
  using assms by linarith

lemma scaled_term_bound:
  fixes y :: real
  assumes "\<bar>y - real_of_int k\<bar> \<le> e"
  shows "\<bar>real_of_int c * (y - real_of_int k)\<bar> \<le> real_of_int \<bar>c\<bar> * e"
  using assms by (simp add: abs_mult mult_left_mono)

lemma rectify_error:
  fixes y :: real
  shows "\<bar>65536 * max 0 y - real_of_int (max k 0)\<bar> \<le> \<bar>65536 * y - real_of_int k\<bar>"
    "\<bar>max k 0\<bar> \<le> \<bar>k\<bar>"
  by (auto simp: max_def)

text \<open>One layer: the accumulated error, and the bound that excludes an overflow of the result.\<close>

lemma approx_layer:
  assumes a: "approx N e B v x" and e: "0 \<le> e"
    and rows: "\<And>i. i < M \<Longrightarrow> (\<Sum>j<N. \<bar>sint (W ! (i * N + j))\<bar>) \<le> S"
    and fits: "0 \<le> B" "S * B div 65536 + 1 < 2147483648"
    and e': "real_of_int S * e / 65536 + 1 \<le> e'" and B': "S * B div 65536 + 1 \<le> B'"
  shows "approx M e' B' (layer W M N v) (real_layer W M N x)"
proof -
  have main: "\<bar>65536 * real_layer W M N x ! i - real_of_int (sint (layer W M N v ! i))\<bar> \<le> e' \<and>
      \<bar>sint (layer W M N v ! i)\<bar> \<le> B'" if i: "i < M" for i
  proof -
    let ?d = "dot W v N i"
    have d: "\<bar>?d\<bar> \<le> S * B"
      by (rule dot_bound) (use approx_nth(2) [OF a] rows [OF i] fits(1) in auto)
    have q: "\<bar>?d div 65536\<bar> \<le> S * B div 65536 + 1" by (rule abs_div_bound [OF d])
    then have s: "sint (layer W M N v ! i) = ?d div 65536"
      using fits(2) i by (simp add: layer_def) (intro sint_of_int_s32; linarith)
    have "65536 * (65536 * real_layer W M N x ! i) - real_of_int ?d =
        (\<Sum>j<N. real_of_int (sint (W ! (i * N + j))) * (65536 * x ! j - real_of_int (sint (v ! j))))"
      using i by (simp add: real_layer_def dot_def real_weight_def sum_distrib_left right_diff_distrib
          sum_subtractf mult.assoc mult.left_commute)
    then have "\<bar>65536 * (65536 * real_layer W M N x ! i) - real_of_int ?d\<bar> \<le>
        (\<Sum>j<N. real_of_int \<bar>sint (W ! (i * N + j))\<bar> * e)"
      by (simp only:)
        (rule order_trans [OF sum_abs], rule sum_mono, rule scaled_term_bound, rule approx_nth(1) [OF a], simp)
    also have "\<dots> = real_of_int (\<Sum>j<N. \<bar>sint (W ! (i * N + j))\<bar>) * e"
      by (simp add: sum_distrib_right)
    also have "\<dots> \<le> real_of_int S * e"
      using rows [OF i] e by (intro mult_right_mono) (simp_all only: of_int_le_iff)
    finally have dist: "\<bar>65536 * (65536 * real_layer W M N x ! i) - real_of_int ?d\<bar> \<le> real_of_int S * e" .
    have "\<bar>65536 * real_layer W M N x ! i - real_of_int ?d / 65536\<bar> \<le> real_of_int S * e / 65536"
      using dist by (simp add: abs_le_iff field_simps)
    with div_floor_bounds [of ?d] e' have
      "\<bar>65536 * real_layer W M N x ! i - real_of_int (?d div 65536)\<bar> \<le> e'"
      by linarith
    with q B' show ?thesis by (simp add: s)
  qed
  then show ?thesis by (simp add: approx_def real_layer_def)
qed

lemma approx_rectify:
  assumes "approx n e B v x" shows "approx n e B (rectify v) (real_rectify x)"
proof -
  have "\<bar>65536 * max 0 (x ! i) - real_of_int (max (sint (v ! i)) 0)\<bar> \<le> e \<and>
      \<bar>max (sint (v ! i)) 0\<bar> \<le> B" if "i < n" for i
    using approx_nth [OF assms that] rectify_error(1) [of "x ! i" "sint (v ! i)"]
      rectify_error(2) [of "sint (v ! i)"] by linarith
  with assms show ?thesis
    by (simp add: approx_def rectify_def real_rectify_def sint_c_max)
qed

section \<open>The scaler\<close>

lemma c_div_error:
  fixes a s :: int
  assumes "0 < s"
  shows "\<bar>real_of_int a / real_of_int s - real_of_int (c_div a s)\<bar> \<le> 1"
proof -
  have t: "c_div a s = sgn a * (\<bar>a\<bar> div s)" using assms by (simp add: c_div_def)
  have f: "real_of_int (\<bar>a\<bar> div s) \<le> real_of_int \<bar>a\<bar> / real_of_int s"
      "real_of_int \<bar>a\<bar> / real_of_int s < real_of_int (\<bar>a\<bar> div s) + 1"
    using floor_correct [of "real_of_int \<bar>a\<bar> / real_of_int s"]
    unfolding floor_divide_of_int_eq by simp_all
  show ?thesis
  proof (cases "a < 0")
    case True
    with f show ?thesis by (simp add: t abs_le_iff)
  next
    case False
    with f show ?thesis using assms by (cases "a = 0") (simp_all add: c_div_def abs_le_iff)
  qed
qed

text \<open>All features within 256 scales of their means.\<close>

definition in_range :: "Net \<Rightarrow> s64 list \<Rightarrow> bool" where
  "in_range net xs \<longleftrightarrow>
     list_all (\<lambda>i. \<bar>sint (xs ! i) - sint (mean net ! i)\<bar> \<le> 256 * sint (scale net ! i)) [0..<6]"

definition scales_ok :: "Net \<Rightarrow> bool" where
  "scales_ok net \<longleftrightarrow> list_all (\<lambda>i. 0 < sint (scale net ! i) \<and> sint (scale net ! i) < 2 ^ 38) [0..<6]"

lemma approx_scaled:
  assumes "in_range net xs" "scales_ok net"
  shows "approx 6 1 16777216 (scaled net xs) (real_scaled net xs)"
proof -
  have "\<bar>65536 * real_scaled net xs ! i - real_of_int (sint (scaled net xs ! i))\<bar> \<le> 1 \<and>
      \<bar>sint (scaled net xs ! i)\<bar> \<le> 16777216" if i: "i < 6" for i
  proof -
    let ?x = "sint (xs ! i)" and ?m = "sint (mean net ! i)" and ?s = "sint (scale net ! i)"
    have r: "\<bar>?x - ?m\<bar> \<le> 256 * ?s" "0 < ?s" "?s < 2 ^ 38"
      using assms i by (simp_all add: in_range_def scales_ok_def list_all_iff)
    have q: "\<bar>?x - ?m\<bar> * 65536 div ?s \<le> 16777216"
    proof -
      have "\<bar>?x - ?m\<bar> * 65536 div ?s \<le> (16777216 * ?s) div ?s"
        by (rule zdiv_mono1) (use r in auto)
      with r(2) show ?thesis by simp
    qed
    have s: "sint (scaled net xs ! i) = c_div ((?x - ?m) * 65536) ?s"
      unfolding scaled_def using i r q by (simp add: scale_one_exact)
    have "\<bar>c_div ((?x - ?m) * 65536) ?s\<bar> = \<bar>?x - ?m\<bar> * 65536 div ?s \<or>
        \<bar>c_div ((?x - ?m) * 65536) ?s\<bar> = 0"
      using r(2) by (auto simp: c_div_def abs_mult sgn_if pos_imp_zdiv_nonneg_iff)
    moreover have "65536 * real_scaled net xs ! i = real_of_int ((?x - ?m) * 65536) / real_of_int ?s"
      using i by (simp add: real_scaled_def)
    ultimately show ?thesis
      using c_div_error [OF r(2), of "(?x - ?m) * 65536"] q by (auto simp: s)
  qed
  then show ?thesis by (simp add: approx_def real_scaled_def)
qed

section \<open>The shipped network\<close>

lemma shipped_scales: "scales_ok shipped_net"
  by (simp add: scales_ok_def shipped_net_def params_scale_def upt_rec sint_of_int_s64)

lemma approx_hidden:
  assumes "in_range shipped_net xs"
  shows "approx 32 (3266 / 1000) 38005505
      (rectify (layer (layer_0_weight shipped_net) 32 6 (scaled shipped_net xs)))
      (real_rectify (real_layer (layer_0_weight shipped_net) 32 6 (real_scaled shipped_net xs)))"
    "approx 32 (2004 / 100) 221493875
      (rectify (layer (layer_1_weight shipped_net) 32 32
         (rectify (layer (layer_0_weight shipped_net) 32 6 (scaled shipped_net xs)))))
      (real_rectify (real_layer (layer_1_weight shipped_net) 32 32 (real_rectify
         (real_layer (layer_0_weight shipped_net) 32 6 (real_scaled shipped_net xs)))))"
proof -
  show a: "approx 32 (3266 / 1000) 38005505
      (rectify (layer (layer_0_weight shipped_net) 32 6 (scaled shipped_net xs)))
      (real_rectify (real_layer (layer_0_weight shipped_net) 32 6 (real_scaled shipped_net xs)))"
    by (rule approx_rectify, rule approx_layer [OF approx_scaled [OF assms shipped_scales] _ shipped_rows(1)])
      simp_all
  show "approx 32 (2004 / 100) 221493875
      (rectify (layer (layer_1_weight shipped_net) 32 32
         (rectify (layer (layer_0_weight shipped_net) 32 6 (scaled shipped_net xs)))))
      (real_rectify (real_layer (layer_1_weight shipped_net) 32 32 (real_rectify
         (real_layer (layer_0_weight shipped_net) 32 6 (real_scaled shipped_net xs)))))"
    by (rule approx_rectify, rule approx_layer [OF a _ shipped_rows(2)]) simp_all
qed

lemma approx_logits:
  assumes "in_range shipped_net xs"
  shows "approx 2 152 1668598909 (logits shipped_net xs) (real_logits shipped_net xs)"
  unfolding logits_def real_logits_def
  by (rule approx_layer [OF approx_hidden(2) [OF assms] _ shipped_rows(3)]) simp_all

end
