(* ===== verification/Examples.thy ===== *)
theory Examples
  imports System Loader Accuracy
begin

text \<open>
  Concrete packets and kernel states at which the theorems of the development are instantiated.
\<close>

text \<open>A frame from 33.33.33.73:12345 to 10.0.0.1:80 with the TCP flag byte \<open>flags\<close>.\<close>

definition ex_packet :: "u8 \<Rightarrow> xdp_md" where
  "ex_packet flags = \<lparr>bytes =
     [0, 0, 0, 0, 0, 0, 0, 0, 0, 0, 0, 0, 0x08, 0x00,
      0x45, 0, 0, 60, 0, 0, 0, 0, 64, 6, 0, 0, 33, 33, 33, 73, 10, 0, 0, 1,
      0x30, 0x39, 0, 80, 0, 0, 0, 0, 0, 0, 0, 0, 0x50, flags, 0x20, 0, 0, 0, 0, 0]\<rparr>"

definition ex_flow :: flow where
  "ex_flow = \<lparr>saddr = 0x49212121, sport = 0x3930, daddr = 0x0100000a, dport = 0x5000\<rparr>"

definition ex_data :: xdp_md where "ex_data = ex_packet 0x10"
definition ex_fin :: xdp_md where "ex_fin = ex_packet 0x11"

lemma ex_frame [simp]:
  "monitored ex_data" "monitored ex_fin" "\<not> ends_flow ex_data" "ends_flow ex_fin"
  "frame_flow ex_data = ex_flow" "frame_flow ex_fin = ex_flow"
  by code_simp+

lemma ex_tcp4 [simp]: "tcp4_frame ex_data" "tcp4_frame ex_fin"
  by code_simp+

lemma ex_len: "packet_len ex_data = 40" "packet_len ex_fin = 40"
  by code_simp+

text \<open>The kernel after a start of the program, with the shipped network in slot 1.\<close>

definition ex_clock :: "nat \<Rightarrow> u64" where "ex_clock n = of_nat (1000 * n)"

definition ex_kernel :: kernel where
  "ex_kernel = (fresh_kernel ex_clock)\<lparr>
     progs := map Some stages @ replicate 1018 None, nn_idx_map := [1],
     nn_parameters := [zero_net, shipped_net]\<rparr>"

lemma ex_kernel_wf [simp]: "kernel_wf ex_kernel"
  using fresh_kernel_wf [of ex_clock] by (simp add: ex_kernel_def kernel_wf_def fresh_kernel_def)

lemma ex_kernel_simps [simp]:
  "progs_loaded ex_kernel" "Some Xdp_prog \<notin> set (progs ex_kernel)"
  "hash_lookup (flow_map ex_kernel) f = None" "entries (flow_map ex_kernel) = []"
  "array_lookup (nn_idx_map ex_kernel) 0 = Some 1"
  "array_lookup (nn_parameters ex_kernel) 1 = Some shipped_net"
  "max_entries (flow_map ex_kernel) = 8192"
  by (auto simp: ex_kernel_def fresh_kernel_def progs_loaded_def prog_lookup_def nth_append
      array_lookup_def hash_lookup_def MAX_PACKET_REACORD_def) (simp add: stages_def)

lemma ex_base: "base_entry ex_kernel f ob = Some (first_attribute ob)"
  by (simp add: base_entry_def)

section \<open>The shipped network on a concrete feature vector\<close>

text \<open>Layers over integer lists, row by row, which the kernel evaluates quickly.\<close>

fun int_layer :: "nat \<Rightarrow> nat \<Rightarrow> int list \<Rightarrow> int list \<Rightarrow> int list" where
  "int_layer 0 n ws xs = []"
| "int_layer (Suc m) n ws xs =
     sum_list (map (\<lambda>(a, b). a * b) (zip (take n ws) xs)) div 65536 # int_layer m n (drop n ws) xs"

definition s32_range :: "int \<Rightarrow> bool" where
  "s32_range v \<longleftrightarrow> - 2147483648 \<le> v \<and> v < 2147483648"

lemma length_int_layer [simp]: "length (int_layer m n ws xs) = m"
  by (induction m n ws xs rule: int_layer.induct) auto

lemma int_layer_nth:
  "i < m \<Longrightarrow> int_layer m n ws xs ! i =
     sum_list (map (\<lambda>(a, b). a * b) (zip (take n (drop (i * n) ws)) xs)) div 65536"
  by (induction m n ws xs arbitrary: i rule: int_layer.induct)
    (auto simp: nth_Cons less_Suc_eq_0_disj add.commute split: nat.split)

lemma layer_int_layer:
  assumes "list_all s32_range ws" "list_all s32_range xs" "length xs = N" "M * N \<le> length ws"
  shows "layer (map word_of_int ws) M N (map word_of_int xs) = map word_of_int (int_layer M N ws xs)"
proof (intro nth_equalityI)
  fix i assume "i < length (layer (map word_of_int ws) M N (map word_of_int xs))"
  then have i: "i < M" by simp
  have row: "i * N + N \<le> length ws"
    using i assms(4) by (metis Suc_leI add.commute le_trans mult_Suc mult_le_mono1)
  have w: "sint (word_of_int v :: s32) = v" if "s32_range v" for v
    using that by (simp add: s32_range_def sint_of_int_s32)
  have "zip (take N (drop (i * N) ws)) xs = map (\<lambda>j. (ws ! (i * N + j), xs ! j)) [0..<N]"
    using row assms(3) by (intro nth_equalityI) auto
  then have "sum_list (map (\<lambda>(a, b). a * b) (zip (take N (drop (i * N) ws)) xs)) =
      (\<Sum>j<N. ws ! (i * N + j) * xs ! j)"
    by (simp add: comp_def interv_sum_list_conv_sum_set_nat atLeast0LessThan)
  moreover have "dot (map word_of_int ws) (map word_of_int xs) N i = (\<Sum>j<N. ws ! (i * N + j) * xs ! j)"
    unfolding dot_def
  proof (rule sum.cong [OF refl])
    fix j assume "j \<in> {..<N}"
    then have "j < N" by simp
    then have "i * N + j < length ws" "j < length xs" using row assms(3) by simp_all
    with assms(1,2) have "s32_range (ws ! (i * N + j))" "s32_range (xs ! j)"
      by (simp_all add: list_all_length)
    then show "sint (map word_of_int ws ! (i * N + j) :: s32) * sint (map word_of_int xs ! j :: s32) =
        ws ! (i * N + j) * xs ! j"
      using \<open>i * N + j < length ws\<close> \<open>j < length xs\<close> by (simp add: w)
  qed
  ultimately show "layer (map word_of_int ws) M N (map word_of_int xs) ! i =
      map word_of_int (int_layer M N ws xs) ! i"
    using i by (simp add: layer_def int_layer_nth)
qed simp

lemma rectify_int:
  "list_all s32_range xs \<Longrightarrow>
     rectify (map word_of_int xs) = (map word_of_int (map (max 0) xs) :: s32 list)"
  by (induction xs) (auto simp: rectify_def c_max_def s32_range_def sint_of_int_s32 max_def)

definition ex_features :: "s64 list" where "ex_features = [40, 0, 40, 80, 20, 1]"

lemma ex_features_in_range: "in_range shipped_net ex_features"
  by (simp add: in_range_def ex_features_def shipped_net_def params_mean_def params_scale_def upt_rec
      sint_of_int_s64)

definition ex_scaled :: "int list" where
  "ex_scaled = map (\<lambda>(x, m, s). c_div ((x - m) * 65536) s)
     [(40, 572, 451), (0, 11161066668, 24027934608), (40, 36, 54), (80, 496, 1672), (20, 12145, 49932), (1, 379, 1560)]"

lemma ex_scaled: "scaled shipped_net ex_features = map word_of_int ex_scaled"
  by code_simp

definition ex_hidden1 :: "int list" where
  "ex_hidden1 =
     [-1386, 24226, 25686, 35613, -16175, -3934, 9852, 14546, 18231, 2741, 33405, 18316, -4610,
      844, 30260, 2934, -970, -20348, 47736, 17565, -14024, 4375, 46130, 42347, -422, 19865,
      -49222, 6444, -57817, -39189, 1909, 41109]"

definition ex_hidden2 :: "int list" where
  "ex_hidden2 =
     [-27974, -13912, 6630, 40337, -17118, -29635, 44276, -2128, 47091, -31965, 53417, 1113,
      2778, 2399, 9398, 46166, -22292, 2485, -14883, 15884, -5960, -18405, -1421, -31748, 31672,
      -15043, 89, -1479, -2798, -1877, -2203, -1551]"

definition ex_logits :: "int list" where "ex_logits = [59522, -52318]"

lemma int_layer_split:
  "int_layer (m + k) n ws xs = int_layer m n ws xs @ int_layer k n (drop (m * n) ws) xs"
  by (induction m n ws xs rule: int_layer.induct) (simp_all add: add.commute)

lemma ex_layer_1: "int_layer 32 6 params_layer_0_weight ex_scaled = ex_hidden1"
  by code_simp

lemma ex_layer_2a:
  "int_layer 16 32 params_layer_1_weight (map (max 0) ex_hidden1) = take 16 ex_hidden2"
  by code_simp

lemma ex_layer_2b:
  "int_layer 16 32 (drop 512 params_layer_1_weight) (map (max 0) ex_hidden1) = drop 16 ex_hidden2"
  by code_simp

lemma ex_layer_2: "int_layer 32 32 params_layer_1_weight (map (max 0) ex_hidden1) = ex_hidden2"
  using int_layer_split [of 16 16 32 params_layer_1_weight "map (max 0) ex_hidden1"]
  by (simp add: ex_layer_2a ex_layer_2b)

lemma ex_layer_3: "int_layer 2 32 params_layer_2_weight (map (max 0) ex_hidden2) = ex_logits"
  by code_simp

lemmas ex_layers = ex_layer_1 ex_layer_2 ex_layer_3

lemma ex_ranges:
  "list_all s32_range params_layer_0_weight" "list_all s32_range params_layer_1_weight"
  "list_all s32_range params_layer_2_weight" "list_all s32_range ex_scaled"
  "list_all s32_range ex_hidden1" "list_all s32_range (map (max 0) ex_hidden1)"
  "list_all s32_range ex_hidden2" "list_all s32_range (map (max 0) ex_hidden2)"
  "list_all s32_range ex_logits"
  by code_simp+

lemma ex_lengths: "length ex_scaled = 6" "length params_layer_0_weight = 192"
  by code_simp+

lemma ex_logits_eq: "logits shipped_net ex_features = map word_of_int ex_logits"
proof -
  have w: "layer_0_weight shipped_net = map word_of_int params_layer_0_weight"
    "layer_1_weight shipped_net = map word_of_int params_layer_1_weight"
    "layer_2_weight shipped_net = map word_of_int params_layer_2_weight"
    by (simp_all add: shipped_net_def)
  have l: "length ex_hidden1 = 32" "length ex_hidden2 = 32"
    by (simp_all add: ex_layers(1,2) [symmetric])
  have h1: "rectify (layer (layer_0_weight shipped_net) 32 6 (scaled shipped_net ex_features)) =
      map word_of_int (map (max 0) ex_hidden1)"
    unfolding ex_scaled w
    by (subst layer_int_layer [OF ex_ranges(1,4)])
      (simp_all add: ex_lengths ex_layers(1) rectify_int [OF ex_ranges(5)] del: map_map)
  have h2: "rectify (layer (layer_1_weight shipped_net) 32 32 (map word_of_int (map (max 0) ex_hidden1))) =
      map word_of_int (map (max 0) ex_hidden2)"
    unfolding w
    by (subst layer_int_layer [OF ex_ranges(2,6)])
      (simp_all add: l ex_layers(2) rectify_int [OF ex_ranges(7)] del: map_map)
  show ?thesis
    unfolding logits_def h1 h2 unfolding w
    by (subst layer_int_layer [OF ex_ranges(3,8)]) (simp_all add: l ex_layers(3) del: map_map)
qed

lemma ex_margin: "\<bar>ex_logits ! 0 - ex_logits ! 1\<bar> > 608" "length ex_logits = 2"
  by code_simp+

end
