(* ===== verification/Btf_Format.thy ===== *)
theory Btf_Format
  imports Bytes Bpf_Maps
begin

text \<open>
  The BPF Type Format: the structures of \<open>src/libbpf/include/uapi/linux/btf.h\<close> and the inline
  accessors of \<open>src/libbpf/src/btf.h\<close>.

  A \<open>struct btf_type\<close> is followed in memory by data whose layout its kind determines. The record
  \<open>btf_type\<close> holds the three header words and, in \<open>rest\<close>, the words the kind says follow; the
  pointer \<open>t + 1\<close> the accessors cast is the start of \<open>rest\<close>. The union of \<open>size\<close> and \<open>type\<close> is
  the one member \<open>size_type\<close>.
\<close>

section \<open>Header and type header\<close>

definition BTF_MAGIC :: u16 where "BTF_MAGIC = 0xeB9F"
definition BTF_VERSION :: u8 where "BTF_VERSION = 1"

record btf_header =
  magic :: u16
  version :: u8
  flags :: u8
  hdr_len :: u32
  type_off :: u32
  type_len :: u32
  str_off :: u32
  str_len :: u32

definition sizeof_btf_header :: nat where "sizeof_btf_header = 24"

definition BTF_MAX_VLEN :: nat where "BTF_MAX_VLEN = 0xffff"

record btf_type =
  name_off :: u32
  info :: u32
  size_type :: u32
  rest :: "u32 list"

definition sizeof_btf_type :: nat where "sizeof_btf_type = 12"

definition BTF_INFO_KIND :: "u32 \<Rightarrow> u32" where "BTF_INFO_KIND i = drop_bit 24 i AND 0x1f"
definition BTF_INFO_VLEN :: "u32 \<Rightarrow> u32" where "BTF_INFO_VLEN i = i AND 0xffff"
definition BTF_INFO_KFLAG :: "u32 \<Rightarrow> u32" where "BTF_INFO_KFLAG i = drop_bit 31 i"

text \<open>The enumerators; a kind field of 20 or more names none of them.\<close>

datatype btf_kinds =
    BTF_KIND_UNKN | BTF_KIND_INT | BTF_KIND_PTR | BTF_KIND_ARRAY | BTF_KIND_STRUCT | BTF_KIND_UNION
  | BTF_KIND_ENUM | BTF_KIND_FWD | BTF_KIND_TYPEDEF | BTF_KIND_VOLATILE | BTF_KIND_CONST
  | BTF_KIND_RESTRICT | BTF_KIND_FUNC | BTF_KIND_FUNC_PROTO | BTF_KIND_VAR | BTF_KIND_DATASEC
  | BTF_KIND_FLOAT | BTF_KIND_DECL_TAG | BTF_KIND_TYPE_TAG | BTF_KIND_ENUM64
  | BTF_KIND_bad

definition all_kinds :: "btf_kinds list" where
  "all_kinds =
     [BTF_KIND_UNKN, BTF_KIND_INT, BTF_KIND_PTR, BTF_KIND_ARRAY, BTF_KIND_STRUCT, BTF_KIND_UNION,
      BTF_KIND_ENUM, BTF_KIND_FWD, BTF_KIND_TYPEDEF, BTF_KIND_VOLATILE, BTF_KIND_CONST,
      BTF_KIND_RESTRICT, BTF_KIND_FUNC, BTF_KIND_FUNC_PROTO, BTF_KIND_VAR, BTF_KIND_DATASEC,
      BTF_KIND_FLOAT, BTF_KIND_DECL_TAG, BTF_KIND_TYPE_TAG, BTF_KIND_ENUM64]"

definition kind_of :: "u32 \<Rightarrow> btf_kinds" where
  "kind_of k = (if unat k < 20 then all_kinds ! unat k else BTF_KIND_bad)"

fun kind_nr :: "btf_kinds \<Rightarrow> u32" where
  "kind_nr BTF_KIND_UNKN = 0" | "kind_nr BTF_KIND_INT = 1" | "kind_nr BTF_KIND_PTR = 2"
| "kind_nr BTF_KIND_ARRAY = 3" | "kind_nr BTF_KIND_STRUCT = 4" | "kind_nr BTF_KIND_UNION = 5"
| "kind_nr BTF_KIND_ENUM = 6" | "kind_nr BTF_KIND_FWD = 7" | "kind_nr BTF_KIND_TYPEDEF = 8"
| "kind_nr BTF_KIND_VOLATILE = 9" | "kind_nr BTF_KIND_CONST = 10" | "kind_nr BTF_KIND_RESTRICT = 11"
| "kind_nr BTF_KIND_FUNC = 12" | "kind_nr BTF_KIND_FUNC_PROTO = 13" | "kind_nr BTF_KIND_VAR = 14"
| "kind_nr BTF_KIND_DATASEC = 15" | "kind_nr BTF_KIND_FLOAT = 16" | "kind_nr BTF_KIND_DECL_TAG = 17"
| "kind_nr BTF_KIND_TYPE_TAG = 18" | "kind_nr BTF_KIND_ENUM64 = 19" | "kind_nr BTF_KIND_bad = 31"

section \<open>The data that follows a type\<close>

definition BTF_INT_ENCODING :: "u32 \<Rightarrow> u32" where "BTF_INT_ENCODING v = drop_bit 24 (v AND 0x0f000000)"
definition BTF_INT_OFFSET :: "u32 \<Rightarrow> u32" where "BTF_INT_OFFSET v = drop_bit 16 (v AND 0x00ff0000)"
definition BTF_INT_BITS :: "u32 \<Rightarrow> u32" where "BTF_INT_BITS v = v AND 0x000000ff"

definition BTF_INT_SIGNED :: u32 where "BTF_INT_SIGNED = 1"
definition BTF_INT_CHAR :: u32 where "BTF_INT_CHAR = 2"
definition BTF_INT_BOOL :: u32 where "BTF_INT_BOOL = 4"

record struct_btf_enum =
  e_name_off :: u32
  e_val :: s32

record struct_btf_array =
  a_type :: u32
  a_index_type :: u32
  a_nelems :: u32

record btf_member =
  m_name_off :: u32
  m_type :: u32
  m_offset :: u32

definition BTF_MEMBER_BITFIELD_SIZE :: "u32 \<Rightarrow> u32" where
  "BTF_MEMBER_BITFIELD_SIZE v = drop_bit 24 v"
definition BTF_MEMBER_BIT_OFFSET :: "u32 \<Rightarrow> u32" where
  "BTF_MEMBER_BIT_OFFSET v = v AND 0xffffff"

record btf_param =
  p_name_off :: u32
  p_type :: u32

datatype btf_var_linkage = BTF_VAR_STATIC | BTF_VAR_GLOBAL_ALLOCATED | BTF_VAR_GLOBAL_EXTERN
datatype btf_func_linkage = BTF_FUNC_STATIC | BTF_FUNC_GLOBAL | BTF_FUNC_EXTERN

record struct_btf_var =
  linkage :: u32

record btf_var_secinfo =
  v_type :: u32
  v_offset :: u32
  v_size :: u32

record struct_btf_decl_tag =
  component_idx :: s32

record struct_btf_enum64 =
  e64_name_off :: u32
  e64_val_lo32 :: u32
  e64_val_hi32 :: u32

section \<open>Accessors\<close>

definition btf_kind :: "btf_type \<Rightarrow> btf_kinds" where
  "btf_kind t = kind_of (BTF_INFO_KIND (info t))"

definition btf_vlen :: "btf_type \<Rightarrow> nat" where
  "btf_vlen t = unat (BTF_INFO_VLEN (info t))"

definition btf_kflag :: "btf_type \<Rightarrow> bool" where
  "btf_kflag t \<longleftrightarrow> BTF_INFO_KFLAG (info t) \<noteq> 0"

definition btf_is_void :: "btf_type \<Rightarrow> bool" where "btf_is_void t \<longleftrightarrow> btf_kind t = BTF_KIND_UNKN"
definition btf_is_int :: "btf_type \<Rightarrow> bool" where "btf_is_int t \<longleftrightarrow> btf_kind t = BTF_KIND_INT"
definition btf_is_ptr :: "btf_type \<Rightarrow> bool" where "btf_is_ptr t \<longleftrightarrow> btf_kind t = BTF_KIND_PTR"
definition btf_is_array :: "btf_type \<Rightarrow> bool" where "btf_is_array t \<longleftrightarrow> btf_kind t = BTF_KIND_ARRAY"
definition btf_is_struct :: "btf_type \<Rightarrow> bool" where "btf_is_struct t \<longleftrightarrow> btf_kind t = BTF_KIND_STRUCT"
definition btf_is_union :: "btf_type \<Rightarrow> bool" where "btf_is_union t \<longleftrightarrow> btf_kind t = BTF_KIND_UNION"

definition btf_is_composite :: "btf_type \<Rightarrow> bool" where
  "btf_is_composite t \<longleftrightarrow> (let kind = btf_kind t in kind = BTF_KIND_STRUCT \<or> kind = BTF_KIND_UNION)"

definition btf_is_enum :: "btf_type \<Rightarrow> bool" where "btf_is_enum t \<longleftrightarrow> btf_kind t = BTF_KIND_ENUM"
definition btf_is_enum64 :: "btf_type \<Rightarrow> bool" where "btf_is_enum64 t \<longleftrightarrow> btf_kind t = BTF_KIND_ENUM64"
definition btf_is_fwd :: "btf_type \<Rightarrow> bool" where "btf_is_fwd t \<longleftrightarrow> btf_kind t = BTF_KIND_FWD"
definition btf_is_typedef :: "btf_type \<Rightarrow> bool" where "btf_is_typedef t \<longleftrightarrow> btf_kind t = BTF_KIND_TYPEDEF"
definition btf_is_volatile :: "btf_type \<Rightarrow> bool" where "btf_is_volatile t \<longleftrightarrow> btf_kind t = BTF_KIND_VOLATILE"
definition btf_is_const :: "btf_type \<Rightarrow> bool" where "btf_is_const t \<longleftrightarrow> btf_kind t = BTF_KIND_CONST"
definition btf_is_restrict :: "btf_type \<Rightarrow> bool" where "btf_is_restrict t \<longleftrightarrow> btf_kind t = BTF_KIND_RESTRICT"

definition btf_is_mod :: "btf_type \<Rightarrow> bool" where
  "btf_is_mod t \<longleftrightarrow>
     (let kind = btf_kind t in
      kind = BTF_KIND_VOLATILE \<or> kind = BTF_KIND_CONST \<or> kind = BTF_KIND_RESTRICT \<or>
      kind = BTF_KIND_TYPE_TAG)"

definition btf_is_func :: "btf_type \<Rightarrow> bool" where "btf_is_func t \<longleftrightarrow> btf_kind t = BTF_KIND_FUNC"
definition btf_is_func_proto :: "btf_type \<Rightarrow> bool" where
  "btf_is_func_proto t \<longleftrightarrow> btf_kind t = BTF_KIND_FUNC_PROTO"
definition btf_is_var :: "btf_type \<Rightarrow> bool" where "btf_is_var t \<longleftrightarrow> btf_kind t = BTF_KIND_VAR"
definition btf_is_datasec :: "btf_type \<Rightarrow> bool" where "btf_is_datasec t \<longleftrightarrow> btf_kind t = BTF_KIND_DATASEC"
definition btf_is_float :: "btf_type \<Rightarrow> bool" where "btf_is_float t \<longleftrightarrow> btf_kind t = BTF_KIND_FLOAT"
definition btf_is_decl_tag :: "btf_type \<Rightarrow> bool" where "btf_is_decl_tag t \<longleftrightarrow> btf_kind t = BTF_KIND_DECL_TAG"
definition btf_is_type_tag :: "btf_type \<Rightarrow> bool" where "btf_is_type_tag t \<longleftrightarrow> btf_kind t = BTF_KIND_TYPE_TAG"

definition btf_is_any_enum :: "btf_type \<Rightarrow> bool" where
  "btf_is_any_enum t \<longleftrightarrow> btf_is_enum t \<or> btf_is_enum64 t"

text \<open>\<open>btf_kind\<close> compares the kind fields as numbers, and two fields without an enumerator may differ.\<close>

definition btf_kind_core_compat :: "btf_type \<Rightarrow> btf_type \<Rightarrow> bool" where
  "btf_kind_core_compat t1 t2 \<longleftrightarrow>
     BTF_INFO_KIND (info t1) = BTF_INFO_KIND (info t2) \<or> btf_is_any_enum t1 \<and> btf_is_any_enum t2"

definition btf_int_encoding :: "btf_type \<Rightarrow> u8" where
  "btf_int_encoding t = ucast (BTF_INT_ENCODING (rest t ! 0))"
definition btf_int_offset :: "btf_type \<Rightarrow> u8" where
  "btf_int_offset t = ucast (BTF_INT_OFFSET (rest t ! 0))"
definition btf_int_bits :: "btf_type \<Rightarrow> u8" where
  "btf_int_bits t = ucast (BTF_INT_BITS (rest t ! 0))"

definition btf_array :: "btf_type \<Rightarrow> struct_btf_array" where
  "btf_array t = \<lparr>a_type = rest t ! 0, a_index_type = rest t ! 1, a_nelems = rest t ! 2\<rparr>"

definition btf_enum :: "btf_type \<Rightarrow> nat \<Rightarrow> struct_btf_enum" where
  "btf_enum t i = \<lparr>e_name_off = rest t ! (2 * i), e_val = rest t ! (2 * i + 1)\<rparr>"

definition btf_enum64 :: "btf_type \<Rightarrow> nat \<Rightarrow> struct_btf_enum64" where
  "btf_enum64 t i =
     \<lparr>e64_name_off = rest t ! (3 * i), e64_val_lo32 = rest t ! (3 * i + 1),
      e64_val_hi32 = rest t ! (3 * i + 2)\<rparr>"

definition btf_enum64_value :: "struct_btf_enum64 \<Rightarrow> u64" where
  "btf_enum64_value e = push_bit 32 (ucast (e64_val_hi32 e)) OR ucast (e64_val_lo32 e)"

definition btf_members :: "btf_type \<Rightarrow> nat \<Rightarrow> btf_member" where
  "btf_members t i =
     \<lparr>m_name_off = rest t ! (3 * i), m_type = rest t ! (3 * i + 1), m_offset = rest t ! (3 * i + 2)\<rparr>"

definition btf_member_bit_offset :: "btf_type \<Rightarrow> nat \<Rightarrow> u32" where
  "btf_member_bit_offset t member_idx =
     (let m = btf_members t member_idx; kflag = btf_kflag t in
      if kflag then BTF_MEMBER_BIT_OFFSET (m_offset m) else m_offset m)"

definition btf_member_bitfield_size :: "btf_type \<Rightarrow> nat \<Rightarrow> u32" where
  "btf_member_bitfield_size t member_idx =
     (let m = btf_members t member_idx; kflag = btf_kflag t in
      if kflag then BTF_MEMBER_BITFIELD_SIZE (m_offset m) else 0)"

definition btf_params :: "btf_type \<Rightarrow> nat \<Rightarrow> btf_param" where
  "btf_params t i = \<lparr>p_name_off = rest t ! (2 * i), p_type = rest t ! (2 * i + 1)\<rparr>"

definition btf_var :: "btf_type \<Rightarrow> struct_btf_var" where
  "btf_var t = \<lparr>linkage = rest t ! 0\<rparr>"

definition btf_var_secinfos :: "btf_type \<Rightarrow> nat \<Rightarrow> btf_var_secinfo" where
  "btf_var_secinfos t i =
     \<lparr>v_type = rest t ! (3 * i), v_offset = rest t ! (3 * i + 1), v_size = rest t ! (3 * i + 2)\<rparr>"

definition btf_decl_tag :: "btf_type \<Rightarrow> struct_btf_decl_tag" where
  "btf_decl_tag t = \<lparr>component_idx = rest t ! 0\<rparr>"

text \<open>\<open>btf_type_info\<close> of \<open>src/libbpf/src/libbpf_internal.h\<close> packs the info word without masking \<open>vlen\<close>.\<close>

definition btf_type_info :: "btf_kinds \<Rightarrow> nat \<Rightarrow> bool \<Rightarrow> u32" where
  "btf_type_info kind vlen kflag =
     push_bit 31 (of_bool kflag) OR push_bit 24 (kind_nr kind) OR of_nat vlen"

section \<open>Packing and unpacking\<close>

lemmas btf_is_defs = btf_is_void_def btf_is_int_def btf_is_ptr_def btf_is_array_def btf_is_struct_def
  btf_is_union_def btf_is_composite_def btf_is_enum_def btf_is_enum64_def btf_is_fwd_def
  btf_is_typedef_def btf_is_volatile_def btf_is_const_def btf_is_restrict_def btf_is_mod_def
  btf_is_func_def btf_is_func_proto_def btf_is_var_def btf_is_datasec_def btf_is_float_def
  btf_is_decl_tag_def btf_is_type_tag_def btf_is_any_enum_def

lemma kind_of_nr [simp]: "kind_of (kind_nr k) = k"
  by (cases k) (simp_all add: kind_of_def all_kinds_def)

lemma kind_nr_less: "unat (kind_nr k) < 32"
  by (cases k) simp_all

lemma and_masks:
  "(w :: u32) AND 0xffff = take_bit 16 w" "(w :: u32) AND 0x1f = take_bit 5 w"
  by (simp_all add: take_bit_eq_mask mask_eq_exp_minus_1)

lemma btf_vlen_less: "btf_vlen t < 65536"
proof -
  have "btf_vlen t = take_bit 16 (unat (info t))"
    by (simp only: btf_vlen_def BTF_INFO_VLEN_def and_masks unsigned_take_bit_eq)
  then show ?thesis by (simp add: take_bit_eq_mod)
qed

lemma bit_of_nat_u16: "n < 65536 \<Longrightarrow> 16 \<le> i \<Longrightarrow> \<not> bit (of_nat n :: u32) i"
proof
  assume n: "n < 65536" "16 \<le> i" and "bit (of_nat n :: u32) i"
  then have "bit n i" by (simp add: bit_simps)
  moreover have "n = take_bit 16 n" using n(1) by (simp add: take_bit_eq_mod)
  ultimately show False using n(2) by (metis bit_take_bit_iff not_le)
qed

lemma bit_kind_nr: "5 \<le> i \<Longrightarrow> \<not> bit (kind_nr k) i"
proof
  assume i: "5 \<le> i" and b: "bit (kind_nr k) i"
  have "take_bit 5 (kind_nr k) = kind_nr k" by (cases k) (simp_all add: take_bit_eq_mask mask_eq_exp_minus_1)
  with b i show False by (metis bit_take_bit_iff not_le)
qed

lemma info_kind [simp]:
  assumes "vlen < 65536" shows "BTF_INFO_KIND (btf_type_info kind vlen kflag) = kind_nr kind"
  unfolding BTF_INFO_KIND_def and_masks btf_type_info_def
proof (rule bit_word_eqI)
  fix i assume "i < LENGTH(32)"
  then have i: "i < 32" by simp
  show "bit (take_bit 5 (drop_bit 24 (push_bit 31 (of_bool kflag) OR push_bit 24 (kind_nr kind) OR of_nat vlen))) i =
      bit (kind_nr kind) i"
    using i bit_kind_nr [of i kind] bit_of_nat_u16 [OF assms, of "24 + i"]
    by (cases "i < 5") (auto simp: bit_simps)
qed

lemma info_kflag [simp]:
  assumes "vlen < 65536" shows "BTF_INFO_KFLAG (btf_type_info kind vlen kflag) = of_bool kflag"
  unfolding BTF_INFO_KFLAG_def btf_type_info_def
proof (rule bit_word_eqI)
  fix i assume "i < LENGTH(32)"
  then have i: "i < 32" by simp
  show "bit (drop_bit 31 (push_bit 31 (of_bool kflag) OR push_bit 24 (kind_nr kind) OR of_nat vlen)) i =
      bit (of_bool kflag :: u32) i"
    using i bit_kind_nr [of 7 kind] bit_of_nat_u16 [OF assms, of "31 + i"]
    by (cases "i = 0") (auto simp: bit_simps)
qed

text \<open>The count of the packed word is taken modulo 2^16: the 65536th entry makes it 0.\<close>

lemma info_vlen [simp]: "unat (BTF_INFO_VLEN (btf_type_info kind vlen kflag)) = vlen mod 65536"
proof -
  have "BTF_INFO_VLEN (btf_type_info kind vlen kflag) = take_bit 16 (of_nat vlen)"
    unfolding BTF_INFO_VLEN_def and_masks btf_type_info_def
    by (rule bit_word_eqI) (auto simp: bit_simps)
  then have "unat (BTF_INFO_VLEN (btf_type_info kind vlen kflag)) = take_bit 16 (take_bit 32 vlen)"
    by (simp only: unsigned_take_bit_eq unsigned_of_nat) simp
  then show ?thesis by (simp only: take_bit_take_bit) (simp add: take_bit_eq_mod)
qed

lemma info_kind_wrap: "BTF_INFO_KIND (btf_type_info kind 65536 kflag) = kind_nr kind"
  unfolding BTF_INFO_KIND_def and_masks btf_type_info_def
proof (rule bit_word_eqI)
  fix i assume "i < LENGTH(32)"
  then have i: "i < 32" by simp
  have w: "(of_nat 65536 :: u32) = push_bit 16 1" by simp
  show "bit (take_bit 5 (drop_bit 24 (push_bit 31 (of_bool kflag) OR push_bit 24 (kind_nr kind) OR of_nat 65536))) i =
      bit (kind_nr kind) i"
    unfolding w using i bit_kind_nr [of i kind]
    by (cases "i < 5") (auto simp: bit_simps)
qed

end
