(* ===== verification/Hashmap.thy ===== *)
theory Hashmap
  imports Bpf_Maps "HOL-Library.Multiset"
begin

text \<open>
  The chained hash map of libbpf, \<open>src/libbpf/src/hashmap.c\<close> and \<open>hashmap.h\<close>: buckets of singly linked
  entries, doubled when they are more than three quarters full. Keys and values are abstract; the
  hash and equality callbacks are members of the map, as in the code. A linked chain is a list of its
  entries, a null \<open>buckets\<close> pointer the empty list. Allocation may fail at every call that allocates.
\<close>

section \<open>Hashing\<close>

definition hash_bits :: "u64 \<Rightarrow> nat \<Rightarrow> nat" where
  "hash_bits h bits =
     (if bits = 0 then 0 else unat (drop_bit (8 * 8 - bits) (h * 11400714819323198485)))"

text \<open>\<open>char\<close> is signed on the targets libbpf runs on here, so the addition sign-extends.\<close>

fun str_hash_from :: "u64 \<Rightarrow> u8 list \<Rightarrow> u64" where
  "str_hash_from h [] = h"
| "str_hash_from h (c # s) = str_hash_from (h * 31 + scast c) s"

definition str_hash :: "u8 list \<Rightarrow> u64" where
  "str_hash s = str_hash_from 0 s"

lemma hash_bits_less:
  assumes "bits \<le> 64" shows "hash_bits h bits < 2 ^ bits"
proof (cases "bits = 0")
  case False
  let ?w = "h * 11400714819323198485"
  have "unat (drop_bit (64 - bits) ?w) = unat ?w div 2 ^ (64 - bits)"
    by (simp only: unat_drop_bit_eq) (simp only: drop_bit_eq_div)
  moreover have "unat ?w < 2 ^ bits * 2 ^ (64 - bits)"
    using unsigned_less [of ?w, where ?'a = nat] assms by (simp flip: power_add)
  ultimately have "unat (drop_bit (64 - bits) ?w) < 2 ^ bits"
    by (simp add: less_mult_imp_div_less)
  with False show ?thesis by (simp add: hash_bits_def)
qed (simp add: hash_bits_def)

section \<open>The map\<close>

record ('k, 'v) hashmap =
  hash_fn :: "'k \<Rightarrow> u64"
  equal_fn :: "'k \<Rightarrow> 'k \<Rightarrow> bool"
  buckets :: "('k \<times> 'v) list list"
  cap :: nat
  cap_bits :: nat
  sz :: nat

datatype hashmap_insert_strategy = HASHMAP_ADD | HASHMAP_SET | HASHMAP_UPDATE | HASHMAP_APPEND

text \<open>
  Whether \<open>calloc\<close> of the buckets and \<open>malloc\<close> of an entry succeed. A \<open>calloc\<close> of more bytes than
  \<open>size_t\<close> can count always fails.
\<close>

record alloc =
  calloc_ok :: bool
  malloc_ok :: bool

definition calloc :: "bool \<Rightarrow> nat \<Rightarrow> nat \<Rightarrow> bool" where
  "calloc ok n size' \<longleftrightarrow> ok \<and> n * size' < 2 ^ 64"

definition HASHMAP_MIN_CAP_BITS :: nat where "HASHMAP_MIN_CAP_BITS = 2"

definition hashmap_init :: "('k \<Rightarrow> u64) \<Rightarrow> ('k \<Rightarrow> 'k \<Rightarrow> bool) \<Rightarrow> ('k, 'v) hashmap" where
  "hashmap_init hash eq =
     \<lparr>hash_fn = hash, equal_fn = eq, buckets = [], cap = 0, cap_bits = 0, sz = 0\<rparr>"

definition hashmap_clear :: "('k, 'v) hashmap \<Rightarrow> ('k, 'v) hashmap" where
  "hashmap_clear m = m\<lparr>buckets := [], cap := 0, cap_bits := 0, sz := 0\<rparr>"

definition hashmap_needs_to_grow :: "('k, 'v) hashmap \<Rightarrow> bool" where
  "hashmap_needs_to_grow m \<longleftrightarrow> cap m = 0 \<or> (sz m + 1) * 4 div 3 > cap m"

text \<open>\<open>hashmap_add_entry(&buckets[h], entry)\<close> pushes at the head of the chain.\<close>

definition hashmap_add_entry :: "('k \<times> 'v) list list \<Rightarrow> nat \<Rightarrow> 'k \<times> 'v \<Rightarrow> ('k \<times> 'v) list list" where
  "hashmap_add_entry bs h e = bs[h := e # bs ! h]"

text \<open>\<open>hashmap__for_each_entry\<close> visits the buckets in order, each from its head.\<close>

definition hashmap_entries :: "('k, 'v) hashmap \<Rightarrow> ('k \<times> 'v) list" where
  "hashmap_entries m = concat (buckets m)"

definition hashmap_grow :: "bool \<Rightarrow> ('k, 'v) hashmap \<Rightarrow> ('k, 'v) hashmap \<times> int" where
  "hashmap_grow ok m =
     (let new_cap_bits = cap_bits m + 1;
          new_cap_bits = (if new_cap_bits < HASHMAP_MIN_CAP_BITS then HASHMAP_MIN_CAP_BITS else new_cap_bits);
          new_cap = 2 ^ new_cap_bits in
      if \<not> calloc ok new_cap 8 then (m, - ENOMEM)
      else
        let new_buckets = fold (\<lambda>(k, v) bs. hashmap_add_entry bs (hash_bits (hash_fn m k) new_cap_bits) (k, v))
              (hashmap_entries m) (replicate new_cap [])
        in (m\<lparr>cap := new_cap, cap_bits := new_cap_bits, buckets := new_buckets\<rparr>, 0))"

fun chain_find :: "('k \<Rightarrow> bool) \<Rightarrow> ('k \<times> 'v) list \<Rightarrow> nat option" where
  "chain_find P [] = None"
| "chain_find P (e # es) = (if P (fst e) then Some 0 else map_option Suc (chain_find P es))"

definition hashmap_find_entry :: "('k, 'v) hashmap \<Rightarrow> 'k \<Rightarrow> nat \<Rightarrow> nat option" where
  "hashmap_find_entry m key h =
     (if buckets m = [] then None else chain_find (\<lambda>k. equal_fn m k key) (buckets m ! h))"

definition hashmap_insert ::
  "alloc \<Rightarrow> ('k, 'v) hashmap \<Rightarrow> 'k \<Rightarrow> 'v \<Rightarrow> hashmap_insert_strategy \<Rightarrow>
     ('k, 'v) hashmap \<times> int \<times> ('k \<times> 'v) option" where
  "hashmap_insert al m key val strategy =
     (let h = hash_bits (hash_fn m key) (cap_bits m);
          found = (if strategy \<noteq> HASHMAP_APPEND then hashmap_find_entry m key h else None);
          old = map_option (\<lambda>i. buckets m ! h ! i) found;
          add_new =
            (let (m, err) = (if hashmap_needs_to_grow m then hashmap_grow (calloc_ok al) m else (m, 0)) in
             if err \<noteq> 0 then (m, err, old)
             else
               let h = hash_bits (hash_fn m key) (cap_bits m) in
               if \<not> malloc_ok al then (m, - ENOMEM, old)
               else (m\<lparr>buckets := hashmap_add_entry (buckets m) h (key, val), sz := sz m + 1\<rparr>, 0, old))
      in case found of
           Some i \<Rightarrow>
             if strategy = HASHMAP_SET \<or> strategy = HASHMAP_UPDATE
             then (m\<lparr>buckets := (buckets m)[h := (buckets m ! h)[i := (key, val)]]\<rparr>, 0, old)
             else if strategy = HASHMAP_ADD then (m, - EEXIST, old)
             else add_new
         | None \<Rightarrow> if strategy = HASHMAP_UPDATE then (m, - ENOENT, old) else add_new)"

definition hashmap_find :: "('k, 'v) hashmap \<Rightarrow> 'k \<Rightarrow> 'v option" where
  "hashmap_find m key =
     (let h = hash_bits (hash_fn m key) (cap_bits m) in
      map_option (\<lambda>i. snd (buckets m ! h ! i)) (hashmap_find_entry m key h))"

text \<open>\<open>hashmap_del_entry\<close> unlinks the entry from its chain.\<close>

definition hashmap_del_entry :: "'e list \<Rightarrow> nat \<Rightarrow> 'e list" where
  "hashmap_del_entry c i = take i c @ drop (Suc i) c"

definition hashmap_delete ::
  "('k, 'v) hashmap \<Rightarrow> 'k \<Rightarrow> ('k, 'v) hashmap \<times> bool \<times> ('k \<times> 'v) option" where
  "hashmap_delete m key =
     (let h = hash_bits (hash_fn m key) (cap_bits m) in
      case hashmap_find_entry m key h of
        None \<Rightarrow> (m, False, None)
      | Some i \<Rightarrow>
          (m\<lparr>buckets := (buckets m)[h := hashmap_del_entry (buckets m ! h) i], sz := sz m - 1\<rparr>,
           True, Some (buckets m ! h ! i)))"

text \<open>\<open>hashmap__for_each_key_entry\<close>: the entries of one key, in chain order.\<close>

definition hashmap_key_entries :: "('k, 'v) hashmap \<Rightarrow> 'k \<Rightarrow> ('k \<times> 'v) list" where
  "hashmap_key_entries m key =
     (if buckets m = [] then []
      else filter (\<lambda>e. equal_fn m (fst e) key) (buckets m ! hash_bits (hash_fn m key) (cap_bits m)))"

section \<open>Chains\<close>

lemma chain_find_Some:
  "chain_find P es = Some i \<longleftrightarrow> i < length es \<and> P (fst (es ! i)) \<and> (\<forall>j<i. \<not> P (fst (es ! j)))"
proof (induction es arbitrary: i)
  case (Cons e es)
  show ?case
  proof (cases i)
    case 0
    then show ?thesis by auto
  next
    case (Suc j)
    with Cons.IH [of j] show ?thesis by (auto simp: less_Suc_eq_0_disj)
  qed
qed simp

lemma chain_find_None: "chain_find P es = None \<longleftrightarrow> (\<forall>e\<in>set es. \<not> P (fst e))"
  by (induction es) auto

text \<open>No two entries of a chain have equal keys.\<close>

definition unique_keys :: "('k \<Rightarrow> 'k \<Rightarrow> bool) \<Rightarrow> ('k \<times> 'v) list \<Rightarrow> bool" where
  "unique_keys eq es \<longleftrightarrow> sorted_wrt (\<lambda>a b. \<not> eq (fst a) (fst b)) es"

lemma unique_keys_simps [simp]:
  "unique_keys eq []"
  "unique_keys eq (e # es) \<longleftrightarrow> (\<forall>x\<in>set es. \<not> eq (fst e) (fst x)) \<and> unique_keys eq es"
  by (simp_all add: unique_keys_def)

lemma unique_keys_filter: "unique_keys eq es \<Longrightarrow> unique_keys eq (filter P es)"
  by (simp add: unique_keys_def sorted_wrt_filter)

lemma unique_keys_append:
  "unique_keys eq (xs @ ys) \<longleftrightarrow>
     unique_keys eq xs \<and> unique_keys eq ys \<and> (\<forall>x\<in>set xs. \<forall>y\<in>set ys. \<not> eq (fst x) (fst y))"
  by (simp add: unique_keys_def sorted_wrt_append)

section \<open>Growing\<close>

lemma length_add_entry [simp]: "length (hashmap_add_entry bs h e) = length bs"
  by (simp add: hashmap_add_entry_def)

lemma length_fold_add [simp]:
  "length (fold (\<lambda>(k, v) bs. hashmap_add_entry bs (f k) (k, v)) es bs) = length bs"
  by (induction es arbitrary: bs) auto

lemma fold_add_nth:
  assumes "\<And>k. f k < length bs" "h < length bs"
  shows "fold (\<lambda>(k, v) bs. hashmap_add_entry bs (f k) (k, v)) es bs ! h =
     rev (filter (\<lambda>e. f (fst e) = h) es) @ bs ! h"
  using assms
proof (induction es arbitrary: bs)
  case (Cons e es)
  obtain k v where e: "e = (k, v)" by (cases e)
  have "fold (\<lambda>(k, v) bs. hashmap_add_entry bs (f k) (k, v)) es (hashmap_add_entry bs (f k) (k, v)) ! h =
      rev (filter (\<lambda>e. f (fst e) = h) es) @ hashmap_add_entry bs (f k) (k, v) ! h"
    by (rule Cons.IH) (use Cons.prems in simp_all)
  with Cons.prems show ?case by (simp add: e hashmap_add_entry_def nth_list_update)
qed simp

lemma mset_concat_update:
  "i < length xss \<Longrightarrow> mset (concat (xss[i := ys])) + mset (xss ! i) = mset (concat xss) + mset ys"
proof (induction xss arbitrary: i)
  case (Cons xs xss)
  then show ?case
    by (cases i) (simp_all add: ac_simps)
qed simp

lemma mset_add_entry:
  "h < length bs \<Longrightarrow> mset (concat (hashmap_add_entry bs h e)) = add_mset e (mset (concat bs))"
  using mset_concat_update [of h bs "e # bs ! h"] by (simp add: hashmap_add_entry_def)

lemma mset_fold_add:
  "(\<And>k. f k < length bs) \<Longrightarrow>
     mset (concat (fold (\<lambda>(k, v) bs. hashmap_add_entry bs (f k) (k, v)) es bs)) = mset es + mset (concat bs)"
  by (induction es arbitrary: bs) (auto simp: mset_add_entry)

lemma set_concat_nth: "e \<in> set (concat xss) \<longleftrightarrow> (\<exists>i<length xss. e \<in> set (xss ! i))"
  by (simp add: set_concat) (metis in_set_conv_nth)

lemma concat_replicate_Nil [simp]: "concat (replicate n []) = []"
  by (induction n) auto

section \<open>The representation invariant\<close>

definition entries_placed :: "('k, 'v) hashmap \<Rightarrow> bool" where
  "entries_placed m \<longleftrightarrow>
     (\<forall>i<length (buckets m). \<forall>e\<in>set (buckets m ! i). hash_bits (hash_fn m (fst e)) (cap_bits m) = i)"

definition hashmap_ok :: "('k, 'v) hashmap \<Rightarrow> bool" where
  "hashmap_ok m \<longleftrightarrow>
     (if buckets m = [] then cap m = 0 \<and> cap_bits m = 0
      else 2 \<le> cap_bits m \<and> cap_bits m < 61 \<and> cap m = 2 ^ cap_bits m \<and> length (buckets m) = cap m) \<and>
     sz m = length (hashmap_entries m) \<and> entries_placed m \<and> sz m * 4 div 3 \<le> cap m"

definition keyed :: "('k \<Rightarrow> u64) \<Rightarrow> ('k \<Rightarrow> 'k \<Rightarrow> bool) \<Rightarrow> ('k, 'v) hashmap \<Rightarrow> bool" where
  "keyed hash eq m \<longleftrightarrow>
     hash_fn m = hash \<and> equal_fn m = eq \<and> hashmap_ok m \<and> (\<forall>b\<in>set (buckets m). unique_keys eq b)"

lemma hashmap_ok_bucket:
  assumes "hashmap_ok m" "buckets m \<noteq> []"
  shows "hash_bits h (cap_bits m) < length (buckets m)"
  using assms hash_bits_less [of "cap_bits m" h] by (simp add: hashmap_ok_def)

lemma hashmap_init_ok: "hashmap_ok (hashmap_init hash eq)"
  by (simp add: hashmap_ok_def hashmap_init_def hashmap_entries_def entries_placed_def)

lemma hashmap_init_keyed: "keyed hash eq (hashmap_init hash eq)"
  using hashmap_init_ok by (simp add: keyed_def) (simp add: hashmap_init_def)

lemma hashmap_clear_keyed: "keyed hash eq m \<Longrightarrow> keyed hash eq (hashmap_clear m)"
  by (simp add: keyed_def hashmap_ok_def hashmap_clear_def hashmap_entries_def entries_placed_def)

text \<open>Growing keeps the entries, as a multiset, and makes room for one more.\<close>

lemma hashmap_grow_fail: "hashmap_grow ok m = (m', e) \<Longrightarrow> e \<noteq> 0 \<Longrightarrow> m' = m \<and> e = - ENOMEM"
  by (auto simp: hashmap_grow_def Let_def split: if_splits)

lemma hashmap_grow_ok:
  assumes ok: "hashmap_ok m" and g: "hashmap_grow alloc_ok m = (m', 0)"
  shows "hashmap_ok m'" "mset (hashmap_entries m') = mset (hashmap_entries m)"
    "hash_fn m' = hash_fn m" "equal_fn m' = equal_fn m" "sz m' = sz m" "buckets m' \<noteq> []"
    "cap m < cap m'" "(sz m' + 1) * 4 div 3 \<le> cap m'"
    "\<And>h. h < cap m' \<Longrightarrow> buckets m' ! h = rev (filter (\<lambda>e. hash_bits (hash_fn m (fst e)) (cap_bits m') = h)
       (hashmap_entries m))"
proof -
  define b where "b = (if cap_bits m + 1 < HASHMAP_MIN_CAP_BITS then HASHMAP_MIN_CAP_BITS else cap_bits m + 1)"
  define f where "f k = hash_bits (hash_fn m k) b" for k
  let ?bs = "fold (\<lambda>(k, v) bs. hashmap_add_entry bs (f k) (k, v)) (hashmap_entries m) (replicate (2 ^ b) [])"
  have m': "m' = m\<lparr>cap := 2 ^ b, cap_bits := b, buckets := ?bs\<rparr>" and c: "calloc alloc_ok (2 ^ b) 8"
    using g unfolding hashmap_grow_def Let_def b_def [symmetric] f_def
    by (auto simp: errno_defs split: if_splits)
  have b2: "2 \<le> b" by (simp add: b_def HASHMAP_MIN_CAP_BITS_def)
  have "(2 :: nat) ^ (b + 3) < 2 ^ 64" using c by (simp add: calloc_def power_add)
  then have b61: "b < 61" using power_strict_increasing_iff [of "2 :: nat" "b + 3" 64] by linarith
  have f: "f k < length (replicate (2 ^ b) ([] :: ('a \<times> 'b) list))" for k
    using hash_bits_less [of b "hash_fn m k"] b61 by (simp add: f_def)
  show mset: "mset (hashmap_entries m') = mset (hashmap_entries m)"
    by (simp add: m' hashmap_entries_def mset_fold_add [OF f])
  show nth: "buckets m' ! h = rev (filter (\<lambda>e. hash_bits (hash_fn m (fst e)) (cap_bits m') = h)
      (hashmap_entries m))" if "h < cap m'" for h
    using fold_add_nth [OF f, where h = h and es = "hashmap_entries m"] that by (simp add: m' f_def)
  have len: "length (hashmap_entries m') = length (hashmap_entries m)"
    using mset by (metis size_mset)
  have bk: "cap_bits m \<noteq> 0 \<Longrightarrow> 2 ^ b = 2 * cap m"
    using ok by (auto simp: hashmap_ok_def b_def HASHMAP_MIN_CAP_BITS_def split: if_splits)
  have four: "4 \<le> (2 :: nat) ^ b" using power_increasing [OF b2, of "2 :: nat"] by simp
  have load: "sz m * 4 div 3 \<le> cap m" and capz: "cap_bits m = 0 \<Longrightarrow> cap m = 0"
    using ok by (auto simp: hashmap_ok_def split: if_splits)
  show lt: "cap m < cap m'"
  proof (cases "cap_bits m = 0")
    case False
    with ok bk four show ?thesis by (auto simp: m')
  qed (simp add: m' capz)
  show room: "(sz m' + 1) * 4 div 3 \<le> cap m'"
  proof (cases "cap_bits m = 0")
    case True
    with load capz four show ?thesis by (simp add: m')
  next
    case False
    with bk four load show ?thesis by (simp add: m')
  qed
  have "sz m' * 4 div 3 \<le> (sz m' + 1) * 4 div 3" by (rule div_le_mono) simp
  then have "sz m' * 4 div 3 \<le> cap m'" using room by (rule order_trans)
  moreover have "entries_placed m'"
    unfolding entries_placed_def
  proof (intro allI impI ballI)
    fix i e assume i: "i < length (buckets m')" and e: "e \<in> set (buckets m' ! i)"
    from i have "i < cap m'" by (simp add: m')
    with e nth [of i] show "hash_bits (hash_fn m' (fst e)) (cap_bits m') = i" by (simp add: m')
  qed
  moreover have ne: "buckets m' \<noteq> []"
  proof -
    have "length (buckets m') = 2 ^ b" by (simp add: m')
    then show ?thesis by auto
  qed
  moreover have "cap m' = 2 ^ cap_bits m'" "length (buckets m') = cap m'" "cap_bits m' = b" "sz m' = sz m"
    by (simp_all add: m')
  ultimately show "hashmap_ok m'"
    using ok len b2 b61 unfolding hashmap_ok_def by simp
  show "hash_fn m' = hash_fn m" "equal_fn m' = equal_fn m" "sz m' = sz m" by (simp_all add: m')
  show "buckets m' \<noteq> []" by (rule ne)
qed

lemma keyed_cong:
  assumes "keyed hash eq m"
    and "\<And>e. e \<in> set (hashmap_entries m) \<Longrightarrow> hash' (fst e) = hash (fst e)"
    and "\<And>e d. e \<in> set (hashmap_entries m) \<Longrightarrow> d \<in> set (hashmap_entries m) \<Longrightarrow>
      eq' (fst e) (fst d) = eq (fst e) (fst d)"
  shows "keyed hash' eq' (m\<lparr>hash_fn := hash', equal_fn := eq'\<rparr>)"
proof -
  have inb: "e \<in> set (hashmap_entries m)" if "b \<in> set (buckets m)" "e \<in> set b" for b e
    using that by (auto simp: hashmap_entries_def)
  have uniq: "unique_keys eq' b" if b: "b \<in> set (buckets m)" for b
  proof -
    have "unique_keys eq b" using assms(1) b by (simp add: keyed_def)
    moreover have "eq' (fst e) (fst d) = eq (fst e) (fst d)" if "e \<in> set b" "d \<in> set b" for e d
      using assms(3) inb [OF b] that by blast
    ultimately show ?thesis unfolding unique_keys_def sorted_wrt_iff_nth_less by simp
  qed
  have "entries_placed (m\<lparr>hash_fn := hash', equal_fn := eq'\<rparr>)"
    unfolding entries_placed_def
  proof (intro allI impI ballI)
    fix i e
    assume "i < length (buckets (m\<lparr>hash_fn := hash', equal_fn := eq'\<rparr>))"
      "e \<in> set (buckets (m\<lparr>hash_fn := hash', equal_fn := eq'\<rparr>) ! i)"
    then have ie: "i < length (buckets m)" "e \<in> set (buckets m ! i)" by simp_all
    then have "hash_bits (hash (fst e)) (cap_bits m) = i"
      using assms(1) by (auto simp: keyed_def hashmap_ok_def entries_placed_def)
    moreover have "hash' (fst e) = hash (fst e)"
      by (rule assms(2)) (rule inb [OF nth_mem [OF ie(1)] ie(2)])
    ultimately show "hash_bits (hash_fn (m\<lparr>hash_fn := hash', equal_fn := eq'\<rparr>) (fst e))
        (cap_bits (m\<lparr>hash_fn := hash', equal_fn := eq'\<rparr>)) = i" by simp
  qed
  moreover have "hashmap_ok m" using assms(1) unfolding keyed_def by blast
  moreover have sel: "buckets (m\<lparr>hash_fn := hash', equal_fn := eq'\<rparr>) = buckets m"
    "cap (m\<lparr>hash_fn := hash', equal_fn := eq'\<rparr>) = cap m" "sz (m\<lparr>hash_fn := hash', equal_fn := eq'\<rparr>) = sz m"
    "cap_bits (m\<lparr>hash_fn := hash', equal_fn := eq'\<rparr>) = cap_bits m"
    "hashmap_entries (m\<lparr>hash_fn := hash', equal_fn := eq'\<rparr>) = hashmap_entries m"
    by (simp_all add: hashmap_entries_def)
  ultimately have "hashmap_ok (m\<lparr>hash_fn := hash', equal_fn := eq'\<rparr>)"
    unfolding hashmap_ok_def sel by blast
  with uniq show ?thesis unfolding keyed_def by simp
qed

section \<open>The contract of the callbacks and what the map provides under it\<close>

text \<open>
  The map is correct for an equality that is an equivalence and respects the hash. The entries are
  then a finite map up to that equality; each operation is the obvious one on it.
\<close>

locale hash_keys =
  fixes hash :: "'k \<Rightarrow> u64" and eq :: "'k \<Rightarrow> 'k \<Rightarrow> bool"
  assumes eq_refl: "eq a a" and eq_sym: "eq a b \<Longrightarrow> eq b a" and eq_trans: "eq a b \<Longrightarrow> eq b c \<Longrightarrow> eq a c"
    and eq_hash: "eq a b \<Longrightarrow> hash a = hash b"
begin

lemma eq_commute: "eq a b = eq b a"
  using eq_sym by blast

lemma unique_same:
  assumes "unique_keys eq es" "(k1, v1) \<in> set es" "(k2, v2) \<in> set es" "eq k1 k2"
  shows "k1 = k2 \<and> v1 = v2"
  using assms
proof (induction es)
  case (Cons e es)
  then show ?case using eq_sym by (cases e) fastforce
qed simp

lemma unique_rev: "unique_keys eq (rev es) = unique_keys eq es"
  by (induction es) (auto simp: unique_keys_append eq_commute)

text \<open>An entry equal to the key lies in the key's bucket.\<close>

lemma key_entry_bucket:
  assumes "keyed hash eq m" "(k', v) \<in> set (hashmap_entries m)" "eq k' k"
  shows "buckets m \<noteq> []" "(k', v) \<in> set (buckets m ! hash_bits (hash k) (cap_bits m))"
proof -
  from assms(2) obtain i where i: "i < length (buckets m)" "(k', v) \<in> set (buckets m ! i)"
    unfolding hashmap_entries_def set_concat_nth by blast
  then have "hash_bits (hash k') (cap_bits m) = i"
    using assms(1) by (force simp: keyed_def hashmap_ok_def entries_placed_def)
  with i assms(3) eq_hash show "buckets m \<noteq> []" "(k', v) \<in> set (buckets m ! hash_bits (hash k) (cap_bits m))"
    by auto
qed

lemma find_entry_Some:
  assumes "keyed hash eq m" "hashmap_find_entry m k (hash_bits (hash k) (cap_bits m)) = Some i"
  shows "hash_bits (hash k) (cap_bits m) < length (buckets m)"
    "i < length (buckets m ! hash_bits (hash k) (cap_bits m))"
    "eq (fst (buckets m ! hash_bits (hash k) (cap_bits m) ! i)) k"
    "buckets m ! hash_bits (hash k) (cap_bits m) ! i \<in> set (hashmap_entries m)"
proof -
  let ?h = "hash_bits (hash k) (cap_bits m)"
  have ne: "buckets m \<noteq> []" and c: "chain_find (\<lambda>k'. eq k' k) (buckets m ! ?h) = Some i"
    using assms by (auto simp: hashmap_find_entry_def keyed_def split: if_splits)
  show h: "?h < length (buckets m)"
    using hashmap_ok_bucket [OF _ ne] assms(1) by (simp add: keyed_def)
  show i: "i < length (buckets m ! ?h)" "eq (fst (buckets m ! ?h ! i)) k"
    using c by (simp_all add: chain_find_Some)
  show "buckets m ! ?h ! i \<in> set (hashmap_entries m)"
    using h i(1) by (auto simp: hashmap_entries_def intro!: bexI [of _ "buckets m ! ?h"])
qed

lemma find_entry_None:
  assumes "keyed hash eq m"
  shows "hashmap_find_entry m k (hash_bits (hash k) (cap_bits m)) = None \<longleftrightarrow>
     (\<forall>e\<in>set (hashmap_entries m). \<not> eq (fst e) k)"
proof
  assume n: "hashmap_find_entry m k (hash_bits (hash k) (cap_bits m)) = None"
  show "\<forall>e\<in>set (hashmap_entries m). \<not> eq (fst e) k"
  proof (intro ballI notI)
    fix e assume e: "e \<in> set (hashmap_entries m)" "eq (fst e) k"
    then have "(fst e, snd e) \<in> set (hashmap_entries m)" by simp
    from key_entry_bucket [OF assms this e(2)] n e(2) assms show False
      by (auto simp: hashmap_find_entry_def chain_find_None keyed_def)
  qed
next
  assume "\<forall>e\<in>set (hashmap_entries m). \<not> eq (fst e) k"
  then show "hashmap_find_entry m k (hash_bits (hash k) (cap_bits m)) = None"
    using find_entry_Some [OF assms] by (metis option.exhaust)
qed

lemma entries_same_key:
  assumes "keyed hash eq m" "(k1, v1) \<in> set (hashmap_entries m)" "(k2, v2) \<in> set (hashmap_entries m)" "eq k1 k2"
  shows "v1 = v2"
proof -
  note b1 = key_entry_bucket [OF assms(1,2,4)] and b2 = key_entry_bucket [OF assms(1,3) eq_refl]
  have "buckets m ! hash_bits (hash k2) (cap_bits m) \<in> set (buckets m)"
    using hashmap_ok_bucket [OF _ b2(1)] assms(1) by (simp add: keyed_def)
  then have "unique_keys eq (buckets m ! hash_bits (hash k2) (cap_bits m))"
    using assms(1) by (simp add: keyed_def)
  from unique_same [OF this b1(2) b2(2) assms(4)] show ?thesis by simp
qed

lemma find_iff:
  assumes "keyed hash eq m"
  shows "hashmap_find m k = Some v \<longleftrightarrow> (\<exists>k'. (k', v) \<in> set (hashmap_entries m) \<and> eq k' k)"
proof
  assume "hashmap_find m k = Some v"
  then obtain i where i: "hashmap_find_entry m k (hash_bits (hash k) (cap_bits m)) = Some i"
    and v: "snd (buckets m ! hash_bits (hash k) (cap_bits m) ! i) = v"
    using assms by (auto simp: hashmap_find_def Let_def keyed_def)
  from find_entry_Some [OF assms i] v show "\<exists>k'. (k', v) \<in> set (hashmap_entries m) \<and> eq k' k"
    by (intro exI [of _ "fst (buckets m ! hash_bits (hash k) (cap_bits m) ! i)"]) (auto simp flip: v)
next
  assume "\<exists>k'. (k', v) \<in> set (hashmap_entries m) \<and> eq k' k"
  then obtain k' where k': "(k', v) \<in> set (hashmap_entries m)" "eq k' k" by blast
  then have "hashmap_find_entry m k (hash_bits (hash k) (cap_bits m)) \<noteq> None"
    using find_entry_None [OF assms] by fastforce
  then obtain i where i: "hashmap_find_entry m k (hash_bits (hash k) (cap_bits m)) = Some i" by blast
  let ?e = "buckets m ! hash_bits (hash k) (cap_bits m) ! i"
  have "(fst ?e, snd ?e) \<in> set (hashmap_entries m)" using find_entry_Some(4) [OF assms i] by simp
  moreover have "eq (fst ?e) k'"
    by (rule eq_trans [OF find_entry_Some(3) [OF assms i] eq_sym [OF k'(2)]])
  ultimately have "snd ?e = v" using entries_same_key [OF assms _ k'(1)] by blast
  with i assms
  show "hashmap_find m k = Some v" by (simp add: hashmap_find_def Let_def keyed_def)
qed

lemma find_None_iff:
  assumes "keyed hash eq m"
  shows "hashmap_find m k = None \<longleftrightarrow> (\<forall>e\<in>set (hashmap_entries m). \<not> eq (fst e) k)"
  using find_entry_None [OF assms, of k] assms by (simp add: hashmap_find_def Let_def keyed_def)

text \<open>A map's contents determine what is found.\<close>

lemma find_cong:
  assumes "keyed hash eq m" "keyed hash eq m'" "set (hashmap_entries m') = set (hashmap_entries m)"
  shows "hashmap_find m' = hashmap_find m"
proof
  fix k
  have "hashmap_find m' k = Some v \<longleftrightarrow> hashmap_find m k = Some v" for v
    by (simp add: find_iff [OF assms(1)] find_iff [OF assms(2)] assms(3))
  then show "hashmap_find m' k = hashmap_find m k" by (metis not_None_eq)
qed

lemma placed_nth:
  "keyed hash eq m \<Longrightarrow> i < length (buckets m) \<Longrightarrow> e \<in> set (buckets m ! i) \<Longrightarrow>
     hash_bits (hash (fst e)) (cap_bits m) = i"
  by (auto simp: keyed_def hashmap_ok_def entries_placed_def)

lemma entries_unique:
  assumes "keyed hash eq m" shows "unique_keys eq (hashmap_entries m)"
proof -
  have "unique_keys eq (concat (drop i (buckets m)))" for i
  proof (induction "length (buckets m) - i" arbitrary: i)
    case (Suc d)
    then have i: "i < length (buckets m)" by simp
    then have dr: "drop i (buckets m) = buckets m ! i # drop (Suc i) (buckets m)"
      by (rule Cons_nth_drop_Suc [symmetric])
    have "\<not> eq (fst x) (fst y)"
      if x: "x \<in> set (buckets m ! i)" and y: "y \<in> set (concat (drop (Suc i) (buckets m)))" for x y
    proof
      assume e: "eq (fst x) (fst y)"
      from y obtain j where j: "j < length (drop (Suc i) (buckets m))" "y \<in> set (drop (Suc i) (buckets m) ! j)"
        unfolding set_concat_nth by blast
      then have "y \<in> set (buckets m ! (Suc i + j))" "Suc i + j < length (buckets m)" by simp_all
      from placed_nth [OF assms this(2,1)] placed_nth [OF assms i x] eq_hash [OF e] show False by simp
    qed
    moreover have "unique_keys eq (buckets m ! i)" using i assms by (simp add: keyed_def)
    moreover have "unique_keys eq (concat (drop (Suc i) (buckets m)))" by (rule Suc.hyps(1)) (use Suc.hyps(2) in simp)
    ultimately show ?case by (simp add: dr unique_keys_append)
  qed simp
  from this [of 0] show ?thesis by (simp add: hashmap_entries_def)
qed

lemma grow_keyed:
  assumes "keyed hash eq m" "hashmap_grow ok m = (m', 0)"
  shows "keyed hash eq m'" "hashmap_find m' = hashmap_find m"
proof -
  note g = hashmap_grow_ok [OF _ assms(2)]
  have ok: "hashmap_ok m" using assms(1) by (simp add: keyed_def)
  have "unique_keys eq b" if "b \<in> set (buckets m')" for b
  proof -
    from that obtain h where h: "h < length (buckets m')" "b = buckets m' ! h" by (auto simp: in_set_conv_nth)
    then have "h < cap m'" using g(1,6) [OF ok] by (auto simp: hashmap_ok_def split: if_splits)
    from g(9) [OF ok this] h(2) show ?thesis
      using entries_unique [OF assms(1)] by (simp add: unique_rev unique_keys_filter)
  qed
  then show k: "keyed hash eq m'" using assms(1) g(1-4) [OF ok] by (simp add: keyed_def)
  show "hashmap_find m' = hashmap_find m"
    by (rule find_cong [OF assms(1) k]) (metis g(2) [OF ok] set_mset_mset)
qed

text \<open>The three changes to a chain, with the map they leave.\<close>

lemma entries_distinct: "keyed hash eq m \<Longrightarrow> distinct (hashmap_entries m)"
proof -
  have "unique_keys eq es \<Longrightarrow> distinct es" for es :: "('k \<times> 'b) list"
    by (induction es) (auto simp: eq_refl)
  then show "keyed hash eq m \<Longrightarrow> distinct (hashmap_entries m)" using entries_unique by blast
qed

lemma update_keyed:
  assumes k: "keyed hash eq m" and h: "h < length (buckets m)"
    and m': "m' = m\<lparr>buckets := (buckets m)[h := b], sz := n\<rparr>"
    and n: "n = length (hashmap_entries m')" "n * 4 div 3 \<le> cap m"
    and b: "unique_keys eq b" "\<forall>e\<in>set b. hash_bits (hash (fst e)) (cap_bits m) = h"
  shows "keyed hash eq m'"
proof -
  have "entries_placed m'"
    unfolding entries_placed_def
  proof (intro allI impI ballI)
    fix i e assume "i < length (buckets m')" "e \<in> set (buckets m' ! i)"
    then show "hash_bits (hash_fn m' (fst e)) (cap_bits m') = i"
      using b(2) placed_nth [OF k, of i e] k h by (cases "i = h") (auto simp: m' keyed_def)
  qed
  moreover have "unique_keys eq c" if "c \<in> set (buckets m')" for c
    using that b(1) k set_update_subset_insert [of "buckets m" h b] by (auto simp: m' keyed_def)
  moreover have "buckets m \<noteq> []" "buckets m' \<noteq> []" "length (buckets m') = length (buckets m)"
    "cap m' = cap m" "cap_bits m' = cap_bits m" "sz m' = n" "hash_fn m' = hash" "equal_fn m' = eq"
    using h k by (auto simp: m' keyed_def)
  ultimately show ?thesis
    using k n unfolding keyed_def hashmap_ok_def by simp
qed

lemma put_find:
  assumes k: "keyed hash eq m" and k': "keyed hash eq m'"
    and set': "set (hashmap_entries m') = insert (key, v) {e \<in> set (hashmap_entries m). \<not> eq (fst e) key}"
  shows "hashmap_find m' = (\<lambda>x. if eq key x then Some v else hashmap_find m x)"
proof
  fix x
  show "hashmap_find m' x = (if eq key x then Some v else hashmap_find m x)"
  proof (cases "eq key x")
    case True
    with find_iff [OF k', of x v] set' show ?thesis by auto
  next
    case False
    have "hashmap_find m' x = Some u \<longleftrightarrow> hashmap_find m x = Some u" for u
    proof
      assume "hashmap_find m' x = Some u"
      then obtain y where "(y, u) \<in> set (hashmap_entries m')" "eq y x" by (auto simp: find_iff [OF k'])
      with False show "hashmap_find m x = Some u" by (auto simp: set' find_iff [OF k])
    next
      assume "hashmap_find m x = Some u"
      then obtain y where y: "(y, u) \<in> set (hashmap_entries m)" "eq y x" by (auto simp: find_iff [OF k])
      have "\<not> eq y key"
      proof
        assume "eq y key"
        from eq_trans [OF eq_sym [OF this] y(2)] False show False by contradiction
      qed
      with y show "hashmap_find m' x = Some u" by (auto simp: set' find_iff [OF k'])
    qed
    with False show ?thesis by (metis not_None_eq)
  qed
qed

lemma replace_keyed:
  assumes k: "keyed hash eq m" and h: "h = hash_bits (hash key) (cap_bits m)"
    and f: "hashmap_find_entry m key h = Some i"
    and m': "m' = m\<lparr>buckets := (buckets m)[h := (buckets m ! h)[i := (key, v)]]\<rparr>"
  shows "keyed hash eq m'" "hashmap_find m' = (\<lambda>x. if eq key x then Some v else hashmap_find m x)"
proof -
  let ?old = "buckets m ! h ! i"
  note e = find_entry_Some [OF k f [unfolded h], folded h]
  have "mset (hashmap_entries m') + mset (buckets m ! h) =
      mset (hashmap_entries m) + mset ((buckets m ! h)[i := (key, v)])"
    using mset_concat_update [OF e(1)] by (simp add: m' hashmap_entries_def)
  moreover have "mset ((buckets m ! h)[i := (key, v)]) = add_mset (key, v) (mset (buckets m ! h) - {#?old#})"
    by (rule mset_update [OF e(2)])
  moreover have in1: "?old \<in># mset (buckets m ! h)" using e(2) by simp
  ultimately obtain B where "mset (hashmap_entries m') + add_mset ?old B = mset (hashmap_entries m) + add_mset (key, v) B"
    by (metis add_mset_remove_trivial mset_add)
  then have "add_mset ?old (mset (hashmap_entries m')) + B = add_mset (key, v) (mset (hashmap_entries m)) + B" by simp
  then have ms: "add_mset ?old (mset (hashmap_entries m')) = add_mset (key, v) (mset (hashmap_entries m))"
    by (rule add_right_imp_eq)
  then have len: "length (hashmap_entries m') = length (hashmap_entries m)"
    by (metis size_add_mset size_mset nat.inject)
  have mss: "mset (hashmap_entries m') = add_mset (key, v) (mset (hashmap_entries m) - {#?old#})"
  proof -
    have "mset (hashmap_entries m') = add_mset (key, v) (mset (hashmap_entries m)) - {#?old#}"
      using ms by (metis add_mset_remove_trivial)
    also have "\<dots> = add_mset (key, v) (mset (hashmap_entries m) - {#?old#})"
      using e(4) by simp
    finally show ?thesis .
  qed
  have old_iff: "eq (fst x) key \<longleftrightarrow> x = ?old" if "x \<in> set (hashmap_entries m)" for x
  proof
    assume "eq (fst x) key"
    then have "eq (fst x) (fst ?old)" by (rule eq_trans) (rule eq_sym [OF e(3)])
    with unique_same [OF entries_unique [OF k], of "fst x" "snd x" "fst ?old" "snd ?old"] that e(4)
    show "x = ?old" by (simp add: prod_eq_iff)
  qed (use e(3) in simp)
  have set': "set (hashmap_entries m') = insert (key, v) {x \<in> set (hashmap_entries m). \<not> eq (fst x) key}"
  proof -
    have "set (hashmap_entries m') = insert (key, v) (set_mset (mset (hashmap_entries m) - {#?old#}))"
      using mss by (metis set_mset_add_mset_insert set_mset_mset)
    also have "set_mset (mset (hashmap_entries m) - {#?old#}) = set (hashmap_entries m) - {?old}"
      using entries_distinct [OF k] e(4)
      by (metis mset_remove1 set_mset_mset set_remove1_eq)
    also have "\<dots> = {x \<in> set (hashmap_entries m). \<not> eq (fst x) key}" using old_iff by auto
    finally show ?thesis .
  qed
  show k': "keyed hash eq m'"
  proof (rule update_keyed [OF k e(1)])
    show "m' = m\<lparr>buckets := (buckets m)[h := (buckets m ! h)[i := (key, v)]], sz := sz m\<rparr>" by (simp add: m')
    show "sz m = length (hashmap_entries m')" using k len by (simp add: keyed_def hashmap_ok_def)
    show "sz m * 4 div 3 \<le> cap m" using k unfolding keyed_def hashmap_ok_def by blast
    have ub: "unique_keys eq (buckets m ! h)" using k e(1) by (simp add: keyed_def)
    show "unique_keys eq ((buckets m ! h)[i := (key, v)])"
      unfolding unique_keys_def sorted_wrt_iff_nth_less
    proof (intro allI impI notI)
      fix a b assume ab: "a < b" "b < length ((buckets m ! h)[i := (key, v)])"
        and q: "eq (fst ((buckets m ! h)[i := (key, v)] ! a)) (fst ((buckets m ! h)[i := (key, v)] ! b))"
      have "\<not> eq (fst (buckets m ! h ! a)) (fst (buckets m ! h ! b))"
        using ub ab by (simp add: unique_keys_def sorted_wrt_iff_nth_less)
      moreover have "eq (fst (buckets m ! h ! a)) (fst (buckets m ! h ! b))"
      proof (cases "a = i")
        case True
        with q ab have "eq key (fst (buckets m ! h ! b))" by simp
        with e(3) show ?thesis unfolding True by (rule eq_trans)
      next
        case False
        show ?thesis
        proof (cases "b = i")
          case True
          with q ab False have "eq (fst (buckets m ! h ! a)) key" by simp
          then show ?thesis unfolding True by (rule eq_trans) (rule eq_sym [OF e(3)])
        qed (use q ab False in simp)
      qed
      ultimately show False by contradiction
    qed
    show "\<forall>x\<in>set ((buckets m ! h)[i := (key, v)]). hash_bits (hash (fst x)) (cap_bits m) = h"
      using placed_nth [OF k e(1)] h set_update_subset_insert [of "buckets m ! h" i "(key, v)"] by auto
  qed
  show "hashmap_find m' = (\<lambda>x. if eq key x then Some v else hashmap_find m x)"
    by (rule put_find [OF k k' set'])
qed

lemma push_keyed:
  assumes k: "keyed hash eq m" and ne: "buckets m \<noteq> []" and h: "h = hash_bits (hash key) (cap_bits m)"
    and new: "\<forall>e\<in>set (hashmap_entries m). \<not> eq (fst e) key" and room: "(sz m + 1) * 4 div 3 \<le> cap m"
    and m': "m' = m\<lparr>buckets := hashmap_add_entry (buckets m) h (key, v), sz := sz m + 1\<rparr>"
  shows "keyed hash eq m'" "hashmap_find m' = (\<lambda>x. if eq key x then Some v else hashmap_find m x)"
    "mset (hashmap_entries m') = add_mset (key, v) (mset (hashmap_entries m))"
proof -
  have hl: "h < length (buckets m)"
    using hashmap_ok_bucket [OF _ ne] k by (simp add: keyed_def h)
  show ms: "mset (hashmap_entries m') = add_mset (key, v) (mset (hashmap_entries m))"
    using mset_add_entry [OF hl] by (simp add: m' hashmap_entries_def)
  then have len: "length (hashmap_entries m') = Suc (length (hashmap_entries m))"
    by (metis size_add_mset size_mset)
  have inb: "e \<in> set (hashmap_entries m)" if "e \<in> set (buckets m ! h)" for e
    using that hl by (auto simp: hashmap_entries_def set_concat_nth)
  show k': "keyed hash eq m'"
  proof (rule update_keyed [OF k hl])
    show "m' = m\<lparr>buckets := (buckets m)[h := (key, v) # buckets m ! h], sz := sz m + 1\<rparr>"
      by (simp add: m' hashmap_add_entry_def)
    show "sz m + 1 = length (hashmap_entries m')"
      using k len unfolding keyed_def hashmap_ok_def by simp
    show "(sz m + 1) * 4 div 3 \<le> cap m" by (rule room)
    show "unique_keys eq ((key, v) # buckets m ! h)"
      using k hl new inb by (auto simp: keyed_def eq_commute)
    show "\<forall>e\<in>set ((key, v) # buckets m ! h). hash_bits (hash (fst e)) (cap_bits m) = h"
      using placed_nth [OF k hl] h by auto
  qed
  have "set (hashmap_entries m') = insert (key, v) (set (hashmap_entries m))"
    using ms by (metis set_mset_add_mset_insert set_mset_mset)
  also have "\<dots> = insert (key, v) {e \<in> set (hashmap_entries m). \<not> eq (fst e) key}" using new by auto
  finally show "hashmap_find m' = (\<lambda>x. if eq key x then Some v else hashmap_find m x)"
    by (rule put_find [OF k k'])
qed

lemma delete_keyed:
  assumes k: "keyed hash eq m" and h: "h = hash_bits (hash key) (cap_bits m)"
    and f: "hashmap_find_entry m key h = Some i"
    and m': "m' = m\<lparr>buckets := (buckets m)[h := hashmap_del_entry (buckets m ! h) i], sz := sz m - 1\<rparr>"
  shows "keyed hash eq m'" "hashmap_find m' = (\<lambda>x. if eq key x then None else hashmap_find m x)"
    "Suc (sz m') = sz m"
proof -
  let ?old = "buckets m ! h ! i" and ?b = "buckets m ! h"
  note e = find_entry_Some [OF k f [unfolded h], folded h]
  have split: "?b = take i ?b @ ?old # drop (Suc i) ?b" using e(2) by (simp add: id_take_nth_drop)
  have mb: "mset ?b = add_mset ?old (mset (hashmap_del_entry ?b i))"
    by (subst split) (simp add: hashmap_del_entry_def)
  have "mset (hashmap_entries m') + mset ?b = mset (hashmap_entries m) + mset (hashmap_del_entry ?b i)"
    using mset_concat_update [OF e(1)] by (simp add: m' hashmap_entries_def)
  then have ms: "mset (hashmap_entries m) = add_mset ?old (mset (hashmap_entries m'))" by (simp add: mb)
  then have len: "length (hashmap_entries m) = Suc (length (hashmap_entries m'))"
    by (metis size_add_mset size_mset)
  have szm: "sz m = length (hashmap_entries m)" "sz m * 4 div 3 \<le> cap m"
    using k unfolding keyed_def hashmap_ok_def by blast+
  then show "Suc (sz m') = sz m" using len by (simp add: m')
  have ub: "unique_keys eq ?b" using k e(1) by (simp add: keyed_def)
  show k': "keyed hash eq m'"
  proof (rule update_keyed [OF k e(1) m'])
    show "sz m - 1 = length (hashmap_entries m')" using szm len by simp
    have "(sz m - 1) * 4 div 3 \<le> sz m * 4 div 3" by (rule div_le_mono) simp
    then show "(sz m - 1) * 4 div 3 \<le> cap m" using szm(2) by (rule order_trans)
    show "unique_keys eq (hashmap_del_entry ?b i)"
      using ub by (subst (asm) split) (simp add: hashmap_del_entry_def unique_keys_append)
    show "\<forall>x\<in>set (hashmap_del_entry ?b i). hash_bits (hash (fst x)) (cap_bits m) = h"
      using placed_nth [OF k e(1)] by (auto simp: hashmap_del_entry_def dest: in_set_takeD in_set_dropD)
  qed
  have dist: "?old \<notin> set (hashmap_entries m')"
  proof -
    have "distinct (hashmap_entries m)" by (rule entries_distinct [OF k])
    then have "count (mset (hashmap_entries m)) ?old = (if ?old \<in> set (hashmap_entries m) then 1 else 0)"
      by (metis distinct_count_atmost_1)
    then have "count (mset (hashmap_entries m')) ?old = 0" by (simp add: ms split: if_splits)
    then show ?thesis by (simp add: count_eq_zero_iff)
  qed
  have set': "set (hashmap_entries m) = insert ?old (set (hashmap_entries m'))"
    using ms by (metis set_mset_add_mset_insert set_mset_mset)
  show "hashmap_find m' = (\<lambda>x. if eq key x then None else hashmap_find m x)"
  proof
    fix x
    show "hashmap_find m' x = (if eq key x then None else hashmap_find m x)"
    proof (cases "eq key x")
      case True
      have "\<not> eq (fst y) x" if "y \<in> set (hashmap_entries m')" for y
      proof
        assume "eq (fst y) x"
        then have "eq (fst y) (fst ?old)"
          using eq_trans [OF eq_trans [OF _ eq_sym [OF True]] eq_sym [OF e(3)]] by blast
        with unique_same [OF entries_unique [OF k], of "fst y" "snd y" "fst ?old" "snd ?old"] that set'
        have "y = ?old" by (simp add: prod_eq_iff)
        with that dist show False by simp
      qed
      then show ?thesis using True find_None_iff [OF k'] by simp
    next
      case False
      have old: "\<not> eq (fst ?old) x" using False eq_trans [OF eq_sym [OF e(3)]] by blast
      have "hashmap_find m' x = Some u \<longleftrightarrow> hashmap_find m x = Some u" for u
        unfolding find_iff [OF k'] find_iff [OF k] set' using old by (metis fst_conv insert_iff)
      with False show ?thesis by (metis not_None_eq)
    qed
  qed
qed

lemma clear_find: "keyed hash eq m \<Longrightarrow> hashmap_find (hashmap_clear m) = Map.empty"
  by (auto simp: hashmap_find_def hashmap_clear_def hashmap_find_entry_def Let_def fun_eq_iff)

lemma init_find: "hashmap_find (hashmap_init hash eq) = Map.empty"
  by (auto simp: hashmap_find_def hashmap_init_def hashmap_find_entry_def Let_def fun_eq_iff)

section \<open>Insertion and deletion\<close>

text \<open>The part of \<open>hashmap_insert\<close> that adds an entry for a key that is absent.\<close>

lemma insert_absent:
  assumes k: "keyed hash eq m" and none: "hashmap_find m key = None" and st: "strategy \<noteq> HASHMAP_UPDATE"
    and r: "hashmap_insert al m key v strategy = (m', err, old)"
  shows "old = None \<and> keyed hash eq m' \<and>
     (err = 0 \<and> hashmap_find m' = (\<lambda>x. if eq key x then Some v else hashmap_find m x) \<and> sz m' = Suc (sz m) \<and>
        mset (hashmap_entries m') = add_mset (key, v) (mset (hashmap_entries m)) \<or>
      err = - ENOMEM \<and> mset (hashmap_entries m') = mset (hashmap_entries m) \<and> hashmap_find m' = hashmap_find m \<and> sz m' = sz m \<and> \<not> (calloc_ok al \<and> malloc_ok al \<and> cap m < 2 ^ 60))"
proof -
  let ?h = "\<lambda>m. hash_bits (hash key) (cap_bits m)"
  have hf: "hash_fn m = hash" "equal_fn m = eq" using k by (simp_all add: keyed_def)
  have fe: "hashmap_find_entry m key (?h m) = None"
    using none by (simp add: hashmap_find_def Let_def hf)
  define g where "g = (if hashmap_needs_to_grow m then hashmap_grow (calloc_ok al) m else (m, 0))"
  obtain m1 e where g1: "g = (m1, e)" by (cases g)
  have r': "(if e \<noteq> 0 then (m1, e, None)
      else if \<not> malloc_ok al then (m1, - ENOMEM, None)
      else (m1\<lparr>buckets := hashmap_add_entry (buckets m1) (hash_bits (hash_fn m1 key) (cap_bits m1)) (key, v),
               sz := sz m1 + 1\<rparr>, 0, None)) = (m', err, old)"
    using r fe st by (simp add: hashmap_insert_def Let_def hf g_def [symmetric] g1 split: if_splits)
  show ?thesis
  proof (cases "e = 0")
    case False
    then have "hashmap_grow (calloc_ok al) m = (m1, e)" using g1 by (auto simp: g_def split: if_splits)
    from hashmap_grow_fail [OF this False] have e: "m1 = m" "e = - ENOMEM" by simp_all
    have big: "\<not> (calloc_ok al \<and> cap m < 2 ^ 60)"
    proof
      assume a: "calloc_ok al \<and> cap m < 2 ^ 60"
      have "cap_bits m < 60"
      proof (cases "buckets m = []")
        case False
        then have "cap m = 2 ^ cap_bits m" using k by (simp add: keyed_def hashmap_ok_def)
        with a show ?thesis by (simp only: power_strict_increasing_iff)
      qed (use k in \<open>simp add: keyed_def hashmap_ok_def\<close>)
      then have "(2 :: nat) ^ (if cap_bits m + 1 < 2 then 2 else cap_bits m + 1) \<le> 2 ^ 60"
        by (intro power_increasing) auto
      then have "calloc (calloc_ok al) (2 ^ (if cap_bits m + 1 < 2 then 2 else cap_bits m + 1)) 8"
        using a by (simp add: calloc_def)
      with \<open>hashmap_grow (calloc_ok al) m = (m1, e)\<close> False show False
        by (simp add: hashmap_grow_def Let_def HASHMAP_MIN_CAP_BITS_def split: if_splits)
    qed
    with r' False e k show ?thesis by auto
  next
    case True
    have m1: "keyed hash eq m1" "hashmap_find m1 = hashmap_find m" "sz m1 = sz m" "buckets m1 \<noteq> []"
      "(sz m1 + 1) * 4 div 3 \<le> cap m1"
      "mset (hashmap_entries m1) = mset (hashmap_entries m)"
    proof -
      have ok: "hashmap_ok m" using k by (simp add: keyed_def)
      have *: "keyed hash eq m1 \<and> hashmap_find m1 = hashmap_find m \<and> sz m1 = sz m \<and> buckets m1 \<noteq> [] \<and>
          (sz m1 + 1) * 4 div 3 \<le> cap m1 \<and> mset (hashmap_entries m1) = mset (hashmap_entries m)"
      proof (cases "hashmap_needs_to_grow m")
        case grow: True
        then have "hashmap_grow (calloc_ok al) m = (m1, 0)" using g1 True by (simp add: g_def)
        from grow_keyed [OF k this] hashmap_grow_ok [OF ok this] show ?thesis by blast
      next
        case False
        then have "m1 = m" using g1 by (simp add: g_def)
        moreover have "cap m \<noteq> 0" using False by (simp add: hashmap_needs_to_grow_def)
        then have "buckets m \<noteq> []" using ok by (auto simp: hashmap_ok_def)
        ultimately show ?thesis using k False by (simp add: hashmap_needs_to_grow_def)
      qed
      then show "keyed hash eq m1" "hashmap_find m1 = hashmap_find m" "sz m1 = sz m" "buckets m1 \<noteq> []"
        "(sz m1 + 1) * 4 div 3 \<le> cap m1" "mset (hashmap_entries m1) = mset (hashmap_entries m)" by blast+
    qed
    have new: "\<forall>x\<in>set (hashmap_entries m1). \<not> eq (fst x) key"
      using none find_None_iff [OF m1(1)] m1(2) by simp
    show ?thesis
    proof (cases "malloc_ok al")
      case False
      with r' True m1 show ?thesis by auto
    next
      case mal: True
      then have m': "m' = m1\<lparr>buckets := hashmap_add_entry (buckets m1) (?h m1) (key, v), sz := sz m1 + 1\<rparr>"
        "err = 0" "old = None" using r' True m1(1) by (auto simp: keyed_def)
      from push_keyed [OF m1(1,4) refl new m1(5) m'(1)] m1(3) m'
      show ?thesis unfolding m1(2) m1(6) by simp
    qed
  qed
qed

text \<open>What an insertion needs to succeed.\<close>

lemma insert_fails:
  assumes k: "keyed hash eq m" and none: "hashmap_find m key = None" and st: "strategy \<noteq> HASHMAP_UPDATE"
    and r: "hashmap_insert al m key v strategy = (m', err, old)" "err \<noteq> 0"
  shows "\<not> calloc_ok al \<or> \<not> malloc_ok al \<or> 2 ^ 59 \<le> sz m"
proof (cases "hashmap_needs_to_grow m")
  case False
  have "hashmap_find_entry m key (hash_bits (hash_fn m key) (cap_bits m)) = None"
    using none by (simp add: hashmap_find_def Let_def)
  with False r st have "\<not> malloc_ok al" by (auto simp: hashmap_insert_def Let_def split: if_splits)
  then show ?thesis by blast
next
  case True
  consider "\<not> calloc_ok al \<or> \<not> malloc_ok al" | "2 ^ 60 \<le> cap m"
    using insert_absent [OF k none st r(1)] r(2) by fastforce
  then show ?thesis
  proof cases
    case 2
    then have "2 ^ 60 < (sz m + 1) * 4 div 3" using True by (auto simp: hashmap_needs_to_grow_def)
    then have "2 ^ 60 * 3 < (sz m + 1) * 4"
      using div_times_less_eq_dividend [of "(sz m + 1) * 4" 3] by linarith
    then have "2 ^ 59 \<le> sz m" by simp
    then show ?thesis by simp
  qed blast
qed

lemma insert_present:
  assumes k: "keyed hash eq m" and some: "hashmap_find m key = Some u"
    and st: "strategy = HASHMAP_SET \<or> strategy = HASHMAP_UPDATE"
    and r: "hashmap_insert al m key v strategy = (m', err, old)"
  shows "err = 0 \<and> keyed hash eq m' \<and> (\<exists>k'. old = Some (k', u) \<and> eq k' key) \<and>
     hashmap_find m' = (\<lambda>x. if eq key x then Some v else hashmap_find m x) \<and> sz m' = sz m"
proof -
  have hf: "hash_fn m = hash" "equal_fn m = eq" using k by (simp_all add: keyed_def)
  let ?h = "hash_bits (hash key) (cap_bits m)"
  obtain i where i: "hashmap_find_entry m key ?h = Some i" "snd (buckets m ! ?h ! i) = u"
    using some by (auto simp: hashmap_find_def Let_def hf)
  have m': "m' = m\<lparr>buckets := (buckets m)[?h := (buckets m ! ?h)[i := (key, v)]]\<rparr>" "err = 0"
    "old = Some (buckets m ! ?h ! i)"
    using r st i(1) by (auto simp: hashmap_insert_def Let_def hf)
  from replace_keyed [OF k refl i(1) m'(1)] m' find_entry_Some(3) [OF k i(1)] i(2)
  show ?thesis by (auto simp: prod_eq_iff)
qed

lemma insert_refused:
  assumes k: "keyed hash eq m" and r: "hashmap_insert al m key v strategy = (m', err, old)"
  shows "hashmap_find m key = Some u \<Longrightarrow> strategy = HASHMAP_ADD \<Longrightarrow> m' = m \<and> err = - EEXIST"
    "hashmap_find m key = None \<Longrightarrow> strategy = HASHMAP_UPDATE \<Longrightarrow> m' = m \<and> err = - ENOENT"
  using k r by (auto simp: hashmap_insert_def hashmap_find_def Let_def keyed_def split: option.splits)

lemma insert_exists:
  assumes k: "keyed hash eq m" and "hashmap_find m key = Some u"
    and r: "hashmap_insert al m key v HASHMAP_ADD = (m', err, old)"
  obtains e where "m' = m" "err = - EEXIST" "old = Some e" "e \<in> set (hashmap_entries m)" "eq (fst e) key"
proof -
  have hf: "hash_fn m = hash" using k by (simp add: keyed_def)
  let ?h = "hash_bits (hash key) (cap_bits m)"
  obtain i where i: "hashmap_find_entry m key ?h = Some i"
    using assms(2) by (auto simp: hashmap_find_def Let_def hf)
  have "m' = m" "err = - EEXIST" "old = Some (buckets m ! ?h ! i)"
    using r i by (auto simp: hashmap_insert_def Let_def hf)
  then show thesis using find_entry_Some [OF k i] by (intro that) simp_all
qed

lemma delete_spec:
  assumes k: "keyed hash eq m" and r: "hashmap_delete m key = (m', b, old)"
  shows "keyed hash eq m' \<and> b = (hashmap_find m key \<noteq> None) \<and> map_option snd old = hashmap_find m key \<and>
     hashmap_find m' = (\<lambda>x. if eq key x then None else hashmap_find m x) \<and>
     sz m' = (if b then sz m - 1 else sz m)"
proof -
  have hf: "hash_fn m = hash" using k by (simp add: keyed_def)
  let ?h = "hash_bits (hash key) (cap_bits m)"
  show ?thesis
  proof (cases "hashmap_find_entry m key ?h")
    case None
    then have n: "hashmap_find m key = None" by (simp add: hashmap_find_def Let_def hf)
    have "hashmap_find m x = None" if "eq key x" for x
    proof (rule ccontr)
      assume "hashmap_find m x \<noteq> None"
      then obtain v y where "(y, v) \<in> set (hashmap_entries m)" "eq y x"
        by (metis find_iff [OF k] not_None_eq)
      with n that show False unfolding find_None_iff [OF k] using eq_trans eq_sym by (metis fst_conv)
    qed
    with None r n k show ?thesis by (auto simp: hashmap_delete_def Let_def hf fun_eq_iff)
  next
    case (Some i)
    then have "m' = m\<lparr>buckets := (buckets m)[?h := hashmap_del_entry (buckets m ! ?h) i], sz := sz m - 1\<rparr>"
      "b" "old = Some (buckets m ! ?h ! i)"
      using r by (auto simp: hashmap_delete_def Let_def hf)
    with delete_keyed [OF k refl Some this(1)] Some show ?thesis
      by (auto simp: hashmap_find_def Let_def hf)
  qed
qed

end

text \<open>Integer keys hashed to themselves, as \<open>btf.c\<close> uses them.\<close>

definition identity_hash_fn :: "u64 \<Rightarrow> u64" where "identity_hash_fn key = key"

interpretation ints: hash_keys identity_hash_fn "(=)"
  by unfold_locales auto

section \<open>Properties\<close>

text \<open>C13: \<open>hashmap_insert\<close> with a strategy other than \<open>HASHMAP_APPEND\<close> is the update of a finite map
  keyed up to the equality callback: ADD refuses a present key and UPDATE an absent one, leaving the
  map unchanged; otherwise the key maps to the new value and every other key to what it did, growth
  of the bucket array included; a failed allocation changes no binding.\<close>

theorem hashmap_insert_refines:
  assumes "hash_keys hash eq" "keyed hash eq m" "strategy \<noteq> HASHMAP_APPEND"
    and "hashmap_insert al m key v strategy = (m', err, old)"
  shows "keyed hash eq m' \<and>
     (case hashmap_find m key of
        Some u \<Rightarrow>
          if strategy = HASHMAP_ADD then err = - EEXIST \<and> m' = m
          else err = 0 \<and> hashmap_find m' = (\<lambda>x. if eq key x then Some v else hashmap_find m x) \<and> sz m' = sz m
      | None \<Rightarrow>
          if strategy = HASHMAP_UPDATE then err = - ENOENT \<and> m' = m
          else err = 0 \<and> hashmap_find m' = (\<lambda>x. if eq key x then Some v else hashmap_find m x) \<and>
                 sz m' = Suc (sz m) \<or>
               err = - ENOMEM \<and> hashmap_find m' = hashmap_find m \<and> sz m' = sz m \<and>
                 \<not> (calloc_ok al \<and> malloc_ok al \<and> cap m < 2 ^ 60))"
proof (cases "hashmap_find m key")
  case None
  show ?thesis
  proof (cases "strategy = HASHMAP_UPDATE")
    case True
    from hash_keys.insert_refused(2) [OF assms(1,2,4) None True] None True assms(2) show ?thesis by simp
  next
    case False
    from hash_keys.insert_absent [OF assms(1,2) None False assms(4)] None False show ?thesis
      by (elim conjE disjE) simp_all
  qed
next
  case (Some u)
  show ?thesis
  proof (cases "strategy = HASHMAP_ADD")
    case True
    from hash_keys.insert_refused(1) [OF assms(1,2,4) Some True] Some True assms(2) show ?thesis by simp
  next
    case False
    then have "strategy = HASHMAP_SET \<or> strategy = HASHMAP_UPDATE" using assms(3) by (cases strategy) simp_all
    from hash_keys.insert_present [OF assms(1,2) Some this assms(4)] Some False show ?thesis by simp
  qed
qed

definition alloc_all :: alloc where "alloc_all = \<lparr>calloc_ok = True, malloc_ok = True\<rparr>"

theorem hashmap_insert_refines_witness:
  "case hashmap_insert alloc_all (hashmap_init identity_hash_fn (=)) 5 (7 :: nat) HASHMAP_SET of
     (m', err, old) \<Rightarrow> err = 0 \<and> hashmap_find m' 5 = Some 7 \<and> hashmap_find m' 6 = None"
proof -
  let ?m = "hashmap_init identity_hash_fn (=) :: (u64, nat) hashmap"
  obtain m' err old where r: "hashmap_insert alloc_all ?m 5 7 HASHMAP_SET = (m', err, old)"
    by (cases "hashmap_insert alloc_all ?m 5 7 HASHMAP_SET") auto
  have n: "hashmap_find ?m = Map.empty" by (rule ints.init_find)
  have c: "cap ?m = 0" by (simp add: hashmap_init_def)
  show ?thesis
    using hashmap_insert_refines [OF ints.hash_keys_axioms hashmap_init_keyed _ r]
    unfolding c r by (simp add: n alloc_all_def)
qed

text \<open>C34: \<open>hashmap_delete\<close> removes the binding of the key, reports whether there was one and returns
  its value; every other key keeps its binding, and the size follows.\<close>

theorem hashmap_delete_refines:
  assumes "hash_keys hash eq" "keyed hash eq m" "hashmap_delete m key = (m', b, old)"
  shows "keyed hash eq m' \<and> b = (hashmap_find m key \<noteq> None) \<and> map_option snd old = hashmap_find m key \<and>
     hashmap_find m' = (\<lambda>x. if eq key x then None else hashmap_find m x) \<and>
     sz m' = (if b then sz m - 1 else sz m)"
  by (rule hash_keys.delete_spec [OF assms])

theorem hashmap_delete_refines_witness:
  "case hashmap_delete (hashmap_init identity_hash_fn (=) :: (u64, nat) hashmap) 5 of
     (m', b, old) \<Rightarrow> \<not> b \<and> old = None \<and> hashmap_find m' 5 = None"
proof -
  let ?m = "hashmap_init identity_hash_fn (=) :: (u64, nat) hashmap"
  obtain m' b old where r: "hashmap_delete ?m 5 = (m', b, old)" by (cases "hashmap_delete ?m 5") auto
  show ?thesis
    using hashmap_delete_refines [OF ints.hash_keys_axioms hashmap_init_keyed r]
    by (simp add: r ints.init_find)
qed

definition hashmap_append :: "('k, 'v) hashmap \<Rightarrow> 'k \<Rightarrow> 'v \<Rightarrow> ('k, 'v) hashmap" where
  "hashmap_append m k v = fst (hashmap_insert alloc_all m k v HASHMAP_APPEND)"

lemma hash_bits_2: "hash_bits 1 2 = 2" "hash_bits 2 2 = 0" "hash_bits 3 2 = 3"
  by code_simp+

lemma hash_bits_3: "hash_bits 1 3 = 4" "hash_bits 2 3 = 1" "hash_bits 3 3 = 6"
  by code_simp+

definition ex_app :: "nat \<Rightarrow> nat \<Rightarrow> (u64 \<times> nat) list list \<Rightarrow> nat \<Rightarrow> (u64, nat) hashmap" where
  "ex_app c b bs s = \<lparr>hash_fn = identity_hash_fn, equal_fn = (=), buckets = bs, cap = c, cap_bits = b, sz = s\<rparr>"

lemmas append_eval = hashmap_append_def hashmap_insert_def  hashmap_init_def hashmap_needs_to_grow_def hashmap_grow_def hashmap_add_entry_def hashmap_entries_def alloc_all_def calloc_def HASHMAP_MIN_CAP_BITS_def identity_hash_fn_def  ex_app_def

lemma replicate_4_8: "replicate 4 x = [x,x,x,x]" "replicate 8 x = [x,x,x,x,x,x,x,x]"
  by (simp_all add: numeral_eq_Suc)

lemma append_1: "hashmap_append (hashmap_init identity_hash_fn (=)) 1 10 = ex_app 4 2 [[],[],[(1,10)],[]] 1"
  by (simp add: append_eval hash_bits_2 replicate_4_8)

lemma append_2: "hashmap_append (ex_app 4 2 [[],[],[(1,10)],[]] 1) 1 11 = ex_app 4 2 [[],[],[(1,11),(1,10)],[]] 2"
  by (simp add: append_eval hash_bits_2 replicate_4_8)

lemma append_3: "hashmap_append (ex_app 4 2 [[],[],[(1,11),(1,10)],[]] 2) 2 20 = ex_app 4 2 [[(2,20)],[],[(1,11),(1,10)],[]] 3"
  by (simp add: append_eval hash_bits_2 replicate_4_8)

lemma append_4: "hashmap_append (ex_app 4 2 [[(2,20)],[],[(1,11),(1,10)],[]] 3) 3 30 = ex_app 8 3 [[],[(2,20)],[],[],[(1,10),(1,11)],[],[(3,30)],[]] 4"
  by (simp add: append_eval hash_bits_2 hash_bits_3 replicate_4_8)

text \<open>With HASHMAP_APPEND the header promises that a lookup returns the value inserted last. It does
  until the map grows: growing pushes each chain onto the new buckets entry by entry and so reverses
  the values of one key. After 10 and 11 are appended for key 1 the lookup gives 11; after two more
  keys, the second of which makes the map grow, it gives 10.\<close>

theorem append_order_reversed:
  "let m2 = hashmap_append (hashmap_append (hashmap_init identity_hash_fn (=)) 1 10) 1 (11 :: nat);
       m4 = hashmap_append (hashmap_append m2 2 20) 3 30
   in hashmap_find m2 1 = Some 11 \<and> map snd (hashmap_key_entries m2 1) = [11, 10] \<and>
      hashmap_find m4 1 = Some 10 \<and> map snd (hashmap_key_entries m4 1) = [10, 11]"
  unfolding Let_def append_1 append_2 append_3 append_4 by (simp add: ex_app_def hashmap_find_def hashmap_key_entries_def hashmap_find_entry_def hash_bits_2 hash_bits_3 identity_hash_fn_def)

end
