(* ===== verification/Strset.thy ===== *)
theory Strset
  imports Hashmap
begin

text \<open>
  The string set of libbpf, \<open>src/libbpf/src/strset.c\<close>, the string section BTF and the linker build: one
  buffer of zero-terminated strings and a hash map from offsets to offsets, whose callbacks compare
  the strings the offsets point at. To look a string up it is first copied behind the used part of
  the buffer, where an offset can name it. \<open>libbpf_add_mem\<close> of \<open>btf.c\<close> grows the buffer.
\<close>

section \<open>Growing a buffer\<close>

text \<open>
  The buffer is the list of its allocated elements (\<open>cap_cnt\<close> is its length, new elements are
  zeroed); the result is the buffer with room for \<open>add_cnt\<close> elements behind the first \<open>cur_cnt\<close>, or
  \<open>None\<close>.
\<close>

definition libbpf_add_mem :: "bool \<Rightarrow> 'a \<Rightarrow> 'a list \<Rightarrow> nat \<Rightarrow> nat \<Rightarrow> nat \<Rightarrow> 'a list option" where
  "libbpf_add_mem ok z data cur_cnt max_cnt add_cnt =
     (if cur_cnt + add_cnt \<le> length data then Some data
      else if cur_cnt + add_cnt > max_cnt then None
      else
        let new_cnt = length data;
            new_cnt = new_cnt + new_cnt div 4;
            new_cnt = (if new_cnt < 16 then 16 else new_cnt);
            new_cnt = (if new_cnt > max_cnt then max_cnt else new_cnt);
            new_cnt = (if new_cnt < cur_cnt + add_cnt then cur_cnt + add_cnt else new_cnt)
        in if \<not> ok then None else Some (data @ replicate (new_cnt - length data) z))"

definition libbpf_ensure_mem :: "bool \<Rightarrow> 'a \<Rightarrow> 'a list \<Rightarrow> nat \<Rightarrow> 'a list \<times> int" where
  "libbpf_ensure_mem ok z data need_cnt =
     (if need_cnt \<le> length data then (data, 0)
      else case libbpf_add_mem ok z data (length data) (2 ^ 64 - 1) (need_cnt - length data) of
        None \<Rightarrow> (data, - ENOMEM)
      | Some d \<Rightarrow> (d, 0))"

lemma libbpf_add_mem_Some:
  assumes "libbpf_add_mem ok z data cur mx add = Some d"
  obtains n where "d = data @ replicate n z" "cur + add \<le> length d" "length data < length d \<Longrightarrow> length d \<le> max mx (length data)"
proof (cases "cur + add \<le> length data")
  case True
  with assms that [of 0] show thesis by (simp add: libbpf_add_mem_def)
next
  case False
  from assms False that show thesis
    by (auto simp: libbpf_add_mem_def Let_def split: if_splits)
qed

lemma libbpf_add_mem_None:
  "libbpf_add_mem ok z data cur mx add = None \<longleftrightarrow> length data < cur + add \<and> (mx < cur + add \<or> \<not> ok)"
  by (auto simp: libbpf_add_mem_def Let_def)

section \<open>Strings in the buffer\<close>

definition c_str :: "u8 list \<Rightarrow> nat \<Rightarrow> u8 list" where
  "c_str data off = takeWhile (\<lambda>c. c \<noteq> 0) (drop off data)"

definition strset_hash_fn :: "u8 list \<Rightarrow> nat \<Rightarrow> u64" where
  "strset_hash_fn data key = str_hash (c_str data key)"

definition strset_equal_fn :: "u8 list \<Rightarrow> nat \<Rightarrow> nat \<Rightarrow> bool" where
  "strset_equal_fn data key1 key2 \<longleftrightarrow> c_str data key1 = c_str data key2"

interpretation strs: hash_keys "strset_hash_fn data" "strset_equal_fn data"
  by unfold_locales (simp_all add: strset_equal_fn_def strset_hash_fn_def)

text \<open>A terminated string ends inside the first \<open>len\<close> bytes.\<close>

definition terminated :: "u8 list \<Rightarrow> nat \<Rightarrow> nat \<Rightarrow> bool" where
  "terminated data len off \<longleftrightarrow> off + length (c_str data off) < len \<and> len \<le> length data"

lemma takeWhile_cong_prefix:
  assumes "length (takeWhile P xs) < length xs" "take n xs = take n ys" "length (takeWhile P xs) < n"
  shows "takeWhile P ys = takeWhile P xs"
  using assms
proof (induction xs arbitrary: ys n)
  case (Cons x xs)
  from Cons.prems(2,3) obtain n' y ys' where n: "n = Suc n'" and y: "ys = y # ys'"
    by (cases n; cases ys) auto
  from Cons.prems(2) have xy: "y = x" "take n' xs = take n' ys'" by (simp_all add: n y)
  show ?case
  proof (cases "P x")
    case True
    have "takeWhile P ys' = takeWhile P xs"
      by (rule Cons.IH [OF _ xy(2)]) (use Cons.prems(1,3) True in \<open>simp_all add: n\<close>)
    with True show ?thesis by (simp add: y xy(1))
  qed (simp add: y xy(1))
qed simp

text \<open>The string at an offset depends on the bytes up to its terminator only.\<close>

lemma c_str_cong:
  assumes "terminated data len off" "take len data' = take len data"
  shows "c_str data' off = c_str data off"
  unfolding c_str_def
proof (rule takeWhile_cong_prefix [where n = "len - off"])
  show "length (takeWhile (\<lambda>c. c \<noteq> 0) (drop off data)) < length (drop off data)"
    "length (takeWhile (\<lambda>c. c \<noteq> 0) (drop off data)) < len - off"
    using assms(1) unfolding terminated_def c_str_def length_drop by linarith+
  show "take (len - off) (drop off data) = take (len - off) (drop off data')"
    using assms(2) by (simp add: take_drop [symmetric] drop_take [symmetric])
qed

lemma terminated_cong:
  assumes "terminated data len off" "take len data' = take len data" "len \<le> len'" "len' \<le> length data'"
  shows "terminated data' len' off"
  using assms c_str_cong [OF assms(1,2)] by (simp add: terminated_def)

section \<open>The set\<close>

record strset =
  strs_data :: "u8 list"
  strs_data_len :: nat
  strs_data_max_len :: nat
  strs_hash :: "(nat, nat) hashmap"

text \<open>The map's callbacks read the buffer at the time of the call.\<close>

definition strset_map :: "strset \<Rightarrow> (nat, nat) hashmap" where
  "strset_map ss = (strs_hash ss)\<lparr>hash_fn := strset_hash_fn (strs_data ss),
     equal_fn := strset_equal_fn (strs_data ss)\<rparr>"

definition copy_str :: "u8 list \<Rightarrow> nat \<Rightarrow> u8 list \<Rightarrow> u8 list" where
  "copy_str data off s = take off data @ s @ [0] @ drop (off + length s + 1) data"

definition strset_find_str :: "bool \<Rightarrow> strset \<Rightarrow> u8 list \<Rightarrow> strset \<times> int" where
  "strset_find_str ok ss s =
     (let len = length s + 1 in
      case libbpf_add_mem ok 0 (strs_data ss) (strs_data_len ss) (strs_data_max_len ss) len of
        None \<Rightarrow> (ss, - ENOMEM)
      | Some data \<Rightarrow>
          (let new_off = strs_data_len ss;
               ss = ss\<lparr>strs_data := copy_str data new_off s\<rparr>
           in case hashmap_find (strset_map ss) new_off of
                Some old_off \<Rightarrow> (ss, int old_off)
              | None \<Rightarrow> (ss, - ENOENT)))"

text \<open>
  Offsets are \<open>long\<close> in the code and returned as \<open>int\<close>. They are below \<open>strs_data_max_len\<close>, which is at most
  \<open>BTF_MAX_STR_OFFSET\<close>, the largest \<open>int\<close>, so that nothing is cut off.
\<close>

definition strset_add_str :: "alloc \<Rightarrow> bool \<Rightarrow> strset \<Rightarrow> u8 list \<Rightarrow> strset \<times> int" where
  "strset_add_str al ok ss s =
     (let len = length s + 1 in
      case libbpf_add_mem ok 0 (strs_data ss) (strs_data_len ss) (strs_data_max_len ss) len of
        None \<Rightarrow> (ss, - ENOMEM)
      | Some data \<Rightarrow>
          (let new_off = strs_data_len ss;
               ss = ss\<lparr>strs_data := copy_str data new_off s\<rparr>
           in case hashmap_insert al (strset_map ss) new_off new_off HASHMAP_ADD of
                (m, err, old) \<Rightarrow>
                  let ss = ss\<lparr>strs_hash := m\<rparr> in
                  if err = - EEXIST then (ss, case old of Some (k, _) \<Rightarrow> int k | None \<Rightarrow> 0)
                  else if err \<noteq> 0 then (ss, err)
                  else (ss\<lparr>strs_data_len := strs_data_len ss + len\<rparr>, int new_off)))"

text \<open>The loop of \<open>strset__new\<close> over the initial data; \<open>al off\<close> is the fate of the allocations there.\<close>

function strset_index :: "(nat \<Rightarrow> alloc) \<Rightarrow> strset \<Rightarrow> nat \<Rightarrow> strset \<times> int" where
  "strset_index al ss off =
     (if off < strs_data_len ss then
        (case hashmap_insert (al off) (strset_map ss) off off HASHMAP_ADD of
           (m, err, _) \<Rightarrow>
             if err \<noteq> 0 \<and> err \<noteq> - EEXIST then (ss\<lparr>strs_hash := m\<rparr>, err)
             else strset_index al (ss\<lparr>strs_hash := m\<rparr>) (off + length (c_str (strs_data ss) off) + 1))
      else (ss, 0))"
  by pat_completeness auto
termination
  by (relation "measure (\<lambda>(al, ss, off). strs_data_len ss - off)") auto

declare strset_index.simps [simp del]

text \<open>\<open>init_data\<close> is \<open>None\<close> for a null pointer; the flags are the fates of the three allocations.\<close>

definition strset_new ::
  "bool \<Rightarrow> bool \<Rightarrow> bool \<Rightarrow> (nat \<Rightarrow> alloc) \<Rightarrow> nat \<Rightarrow> u8 list option \<Rightarrow> int + strset" where
  "strset_new set_ok map_ok data_ok al max_data_sz init_data =
     (if \<not> set_ok then Inl (- ENOMEM)
      else if \<not> map_ok then Inl (- ENOMEM)
      else
        let ss = \<lparr>strs_data = [], strs_data_len = 0, strs_data_max_len = max_data_sz,
              strs_hash = hashmap_init (strset_hash_fn []) (strset_equal_fn [])\<rparr>
        in case init_data of
             None \<Rightarrow> Inr ss
           | Some d \<Rightarrow>
               if \<not> data_ok then Inl (- ENOMEM)
               else case strset_index al (ss\<lparr>strs_data := d, strs_data_len := length d\<rparr>) 0 of
                      (ss, err) \<Rightarrow> if err \<noteq> 0 then Inl err else Inr ss)"

section \<open>The invariant and the abstract set\<close>

definition strset_ok :: "strset \<Rightarrow> bool" where
  "strset_ok ss \<longleftrightarrow>
     strs_data_len ss \<le> length (strs_data ss) \<and>
     keyed (strset_hash_fn (strs_data ss)) (strset_equal_fn (strs_data ss)) (strset_map ss) \<and>
     (\<forall>e\<in>set (hashmap_entries (strs_hash ss)). snd e = fst e \<and>
        terminated (strs_data ss) (strs_data_len ss) (fst e))"

text \<open>The strings of the set with their offsets.\<close>

definition strset_offsets :: "strset \<Rightarrow> (u8 list \<times> nat) set" where
  "strset_offsets ss = (\<lambda>e. (c_str (strs_data ss) (fst e), fst e)) ` set (hashmap_entries (strs_hash ss))"

lemma entries_strset_map [simp]: "hashmap_entries (strset_map ss) = hashmap_entries (strs_hash ss)"
  by (simp add: hashmap_entries_def strset_map_def)

lemma strset_map_fns [simp]:
  "hash_fn (strset_map ss) = strset_hash_fn (strs_data ss)"
  "equal_fn (strset_map ss) = strset_equal_fn (strs_data ss)"
  by (simp_all add: strset_map_def)

lemma copy_str_props:
  assumes "off + length s + 1 \<le> length data" "0 \<notin> set s"
  shows "length (copy_str data off s) = length data" "take off (copy_str data off s) = take off data"
    "c_str (copy_str data off s) off = s" "terminated (copy_str data off s) (off + length s + 1) off"
proof -
  have off: "off \<le> length data" using assms(1) by simp
  show l: "length (copy_str data off s) = length data" using assms(1) by (simp add: copy_str_def)
  show "take off (copy_str data off s) = take off data" using off by (simp add: copy_str_def)
  have "drop off (copy_str data off s) = s @ [0] @ drop (off + length s + 1) data"
    using off by (simp add: copy_str_def)
  then show c: "c_str (copy_str data off s) off = s"
    using assms(2) by (simp add: c_str_def takeWhile_append)
  show "terminated (copy_str data off s) (off + length s + 1) off"
    using assms(1) by (simp add: terminated_def c l)
qed

text \<open>Any change of the buffer behind the used part keeps the set.\<close>

lemma strset_ok_data:
  assumes "strset_ok ss" "take (strs_data_len ss) data = take (strs_data_len ss) (strs_data ss)"
    and "strs_data_len ss \<le> length data"
  shows "strset_ok (ss\<lparr>strs_data := data\<rparr>)" "strset_offsets (ss\<lparr>strs_data := data\<rparr>) = strset_offsets ss"
proof -
  have t: "terminated (strs_data ss) (strs_data_len ss) (fst e)" if "e \<in> set (hashmap_entries (strs_hash ss))" for e
    using that assms(1) by (simp add: strset_ok_def)
  have c: "c_str data (fst e) = c_str (strs_data ss) (fst e)" if "e \<in> set (hashmap_entries (strs_hash ss))" for e
    by (rule c_str_cong [OF t [OF that] assms(2)])
  have t': "terminated data (strs_data_len ss) (fst e)" if "e \<in> set (hashmap_entries (strs_hash ss))" for e
    by (rule terminated_cong [OF t [OF that] assms(2) order_refl assms(3)])
  have k: "keyed (strset_hash_fn (strs_data ss)) (strset_equal_fn (strs_data ss)) (strset_map ss)"
    using assms(1) by (simp add: strset_ok_def)
  have "keyed (strset_hash_fn data) (strset_equal_fn data)
      ((strset_map ss)\<lparr>hash_fn := strset_hash_fn data, equal_fn := strset_equal_fn data\<rparr>)"
    by (rule keyed_cong [OF k]) (simp_all add: c strset_hash_fn_def strset_equal_fn_def)
  then have "keyed (strset_hash_fn data) (strset_equal_fn data) (strset_map (ss\<lparr>strs_data := data\<rparr>))"
    by (simp add: strset_map_def)
  then show "strset_ok (ss\<lparr>strs_data := data\<rparr>)"
    using assms(1,3) t' by (simp add: strset_ok_def)
  show "strset_offsets (ss\<lparr>strs_data := data\<rparr>) = strset_offsets ss"
    by (auto simp: strset_offsets_def c intro!: image_cong)
qed

text \<open>A string behind the used part is found exactly when the set has it.\<close>

lemma strset_find_iff:
  assumes "strset_ok ss" "c_str (strs_data ss) off = s"
  shows "hashmap_find (strset_map ss) off = Some v \<longleftrightarrow> (s, v) \<in> strset_offsets ss"
proof -
  have k: "keyed (strset_hash_fn (strs_data ss)) (strset_equal_fn (strs_data ss)) (strset_map ss)"
    and same: "\<And>e. e \<in> set (hashmap_entries (strs_hash ss)) \<Longrightarrow> snd e = fst e"
    using assms(1) by (simp_all add: strset_ok_def)
  have "hashmap_find (strset_map ss) off = Some v \<longleftrightarrow>
      (\<exists>k'. (k', v) \<in> set (hashmap_entries (strs_hash ss)) \<and> c_str (strs_data ss) k' = s)"
    using strs.find_iff [OF k] assms(2) by (simp add: strset_equal_fn_def)
  also have "\<dots> \<longleftrightarrow> (s, v) \<in> strset_offsets ss"
  proof
    assume "\<exists>k'. (k', v) \<in> set (hashmap_entries (strs_hash ss)) \<and> c_str (strs_data ss) k' = s"
    then obtain k' where k': "(k', v) \<in> set (hashmap_entries (strs_hash ss))" "c_str (strs_data ss) k' = s"
      by blast
    with same [OF k'(1)] show "(s, v) \<in> strset_offsets ss" by (force simp: strset_offsets_def)
  next
    assume "(s, v) \<in> strset_offsets ss"
    then obtain e where e: "e \<in> set (hashmap_entries (strs_hash ss))" "c_str (strs_data ss) (fst e) = s" "fst e = v"
      by (auto simp: strset_offsets_def)
    moreover have "e = (v, v)" using same [OF e(1)] e(3) by (simp add: prod_eq_iff)
    ultimately show "\<exists>k'. (k', v) \<in> set (hashmap_entries (strs_hash ss)) \<and> c_str (strs_data ss) k' = s" by auto
  qed
  finally show ?thesis .
qed

lemma strset_offsets_unique:
  assumes "strset_ok ss" "(s, i) \<in> strset_offsets ss" "(s, j) \<in> strset_offsets ss" shows "i = j"
proof -
  have c: "c_str (strs_data ss) i = s" using assms(2) by (auto simp: strset_offsets_def)
  from assms(2,3) strset_find_iff [OF assms(1) c] show ?thesis by (metis option.inject)
qed

text \<open>Room for a new string: the buffer after \<open>libbpf_add_mem\<close> and the copy.\<close>

lemma strset_room:
  assumes "strset_ok ss" "0 \<notin> set s"
    and m: "libbpf_add_mem ok 0 (strs_data ss) (strs_data_len ss) mx (length s + 1) = Some data"
    and ss1: "ss1 = ss\<lparr>strs_data := copy_str data (strs_data_len ss) s\<rparr>"
  shows "strset_ok ss1" "strset_offsets ss1 = strset_offsets ss"
    "c_str (strs_data ss1) (strs_data_len ss) = s"
    "terminated (strs_data ss1) (strs_data_len ss + length s + 1) (strs_data_len ss)"
    "strs_data_len ss + length s + 1 \<le> length (strs_data ss1)"
proof -
  obtain n where d: "data = strs_data ss @ replicate n 0" and l: "strs_data_len ss + (length s + 1) \<le> length data"
    using libbpf_add_mem_Some [OF m] by blast
  have len: "strs_data_len ss \<le> length (strs_data ss)" using assms(1) by (simp add: strset_ok_def)
  have l': "strs_data_len ss + length s + 1 \<le> length data" using l by simp
  note c = copy_str_props [OF l' assms(2)]
  have "take (strs_data_len ss) (strs_data ss1) = take (strs_data_len ss) (strs_data ss)"
    using c(2) len by (simp add: ss1 d)
  moreover have "strs_data_len ss \<le> length (strs_data ss1)" using c(1) l by (simp add: ss1)
  ultimately show "strset_ok ss1" "strset_offsets ss1 = strset_offsets ss"
    using strset_ok_data [OF assms(1), of "strs_data ss1"] by (simp_all add: ss1)
  show "c_str (strs_data ss1) (strs_data_len ss) = s"
    "terminated (strs_data ss1) (strs_data_len ss + length s + 1) (strs_data_len ss)"
    "strs_data_len ss + length s + 1 \<le> length (strs_data ss1)"
    using c l' by (simp_all add: ss1)
qed

section \<open>The operations on the abstract set\<close>

lemma find_str_spec:
  assumes "strset_ok ss" "0 \<notin> set s" "strset_find_str ok ss s = (ss', r)"
  shows "strset_ok ss' \<and> strset_offsets ss' = strset_offsets ss \<and> strs_data_len ss' = strs_data_len ss \<and>
     ((\<exists>k. r = int k \<and> (s, k) \<in> strset_offsets ss) \<or>
      r = - ENOENT \<and> (\<forall>k. (s, k) \<notin> strset_offsets ss) \<or> r = - ENOMEM \<and> ss' = ss)"
proof (cases "libbpf_add_mem ok 0 (strs_data ss) (strs_data_len ss) (strs_data_max_len ss) (length s + 1)")
  case None
  with assms show ?thesis by (simp add: strset_find_str_def)
next
  case (Some data)
  define ss1 where "ss1 = ss\<lparr>strs_data := copy_str data (strs_data_len ss) s\<rparr>"
  note room = strset_room [OF assms(1,2) Some ss1_def]
  have r: "(ss', r) = (case hashmap_find (strset_map ss1) (strs_data_len ss) of
      Some k \<Rightarrow> (ss1, int k) | None \<Rightarrow> (ss1, - ENOENT))"
    using assms(3) unfolding strset_find_str_def Let_def Some option.case ss1_def [symmetric] by (rule sym)
  note iff = strset_find_iff [OF room(1,3), unfolded room(2)]
  have len: "strs_data_len ss1 = strs_data_len ss" by (simp add: ss1_def)
  show ?thesis
  proof (cases "hashmap_find (strset_map ss1) (strs_data_len ss)")
    case None
    then have "(s, k) \<notin> strset_offsets ss" for k using iff [of k] by simp
    with None r room(1,2) len show ?thesis by simp
  next
    case (Some k)
    with iff [of k] r room(1,2) len show ?thesis by auto
  qed
qed

lemma add_str_spec:
  assumes ok: "strset_ok ss" and s0: "0 \<notin> set s" and r: "strset_add_str al ok' ss s = (ss', r)"
  shows "strset_ok ss' \<and>
     ((\<exists>k. r = int k \<and> (s, k) \<in> strset_offsets ss \<and> strset_offsets ss' = strset_offsets ss \<and>
        strs_data_len ss' = strs_data_len ss) \<or>
      r = int (strs_data_len ss) \<and> (\<forall>k. (s, k) \<notin> strset_offsets ss) \<and>
        strset_offsets ss' = insert (s, strs_data_len ss) (strset_offsets ss) \<and>
        strs_data_len ss' = strs_data_len ss + length s + 1 \<or>
      r = - ENOMEM \<and> strset_offsets ss' = strset_offsets ss \<and> strs_data_len ss' = strs_data_len ss)"
proof (cases "libbpf_add_mem ok' 0 (strs_data ss) (strs_data_len ss) (strs_data_max_len ss) (length s + 1)")
  case None
  with ok r show ?thesis by (simp add: strset_add_str_def)
next
  case (Some data)
  define ss1 where "ss1 = ss\<lparr>strs_data := copy_str data (strs_data_len ss) s\<rparr>"
  let ?n = "strs_data_len ss"
  note room = strset_room [OF ok s0 Some ss1_def]
  obtain m err old where ins: "hashmap_insert al (strset_map ss1) ?n ?n HASHMAP_ADD = (m, err, old)"
    by (cases "hashmap_insert al (strset_map ss1) ?n ?n HASHMAP_ADD") auto
  have k: "keyed (strset_hash_fn (strs_data ss1)) (strset_equal_fn (strs_data ss1)) (strset_map ss1)"
    and same: "\<And>e. e \<in> set (hashmap_entries (strs_hash ss1)) \<Longrightarrow>
      snd e = fst e \<and> terminated (strs_data ss1) ?n (fst e)"
    using room(1) by (simp_all add: strset_ok_def ss1_def)
  have res: "(ss', r) = (if err = - EEXIST then (ss1\<lparr>strs_hash := m\<rparr>, case old of Some (k, _) \<Rightarrow> int k | None \<Rightarrow> 0)
      else if err \<noteq> 0 then (ss1\<lparr>strs_hash := m\<rparr>, err)
      else (ss1\<lparr>strs_hash := m, strs_data_len := ?n + (length s + 1)\<rparr>, int ?n))"
  proof -
    have n: "strs_data_len (ss1\<lparr>strs_hash := m\<rparr>) = ?n" by (simp add: ss1_def)
    show ?thesis
      using r unfolding strset_add_str_def Let_def Some option.case ss1_def [symmetric] ins prod.case n by (rule sym)
  qed
  note iff = strset_find_iff [OF room(1,3), unfolded room(2)]
  show ?thesis
  proof (cases "hashmap_find (strset_map ss1) ?n")
    case (Some u)
    obtain e where e: "m = strset_map ss1" "err = - EEXIST" "old = Some e"
      "e \<in> set (hashmap_entries (strset_map ss1))" "strset_equal_fn (strs_data ss1) (fst e) ?n"
      using strs.insert_exists [OF k Some ins] .
    have "(s, fst e) \<in> strset_offsets ss1"
      using e(4,5) room(3) by (force simp: strset_offsets_def strset_equal_fn_def)
    moreover have "strset_ok (ss1\<lparr>strs_hash := strset_map ss1\<rparr>)"
      "strset_offsets (ss1\<lparr>strs_hash := strset_map ss1\<rparr>) = strset_offsets ss1"
      using room(1) by (simp_all add: strset_ok_def strset_offsets_def) (simp add: strset_map_def)
    ultimately show ?thesis using res e room(2) by (cases e) (simp add: ss1_def)
  next
    case None
    have absent: "\<forall>j. (s, j) \<notin> strset_offsets ss" using iff None by simp
    have hm: "strset_map (ss1\<lparr>strs_hash := m\<rparr>) = m" and hm': "strset_map (ss1\<lparr>strs_hash := m, strs_data_len := x\<rparr>) = m" for x
      using strs.insert_absent [OF k None _ ins] by (simp_all add: strset_map_def keyed_def)
    from strs.insert_absent [OF k None _ ins]
    consider (new) "err = 0" "keyed (strset_hash_fn (strs_data ss1)) (strset_equal_fn (strs_data ss1)) m"
        "mset (hashmap_entries m) = add_mset (?n, ?n) (mset (hashmap_entries (strs_hash ss1)))"
      | (oom) "err = - ENOMEM" "keyed (strset_hash_fn (strs_data ss1)) (strset_equal_fn (strs_data ss1)) m"
        "mset (hashmap_entries m) = mset (hashmap_entries (strs_hash ss1))"
      by auto
    then show ?thesis
    proof cases
      case new
      have es: "set (hashmap_entries m) = insert (?n, ?n) (set (hashmap_entries (strs_hash ss1)))"
        using new(3) by (metis set_mset_add_mset_insert set_mset_mset)
      have ss': "ss' = ss1\<lparr>strs_hash := m, strs_data_len := ?n + (length s + 1)\<rparr>" "r = int ?n"
        using res new(1) by (simp_all add: errno_defs)
      have t: "terminated (strs_data ss1) (?n + length s + 1) (fst e)" if "e \<in> set (hashmap_entries m)" for e
      proof (cases "e = (?n, ?n)")
        case True
        with room(4) show ?thesis by simp
      next
        case False
        with that es same have "terminated (strs_data ss1) ?n (fst e)" by auto
        with room(5) show ?thesis by (simp add: terminated_def)
      qed
      have "strset_ok ss'"
        unfolding strset_ok_def
        using new(2) es same room(5) t by (auto simp: ss' hm')
      moreover have "strset_offsets ss' = insert (s, ?n) (strset_offsets ss)"
        using room(2,3) by (simp add: strset_offsets_def ss' es)
      ultimately show ?thesis using absent ss' by simp
    next
      case oom
      have es: "set (hashmap_entries m) = set (hashmap_entries (strs_hash ss1))"
        using oom(3) by (metis set_mset_mset)
      have ss': "ss' = ss1\<lparr>strs_hash := m\<rparr>" "r = - ENOMEM"
        using res oom(1) by (simp_all add: errno_defs)
      have "strset_ok ss'"
        using room(1) oom(2) es by (simp add: strset_ok_def ss' hm)
      moreover have "strset_offsets ss' = strset_offsets ss"
        using room(2) by (simp add: strset_offsets_def ss' es)
      ultimately show ?thesis using ss' by (simp add: ss1_def)
    qed
  qed
qed

lemma strset_empty_ok:
  "strset_ok \<lparr>strs_data = [], strs_data_len = 0, strs_data_max_len = n,
     strs_hash = hashmap_init (strset_hash_fn []) (strset_equal_fn [])\<rparr>" (is "strset_ok ?s")
proof -
  have "strset_map ?s = hashmap_init (strset_hash_fn []) (strset_equal_fn [])"
    by (simp add: strset_map_def hashmap_init_def)
  moreover have "hashmap_entries (hashmap_init (strset_hash_fn []) (strset_equal_fn [])) = ([] :: (nat \<times> nat) list)"
    by (simp add: hashmap_entries_def hashmap_init_def)
  ultimately show ?thesis using hashmap_init_keyed by (simp add: strset_ok_def)
qed

section \<open>The used part of the buffer\<close>

lemma offsets_str:
  assumes "strset_ok ss" "(s, k) \<in> strset_offsets ss"
  shows "c_str (strs_data ss) k = s" "terminated (strs_data ss) (strs_data_len ss) k"
  using assms by (auto simp: strset_ok_def strset_offsets_def)

lemma take_copy_str:
  assumes "off + length s + 1 \<le> length data"
  shows "take (off + length s + 1) (copy_str data off s) = take off data @ s @ [0]"
  using assms by (simp add: copy_str_def min_def)

lemma find_str_data:
  assumes "strset_find_str ok ss s = (ss', r)" "strs_data_len ss \<le> length (strs_data ss)"
  shows "strs_data_max_len ss' = strs_data_max_len ss"
    "length (strs_data ss') \<le> max (strs_data_max_len ss) (length (strs_data ss))"
    "take (strs_data_len ss) (strs_data ss') = take (strs_data_len ss) (strs_data ss)"
proof -
  have "strs_data_max_len ss' = strs_data_max_len ss \<and>
      length (strs_data ss') \<le> max (strs_data_max_len ss) (length (strs_data ss)) \<and>
      take (strs_data_len ss) (strs_data ss') = take (strs_data_len ss) (strs_data ss)"
  proof (cases "libbpf_add_mem ok 0 (strs_data ss) (strs_data_len ss) (strs_data_max_len ss) (length s + 1)")
    case (Some d)
    obtain n where d: "d = strs_data ss @ replicate n 0" "strs_data_len ss + (length s + 1) \<le> length d"
      "length (strs_data ss) < length d \<Longrightarrow> length d \<le> max (strs_data_max_len ss) (length (strs_data ss))"
      using libbpf_add_mem_Some [OF Some] by metis
    have "ss' = ss\<lparr>strs_data := copy_str d (strs_data_len ss) s\<rparr>"
      using assms(1) Some by (auto simp: strset_find_str_def Let_def split: option.splits)
    moreover have "length (copy_str d (strs_data_len ss) s) = length d"
      using d(2) by (simp add: copy_str_def)
    moreover have "length d \<le> max (strs_data_max_len ss) (length (strs_data ss))"
      using d(1,3) by (cases "n = 0") simp_all
    ultimately show ?thesis using d(1) assms(2) by (simp add: copy_str_def)
  qed (use assms(1) in \<open>simp add: strset_find_str_def\<close>)
  then show "strs_data_max_len ss' = strs_data_max_len ss"
    "length (strs_data ss') \<le> max (strs_data_max_len ss) (length (strs_data ss))"
    "take (strs_data_len ss) (strs_data ss') = take (strs_data_len ss) (strs_data ss)" by simp_all
qed

lemma add_str_data:
  assumes "strset_add_str al ok ss s = (ss', r)" "strs_data_len ss \<le> length (strs_data ss)"
  shows "strs_data_max_len ss' = strs_data_max_len ss"
    "length (strs_data ss') \<le> max (strs_data_max_len ss) (length (strs_data ss))"
    "take (strs_data_len ss) (strs_data ss') = take (strs_data_len ss) (strs_data ss)"
    "strs_data_len ss' = strs_data_len ss + length s + 1 \<Longrightarrow>
       take (strs_data_len ss') (strs_data ss') = take (strs_data_len ss) (strs_data ss) @ s @ [0]"
proof -
  have "strs_data_max_len ss' = strs_data_max_len ss \<and>
      length (strs_data ss') \<le> max (strs_data_max_len ss) (length (strs_data ss)) \<and>
      take (strs_data_len ss) (strs_data ss') = take (strs_data_len ss) (strs_data ss) \<and>
      (strs_data_len ss' = strs_data_len ss + length s + 1 \<longrightarrow>
       take (strs_data_len ss') (strs_data ss') = take (strs_data_len ss) (strs_data ss) @ s @ [0])"
  proof (cases "libbpf_add_mem ok 0 (strs_data ss) (strs_data_len ss) (strs_data_max_len ss) (length s + 1)")
    case (Some d)
    obtain n where d: "d = strs_data ss @ replicate n 0" "strs_data_len ss + (length s + 1) \<le> length d"
      "length (strs_data ss) < length d \<Longrightarrow> length d \<le> max (strs_data_max_len ss) (length (strs_data ss))"
      using libbpf_add_mem_Some [OF Some] by metis
    have f: "strs_data ss' = copy_str d (strs_data_len ss) s" "strs_data_max_len ss' = strs_data_max_len ss"
      using assms(1) Some by (auto simp: strset_add_str_def Let_def split: prod.splits if_splits)
    moreover have "length (copy_str d (strs_data_len ss) s) = length d"
      using d(2) by (simp add: copy_str_def)
    moreover have "length d \<le> max (strs_data_max_len ss) (length (strs_data ss))"
      using d(1,3) by (cases "n = 0") simp_all
    moreover have "take (strs_data_len ss) (copy_str d (strs_data_len ss) s) = take (strs_data_len ss) (strs_data ss)"
      using d(1) assms(2) by (simp add: copy_str_def)
    moreover have "take (strs_data_len ss + length s + 1) (copy_str d (strs_data_len ss) s) =
        take (strs_data_len ss) (strs_data ss) @ s @ [0]"
      using take_copy_str [of "strs_data_len ss" s d] d(1,2) assms(2) by simp
    ultimately show ?thesis by simp
  qed (use assms(1) in \<open>simp add: strset_add_str_def\<close>)
  then show "strs_data_max_len ss' = strs_data_max_len ss"
    "length (strs_data ss') \<le> max (strs_data_max_len ss) (length (strs_data ss))"
    "take (strs_data_len ss) (strs_data ss') = take (strs_data_len ss) (strs_data ss)"
    "strs_data_len ss' = strs_data_len ss + length s + 1 \<Longrightarrow>
       take (strs_data_len ss') (strs_data ss') = take (strs_data_len ss) (strs_data ss) @ s @ [0]" by simp_all
qed

section \<open>What the operations need to succeed\<close>

text \<open>The entries of the map are offsets below the length of the data.\<close>

lemma strset_size:
  assumes "strset_ok ss" shows "sz (strset_map ss) \<le> strs_data_len ss"
proof -
  let ?es = "hashmap_entries (strs_hash ss)"
  have k: "keyed (strset_hash_fn (strs_data ss)) (strset_equal_fn (strs_data ss)) (strset_map ss)"
    and e: "\<And>e. e \<in> set ?es \<Longrightarrow> snd e = fst e \<and> fst e < strs_data_len ss"
    using assms by (auto simp: strset_ok_def terminated_def)
  have "sz (strset_map ss) = length ?es" using k by (simp add: keyed_def hashmap_ok_def)
  also have "\<dots> = card (set ?es)" using strs.entries_distinct [OF k] by (simp add: distinct_card)
  also have "\<dots> \<le> card ((\<lambda>k. (k, k)) ` {..<strs_data_len ss})"
  proof (rule card_mono)
    show "set ?es \<subseteq> (\<lambda>k. (k, k)) ` {..<strs_data_len ss}"
    proof
      fix x assume "x \<in> set ?es"
      with e [OF this] show "x \<in> (\<lambda>k. (k, k)) ` {..<strs_data_len ss}"
        by (intro image_eqI [where x = "fst x"]) (simp_all add: prod_eq_iff)
    qed
  qed simp
  also have "\<dots> \<le> strs_data_len ss" using card_image_le [of "{..<strs_data_len ss}" "\<lambda>k. (k, k)"] by simp
  finally show ?thesis .
qed

text \<open>What the set needs to take a string.\<close>

definition str_room :: "bool \<Rightarrow> strset \<Rightarrow> u8 list \<Rightarrow> bool" where
  "str_room ok ss s \<longleftrightarrow> ok \<and> strs_data_len ss + length s + 1 \<le> strs_data_max_len ss"

lemma find_str_fails:
  assumes "strset_find_str ok ss s = (ss', r)" "r < 0" "str_room ok ss s" shows "r = - ENOENT"
  using assms
  by (auto simp: strset_find_str_def str_room_def libbpf_add_mem_None Let_def split: option.splits)

lemma add_str_fails:
  assumes ok: "strset_ok ss" "0 \<notin> set s" and r: "strset_add_str al ok' ss s = (ss', r)" "r < 0"
    and room: "str_room ok' ss s" and al: "calloc_ok al" "malloc_ok al"
  shows "2 ^ 59 \<le> strs_data_len ss"
proof -
  obtain data where m: "libbpf_add_mem ok' 0 (strs_data ss) (strs_data_len ss) (strs_data_max_len ss) (length s + 1) = Some data"
    using room by (cases "libbpf_add_mem ok' 0 (strs_data ss) (strs_data_len ss) (strs_data_max_len ss) (length s + 1)")
      (auto simp: str_room_def libbpf_add_mem_None)
  define ss1 where "ss1 = ss\<lparr>strs_data := copy_str data (strs_data_len ss) s\<rparr>"
  let ?n = "strs_data_len ss"
  note rm = strset_room [OF ok m ss1_def]
  have k: "keyed (strset_hash_fn (strs_data ss1)) (strset_equal_fn (strs_data ss1)) (strset_map ss1)"
    using rm(1) by (simp add: strset_ok_def)
  obtain m' err old where ins: "hashmap_insert al (strset_map ss1) ?n ?n HASHMAP_ADD = (m', err, old)"
    by (cases "hashmap_insert al (strset_map ss1) ?n ?n HASHMAP_ADD") auto
  have e: "err \<noteq> 0" "err \<noteq> - EEXIST"
    using r m ins by (auto simp: strset_add_str_def Let_def ss1_def [symmetric] split: if_splits option.splits)
  have "hashmap_find (strset_map ss1) ?n = None"
  proof (cases "hashmap_find (strset_map ss1) ?n")
    case (Some u)
    with strs.insert_exists [OF k Some ins] e show ?thesis by blast
  qed
  from strs.insert_fails [OF k this _ ins e(1)] al have "2 ^ 59 \<le> sz (strset_map ss1)" by simp
  also have "\<dots> \<le> strs_data_len ss1" by (rule strset_size [OF rm(1)])
  finally show ?thesis by (simp add: ss1_def)
qed

section \<open>Building the index of initial data\<close>

lemma c_str_terminated:
  assumes "off < length d" "last d = 0" shows "terminated d (length d) off"
proof -
  have "0 \<in> set (drop off d)"
    using assms by (metis drop_eq_Nil last_drop last_in_set linorder_not_less)
  then have "length (takeWhile (\<lambda>c. c \<noteq> 0) (drop off d)) < length (drop off d)"
    by (metis (mono_tags, lifting) length_takeWhile_le order_le_imp_less_or_eq set_takeWhileD takeWhile_eq_all_conv
        takeWhile_eq_take take_all_iff le_refl)
  then show ?thesis using assms(1) by (simp add: terminated_def c_str_def)
qed

lemma c_str_nonzero:
  assumes "i < length (c_str d off)" "off \<le> length d" shows "d ! (off + i) \<noteq> 0"
proof -
  have "c_str d off ! i = drop off d ! i"
    using assms(1) unfolding c_str_def by (rule takeWhile_nth)
  moreover have "c_str d off ! i \<noteq> 0"
    using nth_mem [OF assms(1)] by (auto simp: c_str_def dest: set_takeWhileD)
  ultimately show ?thesis using assms(2) by simp
qed

text \<open>One round of the loop on an offset without an entry.\<close>

lemma index_round:
  assumes ok: "strset_ok ss" and t: "terminated (strs_data ss) (strs_data_len ss) off"
    and r: "hashmap_insert al (strset_map ss) off off HASHMAP_ADD = (m, err, old)"
    and e: "err = 0 \<or> err = - EEXIST"
  shows "strset_ok (ss\<lparr>strs_hash := m\<rparr>)" "strset_offsets ss \<subseteq> strset_offsets (ss\<lparr>strs_hash := m\<rparr>)"
    "\<exists>k. (c_str (strs_data ss) off, k) \<in> strset_offsets (ss\<lparr>strs_hash := m\<rparr>)"
proof -
  have k: "keyed (strset_hash_fn (strs_data ss)) (strset_equal_fn (strs_data ss)) (strset_map ss)"
    using ok by (simp add: strset_ok_def)
  note iff = strset_find_iff [OF ok refl, of off]
  have "strset_ok (ss\<lparr>strs_hash := m\<rparr>) \<and> strset_offsets ss \<subseteq> strset_offsets (ss\<lparr>strs_hash := m\<rparr>) \<and>
    (\<exists>k. (c_str (strs_data ss) off, k) \<in> strset_offsets (ss\<lparr>strs_hash := m\<rparr>))"
  proof (cases "hashmap_find (strset_map ss) off")
    case (Some u)
    have m: "m = strset_map ss" using strs.insert_exists [OF k Some r] by blast
    have "strset_ok (ss\<lparr>strs_hash := m\<rparr>)" "strset_offsets (ss\<lparr>strs_hash := m\<rparr>) = strset_offsets ss"
      using ok by (simp_all add: strset_ok_def strset_offsets_def m) (simp add: strset_map_def)
    then show ?thesis using iff [of u] Some by auto
  next
    case None
    have n: "keyed (strset_hash_fn (strs_data ss)) (strset_equal_fn (strs_data ss)) m"
      "mset (hashmap_entries m) = add_mset (off, off) (mset (hashmap_entries (strs_hash ss)))"
      using strs.insert_absent [OF k None _ r] e by (auto simp: errno_defs)
    have es: "set (hashmap_entries m) = insert (off, off) (set (hashmap_entries (strs_hash ss)))"
      using n(2) by (metis set_mset_add_mset_insert set_mset_mset)
    have "strset_map (ss\<lparr>strs_hash := m\<rparr>) = m" using n(1) by (simp add: strset_map_def keyed_def)
    then have "strset_ok (ss\<lparr>strs_hash := m\<rparr>)" using ok n(1) es t by (auto simp: strset_ok_def)
    moreover have "strset_offsets (ss\<lparr>strs_hash := m\<rparr>) =
        insert (c_str (strs_data ss) off, off) (strset_offsets ss)"
      by (simp add: strset_offsets_def es)
    ultimately show ?thesis by auto
  qed
  then show "strset_ok (ss\<lparr>strs_hash := m\<rparr>)" "strset_offsets ss \<subseteq> strset_offsets (ss\<lparr>strs_hash := m\<rparr>)"
    "\<exists>k. (c_str (strs_data ss) off, k) \<in> strset_offsets (ss\<lparr>strs_hash := m\<rparr>)" by blast+
qed

text \<open>The offsets at which a string of the data starts.\<close>

definition string_start :: "u8 list \<Rightarrow> nat \<Rightarrow> bool" where
  "string_start d off \<longleftrightarrow> off < length d \<and> (off = 0 \<or> d ! (off - 1) = 0)"

lemma index_spec:
  assumes "strset_ok ss" "strs_data_len ss = length (strs_data ss)" "last (strs_data ss) = 0"
    and "\<forall>p<off. string_start (strs_data ss) p \<longrightarrow> (\<exists>k. (c_str (strs_data ss) p, k) \<in> strset_offsets ss)"
    and "strset_index al ss off = (ss', 0)"
  shows "strset_ok ss' \<and> strs_data ss' = strs_data ss \<and> strs_data_len ss' = strs_data_len ss \<and>
     (\<forall>p. string_start (strs_data ss) p \<longrightarrow> (\<exists>k. (c_str (strs_data ss) p, k) \<in> strset_offsets ss'))"
  using assms
proof (induction al ss off rule: strset_index.induct)
  case (1 al ss off)
  show ?case
  proof (cases "off < strs_data_len ss")
    case False
    with 1(3,5,6) have "ss' = ss" "\<forall>p. string_start (strs_data ss) p \<longrightarrow> p < off"
      by (simp_all add: strset_index.simps string_start_def)
    with 1(2,5) show ?thesis by blast
  next
    case True
    obtain m err old where r: "hashmap_insert (al off) (strset_map ss) off off HASHMAP_ADD = (m, err, old)"
      by (cases "hashmap_insert (al off) (strset_map ss) off off HASHMAP_ADD") auto
    let ?s = "ss\<lparr>strs_hash := m\<rparr>" and ?d = "strs_data ss"
    let ?next = "off + length (c_str ?d off) + 1"
    have e: "err = 0 \<or> err = - EEXIST"
      using 1(6) True r by (auto simp: strset_index.simps [of al ss off] split: if_splits)
    have rec: "strset_index al ?s ?next = (ss', 0)"
      using 1(6) True r e by (auto simp: strset_index.simps [of al ss off])
    have t: "terminated ?d (strs_data_len ss) off"
      using c_str_terminated [of off ?d] True 1(3,4) by simp
    note rd = index_round [OF 1(2) t r e]
    have "\<exists>k. (c_str ?d p, k) \<in> strset_offsets ?s" if p: "p < ?next" "string_start ?d p" for p
    proof -
      consider "p < off" | "p = off" | "off < p" by linarith
      then show ?thesis
      proof cases
        case 1
        with \<open>\<forall>p<off. _\<close> p(2) rd(2) show ?thesis by blast
      next
        case 2
        with rd(3) show ?thesis by simp
      next
        case 3
        then have "p - 1 - off < length (c_str ?d off)" "off + (p - 1 - off) = p - 1" using p(1) by linarith+
        with c_str_nonzero [of "p - 1 - off" ?d off] True \<open>strs_data_len ss = _\<close> 3 p(2)
        show ?thesis by (simp add: string_start_def)
      qed
    qed
    then show ?thesis
      using "1.IH" [OF True r [symmetric] refl] e rd(1) rec 1(3,4) by (simp add: errno_defs)
  qed
qed

text \<open>A set made from a string section: no string, or a last one that is terminated.\<close>

lemma index_max_len: "strset_index al ss off = (ss', e) \<Longrightarrow> strs_data_max_len ss' = strs_data_max_len ss"
proof (induction al ss off rule: strset_index.induct)
  case (1 al ss off)
  then show ?case
    by (cases "hashmap_insert (al off) (strset_map ss) off off HASHMAP_ADD")
      (auto simp: strset_index.simps [of al ss off] split: if_splits)
qed

lemma strset_new_spec:
  assumes "strset_new a b c al n (Some d) = Inr ss" "d = [] \<or> last d = 0"
  shows "strset_ok ss \<and> strs_data ss = d \<and> strs_data_len ss = length d \<and> strs_data_max_len ss = n \<and>
     (\<forall>p. string_start d p \<longrightarrow> (\<exists>k. (c_str d p, k) \<in> strset_offsets ss))"
proof -
  let ?s0 = "\<lparr>strs_data = d, strs_data_len = length d, strs_data_max_len = n,
      strs_hash = hashmap_init (strset_hash_fn []) (strset_equal_fn [])\<rparr>"
  have i: "strset_index al ?s0 0 = (ss, 0)"
    using assms(1) by (auto simp: strset_new_def Let_def split: if_splits prod.splits)
  have ok: "strset_ok ?s0"
  proof -
    have m: "strset_map ?s0 = hashmap_init (strset_hash_fn d) (strset_equal_fn d)"
      by (simp add: strset_map_def hashmap_init_def)
    have "hashmap_entries (strs_hash ?s0) = []" by (simp add: hashmap_entries_def hashmap_init_def)
    then show ?thesis using hashmap_init_keyed [of "strset_hash_fn d" "strset_equal_fn d"]
      unfolding strset_ok_def m by simp
  qed
  show ?thesis
  proof (cases "d = []")
    case True
    with i have "ss = ?s0" by (simp add: strset_index.simps)
    with ok True show ?thesis by (simp add: string_start_def)
  next
    case False
    with index_spec [of ?s0 0 al ss] index_max_len [OF i] i ok assms(2) show ?thesis by simp
  qed
qed

section \<open>Properties\<close>

text \<open>C36: \<open>strset__add_str\<close> returns the offset of the string if the set has it, and otherwise appends it
  at the end of the data and returns that offset, which is 0 for the first string; every string added
  before keeps its offset, also when the buffer is reallocated. It fails with \<open>-ENOMEM\<close> only, changes
  nothing in the set then, and does so only if an allocation is refused or the string would not fit
  into \<open>strs_data_max_len\<close> bytes (the bound on the length of the data is one no memory reaches).\<close>

theorem strset_add_str_refines:
  assumes "strset_ok ss" "0 \<notin> set s" "strset_add_str al ok ss s = (ss', r)"
  shows "strset_ok ss' \<and>
     ((\<exists>k. r = int k \<and> (s, k) \<in> strset_offsets ss \<and> strset_offsets ss' = strset_offsets ss \<and>
        strs_data_len ss' = strs_data_len ss) \<or>
      r = int (strs_data_len ss) \<and> (\<forall>k. (s, k) \<notin> strset_offsets ss) \<and>
        strset_offsets ss' = insert (s, strs_data_len ss) (strset_offsets ss) \<and>
        strs_data_len ss' = strs_data_len ss + length s + 1 \<or>
      r = - ENOMEM \<and> strset_offsets ss' = strset_offsets ss \<and> strs_data_len ss' = strs_data_len ss \<and>
        (\<not> ok \<or> \<not> calloc_ok al \<or> \<not> malloc_ok al \<or>
         strs_data_max_len ss < strs_data_len ss + length s + 1 \<or> 2 ^ 59 \<le> strs_data_len ss))"
proof -
  have "r = - ENOMEM \<longrightarrow> \<not> ok \<or> \<not> calloc_ok al \<or> \<not> malloc_ok al \<or>
      strs_data_max_len ss < strs_data_len ss + length s + 1 \<or> 2 ^ 59 \<le> strs_data_len ss"
    using add_str_fails [OF assms] unfolding str_room_def not_less [symmetric] by (auto simp: errno_defs)
  with add_str_spec [OF assms] show ?thesis by blast
qed

definition ex_strset :: strset where
  "ex_strset = \<lparr>strs_data = [], strs_data_len = 0, strs_data_max_len = 100,
     strs_hash = hashmap_init (strset_hash_fn []) (strset_equal_fn [])\<rparr>"

text \<open>Two strings, the second at offset 3, and the first one again.\<close>

theorem strset_add_str_refines_witness:
  "\<exists>ss1 ss2 ss3. strset_add_str alloc_all True ex_strset [97, 98] = (ss1, 0) \<and>
     strset_add_str alloc_all True ss1 [99] = (ss2, 3) \<and>
     strset_add_str alloc_all True ss2 [97, 98] = (ss3, 0) \<and> strset_offsets ss3 = {([97, 98], 0), ([99], 3)}"
proof -
  have ok: "strset_ok ex_strset" unfolding ex_strset_def by (rule strset_empty_ok)
  have e: "strset_offsets ex_strset = {}" "strs_data_len ex_strset = 0" "strs_data_max_len ex_strset = 100"
    "strs_data ex_strset = []"
    by (simp_all add: strset_offsets_def ex_strset_def hashmap_entries_def hashmap_init_def)
  have al: "calloc_ok alloc_all" "malloc_ok alloc_all" by (simp_all add: alloc_all_def)
  obtain ss1 r1 where a1: "strset_add_str alloc_all True ex_strset [97, 98] = (ss1, r1)" by fastforce
  have s1: "strset_ok ss1" "r1 = 0" "strset_offsets ss1 = {([97, 98], 0)}" "strs_data_len ss1 = 3"
    using strset_add_str_refines [OF ok _ a1] by (auto simp: e al)
  have m1: "strs_data_max_len ss1 = 100" using add_str_data(1) [OF a1] e by simp
  obtain ss2 r2 where a2: "strset_add_str alloc_all True ss1 [99] = (ss2, r2)" by fastforce
  have s2: "strset_ok ss2" "r2 = 3" "strset_offsets ss2 = {([97, 98], 0), ([99], 3)}" "strs_data_len ss2 = 5"
    using strset_add_str_refines [OF s1(1) _ a2] by (auto simp: s1(3,4) m1 al)
  have m2: "strs_data_max_len ss2 = 100"
    using add_str_data(1) [OF a2] s1(1) m1 by (simp add: strset_ok_def)
  obtain ss3 r3 where a3: "strset_add_str alloc_all True ss2 [97, 98] = (ss3, r3)" by fastforce
  have "\<exists>k. ([97, 98], k) \<in> strset_offsets ss2" by (simp add: s2(3))
  then have "\<exists>k. r3 = int k \<and> ([97, 98], k) \<in> strset_offsets ss2 \<and> strset_offsets ss3 = strset_offsets ss2"
    using strset_add_str_refines [OF s2(1) _ a3] by (simp add: al m2 s2(4)) blast
  then have "r3 = 0" "strset_offsets ss3 = {([97, 98], 0), ([99], 3)}" by (auto simp: s2(3))
  with a1 a2 a3 s1(2) s2(2) show ?thesis by blast
qed

text \<open>\<open>strset__find_str\<close> returns the offset at which the set has the string, and \<open>-ENOENT\<close> exactly
  when it has not; it changes nothing but the spare part of the buffer.\<close>

theorem strset_find_str_refines:
  assumes "strset_ok ss" "0 \<notin> set s" "strset_find_str ok ss s = (ss', r)"
  shows "strset_ok ss' \<and> strset_offsets ss' = strset_offsets ss \<and> strs_data_len ss' = strs_data_len ss \<and>
     ((\<exists>k. r = int k \<and> (s, k) \<in> strset_offsets ss) \<or>
      r = - ENOENT \<and> (\<forall>k. (s, k) \<notin> strset_offsets ss) \<or> r = - ENOMEM \<and> ss' = ss)"
  by (rule find_str_spec [OF assms])

theorem strset_find_str_refines_witness:
  "case strset_find_str True ex_strset [97] of (ss', r) \<Rightarrow> r = - ENOENT \<or> r = - ENOMEM"
proof -
  have ok: "strset_ok ex_strset" unfolding ex_strset_def by (rule strset_empty_ok)
  have e: "strset_offsets ex_strset = {}"
    by (simp add: strset_offsets_def ex_strset_def hashmap_entries_def hashmap_init_def)
  obtain ss' r where r: "strset_find_str True ex_strset [97] = (ss', r)"
    by (cases "strset_find_str True ex_strset [97]") auto
  show ?thesis using strset_find_str_refines [OF ok _ r] by (auto simp: r e)
qed

text \<open>\<open>strset__new\<close> over initial data that ends with a zero byte indexes every string of it:
  whatever string starts anywhere in the data, the set has it.\<close>

theorem strset_new_indexes:
  assumes "strset_new a b c al n (Some d) = Inr ss" "last d = 0"
  shows "strset_ok ss \<and> strs_data ss = d \<and> strs_data_len ss = length d \<and>
     (\<forall>p. string_start d p \<longrightarrow> (\<exists>k. (c_str d p, k) \<in> strset_offsets ss))"
  using strset_new_spec [OF assms(1)] assms(2) by simp

theorem strset_new_indexes_witness:
  "\<exists>ss. strset_new True True True (\<lambda>_. alloc_all) 100 (Some [0, 97, 0]) = Inr ss \<and>
     (\<exists>k. ([97], k) \<in> strset_offsets ss)"
proof -
  have h: "hash_bits (strset_hash_fn [0, 97, 0] 0) b = hash_bits 0 b"
    "hash_bits (strset_hash_fn [0, 97, 0] 1) b = hash_bits 97 b" for b
    by (simp_all add: strset_hash_fn_def str_hash_def c_str_def)
  have e: "\<not> strset_equal_fn [0, 97, 0] 0 1" by (simp add: strset_equal_fn_def c_str_def)
  have v: "hash_bits 0 2 = 0" "hash_bits 97 2 = 3" by code_simp+
  have "\<exists>ss. strset_new True True True (\<lambda>_. alloc_all) 100 (Some [0, 97, 0]) = Inr ss"
    using e unfolding One_nat_def
    by (simp add: strset_new_def strset_index.simps alloc_all_def hashmap_insert_def hashmap_init_def
        strset_map_def hashmap_find_entry_def hashmap_needs_to_grow_def hashmap_grow_def calloc_def
        HASHMAP_MIN_CAP_BITS_def hashmap_entries_def hashmap_add_entry_def errno_defs Let_def c_str_def
        h [unfolded One_nat_def] v replicate_4_8)
  then obtain ss where ss: "strset_new True True True (\<lambda>_. alloc_all) 100 (Some [0, 97, 0]) = Inr ss" ..
  have "string_start [0, 97, 0] 1" "c_str [0, 97, 0] 1 = [97]" by (simp_all add: string_start_def c_str_def)
  with strset_new_indexes [OF ss] ss show ?thesis by fastforce
qed

end
