(* ===== verification/Btf.thy ===== *)
theory Btf
  imports Btf_Format Strset
begin

text \<open>
  BTF objects, \<open>src/libbpf/src/btf.c\<close>: parsing and byte-swapping of raw data, type and string lookup,
  resolution of sizes, alignments and types.

  A split BTF refers to its base through \<open>base_btf\<close>. An object is here the list of the object and,
  behind it, its base, the base of that, and so on: a null \<open>base_btf\<close> is the end of the list. The
  three memory regions are lists of bytes as long as they are allocated; \<open>hdr\<close> is the decoded header.
  \<open>modifiable\<close> says whether the regions have been separated (\<open>btf_is_modifiable\<close>). Integers the code
  keeps in \<open>int\<close> or \<open>__u32\<close> as counts and identifiers are natural numbers here; those that the format
  stores are 32-bit words.
\<close>

section \<open>Objects\<close>

definition ENOTSUP :: int where "ENOTSUP = 95"

definition BTF_MAX_NR_TYPES :: nat where "BTF_MAX_NR_TYPES = 0x7fffffff"
definition BTF_MAX_STR_OFFSET :: nat where "BTF_MAX_STR_OFFSET = 0x7fffffff"

definition btf_void :: btf_type where
  "btf_void = \<lparr>name_off = 0, info = 0, size_type = 0, rest = []\<rparr>"

record btf =
  raw_data :: "u8 list option"
  raw_data_swapped :: "u8 list option"
  raw_size :: nat
  swapped_endian :: bool
  modifiable :: bool
  hdr :: btf_header
  hdr_tail :: "u8 list"
  types_data :: "u8 list"
  type_offs :: "nat list"
  nr_types :: nat
  start_id :: nat
  start_str_off :: nat
  btf_strs_data :: "u8 list"
  strs_set :: strset
  strs_deduped :: bool
  ptr_sz :: int

section \<open>Raw data\<close>

definition btf_header_at :: "u8 list \<Rightarrow> btf_header" where
  "btf_header_at d =
     \<lparr>magic = get16 d 0, version = d ! 2, flags = d ! 3, hdr_len = get32 d 4, type_off = get32 d 8,
      type_len = get32 d 12, str_off = get32 d 16, str_len = get32 d 20\<rparr>"

definition btf_header_bytes :: "btf_header \<Rightarrow> u8 list" where
  "btf_header_bytes h =
     bytes16 (magic h) @ [version h, flags h] @ bytes32 (hdr_len h) @ bytes32 (type_off h) @
     bytes32 (type_len h) @ bytes32 (str_off h) @ bytes32 (str_len h)"

definition btf_bswap_hdr :: "btf_header \<Rightarrow> btf_header" where
  "btf_bswap_hdr h =
     h\<lparr>magic := bswap16 (magic h), hdr_len := bswap32 (hdr_len h), type_off := bswap32 (type_off h),
       type_len := bswap32 (type_len h), str_off := bswap32 (str_off h), str_len := bswap32 (str_len h)\<rparr>"

text \<open>The result is whether the data are byte-swapped, and the header in host order.\<close>

definition btf_parse_hdr :: "u8 list \<Rightarrow> int + bool \<times> btf_header" where
  "btf_parse_hdr raw =
     (if length raw < sizeof_btf_header then Inl (- EINVAL)
      else
        let h = btf_header_at raw in
        case (if magic h = bswap16 BTF_MAGIC
              then if bswap32 (hdr_len h) \<noteq> of_nat sizeof_btf_header then Inl (- ENOTSUP)
                   else Inr (True, btf_bswap_hdr h)
              else if magic h \<noteq> BTF_MAGIC then Inl (- EINVAL)
              else Inr (False, h)) of
          Inl e \<Rightarrow> Inl e
        | Inr (swapped, h) \<Rightarrow>
            if length raw < unat (hdr_len h) then Inl (- EINVAL)
            else
              let meta_left = length raw - unat (hdr_len h) in
              if meta_left < unat (str_off h) + unat (str_len h) then Inl (- EINVAL)
              else if unat (type_off h) + unat (type_len h) > unat (str_off h) then Inl (- EINVAL)
              else if unat (type_off h) mod 4 \<noteq> 0 then Inl (- EINVAL)
              else Inr (swapped, h))"

text \<open>\<open>strs\<close> is the string section, of \<open>str_len\<close> bytes.\<close>

definition btf_parse_str_sec :: "bool \<Rightarrow> u8 list \<Rightarrow> int" where
  "btf_parse_str_sec has_base strs =
     (if has_base \<and> length strs = 0 then 0
      else if length strs = 0 \<or> length strs - 1 > BTF_MAX_STR_OFFSET \<or> strs ! (length strs - 1) \<noteq> 0
      then - EINVAL
      else if \<not> has_base \<and> strs ! 0 \<noteq> 0 then - EINVAL
      else 0)"

definition btf_type_size :: "btf_type \<Rightarrow> nat option" where
  "btf_type_size t =
     (let base_size = sizeof_btf_type; vlen = btf_vlen t in
      case btf_kind t of
        BTF_KIND_FWD \<Rightarrow> Some base_size
      | BTF_KIND_CONST \<Rightarrow> Some base_size
      | BTF_KIND_VOLATILE \<Rightarrow> Some base_size
      | BTF_KIND_RESTRICT \<Rightarrow> Some base_size
      | BTF_KIND_PTR \<Rightarrow> Some base_size
      | BTF_KIND_TYPEDEF \<Rightarrow> Some base_size
      | BTF_KIND_FUNC \<Rightarrow> Some base_size
      | BTF_KIND_FLOAT \<Rightarrow> Some base_size
      | BTF_KIND_TYPE_TAG \<Rightarrow> Some base_size
      | BTF_KIND_INT \<Rightarrow> Some (base_size + 4)
      | BTF_KIND_ENUM \<Rightarrow> Some (base_size + vlen * 8)
      | BTF_KIND_ENUM64 \<Rightarrow> Some (base_size + vlen * 12)
      | BTF_KIND_ARRAY \<Rightarrow> Some (base_size + 12)
      | BTF_KIND_STRUCT \<Rightarrow> Some (base_size + vlen * 12)
      | BTF_KIND_UNION \<Rightarrow> Some (base_size + vlen * 12)
      | BTF_KIND_FUNC_PROTO \<Rightarrow> Some (base_size + vlen * 8)
      | BTF_KIND_VAR \<Rightarrow> Some (base_size + 4)
      | BTF_KIND_DATASEC \<Rightarrow> Some (base_size + vlen * 12)
      | BTF_KIND_DECL_TAG \<Rightarrow> Some (base_size + 4)
      | _ \<Rightarrow> None)"

text \<open>The type at an offset: its three header words, and the words its kind says follow.\<close>

definition type_hdr_at :: "u8 list \<Rightarrow> nat \<Rightarrow> btf_type" where
  "type_hdr_at d off =
     \<lparr>name_off = get32 d off, info = get32 d (off + 4), size_type = get32 d (off + 8), rest = []\<rparr>"

definition type_at :: "u8 list \<Rightarrow> nat \<Rightarrow> btf_type" where
  "type_at d off =
     (let t = type_hdr_at d off in
      case btf_type_size t of
        None \<Rightarrow> t
      | Some n \<Rightarrow> t\<lparr>rest := words_at d (off + 12) ((n - 12) div 4)\<rparr>)"

definition bswap_at :: "nat \<Rightarrow> u8 list \<Rightarrow> u8 list" where
  "bswap_at off d = put32 d off (bswap32 (get32 d off))"

definition btf_bswap_type_base :: "u8 list \<Rightarrow> nat \<Rightarrow> u8 list" where
  "btf_bswap_type_base d off = bswap_at (off + 8) (bswap_at (off + 4) (bswap_at off d))"

text \<open>The loop over \<open>n\<close> entries of a type, swapping each of the members of an entry.\<close>

fun bswap_entries :: "nat list \<Rightarrow> nat \<Rightarrow> nat \<Rightarrow> nat \<Rightarrow> u8 list \<Rightarrow> u8 list" where
  "bswap_entries members entry_sz 0 off d = d"
| "bswap_entries members entry_sz (Suc n) off d =
     bswap_entries members entry_sz n (off + entry_sz) (fold (\<lambda>m. bswap_at (off + m)) members d)"

definition btf_bswap_type_rest :: "u8 list \<Rightarrow> nat \<Rightarrow> u8 list option" where
  "btf_bswap_type_rest d off =
     (let t = type_hdr_at d off; vlen = btf_vlen t; p = off + sizeof_btf_type in
      case btf_kind t of
        BTF_KIND_FWD \<Rightarrow> Some d
      | BTF_KIND_CONST \<Rightarrow> Some d
      | BTF_KIND_VOLATILE \<Rightarrow> Some d
      | BTF_KIND_RESTRICT \<Rightarrow> Some d
      | BTF_KIND_PTR \<Rightarrow> Some d
      | BTF_KIND_TYPEDEF \<Rightarrow> Some d
      | BTF_KIND_FUNC \<Rightarrow> Some d
      | BTF_KIND_FLOAT \<Rightarrow> Some d
      | BTF_KIND_TYPE_TAG \<Rightarrow> Some d
      | BTF_KIND_INT \<Rightarrow> Some (bswap_at p d)
      | BTF_KIND_ENUM \<Rightarrow> Some (bswap_entries [0, 4] 8 vlen p d)
      | BTF_KIND_ENUM64 \<Rightarrow> Some (bswap_entries [0, 4, 8] 12 vlen p d)
      | BTF_KIND_ARRAY \<Rightarrow> Some (bswap_at (p + 8) (bswap_at (p + 4) (bswap_at p d)))
      | BTF_KIND_STRUCT \<Rightarrow> Some (bswap_entries [0, 4, 8] 12 vlen p d)
      | BTF_KIND_UNION \<Rightarrow> Some (bswap_entries [0, 4, 8] 12 vlen p d)
      | BTF_KIND_FUNC_PROTO \<Rightarrow> Some (bswap_entries [0, 4] 8 vlen p d)
      | BTF_KIND_VAR \<Rightarrow> Some (bswap_at p d)
      | BTF_KIND_DATASEC \<Rightarrow> Some (bswap_entries [0, 4, 8] 12 vlen p d)
      | BTF_KIND_DECL_TAG \<Rightarrow> Some (bswap_at p d)
      | _ \<Rightarrow> None)"

lemma btf_type_size_ge: "btf_type_size t = Some n \<Longrightarrow> 12 \<le> n"
  by (auto simp: btf_type_size_def Let_def sizeof_btf_type_def split: btf_kinds.splits)

lemma btf_type_size_dvd: "btf_type_size t = Some n \<Longrightarrow> 4 dvd n"
  by (auto simp: btf_type_size_def Let_def sizeof_btf_type_def split: btf_kinds.splits)

definition btf_add_type_offs_mem :: "bool \<Rightarrow> nat list \<Rightarrow> nat \<Rightarrow> nat \<Rightarrow> nat list option" where
  "btf_add_type_offs_mem ok offs nr add_cnt = libbpf_add_mem ok 0 offs nr BTF_MAX_NR_TYPES add_cnt"

definition btf_add_type_idx_entry :: "bool \<Rightarrow> nat list \<Rightarrow> nat \<Rightarrow> nat \<Rightarrow> nat list option" where
  "btf_add_type_idx_entry ok offs nr type_off' =
     (case btf_add_type_offs_mem ok offs nr 1 of
        None \<Rightarrow> None
      | Some m \<Rightarrow> Some (m[nr := type_off']))"

text \<open>
  The loop of \<open>btf_parse_type_sec\<close> over a section of \<open>end\<close> bytes: \<open>next\<close> is the offset of the next
  type; \<open>ok n\<close> is the fate of the allocation for the index entry of the \<open>n\<close>th type.
\<close>

function btf_parse_type_sec ::
  "(nat \<Rightarrow> bool) \<Rightarrow> bool \<Rightarrow> nat \<Rightarrow> u8 list \<Rightarrow> nat list \<Rightarrow> nat \<Rightarrow> nat \<Rightarrow> int + u8 list \<times> nat list \<times> nat" where
  "btf_parse_type_sec ok swapped endt d offs nr next_type =
     (if next_type + sizeof_btf_type \<le> endt then
        let d = (if swapped then btf_bswap_type_base d next_type else d) in
        case btf_type_size (type_hdr_at d next_type) of
          None \<Rightarrow> Inl (- EINVAL)
        | Some type_size \<Rightarrow>
            if next_type + type_size > endt then Inl (- EINVAL)
            else case (if swapped then btf_bswap_type_rest d next_type else Some d) of
              None \<Rightarrow> Inl (- EINVAL)
            | Some d \<Rightarrow>
                (case btf_add_type_idx_entry (ok nr) offs nr next_type of
                   None \<Rightarrow> Inl (- ENOMEM)
                 | Some offs \<Rightarrow>
                     btf_parse_type_sec ok swapped endt d offs (nr + 1) (next_type + type_size))
      else if next_type \<noteq> endt then Inl (- EINVAL)
      else Inr (d, offs, nr))"
  by pat_completeness auto
termination
  by (relation "measure (\<lambda>(ok, swapped, endt, d, offs, nr, next_type). endt - next_type)")
    (auto simp: sizeof_btf_type_def dest!: btf_type_size_ge)

declare btf_parse_type_sec.simps [simp del]

section \<open>Byte-swapping a range\<close>

fun swap_words :: "u8 list \<Rightarrow> u8 list" where
  "swap_words (a # b # c # e # xs) = e # c # b # a # swap_words xs"
| "swap_words xs = xs"

definition swap_range :: "nat \<Rightarrow> nat \<Rightarrow> u8 list \<Rightarrow> u8 list" where
  "swap_range off n d = take off d @ swap_words (take n (drop off d)) @ drop (off + n) d"

lemma swap_words_swap_words [simp]: "swap_words (swap_words xs) = xs"
  by (induction xs rule: swap_words.induct) simp_all

lemma length_swap_words [simp]: "length (swap_words xs) = length xs"
  by (induction xs rule: swap_words.induct) simp_all

lemma swap_words_append: "4 dvd length xs \<Longrightarrow> swap_words (xs @ ys) = swap_words xs @ swap_words ys"
proof (induction xs rule: swap_words.induct)
  case (1 a b c e xs)
  have "4 dvd length xs" using "1.prems" by (simp add: dvd_def) presburger
  with "1.IH" show ?case by simp
next
  case "2_3"
  then show ?case by (auto dest: dvd_imp_le)
qed (auto dest: dvd_imp_le)

lemma swap_words_take: "4 dvd n \<Longrightarrow> take n (swap_words xs) = swap_words (take n xs)"
  and swap_words_drop: "4 dvd n \<Longrightarrow> drop n (swap_words xs) = swap_words (drop n xs)"
proof -
  assume n: "4 dvd n"
  have "take n (swap_words xs) = swap_words (take n xs) \<and> drop n (swap_words xs) = swap_words (drop n xs)"
  proof (cases "n \<le> length xs")
    case True
    then have "swap_words (take n xs @ drop n xs) = swap_words (take n xs) @ swap_words (drop n xs)"
      by (intro swap_words_append) (simp add: n)
    with True show ?thesis by (simp add: append_eq_conv_conj)
  qed simp
  then show "take n (swap_words xs) = swap_words (take n xs)" "drop n (swap_words xs) = swap_words (drop n xs)"
    by simp_all
qed

lemma length_swap_range [simp]: "off + n \<le> length d \<Longrightarrow> length (swap_range off n d) = length d"
  by (simp add: swap_range_def)

lemma swap_range_0 [simp]: "off \<le> length d \<Longrightarrow> swap_range off 0 d = d"
  by (simp add: swap_range_def)

lemma split_range:
  assumes "off + n + m \<le> length d"
  obtains P A B S where "d = P @ A @ B @ S" "length P = off" "length A = n" "length B = m"
proof (rule that [of "take off d" "take n (drop off d)" "take m (drop (off + n) d)" "drop (off + n + m) d"])
  show "d = take off d @ take n (drop off d) @ take m (drop (off + n) d) @ drop (off + n + m) d"
    by (metis append_take_drop_id drop_drop add.commute)
qed (use assms in simp_all)

lemma swap_range_merge:
  assumes "4 dvd n" "off + n + m \<le> length d" "p = off + n"
  shows "swap_range p m (swap_range off n d) = swap_range off (n + m) d"
    and "swap_range off n (swap_range p m d) = swap_range off (n + m) d"
proof -
  obtain P A B S where d: "d = P @ A @ B @ S" and len: "length P = off" "length A = n" "length B = m"
    using split_range [OF assms(2)] .
  show "swap_range p m (swap_range off n d) = swap_range off (n + m) d"
    and "swap_range off n (swap_range p m d) = swap_range off (n + m) d"
    using swap_words_append [of A B] assms(1,3) len by (simp_all add: d swap_range_def)
qed

lemma bswap_at_range:
  assumes "off + 4 \<le> length d" shows "bswap_at off d = swap_range off 4 d"
proof -
  have "drop off d ! 0 = d ! off" "drop off d ! 1 = d ! (off + 1)" "drop off d ! 2 = d ! (off + 2)"
    "drop off d ! 3 = d ! (off + 3)" using assms by simp_all
  moreover have "take 4 (drop off d) = [drop off d ! 0, drop off d ! 1, drop off d ! 2, drop off d ! 3]"
    using assms by (intro nth_equalityI) (auto simp: nth_Cons' numeral_eq_Suc less_Suc_eq)
  ultimately have t: "take 4 (drop off d) = [d ! off, d ! (off + 1), d ! (off + 2), d ! (off + 3)]" by simp
  show ?thesis
    unfolding bswap_at_def put32_def put_def swap_range_def t get32_def bswap32_le32 bytes32_def byte_at_le32
    by (simp add: eval_nat_numeral)
qed

lemma bswap_entries_2:
  "off + 8 * n \<le> length d \<Longrightarrow> bswap_entries [0, 4] 8 n off d = swap_range off (8 * n) d"
proof (induction n arbitrary: off d)
  case (Suc n)
  have e: "bswap_at (off + 4) (bswap_at off d) = swap_range off 8 d"
    using Suc.prems by (simp add: bswap_at_range swap_range_merge)
  have "bswap_entries [0, 4] 8 n (off + 8) (swap_range off 8 d) = swap_range (off + 8) (8 * n) (swap_range off 8 d)"
    by (rule Suc.IH) (use Suc.prems in simp)
  then show ?case using Suc.prems by (simp add: e swap_range_merge)
qed simp

lemma bswap_entries_3:
  "off + 12 * n \<le> length d \<Longrightarrow> bswap_entries [0, 4, 8] 12 n off d = swap_range off (12 * n) d"
proof (induction n arbitrary: off d)
  case (Suc n)
  have e: "bswap_at (off + 8) (bswap_at (off + 4) (bswap_at off d)) = swap_range off 12 d"
    using Suc.prems by (simp add: bswap_at_range swap_range_merge)
  have "bswap_entries [0, 4, 8] 12 n (off + 12) (swap_range off 12 d) =
      swap_range (off + 12) (12 * n) (swap_range off 12 d)"
    by (rule Suc.IH) (use Suc.prems in simp)
  then show ?case using Suc.prems by (simp add: e swap_range_merge)
qed simp

lemma bswap_type_base_range:
  "off + 12 \<le> length d \<Longrightarrow> btf_bswap_type_base d off = swap_range off 12 d"
  by (simp add: btf_bswap_type_base_def bswap_at_range swap_range_merge)

text \<open>The words that follow a type are all swapped, whatever its kind.\<close>

lemma bswap_type_rest_range:
  assumes "btf_type_size (type_hdr_at d off) = Some n" "off + n \<le> length d"
  shows "btf_bswap_type_rest d off = Some (swap_range (off + 12) (n - 12) d)"
  using assms
  by (auto simp: btf_type_size_def btf_bswap_type_rest_def Let_def sizeof_btf_type_def bswap_at_range
      bswap_entries_2 bswap_entries_3 swap_range_merge ac_simps split: btf_kinds.splits)

lemma bswap_type_range:
  assumes "btf_type_size (type_hdr_at d off) = Some n" "off + n \<le> length d"
  obtains d' where "btf_bswap_type_rest d off = Some d'" "btf_bswap_type_base d' off = swap_range off n d"
proof
  have n: "12 \<le> n" "4 dvd n" using btf_type_size_ge [OF assms(1)] btf_type_size_dvd [OF assms(1)] by simp_all
  let ?d = "swap_range (off + 12) (n - 12) d"
  show "btf_bswap_type_rest d off = Some ?d" by (rule bswap_type_rest_range [OF assms])
  show "btf_bswap_type_base ?d off = swap_range off n d"
    using n assms(2) swap_range_merge(2) [of 12 off "n - 12" d] by (simp add: bswap_type_base_range)
qed

section \<open>Type sections\<close>

text \<open>The offsets are those of consecutive types, the first at \<open>p\<close>, which fill the section.\<close>

primrec types_from :: "u8 list \<Rightarrow> nat \<Rightarrow> nat list \<Rightarrow> nat \<Rightarrow> bool" where
  "types_from d endt [] p \<longleftrightarrow> p = endt"
| "types_from d endt (off # offs) p \<longleftrightarrow>
     off = p \<and> (case btf_type_size (type_hdr_at d off) of
       None \<Rightarrow> False
     | Some n \<Rightarrow> off + n \<le> endt \<and> types_from d endt offs (off + n))"

lemma types_from_Cons_iff:
  "types_from d endt (off # offs) p \<longleftrightarrow>
     off = p \<and> (\<exists>n. btf_type_size (type_hdr_at d p) = Some n \<and> 12 \<le> n \<and> 4 dvd n \<and> p + n \<le> endt \<and>
       types_from d endt offs (p + n))"
  by (auto simp: btf_type_size_ge btf_type_size_dvd split: option.splits)

declare types_from.simps(2) [simp del]

lemma types_from_le: "types_from d endt offs p \<Longrightarrow> p \<le> endt"
proof (induction offs arbitrary: p)
  case (Cons off offs)
  then obtain n where "types_from d endt offs (p + n)" by (auto simp: types_from_Cons_iff)
  from Cons.IH [OF this] show ?case by simp
qed simp

lemma types_from_nth:
  assumes "types_from d endt offs p" "i < length offs"
  shows "\<exists>n. btf_type_size (type_hdr_at d (offs ! i)) = Some n \<and> p \<le> offs ! i \<and> offs ! i + n \<le> endt"
  using assms
proof (induction offs arbitrary: p i)
  case (Cons off offs)
  then obtain n where n: "off = p" "btf_type_size (type_hdr_at d p) = Some n" "p + n \<le> endt"
      "types_from d endt offs (p + n)"
    by (auto simp: types_from_Cons_iff)
  show ?case
  proof (cases i)
    case 0
    with n show ?thesis by simp
  next
    case (Suc j)
    with Cons.IH [OF n(4), of j] Cons.prems(2) show ?thesis by fastforce
  qed
qed simp

lemma type_hdr_at_cong:
  assumes "take m d = take m d'" "p + 12 \<le> m"
  shows "type_hdr_at d p = type_hdr_at d' p"
  using get32_cong [OF assms(1), of p] get32_cong [OF assms(1), of "p + 4"]
    get32_cong [OF assms(1), of "p + 8"] assms(2)
  by (simp add: type_hdr_at_def)

lemma add_type_idx_entry_Some:
  assumes "btf_add_type_idx_entry ok offs nr x = Some m" "nr \<le> length offs"
  shows "nr < length m" "m ! nr = x" "take nr m = take nr offs"
proof -
  obtain m' where m': "libbpf_add_mem ok 0 offs nr BTF_MAX_NR_TYPES 1 = Some m'" "m = m'[nr := x]"
    using assms(1) by (auto simp: btf_add_type_idx_entry_def btf_add_type_offs_mem_def split: option.splits)
  obtain k where "m' = offs @ replicate k 0" "nr + 1 \<le> length m'"
    using libbpf_add_mem_Some [OF m'(1)] by blast
  with assms(2) m'(2) show "nr < length m" "m ! nr = x" "take nr m = take nr offs" by simp_all
qed

lemma parse_type_sec_Inr:
  assumes "btf_parse_type_sec ok False endt d offs nr p = Inr (d', offs', nr')" "nr \<le> length offs"
  shows "d' = d \<and> nr \<le> nr' \<and> nr' \<le> length offs' \<and> take nr offs' = take nr offs \<and>
     types_from d endt (drop nr (take nr' offs')) p"
  using assms
proof (induction ok "False" endt d offs nr p rule: btf_parse_type_sec.induct)
  case (1 ok endt d offs nr p)
  show ?case
  proof (cases "p + sizeof_btf_type \<le> endt")
    case False
    with "1.prems" show ?thesis by (simp add: btf_parse_type_sec.simps [of ok False endt d offs nr p] split: if_splits)
  next
    case True
    then obtain n m where n: "btf_type_size (type_hdr_at d p) = Some n" "p + n \<le> endt"
      and m: "btf_add_type_idx_entry (ok nr) offs nr p = Some m"
      and r: "btf_parse_type_sec ok False endt d m (nr + 1) (p + n) = Inr (d', offs', nr')"
      using "1.prems"(1)
      by (auto simp: btf_parse_type_sec.simps [of ok False endt d offs nr p] split: if_splits option.splits)
    note m' = add_type_idx_entry_Some [OF m "1.prems"(2)]
    have IH: "d' = d \<and> nr + 1 \<le> nr' \<and> nr' \<le> length offs' \<and> take (nr + 1) offs' = take (nr + 1) m \<and>
        types_from d endt (drop (nr + 1) (take nr' offs')) (p + n)"
      using "1.hyps" [OF True, of d n d m] n m r m'(1) by simp
    then have "take nr offs' = take nr m" by (metis take_take min.absorb1 le_add1)
    moreover have "offs' ! nr = p" using IH m'(1,2) by (metis less_add_one nth_take)
    moreover have "drop nr (take nr' offs') = offs' ! nr # drop (nr + 1) (take nr' offs')"
      using IH by (simp add: Cons_nth_drop_Suc [symmetric])
    ultimately show ?thesis using IH n m'(3) by (simp add: types_from.simps(2))
  qed
qed

lemma parse_type_sec_complete:
  assumes "types_from d endt offs p" "\<forall>n. ok n" "nr + length offs \<le> BTF_MAX_NR_TYPES" "nr \<le> length mem"
  shows "\<exists>mem'. btf_parse_type_sec ok False endt d mem nr p = Inr (d, mem', nr + length offs) \<and>
     take (nr + length offs) mem' = take nr mem @ offs"
  using assms
proof (induction offs arbitrary: p nr mem)
  case Nil
  from Nil.prems(1) have "btf_parse_type_sec ok False endt d mem nr p = Inr (d, mem, nr)"
    by (subst btf_parse_type_sec.simps) (simp add: sizeof_btf_type_def)
  then show ?case by simp
next
  case (Cons off offs)
  obtain n where n: "off = p" "btf_type_size (type_hdr_at d p) = Some n" "12 \<le> n" "p + n \<le> endt"
    "types_from d endt offs (p + n)" using Cons.prems(1) by (auto simp: types_from_Cons_iff)
  have "btf_add_type_idx_entry (ok nr) mem nr p \<noteq> None"
    using Cons.prems(2,3)
    by (simp add: btf_add_type_idx_entry_def btf_add_type_offs_mem_def libbpf_add_mem_None split: option.splits)
  then obtain m where m: "btf_add_type_idx_entry (ok nr) mem nr p = Some m" by auto
  note m' = add_type_idx_entry_Some [OF m Cons.prems(4)]
  obtain mem' where r: "btf_parse_type_sec ok False endt d m (nr + 1) (p + n) = Inr (d, mem', nr + 1 + length offs)"
    "take (nr + 1 + length offs) mem' = take (nr + 1) m @ offs"
    using Cons.IH [OF n(5) Cons.prems(2), of "nr + 1" m] Cons.prems(3) m'(1) by auto
  moreover have "take (nr + 1) m = take nr mem @ [p]" using m' by (simp add: take_Suc_conv_app_nth)
  ultimately show ?case
    using n m by (simp add: btf_parse_type_sec.simps [of ok False endt d mem nr p] sizeof_btf_type_def)
qed

text \<open>
  Parsing a byte-swapped section is parsing the section: the base of a type is swapped before its
  kind and count are read, the rest after.
\<close>

lemma swap_range_prefix:
  assumes "p + n \<le> length d" "4 dvd n"
  shows "swap_range p n (take p d @ swap_words (drop p d)) = take (p + n) d @ swap_words (drop (p + n) d)"
proof -
  obtain P A B S where d: "d = P @ A @ B @ S" and len: "length P = p" "length A = n" "length B = 0"
    by (rule split_range [of p n 0 d]) (use assms(1) in simp_all)
  show ?thesis
    using swap_words_append [of A S] assms(2) len by (simp add: d swap_range_def)
qed

lemma parse_type_sec_swapped:
  assumes "length d = endt" "p \<le> endt"
  shows "btf_parse_type_sec ok True endt (take p d @ swap_words (drop p d)) offs nr p =
     btf_parse_type_sec ok False endt d offs nr p"
  using assms
proof (induction ok "False" endt d offs nr p rule: btf_parse_type_sec.induct)
  case (1 ok endt d offs nr p)
  let ?D = "\<lambda>p. take p d @ swap_words (drop p d)"
  show ?case
  proof (cases "p + sizeof_btf_type \<le> endt")
    case False
    with "1.prems" show ?thesis
      by (simp add: btf_parse_type_sec.simps [of ok _ endt _ offs nr p])
  next
    case True
    then have p: "p + 12 \<le> length d" using "1.prems"(1) by (simp add: sizeof_btf_type_def)
    have base: "btf_bswap_type_base (?D p) p = ?D (p + 12)"
      using p swap_range_prefix [OF p] by (simp add: bswap_type_base_range)
    have hdr: "type_hdr_at (?D (p + 12)) p = type_hdr_at d p"
      by (rule type_hdr_at_cong [of "p + 12"]) (use p in simp_all)
    show ?thesis
    proof (cases "btf_type_size (type_hdr_at d p)")
      case None
      with True show ?thesis
        by (simp add: btf_parse_type_sec.simps [of ok _ endt _ offs nr p] base hdr)
    next
      case (Some n)
      note n = btf_type_size_ge [OF Some] btf_type_size_dvd [OF Some]
      show ?thesis
      proof (cases "p + n \<le> endt")
        case False
        with True Some show ?thesis
          by (simp add: btf_parse_type_sec.simps [of ok _ endt _ offs nr p] base hdr)
      next
        case le: True
        have "btf_bswap_type_rest (?D (p + 12)) p = Some (swap_range (p + 12) (n - 12) (?D (p + 12)))"
          by (rule bswap_type_rest_range) (use hdr Some le p "1.prems"(1) in simp_all)
        also have "swap_range (p + 12) (n - 12) (?D (p + 12)) = ?D (p + n)"
          using swap_range_prefix [of "p + 12" "n - 12" d] n le "1.prems"(1) by simp
        finally have rest: "btf_bswap_type_rest (?D (p + 12)) p = Some (?D (p + n))" .
        have IH: "btf_parse_type_sec ok True endt (?D (p + n)) m (nr + 1) (p + n) =
            btf_parse_type_sec ok False endt d m (nr + 1) (p + n)"
          if "btf_add_type_idx_entry (ok nr) offs nr p = Some m" for m
          using "1.hyps" [OF True, of d n d m] Some that "1.prems"(1) le by simp
        show ?thesis
          unfolding btf_parse_type_sec.simps [of ok _ endt _ offs nr p]
          using True Some le IH by (simp add: base hdr rest split: option.splits)
      qed
    qed
  qed
qed

end
