(* ===== verification/Visitors.thy ===== *)
theory Visitors
  imports Bytes
begin

text \<open>
  Traversals of words in a buffer by a callback, the pattern of \<open>btf_type_visit_type_ids\<close>,
  \<open>btf_type_visit_str_offs\<close> and their counterparts for \<open>.BTF.ext\<close> in \<open>src/libbpf/src/btf.c\<close>.
\<close>

text \<open>
  A visitor gets a word and a context and returns the word to store, the new context and an error
  code, or \<open>None\<close> when it dereferences a null pointer; \<open>stop\<close> says on which codes the traversal ends.
  A visitor is given names and type identifiers, never the counts the loops read, so the offsets to
  visit are those of the data before the traversal.
\<close>

type_synonym 'c visit_fn = "u32 \<Rightarrow> 'c \<Rightarrow> (u32 \<times> 'c \<times> int) option"

fun visit_words ::
  "(int \<Rightarrow> bool) \<Rightarrow> 'c visit_fn \<Rightarrow> nat list \<Rightarrow> u8 list \<Rightarrow> 'c \<Rightarrow> (u8 list \<times> 'c \<times> int) option" where
  "visit_words stop visit [] d ctx = Some (d, ctx, 0)"
| "visit_words stop visit (off # offs) d ctx =
     (case visit (get32 d off) ctx of
        None \<Rightarrow> None
      | Some (w, ctx, err) \<Rightarrow>
          let d = put32 d off w in
          if stop err then Some (d, ctx, err) else visit_words stop visit offs d ctx)"

lemma take_put32: "m \<le> off \<Longrightarrow> off + 4 \<le> length d \<Longrightarrow> take m (put32 d off w) = take m d"
  by (simp add: put32_def put_def min_def)

lemma drop_put32: "off + 4 \<le> m \<Longrightarrow> off + 4 \<le> length d \<Longrightarrow> drop m (put32 d off w) = drop m d"
  by (simp add: put32_def put_def)

text \<open>No crash when the visitor has none on the words to visit.\<close>

lemma visit_words_defined:
  assumes "\<And>w c. w \<in> W \<Longrightarrow> visit w c \<noteq> None"
    and "sorted_wrt (\<lambda>a b. a + 4 \<le> b) offs" "\<forall>off\<in>set offs. off + 4 \<le> length d" "\<forall>off\<in>set offs. get32 d off \<in> W"
  shows "visit_words stop visit offs d c \<noteq> None"
  using assms(2-)
proof (induction offs arbitrary: d c)
  case (Cons off offs)
  have off: "off + 4 \<le> length d" "get32 d off \<in> W" using Cons.prems by simp_all
  obtain w c1 e where v: "visit (get32 d off) c = Some (w, c1, e)" using assms(1) [OF off(2), of c] by (cases "visit (get32 d off) c") auto
  have "get32 (put32 d off w) o' = get32 d o'" if "o' \<in> set offs" for o'
    using that Cons.prems(1,2) off by (intro get32_put32_other) auto
  then have "visit_words stop visit offs (put32 d off w) c1 \<noteq> None"
    using Cons.prems off by (intro Cons.IH) auto
  then show ?case by (simp add: v Let_def)
qed simp

text \<open>
  The contract of a visitor: it keeps an invariant of its context, which it only extends, and relates
  the word it stores to the word it was given in a way later extensions keep.
\<close>

locale visitor =
  fixes visit :: "u32 \<Rightarrow> 'c \<Rightarrow> (u32 \<times> 'c \<times> int) option"
    and inv :: "'c \<Rightarrow> bool" and extends :: "'c \<Rightarrow> 'c \<Rightarrow> bool" and rel :: "'c \<Rightarrow> u32 \<Rightarrow> u32 \<Rightarrow> bool"
  assumes step: "inv c \<Longrightarrow> visit w c = Some (w', c', err) \<Longrightarrow> inv c' \<and> extends c c' \<and> err \<le> 0 \<and>
      (err = 0 \<longrightarrow> rel c' w w')"
    and extends_refl: "extends c c"
    and extends_trans: "extends c1 c2 \<Longrightarrow> extends c2 c3 \<Longrightarrow> extends c1 c3"
    and rel_mono: "rel c w w' \<Longrightarrow> extends c c' \<Longrightarrow> rel c' w w'"
begin

lemma visit_words_spec:
  assumes "visit_words (\<lambda>err. err \<noteq> 0) visit offs d c = Some (d', c', err)" "inv c"
    and "sorted_wrt (\<lambda>a b. a + 4 \<le> b) offs" "\<forall>off\<in>set offs. off + 4 \<le> length d"
  shows "length d' = length d \<and> inv c' \<and> extends c c' \<and> err \<le> 0 \<and>
    (\<forall>m. (\<forall>off\<in>set offs. m \<le> off) \<longrightarrow> take m d' = take m d) \<and>
    (\<forall>m. (\<forall>off\<in>set offs. off + 4 \<le> m) \<longrightarrow> drop m d' = drop m d) \<and>
    (\<forall>q. q + 4 \<le> length d \<and> (\<forall>off\<in>set offs. q + 4 \<le> off \<or> off + 4 \<le> q) \<longrightarrow> get32 d' q = get32 d q) \<and>
    (err = 0 \<longrightarrow> (\<forall>off\<in>set offs. rel c' (get32 d off) (get32 d' off)))"
  using assms
proof (induction offs arbitrary: d c)
  case Nil
  then show ?case by (simp add: extends_refl)
next
  case (Cons off offs)
  obtain w c1 e where v: "visit (get32 d off) c = Some (w, c1, e)"
    using Cons.prems(1) by (auto split: option.splits)
  let ?d = "put32 d off w"
  have off: "off + 4 \<le> length d" using Cons.prems(4) by simp
  have s: "inv c1" "extends c c1" "e \<le> 0" "e = 0 \<longrightarrow> rel c1 (get32 d off) w" using step [OF Cons.prems(2) v] by simp_all
  show ?case
  proof (cases "e = 0")
    case False
    with Cons.prems(1) v have "d' = ?d" "c' = c1" "err = e" by (simp_all add: Let_def)
    with s off False show ?thesis by (auto simp: take_put32 drop_put32 get32_put32_other)
  next
    case True
    then have r: "visit_words (\<lambda>err. err \<noteq> 0) visit offs ?d c1 = Some (d', c', err)"
      using Cons.prems(1) v by (simp add: Let_def)
    have IH: "length d' = length ?d" "inv c'" "extends c1 c'" "err \<le> 0"
      "\<And>m. (\<forall>off\<in>set offs. m \<le> off) \<Longrightarrow> take m d' = take m ?d"
      "\<And>m. (\<forall>off\<in>set offs. off + 4 \<le> m) \<Longrightarrow> drop m d' = drop m ?d"
      "\<And>q. q + 4 \<le> length ?d \<Longrightarrow> (\<forall>off\<in>set offs. q + 4 \<le> off \<or> off + 4 \<le> q) \<Longrightarrow> get32 d' q = get32 ?d q"
      "err = 0 \<Longrightarrow> (\<forall>off\<in>set offs. rel c' (get32 ?d off) (get32 d' off))"
      using Cons.IH [OF r s(1)] Cons.prems(3,4) off by auto
    have self: "get32 d' off = w"
      using IH(7) [of off] off Cons.prems(3) by (simp add: get32_put32)
    have other: "get32 ?d o' = get32 d o'" if "o' \<in> set offs" for o'
      using that Cons.prems(3,4) off by (intro get32_put32_other) auto
    have "rel c' (get32 d off) w" using s(4) True rel_mono IH(3) by blast
    then show ?thesis
      using IH self other off extends_trans [OF s(2) IH(3)]
      by (auto simp: take_put32 drop_put32 get32_put32_other)
  qed
qed

end

end
