(* ===== verification/Btf_Ext.thy ===== *)
theory Btf_Ext
  imports Btf Visitors
begin

text \<open>
  The section \<open>.BTF.ext\<close>, \<open>btf_ext__new\<close> of \<open>src/libbpf/src/btf.c\<close> and the structures of
  \<open>libbpf_internal.h\<close>: function, line and relocation records, grouped by section. A pointer into the
  data is an offset.
\<close>

section \<open>Structures\<close>

record btf_ext_header =
  x_magic :: u16
  x_version :: u8
  x_flags :: u8
  x_hdr_len :: nat
  func_info_off :: nat
  func_info_len :: nat
  line_info_off :: nat
  line_info_len :: nat
  core_relo_off :: nat
  core_relo_len :: nat

record btf_ext_info =
  ext_info :: nat
  ext_rec_size :: nat
  ext_len :: nat
  ext_sec_cnt :: nat

record btf_ext =
  ext_data :: "u8 list"
  ext_hdr :: btf_ext_header
  func_info :: btf_ext_info
  line_info :: btf_ext_info
  core_relo_info :: btf_ext_info

definition no_ext_info :: btf_ext_info where
  "no_ext_info = \<lparr>ext_info = 0, ext_rec_size = 0, ext_len = 0, ext_sec_cnt = 0\<rparr>"

definition sizeof_btf_ext_info_sec :: nat where "sizeof_btf_ext_info_sec = 8"
definition sizeof_bpf_func_info_min :: nat where "sizeof_bpf_func_info_min = 8"
definition sizeof_bpf_line_info_min :: nat where "sizeof_bpf_line_info_min = 16"
definition sizeof_bpf_core_relo :: nat where "sizeof_bpf_core_relo = 16"

abbreviation "u32_at d off \<equiv> unat (get32 d off)"

definition btf_ext_header_at :: "u8 list \<Rightarrow> btf_ext_header" where
  "btf_ext_header_at d =
     \<lparr>x_magic = get16 d 0, x_version = d ! 2, x_flags = d ! 3, x_hdr_len = u32_at d 4,
      func_info_off = u32_at d 8, func_info_len = u32_at d 12, line_info_off = u32_at d 16,
      line_info_len = u32_at d 20, core_relo_off = u32_at d 24, core_relo_len = u32_at d 28\<rparr>"

section \<open>Parsing\<close>

text \<open>The loop over the sections of an info block; the result counts them.\<close>

function ext_sections :: "u8 list \<Rightarrow> nat \<Rightarrow> nat \<Rightarrow> nat \<Rightarrow> nat \<Rightarrow> int + nat" where
  "ext_sections d sinfo info_left record_size sec_cnt =
     (if info_left = 0 then Inr sec_cnt
      else if info_left < sizeof_btf_ext_info_sec then Inl (- EINVAL)
      else
        let num_records = u32_at d (sinfo + 4) in
        if num_records = 0 then Inl (- EINVAL)
        else
          let total_record_size = sizeof_btf_ext_info_sec + num_records * record_size in
          if info_left < total_record_size then Inl (- EINVAL)
          else ext_sections d (sinfo + total_record_size) (info_left - total_record_size) record_size
                 (sec_cnt + 1))"
  by pat_completeness auto
termination
  by (relation "measure (\<lambda>(d, sinfo, info_left, record_size, sec_cnt). info_left)")
    (auto simp: sizeof_btf_ext_info_sec_def)

declare ext_sections.simps [simp del]

definition btf_ext_setup_info ::
  "u8 list \<Rightarrow> nat \<Rightarrow> nat \<Rightarrow> nat \<Rightarrow> nat \<Rightarrow> int + btf_ext_info" where
  "btf_ext_setup_info d hdr_len' off len min_rec_size =
     (if len = 0 then Inr no_ext_info
      else if off mod 4 \<noteq> 0 then Inl (- EINVAL)
      else
        let info' = hdr_len' + off; info_left = len in
        if length d < info' + len then Inl (- EINVAL)
        else if info_left < 4 then Inl (- EINVAL)
        else
          let record_size = u32_at d info' in
          if record_size < min_rec_size \<or> record_size mod 4 \<noteq> 0 then Inl (- EINVAL)
          else
            let sinfo = info' + 4; info_left = info_left - 4 in
            if info_left = 0 then Inl (- EINVAL)
            else case ext_sections d sinfo info_left record_size 0 of
              Inl err \<Rightarrow> Inl err
            | Inr sec_cnt \<Rightarrow>
                Inr \<lparr>ext_info = info' + 4, ext_rec_size = record_size, ext_len = len - 4,
                     ext_sec_cnt = sec_cnt\<rparr>)"

definition btf_ext_setup_func_info :: "u8 list \<Rightarrow> btf_ext_header \<Rightarrow> int + btf_ext_info" where
  "btf_ext_setup_func_info d h =
     btf_ext_setup_info d (x_hdr_len h) (func_info_off h) (func_info_len h) sizeof_bpf_func_info_min"

definition btf_ext_setup_line_info :: "u8 list \<Rightarrow> btf_ext_header \<Rightarrow> int + btf_ext_info" where
  "btf_ext_setup_line_info d h =
     btf_ext_setup_info d (x_hdr_len h) (line_info_off h) (line_info_len h) sizeof_bpf_line_info_min"

definition btf_ext_setup_core_relos :: "u8 list \<Rightarrow> btf_ext_header \<Rightarrow> int + btf_ext_info" where
  "btf_ext_setup_core_relos d h =
     btf_ext_setup_info d (x_hdr_len h) (core_relo_off h) (core_relo_len h) sizeof_bpf_core_relo"

definition btf_ext_parse_hdr :: "u8 list \<Rightarrow> int" where
  "btf_ext_parse_hdr d =
     (let h = btf_ext_header_at d in
      if length d < 8 \<or> length d < x_hdr_len h then - EINVAL
      else if x_magic h = bswap16 BTF_MAGIC then - ENOTSUP
      else if x_magic h \<noteq> BTF_MAGIC then - EINVAL
      else if x_version h \<noteq> BTF_VERSION then - ENOTSUP
      else if x_flags h \<noteq> 0 then - ENOTSUP
      else if length d = x_hdr_len h then - EINVAL
      else 0)"

text \<open>\<open>offsetofend(struct btf_ext_header, line_info_len)\<close> is 24, of \<open>core_relo_len\<close> 32.\<close>

definition btf_ext_new :: "bool \<Rightarrow> bool \<Rightarrow> u8 list \<Rightarrow> int + btf_ext" where
  "btf_ext_new ext_ok data_ok' data =
     (if \<not> ext_ok then Inl (- ENOMEM)
      else if \<not> data_ok' then Inl (- ENOMEM)
      else
        let err = btf_ext_parse_hdr data; h = btf_ext_header_at data in
        if err \<noteq> 0 then Inl err
        else if x_hdr_len h < 24 then Inl (- EINVAL)
        else case btf_ext_setup_func_info data h of
          Inl err \<Rightarrow> Inl err
        | Inr fi \<Rightarrow>
            (case btf_ext_setup_line_info data h of
               Inl err \<Rightarrow> Inl err
             | Inr li \<Rightarrow>
                 let ext = \<lparr>ext_data = data, ext_hdr = h, func_info = fi, line_info = li,
                       core_relo_info = no_ext_info\<rparr>
                 in if x_hdr_len h < 32 then Inr ext
                    else case btf_ext_setup_core_relos data h of
                      Inl err \<Rightarrow> Inl err
                    | Inr ci \<Rightarrow> Inr (ext\<lparr>core_relo_info := ci\<rparr>)))"

section \<open>Visiting records\<close>

text \<open>
  \<open>for_each_btf_ext_sec\<close>: the offsets of the sections of an info block between two offsets. The product
  of the two \<open>__u32\<close> wraps around.
\<close>

function ext_secs :: "u8 list \<Rightarrow> nat \<Rightarrow> nat \<Rightarrow> nat \<Rightarrow> nat list" where
  "ext_secs d sec endp rec_size =
     (if sec < endp
      then sec # ext_secs d (sec + sizeof_btf_ext_info_sec + rec_size * u32_at d (sec + 4) mod 2 ^ 32) endp rec_size
      else [])"
  by pat_completeness auto
termination
  by (relation "measure (\<lambda>(d, sec, endp, rec_size). endp - sec)") (auto simp: sizeof_btf_ext_info_sec_def)

declare ext_secs.simps [simp del]

definition btf_ext_secs :: "u8 list \<Rightarrow> btf_ext_info \<Rightarrow> nat list" where
  "btf_ext_secs d seg = ext_secs d (ext_info seg) (ext_info seg + ext_len seg) (ext_rec_size seg)"

text \<open>\<open>for_each_btf_ext_rec\<close>\<close>

definition btf_ext_recs :: "u8 list \<Rightarrow> btf_ext_info \<Rightarrow> nat \<Rightarrow> nat list" where
  "btf_ext_recs d seg sec = map (\<lambda>i. sec + sizeof_btf_ext_info_sec + i * ext_rec_size seg) [0..<u32_at d (sec + 4)]"

definition type_id_offs :: "btf_ext \<Rightarrow> nat list" where
  "type_id_offs x =
     (let d = ext_data x in
      concat (map (\<lambda>sec. map (\<lambda>rec. rec + 4) (btf_ext_recs d (func_info x) sec)) (btf_ext_secs d (func_info x))) @
      concat (map (\<lambda>sec. map (\<lambda>rec. rec + 4) (btf_ext_recs d (core_relo_info x) sec))
        (btf_ext_secs d (core_relo_info x))))"

definition btf_ext_visit_type_ids ::
  "btf_ext \<Rightarrow> 'c visit_fn \<Rightarrow> 'c \<Rightarrow> (btf_ext \<times> 'c \<times> int) option" where
  "btf_ext_visit_type_ids x visit ctx =
     (case visit_words (\<lambda>err. err < 0) visit (type_id_offs x) (ext_data x) ctx of
        None \<Rightarrow> None
      | Some (d, ctx, err) \<Rightarrow> Some (x\<lparr>ext_data := d\<rparr>, ctx, if err < 0 then err else 0))"

definition str_off_offs :: "btf_ext \<Rightarrow> nat list" where
  "str_off_offs x =
     (let d = ext_data x in
      btf_ext_secs d (func_info x) @
      concat (map (\<lambda>sec. sec # concat (map (\<lambda>rec. [rec + 4, rec + 8]) (btf_ext_recs d (line_info x) sec)))
        (btf_ext_secs d (line_info x))) @
      concat (map (\<lambda>sec. sec # map (\<lambda>rec. rec + 8) (btf_ext_recs d (core_relo_info x) sec))
        (btf_ext_secs d (core_relo_info x))))"

definition btf_ext_visit_str_offs ::
  "btf_ext \<Rightarrow> 'c visit_fn \<Rightarrow> 'c \<Rightarrow> (btf_ext \<times> 'c \<times> int) option" where
  "btf_ext_visit_str_offs x visit ctx =
     (case visit_words (\<lambda>err. err \<noteq> 0) visit (str_off_offs x) (ext_data x) ctx of
        None \<Rightarrow> None
      | Some (d, ctx, err) \<Rightarrow> Some (x\<lparr>ext_data := d\<rparr>, ctx, err))"

section \<open>Everything visited lies in the data\<close>

text \<open>The block of a valid info: whole sections between its start and its end, inside the data.\<close>

definition seg_ok :: "u8 list \<Rightarrow> btf_ext_info \<Rightarrow> nat \<Rightarrow> bool" where
  "seg_ok d seg min_rec \<longleftrightarrow>
     (\<forall>sec\<in>set (btf_ext_secs d seg).
        sec + 8 + u32_at d (sec + 4) * ext_rec_size seg \<le> length d) \<and>
     (btf_ext_secs d seg \<noteq> [] \<longrightarrow> min_rec \<le> ext_rec_size seg)"

lemma ext_sections_secs:
  assumes "ext_sections d sinfo left rs cnt = Inr n" "sec \<in> set (ext_secs d sinfo (sinfo + left) rs)" "left < 2 ^ 32"
  shows "sec + 8 + u32_at d (sec + 4) * rs \<le> sinfo + left"
  using assms
proof (induction d sinfo left rs cnt rule: ext_sections.induct)
  case (1 d sinfo left rs cnt)
  let ?n = "u32_at d (sinfo + 4)"
  let ?step = "sizeof_btf_ext_info_sec + ?n * rs"
  have left: "left \<noteq> 0"
    using "1.prems"(2) by (auto simp: ext_secs.simps [of d sinfo "sinfo + left" rs])
  then have step: "?step \<le> left" and r: "?n \<noteq> 0" "\<not> left < sizeof_btf_ext_info_sec"
    "ext_sections d (sinfo + ?step) (left - ?step) rs (cnt + 1) = Inr n"
    using "1.prems"(1) by (auto simp: ext_sections.simps [of d sinfo left rs cnt] Let_def split: if_splits)
  have wrap: "rs * ?n mod 2 ^ 32 = ?n * rs"
    using step "1.prems"(3) by (simp add: mult.commute)
  have "sec = sinfo \<or> sec \<in> set (ext_secs d (sinfo + ?step) (sinfo + left) rs)"
    using "1.prems"(2) unfolding ext_secs.simps [of d sinfo] wrap by (auto simp: add.assoc split: if_splits)
  then show ?case
  proof
    assume "sec = sinfo"
    with step show ?thesis by (simp add: sizeof_btf_ext_info_sec_def)
  next
    assume "sec \<in> set (ext_secs d (sinfo + ?step) (sinfo + left) rs)"
    moreover have e: "sinfo + left = sinfo + ?step + (left - ?step)" using step by simp
    moreover have "\<not> left < ?step" "left - ?step < 2 ^ 32" using step "1.prems"(3) by simp_all
    ultimately have "sec + 8 + u32_at d (sec + 4) * rs \<le> sinfo + ?step + (left - ?step)"
      using "1.IH" [OF left r(2) refl r(1) refl _ r(3)] by metis
    then show ?thesis using e by metis
  qed
qed

lemma setup_info_ok:
  assumes "btf_ext_setup_info d hl off len mr = Inr seg" "len < 2 ^ 32" shows "seg_ok d seg mr"
proof (cases "len = 0")
  case True
  with assms have "seg = no_ext_info" by (simp add: btf_ext_setup_info_def)
  then show ?thesis by (simp add: seg_ok_def btf_ext_secs_def no_ext_info_def ext_secs.simps)
next
  case False
  then obtain n where s: "ext_sections d (hl + off + 4) (len - 4) (u32_at d (hl + off)) 0 = Inr n"
    and seg: "seg = \<lparr>ext_info = hl + off + 4, ext_rec_size = u32_at d (hl + off), ext_len = len - 4, ext_sec_cnt = n\<rparr>"
    and b: "hl + off + len \<le> length d" "4 \<le> len" "mr \<le> u32_at d (hl + off)"
    using assms(1) by (auto simp: btf_ext_setup_info_def Let_def split: if_splits sum.splits)
  have "sec + 8 + u32_at d (sec + 4) * ext_rec_size seg \<le> length d" if "sec \<in> set (btf_ext_secs d seg)" for sec
  proof -
    have "len - 4 < 2 ^ 32" using assms(2) by simp
    with ext_sections_secs [OF s, of sec] that b show ?thesis by (simp add: btf_ext_secs_def seg)
  qed
  with b(3) show ?thesis by (simp add: seg_ok_def seg)
qed

lemma u32_at_less: "u32_at d off < 2 ^ 32"
  using unsigned_less [of "get32 d off"] by simp

lemma setup_ok:
  assumes "h = btf_ext_header_at data"
  shows "btf_ext_setup_func_info data h = Inr seg \<Longrightarrow> seg_ok data seg 8"
    "btf_ext_setup_line_info data h = Inr seg \<Longrightarrow> seg_ok data seg 16"
    "btf_ext_setup_core_relos data h = Inr seg \<Longrightarrow> seg_ok data seg 16"
proof -
  have l: "func_info_len h < 2 ^ 32" "line_info_len h < 2 ^ 32" "core_relo_len h < 2 ^ 32"
    using u32_at_less by (simp_all add: assms btf_ext_header_at_def)
  show "btf_ext_setup_func_info data h = Inr seg \<Longrightarrow> seg_ok data seg 8"
    "btf_ext_setup_line_info data h = Inr seg \<Longrightarrow> seg_ok data seg 16"
    "btf_ext_setup_core_relos data h = Inr seg \<Longrightarrow> seg_ok data seg 16"
    unfolding btf_ext_setup_func_info_def btf_ext_setup_line_info_def btf_ext_setup_core_relos_def
      sizeof_bpf_func_info_min_def sizeof_bpf_line_info_min_def sizeof_bpf_core_relo_def
    using setup_info_ok l by blast+
qed

lemma seg_ok_none: "seg_ok data no_ext_info m"
  by (simp add: seg_ok_def btf_ext_secs_def no_ext_info_def ext_secs.simps)

lemma ext_new_ok:
  assumes "btf_ext_new a b data = Inr x"
  shows "ext_data x = data \<and> seg_ok data (func_info x) 8 \<and> seg_ok data (line_info x) 16 \<and>
    seg_ok data (core_relo_info x) 16"
proof -
  define h where "h = btf_ext_header_at data"
  note ok = setup_ok [OF h_def]
  have a: "a" "b" "btf_ext_parse_hdr data = 0" "\<not> x_hdr_len h < 24"
    using assms by (auto simp: btf_ext_new_def Let_def h_def split: if_split_asm)
  note eq = assms [unfolded btf_ext_new_def Let_def, folded h_def, simplified a not_True_eq_False if_False]
  show ?thesis
  proof (cases "btf_ext_setup_func_info data h")
    case (Inl e)
    with eq a show ?thesis by simp
  next
    case fi: (Inr fi)
    show ?thesis
    proof (cases "btf_ext_setup_line_info data h")
      case (Inl e)
      with eq a fi show ?thesis by simp
    next
      case li: (Inr li)
      show ?thesis
      proof (cases "btf_ext_setup_core_relos data h")
        case (Inl e)
        with eq a fi li ok(1) [OF fi] ok(2) [OF li] seg_ok_none show ?thesis by (auto split: if_split_asm)
      next
        case ci: (Inr ci)
        with eq a fi li ok(1) [OF fi] ok(2) [OF li] ok(3) [OF ci] seg_ok_none show ?thesis
          by (auto split: if_split_asm)
      qed
    qed
  qed
qed

lemma seg_rec_in_data:
  assumes "seg_ok d seg m" "sec \<in> set (btf_ext_secs d seg)" "rc \<in> set (btf_ext_recs d seg sec)"
  shows "rc + m \<le> length d"
proof -
  obtain i where i: "i < u32_at d (sec + 4)" "rc = sec + 8 + i * ext_rec_size seg"
    using assms(3) by (auto simp: btf_ext_recs_def sizeof_btf_ext_info_sec_def)
  have m: "m \<le> ext_rec_size seg" using assms(1,2) by (auto simp: seg_ok_def)
  have "i * ext_rec_size seg + ext_rec_size seg \<le> u32_at d (sec + 4) * ext_rec_size seg"
    using i(1) mult_le_mono1 [of "Suc i" "u32_at d (sec + 4)" "ext_rec_size seg"] by simp
  with i(2) m assms(1,2) show ?thesis by (fastforce simp: seg_ok_def)
qed

lemma seg_sec_in_data: "seg_ok d seg m \<Longrightarrow> sec \<in> set (btf_ext_secs d seg) \<Longrightarrow> sec + 8 \<le> length d"
  by (fastforce simp: seg_ok_def)

text \<open>C35: every word the traversals of a parsed \<open>.BTF.ext\<close> read and write lies inside its data.\<close>

theorem btf_ext_in_bounds:
  assumes "btf_ext_new ext_ok data_ok' data = Inr x"
  shows "\<forall>off\<in>set (type_id_offs x) \<union> set (str_off_offs x). off + 4 \<le> length data"
proof
  fix off assume *: "off \<in> set (type_id_offs x) \<union> set (str_off_offs x)"
  from ext_new_ok [OF assms] have x: "ext_data x = data" "seg_ok data (func_info x) 8"
    "seg_ok data (line_info x) 16" "seg_ok data (core_relo_info x) 16" by simp_all
  note s = x(2-4) [THEN seg_sec_in_data] and r = x(2-4) [THEN seg_rec_in_data]
  from * show "off + 4 \<le> length data"
    unfolding type_id_offs_def str_off_offs_def Let_def x(1) set_append set_concat set_map
    by (auto dest: s r)
qed

text \<open>One function record: section name 1, record size 8, instruction 0 and type 1.\<close>

definition ex_ext :: "u8 list" where
  "ex_ext =
     [0x9F, 0xEB, 1, 0, 24, 0, 0, 0, 0, 0, 0, 0, 20, 0, 0, 0, 0, 0, 0, 0, 0, 0, 0, 0,
      8, 0, 0, 0, 1, 0, 0, 0, 1, 0, 0, 0, 0, 0, 0, 0, 1, 0, 0, 0]"

lemma ex_ext_words:
  "u32_at ex_ext 4 = 24" "u32_at ex_ext 8 = 0" "u32_at ex_ext 12 = 20" "u32_at ex_ext 16 = 0"
  "u32_at ex_ext 20 = 0" "u32_at ex_ext 24 = 8" "u32_at ex_ext 28 = 1" "u32_at ex_ext 32 = 1"
  "get16 ex_ext 0 = BTF_MAGIC" "ex_ext ! 2 = 1" "ex_ext ! 3 = 0" "length ex_ext = 44"
  by (simp_all add: ex_ext_def get32_def le32_def get16_def le16_def BTF_MAGIC_def)

lemma ex_ext_hdr: "btf_ext_parse_hdr ex_ext = 0"
proof -
  have "BTF_MAGIC \<noteq> bswap16 BTF_MAGIC" unfolding BTF_MAGIC_def by code_simp
  then show ?thesis by (simp add: btf_ext_parse_hdr_def btf_ext_header_at_def Let_def ex_ext_words BTF_VERSION_def)
qed

lemma ex_ext_sections: "ext_sections ex_ext 28 16 8 0 = Inr 1"
  by (simp add: ext_sections.simps sizeof_btf_ext_info_sec_def ex_ext_words)

lemma ex_ext_setup:
  "btf_ext_setup_info ex_ext 24 0 20 8 = Inr \<lparr>ext_info = 28, ext_rec_size = 8, ext_len = 16, ext_sec_cnt = 1\<rparr>"
  "btf_ext_setup_info ex_ext h' off 0 m = Inr no_ext_info"
  by (simp_all add: btf_ext_setup_info_def ex_ext_words ex_ext_sections)

lemma ex_ext_new:
  "btf_ext_new True True ex_ext =
     Inr \<lparr>ext_data = ex_ext, ext_hdr = btf_ext_header_at ex_ext,
       func_info = \<lparr>ext_info = 28, ext_rec_size = 8, ext_len = 16, ext_sec_cnt = 1\<rparr>,
       line_info = no_ext_info, core_relo_info = no_ext_info\<rparr>"
  by (simp add: btf_ext_new_def ex_ext_hdr Let_def btf_ext_setup_func_info_def btf_ext_setup_line_info_def
      sizeof_bpf_func_info_min_def ex_ext_setup ex_ext_words btf_ext_header_at_def)

lemma ex_ext_secs: "ext_secs ex_ext 28 44 8 = [28]" "ext_secs ex_ext 0 0 0 = []"
  by (simp_all add: ext_secs.simps sizeof_btf_ext_info_sec_def ex_ext_words)

lemma ex_ext_type_ids: "type_id_offs (projr (btf_ext_new True True ex_ext)) = [40]"
  by (simp add: ex_ext_new type_id_offs_def btf_ext_secs_def btf_ext_recs_def ex_ext_secs no_ext_info_def
      sizeof_btf_ext_info_sec_def ex_ext_words)

theorem btf_ext_in_bounds_witness:
  "\<exists>x. btf_ext_new True True ex_ext = Inr x \<and> type_id_offs x = [40] \<and>
     (\<forall>off\<in>set (type_id_offs x) \<union> set (str_off_offs x). off + 4 \<le> length ex_ext)"
proof (intro exI conjI)
  show "btf_ext_new True True ex_ext = Inr (projr (btf_ext_new True True ex_ext))" by (simp add: ex_ext_new)
  then show "\<forall>off\<in>set (type_id_offs (projr (btf_ext_new True True ex_ext))) \<union>
    set (str_off_offs (projr (btf_ext_new True True ex_ext))). off + 4 \<le> length ex_ext"
    by (rule btf_ext_in_bounds)
  show "type_id_offs (projr (btf_ext_new True True ex_ext)) = [40]"
    by (rule ex_ext_type_ids)
qed

end
