(* ===== verification/Btf_Object.thy ===== *)
theory Btf_Object
  imports Btf
begin

text \<open>
  Creating BTF objects and turning them back into raw data, \<open>src/libbpf/src/btf.c\<close>: \<open>btf_new\<close>,
  \<open>btf_new_empty\<close>, \<open>btf_get_raw_data\<close>, and the lookups by type and string offset.
\<close>

section \<open>Creation\<close>

definition btf__type_cnt :: "btf list \<Rightarrow> nat" where
  "btf__type_cnt b = (case b of [] \<Rightarrow> 1 | btf # _ \<Rightarrow> start_id btf + nr_types btf)"

definition empty_strset :: strset where
  "empty_strset = \<lparr>strs_data = [], strs_data_len = 0, strs_data_max_len = 0,
     strs_hash = hashmap_init (strset_hash_fn []) (strset_equal_fn [])\<rparr>"

text \<open>A null \<open>strs_set\<close> is the empty set; it is not used until the object is modifiable.\<close>

definition btf_calloc :: btf where
  "btf_calloc =
     \<lparr>raw_data = None, raw_data_swapped = None, raw_size = 0, swapped_endian = False, modifiable = False,
      hdr = \<lparr>magic = 0, version = 0, flags = 0, hdr_len = 0, type_off = 0, type_len = 0, str_off = 0, str_len = 0\<rparr>,
      hdr_tail = [], types_data = [], type_offs = [], nr_types = 0, start_id = 0, start_str_off = 0,
      btf_strs_data = [], strs_set = empty_strset, strs_deduped = False, ptr_sz = 0\<rparr>"

definition btf_new_empty :: "bool \<Rightarrow> bool \<Rightarrow> btf list \<Rightarrow> int + btf list" where
  "btf_new_empty btf_ok raw_ok base_btf =
     (if \<not> btf_ok then Inl (- ENOMEM)
      else
        let btf = btf_calloc\<lparr>nr_types := 0, start_id := 1, start_str_off := 0, ptr_sz := 8,
              swapped_endian := False\<rparr>;
            btf = (case base_btf of
                [] \<Rightarrow> btf
              | base # _ \<Rightarrow> btf\<lparr>start_id := btf__type_cnt base_btf,
                  start_str_off := unat (str_len (hdr base))\<rparr>);
            str_sz = (if base_btf \<noteq> [] then 0 else 1);
            btf = btf\<lparr>raw_size := sizeof_btf_header + str_sz\<rparr>
        in if \<not> raw_ok then Inl (- ENOMEM)
           else
             let h = \<lparr>magic = BTF_MAGIC, version = BTF_VERSION, flags = 0,
                   hdr_len = of_nat sizeof_btf_header, type_off = 0, type_len = 0, str_off = 0,
                   str_len = of_nat str_sz\<rparr>
             in Inr (btf\<lparr>raw_data := Some (btf_header_bytes h @ replicate str_sz 0), hdr := h,
                  types_data := [], btf_strs_data := replicate str_sz 0\<rparr> # base_btf))"

text \<open>
  \<open>raw_data\<close> is kept with the header and the types in host order: parsing swaps them in place.
\<close>

definition btf_new :: "bool \<Rightarrow> bool \<Rightarrow> (nat \<Rightarrow> bool) \<Rightarrow> u8 list \<Rightarrow> btf list \<Rightarrow> int + btf list" where
  "btf_new btf_ok raw_ok idx_ok data base_btf =
     (if \<not> btf_ok then Inl (- ENOMEM)
      else
        let btf = btf_calloc\<lparr>nr_types := 0, start_id := 1, start_str_off := 0\<rparr>;
            btf = (case base_btf of
                [] \<Rightarrow> btf
              | base # _ \<Rightarrow> btf\<lparr>start_id := btf__type_cnt base_btf,
                  start_str_off := unat (str_len (hdr base))\<rparr>)
        in if \<not> raw_ok then Inl (- ENOMEM)
           else case btf_parse_hdr data of
             Inl err \<Rightarrow> Inl err
           | Inr (swapped, h) \<Rightarrow>
               let strs = take (unat (str_len h)) (drop (unat (hdr_len h) + unat (str_off h)) data);
                   types_off = unat (hdr_len h) + unat (type_off h);
                   types = take (unat (type_len h)) (drop types_off data);
                   err = btf_parse_str_sec (base_btf \<noteq> []) strs
               in if err \<noteq> 0 then Inl err
                  else case btf_parse_type_sec idx_ok swapped (unat (type_len h)) types [] 0 0 of
                    Inl err \<Rightarrow> Inl err
                  | Inr (types, offs, nr) \<Rightarrow>
                      Inr (btf\<lparr>raw_data := Some (put (put data 0 (btf_header_bytes h)) types_off types),
                           raw_size := length data, swapped_endian := swapped, hdr := h,
                           hdr_tail := take (unat (hdr_len h) - sizeof_btf_header) (drop sizeof_btf_header data),
                           types_data := types, type_offs := offs, nr_types := nr,
                           btf_strs_data := strs\<rparr> # base_btf))"

section \<open>Raw data\<close>

definition btf_strs :: "btf \<Rightarrow> u8 list" where
  "btf_strs btf = (if modifiable btf then strs_data (strs_set btf) else btf_strs_data btf)"

text \<open>The loop of \<open>btf_get_raw_data\<close> over the copied types.\<close>

fun bswap_types :: "nat list \<Rightarrow> u8 list \<Rightarrow> u8 list option" where
  "bswap_types [] d = Some d"
| "bswap_types (off # offs) d =
     (case btf_bswap_type_rest d off of
        None \<Rightarrow> None
      | Some d \<Rightarrow> bswap_types offs (btf_bswap_type_base d off))"

definition btf_get_raw_data :: "bool \<Rightarrow> btf \<Rightarrow> bool \<Rightarrow> u8 list option" where
  "btf_get_raw_data ok btf swap_endian =
     (case (if swap_endian then raw_data_swapped btf else raw_data btf) of
        Some data \<Rightarrow> Some data
      | None \<Rightarrow>
          if \<not> ok then None
          else
            let h = hdr btf;
                hdr_data = take (unat (hdr_len h))
                  (btf_header_bytes (if swap_endian then btf_bswap_hdr h else h) @ hdr_tail btf);
                types = take (unat (type_len h)) (types_data btf)
            in case (if swap_endian then bswap_types (take (nr_types btf) (type_offs btf)) types
                     else Some types) of
                 None \<Rightarrow> None
               | Some types \<Rightarrow> Some (hdr_data @ types @ take (unat (str_len h)) (btf_strs btf)))"

definition btf__raw_data :: "bool \<Rightarrow> btf \<Rightarrow> btf \<times> u8 list option" where
  "btf__raw_data ok btf =
     (case btf_get_raw_data ok btf (swapped_endian btf) of
        None \<Rightarrow> (btf, None)
      | Some data \<Rightarrow>
          let btf = btf\<lparr>raw_size := length data\<rparr> in
          if swapped_endian btf then (btf\<lparr>raw_data_swapped := Some data\<rparr>, Some data)
          else (btf\<lparr>raw_data := Some data\<rparr>, Some data))"

section \<open>Lookups\<close>

fun btf_type_by_id :: "btf list \<Rightarrow> nat \<Rightarrow> btf_type" where
  "btf_type_by_id [] type_id = btf_void"
| "btf_type_by_id (btf # base_btf) type_id =
     (if type_id = 0 then btf_void
      else if type_id < start_id btf then btf_type_by_id base_btf type_id
      else type_at (types_data btf) (type_offs btf ! (type_id - start_id btf)))"

definition btf__type_by_id :: "btf list \<Rightarrow> nat \<Rightarrow> btf_type option" where
  "btf__type_by_id btf type_id =
     (if type_id \<ge> btf__type_cnt btf then None else Some (btf_type_by_id btf type_id))"

text \<open>A string is the bytes up to its terminator.\<close>

fun btf__str_by_offset :: "btf list \<Rightarrow> nat \<Rightarrow> u8 list option" where
  "btf__str_by_offset [] offset = None"
| "btf__str_by_offset (btf # base_btf) offset =
     (if offset < start_str_off btf then btf__str_by_offset base_btf offset
      else if offset - start_str_off btf < unat (str_len (hdr btf))
      then Some (c_str (btf_strs btf) (offset - start_str_off btf))
      else None)"

definition btf__name_by_offset :: "btf list \<Rightarrow> nat \<Rightarrow> u8 list option" where
  "btf__name_by_offset btf offset = btf__str_by_offset btf offset"

section \<open>Endianness\<close>

datatype btf_endianness = BTF_LITTLE_ENDIAN | BTF_BIG_ENDIAN

definition is_host_big_endian :: bool where "is_host_big_endian = False"

definition btf__endianness :: "btf \<Rightarrow> btf_endianness" where
  "btf__endianness btf =
     (if is_host_big_endian
      then if swapped_endian btf then BTF_LITTLE_ENDIAN else BTF_BIG_ENDIAN
      else if swapped_endian btf then BTF_BIG_ENDIAN else BTF_LITTLE_ENDIAN)"

definition btf__set_endianness :: "btf \<Rightarrow> btf_endianness \<Rightarrow> btf" where
  "btf__set_endianness btf endian =
     (let btf = btf\<lparr>swapped_endian := is_host_big_endian \<noteq> (endian = BTF_BIG_ENDIAN)\<rparr> in
      if \<not> swapped_endian btf then btf\<lparr>raw_data_swapped := None\<rparr> else btf)"

section \<open>Well-formed objects\<close>

text \<open>
  The index names consecutive types that fill the used part of the type region, and the identifiers
  of a split object continue those of its base.
\<close>

definition btf_ok :: "btf \<Rightarrow> bool" where
  "btf_ok btf \<longleftrightarrow>
     unat (type_len (hdr btf)) \<le> length (types_data btf) \<and> length (types_data btf) < 2 ^ 32 \<and>
     nr_types btf \<le> length (type_offs btf) \<and>
     types_from (types_data btf) (unat (type_len (hdr btf))) (take (nr_types btf) (type_offs btf)) 0"

fun btf_chain :: "btf list \<Rightarrow> bool" where
  "btf_chain [] \<longleftrightarrow> True"
| "btf_chain (btf # base_btf) \<longleftrightarrow>
     btf_ok btf \<and> start_id btf = btf__type_cnt base_btf \<and> btf_chain base_btf"

text \<open>Every word an accessor of the type's kind reads lies in the type's own data.\<close>

definition type_ok :: "btf_type \<Rightarrow> bool" where
  "type_ok t \<longleftrightarrow> (\<exists>n. btf_type_size t = Some n \<and> n = 12 + 4 * length (rest t))"

lemma btf_type_size_rest [simp]: "btf_type_size (t\<lparr>rest := r\<rparr>) = btf_type_size t"
  by (simp add: btf_type_size_def btf_vlen_def btf_kind_def)

lemma type_at_ok:
  assumes "btf_type_size (type_hdr_at d off) = Some n" shows "type_ok (type_at d off)"
proof -
  obtain m where "n = 4 * m" "12 \<le> n"
    using btf_type_size_ge [OF assms] btf_type_size_dvd [OF assms] by (auto elim!: dvdE)
  then have "n = 12 + 4 * (m - 3)" by simp
  with assms show ?thesis by (simp add: type_ok_def type_at_def)
qed

lemma type_by_id_ok:
  assumes "btf_chain b" "0 < type_id" "type_id < btf__type_cnt b"
  shows "type_ok (btf_type_by_id b type_id)"
  using assms
proof (induction b)
  case (Cons btf base)
  show ?case
  proof (cases "type_id < start_id btf")
    case True
    with Cons show ?thesis by simp
  next
    case False
    let ?i = "type_id - start_id btf"
    have i: "?i < nr_types btf" using False Cons.prems(3) by (simp add: btf__type_cnt_def)
    have "?i < length (take (nr_types btf) (type_offs btf))" using i Cons.prems(1) by (simp add: btf_ok_def)
    from types_from_nth [OF _ this] Cons.prems(1) i
    obtain n where "btf_type_size (type_hdr_at (types_data btf) (type_offs btf ! ?i)) = Some n"
      by (fastforce simp: btf_ok_def)
    with False Cons.prems(2) show ?thesis by (simp add: type_at_ok)
  qed
qed (simp add: btf__type_cnt_def)

section \<open>Types depend on their own bytes\<close>

lemma words_at_cong:
  assumes "take m d = take m d'" "p + 4 * n \<le> m" shows "words_at d p n = words_at d' p n"
  unfolding words_at_def
proof (rule map_cong)
  fix i assume "i \<in> set [0..<n]"
  then show "get32 d (p + 4 * i) = get32 d' (p + 4 * i)"
    by (intro get32_cong [OF assms(1)]) (use assms(2) in simp)
qed simp

lemma type_at_cong:
  assumes "take m d = take m d'" "btf_type_size (type_hdr_at d p) = Some n" "p + n \<le> m"
  shows "type_at d p = type_at d' p"
proof -
  have n: "12 \<le> n" "4 dvd n" using btf_type_size_ge [OF assms(2)] btf_type_size_dvd [OF assms(2)] by simp_all
  have h: "type_hdr_at d p = type_hdr_at d' p" by (rule type_hdr_at_cong [OF assms(1)]) (use n assms(3) in simp)
  have "words_at d (p + 12) ((n - 12) div 4) = words_at d' (p + 12) ((n - 12) div 4)"
    by (rule words_at_cong [OF assms(1)]) (use n assms(3) in auto)
  with h assms(2) show ?thesis by (simp add: type_at_def)
qed

lemma types_from_cong:
  assumes "types_from d endt offs p" "take endt d = take endt d'"
  shows "types_from d' endt offs p" and "map (type_at d') offs = map (type_at d) offs"
proof -
  have "types_from d' endt offs p \<and> map (type_at d') offs = map (type_at d) offs"
    using assms(1)
  proof (induction offs arbitrary: p)
    case (Cons off offs)
    then obtain n where n: "off = p" "btf_type_size (type_hdr_at d p) = Some n" "12 \<le> n" "p + n \<le> endt"
      "types_from d endt offs (p + n)" by (auto simp: types_from_Cons_iff)
    have "type_hdr_at d' p = type_hdr_at d p"
      by (rule type_hdr_at_cong [OF assms(2) [symmetric]]) (use n in simp)
    moreover have "type_at d' p = type_at d p"
      using type_at_cong [OF assms(2) n(2,4)] by simp
    ultimately show ?case using n Cons.IH [OF n(5)] by (simp add: types_from.simps(2))
  qed simp
  then show "types_from d' endt offs p" "map (type_at d') offs = map (type_at d) offs" by simp_all
qed

section \<open>Raw data and back\<close>

lemma get32_append: "get32 (A @ d) (length A + i) = get32 d i"
  by (simp add: get32_def nth_append add.assoc)

lemma type_hdr_at_append: "type_hdr_at (A @ d) (length A + i) = type_hdr_at d i"
  using get32_append [of A d "i + 4"] get32_append [of A d "i + 8"]
  by (simp add: type_hdr_at_def get32_append add.assoc)

lemma type_hdr_at_drop:
  assumes "p \<le> length d" "length A = p" shows "type_hdr_at (A @ drop p d) p = type_hdr_at d p"
proof -
  have "type_hdr_at (take p d @ drop p d) p = type_hdr_at (drop p d) 0"
    using type_hdr_at_append [of "take p d" "drop p d" 0] assms(1) by simp
  then show ?thesis using type_hdr_at_append [of A "drop p d" 0] assms(2) by simp
qed

lemma bswap_types_words:
  assumes "types_from d endt offs p" "length d = endt" "4 dvd p"
  shows "bswap_types offs (swap_words (take p d) @ drop p d) = Some (swap_words d)"
  using assms
proof (induction offs arbitrary: p)
  case (Cons off offs)
  let ?D = "\<lambda>p. swap_words (take p d) @ drop p d"
  obtain n where n: "off = p" "btf_type_size (type_hdr_at d p) = Some n" "4 dvd n" "p + n \<le> endt"
    "types_from d endt offs (p + n)" using Cons.prems(1) by (auto simp: types_from_Cons_iff)
  obtain P A B S where d: "d = P @ A @ B @ S" and len: "length P = p" "length A = n" "length B = 0"
    by (rule split_range [of p n 0 d]) (use n(4) Cons.prems(2) in simp_all)
  have hdr: "type_hdr_at (?D p) p = type_hdr_at d p"
    using type_hdr_at_drop [of p d "swap_words (take p d)"] n(4) Cons.prems(2) by simp
  obtain d' where d': "btf_bswap_type_rest (?D p) p = Some d'" "btf_bswap_type_base d' p = swap_range p n (?D p)"
    by (rule bswap_type_range [of "?D p" p n]) (use hdr n Cons.prems(2) in simp_all)
  have "swap_range p n (?D p) = ?D (p + n)"
    using swap_words_append [of P A] Cons.prems(3) len by (simp add: d swap_range_def)
  then show ?case
    using d' n Cons.IH [OF n(5) Cons.prems(2)] Cons.prems(3) by simp
qed simp

lemma header_at_bytes [simp]: "btf_header_at (btf_header_bytes h @ xs) = h"
  by (simp add: btf_header_at_def btf_header_bytes_def bytes16_def bytes32_def get16_def get32_def
      le16_byte_at [unfolded One_nat_def] nth_append numeral_eq_Suc
      le32_byte_at [unfolded One_nat_def numeral_2_eq_2 numeral_3_eq_3])

lemma length_header_bytes [simp]: "length (btf_header_bytes h) = 24"
  by (simp add: btf_header_bytes_def bytes16_def)

lemma bswap_hdr_twice [simp]: "btf_bswap_hdr (btf_bswap_hdr h) = h"
  by (simp add: btf_bswap_hdr_def)

text \<open>An object whose sections follow a header of the standard length without gaps.\<close>

definition btf_canonical :: "btf \<Rightarrow> bool" where
  "btf_canonical btf \<longleftrightarrow>
     btf_ok btf \<and> magic (hdr btf) = BTF_MAGIC \<and> hdr_len (hdr btf) = 24 \<and> hdr_tail btf = [] \<and>
     type_off (hdr btf) = 0 \<and> str_off (hdr btf) = type_len (hdr btf) \<and>
     unat (str_len (hdr btf)) \<le> length (btf_strs btf) \<and> nr_types btf \<le> BTF_MAX_NR_TYPES"

lemma parse_hdr_canonical:
  assumes "btf_canonical btf" "length types = unat (type_len (hdr btf))" "length strs = unat (str_len (hdr btf))"
  shows "btf_parse_hdr (btf_header_bytes (if swap then btf_bswap_hdr (hdr btf) else hdr btf) @ types @ strs) =
     Inr (swap, hdr btf)"
proof -
  have m: "BTF_MAGIC \<noteq> bswap16 BTF_MAGIC" "bswap16 (bswap16 BTF_MAGIC) = BTF_MAGIC" "bswap16 BTF_MAGIC \<noteq> BTF_MAGIC"
    by (simp_all add: BTF_MAGIC_def) (code_simp, code_simp)
  show ?thesis
    using assms m
    by (cases swap) (simp_all add: btf_parse_hdr_def btf_canonical_def sizeof_btf_header_def Let_def,
      simp_all add: btf_bswap_hdr_def)
qed

lemma raw_data_roundtrip:
  assumes c: "btf_canonical btf" and strs: "btf_parse_str_sec (base \<noteq> []) (take (unat (str_len (hdr btf))) (btf_strs btf)) = 0"
    and none: "(if swap then raw_data_swapped btf else raw_data btf) = None"
    and r: "btf_get_raw_data True btf swap = Some data"
  shows "\<exists>btf'. btf_new True True (\<lambda>_. True) data base = Inr (btf' # base) \<and> swapped_endian btf' = swap \<and>
     hdr btf' = hdr btf \<and> types_data btf' = take (unat (type_len (hdr btf))) (types_data btf) \<and>
     nr_types btf' = nr_types btf \<and>
     take (nr_types btf) (type_offs btf') = take (nr_types btf) (type_offs btf) \<and>
     btf_strs btf' = take (unat (str_len (hdr btf))) (btf_strs btf)"
proof -
  let ?h = "hdr btf"
  let ?endt = "unat (type_len ?h)" and ?offs = "take (nr_types btf) (type_offs btf)"
  let ?T = "take ?endt (types_data btf)" and ?S = "take (unat (str_len ?h)) (btf_strs btf)"
  have ok: "?endt \<le> length (types_data btf)" "nr_types btf \<le> length (type_offs btf)"
    "types_from (types_data btf) ?endt ?offs 0"
    using c by (simp_all add: btf_canonical_def btf_ok_def)
  have T: "types_from ?T ?endt ?offs 0" "length ?T = ?endt" 
    using types_from_cong [OF ok(3), of ?T] ok(1) by simp_all
  have lS: "length ?S = unat (str_len ?h)" using c by (simp add: btf_canonical_def)
  define types where "types = (if swap then swap_words ?T else ?T)"
  have lt: "length types = ?endt" using T(2) by (simp add: types_def)
  have data: "data = btf_header_bytes (if swap then btf_bswap_hdr ?h else ?h) @ types @ ?S"
    using r none bswap_types_words [OF T(1,2)] c
    by (auto simp: btf_get_raw_data_def Let_def types_def btf_canonical_def split: if_splits)
  obtain mem where mem: "btf_parse_type_sec (\<lambda>_. True) False ?endt ?T [] 0 0 = Inr (?T, mem, nr_types btf)"
    "take (nr_types btf) mem = ?offs"
    using parse_type_sec_complete [OF T(1), of "\<lambda>_. True" 0 "[]"] c ok(2) by (auto simp: btf_canonical_def)
  have parse: "btf_parse_type_sec (\<lambda>_. True) swap ?endt types [] 0 0 = Inr (?T, mem, nr_types btf)"
    using parse_type_sec_swapped [OF T(2), of 0 "\<lambda>_. True" "[]" 0] mem(1) by (simp add: types_def)
  have sec: "take (unat (str_len ?h)) (drop (unat (hdr_len ?h) + unat (str_off ?h)) data) = ?S"
    "take ?endt (drop (unat (hdr_len ?h) + unat (type_off ?h)) data) = types"
    using c lS lt by (simp_all add: data btf_canonical_def)
  have hdr: "btf_parse_hdr data = Inr (swap, ?h)"
    unfolding data by (rule parse_hdr_canonical [OF c lt lS])
  show ?thesis
    unfolding btf_new_def hdr Let_def
    using strs mem(2) by (cases base) (simp_all add: sec parse btf_strs_def btf_calloc_def)
qed

section \<open>Parsed objects are well-formed\<close>

lemma btf_new_chain:
  assumes "btf_new btf_ok' raw_ok idx_ok data base = Inr b" "btf_chain base" "length data < 2 ^ 32"
  shows "\<exists>btf. b = btf # base \<and> btf_chain b \<and> start_id btf = btf__type_cnt base"
proof -
  obtain swapped h where h: "btf_parse_hdr data = Inr (swapped, h)"
    using assms(1) by (auto simp: btf_new_def Let_def split: if_splits sum.splits)
  have lay: "unat (hdr_len h) + unat (str_off h) + unat (str_len h) \<le> length data"
    "unat (type_off h) + unat (type_len h) \<le> unat (str_off h)"
    using h by (auto simp: btf_parse_hdr_def Let_def split: if_splits sum.splits)
  let ?n = "unat (type_len h)"
  let ?T = "take ?n (drop (unat (hdr_len h) + unat (type_off h)) data)"
  have lT: "length ?T = ?n" using lay by simp
  obtain types offs nr where p: "btf_parse_type_sec idx_ok swapped ?n ?T [] 0 0 = Inr (types, offs, nr)"
    using assms(1) by (auto simp: btf_new_def Let_def h split: if_splits sum.splits)
  define d where "d = (if swapped then swap_words ?T else ?T)"
  have "btf_parse_type_sec idx_ok False ?n d [] 0 0 = Inr (types, offs, nr)"
    using p parse_type_sec_swapped [of d ?n 0 idx_ok "[]" 0] lT by (cases swapped) (simp_all add: d_def)
  from parse_type_sec_Inr [OF this] have t: "types = d" "nr \<le> length offs" "types_from d ?n (take nr offs) 0"
    by simp_all
  have ld: "length d = ?n" using lT by (simp add: d_def)
  define btf where "btf = hd b"
  have "b = btf # base \<and> hdr btf = h \<and> types_data btf = types \<and> type_offs btf = offs \<and> nr_types btf = nr \<and>
      start_id btf = btf__type_cnt base"
    using assms(1) unfolding btf_new_def Let_def h sum.case prod.case p btf_def
    by (cases base) (auto simp: btf__type_cnt_def btf_calloc_def split: if_split_asm)
  then have b: "b = btf # base" and f: "hdr btf = h" "types_data btf = types" "type_offs btf = offs"
    "nr_types btf = nr" "start_id btf = btf__type_cnt base" by simp_all
  have "btf_ok btf"
    using t ld unsigned_less [of "type_len h", where ?'a = nat] by (simp add: btf_ok_def f)
  with b f(5) assms(2) show ?thesis by simp
qed

end
