(* ===== verification/Btf_Resolve.thy ===== *)
theory Btf_Resolve
  imports Btf_Object
begin

text \<open>
  Questions about the types of a BTF object, \<open>src/libbpf/src/btf.c\<close>: pointer size, size and
  alignment of a type, the type behind typedefs and qualifiers, lookup by name.

  An identifier that the object does not have makes \<open>btf__type_by_id\<close> return a null pointer. A
  result \<open>None\<close> of \<open>btf__align_of\<close> stands for the dereference of one, or for more nested calls than
  its first argument allows.
\<close>

section \<open>Pointer size\<close>

definition long_aliases :: "string list" where
  "long_aliases =
     [''long'', ''long int'', ''int long'', ''unsigned long'', ''long unsigned'', ''unsigned long int'',
      ''unsigned int long'', ''long unsigned int'', ''long int unsigned'', ''int unsigned long'',
      ''int long unsigned'']"

definition bytes_of_string :: "string \<Rightarrow> u8 list" where
  "bytes_of_string s = map (\<lambda>c. of_nat (of_char c)) s"

text \<open>The loop over the identifiers from \<open>1\<close>.\<close>

fun find_long :: "btf list \<Rightarrow> nat list \<Rightarrow> int" where
  "find_long b [] = - 1"
| "find_long b (i # is) =
     (case btf__type_by_id b i of
        None \<Rightarrow> find_long b is
      | Some t \<Rightarrow>
          if \<not> btf_is_int t then find_long b is
          else if size_type t \<noteq> 4 \<and> size_type t \<noteq> 8 then find_long b is
          else case btf__name_by_offset b (unat (name_off t)) of
            None \<Rightarrow> find_long b is
          | Some name \<Rightarrow>
              if name \<in> set (map bytes_of_string long_aliases) then uint (size_type t)
              else find_long b is)"

definition determine_ptr_size :: "btf list \<Rightarrow> int" where
  "determine_ptr_size b =
     (case b of
        btf # base # _ \<Rightarrow>
          if ptr_sz base > 0 then ptr_sz base else find_long b [1..<btf__type_cnt b]
      | _ \<Rightarrow> find_long b [1..<btf__type_cnt b])"

text \<open>\<open>sizeof(void *)\<close> is 8 on the host. The first question caches its answer in \<open>ptr_sz\<close>.\<close>

definition cache_ptr_sz :: "btf list \<Rightarrow> btf list" where
  "cache_ptr_sz b =
     (case b of
        [] \<Rightarrow> []
      | btf # base \<Rightarrow> (if ptr_sz btf = 0 then btf\<lparr>ptr_sz := determine_ptr_size b\<rparr> # base else b))"

definition btf_ptr_sz :: "btf list \<Rightarrow> nat" where
  "btf_ptr_sz b =
     (case cache_ptr_sz b of
        [] \<Rightarrow> 8
      | btf # _ \<Rightarrow> (if ptr_sz btf < 0 then 8 else nat (ptr_sz btf)))"

lemma find_long_cases: "find_long b is \<in> {- 1, 4, 8}"
  by (induction "is") (auto simp: split: option.splits)

lemma btf_ptr_sz_pos: "0 < btf_ptr_sz b"
  using find_long_cases [of b "[1..<btf__type_cnt b]"]
  by (auto simp: btf_ptr_sz_def cache_ptr_sz_def determine_ptr_size_def split: list.splits)

definition btf__pointer_size :: "btf list \<Rightarrow> btf list \<times> nat" where
  "btf__pointer_size b =
     (let b = cache_ptr_sz b in
      case b of
        [] \<Rightarrow> (b, 0)
      | btf # _ \<Rightarrow> if ptr_sz btf < 0 then (b, 0) else (b, nat (ptr_sz btf)))"

definition btf__set_pointer_size :: "btf \<Rightarrow> nat \<Rightarrow> btf \<times> int" where
  "btf__set_pointer_size btf ptr_sz' =
     (if ptr_sz' \<noteq> 4 \<and> ptr_sz' \<noteq> 8 then (btf, - EINVAL) else (btf\<lparr>ptr_sz := int ptr_sz'\<rparr>, 0))"

section \<open>Sizes\<close>

definition MAX_RESOLVE_DEPTH :: nat where "MAX_RESOLVE_DEPTH = 32"

text \<open>\<open>btf__type_by_id\<close> returns the address of \<open>btf_void\<close> for the identifier 0 only.\<close>

definition btf_type_is_void_or_null :: "btf list \<Rightarrow> nat \<Rightarrow> bool" where
  "btf_type_is_void_or_null b type_id \<longleftrightarrow>
     (case btf__type_by_id b type_id of None \<Rightarrow> True | Some t \<Rightarrow> type_id = 0 \<or> btf_is_fwd t)"

definition sized_kinds :: "btf_kinds list" where
  "sized_kinds =
     [BTF_KIND_INT, BTF_KIND_STRUCT, BTF_KIND_UNION, BTF_KIND_ENUM, BTF_KIND_ENUM64, BTF_KIND_DATASEC,
      BTF_KIND_FLOAT]"

definition ref_kinds :: "btf_kinds list" where
  "ref_kinds =
     [BTF_KIND_TYPEDEF, BTF_KIND_VOLATILE, BTF_KIND_CONST, BTF_KIND_RESTRICT, BTF_KIND_VAR,
      BTF_KIND_DECL_TAG, BTF_KIND_TYPE_TAG]"

fun resolve_size_loop :: "nat \<Rightarrow> btf list \<Rightarrow> nat \<Rightarrow> u32 \<Rightarrow> int + int \<times> u32" where
  "resolve_size_loop 0 b type_id nelems = Inr (- 1, nelems)"
| "resolve_size_loop (Suc n) b type_id nelems =
     (if btf_type_is_void_or_null b type_id then Inr (- 1, nelems)
      else
        let t = btf_type_by_id b type_id in
        if btf_kind t \<in> set sized_kinds then Inr (uint (size_type t), nelems)
        else if btf_kind t = BTF_KIND_PTR then Inr (int (btf_ptr_sz b), nelems)
        else if btf_kind t \<in> set ref_kinds then resolve_size_loop n b (unat (size_type t)) nelems
        else if btf_kind t = BTF_KIND_ARRAY then
          let array = btf_array t in
          if nelems \<noteq> 0 \<and> a_nelems array > (- 1) div nelems then Inl (- E2BIG)
          else resolve_size_loop n b (unat (a_type array)) (nelems * a_nelems array)
        else Inl (- EINVAL))"

definition btf__resolve_size :: "btf list \<Rightarrow> nat \<Rightarrow> int" where
  "btf__resolve_size b type_id =
     (case resolve_size_loop MAX_RESOLVE_DEPTH b type_id 1 of
        Inl err \<Rightarrow> err
      | Inr (size', nelems) \<Rightarrow>
          if size' < 0 then - EINVAL
          else if nelems \<noteq> 0 \<and> size' > uint ((- 1) div nelems) then - E2BIG
          else uint nelems * size')"

text \<open>
  The size of a type as the format defines it. \<open>include/uapi/linux/btf.h\<close> says of which kinds the third word is a
  size and of which it is the identifier of another type; pointers and functions apart, the value of the
  latter is a value of that type. \<open>resolves b n i ds s\<close>: behind \<open>n\<close> references and arrays, with the dimensions
  \<open>ds\<close> from the outermost array inwards, the type \<open>i\<close> ends in a type of \<open>s\<close> bytes.
\<close>

definition kind_has_size :: "btf_kinds \<Rightarrow> bool" where
  "kind_has_size k \<longleftrightarrow>
     k \<in> {BTF_KIND_INT, BTF_KIND_ENUM, BTF_KIND_STRUCT, BTF_KIND_UNION, BTF_KIND_DATASEC, BTF_KIND_ENUM64,
       BTF_KIND_FLOAT}"

definition kind_has_type :: "btf_kinds \<Rightarrow> bool" where
  "kind_has_type k \<longleftrightarrow>
     k \<in> {BTF_KIND_PTR, BTF_KIND_TYPEDEF, BTF_KIND_VOLATILE, BTF_KIND_CONST, BTF_KIND_RESTRICT, BTF_KIND_FUNC,
       BTF_KIND_FUNC_PROTO, BTF_KIND_VAR, BTF_KIND_DECL_TAG, BTF_KIND_TYPE_TAG}"

inductive resolves :: "btf list \<Rightarrow> nat \<Rightarrow> nat \<Rightarrow> nat list \<Rightarrow> nat \<Rightarrow> bool" for b where
  sized: "btf__type_by_id b i = Some t \<Longrightarrow> kind_has_size (btf_kind t) \<Longrightarrow> resolves b 0 i [] (unat (size_type t))"
| pointer: "btf__type_by_id b i = Some t \<Longrightarrow> btf_kind t = BTF_KIND_PTR \<Longrightarrow> resolves b 0 i [] (btf_ptr_sz b)"
| same_as: "btf__type_by_id b i = Some t \<Longrightarrow> kind_has_type (btf_kind t) \<Longrightarrow>
    btf_kind t \<notin> {BTF_KIND_PTR, BTF_KIND_FUNC, BTF_KIND_FUNC_PROTO} \<Longrightarrow>
    resolves b n (unat (size_type t)) ds s \<Longrightarrow> resolves b (Suc n) i ds s"
| array_of: "btf__type_by_id b i = Some t \<Longrightarrow> btf_kind t = BTF_KIND_ARRAY \<Longrightarrow>
    resolves b n (unat (a_type (btf_array t))) ds s \<Longrightarrow>
    resolves b (Suc n) i (unat (a_nelems (btf_array t)) # ds) s"

text \<open>No product from the outside, and not the whole size, leaves 32 bits.\<close>

definition size_fits :: "nat list \<Rightarrow> nat \<Rightarrow> bool" where
  "size_fits ds s \<longleftrightarrow> (\<forall>j\<le>length ds. prod_list (take j ds) < 2 ^ 32) \<and> prod_list ds * s < 2 ^ 32"

lemma all_le_Suc: "(\<forall>j\<le>Suc n. P j) \<longleftrightarrow> P 0 \<and> (\<forall>j\<le>n. P (Suc j))"
  by (metis Suc_le_mono le0 not0_implies_Suc)

lemma overflow_int: "(x \<noteq> 0 \<and> int s > uint ((- 1) div x)) \<longleftrightarrow> 2 ^ 32 \<le> unat x * s" for x :: u32
proof (cases "x = 0")
  case False
  then have x: "0 < unat x" by (simp add: unat_gt_0)
  have "int s > uint ((- 1) div x) \<longleftrightarrow> (2 ^ 32 - 1) div unat x < s"
    unfolding uint_nat of_nat_less_iff by (simp add: unat_div unsigned_minus_1_eq_mask mask_eq_exp_minus_1)
  also have "\<dots> \<longleftrightarrow> 2 ^ 32 - 1 < unat x * s" using x by (simp add: div_less_iff_less_mult mult.commute)
  finally show ?thesis using False by auto
qed simp

lemma overflow_iff: "(x \<noteq> 0 \<and> y > (- 1) div x) \<longleftrightarrow> 2 ^ 32 \<le> unat x * unat y" for x y :: u32
  using overflow_int [of x "unat y"] by (simp add: word_less_def)

lemma not_void:
  assumes "btf__type_by_id b i = Some t" "btf_kind t \<notin> {BTF_KIND_UNKN, BTF_KIND_FWD}"
  shows "\<not> btf_type_is_void_or_null b i" "btf_type_by_id b i = t"
proof -
  show t: "btf_type_by_id b i = t" using assms(1) by (auto simp: btf__type_by_id_def split: if_splits)
  have "btf_kind (btf_type_by_id b 0) = BTF_KIND_UNKN" 
    by (cases b) (simp_all add: btf_void_def btf_kind_def BTF_INFO_KIND_def kind_of_def all_kinds_def)
  then have "i \<noteq> 0" using assms(2) t by (cases "i = 0") auto
  then show "\<not> btf_type_is_void_or_null b i"
    using assms by (simp add: btf_type_is_void_or_null_def btf_is_fwd_def)
qed

lemma resolve_loop_exact:
  assumes "resolves b n i ds s" "n < k"
  shows "resolve_size_loop k b i ne =
     (if \<forall>j\<le>length ds. unat ne * prod_list (take j ds) < 2 ^ 32
      then Inr (int s, of_nat (unat ne * prod_list ds)) else Inl (- E2BIG))"
  using assms
proof (induction arbitrary: k ne rule: resolves.induct)
  case (sized i t)
  then have r: "btf_kind t \<in> set sized_kinds" "btf_kind t \<notin> {BTF_KIND_UNKN, BTF_KIND_FWD}"
    by (auto simp: kind_has_size_def sized_kinds_def)
  obtain k' where k: "k = Suc k'" using sized.prems by (cases k) auto
  have "unat ne < 2 ^ 32" using unsigned_less [of ne] by simp
  with not_void [OF sized.hyps(1) r(2)] r(1) show ?case by (simp add: k Let_def)
next
  case (pointer i t)
  obtain k' where k: "k = Suc k'" using pointer.prems by (cases k) auto
  have "unat ne < 2 ^ 32" using unsigned_less [of ne] by simp
  with not_void [OF pointer.hyps(1)] pointer.hyps(2) show ?case by (simp add: k Let_def sized_kinds_def)
next
  case (same_as i t n ds s)
  from same_as.prems obtain k' where k: "k = Suc k'" "n < k'" by (cases k) auto
  have r: "btf_kind t \<in> set ref_kinds" "btf_kind t \<notin> set sized_kinds" "btf_kind t \<noteq> BTF_KIND_PTR"
    "btf_kind t \<notin> {BTF_KIND_UNKN, BTF_KIND_FWD}"
    using same_as.hyps(2,3) by (auto simp: kind_has_type_def ref_kinds_def sized_kinds_def)
  show ?case using not_void [OF same_as.hyps(1) r(4)] r same_as.IH [OF k(2), of ne] by (simp add: k(1) Let_def)
next
  case (array_of i t n ds s)
  from array_of.prems obtain k' where k: "k = Suc k'" "n < k'" by (cases k) auto
  let ?d = "a_nelems (btf_array t)"
  have step: "resolve_size_loop k b i ne =
      (if ne \<noteq> 0 \<and> ?d > (- 1) div ne then Inl (- E2BIG)
       else resolve_size_loop k' b (unat (a_type (btf_array t))) (ne * ?d))"
    using array_of.hyps(2) not_void [OF array_of.hyps(1)] by (simp add: k(1) Let_def sized_kinds_def ref_kinds_def)
  show ?case
  proof (cases "2 ^ 32 \<le> unat ne * unat ?d")
    case True
    then have "\<not> (\<forall>j\<le>length (unat ?d # ds). unat ne * prod_list (take j (unat ?d # ds)) < 2 ^ 32)"
      by (intro notI) (drule spec [of _ 1], simp)
    with True step show ?thesis unfolding overflow_iff by simp
  next
    case False
    then have u: "unat (ne * ?d) = unat ne * unat ?d" by (simp add: unat_word_ariths(2))
    have "(\<forall>j\<le>length (unat ?d # ds). unat ne * prod_list (take j (unat ?d # ds)) < 2 ^ 32) \<longleftrightarrow>
        (\<forall>j\<le>length ds. unat (ne * ?d) * prod_list (take j ds) < 2 ^ 32)"
      unfolding u using False unsigned_less [of ne, where ?'a = nat] by (auto simp: all_le_Suc mult.assoc)
    with False step array_of.IH [OF k(2), of "ne * ?d"] show ?thesis
      unfolding overflow_iff by (simp add: u mult.assoc)
  qed
qed

lemma resolve_loop_chain:
  assumes "resolve_size_loop k b i ne = Inr (s, ne')" "0 \<le> s"
  shows "\<exists>n<k. \<exists>ds. resolves b n i ds (nat s)"
  using assms
proof (induction k arbitrary: i ne)
  case (Suc k)
  then have nv: "\<not> btf_type_is_void_or_null b i" by (auto split: if_splits)
  then obtain t where t: "btf__type_by_id b i = Some t" "btf_type_by_id b i = t"
    by (auto simp: btf_type_is_void_or_null_def btf__type_by_id_def split: option.splits if_splits)
  consider (sized) "btf_kind t \<in> set sized_kinds" | (ptr) "btf_kind t = BTF_KIND_PTR"
    | (ref) "btf_kind t \<in> set ref_kinds" "btf_kind t \<notin> set sized_kinds" "btf_kind t \<noteq> BTF_KIND_PTR"
    | (arr) "btf_kind t = BTF_KIND_ARRAY"
    using Suc.prems nv t(2) by (auto simp: Let_def split: if_splits)
  then show ?case
  proof cases
    case sized
    then have "kind_has_size (btf_kind t)" by (auto simp: kind_has_size_def sized_kinds_def)
    moreover have "s = uint (size_type t)" using Suc.prems nv t(2) sized by (simp add: Let_def)
    ultimately show ?thesis using resolves.sized [OF t(1)] by auto
  next
    case ptr
    then have "s = int (btf_ptr_sz b)" using Suc.prems nv t(2) by (simp add: Let_def sized_kinds_def)
    then show ?thesis using resolves.pointer [OF t(1) ptr] by auto
  next
    case ref
    then have "resolve_size_loop k b (unat (size_type t)) ne = Inr (s, ne')"
      using Suc.prems nv t(2) by (simp add: Let_def)
    moreover have "kind_has_type (btf_kind t)" "btf_kind t \<notin> {BTF_KIND_PTR, BTF_KIND_FUNC, BTF_KIND_FUNC_PROTO}"
      using ref(1) by (auto simp: kind_has_type_def ref_kinds_def)
    ultimately show ?thesis using Suc.IH [OF _ Suc.prems(2)] resolves.same_as [OF t(1)] by (meson Suc_less_eq)
  next
    case arr
    then have "resolve_size_loop k b (unat (a_type (btf_array t))) (ne * a_nelems (btf_array t)) = Inr (s, ne')"
      using Suc.prems nv t(2) by (simp add: Let_def sized_kinds_def ref_kinds_def split: if_splits)
    then show ?thesis using Suc.IH [OF _ Suc.prems(2)] resolves.array_of [OF t(1) arr] by (meson Suc_less_eq)
  qed
qed simp

lemma resolve_size_exact:
  assumes "resolves b n i ds s" "n < MAX_RESOLVE_DEPTH"
  shows "btf__resolve_size b i = (if size_fits ds s then int (prod_list ds * s) else - E2BIG)"
proof (cases "\<forall>j\<le>length ds. prod_list (take j ds) < 2 ^ 32")
  case True
  then have p: "prod_list ds < 2 ^ 32" using order_refl by fastforce
  define w where "w = (of_nat (prod_list ds) :: u32)"
  have w: "unat w = prod_list ds" using p by (simp add: w_def unsigned_of_nat take_bit_eq_mod)
  have r: "resolve_size_loop MAX_RESOLVE_DEPTH b i 1 = Inr (int s, w)"
    using resolve_loop_exact [OF assms, of 1] True by (simp add: w_def)
  have "w \<noteq> 0 \<and> int s > uint ((- 1) div w) \<longleftrightarrow> 2 ^ 32 \<le> unat w * s"
    by (rule overflow_int)
  moreover have "uint w = int (prod_list ds)" using w by (simp add: uint_nat)
  ultimately show ?thesis using True by (simp add: btf__resolve_size_def r size_fits_def w)
next
  case False
  then show ?thesis
    using resolve_loop_exact [OF assms, of 1] by (auto simp: btf__resolve_size_def size_fits_def)
qed

lemma resolve_size_chain:
  assumes "0 \<le> btf__resolve_size b i"
  shows "\<exists>n<MAX_RESOLVE_DEPTH. \<exists>ds s. resolves b n i ds s"
proof -
  have "err < 0" if "resolve_size_loop k b i ne = Inl err" for k i ne err
    using that by (induction k arbitrary: i ne) (auto simp: Let_def errno_defs split: if_splits)
  with assms obtain s ne where "resolve_size_loop MAX_RESOLVE_DEPTH b i 1 = Inr (s, ne)" "0 \<le> s"
    by (fastforce simp: btf__resolve_size_def errno_defs split: sum.splits if_splits)
  with resolve_loop_chain show ?thesis by blast
qed

section \<open>Alignment\<close>

text \<open>The loop over the members: \<open>Inl\<close> is a return from inside the loop.\<close>

fun align_members :: "(nat \<Rightarrow> int option) \<Rightarrow> btf_type \<Rightarrow> nat list \<Rightarrow> int \<Rightarrow> (int + int) option" where
  "align_members align_of t [] max_align = Some (Inr max_align)"
| "align_members align_of t (i # is) max_align =
     (let m = btf_members t i in
      case align_of (unat (m_type m)) of
        None \<Rightarrow> None
      | Some align \<Rightarrow>
          if align \<le> 0 then Some (Inl align)
          else
            let max_align = max max_align align in
            if btf_member_bitfield_size t i = 0 \<and> uint (m_offset m) mod (8 * align) \<noteq> 0
            then Some (Inl 1)
            else align_members align_of t is max_align)"

fun btf__align_of :: "nat \<Rightarrow> btf list \<Rightarrow> nat \<Rightarrow> int option" where
  "btf__align_of 0 b type_id = None"
| "btf__align_of (Suc n) b type_id =
     (case btf__type_by_id b type_id of
        None \<Rightarrow> None
      | Some t \<Rightarrow>
          let kind = btf_kind t in
          if kind \<in> {BTF_KIND_INT, BTF_KIND_ENUM, BTF_KIND_ENUM64, BTF_KIND_FLOAT}
          then Some (min (int (btf_ptr_sz b)) (uint (size_type t)))
          else if kind = BTF_KIND_PTR then Some (int (btf_ptr_sz b))
          else if kind \<in> {BTF_KIND_TYPEDEF, BTF_KIND_VOLATILE, BTF_KIND_CONST, BTF_KIND_RESTRICT,
              BTF_KIND_TYPE_TAG}
          then btf__align_of n b (unat (size_type t))
          else if kind = BTF_KIND_ARRAY then btf__align_of n b (unat (a_type (btf_array t)))
          else if kind \<in> {BTF_KIND_STRUCT, BTF_KIND_UNION} then
            (case align_members (btf__align_of n b) t [0..<btf_vlen t] 1 of
               None \<Rightarrow> None
             | Some (Inl r) \<Rightarrow> Some r
             | Some (Inr max_align) \<Rightarrow>
                 if uint (size_type t) mod max_align \<noteq> 0 then Some 1 else Some max_align)
          else Some 0)"

text \<open>More nested calls do not change a result.\<close>

lemma align_members_mono:
  assumes "\<And>i a. f i = Some a \<Longrightarrow> g i = Some a" "align_members f t is mx = Some r"
  shows "align_members g t is mx = Some r"
  using assms(2)
proof (induction "is" arbitrary: mx)
  case (Cons i "is")
  then obtain a where a: "f (unat (m_type (btf_members t i))) = Some a"
    by (auto simp: Let_def split: option.splits)
  with Cons assms(1) [OF a] show ?case by (auto simp: Let_def split: if_splits)
qed simp

lemma align_of_mono: "btf__align_of n b i = Some a \<Longrightarrow> btf__align_of (n + k) b i = Some a"
proof (induction n arbitrary: i a)
  case (Suc n)
  have m: "align_members (btf__align_of (n + k) b) t is mx = Some r"
    if "align_members (btf__align_of n b) t is mx = Some r" for t "is" mx r
    using align_members_mono [of "btf__align_of n b"] Suc.IH that by blast
  show ?case
  proof (cases "btf__type_by_id b i")
    case (Some t)
    then show ?thesis
      using Suc.prems Suc.IH
      by (auto simp: Let_def dest!: m split: if_splits option.splits sum.splits)
  qed (use Suc.prems in simp)
qed simp

lemma align_members_bounds:
  assumes "align_members f t is mx = Some r" "\<And>i a. f i = Some a \<Longrightarrow> 0 \<le> a \<and> a \<le> B" "1 \<le> mx" "mx \<le> B"
  shows "case r of Inl a \<Rightarrow> 0 \<le> a \<and> a \<le> B | Inr a \<Rightarrow> 1 \<le> a \<and> a \<le> B"
  using assms(1,3,4)
proof (induction "is" arbitrary: mx)
  case (Cons i "is")
  then obtain a where a: "f (unat (m_type (btf_members t i))) = Some a"
    by (auto simp: Let_def split: option.splits)
  note b = assms(2) [OF a]
  show ?case
  proof (cases "a \<le> 0 \<or> btf_member_bitfield_size t i = 0 \<and>
      uint (m_offset (btf_members t i)) mod (8 * a) \<noteq> 0")
    case True
    with Cons.prems a b show ?thesis by (auto simp: Let_def split: if_splits)
  next
    case False
    then have "align_members f t is (max mx a) = Some r" using Cons.prems a by (auto simp: Let_def split: if_splits)
    from Cons.IH [OF this] Cons.prems b show ?thesis by simp
  qed
qed auto

text \<open>An alignment is between 0, for a type that has none, and the size of a pointer.\<close>

lemma align_of_bounds:
  assumes "btf__align_of n b i = Some a"
  shows "0 \<le> a \<and> a \<le> int (btf_ptr_sz b)"
  using assms
proof (induction n arbitrary: i a)
  case (Suc n)
  obtain t where t: "btf__type_by_id b i = Some t" using Suc.prems by (auto split: option.splits)
  show ?case
  proof (cases "btf_kind t \<in> {BTF_KIND_STRUCT, BTF_KIND_UNION}")
    case True
    then obtain r where r: "align_members (btf__align_of n b) t [0..<btf_vlen t] 1 = Some r"
      using Suc.prems t by (auto split: option.splits)
    have "case r of Inl a \<Rightarrow> 0 \<le> a \<and> a \<le> int (btf_ptr_sz b) | Inr a \<Rightarrow> 1 \<le> a \<and> a \<le> int (btf_ptr_sz b)"
      by (rule align_members_bounds [OF r]) (use Suc.IH btf_ptr_sz_pos [of b] in auto)
    with True Suc.prems t r btf_ptr_sz_pos [of b] show ?thesis
      by (auto split: sum.splits if_splits)
  next
    case False
    with Suc t show ?thesis by (auto simp: Let_def split: if_splits)
  qed
qed simp

text \<open>The types whose alignment the alignment of a type needs.\<close>

definition align_refs :: "btf_type \<Rightarrow> nat set" where
  "align_refs t =
     (if btf_kind t \<in> {BTF_KIND_TYPEDEF, BTF_KIND_VOLATILE, BTF_KIND_CONST, BTF_KIND_RESTRICT,
        BTF_KIND_TYPE_TAG} then {unat (size_type t)}
      else if btf_kind t = BTF_KIND_ARRAY then {unat (a_type (btf_array t))}
      else if btf_kind t \<in> {BTF_KIND_STRUCT, BTF_KIND_UNION}
      then (\<lambda>i. unat (m_type (btf_members t i))) ` {..<btf_vlen t}
      else {})"

lemma align_members_defined:
  "(\<And>i. i \<in> set is \<Longrightarrow> f (unat (m_type (btf_members t i))) \<noteq> None) \<Longrightarrow> align_members f t is mx \<noteq> None"
  by (induction "is" arbitrary: mx) (fastforce simp: Let_def)+

lemma align_of_defined:
  assumes "\<And>i. i \<in> S \<Longrightarrow>
      \<exists>t. btf__type_by_id b i = Some t \<and> (\<forall>j\<in>align_refs t. j \<in> S \<and> rank j < (rank i :: nat))"
    and "i \<in> S" "rank i < n"
  shows "btf__align_of n b i \<noteq> None"
  using assms(2,3)
proof (induction n arbitrary: i)
  case (Suc n)
  obtain t where t: "btf__type_by_id b i = Some t" "\<And>j. j \<in> align_refs t \<Longrightarrow> j \<in> S \<and> rank j < rank i"
    using assms(1) [OF Suc.prems(1)] by auto
  have refs: "btf__align_of n b j \<noteq> None" if "j \<in> align_refs t" for j
    using t(2) [OF that] Suc.IH [of j] Suc.prems(2) by simp
  show ?case
  proof (cases "btf_kind t \<in> {BTF_KIND_STRUCT, BTF_KIND_UNION}")
    case True
    then have "align_members (btf__align_of n b) t [0..<btf_vlen t] 1 \<noteq> None"
      by (intro align_members_defined refs) (auto simp: align_refs_def)
    with True t(1) show ?thesis by (auto split: sum.splits)
  next
    case False
    with t(1) refs show ?thesis by (auto simp: Let_def align_refs_def)
  qed
qed simp

section \<open>Resolving references\<close>

fun resolve_type_loop :: "nat \<Rightarrow> btf list \<Rightarrow> nat \<Rightarrow> nat \<times> nat" where
  "resolve_type_loop 0 b type_id = (0, type_id)"
| "resolve_type_loop (Suc n) b type_id =
     (let t = btf_type_by_id b type_id in
      if \<not> btf_type_is_void_or_null b type_id \<and> (btf_is_mod t \<or> btf_is_typedef t \<or> btf_is_var t)
      then resolve_type_loop n b (unat (size_type t))
      else (Suc n, type_id))"

text \<open>The first component is how many more rounds were allowed: 0 when the depth is exhausted.\<close>

definition btf__resolve_type :: "btf list \<Rightarrow> nat \<Rightarrow> int" where
  "btf__resolve_type b type_id =
     (case resolve_type_loop MAX_RESOLVE_DEPTH b type_id of
        (left, type_id) \<Rightarrow>
          if left = 0 \<or> btf_type_is_void_or_null b type_id then - EINVAL else int type_id)"

text \<open>\<open>j\<close> is the type the qualifier, typedef or variable \<open>i\<close> refers to.\<close>

definition refers :: "btf list \<Rightarrow> (nat \<times> nat) set" where
  "refers b = {(i, unat (size_type (btf_type_by_id b i))) | i.
     \<not> btf_type_is_void_or_null b i \<and>
     (btf_is_mod (btf_type_by_id b i) \<or> btf_is_typedef (btf_type_by_id b i) \<or> btf_is_var (btf_type_by_id b i))}"

lemma refers_iff:
  "(i, j) \<in> refers b \<longleftrightarrow>
     \<not> btf_type_is_void_or_null b i \<and> j = unat (size_type (btf_type_by_id b i)) \<and>
     (btf_is_mod (btf_type_by_id b i) \<or> btf_is_typedef (btf_type_by_id b i) \<or> btf_is_var (btf_type_by_id b i))"
  by (auto simp: refers_def)

lemma refers_det: "(i, k) \<in> refers b \<Longrightarrow> (i, k') \<in> refers b \<Longrightarrow> k = k'"
  by (simp add: refers_iff)

lemma resolve_type_loop_spec:
  assumes "resolve_type_loop n b i = (left, j)"
  shows "left \<le> n \<and> (i, j) \<in> refers b ^^ (n - left) \<and> (left \<noteq> 0 \<longrightarrow> (\<forall>k. (j, k) \<notin> refers b))"
  using assms
proof (induction n arbitrary: i)
  case (Suc n)
  show ?case
  proof (cases "\<exists>k. (i, k) \<in> refers b")
    case True
    then obtain k where k: "(i, k) \<in> refers b" by blast
    then have "resolve_type_loop n b k = (left, j)" using Suc.prems by (simp add: Let_def refers_iff)
    note IH = Suc.IH [OF this]
    then have "(i, j) \<in> refers b ^^ Suc (n - left)" using k by (meson relpow_Suc_I2)
    with IH show ?thesis by (metis Suc_diff_le le_SucI)
  next
    case False
    then have "left = Suc n" "j = i" using Suc.prems by (auto simp: Let_def refers_iff)
    with False show ?thesis by auto
  qed
qed simp

lemma relpow_prefix: "(i, j) \<in> R ^^ m \<Longrightarrow> n < m \<Longrightarrow> \<exists>x y. (i, x) \<in> R ^^ n \<and> (x, y) \<in> R"
proof (induction m arbitrary: j)
  case (Suc m)
  then obtain x where "(i, x) \<in> R ^^ m" "(x, j) \<in> R" by (meson relpow_Suc_E)
  with Suc show ?case by (cases "n = m") (auto simp: less_Suc_eq)
qed simp

lemma resolve_type_iff:
  "btf__resolve_type b i = int j \<longleftrightarrow>
     \<not> btf_type_is_void_or_null b j \<and> (\<forall>k. (j, k) \<notin> refers b) \<and> (\<exists>n<MAX_RESOLVE_DEPTH. (i, j) \<in> refers b ^^ n)"
proof -
  obtain left j' where r: "resolve_type_loop MAX_RESOLVE_DEPTH b i = (left, j')"
    by (cases "resolve_type_loop MAX_RESOLVE_DEPTH b i")
  note spec = resolve_type_loop_spec [OF r]
  have det: "k = k'" if "(i, k) \<in> refers b ^^ n" "(i, k') \<in> refers b ^^ n" for i k k' n
    using that
  proof (induction n arbitrary: k k')
    case (Suc n)
    then show ?case by (metis relpow_Suc_E refers_det)
  qed simp
  show ?thesis
  proof
    assume "btf__resolve_type b i = int j"
    then have "left \<noteq> 0" "\<not> btf_type_is_void_or_null b j'" "j = j'"
      by (auto simp: btf__resolve_type_def r errno_defs split: if_splits)
    moreover have "MAX_RESOLVE_DEPTH - left < MAX_RESOLVE_DEPTH"
      using \<open>left \<noteq> 0\<close> by (simp add: MAX_RESOLVE_DEPTH_def)
    ultimately show "\<not> btf_type_is_void_or_null b j \<and> (\<forall>k. (j, k) \<notin> refers b) \<and>
        (\<exists>n<MAX_RESOLVE_DEPTH. (i, j) \<in> refers b ^^ n)"
      using spec by blast
  next
    assume "\<not> btf_type_is_void_or_null b j \<and> (\<forall>k. (j, k) \<notin> refers b) \<and>
        (\<exists>n<MAX_RESOLVE_DEPTH. (i, j) \<in> refers b ^^ n)"
    then obtain n where j: "\<not> btf_type_is_void_or_null b j" "\<And>k. (j, k) \<notin> refers b"
      "n < MAX_RESOLVE_DEPTH" "(i, j) \<in> refers b ^^ n" by blast
    let ?m = "MAX_RESOLVE_DEPTH - left"
    have "\<not> n < ?m"
    proof
      assume "n < ?m"
      with spec obtain x y where "(i, x) \<in> refers b ^^ n" "(x, y) \<in> refers b"
        by (meson relpow_prefix)
      with j(2,4) det show False by blast
    qed
    have "left \<noteq> 0"
    proof
      assume "left = 0"
      with \<open>\<not> n < ?m\<close> j(3) show False by simp
    qed
    then have stop: "(j', k) \<notin> refers b" for k using spec by blast
    have "\<not> ?m < n"
    proof
      assume "?m < n"
      with j(4) obtain x y where "(i, x) \<in> refers b ^^ ?m" "(x, y) \<in> refers b"
        by (meson relpow_prefix)
      with stop spec det show False by blast
    qed
    with \<open>\<not> n < ?m\<close> have "n = ?m" by simp
    with det j(4) spec have "j' = j" by blast
    with r j(1) \<open>left \<noteq> 0\<close> show "btf__resolve_type b i = int j" by (simp add: btf__resolve_type_def)
  qed
qed

section \<open>Lookup by name\<close>

fun find_name :: "(btf_type \<Rightarrow> bool) \<Rightarrow> btf list \<Rightarrow> u8 list \<Rightarrow> nat list \<Rightarrow> int" where
  "find_name skip b type_name [] = - ENOENT"
| "find_name skip b type_name (i # is) =
     (case btf__type_by_id b i of
        None \<Rightarrow> find_name skip b type_name is
      | Some t \<Rightarrow>
          if skip t then find_name skip b type_name is
          else case btf__name_by_offset b (unat (name_off t)) of
            Some name \<Rightarrow> if type_name = name then int i else find_name skip b type_name is
          | None \<Rightarrow> find_name skip b type_name is)"

definition btf__find_by_name :: "btf list \<Rightarrow> u8 list \<Rightarrow> int" where
  "btf__find_by_name b type_name =
     (if type_name = bytes_of_string ''void'' then 0
      else find_name (\<lambda>_. False) b type_name [1..<btf__type_cnt b])"

definition btf_find_by_name_kind :: "btf list \<Rightarrow> nat \<Rightarrow> u8 list \<Rightarrow> btf_kinds \<Rightarrow> int" where
  "btf_find_by_name_kind b start type_name kind =
     (if kind = BTF_KIND_UNKN \<or> type_name = bytes_of_string ''void'' then 0
      else find_name (\<lambda>t. btf_kind t \<noteq> kind) b type_name [start..<btf__type_cnt b])"

definition btf__find_by_name_kind_own :: "btf list \<Rightarrow> u8 list \<Rightarrow> btf_kinds \<Rightarrow> int" where
  "btf__find_by_name_kind_own b type_name kind =
     btf_find_by_name_kind b (case b of [] \<Rightarrow> 1 | btf # _ \<Rightarrow> start_id btf) type_name kind"

definition btf__find_by_name_kind :: "btf list \<Rightarrow> u8 list \<Rightarrow> btf_kinds \<Rightarrow> int" where
  "btf__find_by_name_kind b type_name kind = btf_find_by_name_kind b 1 type_name kind"

definition named :: "btf list \<Rightarrow> (btf_type \<Rightarrow> bool) \<Rightarrow> u8 list \<Rightarrow> nat \<Rightarrow> bool" where
  "named b skip name i \<longleftrightarrow>
     (\<exists>t. btf__type_by_id b i = Some t \<and> \<not> skip t \<and> btf__name_by_offset b (unat (name_off t)) = Some name)"

lemma find_name_spec:
  "find_name skip b name is =
     (case filter (named b skip name) is of [] \<Rightarrow> - ENOENT | i # _ \<Rightarrow> int i)"
  by (induction "is") (auto simp: named_def split: option.splits)

lemma find_name_upt:
  assumes "find_name skip b name [m..<n] = r"
  shows "(r = - ENOENT \<longrightarrow> (\<forall>i. m \<le> i \<and> i < n \<longrightarrow> \<not> named b skip name i)) \<and>
     (r \<noteq> - ENOENT \<longrightarrow> (\<exists>i. r = int i \<and> m \<le> i \<and> i < n \<and> named b skip name i \<and>
        (\<forall>j. m \<le> j \<and> j < i \<longrightarrow> \<not> named b skip name j)))"
  using assms
proof (induction "n - m" arbitrary: m)
  case 0
  then show ?case by fastforce
next
  case (Suc k)
  then have m: "m < n" "k = n - Suc m" by simp_all
  show ?case
  proof (cases "named b skip name m")
    case True
    then have "r = int m" using Suc.prems m(1) by (simp add: find_name_spec upt_conv_Cons)
    with True m(1) show ?thesis by (auto simp: errno_defs)
  next
    case False
    then have "find_name skip b name [Suc m..<n] = r"
      using Suc.prems m(1) by (simp add: find_name_spec upt_conv_Cons)
    from Suc.hyps(1) [OF m(2) this] False show ?thesis
      by (metis Suc_le_eq le_neq_implies_less less_imp_le_nat less_Suc_eq_le)
  qed
qed

end
