(* ===== verification/Btf_Build.thy ===== *)
theory Btf_Build
  imports Btf_Object
begin

text \<open>
  Adding to BTF objects, the \<open>btf__add_*\<close> functions of \<open>src/libbpf/src/btf.c\<close>.

  An operation takes the fates of its allocations: \<open>env 0\<close> for the object, \<open>env 1\<close> for its base and so
  on. It returns the object and its bases, which a string lookup makes modifiable, and the result of
  the C function: an identifier, an offset, 0, or a negative error. A string argument is \<open>None\<close> for a
  null pointer.
\<close>

section \<open>Making an object modifiable\<close>

record btf_env =
  hdr_ok :: bool
  types_ok :: bool
  set_ok :: bool
  map_ok :: bool
  data_ok :: bool
  index_al :: "nat \<Rightarrow> alloc"
  str_ok :: bool
  str_al :: alloc
  mem_ok :: bool
  offs_ok :: bool

definition btf_invalidate_raw_data :: "btf \<Rightarrow> btf" where
  "btf_invalidate_raw_data btf = btf\<lparr>raw_data := None, raw_data_swapped := None\<rparr>"

text \<open>
  The code allocates \<open>hdr_len\<close> bytes for the copy of the header and \<open>btf_parse_hdr\<close> accepts any \<open>hdr_len\<close>; below
  the 24 bytes of \<open>struct btf_header\<close> the rest of the header is no longer in the allocated memory, and every later
  access to it is out of bounds. The model keeps a whole header, so it describes the code for objects with
  \<open>hdr_len\<close> at least 24.
\<close>

definition btf_ensure_modifiable :: "btf_env \<Rightarrow> bool \<Rightarrow> btf \<Rightarrow> btf \<times> int" where
  "btf_ensure_modifiable env has_base btf =
     (if modifiable btf then (btf_invalidate_raw_data btf, 0)
      else if \<not> hdr_ok env \<or> \<not> types_ok env then (btf, - ENOMEM)
      else case strset_new (set_ok env) (map_ok env) (data_ok env) (index_al env) BTF_MAX_STR_OFFSET
             (Some (btf_strs_data btf)) of
        Inl err \<Rightarrow> (btf, err)
      | Inr ss \<Rightarrow>
          let btf = btf\<lparr>modifiable := True, types_data := take (unat (type_len (hdr btf))) (types_data btf),
                btf_strs_data := [], strs_set := ss\<rparr>;
              btf = (if str_len (hdr btf) = 0 then btf\<lparr>strs_deduped := True\<rparr> else btf);
              btf = (if \<not> has_base \<and> str_len (hdr btf) = 1 then btf\<lparr>strs_deduped := True\<rparr> else btf)
          in (btf_invalidate_raw_data btf, 0))"

section \<open>Strings\<close>

fun btf__find_str :: "(nat \<Rightarrow> btf_env) \<Rightarrow> btf list \<Rightarrow> u8 list \<Rightarrow> btf list \<times> int" where
  "btf__find_str env [] s = ([], - ENOENT)"
| "btf__find_str env (btf # base) s =
     (case btf__find_str (\<lambda>n. env (Suc n)) base s of
        (base, off) \<Rightarrow>
          if off \<noteq> - ENOENT then (btf # base, off)
          else case btf_ensure_modifiable (env 0) (base \<noteq> []) btf of
            (btf, err) \<Rightarrow>
              if err \<noteq> 0 then (btf # base, - ENOMEM)
              else case strset_find_str (str_ok (env 0)) (strs_set btf) s of
                (ss, off) \<Rightarrow>
                  (btf\<lparr>strs_set := ss\<rparr> # base, if off < 0 then off else int (start_str_off btf) + off))"

fun btf__add_str :: "(nat \<Rightarrow> btf_env) \<Rightarrow> btf list \<Rightarrow> u8 list \<Rightarrow> btf list \<times> int" where
  "btf__add_str env [] s = ([], - ENOENT)"
| "btf__add_str env (btf # base) s =
     (case btf__find_str (\<lambda>n. env (Suc n)) base s of
        (base, off) \<Rightarrow>
          if off \<noteq> - ENOENT then (btf # base, off)
          else case btf_ensure_modifiable (env 0) (base \<noteq> []) btf of
            (btf, err) \<Rightarrow>
              if err \<noteq> 0 then (btf # base, - ENOMEM)
              else case strset_add_str (str_al (env 0)) (str_ok (env 0)) (strs_set btf) s of
                (ss, off) \<Rightarrow>
                  if off < 0 then (btf\<lparr>strs_set := ss\<rparr> # base, off)
                  else (btf\<lparr>strs_set := ss,
                          hdr := (hdr btf)\<lparr>str_len := of_nat (strs_data_len ss)\<rparr>\<rparr> # base,
                        int (start_str_off btf) + off))"

section \<open>Appending types and entries\<close>

definition UINT_MAX :: nat where "UINT_MAX = 0xffffffff"

definition btf_add_type_mem :: "btf_env \<Rightarrow> btf \<Rightarrow> nat \<Rightarrow> btf option" where
  "btf_add_type_mem env btf add_sz =
     (case libbpf_add_mem (mem_ok env) 0 (types_data btf) (unat (type_len (hdr btf))) UINT_MAX add_sz of
        None \<Rightarrow> None
      | Some d \<Rightarrow> Some (btf\<lparr>types_data := d\<rparr>))"

definition btf_commit_type :: "btf_env \<Rightarrow> btf \<Rightarrow> nat \<Rightarrow> btf \<times> int" where
  "btf_commit_type env btf data_sz =
     (case btf_add_type_idx_entry (offs_ok env) (type_offs btf) (nr_types btf) (unat (type_len (hdr btf))) of
        None \<Rightarrow> (btf, - ENOMEM)
      | Some offs \<Rightarrow>
          (let btf = btf\<lparr>type_offs := offs,
                 hdr := (hdr btf)\<lparr>type_len := type_len (hdr btf) + of_nat data_sz,
                   str_off := str_off (hdr btf) + of_nat data_sz\<rparr>,
                 nr_types := nr_types btf + 1\<rparr>
           in (btf, int (start_id btf) + int (nr_types btf) - 1)))"

text \<open>\<open>name && name[0]\<close>\<close>

definition has_name :: "u8 list option \<Rightarrow> bool" where
  "has_name name \<longleftrightarrow> name \<noteq> None \<and> name \<noteq> Some []"

definition btf_add_name :: "(nat \<Rightarrow> btf_env) \<Rightarrow> btf list \<Rightarrow> u8 list option \<Rightarrow> btf list \<times> int" where
  "btf_add_name env b name = (if has_name name then btf__add_str env b (the name) else (b, 0))"

definition type_bytes :: "btf_type \<Rightarrow> u8 list" where
  "type_bytes t = concat (map bytes32 (name_off t # info t # size_type t # rest t))"

text \<open>
  The part the functions that append a type share: \<open>btf_ensure_modifiable\<close>, \<open>btf_add_type_mem\<close>, the
  name, the stores of the members of \<open>t\<close>, \<open>btf_commit_type\<close>.
\<close>

definition btf_append_type ::
  "(nat \<Rightarrow> btf_env) \<Rightarrow> btf list \<Rightarrow> nat \<Rightarrow> u8 list option \<Rightarrow> (u32 \<Rightarrow> btf_type) \<Rightarrow> btf list \<times> int" where
  "btf_append_type env b n name t =
     (case b of
        [] \<Rightarrow> ([], - EINVAL)
      | btf # base \<Rightarrow>
          (case btf_ensure_modifiable (env 0) (base \<noteq> []) btf of
             (btf, err) \<Rightarrow>
               if err \<noteq> 0 then (btf # base, - ENOMEM)
               else case btf_add_type_mem (env 0) btf n of
                 None \<Rightarrow> (btf # base, - ENOMEM)
               | Some btf \<Rightarrow>
                   (case btf_add_name env (btf # base) name of
                      (b, noff) \<Rightarrow>
                        if noff < 0 then (b, noff)
                        else case b of
                          [] \<Rightarrow> ([], - EINVAL)
                        | btf # base \<Rightarrow>
                            (let p = unat (type_len (hdr btf));
                                 btf = btf\<lparr>types_data := put (types_data btf) p (type_bytes (t (word_of_int noff)))\<rparr>
                             in case btf_commit_type (env 0) btf n of
                                  (btf, r) \<Rightarrow> (btf # base, r)))))"

definition btf_last_type :: "btf list \<Rightarrow> btf_type" where
  "btf_last_type b = btf_type_by_id b (btf__type_cnt b - 1)"

definition set_info :: "btf \<Rightarrow> nat \<Rightarrow> u32 \<Rightarrow> btf" where
  "set_info btf type_id i = btf\<lparr>types_data := put32 (types_data btf) (type_offs btf ! (type_id - start_id btf) + 4) i\<rparr>"

text \<open>
  The part the functions that append a member, enumerator, parameter or variable to the last type
  share; \<open>new_info\<close> is the info word they give that type.
\<close>

definition btf_append_entry ::
  "(nat \<Rightarrow> btf_env) \<Rightarrow> btf list \<Rightarrow> nat \<Rightarrow> u8 list option \<Rightarrow> (u32 \<Rightarrow> u32 list) \<Rightarrow> (btf_type \<Rightarrow> u32) \<Rightarrow>
     btf list \<times> int" where
  "btf_append_entry env b n name entry new_info =
     (case b of
        [] \<Rightarrow> ([], - EINVAL)
      | btf # base \<Rightarrow>
          (case btf_ensure_modifiable (env 0) (base \<noteq> []) btf of
             (btf, err) \<Rightarrow>
               if err \<noteq> 0 then (btf # base, - ENOMEM)
               else case btf_add_type_mem (env 0) btf n of
                 None \<Rightarrow> (btf # base, - ENOMEM)
               | Some btf \<Rightarrow>
                   (case btf_add_name env (btf # base) name of
                      (b, noff) \<Rightarrow>
                        if noff < 0 then (b, noff)
                        else case b of
                          [] \<Rightarrow> ([], - EINVAL)
                        | btf # base \<Rightarrow>
                            (let p = unat (type_len (hdr btf));
                                 btf = btf\<lparr>types_data :=
                                   put (types_data btf) p (concat (map bytes32 (entry (word_of_int noff))))\<rparr>;
                                 t = btf_last_type (btf # base);
                                 btf = set_info btf (btf__type_cnt (btf # base) - 1) (new_info t);
                                 btf = btf\<lparr>hdr := (hdr btf)\<lparr>type_len := type_len (hdr btf) + of_nat n,
                                   str_off := str_off (hdr btf) + of_nat n\<rparr>\<rparr>
                             in (btf # base, 0)))))"

text \<open>\<open>btf_type_inc_vlen\<close>\<close>

definition btf_type_inc_vlen :: "btf_type \<Rightarrow> u32" where
  "btf_type_inc_vlen t = btf_type_info (btf_kind t) (btf_vlen t + 1) (btf_kflag t)"

section \<open>The operations\<close>

definition pow2 :: "nat \<Rightarrow> bool" where
  "pow2 n \<longleftrightarrow> n \<noteq> 0 \<and> n AND (n - 1) = 0"

definition mk_type :: "btf_kinds \<Rightarrow> nat \<Rightarrow> bool \<Rightarrow> u32 \<Rightarrow> u32 list \<Rightarrow> u32 \<Rightarrow> btf_type" where
  "mk_type kind vlen kflag sz_or_type r name_off' =
     \<lparr>name_off = name_off', info = btf_type_info kind vlen kflag, size_type = sz_or_type, rest = r\<rparr>"

definition btf__add_int ::
  "(nat \<Rightarrow> btf_env) \<Rightarrow> btf list \<Rightarrow> u8 list option \<Rightarrow> nat \<Rightarrow> u32 \<Rightarrow> btf list \<times> int" where
  "btf__add_int env b name byte_sz encoding =
     (if \<not> has_name name then (b, - EINVAL)
      else if \<not> pow2 byte_sz \<or> byte_sz > 16 then (b, - EINVAL)
      else if encoding AND NOT (BTF_INT_SIGNED OR BTF_INT_CHAR OR BTF_INT_BOOL) \<noteq> 0 then (b, - EINVAL)
      else btf_append_type env b 16 name
        (mk_type BTF_KIND_INT 0 False (of_nat byte_sz)
           [push_bit 24 encoding OR of_nat (byte_sz * 8)]))"

definition btf__add_float :: "(nat \<Rightarrow> btf_env) \<Rightarrow> btf list \<Rightarrow> u8 list option \<Rightarrow> nat \<Rightarrow> btf list \<times> int" where
  "btf__add_float env b name byte_sz =
     (if \<not> has_name name then (b, - EINVAL)
      else if byte_sz \<noteq> 2 \<and> byte_sz \<noteq> 4 \<and> byte_sz \<noteq> 8 \<and> byte_sz \<noteq> 12 \<and> byte_sz \<noteq> 16
      then (b, - EINVAL)
      else btf_append_type env b 12 name (mk_type BTF_KIND_FLOAT 0 False (of_nat byte_sz) []))"

definition validate_type_id :: "int \<Rightarrow> bool" where
  "validate_type_id type_id \<longleftrightarrow> \<not> (type_id < 0 \<or> type_id > int BTF_MAX_NR_TYPES)"

definition btf_add_ref_kind ::
  "(nat \<Rightarrow> btf_env) \<Rightarrow> btf list \<Rightarrow> btf_kinds \<Rightarrow> u8 list option \<Rightarrow> int \<Rightarrow> btf list \<times> int" where
  "btf_add_ref_kind env b kind name ref_type_id =
     (if \<not> validate_type_id ref_type_id then (b, - EINVAL)
      else btf_append_type env b 12 name (mk_type kind 0 False (word_of_int ref_type_id) []))"

definition btf__add_ptr :: "(nat \<Rightarrow> btf_env) \<Rightarrow> btf list \<Rightarrow> int \<Rightarrow> btf list \<times> int" where
  "btf__add_ptr env b ref_type_id = btf_add_ref_kind env b BTF_KIND_PTR None ref_type_id"

definition btf__add_array :: "(nat \<Rightarrow> btf_env) \<Rightarrow> btf list \<Rightarrow> int \<Rightarrow> int \<Rightarrow> u32 \<Rightarrow> btf list \<times> int" where
  "btf__add_array env b index_type_id elem_type_id nr_elems =
     (if \<not> validate_type_id index_type_id \<or> \<not> validate_type_id elem_type_id then (b, - EINVAL)
      else btf_append_type env b 24 None
        (mk_type BTF_KIND_ARRAY 0 False 0 [word_of_int elem_type_id, word_of_int index_type_id, nr_elems]))"

definition btf_add_composite ::
  "(nat \<Rightarrow> btf_env) \<Rightarrow> btf list \<Rightarrow> btf_kinds \<Rightarrow> u8 list option \<Rightarrow> u32 \<Rightarrow> btf list \<times> int" where
  "btf_add_composite env b kind name bytes_sz =
     btf_append_type env b 12 name (mk_type kind 0 False bytes_sz [])"

definition btf__add_struct :: "(nat \<Rightarrow> btf_env) \<Rightarrow> btf list \<Rightarrow> u8 list option \<Rightarrow> u32 \<Rightarrow> btf list \<times> int" where
  "btf__add_struct env b name byte_sz = btf_add_composite env b BTF_KIND_STRUCT name byte_sz"

definition btf__add_union :: "(nat \<Rightarrow> btf_env) \<Rightarrow> btf list \<Rightarrow> u8 list option \<Rightarrow> u32 \<Rightarrow> btf list \<times> int" where
  "btf__add_union env b name byte_sz = btf_add_composite env b BTF_KIND_UNION name byte_sz"

definition own_types :: "btf list \<Rightarrow> nat" where
  "own_types b = (case b of [] \<Rightarrow> 0 | btf # _ \<Rightarrow> nr_types btf)"

definition btf__add_field ::
  "(nat \<Rightarrow> btf_env) \<Rightarrow> btf list \<Rightarrow> u8 list option \<Rightarrow> int \<Rightarrow> u32 \<Rightarrow> u32 \<Rightarrow> btf list \<times> int" where
  "btf__add_field env b name type_id bit_offset bit_size =
     (if own_types b = 0 then (b, - EINVAL)
      else
        let t = btf_last_type b in
        if \<not> btf_is_composite t then (b, - EINVAL)
        else if \<not> validate_type_id type_id then (b, - EINVAL)
        else
          let is_bitfield = (bit_size \<noteq> 0 \<or> bit_offset mod 8 \<noteq> 0) in
          if is_bitfield \<and> (bit_size = 0 \<or> bit_size > 255 \<or> bit_offset > 0xffffff) then (b, - EINVAL)
          else if btf_is_union t \<and> bit_offset \<noteq> 0 then (b, - EINVAL)
          else btf_append_entry env b 12 name
            (\<lambda>name_off. [name_off, word_of_int type_id, bit_offset OR push_bit 24 bit_size])
            (\<lambda>t. btf_type_info (btf_kind t) (btf_vlen t + 1) (is_bitfield \<or> btf_kflag t)))"

definition btf_add_enum_common ::
  "(nat \<Rightarrow> btf_env) \<Rightarrow> btf list \<Rightarrow> u8 list option \<Rightarrow> nat \<Rightarrow> bool \<Rightarrow> btf_kinds \<Rightarrow> btf list \<times> int" where
  "btf_add_enum_common env b name byte_sz is_signed kind =
     (if \<not> pow2 byte_sz \<or> byte_sz > 8 then (b, - EINVAL)
      else btf_append_type env b 12 name (mk_type kind 0 is_signed (of_nat byte_sz) []))"

definition btf__add_enum :: "(nat \<Rightarrow> btf_env) \<Rightarrow> btf list \<Rightarrow> u8 list option \<Rightarrow> nat \<Rightarrow> btf list \<times> int" where
  "btf__add_enum env b name byte_sz = btf_add_enum_common env b name byte_sz False BTF_KIND_ENUM"

definition btf__add_enum_value :: "(nat \<Rightarrow> btf_env) \<Rightarrow> btf list \<Rightarrow> u8 list option \<Rightarrow> int \<Rightarrow> btf list \<times> int" where
  "btf__add_enum_value env b name val =
     (if own_types b = 0 then (b, - EINVAL)
      else
        let t = btf_last_type b in
        if \<not> btf_is_enum t then (b, - EINVAL)
        else if \<not> has_name name then (b, - EINVAL)
        else if val < - (2 ^ 31) \<or> val > int UINT_MAX then (b, - E2BIG)
        else btf_append_entry env b 8 name (\<lambda>name_off. [name_off, word_of_int val])
          (\<lambda>t. let t = t\<lparr>info := btf_type_inc_vlen t\<rparr> in
             if val < 0 then btf_type_info (btf_kind t) (btf_vlen t) True else info t))"

definition btf__add_enum64 ::
  "(nat \<Rightarrow> btf_env) \<Rightarrow> btf list \<Rightarrow> u8 list option \<Rightarrow> nat \<Rightarrow> bool \<Rightarrow> btf list \<times> int" where
  "btf__add_enum64 env b name byte_sz is_signed =
     btf_add_enum_common env b name byte_sz is_signed BTF_KIND_ENUM64"

definition btf__add_enum64_value ::
  "(nat \<Rightarrow> btf_env) \<Rightarrow> btf list \<Rightarrow> u8 list option \<Rightarrow> u64 \<Rightarrow> btf list \<times> int" where
  "btf__add_enum64_value env b name val =
     (if own_types b = 0 then (b, - EINVAL)
      else
        let t = btf_last_type b in
        if \<not> btf_is_enum64 t then (b, - EINVAL)
        else if \<not> has_name name then (b, - EINVAL)
        else btf_append_entry env b 12 name
          (\<lambda>name_off. [name_off, ucast val, ucast (drop_bit 32 val)]) btf_type_inc_vlen)"

datatype btf_fwd_kind = BTF_FWD_STRUCT | BTF_FWD_UNION | BTF_FWD_ENUM

definition set_info_id :: "btf list \<Rightarrow> int \<Rightarrow> u32 \<Rightarrow> btf list" where
  "set_info_id b type_id i = (case b of [] \<Rightarrow> [] | btf # base \<Rightarrow> set_info btf (nat type_id) i # base)"

definition btf__add_fwd ::
  "(nat \<Rightarrow> btf_env) \<Rightarrow> btf list \<Rightarrow> u8 list option \<Rightarrow> btf_fwd_kind \<Rightarrow> btf list \<times> int" where
  "btf__add_fwd env b name fwd_kind =
     (if \<not> has_name name then (b, - EINVAL)
      else if fwd_kind = BTF_FWD_STRUCT \<or> fwd_kind = BTF_FWD_UNION then
        (case btf_add_ref_kind env b BTF_KIND_FWD name 0 of
           (b, r) \<Rightarrow>
             if r \<le> 0 then (b, r)
             else (set_info_id b r (btf_type_info BTF_KIND_FWD 0 (fwd_kind = BTF_FWD_UNION)), r))
      else btf__add_enum env b name 4)"

definition btf__add_typedef :: "(nat \<Rightarrow> btf_env) \<Rightarrow> btf list \<Rightarrow> u8 list option \<Rightarrow> int \<Rightarrow> btf list \<times> int" where
  "btf__add_typedef env b name ref_type_id =
     (if \<not> has_name name then (b, - EINVAL)
      else btf_add_ref_kind env b BTF_KIND_TYPEDEF name ref_type_id)"

definition btf__add_volatile :: "(nat \<Rightarrow> btf_env) \<Rightarrow> btf list \<Rightarrow> int \<Rightarrow> btf list \<times> int" where
  "btf__add_volatile env b ref_type_id = btf_add_ref_kind env b BTF_KIND_VOLATILE None ref_type_id"

definition btf__add_const :: "(nat \<Rightarrow> btf_env) \<Rightarrow> btf list \<Rightarrow> int \<Rightarrow> btf list \<times> int" where
  "btf__add_const env b ref_type_id = btf_add_ref_kind env b BTF_KIND_CONST None ref_type_id"

definition btf__add_restrict :: "(nat \<Rightarrow> btf_env) \<Rightarrow> btf list \<Rightarrow> int \<Rightarrow> btf list \<times> int" where
  "btf__add_restrict env b ref_type_id = btf_add_ref_kind env b BTF_KIND_RESTRICT None ref_type_id"

definition btf__add_type_tag :: "(nat \<Rightarrow> btf_env) \<Rightarrow> btf list \<Rightarrow> u8 list option \<Rightarrow> int \<Rightarrow> btf list \<times> int" where
  "btf__add_type_tag env b val ref_type_id =
     (if \<not> has_name val then (b, - EINVAL)
      else btf_add_ref_kind env b BTF_KIND_TYPE_TAG val ref_type_id)"

fun func_linkage_nr :: "btf_func_linkage \<Rightarrow> nat" where
  "func_linkage_nr BTF_FUNC_STATIC = 0"
| "func_linkage_nr BTF_FUNC_GLOBAL = 1"
| "func_linkage_nr BTF_FUNC_EXTERN = 2"

definition btf__add_func ::
  "(nat \<Rightarrow> btf_env) \<Rightarrow> btf list \<Rightarrow> u8 list option \<Rightarrow> btf_func_linkage \<Rightarrow> int \<Rightarrow> btf list \<times> int" where
  "btf__add_func env b name lnk proto_type_id =
     (if \<not> has_name name then (b, - EINVAL)
      else case btf_add_ref_kind env b BTF_KIND_FUNC name proto_type_id of
        (b, r) \<Rightarrow>
          if r > 0 then (set_info_id b r (btf_type_info BTF_KIND_FUNC (func_linkage_nr lnk) False), r)
          else (b, r))"

definition btf__add_func_proto :: "(nat \<Rightarrow> btf_env) \<Rightarrow> btf list \<Rightarrow> int \<Rightarrow> btf list \<times> int" where
  "btf__add_func_proto env b ret_type_id =
     (if \<not> validate_type_id ret_type_id then (b, - EINVAL)
      else btf_append_type env b 12 None (mk_type BTF_KIND_FUNC_PROTO 0 False (word_of_int ret_type_id) []))"

definition btf__add_func_param :: "(nat \<Rightarrow> btf_env) \<Rightarrow> btf list \<Rightarrow> u8 list option \<Rightarrow> int \<Rightarrow> btf list \<times> int" where
  "btf__add_func_param env b name type_id =
     (if \<not> validate_type_id type_id then (b, - EINVAL)
      else if own_types b = 0 then (b, - EINVAL)
      else if \<not> btf_is_func_proto (btf_last_type b) then (b, - EINVAL)
      else btf_append_entry env b 8 name (\<lambda>name_off. [name_off, word_of_int type_id]) btf_type_inc_vlen)"

definition btf__add_var :: "(nat \<Rightarrow> btf_env) \<Rightarrow> btf list \<Rightarrow> u8 list option \<Rightarrow> int \<Rightarrow> int \<Rightarrow> btf list \<times> int" where
  "btf__add_var env b name lnk type_id =
     (if \<not> has_name name then (b, - EINVAL)
      else if lnk \<noteq> 0 \<and> lnk \<noteq> 1 \<and> lnk \<noteq> 2 then (b, - EINVAL)
      else if \<not> validate_type_id type_id then (b, - EINVAL)
      else btf_append_type env b 16 name
        (mk_type BTF_KIND_VAR 0 False (word_of_int type_id) [word_of_int lnk]))"

definition btf__add_datasec :: "(nat \<Rightarrow> btf_env) \<Rightarrow> btf list \<Rightarrow> u8 list option \<Rightarrow> u32 \<Rightarrow> btf list \<times> int" where
  "btf__add_datasec env b name byte_sz =
     (if \<not> has_name name then (b, - EINVAL)
      else btf_append_type env b 12 name (mk_type BTF_KIND_DATASEC 0 False byte_sz []))"

definition btf__add_datasec_var_info ::
  "(nat \<Rightarrow> btf_env) \<Rightarrow> btf list \<Rightarrow> int \<Rightarrow> u32 \<Rightarrow> u32 \<Rightarrow> btf list \<times> int" where
  "btf__add_datasec_var_info env b var_type_id offset byte_sz =
     (if own_types b = 0 then (b, - EINVAL)
      else if \<not> btf_is_datasec (btf_last_type b) then (b, - EINVAL)
      else if \<not> validate_type_id var_type_id then (b, - EINVAL)
      else btf_append_entry env b 12 None (\<lambda>_. [word_of_int var_type_id, offset, byte_sz]) btf_type_inc_vlen)"

definition btf__add_decl_tag ::
  "(nat \<Rightarrow> btf_env) \<Rightarrow> btf list \<Rightarrow> u8 list option \<Rightarrow> int \<Rightarrow> int \<Rightarrow> btf list \<times> int" where
  "btf__add_decl_tag env b val ref_type_id component_idx' =
     (if \<not> has_name val \<or> component_idx' < - 1 then (b, - EINVAL)
      else if \<not> validate_type_id ref_type_id then (b, - EINVAL)
      else btf_append_type env b 16 val
        (mk_type BTF_KIND_DECL_TAG 0 False (word_of_int ref_type_id) [word_of_int component_idx']))"

end
