(* ===== verification/Btf_Strings.thy ===== *)
theory Btf_Strings
  imports Btf_Build
begin

text \<open>
  The string section of a BTF object: what the lookups and additions of \<open>btf.c\<close> do to it and to the
  sections of its bases. A section is the used part of the object's string data, whether that is raw or
  kept by a string set.
\<close>

section \<open>Sections\<close>

definition str_sec :: "btf \<Rightarrow> u8 list" where
  "str_sec btf = take (unat (str_len (hdr btf))) (btf_strs btf)"

definition strs_ok :: "btf \<Rightarrow> bool" where
  "strs_ok btf \<longleftrightarrow>
     length (str_sec btf) = unat (str_len (hdr btf)) \<and> (str_sec btf = [] \<or> last (str_sec btf) = 0) \<and>
     (if modifiable btf
      then strset_ok (strs_set btf) \<and> strs_data_len (strs_set btf) = unat (str_len (hdr btf)) \<and>
        length (strs_data (strs_set btf)) < 2 ^ 32 \<and> strs_data_max_len (strs_set btf) = BTF_MAX_STR_OFFSET
      else length (btf_strs_data btf) = unat (str_len (hdr btf)))"

fun str_end :: "btf list \<Rightarrow> nat" where
  "str_end [] = 0"
| "str_end (btf # base) = start_str_off btf + unat (str_len (hdr btf))"

text \<open>The offsets of a split object continue those of its base.\<close>

fun strs_chain :: "btf list \<Rightarrow> bool" where
  "strs_chain [] \<longleftrightarrow> True"
| "strs_chain (btf # base) \<longleftrightarrow> strs_ok btf \<and> start_str_off btf = str_end base \<and> strs_chain base"

definition same_sec :: "btf \<Rightarrow> btf \<Rightarrow> bool" where
  "same_sec a b \<longleftrightarrow>
     strs_ok b \<and> str_sec b = str_sec a \<and> start_str_off b = start_str_off a \<and> str_len (hdr b) = str_len (hdr a)"

lemma same_sec_refl: "strs_ok a \<Longrightarrow> same_sec a a"
  by (simp add: same_sec_def)

lemma same_sec_trans: "same_sec a b \<Longrightarrow> same_sec b c \<Longrightarrow> same_sec a c"
  by (simp add: same_sec_def)

lemma same_secs_chain:
  "list_all2 same_sec b b' \<Longrightarrow> strs_chain b \<Longrightarrow> strs_chain b' \<and> str_end b' = str_end b"
  by (induction b b' rule: list_all2_induct) (auto simp: same_sec_def)

lemma same_secs_refl: "strs_chain b \<Longrightarrow> list_all2 same_sec b b"
  by (induction b) (auto simp: same_sec_refl)

lemma c_str_take:
  assumes "terminated d n k" shows "c_str (take n d) k = c_str d k"
  by (rule c_str_cong [OF assms]) simp

text \<open>A lookup reads the section.\<close>

lemma str_by_offset_sec:
  assumes "strs_ok btf"
  shows "btf__str_by_offset (btf # base) off =
     (if off < start_str_off btf then btf__str_by_offset base off
      else if off - start_str_off btf < length (str_sec btf) then Some (c_str (str_sec btf) (off - start_str_off btf))
      else None)"
proof (cases "off - start_str_off btf < length (str_sec btf)")
  case True
  let ?k = "off - start_str_off btf" and ?n = "unat (str_len (hdr btf))"
  have l: "length (str_sec btf) = ?n" "last (str_sec btf) = 0"
    using assms True by (auto simp: strs_ok_def)
  have "terminated (str_sec btf) ?n ?k" using c_str_terminated [OF True l(2)] l(1) by simp
  then have "c_str (btf_strs btf) ?k = c_str (str_sec btf) ?k"
    by (rule c_str_cong) (simp add: str_sec_def)
  with True l(1) show ?thesis by simp
next
  case False
  with assms show ?thesis by (simp add: strs_ok_def)
qed

lemma same_sec_lookup:
  "list_all2 same_sec b b' \<Longrightarrow> strs_chain b \<Longrightarrow> btf__str_by_offset b' off = btf__str_by_offset b off"
proof (induction b b' rule: list_all2_induct)
  case (Cons x xs y ys)
  have "strs_ok x" "strs_ok y" using Cons by (simp_all add: same_sec_def)
  with Cons show ?case by (simp add: str_by_offset_sec same_sec_def del: btf__str_by_offset.simps(2))
qed simp

lemma lookup_less_end: "strs_chain b \<Longrightarrow> btf__str_by_offset b off = Some s \<Longrightarrow> off < str_end b"
  by (induction b) (auto split: if_splits)

text \<open>
  A parsed object whose base, if any, is not itself split continues the string offsets of the base. The
  code takes the length of the base's section only, which is not its end when the base is split.
\<close>

lemma btf_new_strs:
  assumes "btf_new a ok ix data base = Inr b" "strs_chain base" "base = [] \<or> start_str_off (hd base) = 0"
  shows "strs_chain b"
proof -
  obtain swapped h where h: "btf_parse_hdr data = Inr (swapped, h)"
    using assms(1) by (auto simp: btf_new_def Let_def split: if_splits sum.splits)
  have lay: "unat (hdr_len h) + unat (str_off h) + unat (str_len h) \<le> length data"
    using h by (auto simp: btf_parse_hdr_def Let_def split: if_splits sum.splits)
  let ?strs = "take (unat (str_len h)) (drop (unat (hdr_len h) + unat (str_off h)) data)"
  have err: "btf_parse_str_sec (base \<noteq> []) ?strs = 0"
    using assms(1) by (auto simp: btf_new_def Let_def h split: if_splits)
  obtain types offs nr where p: "btf_parse_type_sec ix swapped (unat (type_len h))
      (take (unat (type_len h)) (drop (unat (hdr_len h) + unat (type_off h)) data)) [] 0 0 = Inr (types, offs, nr)"
    using assms(1) by (auto simp: btf_new_def Let_def h split: if_splits sum.splits)
  define btf where "btf = hd b"
  have f: "b = btf # base \<and> hdr btf = h \<and> btf_strs_data btf = ?strs \<and> \<not> modifiable btf \<and>
      start_str_off btf = (case base of [] \<Rightarrow> 0 | b0 # _ \<Rightarrow> unat (str_len (hdr b0)))"
    using assms(1) unfolding btf_new_def Let_def h sum.case prod.case p btf_def
    by (cases base) (auto simp: btf_calloc_def split: if_split_asm)
  have l: "length ?strs = unat (str_len h)" using lay by simp
  have "?strs = [] \<or> last ?strs = 0"
    using err by (auto simp: btf_parse_str_sec_def errno_defs last_conv_nth split: if_splits)
  then have "strs_ok btf" using f l by (simp add: strs_ok_def str_sec_def btf_strs_def)
  moreover have "start_str_off btf = str_end base" using f assms(3) by (cases base) auto
  ultimately show ?thesis using f assms(2) by simp
qed

section \<open>Becoming modifiable\<close>

lemma ensure_modifiable_strs:
  assumes r: "btf_ensure_modifiable env hb btf = (btf', r)" and ok: "strs_ok btf"
  shows "same_sec btf btf'" "r = 0 \<Longrightarrow> modifiable btf'"
proof -
  have "same_sec btf btf' \<and> (r = 0 \<longrightarrow> modifiable btf')"
  proof (cases "modifiable btf")
    case True
    with r ok show ?thesis
      by (auto simp: btf_ensure_modifiable_def btf_invalidate_raw_data_def same_sec_def strs_ok_def str_sec_def btf_strs_def)
  next
    case raw: False
    let ?d = "btf_strs_data btf"
    have d: "length ?d = unat (str_len (hdr btf))" "str_sec btf = ?d" "?d = [] \<or> last ?d = 0"
      using ok raw by (auto simp: strs_ok_def str_sec_def btf_strs_def)
    show ?thesis
    proof (cases "hdr_ok env \<and> types_ok env")
      case False
      with r raw ok show ?thesis by (auto simp: btf_ensure_modifiable_def same_sec_refl errno_defs)
    next
      case True
      show ?thesis
      proof (cases "strset_new (set_ok env) (map_ok env) (data_ok env) (index_al env) BTF_MAX_STR_OFFSET (Some ?d)")
        case (Inl e)
        then have "e \<noteq> 0" by (auto simp: strset_new_def errno_defs Let_def split: if_splits prod.splits)
        with Inl r raw ok True show ?thesis by (auto simp: btf_ensure_modifiable_def same_sec_refl)
      next
        case (Inr ss)
        from strset_new_spec [OF Inr d(3)] have ss: "strset_ok ss" "strs_data ss = ?d" "strs_data_len ss = length ?d"
          "strs_data_max_len ss = BTF_MAX_STR_OFFSET" by simp_all
        have "modifiable btf' \<and> strs_set btf' = ss \<and> str_len (hdr btf') = str_len (hdr btf) \<and>
            start_str_off btf' = start_str_off btf \<and> r = 0"
          using r raw True Inr by (auto simp: btf_ensure_modifiable_def btf_invalidate_raw_data_def Let_def)
        then have f: "modifiable btf'" "strs_set btf' = ss" "str_len (hdr btf') = str_len (hdr btf)"
          "start_str_off btf' = start_str_off btf" "r = 0" by simp_all
        have "length ?d < 2 ^ 32" using d(1) unsigned_less [of "str_len (hdr btf)", where ?'a = nat] by simp
        moreover have "str_sec btf' = ?d" using d(1) f ss(2) by (simp add: str_sec_def btf_strs_def)
        ultimately show ?thesis
          using d f ss by (simp add: same_sec_def strs_ok_def)
      qed
    qed
  qed
  then show "same_sec btf btf'" "r = 0 \<Longrightarrow> modifiable btf'" by simp_all
qed

section \<open>Finding and adding\<close>

lemma strset_ok_len: "strset_ok ss \<Longrightarrow> strs_data_len ss \<le> length (strs_data ss)"
  by (simp add: strset_ok_def)

lemma modifiable_sec: "strs_ok btf \<Longrightarrow> modifiable btf \<Longrightarrow>
    strset_ok (strs_set btf) \<and> strs_data_len (strs_set btf) = unat (str_len (hdr btf)) \<and>
    str_sec btf = take (strs_data_len (strs_set btf)) (strs_data (strs_set btf)) \<and>
    strs_data_len (strs_set btf) \<le> length (strs_data (strs_set btf)) \<and>
    length (strs_data (strs_set btf)) < 2 ^ 32 \<and> strs_data_max_len (strs_set btf) = BTF_MAX_STR_OFFSET"
  by (auto simp: strs_ok_def str_sec_def btf_strs_def dest: strset_ok_len)

text \<open>A new string set with the same section.\<close>

lemma same_sec_set:
  assumes "strs_ok btf" "modifiable btf" "strset_ok ss" "strs_data_len ss = strs_data_len (strs_set btf)"
    and "take (strs_data_len ss) (strs_data ss) = take (strs_data_len ss) (strs_data (strs_set btf))"
    and "length (strs_data ss) < 2 ^ 32" "strs_data_max_len ss = BTF_MAX_STR_OFFSET"
  shows "same_sec btf (btf\<lparr>strs_set := ss\<rparr>)"
proof -
  note m = modifiable_sec [OF assms(1,2)]
  have n: "strs_data_len ss = unat (str_len (hdr btf))" using m assms(4) by simp
  have sec: "str_sec (btf\<lparr>strs_set := ss\<rparr>) = str_sec btf"
    using assms(2,5) unfolding n by (simp add: str_sec_def btf_strs_def)
  have "length (str_sec btf) = unat (str_len (hdr btf))" "str_sec btf = [] \<or> last (str_sec btf) = 0"
    using assms(1) by (simp_all add: strs_ok_def)
  with m assms(2-4,6,7) have "strs_ok (btf\<lparr>strs_set := ss\<rparr>)"
    unfolding strs_ok_def sec by simp
  then show ?thesis unfolding same_sec_def sec by simp
qed

lemma grown_length:
  assumes "n \<le> max BTF_MAX_STR_OFFSET m" "m < 2 ^ 32" shows "n < (2 ^ 32 :: nat)"
  using assms by (auto simp: BTF_MAX_STR_OFFSET_def)

lemma set_find_strs:
  assumes ok: "strs_ok btf" "modifiable btf" and s: "0 \<notin> set s"
    and r: "strset_find_str ok' (strs_set btf) s = (ss, off)"
  shows "same_sec btf (btf\<lparr>strs_set := ss\<rparr>)"
    and "0 \<le> off \<Longrightarrow> nat off < length (str_sec btf) \<and> c_str (str_sec btf) (nat off) = s"
    and "off < 0 \<Longrightarrow> off = - ENOENT \<or> off = - ENOMEM"
proof -
  note m = modifiable_sec [OF ok]
  from m have len: "strs_data_len (strs_set btf) \<le> length (strs_data (strs_set btf))" by simp
  note sp = find_str_spec [OF _ s r] and d = find_str_data [OF r len]
  have ss: "strset_ok ss" "strs_data_len ss = strs_data_len (strs_set btf)" using sp m by simp_all
  show "same_sec btf (btf\<lparr>strs_set := ss\<rparr>)"
    by (rule same_sec_set [OF ok ss]) (use ss d m grown_length in \<open>simp_all\<close>)
  show "nat off < length (str_sec btf) \<and> c_str (str_sec btf) (nat off) = s" if off: "0 \<le> off"
  proof -
    obtain k where k: "off = int k" "(s, k) \<in> strset_offsets (strs_set btf)"
      using sp m off by (auto simp: errno_defs)
    from offsets_str [OF _ k(2)] m have "c_str (strs_data (strs_set btf)) k = s"
      "terminated (strs_data (strs_set btf)) (strs_data_len (strs_set btf)) k" by simp_all
    with m c_str_take [OF this(2)] k(1) show ?thesis by (simp add: terminated_def)
  qed
  show "off = - ENOENT \<or> off = - ENOMEM" if "off < 0" using sp m that by auto
qed

text \<open>The string is at the offset \<open>r\<close>.\<close>

definition str_at :: "btf list \<Rightarrow> int \<Rightarrow> u8 list \<Rightarrow> bool" where
  "str_at b r s \<longleftrightarrow> 0 \<le> r \<and> btf__str_by_offset b (nat r) = Some s"

lemma find_str_strs:
  assumes "btf__find_str env b s = (b', r)" "strs_chain b" "0 \<notin> set s"
  shows "list_all2 same_sec b b'" "0 \<le> r \<Longrightarrow> str_at b' r s"
proof -
  have "list_all2 same_sec b b' \<and> (0 \<le> r \<longrightarrow> str_at b' r s)"
    using assms
  proof (induction env b s arbitrary: b' r rule: btf__find_str.induct)
    case (2 env btf base s)
    obtain base' off where f: "btf__find_str (\<lambda>n. env (Suc n)) base s = (base', off)" by fastforce
    have ok: "strs_ok btf" "start_str_off btf = str_end base" "strs_chain base" using "2.prems"(2) by simp_all
    from "2.IH" [OF f ok(3) "2.prems"(3)] have base: "list_all2 same_sec base base'" "0 \<le> off \<longrightarrow> str_at base' off s"
      by simp_all
    note ch = same_secs_chain [OF base(1) ok(3)]
    show ?case
    proof (cases "off = - ENOENT")
      case False
      have "str_at (btf # base') off s" if "0 \<le> off"
      proof -
        have "nat off < str_end base'" using base(2) that lookup_less_end [of base' "nat off" s] ch by (auto simp: str_at_def)
        with base(2) that ch ok show ?thesis by (simp add: str_at_def)
      qed
      with False "2.prems"(1) f base(1) ok show ?thesis by (auto simp: same_sec_refl)
    next
      case True
      obtain btf1 e where m: "btf_ensure_modifiable (env 0) (base' \<noteq> []) btf = (btf1, e)" by fastforce
      note s1 = ensure_modifiable_strs [OF m ok(1)]
      show ?thesis
      proof (cases "e = 0")
        case False
        with "2.prems"(1) f True m base(1) s1 show ?thesis by (auto simp: errno_defs)
      next
        case e: True
        obtain ss so where q: "strset_find_str (str_ok (env 0)) (strs_set btf1) s = (ss, so)" by fastforce
        have ok1: "strs_ok btf1" "modifiable btf1" using s1 e by (simp_all add: same_sec_def)
        note st = set_find_strs [OF ok1 "2.prems"(3) q]
        let ?btf = "btf1\<lparr>strs_set := ss\<rparr>"
        have same: "same_sec btf ?btf" by (rule same_sec_trans [OF s1(1) st(1)])
        have b': "b' = ?btf # base'" "r = (if so < 0 then so else int (start_str_off btf1) + so)"
          using "2.prems"(1) f True m e q by auto
        have "str_at b' r s" if "0 \<le> r"
        proof -
          have so: "0 \<le> so" using that b'(2) by (auto split: if_splits)
          have "strs_ok ?btf" "str_sec ?btf = str_sec btf1" using st(1) by (simp_all add: same_sec_def)
          with st(2) [OF so] so b' show ?thesis
            by (simp add: str_at_def str_by_offset_sec nat_add_distrib del: btf__str_by_offset.simps(2))
        qed
        with same base(1) b'(1) show ?thesis by simp
      qed
    qed
  qed (auto simp: errno_defs)
  then show "list_all2 same_sec b b'" "0 \<le> r \<Longrightarrow> str_at b' r s" by simp_all
qed

text \<open>An addition to an object keeps the sections of its bases and extends its own by at most the string.\<close>

definition strs_grow :: "btf list \<Rightarrow> btf list \<Rightarrow> bool" where
  "strs_grow b b' \<longleftrightarrow>
     strs_chain b' \<and> length b' = length b \<and> (\<forall>k s. btf__str_by_offset b k = Some s \<longrightarrow> btf__str_by_offset b' k = Some s)"

lemma strs_grow_refl: "strs_chain b \<Longrightarrow> strs_grow b b"
  by (simp add: strs_grow_def)

lemma strs_grow_trans: "strs_grow a b \<Longrightarrow> strs_grow b c \<Longrightarrow> strs_grow a c"
  by (simp add: strs_grow_def)

lemma same_secs_grow: "list_all2 same_sec b b' \<Longrightarrow> strs_chain b \<Longrightarrow> strs_grow b b'"
  using same_secs_chain same_sec_lookup by (auto simp: strs_grow_def list_all2_lengthD)

lemma grow_top:
  assumes "strs_chain (btf # base)" "list_all2 same_sec base base'" "strs_ok btf'" "start_str_off btf' = start_str_off btf"
    and "str_sec btf' = str_sec btf \<or> str_sec btf' = str_sec btf @ s @ [0]"
  shows "strs_grow (btf # base) (btf' # base')"
proof -
  have ok: "strs_ok btf" "start_str_off btf = str_end base" "strs_chain base" using assms(1) by simp_all
  have ch: "strs_chain base'" "str_end base' = str_end base" using same_secs_chain [OF assms(2) ok(3)] by simp_all
  have "btf__str_by_offset (btf' # base') k = Some t" if k: "btf__str_by_offset (btf # base) k = Some t" for k t
  proof (cases "k < start_str_off btf")
    case True
    with k same_sec_lookup [OF assms(2) ok(3)] assms(3,4) show ?thesis
      by (simp add: ok(1) str_by_offset_sec del: btf__str_by_offset.simps(2))
  next
    case False
    let ?k = "k - start_str_off btf"
    have t: "?k < length (str_sec btf)" "t = c_str (str_sec btf) ?k"
      using k False by (auto simp: ok(1) str_by_offset_sec simp del: btf__str_by_offset.simps(2) split: if_splits)
    have "last (str_sec btf) = 0" using ok(1) t(1) by (auto simp: strs_ok_def)
    from c_str_cong [OF c_str_terminated [OF t(1) this], of "str_sec btf'"] assms(5)
    have "c_str (str_sec btf') ?k = t" "?k < length (str_sec btf')" using t by auto
    with False assms(3,4) show ?thesis by (simp add: str_by_offset_sec del: btf__str_by_offset.simps(2))
  qed
  with ch ok assms(2-4) show ?thesis by (simp add: strs_grow_def list_all2_lengthD)
qed

lemma add_str_strs:
  assumes "btf__add_str env b s = (b', r)" "strs_chain b" "0 \<notin> set s"
  shows "strs_grow b b' \<and> (0 \<le> r \<longrightarrow> str_at b' r s)"
proof (cases b)
  case Nil
  with assms show ?thesis by (auto simp: strs_grow_def errno_defs)
next
  case (Cons btf base)
  obtain base' off where f: "btf__find_str (\<lambda>n. env (Suc n)) base s = (base', off)" by fastforce
  have ok: "strs_ok btf" "start_str_off btf = str_end base" "strs_chain base" using assms(2) Cons by simp_all
  note base = find_str_strs [OF f ok(3) assms(3)]
  note ch = same_secs_chain [OF base(1) ok(3)]
  show ?thesis
  proof (cases "off = - ENOENT")
    case False
    then have b': "b' = btf # base'" "r = off" using assms(1) Cons f by simp_all
    have "str_at (btf # base') off s" if "0 \<le> off"
    proof -
      have "nat off < str_end base'" using base(2) that lookup_less_end [of base' "nat off" s] ch by (auto simp: str_at_def)
      with base(2) that ch ok show ?thesis by (simp add: str_at_def)
    qed
    moreover have "strs_grow (btf # base) (btf # base')"
      by (rule same_secs_grow) (use base(1) ok in \<open>simp_all add: same_sec_refl\<close>)
    ultimately show ?thesis using b' Cons by simp
  next
    case True
    obtain btf1 e where m: "btf_ensure_modifiable (env 0) (base' \<noteq> []) btf = (btf1, e)" by fastforce
    note s1 = ensure_modifiable_strs [OF m ok(1)]
    have g1: "strs_grow b (btf1 # base')"
      unfolding Cons by (rule same_secs_grow) (use base(1) ok s1(1) in simp_all)
    show ?thesis
    proof (cases "e = 0")
      case False
      with assms(1) Cons f True m g1 show ?thesis by (simp add: errno_defs)
    next
      case e: True
      have ok1: "strs_ok btf1" "modifiable btf1" "start_str_off btf1 = str_end base'" "strs_chain (btf1 # base')"
        using s1 e ok ch by (simp_all add: same_sec_def)
      obtain ss so where q: "strset_add_str (str_al (env 0)) (str_ok (env 0)) (strs_set btf1) s = (ss, so)" by fastforce
      note md = modifiable_sec [OF ok1(1,2)]
      from md have len: "strs_data_len (strs_set btf1) \<le> length (strs_data (strs_set btf1))" by simp
      note d = add_str_data [OF q len]
      let ?n = "unat (str_len (hdr btf1))"
      have ss: "strset_ok ss" using add_str_spec [OF _ assms(3) q] md by simp
      have lds: "length (strs_data ss) < 2 ^ 32"
        by (rule grown_length [of _ "length (strs_data (strs_set btf1))"]) (use d(2) md in simp_all)
      have max: "strs_data_max_len ss = BTF_MAX_STR_OFFSET" using d(1) md by simp
      have keep: "same_sec btf1 (btf1\<lparr>strs_set := ss\<rparr>)" if "strs_data_len ss = ?n"
        by (rule same_sec_set [OF ok1(1,2) ss]) (use that d(3) md lds max in simp_all)
      let ?btf = "btf1\<lparr>strs_set := ss, hdr := (hdr btf1)\<lparr>str_len := of_nat (strs_data_len ss)\<rparr>\<rparr>"
      show ?thesis
      proof (cases "so < 0")
        case True
        then have n: "strs_data_len ss = ?n" using add_str_spec [OF _ assms(3) q] md by (auto simp: errno_defs)
        have b': "b' = btf1\<lparr>strs_set := ss\<rparr> # base'" "r = so"
          using assms(1) Cons f \<open>off = _\<close> m e q True by simp_all
        have "strs_grow (btf1 # base') b'"
          unfolding b' by (rule same_secs_grow) (use keep [OF n] ok1 ch in \<open>simp_all add: same_secs_refl\<close>)
        with g1 True b'(2) show ?thesis by (auto intro: strs_grow_trans)
      next
        case False
        then obtain k where k: "so = int k" "(s, k) \<in> strset_offsets ss"
          and cases': "strs_data_len ss = ?n \<or> strs_data_len ss = ?n + length s + 1"
          using add_str_spec [OF _ assms(3) q] md by (auto simp: errno_defs)
        have b': "b' = ?btf # base'" "r = int (start_str_off btf1) + so"
          using assms(1) Cons f \<open>off = _\<close> m e q False by (simp_all add: Let_def)
        have "strs_data_len ss < 2 ^ 32" using ss lds by (simp add: strset_ok_def)
        then have un: "unat (of_nat (strs_data_len ss) :: u32) = strs_data_len ss"
          by (simp add: unsigned_of_nat take_bit_eq_mod)
        have sec: "str_sec ?btf = take (strs_data_len ss) (strs_data ss)"
          using ok1(2) un by (simp add: str_sec_def btf_strs_def)
        have ext: "str_sec ?btf = str_sec btf1 \<or> str_sec ?btf = str_sec btf1 @ s @ [0]"
          using cases'
        proof
          assume "strs_data_len ss = ?n"
          then show ?thesis using sec d(3) md by simp
        next
          assume n: "strs_data_len ss = ?n + length s + 1"
          then show ?thesis using sec d(4) md by simp
        qed
        have "strs_data_len ss \<le> length (strs_data ss)" using ss by (simp add: strset_ok_def)
        moreover have "str_sec btf1 = [] \<or> last (str_sec btf1) = 0" using ok1(1) by (simp add: strs_ok_def)
        then have "str_sec ?btf = [] \<or> last (str_sec ?btf) = 0" using ext by auto
        ultimately have okb: "strs_ok ?btf"
          using ss lds max un ok1(2) unfolding strs_ok_def sec by simp
        have g2: "strs_grow (btf1 # base') b'"
          unfolding b' by (rule grow_top [OF ok1(4)]) (use ch ext okb in \<open>simp_all add: same_secs_refl\<close>)
        have "c_str (strs_data ss) k = s" "terminated (strs_data ss) (strs_data_len ss) k"
          using offsets_str [OF ss k(2)] by simp_all
        with c_str_take [OF this(2)] sec have "c_str (str_sec ?btf) k = s" "k < length (str_sec ?btf)"
          by (simp_all add: terminated_def)
        then have "str_at b' r s"
          using b' k(1) okb by (simp add: str_at_def str_by_offset_sec nat_add_distrib del: btf__str_by_offset.simps(2))
        with g1 g2 show ?thesis by (auto intro: strs_grow_trans)
      qed
    qed
  qed
qed

section \<open>Names of new types and entries\<close>

text \<open>A C string has no zero byte.\<close>

definition c_name :: "u8 list option \<Rightarrow> bool" where
  "c_name name \<longleftrightarrow> (\<forall>s. name = Some s \<longrightarrow> 0 \<notin> set s)"

text \<open>\<open>x\<close> is a name offset that stands for \<open>name\<close>; a null or empty name has the offset 0.\<close>

definition name_at :: "btf list \<Rightarrow> u8 list option \<Rightarrow> u32 \<Rightarrow> bool" where
  "name_at b name x \<longleftrightarrow> (if has_name name then \<exists>off. str_at b off (the name) \<and> x = word_of_int off else x = 0)"

lemma named_grow: "name_at b name x \<Longrightarrow> strs_grow b b' \<Longrightarrow> name_at b' name x"
  by (fastforce simp: name_at_def str_at_def strs_grow_def)

lemma add_name_strs:
  assumes "btf_add_name env b name = (b', r)" "strs_chain b" "c_name name"
  shows "strs_grow b b' \<and> (0 \<le> r \<longrightarrow> name_at b' name (word_of_int r))"
proof (cases "has_name name")
  case True
  then obtain s where s: "name = Some s" by (auto simp: has_name_def)
  with True assms add_str_strs [of env b s b' r] show ?thesis by (auto simp: btf_add_name_def name_at_def c_name_def)
next
  case False
  with assms show ?thesis by (auto simp: btf_add_name_def name_at_def strs_grow_refl)
qed

lemma same_sec_fields:
  assumes "strs_ok a" "modifiable b = modifiable a" "strs_set b = strs_set a" "btf_strs_data b = btf_strs_data a"
    and "start_str_off b = start_str_off a" "str_len (hdr b) = str_len (hdr a)"
  shows "same_sec a b"
proof -
  have "str_sec b = str_sec a" using assms by (simp add: str_sec_def btf_strs_def)
  with assms show ?thesis unfolding same_sec_def strs_ok_def by (cases "modifiable a") simp_all
qed

lemma same_sec_grow: "same_sec a b \<Longrightarrow> strs_chain (a # base) \<Longrightarrow> strs_grow (a # base) (b # base)"
  by (rule same_secs_grow) (simp_all add: same_secs_refl)

text \<open>The offset \<open>btf_append_type\<close> and \<open>btf_append_entry\<close> give the name.\<close>

definition append_noff :: "(nat \<Rightarrow> btf_env) \<Rightarrow> btf \<Rightarrow> btf list \<Rightarrow> nat \<Rightarrow> u8 list option \<Rightarrow> u32" where
  "append_noff env btf base n name =
     word_of_int (snd (btf_add_name env
       (the (btf_add_type_mem (env 0) (fst (btf_ensure_modifiable (env 0) (base \<noteq> []) btf)) n) # base) name))"

lemma append_strs:
  assumes m: "btf_ensure_modifiable (env 0) (base \<noteq> []) btf = (btf1, e)"
    and m2: "btf_add_type_mem (env 0) btf1 n = Some btf2"
    and n3: "btf_add_name env (btf2 # base) name = (b3, noff)"
    and c: "strs_chain (btf # base)" "c_name name"
  shows "strs_grow (btf # base) b3" "0 \<le> noff \<Longrightarrow> name_at b3 name (append_noff env btf base n name)"
proof -
  have ok: "strs_ok btf" "strs_chain base" using c(1) by simp_all
  note s1 = ensure_modifiable_strs(1) [OF m ok(1)]
  have s2: "same_sec btf1 btf2"
    using m2 s1 by (intro same_sec_fields) (auto simp: btf_add_type_mem_def same_sec_def split: option.splits)
  have g2: "strs_grow (btf # base) (btf2 # base)" by (rule same_sec_grow [OF same_sec_trans [OF s1 s2] c(1)])
  then have "strs_chain (btf2 # base)" by (simp add: strs_grow_def)
  from add_name_strs [OF n3 this c(2)] g2
  show "strs_grow (btf # base) b3" "0 \<le> noff \<Longrightarrow> name_at b3 name (append_noff env btf base n name)"
    by (auto simp: append_noff_def m m2 n3 intro: strs_grow_trans)
qed

lemma append_error_strs:
  assumes "btf_ensure_modifiable ev (base \<noteq> []) btf = (btf1, e)" "strs_chain (btf # base)"
  shows "strs_grow (btf # base) (btf1 # base)"
  by (rule same_sec_grow [OF ensure_modifiable_strs(1) [OF assms(1)] assms(2)]) (use assms(2) in simp)

lemma append_type_strs:
  assumes r: "btf_append_type env (btf # base) n name t = (b', r)" and c: "strs_chain (btf # base)" "c_name name"
  shows "strs_grow (btf # base) b' \<and> (0 \<le> r \<longrightarrow> name_at b' name (append_noff env btf base n name))"
proof -
  obtain btf1 e where m: "btf_ensure_modifiable (env 0) (base \<noteq> []) btf = (btf1, e)" by fastforce
  show ?thesis
  proof (cases "e \<noteq> 0 \<or> btf_add_type_mem (env 0) btf1 n = None")
    case True
    with r m have "b' = btf1 # base" "r = - ENOMEM"
      by (auto simp: btf_append_type_def split: option.splits)
    with append_error_strs [OF m c(1)] show ?thesis by (simp add: errno_defs)
  next
    case False
    then obtain btf2 where e: "e = 0" and m2: "btf_add_type_mem (env 0) btf1 n = Some btf2" by auto
    obtain b3 noff where n3: "btf_add_name env (btf2 # base) name = (b3, noff)" by fastforce
    note s = append_strs [where env = env, OF m m2 n3 c]
    then obtain btf3 base3 where b3: "b3 = btf3 # base3" by (cases b3) (auto simp: strs_grow_def)
    show ?thesis
    proof (cases "noff < 0")
      case True
      with r m e m2 n3 have "b' = b3" "r = noff" by (auto simp: btf_append_type_def)
      with True s show ?thesis by simp
    next
      case False
      obtain btf4 d where r4: "btf_commit_type (env 0) (btf3\<lparr>types_data := d\<rparr>) n = (btf4, r)" "b' = btf4 # base3"
        using r m e m2 n3 b3(1) False by (auto simp: btf_append_type_def Let_def split: prod.splits)
      have ok: "strs_chain (btf3 # base3)" using s(1) b3 by (simp add: strs_grow_def)
      have "same_sec btf3 btf4"
        using r4(1) ok by (intro same_sec_fields) (auto simp: btf_commit_type_def Let_def split: option.splits)
      from same_sec_grow [OF this ok] r4(2) b3 s False show ?thesis
        by (auto intro: strs_grow_trans named_grow)
    qed
  qed
qed

lemma append_entry_strs:
  assumes r: "btf_append_entry env (btf # base) n name entry new_info = (b', r)"
    and c: "strs_chain (btf # base)" "c_name name"
  shows "strs_grow (btf # base) b' \<and> (0 \<le> r \<longrightarrow> name_at b' name (append_noff env btf base n name))"
proof -
  obtain btf1 e where m: "btf_ensure_modifiable (env 0) (base \<noteq> []) btf = (btf1, e)" by fastforce
  show ?thesis
  proof (cases "e \<noteq> 0 \<or> btf_add_type_mem (env 0) btf1 n = None")
    case True
    with r m have "b' = btf1 # base" "r = - ENOMEM"
      by (auto simp: btf_append_entry_def split: option.splits)
    with append_error_strs [OF m c(1)] show ?thesis by (simp add: errno_defs)
  next
    case False
    then obtain btf2 where e: "e = 0" and m2: "btf_add_type_mem (env 0) btf1 n = Some btf2" by auto
    obtain b3 noff where n3: "btf_add_name env (btf2 # base) name = (b3, noff)" by fastforce
    note s = append_strs [where env = env, OF m m2 n3 c]
    then obtain btf3 base3 where b3: "b3 = btf3 # base3" by (cases b3) (auto simp: strs_grow_def)
    show ?thesis
    proof (cases "noff < 0")
      case True
      with r m e m2 n3 have "b' = b3" "r = noff" by (auto simp: btf_append_entry_def)
      with True s show ?thesis by simp
    next
      case False
      obtain btf4 where r4: "b' = btf4 # base3" "modifiable btf4 = modifiable btf3 \<and> strs_set btf4 = strs_set btf3 \<and>
          btf_strs_data btf4 = btf_strs_data btf3 \<and> start_str_off btf4 = start_str_off btf3 \<and>
          str_len (hdr btf4) = str_len (hdr btf3)"
        using r m e m2 n3 b3(1) False by (auto simp: btf_append_entry_def Let_def set_info_def)
      have ok: "strs_chain (btf3 # base3)" using s(1) b3 by (simp add: strs_grow_def)
      have "same_sec btf3 btf4"
        using r4(2) ok by (intro same_sec_fields) auto
      from same_sec_grow [OF this ok] r4(1) b3 s False show ?thesis
        by (auto intro: strs_grow_trans named_grow)
    qed
  qed
qed

end
