(* ===== verification/Btf_Table.thy ===== *)
theory Btf_Table
  imports Btf_Strings
begin

text \<open>
  The abstract type table of a BTF object, and what appending a type or an entry does to it: the lemmas
  behind the operations of \<open>Btf_Ops\<close>.
\<close>

section \<open>The abstract type table\<close>

text \<open>An object stands for the list of its own types; the modifications below are described on it.\<close>

definition btf_types :: "btf \<Rightarrow> btf_type list" where
  "btf_types btf = map (type_at (types_data btf)) (take (nr_types btf) (type_offs btf))"

definition btf_view :: "btf list \<Rightarrow> (nat \<times> btf_type list) list" where
  "btf_view b = map (\<lambda>btf. (start_id btf, btf_types btf)) b"

lemma length_btf_types: "btf_ok btf \<Longrightarrow> length (btf_types btf) = nr_types btf"
  by (simp add: btf_types_def btf_ok_def)

text \<open>Lookups by identifier read the table.\<close>

lemma type_by_id_view:
  assumes "btf_chain (btf # base)" "i < btf__type_cnt (btf # base)"
  shows "btf_type_by_id (btf # base) i =
     (if i = 0 then btf_void
      else if i < start_id btf then btf_type_by_id base i else btf_types btf ! (i - start_id btf))"
  using assms by (simp add: btf__type_cnt_def btf_types_def btf_ok_def)

text \<open>Changes outside the used part of the type region leave the object's types alone.\<close>

lemma btf_ok_agree:
  assumes "btf_ok btf" "take (unat (type_len (hdr btf))) (types_data btf') = take (unat (type_len (hdr btf))) (types_data btf)"
    and "length (types_data btf') < 2 ^ 32" "unat (type_len (hdr btf)) \<le> length (types_data btf')"
    and "type_len (hdr btf') = type_len (hdr btf)" "nr_types btf' = nr_types btf" "type_offs btf' = type_offs btf"
  shows "btf_ok btf'" "btf_types btf' = btf_types btf"
  using types_from_cong [of "types_data btf" "unat (type_len (hdr btf))" "take (nr_types btf) (type_offs btf)" 0
      "types_data btf'"] assms
  by (simp_all add: btf_ok_def btf_types_def)

definition same_table :: "btf \<Rightarrow> btf \<Rightarrow> bool" where
  "same_table btf btf' \<longleftrightarrow>
     btf_ok btf' \<and> btf_types btf' = btf_types btf \<and> start_id btf' = start_id btf \<and>
     nr_types btf' = nr_types btf \<and> type_len (hdr btf') = type_len (hdr btf) \<and> type_offs btf' = type_offs btf"

lemma same_table_refl: "btf_ok btf \<Longrightarrow> same_table btf btf"
  by (simp add: same_table_def)

lemma same_table_trans: "same_table a b \<Longrightarrow> same_table b c \<Longrightarrow> same_table a c"
  by (simp add: same_table_def)

lemma same_table_ok: "same_table a b \<Longrightarrow> btf_ok b"
  by (simp add: same_table_def)

lemma same_tableI:
  assumes "btf_ok btf" "take (unat (type_len (hdr btf))) (types_data btf') = take (unat (type_len (hdr btf))) (types_data btf)"
    and "length (types_data btf') < 2 ^ 32" "unat (type_len (hdr btf)) \<le> length (types_data btf')"
    and "type_len (hdr btf') = type_len (hdr btf)" "nr_types btf' = nr_types btf" "type_offs btf' = type_offs btf"
    and "start_id btf' = start_id btf"
  shows "same_table btf btf'"
  using btf_ok_agree [OF assms(1-7)] assms by (simp add: same_table_def)

lemma ensure_modifiable_table:
  assumes "btf_ensure_modifiable env hb btf = (btf', r)" "btf_ok btf" shows "same_table btf btf'"
proof (rule same_tableI [OF assms(2)])
  have ok: "unat (type_len (hdr btf)) \<le> length (types_data btf)" "length (types_data btf) < 2 ^ 32"
    using assms(2) by (simp_all add: btf_ok_def)
  show "take (unat (type_len (hdr btf))) (types_data btf') = take (unat (type_len (hdr btf))) (types_data btf)"
    "length (types_data btf') < 2 ^ 32" "unat (type_len (hdr btf)) \<le> length (types_data btf')"
    "type_len (hdr btf') = type_len (hdr btf)" "nr_types btf' = nr_types btf" "type_offs btf' = type_offs btf"
    "start_id btf' = start_id btf"
    using assms(1) ok
    by (auto simp: btf_ensure_modifiable_def btf_invalidate_raw_data_def Let_def split: if_splits sum.splits)
qed

definition same_tables :: "btf list \<Rightarrow> btf list \<Rightarrow> bool" where
  "same_tables b b' \<longleftrightarrow> list_all2 same_table b b'"

lemma same_tables_chain:
  assumes "same_tables b b'" "btf_chain b"
  shows "btf_chain b'" "btf__type_cnt b' = btf__type_cnt b" "btf_view b' = btf_view b"
proof -
  have "list_all2 same_table b b' \<Longrightarrow> btf_chain b \<Longrightarrow>
      btf_chain b' \<and> btf__type_cnt b' = btf__type_cnt b \<and> btf_view b' = btf_view b" for b b'
    by (induction b b' rule: list_all2_induct) (auto simp: same_table_def btf__type_cnt_def btf_view_def split: list.splits)
  with assms show "btf_chain b'" "btf__type_cnt b' = btf__type_cnt b" "btf_view b' = btf_view b"
    by (auto simp: same_tables_def)
qed

lemma same_tables_Cons [simp]:
  "same_tables (btf # base) b' \<longleftrightarrow> (\<exists>btf' base'. b' = btf' # base' \<and> same_table btf btf' \<and> same_tables base base')"
  by (auto simp: same_tables_def list_all2_Cons1)

lemma same_tables_refl: "btf_chain b \<Longrightarrow> same_tables b b"
  by (induction b) (auto simp: same_tables_def same_table_refl)

lemma same_table_strs:
  assumes "same_table a b"
  shows "same_table a (b\<lparr>strs_set := x\<rparr>)"
    and "same_table a (b\<lparr>strs_set := x, hdr := (hdr b)\<lparr>str_len := y\<rparr>\<rparr>)"
proof -
  note ok = same_table_ok [OF assms]
  show "same_table a (b\<lparr>strs_set := x\<rparr>)"
    by (rule same_table_trans [OF assms], rule same_tableI [OF ok]) (use ok in \<open>simp_all add: btf_ok_def\<close>)
  show "same_table a (b\<lparr>strs_set := x, hdr := (hdr b)\<lparr>str_len := y\<rparr>\<rparr>)"
    by (rule same_table_trans [OF assms], rule same_tableI [OF ok]) (use ok in \<open>simp_all add: btf_ok_def\<close>)
qed

lemma find_str_tables:
  "btf__find_str env b s = (b', r) \<Longrightarrow> btf_chain b \<Longrightarrow> same_tables b b'"
proof (induction env b s arbitrary: b' r rule: btf__find_str.induct)
  case (2 env btf base s)
  obtain base' off where f: "btf__find_str (\<lambda>n. env (Suc n)) base s = (base', off)" by fastforce
  obtain btf' e where m: "btf_ensure_modifiable (env 0) (base' \<noteq> []) btf = (btf', e)" by fastforce
  have base: "same_tables base base'" using "2.IH" [OF f] "2.prems"(2) by simp
  have "same_table btf btf" "same_table btf btf'"
    using ensure_modifiable_table [OF m] "2.prems"(2) by (simp_all add: same_table_refl)
  with base show ?case
    using "2.prems"(1) by (auto simp: f m same_table_strs split: if_splits prod.splits)
qed (simp add: same_tables_def)

lemma add_str_tables:
  "btf__add_str env b s = (b', r) \<Longrightarrow> btf_chain b \<Longrightarrow> same_tables b b'"
proof (cases b)
  case (Cons btf base)
  assume r: "btf__add_str env b s = (b', r)" and c: "btf_chain b"
  obtain base' off where f: "btf__find_str (\<lambda>n. env (Suc n)) base s = (base', off)" by fastforce
  obtain btf' e where m: "btf_ensure_modifiable (env 0) (base' \<noteq> []) btf = (btf', e)" by fastforce
  have base: "same_tables base base'" using find_str_tables [OF f] c Cons by simp
  have "same_table btf btf" "same_table btf btf'"
    using ensure_modifiable_table [OF m] c Cons by (simp_all add: same_table_refl)
  with base show ?thesis
    using r Cons by (auto simp: f m same_table_strs Let_def split: if_splits prod.splits)
qed (simp add: same_tables_def)

lemma add_name_tables:
  "btf_add_name env b name = (b', r) \<Longrightarrow> btf_chain b \<Longrightarrow> same_tables b b'"
  by (auto simp: btf_add_name_def same_tables_refl dest: add_str_tables split: if_splits)

lemma add_type_mem_table:
  assumes "btf_add_type_mem env btf n = Some btf'" "btf_ok btf"
  shows "same_table btf btf'" "unat (type_len (hdr btf)) + n \<le> length (types_data btf')"
proof -
  obtain d where d: "libbpf_add_mem (mem_ok env) 0 (types_data btf) (unat (type_len (hdr btf))) UINT_MAX n = Some d"
    "btf' = btf\<lparr>types_data := d\<rparr>"
    using assms(1) by (auto simp: btf_add_type_mem_def split: option.splits)
  obtain k where k: "d = types_data btf @ replicate k 0" "unat (type_len (hdr btf)) + n \<le> length d"
    "length (types_data btf) < length d \<Longrightarrow> length d \<le> max UINT_MAX (length (types_data btf))"
    using libbpf_add_mem_Some [OF d(1)] by metis
  have ok: "unat (type_len (hdr btf)) \<le> length (types_data btf)" "length (types_data btf) < 2 ^ 32"
    using assms(2) by (simp_all add: btf_ok_def)
  have "length d < 2 ^ 32" using k(1,3) ok(2) by (cases "k = 0") (auto simp: UINT_MAX_def max_def split: if_splits)
  then show "same_table btf btf'" using ok k(1,2) d(2) by (intro same_tableI [OF assms(2)]) simp_all
  show "unat (type_len (hdr btf)) + n \<le> length (types_data btf')" using k(2) d(2) by simp
qed

section \<open>Writing words\<close>

lemma put_append:
  assumes "off + length xs + length ys \<le> length d"
  shows "put d off (xs @ ys) = put (put d off xs) (off + length xs) ys"
  using assms by (simp add: put_def add.commute [of "length ys"] add.assoc)

lemma length_concat_bytes32 [simp]: "length (concat (map bytes32 ws)) = 4 * length ws"
  by (induction ws) simp_all

lemma take_put [simp]: "off \<le> length d \<Longrightarrow> take off (put d off bs) = take off d"
  by (simp add: put_def)

lemma get32_put_words:
  assumes "off + 4 * length ws \<le> length d" "i < length ws"
  shows "get32 (put d off (concat (map bytes32 ws))) (off + 4 * i) = ws ! i"
  using assms
proof (induction ws arbitrary: d off i)
  case (Cons w ws)
  let ?d = "put32 d off w"
  have put: "put d off (concat (map bytes32 (w # ws))) = put ?d (off + 4) (concat (map bytes32 ws))"
    using Cons.prems(1) put_append [of off "bytes32 w" "concat (map bytes32 ws)" d] by (simp add: put32_def)
  show ?case
  proof (cases i)
    case 0
    have "get32 (put ?d (off + 4) (concat (map bytes32 ws))) off = get32 ?d off"
      by (rule get32_put_other) (use Cons.prems(1) in simp_all)
    with 0 put Cons.prems(1) show ?thesis by (simp add: get32_put32)
  next
    case (Suc j)
    have "get32 (put ?d (off + 4) (concat (map bytes32 ws))) (off + 4 + 4 * j) = ws ! j"
      by (rule Cons.IH) (use Cons.prems Suc in simp_all)
    with Suc put show ?thesis by (simp add: add.assoc)
  qed
qed simp

lemma words_at_put:
  "off + 4 * length ws \<le> length d \<Longrightarrow> words_at (put d off (concat (map bytes32 ws))) off (length ws) = ws"
  by (rule nth_equalityI) (simp_all add: get32_put_words)

lemma words_at_add: "words_at d p (a + b) = words_at d p a @ words_at d (p + 4 * a) b"
  by (rule nth_equalityI) (auto simp: nth_append add.assoc simp flip: distrib_left)

lemma type_at_put:
  assumes "btf_type_size t = Some n" "n = 12 + 4 * length (rest t)" "off + n \<le> length d"
  shows "type_at (put d off (type_bytes t)) off = t" "btf_type_size (type_hdr_at (put d off (type_bytes t)) off) = Some n"
proof -
  let ?ws = "name_off t # info t # size_type t # rest t"
  have w: "words_at (put d off (type_bytes t)) off (3 + length (rest t)) = ?ws"
  proof -
    have l: "3 + length (rest t) = length ?ws" by simp
    show ?thesis unfolding l type_bytes_def by (rule words_at_put) (use assms(2,3) in simp)
  qed
  from arg_cong [OF w, of "\<lambda>xs. xs ! 0"] arg_cong [OF w, of "\<lambda>xs. xs ! 1"] arg_cong [OF w, of "\<lambda>xs. xs ! 2"]
  have h: "type_hdr_at (put d off (type_bytes t)) off = t\<lparr>rest := []\<rparr>"
    by (simp add: type_hdr_at_def)
  then show s: "btf_type_size (type_hdr_at (put d off (type_bytes t)) off) = Some n" using assms(1) by simp
  have "words_at (put d off (type_bytes t)) (off + 12) (length (rest t)) = rest t"
  proof -
    have "words_at (put d off (type_bytes t)) (off + 12) (length (rest t)) =
        drop 3 (words_at (put d off (type_bytes t)) off (3 + length (rest t)))" by (simp add: words_at_add)
    then show ?thesis unfolding w by simp
  qed
  with s h assms(2) show "type_at (put d off (type_bytes t)) off = t" by (simp add: type_at_def)
qed

section \<open>Appending a type\<close>

lemma types_from_append:
  "types_from d endt (xs @ ys) p \<longleftrightarrow> (\<exists>q. q \<le> endt \<and> types_from d q xs p \<and> types_from d endt ys q)"
proof (induction xs arbitrary: p)
  case Nil
  show ?case using types_from_le [of d endt ys p] by auto
next
  case (Cons x xs)
  show ?case
    by (auto simp: types_from_Cons_iff Cons.IH) (meson types_from_le order_trans)+
qed

lemma commit_type_table:
  assumes ok: "btf_ok btf" and t: "btf_type_size (type_at d (unat (type_len (hdr btf)))) = Some n"
    and d: "take (unat (type_len (hdr btf))) d = take (unat (type_len (hdr btf))) (types_data btf)"
    "unat (type_len (hdr btf)) + n \<le> length d" "length d < 2 ^ 32"
    and r: "btf_commit_type env (btf\<lparr>types_data := d\<rparr>) n = (btf', id')"
  shows "start_id btf' = start_id btf \<and>
     (id' < 0 \<and> same_table btf btf' \<or>
      id' = int (start_id btf + nr_types btf) \<and> btf_ok btf' \<and> nr_types btf' = nr_types btf + 1 \<and>
        btf_types btf' = btf_types btf @ [type_at d (unat (type_len (hdr btf)))])"
proof -
  let ?L = "unat (type_len (hdr btf))" and ?nr = "nr_types btf"
  have L: "?L \<le> length (types_data btf)" "?nr \<le> length (type_offs btf)"
    "types_from (types_data btf) ?L (take ?nr (type_offs btf)) 0"
    using ok by (simp_all add: btf_ok_def)
  show ?thesis
  proof (cases "btf_add_type_idx_entry (offs_ok env) (type_offs btf) ?nr ?L")
    case None
    with r have "btf' = btf\<lparr>types_data := d\<rparr>" "id' < 0" by (simp_all add: btf_commit_type_def errno_defs)
    moreover have "same_table btf (btf\<lparr>types_data := d\<rparr>)"
      by (rule same_tableI [OF ok]) (use d L in simp_all)
    ultimately show ?thesis by simp
  next
    case (Some m)
    note m = add_type_idx_entry_Some [OF Some L(2)]
    have b': "btf' = btf\<lparr>types_data := d, type_offs := m, hdr := (hdr btf)\<lparr>type_len := type_len (hdr btf) + of_nat n,
        str_off := str_off (hdr btf) + of_nat n\<rparr>, nr_types := ?nr + 1\<rparr>"
      and id': "id' = int (start_id btf + ?nr)"
      using r Some by (simp_all add: btf_commit_type_def Let_def)
    have len: "unat (type_len (hdr btf) + of_nat n) = ?L + n"
      using d(2,3) by (simp add: unat_word_ariths(1) unsigned_of_nat take_bit_eq_mod)
    have offs: "take (?nr + 1) m = take ?nr (type_offs btf) @ [?L]"
      using m by (simp add: take_Suc_conv_app_nth)
    have t': "btf_type_size (type_hdr_at d ?L) = Some n"
      using t by (simp add: type_at_def Let_def split: option.splits)
    have f: "types_from d ?L (take ?nr (type_offs btf)) 0"
      "map (type_at d) (take ?nr (type_offs btf)) = btf_types btf"
      using types_from_cong [OF L(3), of d] d(1) by (simp_all add: btf_types_def)
    have "types_from d (?L + n) (take (?nr + 1) m) 0"
      using f(1) t' unfolding offs types_from_append
      by (intro exI [of _ ?L]) (simp add: types_from.simps(2))
    then have "btf_ok btf'" using d m(1) by (simp add: b' btf_ok_def len)
    moreover have "btf_types btf' = btf_types btf @ [type_at d ?L]"
      using f(2) offs by (simp add: btf_types_def b')
    ultimately show ?thesis using id' by (simp add: b')
  qed
qed

lemma strset_new_error: "strset_new a b c al n d = Inl e \<Longrightarrow> e \<noteq> 0"
  by (auto simp: strset_new_def errno_defs Let_def split: if_splits option.splits prod.splits)

lemma ensure_modifiable_modifiable:
  "btf_ensure_modifiable env hb btf = (btf', 0) \<Longrightarrow> modifiable btf'"
  by (auto simp: btf_ensure_modifiable_def btf_invalidate_raw_data_def Let_def errno_defs
      dest: strset_new_error split: if_splits sum.splits)

text \<open>A name added to a modifiable object leaves its type region as it is, spare room included.\<close>

lemma add_name_types_data:
  assumes "btf_add_name env (btf # base) name = (btf' # base', r)" "modifiable btf"
  shows "types_data btf' = types_data btf"
proof (cases "has_name name")
  case True
  obtain base1 off where f: "btf__find_str (\<lambda>n. env (Suc n)) base (the name) = (base1, off)" by fastforce
  from assms True show ?thesis
    by (auto simp: btf_add_name_def f btf_ensure_modifiable_def btf_invalidate_raw_data_def Let_def
        split: if_splits prod.splits)
next
  case False
  with assms show ?thesis by (simp add: btf_add_name_def)
qed

lemma append_type_table:
  assumes r: "btf_append_type env (btf # base) n name t = (b', r)" and c: "btf_chain (btf # base)"
    and t: "\<And>x. btf_type_size (t x) = Some n" "\<And>x. n = 12 + 4 * length (rest (t x))"
  shows "btf_chain b' \<and>
     (r < 0 \<and> btf_view b' = btf_view (btf # base) \<or>
      r = int (btf__type_cnt (btf # base)) \<and>
        btf_view b' = (start_id btf, btf_types btf @ [t (append_noff env btf base n name)]) # btf_view base)"
proof -
  obtain btf1 e where m: "btf_ensure_modifiable (env 0) (base \<noteq> []) btf = (btf1, e)" by fastforce
  have s1: "same_table btf btf1" using ensure_modifiable_table [OF m] c by simp
  have unchanged: "btf_chain b' \<and> btf_view b' = btf_view (btf # base)" if "same_tables (btf # base) b'" for b'
    using same_tables_chain [OF that c] by simp
  have base: "same_tables base base" using c by (simp add: same_tables_refl)
  show ?thesis
  proof (cases "e \<noteq> 0 \<or> btf_add_type_mem (env 0) btf1 n = None")
    case True
    with r m have "b' = btf1 # base" "r = - ENOMEM"
      by (auto simp: btf_append_type_def split: option.splits)
    with unchanged [of b'] s1 base show ?thesis by (simp add: errno_defs)
  next
    case False
    then obtain btf2 where e: "e = 0" and m2: "btf_add_type_mem (env 0) btf1 n = Some btf2" by auto
    note s2 = add_type_mem_table [OF m2 same_table_ok [OF s1]]
    have s2': "same_table btf btf2" by (rule same_table_trans [OF s1 s2(1)])
    obtain b3 noff where n3: "btf_add_name env (btf2 # base) name = (b3, noff)" by fastforce
    have noff: "append_noff env btf base n name = word_of_int noff" by (simp add: append_noff_def m m2 n3)
    have c2: "btf_chain (btf2 # base)" using s2' c by (simp add: same_table_def)
    have s3: "same_tables (btf2 # base) b3" by (rule add_name_tables [OF n3 c2])
    then obtain btf3 base3 where b3: "b3 = btf3 # base3" "same_table btf2 btf3" "same_tables base base3" by auto
    have s13: "same_table btf btf3" by (rule same_table_trans [OF s2' b3(2)])
    show ?thesis
    proof (cases "noff < 0")
      case True
      with r m e m2 n3 have "b' = b3" "r = noff" by (auto simp: btf_append_type_def)
      with unchanged [of b3] True s13 b3 show ?thesis by simp
    next
      case False
      let ?L = "unat (type_len (hdr btf3))" and ?t = "t (word_of_int noff)"
      let ?d = "put (types_data btf3) ?L (type_bytes ?t)"
      obtain btf4 where r4: "btf_commit_type (env 0) (btf3\<lparr>types_data := ?d\<rparr>) n = (btf4, r)" "b' = btf4 # base3"
        using r m e m2 n3 b3(1) False by (auto simp: btf_append_type_def Let_def split: prod.splits)
      have ok3: "btf_ok btf3" by (rule same_table_ok [OF s13])
      have L3: "type_len (hdr btf3) = type_len (hdr btf1)" using s1 s13 by (simp add: same_table_def)
      have mod: "modifiable btf2"
        using ensure_modifiable_modifiable [of "env 0" "base \<noteq> []" btf btf1] m e m2
        by (auto simp: btf_add_type_mem_def split: option.splits)
      have room: "?L + n \<le> length (types_data btf3)"
        using s2(2) add_name_types_data [OF n3 [unfolded b3(1)] mod] L3 by simp
      have len: "length ?d = length (types_data btf3)"
        using room t(2) by (simp add: type_bytes_def)
      have t3: "type_at ?d ?L = ?t"
        by (rule type_at_put(1) [OF t(1) t(2) room])
      have "start_id btf4 = start_id btf3 \<and> (r < 0 \<and> same_table btf3 btf4 \<or>
          r = int (start_id btf3 + nr_types btf3) \<and> btf_ok btf4 \<and> nr_types btf4 = nr_types btf3 + 1 \<and>
            btf_types btf4 = btf_types btf3 @ [type_at ?d ?L])"
        by (rule commit_type_table [OF ok3 _ _ _ _ r4(1)])
          (use t(1) t3 room len ok3 in \<open>simp_all add: btf_ok_def\<close>)
      then show ?thesis
      proof (elim conjE disjE)
        assume "r < 0" "same_table btf3 btf4"
        with unchanged [of b'] r4(2) b3(3) same_table_trans [OF s13] show ?thesis by simp
      next
        assume st: "start_id btf4 = start_id btf3" and new: "r = int (start_id btf3 + nr_types btf3)" "btf_ok btf4"
          "nr_types btf4 = nr_types btf3 + 1" "btf_types btf4 = btf_types btf3 @ [type_at ?d ?L]"
        have v: "btf_view base3 = btf_view base" "btf_chain base3" "btf__type_cnt base3 = btf__type_cnt base"
          using same_tables_chain [OF b3(3)] c by simp_all
        have "btf_view b' = (start_id btf, btf_types btf @ [?t]) # btf_view base"
          using new(4) st t3 s13 v(1) by (simp add: r4(2) btf_view_def same_table_def)
        moreover have "btf_chain b'" using new(2) st s13 v c by (simp add: r4(2) same_table_def)
        moreover have "r = int (btf__type_cnt (btf # base))"
          using new(1) s13 by (simp add: btf__type_cnt_def same_table_def)
        ultimately show ?thesis unfolding noff by blast
      qed
    qed
  qed
qed

section \<open>Appending an entry\<close>

text \<open>The last type with a new info word and more words behind it.\<close>

definition extend_type :: "btf_type \<Rightarrow> u32 \<Rightarrow> u32 list \<Rightarrow> btf_type" where
  "extend_type t i ws = t\<lparr>info := i, rest := rest t @ ws\<rparr>"

lemma type_hdr_at_put32_info:
  assumes "off + 12 \<le> length d"
  shows "type_hdr_at (put32 d (off + 4) i) off = (type_hdr_at d off)\<lparr>info := i\<rparr>"
  using assms by (simp add: type_hdr_at_def get32_put32 get32_put32_other)

lemma words_at_put32_other:
  assumes "off + 4 \<le> p" "p + 4 * n \<le> length d"
  shows "words_at (put32 d off i) p n = words_at d p n"
  by (rule nth_equalityI) (use assms in \<open>simp_all add: get32_put32_other\<close>)

lemma btf_type_size_info [simp]: "btf_type_size (type_at d p) = btf_type_size (type_hdr_at d p)"
  by (simp add: type_at_def Let_def split: option.splits)

lemma btf_type_size_info_eq: "info t = info t' \<Longrightarrow> btf_type_size t = btf_type_size t'"
  by (simp add: btf_type_size_def btf_kind_def btf_vlen_def)

lemma type_at_entry:
  assumes s: "btf_type_size (type_hdr_at d p) = Some n" "p + n = L" "L + 4 * length ws \<le> length d"
    and i: "btf_type_size ((type_at d p)\<lparr>info := i\<rparr>) = Some (n + 4 * length ws)"
  defines "d' \<equiv> put32 (put d L (concat (map bytes32 ws))) (p + 4) i"
  shows "type_at d' p = extend_type (type_at d p) i ws"
    and "btf_type_size (type_hdr_at d' p) = Some (n + 4 * length ws)"
    and "length d' = length d" and "take p d' = take p d"
proof -
  let ?d = "put d L (concat (map bytes32 ws))"
  have n: "12 \<le> n" "4 dvd n" using btf_type_size_ge [OF s(1)] btf_type_size_dvd [OF s(1)] by simp_all
  have pL: "p + 12 \<le> L" using n s(2) by simp
  have ld: "length ?d = length d" using s(3) by simp
  have "take L ?d = take L d" using s(3) by simp
  then have hd: "type_hdr_at ?d p = type_hdr_at d p" by (rule type_hdr_at_cong) (use pL in simp)
  have h: "type_hdr_at d' p = (type_hdr_at d p)\<lparr>info := i\<rparr>"
    unfolding d'_def hd [symmetric] by (rule type_hdr_at_put32_info) (use pL s(3) ld in simp)
  show s': "btf_type_size (type_hdr_at d' p) = Some (n + 4 * length ws)"
    using i btf_type_size_info_eq [of "type_hdr_at d' p" "(type_at d p)\<lparr>info := i\<rparr>"] by (simp add: h)
  obtain m where "n = 4 * m" using n(2) by (auto elim: dvdE)
  then have k: "n = 12 + 4 * (m - 3)" using n(1) by simp
  define k where "k = m - 3"
  have k: "n = 12 + 4 * k" using k by (simp add: k_def)
  have "words_at d' (p + 12) (k + length ws) = words_at ?d (p + 12) (k + length ws)"
    unfolding d'_def by (rule words_at_put32_other) (use s k ld in simp_all)
  also have "\<dots> = words_at ?d (p + 12) k @ words_at ?d L (length ws)"
    using s(2) k by (simp add: words_at_add add.assoc)
  also have "words_at ?d (p + 12) k = words_at d (p + 12) k"
    by (rule words_at_cong [of L]) (use s k in simp_all)
  also have "words_at ?d L (length ws) = ws" by (rule words_at_put [OF s(3)])
  finally have "words_at d' (p + 12) (k + length ws) = words_at d (p + 12) k @ ws" .
  with s' s(1) k show "type_at d' p = extend_type (type_at d p) i ws"
    by (simp add: type_at_def h extend_type_def)
  show "length d' = length d" using pL s(3) ld by (simp add: d'_def)
  show "take p d' = take p d" using pL s(3) ld by (simp add: d'_def put32_def put_def min_def)
qed

lemma type_cnt_pos: "btf_chain b \<Longrightarrow> 0 < btf__type_cnt b"
  by (induction b) (auto simp: btf__type_cnt_def)

lemma last_type_view:
  assumes "btf_chain (btf # base)" "0 < nr_types btf"
  shows "btf_last_type (btf # base) = last (btf_types btf)"
proof -
  have len: "length (btf_types btf) = nr_types btf" using assms(1) by (simp add: length_btf_types)
  have "0 < start_id btf" using assms(1) type_cnt_pos [of base] by simp
  with assms len show ?thesis
    using type_by_id_view [OF assms(1), of "btf__type_cnt (btf # base) - 1"]
    by (auto simp: btf_last_type_def btf__type_cnt_def last_conv_nth simp flip: length_0_conv)
qed

lemma extend_last:
  assumes ok: "btf_ok btf" and nr: "0 < nr_types btf"
    and L: "L = unat (type_len (hdr btf))" and room: "L + 4 * length ws \<le> length (types_data btf)"
    and i: "\<And>m. btf_type_size (last (btf_types btf)) = Some m \<Longrightarrow>
      btf_type_size ((last (btf_types btf))\<lparr>info := i\<rparr>) = Some (m + 4 * length ws)"
    and b': "btf' = btf\<lparr>types_data := put32 (put (types_data btf) L (concat (map bytes32 ws)))
        (type_offs btf ! (nr_types btf - 1) + 4) i,
      hdr := (hdr btf)\<lparr>type_len := type_len (hdr btf) + of_nat (4 * length ws),
        str_off := str_off (hdr btf) + of_nat (4 * length ws)\<rparr>\<rparr>"
  shows "btf_ok btf'" "btf_types btf' = butlast (btf_types btf) @ [extend_type (last (btf_types btf)) i ws]"
proof -
  let ?d = "types_data btf" and ?nr = "nr_types btf"
  let ?d' = "types_data btf'"
  define off where "off = type_offs btf ! (?nr - 1)"
  define offs where "offs = take (?nr - 1) (type_offs btf)"
  have ok': "L \<le> length ?d" "length ?d < 2 ^ 32" "?nr \<le> length (type_offs btf)"
    "types_from ?d L (take ?nr (type_offs btf)) 0" using ok by (simp_all add: btf_ok_def L)
  have split: "take ?nr (type_offs btf) = offs @ [off]"
    using nr ok'(3) take_Suc_conv_app_nth [of "?nr - 1" "type_offs btf"] by (simp add: offs_def off_def)
  obtain m where m: "types_from ?d off offs 0" "btf_type_size (type_hdr_at ?d off) = Some m" "off + m = L"
    using ok'(4) unfolding split types_from_append by (auto simp: types_from.simps(2) split: option.splits)
  have types: "btf_types btf = map (type_at ?d) offs @ [type_at ?d off]" by (simp add: btf_types_def split)
  have i': "btf_type_size ((type_at ?d off)\<lparr>info := i\<rparr>) = Some (m + 4 * length ws)"
    using i [of m] m(2) by (simp add: types)
  have d': "?d' = put32 (put ?d L (concat (map bytes32 ws))) (off + 4) i" by (simp add: b' off_def)
  note e = type_at_entry [OF m(2,3) room i', folded d']
  have len: "unat (type_len (hdr btf) + of_nat (4 * length ws)) = L + 4 * length ws"
  proof -
    have "unat (of_nat (4 * length ws) :: u32) = 4 * length ws"
      using room ok'(2) by (simp add: unsigned_of_nat take_bit_eq_mod del: of_nat_mult)
    then show ?thesis using room ok'(2) by (simp only: unat_word_ariths(1)) (simp add: L)
  qed
  have offs': "types_from ?d' off offs 0" "map (type_at ?d') offs = map (type_at ?d) offs"
    using types_from_cong [OF m(1), of ?d'] e(4) by simp_all
  have "types_from ?d' (L + 4 * length ws) (offs @ [off]) 0"
    unfolding types_from_append
    by (intro exI [of _ off]) (use offs'(1) e(2) m(3) in \<open>simp add: types_from.simps(2)\<close>)
  then show "btf_ok btf'"
    using e(3) room ok'(2,3) len split by (simp add: btf_ok_def b')
  show "btf_types btf' = butlast (btf_types btf) @ [extend_type (last (btf_types btf)) i ws]"
    unfolding types using e(1) offs'(2) split by (simp add: btf_types_def b')
qed

lemma append_entry_table:
  assumes r: "btf_append_entry env (btf # base) n name entry new_info = (b', r)" and c: "btf_chain (btf # base)"
    and nr: "0 < nr_types btf" and n: "\<And>x. n = 4 * length (entry x)"
    and i: "\<And>m. btf_type_size (last (btf_types btf)) = Some m \<Longrightarrow>
      btf_type_size ((last (btf_types btf))\<lparr>info := new_info (last (btf_types btf))\<rparr>) = Some (m + n)"
  shows "btf_chain b' \<and>
     (r < 0 \<and> btf_view b' = btf_view (btf # base) \<or>
      r = 0 \<and> btf_view b' = (start_id btf, butlast (btf_types btf) @
        [extend_type (last (btf_types btf)) (new_info (last (btf_types btf)))
          (entry (append_noff env btf base n name))]) # btf_view base)"
proof -
  obtain btf1 e where m: "btf_ensure_modifiable (env 0) (base \<noteq> []) btf = (btf1, e)" by fastforce
  have s1: "same_table btf btf1" using ensure_modifiable_table [OF m] c by simp
  have unchanged: "btf_chain b' \<and> btf_view b' = btf_view (btf # base)" if "same_tables (btf # base) b'" for b'
    using same_tables_chain [OF that c] by simp
  have base: "same_tables base base" using c by (simp add: same_tables_refl)
  show ?thesis
  proof (cases "e \<noteq> 0 \<or> btf_add_type_mem (env 0) btf1 n = None")
    case True
    with r m have "b' = btf1 # base" "r = - ENOMEM"
      by (auto simp: btf_append_entry_def split: option.splits)
    with unchanged [of b'] s1 base show ?thesis by (simp add: errno_defs)
  next
    case False
    then obtain btf2 where e: "e = 0" and m2: "btf_add_type_mem (env 0) btf1 n = Some btf2" by auto
    note s2 = add_type_mem_table [OF m2 same_table_ok [OF s1]]
    have s2': "same_table btf btf2" by (rule same_table_trans [OF s1 s2(1)])
    obtain b3 noff where n3: "btf_add_name env (btf2 # base) name = (b3, noff)" by fastforce
    have noff: "append_noff env btf base n name = word_of_int noff" by (simp add: append_noff_def m m2 n3)
    have c2: "btf_chain (btf2 # base)" using s2' c by (simp add: same_table_def)
    have s3: "same_tables (btf2 # base) b3" by (rule add_name_tables [OF n3 c2])
    then obtain btf3 base3 where b3: "b3 = btf3 # base3" "same_table btf2 btf3" "same_tables base base3" by auto
    have s13: "same_table btf btf3" by (rule same_table_trans [OF s2' b3(2)])
    show ?thesis
    proof (cases "noff < 0")
      case True
      with r m e m2 n3 have "b' = b3" "r = noff" by (auto simp: btf_append_entry_def)
      with unchanged [of b3] True s13 b3 show ?thesis by simp
    next
      case False
      define L ws where "L = unat (type_len (hdr btf3))" and "ws = entry (word_of_int noff)"
      define d where "d = put (types_data btf3) L (concat (map bytes32 ws))"
      have L3: "type_len (hdr btf3) = type_len (hdr btf1)" using s1 s13 by (simp add: same_table_def)
      have mod: "modifiable btf2"
        using ensure_modifiable_modifiable [of "env 0" "base \<noteq> []" btf btf1] m e m2
        by (auto simp: btf_add_type_mem_def split: option.splits)
      have room: "L + 4 * length ws \<le> length (types_data btf3)"
        using s2(2) add_name_types_data [OF n3 [unfolded b3(1)] mod] L3 n by (simp add: L_def ws_def)
      let ?t = "last (btf_types btf)"
      have ok3: "btf_ok btf3" by (rule same_table_ok [OF s13])
      have t3: "btf_types btf3 = btf_types btf" "nr_types btf3 = nr_types btf" "start_id btf3 = start_id btf"
        using s13 by (simp_all add: same_table_def)
      have v: "btf_view base3 = btf_view base" "btf_chain base3" "btf__type_cnt base3 = btf__type_cnt base"
        using same_tables_chain [OF b3(3)] c by simp_all
      have "same_table btf3 (btf3\<lparr>types_data := d\<rparr>)"
        by (rule same_tableI [OF ok3]) (use room ok3 in \<open>simp_all add: d_def L_def btf_ok_def\<close>)
      then have "btf_chain (btf3\<lparr>types_data := d\<rparr> # base3)" "btf_types (btf3\<lparr>types_data := d\<rparr>) = btf_types btf"
        using v c t3 by (simp_all add: same_table_def)
      from last_type_view [OF this(1)] this(2) nr t3(2)
      have last: "btf_last_type (btf3\<lparr>types_data := d\<rparr> # base3) = ?t" by simp
      define btf4 where "btf4 = btf3\<lparr>types_data := put32 d (type_offs btf3 ! (nr_types btf3 - 1) + 4) (new_info ?t),
        hdr := (hdr btf3)\<lparr>type_len := type_len (hdr btf3) + of_nat (4 * length ws),
          str_off := str_off (hdr btf3) + of_nat (4 * length ws)\<rparr>\<rparr>"
      have b': "b' = btf4 # base3" "r = 0"
        using r m e m2 n3 b3(1) False last n [of "word_of_int noff"] nr t3(2,3)
        by (simp_all add: btf_append_entry_def Let_def btf4_def d_def L_def ws_def set_info_def btf__type_cnt_def)
      note ext = extend_last [OF ok3 _ L_def room _ btf4_def [unfolded d_def]]
      have "btf_ok btf4" "btf_types btf4 = butlast (btf_types btf) @ [extend_type ?t (new_info ?t) ws]"
        using ext i nr n [of "word_of_int noff"] by (simp_all add: t3 ws_def)
      then show ?thesis
        using v t3 c by (auto simp: b' btf_view_def btf4_def ws_def noff)
    qed
  qed
qed

end
