(* ===== verification/Btf_Ops.thy ===== *)
theory Btf_Ops
  imports Btf_Table
begin

text \<open>
  The functions of \<open>Btf_Build\<close> together, as operations on the abstract type table: what each appends
  or changes, and that the byte-level functions do exactly that.
\<close>

section \<open>Operations and their effect\<close>

datatype btf_op =
    Add_int "u8 list option" nat u32
  | Add_float "u8 list option" nat
  | Add_ptr int
  | Add_array int int u32
  | Add_struct "u8 list option" u32
  | Add_union "u8 list option" u32
  | Add_field "u8 list option" int u32 u32
  | Add_enum "u8 list option" nat
  | Add_enum_value "u8 list option" int
  | Add_enum64 "u8 list option" nat bool
  | Add_enum64_value "u8 list option" u64
  | Add_fwd "u8 list option" btf_fwd_kind
  | Add_typedef "u8 list option" int
  | Add_volatile int
  | Add_const int
  | Add_restrict int
  | Add_type_tag "u8 list option" int
  | Add_func "u8 list option" btf_func_linkage int
  | Add_func_proto int
  | Add_func_param "u8 list option" int
  | Add_var "u8 list option" int int
  | Add_datasec "u8 list option" u32
  | Add_datasec_var_info int u32 u32
  | Add_decl_tag "u8 list option" int int

fun exec_op :: "(nat \<Rightarrow> btf_env) \<Rightarrow> btf list \<Rightarrow> btf_op \<Rightarrow> btf list \<times> int" where
  "exec_op env b (Add_int name n enc) = btf__add_int env b name n enc"
| "exec_op env b (Add_float name n) = btf__add_float env b name n"
| "exec_op env b (Add_ptr i) = btf__add_ptr env b i"
| "exec_op env b (Add_array i e n) = btf__add_array env b i e n"
| "exec_op env b (Add_struct name n) = btf__add_struct env b name n"
| "exec_op env b (Add_union name n) = btf__add_union env b name n"
| "exec_op env b (Add_field name i off n) = btf__add_field env b name i off n"
| "exec_op env b (Add_enum name n) = btf__add_enum env b name n"
| "exec_op env b (Add_enum_value name v) = btf__add_enum_value env b name v"
| "exec_op env b (Add_enum64 name n sg) = btf__add_enum64 env b name n sg"
| "exec_op env b (Add_enum64_value name v) = btf__add_enum64_value env b name v"
| "exec_op env b (Add_fwd name k) = btf__add_fwd env b name k"
| "exec_op env b (Add_typedef name i) = btf__add_typedef env b name i"
| "exec_op env b (Add_volatile i) = btf__add_volatile env b i"
| "exec_op env b (Add_const i) = btf__add_const env b i"
| "exec_op env b (Add_restrict i) = btf__add_restrict env b i"
| "exec_op env b (Add_type_tag v i) = btf__add_type_tag env b v i"
| "exec_op env b (Add_func name l i) = btf__add_func env b name l i"
| "exec_op env b (Add_func_proto i) = btf__add_func_proto env b i"
| "exec_op env b (Add_func_param name i) = btf__add_func_param env b name i"
| "exec_op env b (Add_var name l i) = btf__add_var env b name l i"
| "exec_op env b (Add_datasec name n) = btf__add_datasec env b name n"
| "exec_op env b (Add_datasec_var_info i off n) = btf__add_datasec_var_info env b i off n"
| "exec_op env b (Add_decl_tag v i c) = btf__add_decl_tag env b v i c"

text \<open>The name in an operation.\<close>

fun op_name :: "btf_op \<Rightarrow> u8 list option" where
  "op_name (Add_int name n enc) = name"
| "op_name (Add_float name n) = name"
| "op_name (Add_struct name n) = name"
| "op_name (Add_union name n) = name"
| "op_name (Add_field name i off n) = name"
| "op_name (Add_enum name n) = name"
| "op_name (Add_enum_value name v) = name"
| "op_name (Add_enum64 name n sg) = name"
| "op_name (Add_enum64_value name v) = name"
| "op_name (Add_fwd name k) = name"
| "op_name (Add_typedef name i) = name"
| "op_name (Add_type_tag v i) = v"
| "op_name (Add_func name l i) = name"
| "op_name (Add_func_param name i) = name"
| "op_name (Add_var name l i) = name"
| "op_name (Add_datasec name n) = name"
| "op_name (Add_decl_tag v i c) = v"
| "op_name _ = None"

text \<open>The type an operation appends, given the offset of its name.\<close>

fun new_type :: "btf_op \<Rightarrow> u32 \<Rightarrow> btf_type option" where
  "new_type (Add_int name n enc) x =
     Some (mk_type BTF_KIND_INT 0 False (of_nat n) [push_bit 24 enc OR of_nat (n * 8)] x)"
| "new_type (Add_float name n) x = Some (mk_type BTF_KIND_FLOAT 0 False (of_nat n) [] x)"
| "new_type (Add_ptr i) x = Some (mk_type BTF_KIND_PTR 0 False (word_of_int i) [] x)"
| "new_type (Add_array i e n) x =
     Some (mk_type BTF_KIND_ARRAY 0 False 0 [word_of_int e, word_of_int i, n] x)"
| "new_type (Add_struct name n) x = Some (mk_type BTF_KIND_STRUCT 0 False n [] x)"
| "new_type (Add_union name n) x = Some (mk_type BTF_KIND_UNION 0 False n [] x)"
| "new_type (Add_enum name n) x = Some (mk_type BTF_KIND_ENUM 0 False (of_nat n) [] x)"
| "new_type (Add_enum64 name n sg) x = Some (mk_type BTF_KIND_ENUM64 0 sg (of_nat n) [] x)"
| "new_type (Add_fwd name k) x =
     Some (if k = BTF_FWD_ENUM then mk_type BTF_KIND_ENUM 0 False 4 [] x
           else mk_type BTF_KIND_FWD 0 (k = BTF_FWD_UNION) 0 [] x)"
| "new_type (Add_typedef name i) x = Some (mk_type BTF_KIND_TYPEDEF 0 False (word_of_int i) [] x)"
| "new_type (Add_volatile i) x = Some (mk_type BTF_KIND_VOLATILE 0 False (word_of_int i) [] x)"
| "new_type (Add_const i) x = Some (mk_type BTF_KIND_CONST 0 False (word_of_int i) [] x)"
| "new_type (Add_restrict i) x = Some (mk_type BTF_KIND_RESTRICT 0 False (word_of_int i) [] x)"
| "new_type (Add_type_tag v i) x = Some (mk_type BTF_KIND_TYPE_TAG 0 False (word_of_int i) [] x)"
| "new_type (Add_func name l i) x =
     Some (mk_type BTF_KIND_FUNC (func_linkage_nr l) False (word_of_int i) [] x)"
| "new_type (Add_func_proto i) x = Some (mk_type BTF_KIND_FUNC_PROTO 0 False (word_of_int i) [] x)"
| "new_type (Add_var name l i) x =
     Some (mk_type BTF_KIND_VAR 0 False (word_of_int i) [word_of_int l] x)"
| "new_type (Add_datasec name n) x = Some (mk_type BTF_KIND_DATASEC 0 False n [] x)"
| "new_type (Add_decl_tag v i c) x =
     Some (mk_type BTF_KIND_DECL_TAG 0 False (word_of_int i) [word_of_int c] x)"
| "new_type _ x = None"

text \<open>The words an operation appends to the last type, and whether it sets the type's flag.\<close>

fun new_entry :: "btf_op \<Rightarrow> u32 \<Rightarrow> u32 list \<times> bool" where
  "new_entry (Add_field name i off n) x =
     ([x, word_of_int i, off OR push_bit 24 n], n \<noteq> 0 \<or> off mod 8 \<noteq> 0)"
| "new_entry (Add_enum_value name v) x = ([x, word_of_int v], v < 0)"
| "new_entry (Add_enum64_value name v) x = ([x, ucast v, ucast (drop_bit 32 v)], False)"
| "new_entry (Add_func_param name i) x = ([x, word_of_int i], False)"
| "new_entry (Add_datasec_var_info i off n) x = ([word_of_int i, off, n], False)"
| "new_entry _ x = ([], False)"

definition table_op :: "btf_op \<Rightarrow> u32 \<Rightarrow> btf_type list \<Rightarrow> btf_type list" where
  "table_op op x ts =
     (case new_type op x of
        Some t \<Rightarrow> ts @ [t]
      | None \<Rightarrow>
          let t = last ts; (ws, flag) = new_entry op x
          in butlast ts @ [extend_type t (btf_type_info (btf_kind t) (btf_vlen t + 1) (flag \<or> btf_kflag t)) ws])"

section \<open>Sizes\<close>

lemma info_simps [simp]:
  "vlen < 65536 \<Longrightarrow> btf_kind (t\<lparr>info := btf_type_info k vlen fl\<rparr>) = k"
  "vlen < 65536 \<Longrightarrow> btf_vlen (t\<lparr>info := btf_type_info k vlen fl\<rparr>) = vlen"
  "vlen < 65536 \<Longrightarrow> btf_kflag (t\<lparr>info := btf_type_info k vlen fl\<rparr>) = fl"
  by (simp_all add: btf_kind_def btf_vlen_def btf_kflag_def)

lemma mk_type_simps [simp]:
  "vlen < 65536 \<Longrightarrow> btf_kind (mk_type k vlen fl s r x) = k"
  "vlen < 65536 \<Longrightarrow> btf_vlen (mk_type k vlen fl s r x) = vlen"
  "vlen < 65536 \<Longrightarrow> btf_kflag (mk_type k vlen fl s r x) = fl"
  "rest (mk_type k vlen fl s r x) = r"
  by (simp_all add: mk_type_def btf_kind_def btf_vlen_def btf_kflag_def)

definition entry_size :: "btf_kinds \<Rightarrow> nat" where
  "entry_size k = (if k \<in> {BTF_KIND_ENUM, BTF_KIND_FUNC_PROTO} then 8 else 12)"

lemma inc_vlen_size:
  assumes "btf_kind t \<in> {BTF_KIND_STRUCT, BTF_KIND_UNION, BTF_KIND_ENUM, BTF_KIND_ENUM64,
      BTF_KIND_FUNC_PROTO, BTF_KIND_DATASEC}"
    and "btf_vlen t < 65535" "btf_type_size t = Some m"
  shows "btf_type_size (t\<lparr>info := btf_type_info (btf_kind t) (btf_vlen t + 1) fl\<rparr>) =
     Some (m + entry_size (btf_kind t))"
  using assms by (auto simp: btf_type_size_def Let_def entry_size_def)

lemma inc_vlen_signed:
  assumes "btf_vlen t < 65535"
  shows "(let t' = t\<lparr>info := btf_type_inc_vlen t\<rparr> in
      if neg then btf_type_info (btf_kind t') (btf_vlen t') True else info t') =
    btf_type_info (btf_kind t) (btf_vlen t + 1) (neg \<or> btf_kflag t)"
  using assms by (simp add: Let_def btf_type_inc_vlen_def)

section \<open>Refinement\<close>

text \<open>An operation fails without a change to the table, or has its effect and returns the identifier or 0.\<close>

definition op_refines :: "btf \<Rightarrow> btf list \<Rightarrow> btf_op \<Rightarrow> btf list \<times> int \<Rightarrow> bool" where
  "op_refines btf base op res \<longleftrightarrow>
     (case res of (b', r) \<Rightarrow>
        btf_chain b' \<and> strs_grow (btf # base) b' \<and>
        (r < 0 \<and> btf_view b' = btf_view (btf # base) \<or>
         r = (if new_type op 0 = None then 0 else int (btf__type_cnt (btf # base))) \<and>
           (\<exists>x. name_at b' (op_name op) x \<and>
             btf_view b' = (start_id btf, table_op op x (btf_types btf)) # btf_view base)))"

text \<open>Both well-formedness conditions of a chain.\<close>

definition btf_wf :: "btf list \<Rightarrow> bool" where
  "btf_wf b \<longleftrightarrow> btf_chain b \<and> strs_chain b"

lemma refines_error:
  "btf_wf (btf # base) \<Longrightarrow> r < 0 \<Longrightarrow> op_refines btf base op (btf # base, r)"
  by (simp add: op_refines_def btf_wf_def strs_grow_refl)

lemma refines_new:
  assumes w: "btf_wf (btf # base)" "c_name (op_name op)" and "op_name op = name" "\<And>x. new_type op x = Some (t x)"
    and "\<And>x. btf_type_size (t x) = Some n" "\<And>x. n = 12 + 4 * length (rest (t x))"
  shows "op_refines btf base op (btf_append_type env (btf # base) n name t)"
proof -
  obtain b' r where r: "btf_append_type env (btf # base) n name t = (b', r)" by fastforce
  have "btf_chain (btf # base)" using w by (simp add: btf_wf_def)
  from append_type_table [OF r this assms(5,6)] append_type_strs [OF r] w assms(3) show ?thesis
    by (auto simp: op_refines_def r assms(4) table_op_def btf_wf_def)
qed

lemma refines_entry:
  assumes w: "btf_wf (btf # base)" "c_name (op_name op)" and "op_name op = name"
    and "0 < nr_types btf" "\<And>x. new_type op x = None"
    and "\<And>x. new_entry op x = (entry x, flag)" "\<And>x. n = 4 * length (entry x)"
    and kind: "n = entry_size (btf_kind (last (btf_types btf)))"
      "btf_kind (last (btf_types btf)) \<in> {BTF_KIND_STRUCT, BTF_KIND_UNION, BTF_KIND_ENUM, BTF_KIND_ENUM64,
        BTF_KIND_FUNC_PROTO, BTF_KIND_DATASEC}"
    and vlen: "btf_vlen (last (btf_types btf)) < 65535"
    and i: "new_info (last (btf_types btf)) = btf_type_info (btf_kind (last (btf_types btf)))
      (btf_vlen (last (btf_types btf)) + 1) (flag \<or> btf_kflag (last (btf_types btf)))"
  shows "op_refines btf base op (btf_append_entry env (btf # base) n name entry new_info)"
proof -
  obtain b' r where r: "btf_append_entry env (btf # base) n name entry new_info = (b', r)" by fastforce
  have c: "btf_chain (btf # base)" using w by (simp add: btf_wf_def)
  have "btf_chain b' \<and> (r < 0 \<and> btf_view b' = btf_view (btf # base) \<or>
      r = 0 \<and> btf_view b' = (start_id btf, butlast (btf_types btf) @
        [extend_type (last (btf_types btf)) (new_info (last (btf_types btf)))
          (entry (append_noff env btf base n name))]) # btf_view base)"
    by (rule append_entry_table [OF r c assms(4,7)]) (use inc_vlen_size [OF kind(2) vlen] kind(1) i in simp)
  then show ?thesis
    using append_entry_strs [OF r] w assms(3)
    by (auto simp: op_refines_def r assms(5,6) table_op_def Let_def i btf_wf_def)
qed

text \<open>A struct or union forward declaration and a function get their final info word after the commit.\<close>

lemma refines_set_info:
  assumes c: "btf_wf (btf # base)" and r: "op_refines btf base op' (b', r)" "0 < r"
    and op': "\<And>x. new_type op' x = Some (mk_type k 0 False s [] x)" "op_name op' = op_name op"
    and op: "\<And>x. new_type op x = Some (mk_type k v fl s [] x)" "v < 65536"
    and k: "k \<in> {BTF_KIND_FWD, BTF_KIND_FUNC}"
  shows "op_refines btf base op (set_info_id b' r (btf_type_info k v fl), r)"
proof -
  obtain x where v: "btf_chain b'" "btf_view b' = (start_id btf, btf_types btf @ [mk_type k 0 False s [] x]) # btf_view base"
    and rr: "r = int (btf__type_cnt (btf # base))" and g: "strs_grow (btf # base) b'" "name_at b' (op_name op) x"
    using r by (auto simp: op_refines_def op' table_op_def)
  obtain btf1 base1 where b': "b' = btf1 # base1" "start_id btf1 = start_id btf"
    "btf_types btf1 = btf_types btf @ [mk_type k 0 False s [] x]" "btf_view base1 = btf_view base"
    using v(2) by (cases b') (auto simp: btf_view_def)
  have ok: "btf_ok btf1" using v(1) b'(1) by simp
  have nr: "nr_types btf1 = nr_types btf + 1"
    using length_btf_types [OF ok] length_btf_types [of btf] c b'(3) by (simp add: btf_wf_def)
  define btf2 where "btf2 = btf1\<lparr>types_data := put32 (put (types_data btf1) (unat (type_len (hdr btf1)))
      (concat (map bytes32 []))) (type_offs btf1 ! (nr_types btf1 - 1) + 4) (btf_type_info k v fl),
    hdr := (hdr btf1)\<lparr>type_len := type_len (hdr btf1) + of_nat (4 * length ([] :: u32 list)),
        str_off := str_off (hdr btf1) + of_nat (4 * length ([] :: u32 list))\<rparr>\<rparr>"
  have e: "btf_ok btf2" "btf_types btf2 = btf_types btf @ [mk_type k v fl s [] x]"
    using extend_last [OF ok _ refl _ _ btf2_def] nr ok op(2) k
    by (auto simp: b'(3) btf_ok_def extend_type_def mk_type_def btf_type_size_def btf_kind_def btf_vlen_def)
  have "set_info_id b' r (btf_type_info k v fl) = btf2 # base1"
    using nr rr b'(2) by (simp add: b'(1) set_info_id_def set_info_def btf2_def btf__type_cnt_def put_def nat_int_add)
  moreover have "btf_chain (btf2 # base1)" using v(1) b'(1) e(1) by (simp add: btf2_def)
  moreover have "strs_grow b' (btf2 # base1)"
  proof -
    have sc: "strs_chain (btf1 # base1)" using g(1) b'(1) by (simp add: strs_grow_def)
    then have "same_sec btf1 btf2" by (intro same_sec_fields) (simp_all add: btf2_def)
    with sc show ?thesis unfolding b'(1) by (intro same_sec_grow)
  qed
  then have "strs_grow (btf # base) (btf2 # base1)" "name_at (btf2 # base1) (op_name op) x"
    using g by (blast intro: strs_grow_trans named_grow)+
  ultimately show ?thesis
    using e(2) b'(2,4) rr by (auto simp: op_refines_def op(1) table_op_def btf_view_def btf2_def)
qed

lemmas append_defs = btf__add_int_def btf__add_float_def btf_add_ref_kind_def btf__add_ptr_def
  btf__add_array_def btf_add_composite_def btf__add_struct_def btf__add_union_def btf_add_enum_common_def
  btf__add_enum_def btf__add_enum64_def btf__add_typedef_def btf__add_volatile_def btf__add_const_def
  btf__add_restrict_def btf__add_type_tag_def btf__add_func_proto_def btf__add_var_def
  btf__add_datasec_def btf__add_decl_tag_def

lemmas entry_defs = btf__add_enum_value_def btf__add_enum64_value_def
  btf__add_func_param_def btf__add_datasec_var_info_def

lemma ref_kind_refines:
  assumes "btf_wf (btf # base)" "c_name (op_name op)" "op_name op = name"
    and "\<And>x. new_type op x = Some (mk_type k 0 False (word_of_int i) [] x)"
    and "k \<in> {BTF_KIND_FWD, BTF_KIND_FUNC}"
  shows "op_refines btf base op (btf_add_ref_kind env (btf # base) k name i)"
  using assms
  by (auto simp: btf_add_ref_kind_def errno_defs btf_type_size_def sizeof_btf_type_def
      intro!: refines_error refines_new)

lemma fwd_refines:
  assumes c: "btf_wf (btf # base)" "c_name name"
  shows "op_refines btf base (Add_fwd name k) (btf__add_fwd env (btf # base) name k)"
proof (cases "has_name name")
  case False
  with c show ?thesis by (simp add: btf__add_fwd_def refines_error errno_defs)
next
  case name: True
  show ?thesis
  proof (cases k)
    case BTF_FWD_ENUM
    with c name show ?thesis
      by (auto simp: btf__add_fwd_def btf__add_enum_def btf_add_enum_common_def pow2_def errno_defs
          btf_type_size_def sizeof_btf_type_def intro!: refines_new)
  next
    case BTF_FWD_STRUCT
    obtain b' r where r: "btf_add_ref_kind env (btf # base) BTF_KIND_FWD name 0 = (b', r)" by fastforce
    have ref: "op_refines btf base (Add_fwd name k) (b', r)"
      unfolding r [symmetric] by (rule ref_kind_refines [OF c(1)]) (simp_all add: BTF_FWD_STRUCT c)
    show ?thesis
    proof (cases "0 < r")
      case True
      with refines_set_info [OF c(1) ref True, of BTF_KIND_FWD 0 "Add_fwd name k" 0 False] name r BTF_FWD_STRUCT
      show ?thesis by (simp add: btf__add_fwd_def)
    qed (use ref name r BTF_FWD_STRUCT in \<open>simp add: btf__add_fwd_def\<close>)
  next
    case BTF_FWD_UNION
    obtain b' r where r: "btf_add_ref_kind env (btf # base) BTF_KIND_FWD name 0 = (b', r)" by fastforce
    have ref: "op_refines btf base (Add_fwd name BTF_FWD_STRUCT) (b', r)"
      unfolding r [symmetric] by (rule ref_kind_refines [OF c(1)]) (simp_all add: c)
    show ?thesis
    proof (cases "0 < r")
      case True
      with refines_set_info [OF c(1) ref True, of BTF_KIND_FWD 0 "Add_fwd name k" 0 True] name r BTF_FWD_UNION
      show ?thesis by (simp add: btf__add_fwd_def)
    next
      case False
      with ref have "r < 0" using type_cnt_pos [of "btf # base"] c(1) by (simp add: op_refines_def btf_wf_def)
      with ref False name r BTF_FWD_UNION show ?thesis by (simp add: btf__add_fwd_def op_refines_def)
    qed
  qed
qed

lemma func_refines:
  assumes c: "btf_wf (btf # base)" "c_name name"
  shows "op_refines btf base (Add_func name l i) (btf__add_func env (btf # base) name l i)"
proof (cases "has_name name")
  case False
  with c show ?thesis by (simp add: btf__add_func_def refines_error errno_defs)
next
  case name: True
  obtain b' r where r: "btf_add_ref_kind env (btf # base) BTF_KIND_FUNC name i = (b', r)" by fastforce
  have ref: "op_refines btf base (Add_func name BTF_FUNC_STATIC i) (b', r)"
    unfolding r [symmetric] by (rule ref_kind_refines [OF c(1)]) (simp_all add: c)
  have l: "func_linkage_nr l < 65536" by (cases l) simp_all
  show ?thesis
  proof (cases "0 < r")
    case True
    with refines_set_info [OF c(1) ref True, of BTF_KIND_FUNC "word_of_int i" "Add_func name l i" "func_linkage_nr l" False]
      name r l
    show ?thesis by (simp add: btf__add_func_def)
  next
    case False
    with ref have "r < 0" using type_cnt_pos [of "btf # base"] c(1) by (simp add: op_refines_def btf_wf_def)
    with ref False name r show ?thesis by (simp add: btf__add_func_def op_refines_def)
  qed
qed

lemma append_refines:
  assumes "btf_wf (btf # base)" "c_name (op_name op)" "new_type op 0 \<noteq> None"
  shows "op_refines btf base op (exec_op env (btf # base) op)"
  using assms
  by (cases op) (auto simp: append_defs errno_defs btf_type_size_def sizeof_btf_type_def fwd_refines func_refines
      intro!: refines_error refines_new)

lemma field_refines:
  assumes w: "btf_wf (btf # base)" "c_name name" and v: "0 < nr_types btf \<Longrightarrow> btf_vlen (last (btf_types btf)) < 65535"
  shows "op_refines btf base (Add_field name i off n) (btf__add_field env (btf # base) name i off n)"
proof (cases "nr_types btf = 0 \<or> \<not> btf_is_composite (last (btf_types btf)) \<or> \<not> validate_type_id i")
  case True
  have "btf_chain (btf # base)" using w by (simp add: btf_wf_def)
  with True have "btf__add_field env (btf # base) name i off n = (btf # base, - EINVAL)"
    using last_type_view [of btf base] by (auto simp: btf__add_field_def own_types_def Let_def)
  with w show ?thesis by (simp add: refines_error errno_defs)
next
  case False
  have c: "btf_chain (btf # base)" using w by (simp add: btf_wf_def)
  let ?t = "last (btf_types btf)"
  define bf where "bf \<longleftrightarrow> n \<noteq> 0 \<or> off mod 8 \<noteq> 0"
  have last: "btf_last_type (btf # base) = ?t" using last_type_view [OF c] False by simp
  have kind: "btf_kind ?t = BTF_KIND_STRUCT \<or> btf_kind ?t = BTF_KIND_UNION"
    using False by (simp add: btf_is_defs Let_def)
  have "btf__add_field env (btf # base) name i off n =
      (if bf \<and> (n = 0 \<or> n > 255 \<or> off > 0xffffff) \<or> btf_is_union ?t \<and> off \<noteq> 0 then (btf # base, - EINVAL)
       else btf_append_entry env (btf # base) 12 name (\<lambda>x. [x, word_of_int i, off OR push_bit 24 n])
         (\<lambda>t. btf_type_info (btf_kind t) (btf_vlen t + 1) (bf \<or> btf_kflag t)))"
    using False unfolding btf__add_field_def Let_def last bf_def [symmetric] by (auto simp: own_types_def)
  moreover have "op_refines btf base (Add_field name i off n)
      (btf_append_entry env (btf # base) 12 name (\<lambda>x. [x, word_of_int i, off OR push_bit 24 n])
         (\<lambda>t. btf_type_info (btf_kind t) (btf_vlen t + 1) (bf \<or> btf_kflag t)))"
  proof (rule refines_entry [OF w(1), where flag = bf])
    show "new_entry (Add_field name i off n) x = ([x, word_of_int i, off OR push_bit 24 n], bf)" for x
      unfolding bf_def by (rule new_entry.simps)
  qed (use False v kind w(2) in \<open>auto simp: entry_size_def\<close>)
  ultimately show ?thesis using w(1) by (simp add: refines_error errno_defs)
qed

lemma entry_refines:
  assumes "btf_wf (btf # base)" "c_name (op_name op)" "new_type op 0 = None"
    and v: "0 < nr_types btf \<Longrightarrow> btf_vlen (last (btf_types btf)) < 65535"
  shows "op_refines btf base op (exec_op env (btf # base) op)"
proof -
  have last: "btf_last_type (btf # base) = last (btf_types btf)" if "nr_types btf \<noteq> 0"
    using last_type_view [of btf base] assms(1) that by (simp add: btf_wf_def)
  from assms last show ?thesis
    by (cases op)
      (auto simp: entry_defs Let_def own_types_def errno_defs entry_size_def btf_is_defs btf_type_inc_vlen_def
        simp del: exec_op.simps(7) intro!: refines_error refines_entry,
       simp_all add: field_refines)
qed

lemma exec_op_refines:
  assumes "btf_wf (btf # base)" "c_name (op_name op)" "0 < nr_types btf \<Longrightarrow> btf_vlen (last (btf_types btf)) < 65535"
  shows "op_refines btf base op (exec_op env (btf # base) op)"
  using append_refines [OF assms(1,2)] entry_refines [OF assms(1,2) _ assms(3)] by blast

end
