(* ===== verification/Btf_Room.thy ===== *)
theory Btf_Room
  imports Btf_Ops
begin

text \<open>
  When the functions of \<open>Btf_Build\<close> succeed: with every allocation granted and room in the sections an
  operation fails for its arguments only, and those it accepts are the ones \<open>op_valid\<close> describes.
\<close>

section \<open>Resources\<close>

text \<open>Every allocation for one object is granted.\<close>

definition env_grants :: "btf_env \<Rightarrow> bool" where
  "env_grants env \<longleftrightarrow>
     hdr_ok env \<and> types_ok env \<and> set_ok env \<and> map_ok env \<and> data_ok env \<and>
     (\<forall>i. calloc_ok (index_al env i) \<and> malloc_ok (index_al env i)) \<and>
     str_ok env \<and> calloc_ok (str_al env) \<and> malloc_ok (str_al env) \<and> mem_ok env \<and> offs_ok env"

text \<open>A lookup copies the string behind each section, so each needs room for it.\<close>

definition sec_room :: "btf list \<Rightarrow> u8 list \<Rightarrow> bool" where
  "sec_room b s \<longleftrightarrow> (\<forall>x\<in>set b. unat (str_len (hdr x)) + length s + 1 \<le> BTF_MAX_STR_OFFSET)"

lemma sec_room_same: "list_all2 same_sec b b' \<Longrightarrow> sec_room b' s = sec_room b s"
  by (induction b b' rule: list_all2_induct) (auto simp: sec_room_def same_sec_def)

section \<open>Strings\<close>

lemma index_succeeds:
  assumes "strset_ok ss" "strs_data_len ss = length (strs_data ss)" "last (strs_data ss) = 0"
    and "\<forall>i. calloc_ok (al i) \<and> malloc_ok (al i)" "strs_data_len ss < 2 ^ 59"
  shows "snd (strset_index al ss off) = 0"
  using assms
proof (induction al ss off rule: strset_index.induct)
  case (1 al ss off)
  show ?case
  proof (cases "off < strs_data_len ss")
    case False
    then show ?thesis by (simp add: strset_index.simps)
  next
    case True
    obtain m err old where r: "hashmap_insert (al off) (strset_map ss) off off HASHMAP_ADD = (m, err, old)"
      by (cases "hashmap_insert (al off) (strset_map ss) off off HASHMAP_ADD") auto
    have k: "keyed (strset_hash_fn (strs_data ss)) (strset_equal_fn (strs_data ss)) (strset_map ss)"
      using 1(2) by (simp add: strset_ok_def)
    have e: "err = 0 \<or> err = - EEXIST"
    proof (cases "hashmap_find (strset_map ss) off")
      case None
      from strs.insert_fails [OF k None _ r] strset_size [OF 1(2)] 1(5,6) show ?thesis by fastforce
    next
      case (Some u)
      from strs.insert_exists [OF k Some r] show ?thesis by blast
    qed
    have t: "terminated (strs_data ss) (strs_data_len ss) off"
      using c_str_terminated [of off "strs_data ss"] True 1(3,4) by simp
    have "snd (strset_index al (ss\<lparr>strs_hash := m\<rparr>) (off + length (c_str (strs_data ss) off) + 1)) = 0"
      using "1.IH" [OF True r [symmetric] refl] e index_round(1) [OF 1(2) t r e] 1(3-6) by simp
    then show ?thesis using True r e by (auto simp: strset_index.simps [of al ss off])
  qed
qed

lemma empty_strset_ok:
  "strset_ok \<lparr>strs_data = d, strs_data_len = length d, strs_data_max_len = n,
     strs_hash = hashmap_init (strset_hash_fn []) (strset_equal_fn [])\<rparr>" (is "strset_ok ?s")
proof -
  have m: "strset_map ?s = hashmap_init (strset_hash_fn d) (strset_equal_fn d)"
    by (simp add: strset_map_def hashmap_init_def)
  have "hashmap_entries (strs_hash ?s) = []" by (simp add: hashmap_entries_def hashmap_init_def)
  then show ?thesis using hashmap_init_keyed [of "strset_hash_fn d" "strset_equal_fn d"]
    unfolding strset_ok_def m by simp
qed

lemma strset_new_succeeds:
  assumes "d = [] \<or> last d = 0" "length d < 2 ^ 59" "\<forall>i. calloc_ok (al i) \<and> malloc_ok (al i)"
  shows "\<exists>ss. strset_new True True True al n (Some d) = Inr ss"
proof -
  let ?s = "\<lparr>strs_data = d, strs_data_len = length d, strs_data_max_len = n,
     strs_hash = hashmap_init (strset_hash_fn []) (strset_equal_fn [])\<rparr>"
  have "snd (strset_index al ?s 0) = 0"
  proof (cases "d = []")
    case False
    with index_succeeds [OF empty_strset_ok [of d n], where al = al and off = 0] assms show ?thesis by simp
  qed (simp add: strset_index.simps)
  then obtain ss where "strset_index al ?s 0 = (ss, 0)" by (metis prod.collapse)
  then show ?thesis by (simp add: strset_new_def)
qed

lemma ensure_modifiable_succeeds:
  assumes "env_grants env" "strs_ok btf" shows "snd (btf_ensure_modifiable env hb btf) = 0"
proof (cases "modifiable btf")
  case raw: False
  let ?d = "btf_strs_data btf"
  have d: "length ?d = unat (str_len (hdr btf))" "?d = [] \<or> last ?d = 0"
    using assms(2) raw by (auto simp: strs_ok_def str_sec_def btf_strs_def)
  moreover have "unat (str_len (hdr btf)) < 2 ^ 59"
    using unsigned_less [of "str_len (hdr btf)", where ?'a = nat] by simp
  ultimately obtain ss where "strset_new True True True (index_al env) BTF_MAX_STR_OFFSET (Some ?d) = Inr ss"
    using strset_new_succeeds [of ?d "index_al env"] assms(1) by (auto simp: env_grants_def)
  then show ?thesis using assms(1) raw by (simp add: btf_ensure_modifiable_def env_grants_def Let_def)
qed (simp add: btf_ensure_modifiable_def)

lemma find_str_fails_only_absent:
  assumes "\<And>i. env_grants (env i)" "strs_chain b" "0 \<notin> set s" "sec_room b s"
    and "btf__find_str env b s = (b', r)" "r < 0"
  shows "r = - ENOENT"
  using assms
proof (induction env b s arbitrary: b' r rule: btf__find_str.induct)
  case (2 env btf base s)
  obtain base' off where f: "btf__find_str (\<lambda>n. env (Suc n)) base s = (base', off)" by fastforce
  have ok: "strs_ok btf" "strs_chain base" "sec_room base s" using 2(3,5) by (simp_all add: sec_room_def)
  show ?case
  proof (cases "off = - ENOENT")
    case False
    then have "r = off" using 2(6) f by simp
    with "2.IH" [OF 2(2) ok(2) 2(4) ok(3) f] 2(7) show ?thesis by simp
  next
    case True
    obtain btf1 e where m: "btf_ensure_modifiable (env 0) (base' \<noteq> []) btf = (btf1, e)" by fastforce
    have e: "e = 0" using ensure_modifiable_succeeds [OF 2(2) ok(1), of 0 "base' \<noteq> []"] m by simp
    note s1 = ensure_modifiable_strs [OF m ok(1)]
    obtain ss so where q: "strset_find_str (str_ok (env 0)) (strs_set btf1) s = (ss, so)" by fastforce
    have "strs_ok btf1" "modifiable btf1" "str_len (hdr btf1) = str_len (hdr btf)"
      using s1 e by (simp_all add: same_sec_def)
    from modifiable_sec [OF this(1,2)] this(3) 2(2,5) have "str_room (str_ok (env 0)) (strs_set btf1) s"
      by (simp add: str_room_def sec_room_def env_grants_def)
    from find_str_fails [OF q _ this] 2(6,7) f True m e q show ?thesis by (auto split: if_splits)
  qed
qed simp

lemma add_str_succeeds:
  assumes "\<And>i. env_grants (env i)" "strs_chain b" "b \<noteq> []" "0 \<notin> set s" "sec_room b s"
    and "btf__add_str env b s = (b', r)"
  shows "0 \<le> r"
proof (rule ccontr)
  assume neg: "\<not> 0 \<le> r"
  obtain btf base where b: "b = btf # base" using assms(3) by (cases b) auto
  obtain base' off where f: "btf__find_str (\<lambda>n. env (Suc n)) base s = (base', off)" by fastforce
  have ok: "strs_ok btf" "strs_chain base" "sec_room base s" using assms(2,5) b by (simp_all add: sec_room_def)
  have off: "off = - ENOENT"
    using find_str_fails_only_absent [OF assms(1) ok(2) assms(4) ok(3) f] assms(6) neg b f
    by (cases "off = - ENOENT") auto
  obtain btf1 e where m: "btf_ensure_modifiable (env 0) (base' \<noteq> []) btf = (btf1, e)" by fastforce
  have e: "e = 0" using ensure_modifiable_succeeds [OF assms(1) ok(1), of 0 "base' \<noteq> []"] m by simp
  note s1 = ensure_modifiable_strs [OF m ok(1)]
  obtain ss so where q: "strset_add_str (str_al (env 0)) (str_ok (env 0)) (strs_set btf1) s = (ss, so)" by fastforce
  have md: "strs_ok btf1" "modifiable btf1" "str_len (hdr btf1) = str_len (hdr btf)"
    using s1 e by (simp_all add: same_sec_def)
  note sec = modifiable_sec [OF md(1,2)]
  have room: "str_room (str_ok (env 0)) (strs_set btf1) s"
    using sec md(3) assms(1,5) b by (simp add: str_room_def sec_room_def env_grants_def)
  have "so < 0" using assms(6) neg b f off m e q by (auto simp: Let_def split: if_splits)
  from add_str_fails [OF _ assms(4) q this room] sec assms(1) have "2 ^ 59 \<le> unat (str_len (hdr btf1))"
    by (simp add: env_grants_def)
  with unsigned_less [of "str_len (hdr btf1)", where ?'a = nat] show False by simp
qed

section \<open>Types and entries\<close>

text \<open>Room for \<open>n\<close> more bytes of types, one more type and the name.\<close>

definition type_room :: "btf list \<Rightarrow> nat \<Rightarrow> u8 list option \<Rightarrow> bool" where
  "type_room b n name \<longleftrightarrow>
     unat (type_len (hdr (hd b))) + n \<le> UINT_MAX \<and> nr_types (hd b) < BTF_MAX_NR_TYPES \<and>
     (has_name name \<longrightarrow> sec_room b (the name))"

lemma room_prefix:
  assumes env: "\<And>i. env_grants (env i)" and w: "btf_wf (btf # base)" "c_name name" and room: "type_room (btf # base) n name"
  obtains btf1 btf2 b3 noff where
    "btf_ensure_modifiable (env 0) (base \<noteq> []) btf = (btf1, 0)" "btf_add_type_mem (env 0) btf1 n = Some btf2"
    "btf_add_name env (btf2 # base) name = (b3, noff)" "0 \<le> noff" "same_tables (btf # base) b3"
proof -
  have c: "btf_chain (btf # base)" "strs_chain (btf # base)" using w by (simp_all add: btf_wf_def)
  obtain btf1 e where m: "btf_ensure_modifiable (env 0) (base \<noteq> []) btf = (btf1, e)" by fastforce
  have e: "e = 0" using ensure_modifiable_succeeds [OF env, of btf 0 "base \<noteq> []"] m c by simp
  have s1: "same_table btf btf1" "same_sec btf btf1"
    using ensure_modifiable_table [OF m] ensure_modifiable_strs(1) [OF m] c by simp_all
  obtain btf2 where m2: "btf_add_type_mem (env 0) btf1 n = Some btf2"
    using env [of 0] room s1(1)
    by (cases "btf_add_type_mem (env 0) btf1 n")
      (auto simp: btf_add_type_mem_def libbpf_add_mem_None env_grants_def type_room_def same_table_def split: option.splits)
  have s2: "same_table btf btf2"
    using same_table_trans [OF s1(1) add_type_mem_table(1) [OF m2 same_table_ok [OF s1(1)]]] .
  have "strs_ok btf1" using s1(2) by (simp add: same_sec_def)
  then have "same_sec btf1 btf2"
    using m2 by (intro same_sec_fields) (auto simp: btf_add_type_mem_def split: option.splits)
  then have ss: "same_sec btf btf2" by (rule same_sec_trans [OF s1(2)])
  obtain b3 noff where n3: "btf_add_name env (btf2 # base) name = (b3, noff)" by fastforce
  have secs: "list_all2 same_sec (btf # base) (btf2 # base)" using ss c(2) by (simp add: same_secs_refl)
  have "0 \<le> noff"
  proof (cases "has_name name")
    case True
    have "sec_room (btf2 # base) (the name)"
      using True room sec_room_same [OF secs] by (simp add: type_room_def)
    then show ?thesis
      using add_str_succeeds [OF env, where b = "btf2 # base" and s = "the name" and b' = b3 and r = noff] same_secs_chain [OF secs c(2)] n3 True w(2)
      by (auto simp: btf_add_name_def c_name_def has_name_def)
  qed (use n3 in \<open>simp add: btf_add_name_def\<close>)
  moreover have c2: "btf_chain (btf2 # base)" using s2 c by (simp add: same_table_def)
  have "same_tables (btf # base) b3"
    using add_name_tables [OF n3 c2] same_table_trans [OF s2] by auto
  ultimately show thesis using that m m2 n3 e by simp
qed

lemma append_type_succeeds:
  assumes env: "\<And>i. env_grants (env i)" and w: "btf_wf (btf # base)" "c_name name" and room: "type_room (btf # base) n name"
  shows "0 \<le> snd (btf_append_type env (btf # base) n name t)"
proof -
  obtain btf1 btf2 b3 noff where p: "btf_ensure_modifiable (env 0) (base \<noteq> []) btf = (btf1, 0)"
    "btf_add_type_mem (env 0) btf1 n = Some btf2" "btf_add_name env (btf2 # base) name = (b3, noff)" "0 \<le> noff"
    and s: "same_tables (btf # base) b3"
    by (rule room_prefix [OF assms])
  obtain btf3 base3 where b3: "b3 = btf3 # base3" "same_table btf btf3" using s by auto
  have "nr_types btf3 < BTF_MAX_NR_TYPES" using room b3(2) by (simp add: type_room_def same_table_def)
  then have idx: "btf_add_type_idx_entry (offs_ok (env 0)) (type_offs btf3) (nr_types btf3) x \<noteq> None" for x
    using env [of 0]
    by (auto simp: btf_add_type_idx_entry_def btf_add_type_offs_mem_def libbpf_add_mem_None env_grants_def
        split: option.splits)
  then obtain offs where "btf_add_type_idx_entry (offs_ok (env 0)) (type_offs btf3) (nr_types btf3)
      (unat (type_len (hdr btf3))) = Some offs" by blast
  then show ?thesis
    using p b3(1) by (simp add: btf_append_type_def btf_commit_type_def Let_def)
qed

lemma append_entry_succeeds:
  assumes env: "\<And>i. env_grants (env i)" and w: "btf_wf (btf # base)" "c_name name" and room: "type_room (btf # base) n name"
  shows "0 \<le> snd (btf_append_entry env (btf # base) n name entry new_info)"
proof -
  obtain btf1 btf2 b3 noff where p: "btf_ensure_modifiable (env 0) (base \<noteq> []) btf = (btf1, 0)"
    "btf_add_type_mem (env 0) btf1 n = Some btf2" "btf_add_name env (btf2 # base) name = (b3, noff)" "0 \<le> noff"
    and s: "same_tables (btf # base) b3"
    by (rule room_prefix [OF assms])
  obtain btf3 base3 where "b3 = btf3 # base3" using s by auto
  then show ?thesis using p by (simp add: btf_append_entry_def Let_def)
qed

section \<open>Arguments\<close>

text \<open>
  Which arguments each operation accepts, for the own types \<open>ts\<close> of the object: names that must be
  given, sizes and identifiers in range, a last type of the right kind for an entry.
\<close>

fun op_valid :: "btf_op \<Rightarrow> btf_type list \<Rightarrow> bool" where
  "op_valid (Add_int name n enc) ts \<longleftrightarrow> has_name name \<and> n \<in> {1, 2, 4, 8, 16} \<and> enc < 8"
| "op_valid (Add_float name n) ts \<longleftrightarrow> has_name name \<and> n \<in> {2, 4, 8, 12, 16}"
| "op_valid (Add_ptr i) ts \<longleftrightarrow> i \<in> {0..int BTF_MAX_NR_TYPES}"
| "op_valid (Add_array i e n) ts \<longleftrightarrow> i \<in> {0..int BTF_MAX_NR_TYPES} \<and> e \<in> {0..int BTF_MAX_NR_TYPES}"
| "op_valid (Add_struct name n) ts \<longleftrightarrow> True"
| "op_valid (Add_union name n) ts \<longleftrightarrow> True"
| "op_valid (Add_field name i off n) ts \<longleftrightarrow>
     ts \<noteq> [] \<and> i \<in> {0..int BTF_MAX_NR_TYPES} \<and>
     (btf_kind (last ts) = BTF_KIND_STRUCT \<or> btf_kind (last ts) = BTF_KIND_UNION \<and> off = 0) \<and>
     (n = 0 \<and> 8 dvd unat off \<or> 0 < n \<and> n \<le> 255 \<and> off < 2 ^ 24)"
| "op_valid (Add_enum name n) ts \<longleftrightarrow> n \<in> {1, 2, 4, 8}"
| "op_valid (Add_enum_value name v) ts \<longleftrightarrow>
     ts \<noteq> [] \<and> btf_kind (last ts) = BTF_KIND_ENUM \<and> has_name name \<and> - (2 ^ 31) \<le> v \<and> v < 2 ^ 32"
| "op_valid (Add_enum64 name n sg) ts \<longleftrightarrow> n \<in> {1, 2, 4, 8}"
| "op_valid (Add_enum64_value name v) ts \<longleftrightarrow>
     ts \<noteq> [] \<and> btf_kind (last ts) = BTF_KIND_ENUM64 \<and> has_name name"
| "op_valid (Add_fwd name k) ts \<longleftrightarrow> has_name name"
| "op_valid (Add_typedef name i) ts \<longleftrightarrow> has_name name \<and> i \<in> {0..int BTF_MAX_NR_TYPES}"
| "op_valid (Add_volatile i) ts \<longleftrightarrow> i \<in> {0..int BTF_MAX_NR_TYPES}"
| "op_valid (Add_const i) ts \<longleftrightarrow> i \<in> {0..int BTF_MAX_NR_TYPES}"
| "op_valid (Add_restrict i) ts \<longleftrightarrow> i \<in> {0..int BTF_MAX_NR_TYPES}"
| "op_valid (Add_type_tag v i) ts \<longleftrightarrow> has_name v \<and> i \<in> {0..int BTF_MAX_NR_TYPES}"
| "op_valid (Add_func name l i) ts \<longleftrightarrow> has_name name \<and> i \<in> {0..int BTF_MAX_NR_TYPES}"
| "op_valid (Add_func_proto i) ts \<longleftrightarrow> i \<in> {0..int BTF_MAX_NR_TYPES}"
| "op_valid (Add_func_param name i) ts \<longleftrightarrow>
     ts \<noteq> [] \<and> btf_kind (last ts) = BTF_KIND_FUNC_PROTO \<and> i \<in> {0..int BTF_MAX_NR_TYPES}"
| "op_valid (Add_var name l i) ts \<longleftrightarrow> has_name name \<and> l \<in> {0, 1, 2} \<and> i \<in> {0..int BTF_MAX_NR_TYPES}"
| "op_valid (Add_datasec name n) ts \<longleftrightarrow> has_name name"
| "op_valid (Add_datasec_var_info i off n) ts \<longleftrightarrow>
     ts \<noteq> [] \<and> btf_kind (last ts) = BTF_KIND_DATASEC \<and> i \<in> {0..int BTF_MAX_NR_TYPES}"
| "op_valid (Add_decl_tag v i c) ts \<longleftrightarrow> has_name v \<and> i \<in> {0..int BTF_MAX_NR_TYPES} \<and> - 1 \<le> c"

lemma valid_id: "i \<in> {0..int BTF_MAX_NR_TYPES} \<longleftrightarrow> validate_type_id i"
  by (auto simp: validate_type_id_def)

lemma pow2_16: "n \<in> {1, 2, 4, 8, 16} \<longleftrightarrow> pow2 n \<and> n \<le> 16"
proof -
  have "n \<in> {1, 2, 4, 8, 16} \<longleftrightarrow> pow2 n" if "n < 17"
  proof -
    have "\<forall>n\<in>set [0..<17]. (n \<in> {1, 2, 4, 8, 16} \<longleftrightarrow> pow2 n)" by code_simp
    with that show ?thesis by simp
  qed
  then show ?thesis by (cases "n < 17") auto
qed

lemma pow2_8: "n \<in> {1, 2, 4, 8} \<longleftrightarrow> pow2 n \<and> n \<le> 8"
  using pow2_16 [of n] by auto

lemma encoding_bits: "(enc :: u32) < 8 \<longleftrightarrow> enc AND NOT (BTF_INT_SIGNED OR BTF_INT_CHAR OR BTF_INT_BOOL) = 0"
proof -
  have m: "BTF_INT_SIGNED OR BTF_INT_CHAR OR BTF_INT_BOOL = (mask 3 :: u32)" by code_simp
  have "enc AND NOT (mask 3) = 0 \<longleftrightarrow> take_bit 3 enc = enc"
    by (auto simp: bit_eq_iff bit_simps)
  also have "\<dots> \<longleftrightarrow> enc < 8"
    by (simp add: take_bit_eq_mod word_less_nat_alt word_unat_eq_iff unat_mod)
      (metis mod_less mod_less_divisor zero_less_numeral)
  finally show ?thesis unfolding m by simp
qed

lemma field_offset: "(off :: u32) mod 8 = 0 \<longleftrightarrow> 8 dvd unat off"
proof -
  have "off mod 8 = 0 \<longleftrightarrow> unat (off mod 8) = 0" by (simp add: unat_eq_0)
  then show ?thesis by (simp add: unat_mod dvd_eq_mod_eq_0)
qed

text \<open>The same conditions as the code tests them.\<close>

fun op_checks :: "btf list \<Rightarrow> btf_op \<Rightarrow> bool" where
  "op_checks b (Add_int name n enc) \<longleftrightarrow> has_name name \<and> pow2 n \<and> n \<le> 16 \<and>
     enc AND NOT (BTF_INT_SIGNED OR BTF_INT_CHAR OR BTF_INT_BOOL) = 0"
| "op_checks b (Add_float name n) \<longleftrightarrow> has_name name \<and> \<not> (n \<noteq> 2 \<and> n \<noteq> 4 \<and> n \<noteq> 8 \<and> n \<noteq> 12 \<and> n \<noteq> 16)"
| "op_checks b (Add_ptr i) \<longleftrightarrow> validate_type_id i"
| "op_checks b (Add_array i e n) \<longleftrightarrow> validate_type_id i \<and> validate_type_id e"
| "op_checks b (Add_struct name n) \<longleftrightarrow> True"
| "op_checks b (Add_union name n) \<longleftrightarrow> True"
| "op_checks b (Add_field name i off n) \<longleftrightarrow>
     own_types b \<noteq> 0 \<and> btf_is_composite (btf_last_type b) \<and> validate_type_id i \<and>
     \<not> ((n \<noteq> 0 \<or> off mod 8 \<noteq> 0) \<and> (n = 0 \<or> n > 255 \<or> off > 0xffffff)) \<and>
     \<not> (btf_is_union (btf_last_type b) \<and> off \<noteq> 0)"
| "op_checks b (Add_enum name n) \<longleftrightarrow> pow2 n \<and> n \<le> 8"
| "op_checks b (Add_enum_value name v) \<longleftrightarrow>
     own_types b \<noteq> 0 \<and> btf_is_enum (btf_last_type b) \<and> has_name name \<and> \<not> (v < - (2 ^ 31) \<or> v > int UINT_MAX)"
| "op_checks b (Add_enum64 name n sg) \<longleftrightarrow> pow2 n \<and> n \<le> 8"
| "op_checks b (Add_enum64_value name v) \<longleftrightarrow>
     own_types b \<noteq> 0 \<and> btf_is_enum64 (btf_last_type b) \<and> has_name name"
| "op_checks b (Add_fwd name k) \<longleftrightarrow> has_name name"
| "op_checks b (Add_typedef name i) \<longleftrightarrow> has_name name \<and> validate_type_id i"
| "op_checks b (Add_volatile i) \<longleftrightarrow> validate_type_id i"
| "op_checks b (Add_const i) \<longleftrightarrow> validate_type_id i"
| "op_checks b (Add_restrict i) \<longleftrightarrow> validate_type_id i"
| "op_checks b (Add_type_tag v i) \<longleftrightarrow> has_name v \<and> validate_type_id i"
| "op_checks b (Add_func name l i) \<longleftrightarrow> has_name name \<and> validate_type_id i"
| "op_checks b (Add_func_proto i) \<longleftrightarrow> validate_type_id i"
| "op_checks b (Add_func_param name i) \<longleftrightarrow>
     validate_type_id i \<and> own_types b \<noteq> 0 \<and> btf_is_func_proto (btf_last_type b)"
| "op_checks b (Add_var name l i) \<longleftrightarrow> has_name name \<and> \<not> (l \<noteq> 0 \<and> l \<noteq> 1 \<and> l \<noteq> 2) \<and> validate_type_id i"
| "op_checks b (Add_datasec name n) \<longleftrightarrow> has_name name"
| "op_checks b (Add_datasec_var_info i off n) \<longleftrightarrow>
     own_types b \<noteq> 0 \<and> btf_is_datasec (btf_last_type b) \<and> validate_type_id i"
| "op_checks b (Add_decl_tag v i c) \<longleftrightarrow> has_name v \<and> \<not> c < - 1 \<and> validate_type_id i"

lemma field_checks:
  "(k = BTF_KIND_STRUCT \<or> k = BTF_KIND_UNION) \<and>
     \<not> ((n \<noteq> 0 \<or> off mod 8 \<noteq> 0) \<and> (n = 0 \<or> n > 255 \<or> off > 0xffffff)) \<and> \<not> (k = BTF_KIND_UNION \<and> off \<noteq> 0) \<longleftrightarrow>
   (k = BTF_KIND_STRUCT \<or> k = BTF_KIND_UNION \<and> off = 0) \<and>
     (n = 0 \<and> 8 dvd unat off \<or> 0 < n \<and> n \<le> 255 \<and> (off :: u32) < 2 ^ 24)" for n :: u32
proof -
  have "off > 0xffffff \<longleftrightarrow> \<not> off < 2 ^ 24"
    by (simp add: word_less_nat_alt not_less) arith
  moreover have "0 < n \<longleftrightarrow> n \<noteq> 0" by (simp add: word_neq_0_conv)
  moreover have "n \<le> 255 \<longleftrightarrow> \<not> 255 < n" "\<not> (k = BTF_KIND_STRUCT \<and> k = BTF_KIND_UNION)" by auto
  ultimately show ?thesis using field_offset [of off] by satx
qed

lemma op_checks_valid:
  assumes "btf_wf (btf # base)" shows "op_checks (btf # base) op \<longleftrightarrow> op_valid op (btf_types btf)"
proof -
  have len: "own_types (btf # base) = 0 \<longleftrightarrow> btf_types btf = []"
    using assms length_btf_types [of btf] by (auto simp: own_types_def btf_wf_def)
  have last: "btf_last_type (btf # base) = last (btf_types btf)" if "btf_types btf \<noteq> []"
  proof (rule last_type_view)
    have "length (btf_types btf) = nr_types btf" using assms by (simp add: length_btf_types btf_wf_def)
    with that show "0 < nr_types btf" by (metis length_greater_0_conv)
  qed (use assms in \<open>simp add: btf_wf_def\<close>)
  show ?thesis
  proof (cases op)
    case (Add_int name n enc)
    show ?thesis unfolding Add_int op_checks.simps op_valid.simps pow2_16 encoding_bits by blast
  next
    case (Add_enum name n)
    show ?thesis unfolding Add_enum op_checks.simps op_valid.simps pow2_8 ..
  next
    case (Add_enum64 name n sg)
    show ?thesis unfolding Add_enum64 op_checks.simps op_valid.simps pow2_8 ..
  next
    case (Add_field name i off n)
    let ?k = "btf_kind (last (btf_types btf))"
    show ?thesis
    proof (cases "btf_types btf = []")
      case False
      have "btf_is_composite (btf_last_type (btf # base)) \<longleftrightarrow> ?k = BTF_KIND_STRUCT \<or> ?k = BTF_KIND_UNION"
        "btf_is_union (btf_last_type (btf # base)) \<longleftrightarrow> ?k = BTF_KIND_UNION"
        by (simp_all add: last [OF False] btf_is_defs Let_def)
      with False show ?thesis
        using field_checks [of ?k n off] unfolding Add_field op_checks.simps op_valid.simps valid_id len by argo
    qed (simp add: Add_field len)
  qed (use last in \<open>auto simp: len validate_type_id_def btf_is_defs btf_is_func_proto_def btf_is_datasec_def
      UINT_MAX_def\<close>)
qed

text \<open>An operation whose arguments are refused changes nothing at all.\<close>

lemma op_refused:
  assumes "\<not> op_checks (btf # base) op"
  shows "exec_op env (btf # base) op = (btf # base, - EINVAL) \<or> exec_op env (btf # base) op = (btf # base, - E2BIG)"
  using assms
  by (cases op) (auto simp: append_defs entry_defs btf__add_fwd_def btf__add_func_def btf__add_field_def Let_def
    errno_defs not_less)

lemma type_room_less: "type_room b 24 name \<Longrightarrow> n \<le> 24 \<Longrightarrow> type_room b n name"
  by (simp add: type_room_def)

lemma type_room_unnamed: "type_room b n name \<Longrightarrow> type_room b n None"
  by (simp add: type_room_def has_name_def)

lemma op_succeeds:
  assumes env: "\<And>i. env_grants (env i)" and w: "btf_wf (btf # base)" "c_name (op_name op)"
    and ok: "op_checks (btf # base) op" and room: "type_room (btf # base) 24 (op_name op)"
  shows "0 \<le> snd (exec_op env (btf # base) op)"
proof -
  have t: "0 \<le> snd (btf_append_type env (btf # base) n name t)" if "name = op_name op" "n \<le> 24" for n name t
    using append_type_succeeds [OF env w(1), of name n] w(2) type_room_less [OF room that(2)] that(1) by simp
  have e: "0 \<le> snd (btf_append_entry env (btf # base) n name entry new_info)" if "name = op_name op" "n \<le> 24"
    for n name entry new_info
    using append_entry_succeeds [OF env w(1), of name n] w(2) type_room_less [OF room that(2)] that(1) by simp
  have r: "0 \<le> snd (btf_add_ref_kind env (btf # base) k name i)" if "name = op_name op" "validate_type_id i" for k name i
    using that t by (simp add: btf_add_ref_kind_def)
  show ?thesis
  proof (cases op)
    case (Add_field name i off n)
    define bf where "bf \<longleftrightarrow> n \<noteq> 0 \<or> off mod 8 \<noteq> 0"
    show ?thesis
      using ok e unfolding Add_field op_checks.simps exec_op.simps btf__add_field_def Let_def bf_def [symmetric]
      by (auto simp: Add_field)
  next
    case (Add_fwd name k)
    have v: "validate_type_id 0" "pow2 4" by (simp add: validate_type_id_def) code_simp
    obtain b' x where x: "btf_add_ref_kind env (btf # base) BTF_KIND_FWD name 0 = (b', x)" by fastforce
    then have "0 \<le> x" using r [of name 0 BTF_KIND_FWD] v Add_fwd by simp
    then show ?thesis
      using ok t v(2) unfolding Add_fwd
      by (cases k) (simp_all add: btf__add_fwd_def x btf__add_enum_def btf_add_enum_common_def Add_fwd)
  next
    case (Add_func name l i)
    obtain b' x where x: "btf_add_ref_kind env (btf # base) BTF_KIND_FUNC name i = (b', x)" by fastforce
    then have "0 \<le> x" using r [of name i BTF_KIND_FUNC] ok Add_func by simp
    with ok show ?thesis unfolding Add_func by (simp add: btf__add_func_def x)
  qed (use ok t e in \<open>auto simp: append_defs entry_defs Let_def\<close>)
qed

end
