(* ===== verification/Btf_Equal.thy ===== *)
theory Btf_Equal
  imports Btf_Object
begin

text \<open>
  The hashes and comparisons of types that deduplication uses, \<open>src/libbpf/src/btf.c\<close>. A type is hashed
  into a bucket of the deduplication table and compared with the candidates there, so a comparison
  may only succeed between types of equal hashes. \<open>long\<close> arithmetic wraps around.
\<close>

section \<open>Hashes\<close>

definition hash_combine :: "u64 \<Rightarrow> u32 \<Rightarrow> u64" where
  "hash_combine h val = h * 31 + ucast val"

definition btf_hash_common :: "btf_type \<Rightarrow> u64" where
  "btf_hash_common t =
     (let h = hash_combine 0 (name_off t);
          h = hash_combine h (info t)
      in hash_combine h (size_type t))"

definition btf_hash_int_decl_tag :: "btf_type \<Rightarrow> u64" where
  "btf_hash_int_decl_tag t = hash_combine (btf_hash_common t) (rest t ! 0)"

definition btf_hash_enum :: "btf_type \<Rightarrow> u64" where
  "btf_hash_enum t = hash_combine 0 (name_off t)"

definition btf_hash_struct :: "btf_type \<Rightarrow> u64" where
  "btf_hash_struct t =
     fold (\<lambda>i h. let m = btf_members t i in hash_combine (hash_combine h (m_name_off m)) (m_offset m))
       [0..<btf_vlen t] (btf_hash_common t)"

definition btf_hash_array :: "btf_type \<Rightarrow> u64" where
  "btf_hash_array t =
     (let a = btf_array t; h = btf_hash_common t;
          h = hash_combine h (a_type a);
          h = hash_combine h (a_index_type a)
      in hash_combine h (a_nelems a))"

definition btf_hash_fnproto :: "btf_type \<Rightarrow> u64" where
  "btf_hash_fnproto t =
     fold (\<lambda>i h. let m = btf_params t i in hash_combine (hash_combine h (p_name_off m)) (p_type m))
       [0..<btf_vlen t] (btf_hash_common t)"

section \<open>Comparisons\<close>

definition btf_equal_common :: "btf_type \<Rightarrow> btf_type \<Rightarrow> bool" where
  "btf_equal_common t1 t2 \<longleftrightarrow>
     name_off t1 = name_off t2 \<and> info t1 = info t2 \<and> size_type t1 = size_type t2"

definition btf_equal_int_tag :: "btf_type \<Rightarrow> btf_type \<Rightarrow> bool" where
  "btf_equal_int_tag t1 t2 \<longleftrightarrow> btf_equal_common t1 t2 \<and> rest t1 ! 0 = rest t2 ! 0"

definition btf_equal_enum_members :: "btf_type \<Rightarrow> btf_type \<Rightarrow> bool" where
  "btf_equal_enum_members t1 t2 \<longleftrightarrow>
     (\<forall>i\<in>set [0..<btf_vlen t1].
        let m1 = btf_enum t1 i; m2 = btf_enum t2 i in e_name_off m1 = e_name_off m2 \<and> e_val m1 = e_val m2)"

definition btf_equal_enum64_members :: "btf_type \<Rightarrow> btf_type \<Rightarrow> bool" where
  "btf_equal_enum64_members t1 t2 \<longleftrightarrow>
     (\<forall>i\<in>set [0..<btf_vlen t1].
        let m1 = btf_enum64 t1 i; m2 = btf_enum64 t2 i in
        e64_name_off m1 = e64_name_off m2 \<and> e64_val_lo32 m1 = e64_val_lo32 m2 \<and>
        e64_val_hi32 m1 = e64_val_hi32 m2)"

definition btf_equal_enum :: "btf_type \<Rightarrow> btf_type \<Rightarrow> bool" where
  "btf_equal_enum t1 t2 \<longleftrightarrow>
     btf_equal_common t1 t2 \<and>
     (if btf_kind t1 = BTF_KIND_ENUM then btf_equal_enum_members t1 t2 else btf_equal_enum64_members t1 t2)"

definition btf_is_enum_fwd :: "btf_type \<Rightarrow> bool" where
  "btf_is_enum_fwd t \<longleftrightarrow> btf_is_any_enum t \<and> btf_vlen t = 0"

definition btf_compat_enum :: "btf_type \<Rightarrow> btf_type \<Rightarrow> bool" where
  "btf_compat_enum t1 t2 \<longleftrightarrow>
     (if \<not> btf_is_enum_fwd t1 \<and> \<not> btf_is_enum_fwd t2 then btf_equal_enum t1 t2
      else name_off t1 = name_off t2 \<and> btf_is_any_enum t1 \<and> btf_is_any_enum t2)"

definition btf_shallow_equal_struct :: "btf_type \<Rightarrow> btf_type \<Rightarrow> bool" where
  "btf_shallow_equal_struct t1 t2 \<longleftrightarrow>
     btf_equal_common t1 t2 \<and>
     (\<forall>i\<in>set [0..<btf_vlen t1].
        let m1 = btf_members t1 i; m2 = btf_members t2 i in
        m_name_off m1 = m_name_off m2 \<and> m_offset m1 = m_offset m2)"

definition btf_equal_array :: "btf_type \<Rightarrow> btf_type \<Rightarrow> bool" where
  "btf_equal_array t1 t2 \<longleftrightarrow>
     btf_equal_common t1 t2 \<and>
     (let a1 = btf_array t1; a2 = btf_array t2 in
      a_type a1 = a_type a2 \<and> a_index_type a1 = a_index_type a2 \<and> a_nelems a1 = a_nelems a2)"

definition btf_compat_array :: "btf_type \<Rightarrow> btf_type \<Rightarrow> bool" where
  "btf_compat_array t1 t2 \<longleftrightarrow>
     btf_equal_common t1 t2 \<and> a_nelems (btf_array t1) = a_nelems (btf_array t2)"

definition btf_equal_fnproto :: "btf_type \<Rightarrow> btf_type \<Rightarrow> bool" where
  "btf_equal_fnproto t1 t2 \<longleftrightarrow>
     btf_equal_common t1 t2 \<and>
     (\<forall>i\<in>set [0..<btf_vlen t1].
        let m1 = btf_params t1 i; m2 = btf_params t2 i in
        p_name_off m1 = p_name_off m2 \<and> p_type m1 = p_type m2)"

definition btf_compat_fnproto :: "btf_type \<Rightarrow> btf_type \<Rightarrow> bool" where
  "btf_compat_fnproto t1 t2 \<longleftrightarrow>
     name_off t1 = name_off t2 \<and> info t1 = info t2 \<and>
     (\<forall>i\<in>set [0..<btf_vlen t1].
        p_name_off (btf_params t1 i) = p_name_off (btf_params t2 i))"

section \<open>Comparison and hash agree\<close>

lemma equal_common_kind:
  "btf_equal_common t1 t2 \<Longrightarrow> btf_kind t1 = btf_kind t2 \<and> btf_vlen t1 = btf_vlen t2 \<and>
     btf_hash_common t1 = btf_hash_common t2 \<and> btf_type_size t1 = btf_type_size t2"
  by (simp add: btf_equal_common_def btf_kind_def btf_vlen_def btf_hash_common_def btf_type_size_def)

lemma hash_equal_int_tag: "btf_equal_int_tag t1 t2 \<Longrightarrow> btf_hash_int_decl_tag t1 = btf_hash_int_decl_tag t2"
  using equal_common_kind [of t1 t2] by (simp add: btf_equal_int_tag_def btf_hash_int_decl_tag_def)

lemma hash_equal_enum: "btf_compat_enum t1 t2 \<Longrightarrow> btf_hash_enum t1 = btf_hash_enum t2"
  by (auto simp: btf_compat_enum_def btf_equal_enum_def btf_equal_common_def btf_hash_enum_def split: if_splits)

lemma hash_equal_array: "btf_equal_array t1 t2 \<Longrightarrow> btf_hash_array t1 = btf_hash_array t2"
  using equal_common_kind [of t1 t2] by (simp add: btf_equal_array_def btf_hash_array_def Let_def)

lemma hash_equal_struct: 
  assumes "btf_shallow_equal_struct t1 t2" shows "btf_hash_struct t1 = btf_hash_struct t2"
  using assms equal_common_kind [of t1 t2]
  by (auto simp: btf_shallow_equal_struct_def btf_hash_struct_def Let_def intro!: fold_cong)

lemma hash_equal_fnproto:
  assumes "btf_equal_fnproto t1 t2" shows "btf_hash_fnproto t1 = btf_hash_fnproto t2"
  using assms equal_common_kind [of t1 t2]
  by (auto simp: btf_equal_fnproto_def btf_hash_fnproto_def Let_def intro!: fold_cong)

section \<open>Exact comparison is equality\<close>

lemma type_ok_length:
  "type_ok t \<Longrightarrow> btf_type_size t = Some n \<Longrightarrow> length (rest t) = (n - 12) div 4"
  by (auto simp: type_ok_def)

lemma type_eqI:
  assumes "btf_equal_common t1 t2" "type_ok t1" "type_ok t2"
    and "\<And>i. i < length (rest t1) \<Longrightarrow> rest t1 ! i = rest t2 ! i"
  shows "(t1 :: btf_type) = t2"
proof -
  have "length (rest t1) = length (rest t2)"
    using assms(1-3) by (auto simp: type_ok_def equal_common_kind)
  then have "rest t1 = rest t2" using assms(4) by (simp add: list_eq_iff_nth_eq)
  with assms(1) show ?thesis by (simp add: btf_equal_common_def)
qed

lemma equal_common_refl [simp]: "btf_equal_common t t"
  by (simp add: btf_equal_common_def)

text \<open>Entries of two and of three words cover the data of a type.\<close>

lemma entries_2:
  assumes "\<And>i. i < n \<Longrightarrow> (xs :: u32 list) ! (2 * i) = ys ! (2 * i) \<and> xs ! (2 * i + 1) = ys ! (2 * i + 1)" "j < 2 * n"
  shows "xs ! j = ys ! j"
proof -
  have "j = 2 * (j div 2) \<or> j = 2 * (j div 2) + 1" by presburger
  moreover have "j div 2 < n" using assms(2) by simp
  ultimately show ?thesis using assms(1) by metis
qed

lemma entries_3:
  assumes "\<And>i. i < n \<Longrightarrow> (xs :: u32 list) ! (3 * i) = ys ! (3 * i) \<and> xs ! (3 * i + 1) = ys ! (3 * i + 1) \<and>
      xs ! (3 * i + 2) = ys ! (3 * i + 2)" "j < 3 * n"
  shows "xs ! j = ys ! j"
proof -
  have "j = 3 * (j div 3) \<or> j = 3 * (j div 3) + 1 \<or> j = 3 * (j div 3) + 2" by presburger
  moreover have "j div 3 < n" using assms(2) by (simp add: div_less_iff_less_mult)
  ultimately show ?thesis using assms(1) by metis
qed

lemma equal_int_tag_iff:
  assumes "type_ok t1" "type_ok t2" "btf_kind t1 \<in> {BTF_KIND_INT, BTF_KIND_DECL_TAG}"
  shows "btf_equal_int_tag t1 t2 \<longleftrightarrow> t1 = t2"
proof
  assume e: "btf_equal_int_tag t1 t2"
  have "length (rest t1) = 1"
    using assms by (auto simp: type_ok_def btf_type_size_def sizeof_btf_type_def)
  with e show "t1 = t2"
    by (intro type_eqI [OF _ assms(1,2)]) (simp_all add: btf_equal_int_tag_def)
qed (simp add: btf_equal_int_tag_def)

lemma equal_array_iff:
  assumes "type_ok t1" "type_ok t2" "btf_kind t1 = BTF_KIND_ARRAY"
  shows "btf_equal_array t1 t2 \<longleftrightarrow> t1 = t2"
proof
  assume e: "btf_equal_array t1 t2"
  have "length (rest t1) = 3"
    using assms by (auto simp: type_ok_def btf_type_size_def sizeof_btf_type_def)
  with e show "t1 = t2"
    by (intro type_eqI [OF _ assms(1,2)])
      (auto simp: btf_equal_array_def btf_array_def numeral_3_eq_3 numeral_2_eq_2 less_Suc_eq)
qed (simp add: btf_equal_array_def)

lemma equal_enum_iff:
  assumes "type_ok t1" "type_ok t2" "btf_kind t1 \<in> {BTF_KIND_ENUM, BTF_KIND_ENUM64}"
  shows "btf_equal_enum t1 t2 \<longleftrightarrow> t1 = t2"
proof
  assume e: "btf_equal_enum t1 t2"
  have c: "btf_equal_common t1 t2" using e by (simp add: btf_equal_enum_def)
  show "t1 = t2"
  proof (cases "btf_kind t1 = BTF_KIND_ENUM")
    case True
    then have l: "length (rest t1) = 2 * btf_vlen t1"
      using assms(1) by (auto simp: type_ok_def btf_type_size_def Let_def sizeof_btf_type_def)
    have "rest t1 ! i = rest t2 ! i" if "i < length (rest t1)" for i
      by (rule entries_2 [where n = "btf_vlen t1"])
        (use e True that l in \<open>auto simp: btf_equal_enum_def btf_equal_enum_members_def btf_enum_def Let_def\<close>)
    then show ?thesis by (rule type_eqI [OF c assms(1,2)])
  next
    case False
    then have l: "length (rest t1) = 3 * btf_vlen t1"
      using assms(1,3) by (auto simp: type_ok_def btf_type_size_def Let_def sizeof_btf_type_def)
    have "rest t1 ! i = rest t2 ! i" if "i < length (rest t1)" for i
      by (rule entries_3 [where n = "btf_vlen t1"])
        (use e False that l in \<open>auto simp: btf_equal_enum_def btf_equal_enum64_members_def btf_enum64_def Let_def\<close>)
    then show ?thesis by (rule type_eqI [OF c assms(1,2)])
  qed
qed (simp add: btf_equal_enum_def btf_equal_enum_members_def btf_equal_enum64_members_def)

lemma equal_fnproto_iff:
  assumes "type_ok t1" "type_ok t2" "btf_kind t1 = BTF_KIND_FUNC_PROTO"
  shows "btf_equal_fnproto t1 t2 \<longleftrightarrow> t1 = t2"
proof
  assume e: "btf_equal_fnproto t1 t2"
  have c: "btf_equal_common t1 t2" using e by (simp add: btf_equal_fnproto_def)
  have l: "length (rest t1) = 2 * btf_vlen t1"
    using assms(1,3) by (auto simp: type_ok_def btf_type_size_def Let_def sizeof_btf_type_def)
  have "rest t1 ! i = rest t2 ! i" if "i < length (rest t1)" for i
    by (rule entries_2 [where n = "btf_vlen t1"])
      (use e that l in \<open>auto simp: btf_equal_fnproto_def btf_params_def Let_def\<close>)
  then show "t1 = t2" by (rule type_eqI [OF c assms(1,2)])
qed (simp add: btf_equal_fnproto_def)

text \<open>A struct comparison is equality but for the identifiers of the member types.\<close>

definition erase_member_types :: "btf_type \<Rightarrow> btf_type" where
  "erase_member_types t =
     t\<lparr>rest := map (\<lambda>j. if j mod 3 = 1 then 0 else rest t ! j) [0..<length (rest t)]\<rparr>"

lemma shallow_equal_struct_iff:
  assumes "type_ok t1" "type_ok t2" "btf_kind t1 \<in> {BTF_KIND_STRUCT, BTF_KIND_UNION}"
  shows "btf_shallow_equal_struct t1 t2 \<longleftrightarrow> erase_member_types t1 = erase_member_types t2"
proof
  have l: "length (rest t1) = 3 * btf_vlen t1"
    using assms(1,3) by (auto simp: type_ok_def btf_type_size_def Let_def sizeof_btf_type_def)
  {
    assume e: "btf_shallow_equal_struct t1 t2"
    have c: "btf_equal_common t1 t2" using e by (simp add: btf_shallow_equal_struct_def)
    have l2: "length (rest t2) = length (rest t1)"
      using c assms(1,2) by (auto simp: type_ok_def equal_common_kind)
    have "(if j mod 3 = 1 then 0 else rest t1 ! j) = (if j mod 3 = 1 then 0 else rest t2 ! j)"
      if j: "j < length (rest t1)" for j
    proof -
      define k where "k = j div 3"
      have "k < btf_vlen t1" using j l by (simp add: k_def div_less_iff_less_mult)
      then have "rest t1 ! (3 * k) = rest t2 ! (3 * k) \<and> rest t1 ! (3 * k + 2) = rest t2 ! (3 * k + 2)"
        using e by (simp add: btf_shallow_equal_struct_def btf_members_def Let_def)
      moreover have "j = 3 * k \<or> j mod 3 = 1 \<or> j = 3 * k + 2" unfolding k_def by presburger
      ultimately show ?thesis by metis
    qed
    then show "erase_member_types t1 = erase_member_types t2"
      using c l2 by (auto simp: erase_member_types_def btf_equal_common_def)
  }
  {
    assume e: "erase_member_types t1 = erase_member_types t2"
    have c: "btf_equal_common t1 t2"
      using arg_cong [OF e, of name_off] arg_cong [OF e, of info] arg_cong [OF e, of size_type]
      by (simp add: erase_member_types_def btf_equal_common_def)
    have l2: "length (rest t2) = length (rest t1)"
      using c assms(1,2) by (auto simp: type_ok_def equal_common_kind)
    have r: "rest t1 ! j = rest t2 ! j" if "j < length (rest t1)" "j mod 3 \<noteq> 1" for j
      using arg_cong [OF e, of "\<lambda>t. rest t ! j"] that l2 by (simp add: erase_member_types_def)
    have "rest t1 ! (3 * i) = rest t2 ! (3 * i) \<and> rest t1 ! (3 * i + 2) = rest t2 ! (3 * i + 2)"
      if i: "i < btf_vlen t1" for i
    proof
      show "rest t1 ! (3 * i) = rest t2 ! (3 * i)" using i l by (intro r) simp_all
      have "(3 * i + 2) mod 3 \<noteq> 1" by presburger
      then show "rest t1 ! (3 * i + 2) = rest t2 ! (3 * i + 2)" using i l by (intro r) simp_all
    qed
    with c show "btf_shallow_equal_struct t1 t2"
      by (simp add: btf_shallow_equal_struct_def btf_members_def Let_def)
  }
qed

end
