(* ===== verification/Btf_Props.thy ===== *)
theory Btf_Props
  imports Btf_Resolve Btf_Room Btf_Equal
begin

text \<open>
  Properties of BTF objects, with the small object their witnesses use: the integer type \<open>int\<close> and a
  typedef that refers to itself.
\<close>

section \<open>An example\<close>

definition ex_raw :: "u8 list" where
  "ex_raw =
     [0x9F, 0xEB, 1, 0, 24, 0, 0, 0, 0, 0, 0, 0, 28, 0, 0, 0, 28, 0, 0, 0, 5, 0, 0, 0,
      1, 0, 0, 0, 0, 0, 0, 1, 4, 0, 0, 0, 32, 0, 0, 1,
      1, 0, 0, 0, 0, 0, 0, 8, 2, 0, 0, 0,
      0, 105, 110, 116, 0]"

definition ex_hdr :: btf_header where
  "ex_hdr =
     \<lparr>magic = BTF_MAGIC, version = 1, flags = 0, hdr_len = 24, type_off = 0, type_len = 28, str_off = 28,
      str_len = 5\<rparr>"

lemma ex_header: "btf_header_at ex_raw = ex_hdr"
  by (simp add: ex_raw_def ex_hdr_def btf_header_at_def get16_def get32_def le16_def le32_def BTF_MAGIC_def)

lemma ex_parse_hdr: "btf_parse_hdr ex_raw = Inr (False, ex_hdr)"
proof -
  have m: "BTF_MAGIC \<noteq> bswap16 BTF_MAGIC" unfolding BTF_MAGIC_def by code_simp
  show ?thesis
    unfolding btf_parse_hdr_def ex_header Let_def
    using m by (simp add: ex_hdr_def) (simp add: ex_raw_def sizeof_btf_header_def)
qed

definition ex_types :: "u8 list" where
  "ex_types =
     [1, 0, 0, 0, 0, 0, 0, 1, 4, 0, 0, 0, 32, 0, 0, 1, 1, 0, 0, 0, 0, 0, 0, 8, 2, 0, 0, 0]"

definition ex_int :: btf_type where
  "ex_int = \<lparr>name_off = 1, info = 0x1000000, size_type = 4, rest = [0x1000020]\<rparr>"
definition ex_typedef :: btf_type where
  "ex_typedef = \<lparr>name_off = 1, info = 0x8000000, size_type = 2, rest = []\<rparr>"

lemma ex_kinds:
  "btf_kind (ex_int\<lparr>rest := r\<rparr>) = BTF_KIND_INT" "btf_kind ex_int = BTF_KIND_INT"
  "btf_kind ex_typedef = BTF_KIND_TYPEDEF" "btf_type_size (ex_int\<lparr>rest := r\<rparr>) = Some 16"
  "btf_type_size ex_int = Some 16" "btf_type_size ex_typedef = Some 12"
  by (simp_all add: ex_int_def ex_typedef_def btf_kind_def BTF_INFO_KIND_def kind_of_def all_kinds_def
      btf_type_size_def sizeof_btf_type_def drop_bit_eq_div and_masks take_bit_eq_mod)

lemma ex_hdrs:
  "type_hdr_at ex_types 0 = ex_int\<lparr>rest := []\<rparr>" "type_hdr_at ex_types 16 = ex_typedef"
  "type_at ex_types 0 = ex_int" "type_at ex_types 16 = ex_typedef"
proof -
  show h: "type_hdr_at ex_types 0 = ex_int\<lparr>rest := []\<rparr>" "type_hdr_at ex_types 16 = ex_typedef"
    by (simp_all add: type_hdr_at_def ex_types_def ex_int_def ex_typedef_def get32_def le32_def)
  show "type_at ex_types 0 = ex_int" "type_at ex_types 16 = ex_typedef"
    by (simp_all add: type_at_def h ex_kinds Let_def)
      (simp_all add: words_at_def get32_def le32_def ex_types_def ex_int_def ex_typedef_def)
qed

lemma ex_types_from: "types_from ex_types 28 [0, 16] 0"
  by (simp add: types_from.simps(2) ex_hdrs ex_kinds)

lemma ex_new: "\<exists>btf. btf_new True True (\<lambda>_. True) ex_raw [] = Inr [btf] \<and> btf_chain [btf] \<and> hdr btf = ex_hdr \<and>
    types_data btf = ex_types \<and> nr_types btf = 2 \<and> take 2 (type_offs btf) = [0, 16] \<and> start_id btf = 1 \<and>
    btf_strs btf = [0, 105, 110, 116, 0] \<and> raw_data_swapped btf = None \<and> hdr_tail btf = []"
proof -
  obtain mem where m: "btf_parse_type_sec (\<lambda>_. True) False 28 ex_types [] 0 0 = Inr (ex_types, mem, 2)"
    "take 2 mem = [0, 16]"
    using parse_type_sec_complete [OF ex_types_from, of "\<lambda>_. True" 0 "[]"]
    by (auto simp: BTF_MAX_NR_TYPES_def numeral_2_eq_2)
  have t: "take 28 (drop 24 ex_raw) = ex_types" "take 5 (drop 52 ex_raw) = [0, 105, 110, 116, 0]"
    by (simp_all add: ex_raw_def ex_types_def)
  have "length ex_raw = 57" by (simp add: ex_raw_def)
  have s: "btf_parse_str_sec False [0, 105, 110, 116, 0] = 0"
    by (simp add: btf_parse_str_sec_def BTF_MAX_STR_OFFSET_def)
  have "\<exists>btf. btf_new True True (\<lambda>_. True) ex_raw [] = Inr [btf] \<and> hdr btf = ex_hdr \<and>
    types_data btf = ex_types \<and> nr_types btf = 2 \<and> take 2 (type_offs btf) = [0, 16] \<and> start_id btf = 1 \<and>
    btf_strs btf = [0, 105, 110, 116, 0] \<and> raw_data_swapped btf = None \<and> hdr_tail btf = []"
    unfolding btf_new_def ex_parse_hdr Let_def sum.case prod.case
    using m t s by (simp add: ex_hdr_def btf_calloc_def btf_strs_def sizeof_btf_header_def)
  then show ?thesis
    using btf_new_chain [of True True "\<lambda>_. True" ex_raw "[]"] \<open>length ex_raw = 57\<close> by force
qed

lemma ex_lookup:
  assumes "types_data btf = ex_types" "nr_types btf = 2" "take 2 (type_offs btf) = [0, 16]" "start_id btf = 1"
  shows "btf__type_by_id [btf] 1 = Some ex_int" "btf__type_by_id [btf] 2 = Some ex_typedef"
proof -
  have "type_offs btf ! 0 = take 2 (type_offs btf) ! 0" by simp
  also have "\<dots> = 0" by (simp only: assms(3)) simp
  finally show "btf__type_by_id [btf] 1 = Some ex_int"
    by (simp add: btf__type_by_id_def btf__type_cnt_def assms(1,2,4) ex_hdrs)
  have "type_offs btf ! 1 = take 2 (type_offs btf) ! 1" by simp
  also have "\<dots> = 16" by (simp only: assms(3)) simp
  finally have "type_offs btf ! 1 = 16" .
  then show "btf__type_by_id [btf] 2 = Some ex_typedef"
    by (simp add: btf__type_by_id_def btf__type_cnt_def assms(1,2,4) ex_hdrs)
qed

section \<open>Parsing and lookups\<close>

text \<open>C9: a parsed object extends the chain of its bases; every identifier below the count names a type
  of a known kind whose data has the length the kind and count demand, so that no accessor reads past it.\<close>

theorem btf_lookup_typed:
  assumes "btf_new alloc_ok raw_ok index_ok data base = Inr b" "btf_chain base" "length data < 2 ^ 32"
  shows "btf_chain b \<and> (\<forall>i. 0 < i \<and> i < btf__type_cnt b \<longrightarrow>
    (\<exists>t. btf__type_by_id b i = Some t \<and> type_ok t))"
proof -
  have "btf_chain b" using btf_new_chain [OF assms] by auto
  then show ?thesis using type_by_id_ok by (auto simp: btf__type_by_id_def)
qed

theorem btf_lookup_typed_witness:
  "\<exists>b. btf_new True True (\<lambda>_. True) ex_raw [] = Inr b \<and> btf_chain b \<and> btf__type_by_id b 2 = Some ex_typedef \<and> type_ok ex_typedef"
proof -
  obtain btf where n: "btf_new True True (\<lambda>_. True) ex_raw [] = Inr [btf]"
    and f: "types_data btf = ex_types" "nr_types btf = 2" "take 2 (type_offs btf) = [0, 16]" "start_id btf = 1"
    using ex_new by blast
  note t = ex_lookup(2) [OF f]
  have "length ex_raw < 2 ^ 32" by (simp add: ex_raw_def)
  then have l: "btf_chain [btf] \<and> (\<forall>i. 0 < i \<and> i < btf__type_cnt [btf] \<longrightarrow>
      (\<exists>t. btf__type_by_id [btf] i = Some t \<and> type_ok t))"
    by (intro btf_lookup_typed [OF n]) simp_all
  have "2 < btf__type_cnt [btf]" by (simp add: btf__type_cnt_def f)
  with l t have "type_ok ex_typedef" by (metis option.inject zero_less_numeral)
  with n t l show ?thesis by blast
qed

text \<open>C8: of a canonical object with a valid string section and no raw data kept from before, parsing what
  \<open>btf_get_raw_data\<close> writes, in either byte order, gives the object back: its header, types, index and
  strings. Canonical means a header of the standard 24 bytes, followed by the types and directly after
  them the strings, without gaps: \<open>btf_get_raw_data\<close> writes the sections without gaps but keeps the offsets
  of the header.\<close>

theorem btf_raw_data_roundtrip:
  assumes "btf_canonical btf"
    and "btf_parse_str_sec (base \<noteq> []) (take (unat (str_len (hdr btf))) (btf_strs btf)) = 0"
    and "(if swap then raw_data_swapped btf else raw_data btf) = None"
    and "btf_get_raw_data True btf swap = Some data"
  shows "\<exists>btf'. btf_new True True (\<lambda>_. True) data base = Inr (btf' # base) \<and> swapped_endian btf' = swap \<and>
     hdr btf' = hdr btf \<and> types_data btf' = take (unat (type_len (hdr btf))) (types_data btf) \<and>
     nr_types btf' = nr_types btf \<and> take (nr_types btf) (type_offs btf') = take (nr_types btf) (type_offs btf) \<and>
     btf_strs btf' = take (unat (str_len (hdr btf))) (btf_strs btf)"
  by (rule raw_data_roundtrip [OF assms])

theorem btf_raw_data_roundtrip_witness:
  "\<exists>btf data btf'. btf_new True True (\<lambda>_. True) ex_raw [] = Inr [btf] \<and> btf_get_raw_data True btf True = Some data \<and>
     btf_new True True (\<lambda>_. True) data [] = Inr [btf'] \<and> swapped_endian btf' \<and> types_data btf' = ex_types"
proof -
  obtain btf where n: "btf_new True True (\<lambda>_. True) ex_raw [] = Inr [btf]" and c: "btf_chain [btf]"
    and f: "hdr btf = ex_hdr" "types_data btf = ex_types" "nr_types btf = 2" "take 2 (type_offs btf) = [0, 16]"
      "start_id btf = 1" "btf_strs btf = [0, 105, 110, 116, 0]" "raw_data_swapped btf = None" "hdr_tail btf = []"
    using ex_new by blast
  have "btf_ok btf" using c by simp
  then have can: "btf_canonical btf"
    unfolding btf_canonical_def f by (simp add: ex_hdr_def BTF_MAX_NR_TYPES_def)
  have "length ex_types = 28" by (simp add: ex_types_def)
  then have "bswap_types [0, 16] ex_types = Some (swap_words ex_types)"
    using bswap_types_words [OF ex_types_from] by simp
  then obtain data where d: "btf_get_raw_data True btf True = Some data"
    using \<open>length ex_types = 28\<close> by (simp add: btf_get_raw_data_def Let_def f ex_hdr_def)
  have "btf_parse_str_sec ([] \<noteq> ([] :: btf list)) (take (unat (str_len (hdr btf))) (btf_strs btf)) = 0"
    by (simp add: f ex_hdr_def btf_parse_str_sec_def BTF_MAX_STR_OFFSET_def)
  from btf_raw_data_roundtrip [OF can this _ d] obtain btf' where
    "btf_new True True (\<lambda>_. True) data [] = Inr [btf']" "swapped_endian btf'"
    "types_data btf' = take (unat (type_len (hdr btf))) (types_data btf)"
    using f by auto
  moreover have "take (unat (type_len (hdr btf))) (types_data btf) = ex_types"
    using \<open>length ex_types = 28\<close> by (simp add: f ex_hdr_def)
  ultimately show ?thesis using n d by metis
qed

section \<open>Resolution\<close>

text \<open>The example for sizes: an int, an array of 10 of them, an array of 0x40000000 of these arrays and a typedef
  of the first array.\<close>

definition size_types :: "u8 list" where
  "size_types =
     [1, 0, 0, 0, 0, 0, 0, 1, 4, 0, 0, 0, 32, 0, 0, 1,
      0, 0, 0, 0, 0, 0, 0, 3, 0, 0, 0, 0, 1, 0, 0, 0, 1, 0, 0, 0, 10, 0, 0, 0,
      0, 0, 0, 0, 0, 0, 0, 3, 0, 0, 0, 0, 2, 0, 0, 0, 1, 0, 0, 0, 0, 0, 0, 0x40,
      1, 0, 0, 0, 0, 0, 0, 8, 2, 0, 0, 0]"

definition size_btf :: btf where
  "size_btf = btf_calloc\<lparr>types_data := size_types, type_offs := [0, 16, 40, 64], nr_types := 4, start_id := 1\<rparr>"

definition size_array :: "u32 \<Rightarrow> u32 \<Rightarrow> btf_type" where
  "size_array i n = \<lparr>name_off = 0, info = 0x3000000, size_type = 0, rest = [i, 1, n]\<rparr>"

lemma size_kinds:
  "btf_kind (size_array i n) = BTF_KIND_ARRAY" "btf_kind (size_array i n\<lparr>rest := r\<rparr>) = BTF_KIND_ARRAY"
  "btf_type_size (size_array i n) = Some 24" "btf_array (size_array i n) = \<lparr>a_type = i, a_index_type = 1, a_nelems = n\<rparr>"
proof -
  show k: "btf_kind (size_array i n) = BTF_KIND_ARRAY" "btf_kind (size_array i n\<lparr>rest := r\<rparr>) = BTF_KIND_ARRAY" for i n r
    by (simp_all add: size_array_def btf_kind_def BTF_INFO_KIND_def kind_of_def all_kinds_def drop_bit_eq_div and_masks
        take_bit_eq_mod)
  show "btf_type_size (size_array i n) = Some 24" by (simp add: btf_type_size_def k sizeof_btf_type_def Let_def)
  show "btf_array (size_array i n) = \<lparr>a_type = i, a_index_type = 1, a_nelems = n\<rparr>"
    by (simp add: btf_array_def size_array_def)
qed

lemma size_lookup:
  "btf__type_by_id [size_btf] (Suc 0) = Some ex_int" "btf__type_by_id [size_btf] 2 = Some (size_array 1 10)"
  "btf__type_by_id [size_btf] 3 = Some (size_array 2 0x40000000)" "btf__type_by_id [size_btf] 4 = Some ex_typedef"
proof -
  have h: "type_hdr_at size_types 0 = ex_int\<lparr>rest := []\<rparr>" "type_hdr_at size_types 16 = size_array 1 10\<lparr>rest := []\<rparr>"
    "type_hdr_at size_types 40 = size_array 2 0x40000000\<lparr>rest := []\<rparr>" "type_hdr_at size_types 64 = ex_typedef"
    by (simp_all add: type_hdr_at_def size_types_def ex_int_def ex_typedef_def size_array_def get32_def le32_def)
  have "type_at size_types 0 = ex_int" "type_at size_types 16 = size_array 1 10"
    "type_at size_types 40 = size_array 2 0x40000000" "type_at size_types 64 = ex_typedef"
    by (simp_all add: type_at_def h ex_kinds size_kinds Let_def)
      (simp_all add: words_at_def get32_def le32_def size_types_def ex_int_def ex_typedef_def size_array_def numeral_3_eq_3)
  then show "btf__type_by_id [size_btf] (Suc 0) = Some ex_int" "btf__type_by_id [size_btf] 2 = Some (size_array 1 10)"
    "btf__type_by_id [size_btf] 3 = Some (size_array 2 0x40000000)" "btf__type_by_id [size_btf] 4 = Some ex_typedef"
    by (simp_all add: btf__type_by_id_def btf__type_cnt_def size_btf_def)
qed

lemma size_resolves:
  "resolves [size_btf] 2 4 [10] 4" "resolves [size_btf] 2 3 [0x40000000, 10] 4"
proof -
  have i: "resolves [size_btf] 0 1 [] 4"
    using resolves.sized [OF size_lookup(1)] by (simp add: ex_kinds kind_has_size_def) (simp add: ex_int_def)
  have a: "resolves [size_btf] 1 2 [10] 4"
    using resolves.array_of [OF size_lookup(2), of 0 "[]" 4] i by (simp add: size_kinds)
  show "resolves [size_btf] 2 3 [0x40000000, 10] 4"
    using resolves.array_of [OF size_lookup(3), of "Suc 0" "[10]" 4] a by (simp add: size_kinds flip: numeral_2_eq_2)
  show "resolves [size_btf] 2 4 [10] 4"
    using resolves.same_as [OF size_lookup(4), of "Suc 0" "[10]" 4] a
    by (simp add: ex_kinds kind_has_type_def flip: numeral_2_eq_2) (simp add: ex_typedef_def)
qed

text \<open>C32: \<open>btf__resolve_size\<close> returns a size exactly when fewer than 32 qualifiers, typedefs, variables, tags and
  arrays lead from the type to one with a size of its own, the result is the size of that type times all
  the dimensions, and neither a product of the outer dimensions nor the result leaves 32 bits. When such a
  chain exists and one of these leaves 32 bits, it fails with \<open>E2BIG\<close>.\<close>

theorem resolve_size_iff:
  "(btf__resolve_size b i = int m \<longleftrightarrow>
      (\<exists>n<MAX_RESOLVE_DEPTH. \<exists>ds s. resolves b n i ds s \<and> size_fits ds s \<and> m = prod_list ds * s)) \<and>
   (k < MAX_RESOLVE_DEPTH \<longrightarrow> resolves b k i es l \<longrightarrow> \<not> size_fits es l \<longrightarrow> btf__resolve_size b i = - E2BIG)"
proof (intro conjI impI iffI)
  assume e: "btf__resolve_size b i = int m"
  then obtain n ds s where c: "n < MAX_RESOLVE_DEPTH" "resolves b n i ds s" using resolve_size_chain [of b i] by auto
  with resolve_size_exact [OF c(2,1)] e
  show "\<exists>n<MAX_RESOLVE_DEPTH. \<exists>ds s. resolves b n i ds s \<and> size_fits ds s \<and> m = prod_list ds * s"
    by (intro exI [of _ n] conjI exI [of _ ds] exI [of _ s] c)
      (simp_all add: errno_defs split: if_splits flip: of_nat_mult)
qed (auto simp: resolve_size_exact)

theorem resolve_size_iff_witness:
  "btf__resolve_size [size_btf] 4 = 40 \<and> btf__resolve_size [size_btf] 3 = - E2BIG"
proof -
  have fits: "size_fits [10] 4" "\<not> size_fits [0x40000000, 10] 4"
    by (simp_all add: size_fits_def all_le_Suc)
  have d: "2 < MAX_RESOLVE_DEPTH" by (simp add: MAX_RESOLVE_DEPTH_def)
  have "btf__resolve_size [size_btf] 4 = int 40"
    unfolding resolve_size_iff [THEN conjunct1]
    by (intro exI [of _ 2] exI [of _ "[10]"] exI [of _ 4] conjI d size_resolves(1) fits(1)) simp
  with resolve_size_iff [THEN conjunct2, rule_format, OF d size_resolves(2) fits(2)] show ?thesis by simp
qed

text \<open>C33: \<open>btf__align_of\<close> returns a value between 0 and the size of a pointer when the types it descends
  into exist and are ranked; calls nest at most as deep as the rank of the type.\<close>

theorem align_of_terminates:
  assumes "\<forall>i\<in>S. \<exists>t. btf__type_by_id b i = Some t \<and> (\<forall>j\<in>align_refs t. j \<in> S \<and> rank j < rank i)"
    and "i \<in> S"
  shows "\<exists>a. btf__align_of (Suc (rank i)) b i = Some a \<and> 0 \<le> a \<and> a \<le> int (btf_ptr_sz b)"
proof -
  obtain a where a: "btf__align_of (Suc (rank i)) b i = Some a"
    using align_of_defined [of S b rank i "Suc (rank i)"] assms(1,2) by auto
  with align_of_bounds [OF a] show ?thesis by blast
qed

theorem align_of_terminates_witness:
  "\<exists>b. btf_new True True (\<lambda>_. True) ex_raw [] = Inr b \<and> btf__type_by_id b 1 = Some ex_int \<and>
     (\<exists>a. btf__align_of 1 b 1 = Some a \<and> 0 \<le> a \<and> a \<le> int (btf_ptr_sz b))"
proof -
  obtain btf where n: "btf_new True True (\<lambda>_. True) ex_raw [] = Inr [btf]"
    and f: "types_data btf = ex_types" "nr_types btf = 2" "take 2 (type_offs btf) = [0, 16]" "start_id btf = 1"
    using ex_new by blast
  have t: "btf__type_by_id [btf] 1 = Some ex_int" by (rule ex_lookup [OF f])
  have "align_refs ex_int = {}" by (simp add: align_refs_def ex_kinds)
  then have "\<forall>i\<in>{1}. \<exists>t. btf__type_by_id [btf] i = Some t \<and> (\<forall>j\<in>align_refs t. j \<in> {1} \<and> (0 :: nat) < 0)"
    using t by simp
  from align_of_terminates [OF this, of 1] n t show ?thesis by (metis One_nat_def insertI1)
qed

text \<open>C33: the parser accepts a typedef that refers to itself. \<open>btf__resolve_size\<close> gives up on it after 32
  steps, \<open>btf__align_of\<close> does not return at any depth of nested calls.\<close>

theorem align_of_self_reference:
  "\<exists>b. btf_new True True (\<lambda>_. True) ex_raw [] = Inr b \<and> btf__resolve_size b 2 = - EINVAL \<and>
     (\<forall>n. btf__align_of n b 2 = None)"
proof -
  obtain btf where n: "btf_new True True (\<lambda>_. True) ex_raw [] = Inr [btf]"
    and f: "types_data btf = ex_types" "nr_types btf = 2" "take 2 (type_offs btf) = [0, 16]" "start_id btf = 1"
    using ex_new by blast
  note t = ex_lookup(2) [OF f]
  then have ty: "btf_type_by_id [btf] 2 = ex_typedef"
    by (simp add: btf__type_by_id_def del: btf_type_by_id.simps split: if_splits)
  have s: "unat (size_type ex_typedef) = 2" by (simp add: ex_typedef_def)
  have nv: "\<not> btf_type_is_void_or_null [btf] 2"
    by (simp add: btf_type_is_void_or_null_def t btf_is_fwd_def ex_kinds)
  have "btf__align_of n [btf] 2 = None" for n
    by (induction n) (simp_all add: t ex_kinds s)
  moreover have "resolve_size_loop n [btf] 2 ne = Inr (- 1, ne)" for n ne
    by (induction n) (simp_all add: ty nv ex_kinds s sized_kinds_def ref_kinds_def del: btf_type_by_id.simps)
  ultimately show ?thesis using n by (auto simp: btf__resolve_size_def)
qed

section \<open>Construction\<close>

text \<open>C6: every \<open>btf__add_\<close> function on a well-formed chain. It either fails and leaves the types of the object
  and of its bases as they were, or appends the one type, or extends the last one by the one entry, it
  should, under an offset at which the new object has the name, and returns the new identifier or 0. It
  accepts only valid arguments (\<open>op_valid\<close>), and fails on valid ones only if an allocation is refused or
  there is no room (\<open>type_room\<close>: 4 GiB of types, \<open>BTF_MAX_NR_TYPES\<close> types, 2 GiB of strings). Whatever
  happens, the chain stays well-formed and every string keeps its offset. Two conditions come from the
  code: the last type has fewer than 65535 entries when one is added, as the count is not checked, and
  the headers are whole (\<open>hdr_len\<close> at least 24, which the parser does not check), as \<open>btf_ensure_modifiable\<close>
  allocates \<open>hdr_len\<close> bytes and writes 24.\<close>

theorem btf_ops_refine:
  assumes "btf_wf (btf # base)" "c_name (op_name op)" "\<forall>x\<in>set (btf # base). 24 \<le> hdr_len (hdr x)"
    and "new_type op 0 \<noteq> None \<or> nr_types btf = 0 \<or> btf_vlen (last (btf_types btf)) < 65535"
  shows "case exec_op env (btf # base) op of (b', r) \<Rightarrow>
     btf_wf b' \<and>
     (\<forall>k s. btf__str_by_offset (btf # base) k = Some s \<longrightarrow> btf__str_by_offset b' k = Some s) \<and>
     (if r < 0
      then btf_view b' = btf_view (btf # base) \<and>
        \<not> (op_valid op (btf_types btf) \<and> (\<forall>i. env_grants (env i)) \<and> type_room (btf # base) 24 (op_name op))
      else op_valid op (btf_types btf) \<and>
        r = (if new_type op 0 = None then 0 else int (btf__type_cnt (btf # base))) \<and>
        (\<exists>x. name_at b' (op_name op) x \<and>
          btf_view b' = (start_id btf, table_op op x (btf_types btf)) # btf_view base))"
proof -
  obtain b' r where x: "exec_op env (btf # base) op = (b', r)" by fastforce
  have ref: "op_refines btf base op (b', r)"
  proof (cases "new_type op 0 = None")
    case True
    show ?thesis unfolding x [symmetric] by (rule entry_refines [OF assms(1,2) True]) (use assms(4) True in simp)
  next
    case False
    show ?thesis unfolding x [symmetric] by (rule append_refines [OF assms(1,2) False])
  qed
  have "op_valid op (btf_types btf)" if "\<not> r < 0"
    using op_refused [of btf base op env] x that op_checks_valid [OF assms(1)] by (auto simp: errno_defs)
  moreover have "\<not> r < 0" if "op_valid op (btf_types btf)" "\<forall>i. env_grants (env i)" "type_room (btf # base) 24 (op_name op)"
    using op_succeeds [OF _ assms(1,2) _ that(3), of env] x that op_checks_valid [OF assms(1)] by simp
  ultimately show ?thesis
    using ref unfolding op_refines_def strs_grow_def btf_wf_def by (auto simp: x)
qed

definition grant_env :: btf_env where
  "grant_env = \<lparr>hdr_ok = True, types_ok = True, set_ok = True, map_ok = True, data_ok = True,
     index_al = (\<lambda>_. alloc_all), str_ok = True, str_al = alloc_all, mem_ok = True, offs_ok = True\<rparr>"

theorem btf_ops_refine_witness:
  "\<exists>b b' x. btf_new True True (\<lambda>_. True) ex_raw [] = Inr b \<and>
     btf__add_typedef (\<lambda>_. grant_env) b (Some [116]) 1 = (b', 3) \<and> btf_wf b' \<and> name_at b' (Some [116]) x \<and>
     btf_view b' = [(1, [ex_int, ex_typedef, mk_type BTF_KIND_TYPEDEF 0 False 1 [] x])]"
proof -
  obtain btf where n: "btf_new True True (\<lambda>_. True) ex_raw [] = Inr [btf]" and c: "btf_chain [btf]"
    and f: "types_data btf = ex_types" "nr_types btf = 2" "take 2 (type_offs btf) = [0, 16]" "start_id btf = 1"
    and h: "hdr btf = ex_hdr"
    using ex_new by blast
  have w: "btf_wf [btf]" using c btf_new_strs [OF n] by (simp add: btf_wf_def)
  have t: "btf_types btf = [ex_int, ex_typedef]" by (simp add: btf_types_def f ex_hdrs)
  have g: "env_grants grant_env" by (simp add: env_grants_def grant_env_def alloc_all_def)
  have room: "type_room [btf] 24 (Some [116])"
    by (simp add: type_room_def sec_room_def h ex_hdr_def f(2) UINT_MAX_def BTF_MAX_NR_TYPES_def BTF_MAX_STR_OFFSET_def)
  have whole: "\<forall>x\<in>set [btf]. 24 \<le> hdr_len (hdr x)" by (simp add: h ex_hdr_def)
  have valid: "op_valid (Add_typedef (Some [116]) 1) (btf_types btf)"
    by (simp add: has_name_def BTF_MAX_NR_TYPES_def)
  obtain b' r where x: "btf__add_typedef (\<lambda>_. grant_env) [btf] (Some [116]) 1 = (b', r)" by fastforce
  have "btf_wf b' \<and> r = 3 \<and> (\<exists>x. name_at b' (Some [116]) x \<and>
      btf_view b' = [(1, [ex_int, ex_typedef, mk_type BTF_KIND_TYPEDEF 0 False 1 [] x])])"
    using btf_ops_refine [OF w _ whole, of "Add_typedef (Some [116]) 1" "\<lambda>_. grant_env"] g room valid x
    by (auto simp: btf__type_cnt_def f t table_op_def btf_view_def c_name_def split: if_splits)
  with n x show ?thesis by blast
qed

section \<open>Comparison\<close>

text \<open>C34: the comparisons of deduplication decide equality of types (of all but the member types, for
  structs), and types they identify have equal hashes, so that a candidate is looked for in the right chain.\<close>

theorem btf_comparisons_exact:
  assumes "type_ok t1" "type_ok t2"
  shows "(btf_kind t1 \<in> {BTF_KIND_INT, BTF_KIND_DECL_TAG} \<longrightarrow>
       (btf_equal_int_tag t1 t2 \<longleftrightarrow> t1 = t2)) \<and>
     (btf_kind t1 \<in> {BTF_KIND_ENUM, BTF_KIND_ENUM64} \<longrightarrow> (btf_equal_enum t1 t2 \<longleftrightarrow> t1 = t2)) \<and>
     (btf_kind t1 = BTF_KIND_ARRAY \<longrightarrow> (btf_equal_array t1 t2 \<longleftrightarrow> t1 = t2)) \<and>
     (btf_kind t1 = BTF_KIND_FUNC_PROTO \<longrightarrow> (btf_equal_fnproto t1 t2 \<longleftrightarrow> t1 = t2)) \<and>
     (btf_kind t1 \<in> {BTF_KIND_STRUCT, BTF_KIND_UNION} \<longrightarrow>
       (btf_shallow_equal_struct t1 t2 \<longleftrightarrow> erase_member_types t1 = erase_member_types t2)) \<and>
     (btf_compat_enum t1 t2 \<longrightarrow> btf_hash_enum t1 = btf_hash_enum t2) \<and>
     (btf_shallow_equal_struct t1 t2 \<longrightarrow> btf_hash_struct t1 = btf_hash_struct t2)"
  using equal_int_tag_iff [OF assms] equal_enum_iff [OF assms] equal_array_iff [OF assms]
    equal_fnproto_iff [OF assms] shallow_equal_struct_iff [OF assms] hash_equal_enum hash_equal_struct
  by (intro conjI impI) assumption+

theorem btf_comparisons_exact_witness:
  "\<not> btf_equal_int_tag ex_int (ex_int\<lparr>size_type := 8\<rparr>) \<and> btf_equal_int_tag ex_int ex_int"
proof -
  have ok: "type_ok ex_int" "type_ok (ex_int\<lparr>size_type := 8\<rparr>)"
    by (simp_all add: type_ok_def ex_int_def btf_type_size_def btf_kind_def BTF_INFO_KIND_def kind_of_def all_kinds_def
        sizeof_btf_type_def drop_bit_eq_div and_masks take_bit_eq_mod)
  have "ex_int \<noteq> ex_int\<lparr>size_type := 8\<rparr>" by (simp add: ex_int_def)
  then show ?thesis
    using btf_comparisons_exact [OF ok] btf_comparisons_exact [OF ok(1,1)] ex_kinds(2) by simp
qed

section \<open>The count of entries wraps around\<close>

text \<open>
  \<open>btf_type_inc_vlen\<close> does not check the count it packs into 16 bits: the 65536th entry makes it 0, and
  the type's size that of one without entries.
\<close>

lemma inc_vlen_wraps:
  assumes "btf_vlen t = 65535" "btf_kind t \<in> {BTF_KIND_STRUCT, BTF_KIND_UNION, BTF_KIND_ENUM, BTF_KIND_ENUM64,
      BTF_KIND_FUNC_PROTO, BTF_KIND_DATASEC}"
  shows "btf_vlen (t\<lparr>info := btf_type_inc_vlen t\<rparr>) = 0"
    and "btf_type_size (t\<lparr>info := btf_type_inc_vlen t\<rparr>) = Some 12"
proof -
  show v: "btf_vlen (t\<lparr>info := btf_type_inc_vlen t\<rparr>) = 0"
    using assms(1) by (simp add: btf_type_inc_vlen_def btf_vlen_def)
  have "btf_kind (t\<lparr>info := btf_type_inc_vlen t\<rparr>) = btf_kind t"
    using assms(1) by (simp add: btf_kind_def btf_type_inc_vlen_def info_kind_wrap [simplified])
  with v assms(2) show "btf_type_size (t\<lparr>info := btf_type_inc_vlen t\<rparr>) = Some 12"
    by (auto simp: btf_type_size_def Let_def sizeof_btf_type_def)
qed

end
