(* ===== verification/Btf_Merge.thy ===== *)
theory Btf_Merge
  imports Btf_Ops Visitors
begin

text \<open>
  Copying types between BTF objects, \<open>src/libbpf/src/btf.c\<close>: the traversals of the names and of the type
  identifiers of a type, \<open>btf__add_type\<close> and \<open>btf__add_btf\<close>. The source is not the destination. The types
  being copied are the bytes \<open>d\<close> of the destination's type region, which strings do not move once the
  object is modifiable; the object in the context keeps the region as it was when they were copied.
  \<open>None\<close> is a crash.
\<close>

section \<open>Traversals\<close>

definition btf_type_visit_type_ids ::
  "u8 list \<Rightarrow> nat \<Rightarrow> 'c visit_fn \<Rightarrow> 'c \<Rightarrow> (u8 list \<times> 'c \<times> int) option" where
  "btf_type_visit_type_ids d p visit ctx =
     (let t = type_hdr_at d p; n = btf_vlen t;
          go = (\<lambda>offs. visit_words (\<lambda>err. err \<noteq> 0) visit offs d ctx) in
      case btf_kind t of
        BTF_KIND_INT \<Rightarrow> Some (d, ctx, 0)
      | BTF_KIND_FLOAT \<Rightarrow> Some (d, ctx, 0)
      | BTF_KIND_ENUM \<Rightarrow> Some (d, ctx, 0)
      | BTF_KIND_ENUM64 \<Rightarrow> Some (d, ctx, 0)
      | BTF_KIND_FWD \<Rightarrow> go [p + 8]
      | BTF_KIND_CONST \<Rightarrow> go [p + 8]
      | BTF_KIND_VOLATILE \<Rightarrow> go [p + 8]
      | BTF_KIND_RESTRICT \<Rightarrow> go [p + 8]
      | BTF_KIND_PTR \<Rightarrow> go [p + 8]
      | BTF_KIND_TYPEDEF \<Rightarrow> go [p + 8]
      | BTF_KIND_FUNC \<Rightarrow> go [p + 8]
      | BTF_KIND_VAR \<Rightarrow> go [p + 8]
      | BTF_KIND_DECL_TAG \<Rightarrow> go [p + 8]
      | BTF_KIND_TYPE_TAG \<Rightarrow> go [p + 8]
      | BTF_KIND_ARRAY \<Rightarrow> go [p + 12, p + 16]
      | BTF_KIND_STRUCT \<Rightarrow> go (map (\<lambda>i. p + 12 + 12 * i + 4) [0..<n])
      | BTF_KIND_UNION \<Rightarrow> go (map (\<lambda>i. p + 12 + 12 * i + 4) [0..<n])
      | BTF_KIND_FUNC_PROTO \<Rightarrow> go ((p + 8) # map (\<lambda>i. p + 12 + 8 * i + 4) [0..<n])
      | BTF_KIND_DATASEC \<Rightarrow> go (map (\<lambda>i. p + 12 + 12 * i) [0..<n])
      | _ \<Rightarrow> Some (d, ctx, - EINVAL))"

definition btf_type_visit_str_offs ::
  "u8 list \<Rightarrow> nat \<Rightarrow> 'c visit_fn \<Rightarrow> 'c \<Rightarrow> (u8 list \<times> 'c \<times> int) option" where
  "btf_type_visit_str_offs d p visit ctx =
     (let t = type_hdr_at d p; n = btf_vlen t;
          go = (\<lambda>offs. visit_words (\<lambda>err. err \<noteq> 0) visit (p # offs) d ctx) in
      case btf_kind t of
        BTF_KIND_STRUCT \<Rightarrow> go (map (\<lambda>i. p + 12 + 12 * i) [0..<n])
      | BTF_KIND_UNION \<Rightarrow> go (map (\<lambda>i. p + 12 + 12 * i) [0..<n])
      | BTF_KIND_ENUM \<Rightarrow> go (map (\<lambda>i. p + 12 + 8 * i) [0..<n])
      | BTF_KIND_ENUM64 \<Rightarrow> go (map (\<lambda>i. p + 12 + 12 * i) [0..<n])
      | BTF_KIND_FUNC_PROTO \<Rightarrow> go (map (\<lambda>i. p + 12 + 8 * i) [0..<n])
      | _ \<Rightarrow> go [])"

section \<open>Rewriting names and identifiers\<close>

text \<open>The destination, the map from source to destination offsets if there is one, and the number of
  calls made, which select the fates of their allocations.\<close>

type_synonym pipe = "btf list \<times> (u64, int) hashmap option \<times> nat"

definition btf_rewrite_str :: "(nat \<Rightarrow> nat \<Rightarrow> btf_env) \<Rightarrow> (nat \<Rightarrow> alloc) \<Rightarrow> btf list \<Rightarrow> pipe visit_fn" where
  "btf_rewrite_str env al src offset p =
     (case p of (dst, str_off_map, n) \<Rightarrow>
        if offset = 0 then Some (offset, p, 0)
        else case (case str_off_map of None \<Rightarrow> None | Some m \<Rightarrow> hashmap_find m (ucast offset)) of
          Some mapped \<Rightarrow> Some (word_of_int mapped, p, 0)
        | None \<Rightarrow>
            (case btf__str_by_offset src (unat offset) of
               None \<Rightarrow> None
             | Some s \<Rightarrow>
                 (case btf__add_str (env n) dst s of
                    (dst, off) \<Rightarrow>
                      if off < 0 then Some (offset, (dst, str_off_map, n + 1), off)
                      else case str_off_map of
                        None \<Rightarrow> Some (word_of_int off, (dst, None, n + 1), 0)
                      | Some m \<Rightarrow>
                          (case hashmap_insert (al n) m (ucast offset) off HASHMAP_APPEND of
                             (m, err, _) \<Rightarrow>
                               if err \<noteq> 0 then Some (offset, (dst, Some m, n + 1), err)
                               else Some (word_of_int off, (dst, Some m, n + 1), 0)))))"

definition btf_rewrite_type_ids :: "btf visit_fn" where
  "btf_rewrite_type_ids type_id btf =
     (if type_id = 0 then Some (type_id, btf, 0)
      else Some (type_id + of_nat (start_id btf + nr_types btf - 1), btf, 0))"

definition btf__add_type ::
  "(nat \<Rightarrow> nat \<Rightarrow> btf_env) \<Rightarrow> btf list \<Rightarrow> btf list \<Rightarrow> btf_type \<Rightarrow> (btf list \<times> int) option" where
  "btf__add_type env b src src_type =
     (case btf_type_size src_type of
        None \<Rightarrow> Some (b, - EINVAL)
      | Some n \<Rightarrow>
          (case b of
             [] \<Rightarrow> Some ([], - EINVAL)
           | btf # base \<Rightarrow>
               (case btf_ensure_modifiable (env 0 0) (base \<noteq> []) btf of
                  (btf, err) \<Rightarrow>
                    if err \<noteq> 0 then Some (btf # base, - ENOMEM)
                    else case btf_add_type_mem (env 0 0) btf n of
                      None \<Rightarrow> Some (btf # base, - ENOMEM)
                    | Some btf \<Rightarrow>
                        let p = unat (type_len (hdr btf)); d = put (types_data btf) p (type_bytes src_type) in
                        case btf_type_visit_str_offs d p (btf_rewrite_str env (\<lambda>_. alloc_all) src)
                            (btf\<lparr>types_data := d\<rparr> # base, None, 1) of
                          None \<Rightarrow> None
                        | Some (d, (b, _, _), err) \<Rightarrow>
                            (case b of
                               [] \<Rightarrow> Some ([], - EINVAL)
                             | btf # base \<Rightarrow>
                                 let btf = btf\<lparr>types_data := d\<rparr> in
                                 if err \<noteq> 0 then Some (btf # base, err)
                                 else case btf_commit_type (env 0 0) btf n of
                                   (btf, r) \<Rightarrow> Some (btf # base, r)))))"

text \<open>The loop of \<open>btf__add_btf\<close> over \<open>cnt\<close> copied types from offset \<open>t\<close>; the \<open>i\<close>th index entry is next.\<close>

fun add_btf_loop ::
  "(nat \<Rightarrow> nat \<Rightarrow> btf_env) \<Rightarrow> (nat \<Rightarrow> alloc) \<Rightarrow> btf list \<Rightarrow> btf \<Rightarrow> nat \<Rightarrow> nat \<Rightarrow> nat \<Rightarrow> u8 list \<Rightarrow> nat list \<Rightarrow> pipe \<Rightarrow>
     (u8 list \<times> nat list \<times> pipe \<times> int) option" where
  "add_btf_loop env al src btf 0 i t d offs p = Some (d, offs, p, 0)"
| "add_btf_loop env al src btf (Suc cnt) i t d offs p =
     (case btf_type_size (type_hdr_at d t) of
        None \<Rightarrow> Some (d, offs, p, - EINVAL)
      | Some n \<Rightarrow>
          let offs = offs[i := t] in
          case btf_type_visit_str_offs d t (btf_rewrite_str env al src) p of
            None \<Rightarrow> None
          | Some (d, p, err) \<Rightarrow>
              if err \<noteq> 0 then Some (d, offs, p, err)
              else case btf_type_visit_type_ids d t btf_rewrite_type_ids btf of
                None \<Rightarrow> None
              | Some (d, _, err) \<Rightarrow>
                  if err \<noteq> 0 then Some (d, offs, p, err)
                  else add_btf_loop env al src btf cnt (i + 1) (t + n) d offs p)"

text \<open>
  \<open>btf__add_btf\<close> from the bulk copy of the types to its end. After an error the code clears the strings
  added since the start through \<open>strs_data\<close>, a null pointer in a modifiable object: if there are any, it
  crashes.
\<close>

definition add_btf_copy ::
  "(nat \<Rightarrow> nat \<Rightarrow> btf_env) \<Rightarrow> (nat \<Rightarrow> alloc) \<Rightarrow> btf \<Rightarrow> btf \<Rightarrow> btf list \<Rightarrow> nat \<Rightarrow> u32 \<Rightarrow> (btf list \<times> int) option" where
  "add_btf_copy env al src_btf btf base cnt old_strs_len =
     (let p = unat (type_len (hdr btf)); data_sz = unat (type_len (hdr src_btf));
          d = put (types_data btf) p (take data_sz (types_data src_btf)) in
      case add_btf_loop env al [src_btf] btf cnt (nr_types btf) p d (type_offs btf)
          (btf\<lparr>types_data := d\<rparr> # base, Some (hashmap_init identity_hash_fn (=)), 1) of
        None \<Rightarrow> None
      | Some (d, offs, (b, _, _), err) \<Rightarrow>
          (case b of
             [] \<Rightarrow> Some ([], - EINVAL)
           | btf # base \<Rightarrow>
               if err = 0 then
                 let btf = btf\<lparr>types_data := d, type_offs := offs,
                       hdr := (hdr btf)\<lparr>type_len := type_len (hdr btf) + of_nat data_sz,
                         str_off := str_off (hdr btf) + of_nat data_sz\<rparr>,
                       nr_types := nr_types btf + cnt\<rparr>
                 in Some (btf # base, int (start_id btf + nr_types btf - cnt))
               else if str_len (hdr btf) \<noteq> old_strs_len then None
               else Some (btf\<lparr>types_data := put d p (replicate data_sz 0), type_offs := offs\<rparr> # base, err)))"

definition btf__add_btf ::
  "(nat \<Rightarrow> nat \<Rightarrow> btf_env) \<Rightarrow> (nat \<Rightarrow> alloc) \<Rightarrow> bool \<Rightarrow> btf list \<Rightarrow> btf list \<Rightarrow> (btf list \<times> int) option" where
  "btf__add_btf env al map_ok' b src =
     (case (b, src) of
        (btf # base, [src_btf]) \<Rightarrow>
          (case btf_ensure_modifiable (env 0 0) (base \<noteq> []) btf of
             (btf, err) \<Rightarrow>
               if err \<noteq> 0 then Some (btf # base, - ENOMEM)
               else
                 let old_strs_len = str_len (hdr btf); cnt = btf__type_cnt src - 1 in
                 case btf_add_type_mem (env 0 0) btf (unat (type_len (hdr src_btf))) of
                   None \<Rightarrow> Some (btf # base, - ENOMEM)
                 | Some btf \<Rightarrow>
                     (case btf_add_type_offs_mem (offs_ok (env 0 0)) (type_offs btf) (nr_types btf) cnt of
                        None \<Rightarrow> Some (btf # base, - ENOMEM)
                      | Some offs \<Rightarrow>
                          let btf = btf\<lparr>type_offs := offs\<rparr> in
                          if \<not> map_ok' then Some (btf # base, - ENOMEM)
                          else add_btf_copy env al src_btf btf base cnt old_strs_len))
      | (btf # base, _ # _) \<Rightarrow> Some (b, - ENOTSUP)
      | _ \<Rightarrow> Some (b, - EINVAL))"

section \<open>Copies of a type\<close>

definition type_words :: "btf_type \<Rightarrow> u32 list" where
  "type_words t = name_off t # info t # size_type t # rest t"

text \<open>Which words of a type are names, which are type identifiers.\<close>

definition str_pos :: "btf_type \<Rightarrow> nat list" where
  "str_pos t =
     0 # (if btf_kind t \<in> {BTF_KIND_STRUCT, BTF_KIND_UNION, BTF_KIND_ENUM64}
          then map (\<lambda>i. 3 + 3 * i) [0..<btf_vlen t]
          else if btf_kind t \<in> {BTF_KIND_ENUM, BTF_KIND_FUNC_PROTO}
          then map (\<lambda>i. 3 + 2 * i) [0..<btf_vlen t]
          else [])"

definition id_pos :: "btf_type \<Rightarrow> nat list" where
  "id_pos t =
     (if btf_kind t \<in> {BTF_KIND_INT, BTF_KIND_FLOAT, BTF_KIND_ENUM, BTF_KIND_ENUM64} then []
      else if btf_kind t = BTF_KIND_ARRAY then [3, 4]
      else if btf_kind t \<in> {BTF_KIND_STRUCT, BTF_KIND_UNION} then map (\<lambda>i. 4 + 3 * i) [0..<btf_vlen t]
      else if btf_kind t = BTF_KIND_FUNC_PROTO then 2 # map (\<lambda>i. 4 + 2 * i) [0..<btf_vlen t]
      else if btf_kind t = BTF_KIND_DATASEC then map (\<lambda>i. 3 + 3 * i) [0..<btf_vlen t]
      else [2])"

definition offs_of :: "nat \<Rightarrow> nat list \<Rightarrow> nat list" where
  "offs_of p js = map (\<lambda>j. p + 4 * j) js"

text \<open>The traversals visit these words, in order.\<close>

lemma visit_str_offs_pos:
  "btf_type_visit_str_offs d p visit ctx =
     visit_words (\<lambda>err. err \<noteq> 0) visit (offs_of p (str_pos (type_hdr_at d p))) d ctx"
  by (cases "btf_kind (type_hdr_at d p)")
    (simp_all add: btf_type_visit_str_offs_def Let_def str_pos_def offs_of_def comp_def algebra_simps
      del: visit_words.simps)

lemma visit_type_ids_pos:
  assumes "btf_type_size (type_hdr_at d p) = Some n"
  shows "btf_type_visit_type_ids d p visit ctx =
     visit_words (\<lambda>err. err \<noteq> 0) visit (offs_of p (id_pos (type_hdr_at d p))) d ctx"
  using assms
  by (cases "btf_kind (type_hdr_at d p)")
    (simp_all add: btf_type_visit_type_ids_def Let_def id_pos_def offs_of_def comp_def algebra_simps
      btf_type_size_def del: visit_words.simps(2))

lemma pos_bounds:
  assumes "btf_type_size t = Some n"
  shows "\<forall>j\<in>set (str_pos t) \<union> set (id_pos t). 4 * j + 4 \<le> n \<and> j \<noteq> 1"
    and "sorted_wrt (<) (str_pos t)" "sorted_wrt (<) (id_pos t)" "set (str_pos t) \<inter> set (id_pos t) = {}"
proof -
  have step: "sorted_wrt (<) (map (\<lambda>i. a + 2 * i) [0..<k])" "sorted_wrt (<) (map (\<lambda>i. a + 3 * i) [0..<k])" for a k :: nat
    by (simp_all add: sorted_wrt_iff_nth_less)
  show "sorted_wrt (<) (str_pos t)" "sorted_wrt (<) (id_pos t)"
    using step by (auto simp: str_pos_def id_pos_def)
  show "\<forall>j\<in>set (str_pos t) \<union> set (id_pos t). 4 * j + 4 \<le> n \<and> j \<noteq> 1"
    using assms by (cases "btf_kind t") (auto simp: str_pos_def id_pos_def btf_type_size_def Let_def sizeof_btf_type_def)
  have "3 + 3 * i \<noteq> 4 + 3 * j" "3 + 2 * i \<noteq> 4 + 2 * j" for i j :: nat by presburger+
  then show "set (str_pos t) \<inter> set (id_pos t) = {}"
    by (cases "btf_kind t") (auto simp: str_pos_def id_pos_def)
qed

section \<open>The visitors\<close>

text \<open>\<open>w'\<close> names in the destination what \<open>w\<close> names in the source.\<close>

definition same_str :: "btf list \<Rightarrow> btf list \<Rightarrow> u32 \<Rightarrow> u32 \<Rightarrow> bool" where
  "same_str src dst w w' \<longleftrightarrow>
     (if w = 0 then w' = 0
      else \<exists>s off. btf__str_by_offset src (unat w) = Some s \<and> str_at dst off s \<and> w' = word_of_int off)"

definition keeps_strs :: "btf list \<Rightarrow> btf list \<Rightarrow> bool" where
  "keeps_strs b b' \<longleftrightarrow> (\<forall>k s. btf__str_by_offset b k = Some s \<longrightarrow> btf__str_by_offset b' k = Some s)"

lemma str_at_keeps: "str_at b r s \<Longrightarrow> keeps_strs b b' \<Longrightarrow> str_at b' r s"
  by (simp add: keeps_strs_def str_at_def)

lemma same_str_keeps: "same_str src b w w' \<Longrightarrow> keeps_strs b b' \<Longrightarrow> same_str src b' w w'"
  by (fastforce simp: same_str_def keeps_strs_def str_at_def)

text \<open>Every entry of the map joins two offsets of one string.\<close>

definition str_map_ok :: "btf list \<Rightarrow> btf list \<Rightarrow> (u64, int) hashmap option \<Rightarrow> bool" where
  "str_map_ok src dst m \<longleftrightarrow>
     (case m of
        None \<Rightarrow> True
      | Some h \<Rightarrow> keyed identity_hash_fn (=) h \<and>
          (\<forall>w v. hashmap_find h (ucast (w :: u32)) = Some v \<longrightarrow>
             (\<exists>s. btf__str_by_offset src (unat w) = Some s \<and> str_at dst v s)))"

lemma str_map_keeps:
  assumes "str_map_ok src b m" "keeps_strs b b'" shows "str_map_ok src b' m"
proof (cases m)
  case (Some h)
  with assms str_at_keeps [OF _ assms(2)] show ?thesis unfolding str_map_ok_def Some option.case by blast
qed (simp add: str_map_ok_def)

definition rewrite_inv :: "btf list \<Rightarrow> btf list \<Rightarrow> pipe \<Rightarrow> bool" where
  "rewrite_inv src b0 p \<longleftrightarrow>
     (case p of (dst, m, n) \<Rightarrow>
        btf_chain b0 \<and> same_tables b0 dst \<and> strs_chain dst \<and> dst \<noteq> [] \<and> modifiable (hd dst) \<and>
        types_data (hd dst) = types_data (hd b0) \<and> str_map_ok src dst m)"

lemma add_str_modifiable:
  assumes "btf__add_str env (btf # base) s = (btf' # base', r)" "modifiable btf"
  shows "modifiable btf' \<and> types_data btf' = types_data btf"
proof -
  obtain base1 off where f: "btf__find_str (\<lambda>n. env (Suc n)) base s = (base1, off)" by fastforce
  from assms show ?thesis
    by (auto simp: f btf_ensure_modifiable_def btf_invalidate_raw_data_def Let_def split: if_splits prod.splits)
qed

lemma str_by_offset_no_zero: "btf__str_by_offset b k = Some s \<Longrightarrow> 0 \<notin> set s"
  by (induction b) (auto simp: c_str_def dest: set_takeWhileD split: if_splits)

lemma same_tables_trans:
  assumes "same_tables a b" "same_tables b c" shows "same_tables a c"
  using list_all2_trans [OF same_table_trans assms [unfolded same_tables_def]] by (simp add: same_tables_def)

lemma rewrite_add_str:
  assumes inv: "rewrite_inv src b0 (dst, m, n)"
    and s: "btf__str_by_offset src k = Some s" and r: "btf__add_str env dst s = (dst', off)"
  shows "rewrite_inv src b0 (dst', m, n') \<and> keeps_strs dst dst' \<and> (0 \<le> off \<longrightarrow> str_at dst' off s)"
proof -
  have i: "same_tables b0 dst" "strs_chain dst" "dst \<noteq> []" "modifiable (hd dst)"
    "types_data (hd dst) = types_data (hd b0)" and c: "btf_chain b0"
    using inv by (simp_all add: rewrite_inv_def)
  have g: "strs_grow dst dst'" "0 \<le> off \<longrightarrow> str_at dst' off s"
    using add_str_strs [OF r i(2) str_by_offset_no_zero [OF s]] by simp_all
  have keeps: "keeps_strs dst dst'" using g(1) by (simp add: strs_grow_def keeps_strs_def)
  obtain btf base where d: "dst = btf # base" using i(3) by (cases dst) auto
  obtain btf' base' where d': "dst' = btf' # base'" using g(1) d by (cases dst') (auto simp: strs_grow_def)
  have "same_tables dst dst'" using add_str_tables [OF r] same_tables_chain(1) [OF i(1) c] .
  then have t: "same_tables b0 dst'" by (rule same_tables_trans [OF i(1)])
  have "modifiable (hd dst') \<and> types_data (hd dst') = types_data (hd b0)"
    using add_str_modifiable [OF r [unfolded d d']] i(4,5) by (simp add: d d')
  moreover have "strs_chain dst'" using g(1) by (simp add: strs_grow_def)
  moreover have "str_map_ok src dst' m"
    using inv str_map_keeps [OF _ keeps] by (simp add: rewrite_inv_def)
  ultimately have "rewrite_inv src b0 (dst', m, n')"
    using t c unfolding rewrite_inv_def by (simp add: d')
  with keeps g(2) show ?thesis by simp
qed

lemma rewrite_step:
  assumes inv: "rewrite_inv src b0 p"
    and v: "btf_rewrite_str env al src w p = Some (w', p', err)"
  shows "rewrite_inv src b0 p' \<and> keeps_strs (fst p) (fst p') \<and> err \<le> 0 \<and>
    (err = 0 \<longrightarrow> same_str src (fst p') w w')"
proof -
  obtain dst m n where p: "p = (dst, m, n)" by (cases p)
  have refl: "keeps_strs dst dst" by (simp add: keeps_strs_def)
  show ?thesis
  proof (cases "w = 0")
    case True
    with v inv refl show ?thesis by (auto simp: btf_rewrite_str_def p same_str_def)
  next
    case w: False
    show ?thesis
    proof (cases "\<exists>h u. m = Some h \<and> hashmap_find h (ucast w) = Some u")
      case True
      then obtain h u where h: "m = Some h" "hashmap_find h (ucast w) = Some u" by blast
      have r: "p' = p" "w' = word_of_int u" "err = 0" using v w h by (simp_all add: btf_rewrite_str_def p)
      have "\<exists>s. btf__str_by_offset src (unat w) = Some s \<and> str_at dst u s"
        using inv h by (simp add: rewrite_inv_def p str_map_ok_def)
      with r w inv refl show ?thesis by (auto simp: same_str_def p)
    next
      case False
      then have none: "(case m of None \<Rightarrow> None | Some m \<Rightarrow> hashmap_find m (ucast w)) = None"
        by (auto split: option.splits)
      obtain s where s: "btf__str_by_offset src (unat w) = Some s"
        using v w none by (auto simp: btf_rewrite_str_def p split: option.splits)
      obtain dst' off where a: "btf__add_str (env n) dst s = (dst', off)" by fastforce
      note ra = rewrite_add_str [OF inv [unfolded p] s a]
      have eq: "Some (w', p', err) =
          (if off < 0 then Some (w, (dst', m, n + 1), off)
           else case m of None \<Rightarrow> Some (word_of_int off, (dst', None, n + 1), 0)
             | Some m \<Rightarrow> (case hashmap_insert (al n) m (ucast w) off HASHMAP_APPEND of
                 (m, err, _) \<Rightarrow> if err \<noteq> 0 then Some (w, (dst', Some m, n + 1), err)
                               else Some (word_of_int off, (dst', Some m, n + 1), 0)))"
        using v [symmetric] w none s a unfolding btf_rewrite_str_def p by simp
      show ?thesis
      proof (cases "off < 0")
        case True
        with eq ra [of "n + 1"] show ?thesis by (auto simp: p)
      next
        case off: False
        with ra s have at: "str_at dst' off s" by simp
        then have ss: "same_str src dst' w (word_of_int off)" using w s by (auto simp: same_str_def)
        show ?thesis
        proof (cases m)
          case None
          with eq off ra [of "n + 1"] ss show ?thesis by (auto simp: p)
        next
          case (Some h)
          obtain h' e old where ins: "hashmap_insert (al n) h (ucast w) off HASHMAP_APPEND = (h', e, old)"
            by (cases "hashmap_insert (al n) h (ucast w) off HASHMAP_APPEND") auto
          have k: "keyed identity_hash_fn (=) h" "hashmap_find h (ucast w) = None"
            using inv Some False by (auto simp: rewrite_inv_def p str_map_ok_def)
          from ints.insert_absent [OF k _ ins] have h': "keyed identity_hash_fn (=) h'" "e \<le> 0"
            "hashmap_find h' = hashmap_find h \<or>
             hashmap_find h' = (\<lambda>x. if ucast w = x then Some off else hashmap_find h x)"
            by (auto simp: errno_defs)
          have inj: "(ucast x :: u64) = ucast y \<longleftrightarrow> x = y" for x y :: u32
          proof -
            have "uint (ucast x :: u64) = uint x" for x :: u32
              using unsigned_less [of x, where ?'a = int] by (simp add: unsigned_ucast_eq take_bit_int_eq_self)
            then show ?thesis by (metis word_uint_eqI)
          qed
          have "rewrite_inv src b0 (dst', Some h', n + 1)"
            using ra [of "n + 1"] h' at s unfolding rewrite_inv_def Some str_map_ok_def
            by (auto simp: inj split: if_splits)
          moreover have "p' = (dst', Some h', n + 1)" "err = e" "e = 0 \<longrightarrow> w' = word_of_int off"
            using eq off by (auto simp: Some ins split: if_splits)
          ultimately show ?thesis using ra [of 0] ss h'(2) by (auto simp: p)
        qed
      qed
    qed
  qed
qed

text \<open>An identifier but 0 moves by the number of types before the copies.\<close>

definition shift_id :: "btf \<Rightarrow> u32 \<Rightarrow> u32" where
  "shift_id btf w = (if w = 0 then 0 else w + of_nat (start_id btf + nr_types btf - 1))"

interpretation names: visitor "btf_rewrite_str env al src" "rewrite_inv src b0"
  "\<lambda>p p'. keeps_strs (fst p) (fst p')" "\<lambda>p. same_str src (fst p)"
  by unfold_locales (use rewrite_step in blast, simp_all add: keeps_strs_def same_str_keeps)

interpretation ids: visitor btf_rewrite_type_ids "\<lambda>_. True" "(=)" "\<lambda>btf w w'. w' = shift_id btf w"
  by unfold_locales (auto simp: btf_rewrite_type_ids_def shift_id_def split: if_splits)

section \<open>One type\<close>

definition copied :: "btf list \<Rightarrow> btf list \<Rightarrow> (u32 \<Rightarrow> u32) \<Rightarrow> btf_type \<Rightarrow> btf_type \<Rightarrow> bool" where
  "copied src dst f t t' \<longleftrightarrow>
     length (type_words t') = length (type_words t) \<and>
     (\<forall>j<length (type_words t).
        let w = type_words t ! j; w' = type_words t' ! j in
        if j \<in> set (str_pos t) then same_str src dst w w'
        else if j \<in> set (id_pos t) then w' = f w
        else w' = w)"

lemma copied_keeps: "copied src b f t t' \<Longrightarrow> keeps_strs b b' \<Longrightarrow> copied src b' f t t'"
  by (simp add: copied_def Let_def) (metis same_str_keeps)

lemma words_type_at:
  assumes "btf_type_size (type_hdr_at d p) = Some n"
  shows "type_words (type_at d p) = words_at d p (n div 4)"
proof -
  obtain m where "n = 4 * m" "12 \<le> n"
    using btf_type_size_ge [OF assms] btf_type_size_dvd [OF assms] by (auto elim!: dvdE)
  then obtain k where n: "n = 12 + 4 * k" by (intro that [of "m - 3"]) simp
  have "words_at d p (3 + k) = words_at d p 3 @ words_at d (p + 12) k" by (simp add: words_at_add)
  moreover have "words_at d p 3 = [get32 d p, get32 d (p + 4), get32 d (p + 8)]"
    by (simp add: words_at_def numeral_3_eq_3)
  ultimately show ?thesis
    using assms by (simp add: n type_at_def type_hdr_at_def type_words_def)
qed

lemma pos_type_at [simp]: "str_pos (type_at d p) = str_pos (type_hdr_at d p)" "id_pos (type_at d p) = id_pos (type_hdr_at d p)"
proof -
  have "btf_kind (type_at d p) = btf_kind (type_hdr_at d p)" "btf_vlen (type_at d p) = btf_vlen (type_hdr_at d p)"
    by (simp_all add: type_at_def Let_def btf_kind_def btf_vlen_def split: option.splits)
  then show "str_pos (type_at d p) = str_pos (type_hdr_at d p)" "id_pos (type_at d p) = id_pos (type_hdr_at d p)"
    by (simp_all add: str_pos_def id_pos_def)
qed

lemma offs_of_bounds:
  assumes "sorted_wrt (<) js" "\<forall>j\<in>set js. 4 * j + 4 \<le> n" "p + n \<le> length d"
  shows "sorted_wrt (\<lambda>a b. a + 4 \<le> b) (offs_of p js)" "\<forall>off\<in>set (offs_of p js). off + 4 \<le> length d"
    "\<forall>off\<in>set (offs_of p js). p \<le> off \<and> off + 4 \<le> p + n"
proof -
  show "sorted_wrt (\<lambda>a b. a + 4 \<le> b) (offs_of p js)"
    using assms(1) unfolding offs_of_def sorted_wrt_map by (rule sorted_wrt_mono_rel [rotated]) simp
  show "\<forall>off\<in>set (offs_of p js). off + 4 \<le> length d" "\<forall>off\<in>set (offs_of p js). p \<le> off \<and> off + 4 \<le> p + n"
    using assms(2,3) by (fastforce simp: offs_of_def)+
qed

lemma word_apart:
  assumes "j \<notin> set js" shows "\<forall>off\<in>set (offs_of p js). p + 4 * j + 4 \<le> off \<or> off + 4 \<le> p + 4 * j"
proof
  fix off assume "off \<in> set (offs_of p js)"
  then obtain k where k: "k \<in> set js" "off = p + 4 * k" by (auto simp: offs_of_def)
  with assms have "k < j \<or> j < k" by (metis linorder_neqE_nat)
  with k show "p + 4 * j + 4 \<le> off \<or> off + 4 \<le> p + 4 * j" by auto
qed

text \<open>The two traversals of one copied type.\<close>

lemma rewrite_names:
  assumes s: "btf_type_size (type_hdr_at d p) = Some n" "p + n \<le> length d" and inv: "rewrite_inv src b0 c"
    and v: "btf_type_visit_str_offs d p (btf_rewrite_str env al src) c = Some (d', c', err)"
  shows "length d' = length d" "rewrite_inv src b0 c'" "keeps_strs (fst c) (fst c') \<and> err \<le> 0"
    "take p d' = take p d" "drop (p + n) d' = drop (p + n) d"
    "\<And>j. j \<notin> set (str_pos (type_hdr_at d p)) \<Longrightarrow> 4 * j + 4 \<le> n \<Longrightarrow> get32 d' (p + 4 * j) = get32 d (p + 4 * j)"
    "\<And>j. err = 0 \<Longrightarrow> j \<in> set (str_pos (type_hdr_at d p)) \<Longrightarrow>
       same_str src (fst c') (get32 d (p + 4 * j)) (get32 d' (p + 4 * j))"
proof -
  have b: "\<forall>j\<in>set (str_pos (type_hdr_at d p)). 4 * j + 4 \<le> n" using pos_bounds(1) [OF s(1)] by auto
  note ob = offs_of_bounds [OF pos_bounds(2) [OF s(1)] b s(2)]
  note sp = names.visit_words_spec [OF v [unfolded visit_str_offs_pos] inv ob(1,2)]
  show "length d' = length d" "rewrite_inv src b0 c'" "keeps_strs (fst c) (fst c') \<and> err \<le> 0" using sp by blast+
  show "take p d' = take p d" "drop (p + n) d' = drop (p + n) d" using sp ob(3) by blast+
  show "get32 d' (p + 4 * j) = get32 d (p + 4 * j)"
    if "j \<notin> set (str_pos (type_hdr_at d p))" "4 * j + 4 \<le> n" for j
    using sp word_apart [OF that(1)] that(2) s(2) by simp
  show "same_str src (fst c') (get32 d (p + 4 * j)) (get32 d' (p + 4 * j))"
    if "err = 0" "j \<in> set (str_pos (type_hdr_at d p))" for j
    using sp that by (simp add: offs_of_def)
qed

lemma rewrite_ids:
  assumes s: "btf_type_size (type_hdr_at d p) = Some n" "p + n \<le> length d"
    and v: "btf_type_visit_type_ids d p btf_rewrite_type_ids btf = Some (d', c', err)"
  shows "length d' = length d \<and> err \<le> 0" "take p d' = take p d" "drop (p + n) d' = drop (p + n) d"
    "\<And>j. j \<notin> set (id_pos (type_hdr_at d p)) \<Longrightarrow> 4 * j + 4 \<le> n \<Longrightarrow> get32 d' (p + 4 * j) = get32 d (p + 4 * j)"
    "\<And>j. err = 0 \<Longrightarrow> j \<in> set (id_pos (type_hdr_at d p)) \<Longrightarrow>
       get32 d' (p + 4 * j) = shift_id btf (get32 d (p + 4 * j))"
proof -
  have b: "\<forall>j\<in>set (id_pos (type_hdr_at d p)). 4 * j + 4 \<le> n" using pos_bounds(1) [OF s(1)] by auto
  note ob = offs_of_bounds [OF pos_bounds(3) [OF s(1)] b s(2)]
  note sp = ids.visit_words_spec [OF v [unfolded visit_type_ids_pos [OF s(1)]] TrueI ob(1,2)]
  show "length d' = length d \<and> err \<le> 0" using sp by blast
  show "take p d' = take p d" "drop (p + n) d' = drop (p + n) d" using sp ob(3) by blast+
  show "get32 d' (p + 4 * j) = get32 d (p + 4 * j)"
    if "j \<notin> set (id_pos (type_hdr_at d p))" "4 * j + 4 \<le> n" for j
    using sp word_apart [OF that(1)] that(2) s(2) by simp
  show "get32 d' (p + 4 * j) = shift_id btf (get32 d (p + 4 * j))"
    if "err = 0" "j \<in> set (id_pos (type_hdr_at d p))" for j
    using sp that by (simp add: offs_of_def)
qed

lemma type_hdr_info:
  assumes "get32 d' (p + 4 * 1) = get32 d (p + 4 * 1)"
  shows "btf_type_size (type_hdr_at d' p) = btf_type_size (type_hdr_at d p)"
    "str_pos (type_hdr_at d' p) = str_pos (type_hdr_at d p)" "id_pos (type_hdr_at d' p) = id_pos (type_hdr_at d p)"
proof -
  have "info (type_hdr_at d' p) = info (type_hdr_at d p)" using assms by (simp add: type_hdr_at_def)
  then have "btf_kind (type_hdr_at d' p) = btf_kind (type_hdr_at d p)" "btf_vlen (type_hdr_at d' p) = btf_vlen (type_hdr_at d p)"
    by (simp_all add: btf_kind_def btf_vlen_def)
  then show "btf_type_size (type_hdr_at d' p) = btf_type_size (type_hdr_at d p)"
    "str_pos (type_hdr_at d' p) = str_pos (type_hdr_at d p)" "id_pos (type_hdr_at d' p) = id_pos (type_hdr_at d p)"
    by (simp_all add: btf_type_size_def str_pos_def id_pos_def)
qed

lemma copy_names:
  assumes s: "btf_type_size (type_hdr_at d p) = Some n" "p + n \<le> length d" and inv: "rewrite_inv src b0 c"
    and v: "btf_type_visit_str_offs d p (btf_rewrite_str env al src) c = Some (d1, c1, 0)"
  shows "btf_type_size (type_hdr_at d1 p) = Some n" "copied src (fst c1) (\<lambda>w. w) (type_at d p) (type_at d1 p)"
proof -
  note r = rewrite_names [OF s inv v]
  note b = pos_bounds [OF s(1)]
  have "get32 d1 (p + 4 * 1) = get32 d (p + 4 * 1)"
    using b(1) btf_type_size_ge [OF s(1)] by (intro r(6)) auto
  note h = type_hdr_info [OF this]
  show s1: "btf_type_size (type_hdr_at d1 p) = Some n" using h(1) s(1) by simp
  show "copied src (fst c1) (\<lambda>w. w) (type_at d p) (type_at d1 p)"
    unfolding copied_def words_type_at [OF s(1)] words_type_at [OF s1]
    using r(6,7) by (auto simp: Let_def)
qed

lemma copy_type:
  assumes s: "btf_type_size (type_hdr_at d p) = Some n" "p + n \<le> length d" and inv: "rewrite_inv src b0 c"
    and v1: "btf_type_visit_str_offs d p (btf_rewrite_str env al src) c = Some (d1, c1, 0)"
    and v2: "btf_type_visit_type_ids d1 p btf_rewrite_type_ids btf = Some (d2, btf2, 0)"
  shows "btf_type_size (type_hdr_at d2 p) = Some n" "copied src (fst c1) (shift_id btf) (type_at d p) (type_at d2 p)"
proof -
  note r1 = rewrite_names [OF s inv v1]
  note b = pos_bounds [OF s(1)]
  have "get32 d1 (p + 4 * 1) = get32 d (p + 4 * 1)"
    using b(1) btf_type_size_ge [OF s(1)] by (intro r1(6)) auto
  note h1 = type_hdr_info [OF this]
  have s1: "btf_type_size (type_hdr_at d1 p) = Some n" "p + n \<le> length d1" using h1(1) s r1(1) by simp_all
  note r2 = rewrite_ids [OF s1 v2, unfolded h1]
  have "get32 d2 (p + 4 * 1) = get32 d1 (p + 4 * 1)"
    using b(1) btf_type_size_ge [OF s(1)] by (intro r2(4)) auto
  note h2 = type_hdr_info [OF this, unfolded h1]
  show s2: "btf_type_size (type_hdr_at d2 p) = Some n" using h2(1) s(1) by simp
  have w: "let w = get32 d (p + 4 * j); w' = get32 d2 (p + 4 * j) in
      if j \<in> set (str_pos (type_hdr_at d p)) then same_str src (fst c1) w w'
      else if j \<in> set (id_pos (type_hdr_at d p)) then w' = shift_id btf w else w' = w"
    if j: "j < n div 4" for j
  proof -
    have j': "4 * j + 4 \<le> n" using j by simp
    show ?thesis
    proof (cases "j \<in> set (str_pos (type_hdr_at d p))")
      case True
      then have "j \<notin> set (id_pos (type_hdr_at d p))" using b(4) by auto
      with r2(4) [OF this j'] r1(7) True show ?thesis by simp
    next
      case False
      with r1(6) [OF False j'] r2(4) [OF _ j'] r2(5) show ?thesis by (simp add: Let_def)
    qed
  qed
  then show "copied src (fst c1) (shift_id btf) (type_at d p) (type_at d2 p)"
    unfolding copied_def words_type_at [OF s(1)] words_type_at [OF s2] by (simp add: Let_def)
qed

section \<open>Adding one type\<close>

lemma rewrite_inv_start:
  assumes "btf_wf (btf # base)" "modifiable btf" "same_table btf btf'" "modifiable btf' = modifiable btf"
    "strs_set btf' = strs_set btf" "btf_strs_data btf' = btf_strs_data btf" "start_str_off btf' = start_str_off btf"
    "str_len (hdr btf') = str_len (hdr btf)" "str_map_ok src (btf' # base) m"
  shows "rewrite_inv src (btf' # base) (btf' # base, m, n)" "strs_grow (btf # base) (btf' # base)"
    "btf_chain (btf' # base)"
proof -
  have c: "btf_chain (btf # base)" "strs_chain (btf # base)" using assms(1) by (simp_all add: btf_wf_def)
  have "same_sec btf btf'" by (rule same_sec_fields) (use c(2) assms in simp_all)
  then show g: "strs_grow (btf # base) (btf' # base)" by (rule same_sec_grow) (rule c(2))
  show ch: "btf_chain (btf' # base)" using assms(3) c(1) by (simp add: same_table_def)
  show "rewrite_inv src (btf' # base) (btf' # base, m, n)"
    using g ch same_tables_refl [OF ch] assms(2,4,9) by (simp add: rewrite_inv_def strs_grow_def)
qed

lemma grow_keeps: "strs_grow b b' \<Longrightarrow> keeps_strs b b'"
  by (simp add: strs_grow_def keeps_strs_def)

lemma keeps_trans: "keeps_strs a b \<Longrightarrow> keeps_strs b c \<Longrightarrow> keeps_strs a c"
  by (simp add: keeps_strs_def)

text \<open>The object at the end of the traversals, with the visited types in place.\<close>

lemma rewrite_inv_end:
  assumes inv: "rewrite_inv src (btf # base) (b, m, n)" and c: "btf_chain (btf # base)"
    and d: "take (unat (type_len (hdr btf))) d = take (unat (type_len (hdr btf))) (types_data btf)"
    "length d = length (types_data btf)"
  obtains btf' base' where "b = btf' # base'" "same_table btf btf'" "same_tables base base'"
    "same_table btf (btf'\<lparr>types_data := d\<rparr>)" "strs_chain (btf' # base')" "types_data btf' = types_data btf"
    "btf_view base' = btf_view base" "btf_chain base'" "btf__type_cnt base' = btf__type_cnt base"
proof -
  from inv obtain btf' base' where b: "b = btf' # base'" "same_table btf btf'" "same_tables base base'"
    "strs_chain b" "types_data btf' = types_data btf" by (auto simp: rewrite_inv_def)
  note ok = same_table_ok [OF b(2)]
  have len: "type_len (hdr btf') = type_len (hdr btf)" using b(2) by (simp add: same_table_def)
  have "same_table btf' (btf'\<lparr>types_data := d\<rparr>)"
    by (rule same_tableI [OF ok]) (use ok d len b(5) in \<open>simp_all add: btf_ok_def\<close>)
  from same_table_trans [OF b(2) this] have "same_table btf (btf'\<lparr>types_data := d\<rparr>)" .
  moreover have "btf_view base' = btf_view base" "btf_chain base'" "btf__type_cnt base' = btf__type_cnt base"
    using same_tables_chain [OF b(3)] c by simp_all
  ultimately show thesis using that b by simp
qed

text \<open>The object on top of the chain replaced by one with the same strings.\<close>

lemma replace_top:
  assumes "strs_chain (btf # base)" "btf_chain base" "start_id x = btf__type_cnt base" "btf_ok x" "same_sec btf x"
    and "keeps_strs b0 (btf # base)"
  shows "btf_wf (x # base) \<and> keeps_strs b0 (x # base) \<and> keeps_strs (btf # base) (x # base)"
proof -
  have g: "strs_grow (btf # base) (x # base)" by (rule same_sec_grow [OF assms(5,1)])
  with assms grow_keeps [OF g] keeps_trans show ?thesis by (auto simp: btf_wf_def strs_grow_def)
qed

text \<open>No traversal crashes when every name it visits is one of the source.\<close>

definition names_resolve :: "btf list \<Rightarrow> btf_type \<Rightarrow> bool" where
  "names_resolve src t \<longleftrightarrow>
     (\<forall>j\<in>set (str_pos t). type_words t ! j = 0 \<or> btf__str_by_offset src (unat (type_words t ! j)) \<noteq> None)"

lemma rewrite_str_defined:
  assumes "w = 0 \<or> btf__str_by_offset src (unat w) \<noteq> None"
  shows "btf_rewrite_str env al src w p \<noteq> None"
  using assms by (auto simp: btf_rewrite_str_def split: prod.splits option.splits)

lemma visit_names_defined:
  assumes s: "btf_type_size (type_hdr_at d p) = Some n" "p + n \<le> length d" and "names_resolve src (type_at d p)"
  shows "btf_type_visit_str_offs d p (btf_rewrite_str env al src) c \<noteq> None"
proof -
  have b: "\<forall>j\<in>set (str_pos (type_hdr_at d p)). 4 * j + 4 \<le> n" using pos_bounds(1) [OF s(1)] by auto
  note ob = offs_of_bounds [OF pos_bounds(2) [OF s(1)] b s(2)]
  have "\<forall>off\<in>set (offs_of p (str_pos (type_hdr_at d p))).
      get32 d off = 0 \<or> btf__str_by_offset src (unat (get32 d off)) \<noteq> None"
    using assms(3) b unfolding names_resolve_def words_type_at [OF s(1)] by (fastforce simp: offs_of_def)
  then show ?thesis
    unfolding visit_str_offs_pos using ob(1,2)
    by (intro visit_words_defined [where W = "{w. w = 0 \<or> btf__str_by_offset src (unat w) \<noteq> None}"])
      (use rewrite_str_defined in blast, auto)
qed

lemma add_type_defined:
  assumes t: "type_ok t" "names_resolve src t"
  shows "btf__add_type env (btf # base) src t \<noteq> None"
proof
  assume none: "btf__add_type env (btf # base) src t = None"
  obtain n where n: "btf_type_size t = Some n" "n = 12 + 4 * length (rest t)" using t by (auto simp: type_ok_def)
  obtain btf1 e where m: "btf_ensure_modifiable (env 0 0) (base \<noteq> []) btf = (btf1, e)" by fastforce
  obtain btf2 where e: "e = 0" and m2: "btf_add_type_mem (env 0 0) btf1 n = Some btf2"
    using none n m by (cases "e = 0"; cases "btf_add_type_mem (env 0 0) btf1 n") (simp_all add: btf__add_type_def)
  define L where "L = unat (type_len (hdr btf2))"
  define d where "d = put (types_data btf2) L (type_bytes t)"
  have room: "L + n \<le> length (types_data btf2)"
    using m2 libbpf_add_mem_Some unfolding L_def btf_add_type_mem_def by (fastforce split: option.splits)
  have "type_at d L = t" "btf_type_size (type_hdr_at d L) = Some n" "length d = length (types_data btf2)"
    using type_at_put [OF n room] n room unfolding d_def [symmetric] by (auto simp: d_def type_bytes_def)
  with t room visit_names_defined [of d L n src] have
    "btf_type_visit_str_offs d L (btf_rewrite_str env (\<lambda>_. alloc_all) src) (btf2\<lparr>types_data := d\<rparr> # base, None, 1) \<noteq> None"
    by simp
  then show False using none n(1) m e m2
    by (auto simp: btf__add_type_def Let_def L_def d_def split: option.splits list.splits prod.splits if_splits)
qed

lemma add_type_refines:
  assumes w: "btf_wf (btf # base)" and t: "type_ok t"
    and r: "btf__add_type env (btf # base) src t = Some (b', r)"
  shows "btf_wf b' \<and> keeps_strs (btf # base) b' \<and>
    (r < 0 \<and> btf_view b' = btf_view (btf # base) \<or>
     r = int (btf__type_cnt (btf # base)) \<and>
       (\<exists>t'. copied src b' (\<lambda>w. w) t t' \<and> btf_view b' = (start_id btf, btf_types btf @ [t']) # btf_view base))"
proof -
  obtain n where n: "btf_type_size t = Some n" "n = 12 + 4 * length (rest t)" using t by (auto simp: type_ok_def)
  have c: "btf_chain (btf # base)" "strs_chain (btf # base)" using w by (simp_all add: btf_wf_def)
  obtain btf1 e where m: "btf_ensure_modifiable (env 0 0) (base \<noteq> []) btf = (btf1, e)" by fastforce
  have s1: "same_table btf btf1" using ensure_modifiable_table [OF m] c by simp
  have ok: "strs_ok btf" using c(2) by simp
  have g1: "strs_grow (btf # base) (btf1 # base)" by (rule append_error_strs [OF m c(2)])
  have w1: "btf_wf (btf1 # base)" "btf_view (btf1 # base) = btf_view (btf # base)"
    using s1 c g1 by (simp_all add: btf_wf_def same_table_def strs_grow_def btf_view_def)
  show ?thesis
  proof (cases "e \<noteq> 0 \<or> btf_add_type_mem (env 0 0) btf1 n = None")
    case True
    with r m n have "b' = btf1 # base" "r = - ENOMEM"
      by (auto simp: btf__add_type_def split: option.splits)
    with w1 g1 show ?thesis by (simp add: errno_defs grow_keeps)
  next
    case False
    then obtain btf2 where e: "e = 0" and m2: "btf_add_type_mem (env 0 0) btf1 n = Some btf2" by auto
    note s2 = add_type_mem_table [OF m2 same_table_ok [OF s1]]
    have md: "modifiable btf1" using ensure_modifiable_strs(2) [OF m ok] e by simp
    define L where "L = unat (type_len (hdr btf2))"
    define d where "d = put (types_data btf2) L (type_bytes t)"
    have f2: "type_len (hdr btf1) = type_len (hdr btf2)" using s2(1) by (simp add: same_table_def)
    have room: "L + n \<le> length (types_data btf2)" using s2(2) f2 by (simp add: L_def)
    have ld: "length d = length (types_data btf2)" using room n(2) by (simp add: d_def type_bytes_def)
    have td: "take L d = take L (types_data btf2)" using room by (simp add: d_def)
    have at: "type_at d L = t" "btf_type_size (type_hdr_at d L) = Some n"
      using type_at_put [OF n room] n(1) unfolding d_def [symmetric] by auto
    have ok2: "btf_ok btf2" by (rule same_table_ok [OF s2(1)])
    let ?b = "btf2\<lparr>types_data := d\<rparr>"
    have s2d: "same_table btf2 ?b"
      by (rule same_tableI [OF ok2]) (use td ld ok2 in \<open>simp_all add: L_def btf_ok_def\<close>)
    have s1d: "same_table btf1 ?b" by (rule same_table_trans [OF s2(1) s2d])
    have f: "modifiable btf2 = modifiable btf1" "strs_set btf2 = strs_set btf1" "btf_strs_data btf2 = btf_strs_data btf1"
      "start_str_off btf2 = start_str_off btf1" "str_len (hdr btf2) = str_len (hdr btf1)"
      using m2 by (auto simp: btf_add_type_mem_def split: option.splits)
    have "modifiable ?b = modifiable btf1" "strs_set ?b = strs_set btf1" "btf_strs_data ?b = btf_strs_data btf1"
      "start_str_off ?b = start_str_off btf1" "str_len (hdr ?b) = str_len (hdr btf1)" "str_map_ok src (?b # base) None"
      using f by (simp_all add: str_map_ok_def)
    note st = rewrite_inv_start [OF w1(1) md s1d this]
    obtain d1 b1 m1 n1 err where v: "btf_type_visit_str_offs d L (btf_rewrite_str env (\<lambda>_. alloc_all) src)
        (?b # base, None, 1) = Some (d1, (b1, m1, n1), err)" and inv: "rewrite_inv src (?b # base) (?b # base, None, 1)"
      using r m n(1) e m2 st(1) by (auto simp: btf__add_type_def Let_def L_def d_def split: option.splits)
    have room': "L + n \<le> length d" using room ld by simp
    note rn = rewrite_names [OF at(2) room' inv v]
    have "take (unat (type_len (hdr ?b))) d1 = take (unat (type_len (hdr ?b))) (types_data ?b)"
      "length d1 = length (types_data ?b)" using rn(1,4) by (simp_all add: L_def)
    then obtain btf3 base3 where b1: "b1 = btf3 # base3" "same_table ?b btf3" "same_tables base base3"
      "same_table ?b (btf3\<lparr>types_data := d1\<rparr>)" "strs_chain (btf3 # base3)" "types_data btf3 = types_data ?b"
      "btf_view base3 = btf_view base" "btf_chain base3" "btf__type_cnt base3 = btf__type_cnt base"
      by (rule rewrite_inv_end [OF rn(2) st(3)])
    let ?b3 = "btf3\<lparr>types_data := d1\<rparr>"
    have keeps: "keeps_strs (btf # base) (btf3 # base3)"
      using rn(3) b1(1) grow_keeps [OF g1] grow_keeps [OF st(2)] by (auto intro: keeps_trans)
    have s3: "same_table btf ?b3" by (rule same_table_trans [OF s1 same_table_trans [OF s1d b1(4)]])
    have top: "btf_wf (x # base3) \<and> keeps_strs (btf # base) (x # base3) \<and>
        (\<forall>f t t'. copied src (btf3 # base3) f t t' \<longrightarrow> copied src (x # base3) f t t')"
      if "btf_ok x" "start_id x = start_id btf" "same_sec btf3 x" for x
      using replace_top [OF b1(5,8) _ that(1,3) keeps] copied_keeps that(2) b1(9) c(1) by auto
    have ok3: "strs_ok btf3" using b1(5) by simp
    show ?thesis
    proof (cases "err = 0")
      case False
      then have "b' = ?b3 # base3" "r = err"
        using r m n(1) e m2 v b1(1) by (simp_all add: btf__add_type_def Let_def L_def d_def)
      moreover have "err < 0" using rn(3) False by simp
      moreover have "btf_wf (?b3 # base3) \<and> keeps_strs (btf # base) (?b3 # base3)"
        using top [of ?b3] same_table_ok [OF s3] s3 same_sec_fields [OF ok3, of ?b3] by (simp add: same_table_def)
      ultimately show ?thesis using s3 b1(7) by (simp add: btf_view_def same_table_def)
    next
      case True
      obtain btf4 where r4: "btf_commit_type (env 0 0) ?b3 n = (btf4, r)" "b' = btf4 # base3"
        using r m n(1) e m2 v b1(1) True
        by (auto simp: btf__add_type_def Let_def L_def d_def split: prod.splits)
      note cn = copy_names [OF at(2) room' inv v [unfolded True]]
      have fields: "modifiable btf4 = modifiable btf3 \<and> strs_set btf4 = strs_set btf3 \<and>
          btf_strs_data btf4 = btf_strs_data btf3 \<and> start_str_off btf4 = start_str_off btf3 \<and>
          str_len (hdr btf4) = str_len (hdr btf3)"
        using r4(1) by (auto simp: btf_commit_type_def Let_def split: option.splits)
      have same: "same_sec btf3 btf4" by (rule same_sec_fields) (use ok3 fields in auto)
      have ok3': "btf_ok btf3" by (rule same_table_ok [OF b1(2)])
      have L3: "unat (type_len (hdr btf3)) = L" using b1(2) by (simp add: same_table_def L_def)
      have "start_id btf4 = start_id btf3 \<and> (r < 0 \<and> same_table btf3 btf4 \<or>
          r = int (start_id btf3 + nr_types btf3) \<and> btf_ok btf4 \<and> nr_types btf4 = nr_types btf3 + 1 \<and>
            btf_types btf4 = btf_types btf3 @ [type_at d1 (unat (type_len (hdr btf3)))])"
        by (rule commit_type_table [OF ok3' _ _ _ _ r4(1)])
          (use cn(1) rn(1,4) b1(6) room' ok3' in \<open>simp_all add: L3 btf_ok_def\<close>)
      moreover have t3: "same_table btf btf3" using s1d b1(2) s1 by (blast intro: same_table_trans)
      ultimately have r5: "start_id btf4 = start_id btf" "btf_ok btf4" "r < 0 \<and> btf_types btf4 = btf_types btf \<or>
          r = int (btf__type_cnt (btf # base)) \<and> btf_types btf4 = btf_types btf @ [type_at d1 L]"
        by (auto simp: same_table_def btf__type_cnt_def L3)
      from top [OF r5(2,1) same] r5(3) cn(2) at(1) b1(1,7) r4(2) r5(1) show ?thesis
        by (auto simp: btf_view_def)
    qed
  qed
qed

section \<open>Adding a whole object\<close>

lemma get32_drop_cong:
  assumes "drop m d = drop m d'" "length d = length d'" "m \<le> p" "p + 4 \<le> length d"
  shows "get32 d p = get32 d' p"
proof -
  have "d ! i = d' ! i" if "m \<le> i" "i < length d" for i
  proof -
    have "d ! i = drop m d ! (i - m)" "d' ! i = drop m d' ! (i - m)" using that assms(2) by simp_all
    with assms(1) show ?thesis by simp
  qed
  with assms(3,4) show ?thesis by (simp add: get32_def)
qed

lemma type_at_moved:
  assumes "\<And>k. q \<le> k \<Longrightarrow> k + 4 \<le> endt \<Longrightarrow> get32 d (L + k) = get32 sd k"
    and "btf_type_size (type_hdr_at sd q) = Some n" "q + n \<le> endt"
  shows "btf_type_size (type_hdr_at d (L + q)) = Some n" "type_at d (L + q) = type_at sd q"
proof -
  have n: "12 \<le> n" by (rule btf_type_size_ge [OF assms(2)])
  have h: "type_hdr_at d (L + q) = type_hdr_at sd q"
    using assms(1) [of q] assms(1) [of "q + 4"] assms(1) [of "q + 8"] n assms(3)
    by (simp add: type_hdr_at_def add.assoc)
  then show s: "btf_type_size (type_hdr_at d (L + q)) = Some n" using assms(2) by simp
  have "words_at d (L + q + 12) ((n - 12) div 4) = words_at sd (q + 12) ((n - 12) div 4)"
  proof (rule nth_equalityI)
    fix i assume i: "i < length (words_at d (L + q + 12) ((n - 12) div 4))"
    then have "q + 12 + 4 * i + 4 \<le> endt" using assms(3) n by simp
    with i assms(1) [of "q + 12 + 4 * i"] show
      "words_at d (L + q + 12) ((n - 12) div 4) ! i = words_at sd (q + 12) ((n - 12) div 4) ! i"
      by (simp add: add.assoc)
  qed simp
  then show "type_at d (L + q) = type_at sd q" using h assms(2) by (simp add: type_at_def)
qed

lemma add_btf_loop_spec:
  assumes "types_from sd endt os q" "\<And>k. q \<le> k \<Longrightarrow> k + 4 \<le> endt \<Longrightarrow> get32 d (L + k) = get32 sd k"
    and "L + endt \<le> length d" "rewrite_inv src b0 c" "i + length os \<le> length offs"
    and "add_btf_loop env al src btf (length os) i (L + q) d offs c = Some (d', offs', c', err)"
  shows "length d' = length d \<and> take (L + q) d' = take (L + q) d \<and> rewrite_inv src b0 c' \<and>
    keeps_strs (fst c) (fst c') \<and> err \<le> 0 \<and> length offs' = length offs \<and> take i offs' = take i offs \<and>
    (err = 0 \<longrightarrow> types_from d' (L + endt) (map ((+) L) os) (L + q) \<and>
       take (length os) (drop i offs') = map ((+) L) os \<and>
       list_all2 (copied src (fst c') (shift_id btf)) (map (type_at sd) os) (map (type_at d') (map ((+) L) os)))"
  using assms
proof (induction os arbitrary: q i d offs c)
  case Nil
  then show ?case by (simp add: keeps_strs_def)
next
  case (Cons x os)
  obtain n where n: "x = q" "btf_type_size (type_hdr_at sd q) = Some n" "12 \<le> n" "q + n \<le> endt"
    "types_from sd endt os (q + n)" using Cons.prems(1) by (auto simp: types_from_Cons_iff)
  have mv: "btf_type_size (type_hdr_at d (L + q)) = Some n" "type_at d (L + q) = type_at sd q"
    using type_at_moved [of q endt d L sd n] Cons.prems(2) n(2,4) by blast+
  have room: "L + q + n \<le> length d" using n(4) Cons.prems(3) by simp
  let ?offs = "offs[i := L + q]"
  obtain d1 c1 e1 where v1: "btf_type_visit_str_offs d (L + q) (btf_rewrite_str env al src) c = Some (d1, c1, e1)"
    using Cons.prems(6) mv(1) by (auto simp: Let_def split: option.splits)
  note r1 = rewrite_names [OF mv(1) room Cons.prems(4) v1]
  have pre: "take (L + q) d1 = take (L + q) d" "length d1 = length d" using r1 by simp_all
  show ?case
  proof (cases "e1 = 0")
    case False
    then have "d' = d1" "offs' = ?offs" "c' = c1" "err = e1"
      using Cons.prems(6) mv(1) v1 by (simp_all add: Let_def)
    with pre r1(2,3) False show ?thesis by simp
  next
    case e1: True
    note cn = copy_names [OF mv(1) room Cons.prems(4) v1 [unfolded e1]]
    obtain d2 c2 e2 where v2: "btf_type_visit_type_ids d1 (L + q) btf_rewrite_type_ids btf = Some (d2, c2, e2)"
      using Cons.prems(6) mv(1) v1 e1 by (auto simp: Let_def split: option.splits)
    have room1: "L + q + n \<le> length d1" using room pre by simp
    note r2 = rewrite_ids [OF cn(1) room1 v2]
    have pre2: "take (L + q) d2 = take (L + q) d" "length d2 = length d" "drop (L + q + n) d2 = drop (L + q + n) d"
      using r1(5) r2(1-3) pre by simp_all
    show ?thesis
    proof (cases "e2 = 0")
      case False
      then have "d' = d2" "offs' = ?offs" "c' = c1" "err = e2"
        using Cons.prems(6) mv(1) v1 v2 e1 by (simp_all add: Let_def)
      with pre2 r1(2,3) r2(1) False show ?thesis by simp
    next
      case e2: True
      note ct = copy_type [OF mv(1) room Cons.prems(4) v1 [unfolded e1] v2 [unfolded e2]]
      have rec: "add_btf_loop env al src btf (length os) (Suc i) (L + (q + n)) d2 ?offs c1 = Some (d', offs', c', err)"
        using Cons.prems(6) mv(1) v1 v2 e1 e2 by (simp add: Let_def add.assoc)
      have words: "get32 d2 (L + k) = get32 sd k" if "q + n \<le> k" "k + 4 \<le> endt" for k
      proof -
        have "get32 d2 (L + k) = get32 d (L + k)"
          by (rule get32_drop_cong [OF pre2(3,2)]) (use that pre2(2) Cons.prems(3) in simp_all)
        with Cons.prems(2) [of k] that show ?thesis by simp
      qed
      have IH: "length d' = length d2" "take (L + (q + n)) d' = take (L + (q + n)) d2" "rewrite_inv src b0 c'"
        "keeps_strs (fst c1) (fst c')" "err \<le> 0" "length offs' = length ?offs" "take (Suc i) offs' = take (Suc i) ?offs"
        "err = 0 \<Longrightarrow> types_from d' (L + endt) (map ((+) L) os) (L + (q + n)) \<and>
           take (length os) (drop (Suc i) offs') = map ((+) L) os \<and>
           list_all2 (copied src (fst c') (shift_id btf)) (map (type_at sd) os) (map (type_at d') (map ((+) L) os))"
        using Cons.IH [OF n(5) words _ r1(2) _ rec] pre2(2) Cons.prems(3,5) by auto
      have "take (L + q) d' = take (L + q) (take (L + (q + n)) d')" by simp
      also have "\<dots> = take (L + q) d" unfolding IH(2) using pre2(1) by simp
      finally have p': "take (L + q) d' = take (L + q) d" .
      have o': "take i offs' = take i offs" "err = 0 \<longrightarrow> take (length (x # os)) (drop i offs') = map ((+) L) (x # os)"
      proof -
        have "take i offs' = take i (take (Suc i) offs')" by simp
        also have "\<dots> = take i offs" unfolding IH(7) by simp
        finally show "take i offs' = take i offs" .
        have i: "i < length offs'" using IH(6) Cons.prems(5) by simp
        have "offs' ! i = take (Suc i) offs' ! i" by simp
        also have "\<dots> = L + q" unfolding IH(7) using Cons.prems(5) by simp
        finally have "offs' ! i = L + q" .
        then show "err = 0 \<longrightarrow> take (length (x # os)) (drop i offs') = map ((+) L) (x # os)"
          using IH(8) n(1) by (simp add: Cons_nth_drop_Suc [OF i, symmetric])
      qed
      have sz': "btf_type_size (type_hdr_at d' (L + q)) = Some n" "type_at d' (L + q) = type_at d2 (L + q)"
      proof -
        have "type_hdr_at d2 (L + q) = type_hdr_at d' (L + q)"
          by (rule type_hdr_at_cong [OF IH(2) [symmetric]]) (use n(3) in simp)
        with ct(1) show "btf_type_size (type_hdr_at d' (L + q)) = Some n" by simp
        show "type_at d' (L + q) = type_at d2 (L + q)"
          by (rule type_at_cong [OF IH(2) [symmetric] ct(1), symmetric]) (simp add: add.assoc)
      qed
      have "err = 0 \<longrightarrow> types_from d' (L + endt) (map ((+) L) (x # os)) (L + q)"
        using IH(8) sz'(1) n(1,4) by (simp add: types_from.simps(2) add.assoc)
      moreover have "err = 0 \<longrightarrow> list_all2 (copied src (fst c') (shift_id btf)) (map (type_at sd) (x # os))
          (map (type_at d') (map ((+) L) (x # os)))"
        using IH(8) ct(2) copied_keeps [OF _ IH(4)] sz'(2) mv(2) n(1) by simp
      ultimately show ?thesis
        using IH(1,3,5,6) p' o' pre2(2) keeps_trans [OF _ IH(4)] r1(3) by simp
    qed
  qed
qed

lemma get32_put_inside:
  assumes "off + length bs \<le> length d" "k + 4 \<le> length bs" shows "get32 (put d off bs) (off + k) = get32 bs k"
  using assms by (simp add: get32_def nth_put)

text \<open>More room in the index, the object otherwise the same.\<close>

lemma index_room:
  assumes "btf_wf (btf # base)" "btf_add_type_offs_mem ok (type_offs btf) (nr_types btf) cnt = Some offs"
  shows "btf_wf (btf\<lparr>type_offs := offs\<rparr> # base)" "btf_types (btf\<lparr>type_offs := offs\<rparr>) = btf_types btf"
    "nr_types btf + cnt \<le> length offs" "strs_grow (btf # base) (btf\<lparr>type_offs := offs\<rparr> # base)"
proof -
  obtain k where k: "offs = type_offs btf @ replicate k 0" "nr_types btf + cnt \<le> length offs"
    using assms(2) libbpf_add_mem_Some unfolding btf_add_type_offs_mem_def by metis
  have ok: "btf_ok btf" "nr_types btf \<le> length (type_offs btf)" "strs_chain (btf # base)"
    using assms(1) by (simp_all add: btf_wf_def btf_ok_def)
  have t: "take (nr_types btf) offs = take (nr_types btf) (type_offs btf)" using k(1) ok(2) by simp
  then show "btf_types (btf\<lparr>type_offs := offs\<rparr>) = btf_types btf" by (simp add: btf_types_def)
  show "nr_types btf + cnt \<le> length offs" by (fact k(2))
  have "same_sec btf (btf\<lparr>type_offs := offs\<rparr>)" by (rule same_sec_fields) (use ok(3) in simp_all)
  then show g: "strs_grow (btf # base) (btf\<lparr>type_offs := offs\<rparr> # base)" by (rule same_sec_grow) (rule ok(3))
  have "btf_ok (btf\<lparr>type_offs := offs\<rparr>)" using ok t k(2) by (simp add: btf_ok_def)
  with assms(1) g show "btf_wf (btf\<lparr>type_offs := offs\<rparr> # base)" by (simp add: btf_wf_def strs_grow_def)
qed

text \<open>The copied types behind the object's own.\<close>

lemma copies_table:
  assumes ok: "btf_ok btf" and L: "L = unat (type_len (hdr btf))" and room: "L + endt \<le> length d" "length d < 2 ^ 32"
    and d: "take L d = take L (types_data btf)" and os: "types_from d (L + endt) (map ((+) L) os) L"
    and offs: "take (nr_types btf) offs = take (nr_types btf) (type_offs btf)"
      "take (length os) (drop (nr_types btf) offs) = map ((+) L) os" "nr_types btf + length os \<le> length offs"
    and b': "types_data btf' = d" "type_offs btf' = offs" "nr_types btf' = nr_types btf + length os"
      "type_len (hdr btf') = type_len (hdr btf) + of_nat endt"
  shows "btf_ok btf'" "btf_types btf' = btf_types btf @ map (type_at d) (map ((+) L) os)"
proof -
  have o: "take (nr_types btf + length os) offs = take (nr_types btf) (type_offs btf) @ map ((+) L) os"
    using offs by (simp add: take_add)
  have f: "types_from (types_data btf) L (take (nr_types btf) (type_offs btf)) 0" using ok by (simp add: btf_ok_def L)
  note f' = types_from_cong [OF f d [symmetric]]
  have "types_from d (L + endt) (take (nr_types btf + length os) offs) 0"
    unfolding o types_from_append using f'(1) os by (intro exI [of _ L]) simp
  moreover have "unat (type_len (hdr btf) + of_nat endt) = L + endt"
    using room by (simp add: L unat_word_ariths(1) unsigned_of_nat take_bit_eq_mod)
  ultimately show "btf_ok btf'" using room offs(3) by (simp add: btf_ok_def b')
  show "btf_types btf' = btf_types btf @ map (type_at d) (map ((+) L) os)"
    using f'(2) by (simp add: btf_types_def b' o)
qed

lemma index_agree:
  assumes "btf_ok y" "take (nr_types y) offs = take (nr_types y) (type_offs y)" "nr_types y \<le> length offs"
  shows "btf_ok (y\<lparr>type_offs := offs\<rparr>)" "btf_types (y\<lparr>type_offs := offs\<rparr>) = btf_types y"
  using assms by (simp_all add: btf_ok_def btf_types_def)

lemma add_btf_copy_refines:
  assumes w: "btf_wf (btf # base)" and src: "btf_chain [src]" and md: "modifiable btf"
    and room: "unat (type_len (hdr btf)) + unat (type_len (hdr src)) \<le> length (types_data btf)"
      "nr_types btf + nr_types src \<le> length (type_offs btf)"
    and r: "add_btf_copy env al src btf base (nr_types src) (str_len (hdr btf)) = Some (b', r)"
  shows "btf_wf b' \<and> keeps_strs (btf # base) b' \<and>
    (r < 0 \<and> btf_view b' = btf_view (btf # base) \<or>
     r = int (btf__type_cnt (btf # base)) \<and>
       (\<exists>ts. list_all2 (copied [src] b' (shift_id btf)) (btf_types src) ts \<and>
         btf_view b' = (start_id btf, btf_types btf @ ts) # btf_view base))"
proof -
  have c: "btf_chain (btf # base)" "strs_chain (btf # base)" using w by (simp_all add: btf_wf_def)
  let ?sz = "unat (type_len (hdr src))" and ?cnt = "nr_types src"
  define L where "L = unat (type_len (hdr btf))"
  define d where "d = put (types_data btf) L (take ?sz (types_data src))"
  have srcok: "?sz \<le> length (types_data src)" "?cnt \<le> length (type_offs src)"
    "types_from (types_data src) ?sz (take ?cnt (type_offs src)) 0"
    using src by (simp_all add: btf_ok_def)
  have room: "L + ?sz \<le> length (types_data btf)" "nr_types btf + ?cnt \<le> length (type_offs btf)"
    using room by (simp_all add: L_def)
  have ld: "length d = length (types_data btf)" using room srcok(1) by (simp add: d_def)
  have td: "take L d = take L (types_data btf)" using room by (simp add: d_def)
  have words: "get32 d (L + k) = get32 (types_data src) k" if "0 \<le> k" "k + 4 \<le> ?sz" for k
  proof -
    have "get32 d (L + k) = get32 (take ?sz (types_data src)) k"
      unfolding d_def by (rule get32_put_inside) (use that srcok(1) room in simp_all)
    also have "\<dots> = get32 (types_data src) k" by (rule get32_cong [OF _ that(2)]) simp
    finally show ?thesis .
  qed
  have okb: "btf_ok btf" using c by simp
  let ?b = "btf\<lparr>types_data := d\<rparr>"
  have sb: "same_table btf ?b"
    by (rule same_tableI [OF okb]) (use td ld okb in \<open>simp_all add: L_def btf_ok_def\<close>)
  have "str_map_ok [src] (?b # base) (Some (hashmap_init identity_hash_fn (=)))"
    by (simp add: str_map_ok_def hashmap_init_keyed ints.init_find)
  note st = rewrite_inv_start [OF w md sb _ _ _ _ _ this, simplified]
  define os where "os = take ?cnt (type_offs src)"
  have los: "length os = ?cnt" using srcok(2) by (simp add: os_def)
  obtain d' offs' b1 m1 n1 err where loop: "add_btf_loop env al [src] btf ?cnt (nr_types btf) L d (type_offs btf)
      (?b # base, Some (hashmap_init identity_hash_fn (=)), 1) = Some (d', offs', (b1, m1, n1), err)"
    using r unfolding add_btf_copy_def Let_def L_def d_def by (auto split: option.splits)
  have os: "types_from (types_data src) ?sz os 0" using srcok(3) by (simp add: os_def)
  have room': "L + ?sz \<le> length d" "nr_types btf + length os \<le> length (type_offs btf)" using room ld los by simp_all
  have sp: "length d' = length d" "take L d' = take L d" "rewrite_inv [src] (?b # base) (b1, m1, n1)"
    "keeps_strs (?b # base) b1" "err \<le> 0" "length offs' = length (type_offs btf)"
    "take (nr_types btf) offs' = take (nr_types btf) (type_offs btf)"
    "err = 0 \<Longrightarrow> types_from d' (L + ?sz) (map ((+) L) os) L \<and>
       take ?cnt (drop (nr_types btf) offs') = map ((+) L) os \<and>
       list_all2 (copied [src] b1 (shift_id btf)) (btf_types src) (map (type_at d') (map ((+) L) os))"
    using add_btf_loop_spec [OF os words room'(1) st(1) room'(2),
        where env = env and al = al and btf = btf and d' = d' and offs' = offs' and c' = "(b1, m1, n1)" and err = err] loop
    by (simp_all add: los btf_types_def os_def [symmetric])
  have ch: "btf_chain (?b # base)" using st(3) by simp
  have dd: "take (unat (type_len (hdr ?b))) d' = take (unat (type_len (hdr ?b))) (types_data ?b)"
    "length d' = length (types_data ?b)" using sp(1,2) by (simp_all add: L_def)
  obtain btf3 base3 where b3: "b1 = btf3 # base3" "same_table ?b btf3" "same_tables base base3"
    "same_table ?b (btf3\<lparr>types_data := d'\<rparr>)" "strs_chain (btf3 # base3)" "types_data btf3 = types_data ?b"
    "btf_view base3 = btf_view base" "btf_chain base3" "btf__type_cnt base3 = btf__type_cnt base"
    by (rule rewrite_inv_end [OF sp(3) ch dd])
  have keeps: "keeps_strs (btf # base) (btf3 # base3)"
    using sp(4) b3(1) grow_keeps [OF st(2)] by (auto intro: keeps_trans)
  have s3: "same_table btf btf3" by (rule same_table_trans [OF sb b3(2)])
  have t3: "type_len (hdr btf3) = type_len (hdr btf)" "start_id btf3 = start_id btf" "nr_types btf3 = nr_types btf"
      "btf_types btf3 = btf_types btf" "type_offs btf3 = type_offs btf"
    using s3 by (simp_all add: same_table_def)
  have top: "btf_wf (x # base3) \<and> keeps_strs (btf # base) (x # base3) \<and> keeps_strs (btf3 # base3) (x # base3)"
    if "btf_ok x" "start_id x = start_id btf" "same_sec btf3 x" for x
    using replace_top [OF b3(5,8) _ that(1,3) keeps] that(2) b3(9) c(1) by simp
  have ok3: "strs_ok btf3" "btf_ok btf3" using b3(5) same_table_ok [OF s3] by simp_all
  show ?thesis
  proof (cases "err = 0")
    case False
    let ?x = "btf3\<lparr>types_data := put d' L (replicate ?sz 0), type_offs := offs'\<rparr>"
    have "b' = ?x # base3" "r = err"
      using r loop b3(1) False unfolding add_btf_copy_def Let_def L_def d_def by (auto split: if_splits)
    moreover have "btf_ok ?x" "btf_types ?x = btf_types btf3"
    proof -
      let ?y = "btf3\<lparr>types_data := put d' L (replicate ?sz 0)\<rparr>"
      have "same_table btf3 ?y"
        by (rule same_tableI [OF ok3(2)]) (use sp(1,2) ld td room b3(6) t3(1) ok3(2) in \<open>simp_all add: L_def btf_ok_def\<close>)
      then have y: "btf_ok ?y" "btf_types ?y = btf_types btf3" by (simp_all add: same_table_def)
      with index_agree [OF y(1), of offs'] show "btf_ok ?x" "btf_types ?x = btf_types btf3"
        using sp(6,7) t3(3,5) room(2) by simp_all
    qed
    moreover have "same_sec btf3 ?x" by (rule same_sec_fields) (use ok3 in simp_all)
    ultimately show ?thesis using top [of ?x] sp(5) False b3(7) t3 by (simp add: btf_view_def)
  next
    case True
    define x where "x = btf3\<lparr>types_data := d', type_offs := offs',
      hdr := (hdr btf3)\<lparr>type_len := type_len (hdr btf3) + of_nat ?sz, str_off := str_off (hdr btf3) + of_nat ?sz\<rparr>,
      nr_types := nr_types btf3 + ?cnt\<rparr>"
    have b': "b' = x # base3" "r = int (start_id x + nr_types x - ?cnt)"
      using r loop b3(1) True unfolding add_btf_copy_def Let_def L_def d_def x_def by simp_all
    have d3: "L + ?sz \<le> length d'" "length d' < 2 ^ 32" "take L d' = take L (types_data btf3)"
      using sp(1,2) room'(1) ld okb td b3(6) by (simp_all add: btf_ok_def)
    have o3: "types_from d' (L + ?sz) (map ((+) L) os) L" "take (length os) (drop (nr_types btf3) offs') = map ((+) L) os"
      "take (nr_types btf3) offs' = take (nr_types btf3) (type_offs btf3)" "nr_types btf3 + length os \<le> length offs'"
      using sp(6,7,8) True t3(3,5) room'(2) los by simp_all
    have x: "btf_ok x" "btf_types x = btf_types btf @ map (type_at d') (map ((+) L) os)"
      using copies_table [OF ok3(2) _ d3 o3(1,3,2,4), of x] t3 by (simp_all add: x_def L_def los)
    have "same_sec btf3 x" by (rule same_sec_fields) (use ok3 in \<open>simp_all add: x_def\<close>)
    with x(1) have tx: "btf_wf (x # base3)" "keeps_strs (btf # base) (x # base3)" "keeps_strs (btf3 # base3) (x # base3)"
      using top [of x] t3(2) by (simp_all add: x_def)
    have "list_all2 (copied [src] (x # base3) (shift_id btf)) (btf_types src) (map (type_at d') (map ((+) L) os))"
      using sp(8) True b3(1) copied_keeps [OF _ tx(3)] by (auto elim!: list_all2_mono)
    moreover have "r = int (btf__type_cnt (btf # base))" using b'(2) t3 by (simp add: x_def btf__type_cnt_def)
    ultimately show ?thesis using tx(1,2) b'(1) b3(7) x(2) t3(2) by (auto simp: btf_view_def x_def)
  qed
qed

lemma add_btf_refines:
  assumes w: "btf_wf (btf # base)" and src: "btf_chain [src]"
    and r: "btf__add_btf env al mok (btf # base) [src] = Some (b', r)"
  shows "btf_wf b' \<and> keeps_strs (btf # base) b' \<and>
    (r < 0 \<and> btf_view b' = btf_view (btf # base) \<or>
     r = int (btf__type_cnt (btf # base)) \<and>
       (\<exists>ts. list_all2 (copied [src] b' (shift_id btf)) (btf_types src) ts \<and>
         btf_view b' = (start_id btf, btf_types btf @ ts) # btf_view base))"
proof -
  have c: "btf_chain (btf # base)" "strs_chain (btf # base)" using w by (simp_all add: btf_wf_def)
  obtain btf1 e where m: "btf_ensure_modifiable (env 0 0) (base \<noteq> []) btf = (btf1, e)" by fastforce
  have s1: "same_table btf btf1" using ensure_modifiable_table [OF m] c by simp
  have ok: "strs_ok btf" using c(2) by simp
  have g1: "strs_grow (btf # base) (btf1 # base)" by (rule append_error_strs [OF m c(2)])
  have w1: "btf_wf (btf1 # base)" "btf_view (btf1 # base) = btf_view (btf # base)"
    using s1 c g1 by (simp_all add: btf_wf_def same_table_def strs_grow_def btf_view_def)
  let ?sz = "unat (type_len (hdr src))" and ?cnt = "btf__type_cnt [src] - 1"
  have cnt: "?cnt = nr_types src" using src by (simp add: btf__type_cnt_def)
  show ?thesis
  proof (cases "e \<noteq> 0 \<or> btf_add_type_mem (env 0 0) btf1 ?sz = None")
    case True
    have "btf__add_btf env al mok (btf # base) [src] = Some (btf1 # base, - ENOMEM)"
      unfolding btf__add_btf_def Let_def using True by (auto simp: m)
    with r have "b' = btf1 # base" "r = - ENOMEM" by simp_all
    with w1 g1 show ?thesis by (simp add: errno_defs grow_keeps)
  next
    case False
    then obtain btf2 where e: "e = 0" and m2: "btf_add_type_mem (env 0 0) btf1 ?sz = Some btf2" by auto
    note s2 = add_type_mem_table [OF m2 same_table_ok [OF s1]]
    have f2: "modifiable btf2 = modifiable btf1" "strs_set btf2 = strs_set btf1" "btf_strs_data btf2 = btf_strs_data btf1"
      "start_str_off btf2 = start_str_off btf1" "str_len (hdr btf2) = str_len (hdr btf1)"
      using m2 by (auto simp: btf_add_type_mem_def split: option.splits)
    have md: "modifiable btf2" using ensure_modifiable_strs(2) [OF m ok] e f2(1) by simp
    have same2: "same_sec btf1 btf2" by (rule same_sec_fields) (use w1(1) f2 in \<open>simp_all add: btf_wf_def\<close>)
    have g2: "strs_grow (btf1 # base) (btf2 # base)"
      by (rule same_sec_grow [OF same2]) (use w1(1) in \<open>simp add: btf_wf_def\<close>)
    have w2: "btf_wf (btf2 # base)" using s2(1) w1(1) g2 by (simp add: btf_wf_def same_table_def strs_grow_def)
    have t2: "btf_types btf2 = btf_types btf" "start_id btf2 = start_id btf" "nr_types btf2 = nr_types btf"
      using s1 s2(1) by (simp_all add: same_table_def)
    have k2: "keeps_strs (btf # base) (btf2 # base)"
      using grow_keeps [OF g1] grow_keeps [OF g2] by (rule keeps_trans)
    have L1: "type_len (hdr btf1) = type_len (hdr btf2)" using s2(1) by (simp add: same_table_def)
    have room: "unat (type_len (hdr btf2)) + ?sz \<le> length (types_data btf2)" using s2(2) L1 by simp
    show ?thesis
    proof (cases "btf_add_type_offs_mem (offs_ok (env 0 0)) (type_offs btf2) (nr_types btf2) ?cnt")
      case None
      have "btf__add_btf env al mok (btf # base) [src] = Some (btf2 # base, - ENOMEM)"
        unfolding btf__add_btf_def Let_def by (simp add: m e m2 None del: One_nat_def)
      with r w2 k2 t2 show ?thesis by (auto simp: btf_view_def errno_defs)
    next
      case o: (Some offs)
      note ir = index_room [OF w2 o]
      have k3: "keeps_strs (btf # base) (btf2\<lparr>type_offs := offs\<rparr> # base)"
        using k2 grow_keeps [OF ir(4)] by (rule keeps_trans)
      show ?thesis
      proof (cases mok)
        case False
        have "btf__add_btf env al mok (btf # base) [src] = Some (btf2\<lparr>type_offs := offs\<rparr> # base, - ENOMEM)"
          unfolding btf__add_btf_def Let_def using False by (simp add: m e m2 o del: One_nat_def)
        with r ir(1,2) k3 t2 show ?thesis by (auto simp: btf_view_def errno_defs)
      next
        case True
        have r': "add_btf_copy env al src (btf2\<lparr>type_offs := offs\<rparr>) base (nr_types src)
            (str_len (hdr (btf2\<lparr>type_offs := offs\<rparr>))) = Some (b', r)"
          using r True unfolding btf__add_btf_def Let_def cnt by (simp add: m e m2 o [unfolded cnt] f2)
        have "btf_wf b' \<and> keeps_strs (btf2\<lparr>type_offs := offs\<rparr> # base) b' \<and>
            (r < 0 \<and> btf_view b' = btf_view (btf2\<lparr>type_offs := offs\<rparr> # base) \<or>
             r = int (btf__type_cnt (btf2\<lparr>type_offs := offs\<rparr> # base)) \<and>
             (\<exists>ts. list_all2 (copied [src] b' (shift_id (btf2\<lparr>type_offs := offs\<rparr>))) (btf_types src) ts \<and>
               btf_view b' = (start_id btf, btf_types btf @ ts) # btf_view base))"
          using add_btf_copy_refines [OF ir(1) src _ _ _ r'] md room ir(2,3) cnt t2 by simp
        moreover have "shift_id (btf2\<lparr>type_offs := offs\<rparr>) = shift_id btf"
          by (rule ext) (simp add: shift_id_def t2)
        ultimately show ?thesis using keeps_trans [OF k3] ir(2) t2 by (auto simp: btf_view_def btf__type_cnt_def)
      qed
    qed
  qed
qed

end
