(* ===== verification/Btf_Merge_Room.thy ===== *)
theory Btf_Merge_Room
  imports Btf_Merge Btf_Room
begin

text \<open>
  When \<open>btf__add_btf\<close> succeeds: with every allocation granted and room for the types and the names of the
  source. Each name a traversal visits uses up its part of a budget.
\<close>

section \<open>A budget for the words to visit\<close>

text \<open>\<open>Q ws c\<close> says that the context can take the words \<open>ws\<close>.\<close>

lemma visit_words_total:
  assumes step: "\<And>w ws c. Q (w # ws) c \<Longrightarrow> \<exists>w' c'. visit w c = Some (w', c', 0) \<and> Q ws c'"
    and "Q (map (get32 d) offs @ ws) c" "sorted_wrt (\<lambda>a b. a + 4 \<le> b) offs" "\<forall>off\<in>set offs. off + 4 \<le> length d"
  shows "\<exists>d' c'. visit_words (\<lambda>err. err \<noteq> 0) visit offs d c = Some (d', c', 0) \<and> Q ws c'"
  using assms(2-)
proof (induction offs arbitrary: d c)
  case (Cons off offs)
  obtain w c1 where v: "visit (get32 d off) c = Some (w, c1, 0)" "Q (map (get32 d) offs @ ws) c1"
    using step [of "get32 d off" "map (get32 d) offs @ ws" c] Cons.prems(1) by auto
  have "map (get32 (put32 d off w)) offs = map (get32 d) offs"
    using Cons.prems(2,3) by (intro map_cong refl get32_put32_other) auto
  with Cons.IH [of "put32 d off w" c1] v(2) Cons.prems(2,3) show ?case by (simp add: v(1))
qed simp

text \<open>The bytes the names among the words take.\<close>

definition name_cost :: "btf list \<Rightarrow> u32 list \<Rightarrow> nat" where
  "name_cost src ws = (\<Sum>w\<leftarrow>ws. if w = 0 then 0 else length (the (btf__str_by_offset src (unat w))) + 1)"

lemma name_cost_simps [simp]:
  "name_cost src [] = 0"
  "name_cost src (w # ws) =
     (if w = 0 then 0 else length (the (btf__str_by_offset src (unat w))) + 1) + name_cost src ws"
  by (simp_all add: name_cost_def)

definition budget :: "btf list \<Rightarrow> btf list \<Rightarrow> u32 list \<Rightarrow> pipe \<Rightarrow> bool" where
  "budget src b0 ws p \<longleftrightarrow>
     rewrite_inv src b0 p \<and> (\<forall>w\<in>set ws. w = 0 \<or> btf__str_by_offset src (unat w) \<noteq> None) \<and>
     (\<forall>x\<in>set (fst p). unat (str_len (hdr x)) + name_cost src ws \<le> BTF_MAX_STR_OFFSET) \<and>
     (\<forall>m. fst (snd p) = Some m \<longrightarrow> sz m + length ws < 2 ^ 59)"

text \<open>An addition lengthens the section of the top object by at most the string.\<close>

lemma add_str_len:
  assumes "btf__add_str env b s = (b', r)" "strs_chain b" "0 \<notin> set s" "x' \<in> set b'"
  shows "\<exists>x\<in>set b. unat (str_len (hdr x')) \<le> unat (str_len (hdr x)) + length s + 1"
proof (cases b)
  case Nil
  with assms show ?thesis by simp
next
  case (Cons btf base)
  obtain base' off where f: "btf__find_str (\<lambda>n. env (Suc n)) base s = (base', off)" by fastforce
  have ok: "strs_ok btf" "strs_chain base" using assms(2) Cons by simp_all
  have base: "\<exists>x\<in>set b. unat (str_len (hdr y)) \<le> unat (str_len (hdr x)) + length s + 1" if "y \<in> set base'" for y
    using find_str_strs(1) [OF f ok(2) assms(3)] that Cons
    by (auto simp: list_all2_conv_all_nth in_set_conv_nth same_sec_def) (metis le_add1 nth_mem add.assoc le_Suc_eq le_add1 trans_le_add1)
  obtain btf1 e where m: "btf_ensure_modifiable (env 0) (base' \<noteq> []) btf = (btf1, e)" by fastforce
  note s1 = ensure_modifiable_strs [OF m ok(1)]
  obtain ss so where q: "strset_add_str (str_al (env 0)) (str_ok (env 0)) (strs_set btf1) s = (ss, so)" by fastforce
  have l1: "str_len (hdr btf1) = str_len (hdr btf)" using s1(1) by (simp add: same_sec_def)
  have grown: "unat (of_nat (strs_data_len ss) :: u32) \<le> unat (str_len (hdr btf)) + length s + 1" if "e = 0"
  proof -
    have md: "strs_ok btf1" "modifiable btf1" using s1 that by (simp_all add: same_sec_def)
    note sec = modifiable_sec [OF md]
    have "strs_data_len ss \<le> strs_data_len (strs_set btf1) + length s + 1"
      using add_str_spec [OF _ assms(3) q] sec by auto
    moreover have "unat (of_nat (strs_data_len ss) :: u32) \<le> strs_data_len ss"
      by (simp add: unsigned_of_nat take_bit_eq_mod)
    ultimately show ?thesis using sec l1 by simp
  qed
  have "x' \<in> set base' \<or> str_len (hdr x') = str_len (hdr btf) \<or>
      e = 0 \<and> str_len (hdr x') = of_nat (strs_data_len ss)"
    using assms(1,4) Cons f m q l1 by (auto simp: Let_def split: if_splits)
  with base grown Cons show ?thesis by fastforce
qed

lemma budget_step:
  assumes grants: "\<forall>i j. env_grants (env i j)" "\<forall>i. calloc_ok (al i) \<and> malloc_ok (al i)"
    and q: "budget src b0 (w # ws) p"
  shows "\<exists>w' p'. btf_rewrite_str env al src w p = Some (w', p', 0) \<and> budget src b0 ws p'"
proof -
  obtain dst m n where p: "p = (dst, m, n)" by (cases p)
  have inv: "rewrite_inv src b0 (dst, m, n)"
    and res: "w \<noteq> 0 \<Longrightarrow> btf__str_by_offset src (unat w) \<noteq> None" "\<forall>w\<in>set ws. w = 0 \<or> btf__str_by_offset src (unat w) \<noteq> None"
    and room: "\<And>x. x \<in> set dst \<Longrightarrow> unat (str_len (hdr x)) + name_cost src (w # ws) \<le> BTF_MAX_STR_OFFSET"
    and sz: "\<And>h. m = Some h \<Longrightarrow> sz h + length ws + 1 < 2 ^ 59"
    using q by (simp_all add: budget_def p)
  have keep: "budget src b0 ws p"
    using inv res(2) room sz by (fastforce simp: budget_def p)
  show ?thesis
  proof (cases "w = 0 \<or> (\<exists>h u. m = Some h \<and> hashmap_find h (ucast w) = Some u)")
    case True
    with keep show ?thesis by (auto simp: btf_rewrite_str_def p)
  next
    case False
    then have w: "w \<noteq> 0" and none: "(case m of None \<Rightarrow> None | Some m \<Rightarrow> hashmap_find m (ucast w)) = None"
      by (auto split: option.splits)
    obtain s where s: "btf__str_by_offset src (unat w) = Some s" using res(1) [OF w] by blast
    obtain dst' off where a: "btf__add_str (env n) dst s = (dst', off)" by fastforce
    have i: "strs_chain dst" "dst \<noteq> []" using inv by (simp_all add: rewrite_inv_def)
    note s0 = str_by_offset_no_zero [OF s]
    have "sec_room dst s" using room w s by (fastforce simp: sec_room_def)
    then have off: "0 \<le> off" using add_str_succeeds [OF grants(1) [rule_format] i s0 _ a] by simp
    have len: "\<forall>x\<in>set dst'. unat (str_len (hdr x)) + name_cost src ws \<le> BTF_MAX_STR_OFFSET"
      using add_str_len [OF a i(1) s0] room w s by fastforce
    have v: "btf_rewrite_str env al src w p =
        (case m of None \<Rightarrow> Some (word_of_int off, (dst', None, n + 1), 0)
         | Some h \<Rightarrow> (case hashmap_insert (al n) h (ucast w) off HASHMAP_APPEND of
             (h, err, _) \<Rightarrow> if err \<noteq> 0 then Some (w, (dst', Some h, n + 1), err)
                           else Some (word_of_int off, (dst', Some h, n + 1), 0)))"
      using w none s a off unfolding btf_rewrite_str_def p by simp
    show ?thesis
    proof (cases m)
      case None
      then have v': "btf_rewrite_str env al src w p = Some (word_of_int off, (dst', None, n + 1), 0)" using v by simp
      from rewrite_step [OF inv [folded p] this] res(2) len show ?thesis
        unfolding v' by (simp add: budget_def)
    next
      case (Some h)
      obtain h' e old where ins: "hashmap_insert (al n) h (ucast w) off HASHMAP_APPEND = (h', e, old)"
        by (cases "hashmap_insert (al n) h (ucast w) off HASHMAP_APPEND") auto
      have k: "keyed identity_hash_fn (=) h" "hashmap_find h (ucast w) = None"
        using inv Some False by (auto simp: rewrite_inv_def str_map_ok_def)
      have e: "e = 0"
        using ints.insert_fails [OF k _ ins] grants(2) sz [OF Some] by fastforce
      with ints.insert_absent [OF k _ ins] have "sz h' = Suc (sz h)" by (auto simp: errno_defs)
      moreover have v': "btf_rewrite_str env al src w p = Some (word_of_int off, (dst', Some h', n + 1), 0)"
        using v Some ins e by simp
      ultimately show ?thesis
        using rewrite_step [OF inv [folded p] v'] res(2) len sz [OF Some] unfolding v' by (simp add: budget_def)
    qed
  qed
qed

section \<open>The traversals\<close>

text \<open>The name offsets in a type.\<close>

definition name_words :: "btf_type \<Rightarrow> u32 list" where
  "name_words t = map ((!) (type_words t)) (str_pos t)"

lemma visit_names_total:
  assumes grants: "\<forall>i j. env_grants (env i j)" "\<forall>i. calloc_ok (al i) \<and> malloc_ok (al i)"
    and s: "btf_type_size (type_hdr_at d p) = Some n" "p + n \<le> length d"
    and q: "budget src b0 (name_words (type_at d p) @ ws) c"
  shows "\<exists>d' c'. btf_type_visit_str_offs d p (btf_rewrite_str env al src) c = Some (d', c', 0) \<and> budget src b0 ws c'"
proof -
  have b: "\<forall>j\<in>set (str_pos (type_hdr_at d p)). 4 * j + 4 \<le> n" using pos_bounds(1) [OF s(1)] by auto
  note ob = offs_of_bounds [OF pos_bounds(2) [OF s(1)] b s(2)]
  have w: "name_words (type_at d p) = map (get32 d) (offs_of p (str_pos (type_hdr_at d p)))"
    unfolding name_words_def words_type_at [OF s(1)] using b by (auto simp: offs_of_def)
  show ?thesis
    unfolding visit_str_offs_pos
    by (rule visit_words_total [where Q = "budget src b0", OF budget_step [OF grants] q [unfolded w] ob(1,2)])
qed

lemma visit_ids_total:
  assumes s: "btf_type_size (type_hdr_at d p) = Some n" "p + n \<le> length d"
  shows "\<exists>d' c'. btf_type_visit_type_ids d p btf_rewrite_type_ids btf = Some (d', c', 0)"
proof -
  have b: "\<forall>j\<in>set (id_pos (type_hdr_at d p)). 4 * j + 4 \<le> n" using pos_bounds(1) [OF s(1)] by auto
  note ob = offs_of_bounds [OF pos_bounds(3) [OF s(1)] b s(2)]
  have "\<exists>w' c'. btf_rewrite_type_ids w c = Some (w', c', 0) \<and> True" for w c
    by (simp add: btf_rewrite_type_ids_def)
  from visit_words_total [where Q = "\<lambda>_ _. True" and visit = btf_rewrite_type_ids, OF this TrueI ob(1,2)]
  show ?thesis unfolding visit_type_ids_pos [OF s(1)] by blast
qed

lemma add_btf_loop_total:
  assumes grants: "\<forall>i j. env_grants (env i j)" "\<forall>i. calloc_ok (al i) \<and> malloc_ok (al i)"
    and "types_from sd endt os q" "\<And>k. q \<le> k \<Longrightarrow> k + 4 \<le> endt \<Longrightarrow> get32 d (L + k) = get32 sd k"
    and "L + endt \<le> length d" "budget src b0 (concat (map (\<lambda>o'. name_words (type_at sd o')) os)) c"
  shows "\<exists>d' offs' c'. add_btf_loop env al src btf (length os) i (L + q) d offs c = Some (d', offs', c', 0) \<and>
    fst c' \<noteq> []"
  using assms(3-)
proof (induction os arbitrary: q i d offs c)
  case (Cons x os)
  obtain n where n: "x = q" "btf_type_size (type_hdr_at sd q) = Some n" "12 \<le> n" "q + n \<le> endt"
    "types_from sd endt os (q + n)" using Cons.prems(1) by (auto simp: types_from_Cons_iff)
  have mv: "btf_type_size (type_hdr_at d (L + q)) = Some n" "type_at d (L + q) = type_at sd q"
    using type_at_moved [of q endt d L sd n] Cons.prems(2) n(2,4) by blast+
  have room: "L + q + n \<le> length d" using n(4) Cons.prems(3) by simp
  have q: "budget src b0 (name_words (type_at d (L + q)) @ concat (map (\<lambda>o'. name_words (type_at sd o')) os)) c"
    using Cons.prems(4) n(1) mv(2) by simp
  obtain d1 c1 where v1: "btf_type_visit_str_offs d (L + q) (btf_rewrite_str env al src) c = Some (d1, c1, 0)"
    and q1: "budget src b0 (concat (map (\<lambda>o'. name_words (type_at sd o')) os)) c1"
    using visit_names_total [OF grants mv(1) room q] by blast
  have inv: "rewrite_inv src b0 c" using q by (simp add: budget_def)
  note r1 = rewrite_names [OF mv(1) room inv v1]
  note cn = copy_names [OF mv(1) room inv v1]
  have room1: "L + q + n \<le> length d1" using room r1(1) by simp
  obtain d2 c2 where v2: "btf_type_visit_type_ids d1 (L + q) btf_rewrite_type_ids btf = Some (d2, c2, 0)"
    using visit_ids_total [OF cn(1) room1] by blast
  note r2 = rewrite_ids [OF cn(1) room1 v2]
  have pre: "length d2 = length d" "drop (L + q + n) d2 = drop (L + q + n) d" using r1(1,5) r2(1,3) by simp_all
  have "get32 d2 (L + k) = get32 sd k" if "q + n \<le> k" "k + 4 \<le> endt" for k
  proof -
    have "get32 d2 (L + k) = get32 d (L + k)"
      by (rule get32_drop_cong [OF pre(2,1)]) (use that pre(1) Cons.prems(3) in simp_all)
    with Cons.prems(2) [of k] that show ?thesis by simp
  qed
  from Cons.IH [OF n(5) this _ q1, of "Suc i" "offs[i := L + q]"] pre(1) Cons.prems(3)
  show ?case using mv(1) v1 v2 by (simp add: Let_def add.assoc)
next
  case Nil
  then show ?case by (cases c) (simp add: budget_def rewrite_inv_def)
qed

section \<open>The whole addition\<close>

text \<open>Room for the types of the source and, in every section, for its names.\<close>

definition merge_room :: "btf list \<Rightarrow> btf \<Rightarrow> bool" where
  "merge_room b src \<longleftrightarrow>
     unat (type_len (hdr (hd b))) + unat (type_len (hdr src)) \<le> UINT_MAX \<and>
     nr_types (hd b) + nr_types src \<le> BTF_MAX_NR_TYPES \<and>
     (\<forall>x\<in>set b. unat (str_len (hdr x)) + name_cost [src] (concat (map name_words (btf_types src))) \<le> BTF_MAX_STR_OFFSET)"

definition merge_granted :: "(nat \<Rightarrow> nat \<Rightarrow> btf_env) \<Rightarrow> (nat \<Rightarrow> alloc) \<Rightarrow> bool \<Rightarrow> bool" where
  "merge_granted env al mok \<longleftrightarrow>
     (\<forall>i j. env_grants (env i j)) \<and> (\<forall>i. calloc_ok (al i) \<and> malloc_ok (al i)) \<and> mok"

lemma name_words_length: "btf_type_size (type_hdr_at d p) = Some n \<Longrightarrow> 4 * length (name_words (type_at d p)) \<le> n"
proof -
  have "4 * length (str_pos t) \<le> n" if "btf_type_size t = Some n" for t
    using that by (cases "btf_kind t") (auto simp: str_pos_def btf_type_size_def Let_def sizeof_btf_type_def)
  then show "btf_type_size (type_hdr_at d p) = Some n \<Longrightarrow> 4 * length (name_words (type_at d p)) \<le> n"
    by (simp add: name_words_def)
qed

lemma names_length:
  "types_from d endt os q \<Longrightarrow> q + 4 * length (concat (map (\<lambda>o'. name_words (type_at d o')) os)) \<le> endt"
proof (induction os arbitrary: q)
  case (Cons x os)
  obtain n where n: "x = q" "btf_type_size (type_hdr_at d q) = Some n" "types_from d endt os (q + n)"
    using Cons.prems by (auto simp: types_from_Cons_iff)
  from Cons.IH [OF n(3)] name_words_length [OF n(2)] n(1) show ?case by simp
qed (simp add: types_from_le)

lemma add_btf_copy_total:
  assumes grants: "\<forall>i j. env_grants (env i j)" "\<forall>i. calloc_ok (al i) \<and> malloc_ok (al i)"
    and w: "btf_wf (btf # base)" and src: "btf_chain [src]" and md: "modifiable btf"
    and names: "\<forall>t\<in>set (btf_types src). names_resolve [src] t" and mr: "merge_room (btf # base) src"
    and room: "unat (type_len (hdr btf)) + unat (type_len (hdr src)) \<le> length (types_data btf)"
  shows "\<exists>b' r. add_btf_copy env al src btf base (nr_types src) (str_len (hdr btf)) = Some (b', r) \<and> 0 \<le> r"
proof -
  have c: "btf_chain (btf # base)" "strs_chain (btf # base)" using w by (simp_all add: btf_wf_def)
  let ?sz = "unat (type_len (hdr src))" and ?cnt = "nr_types src"
  define L where "L = unat (type_len (hdr btf))"
  define d where "d = put (types_data btf) L (take ?sz (types_data src))"
  have srcok: "?sz \<le> length (types_data src)" "?cnt \<le> length (type_offs src)"
    "types_from (types_data src) ?sz (take ?cnt (type_offs src)) 0"
    using src by (simp_all add: btf_ok_def)
  have ld: "length d = length (types_data btf)" using room srcok(1) by (simp add: d_def L_def)
  have words: "get32 d (L + k) = get32 (types_data src) k" if "0 \<le> k" "k + 4 \<le> ?sz" for k
  proof -
    have "get32 d (L + k) = get32 (take ?sz (types_data src)) k"
      unfolding d_def by (rule get32_put_inside) (use that srcok(1) room in \<open>simp_all add: L_def\<close>)
    also have "\<dots> = get32 (types_data src) k" by (rule get32_cong [OF _ that(2)]) simp
    finally show ?thesis .
  qed
  have okb: "btf_ok btf" using c by simp
  let ?b = "btf\<lparr>types_data := d\<rparr>"
  have sb: "same_table btf ?b"
    by (rule same_tableI [OF okb]) (use room ld okb in \<open>simp_all add: d_def L_def btf_ok_def\<close>)
  have "str_map_ok [src] (?b # base) (Some (hashmap_init identity_hash_fn (=)))"
    by (simp add: str_map_ok_def hashmap_init_keyed ints.init_find)
  note st = rewrite_inv_start [OF w md sb _ _ _ _ _ this, simplified]
  define os where "os = take ?cnt (type_offs src)"
  have los: "length os = ?cnt" using srcok(2) by (simp add: os_def)
  have os: "types_from (types_data src) ?sz os 0" using srcok(3) by (simp add: os_def)
  have types: "map name_words (btf_types src) = map (\<lambda>o'. name_words (type_at (types_data src) o')) os"
    by (simp add: btf_types_def os_def)
  let ?ws = "concat (map name_words (btf_types src))"
  have res: "w = 0 \<or> btf__str_by_offset [src] (unat w) \<noteq> None" if "w \<in> set ?ws" for w
  proof -
    from that obtain t where t: "t \<in> set (btf_types src)" "w \<in> set (name_words t)" by auto
    then obtain j where "j \<in> set (str_pos t)" "w = type_words t ! j"
      unfolding name_words_def by auto
    note this t(1)
    with names show ?thesis unfolding names_resolve_def by blast
  qed
  have "4 * length ?ws \<le> ?sz" using names_length [OF os] by (simp add: types)
  then have "length ?ws < 2 ^ 59" using unsigned_less [of "type_len (hdr src)", where ?'a = nat] by simp
  then have q: "budget [src] (?b # base) ?ws (?b # base, Some (hashmap_init identity_hash_fn (=)), 1)"
    using st(1) res mr by (auto simp: budget_def merge_room_def hashmap_init_def)
  have "L + ?sz \<le> length d" using room ld by (simp add: L_def)
  from add_btf_loop_total [OF grants os words this q [unfolded types]]
  obtain d' offs' b1 m1 n1 where loop: "add_btf_loop env al [src] btf ?cnt (nr_types btf) L d (type_offs btf)
      (?b # base, Some (hashmap_init identity_hash_fn (=)), 1) = Some (d', offs', (b1, m1, n1), 0)" "b1 \<noteq> []"
    unfolding los add_0_right by (metis fst_conv prod.exhaust)
  then show ?thesis
    unfolding add_btf_copy_def Let_def L_def [symmetric] d_def [symmetric] by (simp split: list.split)
qed

lemma add_btf_total:
  assumes grants: "\<forall>i j. env_grants (env i j)" "\<forall>i. calloc_ok (al i) \<and> malloc_ok (al i)"
    and w: "btf_wf (btf # base)" and src: "btf_chain [src]"
    and names: "\<forall>t\<in>set (btf_types src). names_resolve [src] t" and mr: "merge_room (btf # base) src"
  shows "\<exists>b' r. btf__add_btf env al True (btf # base) [src] = Some (b', r) \<and> 0 \<le> r"
proof -
  have c: "btf_chain (btf # base)" "strs_chain (btf # base)" using w by (simp_all add: btf_wf_def)
  let ?sz = "unat (type_len (hdr src))" and ?cnt = "btf__type_cnt [src] - 1"
  have cnt: "?cnt = nr_types src" using src by (simp add: btf__type_cnt_def)
  have g0: "env_grants (env 0 0)" using grants(1) by blast
  obtain btf1 e where m: "btf_ensure_modifiable (env 0 0) (base \<noteq> []) btf = (btf1, e)" by fastforce
  have e: "e = 0" using ensure_modifiable_succeeds [OF g0, of btf "base \<noteq> []"] m c by simp
  have s1: "same_table btf btf1" "same_sec btf btf1"
    using ensure_modifiable_table [OF m] ensure_modifiable_strs(1) [OF m] c by simp_all
  obtain btf2 where m2: "btf_add_type_mem (env 0 0) btf1 ?sz = Some btf2"
    using g0 mr s1(1)
    by (cases "btf_add_type_mem (env 0 0) btf1 ?sz")
      (auto simp: btf_add_type_mem_def libbpf_add_mem_None env_grants_def merge_room_def same_table_def split: option.splits)
  note s2 = add_type_mem_table [OF m2 same_table_ok [OF s1(1)]]
  have f2: "modifiable btf2 = modifiable btf1" "strs_set btf2 = strs_set btf1" "btf_strs_data btf2 = btf_strs_data btf1"
    "start_str_off btf2 = start_str_off btf1" "str_len (hdr btf2) = str_len (hdr btf1)"
    using m2 by (auto simp: btf_add_type_mem_def split: option.splits)
  have t2: "same_table btf btf2" by (rule same_table_trans [OF s1(1) s2(1)])
  have "strs_ok btf1" using s1(2) by (simp add: same_sec_def)
  then have ss: "same_sec btf btf2" using same_sec_fields [OF _ f2] same_sec_trans [OF s1(2)] by blast
  have md: "modifiable btf2" using ensure_modifiable_strs(2) [OF m] c e f2(1) by simp
  have w2: "btf_wf (btf2 # base)"
    using t2 c same_sec_grow [OF ss c(2)] by (simp add: btf_wf_def same_table_def strs_grow_def)
  obtain offs where o: "btf_add_type_offs_mem (offs_ok (env 0 0)) (type_offs btf2) (nr_types btf2) ?cnt = Some offs"
    using g0 mr t2 cnt
    by (cases "btf_add_type_offs_mem (offs_ok (env 0 0)) (type_offs btf2) (nr_types btf2) ?cnt")
      (auto simp: btf_add_type_offs_mem_def libbpf_add_mem_None env_grants_def merge_room_def same_table_def)
  note ir = index_room [OF w2 o]
  let ?b = "btf2\<lparr>type_offs := offs\<rparr>"
  have "merge_room (?b # base) src" using mr t2 ss by (simp add: merge_room_def same_table_def same_sec_def)
  moreover have "unat (type_len (hdr ?b)) + ?sz \<le> length (types_data ?b)"
    using s2 t2 by (simp add: same_table_def)
  ultimately obtain b' r where "add_btf_copy env al src ?b base (nr_types src) (str_len (hdr ?b)) = Some (b', r)" "0 \<le> r"
    using add_btf_copy_total [OF grants ir(1) src _ names] md by auto
  then show ?thesis
    unfolding btf__add_btf_def Let_def cnt by (simp add: m e m2 o [unfolded cnt] f2)
qed

end
