(* ===== verification/Btf_Merge_Props.thy ===== *)
theory Btf_Merge_Props
  imports Btf_Props Btf_Merge_Room
begin

text \<open>
  Properties of copying types between BTF objects. The example source is the object of \<open>Btf_Props\<close>, whose
  two types have the name \<open>int\<close>.
\<close>

lemma ex_names:
  assumes "types_data btf = ex_types" "nr_types btf = 2" "take 2 (type_offs btf) = [0, 16]"
    "start_str_off btf = 0" "strs_ok btf" "modifiable btf = False" "btf_strs_data btf = [0, 105, 110, 116, 0]"
    "str_len (hdr btf) = 5"
  shows "btf_types btf = [ex_int, ex_typedef]" "btf__str_by_offset [btf] 1 = Some [105, 110, 116]"
    "names_resolve [btf] ex_int" "names_resolve [btf] ex_typedef"
proof -
  show "btf_types btf = [ex_int, ex_typedef]" using assms(1-3) by (simp add: btf_types_def ex_hdrs)
  show n: "btf__str_by_offset [btf] 1 = Some [105, 110, 116]"
    using assms by (simp add: btf_strs_def c_str_def)
  show "names_resolve [btf] ex_int" "names_resolve [btf] ex_typedef"
    using n by (simp_all add: names_resolve_def str_pos_def ex_kinds type_words_def del: btf__str_by_offset.simps)
      (simp_all add: ex_int_def ex_typedef_def del: btf__str_by_offset.simps)
qed

lemma ex_source: "\<exists>btf. btf_new True True (\<lambda>_. True) ex_raw [] = Inr [btf] \<and> btf_chain [btf] \<and> btf_wf [btf] \<and>
    start_id btf = 1 \<and> nr_types btf = 2 \<and> btf_types btf = [ex_int, ex_typedef] \<and>
    names_resolve [btf] ex_int \<and> names_resolve [btf] ex_typedef \<and>
    hdr btf = ex_hdr \<and> btf__str_by_offset [btf] 1 = Some [105, 110, 116]"
proof -
  obtain btf where n: "btf_new True True (\<lambda>_. True) ex_raw [] = Inr [btf]" and c: "btf_chain [btf]"
    and f: "hdr btf = ex_hdr" "types_data btf = ex_types" "nr_types btf = 2" "take 2 (type_offs btf) = [0, 16]"
      "start_id btf = 1" "btf_strs btf = [0, 105, 110, 116, 0]"
    using ex_new by blast
  have m: "modifiable btf = False" "start_str_off btf = 0"
    using n by (auto simp: btf_new_def Let_def btf_calloc_def split: sum.splits if_splits prod.splits)
  have s: "strs_chain [btf]" using btf_new_strs [OF n] by simp
  note x = ex_names [OF f(2-4) m(2) _ m(1)]
  from n c s f m x show ?thesis by (auto simp: btf_wf_def btf_strs_def ex_hdr_def)
qed

text \<open>C37: \<open>btf__add_type\<close> of a well-formed type whose names are strings of the source returns. It fails and
  leaves the types as they were, or appends a copy of the type under the returned identifier, in which
  every name is an offset of the same string in the destination and everything else is the same. The
  destination stays well-formed and no string of it moves.\<close>

theorem btf_add_type_copies:
  assumes "btf_wf (btf # base)" "type_ok t" "names_resolve src t"
  shows "\<exists>b' r. btf__add_type env (btf # base) src t = Some (b', r) \<and> btf_wf b' \<and> keeps_strs (btf # base) b' \<and>
    (r < 0 \<and> btf_view b' = btf_view (btf # base) \<or>
     r = int (btf__type_cnt (btf # base)) \<and>
       (\<exists>t'. copied src b' (\<lambda>w. w) t t' \<and> btf_view b' = (start_id btf, btf_types btf @ [t']) # btf_view base))"
proof -
  obtain b' r where "btf__add_type env (btf # base) src t = Some (b', r)"
    using add_type_defined [OF assms(2,3), of env btf base] by (metis option.exhaust surj_pair)
  with add_type_refines [OF assms(1,2) this] show ?thesis by blast
qed

theorem btf_add_type_copies_witness:
  "\<exists>b. btf_new True True (\<lambda>_. True) ex_raw [] = Inr b \<and>
     (\<forall>env. \<exists>b' r. btf__add_type env b b ex_typedef = Some (b', r) \<and>
        (r < 0 \<or> r = 3 \<and> (\<exists>t'. copied b b' (\<lambda>w. w) ex_typedef t' \<and>
           btf_view b' = [(1, [ex_int, ex_typedef, t'])])))"
proof -
  obtain btf where n: "btf_new True True (\<lambda>_. True) ex_raw [] = Inr [btf]" and w: "btf_wf [btf]"
    and f: "start_id btf = 1" "nr_types btf = 2" "btf_types btf = [ex_int, ex_typedef]" and r: "names_resolve [btf] ex_typedef"
    using ex_source by blast
  have ok: "type_ok ex_typedef" by (simp add: type_ok_def ex_kinds) (simp add: ex_typedef_def)
  have "\<exists>b' r. btf__add_type env [btf] [btf] ex_typedef = Some (b', r) \<and>
        (r < 0 \<or> r = 3 \<and> (\<exists>t'. copied [btf] b' (\<lambda>w. w) ex_typedef t' \<and>
           btf_view b' = [(1, [ex_int, ex_typedef, t'])]))" for env
    using btf_add_type_copies [OF w ok r, of env] by (fastforce simp: f btf__type_cnt_def btf_view_def)
  with n show ?thesis by blast
qed

text \<open>C38: \<open>btf__add_btf\<close> of a source whose names are strings of the source, into an object with whole headers.
  While every allocation is granted and there is room for the types and the names of the source, it
  succeeds. Success appends copies of all the types of the source, in order, under the returned
  identifier: in the copies every identifier but 0 is moved by the number of types before them, every
  name is an offset of the same string in the destination and everything else is the same; the
  destination stays well-formed and no string of it moves. A failure without these resources leaves the
  types as they were when no string has been added before it; after one the clean-up of the code writes
  through a null pointer and the model has no result, the one case this statement leaves open.\<close>

theorem btf_add_btf_merges:
  assumes "btf_wf (btf # base)" "btf_chain [src]" "\<forall>t\<in>set (btf_types src). names_resolve [src] t"
    and "\<forall>x\<in>set (btf # base). 24 \<le> hdr_len (hdr x)"
  shows "case btf__add_btf env al mok (btf # base) [src] of
     None \<Rightarrow> \<not> (merge_granted env al mok \<and> merge_room (btf # base) src)
   | Some (b', r) \<Rightarrow> btf_wf b' \<and> keeps_strs (btf # base) b' \<and>
       (if r < 0 then \<not> (merge_granted env al mok \<and> merge_room (btf # base) src) \<and> btf_view b' = btf_view (btf # base)
        else r = int (btf__type_cnt (btf # base)) \<and>
          (\<exists>ts. list_all2 (copied [src] b' (shift_id btf)) (btf_types src) ts \<and>
            btf_view b' = (start_id btf, btf_types btf @ ts) # btf_view base))"
proof -
  have total: "\<exists>b' r. btf__add_btf env al mok (btf # base) [src] = Some (b', r) \<and> 0 \<le> r"
    if "merge_granted env al mok \<and> merge_room (btf # base) src"
    using add_btf_total [OF _ _ assms(1-3)] that by (simp add: merge_granted_def)
  show ?thesis
  proof (cases "btf__add_btf env al mok (btf # base) [src]")
    case None
    with total show ?thesis by auto
  next
    case (Some p)
    obtain b' r where p: "p = (b', r)" by (cases p)
    have "\<not> (merge_granted env al mok \<and> merge_room (btf # base) src)" if "r < 0"
      using total Some p that by auto
    with add_btf_refines [OF assms(1,2) Some [unfolded p]] Some p show ?thesis by (cases "r < 0") auto
  qed
qed

theorem btf_add_btf_merges_witness:
  "\<exists>b b' t t'. btf_new True True (\<lambda>_. True) ex_raw [] = Inr b \<and>
     btf__add_btf (\<lambda>_ _. grant_env) (\<lambda>_. alloc_all) True b b = Some (b', 3) \<and> btf_wf b' \<and>
     copied b b' (\<lambda>w. if w = 0 then 0 else w + 2) ex_int t \<and>
     copied b b' (\<lambda>w. if w = 0 then 0 else w + 2) ex_typedef t' \<and>
     btf_view b' = [(1, [ex_int, ex_typedef, t, t'])]"
proof -
  obtain btf where n: "btf_new True True (\<lambda>_. True) ex_raw [] = Inr [btf]" and w: "btf_wf [btf]" and c: "btf_chain [btf]"
    and f: "start_id btf = 1" "nr_types btf = 2" "btf_types btf = [ex_int, ex_typedef]" "hdr btf = ex_hdr"
    and r: "names_resolve [btf] ex_int" "names_resolve [btf] ex_typedef" and s: "btf__str_by_offset [btf] 1 = Some [105, 110, 116]"
    using ex_source by blast
  have whole: "\<forall>x\<in>set [btf]. 24 \<le> hdr_len (hdr x)" by (simp add: f ex_hdr_def)
  have g: "merge_granted (\<lambda>_ _. grant_env) (\<lambda>_. alloc_all) True"
    by (simp add: merge_granted_def env_grants_def grant_env_def alloc_all_def)
  have "name_words ex_int = [1]" "name_words ex_typedef = [1]"
    by (simp_all add: name_words_def str_pos_def ex_kinds type_words_def) (simp_all add: ex_int_def ex_typedef_def)
  then have room: "merge_room [btf] btf"
    by (simp add: merge_room_def f ex_hdr_def s [unfolded One_nat_def] UINT_MAX_def BTF_MAX_NR_TYPES_def BTF_MAX_STR_OFFSET_def
        del: btf__str_by_offset.simps)
  have shift: "shift_id btf = (\<lambda>w. if w = 0 then 0 else w + 2)" by (simp add: shift_id_def f fun_eq_iff)
  have names: "\<forall>t\<in>set (btf_types btf). names_resolve [btf] t" using r by (simp add: f)
  note m = btf_add_btf_merges [OF w c names whole, of "\<lambda>_ _. grant_env" "\<lambda>_. alloc_all" True]
  obtain b' x where x: "btf__add_btf (\<lambda>_ _. grant_env) (\<lambda>_. alloc_all) True [btf] [btf] = Some (b', x)"
    "btf_wf b'" "\<not> x < 0" using m g room by (cases "btf__add_btf (\<lambda>_ _. grant_env) (\<lambda>_. alloc_all) True [btf] [btf]")
      (auto split: if_splits simp del: btf__str_by_offset.simps)
  have "x = 3" "\<exists>ts. list_all2 (copied [btf] b' (shift_id btf)) [ex_int, ex_typedef] ts \<and>
      btf_view b' = [(1, [ex_int, ex_typedef] @ ts)]"
    using m x(3) by (simp_all add: x(1) f(1-3) btf__type_cnt_def btf_view_def)
  with n x(1,2) show ?thesis unfolding shift by (auto simp: list_all2_Cons1)
qed

end
