(* ===== verification/Relo_Types.thy ===== *)
theory Relo_Types
  imports Btf_Resolve Btf_Strings
begin

text \<open>
  CO-RE relocations, first part: the comparison of a type of the program's BTF with a type of the
  kernel's, \<open>bpf_core_types_are_compat\<close> and \<open>bpf_core_types_match\<close> of \<open>src/libbpf/src/relo_core.c\<close>, and the
  helpers of \<open>src/libbpf/src/libbpf.c\<close> they use.

  The result \<open>None\<close> is a crash or an endless loop. \<open>btf_type_by_id\<close> does not check the identifier it is
  given, so an identifier above the count is a read out of bounds, which \<open>btf__type_by_id\<close> being
  \<open>None\<close> stands for.
\<close>

section \<open>Following references\<close>

text \<open>
  \<open>skip_mods_and_typedefs\<close>, with the identifier of the type it ends at. It dereferences the null pointer
  \<open>btf__type_by_id\<close> returns for an identifier above the count, and does not return on a cycle; its
  callers' checks of the result for null never fire.
\<close>

partial_function (option) skip_mods_and_typedefs :: "btf list \<Rightarrow> nat \<Rightarrow> (btf_type \<times> nat) option" where
  "skip_mods_and_typedefs b type_id =
     (case btf__type_by_id b type_id of
        None \<Rightarrow> None
      | Some t \<Rightarrow>
          if btf_is_mod t \<or> btf_is_typedef t then skip_mods_and_typedefs b (unat (size_type t))
          else Some (t, type_id))"

declare skip_mods_and_typedefs.simps [code]

section \<open>Names\<close>

definition str_is_empty :: "u8 list option \<Rightarrow> bool" where
  "str_is_empty s \<longleftrightarrow> s = None \<or> s = Some []"

text \<open>The byte \<open>_\<close> is 95. The pattern at \<open>name + i\<close>, five bytes of which lie in the name.\<close>

definition bpf_core_is_flavor_sep :: "u8 list \<Rightarrow> nat \<Rightarrow> bool" where
  "bpf_core_is_flavor_sep name i \<longleftrightarrow>
     name ! i \<noteq> 95 \<and> name ! (i + 1) = 95 \<and> name ! (i + 2) = 95 \<and> name ! (i + 3) = 95 \<and> name ! (i + 4) \<noteq> 95"

fun essential_scan :: "u8 list \<Rightarrow> nat \<Rightarrow> nat" where
  "essential_scan name 0 = length name"
| "essential_scan name (Suc i) = (if bpf_core_is_flavor_sep name i then i + 1 else essential_scan name i)"

definition bpf_core_essential_name_len :: "u8 list \<Rightarrow> nat" where
  "bpf_core_essential_name_len name = essential_scan name (length name - 4)"

text \<open>\<open>strncmp(a, b, n) == 0\<close>\<close>

definition strncmp_eq :: "u8 list \<Rightarrow> u8 list \<Rightarrow> nat \<Rightarrow> bool" where
  "strncmp_eq a b n \<longleftrightarrow> take n a = take n b"

definition bpf_core_names_match :: "btf list \<Rightarrow> nat \<Rightarrow> btf list \<Rightarrow> nat \<Rightarrow> bool option" where
  "bpf_core_names_match local_btf local_name_off targ_btf targ_name_off =
     (let local_n = btf__name_by_offset local_btf local_name_off;
          targ_n = btf__name_by_offset targ_btf targ_name_off in
      if str_is_empty targ_n then Some (str_is_empty local_n)
      else case (local_n, targ_n) of
        (Some local_n, Some targ_n) \<Rightarrow>
          let targ_len = bpf_core_essential_name_len targ_n; local_len = bpf_core_essential_name_len local_n in
          Some (targ_len = local_len \<and> strncmp_eq local_n targ_n local_len)
      | _ \<Rightarrow> None)"

section \<open>Compatible types\<close>

text \<open>
  The loop over the parameters of two prototypes. \<open>rec\<close> is the comparison one level down, \<open>None\<close> when no
  level is left.
\<close>

fun compat_params ::
  "(nat \<Rightarrow> nat \<Rightarrow> int option) option \<Rightarrow> btf list \<Rightarrow> btf_type \<Rightarrow> btf list \<Rightarrow> btf_type \<Rightarrow> nat list \<Rightarrow> int option" where
  "compat_params rec local_btf local_type targ_btf targ_type [] = Some 1"
| "compat_params rec local_btf local_type targ_btf targ_type (i # is) =
     (case rec of
        None \<Rightarrow> Some (- EINVAL)
      | Some f \<Rightarrow> do {
          (_, local_id) \<leftarrow> skip_mods_and_typedefs local_btf (unat (p_type (btf_params local_type i)));
          (_, targ_id) \<leftarrow> skip_mods_and_typedefs targ_btf (unat (p_type (btf_params targ_type i)));
          err \<leftarrow> f local_id targ_id;
          if err \<le> 0 then Some err
          else compat_params rec local_btf local_type targ_btf targ_type is
        })"

text \<open>From the label \<open>recur\<close>; the counter is \<open>depth\<close>.\<close>

fun compat_recur ::
  "(nat \<Rightarrow> nat \<Rightarrow> int option) option \<Rightarrow> nat \<Rightarrow> btf list \<Rightarrow> nat \<Rightarrow> btf list \<Rightarrow> nat \<Rightarrow> int option" where
  "compat_recur rec 0 local_btf local_id targ_btf targ_id = Some (- EINVAL)"
| "compat_recur rec (Suc depth) local_btf local_id targ_btf targ_id = do {
     (local_type, local_id) \<leftarrow> skip_mods_and_typedefs local_btf local_id;
     (targ_type, targ_id) \<leftarrow> skip_mods_and_typedefs targ_btf targ_id;
     if \<not> btf_kind_core_compat local_type targ_type then Some 0
     else case btf_kind local_type of
       BTF_KIND_UNKN \<Rightarrow> Some 1
     | BTF_KIND_STRUCT \<Rightarrow> Some 1
     | BTF_KIND_UNION \<Rightarrow> Some 1
     | BTF_KIND_ENUM \<Rightarrow> Some 1
     | BTF_KIND_FWD \<Rightarrow> Some 1
     | BTF_KIND_ENUM64 \<Rightarrow> Some 1
     | BTF_KIND_INT \<Rightarrow> Some (of_bool (btf_int_offset local_type = 0 \<and> btf_int_offset targ_type = 0))
     | BTF_KIND_PTR \<Rightarrow>
         compat_recur rec depth local_btf (unat (size_type local_type)) targ_btf (unat (size_type targ_type))
     | BTF_KIND_ARRAY \<Rightarrow>
         compat_recur rec depth local_btf (unat (a_type (btf_array local_type)))
           targ_btf (unat (a_type (btf_array targ_type)))
     | BTF_KIND_FUNC_PROTO \<Rightarrow>
         (let local_vlen = btf_vlen local_type; targ_vlen = btf_vlen targ_type in
          if local_vlen \<noteq> targ_vlen then Some 0
          else do {
            err \<leftarrow> compat_params rec local_btf local_type targ_btf targ_type [0..<local_vlen];
            if err \<le> 0 then Some err
            else do {
              (_, local_id) \<leftarrow> skip_mods_and_typedefs local_btf (unat (size_type local_type));
              (_, targ_id) \<leftarrow> skip_mods_and_typedefs targ_btf (unat (size_type targ_type));
              compat_recur rec depth local_btf local_id targ_btf targ_id
            }
          })
     | _ \<Rightarrow> Some 0
   }"

definition MAX_CORE_DEPTH :: nat where "MAX_CORE_DEPTH = 32"

definition compat_entry ::
  "(nat \<Rightarrow> nat \<Rightarrow> int option) option \<Rightarrow> btf list \<Rightarrow> nat \<Rightarrow> btf list \<Rightarrow> nat \<Rightarrow> int option" where
  "compat_entry rec local_btf local_id targ_btf targ_id = do {
     local_type \<leftarrow> btf__type_by_id local_btf local_id;
     targ_type \<leftarrow> btf__type_by_id targ_btf targ_id;
     if \<not> btf_kind_core_compat local_type targ_type then Some 0
     else compat_recur rec MAX_CORE_DEPTH local_btf local_id targ_btf targ_id
   }"

text \<open>\<open>__bpf_core_types_are_compat\<close>\<close>

fun core_types_are_compat :: "nat \<Rightarrow> btf list \<Rightarrow> nat \<Rightarrow> btf list \<Rightarrow> nat \<Rightarrow> int option" where
  "core_types_are_compat 0 local_btf local_id targ_btf targ_id =
     compat_entry None local_btf local_id targ_btf targ_id"
| "core_types_are_compat (Suc level) local_btf local_id targ_btf targ_id =
     compat_entry (Some (\<lambda>l t. core_types_are_compat level local_btf l targ_btf t)) local_btf local_id targ_btf targ_id"

definition bpf_core_types_are_compat :: "btf list \<Rightarrow> nat \<Rightarrow> btf list \<Rightarrow> nat \<Rightarrow> int option" where
  "bpf_core_types_are_compat = core_types_are_compat 32"

section \<open>Matching types\<close>

definition enum_name_off :: "btf_type \<Rightarrow> nat \<Rightarrow> nat" where
  "enum_name_off t i = unat (if btf_is_enum t then e_name_off (btf_enum t i) else e64_name_off (btf_enum64 t i))"

fun enum_find :: "btf list \<Rightarrow> nat \<Rightarrow> btf list \<Rightarrow> btf_type \<Rightarrow> nat list \<Rightarrow> bool option" where
  "enum_find local_btf local_n_off targ_btf targ_t [] = Some False"
| "enum_find local_btf local_n_off targ_btf targ_t (j # js) = do {
     m \<leftarrow> bpf_core_names_match local_btf local_n_off targ_btf (enum_name_off targ_t j);
     if m then Some True else enum_find local_btf local_n_off targ_btf targ_t js
   }"

fun enum_all :: "btf list \<Rightarrow> btf_type \<Rightarrow> btf list \<Rightarrow> btf_type \<Rightarrow> nat list \<Rightarrow> int option" where
  "enum_all local_btf local_t targ_btf targ_t [] = Some 1"
| "enum_all local_btf local_t targ_btf targ_t (i # is) = do {
     matched \<leftarrow> enum_find local_btf (enum_name_off local_t i) targ_btf targ_t [0..<btf_vlen targ_t];
     if \<not> matched then Some 0 else enum_all local_btf local_t targ_btf targ_t is
   }"

definition bpf_core_enums_match :: "btf list \<Rightarrow> btf_type \<Rightarrow> btf list \<Rightarrow> btf_type \<Rightarrow> int option" where
  "bpf_core_enums_match local_btf local_t targ_btf targ_t =
     (let local_vlen = btf_vlen local_t; targ_vlen = btf_vlen targ_t in
      if size_type local_t \<noteq> size_type targ_t then Some 0
      else if local_vlen > targ_vlen then Some 0
      else enum_all local_btf local_t targ_btf targ_t [0..<local_vlen])"

text \<open>The inner loop of \<open>bpf_core_composites_match\<close>: an error, 1 when a member of the target matches or 0.\<close>

fun member_find ::
  "(nat \<Rightarrow> nat \<Rightarrow> int option) \<Rightarrow> btf list \<Rightarrow> btf_member \<Rightarrow> btf list \<Rightarrow> btf_type \<Rightarrow> nat list \<Rightarrow> int option" where
  "member_find rec local_btf local_m targ_btf targ_t [] = Some 0"
| "member_find rec local_btf local_m targ_btf targ_t (j # js) = do {
     m \<leftarrow> bpf_core_names_match local_btf (unat (m_name_off local_m)) targ_btf (unat (m_name_off (btf_members targ_t j)));
     if \<not> m then member_find rec local_btf local_m targ_btf targ_t js
     else do {
       err \<leftarrow> rec (unat (m_type local_m)) (unat (m_type (btf_members targ_t j)));
       if err < 0 then Some err
       else if err > 0 then Some 1
       else member_find rec local_btf local_m targ_btf targ_t js
     }
   }"

fun composites_all ::
  "(nat \<Rightarrow> nat \<Rightarrow> int option) \<Rightarrow> btf list \<Rightarrow> btf_type \<Rightarrow> btf list \<Rightarrow> btf_type \<Rightarrow> nat list \<Rightarrow> int option" where
  "composites_all rec local_btf local_t targ_btf targ_t [] = Some 1"
| "composites_all rec local_btf local_t targ_btf targ_t (i # is) = do {
     r \<leftarrow> member_find rec local_btf (btf_members local_t i) targ_btf targ_t [0..<btf_vlen targ_t];
     if r < 0 then Some r
     else if r = 0 then Some 0
     else composites_all rec local_btf local_t targ_btf targ_t is
   }"

definition bpf_core_composites_match ::
  "(nat \<Rightarrow> nat \<Rightarrow> int option) \<Rightarrow> btf list \<Rightarrow> btf_type \<Rightarrow> btf list \<Rightarrow> btf_type \<Rightarrow> int option" where
  "bpf_core_composites_match rec local_btf local_t targ_btf targ_t =
     (let local_vlen = btf_vlen local_t; targ_vlen = btf_vlen targ_t in
      if local_vlen > targ_vlen then Some 0
      else composites_all rec local_btf local_t targ_btf targ_t [0..<local_vlen])"

fun match_params ::
  "(nat \<Rightarrow> nat \<Rightarrow> int option) \<Rightarrow> btf_type \<Rightarrow> btf_type \<Rightarrow> nat list \<Rightarrow> int option" where
  "match_params rec local_t targ_t [] = Some 1"
| "match_params rec local_t targ_t (i # is) = do {
     err \<leftarrow> rec (unat (p_type (btf_params local_t i))) (unat (p_type (btf_params targ_t i)));
     if err \<le> 0 then Some err else match_params rec local_t targ_t is
   }"

text \<open>From the label \<open>recur\<close>; \<open>rec behind_ptr\<close> is the comparison one level down.\<close>

fun match_recur ::
  "(bool \<Rightarrow> nat \<Rightarrow> nat \<Rightarrow> int option) \<Rightarrow> nat \<Rightarrow> btf list \<Rightarrow> nat \<Rightarrow> btf list \<Rightarrow> nat \<Rightarrow> bool \<Rightarrow> int option" where
  "match_recur rec 0 local_btf local_id targ_btf targ_id behind_ptr = Some (- EINVAL)"
| "match_recur rec (Suc depth) local_btf local_id targ_btf targ_id behind_ptr = do {
     (local_t, local_id) \<leftarrow> skip_mods_and_typedefs local_btf local_id;
     (targ_t, targ_id) \<leftarrow> skip_mods_and_typedefs targ_btf targ_id;
     m \<leftarrow> bpf_core_names_match local_btf (unat (name_off local_t)) targ_btf (unat (name_off targ_t));
     if \<not> m then Some 0
     else
       let local_k = btf_kind local_t; targ_k = btf_kind targ_t in
       case local_k of
         BTF_KIND_UNKN \<Rightarrow> Some (of_bool (local_k = targ_k))
       | BTF_KIND_FWD \<Rightarrow>
           let local_f = btf_kflag local_t in
           if behind_ptr then
             if local_k = targ_k then Some (of_bool (local_f = btf_kflag targ_t))
             else Some (of_bool (targ_k = BTF_KIND_STRUCT \<and> \<not> local_f \<or> targ_k = BTF_KIND_UNION \<and> local_f))
           else if local_k \<noteq> targ_k then Some 0
           else Some (of_bool (local_f = btf_kflag targ_t))
       | BTF_KIND_ENUM \<Rightarrow>
           if \<not> btf_is_any_enum targ_t then Some 0 else bpf_core_enums_match local_btf local_t targ_btf targ_t
       | BTF_KIND_ENUM64 \<Rightarrow>
           if \<not> btf_is_any_enum targ_t then Some 0 else bpf_core_enums_match local_btf local_t targ_btf targ_t
       | BTF_KIND_STRUCT \<Rightarrow>
           if behind_ptr then
             if local_k = targ_k then Some 1
             else if targ_k \<noteq> BTF_KIND_FWD then Some 0
             else Some (of_bool ((local_k = BTF_KIND_UNION) = btf_kflag targ_t))
           else if local_k \<noteq> targ_k then Some 0
           else bpf_core_composites_match (rec behind_ptr) local_btf local_t targ_btf targ_t
       | BTF_KIND_UNION \<Rightarrow>
           if behind_ptr then
             if local_k = targ_k then Some 1
             else if targ_k \<noteq> BTF_KIND_FWD then Some 0
             else Some (of_bool ((local_k = BTF_KIND_UNION) = btf_kflag targ_t))
           else if local_k \<noteq> targ_k then Some 0
           else bpf_core_composites_match (rec behind_ptr) local_btf local_t targ_btf targ_t
       | BTF_KIND_INT \<Rightarrow>
           if local_k \<noteq> targ_k then Some 0
           else
             let local_sgn = btf_int_encoding local_t AND ucast BTF_INT_SIGNED;
                 targ_sgn = btf_int_encoding targ_t AND ucast BTF_INT_SIGNED in
             Some (of_bool (size_type local_t = size_type targ_t \<and> local_sgn = targ_sgn))
       | BTF_KIND_PTR \<Rightarrow>
           if local_k \<noteq> targ_k then Some 0
           else match_recur rec depth local_btf (unat (size_type local_t)) targ_btf (unat (size_type targ_t)) True
       | BTF_KIND_ARRAY \<Rightarrow>
           let local_array = btf_array local_t; targ_array = btf_array targ_t in
           if local_k \<noteq> targ_k then Some 0
           else if a_nelems local_array \<noteq> a_nelems targ_array then Some 0
           else match_recur rec depth local_btf (unat (a_type local_array)) targ_btf (unat (a_type targ_array)) behind_ptr
       | BTF_KIND_FUNC_PROTO \<Rightarrow>
           let local_vlen = btf_vlen local_t; targ_vlen = btf_vlen targ_t in
           if local_k \<noteq> targ_k then Some 0
           else if local_vlen \<noteq> targ_vlen then Some 0
           else do {
             err \<leftarrow> match_params (rec behind_ptr) local_t targ_t [0..<local_vlen];
             if err \<le> 0 then Some err
             else match_recur rec depth local_btf (unat (size_type local_t)) targ_btf (unat (size_type targ_t)) behind_ptr
           }
       | _ \<Rightarrow> Some 0
   }"

text \<open>\<open>__bpf_core_types_match\<close>\<close>

fun core_types_match :: "nat \<Rightarrow> btf list \<Rightarrow> nat \<Rightarrow> btf list \<Rightarrow> nat \<Rightarrow> bool \<Rightarrow> int option" where
  "core_types_match 0 local_btf local_id targ_btf targ_id behind_ptr = Some (- EINVAL)"
| "core_types_match (Suc level) local_btf local_id targ_btf targ_id behind_ptr =
     match_recur (\<lambda>bp l t. core_types_match level local_btf l targ_btf t bp) MAX_CORE_DEPTH
       local_btf local_id targ_btf targ_id behind_ptr"

definition bpf_core_types_match :: "btf list \<Rightarrow> nat \<Rightarrow> btf list \<Rightarrow> nat \<Rightarrow> int option" where
  "bpf_core_types_match local_btf local_id targ_btf targ_id = core_types_match 32 local_btf local_id targ_btf targ_id False"

end
