(* ===== verification/Relo_Spec.thy ===== *)
theory Relo_Spec
  imports Relo_Types
begin

text \<open>
  CO-RE relocations, second part: access strings and their counterpart in the kernel's types,
  \<open>bpf_core_parse_spec\<close> and \<open>bpf_core_spec_match\<close> of \<open>src/libbpf/src/relo_core.c\<close>.

  The arrays \<open>spec\<close> and \<open>raw_spec\<close> of a \<open>struct bpf_core_spec\<close> are lists, their lengths the members
  \<open>len\<close> and \<open>raw_len\<close>.
\<close>

section \<open>Relocations\<close>

text \<open>A number that is no enumerator is \<open>BPF_CORE_bad\<close>.\<close>

datatype bpf_core_relo_kind =
    BPF_CORE_FIELD_BYTE_OFFSET | BPF_CORE_FIELD_BYTE_SIZE | BPF_CORE_FIELD_EXISTS | BPF_CORE_FIELD_SIGNED
  | BPF_CORE_FIELD_LSHIFT_U64 | BPF_CORE_FIELD_RSHIFT_U64 | BPF_CORE_TYPE_ID_LOCAL | BPF_CORE_TYPE_ID_TARGET
  | BPF_CORE_TYPE_EXISTS | BPF_CORE_TYPE_SIZE | BPF_CORE_ENUMVAL_EXISTS | BPF_CORE_ENUMVAL_VALUE
  | BPF_CORE_TYPE_MATCHES | BPF_CORE_bad

record bpf_core_relo =
  insn_off :: u32
  type_id :: u32
  access_str_off :: u32
  relo_kind :: bpf_core_relo_kind

definition core_relo_is_field_based :: "bpf_core_relo_kind \<Rightarrow> bool" where
  "core_relo_is_field_based kind \<longleftrightarrow>
     kind \<in> {BPF_CORE_FIELD_BYTE_OFFSET, BPF_CORE_FIELD_BYTE_SIZE, BPF_CORE_FIELD_EXISTS, BPF_CORE_FIELD_SIGNED,
       BPF_CORE_FIELD_LSHIFT_U64, BPF_CORE_FIELD_RSHIFT_U64}"

definition core_relo_is_type_based :: "bpf_core_relo_kind \<Rightarrow> bool" where
  "core_relo_is_type_based kind \<longleftrightarrow>
     kind \<in> {BPF_CORE_TYPE_ID_LOCAL, BPF_CORE_TYPE_ID_TARGET, BPF_CORE_TYPE_EXISTS, BPF_CORE_TYPE_MATCHES,
       BPF_CORE_TYPE_SIZE}"

definition core_relo_is_enumval_based :: "bpf_core_relo_kind \<Rightarrow> bool" where
  "core_relo_is_enumval_based kind \<longleftrightarrow> kind \<in> {BPF_CORE_ENUMVAL_EXISTS, BPF_CORE_ENUMVAL_VALUE}"

definition BPF_CORE_SPEC_MAX_LEN :: nat where "BPF_CORE_SPEC_MAX_LEN = 64"

record bpf_core_accessor =
  acc_type_id :: nat
  acc_idx :: u32
  acc_name :: "u8 list option"

record bpf_core_spec =
  sp_btf :: "btf list"
  sp_accs :: "bpf_core_accessor list"
  sp_root :: u32
  sp_kind :: bpf_core_relo_kind
  sp_raw :: "int list"
  sp_bit_offset :: u32

definition empty_spec :: "btf list \<Rightarrow> u32 \<Rightarrow> bpf_core_relo_kind \<Rightarrow> bpf_core_spec" where
  "empty_spec b root_id kind =
     \<lparr>sp_btf = b, sp_accs = [], sp_root = root_id, sp_kind = kind, sp_raw = [], sp_bit_offset = 0\<rparr>"

definition is_flex_arr :: "btf list \<Rightarrow> bpf_core_accessor \<Rightarrow> struct_btf_array \<Rightarrow> bool option" where
  "is_flex_arr b acc arr =
     (if acc_name acc = None \<or> a_nelems arr > 0 then Some False
      else do {
        t \<leftarrow> btf__type_by_id b (acc_type_id acc);
        Some (acc_idx acc = of_nat (btf_vlen t) - 1)
      })"

section \<open>Access strings\<close>

text \<open>
  \<open>sscanf(s, "%d%n")\<close>: white space, an optional sign and at least one digit. The standard leaves a value
  outside of \<open>int\<close> undefined.
\<close>

definition is_space :: "u8 \<Rightarrow> bool" where "is_space c \<longleftrightarrow> c = 32 \<or> 9 \<le> c \<and> c \<le> 13"
definition is_digit :: "u8 \<Rightarrow> bool" where "is_digit c \<longleftrightarrow> 48 \<le> c \<and> c \<le> 57"

definition digits_value :: "u8 list \<Rightarrow> int" where
  "digits_value ds = foldl (\<lambda>v d. 10 * v + (uint d - 48)) 0 ds"

definition scan_int :: "u8 list \<Rightarrow> (int \<times> u8 list) option" where
  "scan_int s =
     (let s = dropWhile is_space s;
          neg = (s \<noteq> [] \<and> hd s = 45);
          s = (if s \<noteq> [] \<and> (hd s = 45 \<or> hd s = 43) then tl s else s);
          ds = takeWhile is_digit s; s = dropWhile is_digit s in
      if ds = [] then None
      else Some (if neg then - digits_value ds else digits_value ds, s))"

lemma scan_int_shorter: "scan_int s = Some (v, s') \<Longrightarrow> length s' < length s"
proof -
  assume a: "scan_int s = Some (v, s')"
  define s1 where "s1 = dropWhile is_space s"
  define s2 where "s2 = (if s1 \<noteq> [] \<and> (hd s1 = 45 \<or> hd s1 = 43) then tl s1 else s1)"
  have l: "length s1 \<le> length s" "length s2 \<le> length s1"
    by (simp_all add: s1_def s2_def length_dropWhile_le)
  have t: "takeWhile is_digit s2 \<noteq> []" "s' = dropWhile is_digit s2"
    using a by (auto simp: scan_int_def Let_def s1_def [symmetric] s2_def [symmetric] split: if_splits)
  then have "length (takeWhile is_digit s2) + length s' = length s2"
    by (metis length_append takeWhile_dropWhile_id)
  with t(1) l show ?thesis by (cases "takeWhile is_digit s2") auto
qed

text \<open>The loop that parses the access string; the byte \<open>:\<close> is 58.\<close>

function parse_raw :: "u8 list \<Rightarrow> int list \<Rightarrow> (int + int list) option" where
  "parse_raw spec_str raw =
     (if spec_str = [] then Some (Inr raw)
      else case scan_int (if hd spec_str = 58 then tl spec_str else spec_str) of
        None \<Rightarrow> Some (Inl (- EINVAL))
      | Some (access_idx, spec_str) \<Rightarrow>
          if access_idx < - (2 ^ 31) \<or> 2 ^ 31 \<le> access_idx then None
          else if length raw = BPF_CORE_SPEC_MAX_LEN then Some (Inl (- E2BIG))
          else parse_raw spec_str (raw @ [access_idx]))"
  by pat_completeness auto
termination
proof (relation "measure (\<lambda>(s, raw). length s)")
  fix s raw x y s'
  assume "s \<noteq> []" "scan_int (if hd s = 58 then tl s else s) = Some x" "(y, s') = x"
  then have "length s' < length (if hd s = 58 then tl s else s)" using scan_int_shorter by (metis prod.collapse)
  also have "\<dots> \<le> length s" by simp
  finally show "((s', raw @ [y]), (s, raw)) \<in> measure (\<lambda>(s, raw). length s)" by simp
qed simp

declare parse_raw.simps [simp del]

section \<open>Parsing a relocation\<close>

text \<open>
  The loop over the indices behind the first. An index is not compared with 0: a negative one reads
  before the members of the type.
\<close>

fun parse_fields :: "btf list \<Rightarrow> int list \<Rightarrow> nat \<Rightarrow> bpf_core_spec \<Rightarrow> (int + bpf_core_spec) option" where
  "parse_fields b [] id' spec = Some (Inr spec)"
| "parse_fields b (access_idx # raw) id' spec = do {
     (t, id') \<leftarrow> skip_mods_and_typedefs b id';
     if btf_is_composite t then
       if access_idx \<ge> int (btf_vlen t) then Some (Inl (- EINVAL))
       else if access_idx < 0 then None
       else
         let spec = spec\<lparr>sp_bit_offset := sp_bit_offset spec + btf_member_bit_offset t (nat access_idx)\<rparr>;
             m = btf_members t (nat access_idx) in
         if m_name_off m \<noteq> 0 then
           let name = btf__name_by_offset b (unat (m_name_off m)) in
           if str_is_empty name then Some (Inl (- EINVAL))
           else parse_fields b raw (unat (m_type m)) (spec\<lparr>sp_accs := sp_accs spec @
             [\<lparr>acc_type_id = id', acc_idx = word_of_int access_idx, acc_name = name\<rparr>]\<rparr>)
         else parse_fields b raw (unat (m_type m)) spec
     else if btf_is_array t then
       let a = btf_array t in do {
         (t, id') \<leftarrow> skip_mods_and_typedefs b (unat (a_type a));
         flex \<leftarrow> is_flex_arr b (last (sp_accs spec)) a;
         if \<not> flex \<and> (word_of_int access_idx :: u32) \<ge> a_nelems a then Some (Inl (- EINVAL))
         else
           let spec = spec\<lparr>sp_accs := sp_accs spec @
                 [\<lparr>acc_type_id = id', acc_idx = word_of_int access_idx, acc_name = None\<rparr>]\<rparr>;
               sz' = btf__resolve_size b id' in
           if sz' < 0 then Some (Inl sz')
           else parse_fields b raw id' (spec\<lparr>sp_bit_offset := sp_bit_offset spec + word_of_int (access_idx * sz' * 8)\<rparr>)
       }
     else Some (Inl (- EINVAL))
   }"

definition bpf_core_parse_spec :: "btf list \<Rightarrow> bpf_core_relo \<Rightarrow> (int + bpf_core_spec) option" where
  "bpf_core_parse_spec b relo =
     (case btf__name_by_offset b (unat (access_str_off relo)) of
        None \<Rightarrow> Some (Inl (- EINVAL))
      | Some spec_str \<Rightarrow>
          if spec_str = [] \<or> hd spec_str = 58 then Some (Inl (- EINVAL))
          else
            let spec = empty_spec b (type_id relo) (relo_kind relo) in
            if core_relo_is_type_based (relo_kind relo) then
              if spec_str \<noteq> [48] then Some (Inl (- EINVAL)) else Some (Inr spec)
            else do {
              r \<leftarrow> parse_raw spec_str [];
              case r of
                Inl err \<Rightarrow> Some (Inl err)
              | Inr raw \<Rightarrow>
                  if raw = [] then Some (Inl (- EINVAL))
                  else do {
                    (t, id') \<leftarrow> skip_mods_and_typedefs b (unat (type_id relo));
                    let access_idx = hd raw;
                        acc = \<lparr>acc_type_id = id', acc_idx = word_of_int access_idx, acc_name = None\<rparr>;
                        spec = spec\<lparr>sp_raw := raw\<rparr> in
                    if core_relo_is_enumval_based (relo_kind relo) then
                      if \<not> btf_is_any_enum t \<or> length raw > 1 \<or> access_idx \<ge> int (btf_vlen t) then Some (Inl (- EINVAL))
                      else if access_idx < 0 then None
                      else
                        let name = btf__name_by_offset b (enum_name_off t (nat access_idx)) in
                        Some (Inr (spec\<lparr>sp_accs := [acc\<lparr>acc_name := name\<rparr>]\<rparr>))
                    else if \<not> core_relo_is_field_based (relo_kind relo) then Some (Inl (- EINVAL))
                    else
                      let sz' = btf__resolve_size b id' in
                      if sz' < 0 then Some (Inl sz')
                      else parse_fields b (tl raw) id'
                        (spec\<lparr>sp_accs := [acc], sp_bit_offset := word_of_int (access_idx * sz' * 8)\<rparr>)
                  }
            })"

section \<open>Compatible fields\<close>

partial_function (option) bpf_core_fields_are_compat :: "btf list \<Rightarrow> nat \<Rightarrow> btf list \<Rightarrow> nat \<Rightarrow> int option" where
  "bpf_core_fields_are_compat local_btf local_id targ_btf targ_id = do {
     (local_type, local_id) \<leftarrow> skip_mods_and_typedefs local_btf local_id;
     (targ_type, targ_id) \<leftarrow> skip_mods_and_typedefs targ_btf targ_id;
     if btf_is_composite local_type \<and> btf_is_composite targ_type then Some 1
     else if \<not> btf_kind_core_compat local_type targ_type then Some 0
     else if btf_kind local_type \<in> {BTF_KIND_PTR, BTF_KIND_FLOAT} then Some 1
     else if btf_kind local_type \<in> {BTF_KIND_FWD, BTF_KIND_ENUM64, BTF_KIND_ENUM} then do {
       local_name \<leftarrow> btf__name_by_offset local_btf (unat (name_off local_type));
       targ_name \<leftarrow> btf__name_by_offset targ_btf (unat (name_off targ_type));
       let local_len = bpf_core_essential_name_len local_name; targ_len = bpf_core_essential_name_len targ_name in
       Some (of_bool (local_len = 0 \<or> targ_len = 0 \<or>
         local_len = targ_len \<and> strncmp_eq local_name targ_name local_len))
     }
     else if btf_kind local_type = BTF_KIND_INT then
       Some (of_bool (btf_int_offset local_type = 0 \<and> btf_int_offset targ_type = 0))
     else if btf_kind local_type = BTF_KIND_ARRAY then
       bpf_core_fields_are_compat local_btf (unat (a_type (btf_array local_type)))
         targ_btf (unat (a_type (btf_array targ_type)))
     else Some 0
   }"

declare bpf_core_fields_are_compat.simps [code]

section \<open>Finding a member\<close>

text \<open>
  The loop of \<open>bpf_core_match_member\<close>: the result, the specification and \<open>*next_targ_id\<close>. \<open>rec\<close> is the
  search in an embedded struct. When a member of the right name has an incompatible type the code
  returns 0 with the member still in \<open>raw_spec\<close> and its offset still added.
\<close>

type_synonym member_search = "bpf_core_spec \<Rightarrow> nat \<Rightarrow> (int \<times> bpf_core_spec \<times> nat) option"

fun match_members ::
  "(nat \<Rightarrow> member_search) \<Rightarrow> btf list \<Rightarrow> u8 list option \<Rightarrow> nat \<Rightarrow> btf list \<Rightarrow> btf_type \<Rightarrow> nat \<Rightarrow> nat list \<Rightarrow> member_search" where
  "match_members rec local_btf local_name local_mtype targ_btf targ_type targ_id [] spec next = Some (0, spec, next)"
| "match_members rec local_btf local_name local_mtype targ_btf targ_type targ_id (i # is) spec next =
     (let bit_offset = btf_member_bit_offset targ_type i; m = btf_members targ_type i in
      if length (sp_raw spec) = BPF_CORE_SPEC_MAX_LEN then Some (- E2BIG, spec, next)
      else
        let spec = spec\<lparr>sp_bit_offset := sp_bit_offset spec + bit_offset, sp_raw := sp_raw spec @ [int i]\<rparr>;
            targ_name = btf__name_by_offset targ_btf (unat (m_name_off m));
            continue = (\<lambda>spec next.
              match_members rec local_btf local_name local_mtype targ_btf targ_type targ_id is
                (spec\<lparr>sp_bit_offset := sp_bit_offset spec - bit_offset, sp_raw := butlast (sp_raw spec)\<rparr>) next) in
        if str_is_empty targ_name then do {
          (found, spec, next) \<leftarrow> rec (unat (m_type m)) spec next;
          if found \<noteq> 0 then Some (found, spec, next) else continue spec next
        }
        else do {
          local_name' \<leftarrow> local_name;
          if targ_name = Some local_name' then do {
            found \<leftarrow> bpf_core_fields_are_compat local_btf local_mtype targ_btf (unat (m_type m));
            Some (found,
              if found = 0 then spec
              else spec\<lparr>sp_accs := sp_accs spec @
                [\<lparr>acc_type_id = targ_id, acc_idx = of_nat i, acc_name = targ_name\<rparr>]\<rparr>,
              unat (m_type m))
          }
          else continue spec next
        })"

text \<open>
  The first argument bounds the nesting of the calls. Each call that searches a member has one index
  more in \<open>raw_spec\<close>, so with 64 it is never used up.
\<close>

fun bpf_core_match_member ::
  "nat \<Rightarrow> btf list \<Rightarrow> bpf_core_accessor \<Rightarrow> btf list \<Rightarrow> nat \<Rightarrow> member_search" where
  "bpf_core_match_member n local_btf local_acc targ_btf targ_id spec next = do {
     (targ_type, targ_id) \<leftarrow> skip_mods_and_typedefs targ_btf targ_id;
     if \<not> btf_is_composite targ_type then Some (0, spec, next)
     else do {
       local_type \<leftarrow> btf__type_by_id local_btf (acc_type_id local_acc);
       if unat (acc_idx local_acc) \<ge> btf_vlen local_type then None
       else
         let local_member = btf_members local_type (unat (acc_idx local_acc));
             local_name = btf__name_by_offset local_btf (unat (m_name_off local_member)) in
         match_members
           (case n of
              0 \<Rightarrow> (\<lambda>_ _ _. None)
            | Suc n \<Rightarrow> (\<lambda>i. bpf_core_match_member n local_btf local_acc targ_btf i))
           local_btf local_name (unat (m_type local_member)) targ_btf targ_type targ_id
           [0..<btf_vlen targ_type] spec next
     }
   }"

declare bpf_core_match_member.simps [simp del]

section \<open>Matching a specification\<close>

fun enumval_match ::
  "u8 list \<Rightarrow> btf_type \<Rightarrow> nat \<Rightarrow> nat list \<Rightarrow> bpf_core_spec \<Rightarrow> (int \<times> bpf_core_spec) option" where
  "enumval_match local_name targ_type targ_id [] spec = Some (0, spec)"
| "enumval_match local_name targ_type targ_id (i # is) spec = do {
     targ_name \<leftarrow> btf__name_by_offset (sp_btf spec) (enum_name_off targ_type i);
     let local_essent_len = bpf_core_essential_name_len local_name;
         targ_essent_len = bpf_core_essential_name_len targ_name in
     if targ_essent_len = local_essent_len \<and> strncmp_eq local_name targ_name local_essent_len then
       Some (1, spec\<lparr>sp_accs := sp_accs spec @
           [\<lparr>acc_type_id = targ_id, acc_idx = of_nat i, acc_name = Some targ_name\<rparr>],
         sp_raw := sp_raw spec @ [int i]\<rparr>)
     else enumval_match local_name targ_type targ_id is spec
   }"

text \<open>The loop over the accessors of the local specification; \<open>first\<close> is \<open>i == 0\<close>.\<close>

fun match_accs ::
  "btf list \<Rightarrow> btf list \<Rightarrow> bool \<Rightarrow> bpf_core_accessor list \<Rightarrow> nat \<Rightarrow> bpf_core_spec \<Rightarrow> (int \<times> bpf_core_spec) option" where
  "match_accs local_btf targ_btf first [] targ_id spec = Some (1, spec)"
| "match_accs local_btf targ_btf first (local_acc # accs) targ_id spec = do {
     (targ_type, targ_id) \<leftarrow> skip_mods_and_typedefs targ_btf targ_id;
     if acc_name local_acc \<noteq> None then do {
       (matched, spec, targ_id) \<leftarrow> bpf_core_match_member 64 local_btf local_acc targ_btf targ_id spec targ_id;
       if matched \<le> 0 then Some (matched, spec)
       else match_accs local_btf targ_btf False accs targ_id spec
     }
     else do {
       r \<leftarrow> (if first then Some (Some targ_id)
            else if \<not> btf_is_array targ_type then Some None
            else do {
              flex \<leftarrow> is_flex_arr targ_btf (last (sp_accs spec)) (btf_array targ_type);
              if \<not> flex \<and> acc_idx local_acc \<ge> a_nelems (btf_array targ_type) then Some None
              else do {
                (_, targ_id) \<leftarrow> skip_mods_and_typedefs targ_btf (unat (a_type (btf_array targ_type)));
                Some (Some targ_id)
              }
            });
       case r of
         None \<Rightarrow> Some (0, spec)
       | Some targ_id \<Rightarrow>
           if length (sp_raw spec) = BPF_CORE_SPEC_MAX_LEN then Some (- E2BIG, spec)
           else
             let spec = spec\<lparr>sp_accs := sp_accs spec @
                   [\<lparr>acc_type_id = targ_id, acc_idx = acc_idx local_acc, acc_name = None\<rparr>],
                   sp_raw := sp_raw spec @ [sint (acc_idx local_acc)]\<rparr>;
                 sz' = sint (word_of_int (btf__resolve_size targ_btf targ_id) :: s32) in
             if sz' < 0 then Some (sz', spec)
             else match_accs local_btf targ_btf False accs targ_id
               (spec\<lparr>sp_bit_offset := sp_bit_offset spec + acc_idx local_acc * word_of_int sz' * 8\<rparr>)
     }
   }"

definition bpf_core_spec_match :: "bpf_core_spec \<Rightarrow> btf list \<Rightarrow> u32 \<Rightarrow> (int \<times> bpf_core_spec) option" where
  "bpf_core_spec_match local_spec targ_btf targ_id =
     (let targ_spec = empty_spec targ_btf targ_id (sp_kind local_spec) in
      if core_relo_is_type_based (sp_kind local_spec) then do {
        r \<leftarrow> (if sp_kind local_spec = BPF_CORE_TYPE_MATCHES
             then bpf_core_types_match (sp_btf local_spec) (unat (sp_root local_spec)) targ_btf (unat targ_id)
             else bpf_core_types_are_compat (sp_btf local_spec) (unat (sp_root local_spec)) targ_btf (unat targ_id));
        Some (r, targ_spec)
      }
      else if core_relo_is_enumval_based (sp_kind local_spec) then do {
        (targ_type, targ_id) \<leftarrow> skip_mods_and_typedefs targ_btf (unat targ_id);
        if \<not> btf_is_any_enum targ_type then Some (0, targ_spec)
        else do {
          acc \<leftarrow> ld (sp_accs local_spec) 0;
          local_name \<leftarrow> acc_name acc;
          enumval_match local_name targ_type targ_id [0..<btf_vlen targ_type] targ_spec
        }
      }
      else if \<not> core_relo_is_field_based (sp_kind local_spec) then Some (- EINVAL, targ_spec)
      else match_accs (sp_btf local_spec) targ_btf True (sp_accs local_spec) (unat targ_id) targ_spec)"

end
