(* ===== verification/Relo_Calc.thy ===== *)
theory Relo_Calc
  imports Relo_Spec
begin

text \<open>
  CO-RE relocations, third part: the values of a relocation, the choice among the candidates and the
  patch of the instruction, \<open>bpf_core_calc_relo_insn\<close> and \<open>bpf_core_patch_insn\<close> of
  \<open>src/libbpf/src/relo_core.c\<close>. Output is left out. The host is little-endian.
\<close>

definition EUCLEAN :: int where "EUCLEAN = 117"
definition EOPNOTSUPP :: int where "EOPNOTSUPP = 95"
definition ERANGE :: int where "ERANGE = 34"

section \<open>Values\<close>

text \<open>The results of a calculation that C returns through pointers.\<close>

record relo_out =
  o_val :: u64
  o_sz :: u32
  o_type_id :: nat
  o_validate :: bool

text \<open>The loop that widens the load of a bit-field; a \<open>byte_sz\<close> of 0 is a division by zero.\<close>

function bitfield_load :: "u32 \<Rightarrow> u32 \<Rightarrow> u32 \<Rightarrow> (int + u32 \<times> u32) option" where
  "bitfield_load bit_off bit_sz byte_sz =
     (if byte_sz = 0 then None
      else
        let byte_off = bit_off div 8 div byte_sz * byte_sz in
        if bit_off + bit_sz - byte_off * 8 > byte_sz * 8 then
          if byte_sz \<ge> 8 then Some (Inl (- E2BIG)) else bitfield_load bit_off bit_sz (byte_sz * 2)
        else Some (Inr (byte_sz, byte_off)))"
  by pat_completeness auto
termination
proof (relation "measure (\<lambda>(_, _, byte_sz). 8 - unat byte_sz)")
  fix bit_off bit_sz byte_sz x :: u32
  assume a: "byte_sz \<noteq> 0" "\<not> byte_sz \<ge> 8"
  then have "0 < unat byte_sz" "unat byte_sz < 8" by (simp_all add: unat_gt_0 word_le_nat_alt)
  moreover from this have "unat (byte_sz * 2) = unat byte_sz * 2" by (simp add: unat_word_ariths)
  ultimately show "((bit_off, bit_sz, byte_sz * 2), (bit_off, bit_sz, byte_sz)) \<in> measure (\<lambda>(_, _, byte_sz). 8 - unat byte_sz)"
    by simp
qed simp

declare bitfield_load.simps [simp del]

text \<open>
  \<open>btf_int_encoding(mt) & BTF_INT_SIGNED\<close> on a type of any kind: it reads the word behind the three of the
  header, which a pointer or a forward declaration does not have.
\<close>

definition field_signed :: "btf_type \<Rightarrow> bool option" where
  "field_signed mt =
     (if btf_is_any_enum mt \<and> btf_kflag mt then Some True
      else if rest mt = [] then None
      else Some (btf_int_encoding mt AND ucast BTF_INT_SIGNED \<noteq> 0))"

definition bpf_core_calc_field_relo ::
  "bpf_core_relo \<Rightarrow> bpf_core_spec option \<Rightarrow> relo_out \<Rightarrow> (int \<times> relo_out) option" where
  "bpf_core_calc_field_relo relo spec_opt r =
     (let r = r\<lparr>o_sz := 0\<rparr> in
      if relo_kind relo = BPF_CORE_FIELD_EXISTS then Some (0, r\<lparr>o_val := of_bool (spec_opt \<noteq> None)\<rparr>)
      else case spec_opt of
        None \<Rightarrow> Some (- EUCLEAN, r)
      | Some spec \<Rightarrow> do {
          acc \<leftarrow> ld (sp_accs spec) (length (sp_accs spec) - 1);
          t \<leftarrow> btf__type_by_id (sp_btf spec) (acc_type_id acc);
          if acc_name acc = None then
            let sz' = btf__resolve_size (sp_btf spec) (acc_type_id acc) in
            if relo_kind relo = BPF_CORE_FIELD_BYTE_OFFSET then
              let r = r\<lparr>o_val := ucast (sp_bit_offset spec div 8)\<rparr> in
              if sz' < 0 then Some (- EINVAL, r)
              else Some (0, r\<lparr>o_sz := word_of_int sz', o_type_id := acc_type_id acc, o_validate := True\<rparr>)
            else if relo_kind relo = BPF_CORE_FIELD_BYTE_SIZE then
              if sz' < 0 then Some (- EINVAL, r)
              else Some (0, r\<lparr>o_val := word_of_int sz', o_validate := True\<rparr>)
            else Some (- EINVAL, r)
          else if unat (acc_idx acc) \<ge> btf_vlen t then None
          else
            let m = btf_members t (unat (acc_idx acc)) in do {
              (mt, field_type_id) \<leftarrow> skip_mods_and_typedefs (sp_btf spec) (unat (m_type m));
              let bit_off = sp_bit_offset spec;
                  bit_sz = btf_member_bitfield_size t (unat (acc_idx acc));
                  bitfield = bit_sz > 0 in do {
                load \<leftarrow> (if bitfield then map_option (map_sum id (\<lambda>(s, off). (s, off, bit_sz))) (bitfield_load bit_off bit_sz (size_type mt))
                     else
                       let sz' = btf__resolve_size (sp_btf spec) field_type_id in
                       if sz' < 0 then Some (Inl (- EINVAL))
                       else Some (Inr (word_of_int sz', bit_off div 8, word_of_int sz' * 8)));
                case load of
                  Inl err \<Rightarrow> Some (err, r)
                | Inr (byte_sz, byte_off, bit_sz) \<Rightarrow>
                    let r = r\<lparr>o_validate := \<not> bitfield\<rparr> in
                    (case relo_kind relo of
                       BPF_CORE_FIELD_BYTE_OFFSET \<Rightarrow>
                         let r = r\<lparr>o_val := ucast byte_off\<rparr> in
                         Some (0, if bitfield then r else r\<lparr>o_sz := byte_sz, o_type_id := field_type_id\<rparr>)
                     | BPF_CORE_FIELD_BYTE_SIZE \<Rightarrow> Some (0, r\<lparr>o_val := ucast byte_sz\<rparr>)
                     | BPF_CORE_FIELD_SIGNED \<Rightarrow> do {
                         s \<leftarrow> field_signed mt;
                         Some (0, r\<lparr>o_val := of_bool s, o_validate := True\<rparr>)
                       }
                     | BPF_CORE_FIELD_LSHIFT_U64 \<Rightarrow> Some (0, r\<lparr>o_val := ucast (64 - (bit_off + bit_sz - byte_off * 8))\<rparr>)
                     | BPF_CORE_FIELD_RSHIFT_U64 \<Rightarrow> Some (0, r\<lparr>o_val := ucast (64 - bit_sz), o_validate := True\<rparr>)
                     | _ \<Rightarrow> Some (- EOPNOTSUPP, r))
              }
            }
        })"

definition bpf_core_calc_type_relo :: "bpf_core_relo \<Rightarrow> bpf_core_spec option \<Rightarrow> relo_out \<Rightarrow> int \<times> relo_out" where
  "bpf_core_calc_type_relo relo spec_opt r =
     (let r = r\<lparr>o_validate := True\<rparr> in
      case spec_opt of
        None \<Rightarrow> (0, r\<lparr>o_val := 0\<rparr>)
      | Some spec \<Rightarrow>
          (case relo_kind relo of
             BPF_CORE_TYPE_ID_TARGET \<Rightarrow> (0, r\<lparr>o_val := ucast (sp_root spec), o_validate := False\<rparr>)
           | BPF_CORE_TYPE_EXISTS \<Rightarrow> (0, r\<lparr>o_val := 1\<rparr>)
           | BPF_CORE_TYPE_MATCHES \<Rightarrow> (0, r\<lparr>o_val := 1\<rparr>)
           | BPF_CORE_TYPE_SIZE \<Rightarrow>
               let sz' = btf__resolve_size (sp_btf spec) (unat (sp_root spec)) in
               if sz' < 0 then (- EINVAL, r) else (0, r\<lparr>o_val := word_of_int sz'\<rparr>)
           | _ \<Rightarrow> (- EOPNOTSUPP, r)))"

definition bpf_core_calc_enumval_relo ::
  "bpf_core_relo \<Rightarrow> bpf_core_spec option \<Rightarrow> relo_out \<Rightarrow> (int \<times> relo_out) option" where
  "bpf_core_calc_enumval_relo relo spec_opt r =
     (case relo_kind relo of
        BPF_CORE_ENUMVAL_EXISTS \<Rightarrow> Some (0, r\<lparr>o_val := of_bool (spec_opt \<noteq> None)\<rparr>)
      | BPF_CORE_ENUMVAL_VALUE \<Rightarrow>
          (case spec_opt of
             None \<Rightarrow> Some (- EUCLEAN, r)
           | Some spec \<Rightarrow> do {
               acc \<leftarrow> ld (sp_accs spec) 0;
               t \<leftarrow> btf__type_by_id (sp_btf spec) (acc_type_id acc);
               if unat (acc_idx acc) \<ge> btf_vlen t then None
               else if btf_is_enum t then Some (0, r\<lparr>o_val := scast (e_val (btf_enum t (unat (acc_idx acc))))\<rparr>)
               else Some (0, r\<lparr>o_val := btf_enum64_value (btf_enum64 t (unat (acc_idx acc)))\<rparr>)
             })
      | _ \<Rightarrow> Some (- EOPNOTSUPP, r))"

record bpf_core_relo_res =
  orig_val :: u64
  new_val :: u64
  poison :: bool
  validate :: bool
  fail_memsz_adjust :: bool
  orig_sz :: u32
  orig_type_id :: nat
  new_sz :: u32
  new_type_id :: nat

text \<open>The result as the start of \<open>bpf_core_calc_relo\<close> sets it.\<close>

definition relo_res_init :: bpf_core_relo_res where
  "relo_res_init =
     \<lparr>orig_val = 0, new_val = 0, poison = False, validate = True, fail_memsz_adjust = False,
      orig_sz = 0, orig_type_id = 0, new_sz = 0, new_type_id = 0\<rparr>"

definition orig_out :: "bpf_core_relo_res \<Rightarrow> relo_out" where
  "orig_out res = \<lparr>o_val = orig_val res, o_sz = orig_sz res, o_type_id = orig_type_id res, o_validate = validate res\<rparr>"
definition set_orig :: "bpf_core_relo_res \<Rightarrow> relo_out \<Rightarrow> bpf_core_relo_res" where
  "set_orig res r = res\<lparr>orig_val := o_val r, orig_sz := o_sz r, orig_type_id := o_type_id r, validate := o_validate r\<rparr>"
definition new_out :: "bpf_core_relo_res \<Rightarrow> relo_out" where
  "new_out res = \<lparr>o_val = new_val res, o_sz = new_sz res, o_type_id = new_type_id res, o_validate = False\<rparr>"
definition set_new :: "bpf_core_relo_res \<Rightarrow> relo_out \<Rightarrow> bpf_core_relo_res" where
  "set_new res r = res\<lparr>new_val := o_val r, new_sz := o_sz r, new_type_id := o_type_id r\<rparr>"

text \<open>\<open>err = calc(local); err = err ?: calc(target)\<close>\<close>

definition calc_both ::
  "(bpf_core_spec option \<Rightarrow> relo_out \<Rightarrow> (int \<times> relo_out) option) \<Rightarrow> bpf_core_spec \<Rightarrow> bpf_core_spec option \<Rightarrow>
     bpf_core_relo_res \<Rightarrow> (int \<times> bpf_core_relo_res) option" where
  "calc_both calc local_spec targ_spec res = do {
     (err, r) \<leftarrow> calc (Some local_spec) (orig_out res);
     let res = set_orig res r in
     if err \<noteq> 0 then Some (err, res)
     else do {
       (err, r) \<leftarrow> calc targ_spec (new_out res);
       Some (err, set_new res r)
     }
   }"

text \<open>Whether a load or store of another size is one the code adjusts.\<close>

definition memsz_adjustable :: "bpf_core_spec \<Rightarrow> bpf_core_spec option \<Rightarrow> bpf_core_relo_res \<Rightarrow> bool option" where
  "memsz_adjustable local_spec targ_spec res = do {
     orig_t \<leftarrow> btf__type_by_id (sp_btf local_spec) (orig_type_id res);
     targ_spec \<leftarrow> targ_spec;
     new_t \<leftarrow> btf__type_by_id (sp_btf targ_spec) (new_type_id res);
     Some (btf_is_ptr orig_t \<and> btf_is_ptr new_t \<or>
       btf_is_int orig_t \<and> btf_is_int new_t \<and>
       btf_int_encoding orig_t \<noteq> ucast BTF_INT_SIGNED \<and> btf_int_encoding new_t \<noteq> ucast BTF_INT_SIGNED)
   }"

definition bpf_core_calc_relo ::
  "bpf_core_relo \<Rightarrow> bpf_core_spec \<Rightarrow> bpf_core_spec option \<Rightarrow> (int \<times> bpf_core_relo_res) option" where
  "bpf_core_calc_relo relo local_spec targ_spec = do {
     (err, res) \<leftarrow>
       (if core_relo_is_field_based (relo_kind relo) then do {
          (err, res) \<leftarrow> calc_both (bpf_core_calc_field_relo relo) local_spec targ_spec relo_res_init;
          if err \<noteq> 0 then Some (err, res)
          else if orig_sz res \<noteq> new_sz res then do {
            ok \<leftarrow> memsz_adjustable local_spec targ_spec res;
            Some (err, if ok then res else res\<lparr>fail_memsz_adjust := True\<rparr>)
          }
          else Some (err, res)
        }
        else if core_relo_is_type_based (relo_kind relo) then
          calc_both (\<lambda>spec r. Some (bpf_core_calc_type_relo relo spec r)) local_spec targ_spec relo_res_init
        else if core_relo_is_enumval_based (relo_kind relo) then
          calc_both (bpf_core_calc_enumval_relo relo) local_spec targ_spec relo_res_init
        else Some (- EOPNOTSUPP, relo_res_init));
     if err = - EUCLEAN then Some (0, res\<lparr>poison := True\<rparr>) else Some (err, res)
   }"

section \<open>Candidates\<close>

record bpf_core_cand =
  cand_btf :: "btf list"
  cand_id :: u32

text \<open>
  The loop over the candidates. \<open>kept\<close> are the matching ones so far, \<open>targ\<close> the result and the
  specification of the first of them. A result with an error ends the loop.
\<close>

fun calc_cands ::
  "bpf_core_relo \<Rightarrow> bpf_core_spec \<Rightarrow> bpf_core_cand list \<Rightarrow> bpf_core_cand list \<Rightarrow>
     (bpf_core_relo_res \<times> bpf_core_spec) option \<Rightarrow>
     (int \<times> bpf_core_cand list \<times> (bpf_core_relo_res \<times> bpf_core_spec) option) option" where
  "calc_cands relo local_spec [] kept targ = Some (0, kept, targ)"
| "calc_cands relo local_spec (cand # cands) kept targ = do {
     (err, cand_spec) \<leftarrow> bpf_core_spec_match local_spec (cand_btf cand) (cand_id cand);
     if err < 0 then Some (err, kept, targ)
     else if err = 0 then calc_cands relo local_spec cands kept targ
     else do {
       (err, cand_res) \<leftarrow> bpf_core_calc_relo relo local_spec (Some cand_spec);
       if err \<noteq> 0 then Some (err, kept, targ)
       else case targ of
         None \<Rightarrow> calc_cands relo local_spec cands (kept @ [cand]) (Some (cand_res, cand_spec))
       | Some (targ_res, targ_spec) \<Rightarrow>
           if sp_bit_offset cand_spec \<noteq> sp_bit_offset targ_spec then Some (- EINVAL, kept, targ)
           else if poison cand_res \<noteq> poison targ_res \<or> new_val cand_res \<noteq> new_val targ_res
           then Some (- EINVAL, kept, targ)
           else calc_cands relo local_spec cands (kept @ [cand]) targ
     }
   }"

text \<open>
  The matching candidates are moved to the front of the array; its length is set when all have been
  looked at and one matched. \<open>targ_res\<close> is the caller's result before the call.
\<close>

definition bpf_core_calc_relo_insn ::
  "bpf_core_relo \<Rightarrow> btf list \<Rightarrow> bpf_core_cand list \<Rightarrow> bpf_core_relo_res \<Rightarrow>
     (int \<times> bpf_core_cand list \<times> bpf_core_relo_res) option" where
  "bpf_core_calc_relo_insn relo local_btf cands targ_res = do {
     local_type \<leftarrow> btf__type_by_id local_btf (unat (type_id relo));
     let local_name = btf__name_by_offset local_btf (unat (name_off local_type)) in
     if local_name = None then Some (- EINVAL, cands, targ_res)
     else do {
       parsed \<leftarrow> bpf_core_parse_spec local_btf relo;
       case parsed of
         Inl err \<Rightarrow> Some (- EINVAL, cands, targ_res)
       | Inr local_spec \<Rightarrow>
           if relo_kind relo = BPF_CORE_TYPE_ID_LOCAL then
             Some (0, cands, relo_res_init\<lparr>validate := False, orig_val := ucast (sp_root local_spec),
               new_val := ucast (sp_root local_spec)\<rparr>)
           else if str_is_empty local_name then Some (- EOPNOTSUPP, cands, targ_res)
           else do {
             (err, kept, targ) \<leftarrow> calc_cands relo local_spec cands [] None;
             let targ_res = (case targ of None \<Rightarrow> targ_res | Some (res, _) \<Rightarrow> res) in
             if err \<noteq> 0 then Some (err, kept @ drop (length kept) cands, targ_res)
             else if kept \<noteq> [] then Some (0, kept, targ_res)
             else do {
               (err, targ_res) \<leftarrow> bpf_core_calc_relo relo local_spec None;
               Some (err, cands, targ_res)
             }
           }
     }
   }"

section \<open>Patching\<close>

record bpf_insn =
  insn_code :: u8
  insn_dst_reg :: "4 word"
  insn_src_reg :: "4 word"
  insn_offset :: u16
  insn_imm :: s32

definition BPF_CLASS :: "u8 \<Rightarrow> u8" where "BPF_CLASS code = code AND 0x07"
definition BPF_SIZE :: "u8 \<Rightarrow> u8" where "BPF_SIZE code = code AND 0x18"
definition BPF_MODE :: "u8 \<Rightarrow> u8" where "BPF_MODE code = code AND 0xe0"
definition BPF_SRC :: "u8 \<Rightarrow> u8" where "BPF_SRC code = code AND 0x08"

definition BPF_LD :: u8 where "BPF_LD = 0x00"
definition BPF_LDX :: u8 where "BPF_LDX = 0x01"
definition BPF_ST :: u8 where "BPF_ST = 0x02"
definition BPF_STX :: u8 where "BPF_STX = 0x03"
definition BPF_ALU :: u8 where "BPF_ALU = 0x04"
definition BPF_JMP :: u8 where "BPF_JMP = 0x05"
definition BPF_ALU64 :: u8 where "BPF_ALU64 = 0x07"
definition BPF_W :: u8 where "BPF_W = 0x00"
definition BPF_H :: u8 where "BPF_H = 0x08"
definition BPF_B :: u8 where "BPF_B = 0x10"
definition BPF_DW :: u8 where "BPF_DW = 0x18"
definition BPF_IMM :: u8 where "BPF_IMM = 0x00"
definition BPF_K :: u8 where "BPF_K = 0x00"
definition BPF_CALL :: u8 where "BPF_CALL = 0x80"

lemmas insn_codes = BPF_LD_def BPF_LDX_def BPF_ST_def BPF_STX_def BPF_ALU_def BPF_JMP_def BPF_ALU64_def
  BPF_W_def BPF_H_def BPF_B_def BPF_DW_def BPF_IMM_def BPF_K_def BPF_CALL_def

definition is_ldimm64_insn :: "bpf_insn \<Rightarrow> bool" where
  "is_ldimm64_insn insn \<longleftrightarrow> insn_code insn = BPF_LD OR BPF_IMM OR BPF_DW"

definition poisoned_insn :: bpf_insn where
  "poisoned_insn =
     \<lparr>insn_code = BPF_JMP OR BPF_CALL, insn_dst_reg = 0, insn_src_reg = 0, insn_offset = 0, insn_imm = 195896080\<rparr>"

definition insn_bpf_size_to_bytes :: "bpf_insn \<Rightarrow> int" where
  "insn_bpf_size_to_bytes insn =
     (let s = BPF_SIZE (insn_code insn) in
      if s = BPF_DW then 8 else if s = BPF_W then 4 else if s = BPF_H then 2 else if s = BPF_B then 1 else - 1)"

definition insn_bytes_to_bpf_size :: "u32 \<Rightarrow> u8 option" where
  "insn_bytes_to_bpf_size sz' =
     (if sz' = 8 then Some BPF_DW else if sz' = 4 then Some BPF_W else if sz' = 2 then Some BPF_H
      else if sz' = 1 then Some BPF_B else None)"

text \<open>The label \<open>poison\<close>: an instruction of two slots is overwritten in both.\<close>

definition poison_at :: "bpf_insn list \<Rightarrow> nat \<Rightarrow> bpf_insn list option" where
  "poison_at insns i = do {
     insn \<leftarrow> ld insns i;
     insns \<leftarrow> (if is_ldimm64_insn insn then st insns (i + 1) poisoned_insn else Some insns);
     st insns i poisoned_insn
   }"

text \<open>The instructions of the program, the index of the one to patch; the new instructions and the result.\<close>

definition bpf_core_patch_insn :: "bpf_insn list \<Rightarrow> nat \<Rightarrow> bpf_core_relo_res \<Rightarrow> (bpf_insn list \<times> int) option" where
  "bpf_core_patch_insn insns i res = do {
     insn \<leftarrow> ld insns i;
     let class = BPF_CLASS (insn_code insn) in
     if poison res then map_option (\<lambda>insns. (insns, 0)) (poison_at insns i)
     else if class = BPF_ALU \<or> class = BPF_ALU64 then
       if BPF_SRC (insn_code insn) \<noteq> BPF_K then Some (insns, - EINVAL)
       else if validate res \<and> scast (insn_imm insn) \<noteq> orig_val res then Some (insns, - EINVAL)
       else Some (insns[i := insn\<lparr>insn_imm := ucast (new_val res)\<rparr>], 0)
     else if class = BPF_LDX \<or> class = BPF_ST \<or> class = BPF_STX then
       if validate res \<and> scast (insn_offset insn) \<noteq> orig_val res then Some (insns, - EINVAL)
       else if new_val res > 32767 then Some (insns, - ERANGE)
       else if fail_memsz_adjust res then map_option (\<lambda>insns. (insns, 0)) (poison_at insns i)
       else
         let insn = insn\<lparr>insn_offset := ucast (new_val res)\<rparr>; insns = insns[i := insn] in
         if new_sz res \<noteq> orig_sz res then
           if word_of_int (insn_bpf_size_to_bytes insn) \<noteq> orig_sz res then Some (insns, - EINVAL)
           else case insn_bytes_to_bpf_size (new_sz res) of
             None \<Rightarrow> Some (insns, - EINVAL)
           | Some insn_bpf_sz \<Rightarrow>
               Some (insns[i := insn\<lparr>insn_code :=
                 BPF_MODE (insn_code insn) OR insn_bpf_sz OR BPF_CLASS (insn_code insn)\<rparr>], 0)
         else Some (insns, 0)
     else if class = BPF_LD then
       if \<not> is_ldimm64_insn insn \<or> insn_src_reg insn \<noteq> 0 \<or> insn_offset insn \<noteq> 0 then Some (insns, - EINVAL)
       else do {
         insn1 \<leftarrow> ld insns (i + 1);
         if insn_code insn1 \<noteq> 0 \<or> insn_dst_reg insn1 \<noteq> 0 \<or> insn_src_reg insn1 \<noteq> 0 \<or> insn_offset insn1 \<noteq> 0
         then Some (insns, - EINVAL)
         else
           let imm = ucast (insn_imm insn) OR push_bit 32 (ucast (insn_imm insn1)) :: u64 in
           if validate res \<and> imm \<noteq> orig_val res then Some (insns, - EINVAL)
           else Some (insns[i := insn\<lparr>insn_imm := ucast (new_val res)\<rparr>,
             i + 1 := insn1\<lparr>insn_imm := ucast (drop_bit 32 (new_val res))\<rparr>], 0)
       }
     else Some (insns, - EINVAL)
   }"

section \<open>The search of candidates\<close>

text \<open>
  \<open>bpf_core_add_cands\<close>: the types from \<open>targ_start_id\<close> on with the kind and the essential name of the
  local type. \<open>mem k\<close> is the fate of the allocation for the \<open>k\<close>th candidate.
\<close>

fun add_cands ::
  "(nat \<Rightarrow> bool) \<Rightarrow> btf_type \<Rightarrow> u8 list option \<Rightarrow> nat \<Rightarrow> btf list \<Rightarrow> nat list \<Rightarrow> bpf_core_cand list \<Rightarrow>
     (int \<times> bpf_core_cand list) option" where
  "add_cands mem local_t local_name local_essent_len targ_btf [] cands = Some (0, cands)"
| "add_cands mem local_t local_name local_essent_len targ_btf (i # is) cands =
     (let t = btf_type_by_id targ_btf i;
          targ_name = btf__name_by_offset targ_btf (unat (name_off t)) in
      if \<not> btf_kind_core_compat t local_t then add_cands mem local_t local_name local_essent_len targ_btf is cands
      else case targ_name of
        None \<Rightarrow> add_cands mem local_t local_name local_essent_len targ_btf is cands
      | Some targ_name \<Rightarrow>
          if targ_name = [] then add_cands mem local_t local_name local_essent_len targ_btf is cands
          else if bpf_core_essential_name_len targ_name \<noteq> local_essent_len
          then add_cands mem local_t local_name local_essent_len targ_btf is cands
          else do {
            local_name' \<leftarrow> local_name;
            if \<not> strncmp_eq local_name' targ_name local_essent_len
            then add_cands mem local_t local_name local_essent_len targ_btf is cands
            else if \<not> mem (length cands) then Some (- ENOMEM, cands)
            else add_cands mem local_t local_name local_essent_len targ_btf is
              (cands @ [\<lparr>cand_btf = targ_btf, cand_id = of_nat i\<rparr>])
          })"

definition bpf_core_add_cands ::
  "(nat \<Rightarrow> bool) \<Rightarrow> bpf_core_cand \<Rightarrow> nat \<Rightarrow> btf list \<Rightarrow> nat \<Rightarrow> bpf_core_cand list \<Rightarrow> (int \<times> bpf_core_cand list) option" where
  "bpf_core_add_cands mem local_cand local_essent_len targ_btf targ_start_id cands = do {
     local_t \<leftarrow> btf__type_by_id (cand_btf local_cand) (unat (cand_id local_cand));
     let local_name = btf__str_by_offset (cand_btf local_cand) (unat (name_off local_t)) in
     add_cands mem local_t local_name local_essent_len targ_btf [targ_start_id..<btf__type_cnt targ_btf] cands
   }"

text \<open>The loop over the modules of \<open>bpf_core_find_cands\<close>.\<close>

fun add_module_cands ::
  "(nat \<Rightarrow> bool) \<Rightarrow> bpf_core_cand \<Rightarrow> nat \<Rightarrow> nat \<Rightarrow> btf list list \<Rightarrow> bpf_core_cand list \<Rightarrow> (int \<times> bpf_core_cand list) option" where
  "add_module_cands mem local_cand len' start [] cands = Some (0, cands)"
| "add_module_cands mem local_cand len' start (b # modules) cands = do {
     (err, cands) \<leftarrow> bpf_core_add_cands mem local_cand len' b start cands;
     if err \<noteq> 0 then Some (err, cands) else add_module_cands mem local_cand len' start modules cands
   }"

text \<open>
  \<open>vmlinux\<close> and \<open>override\<close> are the members \<open>btf_vmlinux\<close> and \<open>btf_vmlinux_override\<close> of the object, \<open>modules\<close>
  what \<open>load_module_btfs\<close> reads from the kernel, \<open>cands_ok\<close> the fate of the list's allocation.
\<close>

definition bpf_core_find_cands ::
  "bool \<Rightarrow> (nat \<Rightarrow> bool) \<Rightarrow> btf list \<Rightarrow> btf list option \<Rightarrow> int + btf list list \<Rightarrow> btf list \<Rightarrow> u32 \<Rightarrow>
     (int + bpf_core_cand list) option" where
  "bpf_core_find_cands cands_ok mem vmlinux override modules local_btf local_type_id =
     (let local_cand = \<lparr>cand_btf = local_btf, cand_id = local_type_id\<rparr> in
      case btf__type_by_id local_btf (unat local_type_id) of
        None \<Rightarrow> Some (Inl (- EINVAL))
      | Some local_t \<Rightarrow>
          (case btf__name_by_offset local_btf (unat (name_off local_t)) of
             None \<Rightarrow> Some (Inl (- EINVAL))
           | Some local_name \<Rightarrow>
               if local_name = [] then Some (Inl (- EINVAL))
               else
                 let len' = bpf_core_essential_name_len local_name;
                     main_btf = (case override of Some b \<Rightarrow> b | None \<Rightarrow> vmlinux) in
                 if \<not> cands_ok then Some (Inl (- ENOMEM))
                 else do {
                   (err, cands) \<leftarrow> bpf_core_add_cands mem local_cand len' main_btf 1 [];
                   if err \<noteq> 0 then Some (Inl err)
                   else if cands \<noteq> [] then Some (Inr cands)
                   else if override \<noteq> None then Some (Inr cands)
                   else case modules of
                     Inl err \<Rightarrow> Some (Inl err)
                   | Inr modules \<Rightarrow> do {
                       (err, cands) \<leftarrow> add_module_cands mem local_cand len' (btf__type_cnt vmlinux) modules cands;
                       if err \<noteq> 0 then Some (Inl err) else Some (Inr cands)
                     }
                 }))"

end
