(* ===== verification/Relo_Compat.thy ===== *)
theory Relo_Compat
  imports Relo_Types Btf_Merge
begin

text \<open>
  The type comparisons of CO-RE return on every well-formed pair of BTF objects, whatever cycles their
  types have, and read nothing out of bounds. Compatibility is symmetric.
\<close>

section \<open>Well-formed references and names\<close>

text \<open>
  Every identifier a type holds is below the count, every name offset is one of the string section, and
  no chain of qualifiers and typedefs is endless.
\<close>

definition type_refs_ok :: "btf list \<Rightarrow> btf_type \<Rightarrow> bool" where
  "type_refs_ok b t \<longleftrightarrow>
     (\<forall>j\<in>set (id_pos t). unat (type_words t ! j) < btf__type_cnt b) \<and>
     (\<forall>j\<in>set (str_pos t). btf__name_by_offset b (unat (type_words t ! j)) \<noteq> None)"

definition refs_ok :: "btf list \<Rightarrow> bool" where
  "refs_ok b \<longleftrightarrow> (\<forall>i<btf__type_cnt b. skip_mods_and_typedefs b i \<noteq> None \<and> type_refs_ok b (btf_type_by_id b i))"

lemma skip_end:
  "skip_mods_and_typedefs b i = Some (t, j) \<Longrightarrow>
     j < btf__type_cnt b \<and> t = btf_type_by_id b j \<and> \<not> btf_is_mod t \<and> \<not> btf_is_typedef t"
proof -
  let ?P = "\<lambda>b i p. snd p < btf__type_cnt b \<and> fst p = btf_type_by_id b (snd p) \<and>
    \<not> btf_is_mod (fst p) \<and> \<not> btf_is_typedef (fst p)"
  have "skip_mods_and_typedefs b i = Some p \<Longrightarrow> ?P b i p" for p
    by (erule skip_mods_and_typedefs.raw_induct [rotated, where P = ?P])
      (auto simp: btf__type_by_id_def simp del: btf_type_by_id.simps split: if_splits option.splits)
  then show "skip_mods_and_typedefs b i = Some (t, j) \<Longrightarrow> ?thesis" by fastforce
qed

lemma skip_idem:
  assumes "skip_mods_and_typedefs b i = Some (t, j)" shows "skip_mods_and_typedefs b j = Some (t, j)"
proof -
  from skip_end [OF assms] have "btf__type_by_id b j = Some t" "\<not> btf_is_mod t" "\<not> btf_is_typedef t"
    by (auto simp: btf__type_by_id_def)
  then show ?thesis by (subst skip_mods_and_typedefs.simps) simp
qed

lemma skip_ok:
  assumes "refs_ok b" "i < btf__type_cnt b"
  obtains t j where "skip_mods_and_typedefs b i = Some (t, j)" "j < btf__type_cnt b" "type_refs_ok b t"
    "btf__type_by_id b j = Some t"
proof -
  from assms obtain t j where s: "skip_mods_and_typedefs b i = Some (t, j)" unfolding refs_ok_def by fastforce
  from skip_end [OF s] assms(1) have "j < btf__type_cnt b" "type_refs_ok b t" "btf__type_by_id b j = Some t"
    by (auto simp: refs_ok_def btf__type_by_id_def simp del: btf_type_by_id.simps)
  with s show thesis by (rule that)
qed

lemma words_nth: "type_words t ! Suc (Suc 0) = size_type t" "type_words t ! (3 + k) = rest t ! k"
  "type_words t ! 0 = name_off t"
  by (simp_all add: type_words_def numeral_3_eq_3)

lemma words_rest: "3 \<le> j \<Longrightarrow> type_words t ! j = rest t ! (j - 3)"
  using words_nth(2) [of t "j - 3"] by simp

text \<open>The identifiers and names the comparisons read.\<close>

lemma ref_ids:
  assumes "type_refs_ok b t"
  shows "btf_kind t \<in> {BTF_KIND_PTR, BTF_KIND_FUNC_PROTO} \<Longrightarrow> unat (size_type t) < btf__type_cnt b"
    and "btf_kind t = BTF_KIND_ARRAY \<Longrightarrow> unat (a_type (btf_array t)) < btf__type_cnt b"
    and "btf_kind t = BTF_KIND_FUNC_PROTO \<Longrightarrow> i < btf_vlen t \<Longrightarrow> unat (p_type (btf_params t i)) < btf__type_cnt b"
    and "btf_kind t \<in> {BTF_KIND_STRUCT, BTF_KIND_UNION} \<Longrightarrow> i < btf_vlen t \<Longrightarrow>
      unat (m_type (btf_members t i)) < btf__type_cnt b"
proof -
  have n: "unat (type_words t ! j) < btf__type_cnt b" if "j \<in> set (id_pos t)" for j
    using assms that by (simp add: type_refs_ok_def)
  show "btf_kind t \<in> {BTF_KIND_PTR, BTF_KIND_FUNC_PROTO} \<Longrightarrow> unat (size_type t) < btf__type_cnt b"
  proof -
    assume "btf_kind t \<in> {BTF_KIND_PTR, BTF_KIND_FUNC_PROTO}"
    then have "2 \<in> set (id_pos t)" by (auto simp: id_pos_def)
    from n [OF this] show "unat (size_type t) < btf__type_cnt b" by (simp add: type_words_def)
  qed
  show "btf_kind t = BTF_KIND_ARRAY \<Longrightarrow> unat (a_type (btf_array t)) < btf__type_cnt b"
    using n [of "3 + 0"] by (simp add: id_pos_def btf_array_def words_nth(2) [of t 0, simplified])
  show "btf_kind t = BTF_KIND_FUNC_PROTO \<Longrightarrow> i < btf_vlen t \<Longrightarrow> unat (p_type (btf_params t i)) < btf__type_cnt b"
    using n [of "3 + (2 * i + 1)"] unfolding words_nth(2) by (simp add: id_pos_def btf_params_def)
  show "btf_kind t \<in> {BTF_KIND_STRUCT, BTF_KIND_UNION} \<Longrightarrow> i < btf_vlen t \<Longrightarrow>
      unat (m_type (btf_members t i)) < btf__type_cnt b"
    using n [of "3 + (3 * i + 1)"] unfolding words_nth(2) by (auto simp: id_pos_def btf_members_def)
qed

lemma ref_names:
  assumes "type_refs_ok b t"
  shows "btf__name_by_offset b (unat (name_off t)) \<noteq> None"
    and "btf_kind t \<in> {BTF_KIND_STRUCT, BTF_KIND_UNION} \<Longrightarrow> i < btf_vlen t \<Longrightarrow>
      btf__name_by_offset b (unat (m_name_off (btf_members t i))) \<noteq> None"
    and "btf_is_any_enum t \<Longrightarrow> i < btf_vlen t \<Longrightarrow> btf__name_by_offset b (enum_name_off t i) \<noteq> None"
proof -
  have n: "btf__name_by_offset b (unat (type_words t ! j)) \<noteq> None" if "j \<in> set (str_pos t)" for j
    using assms that by (auto simp: type_refs_ok_def)
  show "btf__name_by_offset b (unat (name_off t)) \<noteq> None" using n [of 0] by (simp add: str_pos_def words_nth)
  show "btf_kind t \<in> {BTF_KIND_STRUCT, BTF_KIND_UNION} \<Longrightarrow> i < btf_vlen t \<Longrightarrow>
      btf__name_by_offset b (unat (m_name_off (btf_members t i))) \<noteq> None"
    using n [of "3 + 3 * i"] by (auto simp: str_pos_def words_nth btf_members_def)
  show "btf_is_any_enum t \<Longrightarrow> i < btf_vlen t \<Longrightarrow> btf__name_by_offset b (enum_name_off t i) \<noteq> None"
    using n [of "3 + 2 * i"] n [of "3 + 3 * i"]
    by (auto simp: str_pos_def words_nth enum_name_off_def btf_enum_def btf_enum64_def btf_is_defs)
qed

section \<open>Compatibility\<close>

definition core_result :: "int option \<Rightarrow> bool" where
  "core_result r \<longleftrightarrow> r \<in> {Some (- EINVAL), Some 0, Some 1}"

lemma core_resultI [simp]: "core_result (Some (- EINVAL))" "core_result (Some 0)" "core_result (Some 1)"
  "core_result (Some (of_bool x))" "core_result (Some (- 22))"
  by (auto simp: core_result_def errno_defs)

lemma core_resultE:
  assumes "core_result r" obtains "r = Some (- EINVAL)" | "r = Some 0" | "r = Some 1"
  using assms by (auto simp: core_result_def)

text \<open>The results a type compared with itself may have.\<close>

definition core_self :: "int option \<Rightarrow> bool" where
  "core_self r \<longleftrightarrow> r \<in> {Some 1, Some (- EINVAL)}"

lemma core_selfI [simp]: "core_self (Some (- EINVAL))" "core_self (Some 1)" "core_self (Some (- 22))"
  by (simp_all add: core_self_def errno_defs)

lemma core_selfE:
  assumes "core_self r" obtains "r = Some (- EINVAL)" | "r = Some 1"
  using assms by (auto simp: core_self_def)

lemma compat_params_result:
  assumes lb: "refs_ok lb" "type_refs_ok lb lt" "btf_kind lt = BTF_KIND_FUNC_PROTO"
    and tb: "refs_ok tb" "type_refs_ok tb tt" "btf_kind tt = BTF_KIND_FUNC_PROTO" "btf_vlen tt = btf_vlen lt"
    and rec: "\<And>f l t. rec = Some f \<Longrightarrow> l < btf__type_cnt lb \<Longrightarrow> t < btf__type_cnt tb \<Longrightarrow> core_result (f l t)"
    and "set is \<subseteq> {..<btf_vlen lt}"
  shows "core_result (compat_params rec lb lt tb tt is)"
  using assms(9)
proof (induction "is")
  case (Cons i "is")
  then have i: "i < btf_vlen lt" by simp
  show ?case
  proof (cases rec)
    case (Some f)
    obtain t1 l where l: "skip_mods_and_typedefs lb (unat (p_type (btf_params lt i))) = Some (t1, l)" "l < btf__type_cnt lb"
      using skip_ok [OF lb(1) ref_ids(3) [OF lb(2,3) i]] .
    obtain t2 t where t: "skip_mods_and_typedefs tb (unat (p_type (btf_params tt i))) = Some (t2, t)" "t < btf__type_cnt tb"
      using skip_ok [OF tb(1) ref_ids(3) [OF tb(2,3)], of i] i tb(4) by metis
    from rec [OF Some l(2) t(2)] Cons show ?thesis
      by (auto simp: Some l t errno_defs elim!: core_resultE)
  qed simp
qed simp

lemma compat_kinds:
  "btf_kind_core_compat s t \<Longrightarrow> btf_kind s = btf_kind t \<or> btf_is_any_enum s \<and> btf_is_any_enum t"
  by (auto simp: btf_kind_core_compat_def btf_kind_def)

lemma compat_recur_result:
  assumes lb: "refs_ok lb" and tb: "refs_ok tb"
    and rec: "\<And>f l t. rec = Some f \<Longrightarrow> l < btf__type_cnt lb \<Longrightarrow> t < btf__type_cnt tb \<Longrightarrow> core_result (f l t)"
  shows "l < btf__type_cnt lb \<Longrightarrow> t < btf__type_cnt tb \<Longrightarrow> core_result (compat_recur rec depth lb l tb t)"
proof (induction depth arbitrary: l t)
  case (Suc depth)
  obtain lt l' where l: "skip_mods_and_typedefs lb l = Some (lt, l')" "type_refs_ok lb lt"
    using skip_ok [OF lb Suc.prems(1)] by metis
  obtain tt t' where t: "skip_mods_and_typedefs tb t = Some (tt, t')" "type_refs_ok tb tt"
    using skip_ok [OF tb Suc.prems(2)] by metis
  show ?case
  proof (cases "btf_kind_core_compat lt tt")
    case compat: True
    have same: "btf_kind tt = btf_kind lt" if "btf_kind lt \<in> {BTF_KIND_PTR, BTF_KIND_ARRAY, BTF_KIND_FUNC_PROTO}"
      using compat_kinds [OF compat] that by (auto simp: btf_is_defs)
    have proto: "core_result (compat_recur rec (Suc depth) lb l tb t)" if k: "btf_kind lt = BTF_KIND_FUNC_PROTO"
    proof (cases "btf_vlen lt = btf_vlen tt")
      case True
      have k': "btf_kind tt = BTF_KIND_FUNC_PROTO" using same k by simp
      have p: "core_result (compat_params rec lb lt tb tt [0..<btf_vlen lt])"
        by (rule compat_params_result [OF lb l(2) k tb t(2) k' True [symmetric]]) (use rec in auto)
      obtain r1 l1 where r1: "skip_mods_and_typedefs lb (unat (size_type lt)) = Some (r1, l1)" "l1 < btf__type_cnt lb"
        using skip_ok [OF lb ref_ids(1) [OF l(2)]] k by (metis insertI1 insertI2)
      obtain r2 t1 where r2: "skip_mods_and_typedefs tb (unat (size_type tt)) = Some (r2, t1)" "t1 < btf__type_cnt tb"
        using skip_ok [OF tb ref_ids(1) [OF t(2)]] k' by (metis insertI1 insertI2)
      from p Suc.IH [OF r1(2) r2(2)] show ?thesis
        by (auto simp: l t compat k True r1 r2 errno_defs elim!: core_resultE)
    qed (simp add: l t compat k)
    show ?thesis
      using proto Suc.IH [OF ref_ids(1) [OF l(2)] ref_ids(1) [OF t(2)]]
        Suc.IH [OF ref_ids(2) [OF l(2)] ref_ids(2) [OF t(2)]] same
      by (cases "btf_kind lt") (simp_all add: l t compat)
  qed (simp add: l t)
qed simp

lemma compat_result:
  assumes lb: "refs_ok lb" and tb: "refs_ok tb"
  shows "l < btf__type_cnt lb \<Longrightarrow> t < btf__type_cnt tb \<Longrightarrow> core_result (core_types_are_compat level lb l tb t)"
proof (induction level arbitrary: l t)
  case 0
  then show ?case using compat_recur_result [OF lb tb, of None] by (simp add: compat_entry_def btf__type_by_id_def)
next
  case (Suc level)
  have "core_result (compat_recur (Some (\<lambda>l t. core_types_are_compat level lb l tb t)) MAX_CORE_DEPTH lb l tb t)"
    by (rule compat_recur_result [OF lb tb _ Suc.prems]) (use Suc.IH in auto)
  with Suc.prems show ?case by (simp add: compat_entry_def btf__type_by_id_def)
qed

text \<open>Symmetry.\<close>

lemma kind_core_compat_sym: "btf_kind_core_compat s t = btf_kind_core_compat t s"
  by (auto simp: btf_kind_core_compat_def)

lemma compat_params_sym:
  assumes "rel_option (\<lambda>f f'. \<forall>l t. f l t = f' t l) rec rec'"
  shows "compat_params rec lb lt tb tt is = compat_params rec' tb tt lb lt is"
proof (induction "is")
  case (Cons i "is")
  show ?case
  proof (cases rec)
    case None
    with assms show ?thesis by simp
  next
    case (Some f)
    then obtain f' where f': "rec' = Some f'" "\<And>l t. f l t = f' t l" using assms by (cases rec') auto
    show ?thesis using Cons unfolding Some f'(1)
      by (cases "skip_mods_and_typedefs lb (unat (p_type (btf_params lt i)))";
          cases "skip_mods_and_typedefs tb (unat (p_type (btf_params tt i)))") (auto simp: f'(2) intro!: Option.bind_cong)
  qed
qed simp

lemma compat_recur_sym:
  assumes "rel_option (\<lambda>f f'. \<forall>l t. f l t = f' t l) rec rec'"
  shows "compat_recur rec depth lb l tb t = compat_recur rec' depth tb t lb l"
proof (induction depth arbitrary: l t)
  case (Suc depth)
  show ?case
  proof (cases "skip_mods_and_typedefs lb l = None \<or> skip_mods_and_typedefs tb t = None")
    case False
    then obtain lt l' tt t' where s: "skip_mods_and_typedefs lb l = Some (lt, l')" "skip_mods_and_typedefs tb t = Some (tt, t')"
      by auto
    show ?thesis
    proof (cases "btf_kind_core_compat lt tt")
      case compat: True
      have c: "btf_kind_core_compat tt lt" using compat kind_core_compat_sym by blast
      show ?thesis
      proof (cases "btf_kind lt = btf_kind tt")
        case False
        then have "btf_is_any_enum lt" "btf_is_any_enum tt" using compat_kinds [OF compat] by auto
        then show ?thesis by (auto simp: s compat c btf_is_defs)
      next
        case True
        have proto: "compat_recur rec (Suc depth) lb l tb t = compat_recur rec' (Suc depth) tb t lb l"
          if k: "btf_kind tt = BTF_KIND_FUNC_PROTO"
        proof (cases "btf_vlen lt = btf_vlen tt")
          case vlen: True
          show ?thesis
            using True k vlen compat_params_sym [OF assms, of lb lt tb tt "[0..<btf_vlen tt]"] Suc.IH
            by (cases "skip_mods_and_typedefs lb (unat (size_type lt))"; cases "skip_mods_and_typedefs tb (unat (size_type tt))")
              (auto simp: s compat c intro!: Option.bind_cong)
        qed (use True k in \<open>auto simp: s compat c\<close>)
        show ?thesis using proto True Suc.IH by (cases "btf_kind tt") (auto simp: s compat c)
      qed
    qed (simp add: s kind_core_compat_sym [of tt])
  qed (cases "skip_mods_and_typedefs lb l"; cases "skip_mods_and_typedefs tb t"; auto)
qed simp

lemma compat_sym: "core_types_are_compat level lb l tb t = core_types_are_compat level tb t lb l"
proof (induction level arbitrary: l t)
  case 0
  show ?case using compat_recur_sym [of None None MAX_CORE_DEPTH lb l tb t] kind_core_compat_sym
    by (cases "btf__type_by_id lb l"; cases "btf__type_by_id tb t") (auto simp: compat_entry_def)
next
  case (Suc level)
  then have r: "rel_option (\<lambda>f f'. \<forall>l t. f l t = f' t l) (Some (\<lambda>l t. core_types_are_compat level lb l tb t))
      (Some (\<lambda>t l. core_types_are_compat level tb t lb l))" by simp
  show ?case using compat_recur_sym [OF r, of MAX_CORE_DEPTH lb l tb t] kind_core_compat_sym
    by (cases "btf__type_by_id lb l"; cases "btf__type_by_id tb t") (auto simp: compat_entry_def)
qed

section \<open>Matching\<close>

lemma names_match_defined:
  assumes "btf__name_by_offset lb lo \<noteq> None" "btf__name_by_offset tb to' \<noteq> None"
  obtains m where "bpf_core_names_match lb lo tb to' = Some m"
proof -
  obtain l t where n: "btf__name_by_offset lb lo = Some l" "btf__name_by_offset tb to' = Some t" using assms by auto
  show thesis
    by (rule that [of "if t = [] then l = [] else
        bpf_core_essential_name_len t = bpf_core_essential_name_len l \<and> strncmp_eq l t (bpf_core_essential_name_len l)"])
      (simp add: bpf_core_names_match_def n str_is_empty_def Let_def)
qed

lemma names_match_refl: "btf__name_by_offset b n \<noteq> None \<Longrightarrow> bpf_core_names_match b n b n = Some True"
  by (auto simp: bpf_core_names_match_def Let_def strncmp_eq_def)

lemma enum_find_result:
  assumes "btf__name_by_offset lb lo \<noteq> None" "\<And>j. j \<in> set js \<Longrightarrow> btf__name_by_offset tb (enum_name_off tt j) \<noteq> None"
  shows "\<exists>m. enum_find lb lo tb tt js = Some m \<and>
    (\<forall>j\<in>set js. bpf_core_names_match lb lo tb (enum_name_off tt j) = Some True \<longrightarrow> m)"
  using assms(2)
proof (induction js)
  case (Cons j js)
  obtain m where m: "bpf_core_names_match lb lo tb (enum_name_off tt j) = Some m"
    using names_match_defined [OF assms(1) Cons.prems] by auto
  obtain r where "enum_find lb lo tb tt js = Some r"
    "\<forall>j\<in>set js. bpf_core_names_match lb lo tb (enum_name_off tt j) = Some True \<longrightarrow> r"
    using Cons by auto
  with m show ?case by (cases m) auto
qed auto

lemma enum_all_result:
  assumes "\<And>i. i \<in> set is \<Longrightarrow> btf__name_by_offset lb (enum_name_off lt i) \<noteq> None"
    and "\<And>j. j < btf_vlen tt \<Longrightarrow> btf__name_by_offset tb (enum_name_off tt j) \<noteq> None"
  shows "core_result (enum_all lb lt tb tt is)"
    and "(\<And>i. i \<in> set is \<Longrightarrow> \<exists>j<btf_vlen tt. bpf_core_names_match lb (enum_name_off lt i) tb (enum_name_off tt j) = Some True) \<Longrightarrow>
      enum_all lb lt tb tt is = Some 1"
proof -
  have find: "\<exists>m. enum_find lb (enum_name_off lt i) tb tt [0..<btf_vlen tt] = Some m \<and>
    (\<forall>j\<in>{..<btf_vlen tt}. bpf_core_names_match lb (enum_name_off lt i) tb (enum_name_off tt j) = Some True \<longrightarrow> m)"
    if "i \<in> set is" for i
    using enum_find_result [OF assms(1) [OF that], of "[0..<btf_vlen tt]" tb tt] assms(2) by fastforce
  show "core_result (enum_all lb lt tb tt is)" using find
  proof (induction "is")
    case (Cons i "is")
    then obtain m where "enum_find lb (enum_name_off lt i) tb tt [0..<btf_vlen tt] = Some m" by auto
    with Cons show ?case by auto
  qed simp
  show "enum_all lb lt tb tt is = Some 1"
    if "\<And>i. i \<in> set is \<Longrightarrow> \<exists>j<btf_vlen tt. bpf_core_names_match lb (enum_name_off lt i) tb (enum_name_off tt j) = Some True"
    using find that
  proof (induction "is")
    case (Cons i "is")
    obtain m where m: "enum_find lb (enum_name_off lt i) tb tt [0..<btf_vlen tt] = Some m"
      "\<forall>j\<in>{..<btf_vlen tt}. bpf_core_names_match lb (enum_name_off lt i) tb (enum_name_off tt j) = Some True \<longrightarrow> m"
      using Cons.prems(1) by auto
    moreover obtain j where "j < btf_vlen tt" "bpf_core_names_match lb (enum_name_off lt i) tb (enum_name_off tt j) = Some True"
      using Cons.prems(2) by auto
    ultimately show ?case using Cons by auto
  qed simp
qed

lemma enums_match_result:
  assumes "type_refs_ok lb lt" "btf_is_any_enum lt" "type_refs_ok tb tt" "btf_is_any_enum tt"
  shows "core_result (bpf_core_enums_match lb lt tb tt)"
  using enum_all_result(1) [of "[0..<btf_vlen lt]" lb lt tt tb] ref_names(3) [OF assms(1,2)] ref_names(3) [OF assms(3,4)]
  by (simp add: bpf_core_enums_match_def Let_def)

lemma enums_match_refl:
  assumes "type_refs_ok b t" "btf_is_any_enum t" shows "bpf_core_enums_match b t b t = Some 1"
proof -
  have "enum_all b t b t [0..<btf_vlen t] = Some 1"
    using ref_names(3) [OF assms] names_match_refl by (intro enum_all_result(2)) auto
  then show ?thesis by (simp add: bpf_core_enums_match_def)
qed

lemma member_find_result:
  assumes lm: "btf__name_by_offset lb (unat (m_name_off lm)) \<noteq> None"
    and tt: "\<And>j. j \<in> set js \<Longrightarrow> btf__name_by_offset tb (unat (m_name_off (btf_members tt j))) \<noteq> None"
    and rec: "\<And>j. j \<in> set js \<Longrightarrow> core_result (rec (unat (m_type lm)) (unat (m_type (btf_members tt j))))"
  shows "core_result (member_find rec lb lm tb tt js)"
    and "j \<in> set js \<Longrightarrow> bpf_core_names_match lb (unat (m_name_off lm)) tb (unat (m_name_off (btf_members tt j))) = Some True \<Longrightarrow>
      core_self (rec (unat (m_type lm)) (unat (m_type (btf_members tt j)))) \<Longrightarrow>
      core_self (member_find rec lb lm tb tt js)"
proof -
  show "core_result (member_find rec lb lm tb tt js)" using tt rec
  proof (induction js)
    case (Cons j js)
    obtain m where m: "bpf_core_names_match lb (unat (m_name_off lm)) tb (unat (m_name_off (btf_members tt j))) = Some m"
      using names_match_defined [OF lm Cons.prems(1)] by auto
    have "core_result (rec (unat (m_type lm)) (unat (m_type (btf_members tt j))))" using Cons.prems(2) by simp
    then show ?case by (rule core_resultE) (use Cons m in \<open>auto simp: errno_defs\<close>)
  qed simp
  show "j \<in> set js \<Longrightarrow> bpf_core_names_match lb (unat (m_name_off lm)) tb (unat (m_name_off (btf_members tt j))) = Some True \<Longrightarrow>
      core_self (rec (unat (m_type lm)) (unat (m_type (btf_members tt j)))) \<Longrightarrow>
      core_self (member_find rec lb lm tb tt js)"
    using tt rec
  proof (induction js)
    case (Cons k js)
    obtain m where m: "bpf_core_names_match lb (unat (m_name_off lm)) tb (unat (m_name_off (btf_members tt k))) = Some m"
      using names_match_defined [OF lm Cons.prems(4)] by auto
    have c: "core_result (rec (unat (m_type lm)) (unat (m_type (btf_members tt k))))" using Cons.prems(5) by simp
    show ?case
    proof (cases "j = k")
      case True
      with Cons.prems(2,3) show ?thesis by (auto simp: errno_defs elim!: core_selfE)
    next
      case False
      with Cons have "core_self (member_find rec lb lm tb tt js)" by auto
      with c show ?thesis by (elim core_resultE) (use m in \<open>auto simp: errno_defs elim!: core_selfE\<close>)
    qed
  qed simp
qed

lemma composites_all_result:
  assumes "\<And>i. i \<in> set is \<Longrightarrow> core_result (member_find rec lb (btf_members lt i) tb tt [0..<btf_vlen tt])"
  shows "core_result (composites_all rec lb lt tb tt is)"
    and "(\<And>i. i \<in> set is \<Longrightarrow> core_self (member_find rec lb (btf_members lt i) tb tt [0..<btf_vlen tt])) \<Longrightarrow>
      core_self (composites_all rec lb lt tb tt is)"
proof -
  show "core_result (composites_all rec lb lt tb tt is)" using assms
  proof (induction "is")
    case (Cons i "is")
    have "core_result (member_find rec lb (btf_members lt i) tb tt [0..<btf_vlen tt])" using Cons.prems by simp
    then show ?case by (rule core_resultE) (use Cons in \<open>auto simp: errno_defs\<close>)
  qed simp
  show "(\<And>i. i \<in> set is \<Longrightarrow> core_self (member_find rec lb (btf_members lt i) tb tt [0..<btf_vlen tt])) \<Longrightarrow>
      core_self (composites_all rec lb lt tb tt is)"
  proof (induction "is")
    case (Cons i "is")
    have "core_self (member_find rec lb (btf_members lt i) tb tt [0..<btf_vlen tt])" using Cons.prems by simp
    then show ?case by (rule core_selfE) (use Cons in \<open>auto simp: errno_defs\<close>)
  qed simp
qed

lemma composites_match_result:
  assumes l: "type_refs_ok lb lt" "btf_kind lt \<in> {BTF_KIND_STRUCT, BTF_KIND_UNION}"
    and t: "type_refs_ok tb tt" "btf_kind tt \<in> {BTF_KIND_STRUCT, BTF_KIND_UNION}"
    and rec: "\<And>l t. l < btf__type_cnt lb \<Longrightarrow> t < btf__type_cnt tb \<Longrightarrow> core_result (rec l t)"
  shows "core_result (bpf_core_composites_match rec lb lt tb tt)"
proof -
  have "core_result (member_find rec lb (btf_members lt i) tb tt [0..<btf_vlen tt])" if "i < btf_vlen lt" for i
    using ref_names(2) [OF l that] ref_names(2) [OF t] rec [OF ref_ids(4) [OF l that] ref_ids(4) [OF t]]
    by (intro member_find_result(1)) auto
  then show ?thesis using composites_all_result(1) [of "[0..<btf_vlen lt]" rec lb lt tb tt]
    by (simp add: bpf_core_composites_match_def Let_def)
qed

lemma composites_match_refl:
  assumes t: "type_refs_ok b t" "btf_kind t \<in> {BTF_KIND_STRUCT, BTF_KIND_UNION}"
    and rec: "\<And>l t. l < btf__type_cnt b \<Longrightarrow> t < btf__type_cnt b \<Longrightarrow> core_result (rec l t)"
    and refl: "\<And>i. i < btf_vlen t \<Longrightarrow> core_self (rec (unat (m_type (btf_members t i))) (unat (m_type (btf_members t i))))"
  shows "core_self (bpf_core_composites_match rec b t b t)"
proof -
  have find: "core_self (member_find rec b (btf_members t i) b t [0..<btf_vlen t]) \<and>
      core_result (member_find rec b (btf_members t i) b t [0..<btf_vlen t])" if "i < btf_vlen t" for i
    using ref_names(2) [OF t that] ref_names(2) [OF t] rec [OF ref_ids(4) [OF t that] ref_ids(4) [OF t]] that refl [OF that]
      names_match_refl
    by (intro conjI member_find_result(2) [where j = i] member_find_result(1)) auto
  then show ?thesis
    using composites_all_result(2) [of "[0..<btf_vlen t]" rec b t b t] by (simp add: bpf_core_composites_match_def Let_def)
qed

lemma match_params_result:
  assumes "\<And>i. i \<in> set is \<Longrightarrow> core_result (rec (unat (p_type (btf_params lt i))) (unat (p_type (btf_params tt i))))"
  shows "core_result (match_params rec lt tt is)"
    and "(\<And>i. i \<in> set is \<Longrightarrow> core_self (rec (unat (p_type (btf_params lt i))) (unat (p_type (btf_params tt i))))) \<Longrightarrow>
      core_self (match_params rec lt tt is)"
proof -
  show "core_result (match_params rec lt tt is)" using assms
  proof (induction "is")
    case (Cons i "is")
    have "core_result (rec (unat (p_type (btf_params lt i))) (unat (p_type (btf_params tt i))))" using Cons.prems by simp
    then show ?case by (rule core_resultE) (use Cons in \<open>auto simp: errno_defs\<close>)
  qed simp
  show "(\<And>i. i \<in> set is \<Longrightarrow> core_self (rec (unat (p_type (btf_params lt i))) (unat (p_type (btf_params tt i))))) \<Longrightarrow>
      core_self (match_params rec lt tt is)"
  proof (induction "is")
    case (Cons i "is")
    have "core_self (rec (unat (p_type (btf_params lt i))) (unat (p_type (btf_params tt i))))" using Cons.prems by simp
    then show ?case by (rule core_selfE) (use Cons in \<open>auto simp: errno_defs\<close>)
  qed simp
qed

lemma match_recur_result:
  assumes lb: "refs_ok lb" and tb: "refs_ok tb"
    and rec: "\<And>bp l t. l < btf__type_cnt lb \<Longrightarrow> t < btf__type_cnt tb \<Longrightarrow> core_result (rec bp l t)"
  shows "l < btf__type_cnt lb \<Longrightarrow> t < btf__type_cnt tb \<Longrightarrow> core_result (match_recur rec depth lb l tb t bp)"
proof (induction depth arbitrary: l t bp)
  case (Suc depth)
  obtain lt l' where l: "skip_mods_and_typedefs lb l = Some (lt, l')" "type_refs_ok lb lt"
    using skip_ok [OF lb Suc.prems(1)] by metis
  obtain tt t' where t: "skip_mods_and_typedefs tb t = Some (tt, t')" "type_refs_ok tb tt"
    using skip_ok [OF tb Suc.prems(2)] by metis
  obtain m where m: "bpf_core_names_match lb (unat (name_off lt)) tb (unat (name_off tt)) = Some m"
    using names_match_defined [OF ref_names(1) [OF l(2)] ref_names(1) [OF t(2)]] .
  have params: "core_result (match_params (rec bp) lt tt [0..<btf_vlen tt])"
    if "btf_kind lt = BTF_KIND_FUNC_PROTO" "btf_kind tt = BTF_KIND_FUNC_PROTO" "btf_vlen lt = btf_vlen tt"
    using rec [OF ref_ids(3) [OF l(2) that(1)] ref_ids(3) [OF t(2) that(2)]] that(3)
    by (intro match_params_result(1)) auto
  have proto: "core_result (match_recur rec (Suc depth) lb l tb t bp)" if k: "btf_kind lt = BTF_KIND_FUNC_PROTO"
  proof (cases "m \<and> btf_kind tt = BTF_KIND_FUNC_PROTO \<and> btf_vlen lt = btf_vlen tt")
    case True
    with params k have "core_result (match_params (rec bp) lt tt [0..<btf_vlen tt])" by simp
    then show ?thesis
      by (rule core_resultE)
        (use True k Suc.IH [OF ref_ids(1) [OF l(2)] ref_ids(1) [OF t(2)]] in \<open>auto simp: l t m errno_defs\<close>)
  qed (auto simp: l t m k Let_def)
  show ?case
    using proto Suc.IH [OF ref_ids(1) [OF l(2)] ref_ids(1) [OF t(2)]]
      Suc.IH [OF ref_ids(2) [OF l(2)] ref_ids(2) [OF t(2)]]
      enums_match_result [OF l(2) _ t(2)] composites_match_result [OF l(2) _ t(2), of "rec False"] rec
    by (cases "btf_kind lt") (simp_all add: l t m Let_def btf_is_defs)
qed simp

lemma match_result:
  assumes "refs_ok lb" "refs_ok tb"
  shows "l < btf__type_cnt lb \<Longrightarrow> t < btf__type_cnt tb \<Longrightarrow> core_result (core_types_match level lb l tb t bp)"
proof (induction level arbitrary: l t bp)
  case (Suc level)
  then show ?case by (auto intro: match_recur_result [OF assms])
qed simp

text \<open>A type matches itself when the types it is made of are of the kinds the comparison knows.\<close>

definition match_kinds :: "btf_kinds set" where
  "match_kinds = {BTF_KIND_UNKN, BTF_KIND_INT, BTF_KIND_PTR, BTF_KIND_ARRAY, BTF_KIND_STRUCT, BTF_KIND_UNION,
     BTF_KIND_ENUM, BTF_KIND_FWD, BTF_KIND_FUNC_PROTO, BTF_KIND_ENUM64}"

definition match_closed :: "btf list \<Rightarrow> nat set \<Rightarrow> bool" where
  "match_closed b S \<longleftrightarrow> (\<forall>i\<in>S. i < btf__type_cnt b \<and>
     (\<forall>t j. skip_mods_and_typedefs b i = Some (t, j) \<longrightarrow>
        btf_kind t \<in> match_kinds \<and> (\<forall>k\<in>set (id_pos t). unat (type_words t ! k) \<in> S)))"

lemma match_closed_ref:
  assumes "match_closed b S" "i \<in> S" "skip_mods_and_typedefs b i = Some (t, j)" "k \<in> set (id_pos t)"
  shows "unat (type_words t ! k) \<in> S"
  using assms by (auto simp: match_closed_def)

lemma match_recur_refl:
  assumes b: "refs_ok b" "match_closed b S"
    and rec: "\<And>bp l t. l < btf__type_cnt b \<Longrightarrow> t < btf__type_cnt b \<Longrightarrow> core_result (rec bp l t)"
    and refl: "\<And>bp l. l \<in> S \<Longrightarrow> core_self (rec bp l l)"
  shows "l \<in> S \<Longrightarrow> core_self (match_recur rec depth b l b l bp)"
proof (induction depth arbitrary: l bp)
  case (Suc depth)
  have "l < btf__type_cnt b" using Suc.prems b(2) by (simp add: match_closed_def)
  then obtain t l' where l: "skip_mods_and_typedefs b l = Some (t, l')" "type_refs_ok b t"
    using skip_ok [OF b(1)] by metis
  have k: "btf_kind t \<in> match_kinds" using b(2) Suc.prems l(1) by (auto simp: match_closed_def)
  note S = match_closed_ref [OF b(2) Suc.prems l(1)]
  have m: "bpf_core_names_match b (unat (name_off t)) b (unat (name_off t)) = Some True"
    by (rule names_match_refl [OF ref_names(1) [OF l(2)]])
  have pos: "btf_kind t \<in> {BTF_KIND_PTR, BTF_KIND_FUNC_PROTO} \<Longrightarrow> unat (size_type t) \<in> S"
    "btf_kind t = BTF_KIND_ARRAY \<Longrightarrow> unat (a_type (btf_array t)) \<in> S"
    "btf_kind t = BTF_KIND_FUNC_PROTO \<Longrightarrow> i < btf_vlen t \<Longrightarrow> unat (p_type (btf_params t i)) \<in> S"
    "btf_kind t \<in> {BTF_KIND_STRUCT, BTF_KIND_UNION} \<Longrightarrow> i < btf_vlen t \<Longrightarrow> unat (m_type (btf_members t i)) \<in> S" for i
    using S [of 2] S [of "3 + 0", unfolded words_nth(2)] S [of "3 + (2 * i + 1)", unfolded words_nth(2)]
      S [of "3 + (3 * i + 1)", unfolded words_nth(2)]
    by (auto simp: id_pos_def type_words_def btf_array_def btf_params_def btf_members_def)
  have proto: "core_self (match_recur rec (Suc depth) b l b l bp)" if k: "btf_kind t = BTF_KIND_FUNC_PROTO"
  proof -
    have "core_self (match_params (rec bp) t t [0..<btf_vlen t])"
      using refl [OF pos(3) [OF k]] rec [OF ref_ids(3) [OF l(2) k] ref_ids(3) [OF l(2) k]]
      by (intro match_params_result(2)) auto
    then show ?thesis
      by (rule core_selfE) (use k Suc.IH [OF pos(1)] in \<open>auto simp: l m Let_def errno_defs\<close>)
  qed
  have comp: "core_self (bpf_core_composites_match (rec False) b t b t)" if "btf_kind t \<in> {BTF_KIND_STRUCT, BTF_KIND_UNION}"
    using refl [OF pos(4) [OF that]] rec by (intro composites_match_refl [OF l(2) that]) auto
  show ?case
    using proto k Suc.IH [OF pos(1)] Suc.IH [OF pos(2)] enums_match_refl [OF l(2)] comp
    by (cases "btf_kind t") (simp_all add: l m Let_def btf_is_defs match_kinds_def)
qed simp

lemma match_refl:
  assumes "refs_ok b" "match_closed b S"
  shows "l \<in> S \<Longrightarrow> core_self (core_types_match level b l b l bp)"
proof (induction level arbitrary: l bp)
  case (Suc level)
  then show ?case using match_result [OF assms(1,1)] by (auto intro!: match_recur_refl [OF assms])
qed simp

end
