(* ===== verification/Relo_Path.thy ===== *)
theory Relo_Path
  imports Relo_Calc Relo_Compat
begin

text \<open>
  What the specifications of a field relocation mean. An access path is a list of named fields and array
  indices, the way C code writes it; \<open>field_path\<close> is its bit offset in a BTF object. The specification of
  the local type and the one found for the kernel's type describe the same path.
\<close>

section \<open>Access paths\<close>

datatype access = Field "u8 list" | Index u32

text \<open>From a type down through unnamed members, which add their offsets.\<close>

inductive anon :: "btf list \<Rightarrow> nat \<Rightarrow> u32 \<Rightarrow> nat \<Rightarrow> bool" for b where
  anon_here: "anon b i 0 i"
| anon_down: "skip_mods_and_typedefs b i = Some (t, j) \<Longrightarrow> btf_is_composite t \<Longrightarrow> k < btf_vlen t \<Longrightarrow>
    str_is_empty (btf__name_by_offset b (unat (m_name_off (btf_members t k)))) \<Longrightarrow>
    anon b (unat (m_type (btf_members t k))) off i' \<Longrightarrow> anon b i (btf_member_bit_offset t k + off) i'"

text \<open>The \<open>k\<close>th member of type \<open>j\<close> has the name and lies at the offset in type \<open>i\<close>.\<close>

inductive has_member :: "btf list \<Rightarrow> nat \<Rightarrow> u8 list \<Rightarrow> nat \<Rightarrow> nat \<Rightarrow> u32 \<Rightarrow> bool" for b where
  member_here: "skip_mods_and_typedefs b i = Some (t, j) \<Longrightarrow> btf_is_composite t \<Longrightarrow> k < btf_vlen t \<Longrightarrow>
    btf__name_by_offset b (unat (m_name_off (btf_members t k))) = Some n \<Longrightarrow> n \<noteq> [] \<Longrightarrow>
    has_member b i n j k (btf_member_bit_offset t k)"
| member_down: "skip_mods_and_typedefs b i = Some (t, j) \<Longrightarrow> btf_is_composite t \<Longrightarrow> k < btf_vlen t \<Longrightarrow>
    str_is_empty (btf__name_by_offset b (unat (m_name_off (btf_members t k)))) \<Longrightarrow>
    has_member b (unat (m_type (btf_members t k))) n j' k' off \<Longrightarrow>
    has_member b i n j' k' (btf_member_bit_offset t k + off)"

lemma anon_member: "anon b i off i' \<Longrightarrow> has_member b i' n j k off' \<Longrightarrow> has_member b i n j k (off + off')"
  by (induction rule: anon.induct) (auto simp: add.assoc intro: member_down)

lemma anon_trans: "anon b i off i' \<Longrightarrow> anon b i' off' i'' \<Longrightarrow> anon b i (off + off') i''"
  by (induction rule: anon.induct) (auto simp: add.assoc intro: anon_down)

lemma has_member_type: "has_member b i n j k off \<Longrightarrow> \<exists>t. btf__type_by_id b j = Some t \<and> k < btf_vlen t"
proof (induction rule: has_member.induct)
  case (member_here i t j k n)
  with skip_end [OF member_here(1)] show ?case by (auto simp: btf__type_by_id_def)
qed

definition size_bits :: "btf list \<Rightarrow> nat \<Rightarrow> u32" where
  "size_bits b i = word_of_int (btf__resolve_size b i) * 8"

inductive acc_path :: "btf list \<Rightarrow> nat \<Rightarrow> access list \<Rightarrow> u32 \<Rightarrow> nat \<Rightarrow> bool" for b where
  path_end: "acc_path b i [] 0 i"
| path_field: "has_member b i n j k off \<Longrightarrow> btf__type_by_id b j = Some t \<Longrightarrow>
    acc_path b (unat (m_type (btf_members t k))) p off' i' \<Longrightarrow> acc_path b i (Field n # p) (off + off') i'"
| path_index: "anon b i pend i0 \<Longrightarrow> skip_mods_and_typedefs b i0 = Some (t, j) \<Longrightarrow> btf_is_array t \<Longrightarrow>
    skip_mods_and_typedefs b (unat (a_type (btf_array t))) = Some (t', e) \<Longrightarrow>
    acc_path b e p off i' \<Longrightarrow> acc_path b i (Index x # p) (pend + x * size_bits b e + off) i'"

lemma path_append: "acc_path b i p off i' \<Longrightarrow> acc_path b i' q off' i'' \<Longrightarrow> acc_path b i (p @ q) (off + off') i''"
proof (induction rule: acc_path.induct)
  case (path_field i n j k off t p off' i')
  then show ?case using acc_path.path_field [OF path_field(1,2)] by (simp add: add.assoc)
next
  case (path_index i pend i0 t j t' e p off i' x)
  then show ?case using acc_path.path_index [OF path_index(1-4)] by (simp add: add.assoc)
qed simp

text \<open>The first index moves the pointer the path starts from.\<close>

definition field_path :: "btf list \<Rightarrow> nat \<Rightarrow> access list \<Rightarrow> u32 \<Rightarrow> nat \<Rightarrow> bool" where
  "field_path b i p off i' \<longleftrightarrow>
     (\<exists>x q t j off'. p = Index x # q \<and> skip_mods_and_typedefs b i = Some (t, j) \<and> acc_path b j q off' i' \<and>
        off = x * size_bits b j + off')"

definition access_of :: "bpf_core_accessor \<Rightarrow> access" where
  "access_of acc = (case acc_name acc of None \<Rightarrow> Index (acc_idx acc) | Some n \<Rightarrow> Field n)"

lemma access_of_named [simp]: "acc_name acc = Some n \<Longrightarrow> access_of acc = Field n"
  and access_of_index [simp]: "acc_name acc = None \<Longrightarrow> access_of acc = Index (acc_idx acc)"
  by (simp_all add: access_of_def)

text \<open>A named accessor has the name of the member it denotes.\<close>

definition acc_ok :: "btf list \<Rightarrow> bpf_core_accessor \<Rightarrow> bool" where
  "acc_ok b acc \<longleftrightarrow>
     (\<forall>n. acc_name acc = Some n \<longrightarrow> n \<noteq> [] \<and>
        (\<exists>t. btf__type_by_id b (acc_type_id acc) = Some t \<and> unat (acc_idx acc) < btf_vlen t \<and>
           btf__name_by_offset b (unat (m_name_off (btf_members t (unat (acc_idx acc))))) = Some n))"

section \<open>The local specification\<close>

lemma word_index: "0 \<le> x \<Longrightarrow> x < int n \<Longrightarrow> n < 2 ^ 32 \<Longrightarrow> unat (word_of_int x :: u32) = nat x"
  by (simp add: unat_eq_nat_uint uint_word_of_int)

lemma parse_fields_path:
  assumes "parse_fields b raw i spec = Some (Inr spec')" and zero: "btf__name_by_offset b 0 = Some []"
    and "acc_path b r (map access_of accs) off c" "anon b c pend i" "sp_accs spec = acc0 # accs"
    and "sp_bit_offset spec = base + off + pend" "list_all (acc_ok b) (sp_accs spec)"
  shows "\<exists>accs' off' c' pend' i'. sp_accs spec' = acc0 # accs' \<and> acc_path b r (map access_of accs') off' c' \<and>
     anon b c' pend' i' \<and> sp_bit_offset spec' = base + off' + pend' \<and> list_all (acc_ok b) (sp_accs spec') \<and>
     sp_btf spec' = sp_btf spec \<and> sp_root spec' = sp_root spec \<and> sp_kind spec' = sp_kind spec"
  using assms(1,3-)
proof (induction raw arbitrary: i spec accs off c pend)
  case Nil
  then show ?case by auto
next
  case (Cons x raw)
  from Cons.prems(1) obtain t j where s: "skip_mods_and_typedefs b i = Some (t, j)"
    by (cases "skip_mods_and_typedefs b i") auto
  show ?case
  proof (cases "btf_is_composite t")
    case comp: True
    have x: "0 \<le> x" "x < int (btf_vlen t)"
      using Cons.prems(1) by (auto simp: s comp not_le split: if_splits)
    define k where "k = nat x"
    have k: "k < btf_vlen t" "unat (word_of_int x :: u32) = k"
      using x word_index [OF x] btf_vlen_less [of t] by (simp_all add: k_def)
    let ?m = "btf_members t k"
    let ?spec = "spec\<lparr>sp_bit_offset := sp_bit_offset spec + btf_member_bit_offset t k\<rparr>"
    show ?thesis
    proof (cases "m_name_off ?m = 0")
      case True
      then have r: "parse_fields b raw (unat (m_type ?m)) ?spec = Some (Inr spec')"
        using Cons.prems(1) x by (simp add: s comp k_def)
      have "anon b i (btf_member_bit_offset t k + 0) (unat (m_type ?m))"
        by (rule anon_down [OF s comp k(1)]) (simp_all add: True zero str_is_empty_def anon_here)
      with Cons.prems(3) have "anon b c (pend + btf_member_bit_offset t k) (unat (m_type ?m))"
        using anon_trans by fastforce
      from Cons.IH [OF r Cons.prems(2) this] Cons.prems(4-6) show ?thesis by (simp add: algebra_simps)
    next
      case False
      then obtain n where n: "btf__name_by_offset b (unat (m_name_off ?m)) = Some n" "n \<noteq> []"
        using Cons.prems(1) x by (auto simp: s comp k_def str_is_empty_def Let_def split: if_splits)
      let ?acc = "\<lparr>acc_type_id = j, acc_idx = word_of_int x, acc_name = Some n\<rparr>"
      have r: "parse_fields b raw (unat (m_type ?m)) (?spec\<lparr>sp_accs := sp_accs ?spec @ [?acc]\<rparr>) = Some (Inr spec')"
        using Cons.prems(1) x False n by (simp add: s comp k_def str_is_empty_def)
      have j: "btf__type_by_id b j = Some t" using skip_end [OF s] by (auto simp: btf__type_by_id_def)
      have "has_member b i n j k (btf_member_bit_offset t k)" by (rule member_here [OF s comp k(1) n])
      then have "has_member b c n j k (pend + btf_member_bit_offset t k)" by (rule anon_member [OF Cons.prems(3)])
      then have "acc_path b c [Field n] (pend + btf_member_bit_offset t k + 0) (unat (m_type ?m))"
        by (rule path_field [OF _ j path_end])
      from path_append [OF Cons.prems(2) this]
      have p: "acc_path b r (map access_of (accs @ [?acc])) (off + (pend + btf_member_bit_offset t k)) (unat (m_type ?m))"
        by simp
      have "acc_ok b ?acc" using n j k by (simp add: acc_ok_def)
      with Cons.IH [OF r p anon_here] Cons.prems(4-6) show ?thesis by (simp add: algebra_simps)
    qed
  next
    case comp: False
    then have arr: "btf_is_array t" using Cons.prems(1) by (auto simp: s split: if_splits)
    obtain t' e where e: "skip_mods_and_typedefs b (unat (a_type (btf_array t))) = Some (t', e)"
      using Cons.prems(1) by (cases "skip_mods_and_typedefs b (unat (a_type (btf_array t)))") (auto simp: s comp arr)
    let ?acc = "\<lparr>acc_type_id = e, acc_idx = word_of_int x, acc_name = None\<rparr>"
    let ?spec = "spec\<lparr>sp_accs := sp_accs spec @ [?acc],
      sp_bit_offset := sp_bit_offset spec + word_of_int (x * btf__resolve_size b e * 8)\<rparr>"
    have r: "parse_fields b raw e ?spec = Some (Inr spec')"
      using Cons.prems(1) by (cases "is_flex_arr b (last (sp_accs spec)) (btf_array t)")
        (auto simp: s comp arr e Let_def split: if_splits)
    have "acc_path b c [Index (word_of_int x)] (pend + word_of_int x * size_bits b e + 0) e"
      by (rule path_index [OF Cons.prems(3) s arr e path_end])
    from path_append [OF Cons.prems(2) this]
    have p: "acc_path b r (map access_of (accs @ [?acc])) (off + (pend + word_of_int x * size_bits b e)) e"
      by simp
    have "acc_ok b ?acc" by (simp add: acc_ok_def)
    then have "sp_accs ?spec = acc0 # (accs @ [?acc])" "list_all (acc_ok b) (sp_accs ?spec)"
      "sp_bit_offset ?spec = base + (off + (pend + word_of_int x * size_bits b e)) + 0"
      using Cons.prems(4-6) by (simp_all add: size_bits_def algebra_simps)
    with Cons.IH [OF r p anon_here] show ?thesis by (simp add: algebra_simps)
  qed
qed

lemma parse_spec_path:
  assumes "bpf_core_parse_spec b relo = Some (Inr spec)" and field: "core_relo_is_field_based (relo_kind relo)"
    and zero: "btf__name_by_offset b 0 = Some []"
  obtains acc0 accs t j off c pend i where "sp_accs spec = acc0 # accs" "acc_name acc0 = None"
    "list_all (acc_ok b) accs" "skip_mods_and_typedefs b (unat (type_id relo)) = Some (t, j)"
    "acc_path b j (map access_of accs) off c" "anon b c pend i"
    "sp_bit_offset spec = acc_idx acc0 * size_bits b j + off + pend"
    "sp_btf spec = b" "sp_root spec = type_id relo" "sp_kind spec = relo_kind relo"
proof -
  have "\<not> core_relo_is_type_based (relo_kind relo)" "\<not> core_relo_is_enumval_based (relo_kind relo)"
    using field by (auto simp: core_relo_is_field_based_def core_relo_is_type_based_def core_relo_is_enumval_based_def)
  note kind = field this
  have "\<exists>s. btf__name_by_offset b (unat (access_str_off relo)) = Some s \<and> \<not> (s = [] \<or> hd s = 58)"
    using assms(1) unfolding bpf_core_parse_spec_def by (auto split: option.splits if_splits)
  then obtain str where str: "btf__name_by_offset b (unat (access_str_off relo)) = Some str" "\<not> (str = [] \<or> hd str = 58)"
    by auto
  then obtain x raw where raw: "parse_raw str [] = Some (Inr (x # raw))"
    using assms(1) kind unfolding bpf_core_parse_spec_def Let_def
    by (cases "parse_raw str []") (auto split: sum.splits list.splits if_splits simp: neq_Nil_conv)
  then obtain t j where s: "skip_mods_and_typedefs b (unat (type_id relo)) = Some (t, j)"
    and r: "parse_fields b raw j ((empty_spec b (type_id relo) (relo_kind relo))
        \<lparr>sp_raw := x # raw, sp_accs := [\<lparr>acc_type_id = j, acc_idx = word_of_int x, acc_name = None\<rparr>],
         sp_bit_offset := word_of_int (x * btf__resolve_size b j * 8)\<rparr>) = Some (Inr spec)"
    using assms(1) kind str raw unfolding bpf_core_parse_spec_def Let_def
    by (cases "skip_mods_and_typedefs b (unat (type_id relo))") (auto split: if_splits)
  let ?acc0 = "\<lparr>acc_type_id = j, acc_idx = word_of_int x, acc_name = None\<rparr>"
  from parse_fields_path [OF r zero, where accs = "[]" and r = j and off = 0 and c = j and pend = 0
      and ?acc0.0 = ?acc0 and base = "word_of_int x * size_bits b j"]
  obtain accs off c pend i where "sp_accs spec = ?acc0 # accs" "acc_path b j (map access_of accs) off c"
    "anon b c pend i" "sp_bit_offset spec = word_of_int x * size_bits b j + off + pend" "list_all (acc_ok b) (sp_accs spec)"
    "sp_btf spec = b" "sp_root spec = type_id relo" "sp_kind spec = relo_kind relo"
    by (auto simp: path_end anon_here size_bits_def acc_ok_def empty_spec_def)
  with s show thesis by (intro that [of ?acc0 accs t j off c pend i]) simp_all
qed

section \<open>The search for a member\<close>

text \<open>The member of that name is the \<open>x\<close>th of the type, or lies inside it when it is unnamed.\<close>

definition member_via :: "btf list \<Rightarrow> btf_type \<Rightarrow> nat \<Rightarrow> nat \<Rightarrow> u8 list \<Rightarrow> nat \<Rightarrow> nat \<Rightarrow> u32 \<Rightarrow> bool" where
  "member_via b t j0 x n j k off \<longleftrightarrow>
     btf__name_by_offset b (unat (m_name_off (btf_members t x))) = Some n \<and> n \<noteq> [] \<and>
       j = j0 \<and> k = x \<and> off = btf_member_bit_offset t x \<or>
     str_is_empty (btf__name_by_offset b (unat (m_name_off (btf_members t x)))) \<and>
       (\<exists>off'. has_member b (unat (m_type (btf_members t x))) n j k off' \<and> off = btf_member_bit_offset t x + off')"

lemma has_member_via:
  "has_member b i n j k off \<longleftrightarrow>
     (\<exists>t j0 x. skip_mods_and_typedefs b i = Some (t, j0) \<and> btf_is_composite t \<and> x < btf_vlen t \<and>
        member_via b t j0 x n j k off)"
  unfolding member_via_def by (subst has_member.simps) fastforce

text \<open>As in C, a name is not declared twice in a type, unnamed members included.\<close>

definition uniq_names :: "btf list \<Rightarrow> bool" where
  "uniq_names b \<longleftrightarrow>
     (\<forall>i t j0 x x' n j k off j' k' off'. skip_mods_and_typedefs b i = Some (t, j0) \<longrightarrow> btf_is_composite t \<longrightarrow>
        x < btf_vlen t \<longrightarrow> x' < btf_vlen t \<longrightarrow> member_via b t j0 x n j k off \<longrightarrow> member_via b t j0 x' n j' k' off' \<longrightarrow>
        x = x')"

lemma has_member_unique:
  assumes "uniq_names b"
  shows "has_member b i n j k off \<Longrightarrow> has_member b i n j' k' off' \<Longrightarrow> j = j' \<and> k = k' \<and> off = off'"
proof (induction arbitrary: j' k' off' rule: has_member.induct)
  case (member_here i t j k n)
  then have v: "member_via b t j k n j k (btf_member_bit_offset t k)" by (simp add: member_via_def)
  from member_here.prems [unfolded has_member_via [of b i]] member_here.hyps(1) obtain x
    where x: "x < btf_vlen t" "member_via b t j x n j' k' off'" by auto
  with assms member_here.hyps(1-3) v have "x = k" unfolding uniq_names_def by blast
  with x(2) have "member_via b t j k n j' k' off'" by simp
  then show ?case using member_here.hyps(4,5) by (simp add: member_via_def str_is_empty_def)
next
  case (member_down i t j0 x n j k off)
  from member_down.hyps have v: "member_via b t j0 x n j k (btf_member_bit_offset t x + off)"
    by (auto simp: member_via_def)
  from member_down.prems [unfolded has_member_via [of b i]] member_down.hyps(1) obtain x'
    where x: "x' < btf_vlen t" "member_via b t j0 x' n j' k' off'" by auto
  with assms member_down.hyps(1-3) v have "x' = x" unfolding uniq_names_def by blast
  with x member_down.hyps(4) obtain o' where "has_member b (unat (m_type (btf_members t x))) n j' k' o'"
    "off' = btf_member_bit_offset t x + o'" by (auto simp: member_via_def str_is_empty_def)
  with member_down.IH show ?case by blast
qed

text \<open>
  The outcome of a search among the members \<open>M\<close>: no member of the name and the specification as before,
  an incompatible one, an error or a compatible one.
\<close>

definition search_ok ::
  "btf list \<Rightarrow> (nat \<Rightarrow> int option) \<Rightarrow> (nat \<Rightarrow> nat \<Rightarrow> u32 \<Rightarrow> bool) \<Rightarrow> u8 list \<Rightarrow> bpf_core_spec \<Rightarrow>
     int \<times> bpf_core_spec \<times> nat \<Rightarrow> bool" where
  "search_ok b C M n spec res \<longleftrightarrow> (case res of (r, spec', next') \<Rightarrow>
     r = 0 \<and> spec' = spec \<and> (\<forall>j k off. \<not> M j k off) \<or>
     r = 0 \<and> (\<exists>j k off t. M j k off \<and> btf__type_by_id b j = Some t \<and> C (unat (m_type (btf_members t k))) = Some 0) \<or>
     r < 0 \<or>
     r = 1 \<and> (\<exists>j k off t. M j k off \<and> btf__type_by_id b j = Some t \<and> k < btf_vlen t \<and>
       next' = unat (m_type (btf_members t k)) \<and> C next' = Some 1 \<and>
       sp_accs spec' = sp_accs spec @ [\<lparr>acc_type_id = j, acc_idx = of_nat k, acc_name = Some n\<rparr>] \<and>
       sp_bit_offset spec' = sp_bit_offset spec + off \<and> sp_btf spec' = sp_btf spec))"

lemma fields_compat_values: "bpf_core_fields_are_compat lb l tb t = Some r \<Longrightarrow> r = 0 \<or> r = 1"
proof (erule bpf_core_fields_are_compat.raw_induct [rotated, where P = "\<lambda>lb l tb t r. r = 0 \<or> r = 1"])
  fix f lb l tb t r
  assume IH: "\<And>lb l tb t y. f lb l tb t = Some y \<Longrightarrow> y = 0 \<or> y = 1"
    and e: "skip_mods_and_typedefs lb l \<bind> (\<lambda>(local_type, local_id). skip_mods_and_typedefs tb t \<bind> (\<lambda>(targ_type, targ_id).
     if btf_is_composite local_type \<and> btf_is_composite targ_type then Some 1
     else if \<not> btf_kind_core_compat local_type targ_type then Some 0
     else if btf_kind local_type \<in> {BTF_KIND_PTR, BTF_KIND_FLOAT} then Some 1
     else if btf_kind local_type \<in> {BTF_KIND_FWD, BTF_KIND_ENUM64, BTF_KIND_ENUM} then
       btf__name_by_offset lb (unat (name_off local_type)) \<bind> (\<lambda>local_name.
       btf__name_by_offset tb (unat (name_off targ_type)) \<bind> (\<lambda>targ_name.
       let local_len = bpf_core_essential_name_len local_name; targ_len = bpf_core_essential_name_len targ_name in
       Some (of_bool (local_len = 0 \<or> targ_len = 0 \<or>
         local_len = targ_len \<and> strncmp_eq local_name targ_name local_len))))
     else if btf_kind local_type = BTF_KIND_INT then
       Some (of_bool (btf_int_offset local_type = 0 \<and> btf_int_offset targ_type = 0))
     else if btf_kind local_type = BTF_KIND_ARRAY then
       f lb (unat (a_type (btf_array local_type))) tb (unat (a_type (btf_array targ_type)))
     else Some 0)) = Some r"
  from e obtain lt li tt ti where "skip_mods_and_typedefs lb l = Some (lt, li)" "skip_mods_and_typedefs tb t = Some (tt, ti)"
    by (auto simp: bind_eq_Some_conv split: prod.splits)
  with e show "r = 0 \<or> r = 1"
    by (auto simp: Let_def bind_eq_Some_conv split: if_splits dest: IH)
qed

lemma search_ok_head:
  assumes "search_ok b C M n spec' res" and "\<And>j k off. M j k off \<Longrightarrow> M' j k off"
    and "\<And>j k off. M' j k off \<Longrightarrow> M j k off \<or> V j k off"
    and "(\<forall>j k off. \<not> V j k off) \<and> spec' = spec \<or>
      (\<exists>j k off t. V j k off \<and> btf__type_by_id b j = Some t \<and> C (unat (m_type (btf_members t k))) = Some 0)"
    and "\<And>j k off. V j k off \<Longrightarrow> M' j k off" and "\<And>j k off j' k' off'. V j k off \<Longrightarrow> M j' k' off' \<Longrightarrow> False"
  shows "search_ok b C M' n spec res"
  using assms(4)
proof
  assume a: "(\<forall>j k off. \<not> V j k off) \<and> spec' = spec"
  with assms(2,3) have "M' = M" by (auto simp: fun_eq_iff)
  with assms(1) a show ?thesis by simp
next
  assume "\<exists>j k off t. V j k off \<and> btf__type_by_id b j = Some t \<and> C (unat (m_type (btf_members t k))) = Some 0"
  with assms(1,5,6) show ?thesis unfolding search_ok_def by (simp split: prod.splits) blast
qed

lemma match_members_ok:
  assumes rec: "\<And>i spec next res. rec i spec next = Some res \<Longrightarrow> search_ok tb C (has_member tb i n) n spec res"
    and n: "lname = Some n" and C: "C = bpf_core_fields_are_compat lb lmt tb" and t: "btf__type_by_id tb j0 = Some t"
  shows "match_members rec lb lname lmt tb t j0 is spec next = Some res \<Longrightarrow> distinct is \<Longrightarrow> \<forall>x\<in>set is. x < btf_vlen t \<Longrightarrow>
    \<forall>x\<in>set is. \<forall>x'\<in>set is. \<forall>j k off j' k' off'. member_via tb t j0 x n j k off \<longrightarrow> member_via tb t j0 x' n j' k' off' \<longrightarrow> x = x' \<Longrightarrow>
    search_ok tb C (\<lambda>j k off. \<exists>x\<in>set is. member_via tb t j0 x n j k off) n spec res"
proof (induction "is" arbitrary: spec "next")
  case Nil
  then show ?case by (auto simp: search_ok_def)
next
  case (Cons x xs)
  let ?via = "member_via tb t j0 x n" and ?m = "btf_members t x" and ?o = "btf_member_bit_offset t x"
  let ?spec = "spec\<lparr>sp_bit_offset := sp_bit_offset spec + ?o, sp_raw := sp_raw spec @ [int x]\<rparr>"
  let ?pop = "\<lambda>spec. spec\<lparr>sp_bit_offset := sp_bit_offset spec - ?o, sp_raw := butlast (sp_raw spec)\<rparr>"
  let ?name = "btf__name_by_offset tb (unat (m_name_off ?m))"
  let ?M = "\<lambda>j k off. \<exists>x\<in>set xs. member_via tb t j0 x n j k off"
  have pop: "?pop ?spec = spec" by simp
  have tail: "search_ok tb C (\<lambda>j k off. \<exists>x\<in>set (x # xs). member_via tb t j0 x n j k off) n spec res"
    if r: "match_members rec lb lname lmt tb t j0 xs spec' next' = Some res"
      and h: "(\<forall>j k off. \<not> ?via j k off) \<and> spec' = spec \<or>
        (\<exists>j k off t. ?via j k off \<and> btf__type_by_id tb j = Some t \<and> C (unat (m_type (btf_members t k))) = Some 0)"
    for spec' next'
  proof (rule search_ok_head [OF Cons.IH [OF r] _ _ h])
    show "\<And>j k off j' k' off'. ?via j k off \<Longrightarrow> ?M j' k' off' \<Longrightarrow> False"
      using Cons.prems(2,4) by (metis distinct.simps(2) list.set_intros(1) list.set_intros(2))
  qed (use Cons.prems in auto)
  consider (full) "length (sp_raw spec) = BPF_CORE_SPEC_MAX_LEN"
    | (unnamed) "length (sp_raw spec) \<noteq> BPF_CORE_SPEC_MAX_LEN" "str_is_empty ?name"
    | (hit) "length (sp_raw spec) \<noteq> BPF_CORE_SPEC_MAX_LEN" "\<not> str_is_empty ?name" "?name = Some n"
    | (miss) "length (sp_raw spec) \<noteq> BPF_CORE_SPEC_MAX_LEN" "\<not> str_is_empty ?name" "?name \<noteq> Some n" by blast
  then show ?case
  proof cases
    case full
    with Cons.prems(1) show ?thesis by (auto simp: search_ok_def E2BIG_def)
  next
    case unnamed
    have via: "?via j k off \<longleftrightarrow> (\<exists>off'. has_member tb (unat (m_type ?m)) n j k off' \<and> off = ?o + off')" for j k off
      using unnamed(2) by (auto simp: member_via_def str_is_empty_def)
    from unnamed Cons.prems(1) obtain found spec1 next1 where
      f: "rec (unat (m_type ?m)) ?spec next = Some (found, spec1, next1)"
      by (auto simp: Let_def bind_eq_Some_conv)
    note ok = rec [OF f, unfolded search_ok_def, simplified]
    show ?thesis
    proof (cases "found = 0")
      case True
      then have r: "match_members rec lb lname lmt tb t j0 xs (?pop spec1) next1 = Some res"
        using Cons.prems(1) unnamed f by (simp add: Let_def)
      show ?thesis
      proof (rule tail [OF r])
        show "(\<forall>j k off. \<not> ?via j k off) \<and> ?pop spec1 = spec \<or>
          (\<exists>j k off t. ?via j k off \<and> btf__type_by_id tb j = Some t \<and> C (unat (m_type (btf_members t k))) = Some 0)"
          using ok True pop by (auto simp: via)
      qed
    next
      case False
      then have "res = (found, spec1, next1)" using Cons.prems(1) unnamed f by (simp add: Let_def)
      with ok False show ?thesis
        by (auto simp: search_ok_def via add.assoc)
    qed
  next
    case hit
    from hit Cons.prems(1) n obtain found where f: "C (unat (m_type ?m)) = Some found"
      and res: "res = (found, if found = 0 then ?spec else ?spec\<lparr>sp_accs := sp_accs ?spec @
          [\<lparr>acc_type_id = j0, acc_idx = of_nat x, acc_name = ?name\<rparr>]\<rparr>, unat (m_type ?m))"
      by (auto simp: Let_def C bind_eq_Some_conv)
    have via: "?via j0 x ?o" using hit by (auto simp: member_via_def str_is_empty_def)
    have x: "x < btf_vlen t" using Cons.prems(3) by simp
    from fields_compat_values f C have "found = 0 \<or> found = 1" by blast
    then show ?thesis
    proof
      assume z: "found = 0"
      then show ?thesis using via f t by (auto simp: search_ok_def res)
    next
      assume o: "found = 1"
      have "\<exists>j k off t'. (\<exists>x\<in>set (x # xs). member_via tb t j0 x n j k off) \<and> btf__type_by_id tb j = Some t' \<and> k < btf_vlen t' \<and>
         unat (m_type ?m) = unat (m_type (btf_members t' k)) \<and>
         sp_accs (?spec\<lparr>sp_accs := sp_accs ?spec @ [\<lparr>acc_type_id = j0, acc_idx = of_nat x, acc_name = ?name\<rparr>]\<rparr>) =
           sp_accs spec @ [\<lparr>acc_type_id = j, acc_idx = of_nat k, acc_name = Some n\<rparr>] \<and>
         sp_bit_offset ?spec = sp_bit_offset spec + off"
        using via t x hit(3) by (intro exI [of _ j0] exI [of _ x] exI [of _ ?o] exI [of _ t]) auto
      then show ?thesis using o f by (auto simp: search_ok_def res)
    qed
  next
    case miss
    then have "match_members rec lb lname lmt tb t j0 xs spec next = Some res"
      using Cons.prems(1) by (simp add: Let_def n)
    then show ?thesis
      by (rule tail) (use miss in \<open>auto simp: member_via_def str_is_empty_def\<close>)
  qed
qed

definition local_member :: "btf list \<Rightarrow> bpf_core_accessor \<Rightarrow> btf_member option" where
  "local_member b acc = map_option (\<lambda>t. btf_members t (unat (acc_idx acc))) (btf__type_by_id b (acc_type_id acc))"

lemma match_member_ok:
  assumes acc: "acc_ok lb acc" "acc_name acc = Some n" "local_member lb acc = Some lm" and uniq: "uniq_names tb"
  shows "bpf_core_match_member d lb acc tb i spec nxt = Some res \<Longrightarrow>
    search_ok tb (bpf_core_fields_are_compat lb (unat (m_type lm)) tb) (has_member tb i n) n spec res"
proof (induction d arbitrary: i spec nxt res rule: less_induct)
  case (less d)
  obtain lt where lt: "btf__type_by_id lb (acc_type_id acc) = Some lt" "unat (acc_idx acc) < btf_vlen lt"
    "btf__name_by_offset lb (unat (m_name_off (btf_members lt (unat (acc_idx acc))))) = Some n"
    "lm = btf_members lt (unat (acc_idx acc))"
    using acc by (auto simp: acc_ok_def local_member_def)
  from less.prems obtain t j0 where s: "skip_mods_and_typedefs tb i = Some (t, j0)"
    by (subst (asm) bpf_core_match_member.simps) (auto simp: bind_eq_Some_conv)
  have j0: "btf__type_by_id tb j0 = Some t" using skip_end [OF s] by (auto simp: btf__type_by_id_def)
  show ?case
  proof (cases "btf_is_composite t")
    case False
    then have "res = (0, spec, nxt)" using less.prems s by (subst (asm) bpf_core_match_member.simps) simp
    then show ?thesis using False s by (auto simp: search_ok_def has_member_via [of tb i])
  next
    case True
    let ?rec = "case d of 0 \<Rightarrow> (\<lambda>_ _ _. None) | Suc d \<Rightarrow> (\<lambda>i. bpf_core_match_member d lb acc tb i)"
    have r: "match_members ?rec lb (Some n) (unat (m_type lm)) tb t j0 [0..<btf_vlen t] spec nxt = Some res"
      using less.prems s True lt by (subst (asm) bpf_core_match_member.simps) (simp add: Let_def)
    have "search_ok tb (bpf_core_fields_are_compat lb (unat (m_type lm)) tb)
        (\<lambda>j k off. \<exists>x\<in>set [0..<btf_vlen t]. member_via tb t j0 x n j k off) n spec res"
    proof (rule match_members_ok [OF _ refl refl j0 r])
      show "search_ok tb (bpf_core_fields_are_compat lb (unat (m_type lm)) tb) (has_member tb i n) n spec res"
        if "?rec i spec next = Some res" for i spec "next" res
        using that by (cases d) (auto intro: less.IH)
    qed (use uniq s True in \<open>auto simp: uniq_names_def\<close>)
    moreover have "(\<lambda>j k off. \<exists>x\<in>set [0..<btf_vlen t]. member_via tb t j0 x n j k off) = has_member tb i n"
      using s True by (auto simp: has_member_via [of tb i] fun_eq_iff)
    ultimately show ?thesis by simp
  qed
qed

section \<open>The target's specification\<close>

lemma has_member_skip: "skip_mods_and_typedefs b i = Some (t, j) \<Longrightarrow> has_member b j n j' k off \<longleftrightarrow> has_member b i n j' k off"
  using skip_idem by (simp add: has_member_via [of b])

lemma resolve_word [simp]: "word_of_int (sint (word_of_int x :: s32)) = (word_of_int x :: u32)"
  by simp

lemma match_accs_path:
  assumes "match_accs lb tb False accs i spec = Some (1, spec')" and uniq: "uniq_names tb"
    and "list_all (acc_ok lb) accs" "acc_path tb r (map access_of done) off i" "sp_accs spec = acc0 # done"
    and "sp_bit_offset spec = base + off"
  shows "\<exists>done' off' c. sp_accs spec' = acc0 # done' \<and> map access_of done' = map access_of (done @ accs) \<and>
    acc_path tb r (map access_of done') off' c \<and> sp_bit_offset spec' = base + off'"
  using assms(1,3-)
proof (induction accs arbitrary: i spec "done" off)
  case Nil
  then show ?case by auto
next
  case (Cons acc accs)
  from Cons.prems(1) obtain t j where s: "skip_mods_and_typedefs tb i = Some (t, j)"
    by (auto simp: bind_eq_Some_conv)
  show ?case
  proof (cases "acc_name acc")
    case (Some n)
    then obtain lm where lm: "local_member lb acc = Some lm"
      using Cons.prems(2) by (auto simp: acc_ok_def local_member_def)
    obtain r0 spec1 i1 where m: "bpf_core_match_member 64 lb acc tb j spec j = Some (r0, spec1, i1)" "r0 > 0"
      and r: "match_accs lb tb False accs i1 spec1 = Some (1, spec')"
      using Cons.prems(1) Some s by (auto simp: bind_eq_Some_conv split: prod.splits if_splits)
    from match_member_ok [OF _ Some lm uniq m(1)] Cons.prems(2) m(2)
    obtain j' k o' t' where h: "has_member tb j n j' k o'" "btf__type_by_id tb j' = Some t'" "i1 = unat (m_type (btf_members t' k))"
      "sp_accs spec1 = sp_accs spec @ [\<lparr>acc_type_id = j', acc_idx = of_nat k, acc_name = Some n\<rparr>]"
      "sp_bit_offset spec1 = sp_bit_offset spec + o'"
      by (auto simp: search_ok_def)
    let ?acc = "\<lparr>acc_type_id = j', acc_idx = of_nat k, acc_name = Some n\<rparr>"
    from h(1) have "has_member tb i n j' k o'" by (simp add: has_member_skip [OF s])
    from path_append [OF Cons.prems(3) path_field [OF this h(2) path_end]]
    have p: "acc_path tb r (map access_of (done @ [?acc])) (off + o') i1" by (simp add: h(3))
    show ?thesis
      using Cons.IH [OF r _ p] Cons.prems(2,4,5) h(4,5) Some by (simp add: add.assoc)
  next
    case None
    from None Cons.prems(1) s have arr: "btf_is_array t" by (auto split: if_splits)
    from None Cons.prems(1) s arr obtain t' e
      where e: "skip_mods_and_typedefs tb (unat (a_type (btf_array t))) = Some (t', e)"
      by (auto simp: bind_eq_Some_conv split: if_splits prod.splits)
    let ?acc = "\<lparr>acc_type_id = e, acc_idx = acc_idx acc, acc_name = None\<rparr>"
    let ?spec = "spec\<lparr>sp_accs := sp_accs spec @ [?acc], sp_raw := sp_raw spec @ [sint (acc_idx acc)],
      sp_bit_offset := sp_bit_offset spec + acc_idx acc * size_bits tb e\<rparr>"
    have r: "match_accs lb tb False accs e ?spec = Some (1, spec')"
      using Cons.prems(1) None s arr e
      by (auto simp: Let_def size_bits_def mult.assoc bind_eq_Some_conv E2BIG_def split: if_splits)
    from path_append [OF Cons.prems(3) path_index [OF anon_here s arr e path_end]]
    have p: "acc_path tb r (map access_of (done @ [?acc])) (off + acc_idx acc * size_bits tb e) e" by simp
    show ?thesis
      using Cons.IH [OF r _ p] Cons.prems(2,4,5) None by (simp add: add.assoc)
  qed
qed

lemma spec_match_path:
  assumes parse: "bpf_core_parse_spec lb relo = Some (Inr ls)" and match: "bpf_core_spec_match ls tb i = Some (1, ts)"
    and field: "core_relo_is_field_based (relo_kind relo)"
    and zero: "btf__name_by_offset lb 0 = Some []" and uniq: "uniq_names tb"
  shows "map access_of (sp_accs ts) = map access_of (sp_accs ls)"
    and "\<exists>c. field_path tb (unat i) (map access_of (sp_accs ts)) (sp_bit_offset ts) c"
    and "\<exists>off c pend d. field_path lb (unat (type_id relo)) (map access_of (sp_accs ls)) off c \<and> anon lb c pend d \<and>
      sp_bit_offset ls = off + pend"
proof -
  obtain acc0 accs t j off c pend d where p: "sp_accs ls = acc0 # accs" "acc_name acc0 = None"
    "list_all (acc_ok lb) accs" "skip_mods_and_typedefs lb (unat (type_id relo)) = Some (t, j)"
    "acc_path lb j (map access_of accs) off c" "anon lb c pend d"
    "sp_bit_offset ls = acc_idx acc0 * size_bits lb j + off + pend"
    "sp_btf ls = lb" "sp_root ls = type_id relo" "sp_kind ls = relo_kind relo"
    by (rule parse_spec_path [OF parse field zero])
  then show "\<exists>off c pend d. field_path lb (unat (type_id relo)) (map access_of (sp_accs ls)) off c \<and> anon lb c pend d \<and>
      sp_bit_offset ls = off + pend"
    by (intro exI [of _ "acc_idx acc0 * size_bits lb j + off"] exI [of _ c] exI [of _ pend] exI [of _ d])
      (auto simp: field_path_def)
  have kinds: "\<not> core_relo_is_type_based (relo_kind relo)" "\<not> core_relo_is_enumval_based (relo_kind relo)"
    using field by (auto simp: core_relo_is_field_based_def core_relo_is_type_based_def core_relo_is_enumval_based_def)
  have m: "match_accs lb tb True (acc0 # accs) (unat i) (empty_spec tb i (relo_kind relo)) = Some (1, ts)"
    using match field kinds p by (simp add: bpf_core_spec_match_def Let_def)
  then obtain t' e where e: "skip_mods_and_typedefs tb (unat i) = Some (t', e)" by (auto simp: bind_eq_Some_conv)
  let ?acc = "\<lparr>acc_type_id = e, acc_idx = acc_idx acc0, acc_name = None\<rparr>"
  let ?spec = "(empty_spec tb i (relo_kind relo))\<lparr>sp_accs := [?acc], sp_raw := [sint (acc_idx acc0)],
    sp_bit_offset := acc_idx acc0 * size_bits tb e\<rparr>"
  have r: "match_accs lb tb False accs e ?spec = Some (1, ts)"
    using m p(2) e by (auto simp: Let_def size_bits_def mult.assoc empty_spec_def BPF_CORE_SPEC_MAX_LEN_def E2BIG_def split: if_splits)
  from match_accs_path [OF r uniq p(3), of e "[]" 0 ?acc "acc_idx acc0 * size_bits tb e"]
  obtain accs' off' c' where t: "sp_accs ts = ?acc # accs'" "map access_of accs' = map access_of accs"
    "acc_path tb e (map access_of accs') off' c'" "sp_bit_offset ts = acc_idx acc0 * size_bits tb e + off'"
    by (auto simp: path_end)
  from t p(1,2) show "map access_of (sp_accs ts) = map access_of (sp_accs ls)" by simp
  from t e show "\<exists>c. field_path tb (unat i) (map access_of (sp_accs ts)) (sp_bit_offset ts) c"
    by (auto simp: field_path_def)
qed

end
