(* ===== verification/Relo_Example.thy ===== *)
theory Relo_Example
  imports Relo_Path
begin

text \<open>
  The BTF object of the witnesses about relocations: the types \<open>struct s { int a; }\<close> (2),
  \<open>struct { int a; }\<close> with \<open>a\<close> at bit 32 (3), \<open>struct s { struct { int a; }; }\<close> with the unnamed member at bit 64 (4)
  and \<open>struct s { int a : 5; }\<close> with \<open>a\<close> at bit 13 (5). The strings are \<open>s\<close>, \<open>a\<close> and \<open>0:0\<close>.
\<close>

definition relo_types :: "u8 list" where
  "relo_types =
     [0, 0, 0, 0, 0, 0, 0, 1, 4, 0, 0, 0, 32, 0, 0, 0,
      1, 0, 0, 0, 1, 0, 0, 4, 4, 0, 0, 0, 3, 0, 0, 0, 1, 0, 0, 0, 0, 0, 0, 0,
      0, 0, 0, 0, 1, 0, 0, 4, 8, 0, 0, 0, 3, 0, 0, 0, 1, 0, 0, 0, 32, 0, 0, 0,
      1, 0, 0, 0, 1, 0, 0, 4, 16, 0, 0, 0, 0, 0, 0, 0, 3, 0, 0, 0, 64, 0, 0, 0,
      1, 0, 0, 0, 1, 0, 0, 132, 4, 0, 0, 0, 3, 0, 0, 0, 1, 0, 0, 0, 13, 0, 0, 5]"

definition relo_btf :: btf where
  "relo_btf =
     \<lparr>raw_data = None, raw_data_swapped = None, raw_size = 0, swapped_endian = False, modifiable = False,
      hdr = \<lparr>magic = BTF_MAGIC, version = 1, flags = 0, hdr_len = 24, type_off = 0, type_len = 112,
        str_off = 112, str_len = 9\<rparr>,
      hdr_tail = [], types_data = relo_types, type_offs = [0, 16, 40, 64, 88], nr_types = 5, start_id = 1,
      start_str_off = 0, btf_strs_data = [0, 115, 0, 97, 0, 48, 58, 48, 0], strs_set = undefined,
      strs_deduped = False, ptr_sz = 8\<rparr>"

definition relo_int :: btf_type where
  "relo_int = \<lparr>name_off = 0, info = 0x1000000, size_type = 4, rest = [32]\<rparr>"
definition relo_s :: btf_type where
  "relo_s = \<lparr>name_off = 1, info = 0x4000001, size_type = 4, rest = [3, 1, 0]\<rparr>"
definition relo_anon :: btf_type where
  "relo_anon = \<lparr>name_off = 0, info = 0x4000001, size_type = 8, rest = [3, 1, 32]\<rparr>"
definition relo_nested :: btf_type where
  "relo_nested = \<lparr>name_off = 1, info = 0x4000001, size_type = 16, rest = [0, 3, 64]\<rparr>"
definition relo_bits :: btf_type where
  "relo_bits = \<lparr>name_off = 1, info = 0x84000001, size_type = 4, rest = [3, 1, 0x500000D]\<rparr>"

lemmas relo_type_defs = relo_int_def relo_s_def relo_anon_def relo_nested_def relo_bits_def

lemma relo_kinds [simp]:
  "btf_kind (relo_int\<lparr>rest := r\<rparr>) = BTF_KIND_INT" "btf_kind (relo_s\<lparr>rest := r\<rparr>) = BTF_KIND_STRUCT"
  "btf_kind (relo_anon\<lparr>rest := r\<rparr>) = BTF_KIND_STRUCT" "btf_kind (relo_nested\<lparr>rest := r\<rparr>) = BTF_KIND_STRUCT"
  "btf_kind (relo_bits\<lparr>rest := r\<rparr>) = BTF_KIND_STRUCT"
  "btf_vlen (relo_s\<lparr>rest := r\<rparr>) = 1" "btf_vlen (relo_anon\<lparr>rest := r\<rparr>) = 1"
  "btf_vlen (relo_nested\<lparr>rest := r\<rparr>) = 1" "btf_vlen (relo_bits\<lparr>rest := r\<rparr>) = 1"
  by (simp_all add: relo_type_defs btf_kind_def BTF_INFO_KIND_def kind_of_def all_kinds_def btf_vlen_def BTF_INFO_VLEN_def
      drop_bit_eq_div and_masks take_bit_eq_mod)

lemma relo_rest: "relo_int = relo_int\<lparr>rest := [32]\<rparr>" "relo_s = relo_s\<lparr>rest := [3, 1, 0]\<rparr>"
  "relo_anon = relo_anon\<lparr>rest := [3, 1, 32]\<rparr>" "relo_nested = relo_nested\<lparr>rest := [0, 3, 64]\<rparr>"
  "relo_bits = relo_bits\<lparr>rest := [3, 1, 0x500000D]\<rparr>"
  by (simp_all add: relo_type_defs)

lemma relo_kinds' [simp]: "btf_kind relo_int = BTF_KIND_INT" "btf_kind relo_s = BTF_KIND_STRUCT"
  "btf_kind relo_anon = BTF_KIND_STRUCT" "btf_kind relo_nested = BTF_KIND_STRUCT" "btf_kind relo_bits = BTF_KIND_STRUCT"
  "btf_vlen relo_s = 1" "btf_vlen relo_anon = 1" "btf_vlen relo_nested = 1" "btf_vlen relo_bits = 1"
  by (metis relo_kinds relo_rest)+

lemma relo_type_at:
  "type_hdr_at relo_types 0 = relo_int\<lparr>rest := []\<rparr>" "type_hdr_at relo_types 16 = relo_s\<lparr>rest := []\<rparr>"
  "type_hdr_at relo_types 40 = relo_anon\<lparr>rest := []\<rparr>" "type_hdr_at relo_types 64 = relo_nested\<lparr>rest := []\<rparr>"
  "type_hdr_at relo_types 88 = relo_bits\<lparr>rest := []\<rparr>"
  "type_at relo_types 0 = relo_int" "type_at relo_types 16 = relo_s" "type_at relo_types 40 = relo_anon"
  "type_at relo_types 64 = relo_nested" "type_at relo_types 88 = relo_bits"
proof -
  show h: "type_hdr_at relo_types 0 = relo_int\<lparr>rest := []\<rparr>" "type_hdr_at relo_types 16 = relo_s\<lparr>rest := []\<rparr>"
    "type_hdr_at relo_types 40 = relo_anon\<lparr>rest := []\<rparr>" "type_hdr_at relo_types 64 = relo_nested\<lparr>rest := []\<rparr>"
    "type_hdr_at relo_types 88 = relo_bits\<lparr>rest := []\<rparr>"
    by (simp_all add: type_hdr_at_def relo_types_def relo_type_defs get32_def le32_def)
  show "type_at relo_types 0 = relo_int" "type_at relo_types 16 = relo_s" "type_at relo_types 40 = relo_anon"
    "type_at relo_types 64 = relo_nested" "type_at relo_types 88 = relo_bits"
    by (simp_all add: type_at_def h btf_type_size_def Let_def sizeof_btf_type_def)
      (simp_all add: words_at_def get32_def le32_def relo_types_def relo_type_defs numeral_3_eq_3)
qed

lemma relo_lookup [simp]:
  "btf__type_by_id [relo_btf] 0 = Some btf_void" "btf__type_by_id [relo_btf] (Suc 0) = Some relo_int"
  "btf__type_by_id [relo_btf] 2 = Some relo_s" "btf__type_by_id [relo_btf] 3 = Some relo_anon"
  "btf__type_by_id [relo_btf] 4 = Some relo_nested" "btf__type_by_id [relo_btf] 5 = Some relo_bits"
  "btf__type_by_id [relo_btf] n = None \<longleftrightarrow> 6 \<le> n"
  by (simp_all add: btf__type_by_id_def btf__type_cnt_def relo_btf_def relo_type_at) linarith?

lemma relo_names [simp]:
  "btf__name_by_offset [relo_btf] 0 = Some []" "btf__name_by_offset [relo_btf] (Suc 0) = Some [115]"
  "btf__name_by_offset [relo_btf] 3 = Some [97]" "btf__name_by_offset [relo_btf] 5 = Some [48, 58, 48]"
  by (simp_all add: btf__name_by_offset_def relo_btf_def btf_strs_def c_str_def)

lemma void_kind [simp]: "btf_kind btf_void = BTF_KIND_UNKN" "btf_vlen btf_void = 0"
  by (simp_all add: btf_void_def btf_kind_def BTF_INFO_KIND_def kind_of_def all_kinds_def btf_vlen_def BTF_INFO_VLEN_def)

lemma relo_skip [simp]:
  "skip_mods_and_typedefs [relo_btf] 0 = Some (btf_void, 0)" "skip_mods_and_typedefs [relo_btf] (Suc 0) = Some (relo_int, 1)"
  "skip_mods_and_typedefs [relo_btf] 2 = Some (relo_s, 2)" "skip_mods_and_typedefs [relo_btf] 3 = Some (relo_anon, 3)"
  "skip_mods_and_typedefs [relo_btf] 4 = Some (relo_nested, 4)" "skip_mods_and_typedefs [relo_btf] 5 = Some (relo_bits, 5)"
  by (subst skip_mods_and_typedefs.simps, simp add: btf_is_defs Let_def)+

lemma relo_ids: "btf__type_cnt [relo_btf] = 6" "i < 6 \<longleftrightarrow> i = 0 \<or> i = Suc 0 \<or> i = 2 \<or> i = 3 \<or> i = 4 \<or> (i :: nat) = 5"
  by (simp_all add: btf__type_cnt_def relo_btf_def) linarith

lemma relo_by_id [simp]:
  "btf_type_by_id [relo_btf] 0 = btf_void" "btf_type_by_id [relo_btf] (Suc 0) = relo_int"
  "btf_type_by_id [relo_btf] 2 = relo_s" "btf_type_by_id [relo_btf] 3 = relo_anon"
  "btf_type_by_id [relo_btf] 4 = relo_nested" "btf_type_by_id [relo_btf] 5 = relo_bits"
  using relo_lookup(1-6) by (simp_all add: btf__type_by_id_def relo_ids)

lemma relo_refs_ok: "refs_ok [relo_btf]"
proof -
  have "type_refs_ok [relo_btf] btf_void" "type_refs_ok [relo_btf] relo_int" "type_refs_ok [relo_btf] relo_s"
    "type_refs_ok [relo_btf] relo_anon" "type_refs_ok [relo_btf] relo_nested" "type_refs_ok [relo_btf] relo_bits"
    by (simp_all add: type_refs_ok_def id_pos_def str_pos_def relo_ids(1))
      (simp_all add: type_words_def relo_type_defs btf_void_def)
  then show ?thesis by (auto simp: refs_ok_def relo_ids simp del: btf_type_by_id.simps)
qed

lemma relo_uniq: "uniq_names [relo_btf]"
proof -
  have "btf_vlen t = 1" if "skip_mods_and_typedefs [relo_btf] i = Some (t, j)" "btf_is_composite t" for i t j
  proof -
    have "j < 6" "t = btf_type_by_id [relo_btf] j" using skip_end [OF that(1)] by (simp_all add: relo_ids(1))
    with that(2) show ?thesis by (auto simp: relo_ids(2) btf_is_defs Let_def simp del: btf_type_by_id.simps)
  qed
  then show ?thesis by (fastforce simp: uniq_names_def)
qed

lemma relo_sizes: "btf__resolve_size [relo_btf] 2 = 4" "btf__resolve_size [relo_btf] 4 = 16" "btf__resolve_size [relo_btf] (Suc 0) = 4"
proof -
  have d: "MAX_RESOLVE_DEPTH = Suc 31" by (simp add: MAX_RESOLVE_DEPTH_def)
  have r: "resolve_size_loop (Suc n) [relo_btf] 2 1 = Inr (4, 1)" "resolve_size_loop (Suc n) [relo_btf] 4 1 = Inr (16, 1)"
    "resolve_size_loop (Suc n) [relo_btf] (Suc 0) 1 = Inr (4, 1)" for n
    by (simp_all add: btf_type_is_void_or_null_def sized_kinds_def btf_is_fwd_def Let_def del: btf_type_by_id.simps)
      (simp_all add: relo_type_defs)
  show "btf__resolve_size [relo_btf] 2 = 4" "btf__resolve_size [relo_btf] 4 = 16" "btf__resolve_size [relo_btf] (Suc 0) = 4"
    unfolding btf__resolve_size_def d r by (simp_all add: unsigned_minus_1_eq_mask mask_eq_exp_minus_1)
qed

definition relo_field :: bpf_core_relo where
  "relo_field = \<lparr>insn_off = 0, type_id = 2, access_str_off = 5, relo_kind = BPF_CORE_FIELD_BYTE_OFFSET\<rparr>"

definition relo_local :: bpf_core_spec where
  "relo_local =
     \<lparr>sp_btf = [relo_btf],
      sp_accs = [\<lparr>acc_type_id = 2, acc_idx = 0, acc_name = None\<rparr>, \<lparr>acc_type_id = 2, acc_idx = 0, acc_name = Some [97]\<rparr>],
      sp_root = 2, sp_kind = BPF_CORE_FIELD_BYTE_OFFSET, sp_raw = [0, 0], sp_bit_offset = 0\<rparr>"

lemma relo_scan: "parse_raw [48, 58, 48] [] = Some (Inr [0, 0])"
  by (simp add: parse_raw.simps scan_int_def is_space_def is_digit_def digits_value_def Let_def BPF_CORE_SPEC_MAX_LEN_def)

lemma relo_members [simp]:
  "btf_members relo_s 0 = \<lparr>m_name_off = 3, m_type = 1, m_offset = 0\<rparr>"
  "btf_members relo_anon 0 = \<lparr>m_name_off = 3, m_type = 1, m_offset = 32\<rparr>"
  "btf_members relo_nested 0 = \<lparr>m_name_off = 0, m_type = 3, m_offset = 64\<rparr>"
  "btf_members relo_bits 0 = \<lparr>m_name_off = 3, m_type = 1, m_offset = 0x500000D\<rparr>"
  "btf_member_bit_offset relo_s 0 = 0" "btf_member_bit_offset relo_anon 0 = 32" "btf_member_bit_offset relo_nested 0 = 64"
  by (simp_all add: relo_type_defs btf_members_def btf_member_bit_offset_def btf_kflag_def BTF_INFO_KFLAG_def
      drop_bit_eq_div Let_def)

lemma relo_parse: "bpf_core_parse_spec [relo_btf] relo_field = Some (Inr relo_local)"
  by (simp add: bpf_core_parse_spec_def relo_field_def relo_local_def relo_scan core_relo_is_type_based_def
      core_relo_is_enumval_based_def core_relo_is_field_based_def relo_sizes empty_spec_def btf_is_defs Let_def str_is_empty_def)

lemma relo_compat: "bpf_core_fields_are_compat [relo_btf] (Suc 0) [relo_btf] (Suc 0) = Some 1"
  by (subst bpf_core_fields_are_compat.simps)
    (simp add: btf_is_defs Let_def btf_kind_core_compat_def, simp add: relo_int_def btf_int_offset_def BTF_INT_OFFSET_def)

definition relo_target :: bpf_core_spec where
  "relo_target =
     \<lparr>sp_btf = [relo_btf],
      sp_accs = [\<lparr>acc_type_id = 4, acc_idx = 0, acc_name = None\<rparr>, \<lparr>acc_type_id = 3, acc_idx = 0, acc_name = Some [97]\<rparr>],
      sp_root = 4, sp_kind = BPF_CORE_FIELD_BYTE_OFFSET, sp_raw = [0, 0, 0], sp_bit_offset = 96\<rparr>"

lemma relo_search: "bpf_core_match_member (Suc (Suc n)) [relo_btf] \<lparr>acc_type_id = 2, acc_idx = 0, acc_name = Some [97]\<rparr>
    [relo_btf] 4
    \<lparr>sp_btf = [relo_btf], sp_accs = [\<lparr>acc_type_id = 4, acc_idx = 0, acc_name = None\<rparr>], sp_root = 4,
      sp_kind = BPF_CORE_FIELD_BYTE_OFFSET, sp_raw = [0], sp_bit_offset = 0\<rparr> 4 = Some (1, relo_target, 1)"
  by (simp add: bpf_core_match_member.simps btf_is_defs Let_def str_is_empty_def BPF_CORE_SPEC_MAX_LEN_def relo_compat
      relo_target_def)

lemma relo_match: "bpf_core_spec_match relo_local [relo_btf] 4 = Some (1, relo_target)"
proof -
  have d: "(64 :: nat) = Suc (Suc 62)" by simp
  show ?thesis
    unfolding bpf_core_spec_match_def relo_local_def
    using relo_search [of 62, unfolded d [symmetric]]
    by (simp add: core_relo_is_type_based_def core_relo_is_enumval_based_def core_relo_is_field_based_def
        BPF_CORE_SPEC_MAX_LEN_def empty_spec_def relo_sizes Let_def)
qed

end
