(* ===== verification/Relo_Props.thy ===== *)
theory Relo_Props
  imports Relo_Example
begin

text \<open>
  Properties of CO-RE relocations, first part: access paths, the comparison of types and the values of
  bit-fields.
\<close>

section \<open>Access paths\<close>

text \<open>C14: When a field relocation matches a type of the kernel in which no name is declared twice, the
  specification found for the kernel's type denotes the same C access path as the local one: the same
  fields and indices in the same order, with the bit offset that path has in the kernel's type. The bit
  offset of the local specification is the path's in the local type, plus the offset of the unnamed
  members at its end.\<close>

theorem same_access_path:
  assumes "bpf_core_parse_spec lb relo = Some (Inr ls)" "bpf_core_spec_match ls tb i = Some (1, ts)"
    and "core_relo_is_field_based (relo_kind relo)" "btf__name_by_offset lb 0 = Some []" "uniq_names tb"
  shows "map access_of (sp_accs ts) = map access_of (sp_accs ls) \<and>
    (\<exists>c. field_path tb (unat i) (map access_of (sp_accs ts)) (sp_bit_offset ts) c) \<and>
    (\<exists>off c pend d. field_path lb (unat (type_id relo)) (map access_of (sp_accs ls)) off c \<and> anon lb c pend d \<and>
      sp_bit_offset ls = off + pend)"
  using spec_match_path [OF assms] by blast

theorem same_access_path_witness:
  "\<exists>ls ts c. bpf_core_parse_spec [relo_btf] relo_field = Some (Inr ls) \<and>
     bpf_core_spec_match ls [relo_btf] 4 = Some (1, ts) \<and> map access_of (sp_accs ls) = [Index 0, Field [97]] \<and>
     sp_bit_offset ls = 0 \<and> sp_bit_offset ts = 96 \<and> field_path [relo_btf] 4 [Index 0, Field [97]] 96 c"
proof -
  have "map access_of (sp_accs relo_local) = [Index 0, Field [97]]" "sp_bit_offset relo_local = 0"
    "sp_bit_offset relo_target = 96"
    by (simp_all add: relo_local_def relo_target_def)
  with same_access_path [OF relo_parse relo_match _ _ relo_uniq] relo_parse relo_match show ?thesis
    by (fastforce simp: relo_field_def core_relo_is_field_based_def)
qed

section \<open>Comparison of types\<close>

text \<open>C39: In objects whose references lead to types, the comparison of any two types for compatibility returns,
  with \<open>-EINVAL\<close> at most when its levels are used up, and is symmetric.\<close>

theorem types_compat_symmetric:
  assumes "refs_ok lb" "refs_ok tb" "l < btf__type_cnt lb" "t < btf__type_cnt tb"
  shows "bpf_core_types_are_compat lb l tb t \<in> {Some (- EINVAL), Some 0, Some 1} \<and>
    bpf_core_types_are_compat lb l tb t = bpf_core_types_are_compat tb t lb l"
  using compat_result [OF assms] compat_sym by (auto simp: bpf_core_types_are_compat_def core_result_def)

theorem types_compat_symmetric_witness:
  "bpf_core_types_are_compat [relo_btf] 2 [relo_btf] 4 \<in> {Some (- EINVAL), Some 0, Some 1} \<and>
     bpf_core_types_are_compat [relo_btf] 2 [relo_btf] 4 = bpf_core_types_are_compat [relo_btf] 4 [relo_btf] 2"
  by (rule types_compat_symmetric [OF relo_refs_ok relo_refs_ok]) (simp_all add: relo_ids(1))

text \<open>In an object whose references lead to types, a type that is made only of the kinds the comparison knows
  (neither floats nor functions) matches itself, unless the nesting uses up the levels.\<close>

theorem types_match_reflexive:
  assumes "refs_ok b" "match_closed b S" "i \<in> S"
  shows "bpf_core_types_match b i b i \<in> {Some (- EINVAL), Some 1}"
  using match_refl [OF assms] by (auto simp: bpf_core_types_match_def core_self_def)

theorem types_match_reflexive_witness:
  "bpf_core_types_match [relo_btf] 4 [relo_btf] 4 \<in> {Some (- EINVAL), Some 1}"
proof -
  have "match_closed [relo_btf] {1, 2, 3, 4, 5}"
    unfolding match_closed_def by (auto simp: relo_ids(1) match_kinds_def id_pos_def) (simp_all add: type_words_def relo_type_defs)
  then show ?thesis using types_match_reflexive [OF relo_refs_ok, of "{1, 2, 3, 4, 5}" 4] by simp
qed

section \<open>Bit-fields\<close>

text \<open>A little-endian load of up to eight bytes.\<close>

fun load_le :: "u8 list \<Rightarrow> u64" where
  "load_le [] = 0"
| "load_le (b # bs) = ucast b OR push_bit 8 (load_le bs)"

lemma bit_load_le:
  "bit (load_le bs) i \<longleftrightarrow> i < 64 \<and> i div 8 < length bs \<and> bit (bs ! (i div 8)) (i mod 8)"
proof (induction bs arbitrary: i)
  case (Cons b bs)
  show ?case
  proof (cases "i < 8")
    case True
    then show ?thesis by (auto simp: bit_or_iff bit_push_bit_iff bit_unsigned_iff)
  next
    case False
    then obtain j where i: "i = 8 + j" using le_Suc_ex by (metis not_less)
    have "\<not> bit (b :: u8) i" using False bit_imp_le_length [of b i] by auto
    then show ?thesis by (auto simp: i bit_or_iff bit_push_bit_iff bit_unsigned_iff Cons.IH)
  qed
qed simp

lemma extract_bits:
  assumes "d + n \<le> 64" "0 < n"
  shows "bit (drop_bit (64 - n) (push_bit (64 - (d + n)) (w :: u64))) i \<longleftrightarrow> i < n \<and> bit w (d + i)"
proof -
  have "64 - n + i - (64 - (d + n)) = d + i" if "i < n" using assms that by simp
  then show ?thesis using assms by (auto simp: bit_simps add.commute)
qed

lemma div_mult_bounds: "0 < (s::nat) \<Longrightarrow> x div s * s \<le> x" "0 < s \<Longrightarrow> x < x div s * s + s"
  using dividend_less_div_times [of s x] by (simp_all add: add.commute)

lemma fits_widen:
  assumes "o1 + n \<le> (o1 div 8 div s * s + s) * 8" "0 < (s::nat)"
  shows "o1 + n \<le> (o1 div 8 div (s * 2) * (s * 2) + s * 2) * 8"
proof -
  let ?x = "o1 div 8 div s"
  have "(?x + 1) * s \<le> (?x div 2 * 2 + 2) * s" by (rule mult_le_mono1) simp
  also have "\<dots> = o1 div 8 div (s * 2) * (s * 2) + s * 2" by (simp add: div_mult2_eq algebra_simps)
  finally have "o1 div 8 div s * s + s \<le> o1 div 8 div (s * 2) * (s * 2) + s * 2" by simp
  with assms(1) show ?thesis by (meson add_le_mono le_trans mult_le_mono1)
qed

text \<open>The load of \<open>s\<close> bytes at an offset aligned to \<open>s\<close> covers the field.\<close>

definition covers :: "nat \<Rightarrow> nat \<Rightarrow> nat \<Rightarrow> bool" where
  "covers o1 n s \<longleftrightarrow> o1 + n \<le> (o1 div 8 div s * s + s) * 8"

lemma bitfield_load_result:
  assumes "unat bo + unat bs < 2 ^ 32" "size0 = 1 \<or> size0 = 2 \<or> size0 = 4 \<or> size0 = 8"
  shows "case bitfield_load bo bs size0 of
     None \<Rightarrow> False
   | Some (Inl e) \<Rightarrow> e = - E2BIG \<and> \<not> covers (unat bo) (unat bs) 8
   | Some (Inr (s, off)) \<Rightarrow> (s = 1 \<or> s = 2 \<or> s = 4 \<or> s = 8) \<and> covers (unat bo) (unat bs) (unat s) \<and>
       unat off = unat bo div 8 div unat s * unat s"
proof -
  have step: "(bo + bs - bo div 8 div s * s * 8 > s * 8) \<longleftrightarrow> \<not> covers (unat bo) (unat bs) (unat s)"
    "unat (bo div 8 div s * s) = unat bo div 8 div unat s * unat s"
    if "s = 1 \<or> s = 2 \<or> s = 4 \<or> s = 8" for s :: u32
  proof -
    let ?s = "unat s"
    have s: "0 < ?s" "?s \<le> 8" using that by auto
    have le: "unat bo div 8 div ?s * ?s * 8 \<le> unat bo"
      using div_mult_bounds(1) [OF s(1), of "unat bo div 8"] by linarith
    have b: "unat bo < 2 ^ 32" by (rule order_le_less_trans [OF le_add1 assms(1)])
    have d: "unat (bo div 8 div s) = unat bo div 8 div ?s" by (simp add: unat_div)
    have lt: "unat (bo div 8 div s) * ?s < 2 ^ 32" unfolding d using le b by linarith
    then have m: "unat (bo div 8 div s * s) = unat bo div 8 div ?s * ?s"
      by (subst unat_mult_lem [THEN iffD1]) (simp_all add: d)
    then show "unat (bo div 8 div s * s) = unat bo div 8 div ?s * ?s" .
    have m8: "unat (bo div 8 div s * s * 8) = unat bo div 8 div ?s * ?s * 8"
      using order_le_less_trans [OF le b] by (subst unat_mult_lem [THEN iffD1]) (simp_all only: m, simp_all)
    have a: "unat (bo + bs) = unat bo + unat bs" using assms(1) by (subst unat_add_lem [THEN iffD1]) simp_all
    have "unat (bo + bs - bo div 8 div s * s * 8) = unat bo + unat bs - unat bo div 8 div ?s * ?s * 8"
      using le by (subst unat_sub) (simp_all add: word_le_nat_alt a m8)
    moreover have "unat (s * 8) = ?s * 8" using that by auto
    ultimately show "(bo + bs - bo div 8 div s * s * 8 > s * 8) \<longleftrightarrow> \<not> covers (unat bo) (unat bs) ?s"
      using le by (auto simp: word_less_nat_alt covers_def add_mult_distrib)
  qed
  let ?P = "\<lambda>r. case r of None \<Rightarrow> False
   | Some (Inl e) \<Rightarrow> e = - E2BIG \<and> \<not> covers (unat bo) (unat bs) 8
   | Some (Inr (s, off)) \<Rightarrow> (s = 1 \<or> s = 2 \<or> s = 4 \<or> s = 8) \<and> covers (unat bo) (unat bs) (unat s) \<and>
       unat off = unat bo div 8 div unat s * unat s"
  have r8: "?P (bitfield_load bo bs 8)"
    using step [of 8] by (subst bitfield_load.simps) (simp add: Let_def)
  have r4: "?P (bitfield_load bo bs 4)"
    using step [of 4] r8 by (subst bitfield_load.simps) (simp add: Let_def)
  have r2: "?P (bitfield_load bo bs 2)"
    using step [of 2] r4 by (subst bitfield_load.simps) (simp add: Let_def)
  have "\<not> (8 :: u32) \<le> 1" by (simp add: word_le_nat_alt)
  then have r1: "?P (bitfield_load bo bs 1)"
    using step [of 1] r2 by (subst bitfield_load.simps) (simp add: Let_def)
  from assms(2) r1 r2 r4 r8 show ?thesis by blast
qed

lemma covers_8: "covers o1 n s \<Longrightarrow> s = 1 \<or> s = 2 \<or> s = 4 \<or> s = 8 \<Longrightarrow> covers o1 n 8"
  unfolding covers_def using fits_widen [of o1 n 1] fits_widen [of o1 n 2] fits_widen [of o1 n 4] by auto

lemma covers_iff: "0 < n \<Longrightarrow> covers o1 n 8 \<longleftrightarrow> o1 div 64 = (o1 + n - 1) div 64"
proof -
  assume n: "0 < n"
  have "o1 div 8 div 8 = o1 div 64" by (simp add: div_mult2_eq [symmetric])
  then have "covers o1 n 8 \<longleftrightarrow> o1 + n \<le> o1 div 64 * 64 + 64" by (simp add: covers_def algebra_simps)
  also have "\<dots> \<longleftrightarrow> o1 div 64 = (o1 + n - 1) div 64" using n by linarith
  finally show ?thesis .
qed

definition relo_of :: "bpf_core_relo_kind \<Rightarrow> bpf_core_relo" where
  "relo_of k = \<lparr>insn_off = 0, type_id = 0, access_str_off = 0, relo_kind = k\<rparr>"

definition field_value :: "bpf_core_relo_kind \<Rightarrow> bpf_core_spec \<Rightarrow> (int + u64) option" where
  "field_value k spec =
     map_option (\<lambda>(err, r). if err \<noteq> 0 then Inl err else Inr (o_val r))
       (bpf_core_calc_field_relo (relo_of k) (Some spec) (new_out relo_res_init))"

text \<open>
  Loading \<open>s\<close> bytes at \<open>off\<close> and shifting by \<open>ls\<close> to the left and \<open>rs\<close> to the right gives the \<open>n\<close> bits of memory
  at \<open>pos\<close>.
\<close>

definition reads_bits :: "nat \<Rightarrow> nat \<Rightarrow> nat \<Rightarrow> nat \<Rightarrow> nat \<Rightarrow> nat \<Rightarrow> bool" where
  "reads_bits pos n s off ls rs \<longleftrightarrow>
     (\<forall>m j. off + s \<le> length m \<longrightarrow>
        bit (drop_bit rs (push_bit ls (load_le (take s (drop off m))))) j =
        (j < n \<and> bit (m ! ((pos + j) div 8)) ((pos + j) mod 8)))"

lemma field_value_bitfield:
  assumes "sp_accs spec = accs @ [acc]" "acc_name acc \<noteq> None"
    and "btf__type_by_id (sp_btf spec) (acc_type_id acc) = Some t" "unat (acc_idx acc) < btf_vlen t"
    and "bsz = btf_member_bitfield_size t (unat (acc_idx acc))" "0 < bsz"
    and "skip_mods_and_typedefs (sp_btf spec) (unat (m_type (btf_members t (unat (acc_idx acc))))) = Some (mt, i)"
    and "bitfield_load (sp_bit_offset spec) bsz (size_type mt) = Some r"
  shows "field_value BPF_CORE_FIELD_BYTE_SIZE spec = Some (case r of Inl e \<Rightarrow> if e \<noteq> 0 then Inl e else Inr 0 | Inr (s, off) \<Rightarrow> Inr (ucast s))"
    "field_value BPF_CORE_FIELD_BYTE_OFFSET spec = Some (case r of Inl e \<Rightarrow> if e \<noteq> 0 then Inl e else Inr 0 | Inr (s, off) \<Rightarrow> Inr (ucast off))"
    "field_value BPF_CORE_FIELD_LSHIFT_U64 spec = Some (case r of Inl e \<Rightarrow> if e \<noteq> 0 then Inl e else Inr 0 | Inr (s, off) \<Rightarrow>
       Inr (ucast (64 - (sp_bit_offset spec + bsz - off * 8))))"
    "field_value BPF_CORE_FIELD_RSHIFT_U64 spec = Some (case r of Inl e \<Rightarrow> if e \<noteq> 0 then Inl e else Inr 0 | Inr (s, off) \<Rightarrow>
       Inr (ucast (64 - bsz)))"
  using assms
  by (auto simp: field_value_def bpf_core_calc_field_relo_def relo_of_def Let_def ld_def new_out_def relo_res_init_def
      split: sum.splits)

text \<open>C17: The four values the code computes for a bit-field of at most 64 bits read it: a load of byte size and
  byte offset, aligned to its size, shifted left and then right by the two shifts leaves exactly the bits
  of the field at its offset in memory. When no aligned load of eight bytes holds the field, all four are
  refused.\<close>

theorem bitfield_extracted:
  assumes "sp_accs spec = accs @ [acc]" "acc_name acc \<noteq> None"
    and "btf__type_by_id (sp_btf spec) (acc_type_id acc) = Some t" "unat (acc_idx acc) < btf_vlen t"
    and "n = unat (btf_member_bitfield_size t (unat (acc_idx acc)))" "0 < n" "pos = unat (sp_bit_offset spec)"
    and "skip_mods_and_typedefs (sp_btf spec) (unat (m_type (btf_members t (unat (acc_idx acc))))) = Some (mt, i)"
    and "size_type mt \<in> {1, 2, 4, 8}" "pos + n < 2 ^ 32"
  shows "if pos div 64 = (pos + n - 1) div 64
    then \<exists>s off ls rs. s \<in> {1, 2, 4, 8} \<and> off mod s = 0 \<and> off * 8 \<le> pos \<and> ls < 64 \<and> rs < 64 \<and>
      field_value BPF_CORE_FIELD_BYTE_SIZE spec = Some (Inr (of_nat s)) \<and>
      field_value BPF_CORE_FIELD_BYTE_OFFSET spec = Some (Inr (of_nat off)) \<and>
      field_value BPF_CORE_FIELD_LSHIFT_U64 spec = Some (Inr (of_nat ls)) \<and>
      field_value BPF_CORE_FIELD_RSHIFT_U64 spec = Some (Inr (of_nat rs)) \<and>
      reads_bits pos n s off ls rs
    else \<forall>k\<in>{BPF_CORE_FIELD_BYTE_SIZE, BPF_CORE_FIELD_BYTE_OFFSET, BPF_CORE_FIELD_LSHIFT_U64, BPF_CORE_FIELD_RSHIFT_U64}.
      field_value k spec = Some (Inl (- E2BIG))"
proof -
  let ?bsz = "btf_member_bitfield_size t (unat (acc_idx acc))" and ?bo = "sp_bit_offset spec"
  have bsz: "0 < ?bsz" using assms(5,6) by (simp add: word_less_nat_alt)
  have lt: "unat ?bo + unat ?bsz < 2 ^ 32" using assms(5,7,10) by simp
  have mt: "size_type mt = 1 \<or> size_type mt = 2 \<or> size_type mt = 4 \<or> size_type mt = 8" using assms(9) by simp
  note res = bitfield_load_result [OF lt mt]
  then obtain r where r: "bitfield_load ?bo ?bsz (size_type mt) = Some r"
    by (cases "bitfield_load ?bo ?bsz (size_type mt)") auto
  note v = field_value_bitfield [OF assms(1-4) refl bsz assms(8) r]
  show ?thesis
  proof (cases r)
    case (Inl e)
    with res r have "e = - E2BIG" "\<not> covers pos n 8" by (simp_all add: assms(5,7))
    with v Inl covers_iff [OF assms(6)] show ?thesis by (simp add: E2BIG_def)
  next
    case (Inr p)
    obtain s off where p: "p = (s, off)" by force
    from res r Inr p have s: "s = 1 \<or> s = 2 \<or> s = 4 \<or> s = 8" and c: "covers pos n (unat s)"
      and off: "unat off = pos div 8 div unat s * unat s" by (simp_all add: assms(5,7))
    have s': "unat s = 1 \<or> unat s = 2 \<or> unat s = 4 \<or> unat s = 8" using s by auto
    have fits: "pos + n \<le> (unat off + unat s) * 8" using c by (simp add: covers_def off)
    have le: "unat off * 8 \<le> pos" using div_mult_bounds(1) [of "unat s" "pos div 8"] s' off by linarith
    have d64: "pos - unat off * 8 + n \<le> 64" using fits s' le by auto
    let ?d = "pos - unat off * 8"
    have "unat (?bo + ?bsz) = pos + n" using lt by (subst unat_add_lem [THEN iffD1]) (simp_all add: assms(5,7))
    moreover have "unat (off * 8) = unat off * 8"
      using le order_le_less_trans [OF le_add1 assms(10)]
      by (subst unat_mult_lem [THEN iffD1]) simp_all
    ultimately have "unat (?bo + ?bsz - off * 8) = ?d + n" using le by (subst unat_sub) (simp_all add: word_le_nat_alt)
    then have ls: "unat (64 - (?bo + ?bsz - off * 8)) = 64 - (?d + n)"
      using d64 by (subst unat_sub) (simp_all add: word_le_nat_alt)
    have rs: "unat (64 - ?bsz) = 64 - n" using d64 by (subst unat_sub) (simp_all add: word_le_nat_alt assms(5))
    have bits: "bit (drop_bit (64 - n) (push_bit (64 - (?d + n)) (load_le (take (unat s) (drop (unat off) m))))) j =
        (j < n \<and> bit (m ! ((pos + j) div 8)) ((pos + j) mod 8))" if m: "unat off + unat s \<le> length m" for m j
    proof -
      have "bit (load_le (take (unat s) (drop (unat off) m))) (?d + j) = bit (m ! ((pos + j) div 8)) ((pos + j) mod 8)"
        if j: "j < n"
      proof -
        have e: "pos + j = ?d + j + unat off * 8" using le by simp
        have b: "?d + j < 64" "(?d + j) div 8 < unat s" using d64 fits j le by simp_all
        have "(pos + j) div 8 = unat off + (?d + j) div 8" "(pos + j) mod 8 = (?d + j) mod 8"
          unfolding e by simp_all
        moreover have "(?d + j) div 8 < length m - unat off" using b(2) m by linarith
        ultimately show ?thesis using b m by (simp add: bit_load_le)
      qed
      then show ?thesis using extract_bits [OF d64 assms(6)] by auto
    qed
    have c8: "pos div 64 = (pos + n - 1) div 64" using covers_8 [OF c] s' covers_iff [OF assms(6)] by blast
    have sizes: "unat s \<in> {1, 2, 4, 8}" "unat off mod unat s = 0" using s' by (auto simp: off)
    have vals: "field_value BPF_CORE_FIELD_BYTE_SIZE spec = Some (Inr (of_nat (unat s)))"
      "field_value BPF_CORE_FIELD_BYTE_OFFSET spec = Some (Inr (of_nat (unat off)))"
      "field_value BPF_CORE_FIELD_LSHIFT_U64 spec = Some (Inr (of_nat (64 - (?d + n))))"
      "field_value BPF_CORE_FIELD_RSHIFT_U64 spec = Some (Inr (of_nat (64 - n)))"
      unfolding v Inr p sum.case prod.case ls [symmetric] rs [symmetric] of_nat_unat by (rule refl)+
    have less: "64 - (?d + n) < 64" "64 - n < 64" using assms(6) by simp_all
    have reads: "reads_bits pos n (unat s) (unat off) (64 - (?d + n)) (64 - n)" using bits by (simp add: reads_bits_def)
    show ?thesis
      unfolding if_P [OF c8]
      by (intro exI [of _ "unat s"] exI [of _ "unat off"] exI [of _ "64 - (?d + n)"] exI [of _ "64 - n"] conjI)
        (rule sizes le less vals reads)+
  qed
qed

definition bits_spec :: bpf_core_spec where
  "bits_spec = relo_local\<lparr>sp_accs := [] @ [\<lparr>acc_type_id = 5, acc_idx = 0, acc_name = Some [97]\<rparr>], sp_bit_offset := 13\<rparr>"

theorem bitfield_extracted_witness:
  "\<exists>ls rs. field_value BPF_CORE_FIELD_BYTE_SIZE bits_spec = Some (Inr 4) \<and>
     field_value BPF_CORE_FIELD_BYTE_OFFSET bits_spec = Some (Inr 0) \<and>
     field_value BPF_CORE_FIELD_LSHIFT_U64 bits_spec = Some (Inr (of_nat ls)) \<and>
     field_value BPF_CORE_FIELD_RSHIFT_U64 bits_spec = Some (Inr (of_nat rs)) \<and>
     (\<forall>j. bit (drop_bit rs (push_bit ls (load_le [0, 0xA0, 2, 0]))) j =
        (j < 5 \<and> bit ([0, 0xA0, 2, 0 :: u8] ! ((13 + j) div 8)) ((13 + j) mod 8)))"
proof -
  have n: "btf_member_bitfield_size relo_bits 0 = 5"
    by (simp add: btf_member_bitfield_size_def Let_def BTF_MEMBER_BITFIELD_SIZE_def btf_kflag_def BTF_INFO_KFLAG_def drop_bit_eq_div)
      (simp add: relo_bits_def drop_bit_eq_div)
  have t: "size_type relo_int = 4" by (simp add: relo_int_def)
  let ?acc = "\<lparr>acc_type_id = 5, acc_idx = 0, acc_name = Some [97]\<rparr>"
  have p: "sp_accs bits_spec = [] @ [?acc]" "acc_name ?acc \<noteq> None" "sp_btf bits_spec = [relo_btf]" "sp_bit_offset bits_spec = 13"
    by (simp_all add: bits_spec_def relo_local_def)
  have l: "bitfield_load 13 5 4 = Some (Inr (4, 0))" by (simp add: bitfield_load.simps Let_def)
  have v: "field_value BPF_CORE_FIELD_BYTE_SIZE bits_spec = Some (Inr 4)"
    "field_value BPF_CORE_FIELD_BYTE_OFFSET bits_spec = Some (Inr 0)"
    using field_value_bitfield(1,2) [OF p(1,2), of relo_bits 5 relo_int 1 "Inr (4, 0)"] by (simp_all add: p n t l)
  have d: "(13 :: nat) div 64 = (13 + 5 - 1) div 64" by simp
  have "\<exists>s off ls rs. s \<in> {1, 2, 4, 8} \<and> off mod s = 0 \<and> off * 8 \<le> 13 \<and> ls < 64 \<and> rs < 64 \<and>
      field_value BPF_CORE_FIELD_BYTE_SIZE bits_spec = Some (Inr (of_nat s)) \<and>
      field_value BPF_CORE_FIELD_BYTE_OFFSET bits_spec = Some (Inr (of_nat off)) \<and>
      field_value BPF_CORE_FIELD_LSHIFT_U64 bits_spec = Some (Inr (of_nat ls)) \<and>
      field_value BPF_CORE_FIELD_RSHIFT_U64 bits_spec = Some (Inr (of_nat rs)) \<and> reads_bits 13 5 s off ls rs"
    using bitfield_extracted [OF p(1,2), of relo_bits 5 13 relo_int 1, unfolded if_P [OF d]] by (simp add: p n t)
  then obtain s off ls rs where r: "s \<in> {1, 2, 4, 8}" "off mod s = 0" "off * 8 \<le> 13"
      "field_value BPF_CORE_FIELD_BYTE_SIZE bits_spec = Some (Inr (of_nat s))"
      "field_value BPF_CORE_FIELD_LSHIFT_U64 bits_spec = Some (Inr (of_nat ls))"
      "field_value BPF_CORE_FIELD_RSHIFT_U64 bits_spec = Some (Inr (of_nat rs))" "reads_bits 13 5 s off ls rs"
    by (elim exE conjE) (rule that)
  from r(1,4) v(1) have s: "s = 4" by auto
  with r(2,3) have "off = 0" by (cases off) auto
  with r(7) s have "reads_bits 13 5 4 0 ls rs" by simp
  then have "bit (drop_bit rs (push_bit ls (load_le (take 4 (drop 0 m))))) j =
      (j < 5 \<and> bit (m ! ((13 + j) div 8)) ((13 + j) mod 8))" if "length m = 4" for m j
    unfolding reads_bits_def using that by (metis add_0 order_refl)
  from this [of "[0, 0xA0, 2, 0]"]
  have "bit (drop_bit rs (push_bit ls (load_le [0, 0xA0, 2, 0]))) j =
      (j < 5 \<and> bit ([0, 0xA0, 2, 0 :: u8] ! ((13 + j) div 8)) ((13 + j) mod 8))" for j
    by (simp only: list.size drop_0 take_Suc_Cons numeral_eq_Suc pred_numeral_simps eval_nat_numeral take_0 BitM.simps)
  with v r(5,6) show ?thesis by (intro exI [of _ ls] exI [of _ rs] conjI allI)
qed

end
