(* ===== verification/Relo_Patch.thy ===== *)
theory Relo_Patch
  imports Relo_Example
begin

text \<open>
  Properties of CO-RE relocations, second part: the effect of patching an instruction, the choice among the
  candidates and the search for them.
\<close>

section \<open>Patching\<close>

definition is_alu :: "bpf_insn \<Rightarrow> bool" where
  "is_alu insn \<longleftrightarrow> BPF_CLASS (insn_code insn) = BPF_ALU \<or> BPF_CLASS (insn_code insn) = BPF_ALU64"
definition is_mem :: "bpf_insn \<Rightarrow> bool" where
  "is_mem insn \<longleftrightarrow> BPF_CLASS (insn_code insn) \<in> {BPF_LDX, BPF_ST, BPF_STX}"

text \<open>The operand a relocation is about: the immediate, sign-extended, the offset, or the 64-bit immediate.\<close>

definition operand :: "bpf_insn list \<Rightarrow> nat \<Rightarrow> u64" where
  "operand insns i =
     (let insn = insns ! i in
      if is_alu insn then scast (insn_imm insn)
      else if is_mem insn then scast (insn_offset insn)
      else ucast (insn_imm insn) OR push_bit 32 (ucast (insn_imm (insns ! (i + 1)))))"

text \<open>Everything but the operand and, for a load or store, the size is as before.\<close>

definition same_insn :: "bpf_insn \<Rightarrow> bpf_insn \<Rightarrow> bool" where
  "same_insn insn insn' \<longleftrightarrow>
     BPF_CLASS (insn_code insn') = BPF_CLASS (insn_code insn) \<and> BPF_MODE (insn_code insn') = BPF_MODE (insn_code insn) \<and>
     insn_dst_reg insn' = insn_dst_reg insn \<and> insn_src_reg insn' = insn_src_reg insn \<and>
     (is_mem insn \<longrightarrow> insn_imm insn' = insn_imm insn) \<and>
     (\<not> is_mem insn \<longrightarrow> insn_code insn' = insn_code insn \<and> insn_offset insn' = insn_offset insn)"

lemma class_recode:
  "BPF_CLASS (BPF_MODE c OR BPF_SIZE s OR BPF_CLASS c) = BPF_CLASS c"
  "BPF_MODE (BPF_MODE c OR BPF_SIZE s OR BPF_CLASS c) = BPF_MODE c"
  "BPF_SIZE (BPF_MODE c OR BPF_SIZE s OR BPF_CLASS c) = BPF_SIZE s"
  unfolding BPF_CLASS_def BPF_MODE_def BPF_SIZE_def
  by (simp_all add: bit.conj_disj_distrib2 and.assoc)

lemma offset_fits: "v \<le> 32767 \<Longrightarrow> scast (ucast (v :: u64) :: u16) = v"
proof -
  assume v: "v \<le> 32767"
  have "unat v < 2 ^ 15" using v by (simp add: word_le_nat_alt)
  then have "take_bit 15 v = v" by (simp only: word_unat_eq_iff unsigned_take_bit_eq take_bit_nat_eq_self)
  then have "\<not> bit v n" if "15 \<le> n" for n using that by (metis bit_take_bit_iff not_le)
  then show ?thesis by (intro bit_word_eqI) (auto simp: bit_simps not_le min_def)
qed

lemma imm64_split: "ucast (ucast v :: u32) OR push_bit 32 (ucast (ucast (drop_bit 32 v) :: u32)) = (v :: u64)"
proof (rule bit_word_eqI)
  fix n assume "n < LENGTH(64)"
  then show "bit (ucast (ucast v :: u32) OR push_bit 32 (ucast (ucast (drop_bit 32 v) :: u32)) :: u64) n = bit v n"
    by (cases "n < 32") (auto simp: bit_simps)
qed

definition mem_recode :: "bpf_core_relo_res \<Rightarrow> bpf_insn \<Rightarrow> bpf_insn \<Rightarrow> bool" where
  "mem_recode res insn insn' \<longleftrightarrow>
     (if new_sz res = orig_sz res then insn_code insn' = insn_code insn
      else word_of_int (insn_bpf_size_to_bytes insn) = orig_sz res \<and> insn_bpf_size_to_bytes insn' = uint (new_sz res))"

definition patched :: "bpf_core_relo_res \<Rightarrow> bpf_insn list \<Rightarrow> nat \<Rightarrow> bpf_insn list \<Rightarrow> bool" where
  "patched res insns i insns' \<longleftrightarrow>
     same_insn (insns ! i) (insns' ! i) \<and> (validate res \<longrightarrow> operand insns i = orig_val res) \<and>
     operand insns' i = (if is_alu (insns ! i) then scast (ucast (new_val res) :: s32) else new_val res) \<and>
     (if is_alu (insns ! i) \<or> is_mem (insns ! i) then insns' ! (i + 1) = insns ! (i + 1)
      else same_insn (insns ! (i + 1)) (insns' ! (i + 1))) \<and>
     (is_mem (insns ! i) \<longrightarrow> mem_recode res (insns ! i) (insns' ! i))"

definition poisoned :: "bpf_insn list \<Rightarrow> nat \<Rightarrow> bpf_insn list \<Rightarrow> bool" where
  "poisoned insns i insns' \<longleftrightarrow> insns' ! i = poisoned_insn \<and>
     insns' ! (i + 1) = (if is_ldimm64_insn (insns ! i) then poisoned_insn else insns ! (i + 1))"

lemma poison_at_poisoned:
  "poison_at insns i = Some insns' \<Longrightarrow> length insns' = length insns \<and> poisoned insns i insns' \<and>
     (\<forall>j. j \<noteq> i \<longrightarrow> j \<noteq> i + 1 \<longrightarrow> insns' ! j = insns ! j)"
  by (auto simp: poison_at_def ld_def st_def poisoned_def bind_eq_Some_conv split: if_splits)

lemma size_code:
  assumes "insn_bytes_to_bpf_size n = Some b"
  shows "BPF_SIZE b = b" "BPF_SIZE (insn_code insn) = b \<Longrightarrow> insn_bpf_size_to_bytes insn = uint n"
  using assms by (auto simp: insn_bytes_to_bpf_size_def insn_bpf_size_to_bytes_def BPF_SIZE_def insn_codes Let_def split: if_splits)

text \<open>The case of a load or store.\<close>

lemma patch_mem:
  assumes "\<not> poison res" "i < length insns" "is_mem (insns ! i)"
  shows "bpf_core_patch_insn insns i res =
    (let off = (insns ! i)\<lparr>insn_offset := ucast (new_val res)\<rparr> in
     if validate res \<and> operand insns i \<noteq> orig_val res then Some (insns, - EINVAL)
     else if 32767 < new_val res then Some (insns, - ERANGE)
     else if fail_memsz_adjust res then map_option (\<lambda>insns. (insns, 0)) (poison_at insns i)
     else if new_sz res = orig_sz res then Some (insns[i := off], 0)
     else if word_of_int (insn_bpf_size_to_bytes (insns ! i)) \<noteq> orig_sz res then Some (insns[i := off], - EINVAL)
     else case insn_bytes_to_bpf_size (new_sz res) of
       None \<Rightarrow> Some (insns[i := off], - EINVAL)
     | Some b \<Rightarrow> Some (insns[i := off\<lparr>insn_code :=
         BPF_MODE (insn_code (insns ! i)) OR b OR BPF_CLASS (insn_code (insns ! i))\<rparr>], 0))"
proof -
  have c: "\<not> is_alu (insns ! i)" "BPF_CLASS (insn_code (insns ! i)) \<noteq> BPF_ALU" "BPF_CLASS (insn_code (insns ! i)) \<noteq> BPF_ALU64"
    "BPF_CLASS (insn_code (insns ! i)) = BPF_LDX \<or> BPF_CLASS (insn_code (insns ! i)) = BPF_ST \<or>
     BPF_CLASS (insn_code (insns ! i)) = BPF_STX"
    using assms(3) by (auto simp: is_alu_def is_mem_def insn_codes)
  have s: "insn_bpf_size_to_bytes (x\<lparr>insn_offset := y\<rparr>) = insn_bpf_size_to_bytes x" for x :: bpf_insn and y
    by (simp add: insn_bpf_size_to_bytes_def)
  show ?thesis
    using assms c by (simp add: bpf_core_patch_insn_def ld_def Let_def operand_def s split: option.split)
qed

lemma patched_mem:
  assumes i: "i < length insns" and mem: "is_mem (insns ! i)" and v: "new_val res \<le> 32767"
    and ok: "validate res \<longrightarrow> operand insns i = orig_val res"
    and c: "BPF_CLASS code = BPF_CLASS (insn_code (insns ! i))" "BPF_MODE code = BPF_MODE (insn_code (insns ! i))"
    and m: "\<And>x. mem_recode res (insns ! i) ((insns ! i)\<lparr>insn_offset := x, insn_code := code\<rparr>)"
  shows "patched res insns i (insns[i := (insns ! i)\<lparr>insn_offset := ucast (new_val res), insn_code := code\<rparr>])"
proof -
  have n: "\<not> is_alu (insns ! i)" using mem by (auto simp: is_alu_def is_mem_def insn_codes)
  let ?new = "(insns ! i)\<lparr>insn_offset := ucast (new_val res), insn_code := code\<rparr>"
  have "is_mem ?new" "\<not> is_alu ?new" using mem n c(1) by (simp_all add: is_mem_def is_alu_def)
  then have "operand (insns[i := ?new]) i = new_val res" using i offset_fits [OF v] by (simp add: operand_def Let_def)
  with n ok c mem m i show ?thesis by (simp add: patched_def same_insn_def)
qed

definition patch_outcome :: "bpf_core_relo_res \<Rightarrow> bpf_insn list \<Rightarrow> nat \<Rightarrow> bpf_insn list \<Rightarrow> int \<Rightarrow> bool" where
  "patch_outcome res insns i insns' r \<longleftrightarrow>
    length insns' = length insns \<and> (\<forall>j. j \<noteq> i \<longrightarrow> j \<noteq> i + 1 \<longrightarrow> insns' ! j = insns ! j) \<and>
    (if r = 0 then
       if poison res \<or> is_mem (insns ! i) \<and> fail_memsz_adjust res then poisoned insns i insns'
       else patched res insns i insns'
     else r < 0 \<and> (insns' = insns \<or> is_mem (insns ! i) \<and>
       insns' = insns[i := (insns ! i)\<lparr>insn_offset := ucast (new_val res)\<rparr>]))"

lemma patch_outcome_alu:
  assumes "bpf_core_patch_insn insns i res = Some (insns', r)" "i < length insns" "\<not> poison res" "is_alu (insns ! i)"
  shows "patch_outcome res insns i insns' r"
proof -
  have m: "\<not> is_mem (insns ! i)" using assms(4) by (auto simp: is_alu_def is_mem_def insn_codes)
  with assms show ?thesis
    by (auto simp: bpf_core_patch_insn_def ld_def Let_def is_alu_def EINVAL_def patch_outcome_def patched_def same_insn_def
        operand_def m [unfolded is_mem_def, simplified] split: if_splits)
qed

lemma patch_outcome_mem:
  assumes "bpf_core_patch_insn insns i res = Some (insns', r)" "i < length insns" and mem: "\<not> poison res" "is_mem (insns ! i)"
  shows "patch_outcome res insns i insns' r"
proof -
  let ?insn = "insns ! i"
  note eq = patch_mem [OF mem(1) assms(2) mem(2)]
  let ?off = "?insn\<lparr>insn_offset := ucast (new_val res)\<rparr>"
  show ?thesis
  proof (cases "(validate res \<and> operand insns i \<noteq> orig_val res) \<or> 32767 < new_val res \<or> fail_memsz_adjust res")
    case True
    with assms show ?thesis
      unfolding eq using mem poison_at_poisoned [of insns i insns']
      by (auto simp: Let_def EINVAL_def ERANGE_def patch_outcome_def split: if_splits)
  next
    case False
    then have ok: "validate res \<longrightarrow> operand insns i = orig_val res" "new_val res \<le> 32767" "\<not> fail_memsz_adjust res"
      by auto
    note p = patched_mem [OF assms(2) mem(2) ok(2,1)]
    have code: "?off\<lparr>insn_code := insn_code ?insn\<rparr> = ?off" by simp
    have frame: "length (insns[i := x]) = length insns \<and> (\<forall>j. j \<noteq> i \<longrightarrow> j \<noteq> i + 1 \<longrightarrow> insns[i := x] ! j = insns ! j)" for x
      by simp
    have n: "\<not> (validate res \<and> operand insns i \<noteq> orig_val res)" "\<not> 32767 < new_val res" "\<not> fail_memsz_adjust res"
      using False by auto
    have e: "(if new_sz res = orig_sz res then Some (insns[i := ?off], 0)
       else if word_of_int (insn_bpf_size_to_bytes ?insn) \<noteq> orig_sz res then Some (insns[i := ?off], - EINVAL)
       else case insn_bytes_to_bpf_size (new_sz res) of
         None \<Rightarrow> Some (insns[i := ?off], - EINVAL)
       | Some b \<Rightarrow> Some (insns[i := ?off\<lparr>insn_code := BPF_MODE (insn_code ?insn) OR b OR BPF_CLASS (insn_code ?insn)\<rparr>], 0))
       = Some (insns', r)"
      using assms(1) unfolding eq Let_def if_not_P [OF n(1)] if_not_P [OF n(2)] if_not_P [OF n(3)] .
    consider (size) "insns' = insns[i := ?off]" "r < 0"
      | (same) "new_sz res = orig_sz res" "insns' = insns[i := ?off]" "r = 0"
      | (recode) b where "new_sz res \<noteq> orig_sz res" "word_of_int (insn_bpf_size_to_bytes ?insn) = orig_sz res"
          "insn_bytes_to_bpf_size (new_sz res) = Some b" "r = 0"
          "insns' = insns[i := ?off\<lparr>insn_code := BPF_MODE (insn_code ?insn) OR b OR BPF_CLASS (insn_code ?insn)\<rparr>]"
    proof (cases "insn_bytes_to_bpf_size (new_sz res)")
      case None
      with e that(1,2) show thesis by (simp split: if_splits) (auto simp: EINVAL_def)
    next
      case (Some b)
      with e that show thesis by (simp split: if_splits) (auto simp: EINVAL_def)
    qed
    then show ?thesis
    proof cases
      case size
      then show ?thesis using frame mem by (simp add: patch_outcome_def)
    next
      case same
      have "patched res insns i (insns[i := ?off])"
        using p [of "insn_code ?insn"] same(1) unfolding code by (simp add: mem_recode_def)
      with same frame mem ok show ?thesis by (simp add: patch_outcome_def)
    next
      case (recode b)
      note b = size_code(1) [OF recode(3)]
      have "patched res insns i insns'"
        unfolding recode(5)
        by (rule p) (use recode(1,2) size_code(2) [OF recode(3)] class_recode [of "insn_code ?insn" b] in
            \<open>simp_all add: mem_recode_def b\<close>)
      with recode frame mem ok show ?thesis by (simp add: patch_outcome_def)
    qed
  qed
qed

lemma patch_outcome_ld:
  assumes "bpf_core_patch_insn insns i res = Some (insns', r)" "i < length insns"
    and ld: "\<not> poison res" "\<not> is_alu (insns ! i)" "\<not> is_mem (insns ! i)"
  shows "patch_outcome res insns i insns' r"
proof -
  let ?insn = "insns ! i"
  from ld have c: "BPF_CLASS (insn_code ?insn) \<noteq> BPF_ALU" "BPF_CLASS (insn_code ?insn) \<noteq> BPF_ALU64"
    "BPF_CLASS (insn_code ?insn) \<noteq> BPF_LDX" "BPF_CLASS (insn_code ?insn) \<noteq> BPF_ST" "BPF_CLASS (insn_code ?insn) \<noteq> BPF_STX"
    by (auto simp: is_alu_def is_mem_def)
  let ?new = "insns[i := ?insn\<lparr>insn_imm := ucast (new_val res)\<rparr>,
    i + 1 := (insns ! (i + 1))\<lparr>insn_imm := ucast (drop_bit 32 (new_val res))\<rparr>]"
  consider (refused) "insns' = insns" "r = - EINVAL"
    | (imm) "i + 1 < length insns" "validate res \<longrightarrow> operand insns i = orig_val res" "insns' = ?new" "r = 0"
        "insn_code (insns ! (i + 1)) = 0"
  proof (cases "insns' = insns \<and> r = - EINVAL")
    case False
    with assms(1,2) ld c have "i + 1 < length insns" "validate res \<longrightarrow> operand insns i = orig_val res"
        "insn_code (insns ! (i + 1)) = 0" "insns' = ?new \<and> r = 0"
      by (auto simp: bpf_core_patch_insn_def Let_def ld_def operand_def split: if_splits)
    then show thesis using that(2) by simp
  qed (use that in simp)
  then show ?thesis
  proof cases
    case imm
    have "is_alu (?insn\<lparr>insn_imm := x\<rparr>) = is_alu ?insn" "is_mem (?insn\<lparr>insn_imm := x\<rparr>) = is_mem ?insn" for x
      by (simp_all add: is_alu_def is_mem_def)
    then have "operand ?new i = new_val res" using imm(1) ld by (simp add: operand_def Let_def imm64_split)
    moreover have "\<not> is_mem (insns ! (i + 1))"
      using imm(5) by (simp add: is_mem_def BPF_CLASS_def insn_codes)
    ultimately have "patched res insns i ?new" using imm(1,2) ld by (simp add: patched_def same_insn_def)
    with imm ld show ?thesis by (simp add: patch_outcome_def)
  qed (simp add: EINVAL_def patch_outcome_def)
qed

text \<open>C16: Patching touches the instruction and, for a 64-bit immediate, the slot behind it. When it succeeds, an
  instruction the relocation cannot be applied to is the poisoned one; otherwise the operand had the
  expected value, is the new one (truncated to 32 bits and sign-extended in arithmetic), and all other
  fields are as before, but for the size of a load or store, which changes from the old to the new size
  of the field. When it fails, the code is unchanged up to the offset of a load or store.\<close>

theorem patch_insn_effect:
  assumes "bpf_core_patch_insn insns i res = Some (insns', r)"
  shows "length insns' = length insns \<and> (\<forall>j. j \<noteq> i \<longrightarrow> j \<noteq> i + 1 \<longrightarrow> insns' ! j = insns ! j) \<and>
    (if r = 0 then
       if poison res \<or> is_mem (insns ! i) \<and> fail_memsz_adjust res then poisoned insns i insns'
       else patched res insns i insns'
     else r < 0 \<and> (insns' = insns \<or> is_mem (insns ! i) \<and>
       insns' = insns[i := (insns ! i)\<lparr>insn_offset := ucast (new_val res)\<rparr>]))"
proof -
  have i: "i < length insns" using assms by (auto simp: bpf_core_patch_insn_def ld_def split: if_splits)
  have "patch_outcome res insns i insns' r"
  proof (cases "poison res")
    case True
    with assms i have "poison_at insns i = Some insns'" "r = 0" by (auto simp: bpf_core_patch_insn_def ld_def Let_def)
    with poison_at_poisoned [OF this(1)] True show ?thesis by (simp add: patch_outcome_def)
  next
    case False
    then show ?thesis
      using patch_outcome_alu [OF assms i] patch_outcome_mem [OF assms i] patch_outcome_ld [OF assms i] by blast
  qed
  then show ?thesis unfolding patch_outcome_def .
qed

theorem patch_insn_effect_witness:
  "\<exists>insns' insns. bpf_core_patch_insn insns 0 (relo_res_init\<lparr>new_val := 12, orig_sz := 4, new_sz := 8\<rparr>) = Some (insns', 0) \<and>
     length insns = 1 \<and> length insns' = 1 \<and> operand insns 0 = 0 \<and> operand insns' 0 = 12 \<and>
     insn_bpf_size_to_bytes (insns ! 0) = 4 \<and> insn_bpf_size_to_bytes (insns' ! 0) = 8"
proof -
  let ?insn = "\<lparr>insn_code = 0x61, insn_dst_reg = 1, insn_src_reg = 2, insn_offset = 0, insn_imm = 0\<rparr> :: bpf_insn"
  let ?res = "relo_res_init\<lparr>new_val := 12, orig_sz := 4, new_sz := 8\<rparr>"
  have m: "is_mem ?insn" "\<not> is_alu ?insn" by (simp_all add: is_mem_def is_alu_def BPF_CLASS_def insn_codes)
  have z: "insn_bpf_size_to_bytes ?insn = 4" by (simp add: insn_bpf_size_to_bytes_def BPF_SIZE_def insn_codes)
  have b: "insn_bytes_to_bpf_size 8 = Some BPF_DW" by (simp add: insn_bytes_to_bpf_size_def)
  have o0: "operand [?insn] 0 = 0" using m by (simp add: operand_def)
  obtain insns' where p: "bpf_core_patch_insn [?insn] 0 ?res = Some (insns', 0)"
    using patch_mem [of ?res 0 "[?insn]"] m z b o0 by (simp add: relo_res_init_def Let_def)
  from patch_insn_effect [OF p] m z o0 p show ?thesis
    by (intro exI [of _ insns'] exI [of _ "[?insn]"]) (auto simp: relo_res_init_def patched_def mem_recode_def)
qed

section \<open>The choice among candidates\<close>

definition cand_matches :: "bpf_core_spec \<Rightarrow> bpf_core_cand \<Rightarrow> bool" where
  "cand_matches local_spec c \<longleftrightarrow>
     (case bpf_core_spec_match local_spec (cand_btf c) (cand_id c) of Some (r, _) \<Rightarrow> 0 < r | None \<Rightarrow> False)"

text \<open>The candidate's own relocation has the value and the decision of the result, at the bit offset.\<close>

definition cand_agrees :: "bpf_core_relo \<Rightarrow> bpf_core_spec \<Rightarrow> bpf_core_relo_res \<Rightarrow> u32 \<Rightarrow> bpf_core_cand \<Rightarrow> bool" where
  "cand_agrees relo local_spec res off c \<longleftrightarrow>
     (\<exists>r spec res'. bpf_core_spec_match local_spec (cand_btf c) (cand_id c) = Some (r, spec) \<and>
        bpf_core_calc_relo relo local_spec (Some spec) = Some (0, res') \<and> new_val res' = new_val res \<and>
        poison res' = poison res \<and> sp_bit_offset spec = off)"

lemma calc_cands_agree:
  "calc_cands relo ls cands kept targ = Some (0, kept', targ') \<Longrightarrow>
     kept' = kept @ filter (cand_matches ls) cands \<and>
     (case targ of
        Some x \<Rightarrow> targ' = Some x
      | None \<Rightarrow> filter (cand_matches ls) cands = [] \<and> targ' = None \<or> filter (cand_matches ls) cands \<noteq> [] \<and> targ' \<noteq> None) \<and>
     (\<forall>res spec. targ' = Some (res, spec) \<longrightarrow>
        (\<forall>c\<in>set (filter (cand_matches ls) cands). cand_agrees relo ls res (sp_bit_offset spec) c))"
proof (induction cands arbitrary: kept targ)
  case Nil
  then show ?case by (auto split: option.splits)
next
  case (Cons c cands)
  obtain r spec where m: "bpf_core_spec_match ls (cand_btf c) (cand_id c) = Some (r, spec)"
    using Cons.prems by (auto simp: bind_eq_Some_conv)
  show ?case
  proof (cases "r > 0")
    case False
    then have "r = 0" using Cons.prems m by (auto split: if_splits)
    moreover have "\<not> cand_matches ls c" using False m by (simp add: cand_matches_def)
    ultimately show ?thesis using Cons.IH [of kept targ] Cons.prems m by (cases targ) simp_all
  next
    case True
    obtain res where c: "bpf_core_calc_relo relo ls (Some spec) = Some (0, res)"
      using Cons.prems m True by (auto simp: bind_eq_Some_conv split: if_splits prod.splits)
    have cm: "cand_matches ls c" using m True by (simp add: cand_matches_def)
    show ?thesis
    proof (cases targ)
      case None
      have "calc_cands relo ls cands (kept @ [c]) (Some (res, spec)) = Some (0, kept', targ')"
        using Cons.prems m True c None by simp
      from Cons.IH [OF this] None cm m c show ?thesis by (auto simp: cand_agrees_def)
    next
      case (Some x)
      obtain tres tspec where x: "x = (tres, tspec)" by force
      have "calc_cands relo ls cands (kept @ [c]) targ = Some (0, kept', targ')"
        "sp_bit_offset spec = sp_bit_offset tspec" "poison res = poison tres" "new_val res = new_val tres"
        using Cons.prems m True c Some x by (auto split: if_splits simp: EINVAL_def)
      from this(2-4) Cons.IH [OF this(1)] Some x cm m c show ?thesis by (auto simp: cand_agrees_def)
    qed
  qed
qed

text \<open>C15: When a relocation succeeds, the candidates left are those that match the local specification, in order,
  and each of them on its own gives the same value, the same decision and the same bit offset, so that the
  result does not depend on the choice. When none matches the list is kept and the result is the one
  without a target.\<close>

theorem calc_relo_insn_unambiguous:
  assumes "bpf_core_calc_relo_insn relo lb cands res0 = Some (0, cands', res)"
    and "relo_kind relo \<noteq> BPF_CORE_TYPE_ID_LOCAL"
  shows "\<exists>ls off. bpf_core_parse_spec lb relo = Some (Inr ls) \<and>
    (if filter (cand_matches ls) cands = []
     then cands' = cands \<and> bpf_core_calc_relo relo ls None = Some (0, res)
     else cands' = filter (cand_matches ls) cands \<and> (\<forall>c\<in>set cands'. cand_agrees relo ls res off c))"
proof -
  obtain t where t: "btf__type_by_id lb (unat (type_id relo)) = Some t"
    using assms(1) by (auto simp: bpf_core_calc_relo_insn_def bind_eq_Some_conv)
  with assms(1) have n: "btf__name_by_offset lb (unat (name_off t)) \<noteq> None"
    by (cases "btf__name_by_offset lb (unat (name_off t))") (auto simp: bpf_core_calc_relo_insn_def EINVAL_def Let_def)
  obtain r where r: "bpf_core_parse_spec lb relo = Some r"
    using assms(1) t n by (auto simp: bpf_core_calc_relo_insn_def Let_def bind_eq_Some_conv)
  have "\<exists>ls. r = Inr ls" using assms(1) t n r by (cases r) (auto simp: bpf_core_calc_relo_insn_def EINVAL_def Let_def)
  then obtain ls where ls: "bpf_core_parse_spec lb relo = Some (Inr ls)" using r by auto
  with assms t n obtain kept targ where k: "calc_cands relo ls cands [] None = Some (0, kept, targ)"
    and e: "(if kept \<noteq> [] then Some (0, kept, case targ of None \<Rightarrow> res0 | Some (res, _) \<Rightarrow> res)
      else bpf_core_calc_relo relo ls None \<bind> (\<lambda>(err, targ_res). Some (err, cands, targ_res))) = Some (0, cands', res)"
    by (auto simp: bpf_core_calc_relo_insn_def Let_def bind_eq_Some_conv EOPNOTSUPP_def EINVAL_def split: if_splits)
  note a = calc_cands_agree [OF k]
  show ?thesis
  proof (cases "filter (cand_matches ls) cands = []")
    case True
    with a e have "bpf_core_calc_relo relo ls None = Some (0, res)" "cands' = cands" by (auto simp: bind_eq_Some_conv)
    with True ls show ?thesis by simp
  next
    case False
    with a obtain tres tspec where t: "targ = Some (tres, tspec)" by auto
    with a e False have "res = tres" "cands' = filter (cand_matches ls) cands" by auto
    with a t False ls show ?thesis by (intro exI [of _ ls] exI [of _ "sp_bit_offset tspec"]) simp
  qed
qed

lemma relo_calc: "bpf_core_calc_relo relo_field relo_local (Some relo_target) =
  Some (0, relo_res_init\<lparr>new_val := 12, orig_sz := 4, new_sz := 4, orig_type_id := 1, new_type_id := 1\<rparr>)"
proof -
  have b: "btf_member_bitfield_size relo_s 0 = 0" "btf_member_bitfield_size relo_anon 0 = 0"
    by (simp_all add: btf_member_bitfield_size_def relo_type_defs btf_kflag_def BTF_INFO_KFLAG_def drop_bit_eq_div Let_def)
  show ?thesis
    by (simp add: bpf_core_calc_relo_def relo_field_def core_relo_is_field_based_def calc_both_def bpf_core_calc_field_relo_def
        relo_local_def relo_target_def ld_def b relo_sizes Let_def orig_out_def set_orig_def new_out_def set_new_def
        relo_res_init_def EUCLEAN_def)
qed

lemma relo_no_match: "bpf_core_spec_match relo_local [relo_btf] 1 =
  Some (0, relo_target\<lparr>sp_accs := [\<lparr>acc_type_id = 1, acc_idx = 0, acc_name = None\<rparr>], sp_root := 1, sp_raw := [0], sp_bit_offset := 0\<rparr>)"
  unfolding bpf_core_spec_match_def relo_local_def relo_target_def
  by (simp add: core_relo_is_type_based_def core_relo_is_enumval_based_def core_relo_is_field_based_def
      BPF_CORE_SPEC_MAX_LEN_def empty_spec_def relo_sizes Let_def bpf_core_match_member.simps btf_is_defs)

theorem calc_relo_insn_unambiguous_witness:
  "\<exists>res. bpf_core_calc_relo_insn relo_field [relo_btf]
      [\<lparr>cand_btf = [relo_btf], cand_id = 1\<rparr>, \<lparr>cand_btf = [relo_btf], cand_id = 4\<rparr>] relo_res_init =
     Some (0, [\<lparr>cand_btf = [relo_btf], cand_id = 4\<rparr>], res) \<and> new_val res = 12 \<and>
     (\<exists>off. cand_agrees relo_field relo_local res off \<lparr>cand_btf = [relo_btf], cand_id = 4\<rparr>)"
proof -
  let ?cs = "[\<lparr>cand_btf = [relo_btf], cand_id = 1\<rparr>, \<lparr>cand_btf = [relo_btf], cand_id = 4\<rparr>]"
  let ?res = "relo_res_init\<lparr>new_val := 12, orig_sz := 4, new_sz := 4, orig_type_id := 1, new_type_id := 1\<rparr>"
  have t: "btf__type_by_id [relo_btf] (unat (type_id relo_field)) = Some relo_s" "name_off relo_s = 1"
    "relo_kind relo_field \<noteq> BPF_CORE_TYPE_ID_LOCAL"
    by (simp_all add: relo_field_def relo_s_def)
  have c: "bpf_core_calc_relo_insn relo_field [relo_btf] ?cs relo_res_init =
      Some (0, [\<lparr>cand_btf = [relo_btf], cand_id = 4\<rparr>], ?res)"
    by (simp add: bpf_core_calc_relo_insn_def t relo_parse Let_def str_is_empty_def relo_match relo_no_match relo_calc)
  have m: "filter (cand_matches relo_local) ?cs = [\<lparr>cand_btf = [relo_btf], cand_id = 4\<rparr>]"
    by (simp add: cand_matches_def relo_match relo_no_match)
  have "new_val ?res = 12" by simp
  with calc_relo_insn_unambiguous [OF c t(3)] c m relo_parse show ?thesis by (auto simp: relo_parse m)
qed

section \<open>The search of candidates\<close>

definition essential_name :: "u8 list \<Rightarrow> u8 list" where
  "essential_name n = take (bpf_core_essential_name_len n) n"

lemma essential_scan_le: "i \<le> length n \<Longrightarrow> essential_scan n i \<le> length n"
  by (induction i) simp_all

lemma essential_name_eq:
  "essential_name m = essential_name n \<longleftrightarrow>
     bpf_core_essential_name_len n = bpf_core_essential_name_len m \<and> strncmp_eq m n (bpf_core_essential_name_len m)"
proof -
  have "bpf_core_essential_name_len x \<le> length x" for x
    unfolding bpf_core_essential_name_len_def by (rule essential_scan_le) simp
  then have "length (essential_name x) = bpf_core_essential_name_len x" for x by (simp add: essential_name_def)
  then show ?thesis unfolding strncmp_eq_def by (metis essential_name_def)
qed

text \<open>The candidates of an object: the types of the kind and the name of the local type, but for its flavour.\<close>

definition is_cand :: "btf_type \<Rightarrow> u8 list \<Rightarrow> btf list \<Rightarrow> nat \<Rightarrow> bool" where
  "is_cand t n b i \<longleftrightarrow> btf_kind_core_compat (btf_type_by_id b i) t \<and>
     (\<exists>m. btf__name_by_offset b (unat (name_off (btf_type_by_id b i))) = Some m \<and> m \<noteq> [] \<and> essential_name n = essential_name m)"

definition cands_of :: "btf_type \<Rightarrow> u8 list \<Rightarrow> btf list \<Rightarrow> nat \<Rightarrow> bpf_core_cand list" where
  "cands_of t n b start = map (\<lambda>i. \<lparr>cand_btf = b, cand_id = of_nat i\<rparr>) (filter (is_cand t n b) [start..<btf__type_cnt b])"

lemma add_cands_filter:
  "add_cands mem t (Some n) (bpf_core_essential_name_len n) b is cs = Some (0, cs') \<Longrightarrow>
     cs' = cs @ map (\<lambda>i. \<lparr>cand_btf = b, cand_id = of_nat i\<rparr>) (filter (is_cand t n b) is)"
proof (induction "is" arbitrary: cs)
  case (Cons i "is")
  from Cons.prems show ?case
    by (auto simp: is_cand_def essential_name_eq Let_def ENOMEM_def split: if_splits option.splits dest!: Cons.IH)
qed simp

lemma bpf_core_add_cands_filter:
  assumes "btf__type_by_id lb (unat i) = Some t" "btf__name_by_offset lb (unat (name_off t)) = Some n"
    and "bpf_core_add_cands mem \<lparr>cand_btf = lb, cand_id = i\<rparr> (bpf_core_essential_name_len n) b start cs = Some (0, cs')"
  shows "cs' = cs @ cands_of t n b start"
  using assms(3) unfolding bpf_core_add_cands_def cands_of_def
  by (auto simp: assms(1,2) btf__name_by_offset_def [symmetric] Let_def intro: add_cands_filter)

lemma add_module_cands_filter:
  assumes "btf__type_by_id lb (unat i) = Some t" "btf__name_by_offset lb (unat (name_off t)) = Some n"
  shows "add_module_cands mem \<lparr>cand_btf = lb, cand_id = i\<rparr> (bpf_core_essential_name_len n) start bs cs = Some (0, cs') \<Longrightarrow>
    cs' = cs @ concat (map (\<lambda>b. cands_of t n b start) bs)"
proof (induction bs arbitrary: cs)
  case (Cons b bs)
  from Cons.prems obtain cs1 where
    "bpf_core_add_cands mem \<lparr>cand_btf = lb, cand_id = i\<rparr> (bpf_core_essential_name_len n) b start cs = Some (0, cs1)"
    "add_module_cands mem \<lparr>cand_btf = lb, cand_id = i\<rparr> (bpf_core_essential_name_len n) start bs cs1 = Some (0, cs')"
    by (auto simp: bind_eq_Some_conv split: if_splits)
  with bpf_core_add_cands_filter [OF assms this(1)] Cons.IH [OF this(2)] show ?case by simp
qed simp

text \<open>C40: The list of candidates a successful search returns has, in ascending order, the types of the kernel of
  the kind and the essential name of the local type, or those of all modules when the kernel has none and
  no other BTF was given in its place.\<close>

theorem find_cands_complete:
  assumes "bpf_core_find_cands cands_ok mem vmlinux override modules lb i = Some (Inr cs)"
  shows "\<exists>t n. btf__type_by_id lb (unat i) = Some t \<and> btf__name_by_offset lb (unat (name_off t)) = Some n \<and> n \<noteq> [] \<and>
    (let first = cands_of t n (case override of Some b \<Rightarrow> b | None \<Rightarrow> vmlinux) 1 in
     if first \<noteq> [] \<or> override \<noteq> None then cs = first
     else \<exists>ms. modules = Inr ms \<and> cs = concat (map (\<lambda>b. cands_of t n b (btf__type_cnt vmlinux)) ms))"
proof -
  obtain t n where t: "btf__type_by_id lb (unat i) = Some t" "btf__name_by_offset lb (unat (name_off t)) = Some n" "n \<noteq> []"
    using assms by (auto simp: bpf_core_find_cands_def Let_def split: option.splits if_splits)
  let ?main = "case override of Some b \<Rightarrow> b | None \<Rightarrow> vmlinux"
  let ?cand = "\<lparr>cand_btf = lb, cand_id = i\<rparr>" and ?len = "bpf_core_essential_name_len n"
  from assms t obtain first where f: "bpf_core_add_cands mem ?cand ?len ?main 1 [] = Some (0, first)"
    and m: "if first \<noteq> [] \<or> override \<noteq> None then cs = first
      else \<exists>ms. modules = Inr ms \<and> add_module_cands mem ?cand ?len (btf__type_cnt vmlinux) ms first = Some (0, cs)"
    by (auto simp: bpf_core_find_cands_def Let_def bind_eq_Some_conv simp del: One_nat_def split: if_splits sum.splits)
  from bpf_core_add_cands_filter [OF t(1,2) f] have "first = cands_of t n ?main 1" by simp
  with m t show ?thesis
    by (auto simp: Let_def simp del: One_nat_def split: if_splits dest!: add_module_cands_filter [OF t(1,2)])
qed

theorem find_cands_complete_witness:
  "bpf_core_find_cands True (\<lambda>_. True) [relo_btf] None (Inr []) [relo_btf] 2 =
     Some (Inr (map (\<lambda>i. \<lparr>cand_btf = [relo_btf], cand_id = i\<rparr>) [2, 4, 5])) \<and>
   map (\<lambda>i. \<lparr>cand_btf = [relo_btf], cand_id = i\<rparr>) [2, 4, 5] = cands_of relo_s [115] [relo_btf] 1"
proof -
  have e: "bpf_core_essential_name_len [x] = 1" for x by (simp add: bpf_core_essential_name_len_def)
  have k: "btf_kind_core_compat btf_void relo_s = False" "btf_kind_core_compat relo_int relo_s = False"
    "btf_kind_core_compat relo_s relo_s" "btf_kind_core_compat relo_anon relo_s" "btf_kind_core_compat relo_nested relo_s"
    "btf_kind_core_compat relo_bits relo_s"
    by (simp_all add: btf_kind_core_compat_def btf_is_defs)
      (simp_all add: relo_type_defs btf_void_def BTF_INFO_KIND_def drop_bit_eq_div and_masks take_bit_eq_mod)
  have n: "name_off relo_s = 1" "name_off relo_anon = 0" "name_off relo_nested = 1" "name_off relo_bits = 1"
    by (simp_all add: relo_type_defs)
  have "[1..<6] = [1, 2, 3, 4, 5::nat]" by (simp add: upt_rec)
  then have f: "bpf_core_find_cands True (\<lambda>_. True) [relo_btf] None (Inr []) [relo_btf] 2 =
     Some (Inr (map (\<lambda>i. \<lparr>cand_btf = [relo_btf], cand_id = i\<rparr>) [2, 4, 5]))"
    by (simp add: bpf_core_find_cands_def n e bpf_core_add_cands_def btf__name_by_offset_def [symmetric] relo_ids(1) k
        strncmp_eq_def Let_def del: btf_type_by_id.simps)
  from find_cands_complete [OF this] f show ?thesis by (auto simp: n Let_def split: if_splits)
qed

end
