(* ===== verification/Dedup.thy ===== *)
theory Dedup
  imports Btf_Equal Btf_Merge Btf_Ext
begin

text \<open>
  Deduplication of types, \<open>btf__dedup\<close> of \<open>src/libbpf/src/btf.c\<close>, pass by pass.

  The state is \<open>struct btf_dedup\<close>. \<open>hypot_list\<close> holds \<open>hypot_cnt\<close> entries; \<open>d_strs_set\<close> is used by the
  pass over the strings only. The result \<open>None\<close> is a crash or an endless loop: \<open>btf_type_by_id\<close> and the
  arrays \<open>map\<close> and \<open>hypot_map\<close> are read without a check, so an identifier above the count is a read out
  of bounds.
\<close>

section \<open>State\<close>

definition ELOOP :: int where "ELOOP = 40"

definition BTF_UNPROCESSED_ID :: u32 where "BTF_UNPROCESSED_ID = - 1"
definition BTF_IN_PROGRESS_ID :: u32 where "BTF_IN_PROGRESS_ID = - 2"

text \<open>A null \<open>opts\<close> is \<open>None\<close>; \<open>opts_valid\<close> is the outcome of \<open>OPTS_VALID\<close>.\<close>

record btf_dedup_opts =
  opts_valid :: bool
  opts_btf_ext :: "btf_ext option"
  force_collisions :: bool

record btf_dedup =
  d_btf :: "btf list"
  d_btf_ext :: "btf_ext option"
  dedup_table :: "(u64, u32) hashmap"
  d_map :: "u32 list"
  hypot_map :: "u32 list"
  hypot_list :: "u32 list"
  hypot_cap :: nat
  hypot_adjust_canon :: bool
  d_strs_set :: strset

text \<open>
  The fates of the allocations. An identifier enters the table once, so \<open>table_al\<close> is indexed by it;
  \<open>hypot_cap\<close> only grows, so \<open>hypot_ok\<close> is indexed by the new capacity; the string visitor counts its
  calls, and \<open>find_env\<close> and \<open>add_env\<close> are indexed by the count.
\<close>

record dedup_env =
  dedup_ok :: bool
  table_ok :: bool
  dmap_ok :: bool
  dhypot_ok :: bool
  modify_env :: btf_env
  sset_ok :: bool
  smap_ok :: bool
  find_env :: "nat \<Rightarrow> nat \<Rightarrow> btf_env"
  add_env :: "nat \<Rightarrow> btf_env"
  table_al :: "u32 \<Rightarrow> alloc"
  hypot_ok :: "nat \<Rightarrow> bool"
  names_map_ok :: bool
  names_al :: "u32 \<Rightarrow> alloc"
  offs_re_ok :: bool

definition collision_hash_fn :: "u64 \<Rightarrow> u64" where "collision_hash_fn key = 0"

definition btf_dedup_table_add :: "alloc \<Rightarrow> u64 \<Rightarrow> u32 \<Rightarrow> btf_dedup \<Rightarrow> btf_dedup \<times> int" where
  "btf_dedup_table_add al hash type_id d =
     (case hashmap_insert al (dedup_table d) hash type_id HASHMAP_APPEND of
        (m, err, _) \<Rightarrow> (d\<lparr>dedup_table := m\<rparr>, err))"

text \<open>\<open>for_each_dedup_cand\<close>\<close>

definition dedup_cands :: "btf_dedup \<Rightarrow> u64 \<Rightarrow> u32 list" where
  "dedup_cands d hash = List.map snd (hashmap_key_entries (dedup_table d) hash)"

definition btf_dedup_hypot_map_add :: "(nat \<Rightarrow> bool) \<Rightarrow> u32 \<Rightarrow> u32 \<Rightarrow> btf_dedup \<Rightarrow> (btf_dedup \<times> int) option" where
  "btf_dedup_hypot_map_add re from_id to_id d =
     (let full = length (hypot_list d) = hypot_cap d;
          d = (if full then d\<lparr>hypot_cap := hypot_cap d + max 16 (hypot_cap d div 2)\<rparr> else d) in
      if full \<and> \<not> re (hypot_cap d) then Some (d, - ENOMEM)
      else do {
        m \<leftarrow> st (hypot_map d) (unat from_id) to_id;
        Some (d\<lparr>hypot_list := hypot_list d @ [from_id], hypot_map := m\<rparr>, 0)
      })"

definition btf_dedup_clear_hypot_map :: "btf_dedup \<Rightarrow> btf_dedup" where
  "btf_dedup_clear_hypot_map d =
     d\<lparr>hypot_map := foldl (\<lambda>m i. m[unat i := BTF_UNPROCESSED_ID]) (hypot_map d) (hypot_list d),
       hypot_list := [], hypot_adjust_canon := False\<rparr>"

definition btf_dedup_new :: "dedup_env \<Rightarrow> btf list \<Rightarrow> btf_dedup_opts option \<Rightarrow> int + btf_dedup" where
  "btf_dedup_new env b opts =
     (let hash = (case opts of Some o' \<Rightarrow> if force_collisions o' then collision_hash_fn else identity_hash_fn
            | None \<Rightarrow> identity_hash_fn);
          type_cnt = btf__type_cnt b in
      if \<not> dedup_ok env then Inl (- ENOMEM)
      else if \<not> table_ok env then Inl (- ENOMEM)
      else if \<not> dmap_ok env then Inl (- ENOMEM)
      else if \<not> dhypot_ok env then Inl (- ENOMEM)
      else Inr
        \<lparr>d_btf = b, d_btf_ext = (case opts of Some o' \<Rightarrow> opts_btf_ext o' | None \<Rightarrow> None),
         dedup_table = hashmap_init hash (=),
         d_map = 0 # List.map (\<lambda>i. let t = btf_type_by_id b i in
             if btf_is_var t \<or> btf_is_datasec t then of_nat i else BTF_UNPROCESSED_ID) [1..<type_cnt],
         hypot_map = replicate type_cnt BTF_UNPROCESSED_ID, hypot_list = [], hypot_cap = 0,
         hypot_adjust_canon = False, d_strs_set = empty_strset\<rparr>)"

section \<open>Strings\<close>

text \<open>The object's own types, by their positions in the type region.\<close>

definition own_type_offs :: "btf_dedup \<Rightarrow> nat list" where
  "own_type_offs d = (case d_btf d of [] \<Rightarrow> [] | btf # _ \<Rightarrow> take (nr_types btf) (type_offs btf))"

definition set_types_data :: "u8 list \<Rightarrow> btf_dedup \<Rightarrow> btf_dedup" where
  "set_types_data data d =
     (case d_btf d of [] \<Rightarrow> d | btf # base \<Rightarrow> d\<lparr>d_btf := btf\<lparr>types_data := data\<rparr> # base\<rparr>)"

fun visit_types ::
  "(u8 list \<Rightarrow> nat \<Rightarrow> 'c \<Rightarrow> (u8 list \<times> 'c \<times> int) option) \<Rightarrow> nat list \<Rightarrow> u8 list \<Rightarrow> 'c \<Rightarrow> (u8 list \<times> 'c \<times> int) option"
where
  "visit_types go [] data ctx = Some (data, ctx, 0)"
| "visit_types go (p # ps) data ctx = do {
     (data, ctx, r) \<leftarrow> go data p ctx;
     if r \<noteq> 0 then Some (data, ctx, r) else visit_types go ps data ctx
   }"

text \<open>
  The context of the visitors is the state and the number of calls made, from 1; the type region, which no
  visitor reads, is passed beside it.
\<close>

definition btf_for_each_str_off ::
  "(btf_dedup \<times> nat) visit_fn \<Rightarrow> btf_dedup \<Rightarrow> (btf_dedup \<times> int) option" where
  "btf_for_each_str_off visit d =
     (case d_btf d of
        [] \<Rightarrow> None
      | btf # _ \<Rightarrow> do {
          (data, (d, n), r) \<leftarrow>
            visit_types (\<lambda>data p. btf_type_visit_str_offs data p visit) (own_type_offs d) (types_data btf) (d, 1);
          let d = set_types_data data d in
          if r \<noteq> 0 then Some (d, r)
          else case d_btf_ext d of
            None \<Rightarrow> Some (d, 0)
          | Some ext \<Rightarrow> do {
              (ext, (d, n), r) \<leftarrow> btf_ext_visit_str_offs ext visit (d, n);
              Some (d\<lparr>d_btf_ext := Some ext\<rparr>, r)
            }
        })"

text \<open>The lookup in the base is skipped when there is none; \<open>btf__find_str\<close> is then \<open>- ENOENT\<close> too.\<close>

definition strs_dedup_remap_str_off :: "dedup_env \<Rightarrow> (btf_dedup \<times> nat) visit_fn" where
  "strs_dedup_remap_str_off env offset dn =
     (case dn of (d, n) \<Rightarrow>
        case d_btf d of
          [] \<Rightarrow> None
        | btf # base \<Rightarrow>
            if offset = 0 \<or> unat offset < start_str_off btf then Some (offset, dn, 0)
            else do {
              s \<leftarrow> btf__str_by_offset (btf # base) (unat offset);
              let (base, err) = (if base = [] then (base, - ENOENT) else btf__find_str (find_env env n) base s);
                  d = d\<lparr>d_btf := btf # base\<rparr> in
              if err \<ge> 0 then Some (word_of_int err, (d, n + 1), 0)
              else if err \<noteq> - ENOENT then Some (offset, (d, n + 1), err)
              else
                let (ss, off) = strset_add_str (str_al (add_env env n)) (str_ok (add_env env n)) (d_strs_set d) s;
                    d = d\<lparr>d_strs_set := ss\<rparr> in
                if off < 0 then Some (offset, (d, n + 1), off)
                else Some (of_nat (start_str_off btf) + word_of_int off, (d, n + 1), 0)
            })"

definition btf_dedup_strings :: "dedup_env \<Rightarrow> btf_dedup \<Rightarrow> (btf_dedup \<times> int) option" where
  "btf_dedup_strings env d =
     (case d_btf d of
        [] \<Rightarrow> None
      | btf # base \<Rightarrow>
          if strs_deduped btf then Some (d, 0)
          else case strset_new (sset_ok env) (smap_ok env) True (\<lambda>_. alloc_all) BTF_MAX_STR_OFFSET None of
            Inl err \<Rightarrow> Some (d, err)
          | Inr ss \<Rightarrow>
              let (ss, err) = (if base = [] then strset_add_str (str_al (add_env env 0)) (str_ok (add_env env 0)) ss []
                    else (ss, 0)) in
              if err < 0 then Some (d, err)
              else do {
                (d, err) \<leftarrow> btf_for_each_str_off (strs_dedup_remap_str_off env) (d\<lparr>d_strs_set := ss\<rparr>);
                if err \<noteq> 0 then Some (d, err)
                else case d_btf d of
                  [] \<Rightarrow> None
                | btf # base \<Rightarrow>
                    Some (d\<lparr>d_btf := btf\<lparr>hdr := (hdr btf)\<lparr>str_len := of_nat (strs_data_len (d_strs_set d))\<rparr>,
                        strs_set := d_strs_set d, strs_deduped := True\<rparr> # base\<rparr>, 0)
              })"

section \<open>Hashes of the base\<close>

fun prep_loop :: "dedup_env \<Rightarrow> nat list \<Rightarrow> btf_dedup \<Rightarrow> btf_dedup \<times> int" where
  "prep_loop env [] d = (d, 0)"
| "prep_loop env (i # is) d =
     (let t = btf_type_by_id (d_btf d) i; type_id = of_nat i;
          d = d\<lparr>d_map := (d_map d)[i := type_id]\<rparr>;
          add = (\<lambda>h. case btf_dedup_table_add (table_al env type_id) h type_id d of
            (d, err) \<Rightarrow> if err \<noteq> 0 then (d, - ENOMEM) else prep_loop env is d) in
      case btf_kind t of
        BTF_KIND_VAR \<Rightarrow> prep_loop env is d
      | BTF_KIND_DATASEC \<Rightarrow> prep_loop env is d
      | BTF_KIND_CONST \<Rightarrow> add (btf_hash_common t)
      | BTF_KIND_VOLATILE \<Rightarrow> add (btf_hash_common t)
      | BTF_KIND_RESTRICT \<Rightarrow> add (btf_hash_common t)
      | BTF_KIND_PTR \<Rightarrow> add (btf_hash_common t)
      | BTF_KIND_FWD \<Rightarrow> add (btf_hash_common t)
      | BTF_KIND_TYPEDEF \<Rightarrow> add (btf_hash_common t)
      | BTF_KIND_FUNC \<Rightarrow> add (btf_hash_common t)
      | BTF_KIND_FLOAT \<Rightarrow> add (btf_hash_common t)
      | BTF_KIND_TYPE_TAG \<Rightarrow> add (btf_hash_common t)
      | BTF_KIND_INT \<Rightarrow> add (btf_hash_int_decl_tag t)
      | BTF_KIND_DECL_TAG \<Rightarrow> add (btf_hash_int_decl_tag t)
      | BTF_KIND_ENUM \<Rightarrow> add (btf_hash_enum t)
      | BTF_KIND_ENUM64 \<Rightarrow> add (btf_hash_enum t)
      | BTF_KIND_STRUCT \<Rightarrow> add (btf_hash_struct t)
      | BTF_KIND_UNION \<Rightarrow> add (btf_hash_struct t)
      | BTF_KIND_ARRAY \<Rightarrow> add (btf_hash_array t)
      | BTF_KIND_FUNC_PROTO \<Rightarrow> add (btf_hash_fnproto t)
      | _ \<Rightarrow> (d, - EINVAL))"

definition btf_dedup_prep :: "dedup_env \<Rightarrow> btf_dedup \<Rightarrow> btf_dedup \<times> int" where
  "btf_dedup_prep env d =
     (case d_btf d of
        btf # _ # _ \<Rightarrow> prep_loop env [1..<start_id btf] d
      | _ \<Rightarrow> (d, 0))"

section \<open>Primitive types\<close>

text \<open>The first candidate that satisfies \<open>same\<close>, else \<open>new_id\<close>.\<close>

fun first_cand :: "(btf_type \<Rightarrow> bool) \<Rightarrow> btf list \<Rightarrow> u32 list \<Rightarrow> u32 \<Rightarrow> u32 option" where
  "first_cand same b [] new_id = Some new_id"
| "first_cand same b (cand_id # cands) new_id = do {
     cand \<leftarrow> btf__type_by_id b (unat cand_id);
     if same cand then Some cand_id else first_cand same b cands new_id
   }"

text \<open>The end of the passes: the canonical identifier is stored, a new one enters the table.\<close>

definition set_canonical :: "dedup_env \<Rightarrow> u64 \<Rightarrow> u32 \<Rightarrow> u32 \<Rightarrow> btf_dedup \<Rightarrow> (btf_dedup \<times> int) option" where
  "set_canonical env h type_id new_id d = do {
     m \<leftarrow> st (d_map d) (unat type_id) new_id;
     let d = d\<lparr>d_map := m\<rparr> in
     if type_id = new_id then
       case btf_dedup_table_add (table_al env type_id) h type_id d of
         (d, err) \<Rightarrow> Some (d, if err \<noteq> 0 then - ENOMEM else 0)
     else Some (d, 0)
   }"

definition dedup_equal :: "dedup_env \<Rightarrow> u64 \<Rightarrow> (btf_type \<Rightarrow> bool) \<Rightarrow> u32 \<Rightarrow> btf_dedup \<Rightarrow> (btf_dedup \<times> int) option" where
  "dedup_equal env h same type_id d = do {
     new_id \<leftarrow> first_cand same (d_btf d) (dedup_cands d h) type_id;
     set_canonical env h type_id new_id d
   }"

text \<open>The candidates of an enumeration, with the changes of \<open>map\<close>.\<close>

fun enum_cands :: "btf list \<Rightarrow> btf_type \<Rightarrow> u32 \<Rightarrow> u32 list \<Rightarrow> u32 list \<Rightarrow> (u32 list \<times> u32) option" where
  "enum_cands b t type_id [] m = Some (m, type_id)"
| "enum_cands b t type_id (cand_id # cands) m = do {
     cand \<leftarrow> btf__type_by_id b (unat cand_id);
     if btf_equal_enum t cand then Some (m, cand_id)
     else if btf_compat_enum t cand then
       if btf_is_enum_fwd t then Some (m, cand_id)
       else do {
         m \<leftarrow> st m (unat cand_id) type_id;
         enum_cands b t type_id cands m
       }
     else enum_cands b t type_id cands m
   }"

definition dedup_enum :: "dedup_env \<Rightarrow> btf_type \<Rightarrow> u32 \<Rightarrow> btf_dedup \<Rightarrow> (btf_dedup \<times> int) option" where
  "dedup_enum env t type_id d = do {
     (m, new_id) \<leftarrow> enum_cands (d_btf d) t type_id (dedup_cands d (btf_hash_enum t)) (d_map d);
     set_canonical env (btf_hash_enum t) type_id new_id (d\<lparr>d_map := m\<rparr>)
   }"

definition btf_dedup_prim_type :: "dedup_env \<Rightarrow> u32 \<Rightarrow> btf_dedup \<Rightarrow> (btf_dedup \<times> int) option" where
  "btf_dedup_prim_type env type_id d = do {
     t \<leftarrow> btf__type_by_id (d_btf d) (unat type_id);
     case btf_kind t of
       BTF_KIND_CONST \<Rightarrow> Some (d, 0)
     | BTF_KIND_VOLATILE \<Rightarrow> Some (d, 0)
     | BTF_KIND_RESTRICT \<Rightarrow> Some (d, 0)
     | BTF_KIND_PTR \<Rightarrow> Some (d, 0)
     | BTF_KIND_TYPEDEF \<Rightarrow> Some (d, 0)
     | BTF_KIND_ARRAY \<Rightarrow> Some (d, 0)
     | BTF_KIND_STRUCT \<Rightarrow> Some (d, 0)
     | BTF_KIND_UNION \<Rightarrow> Some (d, 0)
     | BTF_KIND_FUNC \<Rightarrow> Some (d, 0)
     | BTF_KIND_FUNC_PROTO \<Rightarrow> Some (d, 0)
     | BTF_KIND_VAR \<Rightarrow> Some (d, 0)
     | BTF_KIND_DATASEC \<Rightarrow> Some (d, 0)
     | BTF_KIND_DECL_TAG \<Rightarrow> Some (d, 0)
     | BTF_KIND_TYPE_TAG \<Rightarrow> Some (d, 0)
     | BTF_KIND_INT \<Rightarrow> dedup_equal env (btf_hash_int_decl_tag t) (btf_equal_int_tag t) type_id d
     | BTF_KIND_ENUM \<Rightarrow> dedup_enum env t type_id d
     | BTF_KIND_ENUM64 \<Rightarrow> dedup_enum env t type_id d
     | BTF_KIND_FWD \<Rightarrow> dedup_equal env (btf_hash_common t) (btf_equal_common t) type_id d
     | BTF_KIND_FLOAT \<Rightarrow> dedup_equal env (btf_hash_common t) (btf_equal_common t) type_id d
     | _ \<Rightarrow> Some (d, - EINVAL)
   }"

text \<open>A pass over the object's own types stops at the first result for which \<open>stop\<close> holds.\<close>

fun each_type ::
  "(int \<Rightarrow> bool) \<Rightarrow> (u32 \<Rightarrow> btf_dedup \<Rightarrow> (btf_dedup \<times> int) option) \<Rightarrow> nat list \<Rightarrow> btf_dedup \<Rightarrow> (btf_dedup \<times> int) option"
where
  "each_type stop pass [] d = Some (d, 0)"
| "each_type stop pass (i # is) d = do {
     (d, err) \<leftarrow> pass (of_nat i) d;
     if stop err then Some (d, err) else each_type stop pass is d
   }"

definition own_ids :: "btf_dedup \<Rightarrow> nat list" where
  "own_ids d = (case d_btf d of [] \<Rightarrow> [] | btf # _ \<Rightarrow> [start_id btf..<start_id btf + nr_types btf])"

definition btf_dedup_prim_types :: "dedup_env \<Rightarrow> btf_dedup \<Rightarrow> (btf_dedup \<times> int) option" where
  "btf_dedup_prim_types env d = each_type (\<lambda>err. err \<noteq> 0) (btf_dedup_prim_type env) (own_ids d) d"

section \<open>Canonical identifiers\<close>

definition is_type_mapped :: "u32 list \<Rightarrow> u32 \<Rightarrow> bool option" where
  "is_type_mapped m type_id = do { x \<leftarrow> ld m (unat type_id); Some (unat x \<le> BTF_MAX_NR_TYPES) }"

partial_function (option) resolve_type_id :: "u32 list \<Rightarrow> u32 \<Rightarrow> u32 option" where
  "resolve_type_id m type_id = do {
     x \<leftarrow> ld m (unat type_id);
     if unat x \<le> BTF_MAX_NR_TYPES \<and> x \<noteq> type_id then resolve_type_id m x else Some type_id
   }"

definition resolve_fwd_id :: "btf list \<Rightarrow> u32 list \<Rightarrow> u32 \<Rightarrow> u32 option" where
  "resolve_fwd_id b m orig_type_id = do {
     t \<leftarrow> btf__type_by_id b (unat orig_type_id);
     if \<not> btf_is_fwd t then Some orig_type_id
     else do {
       type_id \<leftarrow> resolve_type_id m orig_type_id;
       t \<leftarrow> btf__type_by_id b (unat type_id);
       Some (if \<not> btf_is_fwd t then type_id else orig_type_id)
     }
   }"

section \<open>Identical types\<close>

definition btf_dedup_identical_arrays :: "btf list \<Rightarrow> u32 \<Rightarrow> u32 \<Rightarrow> bool option" where
  "btf_dedup_identical_arrays b id1 id2 = do {
     t1 \<leftarrow> btf__type_by_id b (unat id1);
     t2 \<leftarrow> btf__type_by_id b (unat id2);
     Some (btf_is_array t1 \<and> btf_is_array t2 \<and> btf_equal_array t1 t2)
   }"

fun all_true :: "('a \<Rightarrow> bool option) \<Rightarrow> 'a list \<Rightarrow> bool option" where
  "all_true p [] = Some True"
| "all_true p (x # xs) = do { r \<leftarrow> p x; if \<not> r then Some False else all_true p xs }"

lemma all_true_mono [partial_function_mono]:
  assumes "\<And>x. mono_option (\<lambda>f. p f x)"
  shows "mono_option (\<lambda>f. all_true (p f) xs)"
  by (induction xs) (auto intro!: partial_function_mono assms)

text \<open>The call for the members recurses without a bound and without memory.\<close>

partial_function (option) btf_dedup_identical_structs :: "btf list \<Rightarrow> u32 \<Rightarrow> u32 \<Rightarrow> bool option" where
  "btf_dedup_identical_structs b id1 id2 = do {
     t1 \<leftarrow> btf__type_by_id b (unat id1);
     t2 \<leftarrow> btf__type_by_id b (unat id2);
     if \<not> btf_is_composite t1 \<or> btf_kind t1 \<noteq> btf_kind t2 then Some False
     else if \<not> btf_shallow_equal_struct t1 t2 then Some False
     else all_true (\<lambda>i.
       let m1 = m_type (btf_members t1 i); m2 = m_type (btf_members t2 i) in
       if m1 = m2 then Some True
       else do {
         a \<leftarrow> btf_dedup_identical_arrays b m1 m2;
         if a then Some True else btf_dedup_identical_structs b m1 m2
       }) [0..<btf_vlen t1]
   }"

section \<open>Equivalent type graphs\<close>

definition btf_fwd_kind_of :: "btf_type \<Rightarrow> btf_kinds" where
  "btf_fwd_kind_of t = (if btf_kflag t then BTF_KIND_UNION else BTF_KIND_STRUCT)"

text \<open>The pairs of identifiers a type and its candidate refer to are compared in order.\<close>

fun all_equiv ::
  "(u32 \<Rightarrow> u32 \<Rightarrow> btf_dedup \<Rightarrow> (btf_dedup \<times> int) option) \<Rightarrow> (u32 \<times> u32) list \<Rightarrow> btf_dedup \<Rightarrow> (btf_dedup \<times> int) option"
where
  "all_equiv go [] d = Some (d, 1)"
| "all_equiv go ((cand, canon) # ps) d = do {
     (d, eq) \<leftarrow> go cand canon d;
     if eq \<le> 0 then Some (d, eq) else all_equiv go ps d
   }"

lemma all_equiv_mono [partial_function_mono]:
  assumes "\<And>a b d. mono_option (\<lambda>f. go f a b d)"
  shows "mono_option (\<lambda>f. all_equiv (go f) ps d)"
proof (induction ps arbitrary: d)
  case (Cons p ps)
  obtain a b where p: "p = (a, b)" by fastforce
  show ?case unfolding p all_equiv.simps
    by (intro partial_function_mono bind_mono assms) (auto split: prod.splits intro!: partial_function_mono Cons.IH)
qed (simp add: partial_function_mono)

text \<open>
  The comparison of the two types themselves, from the comparison of the kinds on: a result, or the
  pairs of identifiers to compare for the result.
\<close>

definition equiv_step :: "btf_type \<Rightarrow> btf_type \<Rightarrow> int + (u32 \<times> u32) list" where
  "equiv_step cand_type canon_type =
     (let result = (\<lambda>eq. Inl (if eq then 1 else 0));
          refs = (if info cand_type \<noteq> info canon_type then Inl 0
            else Inr [(size_type cand_type, size_type canon_type)]);
          members = (if \<not> btf_shallow_equal_struct cand_type canon_type then Inl 0
            else Inr (List.map (\<lambda>i. (m_type (btf_members cand_type i), m_type (btf_members canon_type i)))
              [0..<btf_vlen cand_type])) in
      if btf_kind cand_type \<noteq> btf_kind canon_type then Inl 0
      else case btf_kind cand_type of
        BTF_KIND_INT \<Rightarrow> result (btf_equal_int_tag cand_type canon_type)
      | BTF_KIND_ENUM \<Rightarrow> result (btf_compat_enum cand_type canon_type)
      | BTF_KIND_ENUM64 \<Rightarrow> result (btf_compat_enum cand_type canon_type)
      | BTF_KIND_FWD \<Rightarrow> result (btf_equal_common cand_type canon_type)
      | BTF_KIND_FLOAT \<Rightarrow> result (btf_equal_common cand_type canon_type)
      | BTF_KIND_CONST \<Rightarrow> refs
      | BTF_KIND_VOLATILE \<Rightarrow> refs
      | BTF_KIND_RESTRICT \<Rightarrow> refs
      | BTF_KIND_PTR \<Rightarrow> refs
      | BTF_KIND_TYPEDEF \<Rightarrow> refs
      | BTF_KIND_FUNC \<Rightarrow> refs
      | BTF_KIND_TYPE_TAG \<Rightarrow> refs
      | BTF_KIND_ARRAY \<Rightarrow>
          if \<not> btf_compat_array cand_type canon_type then Inl 0
          else let cand_arr = btf_array cand_type; canon_arr = btf_array canon_type in
            Inr [(a_index_type cand_arr, a_index_type canon_arr), (a_type cand_arr, a_type canon_arr)]
      | BTF_KIND_STRUCT \<Rightarrow> members
      | BTF_KIND_UNION \<Rightarrow> members
      | BTF_KIND_FUNC_PROTO \<Rightarrow>
          if \<not> btf_compat_fnproto cand_type canon_type then Inl 0
          else Inr ((size_type cand_type, size_type canon_type) #
            List.map (\<lambda>i. (p_type (btf_params cand_type i), p_type (btf_params canon_type i)))
              [0..<btf_vlen cand_type])
      | _ \<Rightarrow> Inl (- EINVAL))"

text \<open>The comparison of a forward declaration with another type, \<open>None\<close> if neither is one.\<close>

definition fwd_step :: "btf_type \<Rightarrow> btf_type \<Rightarrow> bool option" where
  "fwd_step cand_type canon_type =
     (if (btf_kind cand_type = BTF_KIND_FWD \<or> btf_kind canon_type = BTF_KIND_FWD) \<and>
         btf_kind cand_type \<noteq> btf_kind canon_type
      then Some (if btf_kind cand_type = BTF_KIND_FWD then btf_fwd_kind_of cand_type = btf_kind canon_type
        else btf_fwd_kind_of canon_type = btf_kind cand_type)
      else None)"

text \<open>A forward declaration of the base that the object resolves.\<close>

definition adjusts_base :: "btf_dedup \<Rightarrow> btf_type \<Rightarrow> btf_type \<Rightarrow> u32 \<Rightarrow> bool" where
  "adjusts_base d cand_type canon_type canon_id \<longleftrightarrow>
     btf_kind cand_type \<noteq> BTF_KIND_FWD \<and> btf_fwd_kind_of canon_type = btf_kind cand_type \<and>
     unat canon_id < start_id (hd (d_btf d))"

partial_function (option) btf_dedup_is_equiv ::
  "(nat \<Rightarrow> bool) \<Rightarrow> u32 \<Rightarrow> u32 \<Rightarrow> btf_dedup \<Rightarrow> (btf_dedup \<times> int) option" where
  "btf_dedup_is_equiv re cand_id canon_id d = do {
     r1 \<leftarrow> resolve_type_id (d_map d) cand_id;
     r2 \<leftarrow> resolve_type_id (d_map d) canon_id;
     if r1 = r2 then Some (d, 1)
     else do {
       canon_id \<leftarrow> resolve_fwd_id (d_btf d) (d_map d) canon_id;
       hypot_type_id \<leftarrow> ld (hypot_map d) (unat canon_id);
       if unat hypot_type_id \<le> BTF_MAX_NR_TYPES then
         if hypot_type_id = cand_id then Some (d, 1)
         else do {
           arrays \<leftarrow> btf_dedup_identical_arrays (d_btf d) hypot_type_id cand_id;
           if arrays then Some (d, 1)
           else do {
             structs \<leftarrow> btf_dedup_identical_structs (d_btf d) hypot_type_id cand_id;
             Some (d, if structs then 1 else 0)
           }
         }
       else do {
         (d, err) \<leftarrow> btf_dedup_hypot_map_add re canon_id cand_id d;
         if err \<noteq> 0 then Some (d, - ENOMEM)
         else do {
           cand_type \<leftarrow> btf__type_by_id (d_btf d) (unat cand_id);
           canon_type \<leftarrow> btf__type_by_id (d_btf d) (unat canon_id);
           if name_off cand_type \<noteq> name_off canon_type then Some (d, 0)
           else case fwd_step cand_type canon_type of
             Some eq \<Rightarrow>
               Some (if adjusts_base d cand_type canon_type canon_id then d\<lparr>hypot_adjust_canon := True\<rparr> else d,
                 if eq then 1 else 0)
           | None \<Rightarrow>
               (case equiv_step cand_type canon_type of
                  Inl eq \<Rightarrow> Some (d, eq)
                | Inr ps \<Rightarrow> all_equiv (\<lambda>a b d. btf_dedup_is_equiv re a b d) ps d)
         }
       }
     }
   }"

section \<open>Structs and unions\<close>

definition is_composite_kind :: "btf_kinds \<Rightarrow> bool" where
  "is_composite_kind k \<longleftrightarrow> k = BTF_KIND_STRUCT \<or> k = BTF_KIND_UNION"

text \<open>One entry of \<open>hypot_list\<close>; the result is the map.\<close>

definition merge_hypot :: "btf_dedup \<Rightarrow> u32 list \<Rightarrow> u32 \<Rightarrow> u32 list option" where
  "merge_hypot d m canon_type_id = do {
     targ_type_id \<leftarrow> ld (hypot_map d) (unat canon_type_id);
     t_id \<leftarrow> resolve_type_id m targ_type_id;
     c_id \<leftarrow> resolve_type_id m canon_type_id;
     t \<leftarrow> btf__type_by_id (d_btf d) (unat t_id);
     c \<leftarrow> btf__type_by_id (d_btf d) (unat c_id);
     m \<leftarrow> (if \<not> btf_is_fwd t \<and> btf_is_fwd c then st m (unat c_id) t_id else Some m);
     if hypot_adjust_canon d then Some m
     else do {
       m \<leftarrow> (if btf_is_fwd t \<and> \<not> btf_is_fwd c then st m (unat t_id) c_id else Some m);
       if is_composite_kind (btf_kind t) \<and> \<not> btf_is_fwd c then do {
         c_mapped \<leftarrow> is_type_mapped m c_id;
         t_mapped \<leftarrow> is_type_mapped m t_id;
         if c_mapped \<and> \<not> t_mapped then st m (unat t_id) c_id else Some m
       }
       else Some m
     }
   }"

fun merge_loop :: "btf_dedup \<Rightarrow> u32 list \<Rightarrow> u32 list \<Rightarrow> u32 list option" where
  "merge_loop d [] m = Some m"
| "merge_loop d (i # is) m = do { m \<leftarrow> merge_hypot d m i; merge_loop d is m }"

definition btf_dedup_merge_hypot_map :: "btf_dedup \<Rightarrow> btf_dedup option" where
  "btf_dedup_merge_hypot_map d = do {
     m \<leftarrow> merge_loop d (hypot_list d) (d_map d);
     Some (d\<lparr>d_map := m\<rparr>)
   }"

text \<open>The loop over the candidates: an error or 0, and the canonical identifier.\<close>

fun struct_cands ::
  "(nat \<Rightarrow> bool) \<Rightarrow> btf_type \<Rightarrow> u32 \<Rightarrow> u32 list \<Rightarrow> btf_dedup \<Rightarrow> (btf_dedup \<times> int \<times> u32) option" where
  "struct_cands re t type_id [] d = Some (d, 0, type_id)"
| "struct_cands re t type_id (cand_id # cands) d = do {
     cand_type \<leftarrow> btf__type_by_id (d_btf d) (unat cand_id);
     if \<not> btf_shallow_equal_struct t cand_type then struct_cands re t type_id cands d
     else do {
       (d, eq) \<leftarrow> btf_dedup_is_equiv re type_id cand_id (btf_dedup_clear_hypot_map d);
       if eq < 0 then Some (d, eq, type_id)
       else if eq = 0 then struct_cands re t type_id cands d
       else do {
         d \<leftarrow> btf_dedup_merge_hypot_map d;
         if hypot_adjust_canon d then struct_cands re t type_id cands d
         else Some (d, 0, cand_id)
       }
     }
   }"

definition btf_dedup_struct_type :: "dedup_env \<Rightarrow> u32 \<Rightarrow> btf_dedup \<Rightarrow> (btf_dedup \<times> int) option" where
  "btf_dedup_struct_type env type_id d = do {
     mapped \<leftarrow> is_type_mapped (d_map d) type_id;
     if mapped then Some (d, 0)
     else do {
       t \<leftarrow> btf__type_by_id (d_btf d) (unat type_id);
       if \<not> is_composite_kind (btf_kind t) then Some (d, 0)
       else do {
         let h = btf_hash_struct t;
         (d, err, new_id) \<leftarrow> struct_cands (hypot_ok env) t type_id (dedup_cands d h) d;
         if err < 0 then Some (d, err) else set_canonical env h type_id new_id d
       }
     }
   }"

definition btf_dedup_struct_types :: "dedup_env \<Rightarrow> btf_dedup \<Rightarrow> (btf_dedup \<times> int) option" where
  "btf_dedup_struct_types env d = each_type (\<lambda>err. err \<noteq> 0) (btf_dedup_struct_type env) (own_ids d) d"

section \<open>Reference types\<close>

text \<open>The words of the type region at the offsets are replaced by the identifiers they resolve to.\<close>

definition own_data :: "btf_dedup \<Rightarrow> u8 list" where
  "own_data d = types_data (hd (d_btf d))"

fun resolve_refs ::
  "(u32 \<Rightarrow> btf_dedup \<Rightarrow> (btf_dedup \<times> int) option) \<Rightarrow> nat list \<Rightarrow> btf_dedup \<Rightarrow> (btf_dedup \<times> int) option" where
  "resolve_refs go [] d = Some (d, 0)"
| "resolve_refs go (off # offs) d = do {
     (d, ref_type_id) \<leftarrow> go (get32 (own_data d) off) d;
     if ref_type_id < 0 then Some (d, ref_type_id)
     else resolve_refs go offs (set_types_data (put32 (own_data d) off (word_of_int ref_type_id)) d)
   }"

lemma resolve_refs_mono [partial_function_mono]:
  assumes "\<And>a d. mono_option (\<lambda>f. go f a d)"
  shows "mono_option (\<lambda>f. resolve_refs (go f) offs d)"
proof (induction offs arbitrary: d)
  case (Cons off offs)
  show ?case unfolding resolve_refs.simps
    by (intro partial_function_mono bind_mono assms) (auto split: prod.splits intro!: partial_function_mono Cons.IH)
qed (simp add: partial_function_mono)

text \<open>
  The switch over the kinds: the references of a type in the order the code resolves them, relative to the
  start of the type, the hash and the comparison.
\<close>

definition ref_case :: "btf_type \<Rightarrow> (nat list \<times> (btf_type \<Rightarrow> u64) \<times> (btf_type \<Rightarrow> btf_type \<Rightarrow> bool)) option" where
  "ref_case t =
     (let link = Some ([8], btf_hash_common, btf_equal_common) in
      case btf_kind t of
        BTF_KIND_CONST \<Rightarrow> link
      | BTF_KIND_VOLATILE \<Rightarrow> link
      | BTF_KIND_RESTRICT \<Rightarrow> link
      | BTF_KIND_PTR \<Rightarrow> link
      | BTF_KIND_TYPEDEF \<Rightarrow> link
      | BTF_KIND_FUNC \<Rightarrow> link
      | BTF_KIND_TYPE_TAG \<Rightarrow> link
      | BTF_KIND_DECL_TAG \<Rightarrow> Some ([8], btf_hash_int_decl_tag, btf_equal_int_tag)
      | BTF_KIND_ARRAY \<Rightarrow> Some ([12, 16], btf_hash_array, btf_equal_array)
      | BTF_KIND_FUNC_PROTO \<Rightarrow>
          Some (8 # List.map (\<lambda>i. 12 + 8 * i + 4) [0..<btf_vlen t], btf_hash_fnproto, btf_equal_fnproto)
      | _ \<Rightarrow> None)"

text \<open>
  The result is an identifier or a negative error. \<open>None\<close> for the position of a type of the base is not
  reached: \<open>btf_dedup_prep\<close> has mapped it.
\<close>

definition own_pos :: "btf_dedup \<Rightarrow> u32 \<Rightarrow> nat option" where
  "own_pos d type_id =
     (if unat type_id < start_id (hd (d_btf d)) then None
      else ld (own_type_offs d) (unat type_id - start_id (hd (d_btf d))))"

partial_function (option) btf_dedup_ref_type ::
  "dedup_env \<Rightarrow> u32 \<Rightarrow> btf_dedup \<Rightarrow> (btf_dedup \<times> int) option" where
  "btf_dedup_ref_type env type_id d = do {
     x \<leftarrow> ld (d_map d) (unat type_id);
     if x = BTF_IN_PROGRESS_ID then Some (d, - ELOOP)
     else if unat x \<le> BTF_MAX_NR_TYPES then do {
       r \<leftarrow> resolve_type_id (d_map d) type_id;
       Some (d, sint r)
     }
     else do {
       p \<leftarrow> own_pos d type_id;
       m \<leftarrow> st (d_map d) (unat type_id) BTF_IN_PROGRESS_ID;
       let d = d\<lparr>d_map := m\<rparr>;
       t \<leftarrow> btf__type_by_id (d_btf d) (unat type_id);
       case ref_case t of
         None \<Rightarrow> Some (d, - EINVAL)
       | Some (offs, hash, same) \<Rightarrow> do {
           (d, r) \<leftarrow> resolve_refs (\<lambda>a d. btf_dedup_ref_type env a d) (List.map (\<lambda>off. p + off) offs) d;
           if r < 0 then Some (d, r)
           else do {
             t \<leftarrow> btf__type_by_id (d_btf d) (unat type_id);
             new_id \<leftarrow> first_cand (same t) (d_btf d) (dedup_cands d (hash t)) type_id;
             (d, err) \<leftarrow> set_canonical env (hash t) type_id new_id d;
             Some (d, if err \<noteq> 0 then err else sint new_id)
           }
         }
     }
   }"

definition btf_dedup_ref_types :: "dedup_env \<Rightarrow> btf_dedup \<Rightarrow> (btf_dedup \<times> int) option" where
  "btf_dedup_ref_types env d = each_type (\<lambda>err. err < 0) (btf_dedup_ref_type env) (own_ids d) d"

section \<open>Forward declarations\<close>

definition names_add :: "alloc \<Rightarrow> u32 \<Rightarrow> u32 \<Rightarrow> (u64, u32) hashmap \<Rightarrow> (u64, u32) hashmap \<times> int" where
  "names_add al name type_id names_map =
     (case hashmap_insert al names_map (ucast name) type_id HASHMAP_ADD of
        (m, err, _) \<Rightarrow>
          if err = - EEXIST then
            (case hashmap_insert al m (ucast name) 0 HASHMAP_SET of (m, err, _) \<Rightarrow> (m, err))
          else (m, err))"

fun fill_names ::
  "dedup_env \<Rightarrow> btf_dedup \<Rightarrow> nat list \<Rightarrow> (u64, u32) hashmap \<Rightarrow> ((u64, u32) hashmap \<times> int) option" where
  "fill_names env d [] names_map = Some (names_map, 0)"
| "fill_names env d (i # is) names_map = do {
     let t = btf_type_by_id (d_btf d) i;
     let type_id = of_nat i;
     if \<not> is_composite_kind (btf_kind t) then fill_names env d is names_map
     else do {
       x \<leftarrow> ld (d_map d) i;
       if type_id \<noteq> x then fill_names env d is names_map
       else case names_add (names_al env type_id) (name_off t) type_id names_map of
         (names_map, err) \<Rightarrow>
           if err \<noteq> 0 then Some (names_map, err) else fill_names env d is names_map
     }
   }"

definition btf_dedup_fill_unique_names_map ::
  "dedup_env \<Rightarrow> btf_dedup \<Rightarrow> (u64, u32) hashmap \<Rightarrow> ((u64, u32) hashmap \<times> int) option" where
  "btf_dedup_fill_unique_names_map env d names_map =
     fill_names env d [1..<btf__type_cnt (d_btf d)] names_map"

definition btf_dedup_resolve_fwd :: "(u64, u32) hashmap \<Rightarrow> u32 \<Rightarrow> btf_dedup \<Rightarrow> (btf_dedup \<times> int) option" where
  "btf_dedup_resolve_fwd names_map type_id d = do {
     t \<leftarrow> btf__type_by_id (d_btf d) (unat type_id);
     if \<not> btf_is_fwd t then Some (d, 0)
     else do {
       x \<leftarrow> ld (d_map d) (unat type_id);
       if type_id \<noteq> x then Some (d, 0)
       else case hashmap_find names_map (ucast (name_off t)) of
         None \<Rightarrow> Some (d, 0)
       | Some cand_id \<Rightarrow>
           if cand_id = 0 then Some (d, 0)
           else do {
             cand_t \<leftarrow> btf__type_by_id (d_btf d) (unat cand_id);
             if btf_kind cand_t = BTF_KIND_STRUCT \<and> btf_kflag t \<or>
                btf_kind cand_t = BTF_KIND_UNION \<and> \<not> btf_kflag t
             then Some (d, 0)
             else do {
               m \<leftarrow> st (d_map d) (unat type_id) cand_id;
               Some (d\<lparr>d_map := m\<rparr>, 0)
             }
           }
     }
   }"

definition btf_dedup_resolve_fwds :: "dedup_env \<Rightarrow> btf_dedup \<Rightarrow> (btf_dedup \<times> int) option" where
  "btf_dedup_resolve_fwds env d =
     (if \<not> names_map_ok env then Some (d, - ENOMEM)
      else do {
        (names_map, err) \<leftarrow> btf_dedup_fill_unique_names_map env d (hashmap_init identity_hash_fn (=));
        if err < 0 then Some (d, err)
        else each_type (\<lambda>err. err < 0) (btf_dedup_resolve_fwd names_map) (own_ids d) d
      })"

section \<open>Compaction\<close>

text \<open>
  The loop over the types, by their indices: the type region, the index, the renumbering, the end \<open>p\<close> of the
  types kept and their number.
\<close>

fun compact_loop ::
  "u32 list \<Rightarrow> nat \<Rightarrow> nat list \<Rightarrow> u8 list \<times> nat list \<times> u32 list \<times> nat \<times> nat \<Rightarrow>
     ((u8 list \<times> nat list \<times> u32 list \<times> nat \<times> nat) \<times> int) option" where
  "compact_loop m start [] s = Some (s, 0)"
| "compact_loop m start (i # is) (data, offs, renum, p, n) = do {
     x \<leftarrow> ld m (start + i);
     if x \<noteq> of_nat (start + i) then compact_loop m start is (data, offs, renum, p, n)
     else do {
       off \<leftarrow> ld offs i;
       case btf_type_size (type_hdr_at data off) of
         None \<Rightarrow> Some ((data, offs, renum, p, n), - EINVAL)
       | Some len \<Rightarrow>
           compact_loop m start is
             (put data p (take len (drop off data)), offs[n := p], renum[start + i := of_nat (start + n)],
              p + len, n + 1)
     }
   }"

definition btf_dedup_compact_types :: "dedup_env \<Rightarrow> btf_dedup \<Rightarrow> (btf_dedup \<times> int) option" where
  "btf_dedup_compact_types env d =
     (case d_btf d of
        [] \<Rightarrow> None
      | btf # base \<Rightarrow> do {
          let start = start_id btf;
          let cnt = nr_types btf;
          let renum = List.map of_nat [0..<start] @ replicate cnt BTF_UNPROCESSED_ID;
          ((data, offs, renum, p, n), err) \<leftarrow>
            compact_loop (d_map d) start [0..<cnt] (types_data btf, type_offs btf, renum, 0, 0);
          let btf = btf\<lparr>types_data := data, type_offs := offs\<rparr>;
          let d = d\<lparr>d_btf := btf # base, hypot_map := renum\<rparr>;
          if err \<noteq> 0 then Some (d, err)
          else do {
            let btf = btf\<lparr>nr_types := n, hdr := (hdr btf)\<lparr>type_len := of_nat p\<rparr>\<rparr>;
            if n \<noteq> 0 \<and> \<not> offs_re_ok env then Some (d\<lparr>d_btf := btf # base\<rparr>, - ENOMEM)
            else Some (d\<lparr>d_btf := btf\<lparr>type_offs := take n offs, hdr := (hdr btf)\<lparr>str_off := of_nat p\<rparr>,
                raw_size := unat (hdr_len (hdr btf)) + p + unat (str_len (hdr btf))\<rparr> # base\<rparr>, 0)
          }
        })"

text \<open>The context is the map and the renumbering, which no visit changes.\<close>

definition btf_dedup_remap_type_id :: "(u32 list \<times> u32 list) visit_fn" where
  "btf_dedup_remap_type_id type_id c = do {
     resolved_type_id \<leftarrow> resolve_type_id (fst c) type_id;
     new_type_id \<leftarrow> ld (snd c) (unat resolved_type_id);
     if unat new_type_id > BTF_MAX_NR_TYPES then Some (type_id, c, - EINVAL)
     else Some (new_type_id, c, 0)
   }"

definition btf_dedup_remap_types :: "btf_dedup \<Rightarrow> (btf_dedup \<times> int) option" where
  "btf_dedup_remap_types d = do {
     (data, c, r) \<leftarrow>
       visit_types (\<lambda>data p. btf_type_visit_type_ids data p btf_dedup_remap_type_id) (own_type_offs d) (own_data d)
         (d_map d, hypot_map d);
     let d = set_types_data data d;
     if r \<noteq> 0 then Some (d, r)
     else case d_btf_ext d of
       None \<Rightarrow> Some (d, 0)
     | Some ext \<Rightarrow> do {
         (ext, c, r) \<leftarrow> btf_ext_visit_type_ids ext btf_dedup_remap_type_id c;
         Some (d\<lparr>d_btf_ext := Some ext\<rparr>, r)
       }
   }"

section \<open>All passes\<close>

text \<open>The passes after \<open>btf_dedup_prep\<close>, each of which runs when no earlier one has failed.\<close>

fun dedup_passes :: "(btf_dedup \<Rightarrow> (btf_dedup \<times> int) option) list \<Rightarrow> btf_dedup \<Rightarrow> (btf_dedup \<times> int) option" where
  "dedup_passes [] d = Some (d, 0)"
| "dedup_passes (f # fs) d = do { (d, err) \<leftarrow> f d; if err < 0 then Some (d, err) else dedup_passes fs d }"

text \<open>The object, \<open>.BTF.ext\<close> and the result. The code frees the rest of the state.\<close>

definition btf__dedup ::
  "dedup_env \<Rightarrow> btf list \<Rightarrow> btf_dedup_opts option \<Rightarrow> (btf list \<times> btf_ext option \<times> int) option" where
  "btf__dedup env b opts =
     (let ext = (case opts of None \<Rightarrow> None | Some o' \<Rightarrow> opts_btf_ext o') in
      if (case opts of None \<Rightarrow> False | Some o' \<Rightarrow> \<not> opts_valid o') then Some (b, ext, - EINVAL)
      else case btf_dedup_new env b opts of
        Inl err \<Rightarrow> Some (b, ext, - EINVAL)
      | Inr d \<Rightarrow>
          (case b of
             [] \<Rightarrow> None
           | btf # base \<Rightarrow>
               (case btf_ensure_modifiable (modify_env env) (base \<noteq> []) btf of
                  (btf, err) \<Rightarrow>
                    if err \<noteq> 0 then Some (btf # base, ext, - ENOMEM)
                    else
                      (case btf_dedup_prep env (d\<lparr>d_btf := btf # base\<rparr>) of
                         (d, err) \<Rightarrow>
                           if err \<noteq> 0 then Some (d_btf d, d_btf_ext d, err)
                           else do {
                             (d, err) \<leftarrow> dedup_passes
                               [btf_dedup_strings env, btf_dedup_prim_types env, btf_dedup_struct_types env,
                                btf_dedup_resolve_fwds env, btf_dedup_ref_types env, btf_dedup_compact_types env,
                                btf_dedup_remap_types] d;
                             Some (d_btf d, d_btf_ext d, err)
                           }))))"

end
