(* ===== verification/Dedup_Graph.thy ===== *)
theory Dedup_Graph
  imports Dedup
begin

text \<open>
  The graph of types and its bisimilarity, with which deduplication is specified: two types denote the
  same C type when they agree but for the identifiers in them, and these again lead to such types. The
  comparisons of deduplication are related to it here.
\<close>

section \<open>Nodes\<close>

text \<open>A type is its identifiers, \<open>ref_words\<close>, and the other words, \<open>shape\<close>.\<close>

definition ref_words :: "btf_type \<Rightarrow> u32 list" where
  "ref_words t = List.map (\<lambda>j. type_words t ! j) (id_pos t)"

definition shape :: "btf_type \<Rightarrow> u32 list" where
  "shape t = List.map (\<lambda>j. if j \<in> set (id_pos t) then 0 else type_words t ! j) [0..<length (type_words t)]"

lemma id_pos_not: "0 \<notin> set (id_pos t)" "Suc 0 \<notin> set (id_pos t)"
  by (auto simp: id_pos_def)

lemma length_shape [simp]: "length (shape t) = length (type_words t)"
  by (simp add: shape_def)

lemma shape_nth: "j < length (type_words t) \<Longrightarrow> shape t ! j = (if j \<in> set (id_pos t) then 0 else type_words t ! j)"
  by (simp add: shape_def)

lemma words_ge [simp]: "2 < length (type_words t)"
  by (simp add: type_words_def)

lemma words_012 [simp]: "type_words t ! 0 = name_off t" "type_words t ! Suc 0 = info t" "type_words t ! 2 = size_type t"
  "type_words t ! Suc (Suc 0) = size_type t"
  by (simp_all add: type_words_def)

lemma type_words_rest [simp]: "type_words t ! (3 + k) = rest t ! k" "length (type_words t) = 3 + length (rest t)"
  by (simp_all add: type_words_def numeral_3_eq_3)

lemma words_eq_iff: "type_words t = type_words t' \<longleftrightarrow> (t :: btf_type) = t'"
  by (auto simp: type_words_def)

lemma kind_cong:
  assumes "info t = info t'"
  shows "btf_kind t = btf_kind t'" "btf_vlen t = btf_vlen t'" "btf_kflag t = btf_kflag t'" "id_pos t = id_pos t'" "str_pos t = str_pos t'"
    "btf_type_size t = btf_type_size t'"
  using assms by (simp_all add: btf_kind_def btf_vlen_def btf_kflag_def id_pos_def str_pos_def btf_type_size_def)

lemma shape_cong:
  assumes "shape t = shape t'"
  shows "info t = info t'" "name_off t = name_off t'" "length (rest t) = length (rest t')"
proof -
  have l: "length (type_words t) = length (type_words t')" using arg_cong [OF assms, of length] by simp
  then show "length (rest t) = length (rest t')" by simp
  show "info t = info t'" "name_off t = name_off t'"
    using arg_cong [OF assms, of "\<lambda>s. s ! 1"] arg_cong [OF assms, of "\<lambda>s. s ! 0"] id_pos_not [of t] id_pos_not [of t']
    by (simp_all add: shape_nth)
qed

lemma shape_eqI:
  assumes "info t = info t'" "length (rest t) = length (rest t')"
    and "\<And>j. j < length (type_words t) \<Longrightarrow> j \<notin> set (id_pos t) \<Longrightarrow> type_words t ! j = type_words t' ! j"
  shows "shape t = shape t'"
  using assms kind_cong(4) [OF assms(1)] by (intro nth_equalityI) (simp_all add: shape_nth)

lemma node_eqI:
  assumes "shape t = shape t'" "ref_words t = ref_words t'" shows "t = t'"
proof -
  note c = shape_cong [OF assms(1)]
  note k = kind_cong(4) [OF c(1)]
  have "type_words t ! j = type_words t' ! j" if j: "j < length (type_words t)" for j
  proof (cases "j \<in> set (id_pos t)")
    case True
    with assms(2) show ?thesis by (simp add: ref_words_def k)
  next
    case False
    with arg_cong [OF assms(1), of "\<lambda>s. s ! j"] j c(3) k show ?thesis by (simp add: shape_nth)
  qed
  then have "type_words t = type_words t'" using c(3) by (intro nth_equalityI) simp_all
  then show ?thesis by (simp add: words_eq_iff)
qed

section \<open>Bisimilarity\<close>

type_synonym type_graph = "u32 \<Rightarrow> btf_type"

definition same_node :: "(u32 \<Rightarrow> u32 \<Rightarrow> bool) \<Rightarrow> btf_type \<Rightarrow> btf_type \<Rightarrow> bool" where
  "same_node R t t' \<longleftrightarrow> shape t = shape t' \<and> list_all2 R (ref_words t) (ref_words t')"

definition bisim :: "type_graph \<Rightarrow> type_graph \<Rightarrow> (u32 \<Rightarrow> u32 \<Rightarrow> bool) \<Rightarrow> bool" where
  "bisim G H R \<longleftrightarrow> (\<forall>i j. R i j \<longrightarrow> same_node R (G i) (H j))"

definition similar :: "type_graph \<Rightarrow> u32 \<Rightarrow> u32 \<Rightarrow> bool" where
  "similar G i j \<longleftrightarrow> (\<exists>R. bisim G G R \<and> R i j)"

lemma same_node_mono: "same_node R t t' \<Longrightarrow> (\<And>a b. a \<in> set (ref_words t) \<Longrightarrow> b \<in> set (ref_words t') \<Longrightarrow> R a b \<Longrightarrow> S a b) \<Longrightarrow> same_node S t t'"
  unfolding same_node_def by (auto elim: list.rel_mono_strong)

lemma same_node_refl: "(\<And>a. R a a) \<Longrightarrow> same_node R t t"
  by (simp add: same_node_def list.rel_refl)

lemma same_node_trans:
  "same_node R t1 t2 \<Longrightarrow> same_node S t2 t3 \<Longrightarrow> (\<And>a b c. R a b \<Longrightarrow> S b c \<Longrightarrow> T a c) \<Longrightarrow> same_node T t1 t3"
  unfolding same_node_def by (auto intro: list_all2_trans [of R S T])

lemma same_node_sym: "same_node R t t' \<Longrightarrow> (\<And>a b. R a b \<Longrightarrow> S b a) \<Longrightarrow> same_node S t' t"
  unfolding same_node_def by (auto simp: list_all2_conv_all_nth)

lemma similarI: "bisim G G R \<Longrightarrow> R i j \<Longrightarrow> similar G i j"
  unfolding similar_def by blast

lemma similar_node: assumes "similar G i j" shows "same_node (similar G) (G i) (G j)"
proof -
  obtain R where R: "bisim G G R" "R i j" using assms unfolding similar_def by blast
  then have "same_node R (G i) (G j)" unfolding bisim_def by blast
  then show ?thesis by (rule same_node_mono) (use R(1) in \<open>auto simp: similar_def\<close>)
qed

lemma bisim_similar: "bisim G G (similar G)"
  by (simp add: bisim_def similar_node)

lemma similar_refl [simp]: "similar G i i"
  unfolding similar_def by (intro exI [of _ "(=)"]) (simp add: bisim_def same_node_refl)

lemma similar_sym: assumes "similar G i j" shows "similar G j i"
proof -
  have "bisim G G (\<lambda>a b. similar G b a)"
    unfolding bisim_def
  proof (intro allI impI)
    fix a b assume "similar G b a"
    from similar_node [OF this] show "same_node (\<lambda>a b. similar G b a) (G a) (G b)" by (rule same_node_sym)
  qed
  from similarI [OF this] assms show ?thesis by blast
qed

lemma similar_trans: assumes "similar G i j" "similar G j k" shows "similar G i k"
proof -
  have "bisim G G (\<lambda>a c. \<exists>b. similar G a b \<and> similar G b c)"
    unfolding bisim_def
  proof (intro allI impI, elim exE conjE)
    fix a c b assume "similar G a b" "similar G b c"
    from similar_node [OF this(1)] similar_node [OF this(2)]
    show "same_node (\<lambda>a c. \<exists>b. similar G a b \<and> similar G b c) (G a) (G c)"
      by (rule same_node_trans) (intro exI conjI)
  qed
  from similarI [OF this] assms show ?thesis by blast
qed

text \<open>A relation that is a bisimulation up to similar types consists of similar types.\<close>

lemma similar_upto:
  assumes "\<And>i j. R i j \<Longrightarrow> same_node (\<lambda>a b. similar G a b \<or> (\<exists>a'. similar G a a' \<and> R a' b)) (G i) (G j)" "R i j"
  shows "similar G i j"
proof -
  let ?S = "\<lambda>a b. similar G a b \<or> (\<exists>a'. similar G a a' \<and> R a' b)"
  have "bisim G G ?S" unfolding bisim_def
  proof (intro allI impI)
    fix a b assume ab: "?S a b"
    then consider "similar G a b" | a' where "similar G a a'" "R a' b" by blast
    then show "same_node ?S (G a) (G b)"
    proof cases
      case 1
      from similar_node [OF 1] show ?thesis by (rule same_node_mono) blast
    next
      case 2
      show ?thesis
        by (rule same_node_trans [OF similar_node [OF 2(1)] assms(1) [OF 2(2)]]) (metis similar_trans)
    qed
  qed
  moreover have "?S i j" using assms(2) similar_refl by metis
  ultimately show ?thesis by (rule similarI)
qed

section \<open>Comparisons\<close>

lemma type_ok_rest: "type_ok t \<Longrightarrow> btf_type_size t = Some n \<Longrightarrow> 4 * length (rest t) = n - 12"
  by (auto simp: type_ok_def)

lemma equal_common_eq:
  assumes "btf_equal_common t t'" "type_ok t" "type_ok t'" "btf_type_size t = Some 12" shows "t = t'"
  using assms by (intro type_eqI) (auto dest: type_ok_rest)

lemma prim_size: "btf_kind t \<in> {BTF_KIND_FLOAT, BTF_KIND_FWD} \<Longrightarrow> btf_type_size t = Some 12"
  by (auto simp: btf_type_size_def sizeof_btf_type_def)

text \<open>What the passes take for equal is equal.\<close>

lemma ref_case_eq:
  assumes "ref_case t = Some (offs, hash, same)" "same t t'" "type_ok t" "type_ok t'" shows "t = t'"
proof -
  have link: "t = t'" if "btf_equal_common t t'"
    "btf_kind t \<in> {BTF_KIND_CONST, BTF_KIND_VOLATILE, BTF_KIND_RESTRICT, BTF_KIND_PTR, BTF_KIND_TYPEDEF, BTF_KIND_FUNC, BTF_KIND_TYPE_TAG}"
    using that by (intro equal_common_eq [OF _ assms(3,4)]) (auto simp: btf_type_size_def sizeof_btf_type_def)
  have "btf_equal_common t t' \<and> btf_kind t \<in> {BTF_KIND_CONST, BTF_KIND_VOLATILE, BTF_KIND_RESTRICT, BTF_KIND_PTR,
      BTF_KIND_TYPEDEF, BTF_KIND_FUNC, BTF_KIND_TYPE_TAG} \<or>
    btf_kind t = BTF_KIND_DECL_TAG \<and> btf_equal_int_tag t t' \<or>
    btf_kind t = BTF_KIND_ARRAY \<and> btf_equal_array t t' \<or> btf_kind t = BTF_KIND_FUNC_PROTO \<and> btf_equal_fnproto t t'"
    using assms(1,2) by (cases "btf_kind t") (simp_all add: ref_case_def Let_def)
  then show ?thesis
    using link by (elim disjE conjE) (simp_all add: equal_int_tag_iff equal_array_iff equal_fnproto_iff assms(3,4))
qed

lemma ref_case_offs:
  assumes "ref_case t = Some (offs, hash, same)"
  shows "offs = List.map ((*) 4) (id_pos t)"
proof -
  have "12 + 8 * i + 4 = 4 * (4 + 2 * i)" for i :: nat by simp
  then show ?thesis using assms
    by (cases "btf_kind t") (auto simp: ref_case_def Let_def id_pos_def comp_def)
qed

lemma kind_void [simp]: "btf_kind btf_void = BTF_KIND_UNKN"
  by (simp add: btf_kind_def btf_void_def BTF_INFO_KIND_def kind_of_def all_kinds_def)

lemma type_by_id_0 [simp]: "btf_type_by_id b 0 = btf_void"
  by (cases b) simp_all

lemma identical_arrays_eq:
  assumes "btf_dedup_identical_arrays b i j = Some True" "btf_chain b"
  shows "btf_type_by_id b (unat i) = btf_type_by_id b (unat j)"
proof -
  have k: "btf_is_array (btf_type_by_id b (unat i))" "btf_is_array (btf_type_by_id b (unat j))"
    "btf_equal_array (btf_type_by_id b (unat i)) (btf_type_by_id b (unat j))"
    and n: "unat i < btf__type_cnt b" "unat j < btf__type_cnt b"
    using assms(1) by (auto simp: btf_dedup_identical_arrays_def btf__type_by_id_def Option.bind_eq_Some_conv split: if_splits)
  have "i \<noteq> 0" "j \<noteq> 0" using k(1,2) by (auto simp: btf_is_array_def)
  then have "type_ok (btf_type_by_id b (unat i))" "type_ok (btf_type_by_id b (unat j))"
    using n type_by_id_ok [OF assms(2)] by (simp_all add: unat_gt_0)
  with k show ?thesis by (simp add: equal_array_iff btf_is_array_def)
qed

lemma shallow_shape:
  assumes "btf_shallow_equal_struct t t'" "type_ok t" "type_ok t'" "is_composite_kind (btf_kind t)"
  shows "shape t = shape t'"
proof -
  have c: "info t = info t'" "name_off t = name_off t'" "size_type t = size_type t'"
    using assms(1) by (simp_all add: btf_shallow_equal_struct_def btf_equal_common_def)
  have l: "length (rest t) = 3 * btf_vlen t" "length (rest t') = length (rest t)"
    using assms(2-4) kind_cong(1,2,6) [OF c(1)]
    by (auto simp: type_ok_def is_composite_kind_def btf_type_size_def Let_def sizeof_btf_type_def)
  have ids: "set (id_pos t) = (\<lambda>i. 4 + 3 * i) ` {0..<btf_vlen t}"
    using assms(4) by (auto simp: id_pos_def is_composite_kind_def)
  show ?thesis
  proof (rule shape_eqI [OF c(1) l(2) [symmetric]])
    fix j assume j: "j < length (type_words t)" "j \<notin> set (id_pos t)"
    show "type_words t ! j = type_words t' ! j"
    proof (cases "j < 3")
      case True
      then have "j = 0 \<or> j = 1 \<or> j = 2" by auto
      with c show ?thesis by (auto simp del: type_words_rest)
    next
      case False
      define k where "k = (j - 3) div 3"
      have k: "k < btf_vlen t" using j(1) l False by (simp add: k_def div_less_iff_less_mult)
      have "j = 3 + 3 * k \<or> j = 4 + 3 * k \<or> j = 3 + (3 * k + 2)" using False unfolding k_def by presburger
      moreover have "j \<noteq> 4 + 3 * k" using j(2) k by (auto simp: ids)
      moreover have "rest t ! (3 * k) = rest t' ! (3 * k) \<and> rest t ! (3 * k + 2) = rest t' ! (3 * k + 2)"
        using assms(1) k by (simp add: btf_shallow_equal_struct_def btf_members_def Let_def)
      ultimately show ?thesis by (auto simp only: type_words_rest)
    qed
  qed
qed

text \<open>A positive comparison of two types, and the pairs that remain.\<close>

definition no_fwd :: "btf_type \<Rightarrow> bool" where
  "no_fwd t \<longleftrightarrow> btf_kind t \<noteq> BTF_KIND_FWD \<and> \<not> btf_is_enum_fwd t"

lemma equiv_step_InlE:
  assumes "equiv_step t t' = Inl r" "0 < r"
  obtains "btf_kind t = BTF_KIND_INT" "btf_equal_int_tag t t'"
  | "btf_kind t \<in> {BTF_KIND_ENUM, BTF_KIND_ENUM64}" "btf_kind t' = btf_kind t" "btf_compat_enum t t'"
  | "btf_kind t \<in> {BTF_KIND_FLOAT, BTF_KIND_FWD}" "btf_equal_common t t'"
proof -
  have "\<not> 0 < - EINVAL" by (simp add: EINVAL_def)
  with assms that show thesis
    by (cases "btf_kind t") (simp_all add: equiv_step_def Let_def split: if_splits)
qed

lemma equiv_step_eq:
  assumes "equiv_step t t' = Inl r" "0 < r" "type_ok t" "type_ok t'" "no_fwd t" "no_fwd t'"
  shows "t = t'"
  using assms(1,2)
proof (cases rule: equiv_step_InlE)
  case 1
  then show ?thesis by (simp add: equal_int_tag_iff assms(3,4))
next
  case 2
  then have "btf_equal_enum t t'" using assms(5,6) by (simp add: btf_compat_enum_def no_fwd_def)
  with 2(1) show ?thesis by (simp add: equal_enum_iff assms(3,4))
next
  case 3
  show ?thesis by (rule equal_common_eq [OF 3(2) assms(3,4) prim_size [OF 3(1)]])
qed

lemma words_4: "type_words t ! (4 + k) = rest t ! (k + 1)"
  using type_words_rest(1) [of t "Suc k"] by simp

lemma zip_ids:
  assumes "id_pos t = map f ns" "id_pos t' = map f ns"
  shows "zip (ref_words t) (ref_words t') = map (\<lambda>n. (type_words t ! f n, type_words t' ! f n)) ns"
  by (simp add: ref_words_def assms zip_map_map comp_def flip: zip_map_fst_snd) (simp add: zip_same_conv_map)

lemma link_pairs:
  assumes "info t = info t'" "name_off t = name_off t'" "type_ok t" "type_ok t'" "id_pos t = [2]" "btf_type_size t = Some 12"
  shows "shape t = shape t'" "zip (ref_words t) (ref_words t') = [(size_type t, size_type t')]"
proof -
  note k = kind_cong(4,6) [OF assms(1)]
  have r: "rest t = []" "rest t' = []" using assms(3,4,6) k by (auto dest: type_ok_rest)
  show "shape t = shape t'"
  proof (rule shape_eqI [OF assms(1)])
    fix j assume "j < length (type_words t)" "j \<notin> set (id_pos t)"
    then have "j = 0 \<or> j = 1" using r assms(5) by auto
    with assms(1,2) show "type_words t ! j = type_words t' ! j" by auto
  qed (simp add: r)
  show "zip (ref_words t) (ref_words t') = [(size_type t, size_type t')]"
    using k(1) assms(5) by (simp add: ref_words_def flip: k(1))
qed

lemma array_pairs:
  assumes "btf_compat_array t t'" "type_ok t" "type_ok t'" "btf_kind t = BTF_KIND_ARRAY"
  shows "shape t = shape t'"
    "zip (ref_words t) (ref_words t') =
       [(a_type (btf_array t), a_type (btf_array t')), (a_index_type (btf_array t), a_index_type (btf_array t'))]"
proof -
  have c: "info t = info t'" "name_off t = name_off t'" "size_type t = size_type t'"
    using assms(1) by (simp_all add: btf_compat_array_def btf_equal_common_def)
  note k = kind_cong(4,6) [OF c(1)]
  have n: "rest t ! 2 = rest t' ! 2" using assms(1) by (simp add: btf_compat_array_def btf_array_def)
  have sz: "btf_type_size t = Some 24" using assms(4) by (simp add: btf_type_size_def sizeof_btf_type_def)
  have r: "length (rest t) = 3" "length (rest t') = 3"
    using type_ok_rest [OF assms(2) sz] type_ok_rest [OF assms(3), of 24] sz k by simp_all
  have ids: "id_pos t = [3, 4]" using assms(4) by (simp add: id_pos_def)
  show "shape t = shape t'"
  proof (rule shape_eqI [OF c(1)])
    fix j assume "j < length (type_words t)" "j \<notin> set (id_pos t)"
    then have "j = 0 \<or> j = 1 \<or> j = 2 \<or> j = 3 + 2" using r ids by auto
    with c n show "type_words t ! j = type_words t' ! j" by (auto simp only: words_012 type_words_rest One_nat_def)
  qed (simp add: r)
  show "zip (ref_words t) (ref_words t') =
       [(a_type (btf_array t), a_type (btf_array t')), (a_index_type (btf_array t), a_index_type (btf_array t'))]"
    using ids type_words_rest(1) [of t 0] type_words_rest(1) [of t' 0] words_4 [of t 0] words_4 [of t' 0]
    by (simp add: ref_words_def btf_array_def flip: k(1))
qed

lemma member_pairs:
  assumes "btf_shallow_equal_struct t t'" "type_ok t" "type_ok t'" "is_composite_kind (btf_kind t)"
  shows "zip (ref_words t) (ref_words t') =
    map (\<lambda>i. (m_type (btf_members t i), m_type (btf_members t' i))) [0..<btf_vlen t]"
proof -
  have c: "info t = info t'"
    using assms(1) by (simp add: btf_shallow_equal_struct_def btf_equal_common_def)
  have ids: "id_pos t = map (\<lambda>i. 4 + 3 * i) [0..<btf_vlen t]"
    using assms(4) by (auto simp: id_pos_def is_composite_kind_def)
  from zip_ids [OF ids] show ?thesis
    using ids kind_cong(4) [OF c] by (simp add: words_4 btf_members_def)
qed

lemma fnproto_pairs:
  assumes "btf_compat_fnproto t t'" "type_ok t" "type_ok t'" "btf_kind t = BTF_KIND_FUNC_PROTO"
  shows "shape t = shape t'"
    "zip (ref_words t) (ref_words t') =
      (size_type t, size_type t') # map (\<lambda>i. (p_type (btf_params t i), p_type (btf_params t' i))) [0..<btf_vlen t]"
proof -
  have c: "info t = info t'" "name_off t = name_off t'" using assms(1) by (simp_all add: btf_compat_fnproto_def)
  note k = kind_cong(4,6) [OF c(1)]
  have l: "length (rest t) = 2 * btf_vlen t" "length (rest t') = length (rest t)"
    using assms(2-4) kind_cong(1,2,6) [OF c(1)]
    by (auto simp: type_ok_def btf_type_size_def Let_def sizeof_btf_type_def)
  have ids: "id_pos t = 2 # map (\<lambda>i. 4 + 2 * i) [0..<btf_vlen t]" using assms(4) by (simp add: id_pos_def)
  show "shape t = shape t'"
  proof (rule shape_eqI [OF c(1) l(2) [symmetric]])
    fix j assume j: "j < length (type_words t)" "j \<notin> set (id_pos t)"
    show "type_words t ! j = type_words t' ! j"
    proof (cases "j < 3")
      case True
      then have "j = 0 \<or> j = 1" using j(2) ids by auto
      with c show ?thesis by (auto simp del: type_words_rest)
    next
      case False
      define i where "i = (j - 3) div 2"
      have i: "i < btf_vlen t" using j(1) l False by (simp add: i_def)
      have "j = 3 + 2 * i \<or> j = 4 + 2 * i" using False unfolding i_def by presburger
      moreover have "j \<noteq> 4 + 2 * i" using j(2) i by (auto simp: ids)
      moreover have "rest t ! (2 * i) = rest t' ! (2 * i)"
        using assms(1) i by (simp add: btf_compat_fnproto_def btf_params_def)
      ultimately show ?thesis by (auto simp only: type_words_rest)
    qed
  qed
  have ids': "id_pos t' = 2 # map (\<lambda>i. 4 + 2 * i) [0..<btf_vlen t]" using ids k by simp
  show "zip (ref_words t) (ref_words t') =
      (size_type t, size_type t') # map (\<lambda>i. (p_type (btf_params t i), p_type (btf_params t' i))) [0..<btf_vlen t]"
    by (simp add: ref_words_def ids ids' comp_def words_4 btf_params_def zip_map_map flip: zip_map_fst_snd)
      (simp add: zip_same_conv_map comp_def)
qed

text \<open>The cases of the switch that compare further types.\<close>

lemma equiv_step_InrE:
  assumes "equiv_step t t' = Inr ps"
  obtains "info t = info t'" "ps = [(size_type t, size_type t')]" "id_pos t = [2]" "btf_type_size t = Some 12"
  | "btf_compat_array t t'" "btf_kind t = BTF_KIND_ARRAY" "ps = [(a_index_type (btf_array t), a_index_type (btf_array t')),
      (a_type (btf_array t), a_type (btf_array t'))]"
  | "btf_shallow_equal_struct t t'" "is_composite_kind (btf_kind t)"
    "ps = map (\<lambda>i. (m_type (btf_members t i), m_type (btf_members t' i))) [0..<btf_vlen t]"
  | "btf_compat_fnproto t t'" "btf_kind t = BTF_KIND_FUNC_PROTO" "ps = (size_type t, size_type t') #
      map (\<lambda>i. (p_type (btf_params t i), p_type (btf_params t' i))) [0..<btf_vlen t]"
proof (cases "btf_kind t \<in> {BTF_KIND_ARRAY, BTF_KIND_STRUCT, BTF_KIND_UNION, BTF_KIND_FUNC_PROTO}")
  case True
  then consider "btf_kind t = BTF_KIND_ARRAY" | "btf_kind t = BTF_KIND_STRUCT" | "btf_kind t = BTF_KIND_UNION"
    | "btf_kind t = BTF_KIND_FUNC_PROTO" by blast
  then show thesis
    using assms that(2-4) by cases (simp_all add: equiv_step_def Let_def is_composite_kind_def split: if_splits)
next
  case False
  have "info t = info t' \<and> ps = [(size_type t, size_type t')] \<and> id_pos t = [2] \<and> btf_type_size t = Some 12"
    using assms False
    by (cases "btf_kind t")
      (simp_all add: equiv_step_def Let_def id_pos_def btf_type_size_def sizeof_btf_type_def split: if_splits)
  with that(1) show thesis by blast
qed

lemma equiv_step_pairs:
  assumes "equiv_step t t' = Inr ps" "name_off t = name_off t'" "type_ok t" "type_ok t'"
  shows "shape t = shape t' \<and> set ps = set (zip (ref_words t) (ref_words t'))"
  using assms(1)
proof (cases rule: equiv_step_InrE)
  case 1
  with link_pairs [OF 1(1) assms(2-4) 1(3,4)] show ?thesis by simp
next
  case 2
  from array_pairs [OF 2(1) assms(3,4) 2(2)] show ?thesis by (simp add: 2(3) insert_commute)
next
  case 3
  from shallow_shape [OF 3(1) assms(3,4) 3(2)] member_pairs [OF 3(1) assms(3,4) 3(2)] show ?thesis by (simp add: 3(3))
next
  case 4
  from fnproto_pairs [OF 4(1) assms(3,4) 4(2)] show ?thesis by (simp add: 4(3))
qed

end
