(* ===== verification/Dedup_Map.thy ===== *)
theory Dedup_Map
  imports Dedup_Graph
begin

text \<open>
  The state of deduplication: the table of candidates, the canonical map and its lookups. In objects
  without forward declarations the map is flat, canonical types are mapped to themselves.
\<close>

section \<open>The table of candidates\<close>

lemma push_ok:
  assumes ok: "hashmap_ok m" and ne: "buckets m \<noteq> []" and room: "(sz m + 1) * 4 div 3 \<le> cap m"
    and m': "m' = m\<lparr>buckets := hashmap_add_entry (buckets m) (hash_bits (hash_fn m k) (cap_bits m)) (k, v), sz := sz m + 1\<rparr>"
  shows "hashmap_ok m'" "set (hashmap_entries m') = insert (k, v) (set (hashmap_entries m))"
proof -
  let ?h = "hash_bits (hash_fn m k) (cap_bits m)"
  have h: "?h < length (buckets m)" by (rule hashmap_ok_bucket [OF ok ne])
  have ms: "mset (hashmap_entries m') = add_mset (k, v) (mset (hashmap_entries m))"
    using mset_add_entry [OF h] by (simp add: m' hashmap_entries_def)
  then have len: "length (hashmap_entries m') = Suc (length (hashmap_entries m))"
    by (metis size_add_mset size_mset)
  show "set (hashmap_entries m') = insert (k, v) (set (hashmap_entries m))"
    using ms by (metis set_mset_add_mset_insert set_mset_mset)
  have "entries_placed m'"
    using ok h by (auto simp: entries_placed_def hashmap_ok_def m' hashmap_add_entry_def nth_list_update)
  moreover have "buckets m' \<noteq> []" using ne by (simp add: m' hashmap_add_entry_def)
  ultimately show "hashmap_ok m'"
    using ok ne len room by (simp add: hashmap_ok_def m')
qed

lemma append_spec:
  assumes ok: "hashmap_ok m" and i: "hashmap_insert al m k v HASHMAP_APPEND = (m', err, old)"
  shows "hashmap_ok m' \<and> hash_fn m' = hash_fn m \<and> equal_fn m' = equal_fn m \<and>
    set (hashmap_entries m') = (if err = 0 then insert (k, v) (set (hashmap_entries m)) else set (hashmap_entries m))"
proof -
  obtain m1 e1 where g: "(if hashmap_needs_to_grow m then hashmap_grow (calloc_ok al) m else (m, 0)) = (m1, e1)" by fastforce
  have r: "(m', err) = (if e1 \<noteq> 0 then (m1, e1)
      else if \<not> malloc_ok al then (m1, - ENOMEM)
      else (m1\<lparr>buckets := hashmap_add_entry (buckets m1) (hash_bits (hash_fn m1 k) (cap_bits m1)) (k, v), sz := sz m1 + 1\<rparr>, 0))"
    using i by (auto simp: hashmap_insert_def g Let_def split: if_splits)
  have grown: "hashmap_ok m1 \<and> hash_fn m1 = hash_fn m \<and> equal_fn m1 = equal_fn m \<and>
    set (hashmap_entries m1) = set (hashmap_entries m) \<and>
    (e1 = 0 \<longrightarrow> buckets m1 \<noteq> [] \<and> (sz m1 + 1) * 4 div 3 \<le> cap m1)"
  proof (cases "hashmap_needs_to_grow m")
    case True
    then have g1: "hashmap_grow (calloc_ok al) m = (m1, e1)" using g by simp
    show ?thesis
    proof (cases "e1 = 0")
      case True
      with g1 have "hashmap_grow (calloc_ok al) m = (m1, 0)" by simp
      note k = hashmap_grow_ok [OF ok this]
      show ?thesis using k(1,3-6,8) mset_eq_setD [OF k(2)] by simp
    qed (use hashmap_grow_fail [OF g1] ok in simp)
  next
    case False
    with g have "m1 = m" "cap m \<noteq> 0" "(sz m + 1) * 4 div 3 \<le> cap m" by (auto simp: hashmap_needs_to_grow_def)
    with ok show ?thesis by (auto simp: hashmap_ok_def split: if_splits)
  qed
  show ?thesis
  proof (cases "e1 = 0 \<and> malloc_ok al")
    case True
    with r have m': "m' = m1\<lparr>buckets := hashmap_add_entry (buckets m1) (hash_bits (hash_fn m1 k) (cap_bits m1)) (k, v), sz := sz m1 + 1\<rparr>"
      and e: "err = 0" by simp_all
    from True grown have ne: "buckets m1 \<noteq> []" "(sz m1 + 1) * 4 div 3 \<le> cap m1" by simp_all
    show ?thesis using push_ok [OF _ ne m'] grown by (simp add: e) (simp add: m')
  next
    case False
    moreover have "- ENOMEM \<noteq> 0" by (simp add: errno_defs)
    ultimately have "m' = m1" "err \<noteq> 0" using r by (simp_all split: if_splits)
    with grown show ?thesis by simp
  qed
qed

text \<open>Where keys are compared by equality, the entries of a key are all there are.\<close>

lemma key_entries_iff:
  assumes "hashmap_ok m" "equal_fn m = (=)"
  shows "e \<in> set (hashmap_key_entries m k) \<longleftrightarrow> e \<in> set (hashmap_entries m) \<and> fst e = k"
proof (cases "buckets m = []")
  case False
  let ?h = "hash_bits (hash_fn m k) (cap_bits m)"
  have h: "?h < length (buckets m)" by (rule hashmap_ok_bucket [OF assms(1) False])
  have "e \<in> set (hashmap_key_entries m k) \<longleftrightarrow> e \<in> set (buckets m ! ?h) \<and> fst e = k"
    using False assms(2) by (simp add: hashmap_key_entries_def)
  also have "\<dots> \<longleftrightarrow> e \<in> set (hashmap_entries m) \<and> fst e = k"
  proof
    assume "e \<in> set (buckets m ! ?h) \<and> fst e = k"
    with h show "e \<in> set (hashmap_entries m) \<and> fst e = k" unfolding hashmap_entries_def set_concat_nth by blast
  next
    assume e: "e \<in> set (hashmap_entries m) \<and> fst e = k"
    then obtain i where i: "i < length (buckets m)" "e \<in> set (buckets m ! i)"
      unfolding hashmap_entries_def set_concat_nth by blast
    have "entries_placed m" using assms(1) by (simp add: hashmap_ok_def)
    then have "hash_bits (hash_fn m (fst e)) (cap_bits m) = i" using i unfolding entries_placed_def by simp
    with i(2) e show "e \<in> set (buckets m ! ?h) \<and> fst e = k" by simp
  qed
  finally show ?thesis .
qed (simp add: hashmap_key_entries_def hashmap_entries_def)

definition table_ids :: "btf_dedup \<Rightarrow> (u64 \<times> u32) set" where
  "table_ids d = set (hashmap_entries (dedup_table d))"

definition table_wf :: "btf_dedup \<Rightarrow> bool" where
  "table_wf d \<longleftrightarrow> hashmap_ok (dedup_table d) \<and> equal_fn (dedup_table d) = (=)"

lemma cands_iff: "table_wf d \<Longrightarrow> c \<in> set (dedup_cands d h) \<longleftrightarrow> (h, c) \<in> table_ids d"
  by (force simp: dedup_cands_def table_ids_def table_wf_def key_entries_iff image_iff)

lemma table_add_spec:
  assumes "table_wf d" "btf_dedup_table_add al h i d = (d', err)"
  shows "d' = d\<lparr>dedup_table := dedup_table d'\<rparr>" "table_wf d'"
    "table_ids d' = (if err = 0 then insert (h, i) (table_ids d) else table_ids d)"
proof -
  obtain m e old where m: "hashmap_insert al (dedup_table d) h i HASHMAP_APPEND = (m, e, old)"
    by (metis prod.exhaust)
  then have d': "d' = d\<lparr>dedup_table := m\<rparr>" "err = e" using assms(2) by (simp_all add: btf_dedup_table_add_def)
  then show "d' = d\<lparr>dedup_table := dedup_table d'\<rparr>" by simp
  from append_spec [OF _ m] assms(1) d' show "table_wf d'"
    "table_ids d' = (if err = 0 then insert (h, i) (table_ids d) else table_ids d)"
    by (simp_all add: table_wf_def table_ids_def)
qed

section \<open>The canonical map\<close>

text \<open>What is mapped is mapped to a type that is mapped to itself.\<close>

definition flat_map :: "(u32 \<Rightarrow> u32 \<Rightarrow> bool) \<Rightarrow> nat \<Rightarrow> u32 list \<Rightarrow> bool" where
  "flat_map sim n m \<longleftrightarrow>
     length m = n \<and>
     (\<forall>i. unat i < n \<and> unat (m ! unat i) \<le> BTF_MAX_NR_TYPES \<longrightarrow>
        unat (m ! unat i) < n \<and> m ! unat (m ! unat i) = m ! unat i \<and> sim i (m ! unat i))"

definition canon :: "u32 list \<Rightarrow> u32 \<Rightarrow> u32" where
  "canon m i = (if unat (m ! unat i) \<le> BTF_MAX_NR_TYPES then m ! unat i else i)"

text \<open>The interface: the types of a candidate are interchangeable with it.\<close>

locale canonical_map =
  fixes sim :: "u32 \<Rightarrow> u32 \<Rightarrow> bool"
  assumes sim_refl: "sim i i"
    and sim_sym: "sim i j \<Longrightarrow> sim j i"
    and sim_trans: "sim i j \<Longrightarrow> sim j k \<Longrightarrow> sim i k"
begin

lemma canon_spec:
  assumes "flat_map sim n m" "unat i < n"
  shows "unat (canon m i) < n" "sim i (canon m i)"
    "unat (m ! unat (canon m i)) \<le> BTF_MAX_NR_TYPES \<Longrightarrow> m ! unat (canon m i) = canon m i"
  using assms by (auto simp: flat_map_def canon_def sim_refl)

lemma resolve_canon:
  assumes "flat_map sim n m" "unat i < n"
  shows "resolve_type_id m i = Some (canon m i)"
proof -
  have "length m = n" using assms(1) by (simp add: flat_map_def)
  with assms show ?thesis
    by (subst resolve_type_id.simps, simp add: canon_def)
      (auto simp: flat_map_def resolve_type_id.simps [of m "m ! unat i"])
qed

lemma same_canon: "flat_map sim n m \<Longrightarrow> unat i < n \<Longrightarrow> unat j < n \<Longrightarrow> canon m i = canon m j \<Longrightarrow> sim i j"
  using canon_spec(2) sim_sym sim_trans by metis

text \<open>A type that is not canonical may be mapped to a canonical one, or to itself.\<close>

lemma flat_map_to:
  assumes "flat_map sim n m" "unat i < n" "m ! unat i \<noteq> i" "unat c < n" "m ! unat c = c" "sim i c"
  shows "flat_map sim n (m[unat i := c])"
  using assms by (auto simp: flat_map_def nth_list_update simp flip: word_unat_eq_iff)

lemma flat_map_self:
  assumes "flat_map sim n m" "unat i < n" shows "flat_map sim n (m[unat i := i])"
  using assms by (auto simp: flat_map_def nth_list_update sim_refl simp flip: word_unat_eq_iff)

lemma flat_map_unset:
  assumes "flat_map sim n m" "unat i < n" "unat (m ! unat i) > BTF_MAX_NR_TYPES" "unat x > BTF_MAX_NR_TYPES"
  shows "flat_map sim n (m[unat i := x])"
  using assms by (auto simp: flat_map_def nth_list_update simp flip: word_unat_eq_iff)

end

end
