(* ===== verification/Dedup_Equiv.thy ===== *)
theory Dedup_Equiv
  imports Dedup_Map
begin

text \<open>
  The comparison of type graphs, \<open>btf_dedup_is_equiv\<close> of \<open>src/libbpf/src/btf.c\<close>, for objects without
  forward declarations: it returns, and when it says that two types are equivalent they are bisimilar.
\<close>

section \<open>Objects that deduplication handles\<close>

definition dgraph :: "btf list \<Rightarrow> type_graph" where
  "dgraph b i = btf_type_by_id b (unat i)"

text \<open>No struct contains itself through its members, arrays and pointers apart.\<close>

definition nested_ok :: "btf list \<Rightarrow> bool" where
  "nested_ok b \<longleftrightarrow>
     (\<exists>rank :: u32 \<Rightarrow> nat. \<forall>i. unat i < btf__type_cnt b \<and> is_composite_kind (btf_kind (dgraph b i)) \<longrightarrow>
        (\<forall>m\<in>set (ref_words (dgraph b i)). is_composite_kind (btf_kind (dgraph b m)) \<longrightarrow> rank m < rank i))"

definition graph_ok :: "btf list \<Rightarrow> bool" where
  "graph_ok b \<longleftrightarrow>
     btf_chain b \<and> btf__type_cnt b \<le> BTF_MAX_NR_TYPES + 1 \<and> nested_ok b \<and>
     (\<forall>i. unat i < btf__type_cnt b \<longrightarrow>
        no_fwd (dgraph b i) \<and> (\<forall>r\<in>set (ref_words (dgraph b i)). unat r < btf__type_cnt b))"

lemma graph_okD:
  assumes "graph_ok b" "unat i < btf__type_cnt b"
  shows "no_fwd (dgraph b i)" "r \<in> set (ref_words (dgraph b i)) \<Longrightarrow> unat r < btf__type_cnt b"
    "unat i \<le> BTF_MAX_NR_TYPES" "btf__type_by_id b (unat i) = Some (dgraph b i)"
    "\<not> btf_is_fwd (dgraph b i)" "btf_kind (dgraph b i) \<noteq> BTF_KIND_FWD"
  using assms by (auto simp: graph_ok_def btf__type_by_id_def dgraph_def no_fwd_def btf_is_fwd_def)

lemma graph_type_ok:
  assumes "graph_ok b" "unat i < btf__type_cnt b" "btf_kind (dgraph b i) \<noteq> BTF_KIND_UNKN"
  shows "type_ok (dgraph b i)"
proof -
  have "0 < unat i" using assms(3) by (cases "i = 0") (auto simp: dgraph_def unat_gt_0)
  with assms(1,2) show ?thesis unfolding dgraph_def by (intro type_by_id_ok) (auto simp: graph_ok_def)
qed

interpretation sim: canonical_map "similar G"
  by unfold_locales (auto intro: similar_sym similar_trans)

lemma similar_eqI: assumes "G i = G j" shows "similar G i j"
proof (rule similarI)
  show "bisim G G (\<lambda>a b. a = b \<or> a = i \<and> b = j)"
    unfolding bisim_def using assms by (auto intro: same_node_refl)
qed simp

section \<open>Identical structs\<close>

lemma all_true_iff: "all_true p xs = Some True \<longleftrightarrow> (\<forall>x\<in>set xs. p x = Some True)"
  by (induction xs) (auto simp: Option.bind_eq_Some_conv split: if_splits)

lemma all_true_total: "(\<And>x. x \<in> set xs \<Longrightarrow> p x \<noteq> None) \<Longrightarrow> all_true p xs \<noteq> None"
  by (induction xs) (auto simp: Option.bind_eq_None_conv)

lemma composite_iff: "btf_is_composite t \<longleftrightarrow> is_composite_kind (btf_kind t)"
  by (simp add: btf_is_composite_def is_composite_kind_def Let_def)

lemma member_refs:
  assumes "is_composite_kind (btf_kind t)"
  shows "ref_words t = List.map (\<lambda>k. m_type (btf_members t k)) [0..<btf_vlen t]"
  using assms by (auto simp: ref_words_def id_pos_def is_composite_kind_def words_4 btf_members_def)

lemma identical_structs_total:
  assumes g: "graph_ok b" and i: "unat i < btf__type_cnt b" "unat j < btf__type_cnt b"
  shows "btf_dedup_identical_structs b i j \<noteq> None"
proof -
  obtain rank :: "u32 \<Rightarrow> nat" where r: "\<And>i m. unat i < btf__type_cnt b \<Longrightarrow> is_composite_kind (btf_kind (dgraph b i)) \<Longrightarrow>
      m \<in> set (ref_words (dgraph b i)) \<Longrightarrow> is_composite_kind (btf_kind (dgraph b m)) \<Longrightarrow> rank m < rank i"
    using g unfolding graph_ok_def nested_ok_def by blast
  have "btf_dedup_identical_structs b i j \<noteq> None" if "unat i < btf__type_cnt b" "unat j < btf__type_cnt b" for i j
    using that
  proof (induction "rank i" arbitrary: i j rule: less_induct)
    case less
    let ?t1 = "dgraph b i" and ?t2 = "dgraph b j"
    note t = graph_okD(4) [OF g less.prems(1)] graph_okD(4) [OF g less.prems(2)]
    show ?case
    proof (cases "is_composite_kind (btf_kind ?t1) \<and> btf_kind ?t1 = btf_kind ?t2 \<and> btf_shallow_equal_struct ?t1 ?t2")
      case False
      then show ?thesis by (subst btf_dedup_identical_structs.simps) (auto simp: t composite_iff)
    next
      case True
      then have c: "is_composite_kind (btf_kind ?t1)" "is_composite_kind (btf_kind ?t2)" by auto
      have v: "btf_vlen ?t1 = btf_vlen ?t2" using True by (simp add: btf_shallow_equal_struct_def equal_common_kind)
      have "(let m1 = m_type (btf_members ?t1 k); m2 = m_type (btf_members ?t2 k) in
          if m1 = m2 then Some True
          else do { a \<leftarrow> btf_dedup_identical_arrays b m1 m2;
            if a then Some True else btf_dedup_identical_structs b m1 m2 }) \<noteq> None"
        if k: "k \<in> set [0..<btf_vlen ?t1]" for k
      proof -
        let ?m1 = "m_type (btf_members ?t1 k)" and ?m2 = "m_type (btf_members ?t2 k)"
        have m: "?m1 \<in> set (ref_words ?t1)" "?m2 \<in> set (ref_words ?t2)"
          using k v by (simp_all add: member_refs c)
        then have n: "unat ?m1 < btf__type_cnt b" "unat ?m2 < btf__type_cnt b"
          using graph_okD(2) [OF g] less.prems by blast+
        note tm = graph_okD(4) [OF g n(1)] graph_okD(4) [OF g n(2)]
        have "btf_dedup_identical_structs b ?m1 ?m2 \<noteq> None"
        proof (cases "is_composite_kind (btf_kind (dgraph b ?m1))")
          case True
          show ?thesis by (rule less.hyps [OF r [OF less.prems(1) _ m(1) True] n]) (rule c(1))
        next
          case False
          then show ?thesis by (subst btf_dedup_identical_structs.simps) (simp add: tm composite_iff)
        qed
        then show ?thesis by (auto simp: Let_def btf_dedup_identical_arrays_def tm)
      qed
      then have "all_true (\<lambda>k. let m1 = m_type (btf_members ?t1 k); m2 = m_type (btf_members ?t2 k) in
          if m1 = m2 then Some True
          else do { a \<leftarrow> btf_dedup_identical_arrays b m1 m2;
            if a then Some True else btf_dedup_identical_structs b m1 m2 }) [0..<btf_vlen ?t1] \<noteq> None"
        by (rule all_true_total)
      moreover have "btf_shallow_equal_struct ?t1 ?t2" "btf_kind ?t1 = btf_kind ?t2" using True by simp_all
      ultimately show ?thesis
        by (subst btf_dedup_identical_structs.simps) (simp add: t composite_iff c)
    qed
  qed
  then show ?thesis using i by blast
qed

lemma identical_structs_similar:
  assumes g: "graph_ok b" and "btf_dedup_identical_structs b i j = Some True"
  shows "similar (dgraph b) i j"
proof (rule similar_upto [where R = "\<lambda>i j. btf_dedup_identical_structs b i j = Some True"])
  let ?J = "\<lambda>a c. similar (dgraph b) a c \<or> (\<exists>a'. similar (dgraph b) a a' \<and> btf_dedup_identical_structs b a' c = Some True)"
  fix i j assume e: "btf_dedup_identical_structs b i j = Some True"
  note u = e [unfolded btf_dedup_identical_structs.simps [of b i j]]
  from u obtain t1 t2 where "btf__type_by_id b (unat i) = Some t1" "btf__type_by_id b (unat j) = Some t2"
    by (auto simp only: Option.bind_eq_Some_conv)
  then have n: "unat i < btf__type_cnt b" "unat j < btf__type_cnt b"
    by (simp_all add: btf__type_by_id_def split: if_splits)
  let ?t1 = "dgraph b i" and ?t2 = "dgraph b j"
  note t = graph_okD(4) [OF g n(1)] graph_okD(4) [OF g n(2)]
  have c: "is_composite_kind (btf_kind ?t1)" "btf_kind ?t1 = btf_kind ?t2" "btf_shallow_equal_struct ?t1 ?t2"
    and all: "\<forall>k\<in>set [0..<btf_vlen ?t1]. (let m1 = m_type (btf_members ?t1 k); m2 = m_type (btf_members ?t2 k) in
          if m1 = m2 then Some True
          else do { a \<leftarrow> btf_dedup_identical_arrays b m1 m2;
            if a then Some True else btf_dedup_identical_structs b m1 m2 }) = Some True"
    using u by (simp_all add: t all_true_iff composite_iff split: if_splits)
  have ok: "type_ok ?t1" "type_ok ?t2" using graph_type_ok [OF g] n c by (auto simp: is_composite_kind_def)
  have v: "btf_vlen ?t1 = btf_vlen ?t2" using c(3) by (simp add: btf_shallow_equal_struct_def equal_common_kind)
  have "?J (m_type (btf_members ?t1 k)) (m_type (btf_members ?t2 k))" if k: "k < btf_vlen ?t1" for k
  proof -
    let ?m1 = "m_type (btf_members ?t1 k)" and ?m2 = "m_type (btf_members ?t2 k)"
    consider "?m1 = ?m2" | "btf_dedup_identical_arrays b ?m1 ?m2 = Some True" | "btf_dedup_identical_structs b ?m1 ?m2 = Some True"
      using bspec [OF all, of k] k
      by (cases "?m1 = ?m2"; cases "btf_dedup_identical_arrays b ?m1 ?m2") (simp_all add: Let_def split: if_splits)
    then show ?thesis
    proof cases
      case 2
      have "similar (dgraph b) ?m1 ?m2"
        by (rule similar_eqI) (use identical_arrays_eq [OF 2] g in \<open>simp add: dgraph_def graph_ok_def\<close>)
      then show ?thesis by blast
    next
      case 3
      then show ?thesis by (meson similar_refl)
    qed simp
  qed
  then have "list_all2 ?J (ref_words ?t1) (ref_words ?t2)"
    using c v by (simp add: member_refs list_all2_conv_all_nth)
  with shallow_shape [OF c(3) ok c(1)] show "same_node ?J ?t1 ?t2" by (simp add: same_node_def)
qed (rule assms(2))

section \<open>The hypothetical map\<close>

definition hmapped :: "btf_dedup \<Rightarrow> u32 \<Rightarrow> bool" where
  "hmapped d c \<longleftrightarrow> unat c < length (hypot_map d) \<and> unat (hypot_map d ! unat c) \<le> BTF_MAX_NR_TYPES"

text \<open>Exactly the entries of the list are set, to types of the object.\<close>

definition hypot_wf :: "nat \<Rightarrow> btf_dedup \<Rightarrow> bool" where
  "hypot_wf n d \<longleftrightarrow> length (hypot_map d) = n \<and>
     (\<forall>c. hmapped d c \<longrightarrow> c \<in> set (hypot_list d) \<and> unat (hypot_map d ! unat c) < n) \<and>
     (\<forall>c\<in>set (hypot_list d). hmapped d c)"

definition hextends :: "btf_dedup \<Rightarrow> btf_dedup \<Rightarrow> bool" where
  "hextends d d' \<longleftrightarrow>
     d' = d\<lparr>hypot_map := hypot_map d', hypot_list := hypot_list d', hypot_cap := hypot_cap d'\<rparr> \<and>
     length (hypot_map d') = length (hypot_map d) \<and>
     (\<forall>c. hmapped d c \<longrightarrow> hypot_map d' ! unat c = hypot_map d ! unat c)"

lemma hextends_refl [simp]: "hextends d d"
  by (simp add: hextends_def)

lemma hextends_mapped: "hextends d d' \<Longrightarrow> hmapped d c \<Longrightarrow> hmapped d' c \<and> hypot_map d' ! unat c = hypot_map d ! unat c"
  by (simp add: hextends_def hmapped_def)

lemma hextends_fields:
  assumes "hextends d d'"
  shows "d_btf d' = d_btf d" "d_map d' = d_map d" "dedup_table d' = dedup_table d" "d_btf_ext d' = d_btf_ext d"
    "hypot_adjust_canon d' = hypot_adjust_canon d"
proof -
  have e: "d' = d\<lparr>hypot_map := hypot_map d', hypot_list := hypot_list d', hypot_cap := hypot_cap d'\<rparr>"
    using assms by (simp add: hextends_def)
  show "d_btf d' = d_btf d" "d_map d' = d_map d" "dedup_table d' = dedup_table d" "d_btf_ext d' = d_btf_ext d"
    "hypot_adjust_canon d' = hypot_adjust_canon d"
    by (subst e, simp)+
qed

lemma hextends_trans: assumes "hextends d1 d2" "hextends d2 d3" shows "hextends d1 d3"
proof -
  have e: "d2 = d1\<lparr>hypot_map := hypot_map d2, hypot_list := hypot_list d2, hypot_cap := hypot_cap d2\<rparr>"
    "d3 = d2\<lparr>hypot_map := hypot_map d3, hypot_list := hypot_list d3, hypot_cap := hypot_cap d3\<rparr>"
    using assms by (simp_all add: hextends_def)
  have "d3 = d1\<lparr>hypot_map := hypot_map d3, hypot_list := hypot_list d3, hypot_cap := hypot_cap d3\<rparr>"
    by (subst e(2), subst e(1)) simp
  moreover have "\<forall>c. hmapped d1 c \<longrightarrow> hypot_map d3 ! unat c = hypot_map d1 ! unat c"
    using hextends_mapped [OF assms(1)] hextends_mapped [OF assms(2)] by simp
  ultimately show ?thesis using assms by (simp add: hextends_def)
qed

text \<open>\<open>a\<close> and \<open>c\<close> may be taken for equivalent; an entry is closed when the types it relates agree so far.\<close>

definition justified :: "type_graph \<Rightarrow> btf_dedup \<Rightarrow> u32 \<Rightarrow> u32 \<Rightarrow> bool" where
  "justified G d a c \<longleftrightarrow> similar G a c \<or> (hmapped d c \<and> similar G a (hypot_map d ! unat c))"

definition closed_entry :: "type_graph \<Rightarrow> btf_dedup \<Rightarrow> u32 \<Rightarrow> bool" where
  "closed_entry G d c \<longleftrightarrow> same_node (justified G d) (G (hypot_map d ! unat c)) (G c)"

lemma justified_mono: "justified G d a c \<Longrightarrow> hextends d d' \<Longrightarrow> justified G d' a c"
  using hextends_mapped by (force simp: justified_def)

lemma closed_mono: "closed_entry G d c \<Longrightarrow> hmapped d c \<Longrightarrow> hextends d d' \<Longrightarrow> closed_entry G d' c"
  using hextends_mapped [of d d' c] justified_mono [of G d _ _ d']
  unfolding closed_entry_def by (auto elim: same_node_mono)

text \<open>A map all of whose entries are closed relates similar types.\<close>

lemma closed_similar:
  assumes "\<And>c. hmapped d c \<Longrightarrow> closed_entry G d c" "hmapped d c"
  shows "similar G (hypot_map d ! unat c) c"
proof (rule similar_upto [where R = "\<lambda>x c. hmapped d c \<and> x = hypot_map d ! unat c"])
  fix x c assume "hmapped d c \<and> x = hypot_map d ! unat c"
  then have "same_node (justified G d) (G x) (G c)" using assms(1) by (simp add: closed_entry_def)
  then show "same_node (\<lambda>a b. similar G a b \<or> (\<exists>a'. similar G a a' \<and> hmapped d b \<and> a' = hypot_map d ! unat b)) (G x) (G c)"
    by (rule same_node_mono) (auto simp: justified_def)
qed (simp add: assms(2))

text \<open>The entries still free, which bound the recursion.\<close>

definition free_entries :: "btf_dedup \<Rightarrow> nat" where
  "free_entries d = card {i. i < length (hypot_map d) \<and> unat (hypot_map d ! i) > BTF_MAX_NR_TYPES}"

lemma unat_u32: "i < 2 ^ 32 \<Longrightarrow> unat (of_nat i :: u32) = i"
  by (simp add: unsigned_of_nat take_bit_nat_eq_self_iff)

lemma free_mono: assumes "hextends d d'" "length (hypot_map d) \<le> 2 ^ 32" shows "free_entries d' \<le> free_entries d"
  unfolding free_entries_def
proof (rule card_mono)
  show "{i. i < length (hypot_map d') \<and> unat (hypot_map d' ! i) > BTF_MAX_NR_TYPES}
      \<subseteq> {i. i < length (hypot_map d) \<and> unat (hypot_map d ! i) > BTF_MAX_NR_TYPES}"
  proof (safe, goal_cases)
    case (1 i)
    then show ?case using assms(1) by (simp add: hextends_def)
  next
    case (2 i)
    then have i: "unat (of_nat i :: u32) = i" "i < length (hypot_map d)"
      using assms by (simp_all add: hextends_def unat_u32)
    show ?case
    proof (rule ccontr)
      assume "\<not> BTF_MAX_NR_TYPES < unat (hypot_map d ! i)"
      with i have "hmapped d (of_nat i)" by (simp add: hmapped_def)
      from hextends_mapped [OF assms(1) this] 2(2) i show False by (simp add: hmapped_def)
    qed
  qed
qed simp

section \<open>The comparison returns, and a positive answer is right\<close>

definition state_ok :: "btf list \<Rightarrow> btf_dedup \<Rightarrow> bool" where
  "state_ok b d \<longleftrightarrow>
     d_btf d = b \<and> flat_map (similar (dgraph b)) (btf__type_cnt b) (d_map d) \<and> hypot_wf (btf__type_cnt b) d"

text \<open>Entries set between \<open>d\<close> and \<open>d'\<close> are closed.\<close>

definition new_closed :: "btf list \<Rightarrow> btf_dedup \<Rightarrow> btf_dedup \<Rightarrow> bool" where
  "new_closed b d d' \<longleftrightarrow> (\<forall>c. hmapped d' c \<and> \<not> hmapped d c \<longrightarrow> closed_entry (dgraph b) d' c)"

definition equiv_post :: "btf list \<Rightarrow> btf_dedup \<Rightarrow> u32 \<Rightarrow> u32 \<Rightarrow> btf_dedup \<times> int \<Rightarrow> bool" where
  "equiv_post b d a c res \<longleftrightarrow>
     (case res of (d', r) \<Rightarrow>
        hextends d d' \<and> hypot_wf (btf__type_cnt b) d' \<and>
        (0 < r \<longrightarrow> justified (dgraph b) d' a c \<and> new_closed b d d'))"

lemma state_ok_extends: "state_ok b d \<Longrightarrow> hextends d d' \<Longrightarrow> hypot_wf (btf__type_cnt b) d' \<Longrightarrow> state_ok b d'"
  by (simp add: state_ok_def hextends_fields)

lemma new_closed_refl [simp]: "new_closed b d d"
  by (simp add: new_closed_def)

lemma new_closed_trans:
  assumes "new_closed b d1 d2" "new_closed b d2 d3" "hextends d2 d3" shows "new_closed b d1 d3"
  unfolding new_closed_def
proof (intro allI impI)
  fix c assume c: "hmapped d3 c \<and> \<not> hmapped d1 c"
  show "closed_entry (dgraph b) d3 c"
  proof (cases "hmapped d2 c")
    case True
    with assms(1) c have "closed_entry (dgraph b) d2 c" by (simp add: new_closed_def)
    then show ?thesis by (rule closed_mono [OF _ True assms(3)])
  qed (use assms(2) c in \<open>simp add: new_closed_def\<close>)
qed

lemma all_equiv_spec:
  assumes go: "\<And>a c d. (a, c) \<in> set ps \<Longrightarrow> state_ok b d \<Longrightarrow> free_entries d < k \<Longrightarrow>
      \<exists>res. go a c d = Some res \<and> equiv_post b d a c res"
    and d: "state_ok b d" "free_entries d < k" "btf__type_cnt b \<le> 2 ^ 32"
  shows "\<exists>d' r. all_equiv go ps d = Some (d', r) \<and> hextends d d' \<and> hypot_wf (btf__type_cnt b) d' \<and>
    (0 < r \<longrightarrow> (\<forall>(a, c)\<in>set ps. justified (dgraph b) d' a c) \<and> new_closed b d d')"
  using assms(1,2,3)
proof (induction ps arbitrary: d)
  case Nil
  then show ?case by (simp add: state_ok_def)
next
  case (Cons p ps)
  obtain a c where p: "p = (a, c)" by fastforce
  obtain d1 r1 where g: "go a c d = Some (d1, r1)" "equiv_post b d a c (d1, r1)"
    using Cons.prems(1) [of a c d] Cons.prems(2,3) p by auto
  then have e1: "hextends d d1" "hypot_wf (btf__type_cnt b) d1" by (simp_all add: equiv_post_def)
  show ?case
  proof (cases "r1 \<le> 0")
    case True
    with g e1 show ?thesis by (simp add: p)
  next
    case False
    have s1: "state_ok b d1" by (rule state_ok_extends [OF Cons.prems(2) e1])
    have "length (hypot_map d) \<le> 2 ^ 32" using Cons.prems(2) d(3) by (simp add: state_ok_def hypot_wf_def)
    then have k1: "free_entries d1 < k" using free_mono [OF e1(1)] Cons.prems(3) by simp
    have "\<exists>d' r. all_equiv go ps d1 = Some (d', r) \<and> hextends d1 d' \<and> hypot_wf (btf__type_cnt b) d' \<and>
      (0 < r \<longrightarrow> (\<forall>(a, c)\<in>set ps. justified (dgraph b) d' a c) \<and> new_closed b d1 d')"
      by (rule Cons.IH [OF _ s1 k1]) (use Cons.prems(1) in auto)
    then obtain d' r where IH: "all_equiv go ps d1 = Some (d', r)" "hextends d1 d'" "hypot_wf (btf__type_cnt b) d'"
      "0 < r \<longrightarrow> (\<forall>(a, c)\<in>set ps. justified (dgraph b) d' a c) \<and> new_closed b d1 d'" by blast
    have j: "justified (dgraph b) d1 a c" "new_closed b d d1" using g(2) False by (simp_all add: equiv_post_def)
    have "justified (dgraph b) d' a c" by (rule justified_mono [OF j(1) IH(2)])
    moreover have "new_closed b d d'" if "0 < r"
      using new_closed_trans [OF j(2) _ IH(2)] IH(4) that by blast
    ultimately have "0 < r \<longrightarrow> (\<forall>(a, c)\<in>set (p # ps). justified (dgraph b) d' a c) \<and> new_closed b d d'"
      using IH(4) by (simp add: p)
    with g(1) False IH(1,3) hextends_trans [OF e1(1) IH(2)] show ?thesis by (simp add: p)
  qed
qed

lemma hypot_add_spec:
  assumes w: "hypot_wf n d" and c: "unat c < n" "\<not> hmapped d c" and a: "unat a < n" "unat a \<le> BTF_MAX_NR_TYPES"
  shows "\<exists>d1 e. btf_dedup_hypot_map_add re c a d = Some (d1, e) \<and> hextends d d1 \<and> hypot_wf n d1 \<and>
    (e = 0 \<longrightarrow> hmapped d1 c \<and> hypot_map d1 ! unat c = a \<and> (\<forall>x. hmapped d1 x \<longrightarrow> hmapped d x \<or> x = c) \<and>
       free_entries d1 < free_entries d)"
proof -
  define d0 where "d0 = (if length (hypot_list d) = hypot_cap d
    then d\<lparr>hypot_cap := hypot_cap d + max 16 (hypot_cap d div 2)\<rparr> else d)"
  have d0: "hypot_map d0 = hypot_map d" "hypot_list d0 = hypot_list d" by (simp_all add: d0_def)
  have h0: "hmapped d0 x = hmapped d x" for x by (simp add: hmapped_def d0)
  have l: "unat c < length (hypot_map d)" using w c by (simp add: hypot_wf_def)
  let ?d1 = "d0\<lparr>hypot_list := hypot_list d @ [c], hypot_map := (hypot_map d)[unat c := a]\<rparr>"
  have m1: "hmapped ?d1 x \<longleftrightarrow> hmapped d x \<or> x = c" for x
    using l a by (auto simp: hmapped_def nth_list_update simp flip: word_unat_eq_iff)
  have nth: "(hypot_map d)[unat c := a] ! unat x = (if x = c then a else hypot_map d ! unat x)" for x
    using l by (auto simp: nth_list_update simp flip: word_unat_eq_iff)
  have "hextends d ?d1" using c(2) by (auto simp: hextends_def d0_def nth)
  moreover have "hypot_wf n ?d1" using w a l by (auto simp: hypot_wf_def m1 nth)
  moreover have "free_entries ?d1 < free_entries d" unfolding free_entries_def
  proof (rule psubset_card_mono)
    have "unat c \<in> {i. i < length (hypot_map d) \<and> BTF_MAX_NR_TYPES < unat (hypot_map d ! i)}"
      using l c(2) by (simp add: hmapped_def)
    moreover have "unat c \<notin> {i. i < length (hypot_map ?d1) \<and> BTF_MAX_NR_TYPES < unat (hypot_map ?d1 ! i)}"
      using l a by simp
    moreover have "{i. i < length (hypot_map ?d1) \<and> BTF_MAX_NR_TYPES < unat (hypot_map ?d1 ! i)}
        \<subseteq> {i. i < length (hypot_map d) \<and> BTF_MAX_NR_TYPES < unat (hypot_map d ! i)}"
      using a l by (auto simp: nth_list_update split: if_splits)
    ultimately show "{i. i < length (hypot_map ?d1) \<and> BTF_MAX_NR_TYPES < unat (hypot_map ?d1 ! i)}
        \<subset> {i. i < length (hypot_map d) \<and> BTF_MAX_NR_TYPES < unat (hypot_map d ! i)}" by blast
  qed simp
  moreover have "hextends d d0" by (auto simp: hextends_def d0_def)
  moreover have "hypot_wf n d0" using w by (simp add: hypot_wf_def h0 d0)
  moreover have "btf_dedup_hypot_map_add re c a d =
      (if length (hypot_list d) = hypot_cap d \<and> \<not> re (hypot_cap d0) then Some (d0, - ENOMEM) else Some (?d1, 0))"
    using l unfolding d0_def by (simp add: btf_dedup_hypot_map_add_def Let_def st_def)
  moreover have "- ENOMEM \<noteq> 0" by (simp add: errno_defs)
  ultimately show ?thesis using m1 l by (auto simp: nth)
qed

lemma equiv_step_kind:
  assumes "case equiv_step t t' of Inl r \<Rightarrow> 0 < r | Inr ps \<Rightarrow> True"
  shows "btf_kind t = btf_kind t'" "btf_kind t \<noteq> BTF_KIND_UNKN"
proof -
  show k: "btf_kind t = btf_kind t'" using assms by (rule contrapos_pp) (simp add: equiv_step_def)
  show "btf_kind t \<noteq> BTF_KIND_UNKN" using assms k by (auto simp: equiv_step_def EINVAL_def)
qed

text \<open>Where the entry for the canonical type is set, the candidate is compared with its value.\<close>

lemma equiv_known:
  assumes g: "graph_ok b" and d: "state_ok b d" and n: "unat a < btf__type_cnt b"
    and h: "hmapped d c" "x = hypot_map d ! unat c"
  shows "\<exists>r. (if x = a then Some (d, 1)
      else do {
        arrays \<leftarrow> btf_dedup_identical_arrays b x a;
        if arrays then Some (d, 1)
        else do { structs \<leftarrow> btf_dedup_identical_structs b x a; Some (d, if structs then 1 else 0) }
      }) = Some (d, r :: int) \<and> equiv_post b d a c (d, r)"
proof -
  have w: "hypot_wf (btf__type_cnt b) d" using d by (simp add: state_ok_def)
  then have x: "unat x < btf__type_cnt b" using h by (simp add: hypot_wf_def)
  obtain ar where ar: "btf_dedup_identical_arrays b x a = Some ar"
    by (auto simp: btf_dedup_identical_arrays_def graph_okD(4) [OF g x] graph_okD(4) [OF g n])
  obtain st where st: "btf_dedup_identical_structs b x a = Some st"
    using identical_structs_total [OF g x n] by auto
  have s: "similar (dgraph b) a x" if "x = a \<or> ar \<or> st"
  proof -
    have "similar (dgraph b) x a" if ar
      using identical_arrays_eq [of b x a] ar that g by (intro similar_eqI) (simp add: dgraph_def graph_ok_def)
    moreover have "similar (dgraph b) x a" if st
      using identical_structs_similar [OF g, of x a] st that by simp
    ultimately show ?thesis using that similar_sym by auto
  qed
  then have "justified (dgraph b) d a c" if "x = a \<or> ar \<or> st" using that h by (simp add: justified_def)
  with w show ?thesis by (simp add: ar st equiv_post_def)
qed

lemma is_equiv_spec:
  assumes g: "graph_ok b" and "state_ok b d" "unat a < btf__type_cnt b" "unat c < btf__type_cnt b"
  shows "\<exists>res. btf_dedup_is_equiv re a c d = Some res \<and> equiv_post b d a c res"
  using assms(2-4)
proof (induction "free_entries d" arbitrary: d a c rule: less_induct)
  case less
  let ?G = "dgraph b" and ?n = "btf__type_cnt b"
  have fm: "flat_map (similar ?G) ?n (d_map d)" and hw: "hypot_wf ?n d" and db: "d_btf d = b"
    using less.prems(1) by (simp_all add: state_ok_def)
  note ra = sim.resolve_canon [OF fm less.prems(2)] and rc = sim.resolve_canon [OF fm less.prems(3)]
  note ta = graph_okD [OF g less.prems(2)] and tc = graph_okD [OF g less.prems(3)]
  have n32: "?n \<le> 2 ^ 32" using g by (simp add: graph_ok_def BTF_MAX_NR_TYPES_def)
  have fwd: "resolve_fwd_id b (d_map d) c = Some c" by (simp add: resolve_fwd_id_def tc(4,5))
  have len: "unat c < length (hypot_map d)" using hw less.prems(3) by (simp add: hypot_wf_def)
  note unfold = btf_dedup_is_equiv.simps [of re a c d, unfolded db ra rc Option.bind.simps fwd ld_Some [OF len]]
  consider (same) "canon (d_map d) a = canon (d_map d) c"
    | (known) "canon (d_map d) a \<noteq> canon (d_map d) c" "hmapped d c"
    | (new) "canon (d_map d) a \<noteq> canon (d_map d) c" "\<not> hmapped d c" by blast
  then show ?case
  proof cases
    case same
    then have "justified ?G d a c" using sim.same_canon [OF fm less.prems(2,3)] by (simp add: justified_def)
    with hw same show ?thesis by (subst unfold) (simp add: equiv_post_def)
  next
    case known
    from equiv_known [OF g less.prems(1,2) known(2) refl] known len show ?thesis
      by (subst unfold) (auto simp: hmapped_def)
  next
    case new
    obtain d1 e where d1: "btf_dedup_hypot_map_add re c a d = Some (d1, e)" "hextends d d1" "hypot_wf ?n d1"
      "e = 0 \<longrightarrow> hmapped d1 c \<and> hypot_map d1 ! unat c = a \<and> (\<forall>x. hmapped d1 x \<longrightarrow> hmapped d x \<or> x = c) \<and>
        free_entries d1 < free_entries d"
      using hypot_add_spec [OF hw less.prems(3) new(2) less.prems(2) ta(3), of re] by blast
    have b1: "d_btf d1 = b" using hextends_fields [OF d1(2)] db by simp
    have unm: "\<not> unat (hypot_map d ! unat c) \<le> BTF_MAX_NR_TYPES" using new(2) len by (simp add: hmapped_def)
    note step = unfold [unfolded if_not_P [OF new(1)] if_not_P [OF unm] d1(1) Option.bind.simps]
    show ?thesis
    proof (cases "e = 0")
      case False
      with d1(2,3) show ?thesis by (subst step) (simp add: equiv_post_def errno_defs)
    next
      case True
      then have m1: "hmapped d1 c" "hypot_map d1 ! unat c = a" "\<And>x. hmapped d1 x \<Longrightarrow> hmapped d x \<or> x = c"
        "free_entries d1 < free_entries d" using d1(4) by blast+
      have s1: "state_ok b d1" by (rule state_ok_extends [OF less.prems(1) d1(2,3)])
      let ?t = "?G a" and ?t' = "?G c"
      have fs: "fwd_step ?t ?t' = None" using ta(6) tc(6) by (simp add: fwd_step_def)
      have e: "btf_dedup_is_equiv re a c d =
          (if name_off ?t \<noteq> name_off ?t' then Some (d1, 0)
           else case equiv_step ?t ?t' of
             Inl eq \<Rightarrow> Some (d1, eq)
           | Inr ps \<Rightarrow> all_equiv (\<lambda>a b d. btf_dedup_is_equiv re a b d) ps d1)"
        by (subst step) (simp add: True b1 ta(4) tc(4) fs)
      have entry: "equiv_post b d a c (d', r)"
        if x: "hextends d1 d'" "hypot_wf ?n d'"
          and p: "0 < r \<Longrightarrow> new_closed b d1 d' \<and> same_node (justified ?G d') ?t ?t'" for d' r
      proof -
        note ex = hextends_mapped [OF x(1) m1(1)]
        have "new_closed b d d'" if "0 < r"
          unfolding new_closed_def
        proof (intro allI impI)
          fix y assume y: "hmapped d' y \<and> \<not> hmapped d y"
          show "closed_entry ?G d' y"
          proof (cases "y = c")
            case True
            with p [OF that] ex m1(2) show ?thesis by (simp add: closed_entry_def)
          next
            case False
            with m1(3) y have "\<not> hmapped d1 y" by blast
            with p [OF that] y show ?thesis by (simp add: new_closed_def)
          qed
        qed
        moreover have "justified ?G d' a c" using ex m1(2) by (simp add: justified_def)
        ultimately show ?thesis using hextends_trans [OF d1(2) x(1)] x(2) by (simp add: equiv_post_def)
      qed
      show ?thesis
      proof (cases "name_off ?t = name_off ?t'")
        case False
        with entry [of d1 0] d1(3) show ?thesis by (subst e) simp
      next
        case name: True
        show ?thesis
        proof (cases "equiv_step ?t ?t'")
          case (Inl r)
          have "same_node (justified ?G d1) ?t ?t'" if "0 < r"
          proof -
            have k: "btf_kind ?t = btf_kind ?t'" "btf_kind ?t \<noteq> BTF_KIND_UNKN"
              using equiv_step_kind [of ?t ?t'] Inl that by simp_all
            have "?t = ?t'"
              by (rule equiv_step_eq [OF Inl that graph_type_ok [OF g less.prems(2)] graph_type_ok [OF g less.prems(3)]
                    ta(1) tc(1)]) (use k in simp_all)
            then show ?thesis by (simp add: same_node_refl justified_def)
          qed
          with entry [of d1 r] d1(3) name Inl show ?thesis by (subst e) simp
        next
          case (Inr ps)
          have k: "btf_kind ?t = btf_kind ?t'" "btf_kind ?t \<noteq> BTF_KIND_UNKN"
            using equiv_step_kind [of ?t ?t'] Inr by simp_all
          have sp: "shape ?t = shape ?t' \<and> set ps = set (zip (ref_words ?t) (ref_words ?t'))"
            by (rule equiv_step_pairs [OF Inr name graph_type_ok [OF g less.prems(2)] graph_type_ok [OF g less.prems(3)]])
              (use k in simp_all)
          have len: "length (ref_words ?t) = length (ref_words ?t')"
            using kind_cong(4) [OF shape_cong(1) [OF conjunct1 [OF sp]]] by (simp add: ref_words_def)
          have go: "\<exists>res. btf_dedup_is_equiv re a' c' d' = Some res \<and> equiv_post b d' a' c' res"
            if "(a', c') \<in> set ps" "state_ok b d'" "free_entries d' < free_entries d" for a' c' d'
          proof (rule less.hyps [OF that(3,2)])
            from that(1) sp have "(a', c') \<in> set (zip (ref_words ?t) (ref_words ?t'))" by simp
            then have "a' \<in> set (ref_words ?t)" "c' \<in> set (ref_words ?t')" by (auto dest: set_zip_leftD set_zip_rightD)
            then show "unat a' < ?n" "unat c' < ?n" using ta(2) tc(2) by blast+
          qed
          have "\<exists>d' r. all_equiv (\<lambda>a b d. btf_dedup_is_equiv re a b d) ps d1 = Some (d', r) \<and> hextends d1 d' \<and>
            hypot_wf ?n d' \<and> (0 < r \<longrightarrow> (\<forall>(a, c)\<in>set ps. justified ?G d' a c) \<and> new_closed b d1 d')"
            by (rule all_equiv_spec [OF _ s1 m1(4) n32]) (rule go)
          then obtain d' r where r: "all_equiv (\<lambda>a b d. btf_dedup_is_equiv re a b d) ps d1 = Some (d', r)" "hextends d1 d'"
            "hypot_wf ?n d'" "0 < r \<longrightarrow> (\<forall>(a, c)\<in>set ps. justified ?G d' a c) \<and> new_closed b d1 d'"
            by (elim exE conjE) (rule that)
          have "same_node (justified ?G d') ?t ?t'" if "0 < r"
            using r(4) that sp len by (simp add: same_node_def list_all2_iff)
          with entry [OF r(2,3)] r(1,4) name Inr show ?thesis by (subst e) simp
        qed
      qed
    qed
  qed
qed

end
