(* ===== verification/Dedup_Passes.thy ===== *)
theory Dedup_Passes
  imports Dedup_Equiv
begin

text \<open>
  The passes over the base, the primitive types, the structs and the forward declarations: each returns,
  and keeps the canonical map within bisimilarity.
\<close>

section \<open>The invariant of the passes\<close>

definition pass_ok :: "btf list \<Rightarrow> btf_dedup \<Rightarrow> bool" where
  "pass_ok b d \<longleftrightarrow>
     state_ok b d \<and> table_wf d \<and> \<not> hypot_adjust_canon d \<and>
     (\<forall>(h, v)\<in>table_ids d. unat v < btf__type_cnt b \<and> d_map d ! unat v = v)"

text \<open>Identifiers mapped to themselves stay so; new entries are not of that kind.\<close>

definition keeps_self :: "u32 list \<Rightarrow> u32 list \<Rightarrow> bool" where
  "keeps_self m m' \<longleftrightarrow> (\<forall>i. m ! unat i = i \<longrightarrow> m' ! unat i = i)"

lemma keeps_self_refl [simp]: "keeps_self m m"
  by (simp add: keeps_self_def)

lemma keeps_self_trans: "keeps_self m1 m2 \<Longrightarrow> keeps_self m2 m3 \<Longrightarrow> keeps_self m1 m3"
  by (simp add: keeps_self_def)

lemma keeps_self_update: "m ! unat i \<noteq> i \<Longrightarrow> keeps_self m (m[unat i := v])"
  unfolding keeps_self_def by (metis nth_list_update_neq word_unat_eq_iff)

lemma pass_ok_cand:
  assumes "pass_ok b d" "v \<in> set (dedup_cands d h)"
  shows "unat v < btf__type_cnt b" "d_map d ! unat v = v"
  using assms cands_iff [of d v h] by (auto simp: pass_ok_def)

lemma update_simps [simp]:
  "table_ids (d\<lparr>d_map := m\<rparr>) = table_ids d" "table_wf (d\<lparr>d_map := m\<rparr>) = table_wf d"
  "hmapped (d\<lparr>d_map := m\<rparr>) = hmapped d" "hypot_wf n (d\<lparr>d_map := m\<rparr>) = hypot_wf n d"
  "hmapped (d\<lparr>dedup_table := t\<rparr>) = hmapped d" "hypot_wf n (d\<lparr>dedup_table := t\<rparr>) = hypot_wf n d"
  by (simp_all add: table_ids_def table_wf_def hypot_wf_def hmapped_def fun_eq_iff)

lemma pass_ok_map:
  assumes "pass_ok b d" "flat_map (similar (dgraph b)) (btf__type_cnt b) m" "keeps_self (d_map d) m"
  shows "pass_ok b (d\<lparr>d_map := m\<rparr>)"
  using assms by (simp add: pass_ok_def state_ok_def keeps_self_def) blast

lemma set_canonical_spec:
  assumes p: "pass_ok b d" and g: "graph_ok b" and i: "unat i < btf__type_cnt b" "d_map d ! unat i \<noteq> i"
    and v: "v = i \<or> v \<in> set (dedup_cands d h') \<and> similar (dgraph b) i v"
  shows "\<exists>d' r. set_canonical env h i v d = Some (d', r) \<and> r \<le> 0 \<and> pass_ok b d' \<and>
    d_map d' = (d_map d)[unat i := v] \<and> d_btf_ext d' = d_btf_ext d"
proof -
  let ?m = "(d_map d)[unat i := v]" and ?n = "btf__type_cnt b"
  have fm: "flat_map (similar (dgraph b)) ?n (d_map d)" using p by (simp add: pass_ok_def state_ok_def)
  then have l: "unat i < length (d_map d)" using i by (simp add: flat_map_def)
  have f: "flat_map (similar (dgraph b)) ?n ?m"
    using v sim.flat_map_self [OF fm i(1)] sim.flat_map_to [OF fm i] pass_ok_cand [OF p] by auto
  have p': "pass_ok b (d\<lparr>d_map := ?m\<rparr>)" by (rule pass_ok_map [OF p f keeps_self_update [OF i(2)]])
  show ?thesis
  proof (cases "i = v")
    case False
    with p' l show ?thesis by (simp add: set_canonical_def)
  next
    case True
    obtain d' e where a: "btf_dedup_table_add (table_al env i) h i (d\<lparr>d_map := ?m\<rparr>) = (d', e)" by fastforce
    have w: "table_wf (d\<lparr>d_map := ?m\<rparr>)" using p' by (simp add: pass_ok_def)
    note ts = table_add_spec [OF w a]
    obtain t where d': "d' = d\<lparr>d_map := ?m, dedup_table := t\<rparr>" using ts(1) by (metis btf_dedup.simps)
    have ids: "table_ids d' \<subseteq> insert (h, i) (table_ids d)" using ts(3) by (auto simp: table_ids_def)
    have "\<forall>(h, v)\<in>table_ids d'. unat v < ?n \<and> ?m ! unat v = v"
    proof (intro ballI, clarify)
      fix h' w assume "(h', w) \<in> table_ids d'"
      with ids consider "w = i" | "(h', w) \<in> table_ids d" by blast
      then show "unat w < ?n \<and> ?m ! unat w = w"
        using p' i(1) l True by cases (auto simp: pass_ok_def)
    qed
    with p' ts(2) have ok: "pass_ok b d'" by (simp add: pass_ok_def state_ok_def d')
    have "set_canonical env h i v d = Some (d', if e \<noteq> 0 then - ENOMEM else 0)"
      using a l True by (simp add: set_canonical_def)
    with ok show ?thesis by (auto simp: d' errno_defs)
  qed
qed

lemma unmapped_ids: "BTF_MAX_NR_TYPES < unat BTF_UNPROCESSED_ID" "BTF_MAX_NR_TYPES < unat BTF_IN_PROGRESS_ID"
proof -
  have e: "BTF_UNPROCESSED_ID = 0xffffffff" "BTF_IN_PROGRESS_ID = 0xfffffffe"
    unfolding BTF_UNPROCESSED_ID_def BTF_IN_PROGRESS_ID_def by simp_all
  show "BTF_MAX_NR_TYPES < unat BTF_UNPROCESSED_ID" "BTF_MAX_NR_TYPES < unat BTF_IN_PROGRESS_ID"
    unfolding e BTF_MAX_NR_TYPES_def by simp_all
qed

section \<open>Candidates\<close>

lemma first_cand_spec:
  assumes "\<And>c. c \<in> set cands \<Longrightarrow> unat c < btf__type_cnt b"
  shows "\<exists>v. first_cand same b cands i = Some v \<and> (v = i \<or> v \<in> set cands \<and> same (dgraph b v))"
  using assms
proof (induction cands)
  case (Cons c cands)
  have c: "btf__type_by_id b (unat c) = Some (dgraph b c)"
    using Cons.prems [of c] by (simp add: btf__type_by_id_def dgraph_def)
  show ?case
  proof (cases "same (dgraph b c)")
    case False
    from Cons have "\<exists>v. first_cand same b cands i = Some v \<and> (v = i \<or> v \<in> set cands \<and> same (dgraph b v))" by simp
    with False c show ?thesis by auto
  qed (simp add: c)
qed simp

lemma dedup_equal_spec:
  assumes p: "pass_ok b d" and g: "graph_ok b" and i: "unat i < btf__type_cnt b" "d_map d ! unat i \<noteq> i"
    and same: "\<And>v. unat v < btf__type_cnt b \<Longrightarrow> same (dgraph b v) \<Longrightarrow> dgraph b i = dgraph b v"
  shows "\<exists>d' r. dedup_equal env h same i d = Some (d', r) \<and> r \<le> 0 \<and> pass_ok b d' \<and>
    (\<exists>v. d_map d' = (d_map d)[unat i := v]) \<and> d_btf_ext d' = d_btf_ext d"
proof -
  have db: "d_btf d = b" using p by (simp add: pass_ok_def state_ok_def)
  obtain v where v: "first_cand same b (dedup_cands d h) i = Some v" "v = i \<or> v \<in> set (dedup_cands d h) \<and> same (dgraph b v)"
    using first_cand_spec [of "dedup_cands d h" b same i] pass_ok_cand(1) [OF p] by blast
  have "v = i \<or> v \<in> set (dedup_cands d h) \<and> similar (dgraph b) i v"
    using v(2) same pass_ok_cand(1) [OF p] by (auto intro: similar_eqI)
  from set_canonical_spec [OF p g i this, of env h] show ?thesis
    by (auto simp: dedup_equal_def db v(1))
qed

section \<open>A pass over the types\<close>

lemma each_type_rule:
  assumes "\<And>i is d. P (i # is) d \<Longrightarrow>
      \<exists>d' r. pass (of_nat i) d = Some (d', r) \<and> (if stop r then r < 0 \<and> Q d' else P is d')"
    and "P is d" "\<And>d. P [] d \<Longrightarrow> Q d"
  shows "\<exists>d' r. each_type stop pass is d = Some (d', r) \<and> r \<le> 0 \<and> Q d' \<and> (r = 0 \<longrightarrow> P [] d')"
  using assms(2)
proof (induction "is" arbitrary: d)
  case Nil
  then show ?case using assms(3) by simp
next
  case (Cons i "is")
  obtain d1 r1 where s: "pass (of_nat i) d = Some (d1, r1)" "if stop r1 then r1 < 0 \<and> Q d1 else P is d1"
    using assms(1) [OF Cons.prems] by blast
  show ?case
  proof (cases "stop r1")
    case True
    with s show ?thesis by auto
  next
    case False
    with s(2) have "P is d1" by simp
    from Cons.IH [OF this] False s(1) show ?thesis by simp
  qed
qed

section \<open>Primitive types\<close>

lemma enum_cands_first:
  assumes "no_fwd t" "\<And>c. c \<in> set cands \<Longrightarrow> unat c < btf__type_cnt b" "graph_ok b"
  shows "enum_cands b t i cands m = map_option (\<lambda>v. (m, v)) (first_cand (btf_equal_enum t) b cands i)"
  using assms(2)
proof (induction cands)
  case (Cons c cands)
  note c = graph_okD [OF assms(3), of c]
  have "btf_compat_enum t (dgraph b c) \<longleftrightarrow> btf_equal_enum t (dgraph b c)"
    using assms(1) c(1) Cons.prems by (simp add: btf_compat_enum_def no_fwd_def)
  with Cons c(4) show ?case by simp
qed simp

definition prim_kind :: "btf_kinds \<Rightarrow> bool" where
  "prim_kind k \<longleftrightarrow> k \<in> {BTF_KIND_INT, BTF_KIND_ENUM, BTF_KIND_ENUM64, BTF_KIND_FLOAT}"

lemma prim_type_spec:
  assumes p: "pass_ok b d" and g: "graph_ok b" and i: "unat i < btf__type_cnt b"
    and un: "prim_kind (btf_kind (dgraph b i)) \<Longrightarrow> d_map d ! unat i \<noteq> i"
  shows "\<exists>d' r. btf_dedup_prim_type env i d = Some (d', r) \<and> r \<le> 0 \<and> pass_ok b d' \<and>
    (d_map d' = d_map d \<or> prim_kind (btf_kind (dgraph b i)) \<and> (\<exists>v. d_map d' = (d_map d)[unat i := v])) \<and>
    d_btf_ext d' = d_btf_ext d"
proof -
  let ?t = "dgraph b i"
  have db: "d_btf d = b" using p by (simp add: pass_ok_def state_ok_def)
  note gi = graph_okD [OF g i]
  show ?thesis
  proof (cases "prim_kind (btf_kind ?t)")
    case False
    have "\<not> 0 < - EINVAL" by (simp add: EINVAL_def)
    with False gi(4,6) p show ?thesis
      by (cases "btf_kind ?t") (simp_all add: btf_dedup_prim_type_def db prim_kind_def)
  next
    case True
    note u = un [OF True]
    have ok: "type_ok ?t" by (rule graph_type_ok [OF g i]) (use True in \<open>auto simp: prim_kind_def\<close>)
    have okv: "type_ok (dgraph b v)" if "unat v < btf__type_cnt b" "btf_equal_common ?t (dgraph b v)" for v
      by (rule graph_type_ok [OF g that(1)]) (use True equal_common_kind [OF that(2)] in \<open>auto simp: prim_kind_def\<close>)
    have spec: "\<exists>d' r. dedup_equal env h same i d = Some (d', r) \<and> r \<le> 0 \<and> pass_ok b d' \<and>
        (\<exists>v. d_map d' = (d_map d)[unat i := v]) \<and> d_btf_ext d' = d_btf_ext d"
      if "\<And>v. same (dgraph b v) \<Longrightarrow> btf_equal_common ?t (dgraph b v)"
        "\<And>v. same (dgraph b v) \<Longrightarrow> type_ok (dgraph b v) \<Longrightarrow> ?t = dgraph b v" for h same
      by (rule dedup_equal_spec [OF p g i u]) (use that okv in blast)
    have int: "\<exists>d' r. dedup_equal env h (btf_equal_int_tag ?t) i d = Some (d', r) \<and> r \<le> 0 \<and> pass_ok b d' \<and>
        (\<exists>v. d_map d' = (d_map d)[unat i := v]) \<and> d_btf_ext d' = d_btf_ext d"
      if "btf_kind ?t = BTF_KIND_INT" for h
      by (rule spec) (use that equal_int_tag_iff [OF ok] in \<open>auto simp: btf_equal_int_tag_def\<close>)
    have enum: "\<exists>d' r. dedup_equal env h (btf_equal_enum ?t) i d = Some (d', r) \<and> r \<le> 0 \<and> pass_ok b d' \<and>
        (\<exists>v. d_map d' = (d_map d)[unat i := v]) \<and> d_btf_ext d' = d_btf_ext d"
      if "btf_kind ?t \<in> {BTF_KIND_ENUM, BTF_KIND_ENUM64}" for h
      by (rule spec) (use that equal_enum_iff [OF ok] in \<open>auto simp: btf_equal_enum_def\<close>)
    have float: "\<exists>d' r. dedup_equal env h (btf_equal_common ?t) i d = Some (d', r) \<and> r \<le> 0 \<and> pass_ok b d' \<and>
        (\<exists>v. d_map d' = (d_map d)[unat i := v]) \<and> d_btf_ext d' = d_btf_ext d"
      if "btf_kind ?t = BTF_KIND_FLOAT" for h
      by (rule spec) (use that equal_common_eq [OF _ ok _ prim_size] in auto)
    have de: "dedup_enum env ?t i d = dedup_equal env (btf_hash_enum ?t) (btf_equal_enum ?t) i d"
      using enum_cands_first [OF gi(1) pass_ok_cand(1) [OF p] g]
      by (simp add: dedup_enum_def dedup_equal_def db map_option_case split: option.splits)
    consider "btf_kind ?t = BTF_KIND_INT" | "btf_kind ?t \<in> {BTF_KIND_ENUM, BTF_KIND_ENUM64}" | "btf_kind ?t = BTF_KIND_FLOAT"
      using True by (auto simp: prim_kind_def)
    then show ?thesis
    proof cases
      case 1
      from int [OF 1, of "btf_hash_int_decl_tag ?t"] show ?thesis
        using 1 True gi(4) by (simp add: btf_dedup_prim_type_def db) blast
    next
      case 2
      then have "btf_dedup_prim_type env i d = dedup_enum env ?t i d"
        using gi(4) by (auto simp: btf_dedup_prim_type_def db)
      with enum [OF 2, of "btf_hash_enum ?t"] de True show ?thesis by simp blast
    next
      case 3
      from float [OF 3, of "btf_hash_common ?t"] show ?thesis
        using 3 True gi(4) by (simp add: btf_dedup_prim_type_def db) blast
    qed
  qed
qed

text \<open>Identifiers of a pass, as words.\<close>

lemma own_ids_word:
  assumes "graph_ok b" "i < btf__type_cnt b"
  shows "unat (of_nat i :: u32) = i"
  using assms by (intro unat_u32) (simp add: graph_ok_def BTF_MAX_NR_TYPES_def)

lemma own_ids_less: "d_btf d = b \<Longrightarrow> i \<in> set (own_ids d) \<Longrightarrow> i < btf__type_cnt b"
  by (cases b) (auto simp: own_ids_def btf__type_cnt_def)

lemma prim_types_spec:
  assumes p: "pass_ok b d" and g: "graph_ok b"
    and un: "\<And>i. unat i < btf__type_cnt b \<Longrightarrow> unat i \<in> set (own_ids d) \<Longrightarrow> prim_kind (btf_kind (dgraph b i)) \<Longrightarrow> d_map d ! unat i \<noteq> i"
  shows "\<exists>d' r. btf_dedup_prim_types env d = Some (d', r) \<and> r \<le> 0 \<and>
    (pass_ok b d' \<and> d_btf_ext d' = d_btf_ext d \<and>
     (\<forall>j. j \<notin> set (own_ids d) \<longrightarrow> d_map d' ! j = d_map d ! j) \<and>
     (\<forall>j. j < btf__type_cnt b \<longrightarrow> \<not> prim_kind (btf_kind (dgraph b (of_nat j))) \<longrightarrow> d_map d' ! j = d_map d ! j))"
proof -
  let ?n = "btf__type_cnt b"
  define Q where "Q d' \<longleftrightarrow> pass_ok b d' \<and> d_btf_ext d' = d_btf_ext d \<and>
     (\<forall>j. j \<notin> set (own_ids d) \<longrightarrow> d_map d' ! j = d_map d ! j) \<and>
     (\<forall>j<?n. \<not> prim_kind (btf_kind (dgraph b (of_nat j))) \<longrightarrow> d_map d' ! j = d_map d ! j)" for d'
  define P where "P is d' \<longleftrightarrow> Q d' \<and> distinct is \<and> set is \<subseteq> set (own_ids d) \<and>
     (\<forall>j\<in>set is. d_map d' ! j = d_map d ! j)" for "is" d'
  have db: "d_btf d = b" using p by (simp add: pass_ok_def state_ok_def)
  have "\<exists>d' r. btf_dedup_prim_types env d = Some (d', r) \<and> r \<le> 0 \<and> Q d' \<and> (r = 0 \<longrightarrow> P [] d')"
    unfolding btf_dedup_prim_types_def
  proof (rule each_type_rule)
    show "P (own_ids d) d" using p db by (auto simp: P_def Q_def own_ids_def split: list.splits)
  next
    fix i "is" d1 assume P: "P (i # is) d1"
    then have p1: "pass_ok b d1" and i: "i \<in> set (own_ids d)" by (simp_all add: P_def Q_def)
    have lt: "i < ?n" by (rule own_ids_less [OF db i])
    note wi = own_ids_word [OF g lt]
    have "\<exists>d' r. btf_dedup_prim_type env (of_nat i) d1 = Some (d', r) \<and> r \<le> 0 \<and> pass_ok b d' \<and>
        (d_map d' = d_map d1 \<or> prim_kind (btf_kind (dgraph b (of_nat i))) \<and> (\<exists>v. d_map d' = (d_map d1)[unat (of_nat i :: u32) := v])) \<and>
        d_btf_ext d' = d_btf_ext d1"
      by (rule prim_type_spec [OF p1 g]) (use P un [of "of_nat i"] i lt in \<open>simp_all add: wi P_def\<close>)
    then obtain d' r where s: "btf_dedup_prim_type env (of_nat i) d1 = Some (d', r)" "r \<le> 0" "pass_ok b d'"
      "d_map d' = d_map d1 \<or> prim_kind (btf_kind (dgraph b (of_nat i))) \<and> (\<exists>v. d_map d' = (d_map d1)[i := v])" "d_btf_ext d' = d_btf_ext d1"
      unfolding wi by blast
    have other: "d_map d' ! j = d_map d1 ! j" if "j \<noteq> i" for j using s(4) that by auto
    have np: "d_map d' ! j = d_map d1 ! j" if "\<not> prim_kind (btf_kind (dgraph b (of_nat j)))" for j
      using s(4) that by (cases "j = i") auto
    have "d_map d' ! j = d_map d ! j" if "j \<notin> set (own_ids d)" for j
      using other [of j] that i P by (cases "j = i") (auto simp: P_def Q_def)
    then have "Q d'" using P s(3,5) np by (simp add: P_def Q_def)
    moreover have "d_map d' ! j = d_map d ! j" if "j \<in> set is" for j
    proof -
      have "j \<noteq> i" using P that by (auto simp: P_def)
      with other [of j] P that show ?thesis by (simp add: P_def)
    qed
    then have "P is d'" using P \<open>Q d'\<close> by (simp add: P_def)
    ultimately show "\<exists>d' r. btf_dedup_prim_type env (of_nat i) d1 = Some (d', r) \<and> (if r \<noteq> 0 then r < 0 \<and> Q d' else P is d')"
      using s(1,2) by auto
  qed (simp add: P_def)
  then show ?thesis by (auto simp: Q_def)
qed

section \<open>Structs and unions\<close>

lemma clear_spec:
  assumes "hypot_wf n d"
  defines "d' \<equiv> btf_dedup_clear_hypot_map d"
  shows "hypot_wf n d'" "\<not> hmapped d' c"
proof -
  have l: "length (foldl (\<lambda>m i. m[unat i := BTF_UNPROCESSED_ID]) m is) = length m" for m :: "u32 list" and "is" :: "u32 list"
    by (induction "is" arbitrary: m) simp_all
  have nth: "foldl (\<lambda>m i. m[unat i := BTF_UNPROCESSED_ID]) m is ! j =
      (if j \<in> unat ` set is then BTF_UNPROCESSED_ID else m ! j)" if "j < length m" for m :: "u32 list" and "is" j
    using that by (induction "is" arbitrary: m) (auto simp: nth_list_update)
  have u: "\<not> unat BTF_UNPROCESSED_ID \<le> BTF_MAX_NR_TYPES" using unmapped_ids by simp
  have h: "\<not> hmapped d' c" for c
  proof
    assume m: "hmapped d' c"
    then have c: "unat c < length (hypot_map d)" by (simp add: hmapped_def d'_def btf_dedup_clear_hypot_map_def l)
    with m u have "unat c \<notin> unat ` set (hypot_list d)" "hmapped d c"
      by (auto simp: hmapped_def d'_def btf_dedup_clear_hypot_map_def l nth split: if_splits)
    with assms show False by (auto simp: hypot_wf_def)
  qed
  then show "\<not> hmapped d' c" by blast
  show "hypot_wf n d'"
    using assms(1) h by (simp add: hypot_wf_def) (simp add: d'_def btf_dedup_clear_hypot_map_def l)
qed

lemma clear_ok:
  assumes "pass_ok b d" shows "pass_ok b (btf_dedup_clear_hypot_map d)"
proof -
  have "hypot_wf (btf__type_cnt b) (btf_dedup_clear_hypot_map d)"
    using assms clear_spec(1) by (simp add: pass_ok_def state_ok_def)
  with assms show ?thesis
    by (simp add: pass_ok_def state_ok_def) (simp add: btf_dedup_clear_hypot_map_def table_wf_def table_ids_def)
qed

text \<open>Recording the hypothetical map.\<close>

lemma merge_spec:
  assumes g: "graph_ok b" and db: "d_btf d = b" and na: "\<not> hypot_adjust_canon d" and l: "length (hypot_map d) = btf__type_cnt b"
    and h: "\<And>c. c \<in> set is \<Longrightarrow> unat c < btf__type_cnt b \<and> unat (hypot_map d ! unat c) < btf__type_cnt b \<and>
      similar (dgraph b) (hypot_map d ! unat c) c"
    and f: "flat_map (similar (dgraph b)) (btf__type_cnt b) m"
  shows "\<exists>m'. merge_loop d is m = Some m' \<and> flat_map (similar (dgraph b)) (btf__type_cnt b) m' \<and> keeps_self m m' \<and>
    (\<forall>i. unat i < btf__type_cnt b \<longrightarrow> m ! unat i \<noteq> i \<longrightarrow> m' ! unat i \<noteq> i)"
  using h f
proof (induction "is" arbitrary: m)
  case (Cons c "is")
  let ?G = "dgraph b" and ?n = "btf__type_cnt b"
  note c = Cons.prems(1) [of c, simplified]
  let ?a = "hypot_map d ! unat c"
  let ?t = "canon m ?a" and ?c = "canon m c"
  note f = Cons.prems(2)
  note ra = sim.resolve_canon [OF f, of ?a] sim.canon_spec [OF f, of ?a] and rc = sim.resolve_canon [OF f, of c] sim.canon_spec [OF f, of c]
  have t: "unat ?t < ?n" "unat ?c < ?n" using ra(2) rc(2) c by simp_all
  note gt = graph_okD [OF g t(1)] and gc = graph_okD [OF g t(2)]
  have lm: "length m = ?n" using f by (simp add: flat_map_def)
  have sim: "similar ?G ?t ?c" using ra(3) rc(3) c similar_sym similar_trans by metis
  have ld: "ld m (unat ?t) = Some (m ! unat ?t)" "ld m (unat ?c) = Some (m ! unat ?c)" using t lm by simp_all
  let ?upd = "is_composite_kind (btf_kind (?G ?t)) \<and> unat (m ! unat ?c) \<le> BTF_MAX_NR_TYPES \<and> \<not> unat (m ! unat ?t) \<le> BTF_MAX_NR_TYPES"
  let ?m = "if ?upd then m[unat ?t := ?c] else m"
  have e: "merge_hypot d m c = Some ?m"
    using c t lm l na gt gc ra(1) rc(1) by (simp add: merge_hypot_def db is_type_mapped_def st_def)
  have m: "flat_map (similar ?G) ?n ?m \<and> keeps_self m ?m \<and> (\<forall>i. unat i < ?n \<longrightarrow> m ! unat i \<noteq> i \<longrightarrow> ?m ! unat i \<noteq> i)"
  proof (cases ?upd)
    case True
    have self: "m ! unat ?c = ?c" using rc(4) c True by simp
    have ne: "m ! unat ?t \<noteq> ?t" using True gt(3) by metis
    have "?t \<noteq> ?c" using ne self by metis
    have "flat_map (similar ?G) ?n (m[unat ?t := ?c])" by (rule sim.flat_map_to [OF f t(1) ne t(2) self sim])
    moreover have "keeps_self m (m[unat ?t := ?c])" by (rule keeps_self_update [OF ne])
    moreover have "(m[unat ?t := ?c]) ! unat i \<noteq> i" if "m ! unat i \<noteq> i" for i
      using that \<open>?t \<noteq> ?c\<close> t(1) lm by (cases "i = ?t") (auto simp: nth_list_update simp flip: word_unat_eq_iff)
    ultimately show ?thesis unfolding if_P [OF True] by blast
  next
    case False
    show ?thesis unfolding if_not_P [OF False] using f by simp
  qed
  have "\<exists>m'. merge_loop d is ?m = Some m' \<and> flat_map (similar ?G) ?n m' \<and> keeps_self ?m m' \<and>
    (\<forall>i. unat i < ?n \<longrightarrow> ?m ! unat i \<noteq> i \<longrightarrow> m' ! unat i \<noteq> i)"
    by (rule Cons.IH) (use Cons.prems(1) m in auto)
  then obtain m' where m': "merge_loop d is ?m = Some m'" "flat_map (similar ?G) ?n m'" "keeps_self ?m m'"
    "\<forall>i. unat i < ?n \<longrightarrow> ?m ! unat i \<noteq> i \<longrightarrow> m' ! unat i \<noteq> i" by blast
  have "merge_loop d (c # is) m = Some m'" using e m'(1) by simp
  moreover have "keeps_self m m'" using keeps_self_trans m m'(3) by blast
  ultimately show ?case using m m'(2,4) by blast
qed simp

lemma struct_cands_spec:
  assumes g: "graph_ok b" and i: "unat i < btf__type_cnt b" "d_map d ! unat i \<noteq> i"
    and t: "t = dgraph b i" "is_composite_kind (btf_kind t)"
    and p: "pass_ok b d" and c: "\<And>v. v \<in> set cands \<Longrightarrow> unat v < btf__type_cnt b \<and> d_map d ! unat v = v"
  shows "\<exists>d' r v. struct_cands re t i cands d = Some (d', r, v) \<and> r \<le> 0 \<and> pass_ok b d' \<and> d_map d' ! unat i \<noteq> i \<and>
    (v = i \<or> v \<in> set cands \<and> similar (dgraph b) i v) \<and> keeps_self (d_map d) (d_map d') \<and>
    table_ids d' = table_ids d \<and> dedup_table d' = dedup_table d \<and> d_btf_ext d' = d_btf_ext d"
  using p i(2) c
proof (induction cands arbitrary: d)
  case (Cons v cands)
  let ?G = "dgraph b" and ?n = "btf__type_cnt b"
  have db: "d_btf d = b" using Cons.prems(1) by (simp add: pass_ok_def state_ok_def)
  have v: "unat v < ?n" "d_map d ! unat v = v" using Cons.prems(3) by auto
  note gv = graph_okD [OF g v(1)]
  have IH: "\<exists>d' r w. struct_cands re t i cands d1 = Some (d', r, w) \<and> r \<le> 0 \<and> pass_ok b d' \<and> d_map d' ! unat i \<noteq> i \<and>
      (w = i \<or> w \<in> set cands \<and> similar ?G i w) \<and> keeps_self (d_map d1) (d_map d') \<and>
      table_ids d' = table_ids d1 \<and> dedup_table d' = dedup_table d1 \<and> d_btf_ext d' = d_btf_ext d1"
    if "pass_ok b d1" "d_map d1 = d_map d" for d1
    by (rule Cons.IH) (use that Cons.prems in auto)
  show ?case
  proof (cases "btf_shallow_equal_struct t (?G v)")
    case False
    from IH [OF Cons.prems(1) refl] False gv(4) show ?thesis by (simp add: db) blast
  next
    case True
    let ?d0 = "btf_dedup_clear_hypot_map d"
    have p0: "pass_ok b ?d0" by (rule clear_ok [OF Cons.prems(1)])
    have m0: "d_map ?d0 = d_map d" "dedup_table ?d0 = dedup_table d" "d_btf_ext ?d0 = d_btf_ext d"
      by (simp_all add: btf_dedup_clear_hypot_map_def)
    have nh: "\<not> hmapped ?d0 c" for c
      using clear_spec(2) [of ?n d] Cons.prems(1) by (simp add: pass_ok_def state_ok_def)
    have s0: "state_ok b ?d0" using p0 by (simp add: pass_ok_def)
    obtain d1 r where r: "btf_dedup_is_equiv re i v ?d0 = Some (d1, r)" "equiv_post b ?d0 i v (d1, r)"
      using is_equiv_spec [OF g s0 i(1) v(1), of re] by auto
    have e: "hextends ?d0 d1" "hypot_wf ?n d1" using r(2) by (simp_all add: equiv_post_def)
    note f1 = hextends_fields [OF e(1)]
    have p1: "pass_ok b d1"
      using p0 state_ok_extends [OF s0 e] f1 by (simp add: pass_ok_def table_wf_def table_ids_def)
    show ?thesis
    proof (cases "r \<le> 0")
      case True
      have mm: "d_map d1 = d_map d" "dedup_table d1 = dedup_table d" "d_btf_ext d1 = d_btf_ext d" using f1 m0 by simp_all
      show ?thesis
      proof (cases "r = 0")
        case True
        from IH [OF p1 mm(1)] True \<open>btf_shallow_equal_struct t (?G v)\<close> gv(4) r(1) mm show ?thesis
          by (simp add: db table_ids_def) blast
      next
        case False
        with \<open>r \<le> 0\<close> \<open>btf_shallow_equal_struct t (?G v)\<close> gv(4) r(1) p1 mm Cons.prems(2) show ?thesis
          by (simp add: db table_ids_def)
      qed
    next
      case False
      then have j: "justified ?G d1 i v" "new_closed b ?d0 d1" using r(2) by (simp_all add: equiv_post_def)
      have cl: "similar ?G (hypot_map d1 ! unat c) c" if "hmapped d1 c" for c
        by (rule closed_similar [OF _ that]) (use j(2) nh in \<open>simp add: new_closed_def\<close>)
      have sim: "similar ?G i v" using j(1) cl similar_trans unfolding justified_def by blast
      have hw: "hypot_wf ?n d1" by (rule e(2))
      have f: "flat_map (similar ?G) ?n (d_map d1)" "d_btf d1 = b" "\<not> hypot_adjust_canon d1" "length (hypot_map d1) = ?n"
        using p1 hw by (simp_all add: pass_ok_def state_ok_def hypot_wf_def)
      have hl: "unat c < ?n \<and> unat (hypot_map d1 ! unat c) < ?n \<and> similar ?G (hypot_map d1 ! unat c) c"
        if "c \<in> set (hypot_list d1)" for c
      proof -
        have "hmapped d1 c" using hw that by (simp add: hypot_wf_def)
        then show ?thesis using hw cl by (auto simp: hypot_wf_def hmapped_def)
      qed
      obtain m where m: "merge_loop d1 (hypot_list d1) (d_map d1) = Some m" "flat_map (similar ?G) ?n m"
        "keeps_self (d_map d1) m" "\<forall>i. unat i < ?n \<longrightarrow> d_map d1 ! unat i \<noteq> i \<longrightarrow> m ! unat i \<noteq> i"
        using merge_spec [OF g f(2-4) hl f(1)] by blast
      have "pass_ok b (d1\<lparr>d_map := m\<rparr>)" by (rule pass_ok_map [OF p1 m(2,3)])
      moreover have "m ! unat i \<noteq> i" using m(4) i(1) Cons.prems(2) f1(2) m0 by simp
      ultimately show ?thesis
        using False \<open>btf_shallow_equal_struct t (?G v)\<close> gv(4) r(1) m(1,3) f(3) sim f1 m0
        by (simp add: db btf_dedup_merge_hypot_map_def table_ids_def)
    qed
  qed
qed (use assms in auto)

lemma struct_type_spec:
  assumes p: "pass_ok b d" and g: "graph_ok b" and i: "unat i < btf__type_cnt b"
  shows "\<exists>d' r. btf_dedup_struct_type env i d = Some (d', r) \<and> r \<le> 0 \<and> pass_ok b d' \<and>
    keeps_self (d_map d) (d_map d') \<and> d_btf_ext d' = d_btf_ext d"
proof -
  let ?t = "dgraph b i" and ?n = "btf__type_cnt b"
  have db: "d_btf d = b" using p by (simp add: pass_ok_def state_ok_def)
  have l: "length (d_map d) = ?n" using p by (simp add: pass_ok_def state_ok_def flat_map_def)
  note gi = graph_okD [OF g i]
  show ?thesis
  proof (cases "unat (d_map d ! unat i) \<le> BTF_MAX_NR_TYPES \<or> \<not> is_composite_kind (btf_kind ?t)")
    case True
    then show ?thesis using p i l gi(4) by (auto simp: btf_dedup_struct_type_def is_type_mapped_def db)
  next
    case False
    then have ne: "d_map d ! unat i \<noteq> i" using gi(3) by metis
    have "\<exists>d' r v. struct_cands (hypot_ok env) ?t i (dedup_cands d (btf_hash_struct ?t)) d = Some (d', r, v) \<and> r \<le> 0 \<and> pass_ok b d' \<and>
      d_map d' ! unat i \<noteq> i \<and> (v = i \<or> v \<in> set (dedup_cands d (btf_hash_struct ?t)) \<and> similar (dgraph b) i v) \<and>
      keeps_self (d_map d) (d_map d') \<and> table_ids d' = table_ids d \<and> dedup_table d' = dedup_table d \<and> d_btf_ext d' = d_btf_ext d"
      by (rule struct_cands_spec [OF g i ne refl _ p]) (use False pass_ok_cand [OF p] in auto)
    then obtain d1 r v where s: "struct_cands (hypot_ok env) ?t i (dedup_cands d (btf_hash_struct ?t)) d = Some (d1, r, v)"
      "r \<le> 0" "pass_ok b d1" "d_map d1 ! unat i \<noteq> i" "v = i \<or> v \<in> set (dedup_cands d (btf_hash_struct ?t)) \<and> similar (dgraph b) i v"
      "keeps_self (d_map d) (d_map d1)" "dedup_table d1 = dedup_table d" "d_btf_ext d1 = d_btf_ext d" by blast
    have st: "btf_dedup_struct_type env i d =
        (if r < 0 then Some (d1, r) else set_canonical env (btf_hash_struct ?t) i v d1)"
      using False i l gi(4) s(1) by (simp add: btf_dedup_struct_type_def is_type_mapped_def db)
    have v: "v = i \<or> v \<in> set (dedup_cands d1 (btf_hash_struct ?t)) \<and> similar (dgraph b) i v"
      using s(5,7) by (simp add: dedup_cands_def)
    show ?thesis
    proof (cases "r < 0")
      case True
      with st s show ?thesis by simp
    next
      case False
      from set_canonical_spec [OF s(3) g i s(4) v, of env "btf_hash_struct ?t"] False st s(6,8)
        keeps_self_trans [OF s(6) keeps_self_update [OF s(4)]]
      show ?thesis by auto
    qed
  qed
qed

lemma struct_types_spec:
  assumes p: "pass_ok b d" and g: "graph_ok b"
  shows "\<exists>d' r. btf_dedup_struct_types env d = Some (d', r) \<and> r \<le> 0 \<and>
    (pass_ok b d' \<and> keeps_self (d_map d) (d_map d') \<and> d_btf_ext d' = d_btf_ext d)"
proof -
  define Q where "Q d' \<longleftrightarrow> pass_ok b d' \<and> keeps_self (d_map d) (d_map d') \<and> d_btf_ext d' = d_btf_ext d" for d'
  define P where "P is d' \<longleftrightarrow> Q d' \<and> set is \<subseteq> set (own_ids d)" for "is" d'
  have db: "d_btf d = b" using p by (simp add: pass_ok_def state_ok_def)
  have "\<exists>d' r. btf_dedup_struct_types env d = Some (d', r) \<and> r \<le> 0 \<and> Q d' \<and> (r = 0 \<longrightarrow> P [] d')"
    unfolding btf_dedup_struct_types_def
  proof (rule each_type_rule)
    fix i "is" d1 assume P: "P (i # is) d1"
    then have "pass_ok b d1" and i: "i < btf__type_cnt b" using own_ids_less [OF db] by (auto simp: P_def Q_def)
    from struct_type_spec [OF this(1) g, of "of_nat i" env] own_ids_word [OF g i] i obtain d' r where
      s: "btf_dedup_struct_type env (of_nat i) d1 = Some (d', r)" "r \<le> 0" "pass_ok b d'" "keeps_self (d_map d1) (d_map d')"
        "d_btf_ext d' = d_btf_ext d1" by auto
    then have "Q d'" using P keeps_self_trans by (auto simp: P_def Q_def)
    with s(1,2) P show "\<exists>d' r. btf_dedup_struct_type env (of_nat i) d1 = Some (d', r) \<and> (if r \<noteq> 0 then r < 0 \<and> Q d' else P is d')"
      by (auto simp: P_def)
  qed (use p in \<open>simp_all add: P_def Q_def\<close>)
  then show ?thesis by (auto simp: Q_def)
qed

section \<open>Forward declarations\<close>

lemma fill_names_total:
  "set is \<subseteq> {..<length (d_map d)} \<Longrightarrow> fill_names env d is names \<noteq> None"
  by (induction "is" arbitrary: names) (auto simp: Let_def split: prod.splits)

text \<open>Without forward declarations the pass changes nothing.\<close>

lemma resolve_fwds_spec:
  assumes p: "pass_ok b d" and g: "graph_ok b"
  shows "\<exists>r. btf_dedup_resolve_fwds env d = Some (d, r) \<and> r \<le> 0"
proof -
  have db: "d_btf d = b" and l: "length (d_map d) = btf__type_cnt b"
    using p by (simp_all add: pass_ok_def state_ok_def flat_map_def)
  have "set [1..<btf__type_cnt b] \<subseteq> {..<length (d_map d)}" using l by auto
  from fill_names_total [OF this] obtain names e where f: "btf_dedup_fill_unique_names_map env d (hashmap_init identity_hash_fn (=)) = Some (names, e)"
    unfolding btf_dedup_fill_unique_names_map_def db by (metis not_None_eq prod.exhaust)
  have "\<exists>d' r. each_type (\<lambda>err. err < 0) (btf_dedup_resolve_fwd names) (own_ids d) d = Some (d', r) \<and> r \<le> 0 \<and> d' = d \<and>
      (r = 0 \<longrightarrow> d' = d \<and> set [] \<subseteq> set (own_ids d))"
  proof (rule each_type_rule [where P = "\<lambda>is d'. d' = d \<and> set is \<subseteq> set (own_ids d)" and Q = "\<lambda>d'. d' = d"])
    fix i "is" d1 assume P: "d1 = d \<and> set (i # is) \<subseteq> set (own_ids d)"
    then have i: "i < btf__type_cnt b" using own_ids_less [OF db] by auto
    note gi = graph_okD [OF g, of "of_nat i", unfolded own_ids_word [OF g i], OF i]
    from P gi(4,5) show "\<exists>d' r. btf_dedup_resolve_fwd names (of_nat i) d1 = Some (d', r) \<and>
        (if r < 0 then r < 0 \<and> d' = d else d' = d \<and> set is \<subseteq> set (own_ids d))"
      by (simp add: btf_dedup_resolve_fwd_def db own_ids_word [OF g i])
  qed simp_all
  with f show ?thesis by (auto simp: btf_dedup_resolve_fwds_def errno_defs)
qed

end
