(* ===== verification/Dedup_Start.thy ===== *)
theory Dedup_Start
  imports Dedup_Passes
begin

text \<open>The state deduplication starts with, and the pass over the types of the base.\<close>

text \<open>Before the passes over the object's own types, nothing is mapped but to itself.\<close>

definition start_ok :: "nat \<Rightarrow> btf_dedup \<Rightarrow> bool" where
  "start_ok n d \<longleftrightarrow>
     length (d_map d) = n \<and>
     (\<forall>i. unat i < n \<longrightarrow> unat (d_map d ! unat i) > BTF_MAX_NR_TYPES \<or> d_map d ! unat i = i) \<and>
     hypot_wf n d \<and> table_wf d \<and> \<not> hypot_adjust_canon d \<and>
     (\<forall>(h, v)\<in>table_ids d. unat v < n \<and> d_map d ! unat v = v)"

lemma start_pass_ok:
  assumes "start_ok (btf__type_cnt b) d" "d_btf d = b" shows "pass_ok b d"
proof -
  have "flat_map (similar (dgraph b)) (btf__type_cnt b) (d_map d)"
    unfolding flat_map_def
  proof (intro conjI allI impI)
    fix i :: u32 assume i: "unat i < btf__type_cnt b \<and> unat (d_map d ! unat i) \<le> BTF_MAX_NR_TYPES"
    then have "d_map d ! unat i = i" using assms(1) unfolding start_ok_def by (meson linorder_not_less)
    with i show "unat (d_map d ! unat i) < btf__type_cnt b" "d_map d ! unat (d_map d ! unat i) = d_map d ! unat i"
      "similar (dgraph b) i (d_map d ! unat i)" by simp_all
  qed (use assms in \<open>simp add: start_ok_def\<close>)
  with assms show ?thesis by (simp add: pass_ok_def start_ok_def state_ok_def)
qed

lemma start_ok_btf [simp]: "start_ok n (d\<lparr>d_btf := b\<rparr>) = start_ok n d"
  by (simp add: start_ok_def hypot_wf_def hmapped_def table_wf_def table_ids_def)

lemma dedup_new_spec:
  assumes "btf_dedup_new env b opts = Inr d" "btf__type_cnt b \<le> 2 ^ 32" "0 < btf__type_cnt b"
  shows "start_ok (btf__type_cnt b) d" "d_btf d = b" "d_map d ! 0 = 0"
    "d_btf_ext d = (case opts of None \<Rightarrow> None | Some o' \<Rightarrow> opts_btf_ext o')"
    "\<And>i. 0 < i \<Longrightarrow> i < btf__type_cnt b \<Longrightarrow> d_map d ! i = (let t = btf_type_by_id b i in
       if btf_is_var t \<or> btf_is_datasec t then of_nat i else BTF_UNPROCESSED_ID)"
proof -
  let ?n = "btf__type_cnt b"
  obtain hash where d: "dedup_table d = hashmap_init hash (=)" "d_btf d = b"
    "d_btf_ext d = (case opts of None \<Rightarrow> None | Some o' \<Rightarrow> opts_btf_ext o')"
    "d_map d = 0 # map (\<lambda>i. let t = btf_type_by_id b i in
             if btf_is_var t \<or> btf_is_datasec t then of_nat i else BTF_UNPROCESSED_ID) [1..<?n]"
    "hypot_map d = replicate ?n BTF_UNPROCESSED_ID" "hypot_list d = []" "\<not> hypot_adjust_canon d"
    using assms(1) by (auto simp: btf_dedup_new_def Let_def split: if_splits)
  then show "d_btf d = b" "d_btf_ext d = (case opts of None \<Rightarrow> None | Some o' \<Rightarrow> opts_btf_ext o')" "d_map d ! 0 = 0" by simp_all
  show nth: "d_map d ! i = (let t = btf_type_by_id b i in
       if btf_is_var t \<or> btf_is_datasec t then of_nat i else BTF_UNPROCESSED_ID)" if "0 < i" "i < ?n" for i
    using that by (cases i) (simp_all add: d(4))
  have "unat (d_map d ! unat i) > BTF_MAX_NR_TYPES \<or> d_map d ! unat i = i" if "unat i < ?n" for i
  proof (cases "i = 0")
    case True
    then show ?thesis by (simp add: d(4))
  next
    case False
    then have "0 < unat i" by (simp add: unat_gt_0)
    with nth [OF this that] unmapped_ids(1) show ?thesis by (auto simp: Let_def)
  qed
  moreover have "hypot_wf ?n d" using unmapped_ids(1) by (auto simp: hypot_wf_def hmapped_def d)
  moreover have "table_wf d" using hashmap_init_ok by (simp add: table_wf_def d) (simp add: hashmap_init_def)
  moreover have "table_ids d = {}" by (simp add: table_ids_def d hashmap_entries_def hashmap_init_def)
  moreover have "length (d_map d) = ?n" using assms(3) by (simp add: d(4))
  ultimately show "start_ok ?n d" using d(7) by (simp add: start_ok_def)
qed

section \<open>The types of the base\<close>

lemma start_self:
  assumes s: "start_ok n d" and i: "unat i < n"
  shows "start_ok n (d\<lparr>d_map := (d_map d)[unat i := i]\<rparr>)"
proof -
  have "(d_map d)[unat i := i] ! unat j = (if j = i then i else d_map d ! unat j)" for j
    using s i by (auto simp: start_ok_def nth_list_update simp flip: word_unat_eq_iff)
  with s show ?thesis by (auto simp: start_ok_def)
qed

lemma start_table_add:
  assumes s: "start_ok n d" and i: "unat i < n" "d_map d ! unat i = i"
    and a: "btf_dedup_table_add al h i d = (d', e)"
  shows "start_ok n d'" "d_map d' = d_map d" "d_btf d' = d_btf d" "d_btf_ext d' = d_btf_ext d"
proof -
  have w: "table_wf d" using s by (simp add: start_ok_def)
  note ts = table_add_spec [OF w a]
  obtain t where d': "d' = d\<lparr>dedup_table := t\<rparr>" using ts(1) by metis
  have "table_ids d' \<subseteq> insert (h, i) (table_ids d)" using ts(3) by (simp split: if_splits) blast
  then have "\<forall>(h, v)\<in>table_ids d'. unat v < n \<and> d_map d ! unat v = v" using s i by (auto simp: start_ok_def)
  with s ts(2) show "start_ok n d'" by (simp add: start_ok_def d')
  show "d_map d' = d_map d" "d_btf d' = d_btf d" "d_btf_ext d' = d_btf_ext d" by (simp_all add: d')
qed

lemma prep_loop_spec:
  assumes "start_ok n d" "n \<le> 2 ^ 32" "\<forall>i\<in>set is. i < n" "prep_loop env is d = (d', r)"
  shows "start_ok n d' \<and> r \<le> 0 \<and> d_btf d' = d_btf d \<and> d_btf_ext d' = d_btf_ext d \<and>
    (\<forall>j. j \<notin> set is \<longrightarrow> d_map d' ! j = d_map d ! j) \<and>
    (r = 0 \<longrightarrow> (\<forall>j\<in>set is. d_map d' ! j = of_nat j))"
  using assms(1,3,4)
proof (induction "is" arbitrary: d)
  case (Cons i "is")
  let ?i = "of_nat i :: u32" and ?d = "d\<lparr>d_map := (d_map d)[i := of_nat i]\<rparr>"
  have i: "unat ?i = i" "i < n" using Cons.prems(2) assms(2) by (simp_all add: unat_u32)
  have l: "length (d_map d) = n" using Cons.prems(1) by (simp add: start_ok_def)
  have s: "start_ok n ?d" using start_self [OF Cons.prems(1), of ?i] i by simp
  have rest: "start_ok n d' \<and> r \<le> 0 \<and> d_btf d' = d_btf d \<and> d_btf_ext d' = d_btf_ext d \<and>
      (\<forall>j. j \<notin> set (i # is) \<longrightarrow> d_map d' ! j = d_map d ! j) \<and>
      (r = 0 \<longrightarrow> (\<forall>j\<in>set (i # is). d_map d' ! j = of_nat j))"
    if "prep_loop env is d1 = (d', r)" "start_ok n d1" "d_map d1 = d_map ?d" "d_btf d1 = d_btf d" "d_btf_ext d1 = d_btf_ext d" for d1
  proof -
    note IH = Cons.IH [OF that(2) _ that(1)]
    have IH: "start_ok n d'" "r \<le> 0" "d_btf d' = d_btf d" "d_btf_ext d' = d_btf_ext d"
      "\<And>j. j \<notin> set is \<Longrightarrow> d_map d' ! j = d_map ?d ! j" "r = 0 \<Longrightarrow> j \<in> set is \<Longrightarrow> d_map d' ! j = of_nat j" for j
      using IH Cons.prems(2) that(3-5) by simp_all
    have "d_map d' ! i = of_nat i" if "r = 0"
      using IH(5) [of i] IH(6) [OF that, of i] i(2) l by (cases "i \<in> set is") simp_all
    with IH show ?thesis by auto
  qed
  have add: "start_ok n d' \<and> r \<le> 0 \<and> d_btf d' = d_btf d \<and> d_btf_ext d' = d_btf_ext d \<and>
      (\<forall>j. j \<notin> set (i # is) \<longrightarrow> d_map d' ! j = d_map d ! j) \<and>
      (r = 0 \<longrightarrow> (\<forall>j\<in>set (i # is). d_map d' ! j = of_nat j))"
    if "(case btf_dedup_table_add (table_al env ?i) h ?i ?d of
      (d, err) \<Rightarrow> if err \<noteq> 0 then (d, - ENOMEM) else prep_loop env is d) = (d', r)" for h
  proof -
    obtain d1 e where a: "btf_dedup_table_add (table_al env ?i) h ?i ?d = (d1, e)" by fastforce
    have "d_map ?d ! unat ?i = ?i" using i l by simp
    note t = start_table_add [OF s _ this a]
    show ?thesis
    proof (cases "e = 0")
      case True
      with that a have "prep_loop env is d1 = (d', r)" by simp
      from rest [OF this] t i show ?thesis by simp
    next
      case False
      with that a have "d' = d1" "r = - ENOMEM" by simp_all
      with t i show ?thesis by (simp add: errno_defs)
    qed
  qed
  have err: "start_ok n d' \<and> r \<le> 0 \<and> d_btf d' = d_btf d \<and> d_btf_ext d' = d_btf_ext d \<and>
      (\<forall>j. j \<notin> set (i # is) \<longrightarrow> d_map d' ! j = d_map d ! j) \<and>
      (r = 0 \<longrightarrow> (\<forall>j\<in>set (i # is). d_map d' ! j = of_nat j))" if "(?d, - EINVAL) = (d', r)"
  proof -
    from that have "d' = ?d" "r = - EINVAL" by simp_all
    with s show ?thesis by (simp add: EINVAL_def)
  qed
  have skip: "start_ok n d' \<and> r \<le> 0 \<and> d_btf d' = d_btf d \<and> d_btf_ext d' = d_btf_ext d \<and>
      (\<forall>j. j \<notin> set (i # is) \<longrightarrow> d_map d' ! j = d_map d ! j) \<and>
      (r = 0 \<longrightarrow> (\<forall>j\<in>set (i # is). d_map d' ! j = of_nat j))" if "prep_loop env is ?d = (d', r)"
    by (rule rest [OF that s]) simp_all
  from Cons.prems(3) consider "prep_loop env is ?d = (d', r)" | "(?d, - EINVAL) = (d', r)"
    | h where "(case btf_dedup_table_add (table_al env ?i) h ?i ?d of
        (d, err) \<Rightarrow> if err \<noteq> 0 then (d, - ENOMEM) else prep_loop env is d) = (d', r)"
    by (cases "btf_kind (btf_type_by_id (d_btf d) i)") (simp_all add: Let_def)
  then show ?case
  proof cases
    case 1
    then show ?thesis by (rule skip)
  next
    case 2
    then show ?thesis by (rule err)
  next
    case 3
    then show ?thesis by (rule add)
  qed
qed auto

lemma prep_spec:
  assumes "start_ok (btf__type_cnt b) d" "d_btf d = b" "btf__type_cnt b \<le> 2 ^ 32" "b \<noteq> []" "btf_chain b"
    and "d_map d ! 0 = 0" "btf_dedup_prep env d = (d', r)"
  shows "start_ok (btf__type_cnt b) d'" "r \<le> 0" "d_btf d' = b" "d_btf_ext d' = d_btf_ext d"
    "\<And>j. start_id (hd b) \<le> j \<Longrightarrow> d_map d' ! j = d_map d ! j"
    "\<And>j. r = 0 \<Longrightarrow> j < start_id (hd b) \<Longrightarrow> d_map d' ! j = of_nat j"
proof -
  obtain btf base where b: "b = btf # base" using assms(4) by (cases b) auto
  have sid: "start_id btf = btf__type_cnt base" using assms(5) by (simp add: b)
  have "start_ok (btf__type_cnt b) d' \<and> r \<le> 0 \<and> d_btf d' = b \<and> d_btf_ext d' = d_btf_ext d \<and>
    (\<forall>j. start_id (hd b) \<le> j \<longrightarrow> d_map d' ! j = d_map d ! j) \<and>
    (r = 0 \<longrightarrow> (\<forall>j. j < start_id (hd b) \<longrightarrow> d_map d' ! j = of_nat j))"
  proof (cases base)
    case Nil
    with assms(1,2,6,7) sid show ?thesis by (auto simp: b btf_dedup_prep_def btf__type_cnt_def)
  next
    case (Cons x xs)
    then have p: "prep_loop env [1..<start_id btf] d = (d', r)" using assms(2,7) by (simp add: b btf_dedup_prep_def)
    have "\<forall>i\<in>set [1..<start_id btf]. i < btf__type_cnt b" by (simp add: b btf__type_cnt_def)
    from prep_loop_spec [OF assms(1,3) this p] assms(2) have q: "start_ok (btf__type_cnt b) d'" "r \<le> 0" "d_btf d' = b"
      "d_btf_ext d' = d_btf_ext d" "\<And>j. j \<notin> {1..<start_id btf} \<Longrightarrow> d_map d' ! j = d_map d ! j"
      "\<And>j. r = 0 \<Longrightarrow> j \<in> {1..<start_id btf} \<Longrightarrow> d_map d' ! j = of_nat j" by simp_all
    have "d_map d' ! j = of_nat j" if "r = 0" "j < start_id btf" for j
      using q(5) [of j] q(6) [of j] that assms(6) by (cases "j = 0") auto
    with q show ?thesis by (simp add: b)
  qed
  then show "start_ok (btf__type_cnt b) d'" "r \<le> 0" "d_btf d' = b" "d_btf_ext d' = d_btf_ext d"
    "\<And>j. start_id (hd b) \<le> j \<Longrightarrow> d_map d' ! j = d_map d ! j"
    "\<And>j. r = 0 \<Longrightarrow> j < start_id (hd b) \<Longrightarrow> d_map d' ! j = of_nat j" by blast+
qed

end
