(* ===== verification/Dedup_Words.thy ===== *)
theory Dedup_Words
  imports Dedup_Graph
begin

text \<open>
  The types of an object as words of its type region: the effect of rewriting single words, and of a
  traversal of all types.
\<close>

section \<open>Words of the types in a region\<close>

lemma type_words_at:
  assumes "btf_type_size (type_hdr_at d p) = Some n" "j < n div 4"
  shows "type_words (type_at d p) ! j = get32 d (p + 4 * j)"
  using assms by (simp add: words_type_at)

lemma type_at_eqI:
  assumes s: "btf_type_size (type_hdr_at d p) = Some n"
    and w: "\<And>j. j < n div 4 \<Longrightarrow> get32 d' (p' + 4 * j) = get32 d (p + 4 * j)"
  shows "btf_type_size (type_hdr_at d' p') = Some n" "type_at d' p' = type_at d p"
proof -
  have n: "12 \<le> n" by (rule btf_type_size_ge [OF s])
  then have "1 < n div 4" by simp
  with w [of 1] have "info (type_hdr_at d' p') = info (type_hdr_at d p)" by (simp add: type_hdr_at_def)
  then show s': "btf_type_size (type_hdr_at d' p') = Some n" using kind_cong(6) s by metis
  have "words_at d' p' (n div 4) = words_at d p (n div 4)" using w by (simp add: words_at_def)
  then show "type_at d' p' = type_at d p"
    by (simp add: words_type_at [OF s] words_type_at [OF s'] flip: words_eq_iff)
qed

lemma types_from_dvd: "types_from d endt offs p \<Longrightarrow> 4 dvd p \<Longrightarrow> off \<in> set offs \<Longrightarrow> 4 dvd off"
  by (induction offs arbitrary: p) (auto simp: types_from_Cons_iff)

lemma types_from_apart:
  assumes "types_from d endt offs p" "i < k" "k < length offs" "btf_type_size (type_hdr_at d (offs ! i)) = Some n"
  shows "offs ! i + n \<le> offs ! k"
  using assms
proof (induction offs arbitrary: p i k)
  case (Cons off offs)
  then obtain m where m: "off = p" "btf_type_size (type_hdr_at d p) = Some m" "types_from d endt offs (p + m)"
    by (auto simp: types_from_Cons_iff)
  show ?case
  proof (cases i)
    case 0
    with Cons.prems m have "n = m" "k - 1 < length offs" by auto
    with types_from_nth [OF m(3), of "k - 1"] 0 Cons.prems(2) m(1) show ?thesis by auto
  next
    case (Suc i')
    with Cons.IH [OF m(3), of i' "k - 1"] Cons.prems show ?thesis by (cases k) auto
  qed
qed simp

text \<open>Two words of types of a region are the same word or do not overlap.\<close>

lemma words_apart:
  assumes t: "types_from d endt offs 0" and i: "i < length offs" "btf_type_size (type_hdr_at d (offs ! i)) = Some n" "j < n div 4"
    and k: "k < length offs" "btf_type_size (type_hdr_at d (offs ! k)) = Some m" "l < m div 4"
    and ne: "(i, j) \<noteq> (k, l)"
  shows "offs ! i + 4 * j + 4 \<le> offs ! k + 4 * l \<or> offs ! k + 4 * l + 4 \<le> offs ! i + 4 * j"
proof -
  have dv: "4 dvd offs ! i" "4 dvd offs ! k" using types_from_dvd [OF t] i(1) k(1) by simp_all
  then obtain a c where ac: "offs ! i = 4 * a" "offs ! k = 4 * c" by (auto elim!: dvdE)
  have "a + j \<noteq> c + l"
  proof (cases i k rule: linorder_cases)
    case less
    with types_from_apart [OF t less k(1) i(2)] i(3) ac show ?thesis by linarith
  next
    case greater
    with types_from_apart [OF t greater i(1) k(2)] k(3) ac show ?thesis by linarith
  next
    case equal
    with ne ac show ?thesis by simp
  qed
  then show ?thesis by (simp add: ac) linarith
qed

lemma types_from_info:
  assumes "types_from d endt offs p" "\<And>off. off \<in> set offs \<Longrightarrow> get32 d' (off + 4) = get32 d (off + 4)"
  shows "types_from d' endt offs p"
  using assms
proof (induction offs arbitrary: p)
  case (Cons off offs)
  have "info (type_hdr_at d' off) = info (type_hdr_at d off)" using Cons.prems(2) [of off] by (simp add: type_hdr_at_def)
  from kind_cong(6) [OF this] Cons show ?case by (auto simp: types_from_Cons_iff)
qed simp

section \<open>Rewriting one word\<close>

lemma set_word:
  fixes w :: u32
  assumes t: "types_from d endt offs 0" "endt \<le> length d" and i: "i < length offs"
    and j: "btf_type_size (type_hdr_at d (offs ! i)) = Some n" "j < n div 4" "j \<noteq> 1"
  defines "d' \<equiv> put32 d (offs ! i + 4 * j) w"
  shows "types_from d' endt offs 0" "length d' = length d"
    "\<And>k. k < length offs \<Longrightarrow> k \<noteq> i \<Longrightarrow> type_at d' (offs ! k) = type_at d (offs ! k)"
    "type_words (type_at d' (offs ! i)) = (type_words (type_at d (offs ! i)))[j := w]"
    "btf_type_size (type_hdr_at d' (offs ! i)) = Some n"
proof -
  have le: "offs ! i + n \<le> endt" using types_from_nth [OF t(1) i] j(1) by auto
  then have pos: "offs ! i + 4 * j + 4 \<le> length d" using j(2) t(2) by linarith
  then show l: "length d' = length d" by (simp add: d'_def)
  have other: "get32 d' (offs ! k + 4 * l) = get32 d (offs ! k + 4 * l)"
    if k: "k < length offs" "btf_type_size (type_hdr_at d (offs ! k)) = Some m" "l < m div 4" "(i, j) \<noteq> (k, l)" for k l m
  proof -
    have "offs ! k + m \<le> endt" using types_from_nth [OF t(1) k(1)] k(2) by auto
    then have "offs ! k + 4 * l + 4 \<le> length d" using k(3) t(2) by linarith
    with words_apart [OF t(1) i j(1,2) k(1-3) k(4)] pos show ?thesis
      unfolding d'_def by (intro get32_put32_other) auto
  qed
  have size: "\<exists>m. btf_type_size (type_hdr_at d (offs ! k)) = Some m \<and> 12 \<le> m" if "k < length offs" for k
    using types_from_nth [OF t(1) that] btf_type_size_ge by blast
  have info: "get32 d' (offs ! k + 4) = get32 d (offs ! k + 4)" if k: "k < length offs" for k
  proof -
    obtain m where m: "btf_type_size (type_hdr_at d (offs ! k)) = Some m" "12 \<le> m" using size [OF k] by blast
    from other [OF k m(1), of 1] m(2) j(3) show ?thesis by simp
  qed
  show "types_from d' endt offs 0"
    by (rule types_from_info [OF t(1)]) (use info in \<open>auto simp: in_set_conv_nth\<close>)
  show "type_at d' (offs ! k) = type_at d (offs ! k)" if k: "k < length offs" "k \<noteq> i" for k
  proof -
    obtain m where m: "btf_type_size (type_hdr_at d (offs ! k)) = Some m" using size [OF k(1)] by blast
    show ?thesis by (rule type_at_eqI(2) [OF m]) (use other [OF k(1) m] k(2) in auto)
  qed
  have "info (type_hdr_at d' (offs ! i)) = info (type_hdr_at d (offs ! i))" using info [OF i] by (simp add: type_hdr_at_def)
  from kind_cong(6) [OF this] j(1) show s': "btf_type_size (type_hdr_at d' (offs ! i)) = Some n" by simp
  show "type_words (type_at d' (offs ! i)) = (type_words (type_at d (offs ! i)))[j := w]"
  proof (rule nth_equalityI)
    show "length (type_words (type_at d' (offs ! i))) = length ((type_words (type_at d (offs ! i)))[j := w])"
      by (simp add: words_type_at [OF s'] words_type_at [OF j(1)] del: type_words_rest)
    fix l assume "l < length (type_words (type_at d' (offs ! i)))"
    then have l: "l < n div 4" by (simp add: words_type_at [OF s'] del: type_words_rest)
    show "type_words (type_at d' (offs ! i)) ! l = (type_words (type_at d (offs ! i)))[j := w] ! l"
    proof (cases "l = j")
      case True
      have "get32 d' (offs ! i + 4 * j) = w" unfolding d'_def by (rule get32_put32 [OF pos])
      with True l show ?thesis by (simp add: words_type_at [OF s'] words_type_at [OF j(1)] del: type_words_rest)
    next
      case False
      with l other [OF i j(1) l] show ?thesis by (simp add: words_type_at [OF s'] words_type_at [OF j(1)] del: type_words_rest)
    qed
  qed
qed

section \<open>Traversing all types\<close>

text \<open>\<open>go\<close> traverses one type, \<open>js\<close> gives the words it visits, which depend on the second word of the type only.\<close>

locale type_visitor = visitor visit inv extends rel
  for visit :: "u32 \<Rightarrow> 'c \<Rightarrow> (u32 \<times> 'c \<times> int) option" and inv extends rel +
  fixes go :: "u8 list \<Rightarrow> nat \<Rightarrow> 'c \<Rightarrow> (u8 list \<times> 'c \<times> int) option" and js :: "btf_type \<Rightarrow> nat list"
  assumes go_words: "btf_type_size (type_hdr_at d p) = Some n \<Longrightarrow>
      go d p c = visit_words (\<lambda>err. err \<noteq> 0) visit (offs_of p (js (type_hdr_at d p))) d c"
    and js_cong: "info t = info t' \<Longrightarrow> js t = js t'"
    and js_bounds: "btf_type_size t = Some n \<Longrightarrow> \<forall>j\<in>set (js t). 4 * j + 4 \<le> n \<and> j \<noteq> 1"
    and js_sorted: "btf_type_size t = Some n \<Longrightarrow> sorted_wrt (<) (js t)"
begin

lemma visit_types_spec:
  assumes "visit_types go offs d c = Some (d', c', r)"
    and "inv c" "types_from d endt offs q" "endt \<le> length d"
  shows "length d' = length d \<and> inv c' \<and> extends c c' \<and> r \<le> 0 \<and> take q d' = take q d \<and>
    (\<forall>off\<in>set offs. \<forall>n. btf_type_size (type_hdr_at d off) = Some n \<longrightarrow>
       (\<forall>j<n div 4. j \<notin> set (js (type_hdr_at d off)) \<longrightarrow> get32 d' (off + 4 * j) = get32 d (off + 4 * j)) \<and>
       (r = 0 \<longrightarrow> (\<forall>j\<in>set (js (type_hdr_at d off)). rel c' (get32 d (off + 4 * j)) (get32 d' (off + 4 * j)))))"
  using assms
proof (induction offs arbitrary: d c q)
  case Nil
  then show ?case by (simp add: extends_refl)
next
  case (Cons p offs)
  obtain n where n: "p = q" "btf_type_size (type_hdr_at d p) = Some n" "p + n \<le> endt" "types_from d endt offs (p + n)"
    using Cons.prems(3) by (auto simp: types_from_Cons_iff)
  let ?js = "js (type_hdr_at d p)"
  obtain d1 c1 r1 where v: "visit_words (\<lambda>err. err \<noteq> 0) visit (offs_of p ?js) d c = Some (d1, c1, r1)"
    "if r1 \<noteq> 0 then (d', c', r) = (d1, c1, r1) else
      visit_types go offs d1 c1 = Some (d', c', r)"
    using Cons.prems(1) by (auto simp: go_words [OF n(2)] Option.bind_eq_Some_conv split: if_splits)
  have b: "\<forall>j\<in>set ?js. 4 * j + 4 \<le> n" "1 \<notin> set ?js" using js_bounds [OF n(2)] by auto
  have pn: "p + n \<le> length d" using n(3) Cons.prems(4) by simp
  note ob = offs_of_bounds [OF js_sorted [OF n(2)] b(1) pn]
  note sp = visit_words_spec [OF v(1) Cons.prems(2) ob(1,2)]
  have s: "length d1 = length d" "inv c1" "extends c c1" "r1 \<le> 0" "take p d1 = take p d" "drop (p + n) d1 = drop (p + n) d"
    "r1 = 0 \<Longrightarrow> j \<in> set ?js \<Longrightarrow> rel c1 (get32 d (p + 4 * j)) (get32 d1 (p + 4 * j))"
    "j < n div 4 \<Longrightarrow> j \<notin> set ?js \<Longrightarrow> get32 d1 (p + 4 * j) = get32 d (p + 4 * j)" for j
    using sp ob(3) word_apart [of j ?js p] pn by (auto simp: offs_of_def)
  have after: "get32 d1 k = get32 d k" if "p + n \<le> k" "k + 4 \<le> length d" for k
    by (rule get32_drop_cong [OF s(6)]) (use that s(1) in simp_all)
  have in_offs: "p + n \<le> off \<and> off + m \<le> endt \<and> 12 \<le> m"
    if "off \<in> set offs" "btf_type_size (type_hdr_at d off) = Some m" for off m
  proof -
    obtain k where "k < length offs" "off = offs ! k" using \<open>off \<in> set offs\<close> by (metis in_set_conv_nth)
    with types_from_nth [OF n(4), of k] that(2) btf_type_size_ge [OF that(2)] show ?thesis by auto
  qed
  have words1: "get32 d1 (off + 4 * j) = get32 d (off + 4 * j)"
    if "off \<in> set offs" "btf_type_size (type_hdr_at d off) = Some m" "j < m div 4" for off m j
  proof -
    from in_offs [OF that(1,2)] that(3) Cons.prems(4) have "p + n \<le> off + 4 * j" "off + 4 * j + 4 \<le> length d" by linarith+
    then show ?thesis by (rule after)
  qed
  have size_offs: "\<exists>m. btf_type_size (type_hdr_at d off) = Some m" if "off \<in> set offs" for off
    using types_from_nth [OF n(4)] that by (metis in_set_conv_nth)
  have info1: "get32 d1 (off + 4) = get32 d (off + 4)" if off: "off \<in> set offs" for off
  proof -
    obtain m where m: "btf_type_size (type_hdr_at d off) = Some m" using size_offs [OF off] by blast
    from in_offs [OF off m] have "1 < m div 4" by linarith
    from words1 [OF off m this] show ?thesis by simp
  qed
  have hdr1: "js (type_hdr_at d1 off) = js (type_hdr_at d off)" "btf_type_size (type_hdr_at d1 off) = btf_type_size (type_hdr_at d off)"
    if "off \<in> set offs" for off
  proof -
    have "info (type_hdr_at d1 off) = info (type_hdr_at d off)" using info1 [OF that] by (simp add: type_hdr_at_def)
    from js_cong [OF this] kind_cong(6) [OF this] show "js (type_hdr_at d1 off) = js (type_hdr_at d off)"
      "btf_type_size (type_hdr_at d1 off) = btf_type_size (type_hdr_at d off)" by simp_all
  qed
  show ?case
  proof (cases "r1 = 0")
    case False
    with v(2) have e: "d' = d1" "c' = c1" "r = r1" by simp_all
    have "get32 d1 (off + 4 * j) = get32 d (off + 4 * j)"
      if "off \<in> set (p # offs)" "btf_type_size (type_hdr_at d off) = Some m" "j < m div 4" "j \<notin> set (js (type_hdr_at d off))" for off m j
      using that n(2) s(8) words1 by (cases "off = p") auto
    with s(1-5) False show ?thesis by (simp add: e n(1))
  next
    case True
    with v(2) have v2: "visit_types go offs d1 c1 = Some (d', c', r)"
      by simp
    have t1: "types_from d1 endt offs (p + n)" by (rule types_from_info [OF n(4) info1])
    have "length d' = length d1 \<and> inv c' \<and> extends c1 c' \<and> r \<le> 0 \<and> take (p + n) d' = take (p + n) d1 \<and>
      (\<forall>off\<in>set offs. \<forall>m. btf_type_size (type_hdr_at d1 off) = Some m \<longrightarrow>
       (\<forall>j<m div 4. j \<notin> set (js (type_hdr_at d1 off)) \<longrightarrow> get32 d' (off + 4 * j) = get32 d1 (off + 4 * j)) \<and>
       (r = 0 \<longrightarrow> (\<forall>j\<in>set (js (type_hdr_at d1 off)). rel c' (get32 d1 (off + 4 * j)) (get32 d' (off + 4 * j)))))"
      by (rule Cons.IH [OF v2 s(2) t1]) (use Cons.prems(4) s(1) in simp)
    then have IH: "length d' = length d1" "inv c'" "extends c1 c'" "r \<le> 0" "take (p + n) d' = take (p + n) d1"
      "off \<in> set offs \<Longrightarrow> btf_type_size (type_hdr_at d1 off) = Some m \<Longrightarrow> j < m div 4 \<Longrightarrow>
        j \<notin> set (js (type_hdr_at d1 off)) \<Longrightarrow> get32 d' (off + 4 * j) = get32 d1 (off + 4 * j)"
      "off \<in> set offs \<Longrightarrow> btf_type_size (type_hdr_at d1 off) = Some m \<Longrightarrow> r = 0 \<Longrightarrow>
        j \<in> set (js (type_hdr_at d1 off)) \<Longrightarrow> rel c' (get32 d1 (off + 4 * j)) (get32 d' (off + 4 * j))" for off m j
      by blast+
    have self: "get32 d' (p + 4 * j) = get32 d1 (p + 4 * j)" if "4 * j + 4 \<le> n" for j
      by (rule get32_cong [OF IH(5)]) (use that in simp)
    have take: "take p d' = take p d"
      using arg_cong [OF IH(5), of "take p"] s(5) by (simp add: min_def)
    have keep: "get32 d' (off + 4 * j) = get32 d (off + 4 * j)"
      if "off \<in> set (p # offs)" "btf_type_size (type_hdr_at d off) = Some m" "j < m div 4" "j \<notin> set (js (type_hdr_at d off))" for off m j
    proof (cases "off \<in> set offs")
      case True
      from IH(6) [OF True, of m j] hdr1 [OF True] words1 [OF True that(2,3)] that show ?thesis by simp
    next
      case False
      with that n(2) have "off = p" "m = n" by simp_all
      with self [of j] s(8) [of j] that show ?thesis by simp
    qed
    have rw: "rel c' (get32 d (off + 4 * j)) (get32 d' (off + 4 * j))"
      if "r = 0" "off \<in> set (p # offs)" "btf_type_size (type_hdr_at d off) = Some m" "j \<in> set (js (type_hdr_at d off))" for off m j
    proof (cases "off \<in> set offs")
      case in_rest: True
      have "j < m div 4" using js_bounds [OF that(3)] that(4) by auto
      from IH(7) [OF in_rest, of m j] hdr1 [OF in_rest] words1 [OF in_rest that(3) this] that show ?thesis by simp
    next
      case False
      with that n(2) have "off = p" "m = n" by simp_all
      with self [of j] s(7) [OF True, of j] that(4) b(1) rel_mono [OF _ IH(3)] show ?thesis by simp
    qed
    show ?thesis using IH(1-4) s(1,3) take keep rw extends_trans [OF s(3) IH(3)] by (simp add: n(1))
  qed
qed

lemma visit_words_runs:
  assumes "\<And>w c. w \<in> W \<Longrightarrow> inv c \<Longrightarrow> visit w c \<noteq> None" "inv c"
    and "sorted_wrt (\<lambda>a b. a + 4 \<le> b) offs" "\<forall>off\<in>set offs. off + 4 \<le> length d" "\<forall>off\<in>set offs. get32 d off \<in> W"
  shows "visit_words (\<lambda>err. err \<noteq> 0) visit offs d c \<noteq> None"
  using assms(2-)
proof (induction offs arbitrary: d c)
  case (Cons off offs)
  have off: "off + 4 \<le> length d" "get32 d off \<in> W" using Cons.prems by simp_all
  obtain w c1 e where v: "visit (get32 d off) c = Some (w, c1, e)"
    using assms(1) [OF off(2) Cons.prems(1)] by (cases "visit (get32 d off) c") auto
  have i: "inv c1" using step [OF Cons.prems(1) v] by simp
  have "get32 (put32 d off w) o' = get32 d o'" if "o' \<in> set offs" for o'
    using that Cons.prems(2,3) off by (intro get32_put32_other) auto
  then have "visit_words (\<lambda>err. err \<noteq> 0) visit offs (put32 d off w) c1 \<noteq> None"
    using Cons.prems off i by (intro Cons.IH) auto
  then show ?case by (simp add: v Let_def)
qed simp

lemma visit_types_defined:
  assumes W: "\<And>w c. w \<in> W \<Longrightarrow> inv c \<Longrightarrow> visit w c \<noteq> None" and "inv c"
    and "types_from d endt offs q" "endt \<le> length d"
    and "\<And>off j. off \<in> set offs \<Longrightarrow> j \<in> set (js (type_hdr_at d off)) \<Longrightarrow> get32 d (off + 4 * j) \<in> W"
  shows "visit_types go offs d c \<noteq> None"
  using assms(2-)
proof (induction offs arbitrary: d c q)
  case (Cons p offs)
  obtain n where n: "p = q" "btf_type_size (type_hdr_at d p) = Some n" "p + n \<le> endt" "types_from d endt offs (p + n)"
    using Cons.prems(2) by (auto simp: types_from_Cons_iff)
  let ?js = "js (type_hdr_at d p)"
  have b: "\<forall>j\<in>set ?js. 4 * j + 4 \<le> n" and pn: "p + n \<le> length d" using js_bounds [OF n(2)] n(3) Cons.prems(3) by auto
  note ob = offs_of_bounds [OF js_sorted [OF n(2)] b pn]
  have "visit_words (\<lambda>err. err \<noteq> 0) visit (offs_of p ?js) d c \<noteq> None"
    by (rule visit_words_runs [OF W Cons.prems(1) ob(1,2)])
      (use Cons.prems(4) [of p] in \<open>auto simp: offs_of_def\<close>)
  then obtain d1 c1 r1 where v: "visit_words (\<lambda>err. err \<noteq> 0) visit (offs_of p ?js) d c = Some (d1, c1, r1)" by auto
  have s: "length d1 = length d" "inv c1" "drop (p + n) d1 = drop (p + n) d"
    using visit_words_spec [OF v Cons.prems(1) ob(1,2)] ob(3) by auto
  have after: "get32 d1 k = get32 d k" if "p + n \<le> k" "k + 4 \<le> length d" for k
    by (rule get32_drop_cong [OF s(3)]) (use that s(1) in simp_all)
  have in_offs: "\<exists>m. btf_type_size (type_hdr_at d off) = Some m \<and> p + n \<le> off \<and> off + m \<le> length d \<and> 12 \<le> m"
    if off: "off \<in> set offs" for off
  proof -
    obtain k where k: "k < length offs" "off = offs ! k" using off unfolding in_set_conv_nth by blast
    obtain m where m: "btf_type_size (type_hdr_at d off) = Some m" "p + n \<le> off" "off + m \<le> endt"
      using types_from_nth [OF n(4) k(1)] k(2) by auto
    from btf_type_size_ge [OF m(1)] m Cons.prems(3) show ?thesis by auto
  qed
  have info1: "get32 d1 (off + 4) = get32 d (off + 4)" if "off \<in> set offs" for off
    using in_offs [OF that] by (auto intro!: after)
  have t1: "types_from d1 endt offs (p + n)" by (rule types_from_info [OF n(4) info1])
  have W1: "get32 d1 (off + 4 * j) \<in> W" if off: "off \<in> set offs" and j: "j \<in> set (js (type_hdr_at d1 off))" for off j
  proof -
    obtain m where m: "btf_type_size (type_hdr_at d off) = Some m" "p + n \<le> off" "off + m \<le> length d" using in_offs [OF off] by blast
    have "info (type_hdr_at d1 off) = info (type_hdr_at d off)" using info1 [OF off] by (simp add: type_hdr_at_def)
    with j have j': "j \<in> set (js (type_hdr_at d off))" using js_cong by metis
    then have "4 * j + 4 \<le> m" using js_bounds [OF m(1)] by auto
    with m have "get32 d1 (off + 4 * j) = get32 d (off + 4 * j)" by (intro after) auto
    with Cons.prems(4) [of off j] off j' show ?thesis by simp
  qed
  have "visit_types go offs d1 c1 \<noteq> None"
    by (rule Cons.IH [OF s(2) t1 _ W1]) (use Cons.prems(3) s(1) in simp_all)
  then show ?case by (simp add: v go_words [OF n(2)])
qed simp

lemma visit_types_nodes:
  assumes v: "visit_types go offs d c = Some (d', c', r)" and c: "inv c" and t: "types_from d endt offs q" "endt \<le> length d"
  shows "length d' = length d" "inv c'" "extends c c'" "r \<le> 0" "types_from d' endt offs q"
    "\<And>off. off \<in> set offs \<Longrightarrow> info (type_at d' off) = info (type_at d off) \<and>
       length (type_words (type_at d' off)) = length (type_words (type_at d off))"
    "\<And>off j. off \<in> set offs \<Longrightarrow> j < length (type_words (type_at d off)) \<Longrightarrow> j \<notin> set (js (type_at d off)) \<Longrightarrow>
       type_words (type_at d' off) ! j = type_words (type_at d off) ! j"
    "\<And>off j. off \<in> set offs \<Longrightarrow> r = 0 \<Longrightarrow> j \<in> set (js (type_at d off)) \<Longrightarrow>
       rel c' (type_words (type_at d off) ! j) (type_words (type_at d' off) ! j)"
proof -
  note sp = visit_types_spec [OF v c t]
  from sp show "length d' = length d" "inv c'" "extends c c'" "r \<le> 0" by simp_all
  have jsq: "js (type_at d p) = js (type_hdr_at d p)" for d p
    by (intro js_cong) (simp add: type_at_def Let_def split: option.splits)
  have size: "\<exists>n. btf_type_size (type_hdr_at d off) = Some n \<and> 12 \<le> n" if "off \<in> set offs" for off
    using types_from_nth [OF t(1)] that btf_type_size_ge by (metis in_set_conv_nth)
  have keep: "get32 d' (off + 4 * j) = get32 d (off + 4 * j)"
    if "off \<in> set offs" "btf_type_size (type_hdr_at d off) = Some n" "j < n div 4" "j \<notin> set (js (type_hdr_at d off))" for off n j
    using sp that by simp
  have info: "get32 d' (off + 4) = get32 d (off + 4)" if off: "off \<in> set offs" for off
  proof -
    obtain n where n: "btf_type_size (type_hdr_at d off) = Some n" "12 \<le> n" using size [OF off] by blast
    have "1 < n div 4" using n(2) by linarith
    moreover have "1 \<notin> set (js (type_hdr_at d off))" using js_bounds [OF n(1)] by auto
    ultimately show ?thesis using keep [OF off n(1), of 1] by simp
  qed
  show "types_from d' endt offs q" by (rule types_from_info [OF t(1) info])
  fix off assume off: "off \<in> set offs"
  obtain n where n: "btf_type_size (type_hdr_at d off) = Some n" using size [OF off] by blast
  have i: "info (type_hdr_at d' off) = info (type_hdr_at d off)" using info [OF off] by (simp add: type_hdr_at_def)
  from kind_cong(6) [OF this] n have n': "btf_type_size (type_hdr_at d' off) = Some n" by simp
  have ia: "info (type_at d p) = info (type_hdr_at d p)" for d p by (simp add: type_at_def Let_def split: option.splits)
  have len: "length (type_words (type_at d off)) = n div 4" "length (type_words (type_at d' off)) = n div 4"
    by (simp_all add: words_type_at [OF n] words_type_at [OF n'] words_at_def del: type_words_rest)
  show "info (type_at d' off) = info (type_at d off) \<and>
       length (type_words (type_at d' off)) = length (type_words (type_at d off))" using i ia len by simp
  show "type_words (type_at d' off) ! j = type_words (type_at d off) ! j"
    if "j < length (type_words (type_at d off))" "j \<notin> set (js (type_at d off))" for j
    using keep [OF off n] that unfolding len jsq by (simp add: type_words_at [OF n] type_words_at [OF n'] del: type_words_rest)
  show "rel c' (type_words (type_at d off) ! j) (type_words (type_at d' off) ! j)" if "r = 0" "j \<in> set (js (type_at d off))" for j
  proof -
    have j: "j \<in> set (js (type_hdr_at d off))" using that(2) jsq by simp
    then have "4 * j + 4 \<le> n" using js_bounds [OF n] by blast
    then have "j < n div 4" by linarith
    with sp off n j that(1) show ?thesis by (simp add: type_words_at [OF n] type_words_at [OF n'] del: type_words_rest)
  qed
qed

end

end
