(* ===== verification/Dedup_Own.thy ===== *)
theory Dedup_Own
  imports Dedup_Equiv Dedup_Words
begin

text \<open>The types of the object that is deduplicated: their places in its type region, and rewriting one identifier.\<close>

definition own_index :: "btf \<Rightarrow> u32 \<Rightarrow> nat" where
  "own_index btf i = unat i - start_id btf"

abbreviation own_off :: "btf \<Rightarrow> u32 \<Rightarrow> nat" where
  "own_off btf i \<equiv> type_offs btf ! own_index btf i"

lemma own_type:
  assumes c: "btf_chain (btf # base)" and i: "start_id btf \<le> unat i" "unat i < btf__type_cnt (btf # base)"
  shows "own_index btf i < nr_types btf" "own_index btf i < length (type_offs btf)"
    "dgraph (btf # base) i = type_at (types_data btf) (own_off btf i)"
    "\<exists>n. btf_type_size (type_hdr_at (types_data btf) (own_off btf i)) = Some n"
proof -
  let ?k = "own_index btf i"
  have ok: "btf_ok btf" and s: "0 < start_id btf" using c type_cnt_pos [of base] by simp_all
  show k: "?k < nr_types btf" using i by (auto simp: own_index_def btf__type_cnt_def)
  with ok show l: "?k < length (type_offs btf)" by (simp add: btf_ok_def)
  show "dgraph (btf # base) i = type_at (types_data btf) (own_off btf i)"
    using i s by (auto simp: dgraph_def own_index_def)
  have "?k < length (take (nr_types btf) (type_offs btf))" using k l by simp
  from types_from_nth [OF _ this] ok k show "\<exists>n. btf_type_size (type_hdr_at (types_data btf) (own_off btf i)) = Some n"
    by (fastforce simp: btf_ok_def)
qed

lemma own_of_off:
  assumes "btf_chain (btf # base)" "btf__type_cnt (btf # base) \<le> 2 ^ 32" "off \<in> set (take (nr_types btf) (type_offs btf))"
  obtains i where "start_id btf \<le> unat i" "unat i < btf__type_cnt (btf # base)" "own_off btf i = off"
proof -
  obtain k where k: "k < nr_types btf" "off = type_offs btf ! k" using assms(3) by (auto simp: in_set_conv_nth)
  have "unat (of_nat (start_id btf + k) :: u32) = start_id btf + k"
    using k assms(2) by (intro unat_u32) (simp add: btf__type_cnt_def)
  with k that [of "of_nat (start_id btf + k)"] show thesis by (simp add: btf__type_cnt_def own_index_def)
qed

lemma own_off_in:
  assumes "btf_chain (btf # base)" "start_id btf \<le> unat i" "unat i < btf__type_cnt (btf # base)"
  shows "own_off btf i \<in> set (take (nr_types btf) (type_offs btf))"
  using own_type(1,2) [OF assms] by (auto simp: in_set_conv_nth intro!: exI [of _ "own_index btf i"])

lemma own_words:
  assumes "btf_chain (btf # base)" "start_id btf \<le> unat i" "unat i < btf__type_cnt (btf # base)"
    and "btf_type_size (type_hdr_at (types_data btf) (own_off btf i)) = Some n" "4 * j + 4 \<le> n"
  shows "get32 (types_data btf) (own_off btf i + 4 * j) = type_words (dgraph (btf # base) i) ! j"
proof -
  have "j < n div 4" using assms(5) by linarith
  then show ?thesis by (simp add: own_type(3) [OF assms(1-3)] type_words_at [OF assms(4)] del: type_words_rest)
qed

lemma own_write:
  fixes w :: u32
  assumes c: "btf_chain (btf # base)" and i: "start_id btf \<le> unat i" "unat i < btf__type_cnt (btf # base)"
    and j: "j \<in> set (id_pos (dgraph (btf # base) i))"
  defines "b' \<equiv> btf\<lparr>types_data := put32 (types_data btf) (own_off btf i + 4 * j) w\<rparr> # base"
  shows "btf_chain b'"
    "type_words (dgraph b' i) = (type_words (dgraph (btf # base) i))[j := w]"
    "get32 (types_data btf) (own_off btf i + 4 * j) = type_words (dgraph (btf # base) i) ! j"
    "j < length (type_words (dgraph (btf # base) i))"
    "\<And>k. unat k < btf__type_cnt (btf # base) \<Longrightarrow> k \<noteq> i \<Longrightarrow> dgraph b' k = dgraph (btf # base) k"
proof -
  let ?d = "types_data btf" and ?offs = "take (nr_types btf) (type_offs btf)"
  note o = own_type [OF c i]
  have ok: "btf_ok btf" "start_id btf = btf__type_cnt base" "btf_chain base" using c by simp_all
  have t: "types_from ?d (unat (type_len (hdr btf))) ?offs 0" "unat (type_len (hdr btf)) \<le> length ?d"
    using ok(1) by (simp_all add: btf_ok_def)
  obtain n where n: "btf_type_size (type_hdr_at ?d (own_off btf i)) = Some n" using o(4) by blast
  have "4 * j + 4 \<le> n \<and> j \<noteq> 1" using j pos_bounds(1) [OF n] by (simp add: o(3))
  then have jn: "j < n div 4" "j \<noteq> 1" by linarith+
  have at: "?offs ! own_index btf i = own_off btf i" using o(1) by simp
  have k: "own_index btf i < length ?offs" using o(1,2) by simp
  note s = set_word [OF t k, unfolded at, OF n jn, where w = w]
  show "get32 ?d (own_off btf i + 4 * j) = type_words (dgraph (btf # base) i) ! j"
    by (simp add: o(3) type_words_at [OF n jn(1)] del: type_words_rest)
  show "j < length (type_words (dgraph (btf # base) i))"
    using jn(1) by (simp add: o(3) words_type_at [OF n] words_at_def del: type_words_rest)
  show c': "btf_chain b'" using ok s(1,2) by (simp add: b'_def btf_ok_def)
  have cnt: "btf__type_cnt b' = btf__type_cnt (btf # base)" by (simp add: b'_def btf__type_cnt_def)
  have own: "dgraph b' k = type_at (put32 ?d (own_off btf i + 4 * j) w) (own_off btf k)"
    if "start_id btf \<le> unat k" "unat k < btf__type_cnt (btf # base)" for k
    using own_type(3) [OF c' [unfolded b'_def], of k] that by (simp add: b'_def own_index_def btf__type_cnt_def)
  show "type_words (dgraph b' i) = (type_words (dgraph (btf # base) i))[j := w]"
    using s(4) by (simp add: own [OF i] o(3))
  show "dgraph b' k = dgraph (btf # base) k" if kn: "unat k < btf__type_cnt (btf # base)" "k \<noteq> i" for k
  proof (cases "start_id btf \<le> unat k")
    case True
    note ok = own_type [OF c True kn(1)]
    have ne: "own_index btf k \<noteq> own_index btf i"
    proof
      assume "own_index btf k = own_index btf i"
      then have "unat k = unat i" using True i(1) by (simp add: own_index_def)
      with kn(2) show False by (simp flip: word_unat_eq_iff)
    qed
    have "type_at (put32 ?d (own_off btf i + 4 * j) w) (own_off btf k) = type_at ?d (own_off btf k)"
      using s(3) [of "own_index btf k"] ok(1,2) ne by simp
    then show ?thesis by (simp add: own [OF True kn(1)] ok(3))
  next
    case False
    then show ?thesis by (simp add: dgraph_def b'_def)
  qed
qed

lemma same_node_at:
  assumes "same_node R g t"
  shows "info g = info t" "id_pos g = id_pos t" "j \<in> set (id_pos g) \<Longrightarrow> R (type_words g ! j) (type_words t ! j)"
proof -
  show i: "info g = info t" by (rule shape_cong(1)) (use assms in \<open>simp add: same_node_def\<close>)
  then show k: "id_pos g = id_pos t" by (rule kind_cong(4))
  have "list_all2 R (map (\<lambda>j. type_words g ! j) (id_pos g)) (map (\<lambda>j. type_words t ! j) (id_pos g))"
    using assms by (simp only: same_node_def ref_words_def k)
  then show "j \<in> set (id_pos g) \<Longrightarrow> R (type_words g ! j) (type_words t ! j)"
    by (simp only: list_all2_map1 list_all2_map2 list_all2_same)
qed

lemma same_node_write:
  assumes s: "same_node R g t" and w: "type_words t' = (type_words t)[j := w]" and j: "j \<in> set (id_pos t)" "j < length (type_words t)"
    and R: "\<And>a. R a (type_words t ! j) \<Longrightarrow> R a w"
  shows "same_node R g t'" "ref_words t' = map (\<lambda>l. if l = j then w else type_words t ! l) (id_pos t)" "info t' = info t"
proof -
  have "j \<noteq> 1" using j(1) id_pos_not(2) [of t] by auto
  then have "type_words t' ! 1 = type_words t ! 1" using w by simp
  then show i: "info t' = info t" by simp
  note k = kind_cong(4) [OF i]
  have l: "length (type_words t') = length (type_words t)" using w by simp
  show r: "ref_words t' = map (\<lambda>l. if l = j then w else type_words t ! l) (id_pos t)"
    unfolding ref_words_def k w using j(2) by (auto simp: nth_list_update simp del: type_words_rest)
  have "shape t' = shape t"
  proof (rule shape_eqI [OF i])
    show "length (rest t') = length (rest t)" using l by simp
    fix a assume "a < length (type_words t')" "a \<notin> set (id_pos t')"
    then have "a \<noteq> j" using j(1) k by auto
    then show "type_words t' ! a = type_words t ! a" by (simp only: w nth_list_update_neq)
  qed
  moreover have "list_all2 R (ref_words g) (ref_words t')"
    using s R unfolding same_node_def r by (auto simp: list_all2_conv_all_nth ref_words_def simp del: type_words_rest)
  ultimately show "same_node R g t'" using s by (simp add: same_node_def)
qed

end
