(* ===== verification/Dedup_Refs.thy ===== *)
theory Dedup_Refs
  imports Dedup_Passes Dedup_Own
begin

text \<open>
  The pass over the reference types, \<open>btf_dedup_ref_type\<close> of \<open>src/libbpf/src/btf.c\<close>: it returns, what it
  writes into the types leads to bisimilar types, and what it maps it maps to bisimilar types.
\<close>

section \<open>The invariant of the pass\<close>

text \<open>Bisimilarity is that of the object \<open>b\<close> before the pass, which only changes the type region.\<close>

definition ref_ok :: "btf list \<Rightarrow> btf_dedup \<Rightarrow> bool" where
  "ref_ok b d \<longleftrightarrow>
     b \<noteq> [] \<and> d_btf d = (hd b)\<lparr>types_data := own_data d\<rparr> # tl b \<and> btf_chain (d_btf d) \<and> pass_ok b (d\<lparr>d_btf := b\<rparr>) \<and>
     (\<forall>i. unat i < start_id (hd b) \<longrightarrow> d_map d ! unat i = i) \<and>
     (\<forall>i. unat i < btf__type_cnt b \<longrightarrow>
        same_node (similar (dgraph b)) (dgraph b i) (dgraph (d_btf d) i) \<and>
        (\<forall>r\<in>set (ref_words (dgraph (d_btf d) i)). unat r < btf__type_cnt b))"

definition ref_ext :: "btf list \<Rightarrow> btf_dedup \<Rightarrow> btf_dedup \<Rightarrow> bool" where
  "ref_ext b d d' \<longleftrightarrow>
     d_btf_ext d' = d_btf_ext d \<and>
     (\<forall>i :: u32. unat i < btf__type_cnt b \<and> (unat (d_map d ! unat i) \<le> BTF_MAX_NR_TYPES \<or> d_map d ! unat i = BTF_IN_PROGRESS_ID) \<longrightarrow>
        d_map d' ! unat i = d_map d ! unat i)"

lemma ref_ext_refl [simp]: "ref_ext b d d"
  by (simp add: ref_ext_def)

lemma ref_ext_trans: "ref_ext b d1 d2 \<Longrightarrow> ref_ext b d2 d3 \<Longrightarrow> ref_ext b d1 d3"
  by (simp add: ref_ext_def)

text \<open>The types not yet visited, which bound the recursion.\<close>

definition unvisited :: "btf list \<Rightarrow> btf_dedup \<Rightarrow> u32 set" where
  "unvisited b d = {i. unat i < btf__type_cnt b \<and> unat (d_map d ! unat i) > BTF_MAX_NR_TYPES \<and> d_map d ! unat i \<noteq> BTF_IN_PROGRESS_ID}"

lemma unvisited_mono: "ref_ext b d d' \<Longrightarrow> unvisited b d' \<subseteq> unvisited b d"
  unfolding ref_ext_def unvisited_def by (auto simp: not_less)

lemma unvisited_card: "ref_ext b d d' \<Longrightarrow> card (unvisited b d') \<le> card (unvisited b d)"
  by (intro card_mono unvisited_mono) simp_all

definition ref_result :: "btf list \<Rightarrow> u32 \<Rightarrow> int \<Rightarrow> bool" where
  "ref_result b i r \<longleftrightarrow> 0 \<le> r \<longrightarrow> unat (word_of_int r :: u32) < btf__type_cnt b \<and> similar (dgraph b) i (word_of_int r)"

lemma ref_okD:
  assumes "ref_ok b d"
  obtains btf base where "b = btf # base" "d_btf d = btf\<lparr>types_data := own_data d\<rparr> # base" "btf_chain (d_btf d)"
    "btf__type_cnt (d_btf d) = btf__type_cnt b" "flat_map (similar (dgraph b)) (btf__type_cnt b) (d_map d)"
    "own_type_offs d = take (nr_types btf) (type_offs btf)"
proof -
  obtain btf base where "b = btf # base" using assms by (cases b) (auto simp: ref_ok_def)
  with that assms show thesis by (auto simp: ref_ok_def pass_ok_def state_ok_def btf__type_cnt_def own_type_offs_def)
qed

lemma ref_nodeD:
  assumes "ref_ok b d" "unat i < btf__type_cnt b"
  shows "same_node (similar (dgraph b)) (dgraph b i) (dgraph (d_btf d) i)"
    "\<forall>r\<in>set (ref_words (dgraph (d_btf d) i)). unat r < btf__type_cnt b"
  using assms unfolding ref_ok_def by blast+

lemma own_data_set [simp]: "d_btf d = btf # base \<Longrightarrow> own_data (set_types_data data d) = data"
  by (simp add: set_types_data_def own_data_def)

lemma set_types_data_simps [simp]:
  "d_map (set_types_data data d) = d_map d" "d_btf_ext (set_types_data data d) = d_btf_ext d"
  "dedup_table (set_types_data data d) = dedup_table d"
  "(set_types_data data d)\<lparr>d_btf := b\<rparr> = d\<lparr>d_btf := b\<rparr>"
  by (simp_all add: set_types_data_def split: list.splits)

lemma ref_write:
  assumes ok: "ref_ok b d" and i: "start_id (hd b) \<le> unat i" "unat i < btf__type_cnt b"
    and j: "j \<in> set (id_pos (dgraph b i))"
  defines "p \<equiv> own_off (hd b) i + 4 * j"
  shows "unat (get32 (own_data d) p) < btf__type_cnt b" "similar (dgraph b) (type_words (dgraph b i) ! j) (get32 (own_data d) p)"
    "unat w < btf__type_cnt b \<Longrightarrow> similar (dgraph b) (type_words (dgraph b i) ! j) w \<Longrightarrow>
      ref_ok b (set_types_data (put32 (own_data d) p w) d) \<and> ref_ext b d (set_types_data (put32 (own_data d) p w) d)"
proof -
  let ?G = "dgraph b" and ?n = "btf__type_cnt b"
  obtain btf base where b: "b = btf # base" "d_btf d = btf\<lparr>types_data := own_data d\<rparr> # base" "btf_chain (d_btf d)"
    and n: "btf__type_cnt (d_btf d) = ?n" using ok by (rule ref_okD)
  let ?btf = "btf\<lparr>types_data := own_data d\<rparr>" and ?t = "dgraph (d_btf d) i"
  note node = ref_nodeD(1) [OF ok i(2)] and refs = ref_nodeD(2) [OF ok i(2)]
  have jt: "j \<in> set (id_pos ?t)" using j same_node_at(2) [OF node] by simp
  have at: "similar ?G (type_words (?G i) ! j) (type_words ?t ! j)" by (rule same_node_at(3) [OF node j])
  have c: "btf_chain (?btf # base)" and i': "start_id ?btf \<le> unat i" "unat i < btf__type_cnt (?btf # base)"
    using b n i by simp_all
  have p: "p = own_off ?btf i + 4 * j" by (simp add: p_def b(1) own_index_def)
  note ow = own_write [OF c i' jt [unfolded b(2)], folded p b(2)]
  have w: "get32 (own_data d) p = type_words ?t ! j" using ow(3) by simp
  with jt refs show "unat (get32 (own_data d) p) < ?n" by (simp add: ref_words_def del: type_words_rest)
  from w at show "similar ?G (type_words (?G i) ! j) (get32 (own_data d) p)" by simp
  assume r: "unat w < ?n" "similar ?G (type_words (?G i) ! j) w"
  let ?d' = "set_types_data (put32 (own_data d) p w) d"
  have db: "d_btf ?d' = btf\<lparr>types_data := put32 (own_data d) p w\<rparr> # base"
    by (simp add: set_types_data_def b(2))
  have c': "btf_chain (d_btf ?d')" and tw: "type_words (dgraph (d_btf ?d') i) = (type_words ?t)[j := w]"
    and other: "\<And>k. unat k < ?n \<Longrightarrow> k \<noteq> i \<Longrightarrow> dgraph (d_btf ?d') k = dgraph (d_btf d) k"
    using ow(1,2,5) [where w = w] n by (simp_all add: db)
  have sim: "similar ?G a w" if "similar ?G a (type_words ?t ! j)" for a
    using similar_trans [OF that] similar_trans [OF similar_sym [OF at] r(2)] by blast
  note sw = same_node_write [OF node tw jt ow(4) sim]
  have refs': "unat x < ?n" if x: "x \<in> set (ref_words (dgraph (d_btf ?d') i))" for x
  proof -
    obtain l where l: "l \<in> set (id_pos ?t)" "x = (if l = j then w else type_words ?t ! l)" using x by (auto simp: sw(2))
    then have "type_words ?t ! l \<in> set (ref_words ?t)" by (simp add: ref_words_def del: type_words_rest)
    with l(2) refs r(1) show ?thesis by simp
  qed
  have "\<forall>k. unat k < ?n \<longrightarrow> same_node (similar ?G) (?G k) (dgraph (d_btf ?d') k) \<and>
      (\<forall>r\<in>set (ref_words (dgraph (d_btf ?d') k)). unat r < ?n)"
  proof (intro allI impI)
    fix k :: u32 assume k: "unat k < ?n"
    show "same_node (similar ?G) (?G k) (dgraph (d_btf ?d') k) \<and>
      (\<forall>r\<in>set (ref_words (dgraph (d_btf ?d') k)). unat r < ?n)"
    proof (cases "k = i")
      case True
      with sw(1) refs' show ?thesis by simp
    next
      case False
      with ref_nodeD [OF ok k] show ?thesis by (simp add: other [OF k])
    qed
  qed
  moreover have "own_data ?d' = put32 (own_data d) p w" by (rule own_data_set [OF b(2)])
  ultimately show "ref_ok b ?d' \<and> ref_ext b d ?d'"
    using ok c' unfolding ref_ok_def [of b ?d'] by (simp add: db b(1) ref_ext_def) (simp add: ref_ok_def b(1))
qed

section \<open>The references of a type\<close>

lemma resolve_refs_spec:
  assumes go: "\<And>a d. ref_ok b d \<Longrightarrow> card (unvisited b d) < k \<Longrightarrow> unat a < btf__type_cnt b \<Longrightarrow>
      \<exists>d' r. go a d = Some (d', r) \<and> ref_ok b d' \<and> ref_ext b d d' \<and> ref_result b a r"
    and i: "start_id (hd b) \<le> unat i" "unat i < btf__type_cnt b" and js: "set js \<subseteq> set (id_pos (dgraph b i))"
    and d: "ref_ok b d" "card (unvisited b d) < k"
  shows "\<exists>d' r. resolve_refs go (map (\<lambda>j. own_off (hd b) i + 4 * j) js) d = Some (d', r) \<and>
    ref_ok b d' \<and> ref_ext b d d' \<and> r \<le> 0"
  using js d
proof (induction js arbitrary: d)
  case Nil
  then show ?case by simp
next
  case (Cons j js)
  let ?n = "btf__type_cnt b" and ?p = "own_off (hd b) i + 4 * j"
  have j: "j \<in> set (id_pos (dgraph b i))" using Cons.prems(1) by simp
  let ?a = "get32 (own_data d) ?p"
  from go [OF Cons.prems(2,3) ref_write(1) [OF Cons.prems(2) i j]]
  obtain d1 r1 where g: "go ?a d = Some (d1, r1)" "ref_ok b d1" "ref_ext b d d1" "ref_result b ?a r1"
    by blast
  show ?case
  proof (cases "r1 < 0")
    case True
    with g show ?thesis by simp
  next
    case False
    let ?w = "word_of_int r1 :: u32"
    have w: "unat ?w < ?n" "similar (dgraph b) ?a ?w" using g(4) False by (simp_all add: ref_result_def)
    let ?d = "set_types_data (put32 (own_data d1) ?p ?w) d1"
    have d2: "ref_ok b ?d \<and> ref_ext b d1 ?d"
      by (rule ref_write(3) [OF g(2) i j w(1) similar_trans [OF ref_write(2) [OF Cons.prems(2) i j] w(2)]])
    then have e: "ref_ext b d ?d" using ref_ext_trans g(3) by blast
    have "card (unvisited b ?d) < k" using unvisited_card [OF e] Cons.prems(3) by simp
    from Cons.IH [OF _ _ this] Cons.prems(1) d2
    obtain d' r where "resolve_refs go (map (\<lambda>j. own_off (hd b) i + 4 * j) js) ?d = Some (d', r)" "ref_ok b d'" "ref_ext b ?d d'" "r \<le> 0"
      by auto
    with g(1) False ref_ext_trans [OF e] show ?thesis by auto
  qed
qed


section \<open>One type\<close>

lemma similar_nodeI: assumes "same_node (similar G) (G i) (G j)" shows "similar G i j"
proof (rule similarI)
  show "bisim G G (\<lambda>a b. similar G a b \<or> a = i \<and> b = j)" unfolding bisim_def
  proof (intro allI impI)
    fix a b assume "similar G a b \<or> a = i \<and> b = j"
    then have "same_node (similar G) (G a) (G b)" using similar_node assms by blast
    then show "same_node (\<lambda>a b. similar G a b \<or> a = i \<and> b = j) (G a) (G b)" by (rule same_node_mono) blast
  qed
qed simp

lemma ref_case_cong: assumes "info t = info t'" shows "ref_case t = ref_case t'"
  by (simp only: ref_case_def kind_cong(1,2) [OF assms])

lemma ref_case_common: "ref_case t = Some (offs, hash, same) \<Longrightarrow> same t t' \<Longrightarrow> btf_equal_common t t'"
  by (cases "btf_kind t")
    (auto simp: ref_case_def Let_def btf_equal_int_tag_def btf_equal_array_def btf_equal_fnproto_def)

lemma set_canonical_btf:
  "set_canonical env h i v (d\<lparr>d_btf := b\<rparr>) = map_option (\<lambda>(d', r). (d'\<lparr>d_btf := b\<rparr>, r)) (set_canonical env h i v d)"
  "set_canonical env h i v d = Some (d', r) \<Longrightarrow> d_btf d' = d_btf d"
  by (auto simp: set_canonical_def btf_dedup_table_add_def st_def Let_def split: prod.splits if_splits)

lemma ref_ext_visit:
  assumes "ref_ext b (d\<lparr>d_map := (d_map d)[unat i := x]\<rparr>) d'" "i \<in> unvisited b d"
  shows "ref_ext b d d'"
proof -
  have "d_map d' ! unat k = d_map d ! unat k"
    if k: "unat k < btf__type_cnt b" "unat (d_map d ! unat k) \<le> BTF_MAX_NR_TYPES \<or> d_map d ! unat k = BTF_IN_PROGRESS_ID" for k :: u32
  proof -
    have "k \<noteq> i" using k assms(2) by (auto simp: unvisited_def)
    then have "unat k \<noteq> unat i" using word_unat_eq_iff by blast
    with assms(1) k show ?thesis by (simp add: ref_ext_def)
  qed
  with assms(1) show ?thesis by (simp add: ref_ext_def)
qed

lemma ref_ok_map:
  assumes "ref_ok b d" "d_btf d' = d_btf d" "pass_ok b (d'\<lparr>d_btf := b\<rparr>)"
    and "\<And>k. unat k < start_id (hd b) \<Longrightarrow> d_map d' ! unat k = k"
  shows "ref_ok b d'"
proof -
  have o: "own_data d' = own_data d" using assms(2) by (simp add: own_data_def)
  show ?thesis using assms(1,3,4) unfolding ref_ok_def assms(2) o by blast
qed

text \<open>A type that is visited is marked.\<close>

lemma ref_mark:
  assumes ok: "ref_ok b d" and g: "graph_ok b" and i: "i \<in> unvisited b d"
  defines "d' \<equiv> d\<lparr>d_map := (d_map d)[unat i := BTF_IN_PROGRESS_ID]\<rparr>"
  shows "start_id (hd b) \<le> unat i" "unat i < length (d_map d)" "ref_ok b d'" "card (unvisited b d') < card (unvisited b d)"
proof -
  let ?n = "btf__type_cnt b" and ?m = "(d_map d)[unat i := BTF_IN_PROGRESS_ID]"
  have u: "unat i < ?n" "unat (d_map d ! unat i) > BTF_MAX_NR_TYPES" "d_map d ! unat i \<noteq> BTF_IN_PROGRESS_ID"
    using i by (simp_all add: unvisited_def)
  have ne: "d_map d ! unat i \<noteq> i" using u(2) graph_okD(3) [OF g u(1)] by auto
  then show s: "start_id (hd b) \<le> unat i" using ok unfolding ref_ok_def by (meson not_less)
  have fm: "flat_map (similar (dgraph b)) ?n (d_map d)" using ok by (rule ref_okD)
  then show l: "unat i < length (d_map d)" using u(1) by (simp add: flat_map_def)
  have f: "flat_map (similar (dgraph b)) ?n ?m" by (rule sim.flat_map_unset [OF fm u(1,2) unmapped_ids(2)])
  have "pass_ok b (d\<lparr>d_btf := b\<rparr>)" using ok by (simp add: ref_ok_def)
  from pass_ok_map [OF this f] keeps_self_update [OF ne] have "pass_ok b (d\<lparr>d_btf := b, d_map := ?m\<rparr>)" by simp
  moreover have "d'\<lparr>d_btf := b\<rparr> = d\<lparr>d_btf := b, d_map := ?m\<rparr>" by (cases d) (simp add: d'_def)
  ultimately have "pass_ok b (d'\<lparr>d_btf := b\<rparr>)" by simp
  moreover have "d_btf d' = d_btf d" by (simp add: d'_def)
  moreover have "d_map d' ! unat k = k" if "unat k < start_id (hd b)" for k
    using that ok s by (simp add: d'_def ref_ok_def)
  ultimately show "ref_ok b d'" by (intro ref_ok_map [OF ok])
  have "unvisited b d' \<subseteq> unvisited b d - {i}"
    using l by (auto simp: unvisited_def d'_def nth_list_update split: if_splits)
  then have "card (unvisited b d') \<le> card (unvisited b d - {i})" by (intro card_mono) simp_all
  also have "\<dots> < card (unvisited b d)" using i by (intro card_Diff1_less) simp_all
  finally show "card (unvisited b d') < card (unvisited b d)" .
qed

text \<open>The end of a visit: the candidate found is similar, and is recorded.\<close>

lemma ref_finish:
  assumes ok: "ref_ok b d" and g: "graph_ok b" and i: "start_id (hd b) \<le> unat i" "unat i < btf__type_cnt b"
    and m: "d_map d ! unat i = BTF_IN_PROGRESS_ID"
    and rc: "ref_case (dgraph (d_btf d) i) = Some (offs, hash, same)"
  shows "\<exists>v d' r. first_cand (same (dgraph (d_btf d) i)) (d_btf d) (dedup_cands d h) i = Some v \<and>
    set_canonical env h i v d = Some (d', r) \<and> ref_ok b d' \<and> d_map d' = (d_map d)[unat i := v] \<and>
    d_btf_ext d' = d_btf_ext d \<and> r \<le> 0 \<and> unat v < btf__type_cnt b \<and> similar (dgraph b) i v"
proof -
  let ?G = "dgraph b" and ?H = "dgraph (d_btf d)" and ?n = "btf__type_cnt b" and ?d = "d\<lparr>d_btf := b\<rparr>"
  obtain btf base where n: "btf__type_cnt (d_btf d) = ?n" and c: "btf_chain (d_btf d)" using ok by (rule ref_okD)
  have p: "pass_ok b ?d" using ok by (simp add: ref_ok_def)
  have ne: "d_map ?d ! unat i \<noteq> i" using m unmapped_ids(2) graph_okD(3) [OF g i(2)] by auto
  have cands: "dedup_cands ?d h = dedup_cands d h" by (simp add: dedup_cands_def)
  have lt: "unat v < ?n" if "v \<in> set (dedup_cands d h)" for v using pass_ok_cand(1) [OF p, of v h] that cands by simp
  obtain v where v: "first_cand (same (?H i)) (d_btf d) (dedup_cands d h) i = Some v"
    "v = i \<or> v \<in> set (dedup_cands d h) \<and> same (?H i) (?H v)"
    using first_cand_spec [of "dedup_cands d h" "d_btf d" "same (?H i)" i] lt n by auto
  have ty: "type_ok (?H k)" if "unat k < ?n" "btf_kind (?H k) \<noteq> BTF_KIND_UNKN" for k
  proof -
    have "0 < unat k" using that(2) by (cases "k = 0") (auto simp: dgraph_def unat_gt_0)
    with that(1) show ?thesis unfolding dgraph_def by (intro type_by_id_ok [OF c]) (simp_all add: n)
  qed
  have k: "btf_kind (?H i) \<noteq> BTF_KIND_UNKN" using rc by (auto simp: ref_case_def Let_def)
  have sim: "similar ?G i v \<and> unat v < ?n"
  proof (cases "v = i")
    case False
    then have s: "v \<in> set (dedup_cands d h)" "same (?H i) (?H v)" using v(2) by simp_all
    have "btf_kind (?H v) \<noteq> BTF_KIND_UNKN" using equal_common_kind [OF ref_case_common [OF rc s(2)]] k by simp
    then have "?H i = ?H v" by (intro ref_case_eq [OF rc s(2)] ty k i(2) lt [OF s(1)])
    then have "same_node (similar ?G) (?G i) (?H v)" using ref_nodeD(1) [OF ok i(2)] by simp
    moreover have "same_node (similar ?G) (?H v) (?G v)"
      by (rule same_node_sym [OF ref_nodeD(1) [OF ok lt [OF s(1)]] similar_sym])
    ultimately have "same_node (similar ?G) (?G i) (?G v)" by (rule same_node_trans) (rule similar_trans)
    with lt [OF s(1)] show ?thesis by (simp add: similar_nodeI)
  qed (simp add: i(2))
  have "v = i \<or> v \<in> set (dedup_cands ?d h) \<and> similar ?G i v" using v(2) sim cands by auto
  from set_canonical_spec [OF p g i(2) ne this, of env h]
  obtain d1 r where d1: "set_canonical env h i v ?d = Some (d1, r)" "r \<le> 0" "pass_ok b d1"
    "d_map d1 = (d_map ?d)[unat i := v]" "d_btf_ext d1 = d_btf_ext ?d" by blast
  then obtain d' where d': "set_canonical env h i v d = Some (d', r)" "d1 = d'\<lparr>d_btf := b\<rparr>"
    by (auto simp: set_canonical_btf(1))
  have b': "d_btf d' = d_btf d" by (rule set_canonical_btf(2) [OF d'(1)])
  have m': "d_map d' = (d_map d)[unat i := v]" "d_btf_ext d' = d_btf_ext d" using d1(4,5) d'(2) by simp_all
  have "d_map d' ! unat k = k" if "unat k < start_id (hd b)" for k
    using that ok i(1) by (simp add: m' ref_ok_def)
  moreover have "pass_ok b (d'\<lparr>d_btf := b\<rparr>)" using d1(3) d'(2) by simp
  ultimately have "ref_ok b d'" by (intro ref_ok_map [OF ok b'])
  with v(1) d'(1) m' sim d1(2) show ?thesis by blast
qed

lemma own_pos_eq:
  assumes "ref_ok b d" "start_id (hd b) \<le> unat i" "unat i < btf__type_cnt b"
  shows "own_pos d i = Some (own_off (hd b) i)"
proof -
  obtain btf base where b: "b = btf # base" "d_btf d = btf\<lparr>types_data := own_data d\<rparr> # base" "btf_chain (d_btf d)"
    and n: "btf__type_cnt (d_btf d) = btf__type_cnt b" "own_type_offs d = take (nr_types btf) (type_offs btf)"
    using assms(1) by (rule ref_okD)
  have "own_index btf i < nr_types btf \<and> own_index btf i < length (type_offs btf)"
    using own_type(1,2) [of "btf\<lparr>types_data := own_data d\<rparr>" base i] b(2,3) n(1) assms(2,3) by (simp add: b(1) own_index_def)
  with assms(2) show ?thesis by (simp add: own_pos_def n(2) b(1,2) own_index_def)
qed


lemma ref_type_spec:
  assumes g: "graph_ok b"
  shows "ref_ok b d \<Longrightarrow> unat i < btf__type_cnt b \<Longrightarrow>
    \<exists>d' r. btf_dedup_ref_type env i d = Some (d', r) \<and> ref_ok b d' \<and> ref_ext b d d' \<and> ref_result b i r \<and>
      (0 \<le> r \<longrightarrow> unat (d_map d' ! unat i) \<le> BTF_MAX_NR_TYPES)"
proof (induction "card (unvisited b d)" arbitrary: d i rule: less_induct)
  case less
  note ok = less.prems(1) and i = less.prems(2)
  let ?n = "btf__type_cnt b" and ?d = "d\<lparr>d_map := (d_map d)[unat i := BTF_IN_PROGRESS_ID]\<rparr>"
  have fm: "flat_map (similar (dgraph b)) ?n (d_map d)" using ok by (rule ref_okD)
  then have l: "unat i < length (d_map d)" using i by (simp add: flat_map_def)
  note unfold = btf_dedup_ref_type.simps [of env i d, unfolded ld_Some [OF l] Option.bind.simps]
  consider (loop) "d_map d ! unat i = BTF_IN_PROGRESS_ID"
    | (mapped) "d_map d ! unat i \<noteq> BTF_IN_PROGRESS_ID" "unat (d_map d ! unat i) \<le> BTF_MAX_NR_TYPES"
    | (new) "d_map d ! unat i \<noteq> BTF_IN_PROGRESS_ID" "\<not> unat (d_map d ! unat i) \<le> BTF_MAX_NR_TYPES" by blast
  then show ?case
  proof cases
    case loop
    with ok show ?thesis by (subst unfold) (simp add: ref_result_def ELOOP_def)
  next
    case mapped
    with ok sim.canon_spec(1,2) [OF fm i] show ?thesis
      by (subst unfold) (simp add: sim.resolve_canon [OF fm i] ref_result_def)
  next
    case new
    then have u: "i \<in> unvisited b d" using i by (simp add: unvisited_def)
    note mk = ref_mark [OF ok g u]
    let ?t = "dgraph (d_btf d) i"
    have cnt: "btf__type_cnt (d_btf d) = ?n" using ok by (rule ref_okD)
    have ti: "btf__type_by_id (d_btf e) (unat i) = Some (dgraph (d_btf e) i)" if "ref_ok b e" for e
    proof -
      have "btf__type_cnt (d_btf e) = ?n" using that by (rule ref_okD)
      with i show ?thesis by (simp add: btf__type_by_id_def dgraph_def)
    qed
    have start: "btf_dedup_ref_type env i d =
        (case ref_case ?t of
           None \<Rightarrow> Some (?d, - EINVAL)
         | Some (offs, hash, same) \<Rightarrow> do {
             (d, r) \<leftarrow> resolve_refs (\<lambda>a d. btf_dedup_ref_type env a d) (List.map (\<lambda>off. own_off (hd b) i + off) offs) ?d;
             if r < 0 then Some (d, r)
             else do {
               t \<leftarrow> btf__type_by_id (d_btf d) (unat i);
               new_id \<leftarrow> first_cand (same t) (d_btf d) (dedup_cands d (hash t)) i;
               (d, err) \<leftarrow> set_canonical env (hash t) i new_id d;
               Some (d, if err \<noteq> 0 then err else sint new_id)
             }
           })"
      using ti [OF mk(3)] by (subst unfold) (simp add: new own_pos_eq [OF ok mk(1) i] mk(2) Let_def cong: option.case_cong)
    show ?thesis
    proof (cases "ref_case ?t")
      case None
      have "ref_ext b d ?d" by (rule ref_ext_visit [OF ref_ext_refl u])
      with None mk(3) show ?thesis by (simp add: start ref_result_def EINVAL_def)
    next
      case (Some rc)
      obtain offs hash same where rc: "ref_case ?t = Some (offs, hash, same)" using Some by (cases rc) auto
      have offs: "List.map (\<lambda>off. own_off (hd b) i + off) offs = List.map (\<lambda>j. own_off (hd b) i + 4 * j) (id_pos (dgraph b i))"
        using ref_case_offs [OF rc] same_node_at(2) [OF ref_nodeD(1) [OF ok i]] by simp
      have "\<exists>d' r. resolve_refs (\<lambda>a d. btf_dedup_ref_type env a d) (List.map (\<lambda>off. own_off (hd b) i + off) offs) ?d = Some (d', r) \<and>
          ref_ok b d' \<and> ref_ext b ?d d' \<and> r \<le> 0"
        unfolding offs
        by (rule resolve_refs_spec [where k = "card (unvisited b d)"])
          (use less.hyps mk i in \<open>blast, simp_all\<close>)
      then obtain d1 r1 where r: "resolve_refs (\<lambda>a d. btf_dedup_ref_type env a d) (List.map (\<lambda>off. own_off (hd b) i + off) offs) ?d = Some (d1, r1)"
        "ref_ok b d1" "ref_ext b ?d d1" "r1 \<le> 0" by blast
      note e1 = ref_ext_visit [OF r(3) u]
      show ?thesis
      proof (cases "r1 < 0")
        case True
        with r e1 show ?thesis by (simp add: start rc ref_result_def)
      next
        case False
        let ?t1 = "dgraph (d_btf d1) i"
        have "info ?t = info ?t1"
          using same_node_at(1) [OF ref_nodeD(1) [OF ok i]] same_node_at(1) [OF ref_nodeD(1) [OF r(2) i]] by simp
        then have rc1: "ref_case ?t1 = Some (offs, hash, same)" using ref_case_cong rc by metis
        have m1: "d_map d1 ! unat i = BTF_IN_PROGRESS_ID" using r(3) i mk(2) by (simp add: ref_ext_def)
        from ref_finish [OF r(2) g mk(1) i m1 rc1]
        obtain v d' e where f: "first_cand (same ?t1) (d_btf d1) (dedup_cands d1 (hash ?t1)) i = Some v"
          "set_canonical env (hash ?t1) i v d1 = Some (d', e)" "ref_ok b d'" "d_map d' = (d_map d1)[unat i := v]"
          "d_btf_ext d' = d_btf_ext d1" "e \<le> 0" "unat v < ?n" "similar (dgraph b) i v" by blast
        have "flat_map (similar (dgraph b)) ?n (d_map d1)" using r(2) by (rule ref_okD)
        with i have l1: "unat i < length (d_map d1)" by (simp add: flat_map_def)
        have "ref_ext b (d\<lparr>d_map := (d_map d)[unat i := v]\<rparr>) d'"
          using r(3) f(4,5) mk(2) l1 by (auto simp: ref_ext_def nth_list_update split: if_splits)
        note e2 = ref_ext_visit [OF this u]
        have "ref_result b i (if e \<noteq> 0 then e else sint v)" using f(6-8) by (simp add: ref_result_def)
        moreover have "unat (d_map d' ! unat i) \<le> BTF_MAX_NR_TYPES"
          using f(4,7) g l1 by (simp add: graph_ok_def)
        ultimately show ?thesis using r(1) False f(1-3) e2 by (simp add: start rc ti [OF r(2)])
      qed
    qed
  qed
qed

section \<open>The pass\<close>

lemma ref_types_spec:
  assumes ok: "ref_ok b d" and g: "graph_ok b"
  shows "\<exists>d' r. btf_dedup_ref_types env d = Some (d', r) \<and> r \<le> 0 \<and> ref_ok b d' \<and> d_btf_ext d' = d_btf_ext d \<and>
    (r = 0 \<longrightarrow> (\<forall>i :: u32. unat i < btf__type_cnt b \<longrightarrow> unat (d_map d' ! unat i) \<le> BTF_MAX_NR_TYPES))"
proof -
  let ?n = "btf__type_cnt b"
  obtain btf base where b: "b = btf # base" "d_btf d = btf\<lparr>types_data := own_data d\<rparr> # base" using ok by (rule ref_okD)
  have own: "own_ids d = [start_id btf..<?n]" by (simp add: own_ids_def b btf__type_cnt_def)
  define Q where "Q d' \<longleftrightarrow> ref_ok b d' \<and> ref_ext b d d'" for d'
  define P where "P is d' \<longleftrightarrow> Q d' \<and> set is \<subseteq> set (own_ids d) \<and>
    (\<forall>i :: u32. unat i \<in> set (own_ids d) - set is \<longrightarrow> unat (d_map d' ! unat i) \<le> BTF_MAX_NR_TYPES)" for "is" d'
  have "\<exists>d' r. btf_dedup_ref_types env d = Some (d', r) \<and> r \<le> 0 \<and> Q d' \<and> (r = 0 \<longrightarrow> P [] d')"
    unfolding btf_dedup_ref_types_def
  proof (rule each_type_rule)
    show "P (own_ids d) d" using ok by (simp add: P_def Q_def)
  next
    fix i "is" d1 assume P: "P (i # is) d1"
    then have ok1: "ref_ok b d1" and e1: "ref_ext b d d1" and lt: "i < ?n" by (auto simp: P_def Q_def own)
    note wi = own_ids_word [OF g lt]
    have "unat (of_nat i :: u32) < ?n" using lt by (simp add: wi)
    from ref_type_spec [OF g ok1 this] obtain d' r where s: "btf_dedup_ref_type env (of_nat i) d1 = Some (d', r)" "ref_ok b d'"
      "ref_ext b d1 d'" "0 \<le> r \<longrightarrow> unat (d_map d' ! i) \<le> BTF_MAX_NR_TYPES" unfolding wi by blast
    have Q: "Q d'" using s(2) ref_ext_trans [OF e1 s(3)] by (simp add: Q_def)
    have "P is d'" if "0 \<le> r"
    proof -
      have "unat (d_map d' ! unat k) \<le> BTF_MAX_NR_TYPES" if k: "unat k \<in> set (own_ids d) - set is" for k :: u32
      proof (cases "unat k = i")
        case True
        with s(4) \<open>0 \<le> r\<close> show ?thesis by simp
      next
        case False
        with P k have m: "unat (d_map d1 ! unat k) \<le> BTF_MAX_NR_TYPES" by (simp add: P_def)
        moreover have "unat k < ?n" using k by (simp add: own)
        ultimately show ?thesis using s(3) by (simp add: ref_ext_def)
      qed
      with Q P show ?thesis by (simp add: P_def)
    qed
    with s(1) Q show "\<exists>d' r. btf_dedup_ref_type env (of_nat i) d1 = Some (d', r) \<and> (if r < 0 then r < 0 \<and> Q d' else P is d')"
      by (simp add: not_less)
  qed (simp add: P_def)
  then obtain d' r where r: "btf_dedup_ref_types env d = Some (d', r)" "r \<le> 0" "Q d'" "r = 0 \<longrightarrow> P [] d'" by blast
  have "unat (d_map d' ! unat i) \<le> BTF_MAX_NR_TYPES" if i: "unat i < ?n" "r = 0" for i :: u32
  proof (cases "unat i < start_id btf")
    case True
    have "d_map d' ! unat i = i" using r(3) True unfolding Q_def ref_ok_def b(1) list.sel by blast
    with graph_okD(3) [OF g i(1)] show ?thesis by simp
  next
    case False
    with r(4) i show ?thesis by (simp add: P_def own)
  qed
  with r show ?thesis by (auto simp: Q_def ref_ext_def)
qed

end
