(* ===== verification/Dedup_Compact.thy ===== *)
theory Dedup_Compact
  imports Dedup_Own
begin

text \<open>
  Compaction, \<open>btf_dedup_compact_types\<close> and \<open>btf_dedup_remap_types\<close> of \<open>src/libbpf/src/btf.c\<close>: the
  canonical types are kept, in order, and the identifiers are those of the kept types.
\<close>

section \<open>Moving the types\<close>

lemma types_from_snoc:
  assumes "types_from d p offs 0" "btf_type_size (type_hdr_at d p) = Some n"
  shows "types_from d (p + n) (offs @ [p]) 0"
proof -
  have "types_from d (p + n) [p] p"
    using assms(2) btf_type_size_ge [OF assms(2)] btf_type_size_dvd [OF assms(2)] by (simp add: types_from_Cons_iff)
  with assms(1) show ?thesis unfolding types_from_append by (intro exI [of _ p]) simp
qed

lemma move_type:
  assumes s: "btf_type_size (type_hdr_at d q) = Some n" "q + n \<le> length d" "p \<le> q"
  defines "d' \<equiv> put d p (take n (drop q d))"
  shows "length d' = length d" "take p d' = take p d" "type_at d' p = type_at d q" "btf_type_size (type_hdr_at d' p) = Some n"
    "\<And>k. q + n \<le> k \<Longrightarrow> get32 d' k = get32 d k"
proof -
  have d': "d' = take p d @ take n (drop q d) @ drop (p + n) d" using s(2) by (simp add: d'_def put_def)
  show "length d' = length d" "take p d' = take p d" using s(2,3) by (simp_all add: d')
  have at: "d' ! (p + k) = d ! (q + k)" if "k < n" for k using s(2,3) that by (simp add: d' nth_append)
  have w: "get32 d' (p + 4 * j) = get32 d (q + 4 * j)" if "j < n div 4" for j
  proof -
    have "4 * j + 4 \<le> n" using that by linarith
    then show ?thesis using at [of "4 * j"] at [of "4 * j + 1"] at [of "4 * j + 2"] at [of "4 * j + 3"]
      by (simp add: get32_def add.assoc)
  qed
  from type_at_eqI [OF s(1) w] show "type_at d' p = type_at d q" "btf_type_size (type_hdr_at d' p) = Some n" by simp_all
  show "get32 d' k = get32 d k" if "q + n \<le> k" for k
  proof -
    have "d' ! i = d ! i" if "k \<le> i" for i
    proof -
      have "p + n \<le> i" "\<not> i - p < n" using \<open>q + n \<le> k\<close> that s(3) by simp_all
      with s(2,3) show ?thesis by (simp add: d' nth_append)
    qed
    then show ?thesis by (simp add: get32_def)
  qed
qed


section \<open>The loop\<close>

definition kept :: "u32 list \<Rightarrow> nat \<Rightarrow> nat \<Rightarrow> nat list" where
  "kept m start i = filter (\<lambda>j. m ! (start + j) = of_nat (start + j)) [0..<i]"

lemma kept_Suc: "kept m start (Suc i) = kept m start i @ (if m ! (start + i) = of_nat (start + i) then [i] else [])"
  by (simp add: kept_def)

lemma kept_le: "length (kept m start i) \<le> i"
  unfolding kept_def by (rule order_trans [OF length_filter_le]) simp

text \<open>After the first \<open>i\<close> types; \<open>q\<close> is the end of the last of them.\<close>

definition compacted ::
  "u8 list \<Rightarrow> nat list \<Rightarrow> u32 list \<Rightarrow> nat \<Rightarrow> nat \<Rightarrow> u8 list \<times> nat list \<times> u32 list \<times> nat \<times> nat \<Rightarrow> nat \<Rightarrow> bool" where
  "compacted data offs m start i s q \<longleftrightarrow>
     (case s of (data', offs', renum, p, n) \<Rightarrow>
        n = length (kept m start i) \<and> p \<le> q \<and> length data' = length data \<and> length offs' = length offs \<and>
        length renum = length m \<and> drop i offs' = drop i offs \<and> (\<forall>k\<ge>q. get32 data' k = get32 data k) \<and>
        types_from data' p (take n offs') 0 \<and>
        (\<forall>k<n. type_at data' (offs' ! k) = type_at data (offs ! (kept m start i ! k)) \<and>
           renum ! (start + kept m start i ! k) = of_nat (start + k)) \<and>
        (\<forall>j < start. renum ! j = of_nat j))"

lemma compacted_keep:
  assumes c: "compacted data offs m start i (data', offs', renum, p, n) q"
    and s: "btf_type_size (type_hdr_at data q) = Some len" "q + len \<le> length data"
    and i: "i < length offs" "offs ! i = q" "start + i < length m" and k: "m ! (start + i) = of_nat (start + i)"
  shows "btf_type_size (type_hdr_at data' q) = Some len"
    "compacted data offs m start (Suc i)
       (put data' p (take len (drop q data')), offs'[n := p], renum[start + i := of_nat (start + n)], p + len, n + 1) (q + len)"
proof -
  let ?ks = "kept m start i" and ?d = "put data' p (take len (drop q data'))"
  have c: "n = length ?ks" "p \<le> q" "length data' = length data" "length offs' = length offs" "length renum = length m"
    "drop i offs' = drop i offs" "types_from data' p (take n offs') 0"
    and rest: "\<And>k. q \<le> k \<Longrightarrow> get32 data' k = get32 data k"
    and nodes: "\<And>k. k < n \<Longrightarrow> type_at data' (offs' ! k) = type_at data (offs ! (?ks ! k)) \<and> renum ! (start + ?ks ! k) = of_nat (start + k)"
    and base: "\<And>j. j < start \<Longrightarrow> renum ! j = of_nat j"
    using c unfolding compacted_def prod.case by blast+
  have "get32 data' (q + 4 * j) = get32 data (q + 4 * j)" if "j < len div 4" for j by (rule rest) simp
  note at = type_at_eqI [OF s(1) this]
  then show s': "btf_type_size (type_hdr_at data' q) = Some len" by simp
  have l': "q + len \<le> length data'" using s(2) c(3) by simp
  note mv = move_type [OF s' l' c(2)]
  have n: "n \<le> i" using c(1) kept_le by simp
  have ks: "kept m start (Suc i) = ?ks @ [i]" using k by (simp add: kept_Suc)
  have in_ks: "?ks ! k < i" if "k < n" for k
  proof -
    have "?ks ! k \<in> set ?ks" using that c(1) by simp
    then show ?thesis by (simp add: kept_def)
  qed
  have pl: "p \<le> length data'" using c(2) l' by simp
  have tk: "take p data' = take p ?d" using mv(2) by simp
  have tf: "types_from ?d p (take n offs') 0" and old: "map (type_at ?d) (take n offs') = map (type_at data') (take n offs')"
    using types_from_cong [OF c(7) tk] by simp_all
  have "take (n + 1) (offs'[n := p]) = take n offs' @ [p]" using n i(1) c(4) by (simp add: take_Suc_conv_app_nth)
  with types_from_snoc [OF tf mv(4)] have tf': "types_from ?d (p + len) (take (n + 1) (offs'[n := p])) 0" by simp
  have node: "type_at ?d (offs'[n := p] ! k) = type_at data (offs ! ((?ks @ [i]) ! k)) \<and>
      renum[start + i := of_nat (start + n)] ! (start + (?ks @ [i]) ! k) = of_nat (start + k)" if "k < n + 1" for k
  proof (cases "k < n")
    case True
    have "map (type_at ?d) (take n offs') ! k = map (type_at data') (take n offs') ! k" by (simp only: old)
    then have "type_at ?d (offs' ! k) = type_at data' (offs' ! k)" using True n i(1) c(4) by simp
    with nodes [OF True] in_ks [OF True] True c(1) show ?thesis by (simp add: nth_append)
  next
    case False
    with that have "k = n" by simp
    with mv(3) at(2) c(1,4,5) n i show ?thesis by (simp add: nth_append)
  qed
  have "drop (Suc i) (offs'[n := p]) = drop (Suc i) offs"
    using n arg_cong [OF c(6), of "drop 1"] by simp
  moreover have "get32 ?d k = get32 data k" if "q + len \<le> k" for k using mv(5) [OF that] rest [of k] that by simp
  ultimately show "compacted data offs m start (Suc i)
       (?d, offs'[n := p], renum[start + i := of_nat (start + n)], p + len, n + 1) (q + len)"
    using c tf' node mv(1) base i(3) unfolding compacted_def ks by simp
qed

lemma compact_loop_spec:
  assumes "i + length is = cnt" "is = [i..<cnt]" "cnt \<le> length offs" "start + cnt \<le> length m" "endt \<le> length data"
    and "compacted data offs m start i s q" "types_from data endt (drop i (take cnt offs)) q"
  shows "\<exists>s' q'. compact_loop m start is s = Some (s', 0) \<and> compacted data offs m start cnt s' q' \<and> q' \<le> endt"
  using assms(1,2,6,7)
proof (induction "is" arbitrary: i s q)
  case Nil
  then show ?case using types_from_le by auto
next
  case (Cons j js)
  have lt: "i < cnt" using Cons.prems(1) by simp
  with Cons.prems(2) have j: "j = i" "i < cnt" "js = [Suc i..<cnt]" by (simp_all add: upt_conv_Cons)
  obtain data' offs' renum p n where s: "s = (data', offs', renum, p, n)" by (metis prod_cases5)
  have "drop i (take cnt offs) = offs ! i # drop (Suc i) (take cnt offs)"
    using j(2) assms(3) by (simp flip: Cons_nth_drop_Suc)
  with Cons.prems(4) obtain len where len: "offs ! i = q" "btf_type_size (type_hdr_at data q) = Some len"
    "q + len \<le> endt" "types_from data endt (drop (Suc i) (take cnt offs)) (q + len)"
    by (auto simp: types_from_Cons_iff)
  have il: "i < length offs" using j(2) assms(3) by simp
  have im: "start + i < length m" using j(2) assms(4) by simp
  then have m: "ld m (start + i) = Some (m ! (start + i))" by simp
  show ?case
  proof (cases "m ! (start + i) = of_nat (start + i)")
    case True
    have le: "q + len \<le> length data" using len(3) assms(5) by simp
    note k = compacted_keep [OF Cons.prems(3) [unfolded s] len(2) le il len(1) im True]
    have "length offs' = length offs" "drop i offs' = drop i offs" using Cons.prems(3) by (simp_all add: s compacted_def)
    then have "ld offs' i = Some q" using il len(1) by (metis hd_drop_conv_nth ld_Some)
    moreover have "Suc i + length js = cnt" using Cons.prems(1) by simp
    note IH = Cons.IH [OF this j(3) k(2) len(4)]
    ultimately show ?thesis using IH k(1) by (simp add: s j(1) m True)
  next
    case False
    have "drop i offs' = drop i offs" using Cons.prems(3) by (simp add: s compacted_def)
    from arg_cong [OF this, of "drop 1"] have "drop (Suc i) offs' = drop (Suc i) offs" by simp
    then have "compacted data offs m start (Suc i) s (q + len)"
      using Cons.prems(3) False by (auto simp: s compacted_def kept_Suc)
    moreover have "Suc i + length js = cnt" using Cons.prems(1) by simp
    ultimately show ?thesis using Cons.IH [OF _ j(3) _ len(4)] False by (simp add: s j(1) m)
  qed
qed


section \<open>Compaction\<close>

text \<open>The renumbering \<open>rn\<close> takes the canonical types of \<open>b\<close> to the types of \<open>b'\<close>, all of them.\<close>

definition renumbers :: "btf list \<Rightarrow> u32 list \<Rightarrow> btf list \<Rightarrow> u32 list \<Rightarrow> bool" where
  "renumbers b m b' rn \<longleftrightarrow>
     length rn = btf__type_cnt b \<and> btf__type_cnt b' \<le> btf__type_cnt b \<and>
     (\<forall>i :: u32. unat i < btf__type_cnt b \<and> m ! unat i = i \<longrightarrow>
        unat (rn ! unat i) < btf__type_cnt b' \<and> dgraph b' (rn ! unat i) = dgraph b i) \<and>
     (\<forall>i :: u32. unat i < start_id (hd b) \<longrightarrow> rn ! unat i = i) \<and>
     (\<forall>j :: u32. unat j < btf__type_cnt b' \<longrightarrow> (\<exists>i. unat i < btf__type_cnt b \<and> m ! unat i = i \<and> rn ! unat i = j))"

lemma renumbersI:
  assumes c: "btf_chain (btf # base)" "btf_chain (btf' # base)" and n: "btf__type_cnt (btf # base) \<le> BTF_MAX_NR_TYPES + 1"
    and m: "length m = btf__type_cnt (btf # base)" "\<And>i. unat i < start_id btf \<Longrightarrow> m ! unat i = i"
    and s: "compacted (types_data btf) (type_offs btf) m (start_id btf) (nr_types btf) (data, offs, rn, p, k) q"
    and b': "types_data btf' = data" "type_offs btf' = take k offs" "nr_types btf' = k" "start_id btf' = start_id btf"
  shows "renumbers (btf # base) m (btf' # base) rn"
proof -
  let ?b = "btf # base" and ?b' = "btf' # base" and ?st = "start_id btf" and ?ks = "kept m (start_id btf) (nr_types btf)"
  have k: "k = length ?ks" "length rn = length m" "length offs = length (type_offs btf)"
    and nodes: "\<And>j. j < k \<Longrightarrow> type_at data (offs ! j) = type_at (types_data btf) (type_offs btf ! (?ks ! j)) \<and>
      rn ! (?st + ?ks ! j) = of_nat (?st + j)"
    and base: "\<And>j. j < ?st \<Longrightarrow> rn ! j = of_nat j"
    using s unfolding compacted_def prod.case by blast+
  have w: "unat (of_nat j :: u32) = j" if "j < btf__type_cnt ?b" for j
    using n that by (intro unat_u32) (simp add: BTF_MAX_NR_TYPES_def)
  have cnt: "btf__type_cnt ?b = ?st + nr_types btf" "btf__type_cnt ?b' = ?st + k" by (simp_all add: btf__type_cnt_def b'(3,4))
  have k_le: "k \<le> nr_types btf" using k(1) kept_le by simp
  have old: "dgraph ?b' i = dgraph ?b i" "rn ! unat i = i" if "unat i < ?st" for i :: u32
    using that base [OF that] by (simp_all add: dgraph_def b'(4))
  have new: "dgraph ?b' (of_nat (?st + j)) = dgraph ?b (of_nat (?st + ?ks ! j))" "?ks ! j < nr_types btf"
    "m ! (?st + ?ks ! j) = of_nat (?st + ?ks ! j)" if "j < k" for j
  proof -
    have "?ks ! j \<in> set ?ks" using that k(1) by simp
    then show lt: "?ks ! j < nr_types btf" "m ! (?st + ?ks ! j) = of_nat (?st + ?ks ! j)" by (simp_all add: kept_def)
    have u: "unat (of_nat (?st + j) :: u32) = ?st + j" "unat (of_nat (?st + ?ks ! j) :: u32) = ?st + ?ks ! j"
      using that k_le lt(1) by (intro w; simp add: cnt)+
    have "dgraph ?b' (of_nat (?st + j)) = type_at data (offs ! j)"
      using own_type(3) [OF c(2), of "of_nat (?st + j)"] u(1) that b' cnt by (simp add: own_index_def)
    also have "\<dots> = dgraph ?b (of_nat (?st + ?ks ! j))"
      using nodes [OF that] own_type(3) [OF c(1), of "of_nat (?st + ?ks ! j)"] u(2) lt(1) cnt by (simp add: own_index_def)
    finally show "dgraph ?b' (of_nat (?st + j)) = dgraph ?b (of_nat (?st + ?ks ! j))" .
  qed
  have "unat (rn ! unat i) < btf__type_cnt ?b' \<and> dgraph ?b' (rn ! unat i) = dgraph ?b i"
    if i: "unat i < btf__type_cnt ?b" "m ! unat i = i" for i :: u32
  proof (cases "unat i < ?st")
    case True
    with old [OF True] cnt show ?thesis by simp
  next
    case False
    have "unat i - ?st \<in> set ?ks" using False i cnt by (simp add: kept_def)
    then obtain j where j: "j < k" "?ks ! j = unat i - ?st" using k(1) by (auto simp: in_set_conv_nth)
    then have e: "?st + ?ks ! j = unat i" using False by simp
    have r: "rn ! unat i = of_nat (?st + j)" using nodes [OF j(1)] by (simp only: e)
    have "dgraph ?b' (of_nat (?st + j)) = dgraph ?b i" using new(1) [OF j(1)] by (simp only: e) simp
    moreover have "unat (of_nat (?st + j) :: u32) = ?st + j" using j(1) k_le by (intro w) (simp add: cnt)
    ultimately show ?thesis using j(1) unfolding r cnt by simp
  qed
  moreover have "\<exists>i. unat i < btf__type_cnt ?b \<and> m ! unat i = i \<and> rn ! unat i = j" if j: "unat j < btf__type_cnt ?b'" for j :: u32
  proof (cases "unat j < ?st")
    case True
    then show ?thesis using m(2) old(2) cnt by (intro exI [of _ j]) simp
  next
    case False
    then have l: "unat j - ?st < k" using j cnt by simp
    let ?i = "?st + ?ks ! (unat j - ?st)"
    have u: "unat (of_nat ?i :: u32) = ?i" using new(2) [OF l] by (intro w) (simp add: cnt)
    have "rn ! ?i = j" using nodes [OF l] False by simp
    with new(2,3) [OF l] show ?thesis by (intro exI [of _ "of_nat ?i"]) (simp only: u, simp add: cnt)
  qed
  ultimately show ?thesis using old(2) k(2) m(1) k_le cnt unfolding renumbers_def by simp
qed

lemma compact_spec:
  assumes b: "d_btf d = btf # base" and c: "btf_chain (btf # base)" and l: "length (d_map d) = btf__type_cnt (btf # base)"
    and n: "btf__type_cnt (btf # base) \<le> BTF_MAX_NR_TYPES + 1" and self: "\<And>i. unat i < start_id btf \<Longrightarrow> d_map d ! unat i = i"
  shows "\<exists>d' r. btf_dedup_compact_types env d = Some (d', r) \<and> r \<le> 0 \<and> (offs_re_ok env \<longrightarrow> r = 0) \<and> d_map d' = d_map d \<and> d_btf_ext d' = d_btf_ext d \<and>
    (r = 0 \<longrightarrow> renumbers (btf # base) (d_map d) (d_btf d') (hypot_map d') \<and> btf_chain (d_btf d') \<and>
      (\<exists>btf'. d_btf d' = btf' # base \<and> start_id btf' = start_id btf) \<and>
      (\<forall>k. btf__str_by_offset (d_btf d') k = btf__str_by_offset (btf # base) k))"
proof -
  let ?st = "start_id btf" and ?cnt = "nr_types btf"
  let ?rn = "List.map of_nat [0..<?st] @ replicate ?cnt BTF_UNPROCESSED_ID"
  have ok: "btf_ok btf" "start_id btf = btf__type_cnt base" "btf_chain base" using c by simp_all
  let ?endt = "unat (type_len (hdr btf))"
  have t: "types_from (types_data btf) ?endt (take ?cnt (type_offs btf)) 0" "?endt \<le> length (types_data btf)" "?cnt \<le> length (type_offs btf)"
    using ok(1) by (simp_all add: btf_ok_def)
  have lm: "length (d_map d) = ?st + ?cnt" using l by (simp add: btf__type_cnt_def)
  have "types_from (types_data btf) 0 [] 0" by simp
  then have "compacted (types_data btf) (type_offs btf) (d_map d) ?st 0 (types_data btf, type_offs btf, ?rn, 0, 0) 0"
    using lm by (simp add: compacted_def kept_def nth_append)
  from compact_loop_spec [OF _ refl t(3) _ t(2) this] lm t(1)
  obtain data offs rn p k q where s: "compact_loop (d_map d) ?st [0..<?cnt] (types_data btf, type_offs btf, ?rn, 0, 0) = Some ((data, offs, rn, p, k), 0)"
    "compacted (types_data btf) (type_offs btf) (d_map d) ?st ?cnt (data, offs, rn, p, k) q" "q \<le> ?endt" by fastforce
  let ?btf1 = "btf\<lparr>types_data := data, type_offs := offs\<rparr>"
  let ?btf2 = "?btf1\<lparr>nr_types := k, hdr := (hdr ?btf1)\<lparr>type_len := of_nat p\<rparr>\<rparr>"
  let ?btf3 = "?btf2\<lparr>type_offs := take k offs, hdr := (hdr ?btf2)\<lparr>str_off := of_nat p\<rparr>,
                raw_size := unat (hdr_len (hdr ?btf2)) + p + unat (str_len (hdr ?btf2))\<rparr>"
  have run: "btf_dedup_compact_types env d =
      (if k \<noteq> 0 \<and> \<not> offs_re_ok env then Some (d\<lparr>d_btf := ?btf2 # base, hypot_map := rn\<rparr>, - ENOMEM)
       else Some (d\<lparr>d_btf := ?btf3 # base, hypot_map := rn\<rparr>, 0))"
    unfolding btf_dedup_compact_types_def b by (simp add: s(1) Let_def)
  show ?thesis
  proof (cases "k \<noteq> 0 \<and> \<not> offs_re_ok env")
    case True
    then show ?thesis by (simp add: run errno_defs)
  next
    case False
    have k: "k = length (kept (d_map d) ?st ?cnt)" "p \<le> q" "length data = length (types_data btf)" "length offs = length (type_offs btf)"
      "types_from data p (take k offs) 0"
      using s(2) unfolding compacted_def prod.case by blast+
    have "p < 2 ^ 32" using k(2) s(3) t(2) ok(1) by (simp add: btf_ok_def)
    then have p: "unat (of_nat p :: u32) = p" by (rule unat_u32)
    have kl: "k \<le> length offs" using k(1,4) t(3) kept_le [of "d_map d" ?st ?cnt] by simp
    have "btf_ok ?btf3" using ok(1) k(2-5) kl p s(3) t(2) by (simp add: btf_ok_def)
    then have ch: "btf_chain (?btf3 # base)" using ok by simp
    have "renumbers (btf # base) (d_map d) (?btf3 # base) rn"
      by (rule renumbersI [OF c ch n l self s(2)]) simp_all
    moreover have "btf__str_by_offset (?btf3 # base) k = btf__str_by_offset (btf # base) k" for k by (simp add: btf_strs_def)
    ultimately show ?thesis using ch unfolding run if_not_P [OF False] by simp
  qed
qed

end
