(* ===== verification/Dedup_Remap.thy ===== *)
theory Dedup_Remap
  imports Dedup_Compact
begin

text \<open>The pass that rewrites the identifiers, \<open>btf_dedup_remap_types\<close> of \<open>src/libbpf/src/btf.c\<close>.\<close>

definition remap_rel :: "u32 list \<times> u32 list \<Rightarrow> u32 \<Rightarrow> u32 \<Rightarrow> bool" where
  "remap_rel c w w' \<longleftrightarrow> (\<exists>x. resolve_type_id (fst c) w = Some x \<and> ld (snd c) (unat x) = Some w')"

interpretation remap: type_visitor btf_dedup_remap_type_id "\<lambda>c'. c' = c" "(=)" remap_rel
    "\<lambda>d p. btf_type_visit_type_ids d p btf_dedup_remap_type_id" id_pos for c
proof unfold_locales
  fix c1 w w' c' err assume "c1 = c" "btf_dedup_remap_type_id w c1 = Some (w', c', err)"
  then show "c' = c \<and> c1 = c' \<and> err \<le> 0 \<and> (err = 0 \<longrightarrow> remap_rel c' w w')"
    by (auto simp: btf_dedup_remap_type_id_def remap_rel_def Option.bind_eq_Some_conv EINVAL_def split: if_splits)
next
  fix t :: btf_type and n assume n: "btf_type_size t = Some n"
  show "\<forall>j\<in>set (id_pos t). 4 * j + 4 \<le> n \<and> j \<noteq> 1" using pos_bounds(1) [OF n] by blast
  show "sorted_wrt (<) (id_pos t)" by (rule pos_bounds(3) [OF n])
next
  fix t t' :: btf_type assume "info t = info t'" then show "id_pos t = id_pos t'" by (rule kind_cong(4))
qed (simp_all add: visit_type_ids_pos)

text \<open>The identifier a type has in the end.\<close>

definition new_id :: "u32 list \<Rightarrow> u32 list \<Rightarrow> u32 \<Rightarrow> u32" where
  "new_id m rn i = rn ! unat (canon m i)"

context canonical_map
begin

lemma remap_one:
  assumes "flat_map sim n m" "unat w < n" "length rn = n" "unat (m ! unat w) \<le> BTF_MAX_NR_TYPES"
    and "\<And>x. unat x < n \<Longrightarrow> m ! unat x = x \<Longrightarrow> unat (rn ! unat x) \<le> BTF_MAX_NR_TYPES"
  shows "btf_dedup_remap_type_id w (m, rn) = Some (new_id m rn w, (m, rn), 0)"
proof -
  let ?x = "canon m w"
  have x: "unat ?x < n" "unat (rn ! unat ?x) \<le> BTF_MAX_NR_TYPES"
    using assms by (auto simp: flat_map_def canon_def)
  with assms(3) show ?thesis
    by (simp add: btf_dedup_remap_type_id_def resolve_canon [OF assms(1,2)] new_id_def not_less)
qed

end


lemma ref_words_map:
  assumes i: "info t' = info t" "length (type_words t') = length (type_words t)"
    and keep: "\<And>j. j < length (type_words t) \<Longrightarrow> j \<notin> set (id_pos t) \<Longrightarrow> type_words t' ! j = type_words t ! j"
    and map: "\<And>j. j \<in> set (id_pos t) \<Longrightarrow> type_words t' ! j = f (type_words t ! j)"
  shows "shape t' = shape t" "ref_words t' = List.map f (ref_words t)"
proof -
  have k: "id_pos t' = id_pos t" by (rule kind_cong(4) [OF i(1)])
  show "shape t' = shape t"
  proof (rule shape_eqI [OF i(1)])
    show "length (rest t') = length (rest t)" using i(2) by simp
    show "type_words t' ! j = type_words t ! j" if "j < length (type_words t')" "j \<notin> set (id_pos t')" for j
      using keep that i(2) k by (simp del: type_words_rest)
  qed
  show "ref_words t' = List.map f (ref_words t)" using map by (simp add: ref_words_def k del: type_words_rest)
qed

text \<open>
  Where all types are mapped and refer to types that are, the pass returns, and every identifier has become
  the one of the type that is kept for it.
\<close>

lemma remap_types_spec:
  assumes b: "d_btf d = btf # base" "btf_chain (btf # base)" "d_btf_ext d = None"
    and m: "flat_map (similar G) n (d_map d)" "\<And>i :: u32. unat i < n \<Longrightarrow> unat (d_map d ! unat i) \<le> BTF_MAX_NR_TYPES"
    and rn: "length (hypot_map d) = n" "\<And>x. unat x < n \<Longrightarrow> d_map d ! unat x = x \<Longrightarrow> unat (hypot_map d ! unat x) \<le> BTF_MAX_NR_TYPES"
    and cnt: "btf__type_cnt (btf # base) \<le> BTF_MAX_NR_TYPES + 1"
    and refs: "\<And>i r. unat i < btf__type_cnt (btf # base) \<Longrightarrow> r \<in> set (ref_words (dgraph (btf # base) i)) \<Longrightarrow> unat r < n"
  shows "\<exists>d' r. btf_dedup_remap_types d = Some (d', r) \<and> r \<le> 0 \<and> btf_chain (d_btf d') \<and>
    (\<exists>data. d_btf d' = btf\<lparr>types_data := data\<rparr> # base) \<and> d_btf_ext d' = None \<and>
    (r = 0 \<longrightarrow> (\<forall>i. start_id btf \<le> unat i \<and> unat i < btf__type_cnt (btf # base) \<longrightarrow>
       shape (dgraph (d_btf d') i) = shape (dgraph (btf # base) i) \<and>
       ref_words (dgraph (d_btf d') i) = List.map (new_id (d_map d) (hypot_map d)) (ref_words (dgraph (btf # base) i))))"
proof -
  let ?c = "(d_map d, hypot_map d)" and ?data = "types_data btf" and ?offs = "take (nr_types btf) (type_offs btf)"
  let ?f = "new_id (d_map d) (hypot_map d)" and ?endt = "unat (type_len (hdr btf))" and ?n = "btf__type_cnt (btf # base)"
  have ok: "btf_ok btf" "start_id btf = btf__type_cnt base" "btf_chain base" using b(2) by simp_all
  have t: "types_from ?data ?endt ?offs 0" "?endt \<le> length ?data" "length ?data < 2 ^ 32" using ok(1) by (simp_all add: btf_ok_def)
  have one: "btf_dedup_remap_type_id w ?c = Some (?f w, ?c, 0)" if "unat w < n" for w
    by (rule sim.remap_one [OF m(1) that rn(1) m(2) [OF that] rn(2)])
  let ?go = "\<lambda>data p. btf_type_visit_type_ids data p btf_dedup_remap_type_id"
  have W: "get32 ?data (off + 4 * j) \<in> {w. unat w < n}" if off: "off \<in> set ?offs" and j: "j \<in> set (id_pos (type_hdr_at ?data off))" for off j
  proof -
    have "?n \<le> 2 ^ 32" using cnt by (simp add: BTF_MAX_NR_TYPES_def)
    then obtain i where i: "start_id btf \<le> unat i" "unat i < ?n" "own_off btf i = off" using own_of_off [OF b(2) _ off] by metis
    note o = own_type [OF b(2) i(1,2), unfolded i(3)]
    obtain l where l: "btf_type_size (type_hdr_at ?data off) = Some l" using o(4) by blast
    have "4 * j + 4 \<le> l" using pos_bounds(1) [OF l] j by blast
    then have "get32 ?data (off + 4 * j) = type_words (dgraph (btf # base) i) ! j"
      using own_words [OF b(2) i(1,2), unfolded i(3), OF l] by simp
    then have "get32 ?data (off + 4 * j) \<in> set (ref_words (dgraph (btf # base) i))"
      using j by (simp add: ref_words_def o(3) del: type_words_rest)
    with refs [OF i(2)] show ?thesis by simp
  qed
  have "visit_types ?go ?offs ?data ?c \<noteq> None"
    by (rule remap.visit_types_defined [OF _ refl t(1,2) W]) (use one in auto)
  then obtain data c r where v: "visit_types ?go ?offs ?data ?c = Some (data, c, r)" by auto
  note nodes = remap.visit_types_nodes [OF v refl t(1,2)]
  let ?d = "set_types_data data d"
  have run: "btf_dedup_remap_types d = Some (?d, r)"
  proof -
    have "own_type_offs d = ?offs" "own_data d = ?data" "d_btf_ext ?d = None" using b(1,3) by (simp_all add: own_type_offs_def own_data_def set_types_data_def)
    then show ?thesis using v by (simp add: btf_dedup_remap_types_def Let_def)
  qed
  have db: "d_btf ?d = btf\<lparr>types_data := data\<rparr> # base" using b(1) by (simp add: set_types_data_def)
  have ch: "btf_chain (btf\<lparr>types_data := data\<rparr> # base)" using ok t nodes(1,5) by (simp add: btf_ok_def)
  have "shape (dgraph (d_btf ?d) i) = shape (dgraph (btf # base) i) \<and>
      ref_words (dgraph (d_btf ?d) i) = List.map ?f (ref_words (dgraph (btf # base) i))"
    if i: "start_id btf \<le> unat i" "unat i < ?n" and r: "r = 0" for i
  proof -
    note o = own_type [OF b(2) i]
    note off = own_off_in [OF b(2) i]
    have o': "dgraph (d_btf ?d) i = type_at data (own_off btf i)"
      using own_type(3) [OF ch, of i] i by (simp add: db own_index_def btf__type_cnt_def)
    have "type_words (type_at data (own_off btf i)) ! j = ?f (type_words (type_at ?data (own_off btf i)) ! j)"
      if j: "j \<in> set (id_pos (type_at ?data (own_off btf i)))" for j
    proof -
      have c: "c = ?c" by (rule nodes(2))
      have "unat (type_words (type_at ?data (own_off btf i)) ! j) < n"
        using refs [OF i(2)] j by (simp add: ref_words_def o(3) del: type_words_rest)
      from one [OF this] nodes(8) [OF off r j] show ?thesis
        by (auto simp: c remap_rel_def btf_dedup_remap_type_id_def Option.bind_eq_Some_conv EINVAL_def split: if_splits)
    qed
    with nodes(6,7) [OF off] show ?thesis unfolding o' o(3) by (intro conjI ref_words_map) auto
  qed
  moreover have "d_btf_ext ?d = None" using b(1,3) by (simp add: set_types_data_def)
  ultimately show ?thesis using run nodes(4) ch db by auto
qed

end
