(* ===== verification/Dedup_Strings.thy ===== *)
theory Dedup_Strings
  imports Dedup_Own Btf_Table
begin

text \<open>
  The pass over the strings, \<open>btf_dedup_strings\<close> of \<open>src/libbpf/src/btf.c\<close>: names are moved into a new
  string set or to the base, and keep their strings.
\<close>

section \<open>The new string section\<close>

definition sset_inv :: "strset \<Rightarrow> bool" where
  "sset_inv ss \<longleftrightarrow>
     strset_ok ss \<and> length (strs_data ss) \<le> BTF_MAX_STR_OFFSET \<and> strs_data_max_len ss = BTF_MAX_STR_OFFSET \<and>
     (let sec = take (strs_data_len ss) (strs_data ss) in sec = [] \<or> last sec = 0)"

text \<open>The object with the new set.\<close>

definition with_set :: "btf \<Rightarrow> strset \<Rightarrow> btf" where
  "with_set btf ss = btf\<lparr>hdr := (hdr btf)\<lparr>str_len := of_nat (strs_data_len ss)\<rparr>, strs_set := ss, strs_deduped := True\<rparr>"

lemma with_set_simps [simp]:
  "start_str_off (with_set btf ss) = start_str_off btf" "start_id (with_set btf ss) = start_id btf"
  "nr_types (with_set btf ss) = nr_types btf" "types_data (with_set btf ss) = types_data btf"
  "type_offs (with_set btf ss) = type_offs btf" "modifiable (with_set btf ss) = modifiable btf"
  "type_len (hdr (with_set btf ss)) = type_len (hdr btf)" "strs_set (with_set btf ss) = ss"
  by (simp_all add: with_set_def)

lemma with_set_ok:
  assumes "modifiable btf" "sset_inv ss"
  shows "strs_ok (with_set btf ss)" "str_sec (with_set btf ss) = take (strs_data_len ss) (strs_data ss)"
    "unat (str_len (hdr (with_set btf ss))) = strs_data_len ss" "strs_data_len ss \<le> BTF_MAX_STR_OFFSET"
proof -
  have s: "strset_ok ss" "strs_data_len ss \<le> length (strs_data ss)" "length (strs_data ss) \<le> BTF_MAX_STR_OFFSET"
    "strs_data_max_len ss = BTF_MAX_STR_OFFSET"
    "take (strs_data_len ss) (strs_data ss) = [] \<or> last (take (strs_data_len ss) (strs_data ss)) = 0"
    using assms(2) strset_ok_len by (auto simp: sset_inv_def Let_def)
  then show "strs_data_len ss \<le> BTF_MAX_STR_OFFSET" by simp
  then have "strs_data_len ss < 2 ^ 32" by (simp add: BTF_MAX_STR_OFFSET_def)
  then show u: "unat (str_len (hdr (with_set btf ss))) = strs_data_len ss" by (simp add: with_set_def unat_u32)
  show sec: "str_sec (with_set btf ss) = take (strs_data_len ss) (strs_data ss)"
    using assms(1) by (simp add: str_sec_def btf_strs_def u)
  have "length (strs_data ss) < 2 ^ 32" using s(3) by (simp add: BTF_MAX_STR_OFFSET_def)
  then show "strs_ok (with_set btf ss)" using s assms(1) u by (simp add: strs_ok_def sec)
qed

lemma sset_inv_new:
  assumes "strset_new a m dt al BTF_MAX_STR_OFFSET None = Inr ss" shows "sset_inv ss" "strs_data_len ss = 0"
  using assms strset_empty_ok [of BTF_MAX_STR_OFFSET] by (auto simp: strset_new_def sset_inv_def Let_def split: if_splits)

lemma sset_inv_add:
  assumes i: "sset_inv ss" and s: "0 \<notin> set s" and a: "strset_add_str al ok ss s = (ss', r)"
  defines "sec \<equiv> take (strs_data_len ss) (strs_data ss)" and "sec' \<equiv> take (strs_data_len ss') (strs_data ss')"
  shows "sset_inv ss'" "sec' = sec \<or> sec' = sec @ s @ [0]" "0 \<le> r \<Longrightarrow> nat r < strs_data_len ss' \<and> c_str sec' (nat r) = s"
proof -
  have i: "strset_ok ss" "strs_data_len ss \<le> length (strs_data ss)" "length (strs_data ss) \<le> BTF_MAX_STR_OFFSET"
    "strs_data_max_len ss = BTF_MAX_STR_OFFSET" "sec = [] \<or> last sec = 0"
    using i strset_ok_len by (auto simp: sset_inv_def sec_def Let_def)
  note d = add_str_data [OF a i(2)] and sp = add_str_spec [OF i(1) s a]
  have len: "strs_data_len ss' = strs_data_len ss \<or> strs_data_len ss' = strs_data_len ss + length s + 1" using sp by auto
  show ext: "sec' = sec \<or> sec' = sec @ s @ [0]"
    using len
  proof
    assume "strs_data_len ss' = strs_data_len ss"
    with d(3) show ?thesis by (simp add: sec_def sec'_def)
  next
    assume "strs_data_len ss' = strs_data_len ss + length s + 1"
    from d(4) [OF this] show ?thesis by (simp add: sec_def sec'_def)
  qed
  then have "sec' = [] \<or> last sec' = 0" using i(5) by auto
  with d(1,2) i sp show "sset_inv ss'" by (auto simp: sset_inv_def sec'_def Let_def)
  show "nat r < strs_data_len ss' \<and> c_str sec' (nat r) = s" if r0: "0 \<le> r"
  proof -
    obtain k where k: "r = int k" "(s, k) \<in> strset_offsets ss'" using sp r0 by (auto simp: errno_defs)
    have "strset_ok ss'" using sp by auto
    note o = offsets_str [OF this k(2)]
    show ?thesis using o c_str_take [OF o(2)] by (simp add: k(1) sec'_def terminated_def)
  qed
qed

section \<open>One name\<close>

text \<open>An offset that is not 0 leads to the same string.\<close>

definition same_name :: "btf list \<Rightarrow> btf list \<Rightarrow> u32 \<Rightarrow> u32 \<Rightarrow> bool" where
  "same_name b b' w w' \<longleftrightarrow>
     (if w = 0 then w' = 0
      else \<forall>s. btf__str_by_offset b (unat w) = Some s \<longrightarrow> btf__str_by_offset b' (unat w') = Some s)"

lemma same_name_keeps: "same_name b b1 w w' \<Longrightarrow> keeps_strs b1 b2 \<Longrightarrow> same_name b b2 w w'"
  by (auto simp: same_name_def keeps_strs_def)

definition strs_view :: "btf_dedup \<Rightarrow> btf list" where
  "strs_view d = with_set (hd (d_btf d)) (d_strs_set d) # tl (d_btf d)"

definition strs_inv :: "btf \<Rightarrow> btf list \<Rightarrow> btf_dedup \<Rightarrow> btf_dedup \<Rightarrow> bool" where
  "strs_inv btf base0 d0 d \<longleftrightarrow>
     (\<exists>base. d = d0\<lparr>d_btf := btf # base, d_strs_set := d_strs_set d\<rparr> \<and> list_all2 same_sec base0 base \<and>
        same_tables base0 base) \<and> sset_inv (d_strs_set d)"

definition str_pre :: "btf \<Rightarrow> btf list \<Rightarrow> bool" where
  "str_pre btf base \<longleftrightarrow>
     strs_chain (btf # base) \<and> btf_chain (btf # base) \<and> modifiable btf \<and> start_str_off btf \<le> 2 ^ 31"

lemma strs_invD:
  assumes "strs_inv btf base0 d0 d" "str_pre btf base0"
  obtains base where "d_btf d = btf # base" "list_all2 same_sec base0 base" "same_tables base0 base"
    "strs_view d = with_set btf (d_strs_set d) # base" "strs_chain base" "str_end base = start_str_off btf"
    "strs_chain (strs_view d)" "btf_chain base" "\<And>k. btf__str_by_offset (btf # base) k = btf__str_by_offset (btf # base0) k"
    "d = d0\<lparr>d_btf := btf # base, d_strs_set := d_strs_set d\<rparr>"
proof -
  obtain base where b: "d = d0\<lparr>d_btf := btf # base, d_strs_set := d_strs_set d\<rparr>" "list_all2 same_sec base0 base" "same_tables base0 base"
    and ss: "sset_inv (d_strs_set d)" using assms(1) by (auto simp: strs_inv_def)
  have db: "d_btf d = btf # base" by (subst b(1)) simp
  have p: "strs_chain base0" "start_str_off btf = str_end base0" "modifiable btf" "btf_chain base0" using assms(2) by (simp_all add: str_pre_def)
  note ch = same_secs_chain [OF b(2) p(1)]
  have v: "strs_view d = with_set btf (d_strs_set d) # base" by (simp add: strs_view_def db)
  show thesis
  proof (rule that [OF db b(2,3) v])
    show "strs_chain base" "str_end base = start_str_off btf" using ch p(2) by simp_all
    show "strs_chain (strs_view d)" using ch p(2) with_set_ok(1) [OF p(3) ss] by (simp add: v)
    show "btf_chain base" by (rule same_tables_chain(1) [OF b(3) p(4)])
    show "btf__str_by_offset (btf # base) k = btf__str_by_offset (btf # base0) k" for k
      using same_sec_lookup [OF b(2) p(1)] by simp
  qed (rule b(1))
qed


lemma find_base:
  assumes "(if base = [] then (base, - ENOENT) else btf__find_str env base s) = (base', e)"
    and "strs_chain base" "btf_chain base" "0 \<notin> set s"
  shows "list_all2 same_sec base base'" "same_tables base base'" "0 \<le> e \<Longrightarrow> str_at base' e s"
  using assms find_str_strs [OF _ assms(2,4)] find_str_tables [OF _ assms(3)] same_tables_refl
  by (auto simp: errno_defs split: if_splits)

lemma strs_inv_base:
  assumes i: "strs_inv btf base0 d0 d" and b: "d_btf d = btf # base" "list_all2 same_sec base base'" "same_tables base base'"
    and ss: "sset_inv ss"
  shows "strs_inv btf base0 d0 (d\<lparr>d_btf := btf # base', d_strs_set := ss\<rparr>)"
proof -
  obtain base1 where i: "d = d0\<lparr>d_btf := btf # base1, d_strs_set := d_strs_set d\<rparr>" "list_all2 same_sec base0 base1" "same_tables base0 base1"
    using i by (auto simp: strs_inv_def)
  have "d_btf d = btf # base1" by (subst i(1)) simp
  with b(1) have e: "base1 = base" by simp
  have "list_all2 same_sec base0 base'" by (rule list_all2_trans [OF same_sec_trans i(2) [unfolded e] b(2)])
  moreover have "same_tables base0 base'" by (rule same_tables_trans [OF i(3) [unfolded e] b(3)])
  moreover have "d\<lparr>d_btf := btf # base', d_strs_set := ss\<rparr> = d0\<lparr>d_btf := btf # base', d_strs_set := ss\<rparr>"
    by (subst i(1)) simp
  ultimately show ?thesis using ss unfolding strs_inv_def by auto
qed

lemma word_off: "0 \<le> r \<Longrightarrow> nat r < 2 ^ 32 \<Longrightarrow> unat (word_of_int r :: u32) = nat r"
  by (simp add: unsigned_of_int take_bit_int_eq_self)

lemma remap_str_step:
  assumes pre: "str_pre btf base0" and inv: "strs_inv btf base0 d0 (fst c)"
    and v: "strs_dedup_remap_str_off env w c = Some (w', c', err)"
  shows "strs_inv btf base0 d0 (fst c') \<and> keeps_strs (strs_view (fst c)) (strs_view (fst c')) \<and> err \<le> 0 \<and>
    (err = 0 \<longrightarrow> same_name (btf # base0) (strs_view (fst c')) w w')"
proof -
  obtain d n where c: "c = (d, n)" by fastforce
  have inv: "strs_inv btf base0 d0 d" using inv by (simp add: c)
  obtain base where b: "d_btf d = btf # base" "list_all2 same_sec base0 base" "same_tables base0 base"
    and vw: "strs_view d = with_set btf (d_strs_set d) # base" and ch: "strs_chain base" "str_end base = start_str_off btf"
    "strs_chain (strs_view d)" "btf_chain base"
    and look: "\<And>k. btf__str_by_offset (btf # base) k = btf__str_by_offset (btf # base0) k"
    using strs_invD [OF inv pre] by metis
  have md: "modifiable btf" and st: "start_str_off btf \<le> 2 ^ 31" using pre by (simp_all add: str_pre_def)
  have ss: "sset_inv (d_strs_set d)" using inv by (simp add: strs_inv_def)
  show ?thesis
  proof (cases "w = 0 \<or> unat w < start_str_off btf")
    case True
    then have e: "w' = w" "c' = c" "err = 0" using v by (auto simp: strs_dedup_remap_str_off_def c b(1))
    have "same_name (btf # base0) (strs_view d) w w"
      using True look [of "unat w"] by (auto simp: same_name_def vw)
    with inv show ?thesis by (simp add: e c keeps_strs_def)
  next
    case False
    then obtain s where s: "btf__str_by_offset (btf # base) (unat w) = Some s"
      using v by (auto simp: strs_dedup_remap_str_off_def c b(1) Option.bind_eq_Some_conv)
    obtain base' e where f: "(if base = [] then (base, - ENOENT) else btf__find_str (find_env env n) base s) = (base', e)" by fastforce
    have s0: "0 \<notin> set s" by (rule str_by_offset_no_zero [OF s])
    note fb = find_base [OF f ch(1,4) s0]
    note ch' = same_secs_chain [OF fb(1) ch(1)]
    let ?d1 = "d\<lparr>d_btf := btf # base'\<rparr>"
    have i1: "strs_inv btf base0 d0 ?d1" using strs_inv_base [OF inv b(1) fb(1,2) ss] by simp
    have v1: "strs_view ?d1 = with_set btf (d_strs_set d) # base'" by (simp add: strs_view_def)
    have k1: "keeps_strs (strs_view d) (strs_view ?d1)"
      using same_sec_lookup [OF fb(1) ch(1)] by (simp add: keeps_strs_def vw v1)
    have body: "Some (w', c', err) =
        (if e \<ge> 0 then Some (word_of_int e, (?d1, n + 1), 0)
         else if e \<noteq> - ENOENT then Some (w, (?d1, n + 1), e)
         else let (ss, off) = strset_add_str (str_al (add_env env n)) (str_ok (add_env env n)) (d_strs_set ?d1) s;
                  d = ?d1\<lparr>d_strs_set := ss\<rparr> in
              if off < 0 then Some (w, (d, n + 1), off)
              else Some (of_nat (start_str_off btf) + word_of_int off, (d, n + 1), 0))"
      using v [symmetric] False s f unfolding strs_dedup_remap_str_off_def c prod.case b(1) list.case by simp
    have name: "same_name (btf # base0) b2 w w'" if "btf__str_by_offset b2 (unat w') = Some s" for b2
      using that s look False by (simp add: same_name_def)
    show ?thesis
    proof (cases "0 \<le> e")
      case True
      then have e: "w' = word_of_int e" "c' = (?d1, n + 1)" "err = 0" using body by simp_all
      have at: "btf__str_by_offset base' (nat e) = Some s" using fb(3) [OF True] by (simp add: str_at_def)
      have lt: "nat e < start_str_off btf" using lookup_less_end [OF _ at] ch' ch(2) by simp
      then have "unat w' = nat e" using st True unfolding e by (intro word_off) simp_all
      then have "same_name (btf # base0) (strs_view ?d1) w w'" using at lt by (intro name) (simp add: v1)
      with i1 k1 show ?thesis by (simp add: e c)
    next
      case neg: False
      show ?thesis
      proof (cases "e = - ENOENT")
        case False
        with body neg i1 k1 show ?thesis by (simp add: c)
      next
        case True
        obtain ss' off where a: "strset_add_str (str_al (add_env env n)) (str_ok (add_env env n)) (d_strs_set d) s = (ss', off)" by fastforce
        note ad = sset_inv_add [OF ss s0 a]
        let ?d2 = "?d1\<lparr>d_strs_set := ss'\<rparr>"
        have i2: "strs_inv btf base0 d0 ?d2" using strs_inv_base [OF inv b(1) fb(1,2) ad(1)] by simp
        have v2: "strs_view ?d2 = with_set btf ss' # base'" by (simp add: strs_view_def)
        note w1 = with_set_ok [OF md ss] and w2 = with_set_ok [OF md ad(1)]
        have ext: "str_sec (with_set btf ss') = str_sec (with_set btf (d_strs_set d)) \<or>
            str_sec (with_set btf ss') = str_sec (with_set btf (d_strs_set d)) @ s @ [0]"
          using ad(2) by (simp add: w1(2) w2(2))
        have "strs_grow (strs_view d) (strs_view ?d2)"
          unfolding vw v2 by (rule grow_top [OF _ fb(1) w2(1) _ ext]) (use ch(3) in \<open>simp_all add: vw\<close>)
        then have k2: "keeps_strs (strs_view d) (strs_view ?d2)" by (simp add: strs_grow_def keeps_strs_def)
        show ?thesis
        proof (cases "off < 0")
          case True
          with body neg \<open>e = _\<close> a i2 k2 show ?thesis by (simp add: c)
        next
          case False
          then have e: "w' = of_nat (start_str_off btf) + word_of_int off" "c' = (?d2, n + 1)" "err = 0"
            using body neg True a by simp_all
          have o: "nat off < strs_data_len ss'" "c_str (take (strs_data_len ss') (strs_data ss')) (nat off) = s" using ad(3) False by simp_all
          have w: "w' = word_of_int (int (start_str_off btf) + off)" by (simp add: e(1))
          have n: "nat (int (start_str_off btf) + off) = start_str_off btf + nat off" using False by (simp add: nat_add_distrib)
          have "start_str_off btf + nat off < 2 ^ 32" using st o(1) w2(4) by (simp add: BTF_MAX_STR_OFFSET_def)
          then have "unat w' = start_str_off btf + nat off" unfolding w n [symmetric] using False by (intro word_off) simp_all
          moreover have "nat off < length (str_sec (with_set btf ss'))" using o(1) w2(1,3) by (simp add: strs_ok_def)
          moreover have "c_str (str_sec (with_set btf ss')) (nat off) = s" using o(2) by (simp add: w2(2))
          ultimately have "same_name (btf # base0) (strs_view ?d2) w w'"
            by (intro name) (simp add: v2 str_by_offset_sec [OF w2(1)] del: btf__str_by_offset.simps(2))
          with i2 k2 show ?thesis by (simp add: e c)
        qed
      qed
    qed
  qed
qed


interpretation dedup_names: type_visitor "strs_dedup_remap_str_off env"
    "\<lambda>c. str_pre btf base0 \<and> strs_inv btf base0 d0 (fst c)" "\<lambda>c c'. keeps_strs (strs_view (fst c)) (strs_view (fst c'))"
    "\<lambda>c. same_name (btf # base0) (strs_view (fst c))" "\<lambda>data p. btf_type_visit_str_offs data p (strs_dedup_remap_str_off env)" str_pos
  for env btf base0 d0
proof unfold_locales
  fix t t' :: btf_type assume "info t = info t'" then show "str_pos t = str_pos t'" by (rule kind_cong(5))
next
  fix t :: btf_type and n assume n: "btf_type_size t = Some n"
  show "\<forall>j\<in>set (str_pos t). 4 * j + 4 \<le> n \<and> j \<noteq> 1" using pos_bounds(1) [OF n] by blast
  show "sorted_wrt (<) (str_pos t)" by (rule pos_bounds(2) [OF n])
next
  show "btf_type_visit_str_offs d p (strs_dedup_remap_str_off env) c =
      visit_words (\<lambda>err. err \<noteq> 0) (strs_dedup_remap_str_off env) (offs_of p (str_pos (type_hdr_at d p))) d c" for d p c
    by (rule visit_str_offs_pos)
next
  fix c w w' c' err
  assume c: "str_pre btf base0 \<and> strs_inv btf base0 d0 (fst c)" and v: "strs_dedup_remap_str_off env w c = Some (w', c', err)"
  from c remap_str_step [OF _ _ v]
  show "(str_pre btf base0 \<and> strs_inv btf base0 d0 (fst c')) \<and> keeps_strs (strs_view (fst c)) (strs_view (fst c')) \<and>
      err \<le> 0 \<and> (err = 0 \<longrightarrow> same_name (btf # base0) (strs_view (fst c')) w w')" by blast
next
  show "keeps_strs (strs_view (fst c)) (strs_view (fst c))" for c :: "btf_dedup \<times> nat" by (simp add: keeps_strs_def)
  show "keeps_strs (strs_view (fst c1)) (strs_view (fst c2)) \<Longrightarrow> keeps_strs (strs_view (fst c2)) (strs_view (fst c3)) \<Longrightarrow>
      keeps_strs (strs_view (fst c1)) (strs_view (fst c3))" for c1 c2 c3 :: "btf_dedup \<times> nat" by (simp add: keeps_strs_def)
  show "same_name (btf # base0) (strs_view (fst c)) w w' \<Longrightarrow> keeps_strs (strs_view (fst c)) (strs_view (fst c')) \<Longrightarrow>
      same_name (btf # base0) (strs_view (fst c')) w w'" for c c' :: "btf_dedup \<times> nat" and w w' by (rule same_name_keeps)
qed

section \<open>The pass\<close>

text \<open>The types after the pass: names and nothing else have changed.\<close>

definition renamed :: "btf list \<Rightarrow> btf list \<Rightarrow> btf_type \<Rightarrow> btf_type \<Rightarrow> bool" where
  "renamed b b' t t' \<longleftrightarrow>
     info t' = info t \<and> length (type_words t') = length (type_words t) \<and>
     (\<forall>j<length (type_words t).
        if j \<in> set (str_pos t) then same_name b b' (type_words t ! j) (type_words t' ! j)
        else type_words t' ! j = type_words t ! j)"

text \<open>Every name is a string of the object; a name of the base one of the base.\<close>

definition names_ok :: "btf list \<Rightarrow> bool" where
  "names_ok b \<longleftrightarrow>
     (\<forall>i. unat i < btf__type_cnt b \<longrightarrow> (\<forall>j\<in>set (str_pos (dgraph b i)). let w = type_words (dgraph b i) ! j in
        w = 0 \<or> (if unat i < start_id (hd b) then unat w < start_str_off (hd b) else btf__str_by_offset b (unat w) \<noteq> None)))"

lemma names_okD:
  assumes "names_ok (btf # base)" "unat i < btf__type_cnt (btf # base)" "j \<in> set (str_pos (dgraph (btf # base) i))"
  shows "start_id btf \<le> unat i \<Longrightarrow> type_words (dgraph (btf # base) i) ! j = 0 \<or>
      btf__str_by_offset (btf # base) (unat (type_words (dgraph (btf # base) i) ! j)) \<noteq> None"
    "unat i < start_id btf \<Longrightarrow> type_words (dgraph (btf # base) i) ! j = 0 \<or>
      unat (type_words (dgraph (btf # base) i) ! j) < start_str_off btf"
proof -
  have "let w = type_words (dgraph (btf # base) i) ! j in
      w = 0 \<or> (if unat i < start_id btf then unat w < start_str_off btf else btf__str_by_offset (btf # base) (unat w) \<noteq> None)"
    using assms unfolding names_ok_def list.sel by blast
  then show "start_id btf \<le> unat i \<Longrightarrow> type_words (dgraph (btf # base) i) ! j = 0 \<or>
      btf__str_by_offset (btf # base) (unat (type_words (dgraph (btf # base) i) ! j)) \<noteq> None"
    "unat i < start_id btf \<Longrightarrow> type_words (dgraph (btf # base) i) ! j = 0 \<or>
      unat (type_words (dgraph (btf # base) i) ! j) < start_str_off btf"
    unfolding Let_def by (metis not_less)+
qed

lemma strs_dedup_runs:
  assumes "str_pre btf base0" "strs_inv btf base0 d0 (fst c)" "w = 0 \<or> btf__str_by_offset (btf # base0) (unat w) \<noteq> None"
  shows "strs_dedup_remap_str_off env w c \<noteq> None"
proof -
  obtain d n where c: "c = (d, n)" by fastforce
  have "strs_inv btf base0 d0 d" using assms(2) by (simp add: c)
  then obtain base where "d_btf d = btf # base" "\<And>k. btf__str_by_offset (btf # base) k = btf__str_by_offset (btf # base0) k"
    using strs_invD [OF _ assms(1)] by metis
  with assms(3) show ?thesis
    unfolding strs_dedup_remap_str_off_def c by (auto simp: Let_def simp del: btf__str_by_offset.simps(2) split: prod.splits)
qed


lemma same_tables_types:
  assumes "same_tables b b'" "btf_chain b" "i < btf__type_cnt b"
  shows "btf_type_by_id b' i = btf_type_by_id b i"
proof -
  have "list_all2 same_table b b' \<Longrightarrow> btf_chain b \<Longrightarrow> i < btf__type_cnt b \<Longrightarrow> btf_type_by_id b' i = btf_type_by_id b i" for b b'
  proof (induction b b' rule: list_all2_induct)
    case (Cons x xs y ys)
    have xs: "btf_chain xs" "start_id x = btf__type_cnt xs" using Cons.prems(1) by simp_all
    note t = Cons.hyps(1) [unfolded same_table_def]
    have "same_tables xs ys" using Cons.hyps(2) by (simp add: same_tables_def)
    with t xs have "btf_chain (y # ys)" using same_tables_chain [OF _ xs(1)] by simp
    moreover have "btf__type_cnt (y # ys) = btf__type_cnt (x # xs)" using t by (simp add: btf__type_cnt_def)
    moreover have "btf_type_by_id ys i = btf_type_by_id xs i" if "i < start_id x" using Cons.IH xs that by simp
    ultimately show ?case using Cons.prems t by (simp add: type_by_id_view del: btf_type_by_id.simps btf_chain.simps)
  qed simp
  with assms show ?thesis by (simp add: same_tables_def)
qed

definition strs_post :: "btf list \<Rightarrow> btf_dedup \<Rightarrow> btf_dedup \<Rightarrow> bool" where
  "strs_post b d d' \<longleftrightarrow>
     d' = d\<lparr>d_btf := d_btf d', d_strs_set := d_strs_set d'\<rparr> \<and> btf_chain (d_btf d') \<and> strs_chain (d_btf d') \<and>
     d_btf d' \<noteq> [] \<and> start_id (hd (d_btf d')) = start_id (hd b) \<and> start_str_off (hd (d_btf d')) = start_str_off (hd b) \<and>
     btf__type_cnt (d_btf d') = btf__type_cnt b \<and>
     (\<forall>i. unat i < btf__type_cnt b \<longrightarrow> renamed b (d_btf d') (dgraph b i) (dgraph (d_btf d') i))"

lemma renamed_keep:
  assumes "t' = t" "\<And>j s. j \<in> set (str_pos t) \<Longrightarrow> type_words t ! j \<noteq> 0 \<Longrightarrow>
    btf__str_by_offset b (unat (type_words t ! j)) = Some s \<Longrightarrow> btf__str_by_offset b' (unat (type_words t ! j)) = Some s"
  shows "renamed b b' t t'"
  using assms by (simp add: renamed_def same_name_def)

lemma set_data_strs:
  "btf__str_by_offset (btf\<lparr>types_data := x\<rparr> # base) k = btf__str_by_offset (btf # base) k"
  "strs_chain (btf\<lparr>types_data := x\<rparr> # base) = strs_chain (btf # base)"
  by (simp_all add: btf_strs_def strs_ok_def str_sec_def)

lemma strs_each:
  assumes pre: "str_pre btf base0" and b: "d_btf d = btf # base0" "d_btf_ext d = None" and n: "names_ok (btf # base0)"
    and cnt: "btf__type_cnt (btf # base0) \<le> 2 ^ 32" and ss: "sset_inv ss"
  shows "\<exists>d' r. btf_for_each_str_off (strs_dedup_remap_str_off env) (d\<lparr>d_strs_set := ss\<rparr>) = Some (d', r) \<and> r \<le> 0 \<and>
    (\<exists>base data. d_btf d' = btf\<lparr>types_data := data\<rparr> # base \<and>
       strs_post (btf # base0) d (d'\<lparr>d_btf := with_set (btf\<lparr>types_data := data\<rparr>) (d_strs_set d') # base\<rparr>) \<or> r \<noteq> 0)"
proof -
  let ?b = "btf # base0" and ?data = "types_data btf" and ?offs = "take (nr_types btf) (type_offs btf)" and ?c = "(d\<lparr>d_strs_set := ss\<rparr>, 1)"
  let ?endt = "unat (type_len (hdr btf))" and ?go = "\<lambda>data p. btf_type_visit_str_offs data p (strs_dedup_remap_str_off env)"
  have p: "btf_chain ?b" "strs_chain base0" "btf_chain base0" "btf_ok btf" using pre by (simp_all add: str_pre_def)
  have t: "types_from ?data ?endt ?offs 0" "?endt \<le> length ?data" "length ?data < 2 ^ 32" using p(4) by (simp_all add: btf_ok_def)
  have "strs_inv btf base0 d (d\<lparr>d_strs_set := ss\<rparr>)"
    unfolding strs_inv_def using b(1) ss same_secs_refl [OF p(2)] same_tables_refl [OF p(3)]
    by (intro conjI exI [of _ base0]) (cases d, simp_all)
  with pre have c: "str_pre btf base0 \<and> strs_inv btf base0 d (fst ?c)" by simp
  have W: "get32 ?data (off + 4 * j) \<in> {w. w = 0 \<or> btf__str_by_offset ?b (unat w) \<noteq> None}"
    if off: "off \<in> set ?offs" and j: "j \<in> set (str_pos (type_hdr_at ?data off))" for off j
  proof -
    obtain i where i: "start_id btf \<le> unat i" "unat i < btf__type_cnt ?b" "own_off btf i = off" using own_of_off [OF p(1) cnt off] by metis
    note o = own_type [OF p(1) i(1,2), unfolded i(3)]
    obtain l where l: "btf_type_size (type_hdr_at ?data off) = Some l" using o(4) by blast
    have "4 * j + 4 \<le> l" using pos_bounds(1) [OF l] j by blast
    then have w: "get32 ?data (off + 4 * j) = type_words (dgraph ?b i) ! j"
      using own_words [OF p(1) i(1,2), unfolded i(3), OF l] by simp
    have "j \<in> set (str_pos (dgraph ?b i))" using j by (simp add: o(3))
    from names_okD(1) [OF n i(2) this i(1)] show ?thesis unfolding w mem_Collect_eq .
  qed
  have "visit_types ?go ?offs ?data ?c \<noteq> None"
    by (rule dedup_names.visit_types_defined [OF _ c t(1,2) W]) (use strs_dedup_runs in blast)
  then obtain data d1 n1 r where v: "visit_types ?go ?offs ?data ?c = Some (data, (d1, n1), r)" by auto
  note nodes = dedup_names.visit_types_nodes [OF v c t(1,2)]
  have inv: "strs_inv btf base0 d d1" using nodes(2) by simp
  obtain base where b1: "d_btf d1 = btf # base" "same_tables base0 base"
    and vw: "strs_view d1 = with_set btf (d_strs_set d1) # base" and ch: "strs_chain (strs_view d1)" "btf_chain base"
    and look: "\<And>k. btf__str_by_offset (btf # base) k = btf__str_by_offset ?b k"
    and d1: "d1 = d\<lparr>d_btf := btf # base, d_strs_set := d_strs_set d1\<rparr>"
    using strs_invD [OF inv pre] by metis
  let ?d = "set_types_data data d1" and ?btf = "with_set (btf\<lparr>types_data := data\<rparr>) (d_strs_set d1)"
  have e1: "d_btf_ext d1 = None" by (subst d1) (simp add: b(2))
  have db: "?d = d1\<lparr>d_btf := btf\<lparr>types_data := data\<rparr> # base\<rparr>" by (simp add: set_types_data_def b1(1))
  have run: "btf_for_each_str_off (strs_dedup_remap_str_off env) (d\<lparr>d_strs_set := ss\<rparr>) = Some (?d, r)"
    using v e1 by (simp add: btf_for_each_str_off_def b(1) own_type_offs_def Let_def db)
  have sw: "?btf = (with_set btf (d_strs_set d1))\<lparr>types_data := data\<rparr>" by (simp add: with_set_def)
  have "strs_post ?b d (?d\<lparr>d_btf := ?btf # base\<rparr>)" if r: "r = 0"
  proof -
    have eq: "?d\<lparr>d_btf := ?btf # base\<rparr> = d\<lparr>d_btf := ?btf # base, d_strs_set := d_strs_set d1\<rparr>"
      unfolding db by (subst d1) simp
    have bc: "btf_chain (?btf # base)"
      using p(1,4) t nodes(1,5) ch(2) same_tables_chain(2) [OF b1(2) p(3)] by (simp add: btf_ok_def)
    have sc: "strs_chain (?btf # base)" using ch(1) unfolding sw set_data_strs vw .
    have lk: "btf__str_by_offset (?btf # base) k = btf__str_by_offset (strs_view d1) k" for k
      unfolding sw set_data_strs vw ..
    have "renamed ?b (?btf # base) (dgraph ?b i) (dgraph (?btf # base) i)" if i: "unat i < btf__type_cnt ?b" for i
    proof (cases "unat i < start_id btf")
      case True
      have sid: "start_id btf = btf__type_cnt base0" using p(1) by simp
      have "dgraph (?btf # base) i = dgraph ?b i"
        using same_tables_types [OF b1(2) p(3)] True sid by (simp add: dgraph_def)
      moreover have "btf__str_by_offset (?btf # base) (unat w) = Some s"
        if w: "w = type_words (dgraph ?b i) ! j" "j \<in> set (str_pos (dgraph ?b i))" "w \<noteq> 0" "btf__str_by_offset ?b (unat w) = Some s" for w j s
      proof -
        have "unat w < start_str_off btf" using names_okD(2) [OF n i w(2) True] w(1,3) by blast
        with w(4) look [of "unat w"] show ?thesis by simp
      qed
      ultimately show ?thesis by (intro renamed_keep) blast+
    next
      case False
      then have i': "start_id btf \<le> unat i" by simp
      note o = own_type [OF p(1) i' i] and off = own_off_in [OF p(1) i' i]
      have o': "dgraph (?btf # base) i = type_at data (own_off btf i)"
        using own_type(3) [OF bc, of i] i i' by (simp add: own_index_def btf__type_cnt_def)
      have nm: "same_name ?b (?btf # base) w w'" if "same_name ?b (strs_view d1) w w'" for w w'
        using that lk by (simp add: same_name_def)
      show ?thesis unfolding o' o(3) renamed_def using nodes(6,7) [OF off] nodes(8) [OF off r] nm by simp
    qed
    with bc sc show ?thesis unfolding strs_post_def eq by (simp add: btf__type_cnt_def)
  qed
  with run nodes(4) db show ?thesis by auto
qed


lemma strs_post_refl:
  assumes "str_pre btf base" "d_btf d = btf # base" shows "strs_post (btf # base) d d"
proof -
  have "renamed (btf # base) (btf # base) t t" for t by (rule renamed_keep) simp_all
  moreover have "d = d\<lparr>d_btf := d_btf d, d_strs_set := d_strs_set d\<rparr>" by simp
  ultimately show ?thesis using assms unfolding strs_post_def str_pre_def by simp
qed

lemma strings_spec:
  assumes pre: "str_pre btf base0" and b: "d_btf d = btf # base0" "d_btf_ext d = None" and n: "names_ok (btf # base0)"
    and cnt: "btf__type_cnt (btf # base0) \<le> 2 ^ 32"
  shows "\<exists>d' r. btf_dedup_strings env d = Some (d', r) \<and> r \<le> 0 \<and> (r = 0 \<longrightarrow> strs_post (btf # base0) d d')"
proof (cases "strs_deduped btf")
  case True
  with strs_post_refl [OF pre b(1)] show ?thesis by (simp add: btf_dedup_strings_def b(1))
next
  case False
  show ?thesis
  proof (cases "strset_new (sset_ok env) (smap_ok env) True (\<lambda>_. alloc_all) BTF_MAX_STR_OFFSET None")
    case (Inl e)
    then have "e < 0" by (auto simp: strset_new_def errno_defs Let_def split: if_splits)
    with Inl False show ?thesis by (simp add: btf_dedup_strings_def b(1))
  next
    case (Inr ss)
    note s = sset_inv_new [OF Inr]
    obtain ss1 e where a: "(if base0 = [] then strset_add_str (str_al (add_env env 0)) (str_ok (add_env env 0)) ss [] else (ss, 0)) = (ss1, e)"
      by fastforce
    have s1: "sset_inv ss1" using a s(1) sset_inv_add(1) [OF s(1), of "[]"] by (auto split: if_splits)
    show ?thesis
    proof (cases "e < 0")
      case True
      with Inr False a show ?thesis by (simp add: btf_dedup_strings_def b(1))
    next
      case e: False
      obtain d1 r where v: "btf_for_each_str_off (strs_dedup_remap_str_off env) (d\<lparr>d_strs_set := ss1\<rparr>) = Some (d1, r)" "r \<le> 0"
        "\<exists>base data. d_btf d1 = btf\<lparr>types_data := data\<rparr> # base \<and>
          strs_post (btf # base0) d (d1\<lparr>d_btf := with_set (btf\<lparr>types_data := data\<rparr>) (d_strs_set d1) # base\<rparr>) \<or> r \<noteq> 0"
        using strs_each [OF pre b n cnt s1] by blast
      have run: "btf_dedup_strings env d =
          (if r \<noteq> 0 then Some (d1, r)
           else case d_btf d1 of [] \<Rightarrow> None
             | btf # base \<Rightarrow> Some (d1\<lparr>d_btf := with_set btf (d_strs_set d1) # base\<rparr>, 0))"
        using Inr False a e v(1) by (simp add: btf_dedup_strings_def b(1) with_set_def cong: list.case_cong)
      show ?thesis
      proof (cases "r = 0")
        case True
        with v(3) show ?thesis by (auto simp: run)
      qed (use v(2) in \<open>simp add: run\<close>)
    qed
  qed
qed

end
