(* ===== verification/Dedup_Correct.thy ===== *)
theory Dedup_Correct
  imports Dedup_Start Dedup_Refs Dedup_Remap Dedup_Strings
begin

text \<open>
  All passes of \<open>btf__dedup\<close> of \<open>src/libbpf/src/btf.c\<close> together: the object it leaves represents the
  types of the object it was given.
\<close>

section \<open>Renamed objects\<close>

lemma str_id_apart: "j \<in> set (str_pos t) \<Longrightarrow> j \<notin> set (id_pos t)"
proof -
  have "3 + 3 * i \<noteq> 4 + 3 * j" "3 + 2 * i \<noteq> 4 + 2 * j" "Suc (3 * i) \<noteq> 3 * j" for i j :: nat by presburger+
  then show "j \<in> set (str_pos t) \<Longrightarrow> j \<notin> set (id_pos t)"
    by (cases "btf_kind t") (auto simp: str_pos_def id_pos_def)
qed

lemma id_in_words:
  assumes "btf_chain b" "unat i < btf__type_cnt b" "j \<in> set (id_pos (dgraph b i))"
  shows "j < length (type_words (dgraph b i))"
proof (cases "i = 0")
  case True
  have "id_pos btf_void = [2]" by (simp add: id_pos_def)
  with True assms(3) show ?thesis by (simp add: dgraph_def)
next
  case False
  then have "type_ok (dgraph b i)" using assms(1,2) unfolding dgraph_def by (intro type_by_id_ok) (simp_all add: unat_gt_0)
  then obtain n where n: "btf_type_size (dgraph b i) = Some n" "n = 12 + 4 * length (rest (dgraph b i))" by (auto simp: type_ok_def)
  have "4 * j + 4 \<le> n" using pos_bounds(1) [OF n(1)] assms(3) by blast
  with n(2) show ?thesis by simp
qed

lemma renamed_refs:
  assumes "renamed b b' t t'" "\<And>j. j \<in> set (id_pos t) \<Longrightarrow> j < length (type_words t)"
  shows "ref_words t' = ref_words t"
proof -
  have "id_pos t' = id_pos t" using assms(1) by (intro kind_cong(4)) (simp add: renamed_def)
  moreover have "type_words t' ! j = type_words t ! j" if "j \<in> set (id_pos t)" for j
    using assms that str_id_apart [of j t] unfolding renamed_def by metis
  ultimately show ?thesis by (simp add: ref_words_def del: type_words_rest)
qed

text \<open>What deduplication asks of the graph does not depend on names.\<close>

lemma graph_ok_renamed:
  assumes g: "graph_ok b" and c: "btf_chain b'" "btf__type_cnt b' = btf__type_cnt b"
    and r: "\<And>i. unat i < btf__type_cnt b \<Longrightarrow>
      info (dgraph b' i) = info (dgraph b i) \<and> ref_words (dgraph b' i) = ref_words (dgraph b i)"
  shows "graph_ok b'"
proof -
  have k: "btf_kind (dgraph b' i) = btf_kind (dgraph b i)" "btf_vlen (dgraph b' i) = btf_vlen (dgraph b i)"
    if "unat i < btf__type_cnt b" for i using r [OF that] kind_cong(1,2) by blast+
  obtain rank :: "u32 \<Rightarrow> nat" where rank: "\<And>i m. unat i < btf__type_cnt b \<Longrightarrow> is_composite_kind (btf_kind (dgraph b i)) \<Longrightarrow>
      m \<in> set (ref_words (dgraph b i)) \<Longrightarrow> is_composite_kind (btf_kind (dgraph b m)) \<Longrightarrow> rank m < rank i"
    using g unfolding graph_ok_def nested_ok_def by blast
  have "rank m < rank i" if "unat i < btf__type_cnt b'" "is_composite_kind (btf_kind (dgraph b' i))"
    "m \<in> set (ref_words (dgraph b' i))" "is_composite_kind (btf_kind (dgraph b' m))" for i m
  proof -
    have i: "unat i < btf__type_cnt b" using that(1) c(2) by simp
    then have m: "m \<in> set (ref_words (dgraph b i))" using that(3) r by simp
    then have "unat m < btf__type_cnt b" by (rule graph_okD(2) [OF g i])
    with rank [OF i _ m] that(2,4) i k(1) show ?thesis by simp
  qed
  then have "nested_ok b'" unfolding nested_ok_def by blast
  moreover have "no_fwd (dgraph b' i) \<and> (\<forall>r\<in>set (ref_words (dgraph b' i)). unat r < btf__type_cnt b')"
    if "unat i < btf__type_cnt b'" for i
  proof -
    have i: "unat i < btf__type_cnt b" using that c(2) by simp
    have "no_fwd (dgraph b' i) = no_fwd (dgraph b i)"
      by (simp only: no_fwd_def btf_is_enum_fwd_def btf_is_any_enum_def btf_is_enum_def btf_is_enum64_def k [OF i])
    moreover have "ref_words (dgraph b' i) = ref_words (dgraph b i)" using r [OF i] by simp
    ultimately show ?thesis using graph_okD(1,2) [OF g i] c(2) by simp
  qed
  moreover have "btf__type_cnt b \<le> BTF_MAX_NR_TYPES + 1" using g unfolding graph_ok_def by blast
  then have "btf__type_cnt b' \<le> BTF_MAX_NR_TYPES + 1" unfolding c(2) .
  ultimately show ?thesis using c(1) unfolding graph_ok_def by blast
qed


section \<open>The passes up to the reference types\<close>

lemma dedup_passes_append:
  "dedup_passes (fs @ gs) d = do { (d, err) \<leftarrow> dedup_passes fs d; if err < 0 then Some (d, err) else dedup_passes gs d }"
  by (induction fs arbitrary: d) (auto simp: Option.bind_assoc split: Option.bind_splits)

lemma dedup_passes_Cons: "f d = Some (d1, r) \<Longrightarrow> dedup_passes (f # fs) d = (if r < 0 then Some (d1, r) else dedup_passes fs d1)"
  by simp

lemma base_self:
  assumes "keeps_self m m'" "\<And>i :: u32. unat i < s \<Longrightarrow> m ! unat i = i" "unat i < s"
  shows "m' ! unat i = i"
  using assms by (simp add: keeps_self_def)

lemma own_ids_iff: "d_btf d = btf # base \<Longrightarrow> j \<in> set (own_ids d) \<longleftrightarrow> start_id btf \<le> j \<and> j < btf__type_cnt (btf # base)"
  by (auto simp: own_ids_def btf__type_cnt_def)

lemma pass_ref_ok:
  assumes p: "pass_ok b d" and g: "graph_ok b" and b: "b \<noteq> []" and self: "\<And>i. unat i < start_id (hd b) \<Longrightarrow> d_map d ! unat i = i"
  shows "ref_ok b d"
proof -
  have db: "d_btf d = b" using p by (simp add: pass_ok_def state_ok_def)
  then have "d_btf d = (hd b)\<lparr>types_data := own_data d\<rparr> # tl b" using b by (simp add: own_data_def)
  moreover have "pass_ok b (d\<lparr>d_btf := b\<rparr>)" using p unfolding db [symmetric] by simp
  moreover have "btf_chain b" using g by (simp add: graph_ok_def)
  ultimately show ?thesis
    using self b graph_okD(2) [OF g] unfolding ref_ok_def by (simp add: db same_node_refl)
qed

lemma middle_passes:
  assumes g: "graph_ok (btf # base)" and b: "d_btf d = btf # base" "d_btf_ext d = None"
    and s: "start_ok (btf__type_cnt (btf # base)) d"
    and self: "\<And>i. unat i < start_id btf \<Longrightarrow> d_map d ! unat i = i"
    and own: "\<And>i. start_id btf \<le> unat i \<Longrightarrow> unat i < btf__type_cnt (btf # base) \<Longrightarrow>
      prim_kind (btf_kind (dgraph (btf # base) i)) \<Longrightarrow> d_map d ! unat i \<noteq> i"
  shows "\<exists>d' r. dedup_passes [btf_dedup_prim_types env, btf_dedup_struct_types env, btf_dedup_resolve_fwds env, btf_dedup_ref_types env] d = Some (d', r) \<and>
    r \<le> 0 \<and> (r = 0 \<longrightarrow> ref_ok (btf # base) d' \<and> d_btf_ext d' = None \<and>
      (\<forall>i :: u32. unat i < btf__type_cnt (btf # base) \<longrightarrow> unat (d_map d' ! unat i) \<le> BTF_MAX_NR_TYPES))"
proof -
  let ?b = "btf # base"
  have p: "pass_ok ?b d" by (rule start_pass_ok [OF s b(1)])
  have un: "d_map d ! unat i \<noteq> i" if "unat i \<in> set (own_ids d)" "prim_kind (btf_kind (dgraph ?b i))" for i
    using own that own_ids_iff [OF b(1)] by blast
  from prim_types_spec [OF p g, of env] un obtain d1 r1 where d1: "btf_dedup_prim_types env d = Some (d1, r1)" "r1 \<le> 0" "pass_ok ?b d1"
    "d_btf_ext d1 = d_btf_ext d" "\<And>j. j \<notin> set (own_ids d) \<Longrightarrow> d_map d1 ! j = d_map d ! j" by blast
  from struct_types_spec [OF d1(3) g, of env] obtain d2 r2 where d2: "btf_dedup_struct_types env d1 = Some (d2, r2)" "r2 \<le> 0"
    "pass_ok ?b d2" "keeps_self (d_map d1) (d_map d2)" "d_btf_ext d2 = d_btf_ext d1" by blast
  from resolve_fwds_spec [OF d2(3) g, of env] obtain r3 where d3: "btf_dedup_resolve_fwds env d2 = Some (d2, r3)" "r3 \<le> 0" by blast
  have "d_map d1 ! unat i = i" if "unat i < start_id btf" for i
    using d1(5) self that own_ids_iff [OF b(1)] by (metis not_less)
  then have "d_map d2 ! unat i = i" if "unat i < start_id btf" for i using base_self [OF d2(4)] that by blast
  then have "ref_ok ?b d2" by (intro pass_ref_ok [OF d2(3) g]) simp_all
  from ref_types_spec [OF this g, of env] obtain d4 r4 where d4: "btf_dedup_ref_types env d2 = Some (d4, r4)" "r4 \<le> 0" "ref_ok ?b d4"
    "d_btf_ext d4 = d_btf_ext d2" "r4 = 0 \<longrightarrow> (\<forall>i :: u32. unat i < btf__type_cnt ?b \<longrightarrow> unat (d_map d4 ! unat i) \<le> BTF_MAX_NR_TYPES)" by blast
  show ?thesis
    using d1(1,2,4) d2(1,2,5) d3 d4 b(2) by (simp add: dedup_passes_Cons)
qed

section \<open>Compaction and remapping\<close>

definition dedup_finished :: "btf list \<Rightarrow> btf list \<Rightarrow> u32 list \<Rightarrow> u32 list \<Rightarrow> btf list \<Rightarrow> bool" where
  "dedup_finished b b5 m rn b' \<longleftrightarrow>
     (\<forall>x. unat x < btf__type_cnt b \<and> m ! unat x = x \<longrightarrow>
        unat (rn ! unat x) < btf__type_cnt b' \<and> shape (dgraph b' (rn ! unat x)) = shape (dgraph b5 x) \<and>
        ref_words (dgraph b' (rn ! unat x)) = List.map (new_id m rn) (ref_words (dgraph b5 x))) \<and>
     (\<forall>i :: u32. unat i < start_id (hd b) \<longrightarrow> rn ! unat i = i) \<and>
     (\<forall>j :: u32. unat j < btf__type_cnt b' \<longrightarrow> (\<exists>x. unat x < btf__type_cnt b \<and> m ! unat x = x \<and> rn ! unat x = j)) \<and>
     (\<forall>k. btf__str_by_offset b' k = btf__str_by_offset b k)"

lemma last_passes:
  assumes g: "graph_ok (btf # base)" and ok: "ref_ok (btf # base) d" and e: "d_btf_ext d = None"
    and all: "\<And>i :: u32. unat i < btf__type_cnt (btf # base) \<Longrightarrow> unat (d_map d ! unat i) \<le> BTF_MAX_NR_TYPES"
    and base: "\<And>i r. unat i < start_id btf \<Longrightarrow> r \<in> set (ref_words (dgraph (btf # base) i)) \<Longrightarrow> unat r < start_id btf"
  shows "\<exists>d' r. dedup_passes [btf_dedup_compact_types env, btf_dedup_remap_types] d = Some (d', r) \<and> r \<le> 0 \<and>
    (r = 0 \<longrightarrow> (\<exists>rn. dedup_finished (btf # base) (d_btf d) (d_map d) rn (d_btf d')))"
proof -
  let ?b = "btf # base" and ?n = "btf__type_cnt (btf # base)" and ?btf = "btf\<lparr>types_data := own_data d\<rparr>" and ?m = "d_map d"
  have b5: "d_btf d = ?btf # base" "btf_chain (?btf # base)" "btf__type_cnt (?btf # base) = ?n"
    and fm: "flat_map (similar (dgraph ?b)) ?n ?m"
    using ref_okD [OF ok] by (metis list.inject)+
  have n: "?n \<le> BTF_MAX_NR_TYPES + 1" using g by (simp add: graph_ok_def)
  have self: "?m ! unat i = i" if "unat i < start_id btf" for i using ok that unfolding ref_ok_def list.sel by blast
  have "length ?m = ?n" using fm by (simp add: flat_map_def)
  then have "\<exists>d' r. btf_dedup_compact_types env d = Some (d', r) \<and> r \<le> 0 \<and> (offs_re_ok env \<longrightarrow> r = 0) \<and>
    d_map d' = ?m \<and> d_btf_ext d' = d_btf_ext d \<and>
    (r = 0 \<longrightarrow> renumbers (?btf # base) ?m (d_btf d') (hypot_map d') \<and> btf_chain (d_btf d') \<and>
      (\<exists>btf'. d_btf d' = btf' # base \<and> start_id btf' = start_id ?btf) \<and>
      (\<forall>k. btf__str_by_offset (d_btf d') k = btf__str_by_offset (?btf # base) k))"
    using n self b5(3) by (intro compact_spec [OF b5(1,2)]) simp_all
  then obtain d6 r6 where d6: "btf_dedup_compact_types env d = Some (d6, r6)" "r6 \<le> 0" "d_map d6 = ?m" "d_btf_ext d6 = None"
    "r6 = 0 \<longrightarrow> renumbers (?btf # base) ?m (d_btf d6) (hypot_map d6) \<and> btf_chain (d_btf d6) \<and>
      (\<exists>btf'. d_btf d6 = btf' # base \<and> start_id btf' = start_id ?btf) \<and>
      (\<forall>k. btf__str_by_offset (d_btf d6) k = btf__str_by_offset (?btf # base) k)" using e by auto
  show ?thesis
  proof (cases "r6 = 0")
    case False
    with d6(1,2) show ?thesis by (simp add: dedup_passes_Cons)
  next
    case True
    let ?rn = "hypot_map d6"
    obtain btf6 where b6: "d_btf d6 = btf6 # base" "start_id btf6 = start_id btf" "btf_chain (btf6 # base)"
      and rn: "renumbers (?btf # base) ?m (btf6 # base) ?rn"
      and st: "\<And>k. btf__str_by_offset (btf6 # base) k = btf__str_by_offset (?btf # base) k" using d6(5) True by auto
    have rn: "length ?rn = ?n" "btf__type_cnt (btf6 # base) \<le> ?n"
      "\<And>i :: u32. unat i < ?n \<Longrightarrow> ?m ! unat i = i \<Longrightarrow> unat (?rn ! unat i) < btf__type_cnt (btf6 # base) \<and>
         dgraph (btf6 # base) (?rn ! unat i) = dgraph (?btf # base) i"
      "\<And>i :: u32. unat i < start_id btf \<Longrightarrow> ?rn ! unat i = i"
      "\<And>j :: u32. unat j < btf__type_cnt (btf6 # base) \<Longrightarrow> \<exists>i. unat i < ?n \<and> ?m ! unat i = i \<and> ?rn ! unat i = j"
      using rn unfolding renumbers_def b5(3) by simp_all
    have refs: "unat r < ?n" if "unat i < btf__type_cnt (btf6 # base)" "r \<in> set (ref_words (dgraph (btf6 # base) i))" for i r
      using rn(3,5) that ref_nodeD(2) [OF ok] unfolding b5(1) by metis
    have "\<exists>d' r. btf_dedup_remap_types d6 = Some (d', r) \<and> r \<le> 0 \<and> btf_chain (d_btf d') \<and>
      (\<exists>data. d_btf d' = btf6\<lparr>types_data := data\<rparr> # base) \<and> d_btf_ext d' = None \<and>
      (r = 0 \<longrightarrow> (\<forall>i. start_id btf6 \<le> unat i \<and> unat i < btf__type_cnt (btf6 # base) \<longrightarrow>
         shape (dgraph (d_btf d') i) = shape (dgraph (btf6 # base) i) \<and>
         ref_words (dgraph (d_btf d') i) = List.map (new_id (d_map d6) ?rn) (ref_words (dgraph (btf6 # base) i))))"
    proof (rule remap_types_spec [OF b6(1,3) d6(4)])
      show "flat_map (similar (dgraph ?b)) ?n (d_map d6)" using fm by (simp add: d6(3))
      show "unat (?rn ! unat x) \<le> BTF_MAX_NR_TYPES" if "unat x < ?n" "d_map d6 ! unat x = x" for x
        using rn(3) [of x] that rn(2) n by (simp add: d6(3))
    qed (use all rn(1,2) n refs in \<open>simp_all add: d6(3)\<close>)
    then obtain d7 r7 data where d7: "btf_dedup_remap_types d6 = Some (d7, r7)" "r7 \<le> 0" "d_btf d7 = btf6\<lparr>types_data := data\<rparr> # base"
      and nodes: "\<And>i. r7 = 0 \<Longrightarrow> start_id btf \<le> unat i \<Longrightarrow> unat i < btf__type_cnt (btf6 # base) \<Longrightarrow>
         shape (dgraph (d_btf d7) i) = shape (dgraph (btf6 # base) i) \<and>
         ref_words (dgraph (d_btf d7) i) = List.map (new_id ?m ?rn) (ref_words (dgraph (btf6 # base) i))"
      unfolding d6(3) b6(2) by blast
    have "dedup_finished ?b (d_btf d) ?m ?rn (d_btf d7)" if r7: "r7 = 0"
      unfolding dedup_finished_def
    proof (intro conjI allI impI)
      show "btf__str_by_offset (d_btf d7) k = btf__str_by_offset ?b k" for k unfolding d7(3) set_data_strs st ..
      have cnt: "btf__type_cnt (d_btf d7) = btf__type_cnt (btf6 # base)" by (simp add: d7(3) btf__type_cnt_def)
      show "\<exists>x. unat x < ?n \<and> ?m ! unat x = x \<and> ?rn ! unat x = j" if "unat j < btf__type_cnt (d_btf d7)" for j :: u32
        using rn(5) that unfolding cnt .
      show "?rn ! unat i = i" if "unat i < start_id (hd ?b)" for i :: u32 using rn(4) that by simp
      fix x assume x: "unat x < ?n \<and> ?m ! unat x = x"
      let ?j = "?rn ! unat x"
      have j: "unat ?j < btf__type_cnt (btf6 # base)" "dgraph (btf6 # base) ?j = dgraph (d_btf d) x" using rn(3) x by (simp_all add: b5(1))
      then show "unat ?j < btf__type_cnt (d_btf d7)" by (simp add: cnt)
      have "shape (dgraph (d_btf d7) ?j) = shape (dgraph (btf6 # base) ?j) \<and>
          ref_words (dgraph (d_btf d7) ?j) = List.map (new_id ?m ?rn) (ref_words (dgraph (btf6 # base) ?j))"
      proof (cases "start_id btf \<le> unat ?j")
        case True
        show ?thesis by (rule nodes [OF r7 True j(1)])
      next
        case False
        then have same: "dgraph (d_btf d7) ?j = dgraph (btf6 # base) ?j" "dgraph (btf6 # base) ?j = dgraph ?b ?j"
          by (simp_all add: dgraph_def d7(3) b6(2))
        have "new_id ?m ?rn r = r" if r: "r \<in> set (ref_words (dgraph ?b ?j))" for r
        proof -
          have "unat r < start_id btf" using base [OF _ r] False by simp
          with self rn(4) show ?thesis by (simp add: new_id_def canon_def)
        qed
        then show ?thesis by (simp add: same map_idI)
      qed
      then show "shape (dgraph (d_btf d7) ?j) = shape (dgraph (d_btf d) x)"
        "ref_words (dgraph (d_btf d7) ?j) = List.map (new_id ?m ?rn) (ref_words (dgraph (d_btf d) x))" by (simp_all add: j(2))
    qed
    then show ?thesis using d6(1) True d7(1,2) by (auto simp: dedup_passes_Cons)
  qed
qed


section \<open>The specification\<close>

text \<open>
  A type of \<open>b'\<close> stands for one of \<open>b\<close> when they agree, names being compared as strings and identifiers
  by \<open>R\<close>.
\<close>

definition corresponds :: "btf list \<Rightarrow> btf list \<Rightarrow> (u32 \<Rightarrow> u32 \<Rightarrow> bool) \<Rightarrow> btf_type \<Rightarrow> btf_type \<Rightarrow> bool" where
  "corresponds b b' R t t' \<longleftrightarrow>
     info t' = info t \<and> length (type_words t') = length (type_words t) \<and>
     (\<forall>j<length (type_words t).
        let w = type_words t ! j; w' = type_words t' ! j in
        if j \<in> set (str_pos t) then same_name b b' w w' else if j \<in> set (id_pos t) then R w w' else w' = w)"

definition same_c_type :: "btf list \<Rightarrow> btf list \<Rightarrow> u32 \<Rightarrow> u32 \<Rightarrow> bool" where
  "same_c_type b b' i j \<longleftrightarrow>
     (\<exists>R. R i j \<and> (\<forall>i j. R i j \<longrightarrow> unat i < btf__type_cnt b \<and> unat j < btf__type_cnt b' \<and>
        corresponds b b' R (dgraph b i) (dgraph b' j)))"

text \<open>The types of \<open>b'\<close> are those of \<open>b\<close>, found under the identifiers \<open>f\<close>; those of the base stay.\<close>

definition represents :: "btf list \<Rightarrow> btf list \<Rightarrow> (u32 \<Rightarrow> u32) \<Rightarrow> bool" where
  "represents b b' f \<longleftrightarrow>
     (\<forall>i. unat i < btf__type_cnt b \<longrightarrow> same_c_type b b' i (f i)) \<and>
     (\<forall>i. unat i < start_id (hd b) \<longrightarrow> f i = i) \<and>
     (\<forall>j. unat j < btf__type_cnt b' \<longrightarrow> (\<exists>i. unat i < btf__type_cnt b \<and> f i = j))"

lemma shape_words:
  assumes "shape t' = shape t" "j < length (type_words t)" "j \<notin> set (id_pos t)"
  shows "type_words t' ! j = type_words t ! j"
proof -
  have k: "id_pos t' = id_pos t" by (rule kind_cong(4) [OF shape_cong(1) [OF assms(1)]])
  have l: "length (type_words t') = length (type_words t)" using arg_cong [OF assms(1), of length] by simp
  have "shape t' ! j = shape t ! j" by (simp only: assms(1))
  with assms(2,3) k l show ?thesis by (simp add: shape_nth del: type_words_rest)
qed

text \<open>From a renamed type over a similar one to the type in the end.\<close>

lemma corresponds_chain:
  assumes r: "renamed b b2 t0 t2" and s: "same_node S t2 t5" and l: "\<And>j. j \<in> set (id_pos t0) \<Longrightarrow> j < length (type_words t0)"
    and t7: "shape t7 = shape t5" "ref_words t7 = List.map f (ref_words t5)"
    and st: "\<And>k. btf__str_by_offset b' k = btf__str_by_offset b2 k"
    and R: "\<And>a c. a \<in> set (ref_words t0) \<Longrightarrow> c \<in> set (ref_words t5) \<Longrightarrow> S a c \<Longrightarrow> R a (f c)"
  shows "corresponds b b' R t0 t7"
proof -
  have i2: "info t2 = info t0" "length (type_words t2) = length (type_words t0)" using r by (simp_all add: renamed_def)
  have s5: "shape t5 = shape t2" using s by (simp add: same_node_def)
  have i5: "info t5 = info t2" "length (type_words t5) = length (type_words t2)"
    using shape_cong(1) [OF s5] arg_cong [OF s5, of length] by simp_all
  have i7: "info t7 = info t5" "length (type_words t7) = length (type_words t5)"
    using shape_cong(1) [OF t7(1)] arg_cong [OF t7(1), of length] by simp_all
  have id: "id_pos t2 = id_pos t0" "id_pos t5 = id_pos t0" "id_pos t7 = id_pos t0"
    using kind_cong(4) i2(1) i5(1) i7(1) by metis+
  have keep: "type_words t7 ! j = type_words t2 ! j" if "j < length (type_words t0)" "j \<notin> set (id_pos t0)" for j
    using shape_words [OF t7(1), of j] shape_words [OF s5, of j] that i2(2) i5(2) id by simp
  have words: "type_words t2 ! j = type_words t0 ! j" if "j < length (type_words t0)" "j \<notin> set (str_pos t0)" for j
    using r that by (simp add: renamed_def)
  have "if j \<in> set (str_pos t0) then same_name b b' (type_words t0 ! j) (type_words t7 ! j)
      else if j \<in> set (id_pos t0) then R (type_words t0 ! j) (type_words t7 ! j) else type_words t7 ! j = type_words t0 ! j"
    if j: "j < length (type_words t0)" for j
  proof -
    consider "j \<in> set (str_pos t0)" | "j \<notin> set (str_pos t0)" "j \<in> set (id_pos t0)" | "j \<notin> set (str_pos t0)" "j \<notin> set (id_pos t0)" by blast
    then show ?thesis
    proof cases
      case 1
      have "same_name b b2 (type_words t0 ! j) (type_words t2 ! j)" using r j 1 by (simp add: renamed_def)
      with 1 keep [OF j str_id_apart [OF 1]] st show ?thesis by (simp add: same_name_def)
    next
      case 2
      have "List.map (\<lambda>j. type_words t7 ! j) (id_pos t0) = List.map (\<lambda>j. f (type_words t5 ! j)) (id_pos t0)"
        using t7(2) by (simp add: ref_words_def id comp_def del: type_words_rest)
      then have w7: "type_words t7 ! j = f (type_words t5 ! j)" using 2(2) by simp
      have "S (type_words t2 ! j) (type_words t5 ! j)" by (rule same_node_at(3) [OF s]) (use 2(2) id in simp)
      moreover have "type_words t0 ! j \<in> set (ref_words t0)" "type_words t5 ! j \<in> set (ref_words t5)"
        using 2(2) by (simp_all add: ref_words_def id del: type_words_rest)
      ultimately have "R (type_words t0 ! j) (f (type_words t5 ! j))" using R words [OF j 2(1)] by simp
      with 2 w7 show ?thesis by simp
    next
      case 3
      with keep [OF j 3(2)] words [OF j 3(1)] show ?thesis by simp
    qed
  qed
  with i2 i5 i7 show ?thesis by (simp add: corresponds_def Let_def)
qed

lemma dedup_finished_represents:
  assumes g: "graph_ok b" and ok: "ref_ok b2 d" and f: "dedup_finished b2 (d_btf d) (d_map d) rn b'"
    and cnt: "btf__type_cnt b2 = btf__type_cnt b" "start_id (hd b2) = start_id (hd b)"
    and r: "\<And>i. unat i < btf__type_cnt b \<Longrightarrow> renamed b b2 (dgraph b i) (dgraph b2 i)"
    and all: "\<And>i :: u32. unat i < btf__type_cnt b2 \<Longrightarrow> unat (d_map d ! unat i) \<le> BTF_MAX_NR_TYPES"
  shows "represents b b' (new_id (d_map d) rn)"
proof -
  let ?G = "dgraph b2" and ?n = "btf__type_cnt b2" and ?m = "d_map d" and ?f = "new_id (d_map d) rn"
  have fm: "flat_map (similar ?G) ?n ?m" using ok by (rule ref_okD)
  have canon: "unat (canon ?m i) < ?n" "similar ?G i (canon ?m i)" "?m ! unat (canon ?m i) = canon ?m i" if "unat i < ?n" for i
    using sim.canon_spec [OF fm that] all by blast+
  define R where "R i j \<longleftrightarrow> unat i < ?n \<and> (\<exists>x. unat x < ?n \<and> ?m ! unat x = x \<and> rn ! unat x = j \<and> similar ?G i x)" for i j
  have refl: "R i (?f i)" if "unat i < ?n" for i
    unfolding R_def new_id_def using canon [OF that] that by blast
  have step: "unat i < btf__type_cnt b \<and> unat j < btf__type_cnt b' \<and> corresponds b b' R (dgraph b i) (dgraph b' j)" if ij: "R i j" for i j
  proof -
    obtain x where x: "unat i < ?n" "unat x < ?n" "?m ! unat x = x" "rn ! unat x = j" "similar ?G i x" using ij by (auto simp: R_def)
    have j: "unat j < btf__type_cnt b'" "shape (dgraph b' j) = shape (dgraph (d_btf d) x)"
      "ref_words (dgraph b' j) = List.map ?f (ref_words (dgraph (d_btf d) x))" using f x(2-4) unfolding dedup_finished_def by blast+
    have node: "same_node (similar ?G) (?G i) (dgraph (d_btf d) x)"
      by (rule same_node_trans [OF similar_node [OF x(5)] ref_nodeD(1) [OF ok x(2)]]) (rule similar_trans)
    have i: "unat i < btf__type_cnt b" using x(1) cnt(1) by simp
    have c: "btf_chain b" using g by (simp add: graph_ok_def)
    have "corresponds b b' R (dgraph b i) (dgraph b' j)"
    proof (rule corresponds_chain [OF r [OF i] node id_in_words [OF c i] j(2,3)])
      show "btf__str_by_offset b' k = btf__str_by_offset b2 k" for k using f by (simp add: dedup_finished_def)
      show "R a (?f c)" if "a \<in> set (ref_words (dgraph b i))" "c \<in> set (ref_words (dgraph (d_btf d) x))" "similar ?G a c" for a c
      proof -
        have a: "unat a < ?n" using graph_okD(2) [OF g i that(1)] cnt(1) by simp
        have c: "unat c < ?n" using ref_nodeD(2) [OF ok x(2)] that(2) by blast
        from canon [OF c] similar_trans [OF that(3)] a show ?thesis unfolding R_def new_id_def by blast
      qed
    qed
    with i j(1) show ?thesis by blast
  qed
  have "same_c_type b b' i (?f i)" if "unat i < btf__type_cnt b" for i
    unfolding same_c_type_def using refl [of i] that cnt(1) step by auto
  moreover have "?f i = i" if "unat i < start_id (hd b)" for i
  proof -
    have "?m ! unat i = i" using ok that unfolding ref_ok_def cnt(2) [symmetric] by blast
    moreover have "rn ! unat i = i" using f that unfolding dedup_finished_def cnt(2) by blast
    ultimately show ?thesis by (simp add: new_id_def canon_def)
  qed
  moreover have "\<exists>i. unat i < btf__type_cnt b \<and> ?f i = j" if j: "unat j < btf__type_cnt b'" for j
  proof -
    obtain x where "unat x < ?n" "?m ! unat x = x" "rn ! unat x = j" using f j unfolding dedup_finished_def by blast
    then show ?thesis unfolding cnt(1) by (intro exI [of _ x]) (simp add: new_id_def canon_def)
  qed
  ultimately show ?thesis by (simp add: represents_def)
qed


section \<open>All passes\<close>

definition base_closed :: "btf list \<Rightarrow> bool" where
  "base_closed b \<longleftrightarrow>
     (\<forall>i. unat i < start_id (hd b) \<longrightarrow> (\<forall>r\<in>set (ref_words (dgraph b i)). unat r < start_id (hd b)))"

text \<open>The objects that deduplication handles: without forward declarations, all identifiers and names in range.\<close>

definition dedup_ready :: "btf list \<Rightarrow> bool" where
  "dedup_ready b \<longleftrightarrow>
     b \<noteq> [] \<and> btf_wf b \<and> graph_ok b \<and> names_ok b \<and> base_closed b \<and> start_str_off (hd b) \<le> 2 ^ 31"

lemma all_passes:
  assumes w: "str_pre btf base" and n: "names_ok (btf # base)" and g: "graph_ok (btf # base)" and cl: "base_closed (btf # base)"
    and b: "d_btf d = btf # base" "d_btf_ext d = None" and s: "start_ok (btf__type_cnt (btf # base)) d"
    and self: "\<And>i. unat i < start_id btf \<Longrightarrow> d_map d ! unat i = i"
    and own: "\<And>i. start_id btf \<le> unat i \<Longrightarrow> unat i < btf__type_cnt (btf # base) \<Longrightarrow>
      prim_kind (btf_kind (dgraph (btf # base) i)) \<Longrightarrow> d_map d ! unat i \<noteq> i"
  shows "\<exists>d' r. dedup_passes [btf_dedup_strings env, btf_dedup_prim_types env, btf_dedup_struct_types env,
      btf_dedup_resolve_fwds env, btf_dedup_ref_types env, btf_dedup_compact_types env, btf_dedup_remap_types] d = Some (d', r) \<and>
    r \<le> 0 \<and> (r = 0 \<longrightarrow> (\<exists>f. represents (btf # base) (d_btf d') f))"
proof -
  let ?b = "btf # base" and ?mid = "[btf_dedup_prim_types env, btf_dedup_struct_types env, btf_dedup_resolve_fwds env, btf_dedup_ref_types env]"
  let ?last = "[btf_dedup_compact_types env, btf_dedup_remap_types]"
  have c: "btf_chain ?b" using g unfolding graph_ok_def by blast
  have n32: "btf__type_cnt ?b \<le> 2 ^ 32" using g by (simp add: graph_ok_def BTF_MAX_NR_TYPES_def)
  from strings_spec [OF w b n n32, of env] obtain d1 r1 where d1: "btf_dedup_strings env d = Some (d1, r1)" "r1 \<le> 0" "r1 = 0 \<longrightarrow> strs_post ?b d d1" by blast
  have split: "dedup_passes [btf_dedup_strings env, btf_dedup_prim_types env, btf_dedup_struct_types env,
      btf_dedup_resolve_fwds env, btf_dedup_ref_types env, btf_dedup_compact_types env, btf_dedup_remap_types] d =
      (if r1 < 0 then Some (d1, r1) else dedup_passes (?mid @ ?last) d1)"
    using d1(1) by simp
  show ?thesis
  proof (cases "r1 = 0")
    case False
    with d1(2) show ?thesis unfolding split by simp
  next
    case True
    then have sp: "strs_post ?b d d1" using d1(3) by simp
    then obtain btf1 base1 where b1: "d_btf d1 = btf1 # base1" by (auto simp: strs_post_def neq_Nil_conv)
    have e1: "d1 = d\<lparr>d_btf := d_btf d1, d_strs_set := d_strs_set d1\<rparr>" and c1: "btf_chain (btf1 # base1)"
      and cnt: "btf__type_cnt (btf1 # base1) = btf__type_cnt ?b" "start_id btf1 = start_id btf"
      and rn: "\<And>i. unat i < btf__type_cnt ?b \<Longrightarrow> renamed ?b (btf1 # base1) (dgraph ?b i) (dgraph (btf1 # base1) i)"
      using sp b1 unfolding strs_post_def by simp_all
    have info: "info (dgraph (btf1 # base1) i) = info (dgraph ?b i) \<and> ref_words (dgraph (btf1 # base1) i) = ref_words (dgraph ?b i)"
      if i: "unat i < btf__type_cnt ?b" for i
      using renamed_refs [OF rn [OF i] id_in_words [OF c i]] rn [OF i] by (simp add: renamed_def)
    have g1: "graph_ok (btf1 # base1)" by (rule graph_ok_renamed [OF g c1 cnt(1) info])
    have m1: "d_map d1 = d_map d" "d_btf_ext d1 = None" "start_ok (btf__type_cnt (btf1 # base1)) d1"
    proof -
      show "d_map d1 = d_map d" "d_btf_ext d1 = None" using b(2) by (subst e1, simp)+
      have "start_ok n d1 = start_ok n d" for n
        by (subst e1) (simp add: start_ok_def hypot_wf_def hmapped_def table_wf_def table_ids_def)
      then show "start_ok (btf__type_cnt (btf1 # base1)) d1" using s by (simp only: cnt(1))
    qed
    have "\<exists>d' r. dedup_passes ?mid d1 = Some (d', r) \<and> r \<le> 0 \<and> (r = 0 \<longrightarrow> ref_ok (btf1 # base1) d' \<and> d_btf_ext d' = None \<and>
      (\<forall>i :: u32. unat i < btf__type_cnt (btf1 # base1) \<longrightarrow> unat (d_map d' ! unat i) \<le> BTF_MAX_NR_TYPES))"
    proof (rule middle_passes [OF g1 b1 m1(2,3)])
      show "d_map d1 ! unat i = i" if "unat i < start_id btf1" for i using self that by (simp add: m1(1) cnt(2))
      show "d_map d1 ! unat i \<noteq> i" if "start_id btf1 \<le> unat i" "unat i < btf__type_cnt (btf1 # base1)"
        "prim_kind (btf_kind (dgraph (btf1 # base1) i))" for i
      proof -
        have i: "unat i < btf__type_cnt ?b" "start_id btf \<le> unat i" using that(1,2) unfolding cnt by simp_all
        have "prim_kind (btf_kind (dgraph ?b i))" using that(3) unfolding kind_cong(1) [OF conjunct1 [OF info [OF i(1)]]] .
        from own [OF i(2,1) this] show ?thesis unfolding m1(1) .
      qed
    qed
    then obtain d2 r2 where d2: "dedup_passes ?mid d1 = Some (d2, r2)" "r2 \<le> 0" "r2 = 0 \<longrightarrow> ref_ok (btf1 # base1) d2 \<and> d_btf_ext d2 = None \<and>
      (\<forall>i :: u32. unat i < btf__type_cnt (btf1 # base1) \<longrightarrow> unat (d_map d2 ! unat i) \<le> BTF_MAX_NR_TYPES)" by blast
    have run: "dedup_passes (?mid @ ?last) d1 = (if r2 < 0 then Some (d2, r2) else dedup_passes ?last d2)"
      unfolding dedup_passes_append d2(1) by simp
    show ?thesis
    proof (cases "r2 = 0")
      case False
      with d2(2) True show ?thesis unfolding split run by simp
    next
      case r2: True
      then have ok: "ref_ok (btf1 # base1) d2" "d_btf_ext d2 = None"
        and all: "\<And>i :: u32. unat i < btf__type_cnt (btf1 # base1) \<Longrightarrow> unat (d_map d2 ! unat i) \<le> BTF_MAX_NR_TYPES" using d2(3) by blast+
      have base: "unat r < start_id btf1" if "unat i < start_id btf1" "r \<in> set (ref_words (dgraph (btf1 # base1) i))" for i r
      proof -
        have "unat i < btf__type_cnt ?b" using that(1) cnt by (simp add: btf__type_cnt_def)
        with cl that info [of i] show ?thesis unfolding base_closed_def cnt(2) list.sel by auto
      qed
      have "\<exists>d' r. dedup_passes ?last d2 = Some (d', r) \<and> r \<le> 0 \<and>
          (r = 0 \<longrightarrow> (\<exists>rn. dedup_finished (btf1 # base1) (d_btf d2) (d_map d2) rn (d_btf d')))"
        by (rule last_passes [OF g1 ok]) (fact all, rule base)
      then obtain d3 r3 where d3: "dedup_passes ?last d2 = Some (d3, r3)" "r3 \<le> 0"
        "r3 = 0 \<longrightarrow> (\<exists>rn. dedup_finished (btf1 # base1) (d_btf d2) (d_map d2) rn (d_btf d3))" by blast
      have "\<exists>f. represents ?b (d_btf d3) f" if "r3 = 0"
        using d3(3) that dedup_finished_represents [OF g ok(1) _ cnt(1) _ rn all] cnt(2) by auto
      with d3(1,2) True r2 show ?thesis unfolding split run by auto
    qed
  qed
qed


section \<open>Deduplication\<close>

text \<open>Making the object modifiable changes nothing of this.\<close>

definition same_object :: "btf list \<Rightarrow> btf list \<Rightarrow> bool" where
  "same_object b b1 \<longleftrightarrow>
     btf__type_cnt b1 = btf__type_cnt b \<and> start_id (hd b1) = start_id (hd b) \<and>
     start_str_off (hd b1) = start_str_off (hd b) \<and>
     (\<forall>i. unat i < btf__type_cnt b \<longrightarrow> dgraph b1 i = dgraph b i) \<and> (\<forall>k. btf__str_by_offset b1 k = btf__str_by_offset b k)"

lemma ensure_same_object:
  assumes m: "btf_ensure_modifiable env hb btf = (btf1, r)" and w: "btf_wf (btf # base)"
  shows "same_object (btf # base) (btf1 # base)" "btf_wf (btf1 # base)"
proof -
  have c: "btf_chain (btf # base)" "strs_chain (btf # base)" using w by (simp_all add: btf_wf_def)
  have t: "same_table btf btf1" using ensure_modifiable_table [OF m] c(1) by simp
  have ts: "same_tables (btf # base) (btf1 # base)" using t c(1) by (simp add: same_tables_refl)
  have s: "same_sec btf btf1" using ensure_modifiable_strs(1) [OF m] c(2) by simp
  have ss: "list_all2 same_sec (btf # base) (btf1 # base)" using s c(2) by (simp add: same_secs_refl)
  show "btf_wf (btf1 # base)" using same_tables_chain(1) [OF ts c(1)] same_secs_chain [OF ss c(2)] by (simp add: btf_wf_def)
  have "dgraph (btf1 # base) i = dgraph (btf # base) i" if "unat i < btf__type_cnt (btf # base)" for i
    unfolding dgraph_def by (rule same_tables_types [OF ts c(1) that])
  moreover have "btf__str_by_offset (btf1 # base) k = btf__str_by_offset (btf # base) k" for k
    by (rule same_sec_lookup [OF ss c(2)])
  ultimately show "same_object (btf # base) (btf1 # base)"
    using t s unfolding same_object_def same_table_def same_sec_def by (simp add: btf__type_cnt_def)
qed

lemma same_object_names: assumes "same_object b b1" "names_ok b" shows "names_ok b1"
  using assms unfolding names_ok_def same_object_def Let_def by (simp split: if_splits del: not_None_eq) blast

lemma same_object_closed:
  assumes "same_object b b1" "base_closed b" "start_id (hd b) \<le> btf__type_cnt b" shows "base_closed b1"
  using assms unfolding base_closed_def same_object_def by simp

lemma same_object_graph: assumes "same_object b b1" "graph_ok b" "btf_chain b1" shows "graph_ok b1"
  by (rule graph_ok_renamed [OF assms(2,3)]) (use assms(1) in \<open>simp_all add: same_object_def\<close>)

lemma same_object_represents:
  assumes "same_object b b1" "represents b1 b' f" shows "represents b b' f"
proof -
  have e: "btf__type_cnt b1 = btf__type_cnt b" "start_id (hd b1) = start_id (hd b)"
    "\<And>i. unat i < btf__type_cnt b \<Longrightarrow> dgraph b1 i = dgraph b i" "\<And>k. btf__str_by_offset b1 k = btf__str_by_offset b k"
    using assms(1) by (simp_all add: same_object_def)
  have c: "corresponds b b' R t t'" if "corresponds b1 b' R t t'" for R t t'
  proof -
    have same: "same_name b1 b' = same_name b b'" by (intro ext) (simp add: same_name_def e(4))
    show ?thesis using that unfolding corresponds_def same .
  qed
  have "same_c_type b b' i j" if s: "same_c_type b1 b' i j" for i j
  proof -
    obtain R where R: "R i j" "\<And>i j. R i j \<Longrightarrow> unat i < btf__type_cnt b1 \<and> unat j < btf__type_cnt b' \<and>
        corresponds b1 b' R (dgraph b1 i) (dgraph b' j)" using s unfolding same_c_type_def by blast
    have "unat i < btf__type_cnt b \<and> unat j < btf__type_cnt b' \<and> corresponds b b' R (dgraph b i) (dgraph b' j)" if "R i j" for i j
      using R(2) [OF that] c [of R] e(1,3) by metis
    with R(1) show ?thesis unfolding same_c_type_def by blast
  qed
  with assms(2) e(1,2) show ?thesis unfolding represents_def by simp
qed

lemma prim_not_var: "prim_kind (btf_kind t) \<Longrightarrow> \<not> (btf_is_var t \<or> btf_is_datasec t)"
  by (auto simp: prim_kind_def btf_is_var_def btf_is_datasec_def)

lemma dedup_spec:
  assumes r: "dedup_ready b" and ext: "opts = None \<or> (\<exists>o'. opts = Some o' \<and> opts_btf_ext o' = None)"
  shows "\<exists>b' ext r. btf__dedup env b opts = Some (b', ext, r) \<and> r \<le> 0 \<and> (r = 0 \<longrightarrow> (\<exists>f. represents b b' f))"
proof -
  have no_ext: "(case opts of None \<Rightarrow> None | Some o' \<Rightarrow> opts_btf_ext o') = None" using ext by auto
  obtain btf base where b: "b = btf # base" using r by (cases b) (auto simp: dedup_ready_def)
  have w: "btf_wf b" "graph_ok b" "names_ok b" "base_closed b" "start_str_off btf \<le> 2 ^ 31"
    using r by (simp_all add: dedup_ready_def b)
  have n: "btf__type_cnt b \<le> 2 ^ 32" "0 < btf__type_cnt b" "start_id (hd b) \<le> btf__type_cnt b"
    using w(1,2) type_cnt_pos [of b] by (simp_all add: graph_ok_def BTF_MAX_NR_TYPES_def btf_wf_def b btf__type_cnt_def)
  show ?thesis
  proof (cases "(case opts of None \<Rightarrow> False | Some o' \<Rightarrow> \<not> opts_valid o')")
    case True
    then show ?thesis by (simp add: btf__dedup_def EINVAL_def)
  next
    case valid: False
    show ?thesis
    proof (cases "btf_dedup_new env b opts")
      case (Inl e)
      with valid show ?thesis by (simp add: btf__dedup_def EINVAL_def)
    next
      case (Inr d)
      note dn = dedup_new_spec [OF Inr n(1,2)]
      obtain btf1 e where m: "btf_ensure_modifiable (modify_env env) (base \<noteq> []) btf = (btf1, e)" by fastforce
      show ?thesis
      proof (cases "e = 0")
        case False
        with valid Inr m show ?thesis by (simp add: btf__dedup_def b errno_defs)
      next
        case True
        let ?b1 = "btf1 # base"
        note so = ensure_same_object [OF m w(1) [unfolded b], folded b]
        have c1: "btf_chain ?b1" "strs_chain ?b1" using so(2) by (simp_all add: btf_wf_def)
        have e1: "btf__type_cnt ?b1 = btf__type_cnt b" "start_id btf1 = start_id btf" "start_str_off btf1 = start_str_off btf"
          using so(1) by (simp_all add: same_object_def b)
        obtain d1 r1 where p: "btf_dedup_prep env (d\<lparr>d_btf := ?b1\<rparr>) = (d1, r1)" by fastforce
        have st: "start_ok (btf__type_cnt ?b1) (d\<lparr>d_btf := ?b1\<rparr>)" using dn(1) by (simp add: e1(1))
        have "d_btf (d\<lparr>d_btf := ?b1\<rparr>) = ?b1" "btf__type_cnt ?b1 \<le> 2 ^ 32" "?b1 \<noteq> []" "d_map (d\<lparr>d_btf := ?b1\<rparr>) ! 0 = 0"
          using n(1) dn(3) by (simp_all add: e1(1))
        note ps = prep_spec [OF st this(1-3) c1(1) this(4) p]
        have pe: "d_btf_ext d1 = None" using ps(4) dn(4) no_ext by simp
        have run: "btf__dedup env b opts =
            (if r1 \<noteq> 0 then Some (d_btf d1, d_btf_ext d1, r1)
             else do {
               (d, err) \<leftarrow> dedup_passes [btf_dedup_strings env, btf_dedup_prim_types env, btf_dedup_struct_types env,
                 btf_dedup_resolve_fwds env, btf_dedup_ref_types env, btf_dedup_compact_types env, btf_dedup_remap_types] d1;
               Some (d_btf d, d_btf_ext d, err)
             })"
          using valid Inr m True p by (simp add: btf__dedup_def b del: dedup_passes.simps)
        show ?thesis
        proof (cases "r1 = 0")
          case False
          with ps(2) show ?thesis by (simp add: run)
        next
          case r1: True
          have pre: "str_pre btf1 base"
            using c1 ensure_modifiable_strs(2) [OF m _ True] w(1,5) e1(3) by (simp add: str_pre_def btf_wf_def b)
          have "\<exists>d' r. dedup_passes [btf_dedup_strings env, btf_dedup_prim_types env, btf_dedup_struct_types env,
              btf_dedup_resolve_fwds env, btf_dedup_ref_types env, btf_dedup_compact_types env, btf_dedup_remap_types] d1 = Some (d', r) \<and>
            r \<le> 0 \<and> (r = 0 \<longrightarrow> (\<exists>f. represents ?b1 (d_btf d') f))"
          proof (rule all_passes [OF pre _ _ _ ps(3) pe ps(1)])
            show "names_ok ?b1" by (rule same_object_names [OF so(1) w(3)])
            show "graph_ok ?b1" by (rule same_object_graph [OF so(1) w(2) c1(1)])
            show "base_closed ?b1" by (rule same_object_closed [OF so(1) w(4) n(3)])
            show "d_map d1 ! unat i = i" if "unat i < start_id btf1" for i using ps(6) [OF r1, of "unat i"] that by simp
            show "d_map d1 ! unat i \<noteq> i" if i: "start_id btf1 \<le> unat i" "unat i < btf__type_cnt ?b1"
              "prim_kind (btf_kind (dgraph ?b1 i))" for i
            proof -
              have "0 < unat i" using i(1) c1(1) type_cnt_pos [of base] by simp
              moreover have lt: "unat i < btf__type_cnt b" using i(2) e1(1) by simp
              moreover have "dgraph ?b1 i = dgraph b i" using so(1) lt by (simp add: same_object_def)
              then have "\<not> (btf_is_var (btf_type_by_id b (unat i)) \<or> btf_is_datasec (btf_type_by_id b (unat i)))"
                using prim_not_var i(3) by (simp add: dgraph_def)
              ultimately have "d_map d1 ! unat i = BTF_UNPROCESSED_ID" using ps(5) [of "unat i"] dn(5) [of "unat i"] i(1) by (simp add: Let_def)
              moreover have "unat i \<le> BTF_MAX_NR_TYPES" by (rule graph_okD(3) [OF w(2) lt])
              ultimately show ?thesis using unmapped_ids(1) by auto
            qed
          qed
          then obtain d' r where "dedup_passes [btf_dedup_strings env, btf_dedup_prim_types env, btf_dedup_struct_types env,
              btf_dedup_resolve_fwds env, btf_dedup_ref_types env, btf_dedup_compact_types env, btf_dedup_remap_types] d1 = Some (d', r)"
            "r \<le> 0" "r = 0 \<longrightarrow> (\<exists>f. represents ?b1 (d_btf d') f)" by blast
          moreover from this(3) have "r = 0 \<longrightarrow> (\<exists>f. represents b (d_btf d') f)" using same_object_represents [OF so(1)] by blast
          ultimately show ?thesis using r1 by (simp add: run del: dedup_passes.simps)
        qed
      qed
    qed
  qed
qed

end
