(* ===== verification/Dedup_Example.thy ===== *)
theory Dedup_Example
  imports Dedup_Correct
begin

text \<open>
  The object of the witnesses about deduplication, as calls of \<open>btf__add_\<close> build it: the type \<open>int\<close> twice (1 and 2),
  and the list \<open>struct n { struct n *n; }\<close> twice (3 and 5, with their pointers 4 and 6).
\<close>

definition dup_types :: "u8 list" where
  "dup_types =
     [1, 0, 0, 0, 0, 0, 0, 1, 4, 0, 0, 0, 32, 0, 0, 1,
      1, 0, 0, 0, 0, 0, 0, 1, 4, 0, 0, 0, 32, 0, 0, 1,
      5, 0, 0, 0, 1, 0, 0, 4, 8, 0, 0, 0, 5, 0, 0, 0, 4, 0, 0, 0, 0, 0, 0, 0,
      0, 0, 0, 0, 0, 0, 0, 2, 3, 0, 0, 0,
      5, 0, 0, 0, 1, 0, 0, 4, 8, 0, 0, 0, 5, 0, 0, 0, 6, 0, 0, 0, 0, 0, 0, 0,
      0, 0, 0, 0, 0, 0, 0, 2, 5, 0, 0, 0]"

definition dup_names :: "u8 list" where "dup_names = [0, 105, 110, 116, 0, 110, 0]"

text \<open>The buckets of the names, by their hashes.\<close>

definition dup_set :: strset where
  "dup_set =
     \<lparr>strs_data = dup_names, strs_data_len = 7, strs_data_max_len = BTF_MAX_STR_OFFSET,
      strs_hash = \<lparr>hash_fn = strset_hash_fn dup_names, equal_fn = strset_equal_fn dup_names,
        buckets = [[(0, 0)], [], [], [(5, 5), (1, 1)]], cap = 4, cap_bits = 2, sz = 3\<rparr>\<rparr>"

definition dup_btf :: btf where
  "dup_btf =
     \<lparr>raw_data = None, raw_data_swapped = None, raw_size = 0, swapped_endian = False, modifiable = True,
      hdr = \<lparr>magic = BTF_MAGIC, version = 1, flags = 0, hdr_len = 24, type_off = 0, type_len = 104,
        str_off = 104, str_len = 7\<rparr>,
      hdr_tail = [], types_data = dup_types, type_offs = [0, 16, 32, 56, 68, 92], nr_types = 6, start_id = 1,
      start_str_off = 0, btf_strs_data = [], strs_set = dup_set, strs_deduped = True, ptr_sz = 8\<rparr>"

definition dup_int :: btf_type where
  "dup_int = \<lparr>name_off = 1, info = 0x1000000, size_type = 4, rest = [0x1000020]\<rparr>"
definition dup_n :: "u32 \<Rightarrow> btf_type" where
  "dup_n ptr = \<lparr>name_off = 5, info = 0x4000001, size_type = 8, rest = [5, ptr, 0]\<rparr>"
definition dup_ptr :: "u32 \<Rightarrow> btf_type" where
  "dup_ptr n = \<lparr>name_off = 0, info = 0x2000000, size_type = n, rest = []\<rparr>"

lemmas dup_defs = dup_int_def dup_n_def dup_ptr_def

lemma dup_kinds [simp]:
  "btf_kind dup_int = BTF_KIND_INT" "btf_kind (dup_n x) = BTF_KIND_STRUCT" "btf_kind (dup_ptr x) = BTF_KIND_PTR"
  "btf_kind (dup_int\<lparr>rest := r\<rparr>) = BTF_KIND_INT" "btf_kind ((dup_n x)\<lparr>rest := r\<rparr>) = BTF_KIND_STRUCT"
  "btf_vlen (dup_n x) = 1" "btf_vlen ((dup_n x)\<lparr>rest := r\<rparr>) = 1"
  by (simp_all add: dup_defs btf_kind_def BTF_INFO_KIND_def kind_of_def all_kinds_def btf_vlen_def BTF_INFO_VLEN_def
      drop_bit_eq_div and_masks take_bit_eq_mod)

lemma dup_type_at:
  "type_hdr_at dup_types 0 = dup_int\<lparr>rest := []\<rparr>" "type_hdr_at dup_types 16 = dup_int\<lparr>rest := []\<rparr>"
  "type_hdr_at dup_types 32 = (dup_n 4)\<lparr>rest := []\<rparr>" "type_hdr_at dup_types 56 = dup_ptr 3"
  "type_hdr_at dup_types 68 = (dup_n 6)\<lparr>rest := []\<rparr>" "type_hdr_at dup_types 92 = dup_ptr 5"
  "type_at dup_types 0 = dup_int" "type_at dup_types 16 = dup_int" "type_at dup_types 32 = dup_n 4"
  "type_at dup_types 56 = dup_ptr 3" "type_at dup_types 68 = dup_n 6" "type_at dup_types 92 = dup_ptr 5"
proof -
  show h: "type_hdr_at dup_types 0 = dup_int\<lparr>rest := []\<rparr>" "type_hdr_at dup_types 16 = dup_int\<lparr>rest := []\<rparr>"
    "type_hdr_at dup_types 32 = (dup_n 4)\<lparr>rest := []\<rparr>" "type_hdr_at dup_types 56 = dup_ptr 3"
    "type_hdr_at dup_types 68 = (dup_n 6)\<lparr>rest := []\<rparr>" "type_hdr_at dup_types 92 = dup_ptr 5"
    by (simp_all add: type_hdr_at_def dup_types_def dup_defs get32_def le32_def)
  show "type_at dup_types 0 = dup_int" "type_at dup_types 16 = dup_int" "type_at dup_types 32 = dup_n 4"
    "type_at dup_types 56 = dup_ptr 3" "type_at dup_types 68 = dup_n 6" "type_at dup_types 92 = dup_ptr 5"
    by (simp_all add: type_at_def h btf_type_size_def Let_def sizeof_btf_type_def)
      (simp_all add: words_at_def get32_def le32_def dup_types_def dup_defs numeral_3_eq_3)
qed

lemma dup_cnt: "btf__type_cnt [dup_btf] = 7"
  by (simp add: btf__type_cnt_def dup_btf_def)

lemma dup_graph [simp]:
  "dgraph [dup_btf] 0 = btf_void" "dgraph [dup_btf] 1 = dup_int" "dgraph [dup_btf] 2 = dup_int" "dgraph [dup_btf] 3 = dup_n 4"
  "dgraph [dup_btf] 4 = dup_ptr 3" "dgraph [dup_btf] 5 = dup_n 6" "dgraph [dup_btf] 6 = dup_ptr 5"
  by (simp_all add: dgraph_def dup_btf_def dup_type_at)

lemma dup_ids: "unat i < 7 \<longleftrightarrow> i \<in> {0, 1, 2, 3, 4, 5, 6 :: u32}"
proof -
  have "unat i < 7 \<longleftrightarrow> unat i \<in> {0, 1, 2, 3, 4, 5, 6}" by auto
  also have "\<dots> \<longleftrightarrow> i \<in> {0, 1, 2, 3, 4, 5, 6}" by (auto simp flip: word_unat_eq_iff) (auto simp: word_unat_eq_iff)
  finally show ?thesis .
qed

lemma dup_refs:
  "ref_words dup_int = []" "ref_words (dup_n x) = [x]" "ref_words (dup_ptr x) = [x]" "ref_words btf_void = [0]"
  by (simp_all add: ref_words_def id_pos_def) (simp_all add: type_words_def dup_defs btf_void_def)

lemma dup_strs: "c_str dup_names 0 = []" "c_str dup_names 1 = [105, 110, 116]" "c_str dup_names 5 = [110]"
  by (simp_all add: c_str_def dup_names_def)

lemma dup_hash: "hash_bits (str_hash []) 2 = 0" "hash_bits (str_hash [105, 110, 116]) 2 = 3" "hash_bits (str_hash [110]) 2 = 3"
  by (simp_all add: hash_bits_def str_hash_def)

lemma dup_set_ok: "strset_ok dup_set"
proof -
  let ?m = "strset_map dup_set" and ?h = "strset_hash_fn dup_names" and ?e = "strset_equal_fn dup_names"
  have m: "?m = \<lparr>hash_fn = ?h, equal_fn = ?e, buckets = [[(0, 0)], [], [], [(5, 5), (1, 1)]], cap = 4, cap_bits = 2, sz = 3\<rparr>"
    by (simp add: strset_map_def dup_set_def)
  have "hash_bits (?h (fst e)) 2 = i" if "i < 4" "e \<in> set ([[(0, 0)], [], [], [(5, 5), (1, 1)]] ! i)" for i and e :: "nat \<times> nat"
  proof -
    have "i = 0 \<or> i = 1 \<or> i = 2 \<or> i = 3" using that(1) by auto
    with that(2) show ?thesis by (auto simp: strset_hash_fn_def dup_strs [simplified] dup_hash [simplified])
  qed
  then have "entries_placed ?m" by (simp add: entries_placed_def m)
  then have "hashmap_ok ?m" by (simp add: hashmap_ok_def m hashmap_entries_def)
  then have "keyed ?h ?e ?m" by (simp add: keyed_def m strset_equal_fn_def dup_strs [simplified])
  then show ?thesis
    by (simp add: strset_ok_def hashmap_entries_def dup_set_def terminated_def dup_strs [simplified]) (simp add: dup_names_def)
qed

lemma dup_wf: "btf_wf [dup_btf]"
proof -
  have "types_from dup_types 104 [0, 16, 32, 56, 68, 92] 0"
    by (simp add: types_from_Cons_iff dup_type_at btf_type_size_def Let_def sizeof_btf_type_def)
  then have "btf_ok dup_btf" by (simp add: btf_ok_def dup_btf_def) (simp add: dup_types_def)
  moreover have "strs_ok dup_btf" using dup_set_ok
    by (simp add: strs_ok_def str_sec_def btf_strs_def dup_btf_def) (simp add: dup_set_def dup_names_def)
  ultimately show ?thesis by (simp add: btf_wf_def) (simp add: dup_btf_def btf__type_cnt_def)
qed

lemma dup_ready: "dedup_ready [dup_btf]"
proof -
  have c: "btf_chain [dup_btf]" using dup_wf by (simp add: btf_wf_def)
  have k: "\<not> is_composite_kind (btf_kind (dgraph [dup_btf] m))"
    if "unat i < 7" "is_composite_kind (btf_kind (dgraph [dup_btf] i))" "m \<in> set (ref_words (dgraph [dup_btf] i))" for i m
    using that unfolding dup_ids by (auto simp: is_composite_kind_def dup_refs)
  then have "nested_ok [dup_btf]" by (auto simp: nested_ok_def dup_cnt)
  moreover have "no_fwd (dgraph [dup_btf] i) \<and> (\<forall>r\<in>set (ref_words (dgraph [dup_btf] i)). unat r < 7)" if "unat i < 7" for i
    using that unfolding dup_ids
    by (auto simp: no_fwd_def btf_is_enum_fwd_def btf_is_any_enum_def btf_is_enum_def btf_is_enum64_def dup_refs)
  ultimately have g: "graph_ok [dup_btf]" using c by (simp add: graph_ok_def dup_cnt BTF_MAX_NR_TYPES_def)
  have "btf__str_by_offset [dup_btf] w \<noteq> None" if "w < 7" for w using that by (simp add: dup_btf_def)
  moreover have "\<forall>j\<in>set (str_pos (dgraph [dup_btf] i)). unat (type_words (dgraph [dup_btf] i) ! j) < 7" if "unat i < 7" for i
    using that unfolding dup_ids by (auto simp: str_pos_def type_words_def) (simp_all add: dup_defs btf_void_def)
  moreover have s: "start_id dup_btf = 1" by (simp add: dup_btf_def)
  moreover have "type_words (dgraph [dup_btf] i) ! j = 0" if "unat i = 0" "j \<in> set (str_pos (dgraph [dup_btf] i))" for i j
  proof -
    have "i = 0" using that(1) by (simp add: unat_eq_0)
    with that(2) show ?thesis by (simp add: str_pos_def) (simp add: type_words_def btf_void_def)
  qed
  ultimately have "names_ok [dup_btf]" unfolding names_ok_def dup_cnt Let_def
    by (auto simp: unat_gt_0 simp del: btf__str_by_offset.simps)
  moreover have "base_closed [dup_btf]" by (auto simp: base_closed_def s unat_eq_0 dup_refs)
  ultimately show ?thesis using g dup_wf by (simp add: dedup_ready_def dup_btf_def)
qed


section \<open>The two lists are equivalent\<close>

definition dup_env :: dedup_env where
  "dup_env =
     (let e = \<lparr>hdr_ok = True, types_ok = True, set_ok = True, map_ok = True, data_ok = True, index_al = (\<lambda>_. alloc_all),
            str_ok = True, str_al = alloc_all, mem_ok = True, offs_ok = True\<rparr> in
      \<lparr>dedup_ok = True, table_ok = True, dmap_ok = True, dhypot_ok = True, modify_env = e, sset_ok = True, smap_ok = True,
       find_env = (\<lambda>_ _. e), add_env = (\<lambda>_. e), table_al = (\<lambda>_. alloc_all), hypot_ok = (\<lambda>_. True), names_map_ok = True,
       names_al = (\<lambda>_. alloc_all), offs_re_ok = True\<rparr>)"

definition dup_dedup :: "(u64, u32) hashmap \<Rightarrow> u32 list \<Rightarrow> u32 list \<Rightarrow> u32 list \<Rightarrow> nat \<Rightarrow> btf_dedup" where
  "dup_dedup table m hm hl cap' =
     \<lparr>d_btf = [dup_btf], d_btf_ext = None, dedup_table = table, d_map = m, hypot_map = hm, hypot_list = hl, hypot_cap = cap',
      hypot_adjust_canon = False, d_strs_set = empty_strset\<rparr>"

abbreviation unset :: u32 where "unset \<equiv> BTF_UNPROCESSED_ID"

abbreviation no_table :: "(u64, u32) hashmap" where "no_table \<equiv> hashmap_init identity_hash_fn (=)"
abbreviation dup_map :: "u32 list" where "dup_map \<equiv> [0, unset, unset, unset, unset, unset, unset]"
abbreviation dup_unmapped :: "u32 list" where "dup_unmapped \<equiv> [unset, unset, unset, unset, unset, unset, unset]"
abbreviation dup_start :: btf_dedup where "dup_start \<equiv> dup_dedup no_table dup_map dup_unmapped [] 0"

lemma dup_unset:
  "replicate 6 unset = [unset, unset, unset, unset, unset, unset]" "replicate 7 unset = dup_unmapped"
  by (simp_all add: numeral_eq_Suc)

lemma dup_by_id:
  "btf_type_by_id [dup_btf] 0 = btf_void" "btf_type_by_id [dup_btf] (Suc 0) = dup_int" "btf_type_by_id [dup_btf] 2 = dup_int"
  "btf_type_by_id [dup_btf] 3 = dup_n 4" "btf_type_by_id [dup_btf] 4 = dup_ptr 3" "btf_type_by_id [dup_btf] 5 = dup_n 6"
  "btf_type_by_id [dup_btf] 6 = dup_ptr 5"
  using dup_graph unfolding dgraph_def by simp_all

lemma dup_var:
  "\<not> (btf_is_var (btf_type_by_id [dup_btf] n) \<or> btf_is_datasec (btf_type_by_id [dup_btf] n))"
  if "n = 1 \<or> n = 2 \<or> n = 3 \<or> n = 4 \<or> n = 5 \<or> n = 6" for n
  using that by (elim disjE) (simp_all add: dup_by_id btf_is_var_def btf_is_datasec_def del: btf_type_by_id.simps)

lemma dup_new: "btf_dedup_new dup_env [dup_btf] None = Inr (dup_start)"
proof -
  have "map (\<lambda>i. if btf_is_var (btf_type_by_id [dup_btf] i) \<or> btf_is_datasec (btf_type_by_id [dup_btf] i)
       then of_nat i else unset) [1..<7] = map (\<lambda>_. unset) [1..<7]"
  proof (rule map_cong)
    fix i :: nat assume "i \<in> set [1..<7]"
    then have "i = 1 \<or> i = 2 \<or> i = 3 \<or> i = 4 \<or> i = 5 \<or> i = 6" by auto
    from dup_var [OF this] show "(if btf_is_var (btf_type_by_id [dup_btf] i) \<or> btf_is_datasec (btf_type_by_id [dup_btf] i)
       then of_nat i else unset) = unset" by (simp only: if_False)
  qed simp
  also have "... = replicate 6 unset" by (simp add: map_replicate_const)
  finally show ?thesis by (simp add: btf_dedup_new_def dup_env_def Let_def dup_cnt dup_dedup_def dup_unset del: btf_type_by_id.simps)
qed

lemma dup_pass_ok: "pass_ok [dup_btf] (dup_start)"
proof -
  have "start_ok (btf__type_cnt [dup_btf]) (dup_start)"
    by (rule dedup_new_spec(1) [OF dup_new]) (simp_all add: dup_cnt)
  then show ?thesis by (rule start_pass_ok) (simp add: dup_dedup_def)
qed

text \<open>The pairs the comparison goes through: the two structs, their pointers, and the structs again.\<close>

lemma unset: "\<not> unat unset \<le> BTF_MAX_NR_TYPES" "unset \<noteq> 5" "unset \<noteq> 6"
  using unmapped_ids by (simp_all add: BTF_UNPROCESSED_ID_def)

lemma dup_resolve: "resolve_type_id dup_map i = Some i" if "i = 3 \<or> i = 4 \<or> i = 5 \<or> i = (6 :: u32)" for i
  using that by (subst resolve_type_id.simps, elim disjE) (simp_all add: ld_def unset)

lemma dup_get:
  "btf__type_by_id [dup_btf] 3 = Some (dup_n 4)" "btf__type_by_id [dup_btf] 4 = Some (dup_ptr 3)"
  "btf__type_by_id [dup_btf] 5 = Some (dup_n 6)" "btf__type_by_id [dup_btf] 6 = Some (dup_ptr 5)"
  by (simp_all add: btf__type_by_id_def dup_cnt dup_by_id del: btf_type_by_id.simps)

lemma dup_fwd: "resolve_fwd_id [dup_btf] m 3 = Some 3" "resolve_fwd_id [dup_btf] m 4 = Some 4"
  by (simp_all add: resolve_fwd_id_def dup_get btf_is_fwd_def)

lemma dup_steps: "equiv_step (dup_n 6) (dup_n 4) = Inr [(6, 4)]" "equiv_step (dup_ptr 5) (dup_ptr 3) = Inr [(5, 3)]"
  "fwd_step (dup_n 6) (dup_n 4) = None" "fwd_step (dup_ptr 5) (dup_ptr 3) = None"
proof -
  have "btf_shallow_equal_struct (dup_n 6) (dup_n 4)"
    by (simp add: btf_shallow_equal_struct_def btf_members_def) (simp add: dup_defs btf_equal_common_def)
  then show "equiv_step (dup_n 6) (dup_n 4) = Inr [(6, 4)]"
    by (simp add: equiv_step_def Let_def btf_members_def) (simp add: dup_defs)
qed (simp_all add: equiv_step_def fwd_step_def Let_def dup_ptr_def [THEN arg_cong, of info] dup_ptr_def [THEN arg_cong, of size_type])

lemma dup_equiv:
  assumes "\<And>i. i = 3 \<or> i = 4 \<or> i = 5 \<or> i = (6 :: u32) \<Longrightarrow> resolve_type_id m i = Some i"
  shows "btf_dedup_is_equiv (\<lambda>_. True) 5 3 (dup_dedup t m dup_unmapped [] 0) =
    Some (dup_dedup t m [unset, unset, unset, 5, 6, unset, unset] [3, 4] 16, 1)"
proof -
  let ?m2 = "[unset, unset, unset, 5, 6, unset, unset]"
  note assms = assms [of 3, simplified] assms [of 4, simplified] assms [of 5, simplified] assms [of 6, simplified]
  have 3: "btf_dedup_is_equiv (\<lambda>_. True) 5 3 (dup_dedup t m ?m2 [3, 4] 16) = Some (dup_dedup t m ?m2 [3, 4] 16, 1)"
    by (subst btf_dedup_is_equiv.simps) (simp add: dup_dedup_def assms dup_fwd ld_def BTF_MAX_NR_TYPES_def)
  have 2: "btf_dedup_is_equiv (\<lambda>_. True) 6 4 (dup_dedup t m [unset, unset, unset, 5, unset, unset, unset] [3] 16) =
      Some (dup_dedup t m ?m2 [3, 4] 16, 1)"
    by (subst btf_dedup_is_equiv.simps)
      (simp add: dup_dedup_def assms dup_fwd ld_def st_def unset dup_get dup_steps btf_dedup_hypot_map_add_def Let_def
        3 [unfolded dup_dedup_def] dup_defs [THEN arg_cong, of name_off])
  show ?thesis
    by (subst btf_dedup_is_equiv.simps)
      (simp add: dup_dedup_def assms dup_fwd ld_def st_def unset dup_get dup_steps btf_dedup_hypot_map_add_def Let_def
        2 [unfolded dup_dedup_def] dup_defs [THEN arg_cong, of name_off])
qed

lemma dup_clear: "btf_dedup_clear_hypot_map (dup_dedup t m dup_unmapped [] c) = dup_dedup t m dup_unmapped [] c"
  by (simp add: btf_dedup_clear_hypot_map_def dup_dedup_def)

end
