(* ===== verification/Dedup_Run.thy ===== *)
theory Dedup_Run
  imports Dedup_Example
begin

text \<open>
  \<open>btf__dedup\<close> on the object of \<open>Dedup_Example\<close>, pass by pass, to the result: of the six types three are left.
\<close>

section \<open>The table\<close>

abbreviation h_int :: u64 where "h_int \<equiv> 16139711739"
abbreviation h_n :: u64 where "h_n \<equiv> 1999244822663"
abbreviation h_ptr :: u64 where "h_ptr \<equiv> 1040187395"

definition dup_table :: "(u64 \<times> u32) list list \<Rightarrow> nat \<Rightarrow> (u64, u32) hashmap" where
  "dup_table bs n = \<lparr>hash_fn = identity_hash_fn, equal_fn = (=), buckets = bs, cap = 4, cap_bits = 2, sz = n\<rparr>"

definition t1 :: "(u64, u32) hashmap" where "t1 = dup_table [[], [(h_int, 1)], [], []] 1"
definition t2 :: "(u64, u32) hashmap" where "t2 = dup_table [[], [(h_int, 1)], [], [(h_n, 3)]] 2"
definition t3 :: "(u64, u32) hashmap" where "t3 = dup_table [[], [(h_int, 1)], [], [(h_ptr, 4), (h_n, 3)]] 3"

lemmas dup_tables = t1_def t2_def t3_def dup_table_def

lemma dup_hashes:
  "btf_hash_int_decl_tag dup_int = h_int" "btf_hash_struct (dup_n x) = h_n" "btf_hash_common (dup_ptr 3) = h_ptr"
  by (simp_all add: btf_hash_int_decl_tag_def btf_hash_struct_def btf_hash_common_def hash_combine_def btf_members_def Let_def)
    (simp_all add: dup_defs)

lemma dup_bits: "hash_bits h_int 2 = 1" "hash_bits h_n 2 = 3" "hash_bits h_ptr 2 = 3"
  by (simp_all add: hash_bits_def)

lemma replicate_4: "replicate 4 x = [x, x, x, x]"
  by (simp add: numeral_eq_Suc)

lemma dup_insert:
  "hashmap_insert alloc_all no_table h_int 1 HASHMAP_APPEND = (t1, 0, None)"
  "hashmap_insert alloc_all t1 h_n 3 HASHMAP_APPEND = (t2, 0, None)"
  "hashmap_insert alloc_all t2 h_ptr 4 HASHMAP_APPEND = (t3, 0, None)"
  by (simp_all add: hashmap_insert_def dup_tables hashmap_init_def hashmap_needs_to_grow_def hashmap_grow_def calloc_def
      alloc_all_def HASHMAP_MIN_CAP_BITS_def hashmap_entries_def Let_def identity_hash_fn_def dup_bits hashmap_add_entry_def
      replicate_4)

lemma dup_add:
  "btf_dedup_table_add alloc_all h_int 1 (dup_dedup no_table m hm hl c) = (dup_dedup t1 m hm hl c, 0)"
  "btf_dedup_table_add alloc_all h_n 3 (dup_dedup t1 m hm hl c) = (dup_dedup t2 m hm hl c, 0)"
  by (simp_all add: btf_dedup_table_add_def dup_dedup_def dup_insert)

lemma dup_cands:
  "dedup_cands (dup_dedup no_table m hm hl c) h = []" "dedup_cands (dup_dedup t1 m hm hl c) h_int = [1]"
  "dedup_cands (dup_dedup t1 m hm hl c) h_n = []" "dedup_cands (dup_dedup t2 m hm hl c) h_n = [3]"
  by (simp_all add: dedup_cands_def dup_dedup_def hashmap_key_entries_def hashmap_init_def dup_tables identity_hash_fn_def
      dup_bits)

section \<open>Primitive types\<close>

lemma dup_get12: "btf__type_by_id [dup_btf] (Suc 0) = Some dup_int" "btf__type_by_id [dup_btf] 2 = Some dup_int"
  by (simp_all add: btf__type_by_id_def dup_cnt dup_by_id del: btf_type_by_id.simps)

lemma dup_fields [simp]:
  "d_btf (dup_dedup t m hm hl c) = [dup_btf]" "d_map (dup_dedup t m hm hl c) = m" "hypot_map (dup_dedup t m hm hl c) = hm"
  "hypot_list (dup_dedup t m hm hl c) = hl" "hypot_adjust_canon (dup_dedup t m hm hl c) = False"
  "d_btf_ext (dup_dedup t m hm hl c) = None" "(dup_dedup t m hm hl c)\<lparr>d_map := m'\<rparr> = dup_dedup t m' hm hl c"
  by (simp_all add: dup_dedup_def)

lemma dup_env_fields [simp]: "table_al dup_env i = alloc_all" "hypot_ok dup_env = (\<lambda>_. True)" "names_al dup_env i = alloc_all"
  "names_map_ok dup_env" "offs_re_ok dup_env"
  by (simp_all add: dup_env_def Let_def)

lemma dup_own: "own_ids (dup_dedup t m hm hl c) = [1, 2, 3, 4, 5, 6]"
  by (simp add: own_ids_def dup_btf_def upt_conv_Cons)

lemma dup_prim:
  "btf_dedup_prim_types dup_env dup_start = Some (dup_dedup t1 [0, 1, 1, unset, unset, unset, unset] dup_unmapped [] 0, 0)"
proof -
  have 1: "btf_dedup_prim_type dup_env 1 dup_start = Some (dup_dedup t1 [0, 1, unset, unset, unset, unset, unset] dup_unmapped [] 0, 0)"
    by (simp add: btf_dedup_prim_type_def dup_get12 dup_hashes dedup_equal_def dup_cands set_canonical_def st_def dup_add)
  have "btf_equal_int_tag dup_int dup_int" by (simp add: btf_equal_int_tag_def btf_equal_common_def)
  then have 2: "btf_dedup_prim_type dup_env 2 (dup_dedup t1 [0, 1, unset, unset, unset, unset, unset] dup_unmapped [] 0) =
      Some (dup_dedup t1 [0, 1, 1, unset, unset, unset, unset] dup_unmapped [] 0, 0)"
    by (simp add: btf_dedup_prim_type_def dup_get12 dup_hashes dedup_equal_def dup_cands set_canonical_def st_def)
  have "btf_dedup_prim_type dup_env i (dup_dedup t m hm hl c) = Some (dup_dedup t m hm hl c, 0)"
    if "i = 3 \<or> i = 4 \<or> i = 5 \<or> i = 6" for i t m hm hl c
    using that by (auto simp: btf_dedup_prim_type_def dup_get)
  then show ?thesis by (simp add: btf_dedup_prim_types_def dup_own 1 2)
qed

section \<open>Structs\<close>

lemma small [simp]: "Suc 0 \<le> BTF_MAX_NR_TYPES" "3 \<le> BTF_MAX_NR_TYPES" "4 \<le> BTF_MAX_NR_TYPES"
  by (simp_all add: BTF_MAX_NR_TYPES_def)

lemma dup_shallow: "btf_shallow_equal_struct (dup_n x) (dup_n y)"
  by (simp add: btf_shallow_equal_struct_def btf_members_def) (simp add: dup_defs btf_equal_common_def)

lemma dup_struct:
  "btf_dedup_struct_types dup_env (dup_dedup t1 [0, 1, 1, unset, unset, unset, unset] dup_unmapped [] 0) =
     Some (dup_dedup t2 [0, 1, 1, 3, unset, 3, unset] [unset, unset, unset, 5, 6, unset, unset] [3, 4] 16, 0)"
proof -
  let ?m = "[0, 1, 1, 3, unset, unset, unset]" and ?h = "[unset, unset, unset, 5, 6, unset, unset]"
  have 3: "btf_dedup_struct_type dup_env 3 (dup_dedup t1 [0, 1, 1, unset, unset, unset, unset] dup_unmapped [] 0) =
      Some (dup_dedup t2 ?m dup_unmapped [] 0, 0)"
    by (simp add: btf_dedup_struct_type_def is_type_mapped_def ld_def st_def unset dup_get is_composite_kind_def dup_hashes
        dup_cands set_canonical_def dup_add Let_def)
  have r: "resolve_type_id ?m i = Some i" if "i = 3 \<or> i = 4 \<or> i = 5 \<or> i = (6 :: u32)" for i
    using that by (subst resolve_type_id.simps, elim disjE) (simp_all add: ld_def unset)
  have r5: "resolve_type_id [0, 1, 1, 3, unset, 3, unset] i = Some i" if "i = 4 \<or> i = (6 :: u32)" for i
    using that by (subst resolve_type_id.simps, elim disjE) (simp_all add: ld_def unset)
  have "btf_dedup_merge_hypot_map (dup_dedup t2 ?m ?h [3, 4] 16) = Some (dup_dedup t2 [0, 1, 1, 3, unset, 3, unset] ?h [3, 4] 16)"
    by (simp add: btf_dedup_merge_hypot_map_def merge_hypot_def ld_def st_def r r5 dup_get btf_is_fwd_def is_composite_kind_def
        is_type_mapped_def unset)
  then have 5: "btf_dedup_struct_type dup_env 5 (dup_dedup t2 ?m dup_unmapped [] 0) =
      Some (dup_dedup t2 [0, 1, 1, 3, unset, 3, unset] ?h [3, 4] 16, 0)"
    by (simp add: btf_dedup_struct_type_def is_type_mapped_def ld_def st_def unset dup_get is_composite_kind_def dup_hashes
        dup_cands dup_shallow dup_clear dup_equiv [OF r] set_canonical_def Let_def)
  have "btf_dedup_struct_type dup_env i (dup_dedup t m hm hl c) = Some (dup_dedup t m hm hl c, 0)"
    if "i = 1 \<or> i = 2 \<or> i = 4 \<or> i = 6" "length m = 7" for i t m hm hl c
    using that by (auto simp: btf_dedup_struct_type_def is_type_mapped_def ld_def dup_get dup_get12 is_composite_kind_def)
  then show ?thesis by (simp add: btf_dedup_struct_types_def dup_own 3 5)
qed

section \<open>Forward declarations\<close>

text \<open>There are none; the map of names holds the struct.\<close>

lemma dup_fwds:
  "btf_dedup_resolve_fwds dup_env (dup_dedup t [0, 1, 1, 3, unset, 3, unset] hm hl c) =
     Some (dup_dedup t [0, 1, 1, 3, unset, 3, unset] hm hl c, 0)"
proof -
  let ?d = "dup_dedup t [0, 1, 1, 3, unset, 3, unset] hm hl c"
  have k: "btf_type_by_id [dup_btf] i = dup_int \<or> (\<exists>x. btf_type_by_id [dup_btf] i = dup_ptr x)" if "i = 1 \<or> i = 2 \<or> i = 4 \<or> i = 6" for i
    using that by (auto simp: dup_by_id simp del: btf_type_by_id.simps)
  have skip: "fill_names dup_env ?d (i # is) m = fill_names dup_env ?d is m" if "i = 1 \<or> i = 2 \<or> i = 4 \<or> i = 5 \<or> i = 6" for i "is" m
    using that by (auto simp: ld_def dup_by_id is_composite_kind_def Let_def simp del: btf_type_by_id.simps)
  have u: "[1..<7] = [1, 2, 3, 4, 5, 6 :: nat]" by (simp add: upt_conv_Cons)
  obtain m where m: "names_add alloc_all 5 3 no_table = (m, 0)"
    by (simp add: names_add_def hashmap_insert_def hashmap_init_def hashmap_needs_to_grow_def hashmap_grow_def calloc_def
        alloc_all_def hashmap_find_entry_def HASHMAP_MIN_CAP_BITS_def Let_def errno_defs)
  have "name_off (dup_n 4) = 5" by (simp add: dup_defs)
  then have "fill_names dup_env ?d [1, 2, 3, 4, 5, 6] no_table = Some (m, 0)"
    by (simp only: skip simp_thms) (simp add: ld_def dup_by_id is_composite_kind_def Let_def m del: btf_type_by_id.simps)
  then have f: "btf_dedup_fill_unique_names_map dup_env ?d no_table = Some (m, 0)"
    unfolding btf_dedup_fill_unique_names_map_def by (simp only: dup_fields dup_cnt u)
  have "btf_dedup_resolve_fwd m i ?d = Some (?d, 0)" if "i = 1 \<or> i = 2 \<or> i = 3 \<or> i = 4 \<or> i = 5 \<or> i = 6" for i
    using that by (auto simp: btf_dedup_resolve_fwd_def dup_get dup_get12 btf_is_fwd_def)
  with f show ?thesis by (simp add: btf_dedup_resolve_fwds_def dup_own)
qed

section \<open>Reference types\<close>

definition dup_types' :: "u8 list" where
  "dup_types' =
     [1, 0, 0, 0, 0, 0, 0, 1, 4, 0, 0, 0, 32, 0, 0, 1,
      1, 0, 0, 0, 0, 0, 0, 1, 4, 0, 0, 0, 32, 0, 0, 1,
      5, 0, 0, 0, 1, 0, 0, 4, 8, 0, 0, 0, 5, 0, 0, 0, 4, 0, 0, 0, 0, 0, 0, 0,
      0, 0, 0, 0, 0, 0, 0, 2, 3, 0, 0, 0,
      5, 0, 0, 0, 1, 0, 0, 4, 8, 0, 0, 0, 5, 0, 0, 0, 6, 0, 0, 0, 0, 0, 0, 0,
      0, 0, 0, 0, 0, 0, 0, 2, 3, 0, 0, 0]"

lemma dup_get32: "get32 dup_types 64 = 3" "get32 dup_types 100 = 5"
  by (simp_all add: get32_def le32_def dup_types_def)

lemma dup_put32: "put32 dup_types 64 3 = dup_types" "put32 dup_types 100 3 = dup_types'"
  by (simp_all add: put32_def put_def bytes32_def byte_at_def dup_types_def dup_types'_def)

abbreviation dup_refs_done :: btf_dedup where
  "dup_refs_done \<equiv> (dup_dedup t3 [0, 1, 1, 3, 4, 3, 4] [unset, unset, unset, 5, 6, unset, unset] [3, 4] 16)
     \<lparr>d_btf := [dup_btf\<lparr>types_data := dup_types'\<rparr>]\<rparr>"

lemma not_in_progress [simp]: "unset \<noteq> BTF_IN_PROGRESS_ID"
  by (simp add: BTF_UNPROCESSED_ID_def BTF_IN_PROGRESS_ID_def)

lemma resolve_done: "ld m (unat i) = Some i \<Longrightarrow> resolve_type_id m i = Some i"
  by (subst resolve_type_id.simps) simp

lemma resolve_step: "ld m (unat i) = Some j \<Longrightarrow> unat j \<le> BTF_MAX_NR_TYPES \<Longrightarrow> ld m (unat j) = Some j \<Longrightarrow> resolve_type_id m i = Some j"
  by (subst resolve_type_id.simps) (simp add: resolve_done)

lemma ref_mapped:
  assumes "ld m (unat i) = Some j" "unat j \<le> BTF_MAX_NR_TYPES" "ld m (unat j) = Some j"
  shows "btf_dedup_ref_type env i (dup_dedup t m hm hl c) = Some (dup_dedup t m hm hl c, sint j)"
proof -
  have "j \<noteq> BTF_IN_PROGRESS_ID" using assms(2) unmapped_ids by auto
  with assms show ?thesis by (subst btf_dedup_ref_type.simps) (simp add: resolve_step [OF assms])
qed

lemma dup_add3: "btf_dedup_table_add alloc_all h_ptr 4 (dup_dedup t2 m hm hl c) = (dup_dedup t3 m hm hl c, 0)"
  by (simp add: btf_dedup_table_add_def dup_dedup_def dup_insert)

lemma dup_data [simp]:
  "own_data (dup_dedup t m hm hl c) = dup_types" "set_types_data dup_types (dup_dedup t m hm hl c) = dup_dedup t m hm hl c"
  by (simp_all add: own_data_def set_types_data_def dup_dedup_def dup_btf_def)

lemma ref_ptr:
  "btf_dedup_ref_type dup_env 4 (dup_dedup t2 [0, 1, 1, 3, unset, 3, unset] hm hl c) =
     Some (dup_dedup t3 [0, 1, 1, 3, 4, 3, unset] hm hl c, 4)"
proof -
  have p: "own_pos (dup_dedup t m hm hl c) 4 = Some 56" for t m
    by (simp add: own_pos_def own_type_offs_def ld_def) (simp add: dup_btf_def)
  have r: "btf_dedup_ref_type dup_env 3 (dup_dedup t2 [0, 1, 1, 3, BTF_IN_PROGRESS_ID, 3, unset] hm hl c) =
      Some (dup_dedup t2 [0, 1, 1, 3, BTF_IN_PROGRESS_ID, 3, unset] hm hl c, sint (3 :: u32))"
    by (rule ref_mapped) (simp_all add: ld_def)
  have c: "dedup_cands (dup_dedup t2 m hm hl c) h_ptr = []" for m
    by (simp add: dedup_cands_def dup_dedup_def hashmap_key_entries_def dup_tables identity_hash_fn_def dup_bits)
  show ?thesis
    by (subst btf_dedup_ref_type.simps)
      (simp add: ld_def st_def unset p dup_get ref_case_def dup_get32 r dup_put32 dup_hashes c set_canonical_def dup_add3 Let_def)
qed

lemma dup_type_at':
  "type_at dup_types' 56 = dup_ptr 3" "type_at dup_types' 92 = dup_ptr 3" "type_hdr_at dup_types' 0 = dup_int\<lparr>rest := []\<rparr>"
  "type_hdr_at dup_types' 32 = (dup_n 4)\<lparr>rest := []\<rparr>" "type_hdr_at dup_types' 56 = dup_ptr 3"
proof -
  show h: "type_hdr_at dup_types' 0 = dup_int\<lparr>rest := []\<rparr>" "type_hdr_at dup_types' 32 = (dup_n 4)\<lparr>rest := []\<rparr>"
    "type_hdr_at dup_types' 56 = dup_ptr 3"
    by (simp_all add: type_hdr_at_def dup_types'_def dup_defs get32_def le32_def)
  have "type_hdr_at dup_types' 92 = dup_ptr 3" by (simp add: type_hdr_at_def dup_types'_def dup_defs get32_def le32_def)
  then show "type_at dup_types' 56 = dup_ptr 3" "type_at dup_types' 92 = dup_ptr 3"
    by (simp_all add: type_at_def h btf_type_size_def Let_def sizeof_btf_type_def)
      (simp_all add: words_at_def dup_ptr_def)
qed

lemma dup_get':
  "btf__type_by_id [dup_btf\<lparr>types_data := dup_types'\<rparr>] 4 = Some (dup_ptr 3)"
  "btf__type_by_id [dup_btf\<lparr>types_data := dup_types'\<rparr>] 6 = Some (dup_ptr 3)"
  by (simp_all add: btf__type_by_id_def btf__type_cnt_def dup_btf_def dup_type_at')

lemma ref_ptr':
  "btf_dedup_ref_type dup_env 6 (dup_dedup t3 [0, 1, 1, 3, 4, 3, unset] [unset, unset, unset, 5, 6, unset, unset] [3, 4] 16) =
     Some (dup_refs_done, 4)"
proof -
  let ?hm = "[unset, unset, unset, 5, 6, unset, unset]"
  have p: "own_pos (dup_dedup t m hm hl c) 6 = Some 92" for t m hm hl c
    by (simp add: own_pos_def own_type_offs_def ld_def) (simp add: dup_btf_def)
  have r: "btf_dedup_ref_type dup_env 5 (dup_dedup t3 [0, 1, 1, 3, 4, 3, BTF_IN_PROGRESS_ID] ?hm hl c) =
      Some (dup_dedup t3 [0, 1, 1, 3, 4, 3, BTF_IN_PROGRESS_ID] ?hm hl c, sint (3 :: u32))" for hl c
    by (rule ref_mapped) (simp_all add: ld_def)
  have s: "set_types_data dup_types' (dup_dedup t m hm hl c) = (dup_dedup t m hm hl c)\<lparr>d_btf := [dup_btf\<lparr>types_data := dup_types'\<rparr>]\<rparr>"
    for t m hm hl c by (simp add: set_types_data_def)
  have c: "dedup_cands ((dup_dedup t3 m hm hl c)\<lparr>d_btf := b\<rparr>) h_ptr = [4]" for m hm hl c b
    by (simp add: dedup_cands_def dup_dedup_def hashmap_key_entries_def dup_tables identity_hash_fn_def dup_bits)
  have m: "(dup_dedup t3 m hm hl c)\<lparr>d_btf := b, d_map := m'\<rparr> = (dup_dedup t3 m' hm hl c)\<lparr>d_btf := b\<rparr>" for m m' hm hl c b
    by (simp add: dup_dedup_def)
  show ?thesis
    by (subst btf_dedup_ref_type.simps)
      (simp add: ld_def st_def unset p dup_get ref_case_def dup_get32 r dup_put32 s dup_get' dup_hashes c m btf_equal_common_def
        set_canonical_def Let_def)
qed

lemma dup_ref_types:
  "btf_dedup_ref_types dup_env (dup_dedup t2 [0, 1, 1, 3, unset, 3, unset] [unset, unset, unset, 5, 6, unset, unset] [3, 4] 16) =
     Some (dup_refs_done, 0)"
proof -
  have m: "btf_dedup_ref_type dup_env i (dup_dedup t m hm hl c) = Some (dup_dedup t m hm hl c, j)"
    if "i = 1 \<and> j = 1 \<or> i = 2 \<and> j = 1 \<or> i = 3 \<and> j = 3 \<or> i = 5 \<and> j = 3" "m = [0, 1, 1, 3, x, 3, unset]" for i j t m hm hl c x
    using that by (elim disjE conjE; hypsubst) (rule ref_mapped [of _ _ 1, simplified] ref_mapped [of _ _ 3, simplified]; simp add: ld_def)+
  show ?thesis by (simp add: btf_dedup_ref_types_def dup_own m ref_ptr ref_ptr')
qed

section \<open>Compaction and renumbering\<close>

definition moved_n :: "u8 list" where
  "moved_n =
     [1, 0, 0, 0, 0, 0, 0, 1, 4, 0, 0, 0, 32, 0, 0, 1, 5, 0, 0, 0, 1, 0, 0, 4, 8, 0,
      0, 0, 5, 0, 0, 0, 4, 0, 0, 0, 0, 0, 0, 0, 8, 0, 0, 0, 5, 0, 0, 0, 4, 0, 0, 0,
      0, 0, 0, 0, 0, 0, 0, 0, 0, 0, 0, 2, 3, 0, 0, 0, 5, 0, 0, 0, 1, 0, 0, 4, 8, 0,
      0, 0, 5, 0, 0, 0, 6, 0, 0, 0, 0, 0, 0, 0, 0, 0, 0, 0, 0, 0, 0, 2, 3, 0, 0, 0]"
definition moved_ptr :: "u8 list" where
  "moved_ptr =
     [1, 0, 0, 0, 0, 0, 0, 1, 4, 0, 0, 0, 32, 0, 0, 1, 5, 0, 0, 0, 1, 0, 0, 4, 8, 0,
      0, 0, 5, 0, 0, 0, 4, 0, 0, 0, 0, 0, 0, 0, 0, 0, 0, 0, 0, 0, 0, 2, 3, 0, 0, 0,
      0, 0, 0, 0, 0, 0, 0, 0, 0, 0, 0, 2, 3, 0, 0, 0, 5, 0, 0, 0, 1, 0, 0, 4, 8, 0,
      0, 0, 5, 0, 0, 0, 6, 0, 0, 0, 0, 0, 0, 0, 0, 0, 0, 0, 0, 0, 0, 2, 3, 0, 0, 0]"
definition renumbered :: "u8 list" where
  "renumbered =
     [1, 0, 0, 0, 0, 0, 0, 1, 4, 0, 0, 0, 32, 0, 0, 1, 5, 0, 0, 0, 1, 0, 0, 4, 8, 0,
      0, 0, 5, 0, 0, 0, 3, 0, 0, 0, 0, 0, 0, 0, 0, 0, 0, 0, 0, 0, 0, 2, 2, 0, 0, 0,
      0, 0, 0, 0, 0, 0, 0, 0, 0, 0, 0, 2, 3, 0, 0, 0, 5, 0, 0, 0, 1, 0, 0, 4, 8, 0,
      0, 0, 5, 0, 0, 0, 6, 0, 0, 0, 0, 0, 0, 0, 0, 0, 0, 0, 0, 0, 0, 2, 3, 0, 0, 0]"

lemma dup_moves:
  "put dup_types' 0 (take 16 (drop 0 dup_types')) = dup_types'" "put dup_types' 16 (take 24 (drop 32 dup_types')) = moved_n"
  "put moved_n 40 (take 12 (drop 56 moved_n)) = moved_ptr"
  by (simp_all add: put_def dup_types'_def moved_n_def moved_ptr_def)

lemma dup_moved:
  "type_hdr_at moved_n 56 = dup_ptr 3" "type_hdr_at moved_ptr 0 = dup_int\<lparr>rest := []\<rparr>"
  "type_hdr_at moved_ptr 16 = (dup_n 4)\<lparr>rest := []\<rparr>" "get32 moved_ptr 32 = 4"
  by (simp_all add: type_hdr_at_def moved_n_def moved_ptr_def dup_defs get32_def le32_def)

definition dup_kept :: "u8 list \<Rightarrow> btf" where
  "dup_kept data = dup_btf\<lparr>types_data := data, type_offs := [0, 16, 40], nr_types := 3,
     hdr := (hdr dup_btf)\<lparr>type_len := 52, str_off := 52\<rparr>, raw_size := 83\<rparr>"

abbreviation dup_renum :: "u32 list" where "dup_renum \<equiv> [0, 1, unset, 2, 3, unset, unset]"

lemma dup_compact_loop:
  "compact_loop [0, 1, 1, 3, 4, 3, 4] 1 [0..<6] (dup_types', [0, 16, 32, 56, 68, 92], dup_map, 0, 0) =
     Some ((moved_ptr, [0, 16, 40, 56, 68, 92], dup_renum, 52, 3), 0)"
proof -
  have u: "[0..<6] = [0, 1, 2, 3, 4, 5 :: nat]" by (simp add: upt_conv_Cons)
  have size: "btf_type_size (dup_int\<lparr>rest := r\<rparr>) = Some 16" "btf_type_size ((dup_n x)\<lparr>rest := r\<rparr>) = Some 24"
    "btf_type_size (dup_ptr x) = Some 12" for r x
    by (simp_all add: btf_type_size_def Let_def sizeof_btf_type_def)
  show ?thesis unfolding u
    by (simp add: ld_def dup_type_at' dup_moved size dup_moves [simplified] del: btf_type_size_rest)
qed

lemma dup_compact:
  "\<exists>d. btf_dedup_compact_types dup_env dup_refs_done = Some (d, 0) \<and> d_btf d = [dup_kept moved_ptr] \<and>
     d_map d = [0, 1, 1, 3, 4, 3, 4] \<and> hypot_map d = dup_renum \<and> d_btf_ext d = None"
proof -
  have "start_id dup_btf = 1" "nr_types dup_btf = 6" "type_offs dup_btf = [0, 16, 32, 56, 68, 92]" "unat (hdr_len (hdr dup_btf)) = 24"
    "unat (str_len (hdr dup_btf)) = 7" by (simp_all add: dup_btf_def)
  then show ?thesis
    by (simp add: btf_dedup_compact_types_def Let_def dup_unset dup_compact_loop [simplified] dup_kept_def)
qed

lemma dup_remapped:
  "put32 (put32 moved_ptr 32 3) 48 2 = renumbered" "get32 (put32 moved_ptr 32 3) 48 = 3"
  "type_hdr_at (put32 moved_ptr 32 3) 40 = dup_ptr 3"
proof -
  have e: "put32 moved_ptr 32 3 = moved_ptr[32 := 3]" by (simp add: put32_def put_def bytes32_def byte_at_def moved_ptr_def)
  show "put32 (put32 moved_ptr 32 3) 48 2 = renumbered" unfolding e
    by (simp add: put32_def put_def bytes32_def byte_at_def moved_ptr_def renumbered_def)
  show "get32 (put32 moved_ptr 32 3) 48 = 3" unfolding e by (simp add: moved_ptr_def get32_def le32_def)
  show "type_hdr_at (put32 moved_ptr 32 3) 40 = dup_ptr 3" unfolding e
    by (simp add: type_hdr_at_def moved_ptr_def dup_defs get32_def le32_def)
qed

lemma dup_remap:
  assumes "d_btf d = [dup_kept moved_ptr]" "d_map d = [0, 1, 1, 3, 4, 3, 4]" "hypot_map d = dup_renum" "d_btf_ext d = None"
  shows "btf_dedup_remap_types d = Some (d\<lparr>d_btf := [dup_kept renumbered]\<rparr>, 0)"
proof -
  have r: "btf_dedup_remap_type_id 4 ([0, 1, 1, 3, 4, 3, 4], dup_renum) = Some (3, ([0, 1, 1, 3, 4, 3, 4], dup_renum), 0)"
    "btf_dedup_remap_type_id 3 ([0, 1, 1, 3, 4, 3, 4], dup_renum) = Some (2, ([0, 1, 1, 3, 4, 3, 4], dup_renum), 0)"
    by (simp_all add: btf_dedup_remap_type_id_def resolve_done ld_def) (simp_all add: BTF_MAX_NR_TYPES_def)
  have o: "own_type_offs d = [0, 16, 40]" "own_data d = moved_ptr" using assms(1)
    by (simp_all add: own_type_offs_def own_data_def dup_kept_def)
  have s: "set_types_data renumbered d = d\<lparr>d_btf := [dup_kept renumbered]\<rparr>" using assms(1)
    by (simp add: set_types_data_def dup_kept_def)
  show ?thesis unfolding btf_dedup_remap_types_def o assms
    by (simp add: btf_type_visit_type_ids_def dup_moved dup_remapped r Let_def s assms)
qed

section \<open>All passes\<close>

lemma dup_run: "btf__dedup dup_env [dup_btf] None = Some ([dup_kept renumbered], None, 0)"
proof -
  have e: "btf_ensure_modifiable (modify_env dup_env) False dup_btf = (dup_btf, 0)"
    by (simp add: btf_ensure_modifiable_def btf_invalidate_raw_data_def dup_btf_def)
  have d: "(dup_dedup t m hm hl c)\<lparr>d_btf := [dup_btf]\<rparr> = dup_dedup t m hm hl c" for t m hm hl c by (simp add: dup_dedup_def)
  have p: "btf_dedup_prep dup_env dup_start = (dup_start, 0)" by (simp add: btf_dedup_prep_def)
  have s: "btf_dedup_strings dup_env dup_start = Some (dup_start, 0)"
    by (simp add: btf_dedup_strings_def) (simp add: dup_btf_def)
  obtain d' where c: "btf_dedup_compact_types dup_env dup_refs_done = Some (d', 0)" "d_btf d' = [dup_kept moved_ptr]"
     "d_map d' = [0, 1, 1, 3, 4, 3, 4]" "hypot_map d' = dup_renum" "d_btf_ext d' = None" using dup_compact by blast
  show ?thesis
    by (simp add: btf__dedup_def dup_new e d p s dup_prim dup_struct dup_fwds dup_ref_types c dup_remap [OF c(2-5)])
qed

lemma dup_result:
  "btf__type_cnt [dup_kept renumbered] = 4" "dgraph [dup_kept renumbered] 1 = dup_int"
  "dgraph [dup_kept renumbered] 2 = dup_n 3" "dgraph [dup_kept renumbered] 3 = dup_ptr 2"
proof -
  have "type_hdr_at renumbered 0 = dup_int\<lparr>rest := []\<rparr>" "type_hdr_at renumbered 16 = (dup_n 3)\<lparr>rest := []\<rparr>"
    "type_hdr_at renumbered 40 = dup_ptr 2"
    by (simp_all add: type_hdr_at_def renumbered_def dup_defs get32_def le32_def)
  then have "type_at renumbered 0 = dup_int" "type_at renumbered 16 = dup_n 3" "type_at renumbered 40 = dup_ptr 2"
    by (simp_all add: type_at_def btf_type_size_def Let_def sizeof_btf_type_def)
      (simp_all add: words_at_def get32_def le32_def renumbered_def dup_defs numeral_3_eq_3)
  then show "btf__type_cnt [dup_kept renumbered] = 4" "dgraph [dup_kept renumbered] 1 = dup_int"
    "dgraph [dup_kept renumbered] 2 = dup_n 3" "dgraph [dup_kept renumbered] 3 = dup_ptr 2"
    by (simp_all add: dgraph_def dup_kept_def) (simp_all add: btf__type_cnt_def dup_btf_def)
qed

end
