(* ===== verification/Dedup_Fwds.thy ===== *)
theory Dedup_Fwds
  imports Dedup_Passes
begin

text \<open>
  The pass over the forward declarations that are left: each one takes the struct or union of its name,
  if it is the only one and of its kind.
\<close>

section \<open>What the pass should do\<close>

text \<open>The canonical structs and unions of a name among the identifiers \<open>ks\<close>.\<close>

definition named_comps :: "btf list \<Rightarrow> u32 list \<Rightarrow> nat list \<Rightarrow> u32 \<Rightarrow> nat list" where
  "named_comps b m ks n =
     filter (\<lambda>i. is_composite_kind (btf_kind (btf_type_by_id b i)) \<and> m ! i = of_nat i \<and>
       name_off (btf_type_by_id b i) = n) ks"

definition fwd_target :: "btf list \<Rightarrow> u32 list \<Rightarrow> nat \<Rightarrow> u32" where
  "fwd_target b m i =
     (let t = btf_type_by_id b i in
      if btf_is_fwd t \<and> m ! i = of_nat i then
        case named_comps b m [1..<btf__type_cnt b] (name_off t) of
          [j] \<Rightarrow> if btf_kind (btf_type_by_id b j) = btf_fwd_kind_of t then of_nat j else m ! i
        | _ \<Rightarrow> m ! i
      else m ! i)"

section \<open>The map of names\<close>

definition sole :: "nat list \<Rightarrow> u32 option" where
  "sole ks = (case ks of [] \<Rightarrow> None | [j] \<Rightarrow> Some (of_nat j) | _ \<Rightarrow> Some 0)"

lemma sole_snoc: "sole (ks @ [j]) = (if ks = [] then Some (of_nat j) else Some 0)"
  by (cases ks) (auto simp: sole_def split: list.splits)

lemma sole_Nil [simp]: "sole [] = None"
  by (simp add: sole_def)

lemma sole_None [simp]: "sole ks = None \<longleftrightarrow> ks = []"
  by (auto simp: sole_def split: list.splits)

lemma u64_of_u32_eq [simp]: "(ucast x :: u64) = ucast y \<longleftrightarrow> x = y" for x y :: u32
proof
  assume "(ucast x :: u64) = ucast y"
  then have "unat (ucast x :: u64) = unat (ucast y :: u64)" by simp
  then show "x = y"
    using unsigned_less [of x, where ?'a = nat] unsigned_less [of y, where ?'a = nat]
    by (simp add: unsigned_ucast_eq take_bit_nat_eq_self word_unat_eq_iff)
qed simp

definition names_inv :: "btf list \<Rightarrow> u32 list \<Rightarrow> nat list \<Rightarrow> (u64, u32) hashmap \<Rightarrow> bool" where
  "names_inv b m ks names \<longleftrightarrow>
     keyed identity_hash_fn (=) names \<and> sz names \<le> length ks \<and>
     (\<forall>n :: u32. hashmap_find names (ucast n) = sole (named_comps b m ks n))"

lemma names_inv_init: "names_inv b m [] (hashmap_init identity_hash_fn (=))"
  by (simp add: names_inv_def hashmap_init_keyed ints.init_find named_comps_def sole_def) (simp add: hashmap_init_def)

lemma names_inv_skip:
  assumes "names_inv b m ks names"
    "\<not> (is_composite_kind (btf_kind (btf_type_by_id b i)) \<and> m ! i = of_nat i)"
  shows "names_inv b m (ks @ [i]) names"
  using assms by (auto simp: names_inv_def named_comps_def)

lemma names_add_inv:
  assumes inv: "names_inv b m ks names" and i: "is_composite_kind (btf_kind (btf_type_by_id b i))" "m ! i = of_nat i"
    and r: "names_add al (name_off (btf_type_by_id b i)) (of_nat i) names = (names', err)"
  shows "err = 0 \<and> names_inv b m (ks @ [i]) names' \<or>
    err = - ENOMEM \<and> (\<not> calloc_ok al \<or> \<not> malloc_ok al \<or> 2 ^ 59 \<le> length ks)"
proof -
  let ?n = "name_off (btf_type_by_id b i)" and ?v = "of_nat i :: u32"
  have k: "keyed identity_hash_fn (=) names" "sz names \<le> length ks"
    and f: "hashmap_find names (ucast n) = sole (named_comps b m ks n)" for n :: u32
    using inv by (simp_all add: names_inv_def)
  have snoc: "named_comps b m (ks @ [i]) n = named_comps b m ks n @ (if n = ?n then [i] else [])" for n
    using i by (simp add: named_comps_def)
  obtain m1 e1 o1 where a: "hashmap_insert al names (ucast ?n) ?v HASHMAP_ADD = (m1, e1, o1)"
    by (cases "hashmap_insert al names (ucast ?n) ?v HASHMAP_ADD")
  show ?thesis
  proof (cases "hashmap_find names (ucast ?n)")
    case None
    then have e: "named_comps b m ks ?n = []" using f by simp
    note s = ints.insert_absent [OF k(1) None _ a]
    show ?thesis
    proof (cases "e1 = 0")
      case True
      then have "names' = m1" "err = 0" using r a by (simp_all add: names_add_def errno_defs)
      with s True e f k(2) show ?thesis by (auto simp: names_inv_def snoc sole_snoc errno_defs)
    next
      case False
      with s have "e1 = - ENOMEM" by simp
      moreover from this have "err = - ENOMEM" using r a by (simp add: names_add_def errno_defs)
      ultimately show ?thesis using ints.insert_fails [OF k(1) None _ a False] k(2) by auto
    qed
  next
    case (Some u)
    then have ne: "named_comps b m ks ?n \<noteq> []" using f [of ?n] by (metis option.simps(3) sole_None)
    have a': "m1 = names" "e1 = - EEXIST" using ints.insert_refused(1) [OF k(1) a Some] by simp_all
    obtain m2 e2 o2 where c: "hashmap_insert al names (ucast ?n) 0 HASHMAP_SET = (m2, e2, o2)"
      by (cases "hashmap_insert al names (ucast ?n) 0 HASHMAP_SET")
    note s = ints.insert_present [OF k(1) Some _ c]
    have "names' = m2" "err = e2" using r a a' c by (simp_all add: names_add_def)
    with s ne f k(2) show ?thesis by (auto simp: names_inv_def snoc sole_snoc)
  qed
qed

lemma fill_names_inv:
  assumes "names_inv b (d_map d) ks names" "d_btf d = b" "\<forall>i\<in>set is. i < length (d_map d)"
    and "length ks + length is < 2 ^ 59"
  shows "\<exists>names' err. fill_names env d is names = Some (names', err) \<and>
    (err = 0 \<and> names_inv b (d_map d) (ks @ is) names' \<or>
     err = - ENOMEM \<and> \<not> (\<forall>i. calloc_ok (names_al env i) \<and> malloc_ok (names_al env i)))"
  using assms
proof (induction "is" arbitrary: ks names)
  case (Cons i "is")
  have IH: "names_inv b (d_map d) (ks @ [i]) names1 \<Longrightarrow> \<exists>names' err. fill_names env d is names1 = Some (names', err) \<and>
    (err = 0 \<and> names_inv b (d_map d) (ks @ i # is) names' \<or>
     err = - ENOMEM \<and> \<not> (\<forall>i. calloc_ok (names_al env i) \<and> malloc_ok (names_al env i)))" for names1
    using Cons.IH [of "ks @ [i]" names1] Cons.prems(2-4) by simp
  show ?case
  proof (cases "is_composite_kind (btf_kind (btf_type_by_id b i)) \<and> d_map d ! i = of_nat i")
    case False
    from IH [OF names_inv_skip [OF Cons.prems(1) False]] False Cons.prems(2,3) show ?thesis
      by (auto simp: Let_def)
  next
    case True
    obtain names1 e where a: "names_add (names_al env (of_nat i)) (name_off (btf_type_by_id b i)) (of_nat i) names = (names1, e)"
      by fastforce
    from names_add_inv [OF Cons.prems(1) _ _ a] True
    consider "e = 0" "names_inv b (d_map d) (ks @ [i]) names1"
      | "e = - ENOMEM" "\<not> calloc_ok (names_al env (of_nat i)) \<or> \<not> malloc_ok (names_al env (of_nat i))"
      using Cons.prems(4) by fastforce
    then show ?thesis
    proof cases
      case 1
      from IH [OF 1(2)] 1(1) True Cons.prems(2,3) a show ?thesis by (auto simp: Let_def)
    next
      case 2
      with True Cons.prems(2,3) a show ?thesis by (auto simp: Let_def errno_defs)
    qed
  qed
qed simp

section \<open>The pass\<close>

lemma resolve_fwd_step:
  assumes "names_inv b m [1..<btf__type_cnt b] names" and cnt: "btf__type_cnt b \<le> 2 ^ 31" and i: "i < btf__type_cnt b"
    and d: "d_btf d = b" "length (d_map d) = btf__type_cnt b" "d_map d ! i = m ! i"
  shows "btf_dedup_resolve_fwd names (of_nat i) d = Some (d\<lparr>d_map := (d_map d)[i := fwd_target b m i]\<rparr>, 0)"
proof -
  have u: "unat (of_nat j :: u32) = j" if "j < btf__type_cnt b" for j using that cnt by (intro unat_u32) simp
  have t: "btf__type_by_id b j = Some (btf_type_by_id b j)" if "j < btf__type_cnt b" for j
    using that by (simp add: btf__type_by_id_def)
  let ?t = "btf_type_by_id b i" and ?js = "named_comps b m [1..<btf__type_cnt b] (name_off (btf_type_by_id b i))"
  have f: "hashmap_find names (ucast (name_off ?t)) = sole ?js" using assms(1) by (simp add: names_inv_def)
  have same: "d\<lparr>d_map := (d_map d)[i := m ! i]\<rparr> = d" using d(3) by (metis btf_dedup.surjective btf_dedup.update_convs(4) list_update_id)
  show ?thesis
  proof (cases "btf_is_fwd ?t \<and> m ! i = of_nat i")
    case False
    then show ?thesis
      using i d by (auto simp: btf_dedup_resolve_fwd_def u t fwd_target_def same)
  next
    case True
    show ?thesis
    proof (cases "\<exists>j. ?js = [j]")
      case False
      then have s: "sole ?js = None \<or> sole ?js = Some 0" and "fwd_target b m i = m ! i"
        by (auto simp: sole_def fwd_target_def Let_def split: list.splits)
      then show ?thesis using s i d True same by (elim disjE) (simp_all add: btf_dedup_resolve_fwd_def u t f)
    next
      case j: True
      then obtain j where j: "?js = [j]" by blast
      then have "j \<in> set ?js" by simp
      then have m: "1 \<le> j" "j < btf__type_cnt b" "is_composite_kind (btf_kind (btf_type_by_id b j))"
        by (simp_all add: named_comps_def)
      have nz: "(of_nat j :: u32) \<noteq> 0" using u [OF m(2)] m(1) by (metis not_one_le_zero unat_0)
      have f': "hashmap_find names (ucast (name_off ?t)) = Some (of_nat j)" using f j by (simp add: sole_def)
      have tgt: "fwd_target b m i = (if btf_kind (btf_type_by_id b j) = btf_fwd_kind_of ?t then of_nat j else m ! i)"
        using True by (simp add: fwd_target_def j [unfolded One_nat_def])
      show ?thesis
        using i d True same m nz
        by (auto simp: btf_dedup_resolve_fwd_def u t f' tgt is_composite_kind_def btf_fwd_kind_of_def)
    qed
  qed
qed

lemma resolve_fwd_loop:
  assumes "names_inv b m [1..<btf__type_cnt b] names" "btf__type_cnt b \<le> 2 ^ 31" "distinct is"
    and "\<forall>i\<in>set is. i < btf__type_cnt b \<and> d_map d ! i = m ! i" "d_btf d = b" "length (d_map d) = btf__type_cnt b"
  shows "\<exists>m'. each_type (\<lambda>err. err < 0) (btf_dedup_resolve_fwd names) is d = Some (d\<lparr>d_map := m'\<rparr>, 0) \<and>
    length m' = btf__type_cnt b \<and>
    (\<forall>j<btf__type_cnt b. m' ! j = (if j \<in> set is then fwd_target b m j else d_map d ! j))"
  using assms(3-)
proof (induction "is" arbitrary: d)
  case (Cons i "is")
  let ?d = "d\<lparr>d_map := (d_map d)[i := fwd_target b m i]\<rparr>"
  have s: "btf_dedup_resolve_fwd names (of_nat i) d = Some (?d, 0)"
    using Cons.prems by (intro resolve_fwd_step [OF assms(1,2)]) auto
  have "\<forall>j\<in>set is. j < btf__type_cnt b \<and> d_map ?d ! j = m ! j"
  proof
    fix j assume j: "j \<in> set is"
    then have "i \<noteq> j" using Cons.prems(1) by auto
    with j Cons.prems(2) show "j < btf__type_cnt b \<and> d_map ?d ! j = m ! j" by simp
  qed
  from Cons.IH [OF _ this] Cons.prems obtain m' where
    "each_type (\<lambda>err. err < 0) (btf_dedup_resolve_fwd names) is ?d = Some (?d\<lparr>d_map := m'\<rparr>, 0)"
    "length m' = btf__type_cnt b"
    "\<forall>j<btf__type_cnt b. m' ! j = (if j \<in> set is then fwd_target b m j else d_map ?d ! j)" by auto
  with s Cons.prems show ?case by (intro exI [of _ m']) (auto simp: nth_list_update)
next
  case Nil
  then show ?case by (intro exI [of _ "d_map d"]) simp
qed

lemma resolve_fwds_exact:
  assumes d: "length (d_map d) = btf__type_cnt (d_btf d)" and cnt: "btf__type_cnt (d_btf d) \<le> BTF_MAX_NR_TYPES + 1"
  shows "\<exists>d' r. btf_dedup_resolve_fwds env d = Some (d', r) \<and>
    (if r = 0 then d' = d\<lparr>d_map := map (\<lambda>i. if i \<in> set (own_ids d) then fwd_target (d_btf d) (d_map d) i else d_map d ! i)
         [0..<btf__type_cnt (d_btf d)]\<rparr>
     else r = - ENOMEM \<and> d' = d \<and> \<not> (names_map_ok env \<and> (\<forall>i. calloc_ok (names_al env i) \<and> malloc_ok (names_al env i))))"
proof (cases "names_map_ok env")
  case True
  let ?b = "d_btf d"
  have "btf__type_cnt ?b < 2 ^ 59" "btf__type_cnt ?b \<le> 2 ^ 31" using cnt by (simp_all add: BTF_MAX_NR_TYPES_def)
  then have "\<exists>names err. btf_dedup_fill_unique_names_map env d (hashmap_init identity_hash_fn (=)) = Some (names, err) \<and>
      (err = 0 \<and> names_inv ?b (d_map d) ([] @ [1..<btf__type_cnt ?b]) names \<or>
       err = - ENOMEM \<and> \<not> (\<forall>i. calloc_ok (names_al env i) \<and> malloc_ok (names_al env i)))"
    unfolding btf_dedup_fill_unique_names_map_def by (intro fill_names_inv names_inv_init refl) (use d in auto)
  then obtain names err where f: "btf_dedup_fill_unique_names_map env d (hashmap_init identity_hash_fn (=)) = Some (names, err)"
    and e: "err = 0 \<and> names_inv ?b (d_map d) [1..<btf__type_cnt ?b] names \<or>
      err = - ENOMEM \<and> \<not> (\<forall>i. calloc_ok (names_al env i) \<and> malloc_ok (names_al env i))"
    by auto
  show ?thesis
  proof (cases "err = 0")
    case False
    with e f True show ?thesis by (auto simp: btf_dedup_resolve_fwds_def errno_defs)
  next
    case z: True
    then have inv: "names_inv ?b (d_map d) [1..<btf__type_cnt ?b] names" using e by (auto simp: errno_defs)
    have "distinct (own_ids d)" by (cases ?b) (simp_all add: own_ids_def)
    moreover have "\<forall>i\<in>set (own_ids d). i < btf__type_cnt ?b \<and> d_map d ! i = d_map d ! i"
      using own_ids_less [OF refl] by blast
    ultimately obtain m' where m': "each_type (\<lambda>err. err < 0) (btf_dedup_resolve_fwd names) (own_ids d) d = Some (d\<lparr>d_map := m'\<rparr>, 0)"
      "length m' = btf__type_cnt ?b"
      "\<forall>j<btf__type_cnt ?b. m' ! j = (if j \<in> set (own_ids d) then fwd_target ?b (d_map d) j else d_map d ! j)"
      using resolve_fwd_loop [OF inv \<open>btf__type_cnt ?b \<le> 2 ^ 31\<close> _ _ refl d] by blast
    have "m' = map (\<lambda>i. if i \<in> set (own_ids d) then fwd_target ?b (d_map d) i else d_map d ! i) [0..<btf__type_cnt ?b]"
      by (rule nth_equalityI) (use m' in simp_all)
    with m'(1) f z True show ?thesis by (simp add: btf_dedup_resolve_fwds_def)
  qed
qed (simp add: btf_dedup_resolve_fwds_def errno_defs)

end
