(* ===== verification/Dedup_Props.thy ===== *)
theory Dedup_Props
  imports Dedup_Run Dedup_Fwds
begin

text \<open>Properties of the deduplication of types.\<close>

text \<open>C7: Of an object that \<open>dedup_ready\<close> admits, and without a \<open>.BTF.ext\<close>, \<open>btf__dedup\<close> returns, whatever the
  allocations do. \<open>dedup_ready\<close> asks that the tables and strings are well-formed, there are at most
  \<open>BTF_MAX_NR_TYPES\<close> types, none of them a forward declaration of a struct, union or enum, every identifier and name
  is in range, no struct or union contains itself through structs and unions alone, no type of the base
  refers to a type above it and the string section of the base is at most 2 GiB. When it reports success,
  the object it leaves represents the types it was given: there is an identifier for every type, the same
  one for a type of the base, under which the two agree, as names are compared by their strings and the
  types they refer to by the same relation, however these refer back to them; and every type left stands
  for a type of the object.\<close>

theorem btf__dedup_represents:
  assumes "dedup_ready b" "opts = None \<or> (\<exists>o'. opts = Some o' \<and> opts_btf_ext o' = None)"
  shows "\<exists>b' ext r. btf__dedup env b opts = Some (b', ext, r) \<and> r \<le> 0 \<and> (r = 0 \<longrightarrow> (\<exists>f. represents b b' f))"
  by (rule dedup_spec [OF assms])

theorem btf__dedup_represents_witness:
  "\<exists>b' f. btf__dedup dup_env [dup_btf] None = Some (b', None, 0) \<and> btf__type_cnt b' = 4 \<and> represents [dup_btf] b' f"
  using btf__dedup_represents [OF dup_ready, of None dup_env] by (simp add: dup_run dup_result)

text \<open>C18: In an object that \<open>graph_ok\<close> admits, \<open>btf_dedup_is_equiv\<close>, started with an empty hypothetical map from
  a state the passes of deduplication reach (\<open>pass_ok\<close>), returns on any two types, cyclic ones included, and
  changes the hypothetical map only. \<open>graph_ok\<close> asks for well-formed tables of at most \<open>BTF_MAX_NR_TYPES\<close> types
  without forward declarations, identifiers in range and no struct or union that contains itself through
  structs and unions alone. When it takes the types for equivalent, they are bisimilar, and so are all
  pairs of types in the hypothetical map.\<close>

theorem is_equiv_sound:
  assumes "graph_ok b" "pass_ok b d" "unat a < btf__type_cnt b" "unat c < btf__type_cnt b"
  shows "\<exists>d' r. btf_dedup_is_equiv re a c (btf_dedup_clear_hypot_map d) = Some (d', r) \<and>
    d_btf d' = b \<and> d_map d' = d_map d \<and> dedup_table d' = dedup_table d \<and>
    (0 < r \<longrightarrow> similar (dgraph b) a c \<and> (\<forall>x. hmapped d' x \<longrightarrow> similar (dgraph b) (hypot_map d' ! unat x) x))"
proof -
  let ?d = "btf_dedup_clear_hypot_map d" and ?G = "dgraph b"
  have p: "state_ok b ?d" "hypot_wf (btf__type_cnt b) d"
    using clear_ok [OF assms(2)] assms(2) by (simp_all add: pass_ok_def state_ok_def)
  have new: "\<not> hmapped ?d x" for x by (rule clear_spec(2) [OF p(2)])
  obtain d' r where r: "btf_dedup_is_equiv re a c ?d = Some (d', r)" "equiv_post b ?d a c (d', r)"
    using is_equiv_spec [OF assms(1) p(1) assms(3,4), of re] by (metis surj_pair)
  then have e: "hextends ?d d'" and pos: "0 < r \<Longrightarrow> justified ?G d' a c \<and> new_closed b ?d d'" by (simp_all add: equiv_post_def)
  have pairs: "similar ?G (hypot_map d' ! unat x) x" if "0 < r" "hmapped d' x" for x
    by (rule closed_similar [OF _ that(2)]) (use pos [OF that(1)] new in \<open>auto simp: new_closed_def\<close>)
  have "similar ?G a c" if "0 < r"
    using pos [OF that] pairs [OF that] similar_trans unfolding justified_def by blast
  moreover have "d_map ?d = d_map d" "dedup_table ?d = dedup_table d" by (simp_all add: btf_dedup_clear_hypot_map_def)
  ultimately show ?thesis using r(1) pairs hextends_fields [OF e] p(1) by (auto simp: state_ok_def)
qed

theorem is_equiv_sound_witness: "similar (dgraph [dup_btf]) 5 3"
proof -
  have "graph_ok [dup_btf]" using dup_ready by (simp add: dedup_ready_def)
  from is_equiv_sound [OF this dup_pass_ok, of 5 3 "\<lambda>_. True"] dup_equiv [OF dup_resolve, of no_table]
  show ?thesis by (simp add: dup_cnt dup_clear)
qed

text \<open>The example for forward declarations: one of a struct and one of a union, both of the name 1, and the
  struct of that name between them.\<close>

definition fwd_types :: "u8 list" where
  "fwd_types =
     [1, 0, 0, 0, 0, 0, 0, 7, 0, 0, 0, 0,
      1, 0, 0, 0, 0, 0, 0, 4, 4, 0, 0, 0,
      1, 0, 0, 0, 0, 0, 0, 0x87, 0, 0, 0, 0]"

definition fwd_btf :: btf where
  "fwd_btf = dup_btf\<lparr>types_data := fwd_types, type_offs := [0, 12, 24], nr_types := 3\<rparr>"

definition fwd_dedup :: btf_dedup where
  "fwd_dedup = (dup_dedup no_table [0, 1, 2, 3] [] [] 0)\<lparr>d_btf := [fwd_btf]\<rparr>"

lemma fwd_kinds:
  "btf_kind \<lparr>name_off = n, info = 0x7000000, size_type = s, rest = []\<rparr> = BTF_KIND_FWD"
  "btf_kind \<lparr>name_off = n, info = 0x87000000, size_type = s, rest = []\<rparr> = BTF_KIND_FWD"
  "btf_kind \<lparr>name_off = n, info = 0x4000000, size_type = s, rest = []\<rparr> = BTF_KIND_STRUCT"
  "btf_vlen \<lparr>name_off = n, info = 0x4000000, size_type = s, rest = []\<rparr> = 0"
  "\<not> btf_kflag \<lparr>name_off = n, info = 0x7000000, size_type = s, rest = []\<rparr>"
  "btf_kflag \<lparr>name_off = n, info = 0x87000000, size_type = s, rest = []\<rparr>"
  by (simp_all add: btf_kind_def BTF_INFO_KIND_def kind_of_def all_kinds_def btf_vlen_def BTF_INFO_VLEN_def btf_kflag_def
      BTF_INFO_KFLAG_def drop_bit_eq_div and_masks take_bit_eq_mod)

lemma fwd_by_id:
  "btf_type_by_id [fwd_btf] (Suc 0) = \<lparr>name_off = 1, info = 0x7000000, size_type = 0, rest = []\<rparr>"
  "btf_type_by_id [fwd_btf] 2 = \<lparr>name_off = 1, info = 0x4000000, size_type = 4, rest = []\<rparr>"
  "btf_type_by_id [fwd_btf] 3 = \<lparr>name_off = 1, info = 0x87000000, size_type = 0, rest = []\<rparr>"
proof -
  have h: "type_hdr_at fwd_types 0 = \<lparr>name_off = 1, info = 0x7000000, size_type = 0, rest = []\<rparr>"
    "type_hdr_at fwd_types 12 = \<lparr>name_off = 1, info = 0x4000000, size_type = 4, rest = []\<rparr>"
    "type_hdr_at fwd_types 24 = \<lparr>name_off = 1, info = 0x87000000, size_type = 0, rest = []\<rparr>"
    by (simp_all add: type_hdr_at_def fwd_types_def get32_def le32_def)
  have "type_at fwd_types 0 = type_hdr_at fwd_types 0" "type_at fwd_types 12 = type_hdr_at fwd_types 12"
    "type_at fwd_types 24 = type_hdr_at fwd_types 24"
    by (simp_all add: type_at_def h btf_type_size_def fwd_kinds sizeof_btf_type_def words_at_def Let_def)
  then show "btf_type_by_id [fwd_btf] (Suc 0) = \<lparr>name_off = 1, info = 0x7000000, size_type = 0, rest = []\<rparr>"
    "btf_type_by_id [fwd_btf] 2 = \<lparr>name_off = 1, info = 0x4000000, size_type = 4, rest = []\<rparr>"
    "btf_type_by_id [fwd_btf] 3 = \<lparr>name_off = 1, info = 0x87000000, size_type = 0, rest = []\<rparr>"
    by (simp_all add: fwd_btf_def dup_btf_def h)
qed

text \<open>C30: \<open>btf_dedup_resolve_fwds\<close>, on an object of at most \<open>BTF_MAX_NR_TYPES\<close> types, returns. While its
  allocations are granted it succeeds, and otherwise a failure is \<open>-ENOMEM\<close> and changes nothing. Success
  changes the map only: each forward declaration of the top object that the map takes to itself is mapped
  to the canonical struct or union of its name in the whole chain, when there is exactly one and it has the
  kind declared, and every other type keeps its entry.\<close>

theorem fwds_resolved:
  assumes "length (d_map d) = btf__type_cnt (d_btf d)" "btf__type_cnt (d_btf d) \<le> BTF_MAX_NR_TYPES + 1"
  shows "\<exists>d' r. btf_dedup_resolve_fwds env d = Some (d', r) \<and>
    (if r = 0
     then d' = d\<lparr>d_map := map (\<lambda>i. if i \<in> set (own_ids d) then fwd_target (d_btf d) (d_map d) i else d_map d ! i)
       [0..<btf__type_cnt (d_btf d)]\<rparr>
     else r = - ENOMEM \<and> d' = d \<and>
       \<not> (names_map_ok env \<and> (\<forall>i. calloc_ok (names_al env i) \<and> malloc_ok (names_al env i))))"
  by (rule resolve_fwds_exact [OF assms])

theorem fwds_resolved_witness:
  "btf_dedup_resolve_fwds dup_env fwd_dedup = Some (fwd_dedup\<lparr>d_map := [0, 2, 2, 3]\<rparr>, 0)"
proof -
  let ?b = "[fwd_btf]" and ?m = "[0, 1, 2, 3] :: u32 list"
  have d: "d_btf fwd_dedup = ?b" "d_map fwd_dedup = ?m" by (simp_all add: fwd_dedup_def dup_dedup_def)
  have c: "btf__type_cnt ?b = 4" "own_ids fwd_dedup = [1..<4]"
    by (simp_all add: btf__type_cnt_def own_ids_def d) (simp_all add: fwd_btf_def dup_btf_def)
  have g: "names_map_ok dup_env" "\<forall>i. calloc_ok (names_al dup_env i) \<and> malloc_ok (names_al dup_env i)"
    by (simp_all add: dup_env_def alloc_all_def Let_def)
  have u: "[Suc 0..<4] = [1, 2, 3]" by (simp add: upt_rec)
  have j: "named_comps ?b ?m [Suc 0..<4] 1 = [2]"
    by (simp add: u named_comps_def fwd_by_id fwd_kinds is_composite_kind_def del: btf_type_by_id.simps)
  have t: "fwd_target ?b ?m (Suc 0) = 2" "fwd_target ?b ?m 2 = 2" "fwd_target ?b ?m 3 = 3"
    by (simp_all add: fwd_target_def c fwd_by_id fwd_kinds btf_is_fwd_def btf_fwd_kind_of_def j Let_def del: btf_type_by_id.simps)
  have "[0..<4] = [0, 1, 2, 3]" by (simp add: upt_rec)
  then have m: "map (\<lambda>i. if i \<in> set (own_ids fwd_dedup) then fwd_target ?b ?m i else ?m ! i) [0..<4] = [0, 2, 2, 3]"
    by (simp add: c t)
  have "length (d_map fwd_dedup) = btf__type_cnt (d_btf fwd_dedup)" "btf__type_cnt (d_btf fwd_dedup) \<le> BTF_MAX_NR_TYPES + 1"
    by (simp_all add: d c BTF_MAX_NR_TYPES_def)
  from fwds_resolved [OF this, of dup_env, unfolded d c(1) m] g show ?thesis by (auto split: if_splits)
qed

text \<open>C19: \<open>btf_dedup_compact_types\<close>, with the map the passes leave, returns; it does not change the map, the strings
  and the base, and fails only when the allocator does. When it reports success, the types kept are those the map takes to themselves: each has a new
  identifier, given by the hypothetical map, under which the type region left holds it word for word, the types of
  the base keep theirs, and every identifier left is the new one of a type kept.\<close>

theorem compact_types_keeps:
  assumes "d_btf d = btf # base" "btf_chain (btf # base)" "length (d_map d) = btf__type_cnt (btf # base)"
    "btf__type_cnt (btf # base) \<le> BTF_MAX_NR_TYPES + 1" "\<forall>i. unat i < start_id btf \<longrightarrow> d_map d ! unat i = i"
  shows "\<exists>d' r. btf_dedup_compact_types env d = Some (d', r) \<and> r \<le> 0 \<and> (offs_re_ok env \<longrightarrow> r = 0) \<and> d_map d' = d_map d \<and>
    (r = 0 \<longrightarrow> renumbers (btf # base) (d_map d) (d_btf d') (hypot_map d') \<and> btf_chain (d_btf d') \<and>
      (\<exists>btf'. d_btf d' = btf' # base \<and> start_id btf' = start_id btf) \<and>
      (\<forall>k. btf__str_by_offset (d_btf d') k = btf__str_by_offset (btf # base) k))"
proof -
  have "d_map d ! unat i = i" if "unat i < start_id btf" for i using assms(5) that by blast
  from compact_spec [OF assms(1-4) this] show ?thesis by blast
qed

theorem compact_types_keeps_witness:
  "\<exists>d'. btf_dedup_compact_types dup_env (dup_dedup no_table [0, 1, 1, 3, 4, 3, 4] dup_unmapped [] 0) = Some (d', 0) \<and>
     renumbers [dup_btf] [0, 1, 1, 3, 4, 3, 4] (d_btf d') (hypot_map d')"
proof -
  let ?d = "dup_dedup no_table [0, 1, 1, 3, 4, 3, 4] dup_unmapped [] 0"
  have 1: "start_id dup_btf = 1" "offs_re_ok dup_env" by (simp_all add: dup_btf_def dup_env_def Let_def)
  have "\<forall>i :: u32. unat i < start_id dup_btf \<longrightarrow> d_map ?d ! unat i = i" by (simp add: 1 dup_dedup_def unat_eq_zero)
  moreover have "btf_chain [dup_btf]" using dup_wf by (simp only: btf_wf_def)
  moreover have "d_btf ?d = [dup_btf]" "btf__type_cnt [dup_btf] \<le> BTF_MAX_NR_TYPES + 1" "length (d_map ?d) = btf__type_cnt [dup_btf]"
    by (simp_all add: dup_cnt BTF_MAX_NR_TYPES_def dup_dedup_def)
  ultimately obtain d' r where "btf_dedup_compact_types dup_env ?d = Some (d', r)" "offs_re_ok dup_env \<longrightarrow> r = 0"
    "r = 0 \<longrightarrow> renumbers [dup_btf] (d_map ?d) (d_btf d') (hypot_map d')"
    using compact_types_keeps [of ?d dup_btf "[]" dup_env] by blast
  then show ?thesis by (simp add: 1)
qed

end
