(* ===== verification/Spec2Isabelle.thy ===== *)
theory Spec2Isabelle
  imports Examples Btf_Ext Btf_Merge_Props Relo_Props Relo_Patch Dedup_Props
begin

text \<open>
  Verification of NN-eBPF, a network intrusion detector that runs inside the Linux kernel, and of the
  part of libbpf its loader rests on.

  The detector. \<open>src/src/xdp.bpf.c\<close> holds seven XDP programs. \<open>xdp_prog\<close> reads the TCP flow of a packet
  and updates the flow's features in the map \<open>flow_map\<close> (\<open>handler.bpf.h\<close>); at the last packet of a
  monitored flow it tail-calls a chain of six programs that scale the features and run a neural
  network in fixed point (\<open>mlp.bpf.h\<close>, \<open>params.bpf.h\<close>). The parameters sit in a double buffer:
  \<open>hot_updating.c\<close> loads a network (\<open>mlp_params.bpf.h\<close>) into the inactive slot and switches the index.
  \<open>src/src/xdp.c\<close> loads the programs and attaches them.

  The library. libbpf (\<open>src/libbpf/src\<close>) describes the types of the BPF object with BTF, which
  \<open>btf.c\<close> parses, builds, merges, searches, compares and writes; its strings are kept in \<open>strset.c\<close>,
  over the hash map of \<open>hashmap.c\<close>. With the types of the running kernel, \<open>relo_core.c\<close> rewrites
  the instructions of a program that depend on the layout of kernel structures (CO-RE).

  Theories, in the order of their imports:
    \<^item> \<open>Prelude\<close>: C integers as words, checked array accesses, the counting loop. \<open>Bytes\<close>: little-endian
      loads and stores in byte buffers.
    \<^item> \<open>Bpf_Maps\<close>: hash and array maps of the kernel behind the locale \<open>elem_map\<close>, with an
      interpretation for each. \<open>Kernel\<close>: the maps of the program, the clock and the trace log.
    \<^item> \<open>Packet\<close>: headers in a packet, \<open>flow_tuple\<close>. \<open>Features\<close>: \<open>update_flow_attribute\<close>. \<open>Mlp\<close>: the loops of
      \<open>mlp.bpf.h\<close>. \<open>Xdp\<close>: the seven programs. An access out of bounds or through a null pointer is the
      result \<open>None\<close>, so \<open>handle_packet_total\<close> is memory safety.
    \<^item> \<open>Pipeline\<close>, \<open>Detection\<close>: the chain of programs against a reference network, one packet against
      the whole state, a trace of packets against offline feature extraction.
    \<^item> \<open>Mlp_Params\<close>, \<open>Accuracy\<close>: the shipped constants, the rounding error and the absence of overflow.
    \<^item> \<open>Hot_Updating\<close>, \<open>Loader\<close>: the two user programs, with the outcome of every system call as an
      input. \<open>System\<close>: CPUs and updater as step relations. \<open>any_step\<close> is labelled with the actor and lets any
      packet arrive at any CPU and the lookup of the updater fail; safety and the progress of one CPU are
      proved for it. \<open>sys_step\<close> is the part of it in which one CPU at a time handles a flow and the lookup
      succeeds; the schedules in which a verdict comes from one network are proved for that part.
    \<^item> \<open>Hashmap\<close>: the chained table as a finite map, inside the locale \<open>hash_keys\<close> of lawful callbacks.
      \<open>Strset\<close>: the string set as a set of strings with offsets, an interpretation of that locale.
    \<^item> \<open>Btf_Format\<close>: structures and accessors. \<open>Btf\<close>, \<open>Btf_Object\<close>: an object is the list of itself and its
      bases; parsing gives well-formed objects (\<open>btf_chain\<close>), writing and parsing are inverse.
      \<open>Btf_Resolve\<close>: sizes and references against the relations \<open>resolves\<close> and \<open>refers\<close>.
      \<open>Btf_Build\<close>, \<open>Btf_Ops\<close>: the functions that add types and entries against operations on a list of
      types (\<open>table_op\<close>). \<open>Btf_Room\<close>: the arguments, allocations and space under which they succeed.
      \<open>Btf_Equal\<close>: the comparisons of deduplication against equality. \<open>Btf_Ext\<close>: the
      section \<open>.BTF.ext\<close>. \<open>Btf_Props\<close>: the properties of these.
    \<^item> \<open>Visitors\<close>: a traversal that rewrites the fields of a record, and the locale \<open>visitor\<close> of its laws
      (what is rewritten, which error is returned). \<open>Btf_Strings\<close>, \<open>Btf_Table\<close>: what an operation does
      to the strings and to the type table of an object. \<open>Btf_Merge\<close>, \<open>Btf_Merge_Props\<close>: the traversals
      of the names and of the identifiers of a type are interpretations of \<open>visitor\<close>; \<open>btf__add_type\<close>
      and \<open>btf__add_btf\<close> copy types with their names kept and their references shifted. \<open>Btf_Merge_Room\<close>:
      the resources under which \<open>btf__add_btf\<close> succeeds.
    \<^item> \<open>Dedup\<close>: \<open>btf__dedup\<close>, one definition per pass, over the state \<open>struct btf_dedup\<close>. \<open>Dedup_Graph\<close>: types
      as the nodes of a graph; two are \<open>similar\<close> when a bisimulation relates them, which is what the
      passes have to decide. \<open>Dedup_Map\<close>: the map to canonical types as a forest. \<open>Dedup_Equiv\<close>:
      \<open>btf_dedup_is_equiv\<close> returns and builds a bisimulation. \<open>Dedup_Passes\<close>, \<open>Dedup_Start\<close>: the passes
      that map primitive types, structs and unions keep the invariant \<open>pass_ok\<close>. \<open>Dedup_Words\<close>,
      \<open>Dedup_Own\<close>: the locale \<open>type_visitor\<close> of a rewriting of all types in place. \<open>Dedup_Refs\<close>,
      \<open>Dedup_Compact\<close>, \<open>Dedup_Remap\<close>, \<open>Dedup_Strings\<close>: the other passes; the last two interpret
      \<open>type_visitor\<close>. \<open>Dedup_Fwds\<close>: the pass over forward declarations against the map of names it builds.
      \<open>Dedup_Correct\<close>: the composition of the passes. \<open>Dedup_Props\<close>: the properties, at the object
      of \<open>Dedup_Example\<close>, which \<open>Dedup_Run\<close> deduplicates step by step.
    \<^item> \<open>Relo_Types\<close>: comparison of local and target types by compatibility and by match, with the bounds
      on depth of the code. \<open>Relo_Spec\<close>: the access string \<open>0:1:2\<close>, its parse against a type
      and the search of the same members in another type. \<open>Relo_Calc\<close>: the value of a relocation for
      a type, the candidates, the patched instruction. \<open>Relo_Compat\<close>: the comparisons return, are
      symmetric or reflexive. \<open>Relo_Path\<close>: the path of members behind a specification, as a relation.
      \<open>Relo_Patch\<close>, \<open>Relo_Props\<close>: the properties, with the object of \<open>Relo_Example\<close> for their witnesses.
    \<^item> this theory: the properties of the detector.

  Bounds. The kernel follows at most 33 tail calls; the chain makes 6. \<open>MAX_RESOLVE_DEPTH\<close> is 32.
  \<open>btf__align_of\<close> recurses without a bound, so its first argument bounds the nested calls;
  \<open>align_of_terminates\<close> gives the depth that is enough, \<open>align_of_self_reference\<close> an object for which none
  is. The comparisons of types for CO-RE stop at 32 nested types (\<open>MAX_CORE_DEPTH\<close>), as the code does.
  \<open>bpf_core_match_member\<close> recurses into anonymous members without a bound of its own; each call uses one
  of the 64 places of the raw specification, so 65 nested calls are enough. Loops over buffers terminate by
  the bytes left.

  Deduplication. \<open>btf__dedup_represents\<close> is about objects (\<open>dedup_ready\<close>) whose identifiers and names
  are in range and whose structs do not contain themselves, which the code relies on, of at most
  \<open>BTF_MAX_NR_TYPES\<close> types, without forward declarations of structs, unions and enumerations and without a
  \<open>.BTF.ext\<close>: both are modelled, but a forward declaration is taken for the type it stands for, so that
  the types the passes identify are not bisimilar. What the pass over forward declarations does with them is
  \<open>fwds_resolved\<close>; the treatment of forward declarations inside \<open>btf_dedup_is_equiv\<close> is modelled without
  a property. Any allocation may fail.

  Assumptions. A map helper is atomic; the host is little-endian with 64-bit pointers and \<open>long\<close>;
  an allocation may fail wherever the code allows for it. \<open>concurrent_detection\<close> and \<open>double_buffer\<close> are about
  schedules in which packets of one flow are handled by one CPU at a time, as receive-side scaling does it, and
  the updater's lookup succeeds; \<open>every_interleaving_safe\<close> and \<open>detection_completes\<close> need neither. Objects of BTF
  have headers of at least 24 bytes, where the code accepts shorter ones and then reads and writes past them.

  Not modelled. Of \<open>btf.c\<close>: ELF files and the kernel as sources of BTF (system calls and libelf). Of
  \<open>libbpf.c\<close>: everything but the candidates of CO-RE, since it drives libelf and the kernel. The linker, the C printer of types, the
  generated loader, USDT, ring buffers, netlink, probing, the archive reader and bpftool are not used by
  the detector. The Python scripts train the network. The copy of libbpf under \<open>src/bpftool/libbpf\<close> is
  the same code. The files under \<open>include/\<close> and \<open>vmlinux.h\<close> are kernel headers; the structures the
  programs use are modelled.
\<close>

section \<open>Detection\<close>

text \<open>C1: the last packet (FIN or RST) of a monitored flow is passed and prints exactly one verdict,
  whose label is the reference network's on the flow's features, this packet included; the table
  changes in the flow's entry only, which holds those features. The packet, the clock, the table, the
  parameters and the scratch vectors are arbitrary.\<close>

theorem detection_verdict:
  assumes "monitored ctx" "ends_flow ctx" "kernel_wf k" "progs_loaded k"
    and "base_entry k (frame_flow ctx) (packet_obs k ctx (packet_len ctx)) = Some a0"
    and "array_lookup (nn_idx_map k) 0 = Some i" "array_lookup (nn_parameters k) i = Some net"
  shows "\<exists>k' v. handle_packet ctx k = Some (k', XDP_PASS) \<and> log k' = log k @ [v] \<and>
     label v = classify net (feature_vector (observe (packet_obs k ctx (packet_len ctx)) a0)) \<and>
     table k' = (table k)
       (frame_flow ctx \<mapsto> features_of (observe (packet_obs k ctx (packet_len ctx)) a0))"
proof -
  obtain k' v b where d: "handle_packet ctx k = Some (k', XDP_PASS)" "log k' = log k @ [v]"
    "label v = classify net (feature_vector (observe (packet_obs k ctx (packet_len ctx)) a0))"
    and h: "hash_lookup (flow_map k') = (hash_lookup (flow_map k)) (frame_flow ctx \<mapsto> b)"
    and b: "same_features b (observe (packet_obs k ctx (packet_len ctx)) a0)" and "nn_idx b = i"
    by (rule handle_packet_detects [OF assms])
  have "table k' = (table k)(frame_flow ctx \<mapsto> features_of b)"
    by (simp add: table_def h fun_eq_iff)
  then have t: "table k' = (table k)
      (frame_flow ctx \<mapsto> features_of (observe (packet_obs k ctx (packet_len ctx)) a0))"
    by (simp only: features_of_eq_iff [THEN iffD2, OF b])
  show ?thesis by (intro exI conjI) (rule d t)+
qed

theorem detection_verdict_witness:
  "\<exists>k' v. handle_packet ex_fin ex_kernel = Some (k', XDP_PASS) \<and> log k' = log ex_kernel @ [v] \<and>
     label v = classify shipped_net (feature_vector (observe (packet_obs ex_kernel ex_fin 40)
       (first_attribute (packet_obs ex_kernel ex_fin 40))))"
  using detection_verdict [OF ex_frame(2) ex_frame(4) ex_kernel_wf ex_kernel_simps(1) ex_base
      ex_kernel_simps(5,6)]
  by (auto simp: ex_len)

text \<open>C2: end to end. Start with an empty table, run any packets \<open>cs\<close>, then the last packet of a
  flow: as long as the trace has at most 8192 flows, the printed label is the network's on the
  features computed offline from that flow's packets alone.\<close>

theorem detection_after_trace:
  assumes wf: "kernel_wf k0" "progs_loaded k0" "Some Xdp_prog \<notin> set (progs k0)" "entries (flow_map k0) = []"
    and idx: "array_lookup (nn_idx_map k0) 0 = Some i" "array_lookup (nn_parameters k0) i = Some net"
    and run: "run_trace cs k0 = Some k"
    and last: "monitored ctx" "ends_flow ctx"
    and flows: "card (fst ` set (trace_obs (cs @ [ctx]) k0)) \<le> MAX_PACKET_REACORD"
  shows "\<exists>k' v a. handle_packet ctx k = Some (k', XDP_PASS) \<and> log k' = log k @ [v] \<and>
     offline_features (obs_of (frame_flow ctx) (trace_obs (cs @ [ctx]) k0)) = Some a \<and>
     label v = classify net (feature_vector a)"
proof -
  have frame: "nn_parameters k = nn_parameters k0" "nn_idx_map k = nn_idx_map k0" "progs k = progs k0"
    using run_trace_frame [OF run] by simp_all
  have kwf: "kernel_wf k" using run_trace_table [OF wf(1,3)] run by (metis option.inject)
  have progs: "progs_loaded k" using wf(2) by (simp add: progs_loaded_def frame)
  have idx': "array_lookup (nn_idx_map k) 0 = Some i" "array_lookup (nn_parameters k) i = Some net"
    using idx by (simp_all add: frame)
  let ?f = "frame_flow ctx" and ?ob = "packet_obs k ctx (packet_len ctx)"
  have run': "run_trace (cs @ [ctx]) k0 = Some k'" if "handle_packet ctx k = Some (k', act)" for k' act
    using run that by (simp add: run_trace_append)
  note tab = trace_table [OF wf(1,3,4) run' flows, of _ _ ?f]
  show ?thesis
  proof (cases "base_entry k ?f ?ob")
    case (Some a0)
    obtain k' v b where d: "handle_packet ctx k = Some (k', XDP_PASS)" "log k' = log k @ [v]"
      "label v = classify net (feature_vector (observe ?ob a0))"
      "hash_lookup (flow_map k') = (hash_lookup (flow_map k)) (?f \<mapsto> b)" "same_features b (observe ?ob a0)"
      "nn_idx b = i"
      by (rule handle_packet_detects [OF last kwf progs Some idx'])
    have "offline_features (obs_of ?f (trace_obs (cs @ [ctx]) k0)) = Some (features_of b)"
      using tab [OF d(1)] by (simp add: table_def d(4))
    moreover have "label v = classify net (feature_vector (features_of b))"
      using d(3) same_features_vector [OF d(5)] by simp
    ultimately show ?thesis using d(1,2) by blast
  next
    case None
    then have "hash_lookup (flow_map k) ?f = None" "max_entries (flow_map k) \<le> length (entries (flow_map k))"
      by (simp_all add: base_entry_def split: option.splits if_splits)
    with handle_packet_full [OF last(1)] obtain k' where
      k': "handle_packet ctx k = Some (k', XDP_PASS)" "hash_lookup (flow_map k') ?f = None" by metis
    have "obs_of ?f (trace_obs (cs @ [ctx]) k0) \<noteq> []"
      using last(1) by (simp add: trace_obs_append [OF run] obs_of_def)
    with tab [OF k'(1)] k'(2) show ?thesis
      by (simp add: table_def offline_features_def split: list.splits)
  qed
qed

theorem detection_after_trace_witness:
  "\<exists>k k' v a. run_trace [ex_data] ex_kernel = Some k \<and> handle_packet ex_fin k = Some (k', XDP_PASS) \<and>
     log k' = log k @ [v] \<and>
     offline_features (obs_of ex_flow (trace_obs ([ex_data] @ [ex_fin]) ex_kernel)) = Some a \<and>
     label v = classify shipped_net (feature_vector a)"
proof -
  obtain k where k: "run_trace [ex_data] ex_kernel = Some k"
    using run_trace_table [OF ex_kernel_wf ex_kernel_simps(2)] by blast
  have "trace_obs ([ex_data] @ [ex_fin]) ex_kernel =
      trace_obs [ex_data] ex_kernel @ trace_obs [ex_fin] k"
    by (rule trace_obs_append [OF k])
  also have "\<dots> = [(ex_flow, packet_obs ex_kernel ex_data 40), (ex_flow, packet_obs k ex_fin 40)]"
    by (auto simp: ex_len split: option.splits)
  finally have "card (fst ` set (trace_obs ([ex_data] @ [ex_fin]) ex_kernel)) \<le> MAX_PACKET_REACORD"
    by (simp add: MAX_PACKET_REACORD_def)
  from detection_after_trace [OF ex_kernel_wf ex_kernel_simps(1,2,4,5,6) k ex_frame(2,4) this] k
  show ?thesis by auto
qed

section \<open>Every packet\<close>

text \<open>C3: whatever the bytes of the packet, the chain of programs never leaves the packet or an array,
  returns \<open>XDP_PASS\<close>, keeps the maps well-formed, changes neither the parameters nor the active index
  nor the program array, and touches no other flow's entry.\<close>

theorem handle_packet_total:
  assumes "kernel_wf k"
  shows "\<exists>k'. handle_packet ctx k = Some (k', XDP_PASS) \<and> kernel_wf k' \<and>
     nn_parameters k' = nn_parameters k \<and> nn_idx_map k' = nn_idx_map k \<and> progs k' = progs k \<and>
     (\<forall>f. f \<noteq> frame_flow ctx \<longrightarrow> hash_lookup (flow_map k') f = hash_lookup (flow_map k) f)"
proof -
  obtain k' where k': "handle_packet ctx k = Some (k', XDP_PASS)" "kernel_wf k'"
    using handle_packet_safe [OF assms] by blast
  with run_frame [of _ _ ctx k k' XDP_PASS] show ?thesis unfolding handle_packet_def by blast
qed

theorem handle_packet_total_witness:
  "\<exists>k'. handle_packet \<lparr>bytes = [1, 2, 3]\<rparr> (fresh_kernel ex_clock) = Some (k', XDP_PASS) \<and> kernel_wf k'"
  using handle_packet_total [OF fresh_kernel_wf] by blast

text \<open>A packet outside the monitored flows (not an IPv4 TCP frame of sufficient length, or not sent
  by 33.33.33.73) is passed and changes nothing at all.\<close>

theorem unmonitored_packet:
  assumes "\<not> (tcp4_frame ctx \<and> bpf_ntohl (saddr (frame_flow ctx)) = 555819337)"
  shows "handle_packet ctx k = Some (k, XDP_PASS)"
  using assms by (simp add: handle_packet_unfold xdp_prog_unmonitored monitored_def)

theorem unmonitored_packet_witness:
  "handle_packet \<lparr>bytes = replicate 60 0\<rparr> ex_kernel = Some (ex_kernel, XDP_PASS)"
  by (rule unmonitored_packet) (simp add: tcp4_frame_def)

text \<open>A new flow that arrives at a full table is passed without a verdict, and no flow's entry
  changes.\<close>

theorem full_table_drops_flow:
  assumes "kernel_wf k" "monitored ctx" "card (dom (table k)) = 8192" "table k (frame_flow ctx) = None"
  shows "\<exists>k'. handle_packet ctx k = Some (k', XDP_PASS) \<and> log k' = log k \<and> table k' = table k"
proof -
  have "length (entries (flow_map k)) = 8192" "max_entries (flow_map k) = 8192"
    using assms(1,3) card_dom_entries [of "flow_map k"]
    by (simp_all add: kernel_wf_def flows_wf_def dom_table MAX_PACKET_REACORD_def)
  moreover have "hash_lookup (flow_map k) (frame_flow ctx) = None"
    using assms(4) by (simp add: table_def)
  ultimately show ?thesis using handle_packet_full [OF assms(2), of k] by (auto simp: table_def)
qed

definition ex_full :: kernel where
  "ex_full = ex_kernel\<lparr>flow_map := \<lparr>entries =
     map (\<lambda>n. (\<lparr>saddr = 0, sport = 0, daddr = 0, dport = word_of_nat n\<rparr>, zero_attribute)) [0..<8192],
     max_entries = 8192\<rparr>\<rparr>"

lemma ex_full_keys:
  "map fst (entries (flow_map ex_full)) =
     map (\<lambda>n. \<lparr>saddr = 0, sport = 0, daddr = 0, dport = word_of_nat n\<rparr>) [0..<8192]"
  by (simp add: ex_full_def comp_def)

lemma ex_full_hash_wf: "hash_wf (flow_map ex_full)"
proof -
  have "inj_on (\<lambda>n. \<lparr>saddr = 0, sport = 0, daddr = 0, dport = word_of_nat n\<rparr> :: flow) {0..<8192}"
    by (rule inj_onI) (auto simp: unat_of_nat dest!: arg_cong [where f = unat])
  then show ?thesis unfolding hash_wf_def ex_full_keys
    by (simp add: distinct_map) (simp add: ex_full_def)
qed

lemma ex_full_wf: "kernel_wf ex_full"
  using ex_kernel_wf ex_full_hash_wf
  by (simp add: kernel_wf_def flows_wf_def) (simp add: ex_full_def MAX_PACKET_REACORD_def list_all_iff)

theorem full_table_drops_flow_witness:
  "\<exists>k'. handle_packet ex_fin ex_full = Some (k', XDP_PASS) \<and> log k' = log ex_full \<and> table k' = table ex_full"
proof (rule full_table_drops_flow)
  show "card (dom (table ex_full)) = 8192"
    by (simp add: dom_table card_dom_entries [OF ex_full_hash_wf]) (simp add: ex_full_def)
  show "table ex_full (frame_flow ex_fin) = None"
    by (auto simp: table_def hash_lookup_def map_of_eq_None_iff ex_full_def ex_flow_def)
qed (simp_all add: ex_full_wf)

section \<open>Feature extraction\<close>

text \<open>C10: for every trace of at most 8192 flows, the table is the one offline extraction computes: each
  flow maps to the features of its own packets, flows without packets have no entry.\<close>

theorem table_refines_offline:
  assumes "kernel_wf k0" "Some Xdp_prog \<notin> set (progs k0)" "entries (flow_map k0) = []"
    and "card (fst ` set (trace_obs cs k0)) \<le> MAX_PACKET_REACORD"
  shows "\<exists>k. run_trace cs k0 = Some k \<and> kernel_wf k \<and>
     (\<forall>f. table k f = offline_features (obs_of f (trace_obs cs k0)))"
proof -
  obtain k where k: "run_trace cs k0 = Some k" "kernel_wf k"
    using run_trace_table [OF assms(1,2), of cs] by metis
  with trace_table [OF assms(1-3) k(1) assms(4)] show ?thesis by blast
qed

theorem table_refines_offline_witness:
  "\<exists>k. run_trace [ex_data] ex_kernel = Some k \<and>
     (\<forall>f. table k f = offline_features (obs_of f (trace_obs [ex_data] ex_kernel)))"
  using table_refines_offline [OF ex_kernel_wf ex_kernel_simps(2,4), of "[ex_data]"]
  by (auto simp: MAX_PACKET_REACORD_def split: option.splits)

text \<open>C20: the six features of a flow in closed form: the number of packets, the smallest and the
  largest length (the smallest not above the initial \<open>0x3fffffffffffffff\<close>), the largest gap between
  consecutive packets, the destination port, the sum of the TCP header lengths; all as 64-bit words
  compared unsigned.\<close>

theorem flow_features:
  assumes "kernel_wf k0" "Some Xdp_prog \<notin> set (progs k0)" "entries (flow_map k0) = []"
    and "card (fst ` set (trace_obs cs k0)) \<le> MAX_PACKET_REACORD"
    and "run_trace cs k0 = Some k" "obs_of f (trace_obs cs k0) = ob # obs"
  shows "\<exists>a. hash_lookup (flow_map k) f = Some a \<and>
     num_packet a = of_nat (length (ob # obs)) \<and>
     min_packet_length a = Min (insert 0x3fffffffffffffff (o_len ` set (ob # obs))) \<and>
     max_packet_length a = Max (o_len ` set (ob # obs)) \<and>
     max_duration a = Max (insert 0 (set (gaps (o_time ob) obs))) \<and>
     dst_port a = ucast (bpf_ntohs (o_port ob)) \<and>
     header_length a = of_nat (\<Sum>x\<leftarrow>ob # obs. unat (o_doff x) * 4)"
proof -
  obtain b where b: "offline_features (ob # obs) = Some b" by (simp add: offline_features_def)
  with trace_table [OF assms(1-3,5,4), of f] assms(6) obtain a where
    a: "hash_lookup (flow_map k) f = Some a" "features_of a = b" by (auto simp: table_def)
  have m: "num_packet a = num_packet b" "min_packet_length a = min_packet_length b"
    "max_packet_length a = max_packet_length b" "max_duration a = max_duration b"
    "dst_port a = dst_port b" "header_length a = header_length b"
    by (simp_all add: a(2) [symmetric] features_of_def)
  note cf = offline_closed_form [OF b]
  show ?thesis by (intro exI conjI) (rule a(1), unfold m, (rule cf)+)
qed

theorem flow_features_witness:
  "\<exists>k a. run_trace [ex_data] ex_kernel = Some k \<and> hash_lookup (flow_map k) ex_flow = Some a \<and>
     num_packet a = 1 \<and> min_packet_length a = 40 \<and> header_length a = 20"
proof -
  obtain k where k: "run_trace [ex_data] ex_kernel = Some k"
    using run_trace_table [OF ex_kernel_wf ex_kernel_simps(2)] by metis
  have t: "trace_obs [ex_data] ex_kernel = [(ex_flow, packet_obs ex_kernel ex_data 40)]"
    by (auto simp: ex_len split: option.splits)
  have d: "o_doff (packet_obs ex_kernel ex_data 40) = 5" "o_len (packet_obs ex_kernel ex_data 40) = 40"
    by (simp_all add: packet_obs_def ex_data_def ex_packet_def drop_bit_eq_div)
  show ?thesis
    using flow_features [OF ex_kernel_wf ex_kernel_simps(2,4) _ k, of ex_flow] k
    by (auto simp: t obs_of_def d MAX_PACKET_REACORD_def simp del: trace_obs.simps run_trace.simps)
qed

section \<open>Parsing\<close>

text \<open>The wire format: the inverse of \<open>flow_tuple\<close>, for a 20-byte IP header.\<close>

definition wire_bytes :: "flow \<Rightarrow> u8 list \<Rightarrow> u8 list \<Rightarrow> u8 list \<Rightarrow> u8 list" where
  "wire_bytes f macs ipfix payload =
     macs @ [0x08, 0x00] @ take 9 ipfix @ [6] @ drop 9 ipfix @
     [byte_at (saddr f) 0, byte_at (saddr f) 1, byte_at (saddr f) 2, byte_at (saddr f) 3,
      byte_at (daddr f) 0, byte_at (daddr f) 1, byte_at (daddr f) 2, byte_at (daddr f) 3,
      byte_at (sport f) 0, byte_at (sport f) 1, byte_at (dport f) 0, byte_at (dport f) 1] @ payload"

lemma le32_bytes: "le32 (byte_at w 0) (byte_at w 1) (byte_at w 2) (byte_at w 3) = w"
proof (rule bit_word_eqI)
  fix i assume "i < LENGTH(32)"
  then show "bit (le32 (byte_at w 0) (byte_at w 1) (byte_at w 2) (byte_at w 3)) i \<longleftrightarrow> bit w i"
    by (auto simp: bit_le32 bit_byte_at)
qed

lemma le16_bytes:
  assumes "(w :: s32) < 0x10000" shows "ucast (le16 (byte_at w 0) (byte_at w 1)) = w"
proof (rule bit_word_eqI)
  fix i assume i: "i < LENGTH(32)"
  have "w = take_bit 16 w"
    using assms by (simp add: take_bit_eq_mod mod_word_less)
  then have "\<not> bit w i" if "16 \<le> i"
    using that by (metis bit_take_bit_iff leD)
  then show "bit (ucast (le16 (byte_at w 0) (byte_at w 1)) :: s32) i \<longleftrightarrow> bit w i"
    using i by (cases "16 \<le> i") (auto simp: bit_le16 bit_byte_at bit_simps)
qed

lemma nth_append_skip: "length xs \<le> n \<Longrightarrow> (xs @ ys) ! n = ys ! (n - length xs)"
  by (simp add: nth_append)

text \<open>C31: \<open>flow_tuple\<close> inverts the wire format: whatever the other bytes, it returns exactly the
  addresses and ports the frame was built from.\<close>

theorem flow_tuple_roundtrip:
  assumes "length macs = 12" "length ipfix = 11" "16 \<le> length payload"
    and "sport f < 0x10000" "dport f < 0x10000"
  shows "flow_tuple \<lparr>bytes = wire_bytes f macs ipfix payload\<rparr> f0 = Some (0, f)"
proof -
  let ?b = "wire_bytes f macs ipfix payload"
  have l9: "length (take 9 ipfix) = 9" "length (drop 9 ipfix) = 2" using assms(2) by simp_all
  have nths: "?b ! 12 = 0x08" "?b ! 13 = 0x00" "?b ! 23 = 6"
    "?b ! 26 = byte_at (saddr f) 0" "?b ! 27 = byte_at (saddr f) 1"
    "?b ! 28 = byte_at (saddr f) 2" "?b ! 29 = byte_at (saddr f) 3"
    "?b ! 30 = byte_at (daddr f) 0" "?b ! 31 = byte_at (daddr f) 1"
    "?b ! 32 = byte_at (daddr f) 2" "?b ! 33 = byte_at (daddr f) 3"
    "?b ! 34 = byte_at (sport f) 0" "?b ! 35 = byte_at (sport f) 1"
    "?b ! 36 = byte_at (dport f) 0" "?b ! 37 = byte_at (dport f) 1"
    using assms(1) l9 by (simp_all add: wire_bytes_def nth_append_skip)
  have "54 \<le> length ?b" using assms(1-3) l9 by (simp add: wire_bytes_def)
  then have t: "tcp4_frame \<lparr>bytes = ?b\<rparr>" by (simp add: tcp4_frame_def nths)
  have "frame_flow \<lparr>bytes = ?b\<rparr> = f"
    using le32_bytes [of "saddr f"] le32_bytes [of "daddr f"] le16_bytes [OF assms(4)] le16_bytes [OF assms(5)]
    by (simp add: frame_flow_def nths)
  with t show ?thesis by (simp add: flow_tuple_eq)
qed

theorem flow_tuple_roundtrip_witness:
  "flow_tuple \<lparr>bytes = wire_bytes ex_flow (replicate 12 0) (replicate 11 0) (replicate 16 0)\<rparr> zero_flow =
     Some (0, ex_flow)"
  by (rule flow_tuple_roundtrip) (simp_all add: ex_flow_def)

section \<open>Fixed-point inference\<close>

text \<open>C22: a linear layer computes, in the first \<open>M\<close> entries of its output, the exact dot products
  divided by \<open>2 ^ 16\<close> (rounding down) whenever these fit in 32 bits, no matter how the 64-bit sums
  wrap on the way, leaves the other entries alone and accesses nothing outside its arrays.\<close>

theorem linear_layer_exact:
  assumes "M * N \<le> length W" "N \<le> length x" "M \<le> length y"
    and "\<And>i. i < M \<Longrightarrow> dot W x N i div 65536 \<in> {- 2147483648 ..< 2147483648}"
  shows "\<exists>z. linear_layer W x y M N = Some z \<and> length z = length y \<and>
     (\<forall>i<M. sint (z ! i) = (\<Sum>j<N. sint (W ! (i * N + j)) * sint (x ! j)) div 65536) \<and>
     (\<forall>i. M \<le> i \<longrightarrow> i < length y \<longrightarrow> z ! i = y ! i)"
proof (intro exI conjI)
  let ?z = "fill M (\<lambda>i. word_of_int (dot W x N i div 65536)) y"
  show "linear_layer W x y M N = Some ?z" using assms(1-3) by (rule linear_layer_eq)
  show "length ?z = length y" using assms(3) by (rule length_fill)
  show "\<forall>i<M. sint (?z ! i) = (\<Sum>j<N. sint (W ! (i * N + j)) * sint (x ! j)) div 65536"
  proof (intro allI impI)
    fix i assume i: "i < M"
    then have "?z ! i = word_of_int (dot W x N i div 65536)" using assms(3) by (simp add: fill_nth)
    then have "sint (?z ! i) = dot W x N i div 65536"
      by (simp only:) (rule sint_of_int_s32; use assms(4) [OF i] in simp)
    then show "sint (?z ! i) = (\<Sum>j<N. sint (W ! (i * N + j)) * sint (x ! j)) div 65536"
      by (simp only: dot_def)
  qed
  show "\<forall>i. M \<le> i \<longrightarrow> i < length y \<longrightarrow> ?z ! i = y ! i"
    using assms(3) by (simp add: fill_nth)
qed

theorem linear_layer_exact_witness:
  "\<exists>z. linear_layer [65536, -65536] [3, 5] [7, 8] 1 2 = Some z \<and> sint (z ! 0) = -2 \<and> z ! 1 = 8"
  using linear_layer_exact [of 1 2 "[65536, -65536]" "[3, 5]" "[7, 8]"]
  by (auto simp: dot_def numeral_2_eq_2)

text \<open>C17: ReLU replaces the first \<open>n\<close> entries by their positive parts and keeps the rest.\<close>

theorem relu_spec:
  assumes "n \<le> length t"
  shows "\<exists>z. relu t n = Some z \<and> length z = length t \<and>
     (\<forall>i<length t. sint (z ! i) = (if i < n then max (sint (t ! i)) 0 else sint (t ! i)))"
  using assms by (simp add: relu_eq length_fill fill_nth sint_c_max)

theorem relu_spec_witness:
  "\<exists>z. relu [5, -5, -6] 2 = Some z \<and> length z = 3 \<and> sint (z ! 1) = 0 \<and> sint (z ! 2) = -6"
  using relu_spec [of 2 "[5, -5, -6]"] by auto

text \<open>C23: the scaler computes \<open>(x - mean) * 2 ^ 16 / scale\<close>, truncated towards zero, in signed
  arithmetic (although the BPF division it uses is unsigned), for positive scales and differences
  below \<open>2 ^ 47\<close> whose quotient fits in 32 bits.\<close>

theorem standard_scaler_exact:
  assumes "N \<le> length x" "N \<le> length y" "N \<le> length m" "N \<le> length s"
    and "\<And>i. i < N \<Longrightarrow> 0 < sint (s ! i)"
    and "\<And>i. i < N \<Longrightarrow> \<bar>sint (x ! i) - sint (m ! i)\<bar> < 2 ^ 47"
    and "\<And>i. i < N \<Longrightarrow> \<bar>sint (x ! i) - sint (m ! i)\<bar> * 65536 div sint (s ! i) < 2 ^ 31"
  shows "\<exists>z. standard_scaler x y m s N = Some z \<and> length z = length y \<and>
     (\<forall>i<N. sint (z ! i) = c_div ((sint (x ! i) - sint (m ! i)) * 65536) (sint (s ! i)))"
proof (intro exI conjI)
  let ?z = "fill N (\<lambda>i. scale_one (x ! i) (m ! i) (s ! i)) y"
  show "standard_scaler x y m s N = Some ?z" using assms(1-4) by (rule standard_scaler_eq)
  show "length ?z = length y" using assms(2) by (rule length_fill)
  show "\<forall>i<N. sint (?z ! i) = c_div ((sint (x ! i) - sint (m ! i)) * 65536) (sint (s ! i))"
    using assms by (simp add: fill_nth scale_one_exact)
qed

theorem standard_scaler_exact_witness:
  "\<exists>z. standard_scaler [1, 9] [0, 0] [4, 4] [2, 2] 2 = Some z \<and> sint (z ! 0) = -98304"
proof -
  have "\<exists>z. standard_scaler [1, 9] [0, 0] [4, 4] [2, 2] 2 = Some z \<and> length z = length [0 :: s32, 0] \<and>
     (\<forall>i<2. sint (z ! i) = c_div ((sint ([1, 9] ! i :: s64) - sint ([4, 4] ! i :: s64)) * 65536)
        (sint ([2, 2] ! i :: s64)))"
    by (rule standard_scaler_exact) (auto simp: less_2_cases_iff)
  then show ?thesis by (auto simp: c_div_def)
qed

section \<open>Accuracy of the shipped network\<close>

text \<open>C11: over the shipped parameters, whenever every feature is within 256 scales of its mean, both
  logits are within 152 units in the last place (152 / 65536) of the same network evaluated over the
  real numbers.\<close>

theorem logits_accuracy:
  assumes "in_range shipped_net xs" "i < 2"
  shows "\<bar>real_logits shipped_net xs ! i - real_of_int (sint (logits shipped_net xs ! i)) / 65536\<bar>
     \<le> 152 / 65536"
proof -
  have "\<bar>65536 * real_logits shipped_net xs ! i - real_of_int (sint (logits shipped_net xs ! i))\<bar> \<le> 152"
    by (rule approx_nth(1) [OF approx_logits [OF assms(1)] assms(2)])
  then show ?thesis unfolding abs_le_iff by linarith
qed

theorem logits_accuracy_witness:
  "\<bar>real_logits shipped_net ex_features ! 0 - real_of_int (sint (logits shipped_net ex_features ! 0)) / 65536\<bar>
     \<le> 152 / 65536"
  by (rule logits_accuracy [OF ex_features_in_range]) simp

text \<open>C12: the printed label is the real network's decision unless its logits are closer than
  304 / 65536.\<close>

theorem label_matches_real_network:
  assumes "in_range shipped_net xs"
    and "\<bar>real_logits shipped_net xs ! 0 - real_logits shipped_net xs ! 1\<bar> > 304 / 65536"
  shows "classify shipped_net xs = (if real_logits shipped_net xs ! 0 > real_logits shipped_net xs ! 1 then 0 else 1)"
proof -
  let ?r = "\<lambda>i. real_logits shipped_net xs ! i" and ?w = "\<lambda>i. sint (logits shipped_net xs ! i)"
  have d: "\<bar>65536 * ?r i - real_of_int (?w i)\<bar> \<le> 152" if "i < 2" for i
    by (rule approx_nth(1) [OF approx_logits [OF assms(1)] that])
  have "?r 0 > ?r 1 \<longleftrightarrow> ?w 0 > ?w 1"
  proof
    assume "?r 0 > ?r 1"
    with assms(2) d [of 0] d [of 1] have "real_of_int (?w 0) > real_of_int (?w 1)" by linarith
    then show "?w 0 > ?w 1" by (simp only: of_int_less_iff)
  next
    assume "?w 0 > ?w 1"
    then have "real_of_int (?w 0) > real_of_int (?w 1)" by (simp only: of_int_less_iff)
    with assms(2) d [of 0] d [of 1] show "?r 0 > ?r 1" by linarith
  qed
  then show ?thesis by (simp add: classify_def)
qed

theorem label_matches_real_network_witness:
  "classify shipped_net ex_features =
     (if real_logits shipped_net ex_features ! 0 > real_logits shipped_net ex_features ! 1 then 0 else 1)"
proof (rule label_matches_real_network [OF ex_features_in_range])
  have w: "sint (logits shipped_net ex_features ! i) = ex_logits ! i" if "i < 2" for i
    using that ex_ranges(9) ex_margin(2)
    by (simp add: ex_logits_eq list_all_length s32_range_def sint_of_int_s32)
  have d: "\<bar>65536 * real_logits shipped_net ex_features ! i - real_of_int (ex_logits ! i)\<bar> \<le> 152"
    if "i < 2" for i
    using approx_nth(1) [OF approx_logits [OF ex_features_in_range] that] by (simp only: w [OF that])
  have "\<bar>real_of_int (ex_logits ! 0) - real_of_int (ex_logits ! 1)\<bar> > 608"
    by (simp add: ex_logits_def)
  with d [of 0] d [of 1]
  show "\<bar>real_logits shipped_net ex_features ! 0 - real_logits shipped_net ex_features ! 1\<bar> > 304 / 65536"
    by linarith
qed

definition exact_layer :: "s32 list \<Rightarrow> nat \<Rightarrow> nat \<Rightarrow> s32 list \<Rightarrow> bool" where
  "exact_layer W M N x \<longleftrightarrow>
     (\<forall>i<M. map_option sint (linear_acc W x N i) = Some (dot W x N i) \<and>
            sint (layer W M N x ! i) = dot W x N i div 65536)"

lemma exact_layerI:
  assumes "approx N e B x r" "M * N \<le> length W" "0 \<le> B" "S * B < 140737488355328"
    and rows: "\<And>i. i < M \<Longrightarrow> (\<Sum>j<N. \<bar>sint (W ! (i * N + j))\<bar>) \<le> S"
  shows "exact_layer W M N x"
proof -
  have "map_option sint (linear_acc W x N i) = Some (dot W x N i) \<and>
      sint (layer W M N x ! i) = dot W x N i div 65536" if i: "i < M" for i
  proof -
    have len: "N \<le> length x" using assms(1) by (simp add: approx_def)
    have "\<bar>dot W x N i\<bar> \<le> S * B"
      by (rule dot_bound) (use approx_nth(2) [OF assms(1)] rows [OF i] assms(3) in auto)
    with assms(4) have b: "- 140737488355328 < dot W x N i" "dot W x N i < 140737488355328"
      by linarith+
    have "sint (word_of_int (dot W x N i) :: s64) = dot W x N i"
      by (rule sint_of_int_s64) (use b in linarith)+
    moreover have "sint (word_of_int (dot W x N i div 65536) :: s32) = dot W x N i div 65536"
      by (rule sint_of_int_s32) (use b in linarith)+
    ultimately show ?thesis
      using linear_acc_eq [OF assms(2) len i] i by (simp only: layer_def option.map) simp
  qed
  then show ?thesis by (simp add: exact_layer_def)
qed

text \<open>C21: no accumulator overflows: on features in range, every 64-bit sum of the three layers is the
  exact dot product, and every 32-bit activation the exact quotient.\<close>

theorem no_overflow:
  assumes "in_range shipped_net xs"
  shows "let x0 = scaled shipped_net xs;
             x1 = rectify (layer (layer_0_weight shipped_net) 32 6 x0);
             x2 = rectify (layer (layer_1_weight shipped_net) 32 32 x1)
         in exact_layer (layer_0_weight shipped_net) 32 6 x0 \<and>
            exact_layer (layer_1_weight shipped_net) 32 32 x1 \<and>
            exact_layer (layer_2_weight shipped_net) 2 32 x2"
proof -
  have len: "length (layer_0_weight shipped_net) = 192" "length (layer_1_weight shipped_net) = 1024"
    "length (layer_2_weight shipped_net) = 64"
    using shipped_net_wf unfolding net_wf_def by blast+
  show ?thesis unfolding Let_def
  proof (intro conjI)
    show "exact_layer (layer_0_weight shipped_net) 32 6 (scaled shipped_net xs)"
      by (rule exact_layerI [OF approx_scaled [OF assms shipped_scales] _ _ _ shipped_rows(1)]) (simp_all add: len)
    show "exact_layer (layer_1_weight shipped_net) 32 32
        (rectify (layer (layer_0_weight shipped_net) 32 6 (scaled shipped_net xs)))"
      by (rule exact_layerI [OF approx_hidden(1) [OF assms] _ _ _ shipped_rows(2)]) (simp_all add: len)
    show "exact_layer (layer_2_weight shipped_net) 2 32
        (rectify (layer (layer_1_weight shipped_net) 32 32
          (rectify (layer (layer_0_weight shipped_net) 32 6 (scaled shipped_net xs)))))"
      by (rule exact_layerI [OF approx_hidden(2) [OF assms] _ _ _ shipped_rows(3)]) (simp_all add: len)
  qed
qed

theorem no_overflow_witness:
  "exact_layer (layer_0_weight shipped_net) 32 6 (scaled shipped_net ex_features)"
  using no_overflow [OF ex_features_in_range] by (simp add: Let_def)

section \<open>Hot updates\<close>

text \<open>C26: an update whose system calls succeed loads the shipped network into the inactive slot, makes
  it active, and changes nothing else: the slot that was active keeps its network, so detections that
  have latched it are undisturbed.\<close>

theorem hot_update_switches:
  assumes "kernel_wf k" "array_lookup (nn_idx_map k) 0 = Some i" "i = 0 \<or> i = 1"
    and "lookup_err env = 0" "params_err env = 0" "idx_err env = 0"
  shows "\<exists>k'. hot_update env k = (k', 0) \<and> kernel_wf k' \<and>
     array_lookup (nn_idx_map k') 0 = Some (1 - i) \<and>
     array_lookup (nn_parameters k') (1 - i) = Some shipped_net \<and>
     array_lookup (nn_parameters k') i = array_lookup (nn_parameters k) i \<and>
     flow_map k' = flow_map k \<and> progs k' = progs k \<and> log k' = log k"
proof -
  have r: "read_idx env k = i" using assms by (simp add: read_idx_def)
  have n: "next_idx i = 1 - i" "i \<noteq> next_idx i" using assms(3) by auto
  have "\<exists>u. array_lookup (nn_parameters k) (1 - i) = Some u"
    using assms(1,3) by (auto simp: kernel_wf_def array_lookup_def)
  then obtain u where u: "array_lookup (nn_parameters k) (1 - i) = Some u" by blast
  show ?thesis
    using hot_update_wf [OF assms(1), of env] write_params_same [OF assms(5) u, of shipped_net]
      write_params_other [of "1 - i" i env shipped_net k] n assms(2,6)
      write_idx_lookup [of env "write_params env (1 - i) shipped_net k" i "1 - i"]
    by (simp add: hot_update_def Let_def r)
qed

definition ok_env :: hot_env where "ok_env = \<lparr>lookup_err = 0, params_err = 0, idx_err = 0\<rparr>"

theorem hot_update_switches_witness:
  "\<exists>k'. hot_update ok_env ex_kernel = (k', 0) \<and> array_lookup (nn_idx_map k') 0 = Some 0 \<and>
     array_lookup (nn_parameters k') 0 = Some shipped_net"
  using hot_update_switches [OF ex_kernel_wf ex_kernel_simps(5), of ok_env] by (auto simp: ok_env_def)

text \<open>C27: no error is checked. Whatever the three calls return, the exit status is 0; when the update of
  the parameters fails and that of the index succeeds, the index moves to a slot that was not
  loaded; when reading the index fails, the slot written is slot 1, even when slot 1 is the active one.\<close>

theorem hot_update_ignores_errors:
  assumes "kernel_wf k" "array_lookup (nn_idx_map k) 0 = Some i" "i = 0 \<or> i = 1"
  shows "snd (hot_update env k) = 0 \<and>
     (lookup_err env = 0 \<and> params_err env \<noteq> 0 \<and> idx_err env = 0 \<longrightarrow>
       array_lookup (nn_idx_map (fst (hot_update env k))) 0 = Some (1 - i) \<and>
       nn_parameters (fst (hot_update env k)) = nn_parameters k) \<and>
     (lookup_err env \<noteq> 0 \<and> params_err env = 0 \<longrightarrow>
       array_lookup (nn_parameters (fst (hot_update env k))) 1 = Some shipped_net)"
proof -
  have n: "next_idx i = 1 - i" using assms(3) by auto
  have "snd (hot_update env k) = 0" by (simp add: hot_update_def Let_def)
  moreover have "lookup_err env = 0 \<and> params_err env \<noteq> 0 \<and> idx_err env = 0 \<longrightarrow>
      array_lookup (nn_idx_map (fst (hot_update env k))) 0 = Some (1 - i) \<and>
      nn_parameters (fst (hot_update env k)) = nn_parameters k"
    using assms(2) write_idx_lookup [of env k i "1 - i"]
    by (auto simp: hot_update_def Let_def read_idx_def write_params_def n)
  moreover obtain u where u: "array_lookup (nn_parameters k) 1 = Some u"
    using assms(1) by (auto simp: kernel_wf_def array_lookup_def)
  have "lookup_err env \<noteq> 0 \<and> params_err env = 0 \<longrightarrow>
      array_lookup (nn_parameters (fst (hot_update env k))) 1 = Some shipped_net"
    using write_params_same [OF _ u, of env shipped_net] by (auto simp: hot_update_def Let_def read_idx_def)
  ultimately show ?thesis by blast
qed

theorem hot_update_ignores_errors_witness:
  "snd (hot_update \<lparr>lookup_err = 0, params_err = 5, idx_err = 0\<rparr> ex_kernel) = 0 \<and>
     array_lookup (nn_idx_map (fst (hot_update \<lparr>lookup_err = 0, params_err = 5, idx_err = 0\<rparr> ex_kernel))) 0 = Some 0"
  using hot_update_ignores_errors [OF ex_kernel_wf ex_kernel_simps(5), of "\<lparr>lookup_err = 0, params_err = 5, idx_err = 0\<rparr>"]
  by simp

text \<open>C22: two updates in a row overwrite the slot that was active before the first: a detection that
  latched slot \<open>i\<close> and is still running sees its network replaced. The bound of one update per
  detection in C21 is tight.\<close>

theorem two_updates_overwrite:
  assumes "kernel_wf k" "array_lookup (nn_idx_map k) 0 = Some i" "i = 0 \<or> i = 1"
  shows "array_lookup (nn_parameters (fst (hot_update ok_env (fst (hot_update ok_env k))))) i = Some shipped_net"
proof -
  define k1 where "k1 = fst (hot_update ok_env k)"
  have r: "read_idx ok_env k = i" using assms(2) by (simp add: read_idx_def ok_env_def)
  have wf: "kernel_wf k1" unfolding k1_def by (rule hot_update_wf [OF assms(1)])
  have "array_lookup (nn_idx_map k1) 0 = Some (next_idx i)"
    using write_idx_lookup [of ok_env "write_params ok_env (next_idx i) shipped_net k" i "next_idx i"] assms(2)
    by (simp add: k1_def hot_update_def Let_def r) (simp add: ok_env_def)
  then have r1: "next_idx (read_idx ok_env k1) = i" using assms(3) by (auto simp: read_idx_def ok_env_def)
  have "\<exists>u. array_lookup (nn_parameters k1) i = Some u"
    using wf assms(3) by (auto simp: kernel_wf_def array_lookup_def)
  then obtain u where u: "array_lookup (nn_parameters k1) i = Some u" by blast
  have "array_lookup (nn_parameters (fst (hot_update ok_env k1))) i = Some shipped_net"
    using write_params_same [OF _ u, of ok_env shipped_net]
    by (simp add: hot_update_def Let_def r1) (simp add: ok_env_def)
  then show ?thesis by (simp only: k1_def)
qed

theorem two_updates_overwrite_witness:
  "array_lookup (nn_parameters (fst (hot_update ok_env (fst (hot_update ok_env
     (ex_kernel\<lparr>nn_parameters := [zero_net, zero_net]\<rparr>)))))) 1 = Some shipped_net"
proof (rule two_updates_overwrite)
  show "kernel_wf (ex_kernel\<lparr>nn_parameters := [zero_net, zero_net]\<rparr>)"
    using ex_kernel_wf by (simp add: kernel_wf_def)
  show "array_lookup (nn_idx_map (ex_kernel\<lparr>nn_parameters := [zero_net, zero_net]\<rparr>)) 0 = Some 1"
    using ex_kernel_simps(5) by simp
qed simp

section \<open>Loading\<close>

text \<open>C28: when every call succeeds and a signal arrives, \<open>main\<close> of \<open>xdp.c\<close> returns 0 after having put
  the six programs in their slots and selected network 1; the other slots of the program array, the
  flows and the parameters are as the kernel created them, the pins are removed and the object is
  destroyed. The link made by \<open>bpf_program__attach_xdp\<close> is not: \<open>xdp_prog\<close> is attached until the
  process is gone.\<close>

theorem xdp_main_success:
  assumes "env_complete env" "length (progs k0) = 1024" "length (nn_idx_map k0) = 1" "exiting env n"
  shows "\<exists>s. xdp_main env k0 = Some (s, 0) \<and> progs_loaded (kstate s) \<and>
     array_lookup (nn_idx_map (kstate s)) 0 = Some 1 \<and>
     drop 6 (progs (kstate s)) = drop 6 (progs k0) \<and>
     nn_parameters (kstate s) = nn_parameters k0 \<and> flow_map (kstate s) = flow_map k0 \<and>
     \<not> pinned s \<and> \<not> skel_open s \<and> attached s"
proof -
  have "array_update (nn_idx_map k0) 0 1 BPF_ANY = ([1], 0)"
    using assms(3) by (auto simp: array_update_def flag_defs length_Suc_conv)
  moreover have "progs_loaded (k0\<lparr>progs := map Some stages @ drop 6 (progs k0), nn_idx_map := v\<rparr>)" for v
    by (auto simp: progs_loaded_def prog_lookup_def nth_append)
  ultimately show ?thesis
    by (simp add: xdp_main_run [OF assms(1,2,4)] array_lookup_def)
qed

text \<open>An environment in which everything succeeds: descriptor \<open>3 + i\<close> for the program of slot \<open>i\<close>.\<close>

definition ex_env :: xdp_env where
  "ex_env = \<lparr>open_ok = True, load_err = 0,
     find_program = map_of (zip (map prog_name progs_desc) stages),
     program_fd = (\<lambda>p. case map_of (zip stages [3..8]) p of None \<Rightarrow> -1 | Some fd \<Rightarrow> fd),
     fd_program = map_of (zip [3..8] stages),
     progs_err = (\<lambda>_. 0), sel_err = 0, attach_ok = True, exiting = (\<lambda>n. 2 \<le> n)\<rparr>"

lemma ex_env_complete: "env_complete ex_env"
  by (simp add: env_complete_def ex_env_def progs_desc_def stages_def upto.simps)

theorem xdp_main_success_witness:
  "\<exists>s. xdp_main ex_env (fresh_kernel ex_clock) = Some (s, 0) \<and> progs_loaded (kstate s)"
  using xdp_main_success [OF ex_env_complete, of "fresh_kernel ex_clock" 2]
  by (auto simp: fresh_kernel_def ex_env_def)



text \<open>C23: before the first hot update every flow is labelled 1: \<open>main\<close> selects slot 1, which the kernel
  has created zero-filled; the scale 0 makes every quotient 0 and both logits 0.\<close>

theorem label_before_first_update:
  assumes "env_complete env" "exiting env n" "xdp_main env (fresh_kernel clk) = Some (s, rc)"
    and "run_trace cs (kstate s) = Some k" "monitored ctx" "ends_flow ctx"
    and "card (dom (table k)) < 8192" "handle_packet ctx k = Some (k', act)"
  shows "\<exists>v. log k' = log k @ [v] \<and> label v = 1"
proof -
  let ?k0 = "kstate s"
  have len: "length (progs (fresh_kernel clk)) = 1024" by (simp add: fresh_kernel_def)
  have k0: "?k0 = (fresh_kernel clk)\<lparr>progs := map Some stages @ replicate 1018 None, nn_idx_map := [1]\<rparr>"
    using assms(3) xdp_main_run [OF assms(1) len assms(2)]
    by (auto simp: fresh_kernel_def array_update_def flag_defs)
  have wf0: "kernel_wf ?k0" using fresh_kernel_wf [of clk] by (simp add: k0 kernel_wf_def)
  have np: "Some Xdp_prog \<notin> set (progs ?k0)" by (simp add: k0) (simp add: stages_def)
  have pl: "progs_loaded ?k0" by (auto simp: k0 progs_loaded_def prog_lookup_def nth_append)
  have fr: "nn_parameters k = [zero_net, zero_net]" "nn_idx_map k = [1]" "progs k = progs ?k0"
    using run_trace_frame [OF assms(4)] by (simp_all add: k0 fresh_kernel_def)
  have wf: "kernel_wf k" using run_trace_table [OF wf0 np] assms(4) by (metis option.inject)
  have progs: "progs_loaded k" using pl by (simp add: progs_loaded_def fr)
  have idx: "array_lookup (nn_idx_map k) 0 = Some 1" "array_lookup (nn_parameters k) 1 = Some zero_net"
    by (simp_all add: fr array_lookup_def)
  have "\<exists>a0. base_entry k (frame_flow ctx) (packet_obs k ctx (packet_len ctx)) = Some a0"
    using wf assms(7) card_dom_entries [of "flow_map k"]
    by (auto simp: base_entry_def kernel_wf_def flows_wf_def dom_table MAX_PACKET_REACORD_def split: option.split)
  then obtain a0 where "base_entry k (frame_flow ctx) (packet_obs k ctx (packet_len ctx)) = Some a0" ..
  from handle_packet_detects [OF assms(5,6) wf progs this idx] assms(8)
  show ?thesis by (metis classify_zero_net option.inject prod.inject)
qed

theorem label_before_first_update_witness:
  "\<exists>s k' v. xdp_main ex_env (fresh_kernel ex_clock) = Some (s, 0) \<and>
     handle_packet ex_fin (kstate s) = Some (k', XDP_PASS) \<and> log k' = log (kstate s) @ [v] \<and> label v = 1"
proof -
  have ex: "exiting ex_env 2" by (simp add: ex_env_def)
  have len: "length (progs (fresh_kernel ex_clock)) = 1024" by (simp add: fresh_kernel_def)
  obtain s where s: "xdp_main ex_env (fresh_kernel ex_clock) = Some (s, 0)"
    and k: "kstate s = (fresh_kernel ex_clock)\<lparr>progs := map Some stages @ replicate 1018 None, nn_idx_map := [1]\<rparr>"
    using xdp_main_run [OF ex_env_complete len ex]
    by (simp add: fresh_kernel_def array_update_def flag_defs)
  have wf: "kernel_wf (kstate s)" using fresh_kernel_wf [of ex_clock] by (simp add: k kernel_wf_def)
  obtain k' where k': "handle_packet ex_fin (kstate s) = Some (k', XDP_PASS)"
    using handle_packet_safe [OF wf] by blast
  have "dom (table (kstate s)) = {}" by (simp add: dom_table table_def k fresh_kernel_def hash_lookup_def dom_def)
  then have "card (dom (table (kstate s))) < 8192" by simp
  from label_before_first_update [OF ex_env_complete ex s _ ex_frame(2,4) this k', of "[]"] s k'
  show ?thesis by auto
qed

section \<open>CPUs and the updater interleaved\<close>

text \<open>C24: safety of the running system. Start well-formed with idle CPUs and let anything happen in any
  order: packets, of one flow on several CPUs too, programs of the chain, updates whose calls fail,
  the lookup included. Then no CPU is ever stuck: whatever program it is to run, and whatever packet
  arrives, it accesses no memory out of bounds and passes the packet. The maps stay well-formed, the
  index stays 0 or 1 and so does the slot an update is about to write; no program is exchanged.\<close>

theorem every_interleaving_safe:
  assumes "kernel_wf k" "idx_ok k" "Some Xdp_prog \<notin> set (progs k)"
    and "any_steps \<lparr>kern = k, cpu = Map.empty, updater = Waiting, started = 0, finished = 0\<rparr> s"
  shows "(\<forall>c t. cpu s c = Some t \<longrightarrow>
       (\<exists>k' e. exec_program (prog t) (pkt t) (kern s) = Some (k', e) \<and> passes e)) \<and>
     (\<forall>ctx. \<exists>k' e. exec_program Xdp_prog ctx (kern s) = Some (k', e) \<and> passes e) \<and>
     kernel_wf (kern s) \<and> idx_ok (kern s) \<and>
     (\<forall>j. updater s = Chosen j \<or> updater s = Written j \<longrightarrow> j = 0 \<or> j = 1) \<and> progs (kern s) = progs k"
proof -
  let ?s0 = "\<lparr>kern = k, cpu = Map.empty, updater = Waiting, started = 0, finished = 0\<rparr>"
  have "any_ok ?s0" using assms(1-3) by (simp add: any_ok_def slot_known_def)
  then have ok: "any_ok s" by (rule any_steps_ok [OF assms(4)])
  then have wf: "kernel_wf (kern s)" by (simp add: any_ok_def)
  have "\<exists>k' e. exec_program p ctx (kern s) = Some (k', e) \<and> passes e" for p ctx
    using stages_safe [OF wf, of p ctx] by blast
  with this [of Xdp_prog] ok any_steps_progs [OF assms(4)] show ?thesis
    by (simp add: any_ok_def slot_known_def)
qed

lemma ex_kernel_idx_ok: "idx_ok ex_kernel"
  by (simp add: idx_ok_def)

definition ex_sys :: sys where
  "ex_sys = \<lparr>kern = ex_kernel, cpu = Map.empty, updater = Waiting, started = 0, finished = 0\<rparr>"

lemma ex_sys_ok: "sys_ok ex_sys"
  by (simp add: sys_ok_def ex_sys_def flows_apart_def updater_ok_def ex_kernel_idx_ok)

text \<open>Two CPUs receive the last packet of the same flow, and an update starts whose lookup fails: it is
  going to write the slot that is active.\<close>

definition blind_env :: hot_env where
  "blind_env = \<lparr>lookup_err = -2, params_err = 0, idx_err = 0\<rparr>"

theorem every_interleaving_safe_witness:
  "\<exists>s. any_steps ex_sys s \<and> cpu s 0 \<noteq> None \<and> cpu s 1 \<noteq> None \<and>
     updater s = Chosen 1 \<and> active_idx s = Some 1 \<and>
     (\<forall>c t. cpu s c = Some t \<longrightarrow>
       (\<exists>k' e. exec_program (prog t) (pkt t) (kern s) = Some (k', e) \<and> passes e))"
proof -
  have k: "kern ex_sys = ex_kernel" "cpu ex_sys = Map.empty" "updater ex_sys = Waiting"
    by (simp_all add: ex_sys_def)
  have wf: "kernel_wf (kern ex_sys)" "progs_loaded (kern ex_sys)" "active_idx ex_sys = Some 1"
    using ex_kernel_wf ex_kernel_simps(1) by (simp_all add: active_idx_def k)
  have base: "base_entry (kern ex_sys) (frame_flow ex_fin) (packet_obs (kern ex_sys) ex_fin (packet_len ex_fin)) =
      Some (first_attribute (packet_obs (kern ex_sys) ex_fin (packet_len ex_fin)))"
    by (simp only: k ex_base)
  obtain s1 a where s1: "any_step (Cpu 0) ex_sys s1" "in_flight 0 ex_fin shipped_net a 0 s1"
    "active_idx s1 = Some 1" "progs (kern s1) = progs (kern ex_sys)"
    by (rule receive_starts [OF ex_frame(2,4) wf(1,2) _ base wf(3), of 0, where net = shipped_net])
      (simp add: k)
  have ok1: "any_ok s1"
    using any_step_ok [OF s1(1)] ex_sys_ok by (simp add: any_ok_def sys_ok_def slot_known_def updater_ok_def k)
  obtain a1 where "hash_lookup (flow_map (kern s1)) (frame_flow ex_fin) = Some a1"
    using s1(2) by (auto simp: in_flight_def)
  then have base1: "base_entry (kern s1) (frame_flow ex_fin) (packet_obs (kern s1) ex_fin (packet_len ex_fin)) = Some a1"
    by (simp add: base_entry_def)
  have pl1: "progs_loaded (kern s1)" using wf(2) s1(4) by (simp add: progs_loaded_def)
  have idle1: "cpu s1 1 = None" using cpu_step_frame(4) [OF s1(1), of 1] by (simp add: k)
  have wf1: "kernel_wf (kern s1)" using ok1 by (simp add: any_ok_def)
  obtain s2 b where s2: "any_step (Cpu 1) s1 s2" "in_flight 1 ex_fin shipped_net b 0 s2" "active_idx s2 = Some 1"
    by (rule receive_starts [OF ex_frame(2,4) wf1 pl1 idle1 base1 s1(3), where net = shipped_net])
  have up: "updater s2 = Waiting" "cpu s2 0 = cpu s1 0"
    using cpu_step_frame [OF s2(1)] cpu_step_frame(3) [OF s1(1)] k(3) by simp_all
  let ?s3 = "s2\<lparr>updater := Chosen (next_idx (read_idx blind_env (kern s2))), started := Suc (started s2)\<rparr>"
  have chosen: "next_idx (read_idx blind_env (kern s2)) = 1" by (simp add: read_idx_def blind_env_def)
  have run: "any_steps ex_sys ?s3"
    by (rule any_step_steps [OF s1(1) any_step_steps [OF s2(1) any_step_steps [OF Any_read_idx [OF up(1)]
      rtranclp.rtrancl_refl]]])
  have "\<forall>c t. cpu ?s3 c = Some t \<longrightarrow>
      (\<exists>k' e. exec_program (prog t) (pkt t) (kern ?s3) = Some (k', e) \<and> passes e)"
    using every_interleaving_safe [OF ex_kernel_wf ex_kernel_idx_ok ex_kernel_simps(2) run [unfolded ex_sys_def]]
    by blast
  moreover have "cpu ?s3 0 \<noteq> None" "cpu ?s3 1 \<noteq> None" "updater ?s3 = Chosen 1" "active_idx ?s3 = Some 1"
    using s1(2) s2(2,3) up(2) chosen by (simp_all add: in_flight_def active_idx_def)
  ultimately show ?thesis using run by blast
qed

text \<open>C5: the double buffer. Let slot \<open>i\<close> be active in a state \<open>s\<close>, where detections latch it. As long as
  no second update has started since, its parameters are unchanged in every later state, whatever
  the CPUs do and however far the one update has got.\<close>

theorem double_buffer:
  assumes "sys_ok s" "active_idx s = Some i" "sys_steps s s'" "started s' \<le> Suc (finished s)"
  shows "array_lookup (nn_parameters (kern s')) i = array_lookup (nn_parameters (kern s)) i"
proof -
  have "slot_kept (finished s) i (array_lookup (nn_parameters (kern s)) i) s"
    using assms(2) by (simp add: slot_kept_def)
  from slot_kept_steps [OF assms(3,1) this] assms(4) show ?thesis by (simp add: slot_kept_def)
qed

text \<open>A run with one whole update.\<close>

definition ex_sys1 :: sys where
  "ex_sys1 = ex_sys\<lparr>updater := Chosen 0, started := 1\<rparr>"

definition ex_sys2 :: sys where
  "ex_sys2 = ex_sys1\<lparr>kern := write_params ok_env 0 zero_net ex_kernel, updater := Written 0\<rparr>"

definition ex_sys3 :: sys where
  "ex_sys3 = ex_sys2\<lparr>kern := write_idx ok_env 0 (write_params ok_env 0 zero_net ex_kernel),
     updater := Waiting, finished := 1\<rparr>"

lemma ex_sys_steps: "sys_steps ex_sys ex_sys3"
proof -
  have "read_idx ok_env (kern ex_sys) = 1" by (simp add: read_idx_def ok_env_def ex_sys_def)
  then have "sys_step ex_sys ex_sys1"
    using Read_idx [of ex_sys ok_env] by (simp add: ex_sys1_def) (simp add: ok_env_def ex_sys_def)
  moreover have "sys_step ex_sys1 ex_sys2"
    using Write_params [of ex_sys1 0 zero_net ok_env] by (simp add: ex_sys1_def ex_sys2_def ex_sys_def)
  moreover have "sys_step ex_sys2 ex_sys3"
    using Write_idx [of ex_sys2 0 ok_env] by (simp add: ex_sys2_def ex_sys3_def ex_sys1_def ex_sys_def)
  ultimately show ?thesis by (meson converse_rtranclp_into_rtranclp rtranclp.rtrancl_refl)
qed

theorem double_buffer_witness:
  "array_lookup (nn_parameters (kern ex_sys3)) 1 = array_lookup (nn_parameters (kern ex_sys)) 1"
  by (rule double_buffer [OF ex_sys_ok _ ex_sys_steps])
    (simp_all add: active_idx_def ex_sys_def ex_sys1_def ex_sys2_def ex_sys3_def)

text \<open>C4: a detection in the running system. CPU \<open>c\<close> receives the last packet of a flow while network
  \<open>net\<close> is active. In every later state, up to the start of a second update, either the chain is still
  running on that CPU or the verdict of \<open>net\<close> on the flow's features has been printed; packets of
  other flows on other CPUs and one hot update, at any point, do not disturb it.\<close>

theorem concurrent_detection:
  assumes ok: "sys_ok s" and progs: "progs_loaded (kern s)"
    and mon: "monitored ctx" "ends_flow ctx"
    and idle: "cpu s c = None"
    and alone: "\<forall>c' t. cpu s c' = Some t \<longrightarrow> frame_flow (pkt t) \<noteq> frame_flow ctx"
    and base: "base_entry (kern s) (frame_flow ctx) (packet_obs (kern s) ctx (packet_len ctx)) = Some a0"
    and idx: "active_idx s = Some i" "array_lookup (nn_parameters (kern s)) i = Some net"
  shows "\<exists>s1. sys_step s s1 \<and>
     (\<forall>s'. sys_steps s1 s' \<longrightarrow> started s' \<le> Suc (finished s) \<longrightarrow>
        (\<exists>t. cpu s' c = Some t \<and> pkt t = ctx) \<or>
        (\<exists>v\<in>set (drop (length (log (kern s))) (log (kern s'))).
           label v = classify net (feature_vector (observe (packet_obs (kern s) ctx (packet_len ctx)) a0))))"
proof -
  have wf: "kernel_wf (kern s)" using ok by (simp add: sys_ok_def)
  obtain s1 a where s1: "sys_step s s1" "in_flight c ctx net a 0 s1" "attribute_wf a" "nn_idx a = i"
    "active_idx s1 = Some i"
    "feature_vector a = feature_vector (observe (packet_obs (kern s) ctx (packet_len ctx)) a0)"
    and eq: "nn_parameters (kern s1) = nn_parameters (kern s)" "progs (kern s1) = progs (kern s)"
    "log (kern s1) = log (kern s)" "finished s1 = finished s"
    by (rule receive_starts [OF mon wf progs idle base idx(1), where net = net]) (use alone in blast)
  have "(\<exists>t. cpu s' c = Some t \<and> pkt t = ctx) \<or>
      (\<exists>v\<in>set (drop (length (log (kern s))) (log (kern s'))). label v = classify net (feature_vector a))"
    if "sys_steps s1 s'" "started s' \<le> Suc (finished s)" for s'
  proof -
    have "(\<exists>n. in_flight c ctx net a n s') \<or>
        printed (classify net (feature_vector a)) (length (log (kern s1))) s'"
    proof (rule detection_steps(1) [OF that(1) _ sys_step_ok [OF s1(1) ok] s1(2)])
      show "tcp4_frame ctx" by (rule monitored_frame [OF mon(1)])
      show "net_wf net" by (rule kernel_wf_net [OF wf idx(2)])
    qed (use that(2) s1 eq idx progs in \<open>simp_all add: progs_loaded_def\<close>)
    then show ?thesis by (auto simp: in_flight_def printed_def eq)
  qed
  then show ?thesis using s1(1) unfolding s1(6) by blast
qed

theorem concurrent_detection_witness:
  "\<exists>s1. sys_step ex_sys s1 \<and>
     ((\<exists>t. cpu s1 0 = Some t \<and> pkt t = ex_fin) \<or>
      (\<exists>v\<in>set (log (kern s1)). label v = classify shipped_net (feature_vector
        (observe (packet_obs ex_kernel ex_fin 40) (first_attribute (packet_obs ex_kernel ex_fin 40))))))"
proof -
  have k: "kern ex_sys = ex_kernel" "cpu ex_sys = Map.empty" "log (kern ex_sys) = []" "finished ex_sys = 0"
    by (simp_all add: ex_sys_def) (simp add: ex_kernel_def fresh_kernel_def)
  have idx: "active_idx ex_sys = Some 1" by (simp add: active_idx_def k)
  have le: "started s1 \<le> 1" if "sys_step ex_sys s1" for s1
    using that by (rule sys_stepE) (simp_all add: ex_sys_def)
  obtain s1 where "sys_step ex_sys s1" and
    all: "\<forall>s'. sys_steps s1 s' \<longrightarrow> started s' \<le> Suc (finished ex_sys) \<longrightarrow>
        (\<exists>t. cpu s' 0 = Some t \<and> pkt t = ex_fin) \<or>
        (\<exists>v\<in>set (drop (length (log (kern ex_sys))) (log (kern s'))).
           label v = classify shipped_net (feature_vector (observe (packet_obs (kern ex_sys) ex_fin
             (packet_len ex_fin)) (first_attribute (packet_obs (kern ex_sys) ex_fin (packet_len ex_fin))))))"
    using concurrent_detection [OF ex_sys_ok _ ex_frame(2,4) _ _ _ idx, of 0 _ shipped_net]
    unfolding k(1,2) ex_frame(6) using ex_base ex_kernel_simps(1,6) by (metis option.distinct(1))
  moreover from this(1) have "started s1 \<le> Suc (finished ex_sys)" using le k(4) by simp
  ultimately show ?thesis using k by (auto simp: ex_len)
qed

text \<open>C25: a detection completes. CPU \<open>c\<close> receives the last packet of a flow; then its next six steps
  exist, and whatever six steps of this CPU alone follow (nobody else moves), they end with it idle
  and with one more line in the log, the verdict of the active network on the flow's features; other
  CPUs and the updater are where they were. It needs no other CPU, not even one that has the same
  flow in hand, and no update to finish.\<close>

theorem detection_completes:
  assumes wf: "kernel_wf (kern s)" and progs: "progs_loaded (kern s)"
    and mon: "monitored ctx" "ends_flow ctx"
    and idle: "cpu s c = None"
    and base: "base_entry (kern s) (frame_flow ctx) (packet_obs (kern s) ctx (packet_len ctx)) = Some a0"
    and idx: "active_idx s = Some i" "array_lookup (nn_parameters (kern s)) i = Some net"
  shows "\<exists>s1. any_step (Cpu c) s s1 \<and> (\<exists>t. cpu s1 c = Some t \<and> pkt t = ctx) \<and> log (kern s1) = log (kern s) \<and>
     (\<exists>s'. (any_step (Cpu c) ^^ 6) s1 s') \<and>
     (\<forall>s'. (any_step (Cpu c) ^^ 6) s1 s' \<longrightarrow>
        cpu s' c = None \<and> updater s' = updater s \<and> (\<forall>d. d \<noteq> c \<longrightarrow> cpu s' d = cpu s d) \<and>
        (\<exists>v. log (kern s') = log (kern s) @ [v] \<and>
           label v = classify net (feature_vector (observe (packet_obs (kern s) ctx (packet_len ctx)) a0))))"
proof -
  obtain s1 a where s1: "any_step (Cpu c) s s1" "in_flight c ctx net a 0 s1" "attribute_wf a" "nn_idx a = i"
    and fv: "feature_vector a = feature_vector (observe (packet_obs (kern s) ctx (packet_len ctx)) a0)"
    and eq: "nn_parameters (kern s1) = nn_parameters (kern s)" "progs (kern s1) = progs (kern s)"
    "log (kern s1) = log (kern s)"
    by (rule receive_starts [OF mon wf progs idle base idx(1), where net = net]) blast
  have "\<exists>t. cpu s1 c = Some t \<and> pkt t = ctx" using s1(2) by (simp add: in_flight_def)
  moreover have "progs_loaded (kern s1)" "array_lookup (nn_parameters (kern s1)) (nn_idx a) = Some net"
    using progs idx(2) s1(4) eq by (simp_all add: progs_loaded_def)
  from in_flight_finishes [OF s1(2) monitored_frame [OF mon(1)] s1(3) kernel_wf_net [OF wf idx(2)] this(2,1)]
  have "(\<exists>s'. (any_step (Cpu c) ^^ 6) s1 s') \<and>
     (\<forall>s'. (any_step (Cpu c) ^^ 6) s1 s' \<longrightarrow>
        cpu s' c = None \<and> updater s' = updater s \<and> (\<forall>d. d \<noteq> c \<longrightarrow> cpu s' d = cpu s d) \<and>
        (\<exists>v. log (kern s') = log (kern s) @ [v] \<and> label v = classify net (feature_vector a)))"
    using cpu_step_frame [OF s1(1)] eq(3) by simp
  ultimately show ?thesis unfolding fv [symmetric] using s1(1) eq(3) by blast
qed

theorem detection_completes_witness:
  "\<exists>s1 s' v. any_step (Cpu 0) ex_sys s1 \<and> (any_step (Cpu 0) ^^ 6) s1 s' \<and> cpu s' 0 = None \<and>
     log (kern s') = [v] \<and> label v = classify shipped_net (feature_vector
        (observe (packet_obs ex_kernel ex_fin 40) (first_attribute (packet_obs ex_kernel ex_fin 40))))"
proof -
  have k: "kern ex_sys = ex_kernel" "cpu ex_sys = Map.empty" "log (kern ex_sys) = []"
    by (simp_all add: ex_sys_def) (simp add: ex_kernel_def fresh_kernel_def)
  have idx: "active_idx ex_sys = Some 1" by (simp add: active_idx_def k)
  obtain s1 where s1: "any_step (Cpu 0) ex_sys s1" "\<exists>s'. (any_step (Cpu 0) ^^ 6) s1 s'"
    "\<forall>s'. (any_step (Cpu 0) ^^ 6) s1 s' \<longrightarrow> cpu s' 0 = None \<and> (\<exists>v. log (kern s') = log (kern ex_sys) @ [v] \<and>
       label v = classify shipped_net (feature_vector (observe (packet_obs (kern ex_sys) ex_fin
         (packet_len ex_fin)) (first_attribute (packet_obs (kern ex_sys) ex_fin (packet_len ex_fin))))))"
    using detection_completes [of ex_sys ex_fin 0 _ 1 shipped_net, unfolded k(1), OF ex_kernel_wf
        ex_kernel_simps(1) ex_frame(2,4) _ _ idx ex_kernel_simps(6)] ex_base
    unfolding k(1,2) ex_frame(6) by metis
  then show ?thesis using k(3) unfolding k(1) by (simp add: ex_len k(1)) blast
qed

section \<open>Lengths\<close>

text \<open>C30: the length a packet contributes is the IP total length minus the IP header length modulo
  \<open>2 ^ 64\<close>: exact for a consistent header; for a total length below the header length it is a huge
  number, the remainder of the negative difference.\<close>

theorem packet_length_value:
  "uint (packet_len ctx) =
     (uint (le16 (bytes ctx ! 17) (bytes ctx ! 16)) - 4 * uint (bytes ctx ! 14 AND 15)) mod 2 ^ 64"
proof -
  let ?t = "le16 (bytes ctx ! 17) (bytes ctx ! 16)" and ?h = "bytes ctx ! 14 AND 15"
  have t: "0 \<le> uint ?t" "uint ?t < 65536" using uint_lt2p [of ?t] by simp_all
  have h: "0 \<le> uint ?h" "uint ?h \<le> 15"
    by (simp_all add: unsigned_and_eq)
  have w: "(ucast ?t :: 32 word) - ucast ?h * 4 = word_of_int (uint ?t - 4 * uint ?h)"
    by simp
  have "sint ((ucast ?t :: 32 word) - ucast ?h * 4) = uint ?t - 4 * uint ?h"
    unfolding w by (rule sint_of_int_s32) (use t h in linarith)+
  then have "packet_len ctx = word_of_int (uint ?t - 4 * uint ?h)"
    unfolding packet_len_def scast_eq by (rule arg_cong)
  then show ?thesis by (simp only: uint_word_of_int) simp
qed

end
